(* ===== verification/Prelude.thy ===== *)
theory Prelude
  imports Main "HOL-Library.Word"
begin

text \<open>
  Shared vocabulary of the development: bytes and their big- and little-endian integer
  encodings, results with errors, the random source, ASCII text, and the list lemmas the
  components use. Third-party code never appears here; where the program calls it, the
  component theories take it as an argument.
\<close>

section \<open>Collections of rules\<close>

named_theorems result_simps \<open>unfolding of result-valued code\<close>
named_theorems file_simps \<open>effects of file operations\<close>
named_theorems wire_simps \<open>lengths and decodings of wire formats\<close>

section \<open>Results\<close>

text \<open>A Rust \<open>Result\<close> is \<open>'e + 'a\<close>; \<open>bindE\<close> is the \<open>?\<close> operator.\<close>

fun bindE :: "'e + 'a \<Rightarrow> ('a \<Rightarrow> 'e + 'b) \<Rightarrow> 'e + 'b" where
  "bindE (Inl e) f = Inl e"
| "bindE (Inr x) f = f x"

text \<open>\<open>guardE b e\<close> is the early return \<open>if !b { return Err(e) }\<close>.\<close>

definition guardE :: "bool \<Rightarrow> 'e \<Rightarrow> 'e + unit" where
  "guardE b e = (if b then Inr () else Inl e)"

text \<open>\<open>Option::ok_or\<close>.\<close>

fun ok_or :: "'e \<Rightarrow> 'a option \<Rightarrow> 'e + 'a" where
  "ok_or e None = Inl e"
| "ok_or e (Some x) = Inr x"

text \<open>\<open>Result::map_err\<close>.\<close>

fun map_err :: "('e \<Rightarrow> 'f) \<Rightarrow> 'e + 'a \<Rightarrow> 'f + 'a" where
  "map_err f (Inl e) = Inl (f e)"
| "map_err f (Inr x) = Inr x"

fun is_ok :: "'e + 'a \<Rightarrow> bool" where
  "is_ok (Inl e) = False"
| "is_ok (Inr x) = True"

lemma bindE_eq_Inr [result_simps]:
  "bindE m f = Inr y \<longleftrightarrow> (\<exists>x. m = Inr x \<and> f x = Inr y)"
  by (cases m) auto

lemma bindE_eq_Inl:
  "bindE m f = Inl e \<longleftrightarrow> m = Inl e \<or> (\<exists>x. m = Inr x \<and> f x = Inl e)"
  by (cases m) auto

lemma guardE_eq_Inr [result_simps]: "guardE b e = Inr u \<longleftrightarrow> b"
  by (simp add: guardE_def)

lemma guardE_True [simp]: "guardE True e = Inr ()"
  by (simp add: guardE_def)

lemma guardE_False [simp]: "guardE False e = Inl e"
  by (simp add: guardE_def)

lemma ok_or_eq_Inr [result_simps]: "ok_or e m = Inr x \<longleftrightarrow> m = Some x"
  by (cases m) auto

lemma map_err_eq_Inr [result_simps]: "map_err f m = Inr x \<longleftrightarrow> m = Inr x"
  by (cases m) auto

lemma is_ok_iff: "is_ok m \<longleftrightarrow> (\<exists>x. m = Inr x)"
  by (cases m) auto

section \<open>Bytes and machine integers\<close>

type_synonym byte = "8 word"
type_synonym bytes = "byte list"
type_synonym u16 = "16 word"
type_synonym u32 = "32 word"
type_synonym u64 = "64 word"

text \<open>
  The \<open>n\<close> big-endian bytes of a number and the number a byte string denotes. The
  conversions of the fixed-width types (\<open>to_be_bytes\<close>, \<open>from_be_bytes\<close> and their
  little-endian siblings) are built from them.
\<close>

fun be_bytes :: "nat \<Rightarrow> nat \<Rightarrow> bytes" where
  "be_bytes 0 k = []"
| "be_bytes (Suc n) k = be_bytes n (k div 256) @ [word_of_nat (k mod 256)]"

definition be_val :: "bytes \<Rightarrow> nat" where
  "be_val bs = foldl (\<lambda>a b. a * 256 + unat b) 0 bs"

lemma unat_bound: "unat (w :: 'a::len word) < 2 ^ LENGTH('a)"
  by (rule unsigned_less)

lemma length_be_bytes [simp, wire_simps]: "length (be_bytes n k) = n"
  by (induction n arbitrary: k) auto

lemma be_val_Nil [simp]: "be_val [] = 0"
  by (simp add: be_val_def)

lemma be_val_snoc [simp]: "be_val (bs @ [b]) = be_val bs * 256 + unat b"
  by (simp add: be_val_def)

lemma unat_byte [simp]: "unat (word_of_nat (k mod 256) :: byte) = k mod 256"
  by (simp add: unat_of_nat)

lemma be_val_be_bytes [simp]: "be_val (be_bytes n k) = k mod 256 ^ n"
proof (induction n arbitrary: k)
  case 0
  then show ?case by simp
next
  case (Suc n)
  have "k mod 256 ^ Suc n = (k div 256 mod 256 ^ n) * 256 + k mod 256"
    by (simp add: mod_mult2_eq mult.commute)
  with Suc show ?case by simp
qed

lemma be_val_bound: "be_val bs < 256 ^ length bs"
proof (induction bs rule: rev_induct)
  case Nil
  then show ?case by simp
next
  case (snoc b bs)
  have "unat b < 256" using unat_bound [of b] by simp
  with snoc show ?case by simp
qed

lemma be_bytes_be_val [simp]: "be_bytes (length bs) (be_val bs) = bs"
proof (induction bs rule: rev_induct)
  case Nil
  then show ?case by simp
next
  case (snoc b bs)
  have "unat b < 256" using unat_bound [of b] by simp
  then have "(be_val bs * 256 + unat b) div 256 = be_val bs"
    and "(be_val bs * 256 + unat b) mod 256 = unat b" by simp_all
  with snoc show ?case by simp
qed

definition u16_to_be :: "u16 \<Rightarrow> bytes" where
  "u16_to_be w = be_bytes 2 (unat w)"

definition u32_to_be :: "u32 \<Rightarrow> bytes" where
  "u32_to_be w = be_bytes 4 (unat w)"

definition u64_to_be :: "u64 \<Rightarrow> bytes" where
  "u64_to_be w = be_bytes 8 (unat w)"

definition u128_to_be :: "128 word \<Rightarrow> bytes" where
  "u128_to_be w = be_bytes 16 (unat w)"

definition u128_from_be :: "bytes \<Rightarrow> 128 word" where
  "u128_from_be bs = word_of_nat (be_val bs)"

definition u16_from_be :: "bytes \<Rightarrow> u16" where
  "u16_from_be bs = word_of_nat (be_val bs)"

definition u32_from_be :: "bytes \<Rightarrow> u32" where
  "u32_from_be bs = word_of_nat (be_val bs)"

definition u64_from_be :: "bytes \<Rightarrow> u64" where
  "u64_from_be bs = word_of_nat (be_val bs)"

definition u32_to_le :: "u32 \<Rightarrow> bytes" where
  "u32_to_le w = rev (u32_to_be w)"

definition u64_to_le :: "u64 \<Rightarrow> bytes" where
  "u64_to_le w = rev (u64_to_be w)"

definition u32_from_le :: "bytes \<Rightarrow> u32" where
  "u32_from_le bs = u32_from_be (rev bs)"

definition u64_from_le :: "bytes \<Rightarrow> u64" where
  "u64_from_le bs = u64_from_be (rev bs)"

lemmas int_codec_defs = u128_to_be_def u128_from_be_def u16_to_be_def u32_to_be_def u64_to_be_def u16_from_be_def
  u32_from_be_def u64_from_be_def u32_to_le_def u64_to_le_def u32_from_le_def u64_from_le_def

lemma int_codec_lengths [simp, wire_simps]:
  "length (u16_to_be a) = 2" "length (u32_to_be b) = 4" "length (u64_to_be c) = 8"
  "length (u32_to_le b) = 4" "length (u64_to_le c) = 8" "length (u128_to_be e) = 16"
  by (simp_all add: int_codec_defs)

lemma u16_be_roundtrip [simp]: "u16_from_be (u16_to_be w) = w"
  using unat_bound [of w] by (simp add: int_codec_defs)

lemma u32_be_roundtrip [simp]: "u32_from_be (u32_to_be w) = w"
  using unat_bound [of w] by (simp add: int_codec_defs)

lemma u64_be_roundtrip [simp]: "u64_from_be (u64_to_be w) = w"
  using unat_bound [of w] by (simp add: int_codec_defs)

lemma u128_be_roundtrip [simp]: "u128_from_be (u128_to_be w) = w"
  using unat_bound [of w] by (simp add: int_codec_defs)

lemma u128_to_be_from_be: "length bs = 16 \<Longrightarrow> u128_to_be (u128_from_be bs) = bs"
  using be_val_bound [of bs] be_bytes_be_val [of bs] by (simp add: int_codec_defs unat_of_nat)

lemma u32_le_roundtrip [simp]: "u32_from_le (u32_to_le w) = w"
  by (simp add: u32_from_le_def u32_to_le_def)

lemma u64_le_roundtrip [simp]: "u64_from_le (u64_to_le w) = w"
  by (simp add: u64_from_le_def u64_to_le_def)

lemma u16_to_be_from_be: "length bs = 2 \<Longrightarrow> u16_to_be (u16_from_be bs) = bs"
  using be_val_bound [of bs] be_bytes_be_val [of bs] by (simp add: int_codec_defs unat_of_nat)

lemma u32_to_be_from_be: "length bs = 4 \<Longrightarrow> u32_to_be (u32_from_be bs) = bs"
  using be_val_bound [of bs] be_bytes_be_val [of bs] by (simp add: int_codec_defs unat_of_nat)

lemma u64_to_be_from_be: "length bs = 8 \<Longrightarrow> u64_to_be (u64_from_be bs) = bs"
  using be_val_bound [of bs] be_bytes_be_val [of bs] by (simp add: int_codec_defs unat_of_nat)

lemma u32_to_le_from_le: "length bs = 4 \<Longrightarrow> u32_to_le (u32_from_le bs) = bs"
  by (simp add: u32_to_le_def u32_from_le_def u32_to_be_from_be)

lemma unat_u64_of_nat [simp]: "k < 2 ^ 64 \<Longrightarrow> unat (word_of_nat k :: u64) = k"
  by (simp add: unat_of_nat)

lemma unat_u32_of_nat [simp]: "k < 2 ^ 32 \<Longrightarrow> unat (word_of_nat k :: u32) = k"
  by (simp add: unat_of_nat)

lemma unat_u16_of_nat [simp]: "k < 2 ^ 16 \<Longrightarrow> unat (word_of_nat k :: u16) = k"
  by (simp add: unat_of_nat)

lemma unat_u8_of_nat [simp]: "k < 2 ^ 8 \<Longrightarrow> unat (word_of_nat k :: byte) = k"
  by (simp add: unat_of_nat)

text \<open>Rust's \<open>checked_add\<close> and \<open>saturating_add\<close> on \<open>u64\<close>.\<close>

definition checked_add :: "u64 \<Rightarrow> u64 \<Rightarrow> u64 option" where
  "checked_add a b = (if unat a + unat b < 2 ^ 64 then Some (a + b) else None)"

definition saturating_add :: "u64 \<Rightarrow> u64 \<Rightarrow> u64" where
  "saturating_add a b = (if unat a + unat b < 2 ^ 64 then a + b else 18446744073709551615)"

lemma unat_saturating_add: "unat (saturating_add a b) = min (unat a + unat b) (2 ^ 64 - 1)"
proof (cases "unat a + unat b < 2 ^ 64")
  case True
  then show ?thesis by (simp add: saturating_add_def unat_word_ariths)
next
  case False
  moreover have "unat (18446744073709551615 :: u64) = 2 ^ 64 - 1" by simp
  ultimately show ?thesis by (simp add: saturating_add_def)
qed

section \<open>The random source\<close>

text \<open>
  The operating system's generator is an unbounded supply of bytes; drawing \<open>n\<close> bytes
  returns them and the rest of the supply.
\<close>

type_synonym rng = "nat \<Rightarrow> byte"

definition draw :: "nat \<Rightarrow> rng \<Rightarrow> bytes \<times> rng" where
  "draw n g = (map g [0..<n], \<lambda>i. g (i + n))"

lemma length_draw [simp]: "length (fst (draw n g)) = n"
  by (simp add: draw_def)

lemma draw_length: "draw n g = (bs, g') \<Longrightarrow> length bs = n"
  by (auto simp: draw_def)

section \<open>Text\<close>

text \<open>
  Text is modelled over ASCII: a \<open>str\<close> is a \<open>string\<close> whose characters are its bytes.
\<close>

definition str_bytes :: "string \<Rightarrow> bytes" where
  "str_bytes s = map of_char s"

definition bytes_str :: "bytes \<Rightarrow> string" where
  "bytes_str bs = map (\<lambda>b. char_of (unat b)) bs"

definition to_lower :: "char \<Rightarrow> char" where
  "to_lower c = (let n = of_char c :: nat in if 65 \<le> n \<and> n \<le> 90 then char_of (n + 32) else c)"

definition to_upper :: "char \<Rightarrow> char" where
  "to_upper c = (let n = of_char c :: nat in if 97 \<le> n \<and> n \<le> 122 then char_of (n - 32) else c)"

definition to_lowercase :: "string \<Rightarrow> string" where
  "to_lowercase s = map to_lower s"

definition to_uppercase :: "string \<Rightarrow> string" where
  "to_uppercase s = map to_upper s"

definition is_whitespace :: "char \<Rightarrow> bool" where
  "is_whitespace c = (let n = of_char c :: nat in n = 32 \<or> (9 \<le> n \<and> n \<le> 13))"

definition trim :: "string \<Rightarrow> string" where
  "trim s = rev (dropWhile is_whitespace (rev (dropWhile is_whitespace s)))"

text \<open>\<open>str::strip_prefix\<close> and \<open>str::strip_suffix\<close>, also on byte slices.\<close>

definition strip_prefix :: "'a list \<Rightarrow> 'a list \<Rightarrow> 'a list option" where
  "strip_prefix p s = (if take (length p) s = p then Some (drop (length p) s) else None)"

definition strip_suffix :: "'a list \<Rightarrow> 'a list \<Rightarrow> 'a list option" where
  "strip_suffix p s = map_option rev (strip_prefix (rev p) (rev s))"

lemma length_str_bytes [simp]: "length (str_bytes s) = length s"
  by (simp add: str_bytes_def)

lemma length_bytes_str [simp]: "length (bytes_str s) = length s"
  by (simp add: bytes_str_def)

lemma of_char_byte_lt: "(of_char c :: nat) < 256"
  by (metis of_char_mod_256 mod_less_divisor zero_less_numeral)

lemma of_char_byte: "(of_char c :: byte) = word_of_nat (of_char c)"
  by (metis of_nat_of_char)

lemma bytes_str_str_bytes [simp]: "bytes_str (str_bytes s) = s"
  using of_char_byte_lt by (simp add: bytes_str_def str_bytes_def comp_def of_char_byte)

lemma str_bytes_inj: "str_bytes s = str_bytes t \<Longrightarrow> s = t"
  by (metis bytes_str_str_bytes)

lemma strip_prefix_append [simp]: "strip_prefix p (p @ s) = Some s"
  by (simp add: strip_prefix_def)

lemma strip_prefix_Some: "strip_prefix p s = Some t \<longleftrightarrow> s = p @ t"
  by (auto simp: strip_prefix_def) (metis append_take_drop_id)

lemma strip_suffix_Some: "strip_suffix p s = Some t \<longleftrightarrow> s = t @ p"
proof -
  have "strip_suffix p s = Some t \<longleftrightarrow> strip_prefix (rev p) (rev s) = Some (rev t)"
    by (auto simp: strip_suffix_def)
  also have "\<dots> \<longleftrightarrow> rev s = rev (t @ p)"
    by (simp add: strip_prefix_Some)
  also have "\<dots> \<longleftrightarrow> s = t @ p"
    by (rule rev_is_rev_conv)
  finally show ?thesis .
qed

lemma length_lowercase [simp]: "length (to_lowercase s) = length s"
  by (simp add: to_lowercase_def)

lemma to_lowercase_append [simp]: "to_lowercase (s @ t) = to_lowercase s @ to_lowercase t"
  by (simp add: to_lowercase_def)

text \<open>\<open>core::str::from_utf8\<close>: well-formed UTF-8 (Unicode table 3-7).\<close>

definition cont :: "byte \<Rightarrow> bool" where
  "cont b \<longleftrightarrow> 0x80 \<le> b \<and> b \<le> 0xBF"

function utf8_valid :: "bytes \<Rightarrow> bool" where
  "utf8_valid bs = (case bs of [] \<Rightarrow> True | a # r \<Rightarrow>
     if a < 0x80 then utf8_valid r
     else if 0xC2 \<le> a \<and> a \<le> 0xDF then
       (case r of b # r' \<Rightarrow> cont b \<and> utf8_valid r' | _ \<Rightarrow> False)
     else if 0xE0 \<le> a \<and> a \<le> 0xEF then
       (case r of b # c # r' \<Rightarrow>
          cont b \<and> cont c \<and> (a = 0xE0 \<longrightarrow> 0xA0 \<le> b) \<and> (a = 0xED \<longrightarrow> b \<le> 0x9F) \<and> utf8_valid r'
        | _ \<Rightarrow> False)
     else if 0xF0 \<le> a \<and> a \<le> 0xF4 then
       (case r of b # c # d # r' \<Rightarrow>
          cont b \<and> cont c \<and> cont d \<and> (a = 0xF0 \<longrightarrow> 0x90 \<le> b) \<and> (a = 0xF4 \<longrightarrow> b \<le> 0x8F) \<and> utf8_valid r'
        | _ \<Rightarrow> False)
     else False)"
  by pat_completeness auto
termination by (relation "measure length") auto

declare utf8_valid.simps [simp del]

definition from_utf8 :: "bytes \<Rightarrow> string option" where
  "from_utf8 bs = (if utf8_valid bs then Some (bytes_str bs) else None)"

lemma utf8_valid_ascii: "\<forall>b \<in> set bs. b < 0x80 \<Longrightarrow> utf8_valid bs"
  by (induction bs) (simp_all add: utf8_valid.simps)

text \<open>ASCII strings survive the passage through bytes.\<close>

definition is_ascii :: "string \<Rightarrow> bool" where
  "is_ascii s = list_all (\<lambda>c. (of_char c :: nat) < 128) s"

lemma from_utf8_str_bytes [simp]: "is_ascii s \<Longrightarrow> from_utf8 (str_bytes s) = Some s"
proof -
  assume "is_ascii s"
  then have "\<forall>b \<in> set (str_bytes s). b < 0x80"
    by (auto simp: is_ascii_def str_bytes_def list_all_iff word_less_nat_alt of_char_byte of_char_byte_lt)
  then show ?thesis by (simp add: from_utf8_def utf8_valid_ascii)
qed

lemma str_bytes_bytes_str [simp]: "str_bytes (bytes_str bs) = bs"
proof -
  have "(of_char (char_of (unat b) :: char) :: byte) = b" for b :: byte
    using unat_bound [of b] by (simp add: of_char_byte)
  then show ?thesis by (simp add: str_bytes_def bytes_str_def comp_def)
qed

lemma from_utf8_Some: "from_utf8 bs = Some s \<Longrightarrow> utf8_valid (str_bytes s)"
  by (auto simp: from_utf8_def split: if_splits)

lemma trim_id:
  assumes "s \<noteq> []" "\<not> is_whitespace (hd s)" "\<not> is_whitespace (last s)"
  shows "trim s = s"
proof -
  have "dropWhile is_whitespace s = s" using assms(1,2) by (cases s) simp_all
  moreover have "dropWhile is_whitespace (rev s) = rev s"
    using assms(1,3) by (cases s rule: rev_cases) simp_all
  ultimately show ?thesis by (simp add: trim_def)
qed

lemma set_trim: "set (trim s) \<subseteq> set s"
  by (auto simp: trim_def dest!: set_dropWhileD)

lemma to_lower_idem [simp]: "to_lower (to_lower c) = to_lower c"
  by (simp add: to_lower_def Let_def)

lemma to_lowercase_idem [simp]: "to_lowercase (to_lowercase s) = to_lowercase s"
  by (simp add: to_lowercase_def)

section \<open>Lists\<close>

text \<open>\<open>slice i n xs\<close> is \<open>&xs[i..i+n]\<close>; \<open>splice i ys xs\<close> overwrites from \<open>i\<close>.\<close>

definition slice :: "nat \<Rightarrow> nat \<Rightarrow> 'a list \<Rightarrow> 'a list" where
  "slice i n xs = take n (drop i xs)"

definition splice :: "nat \<Rightarrow> 'a list \<Rightarrow> 'a list \<Rightarrow> 'a list" where
  "splice i ys xs = take i xs @ ys @ drop (i + length ys) xs"

lemma length_slice: "i + n \<le> length xs \<Longrightarrow> length (slice i n xs) = n"
  by (simp add: slice_def)

lemma length_splice: "i \<le> length xs \<Longrightarrow> length (splice i ys xs) = max (length xs) (i + length ys)"
  by (auto simp: splice_def)

lemma slice_splice_same [simp]: "i \<le> length xs \<Longrightarrow> slice i (length ys) (splice i ys xs) = ys"
  by (simp add: slice_def splice_def)

lemma slice_splice_before: "i \<le> length xs \<Longrightarrow> j + n \<le> i \<Longrightarrow> slice j n (splice i ys xs) = slice j n xs"
proof -
  assume a: "i \<le> length xs" "j + n \<le> i"
  have "drop j (splice i ys xs) = drop j (take i xs) @ ys @ drop (i + length ys) xs"
    using a by (simp add: splice_def)
  moreover have "n \<le> length (drop j (take i xs))" using a by simp
  ultimately show ?thesis
    using a by (simp add: slice_def drop_take min_def)
qed

lemma slice_splice_after:
  "i \<le> length xs \<Longrightarrow> i + length ys \<le> j \<Longrightarrow> slice j n (splice i ys xs) = slice j n xs"
  by (simp add: slice_def splice_def)

lemma slice_0: "slice 0 n xs = take n xs"
  by (simp add: slice_def)

lemma slice_take: "i + n \<le> k \<Longrightarrow> slice i n (take k xs) = slice i n xs"
  by (simp add: slice_def drop_take min_def)

lemma slice_append1: "i + n \<le> length xs \<Longrightarrow> slice i n (xs @ ys) = slice i n xs"
  by (simp add: slice_def)

lemma slice_append2: "length xs \<le> i \<Longrightarrow> slice i n (xs @ ys) = slice (i - length xs) n ys"
  by (simp add: slice_def)

text \<open>Bytewise comparison of arrays, the \<open>Ord\<close> instance of \<open>[u8; N]\<close> and \<open>&[u8]\<close>.\<close>

fun bytes_less :: "bytes \<Rightarrow> bytes \<Rightarrow> bool" where
  "bytes_less [] [] = False"
| "bytes_less [] (y # ys) = True"
| "bytes_less (x # xs) [] = False"
| "bytes_less (x # xs) (y # ys) = (x < y \<or> (x = y \<and> bytes_less xs ys))"

lemma bytes_less_irrefl [simp]: "\<not> bytes_less xs xs"
  by (induction xs) auto

lemma bytes_less_asym: "bytes_less xs ys \<Longrightarrow> \<not> bytes_less ys xs"
  by (induction xs ys rule: bytes_less.induct) auto

lemma bytes_less_total: "xs \<noteq> ys \<Longrightarrow> bytes_less xs ys \<or> bytes_less ys xs"
  by (induction xs ys rule: bytes_less.induct) (auto simp: neq_iff)

section \<open>Searching and updating lists\<close>

text \<open>\<open>iter_mut().find(..)\<close> followed by an assignment: the first match is changed.\<close>

fun update_first :: "('a \<Rightarrow> bool) \<Rightarrow> ('a \<Rightarrow> 'a) \<Rightarrow> 'a list \<Rightarrow> 'a list option" where
  "update_first P f [] = None"
| "update_first P f (x # xs) =
     (if P x then Some (f x # xs) else map_option (\<lambda>ys. x # ys) (update_first P f xs))"

lemma update_first_None: "update_first P f xs = None \<longleftrightarrow> List.find P xs = None"
  by (induction xs) auto

lemma find_update_first:
  assumes "update_first P f xs = Some ys" "\<And>x. P x \<Longrightarrow> P (f x)"
  shows "List.find P ys = map_option f (List.find P xs)"
  using assms by (induction xs arbitrary: ys) (auto split: if_splits)

lemma find_update_other:
  assumes "update_first P f xs = Some ys" "\<And>x. P x \<Longrightarrow> \<not> Q x \<and> \<not> Q (f x)"
  shows "List.find Q ys = List.find Q xs"
  using assms by (induction xs arbitrary: ys) (auto split: if_splits)

lemma find_append: "List.find P (xs @ ys) = (case List.find P xs of None \<Rightarrow> List.find P ys | Some x \<Rightarrow> Some x)"
  by (induction xs) auto

lemma set_update_first:
  "update_first P f xs = Some ys \<Longrightarrow> y \<in> set ys \<Longrightarrow> y \<in> set xs \<or> (\<exists>x \<in> set xs. y = f x)"
  by (induction xs arbitrary: ys) (auto split: if_splits)

lemma map_update_first:
  "update_first P f xs = Some ys \<Longrightarrow> (\<And>x. P x \<Longrightarrow> g (f x) = g x) \<Longrightarrow> map g ys = map g xs"
  by (induction xs arbitrary: ys) (auto split: if_splits)

end
