(* ===== verification/FileIO.thy ===== *)
theory FileIO
  imports Prelude
begin

text \<open>
  \<open>std::fs::File\<close> as the vault code uses it: the bytes of the file and the cursor. Reads past
  the end fail with \<open>UnexpectedEof\<close>, writes past the end fill the gap with zeros, and
  \<open>set_len\<close> truncates or extends. Device errors (a full disk, a failing medium) are not modelled.
\<close>

record File =
  fbytes :: bytes
  fpos :: nat

datatype io_error = UnexpectedEof | InvalidData | AlreadyExists | NotFound

definition new_file :: File where
  "new_file = \<lparr>fbytes = [], fpos = 0\<rparr>"

definition seek_start :: "nat \<Rightarrow> File \<Rightarrow> File" where
  "seek_start n f = f\<lparr>fpos := n\<rparr>"

definition read_exact :: "nat \<Rightarrow> File \<Rightarrow> io_error + bytes \<times> File" where
  "read_exact n f =
     (if fpos f + n \<le> length (fbytes f)
      then Inr (slice (fpos f) n (fbytes f), f\<lparr>fpos := fpos f + n\<rparr>)
      else Inl UnexpectedEof)"

text \<open>\<open>file.take(limit).read_to_end(..)\<close>.\<close>

definition read_to_end_limited :: "nat \<Rightarrow> File \<Rightarrow> bytes" where
  "read_to_end_limited lim f = take lim (drop (fpos f) (fbytes f))"

definition write_all :: "bytes \<Rightarrow> File \<Rightarrow> File" where
  "write_all bs f =
     (if bs = [] then f
      else f\<lparr>fbytes := splice (fpos f) bs (fbytes f @ replicate (fpos f - length (fbytes f)) 0),
             fpos := fpos f + length bs\<rparr>)"

definition set_len :: "nat \<Rightarrow> File \<Rightarrow> File" where
  "set_len n f = f\<lparr>fbytes := take n (fbytes f) @ replicate (n - length (fbytes f)) 0\<rparr>"

section \<open>What the operations do\<close>

lemma seek_start_simps [simp]:
  "fbytes (seek_start n f) = fbytes f" "fpos (seek_start n f) = n"
  by (simp_all add: seek_start_def)

lemma set_len_simps [simp]: "fpos (set_len n f) = fpos f"
  by (simp add: set_len_def)

lemma fbytes_set_len [file_simps]: "n \<le> length (fbytes f) \<Longrightarrow> fbytes (set_len n f) = take n (fbytes f)"
  by (simp add: set_len_def)

lemma fpos_write_all [simp]: "fpos (write_all bs f) = fpos f + length bs"
  by (simp add: write_all_def)

lemma fbytes_write_all [file_simps]:
  "fpos f \<le> length (fbytes f) \<Longrightarrow> fbytes (write_all bs f) = splice (fpos f) bs (fbytes f)"
  by (simp add: write_all_def splice_def)

lemma read_exact_ok:
  "fpos f + n \<le> length (fbytes f) \<Longrightarrow>
   read_exact n f = Inr (slice (fpos f) n (fbytes f), f\<lparr>fpos := fpos f + n\<rparr>)"
  by (simp add: read_exact_def)

lemma read_exact_Inr [result_simps]:
  "read_exact n f = Inr (bs, f') \<longleftrightarrow>
   fpos f + n \<le> length (fbytes f) \<and> bs = slice (fpos f) n (fbytes f) \<and> f' = f\<lparr>fpos := fpos f + n\<rparr>"
  by (auto simp: read_exact_def)

lemma read_exact_eof: "length (fbytes f) < fpos f + n \<Longrightarrow> read_exact n f = Inl UnexpectedEof"
  by (simp add: read_exact_def)

text \<open>Writing at the end of what is already there appends and forgets what followed.\<close>

lemma write_then_truncate:
  assumes "off \<le> length (fbytes f)"
  shows "fbytes (set_len (off + length bs) (write_all bs (seek_start off f))) = take off (fbytes f) @ bs"
proof -
  have "fbytes (write_all bs (seek_start off f)) = splice off bs (fbytes f)"
    using assms by (simp add: fbytes_write_all)
  then show ?thesis
    using assms by (simp add: set_len_def splice_def)
qed

end
