(* ===== verification/Crypto.thy ===== *)
theory Crypto
  imports Prelude
begin

text \<open>
  \<open>atom/src/crypto/mod.rs\<close>: the constants of the on-disk format, the KDF settings stored in
  the vault header, key wrapping, and the version 1 chunk blob. XChaCha20-Poly1305, HKDF, Argon2
  and scrypt come from third-party crates; they are the fields of a \<open>crypto_lib\<close> every operation
  takes, and \<open>aead_ok\<close> and \<open>hkdf_ok\<close> state what their documentation promises.
\<close>

section \<open>Constants\<close>

definition SALT_LEN :: nat where "SALT_LEN = 32"
definition KEY_LEN :: nat where "KEY_LEN = 32"
definition XNONCE_LEN :: nat where "XNONCE_LEN = 24"
definition WRAPPED_DEK_LEN :: nat where "WRAPPED_DEK_LEN = KEY_LEN + 16"
definition FILE_SALT_LEN :: nat where "FILE_SALT_LEN = 16"
definition FILE_ID_LEN :: nat where "FILE_ID_LEN = 16"
definition CHUNK_MAGIC_V1 :: bytes where "CHUNK_MAGIC_V1 = [0x41, 0x56, 0x01]"
definition CHUNK_KEY_INFO :: bytes where "CHUNK_KEY_INFO = str_bytes ''atom-vault v1 file-key''"
definition METADATA_FILE_ID :: bytes where "METADATA_FILE_ID = str_bytes ''atom-vault-meta1''"
definition KDF_SETTINGS_SIZE :: nat where "KDF_SETTINGS_SIZE = 13"

definition VAULT_HEADER_SIZE :: nat where
  "VAULT_HEADER_SIZE = 8 + KDF_SETTINGS_SIZE + SALT_LEN + XNONCE_LEN + WRAPPED_DEK_LEN"

definition CHUNK_OVERHEAD :: nat where
  "CHUNK_OVERHEAD = length CHUNK_MAGIC_V1 + FILE_SALT_LEN + XNONCE_LEN + 16"

lemmas crypto_consts = SALT_LEN_def KEY_LEN_def XNONCE_LEN_def WRAPPED_DEK_LEN_def
  FILE_SALT_LEN_def FILE_ID_LEN_def CHUNK_MAGIC_V1_def KDF_SETTINGS_SIZE_def
  VAULT_HEADER_SIZE_def CHUNK_OVERHEAD_def

datatype CryptoError = BadFormat | Kdf | Seal | Open

section \<open>Third-party primitives\<close>

record crypto_lib =
  aead_seal :: "bytes \<Rightarrow> bytes \<Rightarrow> bytes \<Rightarrow> bytes \<Rightarrow> bytes option"
  aead_open :: "bytes \<Rightarrow> bytes \<Rightarrow> bytes \<Rightarrow> bytes \<Rightarrow> bytes option"
  hkdf_sha256 :: "bytes option \<Rightarrow> bytes \<Rightarrow> bytes \<Rightarrow> nat \<Rightarrow> bytes option"
  argon2_params :: "u32 \<Rightarrow> u32 \<Rightarrow> u32 \<Rightarrow> bool"
  argon2_hash :: "u32 \<Rightarrow> u32 \<Rightarrow> u32 \<Rightarrow> bytes \<Rightarrow> bytes \<Rightarrow> bytes option"
  scrypt_params :: "nat \<Rightarrow> u32 \<Rightarrow> u32 \<Rightarrow> bool"
  scrypt_hash :: "nat \<Rightarrow> u32 \<Rightarrow> u32 \<Rightarrow> bytes \<Rightarrow> bytes \<Rightarrow> bytes option"

text \<open>
  The AEAD: what was sealed opens to the same message, sealing adds a 16-byte tag, and a
  ciphertext that opens is the sealing of what it opens to (the tag is recomputed on opening).
\<close>

definition aead_ok :: "crypto_lib \<Rightarrow> bool" where
  "aead_ok L \<longleftrightarrow>
     (\<forall>k n a m c. aead_seal L k n a m = Some c \<longrightarrow>
        aead_open L k n a c = Some m \<and> length c = length m + 16) \<and>
     (\<forall>k n a m c. aead_open L k n a c = Some m \<longrightarrow> aead_seal L k n a m = Some c)"

text \<open>Sealing only fails on messages beyond the cipher's limit, far above any chunk here.\<close>

definition aead_total :: "crypto_lib \<Rightarrow> bool" where
  "aead_total L \<longleftrightarrow>
     (\<forall>k n a m. length k = 32 \<longrightarrow> length n = 24 \<longrightarrow> length m < 2 ^ 38 - 64 \<longrightarrow>
        aead_seal L k n a m \<noteq> None)"

text \<open>HKDF-SHA256 expands to any length up to 255 hash blocks.\<close>

definition hkdf_ok :: "crypto_lib \<Rightarrow> bool" where
  "hkdf_ok L \<longleftrightarrow>
     (\<forall>s i info n. n \<le> 255 * 32 \<longrightarrow> (\<exists>k. hkdf_sha256 L s i info n = Some k \<and> length k = n))"

section \<open>KDF settings\<close>

datatype KdfChoice = Argon2id | Scrypt

record KdfSettings =
  choice :: KdfChoice
  memory_kib :: u32
  iterations :: u32
  parallelism :: u32

definition KdfSettings_default :: KdfSettings where
  "KdfSettings_default = \<lparr>choice = Argon2id, memory_kib = 65536, iterations = 3, parallelism = 4\<rparr>"

definition kdf_to_bytes :: "KdfSettings \<Rightarrow> bytes" where
  "kdf_to_bytes s =
     (case choice s of Argon2id \<Rightarrow> 0 | Scrypt \<Rightarrow> 1)
       # u32_to_le (memory_kib s) @ u32_to_le (iterations s) @ u32_to_le (parallelism s)"

definition kdf_from_bytes :: "bytes \<Rightarrow> string + KdfSettings" where
  "kdf_from_bytes buf =
     bindE (if buf ! 0 = 0 then Inr Argon2id
            else if buf ! 0 = 1 then Inr Scrypt
            else Inl ''Unknown KDF algorithm byte in vault header'')
       (\<lambda>c. Inr \<lparr>choice = c,
                 memory_kib = u32_from_le (slice 1 4 buf),
                 iterations = u32_from_le (slice 5 4 buf),
                 parallelism = u32_from_le (slice 9 4 buf)\<rparr>)"

text \<open>\<open>(memory_kib as f64).log2() as u8\<close>: the cast truncates and sends \<open>-inf\<close> to 0.\<close>

fun floor_log2 :: "nat \<Rightarrow> nat" where
  "floor_log2 n = (if n < 2 then 0 else Suc (floor_log2 (n div 2)))"

declare floor_log2.simps [simp del]

definition scrypt_log_n :: "u32 \<Rightarrow> nat" where
  "scrypt_log_n m = max 10 (min 20 (floor_log2 (unat m)))"

definition derive_kek :: "crypto_lib \<Rightarrow> bytes \<Rightarrow> bytes \<Rightarrow> KdfSettings \<Rightarrow> string + bytes" where
  "derive_kek L password salt st =
     (case choice st of
        Argon2id \<Rightarrow>
          bindE (guardE (argon2_params L (memory_kib st) (iterations st) (parallelism st))
                   ''Invalid Argon2 params'')
            (\<lambda>_. ok_or ''Argon2 hashing failed''
               (argon2_hash L (memory_kib st) (iterations st) (parallelism st) password salt))
      | Scrypt \<Rightarrow>
          (let log_n = scrypt_log_n (memory_kib st);
               r = max (iterations st) 1;
               p = max (parallelism st) 1
           in bindE (guardE (scrypt_params L log_n r p) ''Invalid Scrypt params'')
                (\<lambda>_. ok_or ''Scrypt hashing failed'' (scrypt_hash L log_n r p password salt))))"

text \<open>\<open>calibrate_kdf\<close>, with the measured time of the single benchmark round as an argument.\<close>

definition calibrate_kdf :: "nat \<Rightarrow> u32 \<Rightarrow> KdfChoice \<Rightarrow> u32" where
  "calibrate_kdf measured_ms target_ms c =
     (let elapsed_ms = max (word_of_nat measured_ms) 1;
          calculated_rounds = target_ms div elapsed_ms
      in case c of Argon2id \<Rightarrow> max calculated_rounds 3 | Scrypt \<Rightarrow> max calculated_rounds 8)"

section \<open>Key wrapping and chunk blobs\<close>

record UnlockedVault =
  dek :: bytes

definition generate_32_bytes :: "rng \<Rightarrow> bytes \<times> rng" where
  "generate_32_bytes g = draw 32 g"

definition generate_xnonce :: "rng \<Rightarrow> bytes \<times> rng" where
  "generate_xnonce g = draw XNONCE_LEN g"

definition generate_file_id :: "rng \<Rightarrow> bytes \<times> rng" where
  "generate_file_id g = draw FILE_ID_LEN g"

definition wrap_dek :: "crypto_lib \<Rightarrow> bytes \<Rightarrow> bytes \<Rightarrow> rng \<Rightarrow> unit + (bytes \<times> bytes) \<times> rng" where
  "wrap_dek L kek d g =
     (let (nonce, g') = generate_xnonce g
      in bindE (ok_or () (aead_seal L kek nonce [] d)) (\<lambda>w. Inr ((w, nonce), g')))"

definition unwrap_dek :: "crypto_lib \<Rightarrow> bytes \<Rightarrow> bytes \<Rightarrow> bytes \<Rightarrow> unit + UnlockedVault" where
  "unwrap_dek L kek wrapped nonce =
     bindE (ok_or () (aead_open L kek nonce [] wrapped))
       (\<lambda>d. bindE (guardE (length d = KEY_LEN) ()) (\<lambda>_. Inr \<lparr>dek = d\<rparr>))"

definition derive_chunk_key :: "crypto_lib \<Rightarrow> bytes \<Rightarrow> bytes \<Rightarrow> bytes \<Rightarrow> CryptoError + bytes" where
  "derive_chunk_key L d file_salt file_id =
     ok_or Kdf (hkdf_sha256 L (Some file_salt) d (CHUNK_KEY_INFO @ file_id) KEY_LEN)"

definition chunk_aad :: "bytes \<Rightarrow> bytes" where
  "chunk_aad file_id = CHUNK_MAGIC_V1 @ file_id"

definition encrypt_chunk ::
    "crypto_lib \<Rightarrow> UnlockedVault \<Rightarrow> bytes \<Rightarrow> bytes \<Rightarrow> rng \<Rightarrow> CryptoError + bytes \<times> rng" where
  "encrypt_chunk L v plaintext file_id g =
     (let (file_salt, g1) = draw FILE_SALT_LEN g
      in bindE (derive_chunk_key L (dek v) file_salt file_id)
           (\<lambda>chunk_key.
              let (nonce, g2) = generate_xnonce g1
              in bindE (ok_or Seal (aead_seal L chunk_key nonce (chunk_aad file_id) plaintext))
                   (\<lambda>ct. Inr (CHUNK_MAGIC_V1 @ file_salt @ nonce @ ct, g2))))"

definition decrypt_chunk ::
    "crypto_lib \<Rightarrow> UnlockedVault \<Rightarrow> bytes \<Rightarrow> bytes \<Rightarrow> CryptoError + bytes" where
  "decrypt_chunk L v blob file_id =
     bindE (ok_or BadFormat (strip_prefix CHUNK_MAGIC_V1 blob))
       (\<lambda>rest.
          bindE (guardE (FILE_SALT_LEN + XNONCE_LEN + 16 \<le> length rest) BadFormat)
            (\<lambda>_.
               let file_salt = take FILE_SALT_LEN rest;
                   nonce = take XNONCE_LEN (drop FILE_SALT_LEN rest);
                   ct = drop XNONCE_LEN (drop FILE_SALT_LEN rest)
               in bindE (derive_chunk_key L (dek v) file_salt file_id)
                    (\<lambda>chunk_key.
                       ok_or Open (aead_open L chunk_key nonce (chunk_aad file_id) ct))))"

section \<open>Properties\<close>

lemma VAULT_HEADER_SIZE_eq [simp]: "VAULT_HEADER_SIZE = 125"
  by (simp add: crypto_consts)

lemma CHUNK_OVERHEAD_eq [simp]: "CHUNK_OVERHEAD = 59"
  by (simp add: crypto_consts)

lemma length_kdf_to_bytes [simp]: "length (kdf_to_bytes s) = 13"
  by (simp add: kdf_to_bytes_def)

lemma aead_okD:
  assumes "aead_ok L"
  shows "aead_seal L k n a m = Some c \<Longrightarrow> aead_open L k n a c = Some m"
    and "aead_seal L k n a m = Some c \<Longrightarrow> length c = length m + 16"
    and "aead_open L k n a c = Some m \<Longrightarrow> aead_seal L k n a m = Some c"
  using assms unfolding aead_ok_def by blast+

lemma kdf_from_to_bytes [simp]: "kdf_from_bytes (kdf_to_bytes s) = Inr s"
proof -
  have "u32_from_le (slice (Suc 0) 4 (c # u32_to_le a @ u32_to_le b @ u32_to_le d)) = a"
     "u32_from_le (slice 5 4 (c # u32_to_le a @ u32_to_le b @ u32_to_le d)) = b"
     "u32_from_le (slice 9 4 (c # u32_to_le a @ u32_to_le b @ u32_to_le d)) = d" for a b c d
    by (simp_all add: slice_def)
  then show ?thesis
    by (cases "choice s") (simp_all add: kdf_from_bytes_def kdf_to_bytes_def)
qed

lemma encrypt_chunk_Inr:
  assumes "encrypt_chunk L v p fid g = Inr (blob, g')"
  obtains salt nonce key ct where
    "length salt = 16" "length nonce = 24"
    "derive_chunk_key L (dek v) salt fid = Inr key"
    "aead_seal L key nonce (chunk_aad fid) p = Some ct"
    "blob = CHUNK_MAGIC_V1 @ salt @ nonce @ ct"
proof -
  obtain salt g1 where d: "draw FILE_SALT_LEN g = (salt, g1)" by fastforce
  obtain nonce g2 where n: "generate_xnonce g1 = (nonce, g2)" by fastforce
  have "length salt = 16" "length nonce = 24"
    using draw_length [OF d] draw_length [OF n [unfolded generate_xnonce_def]]
    by (simp_all add: crypto_consts)
  with assms d n show thesis
    by (auto simp: encrypt_chunk_def bindE_eq_Inr ok_or_eq_Inr intro: that)
qed

lemma length_encrypt_chunk:
  assumes "aead_ok L" and "encrypt_chunk L v p fid g = Inr (blob, g')"
  shows "length blob = length p + CHUNK_OVERHEAD"
  using assms(2)
  by (rule encrypt_chunk_Inr) (use assms(1) in \<open>auto dest: aead_okD(2) simp: crypto_consts\<close>)

lemma decrypt_chunk_blob:
  assumes "length salt = 16" "length nonce = 24" "16 \<le> length ct"
  shows "decrypt_chunk L v (CHUNK_MAGIC_V1 @ salt @ nonce @ ct) fid =
    bindE (derive_chunk_key L (dek v) salt fid)
      (\<lambda>key. ok_or Open (aead_open L key nonce (chunk_aad fid) ct))"
  using assms by (simp add: decrypt_chunk_def FILE_SALT_LEN_def XNONCE_LEN_def)

lemma decrypt_encrypt_chunk:
  assumes "aead_ok L" and "encrypt_chunk L v p fid g = Inr (blob, g')"
  shows "decrypt_chunk L v blob fid = Inr p"
  using assms(2)
proof (rule encrypt_chunk_Inr)
  fix salt nonce key ct
  assume a: "length salt = 16" "length nonce = 24"
    "derive_chunk_key L (dek v) salt fid = Inr key"
    "aead_seal L key nonce (chunk_aad fid) p = Some ct"
    "blob = CHUNK_MAGIC_V1 @ salt @ nonce @ ct"
  from aead_okD(1,2) [OF assms(1) a(4)] have "aead_open L key nonce (chunk_aad fid) ct = Some p"
    "16 \<le> length ct" by simp_all
  with a show ?thesis by (simp add: decrypt_chunk_blob)
qed

lemma decrypt_chunk_Inr:
  assumes "decrypt_chunk L v blob fid = Inr p"
  obtains salt nonce key ct where
    "length salt = 16" "length nonce = 24" "16 \<le> length ct"
    "derive_chunk_key L (dek v) salt fid = Inr key"
    "aead_open L key nonce (chunk_aad fid) ct = Some p"
    "blob = CHUNK_MAGIC_V1 @ salt @ nonce @ ct"
proof -
  from assms obtain rest where sp: "strip_prefix CHUNK_MAGIC_V1 blob = Some rest"
    by (cases "strip_prefix CHUNK_MAGIC_V1 blob") (simp_all add: decrypt_chunk_def)
  with assms have len: "56 \<le> length rest"
    by (cases "56 \<le> length rest") (simp_all add: decrypt_chunk_def FILE_SALT_LEN_def XNONCE_LEN_def)
  from assms sp len have b: "bindE (derive_chunk_key L (dek v) (take 16 rest) fid)
      (\<lambda>key. ok_or Open (aead_open L key (take 24 (drop 16 rest)) (chunk_aad fid) (drop 24 (drop 16 rest)))) = Inr p"
    by (simp add: decrypt_chunk_def FILE_SALT_LEN_def XNONCE_LEN_def)
  then obtain key where k: "derive_chunk_key L (dek v) (take 16 rest) fid = Inr key"
    and op: "aead_open L key (take 24 (drop 16 rest)) (chunk_aad fid) (drop 24 (drop 16 rest)) = Some p"
    unfolding bindE_eq_Inr ok_or_eq_Inr by blast
  from sp have r: "blob = CHUNK_MAGIC_V1 @ rest" by (simp only: strip_prefix_Some)
  have "rest = take 16 rest @ take 24 (drop 16 rest) @ drop 24 (drop 16 rest)"
    by (metis append_take_drop_id)
  with r have "blob = CHUNK_MAGIC_V1 @ take 16 rest @ take 24 (drop 16 rest) @ drop 24 (drop 16 rest)"
    by argo
  with len k op show thesis
    by (intro that [of "take 16 rest" "take 24 (drop 16 rest)" "drop 24 (drop 16 rest)" key]) simp_all
qed

lemma encrypt_chunk_ok:
  assumes "hkdf_ok L" "aead_total L" "length p < 2 ^ 38 - 64"
  shows "\<exists>blob g'. encrypt_chunk L v p fid g = Inr (blob, g')"
proof -
  obtain salt g1 where d: "draw FILE_SALT_LEN g = (salt, g1)" by fastforce
  obtain nonce g2 where n: "generate_xnonce g1 = (nonce, g2)" by fastforce
  from assms(1) have "\<exists>k. hkdf_sha256 L (Some salt) (dek v) (CHUNK_KEY_INFO @ fid) 32 = Some k \<and> length k = 32"
    by (simp add: hkdf_ok_def)
  then obtain key where key: "derive_chunk_key L (dek v) salt fid = Inr key" "length key = 32"
    by (auto simp: derive_chunk_key_def KEY_LEN_def)
  have "length nonce = 24" using n by (auto simp: generate_xnonce_def XNONCE_LEN_def dest: draw_length)
  with assms(2,3) key(2) obtain ct where "aead_seal L key nonce (chunk_aad fid) p = Some ct"
    unfolding aead_total_def by blast
  with d n key show ?thesis by (simp add: encrypt_chunk_def)
qed

lemma unwrap_wrap_dek:
  assumes "aead_ok L" "length d = KEY_LEN" "wrap_dek L kek d g = Inr ((w, n), g')"
  shows "unwrap_dek L kek w n = Inr \<lparr>dek = d\<rparr>" and "length w = WRAPPED_DEK_LEN" and "length n = XNONCE_LEN"
proof -
  from assms(3) have c: "aead_seal L kek n [] d = Some w" and "draw XNONCE_LEN g = (n, g')"
    by (auto simp: wrap_dek_def bindE_eq_Inr ok_or_eq_Inr generate_xnonce_def split: prod.splits)
  then show "length n = XNONCE_LEN" by (auto dest: draw_length)
  from aead_okD(1,2) [OF assms(1) c] assms(2)
  show "unwrap_dek L kek w n = Inr \<lparr>dek = d\<rparr>" and "length w = WRAPPED_DEK_LEN"
    by (simp_all add: unwrap_dek_def WRAPPED_DEK_LEN_def)
qed

end
