(* ===== verification/VaultStore.thy ===== *)
theory VaultStore
  imports FileIO Crypto
begin

text \<open>
  \<open>atom/src/vfs/mod.rs\<close>, \<open>atom/src/storage.rs\<close> and the constants of \<open>atom/src/chunker.rs\<close>:
  the metadata of a vault, the header and tail-based metadata block of the vault file, and the
  reading of one encrypted chunk. \<open>bincode\<close>, FastCDC and \<open>mlock\<close> are arguments (\<open>vault_lib\<close>).
\<close>

section \<open>Data\<close>

definition MAX_CHUNK_SIZE :: nat where "MAX_CHUNK_SIZE = 8192"

record ChunkEntry =
  cipher_len :: nat
  offset :: nat
  file_id :: bytes
  plain_len :: nat

record FileIndex =
  vfs_name :: string
  chunks :: "ChunkEntry list"
  last_modified_unix :: u64

record VaultMetadata =
  file_table :: "FileIndex list"
  cdc_salt :: bytes

text \<open>
  Third-party and operating-system code: \<open>bincode\<close>, the chunk boundaries FastCDC finds
  (\<open>offset\<close> and \<open>length\<close> of each chunk), and whether \<open>mlock\<close> of so many bytes succeeds.
\<close>

record vault_lib =
  crypto :: crypto_lib
  bincode_serialize :: "VaultMetadata \<Rightarrow> bytes option"
  bincode_deserialize :: "bytes \<Rightarrow> VaultMetadata option"
  fastcdc :: "nat \<Rightarrow> nat \<Rightarrow> nat \<Rightarrow> bytes \<Rightarrow> (nat \<times> nat) list option"
  mlock :: "nat \<Rightarrow> bool"

definition bincode_ok :: "vault_lib \<Rightarrow> bool" where
  "bincode_ok L \<longleftrightarrow>
     (\<forall>m bs. bincode_serialize L m = Some bs \<longrightarrow> bincode_deserialize L bs = Some m)"

text \<open>FastCDC partitions its input into non-empty pieces of at most \<open>max_size\<close> bytes.\<close>

definition fastcdc_ok :: "vault_lib \<Rightarrow> bool" where
  "fastcdc_ok L \<longleftrightarrow>
     (\<forall>mn av mx d cs. fastcdc L mn av mx d = Some cs \<longrightarrow>
        concat (map (\<lambda>(s, n). slice s n d) cs) = d \<and>
        (\<forall>(s, n) \<in> set cs. 0 < n \<and> n \<le> mx \<and> s + n \<le> length d))"

definition chunk_data :: "vault_lib \<Rightarrow> bytes \<Rightarrow> (nat \<times> nat) list option" where
  "chunk_data L d = fastcdc L 2048 4096 MAX_CHUNK_SIZE d"

datatype vault_error =
    Io io_error
  | KdfHeader string
  | KdfError string
  | DekUnwrap
  | MetadataDecrypt CryptoError
  | MetadataEncrypt CryptoError
  | Bincode
  | Encryption CryptoError
  | Decryption CryptoError
  | MlockFailed
  | ChunkerFailed
  | NameExists string
  | NameNotFound string
  | Panicked
  | Staging string
  | TempFile
  | EmptyPassword
  | PasswordMismatch
  | VaultExists

section \<open>Loading and saving the metadata\<close>

definition METADATA_LIMIT :: nat where "METADATA_LIMIT = 10 * 1024 * 1024"

definition load_vault_metadata ::
    "vault_lib \<Rightarrow> bytes \<Rightarrow> File \<Rightarrow> vault_error + (VaultMetadata \<times> UnlockedVault \<times> nat) \<times> File" where
  "load_vault_metadata L password f0 =
     bindE (map_err Io (read_exact 8 (seek_start 0 f0))) (\<lambda>(ptr, f1).
     let master_pointer = unat (u64_from_le ptr) in
     bindE (map_err Io (read_exact KDF_SETTINGS_SIZE f1)) (\<lambda>(kdf, f2).
     bindE (map_err KdfHeader (kdf_from_bytes kdf)) (\<lambda>settings.
     bindE (map_err Io (read_exact 32 f2)) (\<lambda>(salt, f3).
     bindE (map_err Io (read_exact XNONCE_LEN f3)) (\<lambda>(dek_nonce, f4).
     bindE (map_err Io (read_exact 48 f4)) (\<lambda>(wrapped_dek, f5).
     bindE (map_err KdfError (derive_kek (crypto L) password salt settings)) (\<lambda>kek.
     bindE (map_err (\<lambda>_. DekUnwrap) (unwrap_dek (crypto L) kek wrapped_dek dek_nonce)) (\<lambda>uv.
     let f6 = seek_start master_pointer f5;
         encrypted = read_to_end_limited METADATA_LIMIT f6
     in bindE (map_err MetadataDecrypt (decrypt_chunk (crypto L) uv encrypted METADATA_FILE_ID)) (\<lambda>plain.
        bindE (ok_or Bincode (bincode_deserialize L plain)) (\<lambda>metadata.
          Inr ((metadata, uv, master_pointer), f6\<lparr>fpos := master_pointer + length encrypted\<rparr>)))))))))))"

text \<open>
  An open vault file takes every write: the errors of seeking, writing, truncating and syncing it (a full or failing
  disk) are not part of the model, here and in the commands. What can fail is the encryption and the serialisation.
\<close>

definition save_vault_metadata ::
    "vault_lib \<Rightarrow> VaultMetadata \<Rightarrow> UnlockedVault \<Rightarrow> nat \<Rightarrow> File \<Rightarrow> rng \<Rightarrow> vault_error + File \<times> rng" where
  "save_vault_metadata L metadata uv current_payload_offset f g =
     bindE (ok_or Bincode (bincode_serialize L metadata)) (\<lambda>ser.
     bindE (map_err MetadataEncrypt (encrypt_chunk (crypto L) uv ser METADATA_FILE_ID g)) (\<lambda>(blob, g').
       let f1 = write_all blob (seek_start current_payload_offset f);
           f2 = set_len (fpos f1) f1;
           f3 = write_all (u64_to_le (word_of_nat current_payload_offset)) (seek_start 0 f2)
       in Inr (f3, g')))"

section \<open>Reading one chunk\<close>

text \<open>
  The body shared by \<open>decrypt_to_bytes\<close>, \<open>handle_export\<close> and \<open>process_secure_chunk\<close>: seek, read
  the blob, authenticate and decrypt it, lock the plaintext, and strip the padding. A recorded
  length beyond the plaintext is an out-of-range slice, which panics.
\<close>

definition strip_padding :: "nat \<Rightarrow> bytes \<Rightarrow> vault_error + bytes" where
  "strip_padding n p =
     (if 0 < n then (if n \<le> length p then Inr (take n p) else Inl Panicked) else Inr p)"

definition process_secure_chunk ::
    "vault_lib \<Rightarrow> UnlockedVault \<Rightarrow> ChunkEntry \<Rightarrow> File \<Rightarrow> vault_error + bytes \<times> File" where
  "process_secure_chunk L uv c f =
     bindE (map_err Io (read_exact (cipher_len c) (seek_start (offset c) f))) (\<lambda>(buf, f').
     bindE (map_err Decryption (decrypt_chunk (crypto L) uv buf (file_id c))) (\<lambda>plain.
     bindE (guardE (mlock L (length plain)) MlockFailed) (\<lambda>_.
     bindE (strip_padding (plain_len c) plain) (\<lambda>content. Inr (content, f')))))"

section \<open>The vault file\<close>

text \<open>
  \<open>header_unlocks L b pw uv\<close>: the header at the start of \<open>b\<close> yields the data key \<open>uv\<close> under the
  password \<open>pw\<close>.
\<close>

definition header_unlocks :: "vault_lib \<Rightarrow> bytes \<Rightarrow> bytes \<Rightarrow> UnlockedVault \<Rightarrow> bool" where
  "header_unlocks L b pw uv \<longleftrightarrow>
     (case kdf_from_bytes (slice 8 13 b) of Inl _ \<Rightarrow> False | Inr st \<Rightarrow>
       (case derive_kek (crypto L) pw (slice 21 32 b) st of Inl _ \<Rightarrow> False | Inr kek \<Rightarrow>
          unwrap_dek (crypto L) kek (slice 77 48 b) (slice 53 24 b) = Inr uv))"

lemma header_unlocks_cong:
  assumes "slice 8 117 b = slice 8 117 b'"
  shows "header_unlocks L b pw uv = header_unlocks L b' pw uv"
proof -
  have sub: "slice (8 + i) n c = slice i n (slice 8 117 c)" if "i + n \<le> 117" for i n and c :: bytes
    using that by (simp add: slice_def drop_take min_def add.commute)
  have eq: "slice (8 + i) n b = slice (8 + i) n b'" if "i + n \<le> 117" for i n
    using sub [OF that, of b] sub [OF that, of b'] assms by simp
  have e: "slice 8 13 b = slice 8 13 b'" "slice 21 32 b = slice 21 32 b'"
    "slice 53 24 b = slice 53 24 b'" "slice 77 48 b = slice 77 48 b'"
    using eq [of 0 13] eq [of 13 32] eq [of 45 24] eq [of 69 48] by simp_all
  show ?thesis
    unfolding header_unlocks_def e ..
qed

lemma save_bytes:
  assumes "save_vault_metadata L md uv off f g = Inr (f', g')" "8 \<le> off" "off \<le> length (fbytes f)"
  obtains ser blob where
    "bincode_serialize L md = Some ser"
    "encrypt_chunk (crypto L) uv ser METADATA_FILE_ID g = Inr (blob, g')"
    "fbytes f' = u64_to_le (word_of_nat off) @ drop 8 (take off (fbytes f)) @ blob"
proof -
  from assms(1) obtain ser blob where
    ser: "bincode_serialize L md = Some ser" and
    enc: "encrypt_chunk (crypto L) uv ser METADATA_FILE_ID g = Inr (blob, g')" and
    f': "f' = write_all (u64_to_le (word_of_nat off))
                (seek_start 0 (set_len (off + length blob) (write_all blob (seek_start off f))))"
    by (auto simp: save_vault_metadata_def bindE_eq_Inr ok_or_eq_Inr map_err_eq_Inr)
  have "fbytes f' = splice 0 (u64_to_le (word_of_nat off)) (take off (fbytes f) @ blob)"
    unfolding f' using assms(3) by (simp add: fbytes_write_all write_then_truncate)
  also have "\<dots> = u64_to_le (word_of_nat off) @ drop 8 (take off (fbytes f)) @ blob"
    using assms(2,3) by (simp add: splice_def)
  finally show thesis using ser enc that by blast
qed

lemma save_slice:
  assumes "save_vault_metadata L md uv off f g = Inr (f', g')" "8 \<le> off" "off \<le> length (fbytes f)"
    "8 \<le> i" "i + n \<le> off"
  shows "slice i n (fbytes f') = slice i n (fbytes f)"
proof -
  from assms(1-3) obtain ser blob where
    "fbytes f' = u64_to_le (word_of_nat off) @ drop 8 (take off (fbytes f)) @ blob"
    by (rule save_bytes)
  then have "slice i n (fbytes f') = slice (i - 8) n (drop 8 (take off (fbytes f)))"
    using assms by (simp add: slice_append2 slice_append1)
  also have "\<dots> = slice i n (take off (fbytes f))"
    using assms by (simp add: slice_def)
  finally show ?thesis using assms by (simp add: slice_take)
qed

lemma save_length:
  assumes "save_vault_metadata L md uv off f g = Inr (f', g')" "8 \<le> off" "off \<le> length (fbytes f)"
  shows "off \<le> length (fbytes f')"
  using assms by (rule save_bytes) (use assms in simp)

lemma save_header_unlocks:
  assumes "save_vault_metadata L md uv off f g = Inr (f', g')" "125 \<le> off" "off \<le> length (fbytes f)"
  shows "header_unlocks L (fbytes f') pw v = header_unlocks L (fbytes f) pw v"
  by (rule header_unlocks_cong) (rule save_slice [OF assms(1)], use assms in simp_all)

lemma load_eq:
  assumes "header_unlocks L (fbytes f) pw uv" "125 \<le> length (fbytes f)"
    and ptr: "u64_from_le (slice 0 8 (fbytes f)) = word_of_nat off" "off < 2 ^ 64"
  shows "load_vault_metadata L pw f =
    (let enc = take METADATA_LIMIT (drop off (fbytes f)) in
     bindE (map_err MetadataDecrypt (decrypt_chunk (crypto L) uv enc METADATA_FILE_ID)) (\<lambda>plain.
     bindE (ok_or Bincode (bincode_deserialize L plain)) (\<lambda>md.
       Inr ((md, uv, off), f\<lparr>fpos := off + length enc\<rparr>))))"
proof -
  from assms(1) obtain st kek where
    st: "kdf_from_bytes (slice 8 13 (fbytes f)) = Inr st" and
    kek: "derive_kek (crypto L) pw (slice 21 32 (fbytes f)) st = Inr kek" and
    uv: "unwrap_dek (crypto L) kek (slice 77 48 (fbytes f)) (slice 53 24 (fbytes f)) = Inr uv"
    by (auto simp: header_unlocks_def split: sum.splits)
  show ?thesis
    using assms(2) st kek uv ptr
    by (simp add: load_vault_metadata_def read_exact_def KDF_SETTINGS_SIZE_def XNONCE_LEN_def
        read_to_end_limited_def Let_def seek_start_def)
qed

lemma load_after_save:
  assumes "aead_ok (crypto L)" "bincode_ok L"
    and hdr: "header_unlocks L (fbytes f) pw uv"
    and off: "125 \<le> off" "off \<le> length (fbytes f)" "off < 2 ^ 64"
    and save: "save_vault_metadata L md uv off f g = Inr (f', g')"
    and small: "length (fbytes f') \<le> off + METADATA_LIMIT"
  shows "\<exists>f''. load_vault_metadata L pw f' = Inr ((md, uv, off), f'') \<and> fbytes f'' = fbytes f'"
proof -
  from save off obtain ser blob where
    ser: "bincode_serialize L md = Some ser" and
    enc: "encrypt_chunk (crypto L) uv ser METADATA_FILE_ID g = Inr (blob, g')" and
    b: "fbytes f' = u64_to_le (word_of_nat off) @ drop 8 (take off (fbytes f)) @ blob"
    by (auto elim!: save_bytes)
  have "decrypt_chunk (crypto L) uv blob METADATA_FILE_ID = Inr ser"
    using assms(1) enc by (rule decrypt_encrypt_chunk)
  moreover have "bincode_deserialize L ser = Some md"
    using assms(2) ser by (simp add: bincode_ok_def)
  moreover have "drop off (fbytes f') = blob" "length blob \<le> METADATA_LIMIT"
    using b off small by simp_all
  moreover have "u64_from_le (slice 0 8 (fbytes f')) = word_of_nat off"
    using b by (simp add: slice_def)
  moreover have "header_unlocks L (fbytes f') pw uv" "125 \<le> length (fbytes f')"
    using save_header_unlocks [OF save off(1,2)] hdr save_length [OF save _ off(2)] off by simp_all
  ultimately show ?thesis using off by (simp add: load_eq Let_def)
qed

section \<open>Plaintext of a chunk list\<close>

text \<open>What a chunk denotes, as a function of the bytes of the vault file alone.\<close>

definition chunk_plain :: "vault_lib \<Rightarrow> UnlockedVault \<Rightarrow> bytes \<Rightarrow> ChunkEntry \<Rightarrow> vault_error + bytes" where
  "chunk_plain L uv b c =
     bindE (process_secure_chunk L uv c \<lparr>fbytes = b, fpos = 0\<rparr>) (\<lambda>(p, f). Inr p)"

lemma process_secure_chunk_plain:
  "process_secure_chunk L uv c f =
     bindE (chunk_plain L uv (fbytes f) c)
       (\<lambda>p. Inr (p, f\<lparr>fpos := offset c + cipher_len c\<rparr>))"
  by (cases "offset c + cipher_len c \<le> length (fbytes f)";
      cases "decrypt_chunk (crypto L) uv (slice (offset c) (cipher_len c) (fbytes f)) (file_id c)";
      cases "mlock L (length (projr (decrypt_chunk (crypto L) uv
               (slice (offset c) (cipher_len c) (fbytes f)) (file_id c))))";
      cases "strip_padding (plain_len c) (projr (decrypt_chunk (crypto L) uv
               (slice (offset c) (cipher_len c) (fbytes f)) (file_id c)))")
    (simp_all add: chunk_plain_def process_secure_chunk_def read_exact_def seek_start_def)

lemma chunk_plain_cong:
  assumes "slice (offset c) (cipher_len c) b = slice (offset c') (cipher_len c) b'"
    "offset c + cipher_len c \<le> length b" "offset c' + cipher_len c \<le> length b'"
    "cipher_len c' = cipher_len c" "file_id c' = file_id c" "plain_len c' = plain_len c"
  shows "chunk_plain L uv b c = chunk_plain L uv b' c'"
proof -
  let ?d = "decrypt_chunk (crypto L) uv (slice (offset c) (cipher_len c) b) (file_id c)"
  show ?thesis
    using assms
    by (cases ?d; cases "mlock L (length (projr ?d))"; cases "strip_padding (plain_len c) (projr ?d)")
      (simp_all add: chunk_plain_def process_secure_chunk_def read_exact_def seek_start_def)
qed

end
