(* ===== verification/VaultOps.thy ===== *)
theory VaultOps
  imports VaultStore
begin

text \<open>
  The vault commands of \<open>atom/src/commands\<close>: \<open>create\<close>, \<open>import\<close>, \<open>export\<close>, \<open>cat\<close>, \<open>rm\<close>,
  \<open>vacuum\<close>. A \<open>session\<close> is what an open vault consists of: the physical file, the metadata in
  memory, the offset where the payload ends, and the random source. Commands that mutate it
  return the session they leave behind together with their result, so that what an error leaves
  behind is part of the model.
\<close>

record session =
  phys :: File
  meta :: VaultMetadata
  payload_offset :: nat
  rand :: rng

type_synonym 'a outcome = "session \<times> (vault_error + 'a)"

definition find_file :: "string \<Rightarrow> VaultMetadata \<Rightarrow> FileIndex option" where
  "find_file n md = find (\<lambda>f. vfs_name f = n) (file_table md)"

section \<open>Reading\<close>

fun decrypt_loop ::
    "vault_lib \<Rightarrow> UnlockedVault \<Rightarrow> ChunkEntry list \<Rightarrow> File \<Rightarrow> bytes \<Rightarrow> vault_error + bytes \<times> File" where
  "decrypt_loop L uv [] f output = Inr (output, f)"
| "decrypt_loop L uv (c # cs) f output =
     bindE (process_secure_chunk L uv c f) (\<lambda>(content, f'). decrypt_loop L uv cs f' (output @ content))"

definition decrypt_to_bytes ::
    "vault_lib \<Rightarrow> UnlockedVault \<Rightarrow> string \<Rightarrow> session \<Rightarrow> vault_error + bytes \<times> File" where
  "decrypt_to_bytes L uv name s =
     bindE (ok_or (NameNotFound name) (find_file name (meta s)))
       (\<lambda>e. decrypt_loop L uv (chunks e) (phys s) [])"

section \<open>Importing\<close>

text \<open>
  One turn of the import loop: pad the content to \<open>MAX_CHUNK_SIZE\<close> with random bytes, lock it,
  encrypt it under a fresh identifier, and append the blob at the cursor.
\<close>

definition import_chunk ::
    "vault_lib \<Rightarrow> UnlockedVault \<Rightarrow> (nat \<Rightarrow> nat \<Rightarrow> vault_error + bytes) \<Rightarrow> nat \<Rightarrow> nat \<Rightarrow> session \<Rightarrow>
     ChunkEntry outcome" where
  "import_chunk L uv fetch start n s =
     (if MAX_CHUNK_SIZE < n then (s, Inl Panicked) else
      case fetch start n of Inl e \<Rightarrow> (s, Inl e) | Inr content \<Rightarrow>
      let (pad, g1) = draw (MAX_CHUNK_SIZE - n) (rand s);
          padded = content @ pad
      in if \<not> mlock L (length padded) then (s, Inl MlockFailed) else
         let (fid, g2) = generate_file_id g1 in
         case encrypt_chunk (crypto L) uv padded fid g2 of
           Inl e \<Rightarrow> (s, Inl (Encryption e))
         | Inr (blob, g3) \<Rightarrow>
             (s\<lparr>phys := write_all blob (phys s),
                payload_offset := payload_offset s + length blob, rand := g3\<rparr>,
              Inr \<lparr>cipher_len = length blob, offset = payload_offset s, file_id = fid, plain_len = n\<rparr>))"

fun import_loop ::
    "vault_lib \<Rightarrow> UnlockedVault \<Rightarrow> (nat \<Rightarrow> nat \<Rightarrow> vault_error + bytes) \<Rightarrow> (nat \<times> nat) list \<Rightarrow> session \<Rightarrow>
     ChunkEntry list \<Rightarrow> ChunkEntry list outcome" where
  "import_loop L uv fetch [] s new_chunks = (s, Inr new_chunks)"
| "import_loop L uv fetch ((start, n) # cs) s new_chunks =
     (case import_chunk L uv fetch start n s of
        (s', Inl e) \<Rightarrow> (s', Inl e)
      | (s', Inr entry) \<Rightarrow> import_loop L uv fetch cs s' (new_chunks @ [entry]))"

definition import_store ::
    "vault_lib \<Rightarrow> UnlockedVault \<Rightarrow> string \<Rightarrow> (nat \<Rightarrow> nat \<Rightarrow> vault_error + bytes) \<Rightarrow> (nat \<times> nat) list \<Rightarrow>
     u64 \<Rightarrow> session \<Rightarrow> unit outcome" where
  "import_store L uv name fetch boundaries now s =
     (case import_loop L uv fetch boundaries
             (s\<lparr>phys := seek_start (payload_offset s) (phys s)\<rparr>) [] of
        (s1, Inl e) \<Rightarrow> (s1, Inl e)
      | (s1, Inr new_chunks) \<Rightarrow>
          let entry = \<lparr>vfs_name = name, chunks = new_chunks, last_modified_unix = now\<rparr>;
              md = (meta s1)\<lparr>file_table := file_table (meta s1) @ [entry]\<rparr>;
              s2 = s1\<lparr>meta := md\<rparr>
          in case save_vault_metadata L md uv (payload_offset s2) (phys s2) (rand s2) of
               Inl e \<Rightarrow> (s2, Inl e)
             | Inr (f, g) \<Rightarrow> (s2\<lparr>phys := f, rand := g\<rparr>, Inr ()))"

definition name_taken :: "string \<Rightarrow> session \<Rightarrow> bool" where
  "name_taken name s \<longleftrightarrow> list_ex (\<lambda>f. vfs_name f = name) (file_table (meta s))"

definition fetch_bytes :: "bytes \<Rightarrow> nat \<Rightarrow> nat \<Rightarrow> vault_error + bytes" where
  "fetch_bytes data start n =
     (if start + n \<le> length data then Inr (slice start n data) else Inl Panicked)"

definition handle_import_from_bytes ::
    "vault_lib \<Rightarrow> UnlockedVault \<Rightarrow> bytes \<Rightarrow> string \<Rightarrow> u64 \<Rightarrow> session \<Rightarrow> unit outcome" where
  "handle_import_from_bytes L uv data name now s =
     (if name_taken name s then (s, Inl (NameExists name)) else
      case chunk_data L data of
        None \<Rightarrow> (s, Inl ChunkerFailed)
      | Some boundaries \<Rightarrow> import_store L uv name (fetch_bytes data) boundaries now s)"

section \<open>Removing\<close>

definition zeroize_chunk :: "ChunkEntry \<Rightarrow> File \<Rightarrow> File" where
  "zeroize_chunk c f = write_all (replicate (cipher_len c) 0) (seek_start (offset c) f)"

definition handle_rm :: "vault_lib \<Rightarrow> UnlockedVault \<Rightarrow> string \<Rightarrow> session \<Rightarrow> unit outcome" where
  "handle_rm L uv name s =
     (case List.find (\<lambda>i. vfs_name (file_table (meta s) ! i) = name) [0..<length (file_table (meta s))] of
        None \<Rightarrow> (s, Inl (NameNotFound name))
      | Some index \<Rightarrow>
          let f1 = fold zeroize_chunk (chunks (file_table (meta s) ! index)) (phys s);
              md = (meta s)\<lparr>file_table := take index (file_table (meta s)) @ drop (Suc index) (file_table (meta s))\<rparr>;
              f2 = set_len (payload_offset s) (seek_start (payload_offset s) f1);
              s1 = s\<lparr>phys := f2, meta := md\<rparr>
          in case save_vault_metadata L md uv (payload_offset s) f2 (rand s) of
               Inl e \<Rightarrow> (s1, Inl e)
             | Inr (f, g) \<Rightarrow> (s1\<lparr>phys := f, rand := g\<rparr>, Inr ()))"

section \<open>Vacuuming\<close>

text \<open>
  The copy loops: every chunk is read from the old file, written to the temporary one, and its
  entry is moved in place. The result keeps the metadata as the loop leaves it, on errors too.
\<close>

type_synonym copy_state = "File \<times> File \<times> nat"

fun vacuum_chunks :: "ChunkEntry list \<Rightarrow> copy_state \<Rightarrow> ChunkEntry list \<times> (vault_error + copy_state)" where
  "vacuum_chunks [] st = ([], Inr st)"
| "vacuum_chunks (c # cs) (pv, tmp, off) =
     (case read_exact (cipher_len c) (seek_start (offset c) pv) of
        Inl e \<Rightarrow> (c # cs, Inl (Io e))
      | Inr (buf, pv') \<Rightarrow>
          let tmp' = write_all buf (seek_start off tmp);
              (cs', r) = vacuum_chunks cs (pv', tmp', off + cipher_len c)
          in (c\<lparr>offset := off\<rparr> # cs', r))"

fun vacuum_files :: "FileIndex list \<Rightarrow> copy_state \<Rightarrow> FileIndex list \<times> (vault_error + copy_state)" where
  "vacuum_files [] st = ([], Inr st)"
| "vacuum_files (fi # fis) st =
     (case vacuum_chunks (chunks fi) st of
        (cs, Inl e) \<Rightarrow> (fi\<lparr>chunks := cs\<rparr> # fis, Inl e)
      | (cs, Inr st') \<Rightarrow>
          let (fis', r) = vacuum_files fis st' in (fi\<lparr>chunks := cs\<rparr> # fis', r))"

text \<open>
  \<open>handle_vacuum\<close> returns the new file that \<open>rename\<close> puts in place of the vault and the new
  payload offset; the caller's handle still names the old file.
\<close>

definition handle_vacuum ::
    "vault_lib \<Rightarrow> UnlockedVault \<Rightarrow> bool \<Rightarrow> bool \<Rightarrow> session \<Rightarrow> (File \<times> nat) outcome" where
  "handle_vacuum L uv tmp_exists rename_ok s =
     (if tmp_exists then (s, Inl TempFile) else
      let tmp0 = write_all (replicate 8 0) new_file in
      case read_exact (VAULT_HEADER_SIZE - 8) (seek_start 8 (phys s)) of
        Inl e \<Rightarrow> (s, Inl (Io e))
      | Inr (header_rest, pv) \<Rightarrow>
          let tmp1 = write_all header_rest tmp0;
              (ft, r) = vacuum_files (file_table (meta s)) (pv, tmp1, VAULT_HEADER_SIZE);
              s1 = s\<lparr>meta := (meta s)\<lparr>file_table := ft\<rparr>\<rparr>
          in case r of
               Inl e \<Rightarrow> (s1, Inl e)
             | Inr (pv', tmp, off) \<Rightarrow>
                 (case save_vault_metadata L (meta s1) uv off tmp (rand s) of
                    Inl e \<Rightarrow> (s1\<lparr>phys := pv'\<rparr>, Inl e)
                  | Inr (tmp', g) \<Rightarrow>
                      (s1\<lparr>phys := pv', rand := g\<rparr>, if rename_ok then Inr (tmp', off) else Inl (Io NotFound))))"

text \<open>
  The \<open>vacuum\<close> command of the shell: on success it reopens the vault at the new offset; when
  reopening fails it keeps the handle of the old file and the old offset.
\<close>

definition shell_vacuum :: "vault_lib \<Rightarrow> UnlockedVault \<Rightarrow> bool \<Rightarrow> bool \<Rightarrow> bool \<Rightarrow> session \<Rightarrow> unit outcome" where
  "shell_vacuum L uv tmp_exists rename_ok reopen_ok s =
     (case handle_vacuum L uv tmp_exists rename_ok s of
        (s', Inl e) \<Rightarrow> (s', Inl e)
      | (s', Inr (f, off)) \<Rightarrow>
          if reopen_ok then (s'\<lparr>phys := f\<lparr>fpos := 0\<rparr>, payload_offset := off\<rparr>, Inr ())
          else (s', Inl (Io NotFound)))"

section \<open>Creating\<close>

text \<open>
  \<open>handle_create\<close>, from the password on: the derived key wraps a fresh data key, the header is
  written to a new file and an empty metadata block follows it. \<open>exists\<close> is whether the target
  exists, and \<open>threads\<close> the number of processors.
\<close>

definition create_settings ::
    "bool \<Rightarrow> u32 option \<Rightarrow> u32 option \<Rightarrow> u32 option \<Rightarrow> u32 \<Rightarrow> nat \<Rightarrow> u32 \<Rightarrow> KdfSettings" where
  "create_settings want_scrypt memory_arg rounds_arg parallelism_arg threads measured_ms decryption_time =
     (let c = if want_scrypt then Scrypt else Argon2id;
          mem = (case memory_arg of Some m \<Rightarrow> m | None \<Rightarrow> if want_scrypt then 262144 else 65536);
          par = (case parallelism_arg of Some p \<Rightarrow> p | None \<Rightarrow> if want_scrypt then 1 else max threads 1);
          rounds = (case rounds_arg of Some r \<Rightarrow> r | None \<Rightarrow> calibrate_kdf measured_ms decryption_time c)
      in \<lparr>choice = c, memory_kib = mem, iterations = rounds, parallelism = par\<rparr>)"

definition create_vault ::
    "vault_lib \<Rightarrow> string \<Rightarrow> KdfSettings \<Rightarrow> bool \<Rightarrow> rng \<Rightarrow> vault_error + File \<times> rng" where
  "create_vault L password settings already_exists g0 =
     bindE (guardE (trim password \<noteq> []) EmptyPassword) (\<lambda>_.
     let (salt, g1) = generate_32_bytes g0;
         (d, g2) = generate_32_bytes g1
     in bindE (map_err KdfError (derive_kek (crypto L) (str_bytes password) salt settings)) (\<lambda>kek.
        bindE (map_err (\<lambda>_. Encryption Seal) (wrap_dek (crypto L) kek d g2)) (\<lambda>((wrapped, nonce), g3).
        bindE (map_err (\<lambda>_. DekUnwrap) (unwrap_dek (crypto L) kek wrapped nonce)) (\<lambda>uv.
        bindE (guardE (\<not> already_exists) VaultExists) (\<lambda>_.
        let payload = 112 + KDF_SETTINGS_SIZE;
            f = write_all wrapped (write_all nonce (write_all salt (write_all (kdf_to_bytes settings)
                  (write_all (u64_to_le (word_of_nat payload)) new_file))));
            (cdc, g4) = draw 32 g3
        in save_vault_metadata L \<lparr>file_table = [], cdc_salt = cdc\<rparr> uv payload f g4)))))"

text \<open>
  Where the password comes from: ten generated words, the one the GUI passes, or one typed and
  confirmed on the terminal.
\<close>

datatype password_source =
    Generated "string list"
  | FromGui string
  | Typed string string

fun join :: "string \<Rightarrow> string list \<Rightarrow> string" where
  "join d [] = []"
| "join d [w] = w"
| "join d (w # ws) = w @ d @ join d ws"

fun create_password :: "password_source \<Rightarrow> vault_error + string" where
  "create_password (Generated ws) = Inr (join '' '' (take 10 ws))"
| "create_password (FromGui pw) = Inr pw"
| "create_password (Typed pass confirm_pass) =
     bindE (guardE (trim pass \<noteq> []) EmptyPassword) (\<lambda>_.
     bindE (guardE (pass = confirm_pass) PasswordMismatch) (\<lambda>_. Inr pass))"

definition handle_create ::
    "vault_lib \<Rightarrow> string \<Rightarrow> u32 option \<Rightarrow> u32 option \<Rightarrow> u32 option \<Rightarrow> u32 \<Rightarrow> nat \<Rightarrow> u32 \<Rightarrow>
     password_source \<Rightarrow> bool \<Rightarrow> rng \<Rightarrow> vault_error + File \<times> rng" where
  "handle_create L kdf_choice memory_arg rounds_arg parallelism_arg threads measured_ms decryption_time src already_exists g =
     bindE (create_password src) (\<lambda>password.
       create_vault L password
         (create_settings (to_lowercase kdf_choice = ''scrypt'') memory_arg rounds_arg parallelism_arg
            threads measured_ms decryption_time)
         already_exists g)"

end
