(* ===== verification/VaultInv.thy ===== *)
theory VaultInv
  imports VaultOps
begin

text \<open>
  The invariant of an open vault, what its files denote, and the effect of each command on both:
  importing adds a file, removing deletes it and zeroes its blocks, vacuuming changes nothing a
  reader can see. The abstract specification is a partial map from names to contents.
\<close>

section \<open>Invariant and abstraction\<close>

definition all_chunks :: "VaultMetadata \<Rightarrow> ChunkEntry list" where
  "all_chunks md = concat (map chunks (file_table md))"

definition apart :: "ChunkEntry \<Rightarrow> ChunkEntry \<Rightarrow> bool" where
  "apart c d \<longleftrightarrow> offset c + cipher_len c \<le> offset d \<or> offset d + cipher_len d \<le> offset c"

fun disjoint_chunks :: "ChunkEntry list \<Rightarrow> bool" where
  "disjoint_chunks [] = True"
| "disjoint_chunks (c # cs) = ((\<forall>d \<in> set cs. apart c d) \<and> disjoint_chunks cs)"

definition within :: "nat \<Rightarrow> nat \<Rightarrow> ChunkEntry \<Rightarrow> bool" where
  "within lo hi c \<longleftrightarrow> lo \<le> offset c \<and> offset c + cipher_len c \<le> hi"

definition vault_inv :: "session \<Rightarrow> bool" where
  "vault_inv s \<longleftrightarrow>
     VAULT_HEADER_SIZE \<le> payload_offset s \<and>
     payload_offset s \<le> length (fbytes (phys s)) \<and>
     distinct (map vfs_name (file_table (meta s))) \<and>
     (\<forall>c \<in> set (all_chunks (meta s)). within VAULT_HEADER_SIZE (payload_offset s) c) \<and>
     disjoint_chunks (all_chunks (meta s))"

text \<open>The plaintext a chunk list denotes over the bytes of a file.\<close>

fun plains :: "vault_lib \<Rightarrow> UnlockedVault \<Rightarrow> bytes \<Rightarrow> ChunkEntry list \<Rightarrow> vault_error + bytes" where
  "plains L uv b [] = Inr []"
| "plains L uv b (c # cs) =
     bindE (chunk_plain L uv b c) (\<lambda>p. bindE (plains L uv b cs) (\<lambda>q. Inr (p @ q)))"

definition vault_view :: "vault_lib \<Rightarrow> UnlockedVault \<Rightarrow> session \<Rightarrow> string \<rightharpoonup> vault_error + bytes" where
  "vault_view L uv s n = map_option (\<lambda>e. plains L uv (fbytes (phys s)) (chunks e)) (find_file n (meta s))"

text \<open>\<open>synced\<close>: reopening the file with the password yields exactly the session's state.\<close>

definition synced :: "vault_lib \<Rightarrow> bytes \<Rightarrow> UnlockedVault \<Rightarrow> session \<Rightarrow> bool" where
  "synced L pw uv s \<longleftrightarrow>
     (case load_vault_metadata L pw (phys s) of
        Inl _ \<Rightarrow> False
      | Inr (r, f) \<Rightarrow> r = (meta s, uv, payload_offset s) \<and> fbytes f = fbytes (phys s))"

section \<open>Facts about the definitions\<close>

lemma disjoint_chunks_append:
  "disjoint_chunks (cs @ ds) \<longleftrightarrow>
     disjoint_chunks cs \<and> disjoint_chunks ds \<and> (\<forall>c \<in> set cs. \<forall>d \<in> set ds. apart c d)"
  by (induction cs) auto

lemma apart_sym: "apart c d \<longleftrightarrow> apart d c"
  by (auto simp: apart_def)

lemma decrypt_loop_plains:
  "decrypt_loop L uv cs f out = (case plains L uv (fbytes f) cs of Inl e \<Rightarrow> Inl e
     | Inr p \<Rightarrow> Inr (out @ p, snd (projr (decrypt_loop L uv cs f out))))"
proof (induction cs arbitrary: f out)
  case Nil
  then show ?case by simp
next
  case (Cons c cs)
  show ?case
  proof (cases "chunk_plain L uv (fbytes f) c")
    case (Inl e)
    then show ?thesis by (simp add: process_secure_chunk_plain)
  next
    case (Inr p)
    let ?f = "f\<lparr>fpos := offset c + cipher_len c\<rparr>"
    show ?thesis
      using Inr Cons.IH [of ?f "out @ p"]
      by (cases "plains L uv (fbytes f) cs") (simp_all add: process_secure_chunk_plain)
  qed
qed

lemma decrypt_to_bytes_view:
  "decrypt_to_bytes L uv n s =
     (case vault_view L uv s n of None \<Rightarrow> Inl (NameNotFound n) | Some (Inl e) \<Rightarrow> Inl e
      | Some (Inr p) \<Rightarrow> Inr (p, snd (projr (decrypt_to_bytes L uv n s))))"
proof (cases "find_file n (meta s)")
  case None
  then show ?thesis by (simp add: decrypt_to_bytes_def vault_view_def)
next
  case (Some e)
  then show ?thesis
    using decrypt_loop_plains [of L uv "chunks e" "phys s" "[]"]
    by (cases "plains L uv (fbytes (phys s)) (chunks e)") (simp_all add: decrypt_to_bytes_def vault_view_def)
qed

lemma decrypt_to_bytes_Inr:
  assumes "decrypt_to_bytes L uv n s = Inr (p, f)"
  shows "vault_view L uv s n = Some (Inr p)"
proof (cases "vault_view L uv s n")
  case None
  then show ?thesis using assms decrypt_to_bytes_view [of L uv n s] by simp
next
  case (Some r)
  then show ?thesis using assms decrypt_to_bytes_view [of L uv n s] by (cases r) (simp, metis prod.inject sum.inject(2) option.simps(5) sum.simps(6))
qed

lemma plains_cong:
  assumes "list_all2 (\<lambda>c c'. chunk_plain L uv b c = chunk_plain L uv b' c') cs cs'"
  shows "plains L uv b cs = plains L uv b' cs'"
  using assms by (induction cs cs' rule: list_all2_induct) auto

lemma plains_append:
  "plains L uv b (cs @ ds) = bindE (plains L uv b cs) (\<lambda>p. bindE (plains L uv b ds) (\<lambda>q. Inr (p @ q)))"
proof (induction cs)
  case Nil
  then show ?case by (cases "plains L uv b ds") auto
next
  case (Cons c cs)
  then show ?case
    by (cases "chunk_plain L uv b c"; cases "plains L uv b cs"; cases "plains L uv b ds") auto
qed

text \<open>A chunk inside a region both files share denotes the same in both.\<close>

lemma chunk_plain_region:
  assumes "within lo hi c" "hi \<le> length b" "hi \<le> length b'"
    and "\<And>i m. lo \<le> i \<Longrightarrow> i + m \<le> hi \<Longrightarrow> slice i m b' = slice i m b"
  shows "chunk_plain L uv b' c = chunk_plain L uv b c"
  using assms by (intro chunk_plain_cong) (auto simp: within_def)

lemma plains_region:
  assumes "\<forall>c \<in> set cs. within lo hi c" "hi \<le> length b" "hi \<le> length b'"
    and "\<And>i m. lo \<le> i \<Longrightarrow> i + m \<le> hi \<Longrightarrow> slice i m b' = slice i m b"
  shows "plains L uv b' cs = plains L uv b cs"
  using assms(1)
proof (induction cs)
  case (Cons c cs)
  from Cons.prems have "chunk_plain L uv b' c = chunk_plain L uv b c"
    by (intro chunk_plain_region [OF _ assms(2-4)]) simp_all
  with Cons show ?case by simp
qed simp

lemma find_file_chunks:
  "find_file n md = Some e \<Longrightarrow> set (chunks e) \<subseteq> set (all_chunks md)"
  by (auto simp: find_file_def all_chunks_def find_Some_iff) (metis nth_mem)

lemma find_file_None: "find_file n md = None \<longleftrightarrow> n \<notin> vfs_name ` set (file_table md)"
  by (auto simp: find_file_def find_None_iff)

lemma vault_view_region:
  assumes "\<forall>c \<in> set (all_chunks (meta s)). within lo hi c"
    and "hi \<le> length (fbytes (phys s))" "hi \<le> length (fbytes (phys s'))"
    and "\<And>i m. lo \<le> i \<Longrightarrow> i + m \<le> hi \<Longrightarrow> slice i m (fbytes (phys s')) = slice i m (fbytes (phys s))"
    and "find_file n (meta s') = find_file n (meta s)"
  shows "vault_view L uv s' n = vault_view L uv s n"
proof (cases "find_file n (meta s)")
  case None
  with assms(5) show ?thesis by (simp add: vault_view_def)
next
  case (Some e)
  with assms(1) have "\<forall>c \<in> set (chunks e). within lo hi c" by (blast dest: find_file_chunks)
  with assms Some show ?thesis by (simp add: vault_view_def plains_region [OF _ assms(2-4)])
qed

lemma all_chunks_snoc [simp]:
  "all_chunks (md\<lparr>file_table := ft @ [e]\<rparr>) = concat (map chunks ft) @ chunks e"
  by (simp add: all_chunks_def)

lemma synced_after_save:
  assumes "aead_ok (crypto L)" "bincode_ok L" "header_unlocks L (fbytes f) pw uv"
    "125 \<le> off" "off \<le> length (fbytes f)" "off < 2 ^ 64"
    "save_vault_metadata L md uv off f g = Inr (f', g')"
    "length (fbytes f') \<le> off + METADATA_LIMIT"
    "phys s = f'" "meta s = md" "payload_offset s = off"
  shows "synced L pw uv s"
  using load_after_save [OF assms(1-8)] assms(9-) by (auto simp: synced_def)

section \<open>Importing\<close>

lemma import_chunk_ok:
  assumes "aead_ok (crypto L)" "import_chunk L uv fetch start n s = (s', Inr e)" "0 < n"
    and "\<And>content. fetch start n = Inr content \<Longrightarrow> length content = n"
    and "fpos (phys s) = payload_offset s" "payload_offset s \<le> length (fbytes (phys s))"
  shows "meta s' = meta s"
    and "offset e = payload_offset s" "payload_offset s' = payload_offset s + cipher_len e"
    and "fpos (phys s') = payload_offset s'" "payload_offset s' \<le> length (fbytes (phys s'))"
    and "\<And>i m. i + m \<le> payload_offset s \<Longrightarrow> slice i m (fbytes (phys s')) = slice i m (fbytes (phys s))"
    and "chunk_plain L uv (fbytes (phys s')) e = fetch start n"
proof -
  from assms(2) obtain content where c: "fetch start n = Inr content" and n: "n \<le> MAX_CHUNK_SIZE"
    by (cases "fetch start n"; cases "MAX_CHUNK_SIZE < n") (simp_all add: import_chunk_def)
  obtain pad g1 where pad: "draw (MAX_CHUNK_SIZE - n) (rand s) = (pad, g1)" by fastforce
  obtain fid g2 where fid: "generate_file_id g1 = (fid, g2)" by fastforce
  have lock: "mlock L (length (content @ pad))"
    using assms(2) n c pad by (cases "mlock L (length (content @ pad))") (simp_all add: import_chunk_def)
  with assms(2) n c pad fid obtain blob g3 where enc: "encrypt_chunk (crypto L) uv (content @ pad) fid g2 = Inr (blob, g3)"
    by (cases "encrypt_chunk (crypto L) uv (content @ pad) fid g2") (auto simp: import_chunk_def)
  have s': "s' = s\<lparr>phys := write_all blob (phys s), payload_offset := payload_offset s + length blob, rand := g3\<rparr>"
    and e: "e = \<lparr>cipher_len = length blob, offset = payload_offset s, file_id = fid, plain_len = n\<rparr>"
    using assms(2) n c pad fid lock enc by (simp_all add: import_chunk_def)
  have b: "fbytes (phys s') = splice (payload_offset s) blob (fbytes (phys s))"
    using assms(5,6) by (simp add: s' fbytes_write_all)
  show "meta s' = meta s" "offset e = payload_offset s" "payload_offset s' = payload_offset s + cipher_len e"
    "fpos (phys s') = payload_offset s'"
    using assms(5) by (simp_all add: s' e)
  show bound: "payload_offset s' \<le> length (fbytes (phys s'))"
    using assms(6) b by (simp add: s' length_splice)
  show "slice i m (fbytes (phys s')) = slice i m (fbytes (phys s))" if "i + m \<le> payload_offset s" for i m
    unfolding b using assms(6) that by (rule slice_splice_before)
  have "decrypt_chunk (crypto L) uv blob fid = Inr (content @ pad)"
    using assms(1) enc by (rule decrypt_encrypt_chunk)
  moreover have "slice (payload_offset s) (length blob) (fbytes (phys s')) = blob"
    using assms(6) by (simp add: b)
  ultimately show "chunk_plain L uv (fbytes (phys s')) e = fetch start n"
    using bound lock assms(3) assms(4) [OF c] c
    by (simp add: chunk_plain_def process_secure_chunk_def read_exact_def seek_start_def e s' strip_padding_def)
qed

lemma import_loop_ok:
  assumes "aead_ok (crypto L)" "import_loop L uv fetch bs s acc = (s', Inr new)"
    and "\<forall>(st, n) \<in> set bs. 0 < n \<and> (\<forall>c. fetch st n = Inr c \<longrightarrow> length c = n)"
    and "fpos (phys s) = payload_offset s" "payload_offset s \<le> length (fbytes (phys s))"
  shows "\<exists>es. new = acc @ es \<and> meta s' = meta s \<and>
      payload_offset s \<le> payload_offset s' \<and> payload_offset s' \<le> length (fbytes (phys s')) \<and>
      (\<forall>i m. i + m \<le> payload_offset s \<longrightarrow> slice i m (fbytes (phys s')) = slice i m (fbytes (phys s))) \<and>
      (\<forall>e \<in> set es. within (payload_offset s) (payload_offset s') e) \<and> disjoint_chunks es \<and>
      list_all2 (\<lambda>(st, n) e. chunk_plain L uv (fbytes (phys s')) e = fetch st n) bs es"
  using assms(2-)
proof (induction bs arbitrary: s acc)
  case Nil
  then show ?case by simp
next
  case (Cons b bs)
  obtain st n where b: "b = (st, n)" by fastforce
  from Cons.prems(1) b obtain s1 e where step: "import_chunk L uv fetch st n s = (s1, Inr e)"
    and rest: "import_loop L uv fetch bs s1 (acc @ [e]) = (s', Inr new)"
    by (auto split: prod.splits sum.splits)
  have n: "0 < n" "\<And>c. fetch st n = Inr c \<Longrightarrow> length c = n"
    using Cons.prems(2) b by auto
  note ok = import_chunk_ok [OF assms(1) step n Cons.prems(3,4)]
  from Cons.IH [OF rest _ ok(4,5)] Cons.prems(2) obtain es where es:
    "new = acc @ e # es" "meta s' = meta s1" "payload_offset s1 \<le> payload_offset s'"
    "payload_offset s' \<le> length (fbytes (phys s'))"
    "\<forall>i m. i + m \<le> payload_offset s1 \<longrightarrow> slice i m (fbytes (phys s')) = slice i m (fbytes (phys s1))"
    "\<forall>e \<in> set es. within (payload_offset s1) (payload_offset s') e" "disjoint_chunks es"
    "list_all2 (\<lambda>(st, n) e. chunk_plain L uv (fbytes (phys s')) e = fetch st n) bs es"
    by auto
  have "chunk_plain L uv (fbytes (phys s')) e = chunk_plain L uv (fbytes (phys s1)) e"
    using es(3-5) ok(2,3,5) by (intro chunk_plain_region [of 0 "payload_offset s1"]) (auto simp: within_def)
  moreover have "\<forall>d \<in> set es. apart e d"
    using es(6) ok(2,3) by (auto simp: apart_def within_def)
  moreover have "\<forall>d \<in> set (e # es). within (payload_offset s) (payload_offset s') d"
    using es(3,6) ok(2,3) by (auto simp: within_def)
  ultimately show ?case
    using es ok b by (intro exI [of _ "e # es"]) auto
qed

lemma plains_fetch:
  assumes "list_all2 (\<lambda>(st, n) e. chunk_plain L uv b e = fetch_bytes d st n) bs es"
    and "\<forall>(st, n) \<in> set bs. st + n \<le> length d"
  shows "plains L uv b es = Inr (concat (map (\<lambda>(st, n). slice st n d) bs))"
  using assms by (induction bs es rule: list_all2_induct) (auto simp: fetch_bytes_def)

lemma name_taken_iff: "name_taken n s \<longleftrightarrow> n \<in> vfs_name ` set (file_table (meta s))"
  by (auto simp: name_taken_def list_ex_iff)

lemma import_store_ok:
  assumes "aead_ok (crypto L)" "vault_inv s" "\<not> name_taken name s"
    and "import_store L uv name (fetch_bytes d) bs now s = (s', Inr ())"
    and bs: "\<forall>(st, n) \<in> set bs. 0 < n \<and> st + n \<le> length d"
  obtains es and s1 :: session where
    "meta s' = (meta s)\<lparr>file_table := file_table (meta s) @
                 [\<lparr>vfs_name = name, chunks = es, last_modified_unix = now\<rparr>]\<rparr>"
    "payload_offset s \<le> payload_offset s'" "payload_offset s' \<le> length (fbytes (phys s'))"
    "\<forall>i m. 8 \<le> i \<longrightarrow> i + m \<le> payload_offset s \<longrightarrow> slice i m (fbytes (phys s')) = slice i m (fbytes (phys s))"
    "\<forall>e \<in> set es. within (payload_offset s) (payload_offset s') e" "disjoint_chunks es"
    "plains L uv (fbytes (phys s')) es = Inr (concat (map (\<lambda>(st, n). slice st n d) bs))"
    "save_vault_metadata L (meta s') uv (payload_offset s') (phys s1) (rand s1) = Inr (phys s', rand s')"
    "payload_offset s' \<le> length (fbytes (phys s1))"
    "\<forall>i m. i + m \<le> payload_offset s \<longrightarrow> slice i m (fbytes (phys s1)) = slice i m (fbytes (phys s))"
proof -
  let ?s0 = "s\<lparr>phys := seek_start (payload_offset s) (phys s)\<rparr>"
  from assms(4) obtain s1 new where loop: "import_loop L uv (fetch_bytes d) bs ?s0 [] = (s1, Inr new)"
    by (cases "import_loop L uv (fetch_bytes d) bs ?s0 []"; cases "snd (import_loop L uv (fetch_bytes d) bs ?s0 [])")
      (auto simp: import_store_def)
  have pre: "\<forall>(st, n) \<in> set bs. 0 < n \<and> (\<forall>c. fetch_bytes d st n = Inr c \<longrightarrow> length c = n)"
    using bs by (auto simp: fetch_bytes_def length_slice)
  have at: "fpos (phys ?s0) = payload_offset ?s0" "payload_offset ?s0 \<le> length (fbytes (phys ?s0))"
    using assms(2) by (simp_all add: vault_inv_def)
  from import_loop_ok [OF assms(1) loop pre at] obtain es where es:
    "new = es" "meta s1 = meta s" "payload_offset s \<le> payload_offset s1"
    "payload_offset s1 \<le> length (fbytes (phys s1))"
    "\<forall>i m. i + m \<le> payload_offset s \<longrightarrow> slice i m (fbytes (phys s1)) = slice i m (fbytes (phys s))"
    "\<forall>e \<in> set es. within (payload_offset s) (payload_offset s1) e" "disjoint_chunks es"
    "list_all2 (\<lambda>(st, n) e. chunk_plain L uv (fbytes (phys s1)) e = fetch_bytes d st n) bs es"
    by auto
  let ?md = "(meta s1)\<lparr>file_table := file_table (meta s1) @
                 [\<lparr>vfs_name = name, chunks = new, last_modified_unix = now\<rparr>]\<rparr>"
  from assms(4) loop obtain f g where save: "save_vault_metadata L ?md uv (payload_offset s1) (phys s1) (rand s1) = Inr (f, g)"
    and s': "s' = s1\<lparr>meta := ?md, phys := f, rand := g\<rparr>"
    by (auto simp: import_store_def Let_def split: sum.splits prod.splits)
  have off: "125 \<le> payload_offset s" using assms(2) by (simp add: vault_inv_def)
  have sl: "slice i m (fbytes f) = slice i m (fbytes (phys s1))" if "8 \<le> i" "i + m \<le> payload_offset s1" for i m
    using save_slice [OF save _ es(4) that] es(3) off by simp
  have len: "payload_offset s1 \<le> length (fbytes f)"
    using save_length [OF save _ es(4)] es(3) off by simp
  have "plains L uv (fbytes f) es = plains L uv (fbytes (phys s1)) es"
    using es(4,6) len sl off by (intro plains_region [of _ "payload_offset s" "payload_offset s1"]) auto
  also have "\<dots> = Inr (concat (map (\<lambda>(st, n). slice st n d) bs))"
    using es(8) bs by (intro plains_fetch) auto
  finally show thesis
    using es save s' len sl by (intro that [of es s1]) auto
qed

lemma header_unlocks_region:
  assumes "\<forall>i m. 8 \<le> i \<longrightarrow> i + m \<le> off \<longrightarrow> slice i m b' = slice i m b" "125 \<le> off"
  shows "header_unlocks L b' pw uv = header_unlocks L b pw uv"
  using assms by (intro header_unlocks_cong) simp

lemma find_append_one:
  "find P (xs @ [y]) = (case find P xs of Some x \<Rightarrow> Some x | None \<Rightarrow> if P y then Some y else None)"
  by (induction xs) auto

lemma find_file_snoc:
  "find_file n (md\<lparr>file_table := file_table md @ [e]\<rparr>) =
     (case find_file n md of Some x \<Rightarrow> Some x | None \<Rightarrow> if vfs_name e = n then Some e else None)"
  by (simp add: find_file_def find_append_one)

lemma import_inv:
  assumes "aead_ok (crypto L)" "fastcdc_ok L" "vault_inv s"
    and "handle_import_from_bytes L uv d name now s = (s', Inr ())"
  shows "vault_inv s'"
    and "vault_view L uv s' = (vault_view L uv s)(name \<mapsto> Inr d)"
    and "header_unlocks L (fbytes (phys s)) pw uv \<Longrightarrow> bincode_ok L \<Longrightarrow> payload_offset s' < 2 ^ 64 \<Longrightarrow>
         length (fbytes (phys s')) \<le> payload_offset s' + METADATA_LIMIT \<Longrightarrow> synced L pw uv s'"
proof -
  from assms(4) have fresh: "\<not> name_taken name s"
    by (auto simp: handle_import_from_bytes_def split: if_splits)
  with assms(4) obtain bs where cd: "fastcdc L 2048 4096 MAX_CHUNK_SIZE d = Some bs"
    and st: "import_store L uv name (fetch_bytes d) bs now s = (s', Inr ())"
    by (auto simp: handle_import_from_bytes_def chunk_data_def split: option.splits)
  from assms(2) cd have part: "concat (map (\<lambda>(s, n). slice s n d) bs) = d"
    and bs: "\<forall>(st, n) \<in> set bs. 0 < n \<and> st + n \<le> length d"
    unfolding fastcdc_ok_def by blast+
  from assms(1,3) fresh st bs obtain es and s1 :: session where k:
    "meta s' = (meta s)\<lparr>file_table := file_table (meta s) @
                 [\<lparr>vfs_name = name, chunks = es, last_modified_unix = now\<rparr>]\<rparr>"
    "payload_offset s \<le> payload_offset s'" "payload_offset s' \<le> length (fbytes (phys s'))"
    "\<forall>i m. 8 \<le> i \<longrightarrow> i + m \<le> payload_offset s \<longrightarrow> slice i m (fbytes (phys s')) = slice i m (fbytes (phys s))"
    "\<forall>e \<in> set es. within (payload_offset s) (payload_offset s') e" "disjoint_chunks es"
    "plains L uv (fbytes (phys s')) es = Inr (concat (map (\<lambda>(st, n). slice st n d) bs))"
    "save_vault_metadata L (meta s') uv (payload_offset s') (phys s1) (rand s1) = Inr (phys s', rand s')"
    "payload_offset s' \<le> length (fbytes (phys s1))"
    "\<forall>i m. i + m \<le> payload_offset s \<longrightarrow> slice i m (fbytes (phys s1)) = slice i m (fbytes (phys s))"
    by (rule import_store_ok)
  have inv: "125 \<le> payload_offset s" "payload_offset s \<le> length (fbytes (phys s))"
    "distinct (map vfs_name (file_table (meta s)))"
    "\<forall>c \<in> set (all_chunks (meta s)). within 125 (payload_offset s) c" "disjoint_chunks (all_chunks (meta s))"
    using assms(3) by (simp_all add: vault_inv_def)
  have ac: "all_chunks (meta s') = all_chunks (meta s) @ es"
    using k(1) by (simp add: all_chunks_def)
  have "\<forall>c \<in> set (all_chunks (meta s')). within 125 (payload_offset s') c"
    using inv(1,4) k(2,5) by (auto simp: ac within_def)
  moreover have "\<forall>c \<in> set (all_chunks (meta s)). \<forall>d \<in> set es. apart c d"
    using inv(4) k(5) unfolding within_def apart_def by (meson le_trans)
  then have "disjoint_chunks (all_chunks (meta s'))"
    using inv(5) k(6) by (simp add: ac disjoint_chunks_append)
  moreover have "distinct (map vfs_name (file_table (meta s')))"
    using inv(3) fresh k(1) by (simp add: name_taken_iff)
  ultimately show "vault_inv s'" using inv(1) k(2,3) by (simp add: vault_inv_def)
  show "vault_view L uv s' = (vault_view L uv s)(name \<mapsto> Inr d)"
  proof
    fix n
    show "vault_view L uv s' n = ((vault_view L uv s)(name \<mapsto> Inr d)) n"
    proof (cases "n = name")
      case True
      have "find_file name (meta s) = None" using fresh by (simp add: find_file_None name_taken_iff)
      then show ?thesis
        using True k(1,7) part by (simp add: vault_view_def find_file_snoc)
    next
      case False
      then have "find_file n (meta s') = find_file n (meta s)"
        using k(1) by (simp add: find_file_snoc split: option.splits)
      then have "vault_view L uv s' n = vault_view L uv s n"
        using inv(1,2,4) k(2-4) by (intro vault_view_region [of s 125 "payload_offset s"]) auto
      with False show ?thesis by simp
    qed
  qed
  assume h: "header_unlocks L (fbytes (phys s)) pw uv" "bincode_ok L" "payload_offset s' < 2 ^ 64"
    "length (fbytes (phys s')) \<le> payload_offset s' + METADATA_LIMIT"
  have "header_unlocks L (fbytes (phys s1)) pw uv"
    using header_unlocks_region [of "payload_offset s" "fbytes (phys s1)"] h(1) k(10) inv(1) by blast
  with h k(2,8,9) inv(1) assms(1) show "synced L pw uv s'"
    by (intro synced_after_save [OF assms(1) h(2) _ _ k(9) h(3) k(8) h(4)]) simp_all
qed

section \<open>Removing\<close>

lemma zeroize_chunk_bytes:
  assumes "offset c + cipher_len c \<le> length (fbytes f)"
  shows "fbytes (zeroize_chunk c f) = splice (offset c) (replicate (cipher_len c) 0) (fbytes f)"
    and "length (fbytes (zeroize_chunk c f)) = length (fbytes f)"
  using assms by (simp_all add: zeroize_chunk_def fbytes_write_all length_splice)

lemma zeroize_fold:
  assumes "\<forall>c \<in> set cs. offset c + cipher_len c \<le> length (fbytes f)"
  shows "length (fbytes (fold zeroize_chunk cs f)) = length (fbytes f)"
    and "\<forall>c \<in> set cs. apart d c \<Longrightarrow> offset d + cipher_len d \<le> length (fbytes f) \<Longrightarrow>
      slice (offset d) (cipher_len d) (fbytes (fold zeroize_chunk cs f)) =
      slice (offset d) (cipher_len d) (fbytes f)"
  using assms
proof (induction cs arbitrary: f)
  case Nil
  { case 1 then show ?case by simp }
  { case 2 then show ?case by simp }
next
  case (Cons c cs)
  { case 1
    then have "offset c + cipher_len c \<le> length (fbytes f)" by simp
    then have l: "length (fbytes (zeroize_chunk c f)) = length (fbytes f)" by (rule zeroize_chunk_bytes(2))
    with 1 have "length (fbytes (fold zeroize_chunk cs (zeroize_chunk c f))) = length (fbytes (zeroize_chunk c f))"
      by (intro Cons.IH(1)) simp
    with l show ?case by simp }
  { case 2
    have "fbytes (zeroize_chunk c f) = splice (offset c) (replicate (cipher_len c) 0) (fbytes f)"
      by (rule zeroize_chunk_bytes(1)) (use 2 in simp)
    then have "slice (offset d) (cipher_len d) (fbytes (zeroize_chunk c f)) =
          slice (offset d) (cipher_len d) (fbytes f)"
      using 2 by (auto simp: apart_def slice_splice_before slice_splice_after)
    moreover have "length (fbytes (zeroize_chunk c f)) = length (fbytes f)"
      by (rule zeroize_chunk_bytes(2)) (use 2 in simp)
    ultimately show ?case using 2 Cons.IH(2) [of "zeroize_chunk c f"] by simp }
qed

lemma zeroize_fold_zero:
  assumes "\<forall>c \<in> set cs. offset c + cipher_len c \<le> length (fbytes f)" "disjoint_chunks cs" "c \<in> set cs"
  shows "slice (offset c) (cipher_len c) (fbytes (fold zeroize_chunk cs f)) = replicate (cipher_len c) 0"
  using assms
proof (induction cs arbitrary: f)
  case (Cons d cs)
  note z = zeroize_chunk_bytes [of d f]
  show ?case
  proof (cases "c \<in> set cs")
    case True
    with Cons z(2) show ?thesis by simp
  next
    case False
    with Cons.prems have "c = d" and ap: "\<forall>x \<in> set cs. apart c x" by auto
    have "slice (offset c) (cipher_len c) (fbytes (zeroize_chunk d f)) = replicate (cipher_len c) 0"
      using Cons.prems(1) z \<open>c = d\<close> slice_splice_same [of "offset c" "fbytes f" "replicate (cipher_len c) 0"] by simp
    with zeroize_fold(2) [OF _ ap, of "zeroize_chunk d f"] Cons.prems(1) z(2) \<open>c = d\<close> show ?thesis by simp
  qed
qed simp

lemma find_index_Some:
  assumes "find (\<lambda>i. P (xs ! i)) [0..<length xs] = Some i"
  shows "i < length xs" "P (xs ! i)" "xs = take i xs @ xs ! i # drop (Suc i) xs"
proof -
  from assms show "i < length xs" "P (xs ! i)" by (auto simp: find_Some_iff)
  then show "xs = take i xs @ xs ! i # drop (Suc i) xs" by (simp add: id_take_nth_drop [symmetric])
qed

lemma find_index_None:
  "find (\<lambda>i. P (xs ! i)) [0..<length xs] = None \<longleftrightarrow> (\<forall>x \<in> set xs. \<not> P x)"
  unfolding find_None_iff by (auto simp: all_set_conv_all_nth)

lemma find_remove_one:
  assumes "\<not> P y"
  shows "find P (xs @ y # zs) = find P (xs @ zs)"
  using assms by (induction xs) auto

lemma header_unlocks_chunk:
  assumes "slice 8 117 b' = slice 8 117 b"
  shows "header_unlocks L b' pw uv = header_unlocks L b pw uv"
  by (rule header_unlocks_cong) (rule assms)

text \<open>The first part of \<open>handle_rm\<close>: the blocks of the removed file are zeroed, nothing else moves.\<close>

lemma rm_zeroized:
  assumes inv: "vault_inv s"
    and ft: "file_table (meta s) = xs @ e # zs"
    and f: "f = set_len (payload_offset s) (seek_start (payload_offset s) (fold zeroize_chunk (chunks e) (phys s)))"
  shows "length (fbytes f) = payload_offset s"
    and "slice 8 117 (fbytes f) = slice 8 117 (fbytes (phys s))"
    and "\<And>d. d \<in> set (concat (map chunks (xs @ zs))) \<Longrightarrow>
          slice (offset d) (cipher_len d) (fbytes f) = slice (offset d) (cipher_len d) (fbytes (phys s))"
    and "\<And>c. c \<in> set (chunks e) \<Longrightarrow> slice (offset c) (cipher_len c) (fbytes f) = replicate (cipher_len c) 0"
proof -
  let ?z = "fold zeroize_chunk (chunks e) (phys s)"
  have off: "125 \<le> payload_offset s" "payload_offset s \<le> length (fbytes (phys s))"
    and win: "\<forall>c \<in> set (all_chunks (meta s)). within 125 (payload_offset s) c"
    and dis: "disjoint_chunks (all_chunks (meta s))"
    using inv by (simp_all add: vault_inv_def)
  have sub: "set (chunks e) \<subseteq> set (all_chunks (meta s))" by (auto simp: all_chunks_def ft)
  have b: "\<forall>c \<in> set (chunks e). offset c + cipher_len c \<le> length (fbytes (phys s))"
    using win sub off(2) unfolding within_def by fastforce
  have l: "length (fbytes ?z) = length (fbytes (phys s))" using b by (rule zeroize_fold(1))
  have fb: "fbytes f = take (payload_offset s) (fbytes ?z)"
    using off l by (simp add: f fbytes_set_len)
  show "length (fbytes f) = payload_offset s" using off l by (simp add: fb)
  let ?h = "\<lparr>cipher_len = 117, offset = 8, file_id = [], plain_len = 0\<rparr>"
  have "\<forall>c \<in> set (chunks e). apart ?h c" using win sub by (fastforce simp: apart_def within_def)
  from zeroize_fold(2) [OF b this] have "slice 8 117 (fbytes ?z) = slice 8 117 (fbytes (phys s))"
    using off by simp
  then show "slice 8 117 (fbytes f) = slice 8 117 (fbytes (phys s))"
    using off by (simp add: fb slice_take)
  show "slice (offset d) (cipher_len d) (fbytes f) = slice (offset d) (cipher_len d) (fbytes (phys s))"
    if d: "d \<in> set (concat (map chunks (xs @ zs)))" for d
  proof -
    have "within 125 (payload_offset s) d" using win d by (auto simp: all_chunks_def ft)
    moreover have "all_chunks (meta s) = concat (map chunks xs) @ chunks e @ concat (map chunks zs)"
      by (simp add: all_chunks_def ft)
    then have "\<forall>c \<in> set (chunks e). apart d c"
      using dis d unfolding map_append concat_append set_append
      by (auto simp only: disjoint_chunks_append set_append Un_iff dest: apart_sym [THEN iffD1])
    from zeroize_fold(2) [OF b this] calculation off
    have "slice (offset d) (cipher_len d) (fbytes ?z) = slice (offset d) (cipher_len d) (fbytes (phys s))"
      by (simp add: within_def)
    ultimately show ?thesis by (simp add: fb slice_take within_def)
  qed
  show "slice (offset c) (cipher_len c) (fbytes f) = replicate (cipher_len c) 0" if c: "c \<in> set (chunks e)" for c
  proof -
    have "disjoint_chunks (chunks e)" using dis by (simp add: all_chunks_def ft disjoint_chunks_append)
    from zeroize_fold_zero [OF b this c] have "slice (offset c) (cipher_len c) (fbytes ?z) = replicate (cipher_len c) 0" .
    moreover have "within 125 (payload_offset s) c" using win sub c by blast
    ultimately show ?thesis by (simp add: fb slice_take within_def)
  qed
qed

lemma rm_cases:
  assumes "handle_rm L uv name s = (s', Inr ())"
  obtains xs e zs f where "file_table (meta s) = xs @ e # zs" "vfs_name e = name"
    "f = set_len (payload_offset s) (seek_start (payload_offset s) (fold zeroize_chunk (chunks e) (phys s)))"
    "meta s' = (meta s)\<lparr>file_table := xs @ zs\<rparr>" "payload_offset s' = payload_offset s"
    "save_vault_metadata L (meta s') uv (payload_offset s) f (rand s) = Inr (phys s', rand s')"
proof -
  let ?ft = "file_table (meta s)"
  from assms obtain i where i: "find (\<lambda>i. vfs_name (?ft ! i) = name) [0..<length ?ft] = Some i"
    by (cases "find (\<lambda>i. vfs_name (?ft ! i) = name) [0..<length ?ft]") (simp_all add: handle_rm_def)
  note fi = find_index_Some [OF i]
  from assms i show thesis
    by (intro that [of "take i ?ft" "?ft ! i" "drop (Suc i) ?ft"])
      (use fi in \<open>auto simp: handle_rm_def Let_def split: sum.splits prod.splits\<close>)
qed

lemma rm_inv:
  assumes "vault_inv s" "handle_rm L uv name s = (s', Inr ())"
  shows "vault_inv s'"
    and "vault_view L uv s' = (vault_view L uv s)(name := None)"
    and "find_file name (meta s) = Some e \<Longrightarrow> c \<in> set (chunks e) \<Longrightarrow>
         slice (offset c) (cipher_len c) (fbytes (phys s')) = replicate (cipher_len c) 0"
    and "header_unlocks L (fbytes (phys s)) pw uv \<Longrightarrow> aead_ok (crypto L) \<Longrightarrow> bincode_ok L \<Longrightarrow>
         payload_offset s' < 2 ^ 64 \<Longrightarrow>
         length (fbytes (phys s')) \<le> payload_offset s' + METADATA_LIMIT \<Longrightarrow> synced L pw uv s'"
proof -
  from assms(2) obtain xs x zs f where r: "file_table (meta s) = xs @ x # zs" "vfs_name x = name"
    "f = set_len (payload_offset s) (seek_start (payload_offset s) (fold zeroize_chunk (chunks x) (phys s)))"
    "meta s' = (meta s)\<lparr>file_table := xs @ zs\<rparr>" "payload_offset s' = payload_offset s"
    "save_vault_metadata L (meta s') uv (payload_offset s) f (rand s) = Inr (phys s', rand s')"
    by (rule rm_cases)
  note z = rm_zeroized [OF assms(1) r(1,3)]
  have inv: "125 \<le> payload_offset s" "distinct (map vfs_name (file_table (meta s)))"
    "payload_offset s \<le> length (fbytes (phys s))"
    "\<forall>c \<in> set (all_chunks (meta s)). within 125 (payload_offset s) c" "disjoint_chunks (all_chunks (meta s))"
    using assms(1) by (simp_all add: vault_inv_def)
  have sl: "slice i m (fbytes (phys s')) = slice i m (fbytes f)" if "8 \<le> i" "i + m \<le> payload_offset s" for i m
    using save_slice [OF r(6) _ _ that] inv(1) z(1) by simp
  have len: "payload_offset s \<le> length (fbytes (phys s'))"
    using save_length [OF r(6)] inv(1) z(1) by simp
  have ac: "all_chunks (meta s) = concat (map chunks xs) @ chunks x @ concat (map chunks zs)"
    "all_chunks (meta s') = concat (map chunks xs) @ concat (map chunks zs)"
    using r(1,4) by (simp_all add: all_chunks_def)
  have "disjoint_chunks (all_chunks (meta s'))"
    using inv(5) unfolding ac disjoint_chunks_append set_append by blast
  moreover have "\<forall>c \<in> set (all_chunks (meta s')). within 125 (payload_offset s) c"
    using inv(4) unfolding ac set_append by blast
  ultimately
  show "vault_inv s'" using inv(1,2) len r(1,4,5) by (simp add: vault_inv_def)
  have same: "chunk_plain L uv (fbytes (phys s')) d = chunk_plain L uv (fbytes (phys s)) d"
    if d: "d \<in> set (concat (map chunks (xs @ zs)))" for d
  proof (rule chunk_plain_cong)
    have w: "within 125 (payload_offset s) d" using inv(4) d by (auto simp: all_chunks_def r(1))
    then show "offset d + cipher_len d \<le> length (fbytes (phys s'))"
      "offset d + cipher_len d \<le> length (fbytes (phys s))" using len inv(3) by (auto simp: within_def)
    show "slice (offset d) (cipher_len d) (fbytes (phys s')) = slice (offset d) (cipher_len d) (fbytes (phys s))"
      using sl z(3) [OF d] w by (simp add: within_def)
  qed simp_all
  show "vault_view L uv s' = (vault_view L uv s)(name := None)"
  proof
    fix n
    show "vault_view L uv s' n = ((vault_view L uv s)(name := None)) n"
    proof (cases "n = name")
      case True
      then have "find_file n (meta s') = None" using inv(2) r(1,2,4) by (auto simp: find_file_None)
      with True show ?thesis by (simp add: vault_view_def)
    next
      case False
      then have ff: "find_file n (meta s') = find_file n (meta s)"
        using r(1,2,4) by (simp add: find_file_def find_remove_one)
      show ?thesis
      proof (cases "find_file n (meta s')")
        case None
        with False ff show ?thesis by (simp add: vault_view_def)
      next
        case (Some e)
        then have "set (chunks e) \<subseteq> set (concat (map chunks (xs @ zs)))"
          using find_file_chunks [OF Some] r(4) by (simp add: all_chunks_def)
        then have "plains L uv (fbytes (phys s')) (chunks e) = plains L uv (fbytes (phys s)) (chunks e)"
          by (intro plains_cong) (use same in \<open>auto simp: list_all2_same\<close>)
        moreover have "find_file n (meta s) = Some e" using ff Some by simp
        ultimately show ?thesis using False Some by (simp add: vault_view_def)
      qed
    qed
  qed
  show "slice (offset c) (cipher_len c) (fbytes (phys s')) = replicate (cipher_len c) 0"
    if e: "find_file name (meta s) = Some e" "c \<in> set (chunks e)"
  proof -
    have "name \<notin> vfs_name ` set xs" using inv(2) r(1,2) by auto
    then have "\<forall>y \<in> set xs. vfs_name y \<noteq> name" by blast
    then have "find (\<lambda>f. vfs_name f = name) (xs @ x # zs) = Some x"
      using r(2) by (induction xs) auto
    with e(1) r(1) have "e = x" by (simp add: find_file_def)
    moreover have "within 125 (payload_offset s) c"
      using inv(4) e(2) \<open>e = x\<close> by (auto simp: all_chunks_def r(1))
    ultimately show ?thesis using sl z(4) e(2) by (simp add: within_def)
  qed
  assume h: "header_unlocks L (fbytes (phys s)) pw uv" "aead_ok (crypto L)" "bincode_ok L"
    "payload_offset s' < 2 ^ 64" "length (fbytes (phys s')) \<le> payload_offset s' + METADATA_LIMIT"
  have "header_unlocks L (fbytes f) pw uv" using header_unlocks_chunk [OF z(2)] h(1) by simp
  with h r(5,6) inv(1) z(1) show "synced L pw uv s'"
    by (intro synced_after_save [OF h(2,3) _ inv(1) _ _ r(6)]) simp_all
qed

section \<open>Creating\<close>

lemma write_all_chain:
  assumes "fpos f = length (fbytes f)"
  shows "fbytes (write_all bs f) = fbytes f @ bs" "fpos (write_all bs f) = length (fbytes (write_all bs f))"
  using assms by (simp_all add: fbytes_write_all splice_def)

text \<open>A new vault holds no file and opens with its password.\<close>

lemma create_ok:
  assumes "aead_ok (crypto L)" "bincode_ok L" "create_vault L pw st ex g = Inr (f, g')"
    and small: "length (fbytes f) \<le> 125 + METADATA_LIMIT"
  obtains uv cdc where "length (dek uv) = 32" "length cdc = 32"
    "header_unlocks L (fbytes f) (str_bytes pw) uv"
    "\<And>s. s = \<lparr>phys = f, meta = \<lparr>file_table = [], cdc_salt = cdc\<rparr>, payload_offset = 125, rand = g'\<rparr> \<Longrightarrow>
      vault_inv s \<and> vault_view L uv s = Map.empty \<and> synced L (str_bytes pw) uv s"
proof -
  obtain salt g1 where salt: "generate_32_bytes g = (salt, g1)" by fastforce
  obtain d g2 where d: "generate_32_bytes g1 = (d, g2)" by fastforce
  have len: "length salt = 32" "length d = KEY_LEN"
    using salt d by (auto simp: generate_32_bytes_def KEY_LEN_def dest: draw_length)
  from assms(3) salt d obtain kek w n g3 uv where r:
    "derive_kek (crypto L) (str_bytes pw) salt st = Inr kek" "wrap_dek (crypto L) kek d g2 = Inr ((w, n), g3)"
    "unwrap_dek (crypto L) kek w n = Inr uv"
    and sv: "save_vault_metadata L \<lparr>file_table = [], cdc_salt = fst (draw 32 g3)\<rparr> uv 125
      (write_all w (write_all n (write_all salt (write_all (kdf_to_bytes st)
         (write_all (u64_to_le (word_of_nat 125)) new_file))))) (snd (draw 32 g3)) = Inr (f, g')"
    by (auto simp: create_vault_def result_simps KDF_SETTINGS_SIZE_def case_prod_beta Let_def)
  note dw = unwrap_wrap_dek [OF assms(1) len(2) r(2)]
  let ?f = "write_all w (write_all n (write_all salt (write_all (kdf_to_bytes st)
         (write_all (u64_to_le (word_of_nat 125)) new_file))))"
  have b: "fbytes ?f = u64_to_le (word_of_nat 125) @ kdf_to_bytes st @ salt @ n @ w"
    by (simp add: write_all_chain new_file_def)
  have l: "length n = 24" "length w = 48" using dw by (simp_all add: crypto_consts)
  have hu: "header_unlocks L (fbytes ?f) (str_bytes pw) uv"
    unfolding header_unlocks_def b using r len l
    by (simp add: slice_append2 slice_append1 slice_0)
  have len125: "length (fbytes ?f) = 125" unfolding b using len l by simp
  have "length (dek uv) = 32" "length (fst (draw 32 g3)) = 32"
    using r(3) dw(1) len(2) by (auto simp: KEY_LEN_def)
  moreover have "header_unlocks L (fbytes f) (str_bytes pw) uv"
    using save_header_unlocks [OF sv] len125 hu by simp
  moreover
  { fix s assume s: "s = \<lparr>phys = f, meta = \<lparr>file_table = [], cdc_salt = fst (draw 32 g3)\<rparr>, payload_offset = 125, rand = g'\<rparr>"
    have "synced L (str_bytes pw) uv s"
      by (rule synced_after_save [OF assms(1,2) hu _ _ _ sv small]) (use len125 s in simp_all)
    moreover have "125 \<le> length (fbytes f)" using save_length [OF sv] len125 by simp
    ultimately have "vault_inv s \<and> vault_view L uv s = Map.empty \<and> synced L (str_bytes pw) uv s"
      using s by (auto simp: vault_inv_def all_chunks_def vault_view_def find_file_def) }
  ultimately show thesis by (rule that)
qed

end
