(* ===== verification/VaultVacuum.thy ===== *)
theory VaultVacuum
  imports VaultInv
begin

text \<open>
  \<open>vacuum\<close> rewrites the live blobs one after the other behind the header of a new file. Its copy
  loops compute the pure relocation below, so the new vault is compact, keeps the invariant, and
  every file reads as before.
\<close>

fun relocate :: "nat \<Rightarrow> ChunkEntry list \<Rightarrow> ChunkEntry list" where
  "relocate off [] = []"
| "relocate off (c # cs) = c\<lparr>offset := off\<rparr> # relocate (off + cipher_len c) cs"

fun relocate_files :: "nat \<Rightarrow> FileIndex list \<Rightarrow> FileIndex list" where
  "relocate_files off [] = []"
| "relocate_files off (fi # fis) =
     fi\<lparr>chunks := relocate off (chunks fi)\<rparr>
       # relocate_files (off + sum_list (map cipher_len (chunks fi))) fis"

definition blob_of :: "bytes \<Rightarrow> ChunkEntry \<Rightarrow> bytes" where
  "blob_of b c = slice (offset c) (cipher_len c) b"

definition in_file :: "bytes \<Rightarrow> ChunkEntry \<Rightarrow> bool" where
  "in_file b c \<longleftrightarrow> offset c + cipher_len c \<le> length b"

lemma length_blob_of [simp]: "in_file b c \<Longrightarrow> length (blob_of b c) = cipher_len c"
  by (simp add: blob_of_def in_file_def length_slice)

section \<open>The copy loops compute the relocation\<close>

lemma vacuum_chunks_ok:
  assumes "\<forall>c \<in> set cs. in_file (fbytes pv) c" "length (fbytes tmp) = off"
  shows "\<exists>pv' tmp'. vacuum_chunks cs (pv, tmp, off) =
           (relocate off cs, Inr (pv', tmp', off + sum_list (map cipher_len cs))) \<and>
         fbytes pv' = fbytes pv \<and> fbytes tmp' = fbytes tmp @ concat (map (blob_of (fbytes pv)) cs)"
  using assms
proof (induction cs arbitrary: pv tmp off)
  case Nil
  then show ?case by simp
next
  case (Cons c cs)
  let ?pv = "(seek_start (offset c) pv)\<lparr>fpos := offset c + cipher_len c\<rparr>"
  let ?tmp = "write_all (blob_of (fbytes pv) c) (seek_start off tmp)"
  have rd: "read_exact (cipher_len c) (seek_start (offset c) pv) = Inr (blob_of (fbytes pv) c, ?pv)"
    using Cons.prems(1) by (simp add: read_exact_def blob_of_def in_file_def)
  have t: "fbytes ?tmp = fbytes tmp @ blob_of (fbytes pv) c"
    using Cons.prems(2) by (simp add: fbytes_write_all splice_def)
  then have "length (fbytes ?tmp) = off + cipher_len c" using Cons.prems by simp
  moreover have "\<forall>c \<in> set cs. in_file (fbytes ?pv) c" using Cons.prems(1) by simp
  ultimately obtain pv' tmp' where
    "vacuum_chunks cs (?pv, ?tmp, off + cipher_len c) =
       (relocate (off + cipher_len c) cs, Inr (pv', tmp', off + cipher_len c + sum_list (map cipher_len cs)))"
    "fbytes pv' = fbytes ?pv" "fbytes tmp' = fbytes ?tmp @ concat (map (blob_of (fbytes ?pv)) cs)"
    using Cons.IH by blast
  with rd t show ?case by (simp add: add.assoc)
qed

lemma vacuum_files_ok:
  assumes "\<forall>c \<in> set (concat (map chunks fis)). in_file (fbytes pv) c" "length (fbytes tmp) = off"
  shows "\<exists>pv' tmp'. vacuum_files fis (pv, tmp, off) =
           (relocate_files off fis, Inr (pv', tmp', off + sum_list (map cipher_len (concat (map chunks fis))))) \<and>
         fbytes pv' = fbytes pv \<and>
         fbytes tmp' = fbytes tmp @ concat (map (blob_of (fbytes pv)) (concat (map chunks fis)))"
  using assms
proof (induction fis arbitrary: pv tmp off)
  case Nil
  then show ?case by simp
next
  case (Cons fi fis)
  let ?n = "sum_list (map cipher_len (chunks fi))"
  have "\<forall>c \<in> set (chunks fi). in_file (fbytes pv) c" using Cons.prems(1) by simp
  from vacuum_chunks_ok [OF this Cons.prems(2)] obtain pv1 tmp1 where c:
    "vacuum_chunks (chunks fi) (pv, tmp, off) = (relocate off (chunks fi), Inr (pv1, tmp1, off + ?n))"
    "fbytes pv1 = fbytes pv" "fbytes tmp1 = fbytes tmp @ concat (map (blob_of (fbytes pv)) (chunks fi))"
    by blast
  have "length (concat (map (blob_of (fbytes pv)) cs)) = sum_list (map cipher_len cs)"
    if "\<forall>c \<in> set cs. in_file (fbytes pv) c" for cs using that by (induction cs) auto
  then have l: "length (fbytes tmp1) = off + ?n" using c(3) Cons.prems by simp
  have "\<forall>c \<in> set (concat (map chunks fis)). in_file (fbytes pv1) c" using Cons.prems(1) c(2) by simp
  from Cons.IH [OF this l] obtain pv' tmp' where
    "vacuum_files fis (pv1, tmp1, off + ?n) =
       (relocate_files (off + ?n) fis, Inr (pv', tmp', off + ?n + sum_list (map cipher_len (concat (map chunks fis)))))"
    "fbytes pv' = fbytes pv1"
    "fbytes tmp' = fbytes tmp1 @ concat (map (blob_of (fbytes pv1)) (concat (map chunks fis)))"
    by blast
  with c show ?case by (simp add: add.assoc)
qed

section \<open>The relocation keeps layout and contents\<close>

lemma relocate_append:
  "relocate off (cs @ ds) = relocate off cs @ relocate (off + sum_list (map cipher_len cs)) ds"
  by (induction cs arbitrary: off) (simp_all add: add.assoc)

lemma relocate_files_chunks:
  "concat (map chunks (relocate_files off fis)) = relocate off (concat (map chunks fis))"
  by (induction fis arbitrary: off) (simp_all add: relocate_append)

lemma relocate_files_names: "map vfs_name (relocate_files off fis) = map vfs_name fis"
  by (induction fis arbitrary: off) simp_all

lemma relocate_within:
  "c \<in> set (relocate off cs) \<Longrightarrow> within off (off + sum_list (map cipher_len cs)) c"
proof (induction cs arbitrary: off)
  case (Cons d cs)
  show ?case
  proof (cases "c = d\<lparr>offset := off\<rparr>")
    case True
    then show ?thesis by (simp add: within_def)
  next
    case False
    with Cons.prems have "c \<in> set (relocate (off + cipher_len d) cs)" by simp
    from Cons.IH [OF this] show ?thesis by (simp add: within_def)
  qed
qed simp

lemma relocate_disjoint: "disjoint_chunks (relocate off cs)"
proof (induction cs arbitrary: off)
  case (Cons c cs)
  have "apart (c\<lparr>offset := off\<rparr>) d" if "d \<in> set (relocate (off + cipher_len c) cs)" for d
    using relocate_within [OF that] by (simp add: apart_def within_def)
  with Cons show ?case by simp
qed simp

lemma relocate_plain:
  assumes "\<forall>c \<in> set cs. in_file b c"
  shows "list_all2 (\<lambda>c c'. chunk_plain L uv b c = chunk_plain L uv (h @ concat (map (blob_of b) cs) @ r) c')
           cs (relocate (length h) cs)"
  using assms
proof (induction cs arbitrary: h)
  case (Cons c cs)
  let ?b = "h @ concat (map (blob_of b) (c # cs)) @ r"
  have "chunk_plain L uv b c = chunk_plain L uv ?b (c\<lparr>offset := length h\<rparr>)"
    using Cons.prems
    by (intro chunk_plain_cong) (simp_all add: blob_of_def [symmetric] in_file_def slice_append2 slice_append1 slice_def [of 0])
  moreover have "relocate (length h + cipher_len c) cs = relocate (length (h @ blob_of b c)) cs"
    using Cons.prems by simp
  ultimately show ?case
    using Cons.IH [of "h @ blob_of b c"] Cons.prems by simp
qed simp

lemma relocate_files_find:
  assumes "\<forall>c \<in> set (concat (map chunks fis)). in_file b c"
  shows "map_option (\<lambda>e. plains L uv (h @ concat (map (blob_of b) (concat (map chunks fis))) @ r) (chunks e))
           (find (\<lambda>f. vfs_name f = n) (relocate_files (length h) fis)) =
         map_option (\<lambda>e. plains L uv b (chunks e)) (find (\<lambda>f. vfs_name f = n) fis)"
  using assms
proof (induction fis arbitrary: h)
  case (Cons fi fis)
  let ?h = "h @ concat (map (blob_of b) (chunks fi))"
  have ok: "\<forall>c \<in> set (chunks fi). in_file b c" using Cons.prems by simp
  have "length (concat (map (blob_of b) cs)) = sum_list (map cipher_len cs)"
    if "\<forall>c \<in> set cs. in_file b c" for cs using that by (induction cs) auto
  then have "length ?h = length h + sum_list (map cipher_len (chunks fi))" using ok by simp
  with Cons.IH [of ?h] Cons.prems
  have "map_option (\<lambda>e. plains L uv (h @ concat (map (blob_of b) (concat (map chunks (fi # fis)))) @ r) (chunks e))
          (find (\<lambda>f. vfs_name f = n) (relocate_files (length h + sum_list (map cipher_len (chunks fi))) fis)) =
        map_option (\<lambda>e. plains L uv b (chunks e)) (find (\<lambda>f. vfs_name f = n) fis)" by simp
  moreover have "plains L uv (h @ concat (map (blob_of b) (concat (map chunks (fi # fis)))) @ r)
      (relocate (length h) (chunks fi)) = plains L uv b (chunks fi)"
    using plains_cong [OF relocate_plain [OF ok, of L uv h "concat (map (blob_of b) (concat (map chunks fis))) @ r"]]
    by simp
  ultimately show ?case by simp
qed simp

section \<open>The command\<close>

lemma vacuum_header:
  assumes "125 \<le> length (fbytes f)"
  shows "\<exists>pv. read_exact (VAULT_HEADER_SIZE - 8) (seek_start 8 f) = Inr (slice 8 117 (fbytes f), pv) \<and>
           fbytes pv = fbytes f"
    and "fbytes (write_all (slice 8 117 (fbytes f)) (write_all (replicate 8 0) new_file)) =
           replicate 8 0 @ slice 8 117 (fbytes f)"
  using assms
  by (simp_all add: read_exact_def fbytes_write_all new_file_def write_all_def splice_def length_slice)

lemma vault_inv_in_file:
  assumes "vault_inv s"
  shows "125 \<le> length (fbytes (phys s))"
    and "\<forall>c \<in> set (concat (map chunks (file_table (meta s)))). in_file (fbytes (phys s)) c"
proof -
  from assms have off: "125 \<le> payload_offset s" "payload_offset s \<le> length (fbytes (phys s))"
    and w: "\<forall>c \<in> set (all_chunks (meta s)). within 125 (payload_offset s) c"
    by (simp_all add: vault_inv_def)
  from off show "125 \<le> length (fbytes (phys s))" by simp
  from off(2) w show "\<forall>c \<in> set (concat (map chunks (file_table (meta s)))). in_file (fbytes (phys s)) c"
    unfolding all_chunks_def within_def in_file_def by (meson le_trans)
qed

lemma vacuum_cases:
  assumes inv: "vault_inv s" and ok: "handle_vacuum L uv tmp_exists rename_ok s = (s', Inr (f, off))"
  obtains tmp where
    "meta s' = (meta s)\<lparr>file_table := relocate_files 125 (file_table (meta s))\<rparr>"
    "off = 125 + sum_list (map cipher_len (all_chunks (meta s)))"
    "fbytes tmp = replicate 8 0 @ slice 8 117 (fbytes (phys s)) @
       concat (map (blob_of (fbytes (phys s))) (all_chunks (meta s)))"
    "length (fbytes tmp) = off"
    "save_vault_metadata L (meta s') uv off tmp (rand s) = Inr (f, rand s')"
proof -
  have len: "125 \<le> length (fbytes (phys s))"
    and inb: "\<forall>c \<in> set (concat (map chunks (file_table (meta s)))). in_file (fbytes (phys s)) c"
    using vault_inv_in_file [OF inv] .
  note h = vacuum_header [OF len]
  let ?t = "write_all (slice 8 117 (fbytes (phys s))) (write_all (replicate 8 0) new_file)"
  from h(1) obtain pv where pv: "read_exact (VAULT_HEADER_SIZE - 8) (seek_start 8 (phys s)) =
      Inr (slice 8 117 (fbytes (phys s)), pv)" "fbytes pv = fbytes (phys s)" by blast
  have tl: "length (fbytes ?t) = 125" using len by (simp add: h(2) length_slice)
  from inb pv(2) have "\<forall>c \<in> set (concat (map chunks (file_table (meta s)))). in_file (fbytes pv) c" by simp
  from vacuum_files_ok [OF this tl] pv(2) obtain pv' tmp where v:
    "vacuum_files (file_table (meta s)) (pv, ?t, 125) = (relocate_files 125 (file_table (meta s)),
       Inr (pv', tmp, 125 + sum_list (map cipher_len (all_chunks (meta s)))))"
    "fbytes tmp = replicate 8 0 @ slice 8 117 (fbytes (phys s)) @
       concat (map (blob_of (fbytes (phys s))) (all_chunks (meta s)))"
    by (auto simp: all_chunks_def h(2))
  have "length (concat (map (blob_of (fbytes (phys s))) cs)) = sum_list (map cipher_len cs)"
    if "\<forall>c \<in> set cs. in_file (fbytes (phys s)) c" for cs using that by (induction cs) auto
  then have "length (fbytes tmp) = 125 + sum_list (map cipher_len (all_chunks (meta s)))"
    using v(2) inb len by (simp add: all_chunks_def length_slice)
  with v ok pv show thesis
    by (intro that [of tmp]) (auto simp: handle_vacuum_def Let_def split: if_splits sum.splits prod.splits)
qed

lemma vacuum_inv:
  assumes inv: "vault_inv s" and ok: "shell_vacuum L uv tmp_exists rename_ok reopen_ok s = (s', Inr ())"
  shows "vault_inv s'"
    and "vault_view L uv s' = vault_view L uv s"
    and "payload_offset s' = VAULT_HEADER_SIZE + sum_list (map cipher_len (all_chunks (meta s)))"
    and "header_unlocks L (fbytes (phys s)) pw uv \<Longrightarrow> aead_ok (crypto L) \<Longrightarrow> bincode_ok L \<Longrightarrow>
         payload_offset s' < 2 ^ 64 \<Longrightarrow>
         length (fbytes (phys s')) \<le> payload_offset s' + METADATA_LIMIT \<Longrightarrow> synced L pw uv s'"
proof -
  from ok obtain s0 f off where hv: "handle_vacuum L uv tmp_exists rename_ok s = (s0, Inr (f, off))"
    and s': "s' = s0\<lparr>phys := f\<lparr>fpos := 0\<rparr>, payload_offset := off\<rparr>"
    by (auto simp: shell_vacuum_def split: prod.splits sum.splits if_splits)
  from inv hv obtain tmp where v:
    "meta s0 = (meta s)\<lparr>file_table := relocate_files 125 (file_table (meta s))\<rparr>"
    "off = 125 + sum_list (map cipher_len (all_chunks (meta s)))"
    "fbytes tmp = replicate 8 0 @ slice 8 117 (fbytes (phys s)) @
       concat (map (blob_of (fbytes (phys s))) (all_chunks (meta s)))"
    "length (fbytes tmp) = off"
    "save_vault_metadata L (meta s0) uv off tmp (rand s) = Inr (f, rand s0)"
    by (rule vacuum_cases)
  have len: "125 \<le> length (fbytes (phys s))"
    and inb: "\<forall>c \<in> set (concat (map chunks (file_table (meta s)))). in_file (fbytes (phys s)) c"
    using vault_inv_in_file [OF inv] .
  have dn: "distinct (map vfs_name (file_table (meta s)))" using inv by (simp add: vault_inv_def)
  have ac: "all_chunks (meta s0) = relocate 125 (all_chunks (meta s))"
    by (simp add: v(1) all_chunks_def relocate_files_chunks)
  from v(5) v(2,4) obtain blob where fb: "fbytes f = u64_to_le (word_of_nat off) @ drop 8 (fbytes tmp) @ blob"
    by (auto elim!: save_bytes)
  then have fb': "fbytes f = (u64_to_le (word_of_nat off) @ slice 8 117 (fbytes (phys s))) @
       concat (map (blob_of (fbytes (phys s))) (concat (map chunks (file_table (meta s))))) @ blob"
    by (simp add: v(3) all_chunks_def)
  show "payload_offset s' = VAULT_HEADER_SIZE + sum_list (map cipher_len (all_chunks (meta s)))"
    using v(2) by (simp add: s')
  have "off \<le> length (fbytes f)" using save_length [OF v(5)] v(2,4) by simp
  then show "vault_inv s'"
    using v(1,2) dn ac relocate_within [of _ 125 "all_chunks (meta s)"] relocate_disjoint
    by (auto simp: vault_inv_def s' relocate_files_names)
  show "vault_view L uv s' = vault_view L uv s"
  proof
    fix n
    have "length (u64_to_le (word_of_nat off) @ slice 8 117 (fbytes (phys s))) = 125"
      using len by (simp add: length_slice)
    then show "vault_view L uv s' n = vault_view L uv s n"
      using relocate_files_find [OF inb, of L uv "u64_to_le (word_of_nat off) @ slice 8 117 (fbytes (phys s))" blob n]
      by (simp add: vault_view_def s' find_file_def v(1) fb')
  qed
  assume h: "header_unlocks L (fbytes (phys s)) pw uv" "aead_ok (crypto L)" "bincode_ok L"
    "payload_offset s' < 2 ^ 64" "length (fbytes (phys s')) \<le> payload_offset s' + METADATA_LIMIT"
  have "slice 8 117 (fbytes tmp) = slice 8 117 (fbytes (phys s))"
    using len by (simp add: v(3) slice_append2 slice_append1 length_slice) (simp add: slice_def)
  then have "header_unlocks L (fbytes tmp) pw uv" using header_unlocks_chunk h(1) by blast
  with h v(2,4,5) have "\<exists>f''. load_vault_metadata L pw f = Inr ((meta s0, uv, off), f'') \<and> fbytes f'' = fbytes f"
    by (intro load_after_save [OF h(2,3) _ _ _ _ v(5)]) (simp_all add: s')
  moreover have "load_vault_metadata L pw (f\<lparr>fpos := 0\<rparr>) = load_vault_metadata L pw f"
    by (simp add: load_vault_metadata_def seek_start_def)
  ultimately show "synced L pw uv s'" by (auto simp: synced_def s')
qed

end
