(* ===== verification/Paths.thy ===== *)
theory Paths
  imports Prelude
begin

text \<open>
  The parts of a path as \<open>std::path::Path\<close> sees them: its components, the last of which is the file
  name, and the stem of the file name.
\<close>

fun split_on :: "char \<Rightarrow> string \<Rightarrow> string list" where
  "split_on d [] = [[]]"
| "split_on d (c # cs) =
     (if c = d then [] # split_on d cs
      else case split_on d cs of (p # ps) \<Rightarrow> (c # p) # ps | [] \<Rightarrow> [[c]])"

text \<open>\<open>Path::file_name\<close>: the last component, if it is a plain name.\<close>

definition file_name :: "string \<Rightarrow> string option" where
  "file_name p =
     (let comps = filter (\<lambda>c. c \<noteq> [] \<and> c \<noteq> ''.'') (split_on (CHR ''/'') p)
      in if comps = [] \<or> last comps = ''..'' then None else Some (last comps))"

lemma split_on_free: "x \<in> set (split_on d s) \<Longrightarrow> d \<notin> set x"
  by (induction d s arbitrary: x rule: split_on.induct) (auto split: if_splits list.splits)

lemma file_name_plain: "file_name p = Some n \<Longrightarrow> CHR ''/'' \<notin> set n \<and> n \<noteq> [] \<and> n \<noteq> ''.'' \<and> n \<noteq> ''..''"
proof -
  assume a: "file_name p = Some n"
  let ?c = "filter (\<lambda>c. c \<noteq> [] \<and> c \<noteq> ''.'') (split_on (CHR ''/'') p)"
  from a have "?c \<noteq> []" "n = last ?c" "n \<noteq> ''..''" by (auto simp: file_name_def Let_def split: if_splits)
  then have "n \<in> set ?c" using last_in_set [of ?c] by blast
  then have "n \<in> set (split_on (CHR ''/'') p)" "n \<noteq> []" "n \<noteq> ''.''" by auto
  with split_on_free [of n "CHR ''/''" p] \<open>n \<noteq> ''..''\<close> show ?thesis by blast
qed

text \<open>
  \<open>Path::file_stem\<close>: the name without its last extension; a name whose only dot leads has none.
\<close>

definition file_stem :: "string \<Rightarrow> string option" where
  "file_stem p =
     (case file_name p of
        None \<Rightarrow> None
      | Some n \<Rightarrow>
          let r = dropWhile (\<lambda>c. c \<noteq> CHR ''.'') (rev n)
          in Some (if r = [] \<or> tl r = [] then n else rev (tl r)))"

lemma file_stem_Some: "file_stem p = Some s \<Longrightarrow> s \<noteq> []"
  using file_name_plain [of p] by (auto simp: file_stem_def Let_def split: option.splits if_splits)

end
