(* ===== verification/Staging.thy ===== *)
theory Staging
  imports VaultVacuum Paths
begin

text \<open>
  The commands that cross the boundary of the vault: \<open>handle_import\<close> and \<open>handle_export\<close> with
  the staging directory of the host (\<open>atom/src/commands/import.rs\<close>, \<open>export.rs\<close>), and what the
  terminal shows (\<open>cat.rs\<close>, \<open>ls.rs\<close>) or the viewer is given (\<open>view.rs\<close>). The host is the
  environment, path resolution, and a map from resolved paths to file contents.
\<close>

type_synonym path = "string list"

record host =
  xdg_runtime_dir :: "string option"
  home :: "string option"
  canonicalize :: "string \<Rightarrow> path option"
  resolve_target :: "string \<Rightarrow> path"
  disk :: "path \<rightharpoonup> bytes"
  creatable :: "path \<Rightarrow> bool"
  removable :: "path \<Rightarrow> bool"

definition staging_dir :: "host \<Rightarrow> string option" where
  "staging_dir h =
     (case xdg_runtime_dir h of
        Some x \<Rightarrow> Some (x @ ''/atom_staging'')
      | None \<Rightarrow> map_option (\<lambda>x. x @ ''/.atom_vault/staging'') (home h))"

text \<open>\<open>Path::starts_with\<close> compares whole components.\<close>

definition path_starts_with :: "path \<Rightarrow> path \<Rightarrow> bool" where
  "path_starts_with p base \<longleftrightarrow> take (length base) p = base"

section \<open>Shredding\<close>

text \<open>The page-wise overwrite of \<open>handle_import\<close> and \<open>zero_fill\<close>.\<close>

function zero_pages :: "nat \<Rightarrow> nat \<Rightarrow> File \<Rightarrow> File" where
  "zero_pages sz written f =
     (if written < sz
      then let to_write = min 4096 (sz - written)
           in zero_pages sz (written + to_write) (write_all (replicate to_write 0) f)
      else f)"
  by pat_completeness auto
termination by (relation "measure (\<lambda>(sz, written, f). sz - written)") auto

declare zero_pages.simps [simp del]

definition zero_fill :: "File \<Rightarrow> File" where
  "zero_fill f =
     (let sz = length (fbytes f) in if sz = 0 then f else zero_pages sz 0 (seek_start 0 f))"

lemma zero_pages_bytes:
  assumes "fpos f = written" "written \<le> sz" "sz = length (fbytes f)"
  shows "fbytes (zero_pages sz written f) = take written (fbytes f) @ replicate (sz - written) 0"
  using assms
proof (induction sz written f rule: zero_pages.induct)
  case (1 sz written f)
  show ?case
  proof (cases "written < sz")
    case False
    then have "zero_pages sz written f = f" by (simp add: zero_pages.simps [of sz written f])
    with False 1 show ?thesis by simp
  next
    case True
    let ?k = "min 4096 (sz - written)"
    let ?f = "write_all (replicate ?k 0) f"
    have b: "fbytes ?f = splice written (replicate ?k 0) (fbytes f)"
      using 1 by (simp add: fbytes_write_all)
    have l: "length (fbytes ?f) = sz" unfolding b using "1.prems" by (simp add: length_splice)
    have "fbytes (zero_pages sz (written + ?k) ?f) =
        take (written + ?k) (fbytes ?f) @ replicate (sz - (written + ?k)) 0"
      using 1 True l by (intro "1.IH") simp_all
    also have "take (written + ?k) (fbytes ?f) = take written (fbytes f) @ replicate ?k 0"
      unfolding b using "1.prems" by (simp add: splice_def)
    finally show ?thesis
      using True by (simp add: zero_pages.simps [of sz written f] Let_def replicate_add [symmetric])
  qed
qed

lemma fbytes_zero_fill: "fbytes (zero_fill f) = replicate (length (fbytes f)) 0"
proof (cases "fbytes f = []")
  case True
  then show ?thesis by (simp add: zero_fill_def)
next
  case False
  have "fbytes (zero_pages (length (fbytes f)) 0 (seek_start 0 f)) = replicate (length (fbytes f)) 0"
    by (subst zero_pages_bytes) simp_all
  with False show ?thesis by (simp add: zero_fill_def)
qed

section \<open>Importing a staged file\<close>

definition fetch_file :: "bytes \<Rightarrow> nat \<Rightarrow> nat \<Rightarrow> vault_error + bytes" where
  "fetch_file data start n =
     map_err Io (bindE (read_exact n (seek_start start \<lparr>fbytes = data, fpos = 0\<rparr>)) (\<lambda>(bs, f). Inr bs))"

text \<open>
  The overwrite before the removal. The loop of the code stops at the first page that cannot be written; here every
  page is written, and only the removal may fail.
\<close>

definition shred_staged :: "path \<Rightarrow> bytes \<Rightarrow> host \<Rightarrow> host" where
  "shred_staged p data h =
     (let zeroed = fbytes (zero_pages (length data) 0 (seek_start 0 \<lparr>fbytes = data, fpos = 0\<rparr>))
      in h\<lparr>disk := (if removable h p then (disk h)(p := None) else (disk h)(p \<mapsto> zeroed))\<rparr>)"

text \<open>The checks of \<open>handle_import\<close> up to the chunk boundaries, in their order.\<close>

definition import_source ::
    "vault_lib \<Rightarrow> string \<Rightarrow> string \<Rightarrow> host \<Rightarrow> session \<Rightarrow>
     vault_error + path \<times> bytes \<times> (nat \<times> nat) list" where
  "import_source L from_disk name h s =
     bindE (ok_or (Staging ''Neither XDG_RUNTIME_DIR nor HOME'') (staging_dir h)) (\<lambda>dir.
     bindE (ok_or (Staging ''Could not resolve staging directory path'') (canonicalize h dir)) (\<lambda>allowed.
     bindE (ok_or (Staging ''does not exist or cannot be resolved'') (canonicalize h from_disk)) (\<lambda>target.
     bindE (guardE (path_starts_with target allowed) (Staging ''Security Violation'')) (\<lambda>_.
     bindE (guardE (\<not> name_taken name s) (NameExists name)) (\<lambda>_.
     bindE (ok_or (Io NotFound) (disk h target)) (\<lambda>data.
     bindE (ok_or ChunkerFailed (chunk_data L data)) (\<lambda>boundaries.
       Inr (target, data, boundaries))))))))"

definition handle_import ::
    "vault_lib \<Rightarrow> UnlockedVault \<Rightarrow> string \<Rightarrow> string \<Rightarrow> u64 \<Rightarrow> host \<Rightarrow> session \<Rightarrow>
     session \<times> host \<times> (vault_error + unit)" where
  "handle_import L uv from_disk name now h s =
     (case import_source L from_disk name h s of
        Inl e \<Rightarrow> (s, h, Inl e)
      | Inr (target, data, boundaries) \<Rightarrow>
          (case import_store L uv name (fetch_file data) boundaries now s of
             (s', Inl e) \<Rightarrow> (s', h, Inl e)
           | (s', Inr _) \<Rightarrow> (s', shred_staged target data h, Inr ())))"

lemma import_source_Inr [result_simps]:
  "import_source L from_disk name h s = Inr (target, data, bs) \<longleftrightarrow>
     (\<exists>dir allowed. staging_dir h = Some dir \<and> canonicalize h dir = Some allowed \<and>
        canonicalize h from_disk = Some target \<and> path_starts_with target allowed \<and>
        \<not> name_taken name s \<and> disk h target = Some data \<and> chunk_data L data = Some bs)"
  by (auto simp: import_source_def result_simps)

lemma handle_import_cases:
  obtains (refused) e where "import_source L from_disk name h s = Inl e"
      "handle_import L uv from_disk name now h s = (s, h, Inl e)"
  | (failed) target data bs s' e where "import_source L from_disk name h s = Inr (target, data, bs)"
      "import_store L uv name (fetch_file data) bs now s = (s', Inl e)"
      "handle_import L uv from_disk name now h s = (s', h, Inl e)"
  | (imported) target data bs s' where "import_source L from_disk name h s = Inr (target, data, bs)"
      "import_store L uv name (fetch_file data) bs now s = (s', Inr ())"
      "handle_import L uv from_disk name now h s = (s', shred_staged target data h, Inr ())"
proof (cases "import_source L from_disk name h s")
  case (Inl e)
  then show thesis by (intro refused [of e]) (simp_all add: handle_import_def)
next
  case (Inr r)
  obtain target data bs where r: "r = (target, data, bs)" by (cases r) auto
  obtain s' q where q: "import_store L uv name (fetch_file data) bs now s = (s', q)" by fastforce
  show thesis
  proof (cases q)
    case (Inl e)
    with Inr r q show thesis by (intro failed) (simp_all add: handle_import_def)
  next
    case (Inr u)
    with \<open>import_source L from_disk name h s = Inr r\<close> r q show thesis
      by (intro imported) (simp_all add: handle_import_def)
  qed
qed

lemma fetch_file_eq: "start + n \<le> length d \<Longrightarrow> fetch_file d start n = fetch_bytes d start n"
  by (simp add: fetch_file_def fetch_bytes_def read_exact_def)

lemma import_loop_cong:
  assumes "\<forall>(st, n) \<in> set bs. fetch st n = fetch' st n"
  shows "import_loop L uv fetch bs s acc = import_loop L uv fetch' bs s acc"
  using assms
proof (induction bs arbitrary: s acc)
  case (Cons b bs)
  obtain st n where b: "b = (st, n)" by fastforce
  with Cons.prems have "import_chunk L uv fetch st n s = import_chunk L uv fetch' st n s"
    by (simp add: import_chunk_def)
  with Cons b show ?case by (simp split: prod.split sum.split)
qed simp

lemma import_store_cong:
  assumes "\<forall>(st, n) \<in> set bs. fetch st n = fetch' st n"
  shows "import_store L uv name fetch bs now s = import_store L uv name fetch' bs now s"
  using import_loop_cong [OF assms] by (simp add: import_store_def)

text \<open>
  A staged import is the import of the bytes the staged file holds, and shreds it on success.
  Nothing outside the staging directory is ever read or changed.
\<close>

lemma handle_import_ok:
  assumes "fastcdc_ok L" "handle_import L uv from_disk name now h s = (s', h', Inr ())"
  obtains dir allowed target data where
    "staging_dir h = Some dir" "canonicalize h dir = Some allowed"
    "canonicalize h from_disk = Some target" "path_starts_with target allowed"
    "disk h target = Some data" "h' = shred_staged target data h"
    "handle_import_from_bytes L uv data name now s = (s', Inr ())"
proof -
  from assms(2) obtain target data bs where src: "import_source L from_disk name h s = Inr (target, data, bs)"
    and st: "import_store L uv name (fetch_file data) bs now s = (s', Inr ())" "h' = shred_staged target data h"
    by (cases rule: handle_import_cases [of L from_disk name h s uv now]) auto
  from src obtain dir allowed where r: "staging_dir h = Some dir" "canonicalize h dir = Some allowed"
    "canonicalize h from_disk = Some target" "path_starts_with target allowed" "\<not> name_taken name s"
    "disk h target = Some data" "chunk_data L data = Some bs"
    unfolding import_source_Inr by blast
  from assms(1) r(7) have "\<forall>(st, n) \<in> set bs. st + n \<le> length data"
    unfolding fastcdc_ok_def chunk_data_def by blast
  then have "import_store L uv name (fetch_file data) bs now s = import_store L uv name (fetch_bytes data) bs now s"
    by (intro import_store_cong) (auto simp: fetch_file_eq)
  with r st have "handle_import_from_bytes L uv data name now s = (s', Inr ())"
    by (simp add: handle_import_from_bytes_def)
  with r(1-4,6) st(2) show thesis by (rule that)
qed

lemma handle_import_host:
  assumes "handle_import L uv from_disk name now h s = (s', h', r)" "staging_dir h = Some dir"
    "canonicalize h dir = Some allowed" "\<not> path_starts_with p allowed"
  shows "disk h' p = disk h p"
proof (cases rule: handle_import_cases [of L from_disk name h s uv now])
  case (imported target data bs s'')
  then have "path_starts_with target allowed" using assms(2,3) by (auto simp: result_simps)
  with assms(4) have "p \<noteq> target" by auto
  with imported assms(1) show ?thesis by (auto simp: shred_staged_def Let_def)
qed (use assms(1) in auto)

section \<open>Exporting\<close>

text \<open>The decrypt-and-write loop; the output keeps what was written before an error.\<close>

fun export_loop ::
    "vault_lib \<Rightarrow> UnlockedVault \<Rightarrow> ChunkEntry list \<Rightarrow> File \<Rightarrow> File \<Rightarrow> File \<times> (vault_error + File)" where
  "export_loop L uv [] pv out = (out, Inr pv)"
| "export_loop L uv (c # cs) pv out =
     (case process_secure_chunk L uv c pv of
        Inl e \<Rightarrow> (out, Inl e)
      | Inr (content, pv') \<Rightarrow> export_loop L uv cs pv' (write_all content out))"

definition handle_export ::
    "vault_lib \<Rightarrow> UnlockedVault \<Rightarrow> string \<Rightarrow> string \<Rightarrow> bool \<Rightarrow> host \<Rightarrow> session \<Rightarrow>
     host \<times> (vault_error + File)" where
  "handle_export L uv name to_disk force_overwrite h s =
     (case staging_dir h of
        None \<Rightarrow> (h, Inl (Staging ''Neither XDG_RUNTIME_DIR nor HOME''))
      | Some dir \<Rightarrow>
     (case file_name to_disk of
        None \<Rightarrow> (h, Inl (Staging ''Invalid target file name''))
      | Some safe_filename \<Rightarrow>
     let target_path = resolve_target h (dir @ ''/'' @ safe_filename) in
     if disk h target_path \<noteq> None \<and> \<not> force_overwrite then (h, Inl (Staging ''ALREADY_EXISTS''))
     else (case find_file name (meta s) of
        None \<Rightarrow> (h, Inl (NameNotFound name))
      | Some target_file \<Rightarrow>
     if \<not> creatable h target_path then (h, Inl (Staging ''Failed to create secure output file''))
     else let (out, r) = export_loop L uv (chunks target_file) (phys s) new_file
          in (h\<lparr>disk := (disk h)(target_path \<mapsto> fbytes out)\<rparr>, r))))"

lemma export_loop_plains:
  assumes "fpos out = length (fbytes out)"
  shows "case plains L uv (fbytes pv) cs of
           Inl e \<Rightarrow> snd (export_loop L uv cs pv out) = Inl e
         | Inr p \<Rightarrow> \<exists>pv'. export_loop L uv cs pv out =
               (\<lparr>fbytes = fbytes out @ p, fpos = length (fbytes out @ p)\<rparr>, Inr pv') \<and> fbytes pv' = fbytes pv"
  using assms
proof (induction cs arbitrary: pv out)
  case Nil
  then show ?case by simp
next
  case (Cons c cs)
  show ?case
  proof (cases "chunk_plain L uv (fbytes pv) c")
    case (Inl e)
    then show ?thesis by (simp add: process_secure_chunk_plain)
  next
    case (Inr p)
    let ?out = "write_all p out"
    have o: "fbytes ?out = fbytes out @ p" using Cons.prems by (simp add: fbytes_write_all splice_def)
    then have "fpos ?out = length (fbytes ?out)" using Cons.prems by simp
    from Cons.IH [OF this, of "pv\<lparr>fpos := offset c + cipher_len c\<rparr>"] Inr o show ?thesis
      by (cases "plains L uv (fbytes pv) cs") (simp_all add: process_secure_chunk_plain)
  qed
qed

lemma handle_export_ok:
  assumes "handle_export L uv name to_disk force h s = (h', Inr pv)"
  obtains dir fn p where "staging_dir h = Some dir" "file_name to_disk = Some fn"
    "vault_view L uv s name = Some (Inr p)" "fbytes pv = fbytes (phys s)"
    "h' = h\<lparr>disk := (disk h)(resolve_target h (dir @ ''/'' @ fn) \<mapsto> p)\<rparr>"
    "force \<or> disk h (resolve_target h (dir @ ''/'' @ fn)) = None"
proof -
  from assms obtain dir fn e out where r: "staging_dir h = Some dir" "file_name to_disk = Some fn"
    "find_file name (meta s) = Some e" "export_loop L uv (chunks e) (phys s) new_file = (out, Inr pv)"
    "h' = h\<lparr>disk := (disk h)(resolve_target h (dir @ ''/'' @ fn) \<mapsto> fbytes out)\<rparr>"
    "force \<or> disk h (resolve_target h (dir @ ''/'' @ fn)) = None"
    by (auto simp: handle_export_def Let_def split: option.splits if_splits prod.splits)
  have "fpos new_file = length (fbytes new_file)" by (simp add: new_file_def)
  from export_loop_plains [OF this, where cs = "chunks e" and pv = "phys s" and L = L and uv = uv] r(4) obtain p where
    "plains L uv (fbytes (phys s)) (chunks e) = Inr p" "fbytes out = p" "fbytes pv = fbytes (phys s)"
    by (cases "plains L uv (fbytes (phys s)) (chunks e)") (auto simp: new_file_def)
  with r show thesis by (intro that [of dir fn p]) (simp_all add: vault_view_def)
qed

end
