(* ===== verification/Display.thy ===== *)
theory Display
  imports Staging
begin

text \<open>
  What leaves the vault for the terminal or a viewer: \<open>handle_cat\<close> (\<open>atom/src/commands/cat.rs\<close>),
  \<open>handle_ls\<close> (\<open>ls.rs\<close>), and the memory file and pinning policy of the viewer (\<open>view.rs\<close>).
\<close>

section \<open>Sanitised names\<close>

definition is_ascii_control :: "byte \<Rightarrow> bool" where
  "is_ascii_control b \<longleftrightarrow> b < 32 \<or> b = 127"

definition sanitize_name :: "string \<Rightarrow> string" where
  "sanitize_name s = map (\<lambda>c. if is_ascii_control (of_char c) then CHR ''?'' else c) s"

fun nat_digits :: "nat \<Rightarrow> string" where
  "nat_digits n = (if n < 10 then [char_of (48 + n)] else nat_digits (n div 10) @ [char_of (48 + n mod 10)])"

declare nat_digits.simps [simp del]

definition pad_right :: "nat \<Rightarrow> string \<Rightarrow> string" where
  "pad_right n s = s @ replicate (n - length s) (CHR '' '')"

definition handle_ls :: "VaultMetadata \<Rightarrow> string list" where
  "handle_ls md =
     ''--- Volatile VFS File Allocation Table ---'' #
     (if file_table md = [] then [''Vault is empty.'']
      else map (\<lambda>f. ''File: '' @ pad_right 20 (sanitize_name (vfs_name f)) @
                    '' Chunks: '' @ nat_digits (length (chunks f))) (file_table md))"

section \<open>Showing a file\<close>

text \<open>A memory file of a fixed, sealed size: a write beyond it is refused as a whole.\<close>

definition memfile_write :: "nat \<Rightarrow> bytes \<Rightarrow> bytes \<Rightarrow> bytes" where
  "memfile_write fixed_size content p = (if length content + length p \<le> fixed_size then content @ p else content)"

definition cat_capacity :: "ChunkEntry list \<Rightarrow> nat" where
  "cat_capacity cs = sum_list (map (\<lambda>c. if 0 < plain_len c then plain_len c else cipher_len c - 16) cs)"

fun cat_loop :: "vault_lib \<Rightarrow> UnlockedVault \<Rightarrow> nat \<Rightarrow> ChunkEntry list \<Rightarrow> File \<Rightarrow> bytes \<Rightarrow> vault_error + bytes \<times> File" where
  "cat_loop L uv cap [] f m = Inr (m, f)"
| "cat_loop L uv cap (c # cs) f m =
     bindE (process_secure_chunk L uv c f) (\<lambda>(p, f'). cat_loop L uv cap cs f' (memfile_write cap m p))"

definition hex_digit :: "nat \<Rightarrow> byte" where
  "hex_digit n = (if n < 10 then word_of_nat (48 + n) else word_of_nat (55 + n))"

definition hex_upper :: "byte \<Rightarrow> bytes" where
  "hex_upper b = [hex_digit (unat b div 16), hex_digit (unat b mod 16)]"

definition newline :: byte where "newline = 10"

fun hex_rows :: "nat \<Rightarrow> bytes \<Rightarrow> bytes" where
  "hex_rows k [] = (if k = 0 then [] else [newline])"
| "hex_rows k (b # bs) =
     hex_upper b @ [32] @ (if Suc k = 16 then newline # hex_rows 0 bs else hex_rows (Suc k) bs)"

definition printable_ws :: "byte \<Rightarrow> bool" where
  "printable_ws b \<longleftrightarrow> b = 10 \<or> b = 9 \<or> b = 13"

definition render_text :: "bytes \<Rightarrow> bytes" where
  "render_text buf =
     concat (map (\<lambda>b. if is_ascii_control b \<and> \<not> printable_ws b then [92, 120] @ hex_upper b else [b]) buf)"

definition is_probably_binary :: "bytes \<Rightarrow> bool" where
  "is_probably_binary buf \<longleftrightarrow> length buf div 100 < length (filter (\<lambda>b. b < 32 \<and> \<not> printable_ws b) buf)"

text \<open>The body \<open>handle_cat\<close> prints between its start and end lines.\<close>

definition render :: "bytes \<Rightarrow> bytes" where
  "render buf =
     (if is_probably_binary buf then
        str_bytes ''[Note: Binary or Null-padded data detected. Suppressing automated terminal flood.]'' @ [newline] @
        str_bytes (''First '' @ nat_digits (min (length buf) 64) @ '' bytes (HEX Preview): '') @
        concat (map (\<lambda>b. hex_upper b @ [32]) (take (min (length buf) 64) buf)) @ [newline]
      else if utf8_valid buf then render_text buf
      else str_bytes ''[Note: Non-UTF8 Binary file detected. Displaying sanitized HEX layout]'' @ [newline] @
        hex_rows 0 buf)"

text \<open>The lines around it name the file as it is.\<close>

definition cat_output :: "string \<Rightarrow> bytes \<Rightarrow> bytes" where
  "cat_output name buf =
     [newline] @ str_bytes (''--- Start of '' @ name @ '' ---'') @ [newline] @ render buf @
     [newline] @ str_bytes (''--- End of '' @ name @ '' ---'') @ [newline, newline]"

text \<open>\<open>mmap\<close> refuses a zero length, so a memory file needs a positive size; a name with a NUL has no C string.\<close>

definition handle_cat ::
    "vault_lib \<Rightarrow> UnlockedVault \<Rightarrow> string \<Rightarrow> session \<Rightarrow> vault_error + (bytes option \<times> File)" where
  "handle_cat L uv name s =
     (case find_file name (meta s) of
        None \<Rightarrow> Inr (None, phys s)
      | Some e \<Rightarrow>
          let cap = cat_capacity (chunks e) in
          bindE (guardE (CHR 0x00 \<notin> set name \<and> 0 < cap) (Io InvalidData)) (\<lambda>_.
          bindE (cat_loop L uv cap (chunks e) (phys s) []) (\<lambda>(buf, f). Inr (Some (cat_output name buf), f))))"

section \<open>Which bytes reach the terminal\<close>

text \<open>
  What \<open>is_ascii_control\<close> lets through, and the three white-space bytes. The control characters U+0080 to
  U+009F, two bytes each in UTF-8, are not ASCII and pass.
\<close>

definition ascii_safe :: "byte \<Rightarrow> bool" where
  "ascii_safe b \<longleftrightarrow> \<not> is_ascii_control b \<or> printable_ws b"

lemma hex_digit_safe: "n < 16 \<Longrightarrow> ascii_safe (hex_digit n)"
proof -
  assume n: "n < 16"
  have "unat (hex_digit n) = (if n < 10 then 48 + n else 55 + n)"
    using n unat_u8_of_nat [of "48 + n"] unat_u8_of_nat [of "55 + n"]
    by (simp add: hex_digit_def del: of_nat_add unat_u8_of_nat)
  then have "32 \<le> unat (hex_digit n)" "unat (hex_digit n) < 127" using n by auto
  then show ?thesis
    by (auto simp: ascii_safe_def is_ascii_control_def word_less_nat_alt)
qed

lemma hex_upper_safe: "b \<in> set (hex_upper c) \<Longrightarrow> ascii_safe b"
proof -
  have "unat c < 256" using unat_bound [of c] by simp
  then have "unat c div 16 < 16" "unat c mod 16 < 16" by auto
  then show "b \<in> set (hex_upper c) \<Longrightarrow> ascii_safe b"
    by (auto simp: hex_upper_def intro: hex_digit_safe)
qed

lemma nat_digits_safe: "b \<in> set (str_bytes (nat_digits n)) \<Longrightarrow> ascii_safe b"
proof (induction n rule: nat_digits.induct)
  case (1 n)
  have "ascii_safe (of_char (char_of (48 + m) :: char))" if "m < 10" for m :: nat
  proof -
    have "(of_char (char_of (48 + m) :: char) :: byte) = hex_digit m"
      using that by (simp add: of_char_byte hex_digit_def)
    with that show ?thesis using hex_digit_safe [of m] by simp
  qed
  with 1 show ?case
    by (cases "n < 10") (auto simp: nat_digits.simps [of n] str_bytes_def)
qed

lemma hex_rows_safe: "b \<in> set (hex_rows k buf) \<Longrightarrow> ascii_safe b"
  by (induction k buf rule: hex_rows.induct)
    (auto dest: hex_upper_safe simp: newline_def ascii_safe_def printable_ws_def is_ascii_control_def split: if_splits)

lemma safe_literals:
  "b \<in> set (str_bytes ''[Note: Binary or Null-padded data detected. Suppressing automated terminal flood.]'') \<Longrightarrow> ascii_safe b"
  "b \<in> set (str_bytes ''[Note: Non-UTF8 Binary file detected. Displaying sanitized HEX layout]'') \<Longrightarrow> ascii_safe b"
  "b \<in> set (str_bytes ''First '') \<Longrightarrow> ascii_safe b"
  "b \<in> set (str_bytes '' bytes (HEX Preview): '') \<Longrightarrow> ascii_safe b"
  by (auto simp: str_bytes_def ascii_safe_def is_ascii_control_def of_char_byte)

lemma render_safe: "b \<in> set (render buf) \<Longrightarrow> ascii_safe b"
proof -
  have nl: "ascii_safe newline" "ascii_safe 32" "ascii_safe 92" "ascii_safe 120"
    by (simp_all add: newline_def ascii_safe_def printable_ws_def is_ascii_control_def)
  have plaintxt: "ascii_safe b" if "b \<in> set (render_text buf)"
    using that nl by (auto simp: render_text_def ascii_safe_def dest: hex_upper_safe [unfolded ascii_safe_def] split: if_splits)
  have sb: "set (str_bytes (s @ t)) = set (str_bytes s) \<union> set (str_bytes t)" for s t
    by (auto simp: str_bytes_def)
  assume "b \<in> set (render buf)"
  then show ?thesis
    unfolding render_def
    by (auto simp only: set_append sb set_concat set_map Un_iff UN_iff image_iff set_simps insert_iff empty_iff
        split: if_splits dest: safe_literals nat_digits_safe hex_upper_safe hex_rows_safe plaintxt intro: nl)
qed

text \<open>The whole output is free of ASCII controls exactly if the name is.\<close>

lemma cat_output_safe: "(\<forall>b \<in> set (cat_output name buf). ascii_safe b) \<longleftrightarrow> (\<forall>b \<in> set (str_bytes name). ascii_safe b)"
proof -
  have "\<forall>b \<in> set (str_bytes ''--- Start of ''). ascii_safe b" "\<forall>b \<in> set (str_bytes ''--- End of ''). ascii_safe b"
    "\<forall>b \<in> set (str_bytes '' ---''). ascii_safe b"
    by (auto simp: str_bytes_def ascii_safe_def is_ascii_control_def of_char_byte)
  moreover have "ascii_safe newline" by (simp add: newline_def ascii_safe_def printable_ws_def is_ascii_control_def)
  moreover have "str_bytes (s @ t) = str_bytes s @ str_bytes t" for s t by (simp add: str_bytes_def)
  ultimately show ?thesis using render_safe [of _ buf] unfolding cat_output_def by (auto simp only: set_append ball_Un set_simps ball_simps)
qed

lemma sanitize_name_safe: "c \<in> set (sanitize_name s) \<Longrightarrow> \<not> is_ascii_control (of_char c)"
  by (auto simp: sanitize_name_def is_ascii_control_def of_char_byte)

section \<open>What is shown is what is stored\<close>

lemma chunk_plain_length:
  assumes "aead_ok (crypto L)" "chunk_plain L uv b c = Inr p"
  shows "length p \<le> (if 0 < plain_len c then plain_len c else cipher_len c - 16)"
proof -
  let ?blob = "slice (offset c) (cipher_len c) b"
  from assms(2) obtain q where q: "decrypt_chunk (crypto L) uv ?blob (file_id c) = Inr q"
    and p: "strip_padding (plain_len c) q = Inr p" and len: "offset c + cipher_len c \<le> length b"
    by (auto simp: chunk_plain_def process_secure_chunk_def result_simps)
  from q have "length q + 59 = length ?blob"
    by (rule decrypt_chunk_Inr) (auto dest: aead_okD(2) [OF assms(1), OF aead_okD(3) [OF assms(1)]] simp: CHUNK_MAGIC_V1_def)
  with p len show ?thesis by (auto simp: strip_padding_def length_slice split: if_splits)
qed

lemma plains_capacity:
  assumes "aead_ok (crypto L)" "plains L uv b cs = Inr p"
  shows "length p \<le> cat_capacity cs"
  using assms(2)
proof (induction cs arbitrary: p)
  case (Cons c cs)
  then obtain q r where "chunk_plain L uv b c = Inr q" "plains L uv b cs = Inr r" "p = q @ r"
    by (auto simp: result_simps)
  with chunk_plain_length [OF assms(1)] Cons.IH show ?case by (fastforce simp: cat_capacity_def)
qed (simp add: cat_capacity_def)

lemma cat_loop_plains:
  assumes "aead_ok (crypto L)" "length m + cat_capacity cs \<le> cap"
  shows "cat_loop L uv cap cs f m = decrypt_loop L uv cs f m"
  using assms(2)
proof (induction cs arbitrary: f m)
  case (Cons c cs)
  show ?case
  proof (cases "chunk_plain L uv (fbytes f) c")
    case (Inl e)
    then show ?thesis by (simp add: process_secure_chunk_plain)
  next
    case (Inr p)
    have "length m + length p + cat_capacity cs \<le> cap"
      using chunk_plain_length [OF assms(1) Inr] Cons.prems by (auto simp: cat_capacity_def split: if_splits)
    with Cons.IH Inr show ?thesis by (simp add: process_secure_chunk_plain memfile_write_def)
  qed
qed simp

lemma handle_cat_view:
  assumes "aead_ok (crypto L)" "handle_cat L uv name s = Inr (Some out, f)"
  shows "\<exists>p. vault_view L uv s name = Some (Inr p) \<and> out = cat_output name p"
proof -
  from assms(2) obtain e buf where e: "find_file name (meta s) = Some e"
    and "cat_loop L uv (cat_capacity (chunks e)) (chunks e) (phys s) [] = Inr (buf, f)" "out = cat_output name buf"
    by (auto simp: handle_cat_def Let_def result_simps split: option.splits)
  then have "decrypt_to_bytes L uv name s = Inr (buf, f)"
    using cat_loop_plains [OF assms(1), of "[]" "chunks e"] by (simp add: decrypt_to_bytes_def)
  then have "vault_view L uv s name = Some (Inr buf)"
    by (rule decrypt_to_bytes_Inr)
  with \<open>out = cat_output name buf\<close> show ?thesis by blast
qed

section \<open>The viewer\<close>

text \<open>The chunks are written to a memory file that is rewound for the viewer.\<close>

definition prepare_decrypted_memfd ::
    "vault_lib \<Rightarrow> UnlockedVault \<Rightarrow> FileIndex \<Rightarrow> File \<Rightarrow> vault_error + File \<times> File" where
  "prepare_decrypted_memfd L uv fi pv =
     (let (memfd, r) = export_loop L uv (chunks fi) pv new_file
      in bindE r (\<lambda>pv'. Inr (seek_start 0 memfd, pv')))"

definition complete_shred :: "File \<Rightarrow> File" where
  "complete_shred memfd = set_len 0 (zero_fill memfd)"

text \<open>
  The pinning policy of \<open>MlockedMap::new\<close>: an unpinned mapping is tolerated only for \<open>ENOMEM\<close>
  on a host whose swap, per \<open>/proc/swaps\<close>, cannot reach a disk.
\<close>

datatype mlock_result = MlockOk | MlockEnomem | MlockOther

definition split_whitespace :: "string \<Rightarrow> string list" where
  "split_whitespace s =
     filter (\<lambda>w. w \<noteq> []) (split_on (CHR '' '') (map (\<lambda>c. if is_whitespace c then CHR '' '' else c) s))"

definition is_ram_only_zram :: "(string \<Rightarrow> string option) \<Rightarrow> string \<Rightarrow> bool" where
  "is_ram_only_zram backing_dev dev =
     (let name = last (split_on (CHR ''/'') dev)
      in take 4 name = ''zram'' \<and>
         (case backing_dev name of Some t \<Rightarrow> trim t = ''none'' | None \<Rightarrow> False))"

fun swap_rows_reach_disk :: "(string \<Rightarrow> string option) \<Rightarrow> string list \<Rightarrow> bool" where
  "swap_rows_reach_disk backing_dev [] = False"
| "swap_rows_reach_disk backing_dev (line # ls) =
     (case split_whitespace line of
        [] \<Rightarrow> swap_rows_reach_disk backing_dev ls
      | dev # _ \<Rightarrow> if is_ram_only_zram backing_dev dev then swap_rows_reach_disk backing_dev ls else True)"

definition disk_persistence_possible :: "(string \<Rightarrow> string option) \<Rightarrow> string list option \<Rightarrow> bool" where
  "disk_persistence_possible backing_dev swaps =
     (case swaps of None \<Rightarrow> True | Some rows \<Rightarrow> swap_rows_reach_disk backing_dev (drop 1 rows))"

definition MlockedMap_new :: "bool \<Rightarrow> mlock_result \<Rightarrow> bool \<Rightarrow> nat \<Rightarrow> vault_error + nat" where
  "MlockedMap_new mmap_ok locked disk_reachable len =
     (if len = 0 then Inr 0
      else if \<not> mmap_ok then Inl (Io InvalidData)
      else case locked of
             MlockOk \<Rightarrow> Inr len
           | MlockEnomem \<Rightarrow> if \<not> disk_reachable then Inr 0 else Inl MlockFailed
           | MlockOther \<Rightarrow> Inl MlockFailed)"

lemma prepare_memfd_view:
  assumes "prepare_decrypted_memfd L uv fi pv = Inr (memfd, pv')"
  shows "plains L uv (fbytes pv) (chunks fi) = Inr (fbytes memfd) \<and> fpos memfd = 0 \<and> fbytes pv' = fbytes pv"
proof -
  have "fpos new_file = length (fbytes new_file)" by (simp add: new_file_def)
  from export_loop_plains [OF this, where cs = "chunks fi" and pv = pv and L = L and uv = uv] assms show ?thesis
    by (cases "plains L uv (fbytes pv) (chunks fi)")
      (auto simp: prepare_decrypted_memfd_def new_file_def result_simps split: prod.splits)
qed

lemma complete_shred_empty: "fbytes (complete_shred f) = []"
  by (simp add: complete_shred_def set_len_def)

lemma swap_rows_safe:
  assumes "\<not> swap_rows_reach_disk bd rows" "line \<in> set rows" "split_whitespace line = dev # r"
  shows "is_ram_only_zram bd dev"
  using assms by (induction rows) (auto split: list.splits if_splits)

end
