(* ===== verification/Shell.thy ===== *)
theory Shell
  imports Display
begin

text \<open>
  The interactive shell of \<open>atom/src/commands/shell.rs\<close> over the vault commands. The input is
  the list of lines the terminal supplies; \<open>export\<close> reads one or two further lines for its
  confirmations. What is printed is a list of events.
\<close>

record shell =
  sess :: session
  hst :: host

record shell_env =
  env_now :: u64
  env_tmp_exists :: bool
  env_rename_ok :: bool
  env_reopen_ok :: bool

datatype event =
    Say string
  | Listing "string list"
  | Shown string bytes
  | Failure vault_error

definition confirmed :: "string \<Rightarrow> bool" where
  "confirmed line \<longleftrightarrow> to_lowercase (trim line) = ''y''"

text \<open>\<open>read_line\<close> yields the empty string at the end of the input.\<close>

fun line_or_eof :: "nat \<Rightarrow> string list \<Rightarrow> string" where
  "line_or_eof n ls = (if n < length ls then ls ! n else [])"

declare line_or_eof.simps [simp del]

section \<open>The commands\<close>

definition shell_export ::
    "vault_lib \<Rightarrow> UnlockedVault \<Rightarrow> string \<Rightarrow> string \<Rightarrow> string list \<Rightarrow> shell \<Rightarrow> nat \<times> shell \<times> event list" where
  "shell_export L uv name to_disk rest st =
     (if \<not> confirmed (line_or_eof 0 rest) then (1, st, [Say ''Export operation cancelled by user.''])
      else case handle_export L uv name to_disk False (hst st) (sess st) of
        (h, Inr pv) \<Rightarrow> (1, st\<lparr>sess := (sess st)\<lparr>phys := pv\<rparr>, hst := h\<rparr>, [])
      | (h, Inl e) \<Rightarrow>
          if e = Staging ''ALREADY_EXISTS'' then
            (if confirmed (line_or_eof 1 rest) then
               (case handle_export L uv name to_disk True (hst st) (sess st) of
                  (h2, Inr pv) \<Rightarrow> (2, st\<lparr>sess := (sess st)\<lparr>phys := pv\<rparr>, hst := h2\<rparr>, [])
                | (h2, Inl e2) \<Rightarrow> (2, st\<lparr>hst := h2\<rparr>, [Failure e2]))
             else (2, st, [Say ''Export cancelled by user. Existing file was preserved.'']))
          else (1, st\<lparr>hst := h\<rparr>, [Failure e]))"

definition shell_view :: "vault_lib \<Rightarrow> UnlockedVault \<Rightarrow> string \<Rightarrow> shell \<Rightarrow> shell \<times> event list" where
  "shell_view L uv name st =
     (case find_file name (meta (sess st)) of
        None \<Rightarrow> (st, [Say (''Error: File not found inside the vault: '' @ name)])
      | Some fi \<Rightarrow>
          (case prepare_decrypted_memfd L uv fi (phys (sess st)) of
             Inl e \<Rightarrow> (st, [Failure e])
           | Inr (memfd, pv) \<Rightarrow> (st\<lparr>sess := (sess st)\<lparr>phys := pv\<rparr>\<rparr>, [])))"

definition shell_cat :: "vault_lib \<Rightarrow> UnlockedVault \<Rightarrow> string \<Rightarrow> shell \<Rightarrow> shell \<times> event list" where
  "shell_cat L uv name st =
     (case handle_cat L uv name (sess st) of
        Inl e \<Rightarrow> (st, [Failure e])
      | Inr (None, f) \<Rightarrow> (st, [Say (''Error: File '' @ CHR 0x27 # name @ CHR 0x27 # '' not found in vault.'')])
      | Inr (Some out, f) \<Rightarrow> (st\<lparr>sess := (sess st)\<lparr>phys := f\<rparr>\<rparr>, [Shown name out]))"

definition shell_import ::
    "vault_lib \<Rightarrow> UnlockedVault \<Rightarrow> u64 \<Rightarrow> string \<Rightarrow> string \<Rightarrow> shell \<Rightarrow> shell \<times> event list" where
  "shell_import L uv now from_disk name st =
     (case handle_import L uv from_disk name now (hst st) (sess st) of
        (s, h, Inl e) \<Rightarrow> (\<lparr>sess = s, hst = h\<rparr>, [Failure e])
      | (s, h, Inr _) \<Rightarrow> (\<lparr>sess = s, hst = h\<rparr>, [Say ''Import completed.'']))"

definition with_outcome :: "shell \<Rightarrow> unit outcome \<Rightarrow> shell \<times> event list" where
  "with_outcome st out =
     (case out of (s, Inl e) \<Rightarrow> (st\<lparr>sess := s\<rparr>, [Failure e]) | (s, Inr _) \<Rightarrow> (st\<lparr>sess := s\<rparr>, []))"

text \<open>
  The dispatch on the words of a line: the number of further lines read, the state and the
  events, or \<open>None\<close> for \<open>exit\<close>.
\<close>

definition shell_dispatch ::
    "vault_lib \<Rightarrow> UnlockedVault \<Rightarrow> shell_env \<Rightarrow> string list \<Rightarrow> string list \<Rightarrow> shell \<Rightarrow>
     (nat \<times> shell \<times> event list) option" where
  "shell_dispatch L uv env parts rest st =
     (let cmd = hd parts; n = length parts; usage = Some (0, st, [Say ''Error: Missing argument.'']) in
      if cmd = ''ls'' then Some (0, st, [Listing (handle_ls (meta (sess st)))])
      else if cmd = ''import'' then
        (if n < 3 then usage else Some (0, shell_import L uv (env_now env) (parts ! 1) (parts ! 2) st))
      else if cmd = ''rm'' then
        (if n < 2 then usage else Some (0, with_outcome st (handle_rm L uv (parts ! 1) (sess st))))
      else if cmd = ''export'' then
        (if n < 3 then usage else Some (shell_export L uv (parts ! 1) (parts ! 2) rest st))
      else if cmd = ''cat'' then
        (if n < 2 then usage else Some (0, shell_cat L uv (parts ! 1) st))
      else if cmd = ''view'' then
        (if n < 2 then usage else Some (0, shell_view L uv (parts ! 1) st))
      else if cmd = ''vacuum'' then
        Some (0, with_outcome st (shell_vacuum L uv (env_tmp_exists env) (env_rename_ok env) (env_reopen_ok env) (sess st)))
      else if cmd = ''help'' then Some (0, st, [Say ''Available Commands inside the Secure Shell:''])
      else if cmd = ''exit'' then None
      else Some (0, st, [Say (''Unknown command: '' @ sanitize_name cmd)]))"

text \<open>
  The loop. At the end of the input \<open>read_line\<close> keeps returning an empty line, which the shell
  skips: it never leaves the loop, the result \<open>Spinning\<close>.
\<close>

datatype shell_end = Exited | Spinning

function shell_loop ::
    "vault_lib \<Rightarrow> UnlockedVault \<Rightarrow> shell_env \<Rightarrow> string list \<Rightarrow> shell \<Rightarrow> shell_end \<times> shell \<times> event list" where
  "shell_loop L uv env [] st = (Spinning, st, [])"
| "shell_loop L uv env (line # rest) st =
     (let parts = split_whitespace (trim line) in
      if parts = [] then shell_loop L uv env rest st
      else case shell_dispatch L uv env parts rest st of
             None \<Rightarrow> (Exited, st, [Say ''Goodbye!''])
           | Some (used, st', evs) \<Rightarrow>
               let (en, st'', evs') = shell_loop L uv env (drop used rest) st' in (en, st'', evs @ evs'))"
  by pat_completeness auto
termination by (relation "measure (\<lambda>(L, uv, env, ls, st). length ls)") auto

section \<open>What every command keeps\<close>

text \<open>Metadata can always be serialised and sealed.\<close>

definition save_total :: "vault_lib \<Rightarrow> UnlockedVault \<Rightarrow> bool" where
  "save_total L uv \<longleftrightarrow> (\<forall>md off f g. is_ok (save_vault_metadata L md uv off f g))"

text \<open>An import that fails half way has only written behind the payload of the vault.\<close>

lemma import_chunk_frame:
  assumes "import_chunk L uv fetch st n s = (s', r)"
    and "fpos (phys s) = payload_offset s" "payload_offset s \<le> length (fbytes (phys s))"
  shows "meta s' = meta s \<and> payload_offset s \<le> payload_offset s' \<and> fpos (phys s') = payload_offset s' \<and>
    payload_offset s' \<le> length (fbytes (phys s')) \<and>
    (\<forall>i m. i + m \<le> payload_offset s \<longrightarrow> slice i m (fbytes (phys s')) = slice i m (fbytes (phys s)))"
proof (cases r)
  case (Inl e)
  with assms have "s' = s"
    by (auto simp: import_chunk_def Let_def split: if_splits sum.splits prod.splits)
  with assms show ?thesis by simp
next
  case (Inr e)
  with assms(1) obtain blob g where "s' = s\<lparr>phys := write_all blob (phys s),
      payload_offset := payload_offset s + length blob, rand := g\<rparr>"
    by (auto simp: import_chunk_def Let_def split: if_splits sum.splits prod.splits)
  with assms(2,3) show ?thesis by (simp add: fbytes_write_all length_splice slice_splice_before)
qed

lemma import_loop_frame:
  assumes "import_loop L uv fetch bs s acc = (s', r)"
    and "fpos (phys s) = payload_offset s" "payload_offset s \<le> length (fbytes (phys s))"
  shows "meta s' = meta s \<and> payload_offset s \<le> payload_offset s' \<and>
    payload_offset s' \<le> length (fbytes (phys s')) \<and>
    (\<forall>i m. i + m \<le> payload_offset s \<longrightarrow> slice i m (fbytes (phys s')) = slice i m (fbytes (phys s)))"
  using assms
proof (induction bs arbitrary: s acc)
  case (Cons b bs)
  obtain st n where b: "b = (st, n)" by fastforce
  obtain s1 q where q: "import_chunk L uv fetch st n s = (s1, q)" by fastforce
  note fr = import_chunk_frame [OF q Cons.prems(2,3)]
  show ?case
  proof (cases q)
    case (Inl e)
    with Cons.prems(1) q b have "s' = s1" by simp
    with fr show ?thesis by simp
  next
    case (Inr e)
    with Cons.prems(1) q b have "import_loop L uv fetch bs s1 (acc @ [e]) = (s', r)" by simp
    from Cons.IH [OF this] fr show ?thesis by auto
  qed
qed simp

text \<open>A session that agrees with another below its payload keeps the invariant and the view.\<close>

lemma vault_frame:
  assumes "vault_inv s" "meta s' = meta s" "payload_offset s \<le> payload_offset s'"
    "payload_offset s' \<le> length (fbytes (phys s'))"
    "\<forall>i m. i + m \<le> payload_offset s \<longrightarrow> slice i m (fbytes (phys s')) = slice i m (fbytes (phys s))"
  shows "vault_inv s' \<and> vault_view L uv s' = vault_view L uv s"
proof -
  have inv: "125 \<le> payload_offset s" "payload_offset s \<le> length (fbytes (phys s))"
    "\<forall>c \<in> set (all_chunks (meta s)). within 125 (payload_offset s) c"
    using assms(1) by (simp_all add: vault_inv_def)
  have "vault_view L uv s' n = vault_view L uv s n" for n
    by (rule vault_view_region [OF inv(3,2)]) (use assms in auto)
  moreover have "vault_inv s'"
    using assms inv unfolding vault_inv_def within_def by fastforce
  ultimately show ?thesis by auto
qed

lemma import_store_fails:
  assumes "vault_inv s" "save_total L uv" "import_store L uv name fetch bs now s = (s', Inl e)"
  shows "vault_inv s' \<and> vault_view L uv s' = vault_view L uv s"
proof -
  let ?s0 = "s\<lparr>phys := seek_start (payload_offset s) (phys s)\<rparr>"
  obtain s1 q where q: "import_loop L uv fetch bs ?s0 [] = (s1, q)" by fastforce
  have at: "fpos (phys ?s0) = payload_offset ?s0" "payload_offset ?s0 \<le> length (fbytes (phys ?s0))"
    using assms(1) by (simp_all add: vault_inv_def)
  note fr = import_loop_frame [OF q at]
  have "\<not> is_ok (save_vault_metadata L md uv off f g) \<Longrightarrow> False" for md off f g
    using assms(2) by (simp add: save_total_def)
  with assms(3) q have "s' = s1"
    by (cases q) (auto simp: import_store_def Let_def split: sum.splits prod.splits, metis is_ok.simps(1))
  with fr show ?thesis by (intro vault_frame [OF assms(1)]) auto
qed

section \<open>The specification of the commands\<close>

text \<open>
  To a reader a vault is a map from names to contents. \<open>command_machine\<close> is the contract a
  machine with such a view keeps: a command that succeeds does what its specification says, one
  that fails changes nothing a reader can see.
\<close>

fun run_commands :: "('c \<Rightarrow> 's \<Rightarrow> 's \<times> ('e + unit)) \<Rightarrow> 'c list \<Rightarrow> 's \<Rightarrow> 's \<times> 'c list" where
  "run_commands ex [] s = (s, [])"
| "run_commands ex (c # cs) s =
     (case ex c s of
        (s', Inl e) \<Rightarrow> run_commands ex cs s'
      | (s', Inr _) \<Rightarrow> let (s'', cs_ok) = run_commands ex cs s' in (s'', c # cs_ok))"

locale command_machine =
  fixes ok :: "'p \<Rightarrow> bool" and inv :: "'s \<Rightarrow> bool" and view :: "'p \<Rightarrow> 's \<Rightarrow> 'a"
    and exec :: "'p \<Rightarrow> 'c \<Rightarrow> 's \<Rightarrow> 's \<times> ('e + unit)" and spec :: "'c \<Rightarrow> 'a \<Rightarrow> 'a"
  assumes step_ok: "ok p \<Longrightarrow> inv s \<Longrightarrow> exec p c s = (s', Inr ()) \<Longrightarrow> inv s' \<and> view p s' = spec c (view p s)"
    and step_err: "ok p \<Longrightarrow> inv s \<Longrightarrow> exec p c s = (s', Inl e) \<Longrightarrow> inv s' \<and> view p s' = view p s"
begin

lemma run_refines:
  assumes "ok p" "inv s" "run_commands (exec p) cs s = (s', cs_ok)"
  shows "inv s' \<and> view p s' = fold spec cs_ok (view p s)"
  using assms(2,3)
proof (induction cs arbitrary: s cs_ok)
  case (Cons c cs)
  obtain s1 r where r: "exec p c s = (s1, r)" by fastforce
  show ?case
  proof (cases r)
    case (Inl e)
    with r have "inv s1" "view p s1 = view p s" using step_err [OF assms(1) Cons.prems(1)] by auto
    moreover have "run_commands (exec p) cs s1 = (s', cs_ok)" using r Inl Cons.prems(2) by simp
    ultimately show ?thesis using Cons.IH by metis
  next
    case (Inr u)
    with r Cons.prems obtain d where "run_commands (exec p) cs s1 = (s', d)" "cs_ok = c # d"
      by (auto split: prod.splits)
    with r Inr Cons.IH [of s1 d] step_ok [OF assms(1) Cons.prems(1)] show ?thesis by simp
  qed
qed simp

end

datatype vault_cmd = CImport bytes string | CRemove string | CVacuum

definition exec_cmd :: "vault_lib \<times> UnlockedVault \<times> shell_env \<Rightarrow> vault_cmd \<Rightarrow> session \<Rightarrow> unit outcome" where
  "exec_cmd p c s =
     (case p of (L, uv, env) \<Rightarrow>
      (case c of
         CImport data name \<Rightarrow> handle_import_from_bytes L uv data name (env_now env) s
       | CRemove name \<Rightarrow> handle_rm L uv name s
       | CVacuum \<Rightarrow> shell_vacuum L uv (env_tmp_exists env) (env_rename_ok env) (env_reopen_ok env) s))"

fun spec_cmd :: "vault_cmd \<Rightarrow> (string \<rightharpoonup> 'e + bytes) \<Rightarrow> (string \<rightharpoonup> 'e + bytes)" where
  "spec_cmd (CImport data name) m = m(name \<mapsto> Inr data)"
| "spec_cmd (CRemove name) m = m(name := None)"
| "spec_cmd CVacuum m = m"

definition machine_ok :: "vault_lib \<times> UnlockedVault \<times> shell_env \<Rightarrow> bool" where
  "machine_ok p \<longleftrightarrow>
     (case p of (L, uv, env) \<Rightarrow> aead_ok (crypto L) \<and> fastcdc_ok L \<and> save_total L uv \<and> env_rename_ok env \<and> env_reopen_ok env)"

definition machine_view ::
    "vault_lib \<times> UnlockedVault \<times> shell_env \<Rightarrow> session \<Rightarrow> (string \<rightharpoonup> vault_error + bytes)" where
  "machine_view p s = (case p of (L, uv, env) \<Rightarrow> vault_view L uv s)"

lemma save_total_not_Inl: "save_total L uv \<Longrightarrow> save_vault_metadata L md uv off f g \<noteq> Inl e"
  unfolding save_total_def by (metis is_ok.simps(1))

lemma rm_fails:
  assumes "save_total L uv" "handle_rm L uv name s = (s', Inl e)"
  shows "s' = s"
  using assms save_total_not_Inl [OF assms(1)]
  by (auto simp: handle_rm_def Let_def split: option.splits sum.splits prod.splits)

lemma vacuum_fails:
  assumes "vault_inv s" "save_total L uv" "rename_ok" "reopen_ok" "shell_vacuum L uv tmp rename_ok reopen_ok s = (s', Inl e)"
  shows "tmp \<and> s' = s"
proof -
  have len: "125 \<le> length (fbytes (phys s))"
    and inb: "\<forall>c \<in> set (concat (map chunks (file_table (meta s)))). in_file (fbytes (phys s)) c"
    using vault_inv_in_file [OF assms(1)] .
  note h = vacuum_header [OF len]
  let ?t = "write_all (slice 8 117 (fbytes (phys s))) (write_all (replicate 8 0) new_file)"
  from h(1) obtain pv where pv: "read_exact (VAULT_HEADER_SIZE - 8) (seek_start 8 (phys s)) =
      Inr (slice 8 117 (fbytes (phys s)), pv)" "fbytes pv = fbytes (phys s)" by blast
  have "length (fbytes ?t) = 125" using len by (simp add: h(2) length_slice)
  with vacuum_files_ok [of "file_table (meta s)" pv ?t 125] inb pv(2) obtain ft st where
    "vacuum_files (file_table (meta s)) (pv, ?t, 125) = (ft, Inr st)" by auto
  with assms(3-5) pv(1) save_total_not_Inl [OF assms(2)] show ?thesis
    by (auto simp: shell_vacuum_def handle_vacuum_def Let_def split: if_splits prod.splits sum.splits)
qed

lemma import_fails:
  assumes "vault_inv s" "save_total L uv" "handle_import_from_bytes L uv d name now s = (s', Inl e)"
  shows "vault_inv s' \<and> vault_view L uv s' = vault_view L uv s"
  using assms import_store_fails [OF assms(1,2)]
  by (auto simp: handle_import_from_bytes_def split: if_splits option.splits)

lemma exec_cmd_ok:
  assumes "machine_ok p" "vault_inv s" "exec_cmd p c s = (s', Inr ())"
  shows "vault_inv s' \<and> machine_view p s' = spec_cmd c (machine_view p s)"
proof -
  obtain L uv env where p: "p = (L, uv, env)" by (cases p) auto
  from assms(1) have l: "aead_ok (crypto L)" "fastcdc_ok L" by (simp_all add: p machine_ok_def)
  show ?thesis
  proof (cases c)
    case (CImport d name)
    with assms(3) have "handle_import_from_bytes L uv d name (env_now env) s = (s', Inr ())"
      by (simp add: p exec_cmd_def)
    from import_inv(1,2) [OF l assms(2) this] CImport show ?thesis by (simp add: p machine_view_def)
  next
    case (CRemove name)
    with assms(3) have "handle_rm L uv name s = (s', Inr ())" by (simp add: p exec_cmd_def)
    from rm_inv(1,2) [OF assms(2) this] CRemove show ?thesis by (simp add: p machine_view_def)
  next
    case CVacuum
    with assms(3) have "shell_vacuum L uv (env_tmp_exists env) (env_rename_ok env) (env_reopen_ok env) s = (s', Inr ())"
      by (simp add: p exec_cmd_def)
    from vacuum_inv(1,2) [OF assms(2) this] CVacuum show ?thesis by (simp add: p machine_view_def)
  qed
qed

lemma exec_cmd_err:
  assumes "machine_ok p" "vault_inv s" "exec_cmd p c s = (s', Inl e)"
  shows "vault_inv s' \<and> machine_view p s' = machine_view p s"
proof -
  obtain L uv env where p: "p = (L, uv, env)" by (cases p) auto
  from assms(1) have l: "save_total L uv" "env_rename_ok env" "env_reopen_ok env" by (simp_all add: p machine_ok_def)
  show ?thesis
  proof (cases c)
    case (CImport d name)
    with assms(3) have "handle_import_from_bytes L uv d name (env_now env) s = (s', Inl e)"
      by (simp add: p exec_cmd_def)
    from import_fails [OF assms(2) l(1) this] show ?thesis by (simp add: p machine_view_def)
  next
    case (CRemove name)
    with assms(3) have "handle_rm L uv name s = (s', Inl e)" by (simp add: p exec_cmd_def)
    from rm_fails [OF l(1) this] assms(2) show ?thesis by simp
  next
    case CVacuum
    with assms(3) have "shell_vacuum L uv (env_tmp_exists env) (env_rename_ok env) (env_reopen_ok env) s = (s', Inl e)"
      by (simp add: p exec_cmd_def)
    from vacuum_fails [OF assms(2) l this] assms(2) show ?thesis by simp
  qed
qed

interpretation vault_machine: command_machine machine_ok vault_inv machine_view exec_cmd spec_cmd
  by unfold_locales (fact exec_cmd_ok, fact exec_cmd_err)

section \<open>What each line of the input means\<close>

text \<open>
  The lines the loop executes, with the host each of them finds and the events it prints. Blank
  lines and the lines that \<open>export\<close> reads as answers are not among them.
\<close>

function shell_trace ::
    "vault_lib \<Rightarrow> UnlockedVault \<Rightarrow> shell_env \<Rightarrow> string list \<Rightarrow> shell \<Rightarrow> (string list \<times> host \<times> event list) list" where
  "shell_trace L uv env [] st = []"
| "shell_trace L uv env (line # rest) st =
     (let parts = split_whitespace (trim line) in
      if parts = [] then shell_trace L uv env rest st
      else case shell_dispatch L uv env parts rest st of
             None \<Rightarrow> []
           | Some (used, st', evs) \<Rightarrow> (parts, hst st, evs) # shell_trace L uv env (drop used rest) st')"
  by pat_completeness auto
termination by (relation "measure (\<lambda>(L, uv, env, ls, st). length ls)") auto

definition staged_file :: "host \<Rightarrow> string \<Rightarrow> bytes option" where
  "staged_file h from_disk = Option.bind (canonicalize h from_disk) (disk h)"

text \<open>
  The specification of one line, on the contents of the vault: \<open>rm name\<close> removes that file,
  \<open>import file name\<close> that reports success adds what the host has in that file, and nothing else
  changes anything.
\<close>

fun line_effect :: "string list \<times> host \<times> event list \<Rightarrow> (string \<rightharpoonup> 'e + bytes) \<Rightarrow> (string \<rightharpoonup> 'e + bytes)" where
  "line_effect (parts, h, evs) m =
     (if hd parts = ''rm'' \<and> 2 \<le> length parts then m(parts ! 1 := None)
      else if hd parts = ''import'' \<and> 3 \<le> length parts \<and> evs = [Say ''Import completed.'']
        then (case staged_file h (parts ! 1) of None \<Rightarrow> m | Some data \<Rightarrow> m(parts ! 2 \<mapsto> Inr data))
      else m)"

declare line_effect.simps [simp del]

lemma same_bytes:
  assumes "vault_inv s" "fbytes f = fbytes (phys s)"
  shows "vault_inv (s\<lparr>phys := f\<rparr>) \<and> vault_view L uv (s\<lparr>phys := f\<rparr>) = vault_view L uv s"
  using assms by (intro vault_frame) (auto simp: vault_inv_def)

text \<open>What a command leaves to the reader: the vault is well formed and shows \<open>m\<close>.\<close>

definition displays :: "vault_lib \<Rightarrow> UnlockedVault \<Rightarrow> session \<Rightarrow> (string \<rightharpoonup> vault_error + bytes) \<Rightarrow> bool" where
  "displays L uv s m \<longleftrightarrow> vault_inv s \<and> vault_view L uv s = m"

lemma with_outcome_sess [simp]: "sess (fst (with_outcome st out)) = fst out"
  by (auto simp: with_outcome_def split: prod.splits sum.splits)

lemma rm_missing:
  assumes "save_total L uv" "handle_rm L uv name s = (s', Inl e)"
  shows "vault_view L uv s name = None"
proof -
  have "List.find (\<lambda>i. vfs_name (file_table (meta s) ! i) = name) [0..<length (file_table (meta s))] = None"
    using assms save_total_not_Inl [OF assms(1)]
    by (auto simp: handle_rm_def Let_def split: option.splits sum.splits prod.splits)
  then have "\<forall>f \<in> set (file_table (meta s)). vfs_name f \<noteq> name"
    by (auto simp: find_None_iff in_set_conv_nth)
  then show ?thesis by (simp add: vault_view_def find_file_def find_None_iff)
qed

lemma rm_shows:
  assumes "machine_ok (L, uv, env)" "vault_inv s"
  shows "displays L uv (fst (handle_rm L uv name s)) ((vault_view L uv s)(name := None))"
proof -
  obtain s' r where r: "handle_rm L uv name s = (s', r)" by fastforce
  show ?thesis
  proof (cases r)
    case (Inl e)
    have "save_total L uv" using assms(1) by (simp add: machine_ok_def)
    from rm_fails [OF this r [unfolded Inl]] rm_missing [OF this r [unfolded Inl]] r assms(2) show ?thesis
      by (simp add: displays_def fun_upd_idem)
  next
    case (Inr u)
    with rm_inv(1,2) [OF assms(2)] r show ?thesis by (simp add: displays_def)
  qed
qed

lemma vacuum_shows:
  assumes "machine_ok (L, uv, env)" "vault_inv s"
  shows "displays L uv (fst (shell_vacuum L uv (env_tmp_exists env) (env_rename_ok env) (env_reopen_ok env) s)) (vault_view L uv s)"
proof -
  obtain s' r where r: "exec_cmd (L, uv, env) CVacuum s = (s', r)" by fastforce
  with exec_cmd_ok [OF assms, of CVacuum s'] exec_cmd_err [OF assms, of CVacuum s'] have "displays L uv s' (vault_view L uv s)"
    by (cases r) (auto simp: displays_def machine_view_def)
  with r show ?thesis by (simp add: exec_cmd_def)
qed

lemma shell_import_shows:
  assumes "machine_ok (L, uv, env)" "vault_inv (sess st)" "shell_import L uv now from_disk name st = (st', evs)"
  shows "displays L uv (sess st') (if evs = [Say ''Import completed.'']
    then case staged_file (hst st) from_disk of None \<Rightarrow> vault_view L uv (sess st)
         | Some data \<Rightarrow> (vault_view L uv (sess st))(name \<mapsto> Inr data)
    else vault_view L uv (sess st))"
proof -
  have l: "aead_ok (crypto L)" "fastcdc_ok L" "save_total L uv" using assms(1) by (simp_all add: machine_ok_def)
  obtain s h r where r: "handle_import L uv from_disk name now (hst st) (sess st) = (s, h, r)"
    by (cases "handle_import L uv from_disk name now (hst st) (sess st)") auto
  show ?thesis
  proof (cases r)
    case (Inl e)
    with r assms(3) have s: "sess st' = s" "evs = [Failure e]" by (auto simp: shell_import_def)
    from r Inl have "s = sess st \<or> (\<exists>data bs. import_store L uv name (fetch_file data) bs now (sess st) = (s, Inl e))"
      by (cases rule: handle_import_cases [of L from_disk name "hst st" "sess st" uv now]) auto
    with import_store_fails [OF assms(2) l(3)] assms(2) s show ?thesis by (auto simp: displays_def)
  next
    case (Inr u)
    with r assms(3) have s: "sess st' = s" "evs = [Say ''Import completed.'']" by (auto simp: shell_import_def)
    have rr: "handle_import L uv from_disk name now (hst st) (sess st) = (s, h, Inr ())" using r Inr by simp
    obtain target data where "canonicalize (hst st) from_disk = Some target" "disk (hst st) target = Some data"
      and i: "handle_import_from_bytes L uv data name now (sess st) = (s, Inr ())"
      by (rule handle_import_ok [OF l(2) rr])
    then have "staged_file (hst st) from_disk = Some data" by (simp add: staged_file_def)
    with import_inv(1,2) [OF l(1,2) assms(2) i] s show ?thesis by (simp add: displays_def)
  qed
qed

lemma shell_export_shows:
  assumes "vault_inv (sess st)" "shell_export L uv name to_disk rest st = (used, st', evs)"
  shows "displays L uv (sess st') (vault_view L uv (sess st))"
proof -
  have ok: "fbytes pv = fbytes (phys (sess st))"
    if "handle_export L uv name to_disk b (hst st) (sess st) = (h, Inr pv)" for b h pv
    using that by (rule handle_export_ok)
  from assms(2) have "sess st' = sess st \<or>
      (\<exists>pv. sess st' = (sess st)\<lparr>phys := pv\<rparr> \<and> fbytes pv = fbytes (phys (sess st)))"
    by (auto simp: shell_export_def split: if_splits prod.splits sum.splits dest: ok)
  with same_bytes [OF assms(1)] assms(1) show ?thesis by (auto simp: displays_def)
qed

lemma shell_read_shows:
  assumes "vault_inv (sess st)"
  shows "displays L uv (sess (fst (shell_view L uv name st))) (vault_view L uv (sess st))"
    and "displays L uv (sess (fst (shell_cat L uv name st))) (vault_view L uv (sess st))"
proof -
  have "sess (fst (shell_view L uv name st)) = sess st \<or>
      (\<exists>pv. sess (fst (shell_view L uv name st)) = (sess st)\<lparr>phys := pv\<rparr> \<and> fbytes pv = fbytes (phys (sess st)))"
    by (auto simp: shell_view_def split: option.splits sum.splits prod.splits dest: prepare_memfd_view)
  with same_bytes [OF assms] assms show "displays L uv (sess (fst (shell_view L uv name st))) (vault_view L uv (sess st))"
    by (auto simp: displays_def)
  have loop: "fbytes f' = fbytes f" if "cat_loop L uv cap cs f m = Inr (b, f')" for cap cs f m b f'
    using that by (induction cs arbitrary: f m) (auto simp: result_simps process_secure_chunk_plain)
  have "sess (fst (shell_cat L uv name st)) = sess st \<or>
      (\<exists>pv. sess (fst (shell_cat L uv name st)) = (sess st)\<lparr>phys := pv\<rparr> \<and> fbytes pv = fbytes (phys (sess st)))"
    by (auto simp: shell_cat_def handle_cat_def Let_def result_simps
        split: option.splits sum.splits prod.splits dest!: loop)
  with same_bytes [OF assms] assms show "displays L uv (sess (fst (shell_cat L uv name st))) (vault_view L uv (sess st))"
    by (auto simp: displays_def)
qed

text \<open>A line does to the contents what its specification says.\<close>

lemma shell_dispatch_shows:
  assumes "machine_ok (L, uv, env)" "vault_inv (sess st)"
    "shell_dispatch L uv env parts rest st = Some (used, st', evs)"
  shows "displays L uv (sess st') (line_effect (parts, hst st, evs) (vault_view L uv (sess st)))"
proof -
  let ?m = "vault_view L uv (sess st)"
  have skip: "displays L uv (sess st) ?m" using assms(2) by (simp add: displays_def)
  note rm = rm_shows [OF assms(1,2)] and vac = vacuum_shows [OF assms(1,2)]
    and imp = shell_import_shows [OF assms(1,2)] and ex = shell_export_shows [OF assms(2)] and rd = shell_read_shows [OF assms(2)]
  from assms(3) consider
      "hd parts = ''rm''" "2 \<le> length parts" "with_outcome st (handle_rm L uv (parts ! 1) (sess st)) = (st', evs)"
    | "hd parts = ''import''" "3 \<le> length parts" "shell_import L uv (env_now env) (parts ! 1) (parts ! 2) st = (st', evs)"
    | "line_effect (parts, hst st, evs) ?m = ?m" "st' = st"
    | "line_effect (parts, hst st, evs) ?m = ?m"
      "with_outcome st (shell_vacuum L uv (env_tmp_exists env) (env_rename_ok env) (env_reopen_ok env) (sess st)) = (st', evs)"
    | n a where "line_effect (parts, hst st, evs) ?m = ?m" "shell_export L uv n a rest st = (used, st', evs)"
    | n where "line_effect (parts, hst st, evs) ?m = ?m" "shell_cat L uv n st = (st', evs)"
    | n where "line_effect (parts, hst st, evs) ?m = ?m" "shell_view L uv n st = (st', evs)"
    unfolding shell_dispatch_def Let_def by (auto simp: line_effect.simps split: if_splits)
  then show ?thesis
  proof cases
    case 1
    with rm [of "parts ! 1"] show ?thesis by (metis line_effect.simps fst_conv with_outcome_sess)
  next
    case 2
    with imp [OF 2(3)] show ?thesis by (simp add: line_effect.simps split: option.splits)
  next
    case 4
    with vac show ?thesis by (metis fst_conv with_outcome_sess)
  qed (use skip ex rd in \<open>metis fst_conv\<close>)+
qed

text \<open>The loop does to the contents what its lines say, one after the other, and prints what they print.\<close>

lemma shell_loop_shows:
  assumes "machine_ok (L, uv, env)" "vault_inv (sess st)" "shell_loop L uv env ls st = (en, st', evs)"
  shows "displays L uv (sess st') (fold line_effect (shell_trace L uv env ls st) (vault_view L uv (sess st))) \<and>
    evs = concat (map (\<lambda>x. snd (snd x)) (shell_trace L uv env ls st)) @ (if en = Exited then [Say ''Goodbye!''] else [])"
  using assms
proof (induction L uv env ls st arbitrary: en st' evs rule: shell_loop.induct)
  case (1 L uv env st)
  then show ?case by (auto simp: displays_def)
next
  case (2 L uv env line rest st)
  let ?parts = "split_whitespace (trim line)"
  show ?case
  proof (cases "?parts = []")
    case True
    with 2(1) [OF refl True 2(3,4)] 2(5) show ?thesis by simp
  next
    case parts: False
    show ?thesis
    proof (cases "shell_dispatch L uv env ?parts rest st")
      case None
      with parts 2(4,5) show ?thesis by (auto simp: displays_def)
    next
      case (Some x)
      then obtain used st1 evs1 where d: "?parts \<noteq> []" "shell_dispatch L uv env ?parts rest st = Some (used, st1, evs1)"
        using parts by (metis prod_cases3)
      obtain en2 st2 evs2 where l: "shell_loop L uv env (drop used rest) st1 = (en2, st2, evs2)" by (metis prod_cases3)
      have s1: "displays L uv (sess st1) (line_effect (?parts, hst st, evs1) (vault_view L uv (sess st)))"
        by (rule shell_dispatch_shows [OF 2(3,4) d(2)])
      from 2(5) d l have r: "en = en2" "st' = st2" "evs = evs1 @ evs2" by simp_all
      have "displays L uv (sess st2) (fold line_effect (shell_trace L uv env (drop used rest) st1) (vault_view L uv (sess st1))) \<and>
          evs2 = concat (map (\<lambda>x. snd (snd x)) (shell_trace L uv env (drop used rest) st1)) @ (if en2 = Exited then [Say ''Goodbye!''] else [])"
        using 2(2) [OF refl d(1,2) refl refl 2(3) _ l] s1 by (simp add: displays_def)
      with s1 d r show ?thesis by (simp add: displays_def)
    qed
  qed
qed

end
