(* ===== verification/CryptoDemo.thy ===== *)
theory CryptoDemo
  imports Crypto
begin

text \<open>
  A concrete, executable instance of the cryptographic parameters: an AEAD whose tag repeats the
  key and an HKDF that truncates. It satisfies the hypotheses made about them.
\<close>

definition demo_tag :: "bytes \<Rightarrow> bytes" where
  "demo_tag k = take 16 (k @ replicate 16 0)"

definition demo_seal :: "bytes \<Rightarrow> bytes \<Rightarrow> bytes \<Rightarrow> bytes \<Rightarrow> bytes option" where
  "demo_seal k n a m = Some (m @ demo_tag k)"

definition demo_open :: "bytes \<Rightarrow> bytes \<Rightarrow> bytes \<Rightarrow> bytes \<Rightarrow> bytes option" where
  "demo_open k n a c = strip_suffix (demo_tag k) c"

definition demo_hkdf :: "bytes option \<Rightarrow> bytes \<Rightarrow> bytes \<Rightarrow> nat \<Rightarrow> bytes option" where
  "demo_hkdf s ikm info n = Some (take n (ikm @ info @ replicate n 0))"

definition demo_kdf :: "bytes \<Rightarrow> bytes \<Rightarrow> bytes option" where
  "demo_kdf pw salt = Some (take 32 (pw @ salt @ replicate 32 0))"

definition demo_crypto :: crypto_lib where
  "demo_crypto = \<lparr>aead_seal = demo_seal, aead_open = demo_open, hkdf_sha256 = demo_hkdf,
     argon2_params = (\<lambda>m t p. True), argon2_hash = (\<lambda>m t p. demo_kdf),
     scrypt_params = (\<lambda>n r p. True), scrypt_hash = (\<lambda>n r p. demo_kdf)\<rparr>"

lemma demo_aead_ok: "aead_ok demo_crypto"
proof -
  have "length (demo_tag k) = 16" for k by (simp add: demo_tag_def min_def)
  then show ?thesis
    by (simp add: aead_ok_def demo_crypto_def demo_seal_def demo_open_def strip_suffix_Some)
qed

lemma demo_aead_total: "aead_total demo_crypto"
  by (simp add: aead_total_def demo_crypto_def demo_seal_def)

lemma demo_hkdf_ok: "hkdf_ok demo_crypto"
  by (auto simp: hkdf_ok_def demo_crypto_def demo_hkdf_def min_def)

end
