(* ===== verification/VaultDemo.thy ===== *)
theory VaultDemo
  imports VaultVacuum CryptoDemo
begin

text \<open>
  A concrete, executable instance of the parameters of the vault: the cryptography of
  \<open>CryptoDemo\<close>, a FastCDC that cuts pieces of the maximal size, and a length-prefixed
  serialisation of the metadata. It satisfies every hypothesis the vault
  theorems make, so none of them is vacuous.
\<close>

section \<open>Serialisation\<close>

fun enc_nat :: "nat \<Rightarrow> bytes" where
  "enc_nat n = (if n < 128 then [word_of_nat n] else word_of_nat (n mod 128 + 128) # enc_nat (n div 128))"

declare enc_nat.simps [simp del]

fun dec_nat :: "bytes \<Rightarrow> (nat \<times> bytes) option" where
  "dec_nat [] = None"
| "dec_nat (b # r) =
     (if unat b < 128 then Some (unat b, r)
      else map_option (\<lambda>(m, r'). (unat b - 128 + 128 * m, r')) (dec_nat r))"

lemma dec_enc_nat [simp]: "dec_nat (enc_nat n @ r) = Some (n, r)"
proof (induction n rule: enc_nat.induct)
  case (1 n)
  show ?case
  proof (cases "n < 128")
    case True
    then show ?thesis by (simp add: enc_nat.simps [of n])
  next
    case False
    have "n mod 128 < 128" by simp
    then have "n mod 128 + 128 < 2 ^ 8" by simp
    then have "unat (word_of_nat (n mod 128 + 128) :: byte) = n mod 128 + 128"
      by (rule unat_u8_of_nat)
    with False 1 show ?thesis by (simp add: enc_nat.simps [of n] del: of_nat_add)
  qed
qed

fun dec_list :: "(bytes \<Rightarrow> ('a \<times> bytes) option) \<Rightarrow> nat \<Rightarrow> bytes \<Rightarrow> ('a list \<times> bytes) option" where
  "dec_list d 0 bs = Some ([], bs)"
| "dec_list d (Suc n) bs =
     Option.bind (d bs) (\<lambda>(x, r). Option.bind (dec_list d n r) (\<lambda>(xs, r'). Some (x # xs, r')))"

definition enc_seq :: "('a \<Rightarrow> bytes) \<Rightarrow> 'a list \<Rightarrow> bytes" where
  "enc_seq e xs = enc_nat (length xs) @ concat (map e xs)"

definition dec_seq :: "(bytes \<Rightarrow> ('a \<times> bytes) option) \<Rightarrow> bytes \<Rightarrow> ('a list \<times> bytes) option" where
  "dec_seq d bs = Option.bind (dec_nat bs) (\<lambda>(n, r). dec_list d n r)"

lemma dec_enc_seq [simp]:
  assumes "\<And>x r. d (e x @ r) = Some (x, r)"
  shows "dec_seq d (enc_seq e xs @ r) = Some (xs, r)"
proof -
  have "dec_list d (length xs) (concat (map e xs) @ r) = Some (xs, r)" for xs r
    by (induction xs arbitrary: r) (simp_all add: assms)
  then show ?thesis by (simp add: dec_seq_def enc_seq_def)
qed

fun dec_byte :: "bytes \<Rightarrow> (byte \<times> bytes) option" where
  "dec_byte [] = None"
| "dec_byte (b # r) = Some (b, r)"

definition enc_bytes :: "bytes \<Rightarrow> bytes" where
  "enc_bytes = enc_seq (\<lambda>b. [b])"

lemma dec_enc_bytes [simp]: "dec_seq dec_byte (enc_bytes bs @ r) = Some (bs, r)"
  by (simp add: enc_bytes_def)

definition enc_chunk :: "ChunkEntry \<Rightarrow> bytes" where
  "enc_chunk c = enc_nat (cipher_len c) @ enc_nat (offset c) @ enc_bytes (file_id c) @ enc_nat (plain_len c)"

definition dec_chunk :: "bytes \<Rightarrow> (ChunkEntry \<times> bytes) option" where
  "dec_chunk bs = Option.bind (dec_nat bs) (\<lambda>(n, r). Option.bind (dec_nat r) (\<lambda>(o', r).
     Option.bind (dec_seq dec_byte r) (\<lambda>(i, r). Option.bind (dec_nat r) (\<lambda>(p, r).
       Some (\<lparr>cipher_len = n, offset = o', file_id = i, plain_len = p\<rparr>, r)))))"

lemma dec_enc_chunk [simp]: "dec_chunk (enc_chunk c @ r) = Some (c, r)"
  by (simp add: dec_chunk_def enc_chunk_def)

definition enc_file :: "FileIndex \<Rightarrow> bytes" where
  "enc_file f = enc_bytes (str_bytes (vfs_name f)) @ enc_seq enc_chunk (chunks f) @ enc_nat (unat (last_modified_unix f))"

definition dec_file :: "bytes \<Rightarrow> (FileIndex \<times> bytes) option" where
  "dec_file bs = Option.bind (dec_seq dec_byte bs) (\<lambda>(n, r). Option.bind (dec_seq dec_chunk r) (\<lambda>(cs, r).
     Option.bind (dec_nat r) (\<lambda>(t, r).
       Some (\<lparr>vfs_name = bytes_str n, chunks = cs, last_modified_unix = word_of_nat t\<rparr>, r))))"

lemma dec_enc_file [simp]: "dec_file (enc_file f @ r) = Some (f, r)"
  by (simp add: dec_file_def enc_file_def)

definition demo_serialize :: "VaultMetadata \<Rightarrow> bytes option" where
  "demo_serialize md = Some (enc_seq enc_file (file_table md) @ enc_bytes (cdc_salt md))"

definition demo_deserialize :: "bytes \<Rightarrow> VaultMetadata option" where
  "demo_deserialize bs = Option.bind (dec_seq dec_file bs) (\<lambda>(ft, r).
     Option.bind (dec_seq dec_byte r) (\<lambda>(salt, r). Some \<lparr>file_table = ft, cdc_salt = salt\<rparr>))"

lemma demo_deserialize_serialize: "demo_serialize md = Some bs \<Longrightarrow> demo_deserialize bs = Some md"
  using dec_enc_bytes [of "cdc_salt md" "[]"]
  by (auto simp: demo_serialize_def demo_deserialize_def simp del: dec_enc_bytes)

section \<open>Chunking\<close>

fun pieces :: "nat \<Rightarrow> nat \<Rightarrow> nat \<Rightarrow> (nat \<times> nat) list" where
  "pieces off mx n =
     (if n = 0 \<or> mx = 0 then []
      else (off, min mx n) # pieces (off + min mx n) mx (n - min mx n))"

declare pieces.simps [simp del]

definition demo_fastcdc :: "nat \<Rightarrow> nat \<Rightarrow> nat \<Rightarrow> bytes \<Rightarrow> (nat \<times> nat) list option" where
  "demo_fastcdc mn av mx d = (if mx = 0 then None else Some (pieces 0 mx (length d)))"

lemma pieces_bounds: "(s, k) \<in> set (pieces off mx n) \<Longrightarrow> 0 < k \<and> k \<le> mx \<and> s + k \<le> off + n"
proof (induction off mx n rule: pieces.induct)
  case (1 off mx n)
  then show ?case by (cases "n = 0 \<or> mx = 0") (auto simp: pieces.simps [of off mx n])
qed

lemma pieces_concat:
  assumes "0 < mx" "off + n = length d"
  shows "concat (map (\<lambda>(s, k). slice s k d) (pieces off mx n)) = drop off d"
  using assms
proof (induction off mx n rule: pieces.induct)
  case (1 off mx n)
  show ?case
  proof (cases "n = 0")
    case True
    with 1 show ?thesis by (simp add: pieces.simps [of _ _ 0])
  next
    case False
    let ?k = "min mx n"
    have "concat (map (\<lambda>(s, k). slice s k d) (pieces (off + ?k) mx (n - ?k))) = drop (off + ?k) d"
      using False 1 by simp
    moreover have "drop off d = slice off ?k d @ drop (off + ?k) d"
      unfolding slice_def drop_drop [of ?k off d, symmetric, unfolded add.commute [of ?k]]
      by (metis add.commute append_take_drop_id drop_drop)
    ultimately show ?thesis using False 1 by (simp add: pieces.simps [of off mx n])
  qed
qed

definition demo_lib :: vault_lib where
  "demo_lib = \<lparr>crypto = demo_crypto, bincode_serialize = demo_serialize,
     bincode_deserialize = demo_deserialize, fastcdc = demo_fastcdc, mlock = (\<lambda>n. True)\<rparr>"

lemma demo_fields [simp]:
  "crypto demo_lib = demo_crypto" "bincode_serialize demo_lib = demo_serialize"
  "bincode_deserialize demo_lib = demo_deserialize" "fastcdc demo_lib = demo_fastcdc"
  "mlock demo_lib n"
  by (simp_all add: demo_lib_def)

lemma demo_fastcdc_ok: "fastcdc_ok demo_lib"
proof -
  have "concat (map (\<lambda>(s, n). slice s n d) (pieces 0 mx (length d))) = d" if "mx \<noteq> 0" for mx and d :: bytes
    using pieces_concat [of mx 0 "length d" d] that by simp
  moreover have "0 < n \<and> n \<le> mx \<and> s + n \<le> k" if "(s, n) \<in> set (pieces 0 mx k)" for s n mx k
    using pieces_bounds [OF that] by simp
  ultimately show ?thesis by (auto simp: fastcdc_ok_def demo_fastcdc_def split: if_splits)
qed

lemma demo_bincode_ok: "bincode_ok demo_lib"
  by (simp add: bincode_ok_def demo_deserialize_serialize)

lemmas demo_ok = demo_aead_ok demo_aead_total demo_hkdf_ok demo_fastcdc_ok demo_bincode_ok

end
