(* ===== verification/VaultTheorems.thy ===== *)
theory VaultTheorems
  imports Shell VaultDemo
begin

text \<open>
  The theorems of the vault, each with a witness on the instance of \<open>VaultDemo\<close>: a vault created
  with a password, into which a file is imported, which is read back, removed, and vacuumed.
\<close>

section \<open>A concrete vault\<close>

definition demo_uv :: UnlockedVault where
  "demo_uv = \<lparr>dek = replicate 32 0\<rparr>"

definition demo_session :: session where
  "demo_session = \<lparr>phys = \<lparr>fbytes = replicate 125 0, fpos = 0\<rparr>,
     meta = \<lparr>file_table = [], cdc_salt = []\<rparr>, payload_offset = 125, rand = (\<lambda>_. 0)\<rparr>"

definition demo_env :: shell_env where
  "demo_env = \<lparr>env_now = 7, env_tmp_exists = False, env_rename_ok = True, env_reopen_ok = True\<rparr>"

lemma demo_inv: "vault_inv demo_session"
  by (simp add: vault_inv_def demo_session_def all_chunks_def)

lemma demo_view: "vault_view L uv demo_session = Map.empty"
  by (rule ext) (simp add: vault_view_def find_file_def demo_session_def)

lemma demo_encrypt: "\<exists>blob g'. encrypt_chunk demo_crypto uv p fid g = Inr (blob, g')"
  by (simp add: encrypt_chunk_def derive_chunk_key_def demo_crypto_def demo_hkdf_def demo_seal_def
      case_prod_beta Let_def)

lemma demo_save: "save_total demo_lib uv"
  unfolding save_total_def
  by (simp add: save_vault_metadata_def demo_serialize_def encrypt_chunk_def derive_chunk_key_def
     demo_crypto_def demo_hkdf_def demo_seal_def case_prod_beta Let_def)

lemma demo_import_chunk:
  assumes "n \<le> MAX_CHUNK_SIZE" "fetch st n = Inr c"
  shows "\<exists>s' e. import_chunk demo_lib uv fetch st n s = (s', Inr e)"
proof -
  obtain pad g1 where pad: "draw (MAX_CHUNK_SIZE - n) (rand s) = (pad, g1)" by fastforce
  obtain fid g2 where fid: "generate_file_id g1 = (fid, g2)" by fastforce
  obtain blob g3 where "encrypt_chunk demo_crypto uv (c @ pad) fid g2 = Inr (blob, g3)"
    using demo_encrypt by blast
  with assms pad fid show ?thesis by (simp add: import_chunk_def)
qed

lemma demo_import_loop:
  assumes "\<forall>(st, n) \<in> set bs. n \<le> MAX_CHUNK_SIZE \<and> is_ok (fetch st n)"
  shows "\<exists>s' es. import_loop demo_lib uv fetch bs s acc = (s', Inr es)"
  using assms
proof (induction bs arbitrary: s acc)
  case (Cons b bs)
  obtain st n where b: "b = (st, n)" by fastforce
  with Cons.prems obtain c where "n \<le> MAX_CHUNK_SIZE" "fetch st n = Inr c"
    by (auto simp: is_ok_iff)
  then obtain s1 e where "import_chunk demo_lib uv fetch st n s = (s1, Inr e)"
    using demo_import_chunk by blast
  with Cons b show ?case by simp
qed simp

lemma demo_import_store:
  assumes "\<forall>(st, n) \<in> set bs. n \<le> MAX_CHUNK_SIZE \<and> is_ok (fetch st n)"
  shows "\<exists>s'. import_store demo_lib uv name fetch bs now s = (s', Inr ())"
proof -
  obtain s1 es where "import_loop demo_lib uv fetch bs
      (s\<lparr>phys := seek_start (payload_offset s) (phys s)\<rparr>) [] = (s1, Inr es)"
    using demo_import_loop [OF assms] by blast
  moreover have "\<exists>f g. save_vault_metadata demo_lib md uv off f0 g0 = Inr (f, g)" for md off f0 g0
    using demo_save [of uv] unfolding save_total_def is_ok_iff by force
  ultimately show ?thesis
    by (simp add: import_store_def Let_def split: sum.split) (metis Inr_inject prod.collapse sum.distinct(1))
qed

lemma demo_import:
  assumes "\<not> name_taken name s"
  shows "\<exists>s'. handle_import_from_bytes demo_lib uv d name now s = (s', Inr ())"
proof -
  let ?bs = "pieces 0 MAX_CHUNK_SIZE (length d)"
  have cd: "chunk_data demo_lib d = Some ?bs"
    by (simp add: chunk_data_def demo_fastcdc_def MAX_CHUNK_SIZE_def)
  have "\<forall>(st, n) \<in> set ?bs. n \<le> MAX_CHUNK_SIZE \<and> is_ok (fetch_bytes d st n)"
    by (auto dest!: pieces_bounds simp: fetch_bytes_def)
  with assms cd demo_import_store show ?thesis by (simp add: handle_import_from_bytes_def)
qed

text \<open>The vault \<open>create_vault\<close> makes, and what one import does to it.\<close>

lemma length_enc_nat_small: "n < 128 \<Longrightarrow> length (enc_nat n) = 1"
  by (simp add: enc_nat.simps [of n])

lemma demo_meta_size:
  assumes "demo_serialize \<lparr>file_table = [], cdc_salt = cdc\<rparr> = Some ser" "length cdc = 32"
  shows "length ser = 34"
  using assms by (auto simp: demo_serialize_def enc_seq_def enc_bytes_def length_enc_nat_small)

lemma demo_created:
  obtains f g' where "create_vault demo_lib ''pw'' KdfSettings_default False (\<lambda>_. 0) = Inr (f, g')"
    "length (fbytes f) \<le> 125 + METADATA_LIMIT"
proof -
  let ?g = "\<lambda>_::nat. 0 :: byte"
  let ?salt = "fst (generate_32_bytes ?g)" and ?g1 = "snd (generate_32_bytes ?g)"
  let ?d = "fst (generate_32_bytes ?g1)" and ?g2 = "snd (generate_32_bytes ?g1)"
  have tr: "trim ''pw'' \<noteq> []" by (simp add: trim_def is_whitespace_def Let_def)
  obtain kek where kek: "derive_kek demo_crypto (str_bytes ''pw'') ?salt KdfSettings_default = Inr kek"
    by (simp add: derive_kek_def KdfSettings_default_def demo_crypto_def demo_kdf_def)
  obtain w n g3 where w: "wrap_dek demo_crypto kek ?d ?g2 = Inr ((w, n), g3)"
    by (simp add: wrap_dek_def demo_crypto_def demo_seal_def case_prod_beta)
  have "length ?d = KEY_LEN" by (simp add: generate_32_bytes_def KEY_LEN_def)
  note uw = unwrap_wrap_dek [OF demo_aead_ok this w]
  let ?md = "\<lparr>file_table = [], cdc_salt = fst (draw 32 g3)\<rparr>"
  let ?f = "write_all w (write_all n (write_all ?salt (write_all (kdf_to_bytes KdfSettings_default)
         (write_all (u64_to_le (word_of_nat 125)) new_file))))"
  have "is_ok (save_vault_metadata demo_lib ?md \<lparr>dek = ?d\<rparr> 125 ?f (snd (draw 32 g3)))"
    using demo_save unfolding save_total_def by blast
  then obtain f g' where sv: "save_vault_metadata demo_lib ?md \<lparr>dek = ?d\<rparr> 125 ?f (snd (draw 32 g3)) = Inr (f, g')"
    unfolding is_ok_iff by (metis surj_pair)
  have "length (fbytes ?f) = 125" using uw(2,3)
    by (simp add: write_all_chain new_file_def generate_32_bytes_def crypto_consts)
  with sv obtain ser blob where "demo_serialize ?md = Some ser"
    "encrypt_chunk demo_crypto \<lparr>dek = ?d\<rparr> ser METADATA_FILE_ID (snd (draw 32 g3)) = Inr (blob, g')"
    "length (fbytes f) = 125 + length blob"
    by (auto elim!: save_bytes)
  then have "length (fbytes f) \<le> 125 + METADATA_LIMIT"
    using demo_meta_size [of "fst (draw 32 g3)" ser] length_encrypt_chunk [OF demo_aead_ok]
    by (simp add: METADATA_LIMIT_def)
  moreover have "create_vault demo_lib ''pw'' KdfSettings_default False ?g = Inr (f, g')"
    using tr kek w uw(1) sv by (simp add: create_vault_def case_prod_beta Let_def KDF_SETTINGS_SIZE_def)
  ultimately show thesis using that by blast
qed

definition demo_host :: host where
  "demo_host = \<lparr>xdg_runtime_dir = Some ''/run'', home = None,
     canonicalize = (\<lambda>s. if s = ''/run/atom_staging'' then Some [''run'', ''atom_staging'']
                        else if s = ''f'' then Some [''run'', ''atom_staging'', ''f'']
                        else if s = ''/etc/passwd'' then Some [''etc'', ''passwd''] else None),
     resolve_target = (\<lambda>s. filter (\<lambda>c. c \<noteq> []) (split_on (CHR ''/'') s)),
     disk = [[''run'', ''atom_staging'', ''f''] \<mapsto> [104, 105], [''etc'', ''passwd''] \<mapsto> [1]],
     creatable = (\<lambda>p. True), removable = (\<lambda>p. True)\<rparr>"

lemma demo_machine: "machine_ok (demo_lib, demo_uv, demo_env)"
  by (simp add: machine_ok_def demo_ok demo_save demo_env_def)

lemma demo_fresh: "\<not> name_taken n demo_session"
  by (simp add: name_taken_def demo_session_def)

section \<open>Storing files\<close>

text \<open>C1. A successful import keeps the invariant of the vault (blocks inside the payload region
  and pairwise disjoint, names distinct) and adds exactly the imported bytes under the new name:
  every other file reads as before.\<close>

theorem import_stores_exactly_the_file:
  assumes "aead_ok (crypto L)" "fastcdc_ok L" "vault_inv s"
    and "handle_import_from_bytes L uv d name now s = (s', Inr ())"
  shows "vault_inv s' \<and> vault_view L uv s name = None \<and>
         vault_view L uv s' = (vault_view L uv s)(name \<mapsto> Inr d)"
proof -
  have "\<not> name_taken name s"
    using assms(4) by (auto simp: handle_import_from_bytes_def split: if_splits)
  then have "vault_view L uv s name = None"
    by (simp add: vault_view_def find_file_None name_taken_iff)
  with import_inv(1,2) [OF assms] show ?thesis by simp
qed

theorem import_stores_exactly_the_file_witness:
  "\<exists>s'. handle_import_from_bytes demo_lib demo_uv [1, 2, 3] ''a'' 7 demo_session = (s', Inr ()) \<and>
        vault_inv s' \<and> vault_view demo_lib demo_uv s' = [''a'' \<mapsto> Inr [1, 2, 3]]"
proof -
  obtain s' where i: "handle_import_from_bytes demo_lib demo_uv [1, 2, 3] ''a'' 7 demo_session = (s', Inr ())"
    using demo_import [OF demo_fresh] by blast
  with import_stores_exactly_the_file [OF _ _ demo_inv i] show ?thesis
    by (simp add: demo_ok demo_view)
qed

text \<open>C5. A successful \<open>rm\<close> keeps the invariant, makes exactly the named file disappear, and
  leaves only zero bytes where each of its encrypted blocks was.\<close>

theorem rm_forgets_exactly_the_file:
  assumes "vault_inv s" "handle_rm L uv name s = (s', Inr ())"
  shows "vault_inv s' \<and> vault_view L uv s' = (vault_view L uv s)(name := None) \<and>
    (\<exists>e. find_file name (meta s) = Some e \<and>
       (\<forall>c \<in> set (chunks e). slice (offset c) (cipher_len c) (fbytes (phys s')) = replicate (cipher_len c) 0))"
proof -
  have "find_file name (meta s) \<noteq> None"
    using assms(2) by (rule rm_cases) (auto simp: find_file_None)
  then obtain e where "find_file name (meta s) = Some e" by blast
  with rm_inv(1-3) [OF assms] show ?thesis by blast
qed

lemma demo_imported:
  obtains s' where "handle_import_from_bytes demo_lib demo_uv [1, 2, 3] ''a'' 7 demo_session = (s', Inr ())"
    "vault_inv s'" "vault_view demo_lib demo_uv s' = [''a'' \<mapsto> Inr [1, 2, 3]]" "find_file ''a'' (meta s') \<noteq> None"
proof -
  obtain s' where i: "handle_import_from_bytes demo_lib demo_uv [1, 2, 3] ''a'' 7 demo_session = (s', Inr ())"
    using demo_import [OF demo_fresh] by blast
  then have v: "vault_inv s'" "vault_view demo_lib demo_uv s' = [''a'' \<mapsto> Inr [1, 2, 3]]"
    using import_inv(1,2) [OF _ _ demo_inv i] by (simp_all add: demo_ok demo_view)
  then have "vault_view demo_lib demo_uv s' ''a'' \<noteq> None" by simp
  then have "find_file ''a'' (meta s') \<noteq> None" by (simp add: vault_view_def)
  with i v that show thesis by blast
qed

lemma demo_rm:
  assumes "find_file name (meta s) \<noteq> None"
  shows "\<exists>s'. handle_rm demo_lib uv name s = (s', Inr ())"
proof -
  let ?ft = "file_table (meta s)"
  from assms have "find (\<lambda>i. vfs_name (?ft ! i) = name) [0..<length ?ft] \<noteq> None"
    using find_index_None [of "\<lambda>f. vfs_name f = name" ?ft] by (auto simp: find_file_None)
  moreover have "\<exists>f g. save_vault_metadata demo_lib md uv off f0 g0 = Inr (f, g)" for md off f0 g0
    using demo_save [of uv] unfolding save_total_def is_ok_iff by force
  ultimately show ?thesis
    by (auto simp: handle_rm_def Let_def split: sum.split) (metis Inr_inject prod.collapse sum.distinct(1))
qed

theorem rm_forgets_exactly_the_file_witness:
  "\<exists>s s'. handle_import_from_bytes demo_lib demo_uv [1, 2, 3] ''a'' 7 demo_session = (s, Inr ()) \<and>
      handle_rm demo_lib demo_uv ''a'' s = (s', Inr ()) \<and> vault_view demo_lib demo_uv s' = Map.empty"
proof -
  obtain s where s: "handle_import_from_bytes demo_lib demo_uv [1, 2, 3] ''a'' 7 demo_session = (s, Inr ())"
    "vault_inv s" "vault_view demo_lib demo_uv s = [''a'' \<mapsto> Inr [1, 2, 3]]" "find_file ''a'' (meta s) \<noteq> None"
    by (rule demo_imported)
  obtain s' where r: "handle_rm demo_lib demo_uv ''a'' s = (s', Inr ())" using demo_rm [OF s(4)] by blast
  from rm_forgets_exactly_the_file [OF s(2) r] s(1,3) r show ?thesis by auto
qed

text \<open>C2. A successful \<open>vacuum\<close> keeps the invariant and every file's contents, and leaves no gap:
  the payload ends right after the live blocks.\<close>

theorem vacuum_preserves_and_compacts:
  assumes "vault_inv s" "shell_vacuum L uv tmp_exists rename_ok reopen_ok s = (s', Inr ())"
  shows "vault_inv s' \<and> vault_view L uv s' = vault_view L uv s \<and>
    payload_offset s' = VAULT_HEADER_SIZE + sum_list (map cipher_len (all_chunks (meta s)))"
  using vacuum_inv(1-3) [OF assms] by blast

lemma demo_vacuum:
  assumes "vault_inv s"
  shows "\<exists>s'. shell_vacuum demo_lib uv False True True s = (s', Inr ())"
proof -
  obtain s' r where r: "shell_vacuum demo_lib uv False True True s = (s', r)" by fastforce
  with vacuum_fails [OF assms demo_save TrueI TrueI, of uv False s'] show ?thesis by (cases r) auto
qed

theorem vacuum_preserves_and_compacts_witness:
  "\<exists>s s'. handle_import_from_bytes demo_lib demo_uv [1, 2, 3] ''a'' 7 demo_session = (s, Inr ()) \<and>
      shell_vacuum demo_lib demo_uv False True True s = (s', Inr ()) \<and>
      vault_view demo_lib demo_uv s' = [''a'' \<mapsto> Inr [1, 2, 3]]"
proof -
  obtain s where s: "handle_import_from_bytes demo_lib demo_uv [1, 2, 3] ''a'' 7 demo_session = (s, Inr ())"
    "vault_inv s" "vault_view demo_lib demo_uv s = [''a'' \<mapsto> Inr [1, 2, 3]]"
    by (rule demo_imported)
  obtain s' where r: "shell_vacuum demo_lib demo_uv False True True s = (s', Inr ())" using demo_vacuum [OF s(2)] by blast
  from vacuum_preserves_and_compacts [OF s(2) r] s r show ?thesis by auto
qed

section \<open>Durability\<close>

text \<open>C3. After a successful import, removal or vacuum, reopening the file with the password yields exactly the state the
  session holds: the metadata, the data key and the payload offset. The sealed metadata has to fit the
  10 MiB that the loader reads, and the payload offset its 64 bits: beyond that the file cannot be opened again.\<close>

theorem commands_are_durable:
  assumes "aead_ok (crypto L)" "bincode_ok L" "fastcdc_ok L" "vault_inv s"
    "header_unlocks L (fbytes (phys s)) pw uv" "exec_cmd (L, uv, env) c s = (s', Inr ())"
    "payload_offset s' < 2 ^ 64" "length (fbytes (phys s')) \<le> payload_offset s' + METADATA_LIMIT"
  shows "synced L pw uv s' \<and> (\<exists>f. load_vault_metadata L pw (phys s') = Inr ((meta s', uv, payload_offset s'), f))"
proof -
  have "synced L pw uv s'"
  proof (cases c)
    case (CImport d name)
    with assms(6) have "handle_import_from_bytes L uv d name (env_now env) s = (s', Inr ())" by (simp add: exec_cmd_def)
    from import_inv(3) [OF assms(1,3,4) this assms(5,2,7,8)] show ?thesis .
  next
    case (CRemove name)
    with assms(6) have "handle_rm L uv name s = (s', Inr ())" by (simp add: exec_cmd_def)
    from rm_inv(4) [OF assms(4) this assms(5,1,2,7,8)] show ?thesis .
  next
    case CVacuum
    with assms(6) have "shell_vacuum L uv (env_tmp_exists env) (env_rename_ok env) (env_reopen_ok env) s = (s', Inr ())"
      by (simp add: exec_cmd_def)
    from vacuum_inv(4) [OF assms(4) this assms(5,1,2,7,8)] show ?thesis .
  qed
  then show ?thesis by (auto simp: synced_def split: sum.splits)
qed

lemma demo_import_empty:
  assumes "vault_inv s" "file_table (meta s) = []" "length (cdc_salt (meta s)) = 32"
    "handle_import_from_bytes demo_lib uv [] ''a'' 7 s = (s', Inr ())"
  shows "payload_offset s' = payload_offset s" "length (fbytes (phys s')) \<le> payload_offset s' + METADATA_LIMIT"
proof -
  have cd: "chunk_data demo_lib [] = Some []"
    by (simp add: chunk_data_def demo_fastcdc_def MAX_CHUNK_SIZE_def pieces.simps [of _ _ 0])
  let ?s0 = "s\<lparr>phys := seek_start (payload_offset s) (phys s)\<rparr>"
  let ?md = "(meta s)\<lparr>file_table := [\<lparr>vfs_name = ''a'', chunks = [], last_modified_unix = 7\<rparr>]\<rparr>"
  from assms(4) cd obtain f g where sv: "save_vault_metadata demo_lib ?md uv (payload_offset s) (phys ?s0) (rand s) = Inr (f, g)"
    and s': "s' = ?s0\<lparr>meta := ?md, phys := f, rand := g\<rparr>"
    by (auto simp: handle_import_from_bytes_def import_store_def Let_def assms(2) split: if_splits sum.splits prod.splits)
  show off: "payload_offset s' = payload_offset s" by (simp add: s')
  have "125 \<le> payload_offset s" "payload_offset s \<le> length (fbytes (phys s))"
    using assms(1) by (simp_all add: vault_inv_def)
  with sv obtain ser blob where ser: "demo_serialize ?md = Some ser"
    and "encrypt_chunk demo_crypto uv ser METADATA_FILE_ID (rand s) = Inr (blob, g)"
      "length (fbytes f) = payload_offset s + length blob"
    by (auto elim!: save_bytes)
  moreover have "length ser = 38"
    using ser assms(3) by (auto simp: demo_serialize_def enc_seq_def enc_bytes_def enc_file_def length_enc_nat_small)
  ultimately show "length (fbytes (phys s')) \<le> payload_offset s' + METADATA_LIMIT"
    using length_encrypt_chunk [OF demo_aead_ok] by (simp add: s' METADATA_LIMIT_def)
qed

theorem commands_are_durable_witness:
  "\<exists>f g uv s s'. create_vault demo_lib ''pw'' KdfSettings_default False (\<lambda>_. 0) = Inr (f, g) \<and> phys s = f \<and>
      exec_cmd (demo_lib, uv, demo_env) (CImport [] ''a'') s = (s', Inr ()) \<and> synced demo_lib (str_bytes ''pw'') uv s'"
proof -
  obtain f g where c: "create_vault demo_lib ''pw'' KdfSettings_default False (\<lambda>_. 0) = Inr (f, g)"
    "length (fbytes f) \<le> 125 + METADATA_LIMIT" by (rule demo_created)
  from create_ok [OF _ demo_bincode_ok c] demo_aead_ok obtain uv cdc where u: "length cdc = 32"
    "header_unlocks demo_lib (fbytes f) (str_bytes ''pw'') uv"
    "vault_inv \<lparr>phys = f, meta = \<lparr>file_table = [], cdc_salt = cdc\<rparr>, payload_offset = 125, rand = g\<rparr>"
    by (metis demo_fields(1))
  let ?s = "\<lparr>phys = f, meta = \<lparr>file_table = [], cdc_salt = cdc\<rparr>, payload_offset = 125, rand = g\<rparr>"
  have "\<not> name_taken ''a'' ?s" by (simp add: name_taken_def)
  then obtain s' where i: "handle_import_from_bytes demo_lib uv [] ''a'' 7 ?s = (s', Inr ())" using demo_import by blast
  have e: "exec_cmd (demo_lib, uv, demo_env) (CImport [] ''a'') ?s = (s', Inr ())"
    using i by (simp add: exec_cmd_def demo_env_def)
  have sz: "payload_offset s' = 125" "length (fbytes (phys s')) \<le> payload_offset s' + METADATA_LIMIT"
    using demo_import_empty [OF u(3) _ _ i] u(1) by simp_all
  have "synced demo_lib (str_bytes ''pw'') uv s'"
    using commands_are_durable [OF _ demo_bincode_ok demo_fastcdc_ok u(3) _ e _ sz(2)] u(2) demo_aead_ok sz(1)
    by simp
  moreover have "phys ?s = f" by simp
  ultimately show ?thesis using c(1) e by blast
qed

text \<open>A vault that \<open>handle_create\<close> wrote is well formed and empty, and \<open>load_vault_metadata\<close>
  with the same password opens it.\<close>

theorem created_vault_opens:
  assumes "aead_ok (crypto L)" "bincode_ok L"
    "handle_create L kdf mem rounds par threads ms time src already_exists g = Inr (f, g')"
    and "length (fbytes f) \<le> VAULT_HEADER_SIZE + METADATA_LIMIT"
  shows "\<not> already_exists \<and> (\<exists>pw. create_password src = Inr pw \<and> trim pw \<noteq> [] \<and>
    (\<exists>uv s f'. load_vault_metadata L (str_bytes pw) f = Inr ((meta s, uv, VAULT_HEADER_SIZE), f') \<and>
       length (dek uv) = KEY_LEN \<and> phys s = f \<and> payload_offset s = VAULT_HEADER_SIZE \<and>
       vault_inv s \<and> vault_view L uv s = Map.empty))"
proof -
  from assms(3) obtain pw st where pw: "create_password src = Inr pw"
    and cr: "create_vault L pw st already_exists g = Inr (f, g')"
    by (auto simp: handle_create_def result_simps)
  have g: "\<not> already_exists" "trim pw \<noteq> []"
    using cr by (auto simp: create_vault_def result_simps Let_def case_prod_beta)
  have "length (fbytes f) \<le> 125 + METADATA_LIMIT" using assms(4) by simp
  from create_ok [OF assms(1,2) cr this] obtain uv cdc where "length (dek uv) = 32"
    and c: "\<And>s. s = \<lparr>phys = f, meta = \<lparr>file_table = [], cdc_salt = cdc\<rparr>, payload_offset = 125, rand = g'\<rparr> \<Longrightarrow>
      vault_inv s \<and> vault_view L uv s = Map.empty \<and> synced L (str_bytes pw) uv s" by blast
  let ?s = "\<lparr>phys = f, meta = \<lparr>file_table = [], cdc_salt = cdc\<rparr>, payload_offset = 125, rand = g'\<rparr>"
  from c [OF refl] obtain f' where "load_vault_metadata L (str_bytes pw) f = Inr ((meta ?s, uv, 125), f')"
    by (auto simp: synced_def split: sum.splits)
  with c [OF refl] g pw \<open>length (dek uv) = 32\<close> show ?thesis
    by (intro conjI exI [of _ pw] exI [of _ uv] exI [of _ ?s] exI [of _ f']) (simp_all add: KEY_LEN_def)
qed

theorem created_vault_opens_witness:
  "\<exists>f g uv f' md. handle_create demo_lib ''argon2id'' None (Some 3) (Some 4) 8 0 0 (Typed ''pw'' ''pw'') False (\<lambda>_. 0) = Inr (f, g) \<and>
     load_vault_metadata demo_lib (str_bytes ''pw'') f = Inr ((md, uv, 125), f')"
proof -
  obtain f g where c: "create_vault demo_lib ''pw'' KdfSettings_default False (\<lambda>_. 0) = Inr (f, g)"
    "length (fbytes f) \<le> 125 + METADATA_LIMIT" by (rule demo_created)
  have "create_settings False None (Some 3) (Some 4) 8 0 0 = KdfSettings_default"
    by (simp add: create_settings_def KdfSettings_default_def)
  then have h: "handle_create demo_lib ''argon2id'' None (Some 3) (Some 4) 8 0 0 (Typed ''pw'' ''pw'') False (\<lambda>_. 0) = Inr (f, g)"
    using c(1) by (simp add: handle_create_def trim_def is_whitespace_def to_lowercase_def to_lower_def)
  from created_vault_opens [OF _ demo_bincode_ok h] c(2) demo_aead_ok h show ?thesis
    by (auto simp: trim_def is_whitespace_def)
qed

section \<open>Sessions\<close>

text \<open>C4. Provided that the index can be serialised and the vault file replaced and reopened by a vacuum, an
  interactive session does to the contents exactly what its lines say, in their order: \<open>rm name\<close> removes that
  file, \<open>import file name\<close> that reports success adds the bytes the host has in that file, and every other
  line, failed commands included, changes nothing. The vault stays well formed, and what is printed is what the
  lines print.\<close>

theorem shell_session_refines:
  assumes "machine_ok (L, uv, env)" "vault_inv (sess st)" "shell_loop L uv env ls st = (en, st', evs)"
  shows "vault_inv (sess st') \<and>
    vault_view L uv (sess st') = fold line_effect (shell_trace L uv env ls st) (vault_view L uv (sess st)) \<and>
    evs = concat (map (\<lambda>x. snd (snd x)) (shell_trace L uv env ls st)) @ (if en = Exited then [Say ''Goodbye!''] else [])"
  using shell_loop_shows [OF assms] by (simp add: displays_def)

theorem shell_session_refines_witness:
  "\<exists>en st' evs h evs1. shell_loop demo_lib demo_uv demo_env [''rm b'', ''exit'', ''rm c'']
       \<lparr>sess = demo_session, hst = demo_host\<rparr> = (en, st', evs) \<and> vault_inv (sess st') \<and>
     shell_trace demo_lib demo_uv demo_env [''rm b'', ''exit'', ''rm c''] \<lparr>sess = demo_session, hst = demo_host\<rparr> =
       [([''rm'', ''b''], h, evs1)] \<and>
     vault_view demo_lib demo_uv (sess st') = line_effect ([''rm'', ''b''], h, evs1) Map.empty"
proof -
  let ?st = "\<lparr>sess = demo_session, hst = demo_host\<rparr>" and ?ls = "[''rm b'', ''exit'', ''rm c'']"
  obtain en st' evs where l: "shell_loop demo_lib demo_uv demo_env ?ls ?st = (en, st', evs)" by (metis surj_pair)
  have p: "split_whitespace (trim ''rm b'') = [''rm'', ''b'']" "split_whitespace (trim ''exit'') = [''exit'']" by code_simp+
  obtain st1 evs1 where d: "with_outcome ?st (handle_rm demo_lib demo_uv ''b'' demo_session) = (st1, evs1)" by fastforce
  then have "shell_dispatch demo_lib demo_uv demo_env [''rm'', ''b''] [''exit'', ''rm c''] ?st = Some (0, st1, evs1)"
    by (simp add: shell_dispatch_def)
  moreover have "shell_dispatch demo_lib demo_uv demo_env [''exit''] [''rm c''] st1 = None" by (simp add: shell_dispatch_def)
  ultimately have t: "shell_trace demo_lib demo_uv demo_env ?ls ?st = [([''rm'', ''b''], demo_host, evs1)]" by (simp add: p)
  from shell_session_refines [OF demo_machine _ l] demo_inv l t show ?thesis by (simp add: demo_view)
qed

text \<open>A list of vault commands, each of which may fail, has on the contents the effect of the
  specification's commands that succeeded, in their order.\<close>

theorem vault_commands_refine:
  assumes "machine_ok (L, uv, env)" "vault_inv s"
    "run_commands (exec_cmd (L, uv, env)) cs s = (s', ok)"
  shows "vault_inv s' \<and> vault_view L uv s' = fold spec_cmd ok (vault_view L uv s)"
  using vault_machine.run_refines [OF assms] by (simp add: machine_view_def)

theorem vault_commands_refine_witness:
  "\<exists>s' ok. run_commands (exec_cmd (demo_lib, demo_uv, demo_env)) [CImport [1, 2, 3] ''a'', CRemove ''b'', CVacuum] demo_session
       = (s', ok) \<and> vault_inv s' \<and> vault_view demo_lib demo_uv s' = fold spec_cmd ok Map.empty"
proof -
  obtain s' ok where r: "run_commands (exec_cmd (demo_lib, demo_uv, demo_env))
      [CImport [1, 2, 3] ''a'', CRemove ''b'', CVacuum] demo_session = (s', ok)" by (metis surj_pair)
  from vault_commands_refine [OF demo_machine demo_inv r] r show ?thesis by (simp add: demo_view)
qed

section \<open>Encryption of blocks\<close>

text \<open>C6. A blob decrypts under a file identifier exactly when it is the magic, a salt, a nonce and
  the sealing of that plaintext under the key derived for that salt and identifier, bound to the
  identifier as associated data: nothing else is accepted.\<close>

theorem decrypt_chunk_accepts_only_sealings:
  assumes "aead_ok L"
  shows "decrypt_chunk L v blob fid = Inr p \<longleftrightarrow>
    (\<exists>salt nonce key ct. length salt = FILE_SALT_LEN \<and> length nonce = XNONCE_LEN \<and>
       derive_chunk_key L (dek v) salt fid = Inr key \<and>
       aead_seal L key nonce (CHUNK_MAGIC_V1 @ fid) p = Some ct \<and>
       blob = CHUNK_MAGIC_V1 @ salt @ nonce @ ct)"
  (is "?l \<longleftrightarrow> ?r")
proof
  assume ?l
  then obtain salt nonce key ct where "length salt = 16" "length nonce = 24"
    "derive_chunk_key L (dek v) salt fid = Inr key" "aead_open L key nonce (chunk_aad fid) ct = Some p"
    "blob = CHUNK_MAGIC_V1 @ salt @ nonce @ ct" by (rule decrypt_chunk_Inr)
  moreover from this(4) have "aead_seal L key nonce (chunk_aad fid) p = Some ct" by (rule aead_okD(3) [OF assms])
  ultimately show ?r unfolding FILE_SALT_LEN_def XNONCE_LEN_def chunk_aad_def by blast
next
  assume ?r
  then obtain salt nonce key ct where r: "length salt = 16" "length nonce = 24"
    "derive_chunk_key L (dek v) salt fid = Inr key" "aead_seal L key nonce (chunk_aad fid) p = Some ct"
    "blob = CHUNK_MAGIC_V1 @ salt @ nonce @ ct"
    by (auto simp: FILE_SALT_LEN_def XNONCE_LEN_def chunk_aad_def)
  from aead_okD(1,2) [OF assms r(4)] r show ?l by (simp add: decrypt_chunk_blob)
qed

theorem decrypt_chunk_accepts_only_sealings_witness:
  "decrypt_chunk demo_crypto demo_uv
     (CHUNK_MAGIC_V1 @ replicate 16 0 @ replicate 24 0 @ [7] @ replicate 16 0) (replicate 16 1) = Inr [7]"
proof -
  have k: "derive_chunk_key demo_crypto (dek demo_uv) (replicate 16 0) (replicate 16 1) = Inr (replicate 32 0)"
    by (simp add: derive_chunk_key_def demo_crypto_def demo_hkdf_def demo_uv_def KEY_LEN_def)
  have "aead_seal demo_crypto (replicate 32 0) (replicate 24 0) (CHUNK_MAGIC_V1 @ replicate 16 1) [7] =
      Some ([7] @ replicate 16 0)"
    by (simp add: demo_crypto_def demo_seal_def demo_tag_def)
  with k show ?thesis
    unfolding decrypt_chunk_accepts_only_sealings [OF demo_aead_ok]
    by (intro exI [of _ "replicate 16 0"] exI [of _ "replicate 24 0"] exI [of _ "replicate 32 0"]
        exI [of _ "[7] @ replicate 16 0"]) (simp add: crypto_consts)
qed

text \<open>Encrypting a block of any admissible size succeeds, the blob is \<open>CHUNK_OVERHEAD\<close> bytes
  longer than the plaintext, and decrypting it with the same identifier returns the plaintext.\<close>

theorem encrypt_chunk_roundtrip:
  assumes "aead_ok L" "aead_total L" "hkdf_ok L" "length p < 2 ^ 38 - 64"
  shows "\<exists>blob g'. encrypt_chunk L v p fid g = Inr (blob, g') \<and>
    length blob = length p + CHUNK_OVERHEAD \<and> decrypt_chunk L v blob fid = Inr p"
proof -
  obtain blob g' where e: "encrypt_chunk L v p fid g = Inr (blob, g')"
    using encrypt_chunk_ok [OF assms(3,2,4)] by blast
  with length_encrypt_chunk [OF assms(1) e] decrypt_encrypt_chunk [OF assms(1) e] show ?thesis by blast
qed

theorem encrypt_chunk_roundtrip_witness:
  "\<exists>blob g'. encrypt_chunk demo_crypto demo_uv [1, 2] METADATA_FILE_ID (\<lambda>_. 0) = Inr (blob, g') \<and>
     length blob = 61 \<and> decrypt_chunk demo_crypto demo_uv blob METADATA_FILE_ID = Inr [1, 2]"
  using encrypt_chunk_roundtrip [OF demo_aead_ok demo_aead_total demo_hkdf_ok, of "[1, 2]" demo_uv METADATA_FILE_ID "\<lambda>_. 0"]
  by simp

section \<open>Crossing the boundary\<close>



text \<open>A successful \<open>export\<close> writes exactly the stored contents to a file directly inside the
  staging directory, whose name is a plain name, never overwrites an existing file without
  \<open>force_overwrite\<close>, changes no other file of the host, and does not touch the vault.\<close>

theorem export_writes_contents:
  assumes "handle_export L uv name to_disk force h s = (h', Inr pv)"
  shows "\<exists>dir fn p. staging_dir h = Some dir \<and> file_name to_disk = Some fn \<and>
    CHR ''/'' \<notin> set fn \<and> fn \<noteq> ''..'' \<and> fn \<noteq> ''.'' \<and>
    vault_view L uv s name = Some (Inr p) \<and>
    disk h' = (disk h)(resolve_target h (dir @ ''/'' @ fn) \<mapsto> p) \<and>
    (force \<or> disk h (resolve_target h (dir @ ''/'' @ fn)) = None) \<and> fbytes pv = fbytes (phys s)"
  using assms
proof (rule handle_export_ok)
  fix dir fn p
  assume a: "staging_dir h = Some dir" "file_name to_disk = Some fn"
    "vault_view L uv s name = Some (Inr p)" "fbytes pv = fbytes (phys s)"
    "h' = h\<lparr>disk := (disk h)(resolve_target h (dir @ ''/'' @ fn) \<mapsto> p)\<rparr>"
    "force \<or> disk h (resolve_target h (dir @ ''/'' @ fn)) = None"
  with file_name_plain [OF a(2)] show ?thesis by (intro exI [of _ dir] exI [of _ fn] exI [of _ p]) simp
qed

theorem export_writes_contents_witness:
  "\<exists>s h' pv. handle_import_from_bytes demo_lib demo_uv [1, 2, 3] ''a'' 7 demo_session = (s, Inr ()) \<and>
     handle_export demo_lib demo_uv ''a'' ''../../etc/x'' False demo_host s = (h', Inr pv) \<and>
     disk h' [''run'', ''atom_staging'', ''x''] = Some [1, 2, 3]"
proof -
  obtain s where s: "handle_import_from_bytes demo_lib demo_uv [1, 2, 3] ''a'' 7 demo_session = (s, Inr ())"
    "vault_view demo_lib demo_uv s = [''a'' \<mapsto> Inr [1, 2, 3]]" "find_file ''a'' (meta s) \<noteq> None"
    by (rule demo_imported)
  then obtain e where e: "find_file ''a'' (meta s) = Some e" by blast
  with s(2) have "plains demo_lib demo_uv (fbytes (phys s)) (chunks e) = Inr [1, 2, 3]"
    by (auto simp: vault_view_def dest!: fun_cong [of _ _ "''a''"])
  moreover have "fpos new_file = length (fbytes new_file)" by (simp add: new_file_def)
  ultimately obtain out pv where "export_loop demo_lib demo_uv (chunks e) (phys s) new_file = (out, Inr pv)"
    using export_loop_plains [where cs = "chunks e" and pv = "phys s" and L = demo_lib and uv = demo_uv and out = new_file] by auto
  with e have x: "\<exists>h'. handle_export demo_lib demo_uv ''a'' ''../../etc/x'' False demo_host s = (h', Inr pv)"
    by (simp add: handle_export_def staging_dir_def demo_host_def file_name_def)
  then obtain h' where x: "handle_export demo_lib demo_uv ''a'' ''../../etc/x'' False demo_host s = (h', Inr pv)" by blast
  have "resolve_target demo_host ''/run/atom_staging/x'' = [''run'', ''atom_staging'', ''x'']"
    "staging_dir demo_host = Some ''/run/atom_staging''" "file_name ''../../etc/x'' = Some ''x''"
    by (simp_all add: demo_host_def staging_dir_def file_name_def)
  with export_writes_contents [OF x] s(2) have "disk h' [''run'', ''atom_staging'', ''x''] = Some [1, 2, 3]" by auto
  with s(1) x show ?thesis by blast
qed

text \<open>C8. What \<open>cat\<close> prints for a file is its start line, the rendering of exactly the stored contents, and its
  end line. The rendering sends the terminal no ASCII control byte other than newline, tab and carriage return;
  the two lines print the name as it is, so the whole output is free of ASCII controls exactly if the name
  is.\<close>

theorem cat_prints_exactly_the_file:
  assumes "aead_ok (crypto L)" "handle_cat L uv name s = Inr (Some out, f)"
  shows "\<exists>p. vault_view L uv s name = Some (Inr p) \<and>
    out = [10] @ str_bytes (''--- Start of '' @ name @ '' ---'') @ [10] @ render p @
          [10] @ str_bytes (''--- End of '' @ name @ '' ---'') @ [10, 10] \<and>
    (\<forall>b \<in> set (render p). ascii_safe b) \<and>
    ((\<forall>b \<in> set out. ascii_safe b) \<longleftrightarrow> (\<forall>b \<in> set (str_bytes name). ascii_safe b))"
proof -
  obtain p where p: "vault_view L uv s name = Some (Inr p)" "out = cat_output name p" using handle_cat_view [OF assms] by blast
  moreover have "out = [10] @ str_bytes (''--- Start of '' @ name @ '' ---'') @ [10] @ render p @
      [10] @ str_bytes (''--- End of '' @ name @ '' ---'') @ [10, 10]"
    using p(2) by (simp only: cat_output_def newline_def)
  ultimately show ?thesis using render_safe [of _ p] cat_output_safe [of name p] by blast
qed

theorem cat_prints_exactly_the_file_witness:
  "\<exists>s out f. handle_import_from_bytes demo_lib demo_uv [1, 2, 3] ''a'' 7 demo_session = (s, Inr ()) \<and>
     handle_cat demo_lib demo_uv ''a'' s = Inr (Some out, f) \<and> (\<forall>b \<in> set out. ascii_safe b)"
proof -
  obtain s where s: "handle_import_from_bytes demo_lib demo_uv [1, 2, 3] ''a'' 7 demo_session = (s, Inr ())"
    "vault_view demo_lib demo_uv s = [''a'' \<mapsto> Inr [1, 2, 3]]" "find_file ''a'' (meta s) \<noteq> None"
    by (rule demo_imported)
  then obtain e where e: "find_file ''a'' (meta s) = Some e" by blast
  with s(2) have p: "plains demo_lib demo_uv (fbytes (phys s)) (chunks e) = Inr [1, 2, 3]"
    by (auto simp: vault_view_def dest!: fun_cong [of _ _ "''a''"])
  have cap: "0 < cat_capacity (chunks e)"
    using plains_capacity [OF _ p] demo_aead_ok by simp
  have "decrypt_loop demo_lib demo_uv (chunks e) (phys s) [] =
      Inr ([1, 2, 3], snd (projr (decrypt_loop demo_lib demo_uv (chunks e) (phys s) [])))"
    using decrypt_loop_plains [of demo_lib demo_uv "chunks e" "phys s" "[]"] p by simp
  then obtain f where "decrypt_loop demo_lib demo_uv (chunks e) (phys s) [] = Inr ([1, 2, 3], f)" by blast
  then have c: "handle_cat demo_lib demo_uv ''a'' s = Inr (Some (cat_output ''a'' [1, 2, 3]), f)"
    using e cap cat_loop_plains [of demo_lib "[]" "chunks e"] demo_aead_ok by (simp add: handle_cat_def Let_def)
  have "\<forall>b \<in> set (str_bytes ''a''). ascii_safe b" by (simp add: str_bytes_def ascii_safe_def is_ascii_control_def)
  with cat_prints_exactly_the_file [OF _ c] s(1) c demo_aead_ok show ?thesis by auto
qed

end
