(* ===== verification/Wire.thy ===== *)
theory Wire
  imports Prelude
begin

text \<open>
  The shared wire layer of \<open>p2p-live\<close>: the crate's error type (\<open>lib.rs\<close>), the bounds-checked
  \<open>Reader\<close> and the address hints of \<open>ticket.rs\<close>, and the validated onion address of \<open>tor.rs\<close>.
  Error values keep the variant and the fixed part of the message.
\<close>

datatype Error =
    EIdentity string
  | ETls string
  | EQuicConfig string
  | EConnect string
  | ESession string
  | ETransfer string
  | EIntegrity string
  | ECancelled
  | ETicket string
  | EPairing string
  | EDiscovery string
  | EIo string

section \<open>Reader\<close>

record Reader =
  rbuf :: bytes
  rpos :: nat
  noun :: string

definition Reader_named :: "bytes \<Rightarrow> string \<Rightarrow> Reader" where
  "Reader_named buf n = \<lparr>rbuf = buf, rpos = 0, noun = n\<rparr>"

definition Reader_new :: "bytes \<Rightarrow> Reader" where
  "Reader_new buf = Reader_named buf ''ticket''"

definition r_take :: "nat \<Rightarrow> Reader \<Rightarrow> Error + bytes \<times> Reader" where
  "r_take n r =
     (if length (rbuf r) < rpos r + n then Inl (ETicket (noun r @ '' truncated''))
      else Inr (slice (rpos r) n (rbuf r), r\<lparr>rpos := rpos r + n\<rparr>))"

definition r_u8 :: "Reader \<Rightarrow> Error + byte \<times> Reader" where
  "r_u8 r = bindE (r_take 1 r) (\<lambda>(b, r'). Inr (b ! 0, r'))"

definition r_u16 :: "Reader \<Rightarrow> Error + u16 \<times> Reader" where
  "r_u16 r = bindE (r_take 2 r) (\<lambda>(b, r'). Inr (u16_from_be b, r'))"

definition r_u64 :: "Reader \<Rightarrow> Error + u64 \<times> Reader" where
  "r_u64 r = bindE (r_take 8 r) (\<lambda>(b, r'). Inr (u64_from_be b, r'))"

definition r_is_empty :: "Reader \<Rightarrow> bool" where
  "r_is_empty r \<longleftrightarrow> rpos r = length (rbuf r)"

text \<open>\<open>rest_is r xs\<close>: what is left to read is \<open>xs\<close>; \<open>advance n r\<close>: the reader after \<open>n\<close> bytes.\<close>

definition rest_is :: "Reader \<Rightarrow> bytes \<Rightarrow> bool" where
  "rest_is r xs \<longleftrightarrow> rpos r \<le> length (rbuf r) \<and> drop (rpos r) (rbuf r) = xs"

definition advance :: "nat \<Rightarrow> Reader \<Rightarrow> Reader" where
  "advance n r = r\<lparr>rpos := rpos r + n\<rparr>"

lemma rest_is_new [simp]: "rest_is (Reader_named bs n) bs" "rest_is (Reader_new bs) bs"
  by (simp_all add: rest_is_def Reader_named_def Reader_new_def)

lemma rest_is_advance: "rest_is r (xs @ ys) \<Longrightarrow> rest_is (advance (length xs) r) ys"
proof -
  assume a: "rest_is r (xs @ ys)"
  then have d: "drop (rpos r) (rbuf r) = xs @ ys" by (simp add: rest_is_def)
  then have "length (rbuf r) - rpos r = length xs + length ys" by (metis length_append length_drop)
  then have "rpos r + length xs \<le> length (rbuf r)" using a by (auto simp: rest_is_def)
  moreover have "drop (rpos r + length xs) (rbuf r) = drop (length xs) (drop (rpos r) (rbuf r))"
    by (simp add: add.commute)
  ultimately show ?thesis by (simp add: rest_is_def advance_def d)
qed

lemma advance_advance [simp]: "advance m (advance n r) = advance (n + m) r"
  by (simp add: advance_def add.assoc)

lemma advance_0 [simp]: "advance 0 r = r"
  by (simp add: advance_def)

lemma r_take_rest:
  assumes "rest_is r (xs @ ys)" "n = length xs"
  shows "r_take n r = Inr (xs, advance n r)"
proof -
  have d: "drop (rpos r) (rbuf r) = xs @ ys" "rpos r \<le> length (rbuf r)"
    using assms(1) by (simp_all add: rest_is_def)
  then have "length (rbuf r) - rpos r = length xs + length ys" by (metis length_append length_drop)
  with d assms(2) show ?thesis by (simp add: r_take_def slice_def advance_def)
qed

lemma r_take_Inr:
  assumes "r_take n r = Inr (xs, r')"
  shows "length xs = n" "r' = advance n r" "rest_is r (xs @ drop (rpos r + n) (rbuf r))"
  using assms
  by (auto simp: r_take_def advance_def rest_is_def slice_def split: if_splits)
    (metis add.commute append_take_drop_id drop_drop)

lemma r_is_empty_rest: "rest_is r [] \<Longrightarrow> r_is_empty r"
  by (simp add: rest_is_def r_is_empty_def)

lemma rest_is_empty: "rest_is r xs \<Longrightarrow> r_is_empty r \<longleftrightarrow> xs = []"
  by (auto simp: rest_is_def r_is_empty_def)

section \<open>Codecs over the reader\<close>

text \<open>
  The contract of an encoder and its decoder: decoding reads back exactly what was encoded and
  leaves the cursor behind it. A canonical codec accepts nothing but encodings.
\<close>

fun decode_n :: "nat \<Rightarrow> (Reader \<Rightarrow> Error + 'a \<times> Reader) \<Rightarrow> Reader \<Rightarrow> Error + 'a list \<times> Reader" where
  "decode_n 0 d r = Inr ([], r)"
| "decode_n (Suc n) d r =
     bindE (d r) (\<lambda>(x, r'). bindE (decode_n n d r') (\<lambda>(xs, r''). Inr (x # xs, r'')))"

locale wire_codec =
  fixes enc :: "'a \<Rightarrow> bytes" and dec :: "Reader \<Rightarrow> Error + 'a \<times> Reader" and wf :: "'a \<Rightarrow> bool"
  assumes dec_enc: "wf x \<Longrightarrow> rest_is r (enc x @ t) \<Longrightarrow> dec r = Inr (x, advance (length (enc x)) r)"
begin

lemma dec_enc_list:
  assumes "\<forall>x \<in> set xs. wf x" "rest_is r (concat (map enc xs) @ t)" "n = length xs"
  shows "decode_n n dec r = Inr (xs, advance (length (concat (map enc xs))) r)"
  using assms
proof (induction xs arbitrary: r n)
  case (Cons x xs)
  then have r: "rest_is r (enc x @ concat (map enc xs) @ t)" by simp
  then have "dec r = Inr (x, advance (length (enc x)) r)" using Cons.prems(1) by (intro dec_enc) simp_all
  moreover from r have "rest_is (advance (length (enc x)) r) (concat (map enc xs) @ t)" by (rule rest_is_advance)
  ultimately show ?case using Cons.IH [of "advance (length (enc x)) r"] Cons.prems by simp
qed simp

lemma enc_inj:
  assumes "wf x" "wf y" "enc x @ s = enc y @ t"
  shows "x = y \<and> s = t"
proof -
  let ?r = "Reader_new (enc x @ s)"
  have "dec ?r = Inr (x, advance (length (enc x)) ?r)" using assms(1) by (rule dec_enc [where t = s]) simp
  moreover have "dec ?r = Inr (y, advance (length (enc y)) ?r)"
    using assms(2) by (rule dec_enc [where t = t]) (simp add: assms(3))
  ultimately have "x = y" by simp
  with assms(3) show ?thesis by simp
qed

end

locale canonical_codec = wire_codec +
  assumes dec_sound: "rpos r \<le> length (rbuf r) \<Longrightarrow> dec r = Inr (x, r') \<Longrightarrow>
      wf x \<and> (\<exists>t. rest_is r (enc x @ t)) \<and> r' = advance (length (enc x)) r"
begin

text \<open>The accepted input is the encoding of the result: no two inputs decode alike.\<close>

lemma dec_unique:
  assumes "dec r = Inr (x, r')" "dec s = Inr (x, s')" "rpos r \<le> length (rbuf r)" "rpos s \<le> length (rbuf s)"
  shows "take (length (enc x)) (drop (rpos r) (rbuf r)) = take (length (enc x)) (drop (rpos s) (rbuf s))"
  using dec_sound [OF assms(3,1)] dec_sound [OF assms(4,2)] by (auto simp: rest_is_def)

end

lemma r_u8_rest: "rest_is r ([b] @ t) \<Longrightarrow> r_u8 r = Inr (b, advance 1 r)"
  unfolding r_u8_def by (subst r_take_rest [of _ "[b]" t]) simp_all

lemma r_u16_rest: "rest_is r (u16_to_be w @ t) \<Longrightarrow> r_u16 r = Inr (w, advance 2 r)"
  unfolding r_u16_def by (subst r_take_rest) auto

lemma r_u64_rest: "rest_is r (u64_to_be w @ t) \<Longrightarrow> r_u64 r = Inr (w, advance 8 r)"
  unfolding r_u64_def by (subst r_take_rest) auto

interpretation u8: canonical_codec "\<lambda>b. [b]" r_u8 "\<lambda>_. True"
proof
  fix b t and r :: Reader
  assume "rest_is r ([b] @ t)"
  then show "r_u8 r = Inr (b, advance (length [b]) r)" by (simp add: r_u8_rest)
next
  fix r r' and b :: byte
  assume "r_u8 r = Inr (b, r')"
  then obtain bs where t: "r_take 1 r = Inr (bs, r')" and b: "b = bs ! 0" by (auto simp: r_u8_def result_simps)
  from r_take_Inr [OF t] b have "bs = [b]" by (cases bs) auto
  with r_take_Inr [OF t] show "True \<and> (\<exists>t. rest_is r ([b] @ t)) \<and> r' = advance (length [b]) r" by auto
qed

interpretation u16: canonical_codec u16_to_be r_u16 "\<lambda>_. True"
proof
  fix w t and r :: Reader
  assume "rest_is r (u16_to_be w @ t)"
  then show "r_u16 r = Inr (w, advance (length (u16_to_be w)) r)" by (simp add: r_u16_rest)
next
  fix r r' and w :: u16
  assume "r_u16 r = Inr (w, r')"
  then obtain bs where t: "r_take 2 r = Inr (bs, r')" and w: "w = u16_from_be bs" by (auto simp: r_u16_def result_simps)
  from r_take_Inr [OF t] w have "bs = u16_to_be w" by (simp add: u16_to_be_from_be)
  with r_take_Inr [OF t] show "True \<and> (\<exists>t. rest_is r (u16_to_be w @ t)) \<and> r' = advance (length (u16_to_be w)) r" by auto
qed

interpretation u64: canonical_codec u64_to_be r_u64 "\<lambda>_. True"
proof
  fix w t and r :: Reader
  assume "rest_is r (u64_to_be w @ t)"
  then show "r_u64 r = Inr (w, advance (length (u64_to_be w)) r)" by (simp add: r_u64_rest)
next
  fix r r' and w :: u64
  assume "r_u64 r = Inr (w, r')"
  then obtain bs where t: "r_take 8 r = Inr (bs, r')" and w: "w = u64_from_be bs" by (auto simp: r_u64_def result_simps)
  from r_take_Inr [OF t] w have "bs = u64_to_be w" by (simp add: u64_to_be_from_be)
  with r_take_Inr [OF t] show "True \<and> (\<exists>t. rest_is r (u64_to_be w @ t)) \<and> r' = advance (length (u64_to_be w)) r" by auto
qed

section \<open>Reading from a known rest\<close>

text \<open>
  What a successful read says about the bytes that were left. These rules turn a successful parse
  into an equation for its input.
\<close>

lemma r_take_split:
  assumes "r_take n r = Inr (xs, r')" "rest_is r zs"
  shows "\<exists>ys. zs = xs @ ys \<and> length xs = n \<and> r' = advance n r \<and> rest_is r' ys"
proof -
  from r_take_Inr [OF assms(1)] have x: "length xs = n" "r' = advance n r"
    "rest_is r (xs @ drop (rpos r + n) (rbuf r))" .
  moreover from x(3) assms(2) have "zs = xs @ drop (rpos r + n) (rbuf r)" by (simp add: rest_is_def)
  moreover from x(1,3) have "rest_is (advance n r) (drop (rpos r + n) (rbuf r))" using rest_is_advance by blast
  ultimately show ?thesis by blast
qed

lemma r_u8_split:
  assumes "r_u8 r = Inr (b, r')" "rest_is r zs"
  shows "\<exists>ys. zs = b # ys \<and> r' = advance 1 r \<and> rest_is r' ys"
proof -
  from assms(1) obtain bs where t: "r_take 1 r = Inr (bs, r')" "b = bs ! 0" by (auto simp: r_u8_def result_simps)
  from r_take_split [OF t(1) assms(2)] obtain ys where y: "zs = bs @ ys" "length bs = 1" "r' = advance 1 r" "rest_is r' ys"
    by blast
  moreover from y(2) t(2) have "bs = [b]" by (cases bs) auto
  ultimately show ?thesis by simp
qed

lemma r_u16_split:
  assumes "r_u16 r = Inr (w, r')" "rest_is r zs"
  shows "\<exists>ys. zs = u16_to_be w @ ys \<and> r' = advance 2 r \<and> rest_is r' ys"
proof -
  from assms(1) obtain bs where t: "r_take 2 r = Inr (bs, r')" "w = u16_from_be bs" by (auto simp: r_u16_def result_simps)
  from r_take_split [OF t(1) assms(2)] t(2) show ?thesis by (metis u16_to_be_from_be)
qed

lemma r_u64_split:
  assumes "r_u64 r = Inr (w, r')" "rest_is r zs"
  shows "\<exists>ys. zs = u64_to_be w @ ys \<and> r' = advance 8 r \<and> rest_is r' ys"
proof -
  from assms(1) obtain bs where t: "r_take 8 r = Inr (bs, r')" "w = u64_from_be bs" by (auto simp: r_u64_def result_simps)
  from r_take_split [OF t(1) assms(2)] t(2) show ?thesis by (metis u64_to_be_from_be)
qed

section \<open>Readers by what is left\<close>

text \<open>A reader split at its cursor, so that parsing a concatenation is rewriting.\<close>

definition Reader_at :: "bytes \<Rightarrow> bytes \<Rightarrow> string \<Rightarrow> Reader" where
  "Reader_at pre post n = \<lparr>rbuf = pre @ post, rpos = length pre, noun = n\<rparr>"

lemma Reader_new_at: "Reader_new bs = Reader_at [] bs ''ticket''"
  by (simp add: Reader_new_def Reader_named_def Reader_at_def)

lemma Reader_named_at: "Reader_named bs n = Reader_at [] bs n"
  by (simp add: Reader_named_def Reader_at_def)

lemma rest_is_at [simp]: "rest_is (Reader_at pre zs nn) zs' \<longleftrightarrow> zs' = zs"
  by (auto simp: rest_is_def Reader_at_def)

lemma advance_at: "n = length xs \<Longrightarrow> advance n (Reader_at pre (xs @ ys) nn) = Reader_at (pre @ xs) ys nn"
  by (simp add: advance_def Reader_at_def)

lemma r_is_empty_at [simp]: "r_is_empty (Reader_at pre ys nn) \<longleftrightarrow> ys = []"
  by (simp add: r_is_empty_def Reader_at_def)

lemma r_take_at [wire_simps]:
  "n = length xs \<Longrightarrow> r_take n (Reader_at pre (xs @ ys) nn) = Inr (xs, Reader_at (pre @ xs) ys nn)"
  "n = length xs \<Longrightarrow> r_take n (Reader_at pre xs nn) = Inr (xs, Reader_at (pre @ xs) [] nn)"
  "r_take (Suc 0) (Reader_at pre (b # ys) nn) = Inr ([b], Reader_at (pre @ [b]) ys nn)"
  by (simp_all add: r_take_def Reader_at_def slice_def)

lemma r_u8_at [wire_simps]: "r_u8 (Reader_at pre (b # ys) nn) = Inr (b, Reader_at (pre @ [b]) ys nn)"
  by (simp add: r_u8_def wire_simps)

lemma r_u16_at [wire_simps]:
  "r_u16 (Reader_at pre (u16_to_be w @ ys) nn) = Inr (w, Reader_at (pre @ u16_to_be w) ys nn)"
  "r_u16 (Reader_at pre (u16_to_be w) nn) = Inr (w, Reader_at (pre @ u16_to_be w) [] nn)"
  by (simp_all add: r_u16_def wire_simps)

lemma r_u64_at [wire_simps]:
  "r_u64 (Reader_at pre (u64_to_be w @ ys) nn) = Inr (w, Reader_at (pre @ u64_to_be w) ys nn)"
  "r_u64 (Reader_at pre (u64_to_be w) nn) = Inr (w, Reader_at (pre @ u64_to_be w) [] nn)"
  by (simp_all add: r_u64_def wire_simps)

end
