(* ===== verification/Pacing.thy ===== *)
theory Pacing
  imports Wire
begin

text \<open>
  Traffic shaping (\<open>p2p-live/src/pacing.rs\<close>): how many frames a transfer emits and when. Counts
  are \<open>u64\<close>; \<open>self.jitter_frames + 1\<close> wraps as in a release build.
\<close>

datatype Ladder = PowerOfTwo | Multiple u64 | NoLadder

record Pacing =
  rate_bytes_per_sec :: "u64 option"
  ladder :: Ladder
  min_frames :: u64
  jitter_frames :: u64

definition Pacing_default :: Pacing where
  "Pacing_default = \<lparr>rate_bytes_per_sec = Some (4 * 1024 * 1024), ladder = PowerOfTwo, min_frames = 16, jitter_frames = 64\<rparr>"

definition Pacing_disabled :: Pacing where
  "Pacing_disabled = \<lparr>rate_bytes_per_sec = None, ladder = NoLadder, min_frames = 0, jitter_frames = 0\<rparr>"

definition at_rate :: "u64 \<Rightarrow> Pacing \<Rightarrow> Pacing" where
  "at_rate r p = p\<lparr>rate_bytes_per_sec := Some (max r 1)\<rparr>"

definition is_shaped :: "Pacing \<Rightarrow> bool" where
  "is_shaped p \<longleftrightarrow> rate_bytes_per_sec p \<noteq> None \<or> ladder p \<noteq> NoLadder \<or> min_frames p > 0 \<or> jitter_frames p > 0"

section \<open>Random numbers below a bound\<close>

text \<open>
  The rejection loop ends only when a draw falls into the zone; \<open>None\<close> is the run that never does.
\<close>

definition zone :: "u64 \<Rightarrow> u64" where
  "zone bound = 18446744073709551615 - 18446744073709551615 mod bound"

partial_function (option) random_loop :: "u64 \<Rightarrow> rng \<Rightarrow> (u64 \<times> rng) option" where
  "random_loop bound g =
     (if u64_from_be (fst (draw 8 g)) < zone bound
      then Some (u64_from_be (fst (draw 8 g)) mod bound, snd (draw 8 g))
      else random_loop bound (snd (draw 8 g)))"

definition random_below :: "u64 \<Rightarrow> rng \<Rightarrow> (u64 \<times> rng) option" where
  "random_below bound g = (if bound \<le> 1 then Some (0, g) else random_loop bound g)"

lemma random_loop_bound:
  assumes "random_loop bound g = Some y"
  shows "bound \<noteq> 0 \<longrightarrow> fst y < bound"
proof (rule random_loop.raw_induct [OF _ assms])
  fix f :: "u64 \<Rightarrow> rng \<Rightarrow> (u64 \<times> rng) option" and b g y
  assume ih: "\<And>b g y. f b g = Some y \<Longrightarrow> b \<noteq> 0 \<longrightarrow> fst y < b"
    and r: "(if u64_from_be (fst (draw 8 g)) < zone b
      then Some (u64_from_be (fst (draw 8 g)) mod b, snd (draw 8 g)) else f b (snd (draw 8 g))) = Some y"
  show "b \<noteq> 0 \<longrightarrow> fst y < b"
  proof
    assume "b \<noteq> 0"
    then have "unat (w mod b) < unat b" for w by (simp add: unat_mod_distrib unat_gt_0)
    with ih r \<open>b \<noteq> 0\<close> show "fst y < b" by (auto simp: word_less_nat_alt split: if_splits)
  qed
qed

lemma random_below_bound:
  assumes "random_below bound g = Some (v, g')"
  shows "v = 0 \<or> v < bound"
  using assms random_loop_bound [of bound g "(v, g')"]
  by (cases "bound \<le> 1") (auto simp: random_below_def)

text \<open>The loop returns as soon as the supply holds a value inside the zone.\<close>

definition nth_draw :: "nat \<Rightarrow> rng \<Rightarrow> u64" where
  "nth_draw n g = u64_from_be (fst (draw 8 (\<lambda>i. g (i + 8 * n))))"

lemma random_loop_total:
  assumes "nth_draw n g < zone bound"
  shows "\<exists>y. random_loop bound g = Some y"
  using assms
proof (induction n arbitrary: g)
  case 0
  then show ?case by (simp add: nth_draw_def random_loop.simps [of bound g])
next
  case (Suc n)
  have "snd (draw 8 g) = (\<lambda>i. g (i + 8))" by (simp add: draw_def)
  then have "nth_draw n (snd (draw 8 g)) = nth_draw (Suc n) g"
    by (simp add: nth_draw_def algebra_simps)
  with Suc have "\<exists>y. random_loop bound (snd (draw 8 g)) = Some y" by simp
  then show ?case by (subst random_loop.simps) simp
qed

section \<open>How many frames\<close>

fun next_power_of_two :: "nat \<Rightarrow> nat" where
  "next_power_of_two n = (if n \<le> 1 then 1 else 2 * next_power_of_two ((n + 1) div 2))"

declare next_power_of_two.simps [simp del]

definition checked_next_power_of_two :: "u64 \<Rightarrow> u64 option" where
  "checked_next_power_of_two w =
     (let n = next_power_of_two (unat w) in if n < 2 ^ 64 then Some (word_of_nat n) else None)"

definition checked_mul :: "u64 \<Rightarrow> u64 \<Rightarrow> u64 option" where
  "checked_mul a b = (if unat a * unat b < 2 ^ 64 then Some (a * b) else None)"

definition div_ceil :: "u64 \<Rightarrow> u64 \<Rightarrow> u64" where
  "div_ceil a b = (if a mod b = 0 then a div b else a div b + 1)"

definition quantise :: "Ladder \<Rightarrow> u64 \<Rightarrow> u64" where
  "quantise l real_frames =
     (case l of
        PowerOfTwo \<Rightarrow> (case checked_next_power_of_two real_frames of Some q \<Rightarrow> q | None \<Rightarrow> real_frames)
      | Multiple n \<Rightarrow>
          if n > 0 then (case checked_mul (div_ceil real_frames n) n of Some q \<Rightarrow> q | None \<Rightarrow> real_frames)
          else real_frames
      | NoLadder \<Rightarrow> real_frames)"

definition plan :: "Pacing \<Rightarrow> u64 \<Rightarrow> rng \<Rightarrow> (u64 \<times> rng) option" where
  "plan p real_frames g =
     (let floored = max (quantise (ladder p) real_frames) (min_frames p)
      in map_option (\<lambda>(jitter, g'). (max (saturating_add floored jitter) real_frames, g'))
           (if jitter_frames p > 0 then random_below (jitter_frames p + 1) g else Some (0, g)))"

lemma next_power_of_two_bounds: "n \<le> next_power_of_two n \<and> (1 < n \<longrightarrow> next_power_of_two n < 2 * n)"
proof (induction n rule: next_power_of_two.induct)
  case (1 n)
  show ?case
  proof (cases "n \<le> 1")
    case True
    then show ?thesis by (simp add: next_power_of_two.simps [of n])
  next
    case False
    let ?h = "(n + 1) div 2"
    have ih: "?h \<le> next_power_of_two ?h" "1 < ?h \<longrightarrow> next_power_of_two ?h < 2 * ?h" using 1 False by simp_all
    have e: "next_power_of_two n = 2 * next_power_of_two ?h" using False by (simp add: next_power_of_two.simps [of n])
    have lo: "n \<le> 2 * ?h" by simp
    have up: "next_power_of_two ?h < n"
    proof (cases "?h \<le> 1")
      case True
      then have "next_power_of_two ?h = 1" by (subst next_power_of_two.simps) simp
      with False show ?thesis by simp
    next
      case h: False
      show ?thesis
      proof (cases "even n")
        case True
        then have "2 * ?h = n" by auto
        with ih(2) h show ?thesis by simp
      next
        case odd: False
        then have n2: "2 * ?h = n + 1" by (simp add: odd_two_times_div_two_succ)
        have "even (next_power_of_two ?h)" using h by (subst next_power_of_two.simps) simp
        with ih(2) h n2 odd show ?thesis by (metis Suc_eq_plus1 less_Suc_eq not_le not_less)
      qed
    qed
    from e ih(1) lo up show ?thesis by simp
  qed
qed

lemma next_power_of_two_pow: "\<exists>k. next_power_of_two n = 2 ^ k"
proof (induction n rule: next_power_of_two.induct)
  case (1 n)
  show ?case
  proof (cases "n \<le> 1")
    case True
    then show ?thesis by (intro exI [of _ 0]) (simp add: next_power_of_two.simps [of n])
  next
    case False
    with 1 obtain k where "next_power_of_two ((n + 1) div 2) = 2 ^ k" by blast
    with False show ?thesis by (intro exI [of _ "Suc k"]) (simp add: next_power_of_two.simps [of n])
  qed
qed

lemma unat_div_ceil:
  assumes "b \<noteq> 0"
  shows "unat a \<le> unat (div_ceil a b) * unat b" "unat (div_ceil a b) * unat b < unat a + unat b"
proof -
  have b: "0 < unat b" using assms by (simp add: unat_gt_0)
  have m: "unat (a mod b) = unat a mod unat b" "unat (a div b) = unat a div unat b"
    by (simp_all add: unat_mod_distrib unat_div_distrib)
  have z: "a mod b = 0 \<longleftrightarrow> unat a mod unat b = 0" using m(1) by (metis unat_eq_zero)
  have dm: "unat a = unat a div unat b * unat b + unat a mod unat b" by simp
  have lt: "unat a mod unat b < unat b" using b by simp
  show "unat a \<le> unat (div_ceil a b) * unat b" "unat (div_ceil a b) * unat b < unat a + unat b"
  proof (atomize (full), cases "a mod b = 0")
    case True
    then have "unat (div_ceil a b) = unat a div unat b" "unat a mod unat b = 0" using m z by (simp_all add: div_ceil_def)
    then show "unat a \<le> unat (div_ceil a b) * unat b \<and> unat (div_ceil a b) * unat b < unat a + unat b"
      using dm b by (metis add_0_right less_add_same_cancel1 order_refl)
  next
    case False
    then have pos: "0 < unat a mod unat b" using z by simp
    then have "unat b \<noteq> 1" by auto
    with b have "2 \<le> unat b" by linarith
    then have "unat a div unat b \<le> unat a div 2" by (intro div_le_mono2) simp_all
    also have "\<dots> < 2 ^ 63" using unat_bound [of a] by simp
    finally have "unat (a div b + 1) = unat a div unat b + 1" using m(2) by (simp add: unat_word_ariths)
    then have u: "unat (div_ceil a b) * unat b = unat a div unat b * unat b + unat b"
      using False by (simp add: div_ceil_def)
    from u dm lt pos show "unat a \<le> unat (div_ceil a b) * unat b \<and> unat (div_ceil a b) * unat b < unat a + unat b"
      by linarith
  qed
qed

text \<open>Quantising only ever adds cover, less than the payload itself on the power-of-two ladder.\<close>

lemma quantise_ge: "r \<le> quantise l r"
proof (cases l)
  case PowerOfTwo
  then show ?thesis
    using next_power_of_two_bounds [of "unat r"]
    by (auto simp: quantise_def checked_next_power_of_two_def Let_def word_le_nat_alt split: option.splits if_splits)
next
  case (Multiple n)
  show ?thesis
  proof (cases "n > 0 \<and> unat (div_ceil r n) * unat n < 2 ^ 64")
    case True
    then have "unat (div_ceil r n * n) = unat (div_ceil r n) * unat n" by (simp add: unat_word_ariths)
    with True unat_div_ceil(1) [of n r] Multiple show ?thesis
      by (auto simp: quantise_def checked_mul_def word_le_nat_alt)
  next
    case False
    with Multiple show ?thesis by (auto simp: quantise_def checked_mul_def)
  qed
next
  case NoLadder
  then show ?thesis by (simp add: quantise_def)
qed

lemma quantise_pow2:
  assumes "unat r \<le> 2 ^ 63"
  shows "unat (quantise PowerOfTwo r) = next_power_of_two (unat r)"
proof -
  have "next_power_of_two (unat r) < 2 ^ 64"
  proof (cases "unat r \<le> 1")
    case True
    then show ?thesis by (simp add: next_power_of_two.simps [of "unat r"])
  next
    case False
    with next_power_of_two_bounds [of "unat r"] assms show ?thesis by auto
  qed
  then show ?thesis by (simp add: quantise_def checked_next_power_of_two_def Let_def)
qed

lemma plan_ge:
  assumes "plan p r g = Some (t, g')"
  shows "r \<le> t"
  using assms by (auto simp: plan_def Let_def)

lemma plan_total:
  assumes "nth_draw n g < zone (jitter_frames p + 1)"
  shows "\<exists>y. plan p r g = Some y"
  using random_loop_total [OF assms]
  by (auto simp: plan_def Let_def random_below_def)

lemma saturating_add_ge: "f \<le> saturating_add f j" for f j :: u64
  using unat_bound [of f] by (simp add: word_le_nat_alt unat_saturating_add)

text \<open>The final \<open>max\<close> of \<open>plan\<close> never acts: cover is already at least the real count.\<close>

lemma plan_alt:
  "plan p r g =
     map_option (\<lambda>(jitter, g'). (saturating_add (max (quantise (ladder p) r) (min_frames p)) jitter, g'))
       (if jitter_frames p > 0 then random_below (jitter_frames p + 1) g else Some (0, g))"
proof -
  have "max (saturating_add (max (quantise (ladder p) r) (min_frames p)) j) r =
      saturating_add (max (quantise (ladder p) r) (min_frames p)) j" for j
    by (rule max_absorb1) (meson max.cobounded1 order_trans quantise_ge saturating_add_ge)
  then show ?thesis by (simp add: plan_def Let_def)
qed

lemma jitter_bound:
  assumes "(if n > 0 then random_below (n + 1) g else Some (0, g)) = Some (j, g')" "n \<noteq> 18446744073709551615"
  shows "unat j \<le> unat n"
proof (cases "n > 0")
  case True
  have "n + 1 \<noteq> 0"
  proof
    assume "n + 1 = 0"
    then have "n = - 1" by (simp add: eq_neg_iff_add_eq_0)
    with assms(2) show False by simp
  qed
  then have s: "unat (n + 1) = unat n + 1" by (metis Suc_eq_plus1 add.commute unatSuc)
  from True assms(1) have "j = 0 \<or> j < n + 1" by (auto dest: random_below_bound)
  with s show ?thesis by (auto simp: word_less_nat_alt)
qed (use assms(1) in simp)

text \<open>The emitted count lies between the quantised count and that plus the jitter.\<close>

lemma plan_range:
  assumes "plan p r g = Some (t, g')" "jitter_frames p \<noteq> 18446744073709551615"
  shows "max (unat (quantise (ladder p) r)) (unat (min_frames p)) \<le> unat t"
    and "unat t \<le> max (unat (quantise (ladder p) r)) (unat (min_frames p)) + unat (jitter_frames p)"
proof -
  define f where "f = max (quantise (ladder p) r) (min_frames p)"
  have f: "unat f = max (unat (quantise (ladder p) r)) (unat (min_frames p))"
    by (simp add: f_def max_def word_le_nat_alt)
  from assms(1) obtain j where j: "t = saturating_add f j"
    and jd: "(if jitter_frames p > 0 then random_below (jitter_frames p + 1) g else Some (0, g)) = Some (j, g')"
    unfolding plan_alt f_def [symmetric] by (auto simp del: if_splits)
  have u: "unat f \<le> unat t" using saturating_add_ge [of f j] j by (simp add: word_le_nat_alt)
  then show "max (unat (quantise (ladder p) r)) (unat (min_frames p)) \<le> unat t" by (simp only: f)
  have "unat t \<le> unat f + unat (jitter_frames p)"
    using jitter_bound [OF jd assms(2)] j by (simp add: unat_saturating_add)
  then show "unat t \<le> max (unat (quantise (ladder p) r)) (unat (min_frames p)) + unat (jitter_frames p)" by (simp only: f)
qed

text \<open>Payloads on the same rung of the ladder are planned alike.\<close>

lemma plan_same_rung:
  assumes "quantise (ladder p) r = quantise (ladder p) r'"
  shows "plan p r g = plan p r' g"
  unfolding plan_alt assms ..

section \<open>When\<close>

record Pacer =
  interval :: "nat option"
  next_slot :: nat

definition pacer :: "Pacing \<Rightarrow> nat \<Rightarrow> nat \<Rightarrow> Pacer" where
  "pacer p frame_len now =
     \<lparr>interval = map_option (\<lambda>rate. min (min (frame_len * 1000000000) (2 ^ 128 - 1) div unat rate) (2 ^ 64 - 1))
                  (rate_bytes_per_sec p),
      next_slot = now\<rparr>"

text \<open>\<open>tick\<close> called at \<open>now\<close>: the time at which it returns, and the pacer it leaves.\<close>

definition tick :: "Pacer \<Rightarrow> nat \<Rightarrow> nat \<times> Pacer" where
  "tick p now =
     (case interval p of
        None \<Rightarrow> (now, p)
      | Some i \<Rightarrow>
          if next_slot p > now then (next_slot p, p\<lparr>next_slot := next_slot p + i\<rparr>)
          else (now, p\<lparr>next_slot := now + i\<rparr>))"

text \<open>The emission times of a sender that asks for its slots at the given delays.\<close>

fun emissions :: "Pacer \<Rightarrow> nat \<Rightarrow> nat list \<Rightarrow> nat list" where
  "emissions p now [] = []"
| "emissions p now (d # ds) = (let (t, p') = tick p (now + d) in t # emissions p' t ds)"

lemma tick_slot:
  assumes "tick p now = (t, p')" "interval p = Some i"
  shows "next_slot p \<le> t" "now \<le> t" "next_slot p' = t + i" "interval p' = Some i"
  using assms by (auto simp: tick_def split: if_splits)

lemma emissions_from:
  assumes "interval p = Some i"
  shows "\<forall>t \<in> set (emissions p now ds). next_slot p \<le> t"
  using assms
proof (induction ds arbitrary: p now)
  case (Cons d ds)
  obtain t p' where t: "tick p (now + d) = (t, p')" by fastforce
  note s = tick_slot [OF t Cons.prems]
  from Cons.IH [OF s(4), of t] s(1,3) t show ?case by (auto simp: le_trans)
qed simp

lemma emissions_spaced:
  assumes "interval p = Some i"
  shows "sorted_wrt (\<lambda>a b. a + i \<le> b) (emissions p now ds)"
  using assms
proof (induction ds arbitrary: p now)
  case (Cons d ds)
  obtain t p' where t: "tick p (now + d) = (t, p')" by fastforce
  note s = tick_slot [OF t Cons.prems]
  from Cons.IH [OF s(4), of t] emissions_from [OF s(4), of t ds] s(3) t show ?case by simp
qed simp

end
