(* ===== verification/Framing.thy ===== *)
theory Framing
  imports Wire
begin

text \<open>
  Length-prefixed framing (\<open>p2p-live/src/framing.rs\<close>). A stream is the bytes the peer delivers
  before it closes its side; the read loops assemble them whatever the sizes of the single reads.
\<close>

definition MAX_FRAME_LEN :: nat where "MAX_FRAME_LEN = 16 * 1024 * 1024"

definition write_frame :: "bytes \<Rightarrow> bytes \<Rightarrow> Error + bytes \<times> nat" where
  "write_frame w msg =
     (if MAX_FRAME_LEN < length msg then Inl (ESession ''outbound frame too large'')
      else Inr (w @ u32_to_be (word_of_nat (length msg)) @ msg, 4 + length msg))"

definition read_frame_opt :: "bytes \<Rightarrow> Error + bytes option \<times> bytes" where
  "read_frame_opt stream =
     (if stream = [] then Inr (None, [])
      else if length stream < 4 then Inl (ESession ''stream ended part-way through a length prefix'')
      else let len = unat (u32_from_be (take 4 stream)); rest = drop 4 stream in
        if MAX_FRAME_LEN < len then Inl (ESession ''inbound frame too large'')
        else if length rest < len then Inl (ESession ''read payload'')
        else Inr (Some (take len rest), drop len rest))"

text \<open>Reading frames until the stream ends, the loop every user of the transport runs.\<close>

function read_frames :: "bytes \<Rightarrow> bytes list \<times> (Error + unit)" where
  "read_frames stream =
     (case read_frame_opt stream of
        Inl e \<Rightarrow> ([], Inl e)
      | Inr (None, _) \<Rightarrow> ([], Inr ())
      | Inr (Some msg, rest) \<Rightarrow> let (ms, r) = read_frames rest in (msg # ms, r))"
  by pat_completeness auto
termination
proof (relation "measure length")
  fix stream msg_rest mo rest msg
  assume "read_frame_opt stream = Inr msg_rest" "(mo, rest) = msg_rest" "mo = Some msg"
  then show "(rest, stream) \<in> measure length"
    by (auto simp: read_frame_opt_def Let_def split: if_splits)
qed simp

declare read_frames.simps [simp del]

definition frame_bytes :: "bytes \<Rightarrow> bytes" where
  "frame_bytes msg = u32_to_be (word_of_nat (length msg)) @ msg"

lemma u32_to_be_ne [simp]: "u32_to_be w \<noteq> []"
  using int_codec_lengths(2) [of w] by (metis length_greater_0_conv zero_less_numeral)

lemma read_frame:
  assumes "length msg \<le> MAX_FRAME_LEN"
  shows "read_frame_opt (frame_bytes msg @ rest) = Inr (Some msg, rest)"
proof -
  have "unat (word_of_nat (length msg) :: u32) = length msg"
    using assms by (simp add: MAX_FRAME_LEN_def)
  then show ?thesis using assms by (simp add: read_frame_opt_def frame_bytes_def Let_def)
qed

lemma read_frames_nil [simp]: "read_frames [] = ([], Inr ())"
  by (simp add: read_frames.simps [of "[]"] read_frame_opt_def)

lemma read_frames_append:
  assumes "\<forall>m \<in> set ms. length m \<le> MAX_FRAME_LEN"
  shows "read_frames (concat (map frame_bytes ms) @ t) = (ms @ fst (read_frames t), snd (read_frames t))"
  using assms
proof (induction ms)
  case (Cons m ms)
  then show ?case
    by (simp add: read_frames.simps [of "frame_bytes m @ concat (map frame_bytes ms) @ t"] read_frame case_prod_beta)
qed simp

lemma read_frame_truncated:
  assumes "length m \<le> MAX_FRAME_LEN" "0 < k" "k < length (frame_bytes m)"
  shows "\<exists>e. read_frame_opt (take k (frame_bytes m)) = Inl e"
proof (cases "k < 4")
  case True
  with assms show ?thesis by (auto simp: read_frame_opt_def frame_bytes_def)
next
  case False
  let ?l = "u32_to_be (word_of_nat (length m))"
  have t: "take k (frame_bytes m) = ?l @ take (k - 4) m" using False by (simp add: frame_bytes_def)
  have "unat (word_of_nat (length m) :: u32) = length m" using assms(1) by (simp add: MAX_FRAME_LEN_def)
  moreover have "k - 4 < length m" using assms False by (simp add: frame_bytes_def)
  ultimately show ?thesis using assms(1) unfolding t by (simp add: read_frame_opt_def Let_def)
qed

text \<open>A stream cut anywhere but between two frames is reported as an error, never as a tidy end.\<close>

lemma truncation_detected:
  assumes "\<forall>m \<in> set ms. length m \<le> MAX_FRAME_LEN" "length m \<le> MAX_FRAME_LEN"
    "0 < k" "k < length (frame_bytes m)"
  shows "\<exists>e. read_frames (concat (map frame_bytes ms) @ take k (frame_bytes m)) = (ms, Inl e)"
proof -
  obtain e where "read_frame_opt (take k (frame_bytes m)) = Inl e"
    using read_frame_truncated [OF assms(2-4)] by blast
  then have "read_frames (take k (frame_bytes m)) = ([], Inl e)" by (simp add: read_frames.simps [of "take k (frame_bytes m)"])
  with read_frames_append [OF assms(1)] show ?thesis by simp
qed

end
