(* ===== verification/Identity.thy ===== *)
theory Identity
  imports Wire
begin

text \<open>
  Identities of \<open>p2p-live\<close>: the raw public key of \<open>identity.rs\<close> and the hybrid bundle of
  \<open>bundle.rs\<close> with its public and secret encodings, its identifier and its signatures. BLAKE3,
  base32 and the signature schemes are third-party code, the fields of \<open>key_lib\<close>.
\<close>

record key_lib =
  blake3 :: "bytes \<Rightarrow> bytes"
  b32_encode :: "bytes \<Rightarrow> string"
  b32_decode :: "string \<Rightarrow> bytes option"
  ed_public :: "bytes \<Rightarrow> bytes option"
  pq_public_of :: "bytes \<Rightarrow> bytes option"
  pq_sign :: "bytes \<Rightarrow> bytes \<Rightarrow> bytes option"
  pq_verify :: "bytes \<Rightarrow> bytes \<Rightarrow> bytes \<Rightarrow> bool"

text \<open>\<open>BASE32_NOPAD\<close>: the upper-case RFC 4648 alphabet, decoding exactly the encodings.\<close>

definition b32_char :: "char \<Rightarrow> bool" where
  "b32_char c = (let n = of_char c :: nat in (65 \<le> n \<and> n \<le> 90) \<or> (50 \<le> n \<and> n \<le> 55))"

definition b32_ok :: "key_lib \<Rightarrow> bool" where
  "b32_ok K \<longleftrightarrow>
     (\<forall>bs. b32_decode K (b32_encode K bs) = Some bs \<and> list_all b32_char (b32_encode K bs)) \<and>
     (\<forall>s bs. b32_decode K s = Some bs \<longrightarrow> b32_encode K bs = s)"

definition blake3_ok :: "key_lib \<Rightarrow> bool" where
  "blake3_ok K \<longleftrightarrow> (\<forall>bs. length (blake3 K bs) = 32)"

section \<open>Public bundles\<close>

definition BUNDLE_VERSION :: byte where "BUNDLE_VERSION = 1"
definition SECRET_VERSION :: byte where "SECRET_VERSION = 1"
definition ML_DSA_65_PUBLIC_KEY_LEN :: nat where "ML_DSA_65_PUBLIC_KEY_LEN = 1952"
definition BUNDLE_ID_DOMAIN :: bytes where "BUNDLE_ID_DOMAIN = str_bytes ''atom-live-identity-bundle-v1''"

record IdentityBundle =
  classical :: bytes
  pq :: "bytes option"

definition PqPublicKey_from_bytes :: "bytes \<Rightarrow> Error + bytes" where
  "PqPublicKey_from_bytes bs =
     (if length bs \<noteq> ML_DSA_65_PUBLIC_KEY_LEN then Inl (EIdentity ''ML-DSA-65 public key has the wrong length'')
      else Inr bs)"

definition is_hybrid :: "IdentityBundle \<Rightarrow> bool" where
  "is_hybrid b \<longleftrightarrow> pq b \<noteq> None"

definition bundle_to_bytes :: "IdentityBundle \<Rightarrow> bytes" where
  "bundle_to_bytes b =
     (let der = classical b; k = (case pq b of Some x \<Rightarrow> x | None \<Rightarrow> [])
      in BUNDLE_VERSION # u16_to_be (word_of_nat (length der)) @ der @ u16_to_be (word_of_nat (length k)) @ k)"

text \<open>The local closure \<open>take\<close> of the bundle decoders: the cursor of \<open>Reader\<close> with its own error.\<close>

definition bundle_take :: "string \<Rightarrow> nat \<Rightarrow> Reader \<Rightarrow> Error + bytes \<times> Reader" where
  "bundle_take msg n r = map_err (\<lambda>_. EIdentity msg) (r_take n r)"

definition bundle_pq_part :: "nat \<Rightarrow> Reader \<Rightarrow> Error + bytes option \<times> Reader" where
  "bundle_pq_part pq_len r =
     (if pq_len = 0 then Inr (None, r)
      else bindE (bundle_take ''identity bundle is truncated'' pq_len r) (\<lambda>(k, r').
           bindE (PqPublicKey_from_bytes k) (\<lambda>k. Inr (Some k, r'))))"

definition bundle_from_bytes :: "bytes \<Rightarrow> Error + IdentityBundle" where
  "bundle_from_bytes bs =
     (let tk = bundle_take ''identity bundle is truncated'' in
      bindE (tk 1 (Reader_new bs)) (\<lambda>(v, r1).
      bindE (guardE (v ! 0 = BUNDLE_VERSION) (EIdentity ''identity bundle version'')) (\<lambda>_.
      bindE (tk 2 r1) (\<lambda>(l, r2).
      let classical_len = unat (u16_from_be l) in
      bindE (guardE (classical_len \<noteq> 0) (EIdentity ''identity bundle has no classical key'')) (\<lambda>_.
      bindE (tk classical_len r2) (\<lambda>(c, r3).
      bindE (tk 2 r3) (\<lambda>(l', r4).
      let pq_len = unat (u16_from_be l') in
      bindE (bundle_pq_part pq_len r4) (\<lambda>(k, r6).
      bindE (guardE (r_is_empty r6) (EIdentity ''trailing bytes after identity bundle'')) (\<lambda>_.
        Inr \<lparr>classical = c, pq = k\<rparr>)))))))))"

definition bundle_ok :: "IdentityBundle \<Rightarrow> bool" where
  "bundle_ok b \<longleftrightarrow> 0 < length (classical b) \<and> length (classical b) < 2 ^ 16 \<and>
     (case pq b of None \<Rightarrow> True | Some k \<Rightarrow> length k = ML_DSA_65_PUBLIC_KEY_LEN)"

lemma bundle_take_at [wire_simps]:
  "n = length xs \<Longrightarrow> bundle_take msg n (Reader_at pre (xs @ ys) nn) = Inr (xs, Reader_at (pre @ xs) ys nn)"
  "n = length xs \<Longrightarrow> bundle_take msg n (Reader_at pre xs nn) = Inr (xs, Reader_at (pre @ xs) [] nn)"
  "bundle_take msg (Suc 0) (Reader_at pre (b # ys) nn) = Inr ([b], Reader_at (pre @ [b]) ys nn)"
  by (simp_all add: bundle_take_def wire_simps)

lemma bundle_take_split:
  assumes "bundle_take msg n r = Inr (xs, r')" "rest_is r zs"
  shows "\<exists>ys. zs = xs @ ys \<and> length xs = n \<and> r' = advance n r \<and> rest_is r' ys"
  using assms r_take_split by (auto simp: bundle_take_def result_simps)

lemma bundle_roundtrip:
  assumes "bundle_ok b"
  shows "bundle_from_bytes (bundle_to_bytes b) = Inr b"
  using assms
  by (cases "pq b")
    (simp_all add: bundle_from_bytes_def bundle_pq_part_def bundle_to_bytes_def Let_def Reader_new_at wire_simps
      bundle_ok_def PqPublicKey_from_bytes_def ML_DSA_65_PUBLIC_KEY_LEN_def)

text \<open>The encoding is canonical: the only input that decodes to a bundle is its encoding.\<close>

lemma bundle_canonical:
  assumes "bundle_from_bytes bs = Inr b"
  shows "bundle_ok b" "bundle_to_bytes b = bs"
proof -
  let ?tk = "bundle_take ''identity bundle is truncated''"
  from assms obtain v r1 l r2 c r3 l' r4 k r6 where s:
    "?tk 1 (Reader_new bs) = Inr (v, r1)" "v ! 0 = BUNDLE_VERSION" "?tk 2 r1 = Inr (l, r2)"
    "unat (u16_from_be l) \<noteq> 0" "?tk (unat (u16_from_be l)) r2 = Inr (c, r3)" "?tk 2 r3 = Inr (l', r4)"
    and p: "bundle_pq_part (unat (u16_from_be l')) r4 = Inr (k, r6)"
    and e: "r_is_empty r6" "b = \<lparr>classical = c, pq = k\<rparr>"
    by (auto simp: bundle_from_bytes_def Let_def result_simps)
  from bundle_take_split [OF s(1)] obtain y1 where 1: "bs = v @ y1" "length v = 1" "rest_is r1 y1"
    by (metis rest_is_new(2))
  from bundle_take_split [OF s(3) 1(3)] obtain y2 where 2: "y1 = l @ y2" "length l = 2" "rest_is r2 y2" by blast
  from bundle_take_split [OF s(5) 2(3)] obtain y3 where 3: "y2 = c @ y3" "length c = unat (u16_from_be l)" "rest_is r3 y3" by blast
  from bundle_take_split [OF s(6) 3(3)] obtain y4 where 4: "y3 = l' @ y4" "length l' = 2" "rest_is r4 y4" by blast
  have v: "v = [BUNDLE_VERSION]" using 1(2) s(2) by (cases v) auto
  have l: "u16_to_be (word_of_nat (length c)) = l" using 2(2) 3(2) by (simp add: u16_to_be_from_be)
  have c: "0 < length c" "length c < 2 ^ 16" using 3(2) s(4) unat_bound [of "u16_from_be l"] by simp_all
  have k: "(case k of None \<Rightarrow> True | Some x \<Rightarrow> length x = ML_DSA_65_PUBLIC_KEY_LEN) \<and>
      l' @ y4 = (let x = (case k of Some x \<Rightarrow> x | None \<Rightarrow> []) in u16_to_be (word_of_nat (length x)) @ x)"
  proof (cases "unat (u16_from_be l') = 0")
    case True
    with p e(1) 4(3) have "k = None" "y4 = []" by (auto simp: bundle_pq_part_def rest_is_empty)
    moreover have "u16_from_be l' = 0" using True by (simp add: unat_eq_0)
    then have "u16_to_be 0 = l'" using u16_to_be_from_be [OF 4(2)] by simp
    ultimately show ?thesis by simp
  next
    case False
    with p obtain x where x: "?tk (unat (u16_from_be l')) r4 = Inr (x, r6)" "k = Some x"
      "length x = ML_DSA_65_PUBLIC_KEY_LEN"
      by (auto simp: bundle_pq_part_def result_simps PqPublicKey_from_bytes_def split: if_splits)
    from bundle_take_split [OF x(1) 4(3)] obtain y5 where y: "y4 = x @ y5" "length x = unat (u16_from_be l')" "rest_is r6 y5" by blast
    then have "u16_to_be (word_of_nat (length x)) = l'" using 4(2) by (simp add: u16_to_be_from_be)
    with e(1) x(2,3) y(1,3) show ?thesis by (simp add: rest_is_empty)
  qed
  show "bundle_ok b" using c k e(2) by (auto simp: bundle_ok_def)
  show "bundle_to_bytes b = bs"
    using 1(1) 2(1) 3(1) 4(1) v l k e(2) by (simp add: bundle_to_bytes_def Let_def)
qed

section \<open>Identifiers\<close>

definition bundle_id :: "key_lib \<Rightarrow> IdentityBundle \<Rightarrow> bytes" where
  "bundle_id K b = blake3 K (BUNDLE_ID_DOMAIN @ bundle_to_bytes b)"

definition id_to_base32 :: "key_lib \<Rightarrow> bytes \<Rightarrow> string" where
  "id_to_base32 K i = to_lowercase (b32_encode K i)"

definition id_from_base32 :: "key_lib \<Rightarrow> string \<Rightarrow> Error + bytes" where
  "id_from_base32 K s =
     bindE (ok_or (EIdentity ''bundle id is not valid base32'') (b32_decode K (to_uppercase (trim s)))) (\<lambda>raw.
     bindE (guardE (length raw = 32) (EIdentity ''bundle id must be 32 bytes'')) (\<lambda>_. Inr raw))"

definition hex_lower :: "byte \<Rightarrow> string" where
  "hex_lower b =
     (let d = (\<lambda>n. char_of (if n < 10 then 48 + n else 87 + n) :: char) in [d (unat b div 16), d (unat b mod 16)])"

definition id_fingerprint :: "bytes \<Rightarrow> string" where
  "id_fingerprint i = concat (map hex_lower (take 8 i))"

definition key_fingerprint :: "key_lib \<Rightarrow> bytes \<Rightarrow> string" where
  "key_fingerprint K der = concat (map hex_lower (take 8 (blake3 K der)))"

lemma b32_upper_lower:
  assumes "list_all b32_char s"
  shows "to_uppercase (to_lowercase s) = s"
proof -
  have "to_upper (to_lower c) = c" if "b32_char c" for c
    using that by (auto simp: b32_char_def to_upper_def to_lower_def Let_def)
  with assms show ?thesis by (induction s) (simp_all add: to_uppercase_def to_lowercase_def)
qed

lemma b32_lower_nonspace: "list_all b32_char s \<Longrightarrow> c \<in> set (to_lowercase s) \<Longrightarrow> \<not> is_whitespace c"
  by (auto simp: to_lowercase_def list_all_iff b32_char_def to_lower_def is_whitespace_def Let_def)

lemma trim_nonspace: "(\<And>c. c \<in> set s \<Longrightarrow> \<not> is_whitespace c) \<Longrightarrow> trim s = s"
  by (cases "s = []") (simp add: trim_def, simp add: trim_id)

lemma id_base32_roundtrip:
  assumes "b32_ok K" "length i = 32"
  shows "id_from_base32 K (id_to_base32 K i) = Inr i"
proof -
  have e: "list_all b32_char (b32_encode K i)" "b32_decode K (b32_encode K i) = Some i"
    using assms(1) by (simp_all add: b32_ok_def)
  have "trim (id_to_base32 K i) = id_to_base32 K i"
    unfolding id_to_base32_def by (rule trim_nonspace) (rule b32_lower_nonspace [OF e(1)])
  with e assms(2) show ?thesis by (simp add: id_from_base32_def id_to_base32_def b32_upper_lower)
qed

lemma length_fingerprint: "8 \<le> length i \<Longrightarrow> length (id_fingerprint i) = 16"
proof -
  have "length (concat (map hex_lower xs)) = 2 * length xs" for xs
    by (induction xs) (simp_all add: hex_lower_def Let_def)
  then show "8 \<le> length i \<Longrightarrow> length (id_fingerprint i) = 16" by (simp add: id_fingerprint_def)
qed

section \<open>Private identities\<close>

record LocalIdentity =
  li_public :: bytes
  li_pkcs8 :: bytes

record LocalBundle =
  lb_classical :: LocalIdentity
  lb_pq_pkcs8 :: "bytes option"
  lb_pq_public :: "bytes option"

definition LocalIdentity_from_pkcs8 :: "key_lib \<Rightarrow> bytes \<Rightarrow> Error + LocalIdentity" where
  "LocalIdentity_from_pkcs8 K der =
     bindE (ok_or (EIdentity ''stored identity is not a valid Ed25519 key'') (ed_public K der)) (\<lambda>p.
       Inr \<lparr>li_public = p, li_pkcs8 = der\<rparr>)"

definition classical_only :: "LocalIdentity \<Rightarrow> LocalBundle" where
  "classical_only i = \<lparr>lb_classical = i, lb_pq_pkcs8 = None, lb_pq_public = None\<rparr>"

definition local_bundle :: "LocalBundle \<Rightarrow> IdentityBundle" where
  "local_bundle b = \<lparr>classical = li_public (lb_classical b), pq = lb_pq_public b\<rparr>"

definition to_secret_bytes :: "LocalBundle \<Rightarrow> bytes" where
  "to_secret_bytes b =
     (let ed = li_pkcs8 (lb_classical b); k = (case lb_pq_pkcs8 b of Some x \<Rightarrow> x | None \<Rightarrow> [])
      in SECRET_VERSION # u32_to_be (word_of_nat (length ed)) @ ed @ u32_to_be (word_of_nat (length k)) @ k)"

definition secret_pq_part :: "key_lib \<Rightarrow> nat \<Rightarrow> Reader \<Rightarrow> Error + (bytes option \<times> bytes option) \<times> Reader" where
  "secret_pq_part K pq_len r =
     (if pq_len = 0 then Inr ((None, None), r)
      else bindE (bundle_take ''stored identity is truncated'' pq_len r) (\<lambda>(der, r').
           bindE (ok_or (EIdentity ''stored ML-DSA key is not valid'') (pq_public_of K der)) (\<lambda>p.
           bindE (PqPublicKey_from_bytes p) (\<lambda>p. Inr ((Some der, Some p), r')))))"

definition from_secret_bytes :: "key_lib \<Rightarrow> bytes \<Rightarrow> Error + LocalBundle" where
  "from_secret_bytes K bs =
     (let tk = bundle_take ''stored identity is truncated'' in
      bindE (tk 1 (Reader_new bs)) (\<lambda>(v, r1).
      bindE (guardE (v ! 0 = SECRET_VERSION) (EIdentity ''stored identity version'')) (\<lambda>_.
      bindE (tk 4 r1) (\<lambda>(l, r2).
      bindE (tk (unat (u32_from_be l)) r2) (\<lambda>(ed, r3).
      bindE (LocalIdentity_from_pkcs8 K ed) (\<lambda>cl.
      bindE (tk 4 r3) (\<lambda>(l', r4).
      bindE (secret_pq_part K (unat (u32_from_be l')) r4) (\<lambda>((der, p), r6).
      bindE (guardE (r_is_empty r6) (EIdentity ''trailing bytes after stored identity'')) (\<lambda>_.
        Inr \<lparr>lb_classical = cl, lb_pq_pkcs8 = der, lb_pq_public = p\<rparr>)))))))))"

definition sign_pq :: "key_lib \<Rightarrow> LocalBundle \<Rightarrow> bytes \<Rightarrow> Error + bytes" where
  "sign_pq K b message =
     bindE (ok_or (EIdentity ''this identity has no post-quantum key'') (lb_pq_pkcs8 b)) (\<lambda>pkcs8.
       ok_or (EIdentity ''ML-DSA signing failed'') (pq_sign K pkcs8 message))"

definition pq_verify_sig :: "key_lib \<Rightarrow> bytes \<Rightarrow> bytes \<Rightarrow> bytes \<Rightarrow> Error + unit" where
  "pq_verify_sig K key message signature =
     guardE (pq_verify K key message signature) (EIdentity ''ML-DSA signature did not verify'')"

text \<open>A bundle whose public halves are the ones its private keys determine.\<close>

definition local_ok :: "key_lib \<Rightarrow> LocalBundle \<Rightarrow> bool" where
  "local_ok K b \<longleftrightarrow>
     ed_public K (li_pkcs8 (lb_classical b)) = Some (li_public (lb_classical b)) \<and>
     length (li_pkcs8 (lb_classical b)) < 2 ^ 32 \<and>
     (case lb_pq_pkcs8 b of
        None \<Rightarrow> lb_pq_public b = None
      | Some der \<Rightarrow> 0 < length der \<and> length der < 2 ^ 32 \<and> 
          (\<exists>p. pq_public_of K der = Some p \<and> lb_pq_public b = Some p \<and> length p = ML_DSA_65_PUBLIC_KEY_LEN))"

lemma secret_roundtrip:
  assumes "local_ok K b"
  shows "from_secret_bytes K (to_secret_bytes b) = Inr b"
  using assms
  by (cases "lb_pq_pkcs8 b")
    (auto simp: from_secret_bytes_def secret_pq_part_def to_secret_bytes_def Let_def Reader_new_at wire_simps
      local_ok_def PqPublicKey_from_bytes_def LocalIdentity_from_pkcs8_def)

lemma from_secret_local_ok:
  assumes "from_secret_bytes K bs = Inr b"
  shows "ed_public K (li_pkcs8 (lb_classical b)) = Some (li_public (lb_classical b)) \<and>
    (case lb_pq_pkcs8 b of None \<Rightarrow> lb_pq_public b = None
     | Some der \<Rightarrow> lb_pq_public b = pq_public_of K der \<and> lb_pq_public b \<noteq> None)"
  using assms
  by (auto simp: from_secret_bytes_def Let_def result_simps LocalIdentity_from_pkcs8_def secret_pq_part_def
      PqPublicKey_from_bytes_def split: if_splits)

end
