(* ===== verification/LiveTransfer.thy ===== *)
theory LiveTransfer
  imports Pacing Framing Identity
begin

text \<open>
  The resumable transfer (\<open>p2p-live/src/transfer.rs\<close>): the padded frames, the sender and the receiver.
  A BLAKE3 hasher is the bytes it has absorbed. Each call that can be cancelled or fail takes the
  outcome from its environment: the sender by the number of frames sent so far, the receiver with
  each frame it reads. The delays of the pacer are modelled in \<open>Pacing\<close>.
\<close>

definition DEFAULT_CHUNK_LEN :: nat where "DEFAULT_CHUNK_LEN = 2 ^ 20"
definition DEFAULT_CHECKPOINT_LEN :: nat where "DEFAULT_CHECKPOINT_LEN = 16 * DEFAULT_CHUNK_LEN"
definition FRAME_HEADER_LEN :: nat where "FRAME_HEADER_LEN = 5"
definition OFFER :: byte where "OFFER = 1"
definition RESUME :: byte where "RESUME = 2"
definition START :: byte where "START = 3"
definition DATA :: byte where "DATA = 4"
definition DONE :: byte where "DONE = 5"
definition ACK :: byte where "ACK = 6"
definition COVER :: byte where "COVER = 7"
definition FINISH :: byte where "FINISH = 8"

lemmas tag_defs = OFFER_def RESUME_def START_def DATA_def DONE_def ACK_def COVER_def FINISH_def

record Transfer =
  chunk_len :: nat
  checkpoint_len :: nat
  max_total_len :: "nat option"
  pacing :: Pacing

definition Transfer_new :: Transfer where
  "Transfer_new = \<lparr>chunk_len = DEFAULT_CHUNK_LEN, checkpoint_len = DEFAULT_CHECKPOINT_LEN,
     max_total_len = None, pacing = Pacing_default\<rparr>"

definition set_chunk_len :: "nat \<Rightarrow> Transfer \<Rightarrow> Transfer" where
  "set_chunk_len n t = t\<lparr>chunk_len := max 1 (min n (MAX_FRAME_LEN - FRAME_HEADER_LEN))\<rparr>"

definition set_checkpoint_len :: "nat \<Rightarrow> Transfer \<Rightarrow> Transfer" where
  "set_checkpoint_len n t = t\<lparr>checkpoint_len := max n 1\<rparr>"

definition set_pacing :: "Pacing \<Rightarrow> Transfer \<Rightarrow> Transfer" where
  "set_pacing p t = t\<lparr>pacing := p\<rparr>"

definition set_max_total_len :: "nat \<Rightarrow> Transfer \<Rightarrow> Transfer" where
  "set_max_total_len n t = t\<lparr>max_total_len := Some n\<rparr>"

definition transfer_ok :: "Transfer \<Rightarrow> bool" where
  "transfer_ok t \<longleftrightarrow> 1 \<le> chunk_len t \<and> chunk_len t + FRAME_HEADER_LEN \<le> MAX_FRAME_LEN \<and> 1 \<le> checkpoint_len t"

definition frame_len :: "Transfer \<Rightarrow> nat" where
  "frame_len t = chunk_len t + FRAME_HEADER_LEN"

lemma transfer_ok_builders:
  "transfer_ok Transfer_new" "transfer_ok t \<Longrightarrow> transfer_ok (set_chunk_len n t)"
  "transfer_ok t \<Longrightarrow> transfer_ok (set_checkpoint_len n t)" "transfer_ok t \<Longrightarrow> transfer_ok (set_pacing p t)"
  "transfer_ok t \<Longrightarrow> transfer_ok (set_max_total_len n t)"
  by (auto simp: transfer_ok_def Transfer_new_def set_chunk_len_def set_checkpoint_len_def set_pacing_def
      set_max_total_len_def DEFAULT_CHUNK_LEN_def DEFAULT_CHECKPOINT_LEN_def FRAME_HEADER_LEN_def MAX_FRAME_LEN_def)

section \<open>Frames\<close>

definition frame :: "byte \<Rightarrow> bytes \<Rightarrow> nat \<Rightarrow> bytes" where
  "frame tag content flen =
     (let v = tag # u32_to_be (word_of_nat (length content)) @ content in v @ replicate (flen - length v) 0)"

definition parse_frame :: "bytes \<Rightarrow> Error + byte \<times> bytes" where
  "parse_frame raw =
     bindE (guardE (FRAME_HEADER_LEN \<le> length raw) (ETransfer ''frame is too short to hold a header'')) (\<lambda>_.
     let len = unat (u32_from_be (slice 1 4 raw)) in
     bindE (guardE (FRAME_HEADER_LEN + len \<le> length raw) (ETransfer ''frame claims content bytes it lacks'')) (\<lambda>_.
       Inr (raw ! 0, slice FRAME_HEADER_LEN len raw)))"

definition fixed :: "bytes \<Rightarrow> nat \<Rightarrow> string \<Rightarrow> Error + unit" where
  "fixed content len what = guardE (length content = len) (ETransfer (''malformed '' @ what))"

definition decode_offer :: "bytes \<Rightarrow> Error + nat" where
  "decode_offer raw =
     bindE (parse_frame raw) (\<lambda>(tag, content).
     bindE (guardE (tag = OFFER) (ETransfer ''expected OFFER'')) (\<lambda>_.
     bindE (fixed content 8 ''OFFER'') (\<lambda>_. Inr (unat (u64_from_be content)))))"

definition decode_resume :: "bytes \<Rightarrow> Error + nat \<times> bytes" where
  "decode_resume content =
     bindE (fixed content 40 ''RESUME'') (\<lambda>_. Inr (unat (u64_from_be (take 8 content)), slice 8 32 content))"

definition decode_start :: "bytes \<Rightarrow> Error + nat" where
  "decode_start content = bindE (fixed content 8 ''START'') (\<lambda>_. Inr (unat (u64_from_be content)))"

definition decode_done :: "bytes \<Rightarrow> Error + bytes" where
  "decode_done content = bindE (fixed content 32 ''DONE'') (\<lambda>_. Inr content)"

definition expect_frame :: "Error + bytes \<Rightarrow> byte \<Rightarrow> Error + bytes" where
  "expect_frame received_frame want =
     bindE received_frame (\<lambda>raw.
     bindE (parse_frame raw) (\<lambda>(tag, content).
     bindE (guardE (tag = want) (ETransfer ''expected another frame tag'')) (\<lambda>_. Inr content)))"

lemma length_frame: "length (frame tag content n) = max n (5 + length content)"
  by (simp add: frame_def Let_def)

lemma parse_frame_frame:
  assumes "length content < 2 ^ 32"
  shows "parse_frame (frame tag content n) = Inr (tag, content)"
proof -
  let ?f = "frame tag content n"
  have s: "slice 1 4 ?f = u32_to_be (word_of_nat (length content))" "slice 5 (length content) ?f = content" "?f ! 0 = tag"
    by (simp_all add: frame_def Let_def slice_def)
  have l: "5 + length content \<le> length ?f" by (simp add: length_frame)
  show ?thesis using assms l by (simp add: parse_frame_def Let_def s s(1) [simplified] FRAME_HEADER_LEN_def)
qed

section \<open>The sender\<close>

record Summary =
  sum_total :: nat
  resumed_from :: nat
  sum_hash :: bytes
  cover_frames :: nat

record tx_env =
  cancelled_at :: "nat \<Rightarrow> bool"
  send_err :: "nat \<Rightarrow> Error option"

text \<open>
  Each loop returns the frames it sends, and the number of frames sent so far or the error that
  ends it. \<open>chunk_len\<close> is at least 1 in every \<open>Transfer\<close>.
\<close>

function data_loop :: "tx_env \<Rightarrow> nat \<Rightarrow> nat \<Rightarrow> bytes \<Rightarrow> nat \<Rightarrow> bytes list \<times> (Error + nat)" where
  "data_loop env cl fl todo n =
     (if todo = [] \<or> cl = 0 then ([], Inr n)
      else if cancelled_at env n then ([], Inl ECancelled)
      else case send_err env n of
        Some e \<Rightarrow> ([], Inl e)
      | None \<Rightarrow>
          let (fs, r) = data_loop env cl fl (drop cl todo) (Suc n)
          in (frame DATA (take cl todo) fl # fs, r))"
  by pat_completeness auto
termination by (relation "measure (\<lambda>(env, cl, fl, todo, n). length todo)") auto

declare data_loop.simps [simp del]

fun cover_loop :: "tx_env \<Rightarrow> nat \<Rightarrow> nat \<Rightarrow> nat \<Rightarrow> bytes list \<times> (Error + nat)" where
  "cover_loop env fl 0 n = ([], Inr n)"
| "cover_loop env fl (Suc k) n =
     (if cancelled_at env n then ([], Inr n)
      else case send_err env n of
        Some e \<Rightarrow> ([], Inl e)
      | None \<Rightarrow> let (fs, r) = cover_loop env fl k (Suc n) in (frame COVER [] fl # fs, r))"

definition send_one :: "tx_env \<Rightarrow> bytes \<Rightarrow> nat \<Rightarrow> bytes list \<times> (Error + nat)" where
  "send_one env f n = (case send_err env n of Some e \<Rightarrow> ([], Inl e) | None \<Rightarrow> ([f], Inr (Suc n)))"

definition then_send :: "bytes list \<times> (Error + 'a) \<Rightarrow> ('a \<Rightarrow> bytes list \<times> (Error + 'b)) \<Rightarrow> bytes list \<times> (Error + 'b)" where
  "then_send m f = (case snd m of Inl e \<Rightarrow> (fst m, Inl e) | Inr x \<Rightarrow> let (fs, r) = f x in (fst m @ fs, r))"

definition lift_result :: "Error + 'a \<Rightarrow> bytes list \<times> (Error + 'a)" where
  "lift_result r = ([], r)"

text \<open>Where to start: the receiver's partial counts only if its hash is that of our own prefix.\<close>

definition start_offset :: "key_lib \<Rightarrow> bytes \<Rightarrow> nat \<Rightarrow> bytes \<Rightarrow> nat" where
  "start_offset K payload have prefix_hash =
     (if 0 < have \<and> have \<le> length payload \<and> blake3 K (take have payload) = prefix_hash then have else 0)"

definition real_frames :: "Transfer \<Rightarrow> nat \<Rightarrow> nat \<Rightarrow> u64" where
  "real_frames t total_len offset = div_ceil (word_of_nat (total_len - offset)) (word_of_nat (chunk_len t))"

definition stream_payload ::
    "key_lib \<Rightarrow> Transfer \<Rightarrow> tx_env \<Rightarrow> bytes \<Rightarrow> nat \<Rightarrow> nat \<Rightarrow> Error + bytes \<Rightarrow> nat \<Rightarrow> bytes list \<times> (Error + Summary)" where
  "stream_payload K t env payload offset planned ack n0 =
     (let fl = frame_len t; hash = blake3 K payload in
      then_send (data_loop env (chunk_len t) fl (drop offset payload) n0) (\<lambda>n1.
      then_send (send_one env (frame DONE hash fl) n1) (\<lambda>n2.
      then_send (cover_loop env fl (planned - (n1 - n0)) n2) (\<lambda>n3.
      then_send (send_one env (frame FINISH [] fl) n3) (\<lambda>n4.
      then_send (lift_result (expect_frame ack ACK)) (\<lambda>_.
        lift_result (Inr \<lparr>sum_total = length payload, resumed_from = offset, sum_hash = hash, cover_frames = n3 - n2\<rparr>)))))))"

definition send_head ::
    "key_lib \<Rightarrow> Transfer \<Rightarrow> tx_env \<Rightarrow> bytes \<Rightarrow> Error + bytes \<Rightarrow> bytes list \<times> (Error + nat)" where
  "send_head K t env payload resume =
     (let fl = frame_len t in
      then_send (send_one env (frame OFFER (u64_to_be (word_of_nat (length payload))) fl) 0) (\<lambda>_.
      then_send (lift_result (bindE (expect_frame resume RESUME) decode_resume)) (\<lambda>(have, prefix_hash).
      let offset = start_offset K payload have prefix_hash in
      then_send (send_one env (frame START (u64_to_be (word_of_nat offset)) fl) 1) (\<lambda>_. lift_result (Inr offset)))))"

text \<open>
  \<open>None\<close> is the run in which the draw of the plan never ends. The file is read and hashed from its
  start in any case, so the hash is that of the whole payload.
\<close>

definition send_transfer ::
    "key_lib \<Rightarrow> Transfer \<Rightarrow> tx_env \<Rightarrow> rng \<Rightarrow> bytes \<Rightarrow> Error + bytes \<Rightarrow> Error + bytes \<Rightarrow> (bytes list \<times> (Error + Summary)) option" where
  "send_transfer K t env g payload resume ack =
     (let head = send_head K t env payload resume in
      case snd head of
        Inl e \<Rightarrow> Some (fst head, Inl e)
      | Inr offset \<Rightarrow>
          (case plan (pacing t) (real_frames t (length payload) offset) g of
             None \<Rightarrow> None
           | Some (planned, g') \<Rightarrow>
               Some (then_send head (\<lambda>_. stream_payload K t env payload offset (unat planned) ack 2))))"

section \<open>The receiver\<close>

record disk =
  part :: "bytes option"
  dest :: "bytes option"

record rx =
  rx_disk :: disk
  rx_total :: nat
  rx_flen :: nat
  rx_offset :: nat
  received :: nat
  last_checkpoint :: nat
  hashed :: bytes
  covers :: nat
  rx_hash :: "bytes option"

text \<open>
  What one turn of the receive loop meets: whether the transfer was cancelled, what the session
  delivers, and how the disk or session operation that frame causes ends: \<open>None\<close> when it succeeds,
  \<open>Some k\<close> when it fails (a write after \<open>k\<close> bytes).
\<close>

type_synonym rx_event = "bool \<times> (Error + bytes) \<times> nat option"

definition hash_prefix :: "bytes \<Rightarrow> nat \<Rightarrow> Error + bytes" where
  "hash_prefix f len =
     bindE (guardE (len \<le> length f) (ETransfer ''read prefix'')) (\<lambda>_. Inr (take len f))"

text \<open>
  Opening the partial file. A failure behind the truncation of a longer one leaves the disk as it was here; in the
  code the partial file, and only it, is already shorter.
\<close>

definition recv_open ::
    "key_lib \<Rightarrow> Transfer \<Rightarrow> disk \<Rightarrow> Error + bytes \<Rightarrow> bool \<Rightarrow> disk \<times> (Error + rx \<times> bytes)" where
  "recv_open K t d incoming io_ok =
     (case bindE incoming (\<lambda>offer.
           bindE (guardE (FRAME_HEADER_LEN \<le> length offer \<and> length offer \<le> MAX_FRAME_LEN)
                   (ETransfer ''frame size is out of range'')) (\<lambda>_.
           bindE (decode_offer offer) (\<lambda>total_len.
           bindE (guardE (case max_total_len t of Some m \<Rightarrow> total_len \<le> m | None \<Rightarrow> True)
                   (ETransfer ''offered payload exceeds the limit'')) (\<lambda>_.
             Inr (length offer, total_len))))) of
        Inl e \<Rightarrow> (d, Inl e)
      | Inr (flen, total_len) \<Rightarrow>
          if \<not> io_ok then (d, Inl (ETransfer ''open''))
          else
            let on_disk = (case part d of Some p \<Rightarrow> p | None \<Rightarrow> []);
                have = min (length on_disk div checkpoint_len t * checkpoint_len t) total_len;
                d' = d\<lparr>part := Some (take have on_disk)\<rparr>
            in (d', bindE (hash_prefix (take have on_disk) have) (\<lambda>h.
                 Inr (\<lparr>rx_disk = d', rx_total = total_len, rx_flen = flen, rx_offset = have, received = have,
                        last_checkpoint = have, hashed = h, covers = 0, rx_hash = None\<rparr>,
                      frame RESUME (u64_to_be (word_of_nat have) @ blake3 K h) flen))))"

definition recv_start :: "rx \<Rightarrow> Error + bytes \<Rightarrow> bool \<Rightarrow> Error + rx" where
  "recv_start s incoming io_ok =
     bindE (bindE (expect_frame incoming START) decode_start) (\<lambda>offset.
     bindE (guardE (offset \<le> rx_offset s) (ETransfer ''sender asked to start beyond what we have'')) (\<lambda>_.
     bindE (guardE io_ok (ETransfer ''truncate'')) (\<lambda>_.
     if offset = rx_offset s then Inr s
     else
       let p = take offset (case part (rx_disk s) of Some p \<Rightarrow> p | None \<Rightarrow> []) in
       bindE (hash_prefix p offset) (\<lambda>h.
         Inr (s\<lparr>rx_disk := (rx_disk s)\<lparr>part := Some p\<rparr>, rx_offset := offset, received := offset,
                last_checkpoint := offset, hashed := h\<rparr>)))))"

definition finish_payload :: "key_lib \<Rightarrow> rx \<Rightarrow> bytes \<Rightarrow> bool \<Rightarrow> Error + rx" where
  "finish_payload K s claimed io_ok =
     bindE (guardE (received s = rx_total s) (ETransfer ''sender finished early'')) (\<lambda>_.
     let hash = blake3 K (hashed s) in
     bindE (guardE (hash = claimed) (EIntegrity ''payload hash mismatch'')) (\<lambda>_.
     bindE (guardE io_ok (ETransfer ''final fsync or rename'')) (\<lambda>_.
       Inr (s\<lparr>rx_disk := \<lparr>part = None, dest = part (rx_disk s)\<rparr>, rx_hash := Some hash\<rparr>))))"

text \<open>One turn of the loop: the state it leaves, and the result and the frames it sends if it ends.\<close>

datatype rx_turn = Go rx | Stop rx "Error + Summary" "bytes list"

definition write_part :: "bytes \<Rightarrow> rx \<Rightarrow> rx" where
  "write_part content s =
     s\<lparr>rx_disk := (rx_disk s)\<lparr>part := map_option (splice (received s) content) (part (rx_disk s))\<rparr>\<rparr>"

definition rx_data :: "Transfer \<Rightarrow> rx \<Rightarrow> bytes \<Rightarrow> nat option \<Rightarrow> rx_turn" where
  "rx_data t s content io =
     (if rx_hash s \<noteq> None then Stop s (Inl (ETransfer ''data frame after DONE'')) []
      else if rx_total s < received s + length content then
        Stop s (Inl (ETransfer ''sender sent more data than it offered'')) []
      else case io of
        Some k \<Rightarrow> Stop (write_part (take k content) s) (Inl (ETransfer ''write'')) []
      | None \<Rightarrow>
          let now = received s + length content in
          Go ((write_part content s)\<lparr>hashed := hashed s @ content, received := now,
                last_checkpoint := (if checkpoint_len t \<le> now - last_checkpoint s then now else last_checkpoint s)\<rparr>))"

definition rx_done :: "key_lib \<Rightarrow> rx \<Rightarrow> bytes \<Rightarrow> nat option \<Rightarrow> rx_turn" where
  "rx_done K s content io =
     (case bindE (guardE (rx_hash s = None) (ETransfer ''duplicate DONE frame'')) (\<lambda>_.
           bindE (decode_done content) (\<lambda>claimed. finish_payload K s claimed (io = None))) of
        Inl e \<Rightarrow> Stop s (Inl e) []
      | Inr s' \<Rightarrow> Go s')"

definition rx_finish :: "rx \<Rightarrow> nat option \<Rightarrow> rx_turn" where
  "rx_finish s io =
     (case rx_hash s of
        None \<Rightarrow> Stop s (Inl (ETransfer ''stream ended early'')) []
      | Some hash \<Rightarrow>
          if io = None then
            Stop s (Inr \<lparr>sum_total = rx_total s, resumed_from = rx_offset s, sum_hash = hash, cover_frames = covers s\<rparr>)
              [frame ACK [] (rx_flen s)]
          else Stop s (Inl (ESession ''send'')) [])"

definition rx_read :: "rx \<Rightarrow> bool \<Rightarrow> Error + bytes \<Rightarrow> Error + byte \<times> bytes" where
  "rx_read s cancelled incoming =
     bindE (guardE (\<not> cancelled) ECancelled) (\<lambda>_.
     bindE incoming (\<lambda>raw.
     bindE (guardE (length raw = rx_flen s) (ETransfer ''peer changed frame size mid-stream'')) (\<lambda>_.
       parse_frame raw)))"

definition rx_step :: "key_lib \<Rightarrow> Transfer \<Rightarrow> rx \<Rightarrow> rx_event \<Rightarrow> rx_turn" where
  "rx_step K t s ev =
     (let (cancelled, incoming, io) = ev in
      case rx_read s cancelled incoming of
        Inl e \<Rightarrow> Stop s (Inl e) []
      | Inr (tag, content) \<Rightarrow>
          if tag = DATA then rx_data t s content io
          else if tag = COVER then Go (s\<lparr>covers := covers s + 1\<rparr>)
          else if tag = DONE then rx_done K s content io
          else if tag = FINISH then rx_finish s io
          else Stop s (Inl (ETransfer ''unexpected frame tag during transfer'')) [])"

fun recv_loop :: "key_lib \<Rightarrow> Transfer \<Rightarrow> rx \<Rightarrow> rx_event list \<Rightarrow> disk \<times> (Error + Summary) \<times> bytes list" where
  "recv_loop K t s [] = (rx_disk s, Inl (ESession ''the peer closed the session''), [])"
| "recv_loop K t s (ev # evs) =
     (case rx_step K t s ev of Stop s' r sent \<Rightarrow> (rx_disk s', r, sent) | Go s' \<Rightarrow> recv_loop K t s' evs)"

definition recv_transfer ::
    "key_lib \<Rightarrow> Transfer \<Rightarrow> disk \<Rightarrow> (Error + bytes) \<times> bool \<Rightarrow> (Error + bytes) \<times> bool \<Rightarrow> rx_event list \<Rightarrow>
     disk \<times> (Error + Summary) \<times> bytes list" where
  "recv_transfer K t d offer start evs =
     (case recv_open K t d (fst offer) (snd offer) of
        (d', Inl e) \<Rightarrow> (d', Inl e, [])
      | (d', Inr (s, resume)) \<Rightarrow>
          (case recv_start s (fst start) (snd start) of
             Inl e \<Rightarrow> (d', Inl e, [resume])
           | Inr s' \<Rightarrow> let (d'', r, sent) = recv_loop K t s' evs in (d'', r, resume # sent)))"

section \<open>The receiver never installs what it did not verify\<close>

definition rx_inv :: "key_lib \<Rightarrow> bytes option \<Rightarrow> rx \<Rightarrow> bool" where
  "rx_inv K old s \<longleftrightarrow>
     received s \<le> rx_total s \<and> length (hashed s) = received s \<and>
     (case rx_hash s of
        None \<Rightarrow> part (rx_disk s) = Some (hashed s) \<and> dest (rx_disk s) = old
      | Some h \<Rightarrow> part (rx_disk s) = None \<and> dest (rx_disk s) = Some (hashed s) \<and>
          received s = rx_total s \<and> h = blake3 K (hashed s))"

lemma splice_end: "length p = n \<Longrightarrow> splice n c p = p @ c"
  by (simp add: splice_def)

lemma recv_open_inv:
  assumes "recv_open K t d inc ok = (d', Inr (s, resume))"
  shows "rx_inv K (dest d) s \<and> dest d' = dest d \<and> rx_disk s = d' \<and> rx_hash s = None"
  using assms
  by (auto simp: recv_open_def Let_def rx_inv_def hash_prefix_def result_simps split: sum.splits if_splits)

lemma recv_open_keeps_dest: "dest (fst (recv_open K t d inc ok)) = dest d"
  by (auto simp: recv_open_def Let_def split: sum.splits)

lemma recv_start_inv:
  assumes "recv_start s inc ok = Inr s'" "rx_inv K old s" "rx_hash s = None"
  shows "rx_inv K old s' \<and> rx_hash s' = None"
  using assms
  by (auto simp: recv_start_def Let_def rx_inv_def hash_prefix_def result_simps split: if_splits)

lemma rx_step_inv:
  assumes "rx_inv K old s"
  shows "case rx_step K t s ev of
      Go s' \<Rightarrow> rx_inv K old s'
    | Stop s' r sent \<Rightarrow>
        (\<forall>x. r = Inr x \<longrightarrow> s' = s \<and> rx_hash s = Some (sum_hash x) \<and> sum_total x = rx_total s) \<and>
        (rx_hash s = None \<longrightarrow> dest (rx_disk s') = old) \<and> (rx_hash s \<noteq> None \<longrightarrow> s' = s)"
proof -
  obtain c inc io where ev: "ev = (c, inc, io)" by (cases ev)
  show ?thesis
  proof (cases "rx_read s c inc")
    case (Inl e)
    with assms show ?thesis by (auto simp: rx_step_def ev rx_inv_def)
  next
    case (Inr tc)
    obtain tag content where tc: "tc = (tag, content)" by fastforce
    have d: "case rx_data t s content io of Go s' \<Rightarrow> rx_inv K old s'
      | Stop s' r sent \<Rightarrow> (\<forall>x. r \<noteq> Inr x) \<and> (rx_hash s = None \<longrightarrow> dest (rx_disk s') = old) \<and> (rx_hash s \<noteq> None \<longrightarrow> s' = s)"
      using assms by (auto simp: rx_data_def rx_inv_def write_part_def Let_def splice_end split: option.splits)
    have f: "case rx_done K s content io of Go s' \<Rightarrow> rx_inv K old s' | Stop s' r sent \<Rightarrow> (\<forall>x. r \<noteq> Inr x) \<and> s' = s"
      using assms by (auto simp: rx_done_def finish_payload_def Let_def rx_inv_def result_simps split: sum.splits option.splits)
    have g: "case rx_finish s io of Go s' \<Rightarrow> False | Stop s' r sent \<Rightarrow> s' = s \<and>
        (\<forall>x. r = Inr x \<longrightarrow> rx_hash s = Some (sum_hash x) \<and> sum_total x = rx_total s)"
      by (auto simp: rx_finish_def split: option.splits)
    have old: "rx_hash s = None \<Longrightarrow> dest (rx_disk s) = old" using assms by (auto simp: rx_inv_def)
    have cov: "rx_inv K old (s\<lparr>covers := n\<rparr>)" for n using assms by (cases "rx_hash s") (simp_all add: rx_inv_def)
    from d f g old cov Inr tc show ?thesis by (auto simp: rx_step_def ev split: rx_turn.splits)
  qed
qed

text \<open>
  For every sequence of frames: the destination keeps its old content, or becomes a payload of the
  offered length whose hash both sides computed; success means the latter.
\<close>

lemma recv_loop_dest:
  assumes "rx_inv K old s" "recv_loop K t s evs = (d, r, sent)"
  shows "(dest d = old \<or> (\<exists>b. dest d = Some b \<and> length b = rx_total s \<and> part d = None)) \<and>
    (\<forall>x. r = Inr x \<longrightarrow> (\<exists>b. dest d = Some b \<and> length b = sum_total x \<and> blake3 K b = sum_hash x \<and> part d = None))"
  using assms
proof (induction evs arbitrary: s)
  case Nil
  then show ?case by (auto simp: rx_inv_def split: option.splits)
next
  case (Cons ev evs)
  note st = rx_step_inv [OF Cons.prems(1), of t ev]
  have fin: "dest (rx_disk s) = Some (hashed s) \<and> length (hashed s) = rx_total s \<and> part (rx_disk s) = None \<and> h = blake3 K (hashed s)"
    if "rx_hash s = Some h" for h using Cons.prems(1) that by (auto simp: rx_inv_def)
  show ?case
  proof (cases "rx_step K t s ev")
    case (Stop s' r' sent')
    with Cons.prems(2) have e: "d = rx_disk s'" "r = r'" by simp_all
    from st Stop have a: "\<And>x. r' = Inr x \<Longrightarrow> s' = s \<and> rx_hash s = Some (sum_hash x) \<and> sum_total x = rx_total s"
      "rx_hash s = None \<Longrightarrow> dest (rx_disk s') = old" "rx_hash s \<noteq> None \<Longrightarrow> s' = s" by simp_all
    show ?thesis
      using a fin by (cases "rx_hash s") (auto simp: e)
  next
    case (Go s')
    with st Cons.prems(2) have "rx_inv K old s'" "recv_loop K t s' evs = (d, r, sent)" by simp_all
    from Cons.IH [OF this] have ih: "dest d = old \<or> (\<exists>b. dest d = Some b \<and> length b = rx_total s' \<and> part d = None)"
      "\<forall>x. r = Inr x \<longrightarrow> (\<exists>b. dest d = Some b \<and> length b = sum_total x \<and> blake3 K b = sum_hash x \<and> part d = None)" by blast+
    have "rx_total s' = rx_total s"
      using Go by (auto simp: rx_step_def rx_data_def rx_done_def rx_finish_def finish_payload_def write_part_def Let_def
          result_simps split: prod.splits sum.splits if_splits option.splits)
    with ih show ?thesis by simp
  qed
qed

section \<open>What the sender puts on the wire\<close>

text \<open>An environment in which nothing is cancelled and every send succeeds.\<close>

definition quiet :: "tx_env \<Rightarrow> bool" where
  "quiet env \<longleftrightarrow> (\<forall>n. \<not> cancelled_at env n \<and> send_err env n = None)"

function payload_chunks :: "nat \<Rightarrow> bytes \<Rightarrow> bytes list" where
  "payload_chunks cl xs = (if xs = [] \<or> cl = 0 then [] else take cl xs # payload_chunks cl (drop cl xs))"
  by pat_completeness auto
termination by (relation "measure (\<lambda>(cl, xs). length xs)") auto

declare payload_chunks.simps [simp del]

lemma concat_chunks: "0 < cl \<Longrightarrow> concat (payload_chunks cl xs) = xs"
  by (induction cl xs rule: payload_chunks.induct) (subst payload_chunks.simps, simp)

lemma chunk_lengths: "c \<in> set (payload_chunks cl xs) \<Longrightarrow> length c \<le> cl"
  by (induction cl xs rule: payload_chunks.induct) (subst (asm) (2) payload_chunks.simps, auto split: if_splits)

lemma length_chunks:
  assumes "0 < cl"
  shows "length (payload_chunks cl xs) = (length xs + cl - 1) div cl"
  using assms
proof (induction cl xs rule: payload_chunks.induct)
  case (1 cl xs)
  show ?case
  proof (cases "length xs \<le> cl")
    case True
    show ?thesis
    proof (cases "xs = []")
      case False
      with True 1(2) have "(length xs + cl - 1) div cl = 1"
        by (intro div_nat_eqI) (cases xs; simp)+
      moreover have "payload_chunks cl (drop cl xs) = []" using True by (simp add: payload_chunks.simps)
      ultimately show ?thesis using False 1(2) by (simp add: payload_chunks.simps [of cl xs])
    qed (use 1 in \<open>simp add: payload_chunks.simps\<close>)
  next
    case False
    then have "length xs + cl - 1 = cl + (length xs - cl + cl - 1)" by simp
    then have "(length xs + cl - 1) div cl = 1 + (length xs - cl + cl - 1) div cl"
      using 1(2) by (metis div_add_self1 add.commute less_irrefl)
    with False 1 show ?thesis by (auto simp: payload_chunks.simps [of cl xs])
  qed
qed

lemma data_loop_quiet:
  assumes "quiet env"
  shows "data_loop env cl fl xs n = (map (\<lambda>c. frame DATA c fl) (payload_chunks cl xs), Inr (n + length (payload_chunks cl xs)))"
  using assms
proof (induction env cl fl xs n rule: data_loop.induct)
  case (1 env cl fl xs n)
  then show ?case
    by (subst data_loop.simps, subst (1 2) payload_chunks.simps) (auto simp: quiet_def)
qed

lemma cover_loop_quiet:
  assumes "quiet env"
  shows "cover_loop env fl k n = (replicate k (frame COVER [] fl), Inr (n + k))"
  using assms by (induction k arbitrary: n) (simp_all add: quiet_def)

lemma send_one_quiet: "quiet env \<Longrightarrow> send_one env f n = ([f], Inr (Suc n))"
  by (simp add: send_one_def quiet_def)

lemma unat_real_frames:
  assumes "transfer_ok t" "length payload < 2 ^ 64"
  shows "unat (real_frames t (length payload) offset) = length (payload_chunks (chunk_len t) (drop offset payload))"
proof -
  let ?n = "length payload - offset" and ?c = "chunk_len t"
  have c: "0 < ?c" "?c < 2 ^ 64" using assms(1) by (auto simp: transfer_ok_def MAX_FRAME_LEN_def)
  have u: "unat (word_of_nat ?n :: u64) = ?n" "unat (word_of_nat ?c :: u64) = ?c" using assms(2) c by simp_all
  have nz: "(word_of_nat ?c :: u64) \<noteq> 0" using c u(2) by (metis less_irrefl unat_0)
  let ?d = "unat (div_ceil (word_of_nat ?n) (word_of_nat ?c))"
  have "?n \<le> ?d * ?c" "?d * ?c < ?n + ?c" using unat_div_ceil [OF nz, of "word_of_nat ?n"] u by simp_all
  then have "(?n + ?c - 1) div ?c = ?d"
    using c(1) by (intro div_nat_eqI) (simp_all add: mult.commute)
  then show ?thesis using length_chunks [OF c(1), of "drop offset payload"] by (simp add: real_frames_def)
qed

text \<open>The frames of an undisturbed run, in order.\<close>

definition wire_frames :: "key_lib \<Rightarrow> Transfer \<Rightarrow> bytes \<Rightarrow> nat \<Rightarrow> nat \<Rightarrow> bytes list" where
  "wire_frames K t payload offset planned =
     (let fl = frame_len t; cs = payload_chunks (chunk_len t) (drop offset payload) in
      [frame OFFER (u64_to_be (word_of_nat (length payload))) fl, frame START (u64_to_be (word_of_nat offset)) fl] @
      map (\<lambda>c. frame DATA c fl) cs @ [frame DONE (blake3 K payload) fl] @
      replicate (planned - length cs) (frame COVER [] fl) @ [frame FINISH [] fl])"

lemma send_transfer_quiet:
  assumes "quiet env" "bindE (expect_frame resume RESUME) decode_resume = Inr (have, h)"
    and "plan (pacing t) (real_frames t (length payload) (start_offset K payload have h)) g = Some (planned, g')"
  shows "send_transfer K t env g payload resume ack =
    Some (wire_frames K t payload (start_offset K payload have h) (unat planned),
      bindE (expect_frame ack ACK) (\<lambda>_. Inr \<lparr>sum_total = length payload, resumed_from = start_offset K payload have h,
        sum_hash = blake3 K payload,
        cover_frames = unat planned - length (payload_chunks (chunk_len t) (drop (start_offset K payload have h) payload))\<rparr>))"
  using assms
  by (cases "expect_frame ack ACK")
    (simp_all add: send_transfer_def send_head_def stream_payload_def then_send_def lift_result_def Let_def data_loop_quiet
      cover_loop_quiet send_one_quiet wire_frames_def)

text \<open>Every frame of every run, disturbed or not, has the same length.\<close>

lemma data_loop_uniform:
  "cl + 5 \<le> fl \<Longrightarrow> f \<in> set (fst (data_loop env cl fl xs n)) \<Longrightarrow> length f = fl"
proof (induction env cl fl xs n rule: data_loop.induct)
  case (1 env cl fl xs n)
  then show ?case
    by (cases "send_err env n")
      (auto simp: data_loop.simps [of env cl fl xs n] length_frame Let_def case_prod_beta split: if_splits)
qed

lemma cover_loop_uniform: "5 \<le> fl \<Longrightarrow> f \<in> set (fst (cover_loop env fl k n)) \<Longrightarrow> length f = fl"
proof (induction k arbitrary: n)
  case (Suc k)
  then show ?case by (cases "send_err env n") (auto simp: length_frame case_prod_beta split: if_splits)
qed simp

lemma send_one_set: "f \<in> set (fst (send_one env x n)) \<Longrightarrow> f = x"
  by (auto simp: send_one_def split: option.splits)

lemma then_send_set:
  "f \<in> set (fst (then_send m k)) \<Longrightarrow> f \<in> set (fst m) \<or> (\<exists>x. snd m = Inr x \<and> f \<in> set (fst (k x)))"
  by (auto simp: then_send_def Let_def split: sum.splits prod.splits)

lemma stream_payload_uniform:
  assumes "blake3_ok K" "32 \<le> chunk_len t" "f \<in> set (fst (stream_payload K t env payload offset planned ack n0))"
  shows "length f = frame_len t"
proof -
  have fl: "frame_len t = chunk_len t + 5" by (simp add: frame_len_def FRAME_HEADER_LEN_def)
  have h: "length (blake3 K payload) = 32" using assms(1) by (simp add: blake3_ok_def)
  from assms(3) show ?thesis
    unfolding stream_payload_def Let_def using assms(2) h
    by (auto dest!: then_send_set send_one_set simp: lift_result_def length_frame fl
        dest: data_loop_uniform [rotated] cover_loop_uniform [rotated])
qed

lemma send_transfer_uniform:
  assumes "blake3_ok K" "32 \<le> chunk_len t" "send_transfer K t env g payload resume ack = Some (fs, r)" "f \<in> set fs"
  shows "length f = frame_len t"
proof -
  have fl: "frame_len t = chunk_len t + 5" by (simp add: frame_len_def FRAME_HEADER_LEN_def)
  let ?head = "send_head K t env payload resume"
  have h: "length f = frame_len t" if "f \<in> set (fst ?head)" for f
    using that assms(2) unfolding send_head_def
    by (auto dest!: then_send_set send_one_set simp: lift_result_def length_frame fl Let_def split: prod.splits)
  from assms(3) consider "fs = fst ?head"
    | offset planned where "fs = fst (then_send ?head (\<lambda>_. stream_payload K t env payload offset planned ack 2))"
    unfolding send_transfer_def Let_def by (auto split: sum.splits option.splits) (metis fst_conv)
  then show ?thesis
    using assms(4) h stream_payload_uniform [OF assms(1,2)] by cases (auto dest!: then_send_set)
qed

lemma length_wire_frames:
  assumes "length (payload_chunks (chunk_len t) (drop offset payload)) \<le> planned"
  shows "length (wire_frames K t payload offset planned) = planned + 4"
  using assms by (simp add: wire_frames_def Let_def)

end
