(* ===== verification/TransferRun.thy ===== *)
theory TransferRun
  imports LiveTransfer
begin

text \<open>
  The sender and the receiver of \<open>transfer.rs\<close> together: an undisturbed run delivers the payload,
  whatever partial file the receiver starts from, and the wire shows only the plan.
\<close>

definition deliver :: "bytes \<Rightarrow> rx_event" where
  "deliver f = (False, Inr f, None)"

lemma rx_read_frame:
  assumes "length c < 2 ^ 32" "length (frame tag c fl) = rx_flen s"
  shows "rx_read s False (Inr (frame tag c fl)) = Inr (tag, c)"
  using assms by (simp add: rx_read_def parse_frame_frame)

definition same_run :: "rx \<Rightarrow> rx \<Rightarrow> bool" where
  "same_run s s' \<longleftrightarrow> rx_total s' = rx_total s \<and> rx_flen s' = rx_flen s \<and> rx_offset s' = rx_offset s"

lemma recv_data:
  assumes "rx_inv K old s" "rx_hash s = None" "\<forall>c \<in> set cs. length c + 5 \<le> fl" "rx_flen s = fl" "fl < 2 ^ 32"
    "received s + length (concat cs) \<le> rx_total s"
  shows "\<exists>s'. recv_loop K t s (map deliver (map (\<lambda>c. frame DATA c fl) cs) @ rest) = recv_loop K t s' rest \<and>
    rx_inv K old s' \<and> rx_hash s' = None \<and> hashed s' = hashed s @ concat cs \<and> same_run s s' \<and> covers s' = covers s"
  using assms
proof (induction cs arbitrary: s)
  case Nil
  then show ?case by (auto simp: same_run_def)
next
  case (Cons c cs)
  have l: "length c + 5 \<le> fl" "length c < 2 ^ 32" using Cons.prems(3,5) by auto
  have r: "rx_read s False (Inr (frame DATA c fl)) = Inr (DATA, c)"
    using l Cons.prems(4) by (intro rx_read_frame) (simp_all add: length_frame)
  define s1 where "s1 = (write_part c s)\<lparr>hashed := hashed s @ c, received := received s + length c,
     last_checkpoint := (if checkpoint_len t \<le> received s + length c - last_checkpoint s
       then received s + length c else last_checkpoint s)\<rparr>"
  have step: "rx_step K t s (deliver (frame DATA c fl)) = Go s1"
    using r Cons.prems(2,6) by (simp add: rx_step_def deliver_def rx_data_def Let_def s1_def)
  have f: "rx_hash s1 = None" "rx_flen s1 = fl" "rx_total s1 = rx_total s" "rx_offset s1 = rx_offset s"
    "received s1 = received s + length c" "hashed s1 = hashed s @ c" "covers s1 = covers s"
    using Cons.prems(2,4) by (simp_all add: s1_def write_part_def)
  have inv: "rx_inv K old s1" using rx_step_inv [OF Cons.prems(1), of t "deliver (frame DATA c fl)"] step by simp
  have "\<exists>s'. recv_loop K t s1 (map deliver (map (\<lambda>c. frame DATA c fl) cs) @ rest) = recv_loop K t s' rest \<and>
    rx_inv K old s' \<and> rx_hash s' = None \<and> hashed s' = hashed s1 @ concat cs \<and> same_run s1 s' \<and> covers s' = covers s1"
    using inv f Cons.prems(3,5,6) by (intro Cons.IH) auto
  then obtain s' where s': "recv_loop K t s1 (map deliver (map (\<lambda>c. frame DATA c fl) cs) @ rest) = recv_loop K t s' rest"
    "rx_inv K old s'" "rx_hash s' = None" "hashed s' = hashed s1 @ concat cs" "same_run s1 s'" "covers s' = covers s1" by blast
  then have "same_run s s'" using f Cons.prems(4) by (simp add: same_run_def)
  with s' step f show ?case by (intro exI [of _ s']) simp
qed

lemma recv_covers:
  assumes "rx_flen s = fl" "5 \<le> fl" "fl < 2 ^ 32"
  shows "recv_loop K t s (map deliver (replicate k (frame COVER [] fl)) @ rest) = recv_loop K t (s\<lparr>covers := covers s + k\<rparr>) rest"
  using assms
proof (induction k arbitrary: s)
  case (Suc k)
  have "rx_read s False (Inr (frame COVER [] fl)) = Inr (COVER, [])"
    using Suc.prems by (intro rx_read_frame) (simp_all add: length_frame)
  then have "rx_step K t s (deliver (frame COVER [] fl)) = Go (s\<lparr>covers := covers s + 1\<rparr>)"
    by (simp add: rx_step_def deliver_def tag_defs)
  with Suc show ?case by simp
qed (cases s, simp)

lemma recv_done:
  assumes "rx_inv K old s" "rx_hash s = None" "hashed s = payload" "rx_total s = length payload"
    "rx_flen s = fl" "37 \<le> fl" "fl < 2 ^ 32" "blake3_ok K"
  shows "rx_step K t s (deliver (frame DONE (blake3 K payload) fl)) =
    Go (s\<lparr>rx_disk := \<lparr>part = None, dest = Some payload\<rparr>, rx_hash := Some (blake3 K payload)\<rparr>)"
proof -
  have l: "length (blake3 K payload) = 32" using assms(8) by (simp add: blake3_ok_def)
  have "rx_read s False (Inr (frame DONE (blake3 K payload) fl)) = Inr (DONE, blake3 K payload)"
    using l assms(5-7) by (intro rx_read_frame) (simp_all add: length_frame)
  moreover have "received s = length payload" "part (rx_disk s) = Some payload"
    using assms(1-3) by (auto simp: rx_inv_def)
  ultimately show ?thesis
    using assms(2-4) l by (simp add: rx_step_def deliver_def rx_done_def decode_done_def fixed_def finish_payload_def tag_defs)
qed

lemma recv_finish:
  assumes "rx_hash s = Some h" "rx_flen s = fl" "5 \<le> fl" "fl < 2 ^ 32"
  shows "recv_loop K t s (deliver (frame FINISH [] fl) # rest) =
    (rx_disk s, Inr \<lparr>sum_total = rx_total s, resumed_from = rx_offset s, sum_hash = h, cover_frames = covers s\<rparr>,
     [frame ACK [] fl])"
proof -
  have "rx_read s False (Inr (frame FINISH [] fl)) = Inr (FINISH, [])"
    using assms by (intro rx_read_frame) (simp_all add: length_frame)
  with assms show ?thesis by (simp add: rx_step_def deliver_def rx_finish_def tag_defs)
qed

text \<open>From a state that holds a true prefix, the rest of the stream installs the payload.\<close>

lemma recv_stream:
  assumes inv: "rx_inv K old s" "rx_hash s = None" and fl: "rx_flen s = fl" "37 \<le> fl" "fl < 2 ^ 32"
    and cs: "\<forall>c \<in> set cs. length c + 5 \<le> fl" and k: "blake3_ok K"
    and pre: "hashed s @ concat cs = payload" "rx_total s = length payload"
  shows "recv_loop K t s (map deliver (map (\<lambda>c. frame DATA c fl) cs @ [frame DONE (blake3 K payload) fl] @
      replicate n (frame COVER [] fl) @ [frame FINISH [] fl])) =
    (\<lparr>part = None, dest = Some payload\<rparr>,
     Inr \<lparr>sum_total = length payload, resumed_from = rx_offset s, sum_hash = blake3 K payload, cover_frames = covers s + n\<rparr>,
     [frame ACK [] fl])"
proof -
  let ?rest = "deliver (frame DONE (blake3 K payload) fl) # map deliver (replicate n (frame COVER [] fl)) @ [deliver (frame FINISH [] fl)]"
  have "received s + length (concat cs) \<le> rx_total s"
    using inv pre by (metis length_append order_refl rx_inv_def)
  with recv_data [OF inv cs fl(1,3), of t ?rest] obtain s1 where
    s1: "recv_loop K t s (map deliver (map (\<lambda>c. frame DATA c fl) cs) @ ?rest) = recv_loop K t s1 ?rest"
      "rx_inv K old s1" "rx_hash s1 = None" "hashed s1 = payload" "same_run s s1" "covers s1 = covers s"
    using pre by auto
  from s1(5) fl pre(2) have q: "rx_total s1 = length payload" "rx_flen s1 = fl" "rx_offset s1 = rx_offset s"
    by (simp_all add: same_run_def)
  let ?s2 = "s1\<lparr>rx_disk := \<lparr>part = None, dest = Some payload\<rparr>, rx_hash := Some (blake3 K payload)\<rparr>"
  have "recv_loop K t s1 ?rest = recv_loop K t ?s2 (map deliver (replicate n (frame COVER [] fl)) @ [deliver (frame FINISH [] fl)])"
    using recv_done [OF s1(2-4) q(1,2) fl(2,3) k] by simp
  also have "\<dots> = recv_loop K t (?s2\<lparr>covers := covers ?s2 + n\<rparr>) [deliver (frame FINISH [] fl)]"
    using fl q by (intro recv_covers) simp_all
  also have "\<dots> = (\<lparr>part = None, dest = Some payload\<rparr>,
     Inr \<lparr>sum_total = length payload, resumed_from = rx_offset s, sum_hash = blake3 K payload, cover_frames = covers s + n\<rparr>,
     [frame ACK [] fl])"
    using fl q s1(6) by (subst recv_finish [of _ "blake3 K payload"]) simp_all
  finally show ?thesis using s1(1) by simp
qed

section \<open>What an installed file was checked against\<close>

definition claims :: "bytes \<Rightarrow> rx_event \<Rightarrow> bool" where
  "claims h ev \<longleftrightarrow> (\<exists>raw. fst (snd ev) = Inr raw \<and> parse_frame raw = Inr (DONE, h))"

lemma rx_step_hash:
  assumes "rx_step K t s ev = Go s'" "rx_hash s = None" "rx_hash s' \<noteq> None"
  shows "rx_hash s' = Some (blake3 K (hashed s')) \<and> claims (blake3 K (hashed s')) ev \<and> rx_total s' = rx_total s"
  using assms
  by (auto simp: rx_step_def rx_data_def rx_done_def rx_finish_def finish_payload_def write_part_def rx_read_def Let_def
      claims_def decode_done_def fixed_def result_simps split: prod.splits sum.splits if_splits option.splits)

lemma recv_loop_keeps:
  assumes "rx_inv K old s" "rx_hash s = Some h" "recv_loop K t s evs = (d, r, sent)"
  shows "dest d = dest (rx_disk s)"
  using assms
proof (induction evs arbitrary: s)
  case (Cons ev evs)
  note st = rx_step_inv [OF Cons.prems(1), of t ev]
  show ?case
  proof (cases "rx_step K t s ev")
    case (Go s')
    have "rx_hash s' = Some h \<and> rx_disk s' = rx_disk s"
      using Go Cons.prems(2)
      by (auto simp: rx_step_def rx_data_def rx_done_def rx_finish_def Let_def result_simps
          split: prod.splits sum.splits if_splits option.splits)
    with Cons.IH [of s'] st Go Cons.prems(3) show ?thesis by simp
  next
    case (Stop s' r' sent')
    with st Cons.prems show ?thesis by simp
  qed
qed simp

lemma recv_loop_claimed:
  assumes "rx_inv K old s" "rx_hash s = None" "recv_loop K t s evs = (d, r, sent)" "dest d \<noteq> old"
  shows "\<exists>b ev. ev \<in> set evs \<and> claims (blake3 K b) ev \<and> dest d = Some b \<and> length b = rx_total s"
  using assms
proof (induction evs arbitrary: s)
  case Nil
  then show ?case by (simp add: rx_inv_def)
next
  case (Cons ev evs)
  note st = rx_step_inv [OF Cons.prems(1), of t ev]
  show ?case
  proof (cases "rx_step K t s ev")
    case (Stop s' r' sent')
    with st Cons.prems show ?thesis by simp
  next
    case (Go s')
    with st Cons.prems(3) have s': "rx_inv K old s'" "recv_loop K t s' evs = (d, r, sent)" by simp_all
    show ?thesis
    proof (cases "rx_hash s'")
      case None
      have "rx_total s' = rx_total s"
        using Go by (auto simp: rx_step_def rx_data_def rx_done_def rx_finish_def finish_payload_def write_part_def Let_def
            result_simps split: prod.splits sum.splits if_splits option.splits)
      with Cons.IH [OF s'(1) None s'(2) Cons.prems(4)] show ?thesis by auto
    next
      case (Some h)
      have "dest d = Some (hashed s')" "length (hashed s') = rx_total s'"
        using recv_loop_keeps [OF s'(1) Some s'(2)] s'(1) Some by (auto simp: rx_inv_def)
      with rx_step_hash [OF Go Cons.prems(2)] Some show ?thesis by (intro exI [of _ "hashed s'"] exI [of _ ev]) simp
    qed
  qed
qed

section \<open>Opening the receiving side\<close>

definition have_len :: "Transfer \<Rightarrow> disk \<Rightarrow> nat \<Rightarrow> nat" where
  "have_len t d n = min (length (case part d of Some p \<Rightarrow> p | None \<Rightarrow> []) div checkpoint_len t * checkpoint_len t) n"

definition have_bytes :: "Transfer \<Rightarrow> disk \<Rightarrow> nat \<Rightarrow> bytes" where
  "have_bytes t d n = take (have_len t d n) (case part d of Some p \<Rightarrow> p | None \<Rightarrow> [])"

lemma have_len_le: "have_len t d n \<le> length (case part d of Some p \<Rightarrow> p | None \<Rightarrow> [])" "have_len t d n \<le> n"
  unfolding have_len_def by (rule min.coboundedI1 [OF div_times_less_eq_dividend]) simp

lemma length_have_bytes: "length (have_bytes t d n) = have_len t d n"
  using have_len_le(1) [of t d n] by (simp add: have_bytes_def)

lemma recv_open_offer:
  assumes "n < 2 ^ 64" "13 \<le> fl" "fl \<le> MAX_FRAME_LEN" "case max_total_len t of Some m \<Rightarrow> n \<le> m | None \<Rightarrow> True"
  shows "recv_open K t d (Inr (frame OFFER (u64_to_be (word_of_nat n)) fl)) True =
    (d\<lparr>part := Some (have_bytes t d n)\<rparr>,
     Inr (\<lparr>rx_disk = d\<lparr>part := Some (have_bytes t d n)\<rparr>, rx_total = n, rx_flen = fl, rx_offset = have_len t d n,
           received = have_len t d n, last_checkpoint = have_len t d n, hashed = have_bytes t d n, covers = 0, rx_hash = None\<rparr>,
         frame RESUME (u64_to_be (word_of_nat (have_len t d n)) @ blake3 K (have_bytes t d n)) fl))"
proof -
  have f: "length (frame OFFER (u64_to_be (word_of_nat n)) fl) = fl" using assms(2) by (simp add: length_frame)
  have d: "decode_offer (frame OFFER (u64_to_be (word_of_nat n)) fl) = Inr n"
    using assms(1) by (simp add: decode_offer_def parse_frame_frame fixed_def)
  have h: "take (have_len t d n) (case part d of Some p \<Rightarrow> p | None \<Rightarrow> []) = have_bytes t d n" by (simp add: have_bytes_def)
  show ?thesis
    using assms(2-4) f d length_have_bytes [of t d n] have_len_le [of t d n]
    by (simp add: recv_open_def Let_def FRAME_HEADER_LEN_def have_len_def [symmetric] h hash_prefix_def)
qed

lemma decode_resume_frame:
  assumes "have < 2 ^ 64" "length h = 32"
  shows "bindE (expect_frame (Inr (frame RESUME (u64_to_be (word_of_nat have) @ h) fl)) RESUME) decode_resume = Inr (have, h)"
  using assms by (simp add: expect_frame_def parse_frame_frame decode_resume_def fixed_def slice_def)

lemma decode_start_frame:
  assumes "n < 2 ^ 64"
  shows "bindE (expect_frame (Inr (frame START (u64_to_be (word_of_nat n)) fl)) START) decode_start = Inr n"
  using assms by (simp add: expect_frame_def parse_frame_frame decode_start_def fixed_def)

section \<open>The two sides together\<close>

lemma recv_start_frame:
  assumes "offset \<le> rx_offset s" "offset < 2 ^ 64" "rx_inv K old s" "rx_hash s = None" "received s = rx_offset s"
  shows "\<exists>s'. recv_start s (Inr (frame START (u64_to_be (word_of_nat offset)) fl)) True = Inr s' \<and>
    rx_inv K old s' \<and> rx_hash s' = None \<and> hashed s' = take offset (hashed s) \<and> rx_total s' = rx_total s \<and>
    rx_flen s' = rx_flen s \<and> rx_offset s' = offset \<and> covers s' = covers s"
proof (cases "offset = rx_offset s")
  case True
  then show ?thesis using assms decode_start_frame [OF assms(2)]
    by (intro exI [of _ s]) (auto simp: recv_start_def rx_inv_def)
next
  case False
  have p: "part (rx_disk s) = Some (hashed s)" "length (hashed s) = rx_offset s" using assms by (auto simp: rx_inv_def)
  with False assms decode_start_frame [OF assms(2), of fl]
  have "recv_start s (Inr (frame START (u64_to_be (word_of_nat offset)) fl)) True =
      Inr (s\<lparr>rx_disk := (rx_disk s)\<lparr>part := Some (take offset (hashed s))\<rparr>, rx_offset := offset, received := offset,
                last_checkpoint := offset, hashed := take offset (hashed s)\<rparr>)"
    by (simp add: recv_start_def hash_prefix_def Let_def)
  then show ?thesis using assms p by (auto simp: rx_inv_def)
qed

text \<open>
  An undisturbed transfer between two configurations, from any partial file: unless the partial's
  hash collides with that of the payload's own prefix, the payload is installed, the partial is gone,
  and both sides report the same hash.
\<close>

lemma transfer_delivers:
  assumes cfg: "transfer_ok t" "32 \<le> chunk_len t" "case max_total_len t' of Some m \<Rightarrow> length payload \<le> m | None \<Rightarrow> True"
    and K: "blake3_ok K" and len: "length payload < 2 ^ 64" and env: "quiet env"
    and col: "blake3 K (have_bytes t' d (length payload)) = blake3 K (take (have_len t' d (length payload)) payload) \<Longrightarrow>
      have_bytes t' d (length payload) = take (have_len t' d (length payload)) payload"
    and resume: "snd (recv_open K t' d (Inr (frame OFFER (u64_to_be (word_of_nat (length payload))) (frame_len t))) True) = Inr (s, resume)"
    and plan: "\<And>r. \<exists>x. plan (pacing t) r g = Some x"
  shows "\<exists>fs sum sum'. send_transfer K t env g payload (Inr resume) (Inr (frame ACK [] (frame_len t))) = Some (fs, Inr sum) \<and>
    recv_transfer K t' d (Inr (fs ! 0), True) (Inr (fs ! 1), True) (map deliver (drop 2 fs)) =
      (\<lparr>part = None, dest = Some payload\<rparr>, Inr sum', [resume, frame ACK [] (frame_len t)]) \<and>
    sum = sum' \<and> sum_hash sum = blake3 K payload \<and> sum_total sum = length payload"
proof -
  let ?n = "length payload" and ?fl = "frame_len t"
  let ?have = "have_len t' d ?n" and ?bytes = "have_bytes t' d ?n"
  have fl: "37 \<le> ?fl" "?fl \<le> MAX_FRAME_LEN" "?fl < 2 ^ 32" "?fl = chunk_len t + 5"
    using cfg(1,2) by (auto simp: frame_len_def transfer_ok_def FRAME_HEADER_LEN_def MAX_FRAME_LEN_def)
  define s0 where "s0 = \<lparr>rx_disk = d\<lparr>part := Some ?bytes\<rparr>, rx_total = ?n, rx_flen = ?fl, rx_offset = ?have,
           received = ?have, last_checkpoint = ?have, hashed = ?bytes, covers = 0, rx_hash = None\<rparr>"
  have op: "recv_open K t' d (Inr (frame OFFER (u64_to_be (word_of_nat ?n)) ?fl)) True = (d\<lparr>part := Some ?bytes\<rparr>, Inr (s0, resume))"
    and res: "resume = frame RESUME (u64_to_be (word_of_nat ?have) @ blake3 K ?bytes) ?fl"
    using recv_open_offer [OF len, of ?fl t' K d] fl cfg(3) resume unfolding s0_def by auto
  have hl: "?have \<le> ?n" "?have < 2 ^ 64" using have_len_le(2) [of t' d ?n] len by auto
  have dr: "bindE (expect_frame (Inr resume) RESUME) decode_resume = Inr (?have, blake3 K ?bytes)"
    unfolding res using hl K by (intro decode_resume_frame) (simp_all add: blake3_ok_def)
  define off where "off = start_offset K payload ?have (blake3 K ?bytes)"
  have off: "off \<le> ?have" "take off ?bytes = take off payload"
    using hl col length_have_bytes [of t' d ?n] by (auto simp: off_def start_offset_def)
  from plan obtain planned g' where pl: "plan (pacing t) (real_frames t ?n off) g = Some (planned, g')" by (metis surj_pair)
  let ?cs = "payload_chunks (chunk_len t) (drop off payload)"
  let ?fs = "wire_frames K t payload off (unat planned)"
  note snd = send_transfer_quiet [OF env dr, of t payload K g, folded off_def, OF pl, of "Inr (frame ACK [] ?fl)"]
  have inv0: "rx_inv K (dest d) s0" "rx_hash s0 = None" "received s0 = rx_offset s0" "rx_offset s0 = ?have"
    using length_have_bytes [of t' d ?n] hl by (simp_all add: s0_def rx_inv_def)
  obtain s1 where s1: "recv_start s0 (Inr (frame START (u64_to_be (word_of_nat off)) ?fl)) True = Inr s1"
    "rx_inv K (dest d) s1" "rx_hash s1 = None" "hashed s1 = take off payload" "rx_total s1 = ?n" "rx_flen s1 = ?fl"
    "rx_offset s1 = off" "covers s1 = 0"
    using recv_start_frame [of off s0 K "dest d" ?fl] inv0 off hl by (auto simp: s0_def)
  have cs: "\<forall>c \<in> set ?cs. length c + 5 \<le> ?fl" "hashed s1 @ concat ?cs = payload"
    using chunk_lengths [of _ "chunk_len t"] fl(4) concat_chunks [of "chunk_len t"] cfg(2) s1(4) by auto
  note lp = recv_stream [OF s1(2,3,6) fl(1,3) cs(1) K cs(2) s1(5), of t' "unat planned - length ?cs"]
  have fs: "?fs ! 0 = frame OFFER (u64_to_be (word_of_nat ?n)) ?fl" "?fs ! 1 = frame START (u64_to_be (word_of_nat off)) ?fl"
    "drop 2 ?fs = map (\<lambda>c. frame DATA c ?fl) ?cs @ [frame DONE (blake3 K payload) ?fl] @
      replicate (unat planned - length ?cs) (frame COVER [] ?fl) @ [frame FINISH [] ?fl]"
    by (simp_all add: wire_frames_def Let_def)
  have ack: "expect_frame (Inr (frame ACK [] ?fl)) ACK = Inr []" by (simp add: expect_frame_def parse_frame_frame)
  have "recv_transfer K t' d (Inr (?fs ! 0), True) (Inr (?fs ! 1), True) (map deliver (drop 2 ?fs)) =
      (\<lparr>part = None, dest = Some payload\<rparr>, Inr \<lparr>sum_total = ?n, resumed_from = off, sum_hash = blake3 K payload,
        cover_frames = unat planned - length ?cs\<rparr>, [resume, frame ACK [] ?fl])"
    unfolding fs recv_transfer_def using op s1(1,7,8) lp by simp
  with snd ack show ?thesis by simp
qed

end
