(* ===== verification/Address.thy ===== *)
theory Address
  imports Wire
begin

text \<open>
  Where a peer can be reached: the validated v3 onion address of \<open>p2p-live/src/tor.rs\<close>, and the
  address hints of \<open>ticket.rs\<close> with their wire encoding. A \<open>SocketAddr\<close> is an IP address and a
  port; the flow label and scope of an IPv6 address are not encoded by the source either.
\<close>

section \<open>Onion addresses\<close>

record OnionAddress =
  ohost :: string
  oport :: u16

definition V3_ONION_LABEL_LEN :: nat where "V3_ONION_LABEL_LEN = 56"

definition is_base32_lower :: "char \<Rightarrow> bool" where
  "is_base32_lower c =
     (let n = of_char c :: nat in (97 \<le> n \<and> n \<le> 122) \<or> (50 \<le> n \<and> n \<le> 55))"

definition OnionAddress_new :: "string \<Rightarrow> u16 \<Rightarrow> Error + OnionAddress" where
  "OnionAddress_new h p =
     (let host = to_lowercase (trim h) in
      bindE (ok_or (EConnect ''is not a .onion address'') (strip_suffix ''.onion'' host)) (\<lambda>label.
      bindE (guardE (length label = V3_ONION_LABEL_LEN) (EConnect ''is not a v3 onion address'')) (\<lambda>_.
      bindE (guardE (list_all is_base32_lower label) (EConnect ''not valid base32'')) (\<lambda>_.
      bindE (guardE (p \<noteq> 0) (EConnect ''onion port must not be zero'')) (\<lambda>_.
        Inr \<lparr>ohost = host, oport = p\<rparr>)))))"

definition onion_ok :: "OnionAddress \<Rightarrow> bool" where
  "onion_ok a \<longleftrightarrow>
     length (ohost a) = 62 \<and> drop 56 (ohost a) = ''.onion'' \<and>
     list_all is_base32_lower (take 56 (ohost a)) \<and> oport a \<noteq> 0"

lemma OnionAddress_new_ok: "OnionAddress_new h p = Inr a \<Longrightarrow> onion_ok a"
  by (auto simp: OnionAddress_new_def Let_def result_simps strip_suffix_Some onion_ok_def V3_ONION_LABEL_LEN_def)

lemma base32_char:
  assumes "is_base32_lower c"
  shows "to_lower c = c" "\<not> is_whitespace c" "(of_char c :: nat) < 128"
  using assms by (auto simp: is_base32_lower_def to_lower_def is_whitespace_def Let_def)

lemma onion_split:
  assumes "onion_ok a"
  obtains label where "ohost a = label @ ''.onion''" "length label = 56" "list_all is_base32_lower label"
proof -
  have "ohost a = take 56 (ohost a) @ drop 56 (ohost a)" by simp
  with assms that [of "take 56 (ohost a)"] show thesis by (simp add: onion_ok_def)
qed

lemma OnionAddress_new_id:
  assumes "onion_ok a"
  shows "OnionAddress_new (ohost a) (oport a) = Inr a"
proof -
  from assms obtain label where l: "ohost a = label @ ''.onion''" "length label = 56" "list_all is_base32_lower label"
    by (rule onion_split)
  have "is_base32_lower (hd label)" "label \<noteq> []" using l(2,3) by (cases label; simp)+
  then have "trim (ohost a) = ohost a"
    using l(1) base32_char(2) by (intro trim_id) (simp_all add: is_whitespace_def)
  moreover have "map to_lower label = label"
    using l(3) base32_char(1) by (induction label) auto
  then have "to_lowercase (ohost a) = ohost a"
    using l(1) by (simp add: to_lowercase_def to_lower_def)
  moreover have "strip_suffix ''.onion'' (ohost a) = Some label" using l(1) by (simp add: strip_suffix_Some)
  ultimately show ?thesis
    using l assms by (simp add: OnionAddress_new_def Let_def V3_ONION_LABEL_LEN_def onion_ok_def)
qed

lemma onion_ascii: "onion_ok a \<Longrightarrow> is_ascii (ohost a)"
  by (erule onion_split) (auto simp: is_ascii_def list_all_iff base32_char)

section \<open>Endpoints and hints\<close>

datatype IpAddr = V4 u32 | V6 "128 word"

record SocketAddr =
  ip :: IpAddr
  port :: u16

datatype Endpoint = Direct SocketAddr | Onion OnionAddress

definition MAX_HINTS :: nat where "MAX_HINTS = 8"
definition TAG_V4 :: byte where "TAG_V4 = 4"
definition TAG_V6 :: byte where "TAG_V6 = 6"
definition TAG_ONION :: byte where "TAG_ONION = 9"
definition ONION_LABEL_BYTES :: nat where "ONION_LABEL_BYTES = 62"

lemmas hint_consts = TAG_V4_def TAG_V6_def TAG_ONION_def ONION_LABEL_BYTES_def

definition encode_hint :: "Endpoint \<Rightarrow> bytes" where
  "encode_hint h =
     (case h of
        Direct a \<Rightarrow>
          (case ip a of V4 o4 \<Rightarrow> TAG_V4 # u32_to_be o4 | V6 o6 \<Rightarrow> TAG_V6 # u128_to_be o6) @ u16_to_be (port a)
      | Onion a \<Rightarrow> TAG_ONION # str_bytes (ohost a) @ u16_to_be (oport a))"

definition encode_hints :: "Endpoint list \<Rightarrow> bytes" where
  "encode_hints hints = word_of_nat (length hints) # concat (map encode_hint hints)"

definition decode_hint :: "Reader \<Rightarrow> Error + Endpoint \<times> Reader" where
  "decode_hint r =
     bindE (r_u8 r) (\<lambda>(tag, r1).
       if tag = TAG_V4 then
         bindE (r_take 4 r1) (\<lambda>(o4, r2). bindE (r_u16 r2) (\<lambda>(p, r3).
           Inr (Direct \<lparr>ip = V4 (u32_from_be o4), port = p\<rparr>, r3)))
       else if tag = TAG_V6 then
         bindE (r_take 16 r1) (\<lambda>(o6, r2). bindE (r_u16 r2) (\<lambda>(p, r3).
           Inr (Direct \<lparr>ip = V6 (u128_from_be o6), port = p\<rparr>, r3)))
       else if tag = TAG_ONION then
         bindE (r_take ONION_LABEL_BYTES r1) (\<lambda>(label, r2).
         bindE (ok_or (ETicket ''onion hint is not valid UTF-8'') (from_utf8 label)) (\<lambda>host.
         bindE (r_u16 r2) (\<lambda>(p, r3).
         bindE (map_err (\<lambda>_. ETicket ''bad onion hint'') (OnionAddress_new host p)) (\<lambda>a.
           Inr (Onion a, r3)))))
       else Inl (ETicket ''unknown address family tag''))"

definition decode_hints :: "Reader \<Rightarrow> Error + Endpoint list \<times> Reader" where
  "decode_hints r =
     bindE (r_u8 r) (\<lambda>(c, r1).
       let hint_count = unat c in
       bindE (guardE (hint_count \<le> MAX_HINTS) (ETicket ''more address hints than allowed'')) (\<lambda>_.
         decode_n hint_count decode_hint r1))"

definition hint_ok :: "Endpoint \<Rightarrow> bool" where
  "hint_ok h = (case h of Direct a \<Rightarrow> True | Onion a \<Rightarrow> onion_ok a)"

definition hints_ok :: "Endpoint list \<Rightarrow> bool" where
  "hints_ok hs \<longleftrightarrow> length hs \<le> MAX_HINTS \<and> list_all hint_ok hs"

lemma decode_hint_rest:
  assumes "hint_ok h" "rest_is r (encode_hint h @ t)"
  shows "decode_hint r = Inr (h, advance (length (encode_hint h)) r)"
proof (cases h)
  case (Direct a)
  note r0 = assms(2) [unfolded encode_hint_def Direct]
  show ?thesis
  proof (cases "ip a")
    case (V4 w)
    with r0 have r1: "rest_is r ([TAG_V4] @ u32_to_be w @ u16_to_be (port a) @ t)" by simp
    note r2 = rest_is_advance [OF r1, simplified] note r3 = rest_is_advance [OF r2, simplified]
    from r1 r2 r3 V4 Direct show ?thesis
      by (simp add: decode_hint_def encode_hint_def r_u8_rest [OF r1] r_take_rest [OF r2] r_u16_rest [OF r3] hint_consts)
  next
    case (V6 w)
    with r0 have r1: "rest_is r ([TAG_V6] @ u128_to_be w @ u16_to_be (port a) @ t)" by simp
    note r2 = rest_is_advance [OF r1, simplified] note r3 = rest_is_advance [OF r2, simplified]
    from r1 r2 r3 V6 Direct show ?thesis
      by (simp add: decode_hint_def encode_hint_def r_u8_rest [OF r1] r_take_rest [OF r2] r_u16_rest [OF r3] hint_consts)
  qed
next
  case (Onion a)
  with assms(1) have ok: "onion_ok a" by (simp add: hint_ok_def)
  then have len: "length (ohost a) = 62" by (simp add: onion_ok_def)
  from assms(2) Onion have r1: "rest_is r ([TAG_ONION] @ str_bytes (ohost a) @ u16_to_be (oport a) @ t)"
    by (simp add: encode_hint_def)
  note r2 = rest_is_advance [OF r1, simplified] note r3 = rest_is_advance [OF r2, simplified]
  show ?thesis
    using Onion len OnionAddress_new_id [OF ok] onion_ascii [OF ok]
    by (simp add: decode_hint_def encode_hint_def r_u8_rest [OF r1] r_take_rest [OF r2]
        r_u16_rest [OF r3, simplified len, simplified] hint_consts)
qed

interpretation hint: wire_codec encode_hint decode_hint hint_ok
  by unfold_locales (rule decode_hint_rest)

lemma decode_hints_rest:
  assumes "hints_ok hs" "rest_is r (encode_hints hs @ t)"
  shows "decode_hints r = Inr (hs, advance (length (encode_hints hs)) r)"
proof -
  let ?n = "length hs"
  have n: "unat (word_of_nat ?n :: byte) = ?n" "?n \<le> MAX_HINTS"
    using assms(1) by (simp_all add: hints_ok_def MAX_HINTS_def)
  from assms(2) have r1: "rest_is r ([word_of_nat ?n] @ concat (map encode_hint hs) @ t)"
    by (simp add: encode_hints_def)
  note r2 = rest_is_advance [OF r1, simplified]
  have "decode_n ?n decode_hint (advance 1 r) = Inr (hs, advance (length (concat (map encode_hint hs))) (advance 1 r))"
    using assms(1) r2 by (intro hint.dec_enc_list) (auto simp: hints_ok_def list_all_iff)
  with n show ?thesis
    by (simp add: decode_hints_def encode_hints_def r_u8_rest [OF r1])
qed

interpretation hints: wire_codec encode_hints decode_hints hints_ok
  by unfold_locales (rule decode_hints_rest)

text \<open>Whatever is decoded is well formed, so an accepted hint never names a bad onion host.\<close>

lemma decode_hint_ok: "decode_hint r = Inr (h, r') \<Longrightarrow> hint_ok h"
  by (auto simp: decode_hint_def result_simps hint_ok_def split: if_splits dest: OnionAddress_new_ok)

lemma decode_n_all:
  assumes "decode_n n d r = Inr (xs, r')" "\<And>r x r'. d r = Inr (x, r') \<Longrightarrow> P x"
  shows "length xs = n \<and> list_all P xs"
  using assms(1) by (induction n arbitrary: r xs r') (auto simp: result_simps dest: assms(2))

lemma decode_hints_ok: "decode_hints r = Inr (hs, r') \<Longrightarrow> hints_ok hs"
proof -
  assume "decode_hints r = Inr (hs, r')"
  then obtain n r1 where "n \<le> MAX_HINTS" and d: "decode_n n decode_hint r1 = Inr (hs, r')"
    by (auto simp: decode_hints_def result_simps Let_def)
  moreover have "length hs = n \<and> list_all hint_ok hs" using d decode_hint_ok by (rule decode_n_all)
  ultimately show "hints_ok hs" by (simp add: hints_ok_def)
qed

end
