(* ===== verification/Tickets.thy ===== *)
theory Tickets
  imports Address Identity
begin

text \<open>
  Connection tickets (\<open>p2p-live/src/ticket.rs\<close>) and server links (\<open>discovery/link.rs\<close>): their
  binary encodings, and the pasteable text form both share, a lower-cased base32 body with a
  transcription checksum behind a prefix. \<open>rustls\<close>'s check of a host name is an argument.
\<close>

section \<open>The text form\<close>

definition CHECKSUM_LEN :: nat where "CHECKSUM_LEN = 4"

definition checksum :: "key_lib \<Rightarrow> bytes \<Rightarrow> bytes \<Rightarrow> bytes" where
  "checksum K domain payload = take CHECKSUM_LEN (blake3 K (domain @ payload))"

definition text_encode :: "key_lib \<Rightarrow> string \<Rightarrow> bytes \<Rightarrow> bytes \<Rightarrow> string" where
  "text_encode K prefix domain payload = prefix @ to_lowercase (b32_encode K (payload @ checksum K domain payload))"

definition text_decode :: "key_lib \<Rightarrow> string \<Rightarrow> bytes \<Rightarrow> (string \<Rightarrow> Error) \<Rightarrow> string \<Rightarrow> Error + bytes" where
  "text_decode K prefix domain err s =
     (let lowered = to_lowercase (trim s) in
      bindE (ok_or (err ''must start with the prefix'') (strip_prefix prefix lowered)) (\<lambda>body.
      bindE (ok_or (err ''not valid base32'') (b32_decode K (to_uppercase body))) (\<lambda>decoded.
      bindE (guardE (CHECKSUM_LEN < length decoded) (err ''too short to be valid'')) (\<lambda>_.
      let payload = take (length decoded - CHECKSUM_LEN) decoded;
          tail = drop (length decoded - CHECKSUM_LEN) decoded
      in bindE (guardE (tail = checksum K domain payload) (err ''checksum does not match'')) (\<lambda>_.
           Inr payload)))))"

lemma length_checksum: "blake3_ok K \<Longrightarrow> length (checksum K domain p) = CHECKSUM_LEN"
  by (simp add: checksum_def blake3_ok_def CHECKSUM_LEN_def)

lemma text_decode_encode:
  assumes "b32_ok K" "blake3_ok K" "payload \<noteq> []"
    and "to_lowercase (trim s) = text_encode K prefix domain payload"
  shows "text_decode K prefix domain err s = Inr payload"
proof -
  let ?d = "payload @ checksum K domain payload"
  have e: "list_all b32_char (b32_encode K ?d)" "b32_decode K (b32_encode K ?d) = Some ?d"
    using assms(1) by (simp_all add: b32_ok_def)
  have len: "length ?d - CHECKSUM_LEN = length payload" "CHECKSUM_LEN < length ?d"
    using length_checksum [OF assms(2)] assms(3) by simp_all
  then show ?thesis
    unfolding text_decode_def assms(4) text_encode_def Let_def using e by (simp add: b32_upper_lower)
qed

lemma lower_upper: "to_lowercase (to_uppercase s) = to_lowercase s"
proof -
  have "to_lower (to_upper c) = to_lower c" for c
    by (cases "97 \<le> (of_char c :: nat) \<and> (of_char c :: nat) \<le> 122") (auto simp: to_lower_def to_upper_def Let_def)
  then show ?thesis by (simp add: to_lowercase_def to_uppercase_def)
qed

text \<open>Whatever the decoder accepts is, up to case and surrounding white space, an encoding.\<close>

lemma text_decode_sound:
  assumes "b32_ok K" "text_decode K prefix domain err s = Inr payload"
  shows "payload \<noteq> [] \<and> to_lowercase (trim s) = text_encode K prefix domain payload"
proof -
  from assms(2) obtain body decoded where b: "to_lowercase (trim s) = prefix @ body"
    "b32_decode K (to_uppercase body) = Some decoded" "CHECKSUM_LEN < length decoded"
    "payload = take (length decoded - CHECKSUM_LEN) decoded"
    "drop (length decoded - CHECKSUM_LEN) decoded = checksum K domain payload"
    by (auto simp: text_decode_def Let_def result_simps strip_prefix_Some)
  have "b32_encode K decoded = to_uppercase body" using assms(1) b(2) by (simp add: b32_ok_def)
  moreover have "decoded = payload @ checksum K domain payload" using b(4,5) by (metis append_take_drop_id)
  moreover have "to_lowercase body = body"
  proof -
    have "to_lowercase (prefix @ body) = prefix @ body" by (simp only: b(1) [symmetric] to_lowercase_idem)
    then show ?thesis by (simp add: to_lowercase_def)
  qed
  ultimately have "to_lowercase (b32_encode K (payload @ checksum K domain payload)) = body"
    by (simp add: lower_upper)
  with b show ?thesis by (auto simp: text_encode_def)
qed

lemma text_plain:
  assumes "b32_ok K" "to_lowercase prefix = prefix" "\<And>c. c \<in> set prefix \<Longrightarrow> \<not> is_whitespace c"
  shows "to_lowercase (trim (text_encode K prefix domain bs)) = text_encode K prefix domain bs"
proof -
  from assms(1) have b: "list_all b32_char (b32_encode K bs)" for bs by (simp add: b32_ok_def)
  have "trim (text_encode K prefix domain bs) = text_encode K prefix domain bs"
    unfolding text_encode_def using assms(3) b32_lower_nonspace [OF b] by (intro trim_nonspace) auto
  moreover have "to_lowercase (text_encode K prefix domain bs) = text_encode K prefix domain bs"
    unfolding text_encode_def using assms(2) to_lowercase_idem [of "b32_encode K _"]
    by (simp add: to_lowercase_def)
  ultimately show ?thesis by simp
qed

text \<open>
  What a type with a pasteable form promises: a binary encoding that reads back. Its text form
  then survives changes of case and surrounding white space.
\<close>

locale text_form =
  fixes enc :: "'a \<Rightarrow> bytes" and dec :: "'p \<Rightarrow> bytes \<Rightarrow> Error + 'a" and ok :: "'p \<Rightarrow> 'a \<Rightarrow> bool"
    and prefix :: string and domain :: bytes and err :: "string \<Rightarrow> Error"
  assumes dec_enc: "ok p x \<Longrightarrow> dec p (enc x) = Inr x"
    and enc_nonempty: "enc x \<noteq> []"
    and dec_ok: "dec p bs = Inr x \<Longrightarrow> ok p x"
begin

lemma text_roundtrip:
  assumes "b32_ok K" "blake3_ok K" "ok p x" "to_lowercase (trim s) = text_encode K prefix domain (enc x)"
  shows "bindE (text_decode K prefix domain err s) (dec p) = Inr x"
  using text_decode_encode [OF assms(1,2) enc_nonempty assms(4)] dec_enc [OF assms(3)] by simp

lemma text_accepts:
  assumes "b32_ok K" "bindE (text_decode K prefix domain err s) (dec p) = Inr x"
  shows "ok p x \<and> (\<exists>bs. dec p bs = Inr x \<and> to_lowercase (trim s) = text_encode K prefix domain bs)"
proof -
  from assms(2) obtain bs where "text_decode K prefix domain err s = Inr bs" "dec p bs = Inr x"
    by (auto simp: result_simps)
  with text_decode_sound [OF assms(1)] dec_ok show ?thesis by blast
qed

end

section \<open>Tickets\<close>

datatype Suite = LivePq1

fun suite_to_byte :: "Suite \<Rightarrow> byte" where
  "suite_to_byte LivePq1 = 1"

definition suite_from_byte :: "byte \<Rightarrow> Error + Suite" where
  "suite_from_byte b = (if b = 1 then Inr LivePq1 else Inl (ETicket ''unknown suite''))"

definition FORMAT_VERSION :: byte where "FORMAT_VERSION = 1"
definition TICKET_PREFIX :: string where "TICKET_PREFIX = ''atom-live-1:''"
definition TICKET_CHECKSUM_DOMAIN :: bytes where "TICKET_CHECKSUM_DOMAIN = str_bytes ''atom-live-ticket-checksum-v1''"
definition DEFAULT_TTL_SECS :: u64 where "DEFAULT_TTL_SECS = 24 * 60 * 60"

record Ticket =
  identity :: IdentityBundle
  hints :: "Endpoint list"
  suite :: Suite
  not_after :: u64

definition Ticket_new :: "u64 \<Rightarrow> IdentityBundle \<Rightarrow> Endpoint list \<Rightarrow> Ticket" where
  "Ticket_new now i hs = \<lparr>identity = i, hints = hs, suite = LivePq1, not_after = saturating_add now DEFAULT_TTL_SECS\<rparr>"

definition is_expired_at :: "Ticket \<Rightarrow> u64 \<Rightarrow> bool" where
  "is_expired_at t now \<longleftrightarrow> not_after t \<le> now"

definition check_valid :: "u64 \<Rightarrow> Ticket \<Rightarrow> Error + unit" where
  "check_valid now t = guardE (\<not> is_expired_at t now) (ETicket ''ticket has expired'')"

definition ticket_to_bytes :: "Ticket \<Rightarrow> bytes" where
  "ticket_to_bytes t =
     (let bundle = bundle_to_bytes (identity t)
      in FORMAT_VERSION # suite_to_byte (suite t) # u64_to_be (not_after t) @
         u16_to_be (word_of_nat (length bundle)) @ bundle @ encode_hints (hints t))"

definition ticket_from_bytes :: "bytes \<Rightarrow> Error + Ticket" where
  "ticket_from_bytes bs =
     bindE (r_u8 (Reader_new bs)) (\<lambda>(version, r1).
     bindE (guardE (version = FORMAT_VERSION) (ETicket ''ticket format version'')) (\<lambda>_.
     bindE (r_u8 r1) (\<lambda>(s, r2).
     bindE (suite_from_byte s) (\<lambda>su.
     bindE (r_u64 r2) (\<lambda>(na, r3).
     bindE (r_u16 r3) (\<lambda>(id_len, r4).
     bindE (guardE (unat id_len \<noteq> 0) (ETicket ''ticket carries no identity'')) (\<lambda>_.
     bindE (r_take (unat id_len) r4) (\<lambda>(ib, r5).
     bindE (map_err (\<lambda>_. ETicket ''ticket carries a bad identity'') (bundle_from_bytes ib)) (\<lambda>i.
     bindE (decode_hints r5) (\<lambda>(hs, r6).
     bindE (guardE (r_is_empty r6) (ETicket ''trailing bytes after ticket'')) (\<lambda>_.
       Inr \<lparr>identity = i, hints = hs, suite = su, not_after = na\<rparr>)))))))))))"

definition direct_hints :: "Ticket \<Rightarrow> SocketAddr list" where
  "direct_hints t = List.map_filter (\<lambda>h. case h of Direct a \<Rightarrow> Some a | Onion _ \<Rightarrow> None) (hints t)"

definition onion_hints :: "Ticket \<Rightarrow> OnionAddress list" where
  "onion_hints t = List.map_filter (\<lambda>h. case h of Onion a \<Rightarrow> Some a | Direct _ \<Rightarrow> None) (hints t)"

definition ticket_to_text :: "key_lib \<Rightarrow> Ticket \<Rightarrow> string" where
  "ticket_to_text K t = text_encode K TICKET_PREFIX TICKET_CHECKSUM_DOMAIN (ticket_to_bytes t)"

definition ticket_from_text :: "key_lib \<Rightarrow> string \<Rightarrow> Error + Ticket" where
  "ticket_from_text K s = bindE (text_decode K TICKET_PREFIX TICKET_CHECKSUM_DOMAIN ETicket s) ticket_from_bytes"

definition ticket_ok :: "Ticket \<Rightarrow> bool" where
  "ticket_ok t \<longleftrightarrow> bundle_ok (identity t) \<and> hints_ok (hints t) \<and> length (bundle_to_bytes (identity t)) < 2 ^ 16"

lemma decode_hints_at:
  assumes "hints_ok hs"
  shows "decode_hints (Reader_at pre (encode_hints hs) nn) = Inr (hs, Reader_at (pre @ encode_hints hs) [] nn)"
  using decode_hints_rest [OF assms, of "Reader_at pre (encode_hints hs) nn" "[]"]
    advance_at [of "length (encode_hints hs)" "encode_hints hs" pre "[]" nn] by simp

lemma length_bundle_pos: "0 < length (bundle_to_bytes b)"
  by (simp add: bundle_to_bytes_def Let_def)

lemma ticket_roundtrip:
  assumes "ticket_ok t"
  shows "ticket_from_bytes (ticket_to_bytes t) = Inr t"
proof -
  have "bundle_from_bytes (bundle_to_bytes (identity t)) = Inr (identity t)" "hints_ok (hints t)"
    "unat (word_of_nat (length (bundle_to_bytes (identity t))) :: u16) = length (bundle_to_bytes (identity t))"
    using assms bundle_roundtrip by (simp_all add: ticket_ok_def)
  then show ?thesis
    using length_bundle_pos [of "identity t"]
    by (cases "suite t")
      (simp_all add: ticket_from_bytes_def ticket_to_bytes_def Let_def Reader_new_at wire_simps
        suite_from_byte_def decode_hints_at)
qed

lemma ticket_from_bytes_ok:
  assumes "ticket_from_bytes bs = Inr t"
  shows "ticket_ok t"
proof -
  from assms obtain r4 and n :: u16 and ib r5 r6 where t: "r_take (unat n) r4 = Inr (ib, r5)"
    "bundle_from_bytes ib = Inr (identity t)" "decode_hints r5 = Inr (hints t, r6)"
    by (auto simp: ticket_from_bytes_def result_simps)
  have "length ib < 2 ^ 16" using r_take_Inr(1) [OF t(1)] unat_bound [of n] by simp
  with bundle_canonical [OF t(2)] decode_hints_ok [OF t(3)] show ?thesis by (simp add: ticket_ok_def)
qed

interpretation ticket: text_form ticket_to_bytes "\<lambda>_::unit. ticket_from_bytes" "\<lambda>_. ticket_ok"
  TICKET_PREFIX TICKET_CHECKSUM_DOMAIN ETicket
  by unfold_locales (simp_all add: ticket_roundtrip ticket_from_bytes_ok, simp add: ticket_to_bytes_def Let_def)

lemma ticket_text_plain: "b32_ok K \<Longrightarrow> to_lowercase (trim (ticket_to_text K t)) = ticket_to_text K t"
  unfolding ticket_to_text_def
  by (rule text_plain) (auto simp: TICKET_PREFIX_def is_whitespace_def to_lowercase_def to_lower_def)

end
