(* ===== verification/Records.thy ===== *)
theory Records
  imports Tickets Crypto
begin

text \<open>
  Addressing and sealing of published address records: the per-pair rendezvous secret and its
  epoch slots (\<open>p2p-live/src/discovery/secret.rs\<close>) and the fixed-width sealed record
  (\<open>discovery/record.rs\<close>). Keyed BLAKE3 in extendable-output mode is the argument \<open>xof\<close>.
\<close>

section \<open>Directions\<close>

datatype Direction = LowToHigh | HighToLow

definition publishing :: "bytes \<Rightarrow> bytes \<Rightarrow> Direction" where
  "publishing local_id peer_id = (if bytes_less local_id peer_id then LowToHigh else HighToLow)"

fun flip :: "Direction \<Rightarrow> Direction" where
  "flip LowToHigh = HighToLow"
| "flip HighToLow = LowToHigh"

fun direction_to_byte :: "Direction \<Rightarrow> byte" where
  "direction_to_byte LowToHigh = 0"
| "direction_to_byte HighToLow = 1"

text \<open>
  Several parts of the program settle who does what by comparing two identifiers, with no
  negotiation. \<open>role_split\<close> is the contract: exchanging the two sides exchanges the roles.
\<close>

locale role_split =
  fixes pick :: "bytes \<Rightarrow> bytes \<Rightarrow> 'r" and other :: "'r \<Rightarrow> 'r"
  assumes other_neq: "other r \<noteq> r" and other_other: "other (other r) = r"
    and pick_swap: "a \<noteq> b \<Longrightarrow> pick a b = other (pick b a)"
begin

lemma sides_differ: "a \<noteq> b \<Longrightarrow> pick a b \<noteq> pick b a"
  using pick_swap [of a b] other_neq [of "pick b a"] by simp

lemma peer_role: "a \<noteq> b \<Longrightarrow> other (pick a b) = pick b a"
  using pick_swap [of a b] other_other [of "pick b a"] by simp

lemma exactly_one: "a \<noteq> b \<Longrightarrow> pick a b = r \<Longrightarrow> pick b a = other r"
  using peer_role [of a b] by simp

end

interpretation direction: role_split publishing flip
proof
  fix r show "flip r \<noteq> r" by (cases r) simp_all
next
  fix r show "flip (flip r) = r" by (cases r) simp_all
next
  fix a b :: bytes
  assume "a \<noteq> b"
  then have "bytes_less a b \<longleftrightarrow> \<not> bytes_less b a"
    using bytes_less_asym [of a b] bytes_less_total [of a b] by blast
  then show "publishing a b = flip (publishing b a)" by (simp add: publishing_def)
qed

section \<open>Slots\<close>

definition SLOT_DOMAIN :: bytes where "SLOT_DOMAIN = str_bytes ''atom-live-rdv-slot-v1''"
definition EPOCH_SECS :: u64 where "EPOCH_SECS = 3600"
definition TAG_LEN :: nat where "TAG_LEN = 32"
definition SLOT_KEY_LEN :: nat where "SLOT_KEY_LEN = 32"

record Slot =
  slot_tag :: bytes
  slot_key :: bytes

type_synonym xof = "bytes \<Rightarrow> bytes \<Rightarrow> nat \<Rightarrow> bytes"

definition xof_ok :: "xof \<Rightarrow> bool" where
  "xof_ok x \<longleftrightarrow> (\<forall>k m n. length (x k m n) = n)"

definition slot :: "xof \<Rightarrow> bytes \<Rightarrow> Direction \<Rightarrow> u64 \<Rightarrow> Slot" where
  "slot x secret dir epoch =
     (let out = x secret (SLOT_DOMAIN @ [direction_to_byte dir] @ u64_to_be epoch) (TAG_LEN + SLOT_KEY_LEN)
      in \<lparr>slot_tag = take TAG_LEN out, slot_key = drop TAG_LEN out\<rparr>)"

definition epoch_at :: "u64 \<Rightarrow> u64" where
  "epoch_at now = now div EPOCH_SECS"

definition publish_slots :: "xof \<Rightarrow> bytes \<Rightarrow> Direction \<Rightarrow> u64 \<Rightarrow> Slot list" where
  "publish_slots x secret dir now =
     (let epoch = epoch_at now in [slot x secret dir epoch, slot x secret dir (epoch + 1)])"

definition saturating_pred :: "u64 \<Rightarrow> u64" where
  "saturating_pred w = (if w = 0 then 0 else w - 1)"

definition lookup_slots :: "xof \<Rightarrow> bytes \<Rightarrow> Direction \<Rightarrow> u64 \<Rightarrow> Slot list" where
  "lookup_slots x secret dir now =
     (let epoch = epoch_at now
      in [slot x secret dir (saturating_pred epoch), slot x secret dir epoch, slot x secret dir (epoch + 1)])"

definition tag_hex :: "Slot \<Rightarrow> string" where
  "tag_hex s = concat (map hex_lower (slot_tag s))"

lemma unat_epoch: "unat (epoch_at now) = unat now div 3600"
  by (simp add: epoch_at_def EPOCH_SECS_def unat_div_distrib)

lemma unat_epoch_succ: "unat (epoch_at now + 1) = unat now div 3600 + 1"
proof -
  have "unat now \<le> 2 ^ 64 - 1" using unat_bound [of now] by simp
  then have "unat now div 3600 \<le> (2 ^ 64 - 1) div 3600" by (rule div_le_mono)
  then have "unat now div 3600 + 1 < 2 ^ 64" by simp
  then show ?thesis using unat_epoch [of now] by (simp add: unat_word_ariths)
qed

lemma unat_saturating_pred: "unat (saturating_pred w) = unat w - 1"
  by (simp add: saturating_pred_def unat_minus_one)

text \<open>
  Clocks that are at most one epoch apart share a slot: one of the two slots written at \<open>tp\<close> is
  among the three searched at \<open>tr\<close>.
\<close>

lemma slots_meet:
  assumes "unat tp \<le> unat tr + 3600" "unat tr \<le> unat tp + 3600"
  shows "\<exists>e \<in> {epoch_at tp, epoch_at tp + 1}. e \<in> {saturating_pred (epoch_at tr), epoch_at tr, epoch_at tr + 1}"
proof -
  let ?p = "unat tp div 3600" and ?l = "unat tr div 3600"
  have "?p \<le> ?l + 1" using div_le_mono [OF assms(1), of 3600] by simp
  moreover have "?l \<le> ?p + 1" using div_le_mono [OF assms(2), of 3600] by simp
  ultimately consider "?l = ?p" | "?l = ?p + 1" | "?p = ?l + 1" by linarith
  then show ?thesis
  proof cases
    case 1
    then have "epoch_at tr = epoch_at tp" by (simp add: unat_epoch unat_arith_simps(3))
    then show ?thesis by (intro bexI [of _ "epoch_at tp"]) simp_all
  next
    case 2
    then have "epoch_at tr = epoch_at tp + 1" using unat_epoch unat_epoch_succ by (simp add: unat_arith_simps(3))
    then show ?thesis by (intro bexI [of _ "epoch_at tp + 1"]) simp_all
  next
    case 3
    then have "epoch_at tp = epoch_at tr + 1" using unat_epoch unat_epoch_succ by (simp add: unat_arith_simps(3))
    then show ?thesis by (intro bexI [of _ "epoch_at tp"]) simp_all
  qed
qed

section \<open>Address records\<close>

definition AAD_DOMAIN :: bytes where "AAD_DOMAIN = str_bytes ''atom-live-rdv-record-v1''"
definition NONCE_LEN :: nat where "NONCE_LEN = 24"
definition AEAD_TAG_LEN :: nat where "AEAD_TAG_LEN = 16"
definition PLAINTEXT_LEN :: nat where "PLAINTEXT_LEN = 640"
definition SEALED_LEN :: nat where "SEALED_LEN = NONCE_LEN + PLAINTEXT_LEN + AEAD_TAG_LEN"
definition MAX_TTL_SECS :: u64 where "MAX_TTL_SECS = 6 * 3600"
definition RECORD_TTL_SECS :: u64 where "RECORD_TTL_SECS = 2 * 3600"

lemmas record_consts = NONCE_LEN_def AEAD_TAG_LEN_def PLAINTEXT_LEN_def SEALED_LEN_def

record AddressRecord =
  rhints :: "Endpoint list"
  seq :: u64
  rnot_after :: u64

definition AddressRecord_new :: "u64 \<Rightarrow> Endpoint list \<Rightarrow> u64 \<Rightarrow> Error + AddressRecord" where
  "AddressRecord_new millis hs now =
     bindE (guardE (hs \<noteq> []) (EDiscovery ''refusing to publish a record with no addresses'')) (\<lambda>_.
       Inr \<lparr>rhints = hs, seq = millis, rnot_after = saturating_add now RECORD_TTL_SECS\<rparr>)"

definition supersedes :: "AddressRecord \<Rightarrow> u64 option \<Rightarrow> bool" where
  "supersedes r newest_seen = (case newest_seen of None \<Rightarrow> True | Some seen \<Rightarrow> seen < seq r)"

definition record_expired_at :: "AddressRecord \<Rightarrow> u64 \<Rightarrow> bool" where
  "record_expired_at r now \<longleftrightarrow> rnot_after r \<le> now"

definition aad_for :: "Slot \<Rightarrow> bytes" where
  "aad_for s = AAD_DOMAIN @ slot_tag s"

definition to_plaintext :: "AddressRecord \<Rightarrow> bytes" where
  "to_plaintext r = FORMAT_VERSION # u64_to_be (seq r) @ u64_to_be (rnot_after r) @ encode_hints (rhints r)"

definition seal_record :: "crypto_lib \<Rightarrow> AddressRecord \<Rightarrow> Slot \<Rightarrow> rng \<Rightarrow> Error + bytes \<times> rng" where
  "seal_record C r s g =
     (let body = to_plaintext r in
      bindE (guardE (length body + 2 \<le> PLAINTEXT_LEN) (EDiscovery ''address record is past the fixed width'')) (\<lambda>_.
      let (pad, g1) = draw (PLAINTEXT_LEN - (2 + length body)) g;
          plaintext = u16_to_be (word_of_nat (length body)) @ body @ pad;
          (nonce, g2) = draw NONCE_LEN g1
      in bindE (guardE (length (slot_key s) = 32) (EDiscovery ''bad slot key'')) (\<lambda>_.
         bindE (ok_or (EDiscovery ''sealing the address record failed'')
                  (aead_seal C (slot_key s) nonce (aad_for s) plaintext)) (\<lambda>ct.
           Inr (nonce @ ct, g2)))))"

definition from_plaintext :: "bytes \<Rightarrow> Error + AddressRecord" where
  "from_plaintext p =
     bindE (guardE (length p = PLAINTEXT_LEN) (EDiscovery ''address record has the wrong width'')) (\<lambda>_.
     let body_len = unat (u16_from_be (take 2 p)) in
     bindE (guardE (body_len + 2 \<le> PLAINTEXT_LEN) (EDiscovery ''declares a body past its own width'')) (\<lambda>_.
     let body = slice 2 body_len p in
     bindE (r_u8 (Reader_named body ''address record'')) (\<lambda>(version, r1).
     bindE (guardE (version = FORMAT_VERSION) (EDiscovery ''address record format version'')) (\<lambda>_.
     bindE (r_u64 r1) (\<lambda>(sq, r2).
     bindE (r_u64 r2) (\<lambda>(na, r3).
     bindE (decode_hints r3) (\<lambda>(hs, r4).
     bindE (guardE (r_is_empty r4) (EDiscovery ''trailing bytes in the address record'')) (\<lambda>_.
     bindE (guardE (hs \<noteq> []) (EDiscovery ''address record carries no addresses'')) (\<lambda>_.
       Inr \<lparr>rhints = hs, seq = sq, rnot_after = na\<rparr>)))))))))"

definition open_record :: "crypto_lib \<Rightarrow> bytes \<Rightarrow> Slot \<Rightarrow> u64 \<Rightarrow> Error + AddressRecord" where
  "open_record C sealed s now =
     bindE (guardE (length sealed = SEALED_LEN) (EDiscovery ''address record has the wrong length'')) (\<lambda>_.
     let nonce = take NONCE_LEN sealed; ct = drop NONCE_LEN sealed in
     bindE (guardE (length (slot_key s) = 32) (EDiscovery ''bad slot key'')) (\<lambda>_.
     bindE (ok_or (EDiscovery ''could not open the address record'')
              (aead_open C (slot_key s) nonce (aad_for s) ct)) (\<lambda>plaintext.
     bindE (from_plaintext plaintext) (\<lambda>r.
     bindE (guardE (\<not> record_expired_at r now) (EDiscovery ''address record has expired'')) (\<lambda>_.
     bindE (guardE (\<not> saturating_add now MAX_TTL_SECS < rnot_after r)
              (EDiscovery ''claims a lifetime past the maximum'')) (\<lambda>_. Inr r))))))"

definition record_ok :: "AddressRecord \<Rightarrow> bool" where
  "record_ok r \<longleftrightarrow> hints_ok (rhints r) \<and> rhints r \<noteq> []"

definition record_live :: "u64 \<Rightarrow> AddressRecord \<Rightarrow> bool" where
  "record_live now r \<longleftrightarrow> \<not> record_expired_at r now \<and> rnot_after r \<le> saturating_add now MAX_TTL_SECS"

lemma length_encode_hint: "hint_ok h \<Longrightarrow> length (encode_hint h) \<le> 65"
  by (auto simp: encode_hint_def hint_ok_def onion_ok_def split: Endpoint.splits IpAddr.splits)

lemma length_encode_hints: "hints_ok hs \<Longrightarrow> length (encode_hints hs) \<le> 521"
proof -
  assume h: "hints_ok hs"
  have "list_all hint_ok hs \<Longrightarrow> length (concat (map encode_hint hs)) \<le> 65 * length hs"
    by (induction hs) (auto dest: length_encode_hint)
  with h show ?thesis by (simp add: encode_hints_def hints_ok_def MAX_HINTS_def)
qed

lemma length_to_plaintext: "hints_ok (rhints r) \<Longrightarrow> length (to_plaintext r) \<le> 538"
  using length_encode_hints [of "rhints r"] by (simp add: to_plaintext_def)

lemma from_to_plaintext:
  assumes "record_ok r" "length pad = PLAINTEXT_LEN - (2 + length (to_plaintext r))"
  shows "from_plaintext (u16_to_be (word_of_nat (length (to_plaintext r))) @ to_plaintext r @ pad) = Inr r"
proof -
  let ?b = "to_plaintext r"
  have h: "hints_ok (rhints r)" "rhints r \<noteq> []" using assms(1) by (simp_all add: record_ok_def)
  have l: "length ?b \<le> 538" using h(1) by (rule length_to_plaintext)
  then have u: "unat (word_of_nat (length ?b) :: u16) = length ?b" by simp
  have sl: "slice 2 (length ?b) (u16_to_be (word_of_nat (length ?b)) @ ?b @ pad) = ?b"
    by (simp add: slice_append2 slice_append1 slice_0)
  have "bindE (r_u8 (Reader_named ?b ''address record'')) (\<lambda>(version, r1).
     bindE (guardE (version = FORMAT_VERSION) (EDiscovery ''address record format version'')) (\<lambda>_.
     bindE (r_u64 r1) (\<lambda>(sq, r2). bindE (r_u64 r2) (\<lambda>(na, r3). bindE (decode_hints r3) (\<lambda>(hs, r4).
     bindE (guardE (r_is_empty r4) (EDiscovery ''trailing bytes in the address record'')) (\<lambda>_.
     bindE (guardE (hs \<noteq> []) (EDiscovery ''address record carries no addresses'')) (\<lambda>_.
       Inr \<lparr>rhints = hs, seq = sq, rnot_after = na\<rparr>))))))) = Inr r"
    using h by (simp add: to_plaintext_def Reader_named_at wire_simps decode_hints_at)
  with l u sl assms(2) show ?thesis by (simp add: from_plaintext_def Let_def PLAINTEXT_LEN_def)
qed

lemma seal_record_Inr:
  assumes "aead_ok C" "seal_record C r s g = Inr (sealed, g')"
  shows "length sealed = SEALED_LEN" "length (slot_key s) = 32"
    "record_ok r \<Longrightarrow> record_live now r \<Longrightarrow> open_record C sealed s now = Inr r"
proof -
  let ?b = "to_plaintext r"
  obtain pad g1 where pad: "draw (PLAINTEXT_LEN - (2 + length ?b)) g = (pad, g1)" by fastforce
  obtain nonce g2 where n: "draw NONCE_LEN g1 = (nonce, g2)" by fastforce
  let ?p = "u16_to_be (word_of_nat (length ?b)) @ ?b @ pad"
  from assms(2) pad n obtain ct where ct: "aead_seal C (slot_key s) nonce (aad_for s) ?p = Some ct"
    and w: "length ?b + 2 \<le> PLAINTEXT_LEN" and k: "length (slot_key s) = 32" and s: "sealed = nonce @ ct"
    by (auto simp: seal_record_def Let_def result_simps)
  have l: "length pad = PLAINTEXT_LEN - (2 + length ?b)" "length nonce = NONCE_LEN"
    using draw_length [OF pad] draw_length [OF n] .
  from aead_okD(1,2) [OF assms(1) ct] have o': "aead_open C (slot_key s) nonce (aad_for s) ct = Some ?p"
    and lc: "length ct = length ?p + 16" by simp_all
  show len: "length sealed = SEALED_LEN" using l lc s w by (simp add: record_consts)
  show "length (slot_key s) = 32" by (rule k)
  assume "record_ok r" "record_live now r"
  with from_to_plaintext [OF _ l(1)] o' len k l(2) s show "open_record C sealed s now = Inr r"
    by (simp add: open_record_def Let_def record_live_def not_less)
qed

lemma seal_record_total:
  assumes "aead_total C" "record_ok r" "length (slot_key s) = 32"
  shows "\<exists>sealed g'. seal_record C r s g = Inr (sealed, g')"
proof -
  let ?b = "to_plaintext r"
  obtain pad g1 where pad: "draw (PLAINTEXT_LEN - (2 + length ?b)) g = (pad, g1)" by fastforce
  obtain nonce g2 where n: "draw NONCE_LEN g1 = (nonce, g2)" by fastforce
  have b: "length ?b \<le> 538" using assms(2) by (intro length_to_plaintext) (simp add: record_ok_def)
  have "length nonce = 24" "length pad \<le> 640"
    using draw_length [OF pad] draw_length [OF n] by (simp_all add: record_consts)
  with assms b obtain ct where "aead_seal C (slot_key s) nonce (aad_for s) (u16_to_be (word_of_nat (length ?b)) @ ?b @ pad) = Some ct"
    unfolding aead_total_def by fastforce
  with pad n b assms(3) show ?thesis by (simp add: seal_record_def Let_def PLAINTEXT_LEN_def)
qed

text \<open>What opens is live, well formed, and was sealed under this slot's key and tag.\<close>

lemma open_record_Inr:
  assumes "aead_ok C" "open_record C sealed s now = Inr r"
  shows "record_ok r \<and> record_live now r \<and>
    (\<exists>nonce p ct. sealed = nonce @ ct \<and> aead_seal C (slot_key s) nonce (aad_for s) p = Some ct \<and> from_plaintext p = Inr r)"
proof -
  from assms(2) obtain p where p: "aead_open C (slot_key s) (take NONCE_LEN sealed) (aad_for s) (drop NONCE_LEN sealed) = Some p"
    "from_plaintext p = Inr r" and live: "record_live now r"
    by (auto simp: open_record_def Let_def result_simps record_live_def not_less)
  have "record_ok r"
    using p(2) by (auto simp: from_plaintext_def Let_def result_simps record_ok_def dest: decode_hints_ok)
  moreover have "aead_seal C (slot_key s) (take NONCE_LEN sealed) (aad_for s) p = Some (drop NONCE_LEN sealed)"
    using assms(1) p(1) by (rule aead_okD(3))
  ultimately show ?thesis using live p(2) by (metis append_take_drop_id)
qed

end
