(* ===== verification/Pairing.thy ===== *)
theory Pairing
  imports Records
begin

text \<open>
  Pairing by a spoken code (\<open>p2p-live/src/pairing.rs\<close>): the code and its display form, the round-1
  message, and the channel that seals tickets and yields the rendezvous secret. SPAKE2 is third-party
  code, the fields of \<open>pake_lib\<close>; its state is opaque bytes. Characters are bytes, so case and white
  space are those of ASCII.
\<close>

record pake_lib =
  pake_start :: "bytes \<Rightarrow> bytes \<Rightarrow> rng \<Rightarrow> (bytes \<times> bytes) \<times> rng"
  pake_finish :: "bytes \<Rightarrow> bytes \<Rightarrow> bytes option"

text \<open>SPAKE2 agrees on a key when both sides start from the same password and identity.\<close>

definition pake_ok :: "pake_lib \<Rightarrow> bool" where
  "pake_ok P \<longleftrightarrow>
     (\<forall>pw i g1 g2 s1 m1 s2 m2 h1 h2.
        pake_start P pw i g1 = ((s1, m1), h1) \<longrightarrow> pake_start P pw i g2 = ((s2, m2), h2) \<longrightarrow>
        (\<exists>k. pake_finish P s1 m2 = Some k \<and> pake_finish P s2 m1 = Some k))"

definition PAKE_IDENTITY :: bytes where "PAKE_IDENTITY = str_bytes ''atom-vault-live-pairing-v1''"
definition SEAL_LABEL :: bytes where "SEAL_LABEL = str_bytes ''atom-live-pair-seal-v1''"
definition RENDEZVOUS_SECRET_LABEL :: bytes where "RENDEZVOUS_SECRET_LABEL = str_bytes ''atom-live-rdv-root-v1''"
definition PAIR_AAD_DOMAIN :: bytes where "PAIR_AAD_DOMAIN = str_bytes ''atom-live-pair-transcript-v1''"
definition CODE_CHARS :: nat where "CODE_CHARS = 11"
definition CODE_RAW_BYTES :: nat where "CODE_RAW_BYTES = 7"
definition MESSAGE_PREFIX :: string where "MESSAGE_PREFIX = ''atom-live-pair-1:''"

section \<open>The code\<close>

definition code_generate :: "key_lib \<Rightarrow> rng \<Rightarrow> string \<times> rng" where
  "code_generate K g =
     (let (raw, g') = draw CODE_RAW_BYTES g
      in (take CODE_CHARS (to_lowercase (b32_encode K raw)), g'))"

definition code_parse :: "string \<Rightarrow> Error + string" where
  "code_parse input =
     (let normalised = to_lowercase (filter (\<lambda>c. \<not> is_whitespace c \<and> c \<noteq> CHR ''-'') input)
      in bindE (guardE (normalised \<noteq> []) (EPairing ''pairing code is empty'')) (\<lambda>_. Inr normalised))"

function group5 :: "string \<Rightarrow> string list" where
  "group5 s = (if s = [] then [] else take 5 s # group5 (drop 5 s))"
  by pat_completeness auto
termination by (relation "measure length") auto

declare group5.simps [simp del]

fun join_with :: "string \<Rightarrow> string list \<Rightarrow> string" where
  "join_with sep [] = []"
| "join_with sep [x] = x"
| "join_with sep (x # y # ys) = x @ sep @ join_with sep (y # ys)"

definition code_display :: "string \<Rightarrow> string" where
  "code_display code = join_with ''-'' (group5 code)"

definition code_ok :: "string \<Rightarrow> bool" where
  "code_ok c \<longleftrightarrow> c \<noteq> [] \<and> to_lowercase c = c \<and> list_all (\<lambda>x. \<not> is_whitespace x \<and> x \<noteq> CHR ''-'') c"

lemma concat_group5: "concat (group5 s) = s"
proof (induction s rule: group5.induct)
  case (1 s)
  then show ?case by (simp add: group5.simps [of s])
qed

lemma filter_join: "filter P (join_with sep xs) = filter P (concat xs)" if "filter P sep = []"
  using that by (induction sep xs rule: join_with.induct) auto

lemma code_parse_display:
  assumes "code_ok c"
  shows "code_parse (code_display c) = Inr c"
proof -
  have "filter (\<lambda>x. \<not> is_whitespace x \<and> x \<noteq> CHR ''-'') (code_display c) = c"
    unfolding code_display_def using assms
    by (subst filter_join) (simp_all add: concat_group5 code_ok_def list_all_iff filter_id_conv)
  with assms show ?thesis by (simp add: code_parse_def Let_def code_ok_def)
qed

text \<open>However the groups are typed: only the other characters and not their case matter.\<close>

lemma code_parse_typed:
  assumes "code_ok c" "to_lowercase (filter (\<lambda>x. \<not> is_whitespace x \<and> x \<noteq> CHR ''-'') typed) = c"
  shows "code_parse typed = Inr c"
  using assms by (auto simp: code_parse_def code_ok_def)

lemma b32_lower_nohyphen: "b32_char c \<Longrightarrow> to_lower c \<noteq> CHR ''-''"
proof
  assume "b32_char c" "to_lower c = CHR ''-''"
  then have "of_char (to_lower c) = (45 :: nat)" by simp
  with \<open>b32_char c\<close> show False by (auto simp: b32_char_def to_lower_def Let_def split: if_splits)
qed

lemma code_generate_ok:
  assumes "b32_ok K" "code_generate K g = (c, g')" "c \<noteq> []"
  shows "code_ok c"
proof -
  obtain raw where raw: "c = take CODE_CHARS (to_lowercase (b32_encode K raw))"
    using assms(2) by (auto simp: code_generate_def Let_def split: prod.splits)
  have b: "list_all b32_char (b32_encode K raw)" using assms(1) by (simp add: b32_ok_def)
  have "\<not> is_whitespace x \<and> x \<noteq> CHR ''-''" if "x \<in> set (to_lowercase (b32_encode K raw))" for x
    using b that b32_lower_nonspace [OF b that]
    by (auto simp: to_lowercase_def list_all_iff b32_lower_nohyphen)
  then have "list_all (\<lambda>x. \<not> is_whitespace x \<and> x \<noteq> CHR ''-'') c"
    unfolding raw list_all_iff by (auto dest: in_set_takeD)
  moreover have "to_lowercase c = c"
    unfolding raw using to_lowercase_idem [of "b32_encode K raw"] by (simp add: to_lowercase_def take_map)
  ultimately show ?thesis using assms(3) by (simp add: code_ok_def)
qed

section \<open>The round-1 message\<close>

definition encode_message :: "key_lib \<Rightarrow> bytes \<Rightarrow> string" where
  "encode_message K msg = MESSAGE_PREFIX @ to_lowercase (b32_encode K msg)"

definition decode_message :: "key_lib \<Rightarrow> string \<Rightarrow> Error + bytes" where
  "decode_message K s =
     (let lowered = to_lowercase (trim s) in
      bindE (ok_or (EPairing ''a pairing message must start with the prefix'') (strip_prefix MESSAGE_PREFIX lowered)) (\<lambda>body.
        ok_or (EPairing ''pairing message is not valid base32'') (b32_decode K (to_uppercase body))))"

lemma decode_encode_message:
  assumes "b32_ok K" "to_lowercase (trim s) = encode_message K msg"
  shows "decode_message K s = Inr msg"
  using assms by (simp add: decode_message_def encode_message_def b32_upper_lower b32_ok_def)

section \<open>The channel\<close>

record PairingState =
  pake_inner :: bytes
  outbound :: bytes

record PairedChannel =
  chan_key :: bytes
  rendezvous_secret :: bytes
  chan_aad :: bytes

definition pair_start :: "pake_lib \<Rightarrow> string \<Rightarrow> rng \<Rightarrow> (PairingState \<times> bytes) \<times> rng" where
  "pair_start P code g =
     (let ((inner, out), g') = pake_start P (str_bytes code) PAKE_IDENTITY g
      in ((\<lparr>pake_inner = inner, outbound = out\<rparr>, out), g'))"

definition derive :: "crypto_lib \<Rightarrow> bytes \<Rightarrow> bytes \<Rightarrow> Error + bytes" where
  "derive C spake_key label =
     ok_or (EPairing ''panicked: 32 bytes is a valid HKDF-SHA256 output length'') (hkdf_sha256 C None spake_key label 32)"

definition sort2 :: "bytes \<Rightarrow> bytes \<Rightarrow> bytes \<times> bytes" where
  "sort2 a b = (if bytes_less b a then (b, a) else (a, b))"

definition pair_finish :: "pake_lib \<Rightarrow> crypto_lib \<Rightarrow> PairingState \<Rightarrow> bytes \<Rightarrow> Error + PairedChannel" where
  "pair_finish P C st peer_message =
     bindE (ok_or (EPairing ''pairing failed: wrong code, or tampering'') (pake_finish P (pake_inner st) peer_message)) (\<lambda>key.
     let (lo, hi) = sort2 (outbound st) peer_message in
     bindE (derive C key SEAL_LABEL) (\<lambda>k.
     bindE (derive C key RENDEZVOUS_SECRET_LABEL) (\<lambda>r.
       Inr \<lparr>chan_key = k, rendezvous_secret = r, chan_aad = PAIR_AAD_DOMAIN @ lo @ hi\<rparr>)))"

definition seal_ticket :: "key_lib \<Rightarrow> crypto_lib \<Rightarrow> PairedChannel \<Rightarrow> Ticket \<Rightarrow> rng \<Rightarrow> Error + string \<times> rng" where
  "seal_ticket K C ch t g =
     bindE (guardE (length (chan_key ch) = 32) (EPairing ''bad sealing key'')) (\<lambda>_.
     let (nonce, g') = draw 24 g in
     bindE (ok_or (EPairing ''sealing the ticket failed'')
              (aead_seal C (chan_key ch) nonce (chan_aad ch) (ticket_to_bytes t))) (\<lambda>ct.
       Inr (to_lowercase (b32_encode K (nonce @ ct)), g')))"

definition open_ticket :: "key_lib \<Rightarrow> crypto_lib \<Rightarrow> PairedChannel \<Rightarrow> string \<Rightarrow> Error + Ticket" where
  "open_ticket K C ch sealed =
     bindE (ok_or (EPairing ''sealed ticket is not valid base32'') (b32_decode K (to_uppercase (trim sealed)))) (\<lambda>raw.
     bindE (guardE (24 < length raw) (EPairing ''sealed ticket is too short'')) (\<lambda>_.
     let nonce = take 24 raw; ct = drop 24 raw in
     bindE (guardE (length (chan_key ch) = 32) (EPairing ''bad sealing key'')) (\<lambda>_.
     bindE (ok_or (EPairing ''could not open the sealed ticket'') (aead_open C (chan_key ch) nonce (chan_aad ch) ct)) (\<lambda>p.
       ticket_from_bytes p))))"

lemma sort2_sym: "sort2 a b = sort2 b a"
  using bytes_less_asym [of a b] bytes_less_total [of a b] by (auto simp: sort2_def)

lemma derive_total: "hkdf_ok C \<Longrightarrow> \<exists>k. derive C i l = Inr k \<and> length k = 32"
proof -
  assume "hkdf_ok C"
  then have "\<exists>k. hkdf_sha256 C None i l 32 = Some k \<and> length k = 32" by (simp add: hkdf_ok_def)
  then show ?thesis by (auto simp: derive_def)
qed

text \<open>Both sides of an exchange from the same code hold the same channel, with neither taking a role.\<close>

lemma pair_agree:
  assumes "pake_ok P" "hkdf_ok C"
    and "pair_start P code g1 = ((s1, m1), h1)" "pair_start P code g2 = ((s2, m2), h2)"
  shows "\<exists>ch. pair_finish P C s1 m2 = Inr ch \<and> pair_finish P C s2 m1 = Inr ch \<and>
    length (chan_key ch) = 32 \<and> length (rendezvous_secret ch) = 32"
proof -
  from assms(3,4) have st: "pake_start P (str_bytes code) PAKE_IDENTITY g1 = ((pake_inner s1, m1), h1)"
    "pake_start P (str_bytes code) PAKE_IDENTITY g2 = ((pake_inner s2, m2), h2)" "outbound s1 = m1" "outbound s2 = m2"
    by (auto simp: pair_start_def Let_def split: prod.splits)
  then obtain k where k: "pake_finish P (pake_inner s1) m2 = Some k" "pake_finish P (pake_inner s2) m1 = Some k"
    using assms(1) unfolding pake_ok_def by metis
  obtain a b where d: "derive C k SEAL_LABEL = Inr a" "derive C k RENDEZVOUS_SECRET_LABEL = Inr b"
    and l: "length a = 32" "length b = 32" using derive_total [OF assms(2)] by metis
  obtain lo hi where "sort2 m1 m2 = (lo, hi)" "sort2 m2 m1 = (lo, hi)" using sort2_sym by (metis surj_pair)
  with k d l st(3,4) show ?thesis by (simp add: pair_finish_def)
qed

lemma open_seal_ticket:
  assumes "b32_ok K" "aead_ok C" "ticket_ok t" "seal_ticket K C ch t g = Inr (s, g')"
  shows "open_ticket K C ch s = Inr t"
proof -
  obtain nonce g1 where n: "draw 24 g = (nonce, g1)" by fastforce
  from assms(4) n obtain ct where ct: "aead_seal C (chan_key ch) nonce (chan_aad ch) (ticket_to_bytes t) = Some ct"
    and s: "s = to_lowercase (b32_encode K (nonce @ ct))" and k: "length (chan_key ch) = 32"
    by (auto simp: seal_ticket_def Let_def result_simps)
  have b: "list_all b32_char (b32_encode K (nonce @ ct))" "b32_decode K (b32_encode K (nonce @ ct)) = Some (nonce @ ct)"
    using assms(1) by (simp_all add: b32_ok_def)
  have "trim s = s" unfolding s by (rule trim_nonspace) (rule b32_lower_nonspace [OF b(1)])
  moreover have "length nonce = 24" using draw_length [OF n] .
  moreover have "aead_open C (chan_key ch) nonce (chan_aad ch) ct = Some (ticket_to_bytes t)" "0 < length ct"
    using aead_okD(1,2) [OF assms(2) ct] by simp_all
  ultimately show ?thesis
    using b k ticket_roundtrip [OF assms(3)] by (simp add: open_ticket_def s b32_upper_lower)
qed

lemma seal_ticket_total:
  assumes "aead_total C" "length (chan_key ch) = 32" "ticket_ok t"
  shows "\<exists>s g'. seal_ticket K C ch t g = Inr (s, g')"
proof -
  obtain nonce g1 where n: "draw 24 g = (nonce, g1)" by fastforce
  have "length (ticket_to_bytes t) < 2 ^ 38 - 64"
    using length_encode_hints [of "hints t"] assms(3) by (simp add: ticket_to_bytes_def Let_def ticket_ok_def)
  with assms(1,2) draw_length [OF n] have "aead_seal C (chan_key ch) nonce (chan_aad ch) (ticket_to_bytes t) \<noteq> None"
    by (simp add: aead_total_def)
  with n assms(2) show ?thesis by (auto simp: seal_ticket_def)
qed

text \<open>What opens was sealed under this channel's key and transcript.\<close>

lemma open_ticket_Inr:
  assumes "aead_ok C" "open_ticket K C ch s = Inr t"
  shows "ticket_ok t \<and> (\<exists>nonce p ct. b32_decode K (to_uppercase (trim s)) = Some (nonce @ ct) \<and>
    aead_seal C (chan_key ch) nonce (chan_aad ch) p = Some ct \<and> ticket_from_bytes p = Inr t)"
proof -
  from assms(2) obtain raw p where "b32_decode K (to_uppercase (trim s)) = Some raw"
    "aead_open C (chan_key ch) (take 24 raw) (chan_aad ch) (drop 24 raw) = Some p" "ticket_from_bytes p = Inr t"
    by (auto simp: open_ticket_def Let_def result_simps)
  with aead_okD(3) [OF assms(1)] show ?thesis using ticket_from_bytes_ok by (metis append_take_drop_id)
qed

end
