(* ===== verification/PqAuth.thy ===== *)
theory PqAuth
  imports Identity
begin

text \<open>
  The mutual post-quantum proof over an established session (\<open>p2p-live/src/pq_auth.rs\<close>). A session
  (the trait \<open>SecureSession\<close>) is what its calls return to this side; \<open>spent\<close> is the time the
  exchange takes.
\<close>

record Session =
  keying_material :: "Error + bytes"
  on_send :: "bytes \<Rightarrow> Error + unit"
  on_recv :: "Error + bytes"
  spent :: nat

definition TRANSCRIPT_DOMAIN :: bytes where "TRANSCRIPT_DOMAIN = str_bytes ''atom-live-pq-auth-transcript-v1''"

datatype Side = Initiator | Responder

definition side_label :: "Side \<Rightarrow> bytes" where
  "side_label s = (case s of Initiator \<Rightarrow> str_bytes ''initiator'' | Responder \<Rightarrow> str_bytes ''responder'')"

fun side_peer :: "Side \<Rightarrow> Side" where
  "side_peer Initiator = Responder"
| "side_peer Responder = Initiator"

text \<open>The bytes that are hashed, and the hash a side signs.\<close>

definition transcript_input :: "bytes \<Rightarrow> Side \<Rightarrow> bytes \<Rightarrow> bytes \<Rightarrow> bytes" where
  "transcript_input exporter side signer peer = TRANSCRIPT_DOMAIN @ side_label side @ signer @ peer @ exporter"

definition transcript :: "key_lib \<Rightarrow> bytes \<Rightarrow> Side \<Rightarrow> bytes \<Rightarrow> bytes \<Rightarrow> bytes" where
  "transcript K exporter side signer peer = blake3 K (transcript_input exporter side signer peer)"

text \<open>The messages sent, and the result.\<close>

definition own_proof :: "key_lib \<Rightarrow> bytes \<Rightarrow> LocalBundle \<Rightarrow> IdentityBundle \<Rightarrow> Side \<Rightarrow> Error + bytes" where
  "own_proof K exporter loc peer side =
     sign_pq K loc (transcript K exporter side (bundle_id K (local_bundle loc)) (bundle_id K peer))"

definition check_proof :: "key_lib \<Rightarrow> bytes \<Rightarrow> LocalBundle \<Rightarrow> IdentityBundle \<Rightarrow> Side \<Rightarrow> bytes \<Rightarrow> Error + bool" where
  "check_proof K exporter loc peer side proof =
     (case pq peer of
        None \<Rightarrow> Inl (EIdentity ''panicked: checked by required'')
      | Some key \<Rightarrow>
          bindE (map_err (\<lambda>_. EIdentity ''the peer could not prove possession of its post-quantum key'')
            (pq_verify_sig K key
              (transcript K exporter (side_peer side) (bundle_id K peer) (bundle_id K (local_bundle loc))) proof)) (\<lambda>_.
              Inr True))"

definition authenticate ::
    "key_lib \<Rightarrow> Session \<Rightarrow> LocalBundle \<Rightarrow> IdentityBundle \<Rightarrow> Side \<Rightarrow> bytes list \<times> (Error + bool)" where
  "authenticate K session loc peer side =
     (let lb = local_bundle loc; required = is_hybrid peer in
      if \<not> required \<and> \<not> is_hybrid lb then ([], Inr False)
      else case keying_material session of
        Inl e \<Rightarrow> ([], Inl e)
      | Inr exporter \<Rightarrow>
          (case (if is_hybrid lb then map_sum id Some (own_proof K exporter loc peer side) else Inr None) of
             Inl e \<Rightarrow> ([], Inl e)
           | Inr proof \<Rightarrow>
               let sent = (case proof of Some p \<Rightarrow> [p] | None \<Rightarrow> []) in
               (sent,
                bindE (case proof of Some p \<Rightarrow> on_send session p | None \<Rightarrow> Inr ()) (\<lambda>_.
                if \<not> required then Inr False
                else bindE (on_recv session) (check_proof K exporter loc peer side)))))"

section \<open>What a result means\<close>

text \<open>A pinned post-quantum key cannot be argued away, and acceptance is a verified signature.\<close>

lemma authenticate_Inr:
  assumes "snd (authenticate K s loc peer side) = Inr b"
  shows "b = is_hybrid peer"
    and "is_hybrid peer \<Longrightarrow> \<exists>exporter proof key. keying_material s = Inr exporter \<and> on_recv s = Inr proof \<and>
      pq peer = Some key \<and>
      pq_verify K key (transcript K exporter (side_peer side) (bundle_id K peer) (bundle_id K (local_bundle loc))) proof"
  using assms
  by (auto simp: authenticate_def Let_def check_proof_def pq_verify_sig_def is_hybrid_def result_simps
      split: sum.splits option.splits if_splits)

text \<open>The two sides never hash the same bytes, so a proof cannot be reflected.\<close>

lemma transcript_input_sides:
  "transcript_input e side a b \<noteq> transcript_input e' (side_peer side) a' b'"
proof -
  have "length (side_label side) = length (side_label (side_peer side))" "side_label side \<noteq> side_label (side_peer side)"
    by (cases side; simp add: side_label_def str_bytes_def)+
  then show ?thesis by (simp add: transcript_input_def)
qed

lemma transcript_input_inj:
  assumes "transcript_input e side a b = transcript_input e' side' a' b'"
    and "length a = 32" "length b = 32" "length a' = 32" "length b' = 32"
  shows "e = e' \<and> side = side' \<and> a = a' \<and> b = b'"
proof -
  have s: "side' = side" using assms(1) transcript_input_sides by (cases side; cases side') (metis side_peer.simps)+
  with assms show ?thesis by (simp add: transcript_input_def)
qed

text \<open>Signatures made with a private key verify under its public key.\<close>

definition pq_sig_ok :: "key_lib \<Rightarrow> bool" where
  "pq_sig_ok K \<longleftrightarrow>
     (\<forall>sk pk m. pq_public_of K sk = Some pk \<longrightarrow> (\<exists>s. pq_sign K sk m = Some s \<and> pq_verify K pk m s))"

definition first_sent :: "bytes list \<times> 'r \<Rightarrow> Error + bytes" where
  "first_sent r = (case fst r of [] \<Rightarrow> Inl (ESession ''nothing sent'') | m # _ \<Rightarrow> Inr m)"

lemma own_proof_ok:
  assumes "pq_sig_ok K" "local_ok K a" "is_hybrid (local_bundle a)"
  shows "\<exists>p key. own_proof K e a peer side = Inr p \<and> pq (local_bundle a) = Some key \<and>
    pq_verify K key (transcript K e side (bundle_id K (local_bundle a)) (bundle_id K peer)) p"
proof -
  from assms(2,3) obtain der pk where d: "lb_pq_pkcs8 a = Some der" "pq_public_of K der = Some pk" "lb_pq_public a = Some pk"
    by (auto simp: local_ok_def is_hybrid_def local_bundle_def split: option.splits)
  let ?m = "transcript K e side (bundle_id K (local_bundle a)) (bundle_id K peer)"
  obtain s where "pq_sign K der ?m = Some s" "pq_verify K pk ?m s" using assms(1) d(2) unfolding pq_sig_ok_def by blast
  moreover have "pq (local_bundle a) = Some pk" using d by (simp add: local_bundle_def)
  ultimately show ?thesis using d by (simp add: own_proof_def sign_pq_def)
qed

text \<open>Two honest ends of one channel accept each other.\<close>

lemma authenticate_honest:
  assumes sig: "pq_sig_ok K" and loc: "local_ok K a" "local_ok K b"
    and ch: "keying_material s = Inr e" "\<And>m. on_send s m = Inr ()"
    and rx: "is_hybrid (local_bundle b) \<Longrightarrow> \<exists>p. own_proof K e b (local_bundle a) (side_peer side) = Inr p \<and> on_recv s = Inr p"
  shows "snd (authenticate K s a (local_bundle b) side) = Inr (is_hybrid (local_bundle b))"
proof -
  have own: "\<exists>p. own_proof K e a (local_bundle b) side = Inr p" if "is_hybrid (local_bundle a)"
    using own_proof_ok [OF sig loc(1) that] by blast
  show ?thesis
  proof (cases "is_hybrid (local_bundle b)")
    case True
    from own_proof_ok [OF sig loc(2) True, of e "local_bundle a" "side_peer side"] rx [OF True]
    obtain p key where "on_recv s = Inr p" "pq (local_bundle b) = Some key"
      "pq_verify K key (transcript K e (side_peer side) (bundle_id K (local_bundle b)) (bundle_id K (local_bundle a))) p"
      by auto
    then have "bindE (on_recv s) (check_proof K e a (local_bundle b) side) = Inr True"
      by (simp add: check_proof_def pq_verify_sig_def)
    with True own ch show ?thesis
      by (cases "is_hybrid (local_bundle a)") (auto simp: authenticate_def Let_def)
  next
    case False
    with own ch show ?thesis
      by (cases "is_hybrid (local_bundle a)") (auto simp: authenticate_def Let_def)
  qed
qed

end
