(* ===== verification/Discovery.thy ===== *)
theory Discovery
  imports Records "HOL-Library.Multiset"
begin

text \<open>
  The resolver of \<open>p2p-live/src/discovery/mod.rs\<close>: publishing sealed records to every configured
  substrate, and looking a peer up in a random order of them. A substrate is an untrusted
  key-value store: what it holds and which requests it fails are arbitrary.
\<close>

record Substrate =
  sub_name :: string
  stored :: "string \<rightharpoonup> bytes"
  put_error :: "string \<Rightarrow> Error option"
  get_error :: "string \<Rightarrow> Error option"

definition sub_put :: "string \<Rightarrow> bytes \<Rightarrow> Substrate \<Rightarrow> Substrate \<times> Error option" where
  "sub_put tag sealed s =
     (case put_error s tag of Some e \<Rightarrow> (s, Some e) | None \<Rightarrow> (s\<lparr>stored := (stored s)(tag \<mapsto> sealed)\<rparr>, None))"

definition sub_get :: "string \<Rightarrow> Substrate \<Rightarrow> Error + bytes option" where
  "sub_get tag s = (case get_error s tag of Some e \<Rightarrow> Inl e | None \<Rightarrow> Inr (stored s tag))"

record PublishReport =
  succeeded :: "string list"
  failed :: "(string \<times> Error) list"

definition is_reachable :: "PublishReport \<Rightarrow> bool" where
  "is_reachable r \<longleftrightarrow> succeeded r \<noteq> []"

section \<open>Publishing\<close>

fun seal_all :: "crypto_lib \<Rightarrow> AddressRecord \<Rightarrow> Slot list \<Rightarrow> rng \<Rightarrow> Error + (string \<times> bytes) list \<times> rng" where
  "seal_all C r [] g = Inr ([], g)"
| "seal_all C r (s # ss) g =
     bindE (seal_record C r s g) (\<lambda>(b, g1).
     bindE (seal_all C r ss g1) (\<lambda>(bs, g2). Inr ((tag_hex s, b) # bs, g2)))"

fun put_all :: "(string \<times> bytes) list \<Rightarrow> Substrate \<Rightarrow> Substrate \<times> Error option" where
  "put_all [] s = (s, None)"
| "put_all ((tag, b) # rest) s =
     (case sub_put tag b s of (s', Some e) \<Rightarrow> (s', Some e) | (s', None) \<Rightarrow> put_all rest s')"

fun publish_to :: "(string \<times> bytes) list \<Rightarrow> Substrate list \<Rightarrow> PublishReport \<Rightarrow> Substrate list \<times> PublishReport" where
  "publish_to sealed [] rep = ([], rep)"
| "publish_to sealed (s # ss) rep =
     (let (s', e) = put_all sealed s;
          rep' = (case e of None \<Rightarrow> rep\<lparr>succeeded := succeeded rep @ [sub_name s]\<rparr>
                  | Some err \<Rightarrow> rep\<lparr>failed := failed rep @ [(sub_name s, err)]\<rparr>);
          (ss', rep'') = publish_to sealed ss rep'
      in (s' # ss', rep''))"

definition publish ::
    "crypto_lib \<Rightarrow> xof \<Rightarrow> bytes \<Rightarrow> bytes \<Rightarrow> bytes \<Rightarrow> AddressRecord \<Rightarrow> u64 \<Rightarrow> rng \<Rightarrow> Substrate list \<Rightarrow>
     Error + Substrate list \<times> PublishReport" where
  "publish C x secret local_id peer_id r now g subs =
     bindE (guardE (subs \<noteq> []) (EDiscovery ''no rendezvous endpoint is configured'')) (\<lambda>_.
     bindE (seal_all C r (publish_slots x secret (publishing local_id peer_id) now) g) (\<lambda>(sealed, g').
       Inr (publish_to sealed subs \<lparr>succeeded = [], failed = []\<rparr>)))"

section \<open>Resolving\<close>

definition swap :: "nat \<Rightarrow> nat \<Rightarrow> 'a list \<Rightarrow> 'a list" where
  "swap i j xs = xs[i := xs ! j, j := xs ! i]"

fun fisher_yates :: "nat \<Rightarrow> bytes \<Rightarrow> 'a list \<Rightarrow> 'a list" where
  "fisher_yates 0 noise xs = xs"
| "fisher_yates (Suc i) noise xs =
     (let j = unat (u64_from_be (slice (Suc i * 8) 8 noise)) mod (Suc i + 1)
      in fisher_yates i noise (swap (Suc i) j xs))"

definition shuffled :: "rng \<Rightarrow> 'a list \<Rightarrow> 'a list" where
  "shuffled g xs =
     (if length xs < 2 then xs else fisher_yates (length xs - 1) (fst (draw (length xs * 8) g)) xs)"

text \<open>The candidate a slot yields on one substrate, and the search over the three slots.\<close>

definition candidate :: "crypto_lib \<Rightarrow> Substrate \<Rightarrow> u64 \<Rightarrow> u64 option \<Rightarrow> Slot \<Rightarrow> AddressRecord option" where
  "candidate C sub now newest_seen s =
     (case sub_get (tag_hex s) sub of
        Inl e \<Rightarrow> None
      | Inr None \<Rightarrow> None
      | Inr (Some b) \<Rightarrow>
          (case open_record C b s now of
             Inl e \<Rightarrow> None
           | Inr cand \<Rightarrow> if supersedes cand newest_seen then Some cand else None))"

fun search_slots ::
    "crypto_lib \<Rightarrow> Substrate \<Rightarrow> u64 \<Rightarrow> u64 option \<Rightarrow> Slot list \<Rightarrow> AddressRecord option \<Rightarrow> AddressRecord option" where
  "search_slots C sub now newest_seen [] best = best"
| "search_slots C sub now newest_seen (s # ss) best =
     (case candidate C sub now newest_seen s of
        None \<Rightarrow> search_slots C sub now newest_seen ss best
      | Some cand \<Rightarrow>
          let best' = (case best of None \<Rightarrow> Some cand | Some b \<Rightarrow> if seq b < seq cand then Some cand else best)
          in search_slots C sub now newest_seen ss best')"

fun resolve_in ::
    "crypto_lib \<Rightarrow> u64 \<Rightarrow> u64 option \<Rightarrow> Slot list \<Rightarrow> Substrate list \<Rightarrow> Error + AddressRecord" where
  "resolve_in C now newest_seen slots [] = Inl (EDiscovery ''could not find a current address for this peer'')"
| "resolve_in C now newest_seen slots (sub # subs) =
     (case search_slots C sub now newest_seen slots None of
        Some r \<Rightarrow> Inr r
      | None \<Rightarrow> resolve_in C now newest_seen slots subs)"

definition resolve ::
    "crypto_lib \<Rightarrow> xof \<Rightarrow> bytes \<Rightarrow> bytes \<Rightarrow> bytes \<Rightarrow> u64 option \<Rightarrow> u64 \<Rightarrow> rng \<Rightarrow> Substrate list \<Rightarrow>
     Error + AddressRecord" where
  "resolve C x secret local_id peer_id newest_seen now g subs =
     bindE (guardE (subs \<noteq> []) (EDiscovery ''no rendezvous endpoint is configured'')) (\<lambda>_.
       resolve_in C now newest_seen (lookup_slots x secret (flip (publishing local_id peer_id)) now) (shuffled g subs))"

section \<open>Shuffling\<close>

lemma length_swap [simp]: "length (swap i j xs) = length xs"
  by (simp add: swap_def)

lemma mset_swap_perm: "i < length xs \<Longrightarrow> j < length xs \<Longrightarrow> mset (swap i j xs) = mset xs"
  unfolding swap_def by (metis mset_swap)

lemma mset_fisher_yates: "i < length xs \<Longrightarrow> mset (fisher_yates i noise xs) = mset xs"
proof (induction i arbitrary: xs)
  case (Suc i)
  let ?j = "unat (u64_from_be (slice (Suc i * 8) 8 noise)) mod (Suc i + 1)"
  have "?j < Suc i + 1" by simp
  with Suc.prems have "?j < length xs" by linarith
  with Suc show ?case by (simp add: Let_def mset_swap_perm del: mult_Suc)
qed simp

lemma mset_shuffled: "mset (shuffled g xs) = mset xs"
  by (simp add: shuffled_def mset_fisher_yates)

lemma set_shuffled: "set (shuffled g xs) = set xs"
  using mset_shuffled [of g xs] by (metis set_mset_mset)

section \<open>What the search returns\<close>

text \<open>The result comes from a slot (or was the best before), and no slot has a newer candidate.\<close>

lemma search_slots_best:
  assumes "search_slots C sub now newest slots best = r"
  shows "(case r of None \<Rightarrow> best = None \<and> (\<forall>s \<in> set slots. candidate C sub now newest s = None)
          | Some b \<Rightarrow> (best = Some b \<or> (\<exists>s \<in> set slots. candidate C sub now newest s = Some b)) \<and>
              (\<forall>s \<in> set slots. \<forall>c. candidate C sub now newest s = Some c \<longrightarrow> seq c \<le> seq b) \<and>
              (\<forall>c. best = Some c \<longrightarrow> seq c \<le> seq b))"
  using assms
proof (induction slots arbitrary: best)
  case Nil
  then show ?case by (auto split: option.splits)
next
  case (Cons s ss)
  show ?case
  proof (cases "candidate C sub now newest s")
    case None
    with Cons show ?thesis by (auto split: option.splits)
  next
    case (Some cand)
    let ?b = "case best of None \<Rightarrow> Some cand | Some b \<Rightarrow> if seq b < seq cand then Some cand else best"
    have "search_slots C sub now newest ss ?b = r" using Cons.prems Some by (simp add: Let_def)
    note ih = Cons.IH [OF this]
    have "?b \<noteq> None" by (auto split: option.splits)
    with ih obtain b where r: "r = Some b" by (cases r) auto
    have cand: "seq cand \<le> seq b" and prev: "\<forall>c. best = Some c \<longrightarrow> seq c \<le> seq b"
      using ih r by (cases best; auto split: if_splits)+
    have "best = Some b \<or> (\<exists>s' \<in> set (s # ss). candidate C sub now newest s' = Some b)"
      using ih r Some by (cases best) (auto split: if_splits)
    with ih r Some cand prev show ?thesis by auto
  qed
qed

lemma resolve_in_Inr:
  assumes "resolve_in C now newest slots subs = Inr r"
  shows "\<exists>sub \<in> set subs. search_slots C sub now newest slots None = Some r"
  using assms by (induction subs) (auto split: option.splits)

lemma resolve_in_total:
  assumes "\<exists>sub \<in> set subs. search_slots C sub now newest slots None \<noteq> None"
  shows "\<exists>r. resolve_in C now newest slots subs = Inr r"
  using assms by (induction subs) (auto split: option.splits)

lemma candidate_Some:
  assumes "candidate C sub now newest s = Some r"
  shows "\<exists>b. stored sub (tag_hex s) = Some b \<and> open_record C b s now = Inr r \<and> supersedes r newest"
  using assms by (auto simp: candidate_def sub_get_def split: sum.splits option.splits if_splits)

section \<open>What a publisher stores\<close>

lemma put_all_ok:
  assumes "\<forall>(t, b) \<in> set kvs. put_error s t = None"
  shows "put_all kvs s = (s\<lparr>stored := stored s ++ map_of (rev kvs)\<rparr>, None)"
  using assms
proof (induction kvs arbitrary: s)
  case Nil
  show ?case by simp
next
  case (Cons kv kvs)
  obtain t b where kv: "kv = (t, b)" by fastforce
  let ?s = "s\<lparr>stored := (stored s)(t \<mapsto> b)\<rparr>"
  have ok: "put_error s t = None" using Cons.prems kv by simp
  have "put_all (kv # kvs) s = put_all kvs ?s" by (simp add: kv sub_put_def ok)
  also have "\<dots> = (?s\<lparr>stored := stored ?s ++ map_of (rev kvs)\<rparr>, None)"
    by (rule Cons.IH) (use Cons.prems in simp)
  also have "\<dots> = (s\<lparr>stored := stored s ++ map_of (rev (kv # kvs))\<rparr>, None)"
    by (simp add: kv)
  finally show ?case .
qed

lemma publish_to_map: "fst (publish_to sealed subs rep) = map (\<lambda>s. fst (put_all sealed s)) subs"
  by (induction subs arbitrary: rep) (simp_all add: Let_def case_prod_beta)

lemma publish_to_report:
  assumes "\<forall>s \<in> set subs. snd (put_all sealed s) = None"
  shows "snd (publish_to sealed subs rep) = rep\<lparr>succeeded := succeeded rep @ map sub_name subs\<rparr>"
  using assms by (induction subs arbitrary: rep) (simp_all add: Let_def case_prod_beta)

lemma publish_stores:
  assumes "publish C x secret a b r now g subs = Inr (subs', rep)"
    and "\<forall>s \<in> set subs. \<forall>t. put_error s t = None"
    and tags: "tag_hex (slot x secret (publishing a b) (epoch_at now)) \<noteq>
               tag_hex (slot x secret (publishing a b) (epoch_at now + 1))"
    and sub: "sub' \<in> set subs'" and sl: "s \<in> set (publish_slots x secret (publishing a b) now)"
  shows "\<exists>sub \<in> set subs. \<exists>sealed g1 g2. seal_record C r s g1 = Inr (sealed, g2) \<and>
    stored sub' (tag_hex s) = Some sealed \<and> get_error sub' = get_error sub"
proof -
  let ?s1 = "slot x secret (publishing a b) (epoch_at now)" and ?s2 = "slot x secret (publishing a b) (epoch_at now + 1)"
  from assms(1) obtain b1 g1 b2 g2 where se: "seal_record C r ?s1 g = Inr (b1, g1)" "seal_record C r ?s2 g1 = Inr (b2, g2)"
    and p: "subs' = fst (publish_to [(tag_hex ?s1, b1), (tag_hex ?s2, b2)] subs \<lparr>succeeded = [], failed = []\<rparr>)"
    by (auto simp: publish_def publish_slots_def Let_def result_simps)
  let ?kvs = "[(tag_hex ?s1, b1), (tag_hex ?s2, b2)]"
  from sub p obtain sub0 where s0: "sub0 \<in> set subs" "sub' = fst (put_all ?kvs sub0)" by (auto simp: publish_to_map)
  have "put_all ?kvs sub0 = (sub0\<lparr>stored := stored sub0 ++ map_of (rev ?kvs)\<rparr>, None)"
    using assms(2) s0(1) by (intro put_all_ok) auto
  with s0(2) have st: "sub' = sub0\<lparr>stored := stored sub0 ++ map_of (rev ?kvs)\<rparr>" by simp
  from sl consider "s = ?s1" | "s = ?s2" by (auto simp: publish_slots_def Let_def)
  then show ?thesis
  proof cases
    case 1
    with st tags se(1) s0(1) show ?thesis by (intro bexI [of _ sub0] exI [of _ b1] exI [of _ g] exI [of _ g1]) auto
  next
    case 2
    with st se(2) s0(1) show ?thesis by (intro bexI [of _ sub0] exI [of _ b2] exI [of _ g1] exI [of _ g2]) auto
  qed
qed

text \<open>
  A record published by one side is found by the other as long as their clocks agree to within
  one epoch: whatever is returned is at least as new.
\<close>

lemma publish_then_resolve:
  assumes crypt: "aead_ok C" and ids: "a \<noteq> b"
    and pub: "publish C x secret a b r tp g subs = Inr (subs', rep)"
    and honest: "\<forall>s \<in> set subs. \<forall>t. put_error s t = None \<and> get_error s t = None"
    and tags: "tag_hex (slot x secret (publishing a b) (epoch_at tp)) \<noteq>
               tag_hex (slot x secret (publishing a b) (epoch_at tp + 1))"
    and rec: "record_ok r" "record_live tr r" "supersedes r newest"
    and skew: "unat tp \<le> unat tr + 3600" "unat tr \<le> unat tp + 3600"
  shows "\<exists>r'. resolve C x secret b a newest tr g' subs' = Inr r' \<and> seq r \<le> seq r'"
proof -
  let ?d = "publishing a b"
  have dir: "flip (publishing b a) = ?d" using direction.peer_role [of b a] ids by simp
  have ne: "subs \<noteq> []" using pub by (auto simp: publish_def result_simps)
  from slots_meet [OF skew] obtain e where e: "e = epoch_at tp \<or> e = epoch_at tp + 1"
    and el: "e \<in> {saturating_pred (epoch_at tr), epoch_at tr, epoch_at tr + 1}" by blast
  then have e2: "slot x secret ?d e \<in> set (lookup_slots x secret ?d tr)"
    by (elim insertE) (simp_all add: lookup_slots_def Let_def)
  let ?s = "slot x secret ?d e"
  have "?s \<in> set (publish_slots x secret ?d tp)" using e by (elim disjE) (simp_all add: publish_slots_def Let_def)
  then have cand: "candidate C sub tr newest ?s = Some r" if "sub \<in> set subs'" for sub
  proof -
    from publish_stores [OF pub _ tags that \<open>?s \<in> set (publish_slots x secret ?d tp)\<close>] honest
    obtain sub0 sealed g1 g2 where "sub0 \<in> set subs" "seal_record C r ?s g1 = Inr (sealed, g2)"
      "stored sub (tag_hex ?s) = Some sealed" "get_error sub = get_error sub0" by blast
    with seal_record_Inr(3) [OF crypt] rec honest show ?thesis by (simp add: candidate_def sub_get_def)
  qed
  have found: "\<exists>r'. search_slots C sub tr newest (lookup_slots x secret ?d tr) None = Some r' \<and> seq r \<le> seq r'"
    if "sub \<in> set subs'" for sub
    using search_slots_best [where C = C and sub = sub and now = tr and newest = newest and best = None and
      slots = "lookup_slots x secret ?d tr", OF refl] cand [OF that] e2
    by (auto split: option.splits)
  have ne': "subs' \<noteq> []" using pub ne by (auto simp: publish_def result_simps) (metis fst_conv list.map_disc_iff publish_to_map)
  have "set (shuffled g' subs') = set subs'" by (rule set_shuffled)
  moreover from this ne' found have "\<exists>r'. resolve_in C tr newest (lookup_slots x secret ?d tr) (shuffled g' subs') = Inr r'"
    by (intro resolve_in_total) (metis last_in_set option.distinct(1) set_empty)
  ultimately show ?thesis
    using resolve_in_Inr found ne' dir by (fastforce simp: resolve_def)
qed

end
