(* ===== verification/Reach.thy ===== *)
theory Reach
  imports PqAuth Discovery
begin

text \<open>
  Connecting to a peer: the direct rendezvous (\<open>p2p-live/src/rendezvous.rs\<close>), the onion path
  (\<open>tor.rs\<close>) and the ladder over both (\<open>reach.rs\<close>). The network and the handshakes of quinn, rustls
  and Tor are the fields of \<open>net\<close>; times are nanoseconds, and what takes time says when it ends. A connection is a
  number. \<open>n_client\<close> and \<open>n_server\<close> stand for the endpoint bound by \<open>bind_endpoint\<close> and the sessions finished on
  its connections, which are described in \<open>SecureChannel\<close>; how long that exchange of hellos takes is up to the peer,
  since nothing in the code limits it: \<open>n_client_time\<close> and \<open>n_server_time\<close>.
\<close>

section \<open>The network\<close>

record net =
  n_bind :: "Error + unit"
  n_wall :: "nat \<Rightarrow> u64"
  n_connect :: "nat \<Rightarrow> SocketAddr \<Rightarrow> string + nat \<times> (string + nat)"
  n_client :: "nat \<Rightarrow> bytes \<Rightarrow> Error + Session"
  n_server :: "nat \<Rightarrow> bytes \<Rightarrow> Error + Session"
  n_client_time :: "nat \<Rightarrow> nat"
  n_server_time :: "nat \<Rightarrow> nat"
  n_socks :: "SocketAddr \<Rightarrow> OnionAddress \<Rightarrow> Error + nat"
  n_tls :: "nat \<Rightarrow> bytes \<Rightarrow> Error + Session"
  n_lookup_time :: nat

definition ATTEMPT_TIMEOUT :: nat where "ATTEMPT_TIMEOUT = 3000000000"
definition RETRY_INTERVAL :: nat where "RETRY_INTERVAL = 500000000"
definition CACHED_ATTEMPT_MAX :: nat where "CACHED_ATTEMPT_MAX = 20000000000"

section \<open>Roles\<close>

datatype Role = Dialer | Accepter

definition role_pick :: "bytes \<Rightarrow> bytes \<Rightarrow> Role" where
  "role_pick local_id peer_id = (if bytes_less local_id peer_id then Dialer else Accepter)"

definition role_for :: "key_lib \<Rightarrow> LocalBundle \<Rightarrow> Ticket \<Rightarrow> Role" where
  "role_for K loc t = role_pick (bundle_id K (local_bundle loc)) (bundle_id K (identity t))"

fun other_role :: "Role \<Rightarrow> Role" where
  "other_role Dialer = Accepter"
| "other_role Accepter = Dialer"

fun side_of :: "Role \<Rightarrow> Side" where
  "side_of Dialer = Initiator"
| "side_of Accepter = Responder"

interpretation role: role_split role_pick other_role
proof
  fix r show "other_role r \<noteq> r" by (cases r) simp_all
next
  fix r show "other_role (other_role r) = r" by (cases r) simp_all
next
  fix a b :: bytes
  assume "a \<noteq> b"
  then have "bytes_less a b \<longleftrightarrow> \<not> bytes_less b a"
    using bytes_less_asym [of a b] bytes_less_total [of a b] by blast
  then show "role_pick a b = other_role (role_pick b a)" by (simp add: role_pick_def)
qed

lemma side_of_other: "side_of (other_role r) = side_peer (side_of r)"
  by (cases r) simp_all

section \<open>Dialling\<close>

definition attempt_connect :: "net \<Rightarrow> nat \<Rightarrow> SocketAddr \<Rightarrow> nat \<times> (string + nat)" where
  "attempt_connect N now addr =
     (case n_connect N now addr of
        Inl e \<Rightarrow> (now, Inl e)
      | Inr (d, r) \<Rightarrow>
          if ATTEMPT_TIMEOUT < d then (now + ATTEMPT_TIMEOUT, Inl ''attempt timed out'') else (now + d, r))"

fun dial_round :: "net \<Rightarrow> nat \<Rightarrow> SocketAddr list \<Rightarrow> nat \<Rightarrow> string \<Rightarrow> nat \<times> (string + nat)" where
  "dial_round N deadline [] now lst = (now, Inl lst)"
| "dial_round N deadline (h # hs) now lst =
     (case attempt_connect N now h of
        (t, Inr conn) \<Rightarrow> (t, Inr conn)
      | (t, Inl e) \<Rightarrow> if deadline \<le> t then (t, Inl e) else dial_round N deadline hs t e)"

lemma attempt_connect_time: "attempt_connect N now h = (t, r) \<Longrightarrow> now \<le> t \<and> t \<le> now + ATTEMPT_TIMEOUT"
  by (auto simp: attempt_connect_def split: sum.splits if_splits)

lemma dial_round_time:
  assumes "dial_round N deadline hs now lst = (t, r)" "now < deadline"
  shows "now \<le> t \<and> t < deadline + ATTEMPT_TIMEOUT"
  using assms
proof (induction hs arbitrary: now lst)
  case Nil
  then show ?case by simp
next
  case (Cons h hs)
  obtain u q where u: "attempt_connect N now h = (u, q)" by fastforce
  note b = attempt_connect_time [OF u]
  show ?case
  proof (cases "(\<exists>c. q = Inr c) \<or> deadline \<le> u")
    case True
    with Cons.prems u have "t = u" by (auto split: sum.splits)
    with b Cons.prems(2) show ?thesis by simp
  next
    case False
    then obtain e where q: "q = Inl e" by (cases q) auto
    with False Cons.prems u have "dial_round N deadline hs u e = (t, r)" by simp
    from Cons.IH [OF this] False b show ?thesis by simp
  qed
qed

function dial_loop :: "net \<Rightarrow> bytes \<Rightarrow> SocketAddr list \<Rightarrow> nat \<Rightarrow> nat \<Rightarrow> string \<Rightarrow> nat \<times> (Error + Session)" where
  "dial_loop N peer hs deadline now lst =
     (if now < deadline then
        (case dial_round N deadline hs now lst of
           (t, Inr conn) \<Rightarrow> (t + n_client_time N conn, n_client N conn peer)
         | (t, Inl e) \<Rightarrow> dial_loop N peer hs deadline (t + RETRY_INTERVAL) e)
      else (now, Inl (EConnect ''rendezvous timed out while dialling'')))"
  by pat_completeness auto
termination
  by (relation "measure (\<lambda>(N, peer, hs, deadline, now, lst). deadline - now)")
    (auto simp: RETRY_INTERVAL_def dest: dial_round_time dial_round_time [OF sym])

declare dial_loop.simps [simp del]

text \<open>A connection of a round comes from an attempt at one of the hints that began before the deadline.\<close>

lemma dial_round_Inr:
  assumes "dial_round N deadline hs now lst = (t, Inr conn)" "now < deadline"
  shows "\<exists>h \<in> set hs. \<exists>t0 < deadline. attempt_connect N t0 h = (t, Inr conn)"
  using assms
proof (induction hs arbitrary: now lst)
  case (Cons h hs)
  obtain u q where u: "attempt_connect N now h = (u, q)" by fastforce
  show ?case
  proof (cases q)
    case (Inl e)
    with Cons.prems(1) u have r: "dial_round N deadline hs u e = (t, Inr conn)" "u < deadline"
      by (simp_all split: if_splits)
    from Cons.IH [OF this] show ?thesis by auto
  next
    case (Inr c)
    with Cons.prems u show ?thesis by auto
  qed
qed simp

text \<open>
  The loop gives up at most one attempt and one pause after its deadline, or has taken a connection by
  then, whose hellos take the time they take.
\<close>

lemma dial_loop_ends:
  "\<exists>t \<le> max now (deadline + ATTEMPT_TIMEOUT + RETRY_INTERVAL).
     dial_loop N peer hs deadline now lst = (t, Inl (EConnect ''rendezvous timed out while dialling'')) \<or>
     (\<exists>conn. \<exists>h \<in> set hs. \<exists>t0 < deadline. attempt_connect N t0 h = (t, Inr conn) \<and>
        dial_loop N peer hs deadline now lst = (t + n_client_time N conn, n_client N conn peer))"
proof (induction N peer hs deadline now lst rule: dial_loop.induct)
  case (1 N peer hs deadline now lst)
  show ?case
  proof (cases "now < deadline")
    case True
    obtain t r where r: "dial_round N deadline hs now lst = (t, r)" by fastforce
    note b = dial_round_time [OF r True]
    show ?thesis
    proof (cases r)
      case (Inl e)
      then have l: "dial_loop N peer hs deadline now lst = dial_loop N peer hs deadline (t + RETRY_INTERVAL) e"
        using True r by (simp add: dial_loop.simps [of N peer hs deadline now])
      have m: "max (t + RETRY_INTERVAL) (deadline + ATTEMPT_TIMEOUT + RETRY_INTERVAL) \<le> max now (deadline + ATTEMPT_TIMEOUT + RETRY_INTERVAL)"
        using b by simp
      show ?thesis unfolding l using 1 [OF True r [symmetric] Inl] m by (meson order_trans)
    next
      case (Inr conn)
      with True r have "dial_loop N peer hs deadline now lst = (t + n_client_time N conn, n_client N conn peer)"
        by (simp add: dial_loop.simps [of N peer hs deadline now])
      moreover have "t \<le> max now (deadline + ATTEMPT_TIMEOUT + RETRY_INTERVAL)" using b by simp
      ultimately show ?thesis using dial_round_Inr [OF r [unfolded Inr] True] by blast
    qed
  next
    case False
    then show ?thesis by (intro exI [of _ now]) (simp add: dial_loop.simps [of N peer hs deadline now])
  qed
qed

lemma dial_loop_Inr:
  assumes "snd (dial_loop N peer hs deadline now lst) = Inr s"
  shows "\<exists>conn. n_client N conn peer = Inr s"
  using assms
proof (induction N peer hs deadline now lst rule: dial_loop.induct)
  case (1 N peer hs deadline now lst)
  obtain t r where r: "dial_round N deadline hs now lst = (t, r)" by fastforce
  with 1 show ?case
    by (cases r; cases "now < deadline") (auto simp: dial_loop.simps [of N peer hs deadline now])
qed

section \<open>Accepting\<close>

text \<open>
  What ends a wait of \<open>accept_loop\<close>: its own punch finishing, the endpoint closing, or an incoming
  connection whose handshake ends at a second time. The wait that nothing ends runs to the deadline.
\<close>

datatype wakeup = Punched nat | EndpointClosed nat | Incoming nat nat "unit + nat"

fun wake_time :: "wakeup \<Rightarrow> nat" where
  "wake_time (Punched t) = t"
| "wake_time (EndpointClosed t) = t"
| "wake_time (Incoming t _ _) = t"

fun accept_loop :: "net \<Rightarrow> bytes \<Rightarrow> nat \<Rightarrow> nat \<Rightarrow> wakeup list \<Rightarrow> nat \<times> (Error + Session)" where
  "accept_loop N peer deadline now [] =
     (max now deadline, Inl (EConnect ''rendezvous timed out waiting for the peer''))"
| "accept_loop N peer deadline now (w # ws) =
     (if deadline \<le> now then (now, Inl (EConnect ''rendezvous timed out waiting for the peer''))
      else if deadline \<le> wake_time w then (deadline, Inl (EConnect ''rendezvous timed out waiting for the peer''))
      else case w of
        Punched t \<Rightarrow> accept_loop N peer deadline t ws
      | EndpointClosed t \<Rightarrow> (t, Inl (EConnect ''endpoint closed while awaiting the peer''))
      | Incoming t t' r \<Rightarrow>
          (case r of Inr conn \<Rightarrow> (t' + n_server_time N conn, n_server N conn peer) | Inl _ \<Rightarrow> accept_loop N peer deadline t' ws))"

lemma accept_loop_Inr:
  assumes "snd (accept_loop N peer deadline now ws) = Inr s"
  shows "\<exists>conn. n_server N conn peer = Inr s"
  using assms
  by (induction N peer deadline now ws rule: accept_loop.induct) (auto split: wakeup.splits sum.splits if_splits)

text \<open>Failed handshakes and finished punches do not end the wait: the first real connection is taken.\<close>

lemma accept_loop_skips:
  assumes "list_all (\<lambda>w. wake_time w < deadline \<and>
      (case w of Punched _ \<Rightarrow> True | Incoming t t' r \<Rightarrow> r = Inl () \<and> t' < deadline | EndpointClosed _ \<Rightarrow> False)) ws"
    and "now < deadline" "t < deadline"
  shows "accept_loop N peer deadline now (ws @ Incoming t t' (Inr conn) # rest) =
    (t' + n_server_time N conn, n_server N conn peer)"
  using assms by (induction ws arbitrary: now) (auto split: wakeup.splits)

text \<open>
  What ends the loop: the deadline, possibly late by a failed handshake that began before it; the closing of the
  endpoint; or a handshake that began before the deadline and succeeded, with the hellos behind it.
\<close>

definition accept_end :: "net \<Rightarrow> bytes \<Rightarrow> nat \<Rightarrow> nat \<Rightarrow> wakeup list \<Rightarrow> nat \<Rightarrow> Error + Session \<Rightarrow> bool" where
  "accept_end N peer deadline now ws t r \<longleftrightarrow>
     r = Inl (EConnect ''rendezvous timed out waiting for the peer'') \<and>
       (t \<le> max now deadline \<or> (\<exists>t0 < deadline. Incoming t0 t (Inl ()) \<in> set ws)) \<or>
     r = Inl (EConnect ''endpoint closed while awaiting the peer'') \<and> t < deadline \<and> EndpointClosed t \<in> set ws \<or>
     (\<exists>t0 < deadline. \<exists>t1 conn. Incoming t0 t1 (Inr conn) \<in> set ws \<and> t = t1 + n_server_time N conn \<and> r = n_server N conn peer)"

lemma accept_end_later:
  assumes "accept_end N peer deadline u ws t r" "u \<le> max now deadline"
  shows "accept_end N peer deadline now (w # ws) t r"
  using assms unfolding accept_end_def by (auto simp: max_def split: if_splits)

lemma accept_late:
  assumes "deadline \<le> now" "accept_loop N peer deadline now ws = (t, r)"
  shows "t = now \<and> r = Inl (EConnect ''rendezvous timed out waiting for the peer'')"
  using assms by (cases ws) simp_all

lemma accept_loop_ends: "accept_loop N peer deadline now ws = (t, r) \<Longrightarrow> accept_end N peer deadline now ws t r"
proof (induction ws arbitrary: now)
  case Nil
  then show ?case by (simp add: accept_end_def)
next
  case (Cons w ws)
  show ?case
  proof (cases "deadline \<le> now \<or> deadline \<le> wake_time w")
    case True
    with Cons.prems show ?thesis by (auto simp: accept_end_def split: if_splits)
  next
    case False
    show ?thesis
    proof (cases w)
      case (Punched u)
      with Cons.prems False have "accept_loop N peer deadline u ws = (t, r)" "u \<le> max now deadline" by simp_all
      from accept_end_later [OF Cons.IH [OF this(1)] this(2)] show ?thesis .
    next
      case (EndpointClosed u)
      with Cons.prems False show ?thesis by (simp add: accept_end_def)
    next
      case (Incoming u u' q)
      show ?thesis
      proof (cases q)
        case (Inl x)
        with Cons.prems False Incoming have a: "accept_loop N peer deadline u' ws = (t, r)" by simp
        show ?thesis
        proof (cases "u' \<le> max now deadline")
          case True
          from accept_end_later [OF Cons.IH [OF a] this] show ?thesis .
        next
          case False
          with accept_late [OF _ a] have "t = u'" "r = Inl (EConnect ''rendezvous timed out waiting for the peer'')" by simp_all
          with Incoming Inl \<open>\<not> (deadline \<le> now \<or> deadline \<le> wake_time w)\<close> show ?thesis
            unfolding accept_end_def by (intro disjI1 conjI disjI2 exI [of _ u]) simp_all
        qed
      next
        case (Inr conn)
        with Cons.prems False Incoming show ?thesis
          unfolding accept_end_def by (intro disjI2 exI [of _ u] conjI exI [of _ u'] exI [of _ conn]) simp_all
      qed
    qed
  qed
qed

section \<open>The rendezvous\<close>

definition rendezvous_on ::
    "net \<Rightarrow> key_lib \<Rightarrow> wakeup list \<Rightarrow> nat \<Rightarrow> Ticket \<Rightarrow> LocalBundle \<Rightarrow> nat \<Rightarrow> nat \<times> (Error + Session)" where
  "rendezvous_on N K ws now t loc timeout =
     (case check_valid (n_wall N now) t of
        Inl e \<Rightarrow> (now, Inl e)
      | Inr _ \<Rightarrow>
          if bundle_id K (local_bundle loc) = bundle_id K (identity t) then
            (now, Inl (EConnect ''a peer cannot rendezvous with itself''))
          else if direct_hints t = [] then
            (now, Inl (if onion_hints t \<noteq> [] then EConnect ''this ticket offers only onion addresses''
                       else EConnect ''ticket carries no address hints''))
          else
            let peer = classical (identity t);
                role = role_for K loc t;
                deadline = now + timeout;
                (t1, r) = (case role of
                    Dialer \<Rightarrow> dial_loop N peer (direct_hints t) deadline now ''no attempt completed''
                  | Accepter \<Rightarrow> accept_loop N peer deadline now ws)
            in (case r of
                  Inl e \<Rightarrow> (t1, Inl e)
                | Inr session \<Rightarrow>
                    (t1 + spent session,
                     bindE (snd (authenticate K session loc (identity t) (side_of role))) (\<lambda>_. Inr session))))"

text \<open>A session was pinned to the ticket's key and passed the post-quantum check for its side.\<close>

definition pinned_session :: "net \<Rightarrow> key_lib \<Rightarrow> LocalBundle \<Rightarrow> IdentityBundle \<Rightarrow> Session \<Rightarrow> bool" where
  "pinned_session N K loc peer s \<longleftrightarrow>
     (\<exists>conn. n_client N conn (classical peer) = Inr s \<or> n_server N conn (classical peer) = Inr s \<or>
             n_tls N conn (classical peer) = Inr s) \<and>
     (\<exists>side. snd (authenticate K s loc peer side) = Inr (is_hybrid peer))"

lemma authenticate_result:
  "snd (authenticate K s loc peer side) = Inr b \<Longrightarrow> snd (authenticate K s loc peer side) = Inr (is_hybrid peer)"
  by (frule authenticate_Inr(1)) simp

lemma rendezvous_on_Inr:
  assumes "snd (rendezvous_on N K ws now t loc timeout) = Inr s"
  shows "pinned_session N K loc (identity t) s \<and> direct_hints t \<noteq> [] \<and> \<not> is_expired_at t (n_wall N now) \<and>
    bundle_id K (local_bundle loc) \<noteq> bundle_id K (identity t)"
proof -
  let ?p = "classical (identity t)" and ?role = "role_for K loc t"
  let ?res = "case ?role of Dialer \<Rightarrow> dial_loop N ?p (direct_hints t) (now + timeout) now ''no attempt completed''
     | Accepter \<Rightarrow> accept_loop N ?p (now + timeout) now ws"
  obtain t1 r where r: "?res = (t1, r)" by fastforce
  from assms r have g: "\<not> is_expired_at t (n_wall N now)" "bundle_id K (local_bundle loc) \<noteq> bundle_id K (identity t)"
    "direct_hints t \<noteq> []" "r = Inr s" "\<exists>b. snd (authenticate K s loc (identity t) (side_of ?role)) = Inr b"
    by (auto simp: rendezvous_on_def Let_def check_valid_def result_simps split: sum.splits if_splits)
  have "\<exists>conn. n_client N conn ?p = Inr s \<or> n_server N conn ?p = Inr s"
    using r g(4) dial_loop_Inr [of N ?p] accept_loop_Inr [of N ?p]
    by (cases ?role) (metis Role.simps(3) snd_conv, metis Role.simps(4) snd_conv)
  with g authenticate_result show ?thesis unfolding pinned_session_def by blast
qed

section \<open>The onion path\<close>

definition tor_dial :: "net \<Rightarrow> key_lib \<Rightarrow> nat \<Rightarrow> SocketAddr \<Rightarrow> Ticket \<Rightarrow> LocalBundle \<Rightarrow> Error + Session" where
  "tor_dial N K now socks t loc =
     bindE (check_valid (n_wall N now) t) (\<lambda>_.
     bindE (ok_or (EConnect ''this ticket carries no onion address'')
              (case onion_hints t of [] \<Rightarrow> None | a # _ \<Rightarrow> Some a)) (\<lambda>addr.
     bindE (n_socks N socks addr) (\<lambda>stream.
     bindE (n_tls N stream (classical (identity t))) (\<lambda>session.
     bindE (snd (authenticate K session loc (identity t) Initiator)) (\<lambda>_. Inr session)))))"

definition is_loopback :: "IpAddr \<Rightarrow> bool" where
  "is_loopback a = (case a of V4 w \<Rightarrow> drop_bit 24 w = 127 | V6 w \<Rightarrow> w = 1)"

definition OnionListener_bind :: "(SocketAddr \<Rightarrow> Error + nat) \<Rightarrow> SocketAddr \<Rightarrow> Error + nat" where
  "OnionListener_bind tcp_bind addr =
     bindE (guardE (is_loopback (ip addr)) (EConnect ''refusing to bind an onion service off loopback'')) (\<lambda>_. tcp_bind addr)"

lemma tor_dial_Inr:
  assumes "tor_dial N K now socks t loc = Inr s"
  shows "pinned_session N K loc (identity t) s \<and> onion_hints t \<noteq> []"
proof -
  from assms obtain stream b where "n_tls N stream (classical (identity t)) = Inr s" "onion_hints t \<noteq> []"
    "snd (authenticate K s loc (identity t) Initiator) = Inr b"
    by (auto simp: tor_dial_def result_simps split: list.splits)
  with authenticate_result show ?thesis unfolding pinned_session_def by blast
qed

end
