(* ===== verification/Ladder.thy ===== *)
theory Ladder
  imports Reach
begin

text \<open>
  The connection ladder of \<open>p2p-live/src/reach.rs\<close>: the remembered address, the blind lookup, Tor.
  \<open>announce\<close> is the publishing side. The state of \<open>connect\<close> is the clock, the peer record it
  updates, the rungs it has tried and the failures it reports.
\<close>

record PeerState =
  ps_identity :: IdentityBundle
  ps_rendezvous :: bytes
  last_known :: "Endpoint list"
  newest_seen :: "u64 option"

definition PeerState_new :: "IdentityBundle \<Rightarrow> bytes \<Rightarrow> PeerState" where
  "PeerState_new i r = \<lparr>ps_identity = i, ps_rendezvous = r, last_known = [], newest_seen = None\<rparr>"

definition PeerState_from_ticket :: "Ticket \<Rightarrow> bytes \<Rightarrow> PeerState" where
  "PeerState_from_ticket t r = \<lparr>ps_identity = identity t, ps_rendezvous = r, last_known = hints t, newest_seen = None\<rparr>"

definition absorb :: "AddressRecord \<Rightarrow> PeerState \<Rightarrow> PeerState" where
  "absorb r p = p\<lparr>last_known := rhints r, newest_seen := Some (seq r)\<rparr>"

definition peer_ticket :: "u64 \<Rightarrow> PeerState \<Rightarrow> Endpoint list \<Rightarrow> Ticket" where
  "peer_ticket now p hs = Ticket_new now (ps_identity p) hs"

datatype Path = Cached | Discovered | OnionPath

record Options =
  opt_timeout :: nat
  socks :: "SocketAddr option"
  use_discovery :: bool

text \<open>The configured discovery: its cryptography, its randomness and its substrates.\<close>

record disc =
  d_crypto :: crypto_lib
  d_xof :: xof
  d_rng :: rng
  d_subs :: "Substrate list"

fun is_direct :: "Endpoint \<Rightarrow> bool" where
  "is_direct (Direct a) = True"
| "is_direct (Onion a) = False"

definition direct_only :: "Endpoint list \<Rightarrow> Endpoint list" where
  "direct_only hs = filter is_direct hs"

definition onion_only :: "Endpoint list \<Rightarrow> Endpoint list" where
  "onion_only hs = filter (\<lambda>h. \<not> is_direct h) hs"

definition remaining :: "nat \<Rightarrow> nat \<Rightarrow> nat" where
  "remaining deadline now = deadline - now"

definition budget_for_cache :: "nat \<Rightarrow> nat" where
  "budget_for_cache left = min (left div 2) CACHED_ATTEMPT_MAX"

definition announce ::
    "key_lib \<Rightarrow> disc \<Rightarrow> LocalBundle \<Rightarrow> PeerState \<Rightarrow> u64 \<Rightarrow> u64 \<Rightarrow> Endpoint list \<Rightarrow> Error + Substrate list \<times> PublishReport" where
  "announce K D loc peer millis now hs =
     bindE (AddressRecord_new millis hs now) (\<lambda>r.
       publish (d_crypto D) (d_xof D) (ps_rendezvous peer) (bundle_id K (local_bundle loc))
         (bundle_id K (ps_identity peer)) r now (d_rng D) (d_subs D))"

section \<open>The rungs\<close>

datatype rung = TryCached "Endpoint list" | Lookup | TryDiscovered "Endpoint list" | TryOnion "Endpoint list"

record ladder =
  l_now :: nat
  l_peer :: PeerState
  l_tried :: "rung list"
  l_attempts :: "Error list"

type_synonym rung_result = "ladder \<times> (Session \<times> Path) option"

definition tried :: "rung \<Rightarrow> ladder \<Rightarrow> ladder" where
  "tried r l = l\<lparr>l_tried := l_tried l @ [r]\<rparr>"

definition try_direct ::
    "net \<Rightarrow> key_lib \<Rightarrow> wakeup list \<Rightarrow> LocalBundle \<Rightarrow> Endpoint list \<Rightarrow> nat \<Rightarrow> Path \<Rightarrow> ladder \<Rightarrow> rung_result" where
  "try_direct N K ws loc hs budget path l =
     (let t = peer_ticket (n_wall N (l_now l)) (l_peer l) hs;
          (t1, r) = rendezvous_on N K ws (l_now l) t loc budget
      in case r of
           Inr session \<Rightarrow> (l\<lparr>l_now := t1\<rparr>, Some (session, path))
         | Inl e \<Rightarrow> (l\<lparr>l_now := t1, l_attempts := l_attempts l @ [e]\<rparr>, None))"

definition rung_cached :: "net \<Rightarrow> key_lib \<Rightarrow> wakeup list \<Rightarrow> LocalBundle \<Rightarrow> nat \<Rightarrow> ladder \<Rightarrow> rung_result" where
  "rung_cached N K ws loc deadline l =
     (let cached_direct = direct_only (last_known (l_peer l)) in
      if cached_direct = [] then (l, None)
      else try_direct N K ws loc cached_direct (budget_for_cache (remaining deadline (l_now l))) Cached
             (tried (TryCached cached_direct) l))"

definition rung_discovered ::
    "net \<Rightarrow> key_lib \<Rightarrow> disc \<Rightarrow> wakeup list \<Rightarrow> LocalBundle \<Rightarrow> Options \<Rightarrow> nat \<Rightarrow> ladder \<Rightarrow> rung_result" where
  "rung_discovered N K D ws loc opts deadline l =
     (if \<not> (use_discovery opts \<and> d_subs D \<noteq> [] \<and> remaining deadline (l_now l) \<noteq> 0) then (l, None)
      else
        let p = l_peer l;
            l1 = tried Lookup (l\<lparr>l_now := l_now l + n_lookup_time N\<rparr>) in
        case resolve (d_crypto D) (d_xof D) (ps_rendezvous p) (bundle_id K (local_bundle loc))
               (bundle_id K (ps_identity p)) (newest_seen p) (n_wall N (l_now l)) (d_rng D) (d_subs D) of
          Inl e \<Rightarrow> (l1\<lparr>l_attempts := l_attempts l1 @ [e]\<rparr>, None)
        | Inr r \<Rightarrow>
            let l2 = l1\<lparr>l_peer := absorb r p\<rparr>; direct = direct_only (rhints r) in
            if direct \<noteq> [] \<and> remaining deadline (l_now l2) \<noteq> 0
            then try_direct N K ws loc direct (remaining deadline (l_now l2)) Discovered (tried (TryDiscovered direct) l2)
            else (l2, None))"

definition rung_onion :: "net \<Rightarrow> key_lib \<Rightarrow> LocalBundle \<Rightarrow> Options \<Rightarrow> ladder \<Rightarrow> rung_result" where
  "rung_onion N K loc opts l =
     (let onions = onion_only (last_known (l_peer l)) in
      case socks opts of
        None \<Rightarrow> (l, None)
      | Some proxy \<Rightarrow>
          if onions = [] then (l, None)
          else
            let l1 = tried (TryOnion onions) l in
            case tor_dial N K (l_now l) proxy (peer_ticket (n_wall N (l_now l)) (l_peer l) onions) loc of
              Inr session \<Rightarrow> (l1, Some (session, OnionPath))
            | Inl e \<Rightarrow> (l1\<lparr>l_attempts := l_attempts l1 @ [e]\<rparr>, None))"

definition or_else :: "rung_result \<Rightarrow> (ladder \<Rightarrow> rung_result) \<Rightarrow> rung_result" where
  "or_else r f = (case snd r of Some s \<Rightarrow> r | None \<Rightarrow> f (fst r))"

definition connect ::
    "net \<Rightarrow> key_lib \<Rightarrow> disc \<Rightarrow> wakeup list \<Rightarrow> wakeup list \<Rightarrow> LocalBundle \<Rightarrow> Options \<Rightarrow> nat \<Rightarrow> PeerState \<Rightarrow>
     PeerState \<times> rung list \<times> (Error + Session \<times> Path)" where
  "connect N K D ws1 ws2 loc opts now peer =
     (if bundle_id K (local_bundle loc) = bundle_id K (ps_identity peer) then
        (peer, [], Inl (EConnect ''a peer cannot connect to itself''))
      else case n_bind N of
        Inl e \<Rightarrow> (peer, [], Inl e)
      | Inr _ \<Rightarrow>
          let deadline = now + opt_timeout opts;
              l0 = \<lparr>l_now = now, l_peer = peer, l_tried = [], l_attempts = []\<rparr>;
              (l, r) = or_else (or_else (rung_cached N K ws1 loc deadline l0)
                         (rung_discovered N K D ws2 loc opts deadline))
                         (rung_onion N K loc opts)
          in (l_peer l, l_tried l,
              case r of Some s \<Rightarrow> Inr s | None \<Rightarrow> Inl (EConnect ''could not reach this peer'')))"

section \<open>What every rung keeps\<close>

text \<open>
  The contract of a rung: the pinned identity and secret stay, the newest accepted sequence only
  grows, what was tried is only extended, and a session is pinned to the peer.
\<close>

definition seq_le :: "u64 option \<Rightarrow> u64 option \<Rightarrow> bool" where
  "seq_le a b = (case a of None \<Rightarrow> True | Some x \<Rightarrow> (case b of None \<Rightarrow> False | Some y \<Rightarrow> x \<le> y))"

definition peer_le :: "PeerState \<Rightarrow> PeerState \<Rightarrow> bool" where
  "peer_le p q \<longleftrightarrow> ps_identity q = ps_identity p \<and> ps_rendezvous q = ps_rendezvous p \<and> seq_le (newest_seen p) (newest_seen q)"

lemma seq_le_refl [simp]: "seq_le a a"
  by (simp add: seq_le_def split: option.splits)

lemma seq_le_trans: "seq_le a b \<Longrightarrow> seq_le b c \<Longrightarrow> seq_le a c"
  by (auto simp: seq_le_def split: option.splits)

lemma peer_le_refl [simp]: "peer_le p p"
  by (simp add: peer_le_def)

locale ladder_rung =
  fixes run :: "ladder \<Rightarrow> rung_result" and N :: net and K :: key_lib and loc :: LocalBundle
    and may :: "rung \<Rightarrow> bool"
  assumes keeps_peer: "peer_le (l_peer l) (l_peer (fst (run l)))"
    and session_pinned: "snd (run l) = Some (s, path) \<Longrightarrow> pinned_session N K loc (ps_identity (l_peer l)) s"
    and extends: "\<exists>rs. l_tried (fst (run l)) = l_tried l @ rs \<and> list_all may rs"
begin

lemma keeps_identity: "ps_identity (l_peer (fst (run l))) = ps_identity (l_peer l)"
  using keeps_peer [of l] by (simp add: peer_le_def)

end

lemma or_else_rung:
  assumes "ladder_rung f N K loc may" "ladder_rung g N K loc may"
  shows "ladder_rung (\<lambda>l. or_else (f l) g) N K loc may"
proof
  fix l s path
  note f = ladder_rung.keeps_peer [OF assms(1), of l] ladder_rung.extends [OF assms(1), of l]
  note g = ladder_rung.keeps_peer [OF assms(2), of "fst (f l)"] ladder_rung.extends [OF assms(2), of "fst (f l)"]
  show "peer_le (l_peer l) (l_peer (fst (or_else (f l) g)))"
    using f(1) g(1) by (cases "snd (f l)") (auto simp: or_else_def peer_le_def intro: seq_le_trans)
  show "\<exists>rs. l_tried (fst (or_else (f l) g)) = l_tried l @ rs \<and> list_all may rs"
    using f(2) g(2) by (cases "snd (f l)") (auto simp: or_else_def)
  assume "snd (or_else (f l) g) = Some (s, path)"
  then show "pinned_session N K loc (ps_identity (l_peer l)) s"
    using ladder_rung.session_pinned [OF assms(1), of l] ladder_rung.session_pinned [OF assms(2), of "fst (f l)"]
      ladder_rung.keeps_identity [OF assms(1), of l]
    by (cases "snd (f l)") (auto simp: or_else_def)
qed

lemma try_direct_facts:
  "l_peer (fst (try_direct N K ws loc hs b p l)) = l_peer l"
  "l_tried (fst (try_direct N K ws loc hs b p l)) = l_tried l"
  "snd (try_direct N K ws loc hs b p l) = Some (s, path) \<Longrightarrow>
     pinned_session N K loc (ps_identity (l_peer l)) s \<and> path = p"
proof -
  let ?t = "peer_ticket (n_wall N (l_now l)) (l_peer l) hs"
  obtain t1 r where r: "rendezvous_on N K ws (l_now l) ?t loc b = (t1, r)" by fastforce
  show "l_peer (fst (try_direct N K ws loc hs b p l)) = l_peer l"
    "l_tried (fst (try_direct N K ws loc hs b p l)) = l_tried l"
    by (simp_all add: try_direct_def r split: sum.splits)
  assume "snd (try_direct N K ws loc hs b p l) = Some (s, path)"
  then have "snd (rendezvous_on N K ws (l_now l) ?t loc b) = Inr s" "path = p"
    by (auto simp: try_direct_def r split: sum.splits)
  from rendezvous_on_Inr [OF this(1)] this(2)
  show "pinned_session N K loc (ps_identity (l_peer l)) s \<and> path = p" by (simp add: peer_ticket_def Ticket_new_def)
qed

lemma resolve_supersedes:
  assumes "resolve C x sec a b newest now g subs = Inr r"
  shows "supersedes r newest"
proof -
  from assms obtain sub where "search_slots C sub now newest (lookup_slots x sec (flip (publishing a b)) now) None = Some r"
    by (auto simp: resolve_def result_simps dest: resolve_in_Inr)
  from search_slots_best [OF this] obtain s where "candidate C sub now newest s = Some r" by auto
  then show ?thesis by (auto dest: candidate_Some)
qed

lemma supersedes_seq_le: "supersedes r newest \<Longrightarrow> seq_le newest (Some (seq r))"
  by (auto simp: supersedes_def seq_le_def split: option.splits)

section \<open>The three rungs meet the contract\<close>

definition may_try :: "Options \<Rightarrow> disc \<Rightarrow> rung \<Rightarrow> bool" where
  "may_try opts D r =
     (case r of
        TryCached hs \<Rightarrow> hs \<noteq> [] \<and> list_all is_direct hs
      | Lookup \<Rightarrow> use_discovery opts \<and> d_subs D \<noteq> []
      | TryDiscovered hs \<Rightarrow> use_discovery opts \<and> hs \<noteq> [] \<and> list_all is_direct hs
      | TryOnion hs \<Rightarrow> socks opts \<noteq> None \<and> hs \<noteq> [] \<and> list_all (\<lambda>h. \<not> is_direct h) hs)"

lemma rung_cached_cases:
  obtains (skip) "rung_cached N K ws loc deadline l = (l, None)"
  | (direct) hs b where "hs \<noteq> []" "list_all is_direct hs"
      "rung_cached N K ws loc deadline l = try_direct N K ws loc hs b Cached (tried (TryCached hs) l)"
proof (cases "direct_only (last_known (l_peer l)) = []")
  case True
  then show ?thesis using skip by (simp add: rung_cached_def)
next
  case False
  then show ?thesis
    by (intro direct [of "direct_only (last_known (l_peer l))"])
      (simp_all add: rung_cached_def Let_def, simp add: direct_only_def list_all_iff)
qed

interpretation cached: ladder_rung "rung_cached N K ws loc deadline" N K loc "may_try opts D"
  for N K ws loc deadline opts D
proof
  fix l
  show "peer_le (l_peer l) (l_peer (fst (rung_cached N K ws loc deadline l)))"
    by (rule rung_cached_cases [of N K ws loc deadline l]) (simp_all add: try_direct_facts tried_def)
  show "\<exists>rs. l_tried (fst (rung_cached N K ws loc deadline l)) = l_tried l @ rs \<and> list_all (may_try opts D) rs"
    by (rule rung_cached_cases [of N K ws loc deadline l]) (simp_all add: try_direct_facts tried_def may_try_def)
next
  fix l s path
  assume r: "snd (rung_cached N K ws loc deadline l) = Some (s, path)"
  show "pinned_session N K loc (ps_identity (l_peer l)) s"
    by (rule rung_cached_cases [of N K ws loc deadline l]) (use r in \<open>auto dest!: try_direct_facts(3) simp: tried_def\<close>)
qed

lemma rung_onion_cases:
  obtains (skip) "rung_onion N K loc opts l = (l, None)"
  | (onion) hs l1 r where "socks opts \<noteq> None" "hs \<noteq> []" "list_all (\<lambda>h. \<not> is_direct h) hs"
      "rung_onion N K loc opts l = (l1, r)" "l_peer l1 = l_peer l" "l_tried l1 = l_tried l @ [TryOnion hs]"
      "\<And>s path. r = Some (s, path) \<Longrightarrow> pinned_session N K loc (ps_identity (l_peer l)) s"
proof (cases "socks opts = None \<or> onion_only (last_known (l_peer l)) = []")
  case True
  then show ?thesis using skip by (auto simp: rung_onion_def Let_def split: option.splits)
next
  case False
  then obtain proxy where p: "socks opts = Some proxy" and ne: "onion_only (last_known (l_peer l)) \<noteq> []" by auto
  let ?hs = "onion_only (last_known (l_peer l))"
  let ?t = "peer_ticket (n_wall N (l_now l)) (l_peer l) ?hs"
  have "list_all (\<lambda>h. \<not> is_direct h) ?hs" by (simp add: onion_only_def list_all_iff)
  moreover have "identity ?t = ps_identity (l_peer l)" by (simp add: peer_ticket_def Ticket_new_def)
  then have "pinned_session N K loc (ps_identity (l_peer l)) s" if "tor_dial N K (l_now l) proxy ?t loc = Inr s" for s
    using tor_dial_Inr [OF that] by simp
  ultimately show ?thesis
    using p ne
    by (intro onion [of ?hs "fst (rung_onion N K loc opts l)" "snd (rung_onion N K loc opts l)"])
      (auto simp: rung_onion_def Let_def tried_def split: sum.splits)
qed

interpretation onion: ladder_rung "rung_onion N K loc opts" N K loc "may_try opts D"
  for N K loc opts D
proof
  fix l
  show "peer_le (l_peer l) (l_peer (fst (rung_onion N K loc opts l)))"
    by (rule rung_onion_cases [of N K loc opts l]) simp_all
  show "\<exists>rs. l_tried (fst (rung_onion N K loc opts l)) = l_tried l @ rs \<and> list_all (may_try opts D) rs"
    by (rule rung_onion_cases [of N K loc opts l]) (simp_all add: may_try_def)
next
  fix l s path
  assume r: "snd (rung_onion N K loc opts l) = Some (s, path)"
  show "pinned_session N K loc (ps_identity (l_peer l)) s"
    by (rule rung_onion_cases [of N K loc opts l]) (use r in auto)
qed

lemma rung_discovered_cases:
  obtains (off) "rung_discovered N K D ws loc opts deadline l = (l, None)"
  | (failed) l1 where "use_discovery opts" "d_subs D \<noteq> []" "rung_discovered N K D ws loc opts deadline l = (l1, None)"
      "l_peer l1 = l_peer l" "l_tried l1 = l_tried l @ [Lookup]"
  | (found) r l2 where "use_discovery opts" "d_subs D \<noteq> []" "supersedes r (newest_seen (l_peer l))"
      "rung_discovered N K D ws loc opts deadline l = (l2, None)"
      "l_peer l2 = absorb r (l_peer l)" "l_tried l2 = l_tried l @ [Lookup]"
  | (tried) r l2 b where "use_discovery opts" "d_subs D \<noteq> []" "supersedes r (newest_seen (l_peer l))"
      "rung_discovered N K D ws loc opts deadline l = try_direct N K ws loc (direct_only (rhints r)) b Discovered l2"
      "direct_only (rhints r) \<noteq> []" "l_peer l2 = absorb r (l_peer l)"
      "l_tried l2 = l_tried l @ [Lookup, TryDiscovered (direct_only (rhints r))]"
proof (cases "use_discovery opts \<and> d_subs D \<noteq> [] \<and> remaining deadline (l_now l) \<noteq> 0")
  case False
  then show ?thesis using off by (simp add: rung_discovered_def)
next
  case on: True
  let ?p = "l_peer l"
  let ?res = "resolve (d_crypto D) (d_xof D) (ps_rendezvous ?p) (bundle_id K (local_bundle loc))
     (bundle_id K (ps_identity ?p)) (newest_seen ?p) (n_wall N (l_now l)) (d_rng D) (d_subs D)"
  show ?thesis
  proof (cases ?res)
    case (Inl e)
    let ?l1 = "tried Lookup (l\<lparr>l_now := l_now l + n_lookup_time N\<rparr>)"
    from on Inl show ?thesis
      by (intro failed [of "?l1\<lparr>l_attempts := l_attempts ?l1 @ [e]\<rparr>"]) (simp_all add: rung_discovered_def Let_def tried_def)
  next
    case (Inr r)
    let ?d = "direct_only (rhints r)"
    let ?l2 = "(tried Lookup (l\<lparr>l_now := l_now l + n_lookup_time N\<rparr>))\<lparr>l_peer := absorb r ?p\<rparr>"
    show ?thesis
    proof (cases "direct_only (rhints r) \<noteq> [] \<and> remaining deadline (l_now l + n_lookup_time N) \<noteq> 0")
      case True
      then have "rung_discovered N K D ws loc opts deadline l =
          try_direct N K ws loc ?d (remaining deadline (l_now l + n_lookup_time N)) Discovered (Ladder.tried (TryDiscovered ?d) ?l2)"
        using on Inr by (simp add: rung_discovered_def Let_def tried_def)
      with on True resolve_supersedes [OF Inr] show ?thesis by (intro tried) (auto simp: tried_def)
    next
      case False
      then have "rung_discovered N K D ws loc opts deadline l = (?l2, None)"
        using on Inr by (auto simp: rung_discovered_def Let_def tried_def)
      with on resolve_supersedes [OF Inr] show ?thesis by (intro found) (auto simp: tried_def)
    qed
  qed
qed

interpretation discovered: ladder_rung "rung_discovered N K D ws loc opts deadline" N K loc "may_try opts D"
  for N K D ws loc opts deadline
proof
  fix l
  show "peer_le (l_peer l) (l_peer (fst (rung_discovered N K D ws loc opts deadline l)))"
    by (rule rung_discovered_cases [of N K D ws loc opts deadline l])
      (simp_all add: try_direct_facts peer_le_def absorb_def supersedes_seq_le)
  show "\<exists>rs. l_tried (fst (rung_discovered N K D ws loc opts deadline l)) = l_tried l @ rs \<and> list_all (may_try opts D) rs"
    by (rule rung_discovered_cases [of N K D ws loc opts deadline l])
      (simp_all add: try_direct_facts may_try_def direct_only_def list_all_iff)
next
  fix l s path
  assume r: "snd (rung_discovered N K D ws loc opts deadline l) = Some (s, path)"
  show "pinned_session N K loc (ps_identity (l_peer l)) s"
    by (rule rung_discovered_cases [of N K D ws loc opts deadline l])
      (use r in \<open>auto dest!: try_direct_facts(3) simp: absorb_def\<close>)
qed

interpretation all_rungs: ladder_rung
  "\<lambda>l. or_else (or_else (rung_cached N K ws1 loc deadline l) (rung_discovered N K D ws2 loc opts deadline)) (rung_onion N K loc opts)"
  N K loc "may_try opts D"
  for N K ws1 ws2 loc deadline D opts
  by (intro or_else_rung cached.ladder_rung_axioms discovered.ladder_rung_axioms onion.ladder_rung_axioms)

end
