(* ===== verification/LiveDemo.thy ===== *)
theory LiveDemo
  imports Pairing Ladder CryptoDemo
begin

text \<open>
  Concrete, executable instances of the third-party parameters of \<open>p2p-live\<close>: base32 with one
  letter per half byte, hashes and a keyed output that truncate and pad, signatures that repeat the
  key, and a PAKE whose key is the password. They satisfy every hypothesis the theorems make.
\<close>

section \<open>Keys and text\<close>

definition demo_half :: "nat \<Rightarrow> char" where
  "demo_half n = char_of (65 + n)"

definition demo_b32_encode :: "bytes \<Rightarrow> string" where
  "demo_b32_encode bs = concat (map (\<lambda>b. [demo_half (unat b div 16), demo_half (unat b mod 16)]) bs)"

definition demo_unhalf :: "char \<Rightarrow> nat option" where
  "demo_unhalf c = (let n = of_char c in if 65 \<le> n \<and> n < 81 then Some (n - 65) else None)"

fun demo_b32_decode :: "string \<Rightarrow> bytes option" where
  "demo_b32_decode [] = Some []"
| "demo_b32_decode [c] = None"
| "demo_b32_decode (c # d # s) =
     Option.bind (demo_unhalf c) (\<lambda>h. Option.bind (demo_unhalf d) (\<lambda>l.
     Option.bind (demo_b32_decode s) (\<lambda>bs. Some (word_of_nat (16 * h + l) # bs))))"

definition demo_blake3 :: "bytes \<Rightarrow> bytes" where
  "demo_blake3 bs = take 32 (rev bs @ replicate 32 0)"

definition demo_keys :: key_lib where
  "demo_keys = \<lparr>blake3 = demo_blake3, b32_encode = demo_b32_encode, b32_decode = demo_b32_decode,
     ed_public = (\<lambda>der. Some (rev der)),
     pq_public_of = (\<lambda>sk. Some (replicate ML_DSA_65_PUBLIC_KEY_LEN (case sk of [] \<Rightarrow> 0 | b # _ \<Rightarrow> b))),
     pq_sign = (\<lambda>sk m. Some ((case sk of [] \<Rightarrow> 0 | b # _ \<Rightarrow> b) # m)),
     pq_verify = (\<lambda>pk m s. s = hd pk # m)\<rparr>"

lemma demo_unhalf_half [simp]: "n < 16 \<Longrightarrow> demo_unhalf (demo_half n) = Some n"
  by (simp add: demo_unhalf_def demo_half_def)

lemma demo_unhalf_Some:
  assumes "demo_unhalf c = Some n"
  shows "n < 16 \<and> demo_half n = c"
  using assms by (auto simp: demo_unhalf_def demo_half_def Let_def split: if_splits)

lemma demo_byte_halves:
  assumes "h < 16" "l < 16"
  shows "unat (word_of_nat (16 * h + l) :: byte) div 16 = h" "unat (word_of_nat (16 * h + l) :: byte) mod 16 = l"
proof -
  have "unat (word_of_nat (16 * h + l) :: byte) = 16 * h + l" using assms by (intro unat_u8_of_nat) simp
  with assms show "unat (word_of_nat (16 * h + l) :: byte) div 16 = h" "unat (word_of_nat (16 * h + l) :: byte) mod 16 = l"
    by simp_all
qed

lemma demo_decode_encode: "demo_b32_decode (demo_b32_encode bs) = Some bs"
proof (induction bs)
  case Nil
  show ?case by (simp add: demo_b32_encode_def)
next
  case (Cons b bs)
  have "unat b div 16 < 16" using unat_bound [of b] by auto
  moreover have "word_of_nat (16 * (unat b div 16) + unat b mod 16) = b" by (simp del: of_nat_add of_nat_mult)
  ultimately show ?case using Cons by (simp add: demo_b32_encode_def del: of_nat_add of_nat_mult)
qed

lemma demo_encode_decode: "demo_b32_decode s = Some bs \<Longrightarrow> demo_b32_encode bs = s"
proof (induction s arbitrary: bs rule: demo_b32_decode.induct)
  case (3 c d s)
  from "3.prems" obtain h l r where r: "demo_unhalf c = Some h" "demo_unhalf d = Some l" "demo_b32_decode s = Some r"
    "bs = word_of_nat (16 * h + l) # r"
    by (auto simp: bind_eq_Some_conv)
  have "h < 16" "l < 16" "demo_half h = c" "demo_half l = d"
    using demo_unhalf_Some [OF r(1)] demo_unhalf_Some [OF r(2)] by simp_all
  with "3.IH" [OF r(1,2,3)] r(4) demo_byte_halves [of h l] show ?case
    by (simp add: demo_b32_encode_def del: of_nat_add of_nat_mult)
qed (simp_all add: demo_b32_encode_def)

lemma demo_half_char: "n < 16 \<Longrightarrow> b32_char (demo_half n)"
  by (simp add: b32_char_def demo_half_def)

lemma demo_b32_ok: "b32_ok demo_keys"
proof -
  have "list_all b32_char (demo_b32_encode bs)" for bs
  proof (induction bs)
    case (Cons b bs)
    have "unat b div 16 < 16" using unat_bound [of b] by auto
    with Cons show ?case by (simp add: demo_b32_encode_def demo_half_char)
  qed (simp add: demo_b32_encode_def)
  then show ?thesis by (simp add: b32_ok_def demo_keys_def demo_decode_encode demo_encode_decode)
qed

lemma demo_blake3_ok: "blake3_ok demo_keys"
  by (auto simp: blake3_ok_def demo_keys_def demo_blake3_def min_def)

lemma demo_blake3_sel: "blake3 demo_keys = demo_blake3"
  by (simp add: demo_keys_def)

lemma demo_pq_sig_ok: "pq_sig_ok demo_keys"
  by (auto simp: pq_sig_ok_def demo_keys_def ML_DSA_65_PUBLIC_KEY_LEN_def)

definition demo_local :: "byte \<Rightarrow> LocalBundle" where
  "demo_local b = \<lparr>lb_classical = \<lparr>li_public = [b], li_pkcs8 = [b]\<rparr>, lb_pq_pkcs8 = Some [b],
     lb_pq_public = Some (replicate ML_DSA_65_PUBLIC_KEY_LEN b)\<rparr>"

lemma demo_local_ok: "local_ok demo_keys (demo_local b)"
  by (simp add: local_ok_def demo_local_def demo_keys_def)

lemma demo_bundle_ok: "bundle_ok (local_bundle (demo_local b))"
  by (simp add: bundle_ok_def local_bundle_def demo_local_def)

lemma demo_ids: "bundle_id demo_keys (local_bundle (demo_local 1)) \<noteq> bundle_id demo_keys (local_bundle (demo_local 2))"
proof
  have h: "hd (bundle_id demo_keys (local_bundle (demo_local b))) = b" for b
    by (simp add: bundle_id_def demo_blake3_sel demo_blake3_def local_bundle_def demo_local_def bundle_to_bytes_def Let_def
        ML_DSA_65_PUBLIC_KEY_LEN_def)
  assume "bundle_id demo_keys (local_bundle (demo_local 1)) = bundle_id demo_keys (local_bundle (demo_local 2))"
  with h [of 1] h [of 2] show False by simp
qed

definition demo_addr :: SocketAddr where
  "demo_addr = \<lparr>ip = V4 0x7F000001, port = 4433\<rparr>"

definition demo_ticket :: Ticket where
  "demo_ticket = \<lparr>identity = local_bundle (demo_local 1), hints = [Direct demo_addr], suite = LivePq1, not_after = 100\<rparr>"

lemma demo_ticket_ok: "ticket_ok demo_ticket"
  by (simp add: ticket_ok_def demo_ticket_def bundle_ok_def hints_ok_def hint_ok_def MAX_HINTS_def
      bundle_to_bytes_def local_bundle_def demo_local_def Let_def ML_DSA_65_PUBLIC_KEY_LEN_def)

section \<open>Records and substrates\<close>

definition demo_xof :: xof where
  "demo_xof k m n = take n (rev m @ k @ replicate n 0)"

definition demo_substrate :: Substrate where
  "demo_substrate = \<lparr>sub_name = ''s'', stored = Map.empty, put_error = (\<lambda>_. None), get_error = (\<lambda>_. None)\<rparr>"

definition demo_record :: AddressRecord where
  "demo_record = \<lparr>rhints = [Direct demo_addr], seq = 5, rnot_after = 7200\<rparr>"

lemma demo_record_ok: "record_ok demo_record"
  by (simp add: record_ok_def demo_record_def hints_ok_def hint_ok_def MAX_HINTS_def)

lemma demo_xof_ok: "xof_ok demo_xof"
  by (auto simp: xof_ok_def demo_xof_def min_def)

section \<open>A PAKE\<close>

definition demo_pake :: pake_lib where
  "demo_pake = \<lparr>pake_start = (\<lambda>pw i g. ((pw, [g 0]), g)), pake_finish = (\<lambda>s m. Some s)\<rparr>"

lemma demo_pake_ok: "pake_ok demo_pake"
  by (simp add: pake_ok_def demo_pake_def)

end
