(* ===== verification/Stun.thy ===== *)
theory Stun
  imports Address
begin

unbundle bit_operations_syntax

text \<open>
  The STUN client (\<open>p2p-live/src/stun.rs\<close>): the binding request, the parser of the response and the
  receive loop of \<open>discover\<close>. The socket is the sequence of what it delivers, each with its time.
\<close>

definition BINDING_REQUEST :: u16 where "BINDING_REQUEST = 0x0001"
definition BINDING_SUCCESS :: u16 where "BINDING_SUCCESS = 0x0101"
definition MAGIC_COOKIE :: u32 where "MAGIC_COOKIE = 0x2112A442"
definition ATTR_XOR_MAPPED_ADDRESS :: u16 where "ATTR_XOR_MAPPED_ADDRESS = 0x0020"
definition ATTR_MAPPED_ADDRESS :: u16 where "ATTR_MAPPED_ADDRESS = 0x0001"
definition HEADER_LEN :: nat where "HEADER_LEN = 20"
definition TXID_LEN :: nat where "TXID_LEN = 12"

lemmas stun_consts = BINDING_REQUEST_def BINDING_SUCCESS_def MAGIC_COOKIE_def ATTR_XOR_MAPPED_ADDRESS_def
  ATTR_MAPPED_ADDRESS_def HEADER_LEN_def TXID_LEN_def

record Request =
  req_bytes :: bytes
  req_txid :: bytes

definition build_request :: "rng \<Rightarrow> Request \<times> rng" where
  "build_request g =
     (let (txid, g') = draw TXID_LEN g
      in (\<lparr>req_bytes = u16_to_be BINDING_REQUEST @ u16_to_be 0 @ u32_to_be MAGIC_COOKIE @ txid, req_txid = txid\<rparr>, g'))"

definition xor_bytes :: "bytes \<Rightarrow> bytes \<Rightarrow> bytes" where
  "xor_bytes out k = map2 (XOR) out k"

definition stun_key :: "bytes \<Rightarrow> bytes" where
  "stun_key txid = u32_to_be MAGIC_COOKIE @ txid"

definition port_mask :: u16 where
  "port_mask = ucast (drop_bit 16 MAGIC_COOKIE)"

definition decode_address :: "bytes \<Rightarrow> bytes \<Rightarrow> bool \<Rightarrow> Error + SocketAddr" where
  "decode_address val txid xored =
     bindE (guardE (4 \<le> length val) (EConnect ''STUN address attribute is too short'')) (\<lambda>_.
     let family = val ! 1;
         raw_port = u16_from_be [val ! 2, val ! 3];
         p = if xored then raw_port XOR port_mask else raw_port;
         plain = (\<lambda>bs. if xored then xor_bytes bs (stun_key txid) else bs) in
     bindE (if family = 1 then
              if 8 \<le> length val then Inr (V4 (u32_from_be (plain (slice 4 4 val))))
              else Inl (EConnect ''truncated IPv4 STUN address'')
            else if family = 2 then
              if 20 \<le> length val then Inr (V6 (u128_from_be (plain (slice 4 16 val))))
              else Inl (EConnect ''truncated IPv6 STUN address'')
            else Inl (EConnect ''STUN response has unknown address family'')) (\<lambda>a.
       Inr \<lparr>ip = a, port = p\<rparr>))"

text \<open>The attribute loop, on the part of the body from \<open>pos\<close> on; each round consumes at least the header.\<close>

definition next_multiple_of :: "nat \<Rightarrow> nat \<Rightarrow> nat" where
  "next_multiple_of n k = (if n mod k = 0 then n else n + (k - n mod k))"

function attrs_loop :: "bytes \<Rightarrow> bytes \<Rightarrow> (Error + SocketAddr) option \<Rightarrow> Error + SocketAddr" where
  "attrs_loop txid body fallback =
     (if 4 \<le> length body then
        let attr_type = u16_from_be (slice 0 2 body);
            attr_len = unat (u16_from_be (slice 2 2 body)) in
        if length body < 4 + attr_len then Inl (EConnect ''STUN attribute runs past the message'')
        else
          let val = slice 4 attr_len body in
          if attr_type = ATTR_XOR_MAPPED_ADDRESS then decode_address val txid True
          else
            attrs_loop txid (drop (4 + next_multiple_of attr_len 4) body)
              (if attr_type = ATTR_MAPPED_ADDRESS \<and> fallback = None
               then Some (decode_address val txid False) else fallback)
      else case fallback of Some r \<Rightarrow> r | None \<Rightarrow> Inl (EConnect ''STUN response carried no mapped address''))"
  by pat_completeness auto
termination by (relation "measure (\<lambda>(txid, body, fallback). length body)") auto

declare attrs_loop.simps [simp del]

definition parse_response :: "bytes \<Rightarrow> bytes \<Rightarrow> Error + SocketAddr" where
  "parse_response msg txid =
     bindE (guardE (HEADER_LEN \<le> length msg) (EConnect ''STUN response is too short'')) (\<lambda>_.
     bindE (guardE (u16_from_be (slice 0 2 msg) = BINDING_SUCCESS) (EConnect ''not a binding success'')) (\<lambda>_.
     bindE (guardE (u32_from_be (slice 4 4 msg) = MAGIC_COOKIE) (EConnect ''STUN response has a bad magic cookie'')) (\<lambda>_.
     bindE (guardE (slice 8 12 msg = txid) (EConnect ''STUN response transaction ID does not match our request'')) (\<lambda>_.
     let declared = unat (u16_from_be (slice 2 2 msg)) in
     bindE (guardE (HEADER_LEN + declared \<le> length msg) (EConnect ''STUN response is shorter than it claims'')) (\<lambda>_.
       attrs_loop txid (slice HEADER_LEN declared msg) None)))))"

text \<open>
  What the socket delivers: a datagram with its arrival time, the clock once it is parsed, its sender
  and its bytes, or a receive error.
\<close>

datatype arrival = Datagram nat nat SocketAddr bytes | RecvFailed nat

fun arrives :: "arrival \<Rightarrow> nat" where
  "arrives (Datagram t _ _ _) = t"
| "arrives (RecvFailed t) = t"

fun discover_loop :: "SocketAddr \<Rightarrow> bytes \<Rightarrow> nat \<Rightarrow> arrival list \<Rightarrow> Error + SocketAddr" where
  "discover_loop server txid deadline [] = Inl (EConnect ''STUN server did not reply'')"
| "discover_loop server txid deadline (a # as) =
     (if deadline \<le> arrives a then Inl (EConnect ''STUN server did not reply'')
      else case a of
        RecvFailed _ \<Rightarrow> Inl (EConnect ''STUN receive failed'')
      | Datagram _ parsed_at from_addr bs \<Rightarrow>
          if from_addr \<noteq> server then discover_loop server txid deadline as
          else (case parse_response (take 1024 bs) txid of
                  Inr addr \<Rightarrow> Inr addr
                | Inl e \<Rightarrow> if parsed_at < deadline then discover_loop server txid deadline as else Inl e))"

definition discover :: "bool \<Rightarrow> SocketAddr \<Rightarrow> nat \<Rightarrow> nat \<Rightarrow> arrival list \<Rightarrow> rng \<Rightarrow> Error + SocketAddr" where
  "discover send_ok server now timeout as g =
     (let (request, g') = build_request g in
      bindE (guardE send_ok (EConnect ''sending STUN request'')) (\<lambda>_.
        discover_loop server (req_txid request) (now + timeout) as))"

section \<open>Forged replies are useless\<close>

lemma parse_response_Inr:
  assumes "parse_response msg txid = Inr a" "length txid = TXID_LEN"
  shows "slice 0 2 msg = u16_to_be BINDING_SUCCESS" "slice 4 4 msg = u32_to_be MAGIC_COOKIE" "slice 8 12 msg = txid"
    "length msg \<ge> HEADER_LEN + unat (u16_from_be (slice 2 2 msg))"
proof -
  from assms(1) have l: "20 \<le> length msg" and
    c: "u16_from_be (slice 0 2 msg) = BINDING_SUCCESS" "u32_from_be (slice 4 4 msg) = MAGIC_COOKIE"
    and rest: "slice 8 12 msg = txid" "length msg \<ge> HEADER_LEN + unat (u16_from_be (slice 2 2 msg))"
    by (auto simp: parse_response_def result_simps HEADER_LEN_def Let_def)
  from l have "length (slice 0 2 msg) = 2" "length (slice 4 4 msg) = 4" by (simp_all add: slice_def)
  with c show "slice 0 2 msg = u16_to_be BINDING_SUCCESS" "slice 4 4 msg = u32_to_be MAGIC_COOKIE"
    by (metis u16_to_be_from_be, metis u32_to_be_from_be)
  from rest show "slice 8 12 msg = txid" "length msg \<ge> HEADER_LEN + unat (u16_from_be (slice 2 2 msg))" .
qed

lemma discover_loop_Inr:
  assumes "discover_loop server txid deadline as = Inr addr"
  shows "\<exists>t p bs. Datagram t p server bs \<in> set as \<and> t < deadline \<and> parse_response (take 1024 bs) txid = Inr addr"
  using assms
proof (induction as)
  case (Cons a as)
  show ?case
  proof (cases a)
    case (Datagram t p f bs)
    show ?thesis
    proof (cases "f = server \<and> is_ok (parse_response (take 1024 bs) txid)")
      case True
      with Datagram Cons.prems have "t < deadline \<and> parse_response (take 1024 bs) txid = Inr addr"
        by (auto split: if_splits sum.splits)
      with True Datagram show ?thesis by (intro exI [of _ t] exI [of _ p] exI [of _ bs]) simp
    next
      case False
      with Datagram Cons.prems have "discover_loop server txid deadline as = Inr addr"
        by (auto split: if_splits sum.splits)
      with Cons.IH show ?thesis by auto
    qed
  next
    case (RecvFailed t)
    with Cons.prems show ?thesis by (simp split: if_splits)
  qed
qed simp

text \<open>Datagrams from elsewhere, and those the parser refuses, only cost a turn.\<close>

definition noise :: "SocketAddr \<Rightarrow> bytes \<Rightarrow> nat \<Rightarrow> arrival \<Rightarrow> bool" where
  "noise server txid deadline a =
     (case a of
        Datagram t p f bs \<Rightarrow> t < deadline \<and> (f \<noteq> server \<or> p < deadline \<and> \<not> is_ok (parse_response (take 1024 bs) txid))
      | RecvFailed t \<Rightarrow> False)"

lemma discover_loop_noise:
  assumes "list_all (noise server txid deadline) as"
  shows "discover_loop server txid deadline (as @ bs) = discover_loop server txid deadline bs"
  using assms by (induction as) (auto simp: noise_def split: arrival.splits sum.splits)

section \<open>What a conforming server sends\<close>

definition encode_attr :: "u16 \<times> bytes \<Rightarrow> bytes" where
  "encode_attr a = u16_to_be (fst a) @ u16_to_be (word_of_nat (length (snd a))) @ snd a @
     replicate (next_multiple_of (length (snd a)) 4 - length (snd a)) 0"

definition xor_address :: "bytes \<Rightarrow> SocketAddr \<Rightarrow> bytes" where
  "xor_address txid a =
     (case ip a of V4 w \<Rightarrow> [0, 1] @ u16_to_be (port a XOR port_mask) @ xor_bytes (u32_to_be w) (stun_key txid)
      | V6 w \<Rightarrow> [0, 2] @ u16_to_be (port a XOR port_mask) @ xor_bytes (u128_to_be w) (stun_key txid))"

definition stun_reply :: "bytes \<Rightarrow> (u16 \<times> bytes) list \<Rightarrow> bytes" where
  "stun_reply txid as =
     (let body = concat (map encode_attr as) in
      u16_to_be BINDING_SUCCESS @ u16_to_be (word_of_nat (length body)) @ u32_to_be MAGIC_COOKIE @ txid @ body)"

lemma length_xor_bytes [simp]: "length (xor_bytes a k) = min (length a) (length k)"
  by (simp add: xor_bytes_def)

lemma xor_bytes_twice: "length a \<le> length k \<Longrightarrow> xor_bytes (xor_bytes a k) k = a"
  by (rule nth_equalityI) (simp_all add: xor_bytes_def xor.assoc)

lemma next_multiple_ge: "n \<le> next_multiple_of n k"
  by (simp add: next_multiple_of_def)

lemma u16_pair: "\<exists>a b. u16_to_be w = [a, b]"
  using int_codec_lengths(1) [of w] by (metis length_0_conv length_Suc_conv numeral_2_eq_2)

lemma u16_two: "u16_from_be [u16_to_be w ! 0, u16_to_be w ! 1] = w"
proof -
  obtain a b where "u16_to_be w = [a, b]" using u16_pair by blast
  then show ?thesis using u16_be_roundtrip [of w] by simp
qed

lemma decode_xor_address:
  assumes "length txid = TXID_LEN"
  shows "decode_address (xor_address txid a) txid True = Inr a"
proof -
  obtain i p where a: "a = \<lparr>ip = i, port = p\<rparr>" by (cases a) simp
  have k: "length (stun_key txid) = 16" using assms by (simp add: stun_key_def TXID_LEN_def)
  let ?p = "u16_to_be (p XOR port_mask)"
  obtain b c where q: "?p = [b, c]" using u16_pair by blast
  have w: "u16_from_be [b, c] = p XOR port_mask" using u16_two [of "p XOR port_mask"] q by simp
  show ?thesis
  proof (cases i)
    case (V4 v)
    then show ?thesis
      by (simp add: a decode_address_def xor_address_def q w k Let_def result_simps slice_def xor_bytes_twice xor.assoc)
  next
    case (V6 v)
    then show ?thesis
      by (simp add: a decode_address_def xor_address_def q w k Let_def result_simps slice_def xor_bytes_twice xor.assoc)
  qed
qed

lemma length_encode_attr: "length (encode_attr a) = 4 + next_multiple_of (length (snd a)) 4"
  using next_multiple_ge [of "length (snd a)" 4] by (simp add: encode_attr_def)

lemma attrs_loop_step:
  assumes "length (snd a) < 2 ^ 16"
  shows "attrs_loop txid (encode_attr a @ rest) fb =
     (if fst a = ATTR_XOR_MAPPED_ADDRESS then decode_address (snd a) txid True
      else attrs_loop txid rest (if fst a = ATTR_MAPPED_ADDRESS \<and> fb = None
               then Some (decode_address (snd a) txid False) else fb))"
proof -
  have s: "slice 0 2 (encode_attr a @ rest) = u16_to_be (fst a)"
    "slice 2 2 (encode_attr a @ rest) = u16_to_be (word_of_nat (length (snd a)))"
    "slice 4 (length (snd a)) (encode_attr a @ rest) = snd a"
    by (simp_all add: encode_attr_def slice_def)
  have d: "drop (4 + next_multiple_of (length (snd a)) 4) (encode_attr a @ rest) = rest"
    using length_encode_attr [of a] by simp
  have l: "length (encode_attr a @ rest) = 4 + next_multiple_of (length (snd a)) 4 + length rest"
    by (simp add: length_encode_attr)
  show ?thesis
    using assms next_multiple_ge [of "length (snd a)" 4]
    by (simp add: attrs_loop.simps [of txid "encode_attr a @ rest"] s d l Let_def del: drop_append length_append)
qed

text \<open>Attributes the client does not know, before and after, do not change the answer.\<close>

lemma parse_stun_reply:
  assumes "length txid = TXID_LEN" "\<forall>x \<in> set as. length (snd x) < 2 ^ 16 \<and> fst x \<noteq> ATTR_XOR_MAPPED_ADDRESS"
    and "length (concat (map encode_attr (as @ (ATTR_XOR_MAPPED_ADDRESS, xor_address txid a) # bs))) < 2 ^ 16"
  shows "parse_response (stun_reply txid (as @ (ATTR_XOR_MAPPED_ADDRESS, xor_address txid a) # bs)) txid = Inr a"
proof -
  let ?body = "concat (map encode_attr (as @ (ATTR_XOR_MAPPED_ADDRESS, xor_address txid a) # bs))"
  have x: "length (xor_address txid a) < 2 ^ 16" using assms(1)
    by (simp add: xor_address_def stun_key_def TXID_LEN_def split: IpAddr.splits)
  have loop: "attrs_loop txid (concat (map encode_attr as) @ encode_attr (ATTR_XOR_MAPPED_ADDRESS, xor_address txid a) @ r) fb = Inr a"
    for r fb using assms(2)
  proof (induction as arbitrary: fb)
    case Nil
    show ?case using attrs_loop_step [of "(ATTR_XOR_MAPPED_ADDRESS, xor_address txid a)"] x decode_xor_address [OF assms(1)] by simp
  next
    case (Cons y ys)
    then show ?case using attrs_loop_step [of y] by simp
  qed
  let ?m = "stun_reply txid (as @ (ATTR_XOR_MAPPED_ADDRESS, xor_address txid a) # bs)"
  have m: "?m = u16_to_be BINDING_SUCCESS @ u16_to_be (word_of_nat (length ?body)) @ u32_to_be MAGIC_COOKIE @ txid @ ?body"
    by (simp only: stun_reply_def Let_def)
  have s: "slice 0 2 ?m = u16_to_be BINDING_SUCCESS" "slice 2 2 ?m = u16_to_be (word_of_nat (length ?body))"
    "slice 4 4 ?m = u32_to_be MAGIC_COOKIE" "slice 8 12 ?m = txid" "slice 20 (length ?body) ?m = ?body"
    "length ?m = 20 + length ?body"
    unfolding m using assms(1) by (simp_all add: slice_def TXID_LEN_def)
  have u: "unat (u16_from_be (slice 2 2 ?m)) = length ?body" using assms(3) unfolding s
    by (simp del: map_append concat_append length_append of_nat_add)
  show ?thesis
    unfolding parse_response_def Let_def u HEADER_LEN_def using s loop by (simp add: result_simps)
qed

lemma discover_reply:
  assumes "build_request g = (rq, g')"
    and "\<forall>x \<in> set as. length (snd x) < 2 ^ 16 \<and> fst x \<noteq> ATTR_XOR_MAPPED_ADDRESS"
    and "length (concat (map encode_attr (as @ (ATTR_XOR_MAPPED_ADDRESS, xor_address (req_txid rq) a) # bs))) + 20 \<le> 1024"
    and "list_all (noise server (req_txid rq) (now + timeout)) before" "t < now + timeout"
  shows "discover True server now timeout (before @
      Datagram t p server (stun_reply (req_txid rq) (as @ (ATTR_XOR_MAPPED_ADDRESS, xor_address (req_txid rq) a) # bs)) # after) g = Inr a"
proof -
  have l: "length (req_txid rq) = TXID_LEN"
    using assms(1) by (auto simp: build_request_def draw_length Let_def split: prod.splits)
  let ?m = "stun_reply (req_txid rq) (as @ (ATTR_XOR_MAPPED_ADDRESS, xor_address (req_txid rq) a) # bs)"
  have pr: "parse_response ?m (req_txid rq) = Inr a"
    using assms(3) by (intro parse_stun_reply [OF l assms(2)]) simp
  have "length ?m \<le> 1024" using assms(3) l by (simp add: stun_reply_def Let_def TXID_LEN_def)
  then have "take 1024 ?m = ?m" by simp
  with pr assms(5) have "discover_loop server (req_txid rq) (now + timeout) (before @ Datagram t p server ?m # after) = Inr a"
    unfolding discover_loop_noise [OF assms(4)] by simp
  with assms(1) show ?thesis by (simp add: discover_def)
qed

end
