(* ===== verification/Links.thy ===== *)
theory Links
  imports Tickets
begin

text \<open>
  Server links (\<open>p2p-live/src/discovery/link.rs\<close>): everything needed to reach and authenticate
  one rendezvous server. \<open>ServerName::try_from\<close> of \<open>rustls\<close> is the argument \<open>name_ok\<close>.
\<close>

datatype ServerKind = Rendezvous | Relay

fun kind_to_byte :: "ServerKind \<Rightarrow> byte" where
  "kind_to_byte Rendezvous = 1"
| "kind_to_byte Relay = 2"

definition kind_from_byte :: "byte \<Rightarrow> Error + ServerKind" where
  "kind_from_byte b =
     (if b = 1 then Inr Rendezvous else if b = 2 then Inr Relay else Inl (EDiscovery ''unknown server kind''))"

record ServerLink =
  kind :: ServerKind
  shost :: string
  sport :: u16
  sprefix :: string
  pins :: "bytes list"
  onion :: "OnionAddress option"

definition MAX_HOST_LEN :: nat where "MAX_HOST_LEN = 255"
definition MAX_PREFIX_LEN :: nat where "MAX_PREFIX_LEN = 128"
definition MAX_PINS :: nat where "MAX_PINS = 8"
definition LINK_PREFIX :: string where "LINK_PREFIX = ''atom-rdv-1:''"
definition LINK_CHECKSUM_DOMAIN :: bytes where "LINK_CHECKSUM_DOMAIN = str_bytes ''atom-live-rdv-link-checksum-v1''"

definition trim_slashes :: "string \<Rightarrow> string" where
  "trim_slashes s = rev (dropWhile (\<lambda>c. c = CHR ''/'') (rev (dropWhile (\<lambda>c. c = CHR ''/'') s)))"

definition link_validate :: "(string \<Rightarrow> bool) \<Rightarrow> ServerLink \<Rightarrow> Error + unit" where
  "link_validate name_ok l =
     bindE (guardE (\<not> (shost l = [] \<and> onion l = None)) (EDiscovery ''a server link needs somewhere to connect'')) (\<lambda>_.
     bindE (guardE (length (shost l) \<le> MAX_HOST_LEN) (EDiscovery ''server host is too long'')) (\<lambda>_.
     bindE (guardE (shost l = [] \<or> name_ok (shost l)) (EDiscovery ''is not a usable host'')) (\<lambda>_.
     bindE (guardE (length (sprefix l) \<le> MAX_PREFIX_LEN) (EDiscovery ''server path prefix is too long'')) (\<lambda>_.
     bindE (guardE (pins l \<noteq> []) (EDiscovery ''a server link must pin at least one certificate'')) (\<lambda>_.
     guardE (length (pins l) \<le> MAX_PINS) (EDiscovery ''a server link may pin at most MAX_PINS certificates''))))))"

definition ServerLink_new ::
    "(string \<Rightarrow> bool) \<Rightarrow> ServerKind \<Rightarrow> string \<Rightarrow> u16 \<Rightarrow> string \<Rightarrow> bytes list \<Rightarrow> OnionAddress option \<Rightarrow> Error + ServerLink" where
  "ServerLink_new name_ok k h p pre ps o' =
     (let l = \<lparr>kind = k, shost = h, sport = p, sprefix = trim_slashes pre, pins = ps, onion = o'\<rparr>
      in bindE (link_validate name_ok l) (\<lambda>_. Inr l))"

definition is_onion_only :: "ServerLink \<Rightarrow> bool" where
  "is_onion_only l \<longleftrightarrow> shost l = [] \<and> onion l \<noteq> None"

definition link_to_bytes :: "ServerLink \<Rightarrow> bytes" where
  "link_to_bytes l =
     FORMAT_VERSION # kind_to_byte (kind l) # (if onion l \<noteq> None then 1 else 0) #
     word_of_nat (length (shost l)) # str_bytes (shost l) @ u16_to_be (sport l) @
     word_of_nat (length (sprefix l)) # str_bytes (sprefix l) @
     word_of_nat (length (pins l)) # concat (pins l) @
     (case onion l of None \<Rightarrow> [] | Some a \<Rightarrow> str_bytes (ohost a) @ u16_to_be (oport a))"

definition link_onion_part :: "bool \<Rightarrow> Reader \<Rightarrow> Error + OnionAddress option \<times> Reader" where
  "link_onion_part has_onion r =
     (if has_onion then
        bindE (r_take ONION_LABEL_BYTES r) (\<lambda>(lb, r1).
        bindE (ok_or (EDiscovery ''onion host is not valid UTF-8'') (from_utf8 lb)) (\<lambda>label.
        bindE (r_u16 r1) (\<lambda>(p, r2).
        bindE (map_err (\<lambda>_. EDiscovery ''server link has a bad onion'') (OnionAddress_new label p)) (\<lambda>a.
          Inr (Some a, r2)))))
      else Inr (None, r))"

definition link_flag :: "byte \<Rightarrow> Error + bool" where
  "link_flag b = (if b = 0 then Inr False else if b = 1 then Inr True
     else Inl (EDiscovery ''server link flag byte is not a boolean''))"

definition link_from_bytes :: "(string \<Rightarrow> bool) \<Rightarrow> bytes \<Rightarrow> Error + ServerLink" where
  "link_from_bytes name_ok bs =
     bindE (r_u8 (Reader_named bs ''server link'')) (\<lambda>(version, r1).
     bindE (guardE (version = FORMAT_VERSION) (EDiscovery ''server link format version'')) (\<lambda>_.
     bindE (r_u8 r1) (\<lambda>(kb, r2).
     bindE (kind_from_byte kb) (\<lambda>k.
     bindE (r_u8 r2) (\<lambda>(flag, r3).
     bindE (link_flag flag) (\<lambda>has_onion.
     bindE (r_u8 r3) (\<lambda>(host_len, r4).
     bindE (r_take (unat host_len) r4) (\<lambda>(hb, r5).
     bindE (ok_or (EDiscovery ''server host is not valid UTF-8'') (from_utf8 hb)) (\<lambda>h.
     bindE (r_u16 r5) (\<lambda>(p, r6).
     bindE (r_u8 r6) (\<lambda>(prefix_len, r7).
     bindE (r_take (unat prefix_len) r7) (\<lambda>(pb, r8).
     bindE (ok_or (EDiscovery ''server path prefix is not valid UTF-8'') (from_utf8 pb)) (\<lambda>pre.
     bindE (r_u8 r8) (\<lambda>(pin_count, r9).
     bindE (guardE (unat pin_count \<le> MAX_PINS) (EDiscovery ''server link pins more certificates than allowed'')) (\<lambda>_.
     bindE (decode_n (unat pin_count) (r_take 32) r9) (\<lambda>(ps, r10).
     bindE (link_onion_part has_onion r10) (\<lambda>(o', r11).
     bindE (guardE (r_is_empty r11) (EDiscovery ''trailing bytes after the server link'')) (\<lambda>_.
     let l = \<lparr>kind = k, shost = h, sport = p, sprefix = pre, pins = ps, onion = o'\<rparr>
     in bindE (link_validate name_ok l) (\<lambda>_. Inr l)))))))))))))))))))"

definition link_to_text :: "key_lib \<Rightarrow> ServerLink \<Rightarrow> string" where
  "link_to_text K l = text_encode K LINK_PREFIX LINK_CHECKSUM_DOMAIN (link_to_bytes l)"

definition link_from_text :: "key_lib \<Rightarrow> (string \<Rightarrow> bool) \<Rightarrow> string \<Rightarrow> Error + ServerLink" where
  "link_from_text K name_ok s =
     bindE (text_decode K LINK_PREFIX LINK_CHECKSUM_DOMAIN EDiscovery s) (link_from_bytes name_ok)"

text \<open>A link the checks of \<open>validate\<close> accept and whose parts are what their types promise.\<close>

definition link_ok :: "(string \<Rightarrow> bool) \<Rightarrow> ServerLink \<Rightarrow> bool" where
  "link_ok name_ok l \<longleftrightarrow>
     link_validate name_ok l = Inr () \<and>
     utf8_valid (str_bytes (shost l)) \<and> utf8_valid (str_bytes (sprefix l)) \<and>
     list_all (\<lambda>p. length p = 32) (pins l) \<and>
     (case onion l of None \<Rightarrow> True | Some a \<Rightarrow> onion_ok a)"

lemma link_validate_bounds:
  assumes "link_validate name_ok l = Inr ()"
  shows "length (shost l) < 256" "length (sprefix l) < 256" "length (pins l) \<le> 8"
  using assms by (auto simp: link_validate_def result_simps MAX_HOST_LEN_def MAX_PREFIX_LEN_def MAX_PINS_def)

lemma decode_pins_at:
  assumes "list_all (\<lambda>p. length p = 32) ps"
  shows "decode_n (length ps) (r_take 32) (Reader_at pre (concat ps @ t) nn) = Inr (ps, Reader_at (pre @ concat ps) t nn)"
  using assms by (induction ps arbitrary: pre) (simp_all add: wire_simps)

lemma link_onion_at:
  assumes "case a of None \<Rightarrow> True | Some x \<Rightarrow> onion_ok x"
  shows "link_onion_part (a \<noteq> None) (Reader_at pre (case a of None \<Rightarrow> [] | Some x \<Rightarrow> str_bytes (ohost x) @ u16_to_be (oport x)) nn) =
    Inr (a, Reader_at (pre @ (case a of None \<Rightarrow> [] | Some x \<Rightarrow> str_bytes (ohost x) @ u16_to_be (oport x))) [] nn)"
proof (cases a)
  case (Some x)
  with assms have ok: "onion_ok x" by simp
  then have "62 = length (ohost x)" by (simp add: onion_ok_def)
  with Some OnionAddress_new_id [OF ok] onion_ascii [OF ok] show ?thesis
    by (simp add: link_onion_part_def ONION_LABEL_BYTES_def wire_simps)
qed (simp add: link_onion_part_def)

lemma link_roundtrip:
  assumes "link_ok name_ok l"
  shows "link_from_bytes name_ok (link_to_bytes l) = Inr l"
proof -
  have v: "link_validate name_ok l = Inr ()" using assms by (simp add: link_ok_def)
  note b = link_validate_bounds [OF v]
  have u: "unat (word_of_nat (length (shost l)) :: byte) = length (shost l)"
    "unat (word_of_nat (length (sprefix l)) :: byte) = length (sprefix l)"
    "unat (word_of_nat (length (pins l)) :: byte) = length (pins l)" using b by simp_all
  have k: "kind_from_byte (kind_to_byte (kind l)) = Inr (kind l)" by (cases "kind l") (simp_all add: kind_from_byte_def)
  have f: "link_flag (if onion l \<noteq> None then 1 else 0) = Inr (onion l \<noteq> None)" by (simp add: link_flag_def)
  have s: "from_utf8 (str_bytes (shost l)) = Some (shost l)" "from_utf8 (str_bytes (sprefix l)) = Some (sprefix l)"
    and p: "list_all (\<lambda>p. length p = 32) (pins l)" and o': "case onion l of None \<Rightarrow> True | Some a \<Rightarrow> onion_ok a"
    using assms by (simp_all add: link_ok_def from_utf8_def)
  have eta: "\<lparr>kind = kind l, shost = shost l, sport = sport l, sprefix = sprefix l, pins = pins l, onion = onion l\<rparr> = l"
    by (cases l) simp
  show ?thesis
    using v b(3) k f s decode_pins_at [OF p] link_onion_at [OF o']
    by (simp add: link_from_bytes_def link_to_bytes_def Let_def Reader_named_at wire_simps u eta MAX_PINS_def del: not_None_eq)
qed

lemma decode_n_length: "decode_n n (r_take k) r = Inr (xs, r') \<Longrightarrow> list_all (\<lambda>x. length x = k) xs"
  using decode_n_all [of n "r_take k" r xs r' "\<lambda>x. length x = k"] r_take_Inr(1) by blast

lemma link_onion_part_ok: "link_onion_part f r = Inr (a, r') \<Longrightarrow> case a of None \<Rightarrow> True | Some x \<Rightarrow> onion_ok x"
  by (auto simp: link_onion_part_def result_simps split: if_splits dest: OnionAddress_new_ok)

lemma link_from_bytes_ok:
  assumes "link_from_bytes name_ok bs = Inr l"
  shows "link_ok name_ok l"
proof -
  from assms obtain hb pb r n r1 f r2 r3 where
    "link_validate name_ok l = Inr ()" "from_utf8 hb = Some (shost l)" "from_utf8 pb = Some (sprefix l)"
    "decode_n n (r_take 32) r = Inr (pins l, r1)" "link_onion_part f r2 = Inr (onion l, r3)"
    by (auto simp: link_from_bytes_def result_simps Let_def)
  then show ?thesis
    by (auto simp: link_ok_def dest: from_utf8_Some decode_n_length link_onion_part_ok)
qed

interpretation link: text_form link_to_bytes link_from_bytes link_ok LINK_PREFIX LINK_CHECKSUM_DOMAIN EDiscovery
  by unfold_locales (simp_all add: link_roundtrip link_from_bytes_ok, simp add: link_to_bytes_def)

lemma link_text_plain: "b32_ok K \<Longrightarrow> to_lowercase (trim (link_to_text K l)) = link_to_text K l"
  unfolding link_to_text_def
  by (rule text_plain) (auto simp: LINK_PREFIX_def is_whitespace_def to_lowercase_def to_lower_def)

end
