(* ===== verification/Blind.thy ===== *)
theory Blind
  imports Links Records
begin

text \<open>
  The blind HTTP store client of \<open>p2p-live/src/discovery/blind.rs\<close>: configuring an endpoint from
  a link, the request it sends, the bounded response parser, and certificate pins. A connection
  is the list of byte chunks its successive reads return; SHA-256 and \<open>ServerName::try_from\<close> are
  arguments. Headers are read over ASCII.
\<close>

definition MAX_HEADER_BYTES :: nat where "MAX_HEADER_BYTES = 8 * 1024"
definition MAX_BODY_BYTES :: nat where "MAX_BODY_BYTES = SEALED_LEN * 2"

section \<open>Configuration\<close>

record BlindEndpoint =
  be_name :: string
  be_host :: string
  be_port :: u16
  be_prefix :: string
  be_pins :: "bytes list"
  be_via :: "SocketAddr option"

fun digits :: "nat \<Rightarrow> string" where
  "digits n = (if n < 10 then [char_of (48 + n)] else digits (n div 10) @ [char_of (48 + n mod 10)])"

declare digits.simps [simp del]

definition link_label :: "ServerLink \<Rightarrow> string" where
  "link_label l =
     (if shost l \<noteq> [] then shost l @ '':'' @ digits (unat (sport l))
      else case onion l of Some a \<Rightarrow> take 8 (ohost a) @ ''...onion'' | None \<Rightarrow> ''server'')"

definition BlindEndpoint_new ::
    "(string \<Rightarrow> bool) \<Rightarrow> string \<Rightarrow> string \<Rightarrow> u16 \<Rightarrow> string \<Rightarrow> bytes list \<Rightarrow> Error + BlindEndpoint" where
  "BlindEndpoint_new name_ok name h p pre ps =
     bindE (guardE (h \<noteq> []) (EDiscovery ''endpoint host is empty'')) (\<lambda>_.
     bindE (guardE (name_ok h) (EDiscovery ''is not a usable host name'')) (\<lambda>_.
     bindE (guardE (ps \<noteq> []) (EDiscovery ''a rendezvous endpoint must be pinned to a certificate'')) (\<lambda>_.
       Inr \<lparr>be_name = name, be_host = h, be_port = p, be_prefix = trim_slashes pre, be_pins = ps, be_via = None\<rparr>)))"

definition link_target :: "ServerLink \<Rightarrow> SocketAddr option \<Rightarrow> Error + string \<times> u16" where
  "link_target l socks =
     (case (onion l, socks) of
        (Some a, Some _) \<Rightarrow> Inr (ohost a, oport a)
      | _ \<Rightarrow> if is_onion_only l then Inl (EDiscovery ''this endpoint is reachable only over Tor'')
             else Inr (shost l, sport l))"

definition from_link :: "(string \<Rightarrow> bool) \<Rightarrow> ServerLink \<Rightarrow> SocketAddr option \<Rightarrow> Error + BlindEndpoint" where
  "from_link name_ok l socks =
     bindE (guardE (kind l = Rendezvous) (EDiscovery ''this link names a different kind of server'')) (\<lambda>_.
     bindE (link_target l socks) (\<lambda>(h, p).
     bindE (BlindEndpoint_new name_ok (link_label l) h p (sprefix l) (pins l)) (\<lambda>e.
       Inr (case socks of Some proxy \<Rightarrow> e\<lparr>be_via := Some proxy\<rparr> | None \<Rightarrow> e))))"

definition path_for :: "BlindEndpoint \<Rightarrow> string \<Rightarrow> string" where
  "path_for e tag = (if be_prefix e = [] then ''/'' @ tag else ''/'' @ be_prefix e @ ''/'' @ tag)"

definition crlf :: string where "crlf = [CHR 0x0D, CHR 0x0A]"

definition request_bytes :: "BlindEndpoint \<Rightarrow> string \<Rightarrow> string \<Rightarrow> (bytes \<times> nat) option \<Rightarrow> bytes" where
  "request_bytes e meth tag body =
     str_bytes (meth @ '' '' @ path_for e tag @ '' HTTP/1.1'' @ crlf @
       ''Host: '' @ be_host e @ '':'' @ digits (unat (be_port e)) @ crlf @ ''Connection: close'' @ crlf @
       (case body of
          Some (b, ttl) \<Rightarrow> ''Content-Length: '' @ digits (length b) @ crlf @
            ''Content-Type: application/octet-stream'' @ crlf @
            ''X-Atom-Expire-Seconds: '' @ digits ttl @ crlf
        | None \<Rightarrow> ''Accept: application/octet-stream'' @ crlf) @ crlf) @
     (case body of Some (b, ttl) \<Rightarrow> b | None \<Rightarrow> [])"

section \<open>Reading a response\<close>

definition window_at :: "'a list \<Rightarrow> 'a list \<Rightarrow> nat \<Rightarrow> bool" where
  "window_at haystack needle i \<longleftrightarrow> slice i (length needle) haystack = needle"

definition find_subslice :: "'a list \<Rightarrow> 'a list \<Rightarrow> nat option" where
  "find_subslice haystack needle =
     find (window_at haystack needle) [0..<length haystack + 1 - length needle]"

fun read_headers :: "bytes \<Rightarrow> bytes list \<Rightarrow> Error + nat \<times> bytes \<times> bytes list" where
  "read_headers buf stream =
     (case find_subslice buf (str_bytes (crlf @ crlf)) of
        Some p \<Rightarrow> Inr (p + 4, buf, stream)
      | None \<Rightarrow>
          if MAX_HEADER_BYTES < length buf then Inl (EDiscovery ''response headers exceeded the size limit'')
          else (case stream of
                  [] \<Rightarrow> Inl (EDiscovery ''the endpoint closed the connection before sending a complete response'')
                | chunk # rest \<Rightarrow> read_headers (buf @ chunk) rest))"

declare read_headers.simps [simp del]

fun split_crlf :: "string \<Rightarrow> string \<Rightarrow> string list" where
  "split_crlf acc [] = [rev acc]"
| "split_crlf acc (c # cs) =
     (if c = CHR 0x0D \<and> cs \<noteq> [] \<and> hd cs = CHR 0x0A then rev acc # split_crlf [] (tl cs)
      else split_crlf (c # acc) cs)"

fun words :: "string \<Rightarrow> string \<Rightarrow> string list" where
  "words acc [] = (if acc = [] then [] else [rev acc])"
| "words acc (c # cs) =
     (if is_whitespace c then (if acc = [] then words [] cs else rev acc # words [] cs) else words (c # acc) cs)"

definition is_digit :: "char \<Rightarrow> bool" where
  "is_digit c = (let n = of_char c :: nat in 48 \<le> n \<and> n \<le> 57)"

text \<open>\<open>str::parse\<close> of an unsigned integer: an optional plus sign, digits, no overflow.\<close>

definition parse_uint :: "nat \<Rightarrow> string \<Rightarrow> nat option" where
  "parse_uint mx s =
     (let ds = (case s of [] \<Rightarrow> [] | c # cs \<Rightarrow> if c = CHR ''+'' then cs else s);
          v = foldl (\<lambda>a c. a * 10 + (of_char c - 48)) 0 ds
      in if ds \<noteq> [] \<and> list_all is_digit ds \<and> v \<le> mx then Some v else None)"

fun split_once :: "char \<Rightarrow> string \<Rightarrow> (string \<times> string) option" where
  "split_once d [] = None"
| "split_once d (c # cs) =
     (if c = d then Some ([], cs) else map_option (\<lambda>(a, b). (c # a, b)) (split_once d cs))"

definition header_step :: "string \<Rightarrow> nat option \<times> bool \<Rightarrow> nat option \<times> bool" where
  "header_step line st =
     (case split_once (CHR '':'') line of
        None \<Rightarrow> st
      | Some (name, val) \<Rightarrow>
          (let n = to_lowercase (trim name) in
           if n = ''content-length'' then (parse_uint (2 ^ 64 - 1) (trim val), snd st)
           else if n = ''transfer-encoding'' \<and> find_subslice (to_lowercase val) ''chunked'' \<noteq> None then (fst st, True)
           else st))"

definition parse_status :: "string \<Rightarrow> Error + nat" where
  "parse_status line =
     ok_or (EDiscovery ''unintelligible status line'')
       (case words [] line of _ # s # _ \<Rightarrow> parse_uint 65535 s | _ \<Rightarrow> None)"

fun read_body :: "nat \<Rightarrow> bytes \<Rightarrow> bytes list \<Rightarrow> Error + bytes" where
  "read_body len body stream =
     (if length body < len then
        (case stream of
           [] \<Rightarrow> Inl (EDiscovery ''the endpoint closed the connection mid-body'')
         | chunk # rest \<Rightarrow>
             if MAX_BODY_BYTES < length (body @ chunk) then Inl (EDiscovery ''response body exceeded the limit'')
             else read_body len (body @ chunk) rest)
      else Inr (take len body))"

declare read_body.simps [simp del]

definition response_body :: "nat \<Rightarrow> nat option \<Rightarrow> bytes \<Rightarrow> bytes list \<Rightarrow> Error + bytes" where
  "response_body status content_length body stream =
     (case content_length of
        Some len \<Rightarrow>
          if MAX_BODY_BYTES < len then Inl (EDiscovery ''declared a body past the limit'')
          else read_body len body stream
      | None \<Rightarrow>
          if status = 200 then Inl (EDiscovery ''a body with no Content-Length'') else Inr [])"

definition read_response :: "bytes list \<Rightarrow> Error + nat \<times> bytes" where
  "read_response stream =
     bindE (read_headers [] stream) (\<lambda>(header_end, buf, rest).
     let lines = split_crlf [] (bytes_str (take header_end buf)) in
     bindE (parse_status (hd lines)) (\<lambda>status.
     let (content_length, chunked) = fold header_step (List.tl lines) (None, False) in
     bindE (guardE (\<not> chunked) (EDiscovery ''replied with chunked transfer encoding'')) (\<lambda>_.
     bindE (response_body status content_length (drop header_end buf) rest) (\<lambda>body.
       Inr (status, body)))))"

definition blind_put :: "Error + nat \<times> bytes \<Rightarrow> Error + unit" where
  "blind_put response =
     bindE response (\<lambda>(status, _).
       if status \<in> {200, 201, 202, 204} then Inr () else Inl (EDiscovery ''refused the record''))"

definition blind_get :: "Error + nat \<times> bytes \<Rightarrow> Error + bytes option" where
  "blind_get response =
     bindE response (\<lambda>(status, body).
       if status = 200 then Inr (Some body)
       else if status \<in> {204, 404, 410} then Inr None
       else Inl (EDiscovery ''answered HTTP''))"

section \<open>Pins\<close>

definition verify_server_cert :: "(bytes \<Rightarrow> bytes) \<Rightarrow> bytes list \<Rightarrow> bytes \<Rightarrow> Error + unit" where
  "verify_server_cert sha256 ps cert =
     guardE (sha256 cert \<in> set ps) (ETls ''the certificate does not match any configured pin'')"

definition hex_val :: "char \<Rightarrow> nat option" where
  "hex_val c = (let n = of_char c :: nat in
     if 48 \<le> n \<and> n \<le> 57 then Some (n - 48)
     else if 97 \<le> n \<and> n \<le> 102 then Some (n - 87)
     else if 65 \<le> n \<and> n \<le> 70 then Some (n - 55) else None)"

text \<open>\<open>u8::from_str_radix(_, 16)\<close> on two characters, which also reads a leading plus sign.\<close>

definition hex_byte :: "char \<Rightarrow> char \<Rightarrow> byte option" where
  "hex_byte a b =
     (if a = CHR ''+'' then map_option word_of_nat (hex_val b)
      else Option.bind (hex_val a) (\<lambda>x. map_option (\<lambda>y. word_of_nat (16 * x + y)) (hex_val b)))"

fun hex_pairs :: "string \<Rightarrow> bytes option" where
  "hex_pairs (a # b # r) = Option.bind (hex_byte a b) (\<lambda>x. map_option (\<lambda>xs. x # xs) (hex_pairs r))"
| "hex_pairs _ = Some []"

definition parse_pin :: "string \<Rightarrow> Error + bytes" where
  "parse_pin t =
     (let hex = filter (\<lambda>c. c \<noteq> CHR '':'' \<and> \<not> is_whitespace c) t in
      bindE (guardE (length hex = 64) (EDiscovery ''a certificate pin is 32 hex bytes'')) (\<lambda>_.
        ok_or (EDiscovery ''a certificate pin must be hexadecimal'') (hex_pairs hex)))"

section \<open>Properties\<close>

lemma read_body_length: "read_body len body stream = Inr b \<Longrightarrow> length b = len"
proof (induction len body stream rule: read_body.induct)
  case (1 len body stream)
  show ?case
  proof (cases "length body < len")
    case True
    with 1 show ?thesis
      by (auto simp: read_body.simps [of len body stream] split: list.splits if_splits)
  next
    case False
    with 1(2) show ?thesis by (auto simp: read_body.simps [of len body stream])
  qed
qed

lemma response_body_length: "response_body status cl body stream = Inr b \<Longrightarrow> length b \<le> MAX_BODY_BYTES"
  by (auto simp: response_body_def split: option.splits if_splits dest: read_body_length)

lemma read_response_bound:
  assumes "read_response stream = Inr (status, body)"
  shows "length body \<le> MAX_BODY_BYTES"
proof -
  from assms obtain cl b rest where "response_body status cl b rest = Inr body"
    unfolding read_response_def Let_def bindE_eq_Inr case_prod_beta by auto
  then show ?thesis by (rule response_body_length)
qed

text \<open>However the connection cuts it, a body of the declared length is read in full.\<close>

lemma read_body_complete:
  assumes "body @ concat stream = data @ rest" "length data = len" "len \<le> MAX_BODY_BYTES"
    "length (body @ concat stream) \<le> MAX_BODY_BYTES"
  shows "read_body len body stream = Inr data"
  using assms
proof (induction len body stream rule: read_body.induct)
  case (1 len body stream)
  show ?case
  proof (cases "length body < len")
    case False
    with 1 have "take len body = data" by (metis append_eq_append_conv_if append_take_drop_id linorder_not_le take_all_iff append_eq_conv_conj take_append)
    with False show ?thesis by (simp add: read_body.simps [of len body stream])
  next
    case True
    with 1(2-) obtain chunk more where s: "stream = chunk # more" by (cases stream) auto
    have "length body + length chunk \<le> MAX_BODY_BYTES" using "1.prems"(4) s by simp
    moreover from this have "read_body len (body @ chunk) more = Inr data"
      using "1.prems" s True by (intro "1.IH") simp_all
    ultimately show ?thesis unfolding s using True by (simp add: read_body.simps [of len body "chunk # more"])
  qed
qed

section \<open>A response is read whatever the sizes of the reads\<close>

lemma find_subslice_Some:
  "find_subslice xs n = Some i \<longleftrightarrow> i + length n \<le> length xs \<and> window_at xs n i \<and> (\<forall>j < i. \<not> window_at xs n j)"
proof
  assume "find_subslice xs n = Some i"
  then show "i + length n \<le> length xs \<and> window_at xs n i \<and> (\<forall>j < i. \<not> window_at xs n j)"
    unfolding find_subslice_def find_Some_iff by auto
next
  assume "i + length n \<le> length xs \<and> window_at xs n i \<and> (\<forall>j < i. \<not> window_at xs n j)"
  then show "find_subslice xs n = Some i"
    unfolding find_subslice_def find_Some_iff by (intro exI [of _ i]) auto
qed

lemma find_subslice_None: "find_subslice xs n = None \<longleftrightarrow> (\<forall>i. i + length n \<le> length xs \<longrightarrow> \<not> window_at xs n i)"
  unfolding find_subslice_def find_None_iff by auto

lemma window_at_prefix: "i + length n \<le> length xs \<Longrightarrow> window_at (xs @ ys) n i \<longleftrightarrow> window_at xs n i"
  by (simp add: window_at_def slice_def)

text \<open>A head whose only blank line is its end is found as soon as it is complete, and not before.\<close>

lemma find_head:
  assumes "find_subslice H n = Some (length H - length n)" "length n \<le> length H" "buf @ c = H @ r"
  shows "find_subslice buf n = (if length H \<le> length buf then Some (length H - length n) else None)"
proof -
  from assms(1) have w: "window_at H n (length H - length n)" "\<forall>j < length H - length n. \<not> window_at H n j"
    by (simp_all add: find_subslice_Some)
  show ?thesis
  proof (cases "length H \<le> length buf")
    case True
    then obtain e where b: "buf = H @ e" using assms(3) by (metis append_eq_append_conv2 append_Nil2 append_eq_append_conv_if append_take_drop_id)
    have "\<not> window_at (H @ e) n j" if "j < length H - length n" for j
      using w(2) that window_at_prefix [of j n H e] assms(2) by simp
    with w(1) window_at_prefix [of "length H - length n" n H e] assms(2) True show ?thesis
      by (simp add: b find_subslice_Some)
  next
    case False
    then obtain e where h: "H = buf @ e" "e \<noteq> []"
      using assms(3) by (metis append_Nil2 append_eq_append_conv2 le_add1 length_append order_refl)
    have "\<not> window_at buf n j" if "j + length n \<le> length buf" for j
    proof -
      have "j < length H - length n" using that h by (cases e) auto
      with w(2) window_at_prefix [OF that, of e] h(1) show ?thesis by simp
    qed
    with False show ?thesis by (simp add: find_subslice_None)
  qed
qed

lemma read_headers_complete:
  assumes "find_subslice H (str_bytes (crlf @ crlf)) = Some (length H - 4)" "4 \<le> length H" "length H \<le> MAX_HEADER_BYTES"
    and "buf @ concat stream = H @ body"
  shows "\<exists>buf' rest. read_headers buf stream = Inr (length H, buf', rest) \<and> buf' @ concat rest = H @ body \<and> length H \<le> length buf'"
  using assms(4)
proof (induction stream arbitrary: buf)
  case Nil
  have n: "length (str_bytes (crlf @ crlf)) = 4" by (simp add: crlf_def str_bytes_def)
  have "find_subslice buf (str_bytes (crlf @ crlf)) = Some (length H - 4)"
    using find_head [of H "str_bytes (crlf @ crlf)" buf "[]" body] assms(1,2) Nil n by simp
  with assms(2) Nil show ?case by (intro exI [of _ buf] exI [of _ "[]"]) (simp add: read_headers.simps [of "H @ body"])
next
  case (Cons ch stream)
  have n: "length (str_bytes (crlf @ crlf)) = 4" by (simp add: crlf_def str_bytes_def)
  have f: "find_subslice buf (str_bytes (crlf @ crlf)) = (if length H \<le> length buf then Some (length H - 4) else None)"
    using find_head [of H "str_bytes (crlf @ crlf)" buf "ch @ concat stream" body] assms(1,2) Cons.prems n by simp
  show ?case
  proof (cases "length H \<le> length buf")
    case True
    with f assms(2) Cons.prems show ?thesis
      by (intro exI [of _ buf] exI [of _ "ch # stream"]) (simp add: read_headers.simps [of buf])
  next
    case False
    then have "\<not> MAX_HEADER_BYTES < length buf" using assms(3) by simp
    with f False have "read_headers buf (ch # stream) = read_headers (buf @ ch) stream"
      by (simp add: read_headers.simps [of buf])
    with Cons show ?thesis by simp
  qed
qed

text \<open>The head with which a store answers a request for a stored record.\<close>

definition record_head :: bytes where
  "record_head = str_bytes (''HTTP/1.1 200 OK'' @ crlf @ ''Content-Length: 680'' @ crlf @ crlf)"

lemma record_head_found: "find_subslice record_head (str_bytes (crlf @ crlf)) = Some (length record_head - 4)"
  by code_simp

lemma record_head_lines:
  "split_crlf [] (bytes_str record_head) = [''HTTP/1.1 200 OK'', ''Content-Length: 680'', [], []]"
  by code_simp

lemma record_head_status: "parse_status ''HTTP/1.1 200 OK'' = Inr 200"
  by (simp add: parse_status_def is_whitespace_def parse_uint_def is_digit_def Let_def)

lemma record_head_length:
  "header_step ''Content-Length: 680'' (None, False) = (Some 680, False)" "header_step [] st = st"
  by (simp_all add: header_step_def to_lowercase_def to_lower_def trim_def is_whitespace_def parse_uint_def is_digit_def
      char_of_def bit_Suc_0_iff Let_def)

lemma read_record:
  assumes "concat stream = record_head @ body" "length body = SEALED_LEN"
  shows "read_response stream = Inr (200, body)"
proof -
  have l: "4 \<le> length record_head" "length record_head \<le> MAX_HEADER_BYTES" by code_simp+
  from read_headers_complete [OF record_head_found l, of "[]" stream body] assms(1)
  obtain buf rest where h: "read_headers [] stream = Inr (length record_head, buf, rest)"
    "buf @ concat rest = record_head @ body" "length record_head \<le> length buf" by auto
  from h(2,3) have "take (length record_head) buf = record_head" "drop (length record_head) buf @ concat rest = body"
    by (metis append_eq_conv_conj append_eq_append_conv_if)+
  moreover have "SEALED_LEN = 680" "MAX_BODY_BYTES = 1360" by code_simp+
  moreover have "read_body 680 (drop (length record_head) buf) rest = Inr body"
    using calculation assms(2) by (intro read_body_complete [of _ _ _ "[]"]) simp_all
  ultimately show ?thesis
    using h(1) by (simp add: read_response_def record_head_lines record_head_status record_head_length response_body_def Let_def)
qed

lemma from_link_safe:
  assumes "from_link name_ok l socks = Inr e"
  shows "kind l = Rendezvous \<and> be_pins e = pins l \<and> be_pins e \<noteq> [] \<and>
    (case (onion l, socks) of
       (Some a, Some p) \<Rightarrow> be_host e = ohost a \<and> be_via e = Some p
     | (None, Some p) \<Rightarrow> be_host e = shost l \<and> be_via e = Some p
     | (_, None) \<Rightarrow> be_host e = shost l \<and> shost l \<noteq> [] \<and> be_via e = None)"
  using assms
  by (auto simp: from_link_def link_target_def BlindEndpoint_new_def result_simps is_onion_only_def
      split: option.splits if_splits)

lemma hex_val_lower: "n < 16 \<Longrightarrow> hex_val (char_of (if n < 10 then 48 + n else 87 + n)) = Some n"
  by (auto simp: hex_val_def Let_def)

lemma hex_pairs_lower: "hex_pairs (concat (map hex_lower bs)) = Some bs"
proof (induction bs)
  case (Cons b bs)
  have b: "unat b div 16 < 16" "unat b mod 16 < 16" using unat_bound [of b] by auto
  have plus: "char_of (if n < 10 then 48 + n else 87 + n) \<noteq> CHR ''+''" if "n < 16" for n :: nat
  proof -
    have "of_char (char_of (if n < 10 then 48 + n else 87 + n) :: char) \<noteq> (of_char (CHR ''+'') :: nat)"
      using that by simp
    then show ?thesis by metis
  qed
  have "(16 * (unat b div 16) + unat b mod 16) = unat b" by simp
  then have "hex_byte (char_of (if unat b div 16 < 10 then 48 + unat b div 16 else 87 + unat b div 16))
      (char_of (if unat b mod 16 < 10 then 48 + unat b mod 16 else 87 + unat b mod 16)) = Some b"
    using plus [OF b(1)] hex_val_lower [OF b(1)] hex_val_lower [OF b(2)]
    by (simp add: hex_byte_def del: of_nat_add of_nat_mult)
  with Cons show ?case by (simp add: hex_lower_def Let_def)
qed simp

lemma hex_lower_chars: "c \<in> set (concat (map hex_lower bs)) \<Longrightarrow> c \<noteq> CHR '':'' \<and> \<not> is_whitespace c"
proof -
  have "char_of (if n < 10 then 48 + n else 87 + n) \<noteq> CHR '':'' \<and>
      \<not> is_whitespace (char_of (if n < 10 then 48 + n else 87 + n))" if "n < 16" for n :: nat
  proof -
    have "of_char (char_of (if n < 10 then 48 + n else 87 + n) :: char) \<noteq> (of_char (CHR '':'') :: nat)"
      using that by simp
    then have "char_of (if n < 10 then 48 + n else 87 + n) \<noteq> CHR '':''" by metis
    with that show ?thesis by (simp add: is_whitespace_def Let_def)
  qed
  moreover have "unat b div 16 < 16" "unat b mod 16 < 16" for b :: byte using unat_bound [of b] by auto
  ultimately show "c \<in> set (concat (map hex_lower bs)) \<Longrightarrow> c \<noteq> CHR '':'' \<and> \<not> is_whitespace c"
    by (auto simp: hex_lower_def Let_def)
qed

lemma parse_pin_hex:
  assumes "length pin = 32"
  shows "parse_pin (concat (map hex_lower pin)) = Inr pin"
proof -
  have "length (concat (map hex_lower xs)) = 2 * length xs" for xs
    by (induction xs) (simp_all add: hex_lower_def Let_def)
  moreover have "filter (\<lambda>c. c \<noteq> CHR '':'' \<and> \<not> is_whitespace c) (concat (map hex_lower pin)) = concat (map hex_lower pin)"
    by (rule filter_True) (use hex_lower_chars in blast)
  ultimately show ?thesis using assms hex_pairs_lower [of pin] by (simp add: parse_pin_def)
qed

end
