(* ===== verification/NetTheorems.thy ===== *)
theory NetTheorems
  imports TransferRun LiveDemo Stun Blind
begin

text \<open>
  The theorems of the transfer, of the paths that reach a peer and of the framing, pacing and STUN
  layers below them, each with a witness on concrete parameters.
\<close>

section \<open>Transfer\<close>

definition demo_transfer :: Transfer where
  "demo_transfer = \<lparr>chunk_len = 40, checkpoint_len = 1, max_total_len = None, pacing = Pacing_disabled\<rparr>"

definition demo_tx_env :: tx_env where
  "demo_tx_env = \<lparr>cancelled_at = (\<lambda>_. False), send_err = (\<lambda>_. None)\<rparr>"

lemma demo_transfer_facts:
  "transfer_ok demo_transfer" "chunk_len demo_transfer = 40" "quiet demo_tx_env" "max_total_len demo_transfer = None"
  "pacing demo_transfer = Pacing_disabled" "checkpoint_len demo_transfer = 1"
  by (simp_all add: demo_transfer_def demo_tx_env_def transfer_ok_def quiet_def FRAME_HEADER_LEN_def MAX_FRAME_LEN_def)

lemma demo_draw: "nth_draw 0 (\<lambda>_. 0) < zone (jitter_frames (pacing demo_transfer) + 1)"
  by code_simp

text \<open>
  C22. An undisturbed transfer installs the payload. From any partial file the receiver holds, unless
  the part of it that counts collides under the hash with the payload's own prefix: the receiver's
  resume message makes the sender emit frames after which the destination holds exactly the payload,
  the partial file is gone, and both sides return the same summary with the payload's hash.
\<close>

theorem transfer_installs_the_payload:
  assumes "transfer_ok t" "32 \<le> chunk_len t" "case max_total_len t' of Some m \<Rightarrow> length payload \<le> m | None \<Rightarrow> True"
    and "blake3_ok K" "length payload < 2 ^ 64" "quiet env"
    and "blake3 K (have_bytes t' d (length payload)) = blake3 K (take (have_len t' d (length payload)) payload) \<longrightarrow>
      have_bytes t' d (length payload) = take (have_len t' d (length payload)) payload"
    and "nth_draw n g < zone (jitter_frames (pacing t) + 1)"
  shows "\<exists>s resume fs sum.
    snd (recv_open K t' d (Inr (frame OFFER (u64_to_be (word_of_nat (length payload))) (frame_len t))) True) = Inr (s, resume) \<and>
    send_transfer K t env g payload (Inr resume) (Inr (frame ACK [] (frame_len t))) = Some (fs, Inr sum) \<and>
    recv_transfer K t' d (Inr (fs ! 0), True) (Inr (fs ! 1), True) (map deliver (drop 2 fs)) =
      (\<lparr>part = None, dest = Some payload\<rparr>, Inr sum, [resume, frame ACK [] (frame_len t)]) \<and>
    sum_hash sum = blake3 K payload \<and> sum_total sum = length payload"
proof -
  have fl: "13 \<le> frame_len t" "frame_len t \<le> MAX_FRAME_LEN"
    using assms(1,2) by (simp_all add: frame_len_def transfer_ok_def FRAME_HEADER_LEN_def)
  obtain s resume where r: "snd (recv_open K t' d (Inr (frame OFFER (u64_to_be (word_of_nat (length payload))) (frame_len t))) True) = Inr (s, resume)"
    using recv_open_offer [OF assms(5) fl assms(3), of K d] by simp
  have "\<exists>x. plan (pacing t) q g = Some x" for q by (rule plan_total [OF assms(8)])
  with r transfer_delivers [OF assms(1-6) _ r, of g] assms(7) show ?thesis by blast
qed

theorem transfer_installs_the_payload_witness:
  "\<exists>s resume fs sum.
    snd (recv_open demo_keys demo_transfer \<lparr>part = Some [9], dest = None\<rparr>
      (Inr (frame OFFER (u64_to_be (word_of_nat (length [1, 2, 3 :: byte]))) (frame_len demo_transfer))) True) = Inr (s, resume) \<and>
    send_transfer demo_keys demo_transfer demo_tx_env (\<lambda>_. 0) [1, 2, 3] (Inr resume) (Inr (frame ACK [] (frame_len demo_transfer))) =
      Some (fs, Inr sum) \<and>
    recv_transfer demo_keys demo_transfer \<lparr>part = Some [9], dest = None\<rparr> (Inr (fs ! 0), True) (Inr (fs ! 1), True) (map deliver (drop 2 fs)) =
      (\<lparr>part = None, dest = Some [1, 2, 3]\<rparr>, Inr sum, [resume, frame ACK [] (frame_len demo_transfer)]) \<and>
    sum_hash sum = blake3 demo_keys [1, 2, 3] \<and> sum_total sum = length [1, 2, 3 :: byte]"
  by (rule transfer_installs_the_payload [where n = 0, OF _ _ _ _ _ _ _ demo_draw])
    (simp_all add: demo_transfer_facts demo_blake3_ok have_bytes_def have_len_def demo_blake3_sel demo_blake3_def)

text \<open>
  C23. The receiver installs nothing it did not verify. Whatever the peer sends, in whatever order,
  and wherever the run is cancelled or fails: either the destination is untouched, or it holds a file
  whose hash the peer claimed in one of its frames; and if the receiver reports success, the
  destination holds a file of the reported length and hash and no partial file is left.
\<close>

theorem receiver_installs_only_verified:
  assumes "recv_transfer K t d offer start evs = (d', r, sent)"
  shows "(dest d' = dest d \<or> (\<exists>b ev. ev \<in> set evs \<and> claims (blake3 K b) ev \<and> dest d' = Some b)) \<and>
    (\<forall>x. r = Inr x \<longrightarrow> (\<exists>b. dest d' = Some b \<and> length b = sum_total x \<and> blake3 K b = sum_hash x \<and> part d' = None))"
proof -
  obtain d1 o1 where op: "recv_open K t d (fst offer) (snd offer) = (d1, o1)" by fastforce
  show ?thesis
  proof (cases o1)
    case (Inl e)
    with op assms recv_open_keeps_dest [of K t d "fst offer" "snd offer"] show ?thesis by (auto simp: recv_transfer_def)
  next
    case (Inr p)
    obtain s resume where p: "p = (s, resume)" by fastforce
    from op Inr p have o: "recv_open K t d (fst offer) (snd offer) = (d1, Inr (s, resume))" by simp
    note inv = recv_open_inv [OF o]
    show ?thesis
    proof (cases "recv_start s (fst start) (snd start)")
      case (Inl e)
      with o assms inv show ?thesis by (auto simp: recv_transfer_def)
    next
      case (Inr s')
      from recv_start_inv [OF Inr] inv have s': "rx_inv K (dest d) s'" "rx_hash s' = None" by blast+
      from o Inr assms obtain sent' where l: "recv_loop K t s' evs = (d', r, sent')"
        by (auto simp: recv_transfer_def split: prod.splits)
      from recv_loop_dest [OF s'(1) l] recv_loop_claimed [OF s' l] show ?thesis by blast
    qed
  qed
qed

lemma demo_run:
  "\<exists>fs sent x. recv_transfer demo_keys demo_transfer \<lparr>part = None, dest = None\<rparr> (Inr (fs ! 0), True) (Inr (fs ! 1), True)
     (map deliver (drop 2 fs)) = (\<lparr>part = None, dest = Some [1, 2, 3]\<rparr>, Inr x, sent)"
proof -
  let ?d = "\<lparr>part = None, dest = None\<rparr> :: disk"
  have p: "\<exists>x. plan (pacing demo_transfer) r (\<lambda>_. 0) = Some x" for r by (rule plan_total [OF demo_draw])
  have "length [1, 2, 3 :: byte] < 2 ^ 64" "13 \<le> frame_len demo_transfer" "frame_len demo_transfer \<le> MAX_FRAME_LEN"
    by (simp_all add: frame_len_def FRAME_HEADER_LEN_def MAX_FRAME_LEN_def demo_transfer_facts)
  from recv_open_offer [OF this, of demo_transfer demo_keys ?d] obtain s resume where
    r: "snd (recv_open demo_keys demo_transfer ?d
      (Inr (frame OFFER (u64_to_be (word_of_nat (length [1, 2, 3 :: byte]))) (frame_len demo_transfer))) True) = Inr (s, resume)"
    by (simp add: demo_transfer_facts)
  show ?thesis
    using transfer_delivers [OF demo_transfer_facts(1) _ _ demo_blake3_ok _ demo_transfer_facts(3) _ r p]
    by (fastforce simp: demo_transfer_facts have_bytes_def have_len_def)
qed

theorem receiver_installs_only_verified_witness:
  "\<exists>fs sent x. recv_transfer demo_keys demo_transfer \<lparr>part = None, dest = None\<rparr> (Inr (fs ! 0), True) (Inr (fs ! 1), True)
     (map deliver (drop 2 fs)) = (\<lparr>part = None, dest = Some [1, 2, 3]\<rparr>, Inr x, sent) \<and>
   (\<exists>b ev. ev \<in> set (map deliver (drop 2 fs)) \<and> claims (blake3 demo_keys b) ev \<and> Some [1, 2, 3] = Some b) \<and>
   blake3 demo_keys [1, 2, 3] = sum_hash x"
proof -
  obtain fs sent x where r: "recv_transfer demo_keys demo_transfer \<lparr>part = None, dest = None\<rparr> (Inr (fs ! 0), True) (Inr (fs ! 1), True)
     (map deliver (drop 2 fs)) = (\<lparr>part = None, dest = Some [1, 2, 3]\<rparr>, Inr x, sent)" using demo_run by blast
  have "\<exists>b ev. ev \<in> set (map deliver (drop 2 fs)) \<and> claims (blake3 demo_keys b) ev \<and> Some [1, 2, 3] = Some b"
    "blake3 demo_keys [1, 2, 3] = sum_hash x"
    using receiver_installs_only_verified [OF r] by auto
  with r show ?thesis by blast
qed

text \<open>
  C24. The wire shows only the plan. Two payloads whose frame counts lie on the same rung of the
  ladder, sent to fresh receivers with the same randomness, produce frame sequences of the same
  number and the same sizes: the planned frames and four more.
\<close>

theorem transfer_shape_hides_size:
  assumes "blake3_ok K" "transfer_ok t" "32 \<le> chunk_len t" "quiet env"
    and "length p1 < 2 ^ 64" "length p2 < 2 ^ 64"
    and "quantise (ladder (pacing t)) (real_frames t (length p1) 0) = quantise (ladder (pacing t)) (real_frames t (length p2) 0)"
    and "bindE (expect_frame resume RESUME) decode_resume = Inr (0, h)"
    and "plan (pacing t) (real_frames t (length p1) 0) g = Some (planned, g')"
  shows "\<exists>fs1 r1 fs2 r2. send_transfer K t env g p1 resume ack = Some (fs1, r1) \<and>
    send_transfer K t env g p2 resume ack = Some (fs2, r2) \<and>
    map length fs1 = map length fs2 \<and> map length fs1 = replicate (unat planned + 4) (frame_len t)"
proof -
  have z: "start_offset K p 0 h = 0" for p by (simp add: start_offset_def)
  have p2: "plan (pacing t) (real_frames t (length p2) 0) g = Some (planned, g')"
    using assms(9) plan_same_rung [OF assms(7), of g] by simp
  have n: "length (payload_chunks (chunk_len t) (drop 0 p1)) \<le> unat planned" "length (payload_chunks (chunk_len t) (drop 0 p2)) \<le> unat planned"
    using plan_ge [OF assms(9)] plan_ge [OF p2] unat_real_frames [OF assms(2), of p1 0] unat_real_frames [OF assms(2), of p2 0] assms(5,6)
    by (simp_all add: word_le_nat_alt)
  note s1 = send_transfer_quiet [OF assms(4,8), of t p1 K g, unfolded z, OF assms(9), of ack]
  note s2 = send_transfer_quiet [OF assms(4,8), of t p2 K g, unfolded z, OF p2, of ack]
  have "map length (wire_frames K t p1 0 (unat planned)) = replicate (unat planned + 4) (frame_len t)"
    using send_transfer_uniform [OF assms(1,3) s1] length_wire_frames [OF n(1), of K] by (intro replicate_eqI) auto
  moreover have "map length (wire_frames K t p2 0 (unat planned)) = replicate (unat planned + 4) (frame_len t)"
    using send_transfer_uniform [OF assms(1,3) s2] length_wire_frames [OF n(2), of K] by (intro replicate_eqI) auto
  ultimately show ?thesis using s1 s2 by metis
qed

theorem transfer_shape_hides_size_witness:
  "\<exists>fs1 r1 fs2 r2.
    send_transfer demo_keys demo_transfer demo_tx_env (\<lambda>_. 0) [1] (Inr (frame RESUME (replicate 40 0) 45)) (Inr []) = Some (fs1, r1) \<and>
    send_transfer demo_keys demo_transfer demo_tx_env (\<lambda>_. 0) [1, 2, 3] (Inr (frame RESUME (replicate 40 0) 45)) (Inr []) = Some (fs2, r2) \<and>
    map length fs1 = map length fs2 \<and> map length fs1 = replicate (unat (1 :: u64) + 4) (frame_len demo_transfer)"
proof (rule transfer_shape_hides_size [where h = "replicate 32 0" and g' = "\<lambda>_. 0"])
  show "bindE (expect_frame (Inr (frame RESUME (replicate 40 0) 45)) RESUME) decode_resume = Inr (0, replicate 32 0)"
    by code_simp
qed (simp_all add: demo_transfer_facts demo_blake3_ok Pacing_disabled_def plan_alt quantise_def real_frames_def div_ceil_def
    saturating_add_def)

text \<open>
  Every frame of every run has one size. Whatever is sent, wherever the run is cancelled and
  whatever the receiver answers, each frame the sender emits has the configured frame length.
\<close>

theorem sender_frames_uniform:
  assumes "blake3_ok K" "32 \<le> chunk_len t" "send_transfer K t env g payload resume ack = Some (fs, r)"
  shows "map length fs = replicate (length fs) (frame_len t)"
  using send_transfer_uniform [OF assms] by (intro replicate_eqI) auto

theorem sender_frames_uniform_witness:
  "\<exists>fs r. send_transfer demo_keys demo_transfer demo_tx_env (\<lambda>_. 0) [1] (Inl ECancelled) (Inr []) = Some (fs, r) \<and>
     map length fs = replicate (length fs) (frame_len demo_transfer)"
proof -
  obtain fs r where s: "send_transfer demo_keys demo_transfer demo_tx_env (\<lambda>_. 0) [1] (Inl ECancelled) (Inr []) = Some (fs, r)"
    by (simp add: send_transfer_def send_head_def send_one_def then_send_def lift_result_def demo_tx_env_def expect_frame_def Let_def)
  with sender_frames_uniform [OF demo_blake3_ok _ s] show ?thesis by (auto simp: demo_transfer_facts)
qed

section \<open>Reaching a peer\<close>

text \<open>
  The two sides take complementary parts without negotiating. When two peers hold each other's
  pinned bundles and their identifiers differ: exactly one dials and the other accepts, they sign the
  post-quantum transcript under opposite labels, and each publishes in the direction the other reads.
\<close>

theorem roles_are_complementary:
  assumes "identity ta = local_bundle a" "identity tb = local_bundle b"
    and "bundle_id K (local_bundle a) \<noteq> bundle_id K (local_bundle b)"
  shows "role_for K a tb = other_role (role_for K b ta) \<and> role_for K a tb \<noteq> role_for K b ta \<and>
    side_of (role_for K a tb) = side_peer (side_of (role_for K b ta)) \<and>
    publishing (bundle_id K (local_bundle a)) (bundle_id K (local_bundle b)) =
      flip (publishing (bundle_id K (local_bundle b)) (bundle_id K (local_bundle a)))"
  using role.pick_swap [OF assms(3)] role.sides_differ [OF assms(3)] direction.pick_swap [OF assms(3)] assms(1,2)
  by (simp add: role_for_def side_of_other)

definition demo_ticket_of :: "byte \<Rightarrow> Ticket" where
  "demo_ticket_of b = \<lparr>identity = local_bundle (demo_local b), hints = [Direct demo_addr], suite = LivePq1, not_after = 100\<rparr>"

lemma demo_ticket_of_sel: "identity (demo_ticket_of b) = local_bundle (demo_local b)"
  by (simp add: demo_ticket_of_def)

theorem roles_are_complementary_witness:
  "role_for demo_keys (demo_local 1) (demo_ticket_of 2) \<noteq> role_for demo_keys (demo_local 2) (demo_ticket_of 1)"
  using roles_are_complementary [OF demo_ticket_of_sel demo_ticket_of_sel demo_ids] by blast

text \<open>
  C27. The connection ladder keeps its promises. However the network and the substrates behave, after
  \<open>connect\<close>: the pinned identity and the rendezvous secret are unchanged and the newest accepted
  sequence has not gone back; a session, on whichever rung, comes from a handshake pinned to that
  identity and passed the post-quantum check; a lookup happens only if discovery is enabled and
  configured, an onion dial only with a proxy, and direct rungs are given direct addresses only.
\<close>

theorem connect_keeps_its_promises:
  assumes "connect N K D ws1 ws2 loc opts now peer = (peer', rungs, r)"
  shows "peer_le peer peer' \<and> (\<forall>s path. r = Inr (s, path) \<longrightarrow> pinned_session N K loc (ps_identity peer) s) \<and>
    list_all (may_try opts D) rungs"
proof -
  let ?l0 = "\<lparr>l_now = now, l_peer = peer, l_tried = [], l_attempts = []\<rparr>"
  let ?run = "\<lambda>l. or_else (or_else (rung_cached N K ws1 loc (now + opt_timeout opts) l)
      (rung_discovered N K D ws2 loc opts (now + opt_timeout opts))) (rung_onion N K loc opts)"
  show ?thesis
  proof (cases "bundle_id K (local_bundle loc) = bundle_id K (ps_identity peer) \<or> (\<exists>e. n_bind N = Inl e)")
    case True
    with assms show ?thesis by (auto simp: connect_def split: if_splits)
  next
    case False
    then have "n_bind N = Inr ()" by (cases "n_bind N") auto
    with False assms have "peer' = l_peer (fst (?run ?l0))" "rungs = l_tried (fst (?run ?l0))"
      "\<forall>s path. r = Inr (s, path) \<longrightarrow> snd (?run ?l0) = Some (s, path)"
      by (auto simp: connect_def Let_def split: prod.splits option.splits)
    moreover have "peer_le peer (l_peer (fst (?run ?l0)))" using all_rungs.keeps_peer [where l = ?l0] by simp
    moreover have "list_all (may_try opts D) (l_tried (fst (?run ?l0)))"
      using all_rungs.extends [where l = ?l0 and D = D and opts = opts] by fastforce
    moreover have "pinned_session N K loc (ps_identity peer) s" if "snd (?run ?l0) = Some (s, path)" for s path
      using all_rungs.session_pinned [OF that] by simp
    ultimately show ?thesis by blast
  qed
qed

definition demo_session_for :: Session where
  "demo_session_for = \<lparr>keying_material = Inr [], on_send = (\<lambda>_. Inr ()), on_recv = Inl ECancelled, spent = 0\<rparr>"

definition demo_net :: net where
  "demo_net = \<lparr>n_bind = Inr (), n_wall = (\<lambda>_. 0), n_connect = (\<lambda>_ _. Inl ''unreachable''), n_client = (\<lambda>_ _. Inr demo_session_for),
     n_server = (\<lambda>_ _. Inr demo_session_for), n_client_time = (\<lambda>_. 2), n_server_time = (\<lambda>_. 3), n_socks = (\<lambda>_ _. Inl ECancelled), n_tls = (\<lambda>_ _. Inl ECancelled), n_lookup_time = 0\<rparr>"

definition demo_disc :: disc where
  "demo_disc = \<lparr>d_crypto = demo_crypto, d_xof = demo_xof, d_rng = (\<lambda>_. 0), d_subs = []\<rparr>"

definition demo_opts :: Options where
  "demo_opts = \<lparr>opt_timeout = 0, socks = None, use_discovery = True\<rparr>"

theorem connect_keeps_its_promises_witness:
  "\<exists>peer' rungs r. connect demo_net demo_keys demo_disc [] [] (demo_local 1) demo_opts 0
      (PeerState_from_ticket (demo_ticket_of 2) []) = (peer', rungs, r) \<and>
    peer_le (PeerState_from_ticket (demo_ticket_of 2) []) peer' \<and> list_all (may_try demo_opts demo_disc) rungs"
proof -
  obtain peer' rungs r where c: "connect demo_net demo_keys demo_disc [] [] (demo_local 1) demo_opts 0
      (PeerState_from_ticket (demo_ticket_of 2) []) = (peer', rungs, r)" by (cases rule: prod_cases3)
  with connect_keeps_its_promises [OF c] show ?thesis by blast
qed

text \<open>
  C28. The waits of a rendezvous are bounded, the exchange of hellos apart. Whatever the attempts return, the
  dial loop has given up by one attempt and one pause after its deadline, or has by then taken a connection, which
  came from an attempt at one of the hints that began before the deadline. The accepting side gives up at its
  deadline, late at most by a failed handshake that began before it, or when the endpoint is closed, or it takes a
  connection whose handshake began before the deadline; and it takes the first one whose handshake succeeds,
  however many failed ones precede it. The hellos on the connection taken, and an incoming handshake, come on top:
  the code sets no limit to them.
\<close>

theorem rendezvous_loops_end:
  assumes "list_all (\<lambda>w. wake_time w < deadline \<and>
      (case w of Punched _ \<Rightarrow> True | Incoming t t' r \<Rightarrow> r = Inl () \<and> t' < deadline | EndpointClosed _ \<Rightarrow> False)) ws"
    and "now < deadline" "t < deadline"
  shows "(\<exists>t \<le> max now (deadline + ATTEMPT_TIMEOUT + RETRY_INTERVAL).
       dial_loop N peer hs deadline now why = (t, Inl (EConnect ''rendezvous timed out while dialling'')) \<or>
       (\<exists>conn. \<exists>h \<in> set hs. \<exists>t0 < deadline. attempt_connect N t0 h = (t, Inr conn) \<and>
          dial_loop N peer hs deadline now why = (t + n_client_time N conn, n_client N conn peer))) \<and>
    accept_loop N peer deadline now (ws @ Incoming t t' (Inr conn) # rest) = (t' + n_server_time N conn, n_server N conn peer) \<and>
    (\<forall>any u r. accept_loop N peer deadline now any = (u, r) \<longrightarrow>
       r = Inl (EConnect ''rendezvous timed out waiting for the peer'') \<and>
         (u \<le> deadline \<or> (\<exists>t0 < deadline. Incoming t0 u (Inl ()) \<in> set any)) \<or>
       r = Inl (EConnect ''endpoint closed while awaiting the peer'') \<and> u < deadline \<and> EndpointClosed u \<in> set any \<or>
       (\<exists>t0 < deadline. \<exists>t1 conn. Incoming t0 t1 (Inr conn) \<in> set any \<and> u = t1 + n_server_time N conn \<and> r = n_server N conn peer))"
proof -
  have "max now deadline = deadline" using assms(2) by simp
  then have a: "accept_loop N peer deadline now any = (u, r) \<Longrightarrow>
       r = Inl (EConnect ''rendezvous timed out waiting for the peer'') \<and>
         (u \<le> deadline \<or> (\<exists>t0 < deadline. Incoming t0 u (Inl ()) \<in> set any)) \<or>
       r = Inl (EConnect ''endpoint closed while awaiting the peer'') \<and> u < deadline \<and> EndpointClosed u \<in> set any \<or>
       (\<exists>t0 < deadline. \<exists>t1 conn. Incoming t0 t1 (Inr conn) \<in> set any \<and> u = t1 + n_server_time N conn \<and> r = n_server N conn peer)"
    for any u r using accept_loop_ends [of N peer deadline now any u r] by (simp only: accept_end_def)
  show ?thesis by (intro conjI allI impI) (rule dial_loop_ends accept_loop_skips [OF assms] a; assumption)+
qed

theorem rendezvous_loops_end_witness:
  "(\<exists>t \<le> max 0 (10 + ATTEMPT_TIMEOUT + RETRY_INTERVAL).
       dial_loop demo_net [] [demo_addr] 10 0 [] = (t, Inl (EConnect ''rendezvous timed out while dialling'')) \<or>
       (\<exists>conn. dial_loop demo_net [] [demo_addr] 10 0 [] = (t + n_client_time demo_net conn, n_client demo_net conn []))) \<and>
    accept_loop demo_net [] 10 0 ([Punched 1, Incoming 2 3 (Inl ())] @ Incoming 4 5 (Inr 0) # []) = (8, n_server demo_net 0 [])"
proof -
  have h: "list_all (\<lambda>w. wake_time w < 10 \<and>
      (case w of Punched _ \<Rightarrow> True | Incoming t t' r \<Rightarrow> r = Inl () \<and> t' < 10 | EndpointClosed _ \<Rightarrow> False)) [Punched 1, Incoming 2 3 (Inl ())]"
    "(0::nat) < 10" "(4::nat) < 10" by simp_all
  have "n_server_time demo_net 0 = 3" by (simp add: demo_net_def)
  with rendezvous_loops_end [OF h, of demo_net "[]" "[demo_addr]" "[]" 5 0 "[]"] show ?thesis by auto
qed

section \<open>STUN\<close>

text \<open>
  The client learns its address. A conforming reply, with any attributes around the address and
  after any number of datagrams from elsewhere or of malformed replies, makes \<open>discover\<close> return the
  address the server saw.
\<close>

theorem stun_discovers_address:
  assumes "build_request g = (rq, g')"
    and "\<forall>x \<in> set as. length (snd x) < 2 ^ 16 \<and> fst x \<noteq> ATTR_XOR_MAPPED_ADDRESS"
    and "length (concat (map encode_attr (as @ (ATTR_XOR_MAPPED_ADDRESS, xor_address (req_txid rq) a) # bs))) + 20 \<le> 1024"
    and "list_all (noise server (req_txid rq) (now + timeout)) before" "t < now + timeout"
  shows "discover True server now timeout (before @
      Datagram t p server (stun_reply (req_txid rq) (as @ (ATTR_XOR_MAPPED_ADDRESS, xor_address (req_txid rq) a) # bs)) # after) g = Inr a"
  using assms by (rule discover_reply)

lemma demo_request: "build_request (\<lambda>_. 0) = (\<lparr>req_bytes = req_bytes (fst (build_request (\<lambda>_. 0))), req_txid = replicate 12 0\<rparr>, \<lambda>_. 0)"
  by (simp add: build_request_def draw_def TXID_LEN_def map_replicate_const)

lemma demo_stun_premises:
  "list_all (noise demo_addr (replicate 12 0) (0 + 10)) [Datagram 1 1 demo_addr [0]]"
  "length (concat (map encode_attr ([] @ (ATTR_XOR_MAPPED_ADDRESS, xor_address (replicate 12 0) demo_addr) # []))) + 20 \<le> 1024"
  by (simp_all add: noise_def parse_response_def HEADER_LEN_def length_encode_attr next_multiple_of_def xor_address_def demo_addr_def
      stun_key_def)

theorem stun_discovers_address_witness:
  "discover True demo_addr 0 10 ([Datagram 1 1 demo_addr [0]] @
      Datagram 2 2 demo_addr (stun_reply (replicate 12 0) ([] @ (ATTR_XOR_MAPPED_ADDRESS, xor_address (replicate 12 0) demo_addr) # [])) # [])
      (\<lambda>_. 0) = Inr demo_addr"
  using stun_discovers_address [OF demo_request, of "[]" demo_addr "[]" demo_addr 0 10 "[Datagram 1 1 demo_addr [0]]" 2 2 "[]"]
    demo_stun_premises by simp

text \<open>
  A forged reply is useless. If \<open>discover\<close> returns an address, a datagram that arrived from the
  server before the deadline starts with a success header for this request: the type, the cookie and
  the random transaction identifier all match, and it is as long as it declares.
\<close>

theorem stun_accepts_only_replies:
  assumes "discover ok server now timeout as g = Inr a"
  shows "\<exists>t p bs. Datagram t p server bs \<in> set as \<and> t < now + timeout \<and>
    slice 0 2 (take 1024 bs) = u16_to_be BINDING_SUCCESS \<and> slice 4 4 (take 1024 bs) = u32_to_be MAGIC_COOKIE \<and>
    slice 8 12 (take 1024 bs) = req_txid (fst (build_request g))"
proof -
  obtain rq g' where b: "build_request g = (rq, g')" by fastforce
  have l: "length (req_txid rq) = TXID_LEN"
    using b by (auto simp: build_request_def draw_length Let_def split: prod.splits)
  from assms b have "discover_loop server (req_txid rq) (now + timeout) as = Inr a"
    by (auto simp: discover_def result_simps)
  from discover_loop_Inr [OF this] obtain t p bs where d: "Datagram t p server bs \<in> set as" "t < now + timeout"
    "parse_response (take 1024 bs) (req_txid rq) = Inr a" by blast
  from parse_response_Inr [OF d(3) l] d b show ?thesis by auto
qed

theorem stun_accepts_only_replies_witness:
  "\<exists>t p bs. Datagram t p demo_addr bs \<in> set [Datagram 2 2 demo_addr (stun_reply (replicate 12 0)
       [(ATTR_XOR_MAPPED_ADDRESS, xor_address (replicate 12 0) demo_addr)])] \<and> t < 0 + 10 \<and>
    slice 0 2 (take 1024 bs) = u16_to_be BINDING_SUCCESS \<and> slice 4 4 (take 1024 bs) = u32_to_be MAGIC_COOKIE \<and>
    slice 8 12 (take 1024 bs) = req_txid (fst (build_request (\<lambda>_. 0)))"
proof (rule stun_accepts_only_replies)
  show "discover True demo_addr 0 10 [Datagram 2 2 demo_addr (stun_reply (replicate 12 0)
       [(ATTR_XOR_MAPPED_ADDRESS, xor_address (replicate 12 0) demo_addr)])] (\<lambda>_. 0) = Inr demo_addr"
    using discover_reply [OF demo_request, of "[]" demo_addr "[]" demo_addr 0 10 "[]" 2 2 "[]"] demo_stun_premises by simp
qed

section \<open>Frames, pacing and responses\<close>

text \<open>
  Framing neither loses, invents nor merges messages. The frames written for a list of messages are
  read back as exactly that list; and a stream cut anywhere inside the next frame yields the complete
  messages before the cut and an error, never a tidy end.
\<close>

theorem framing_roundtrip_and_truncation:
  assumes "\<forall>m \<in> set ms. length m \<le> MAX_FRAME_LEN" "length m \<le> MAX_FRAME_LEN" "0 < k" "k < length (frame_bytes m)"
  shows "write_frame w m = Inr (w @ frame_bytes m, 4 + length m) \<and>
    read_frames (concat (map frame_bytes ms)) = (ms, Inr ()) \<and>
    (\<exists>e. read_frames (concat (map frame_bytes ms) @ take k (frame_bytes m)) = (ms, Inl e))"
  using read_frames_append [OF assms(1), of "[]"] truncation_detected [OF assms] assms(2)
  by (simp add: write_frame_def frame_bytes_def)

theorem framing_roundtrip_and_truncation_witness:
  "write_frame [] [7] = Inr ([] @ frame_bytes [7], 4 + length [7 :: byte]) \<and>
    read_frames (concat (map frame_bytes [[1], []])) = ([[1], []], Inr ()) \<and>
    (\<exists>e. read_frames (concat (map frame_bytes [[1], []]) @ take 2 (frame_bytes [7])) = ([[1], []], Inl e))"
  by (rule framing_roundtrip_and_truncation) (simp_all add: MAX_FRAME_LEN_def frame_bytes_def)

text \<open>
  The planned number of frames hides the payload within its rung. The plan is at least the real
  count, at least the quantised count and the floor, and exceeds those by at most the jitter; on the
  power-of-two ladder the quantised count is a power of two below twice the real one. The draw of the
  jitter ends as soon as the random supply holds a value in the zone.
\<close>

theorem plan_is_bounded:
  assumes "nth_draw n g < zone (jitter_frames p + 1)" "jitter_frames p \<noteq> 18446744073709551615"
    and "ladder p = PowerOfTwo" "1 < unat r" "unat r \<le> 2 ^ 63"
  shows "\<exists>t g' k. plan p r g = Some (t, g') \<and> r \<le> t \<and>
    unat (quantise (ladder p) r) = 2 ^ k \<and> unat r \<le> 2 ^ k \<and> 2 ^ k < 2 * unat r \<and>
    max (2 ^ k) (unat (min_frames p)) \<le> unat t \<and> unat t \<le> max (2 ^ k) (unat (min_frames p)) + unat (jitter_frames p)"
proof -
  obtain t g' where t: "plan p r g = Some (t, g')" using plan_total [OF assms(1)] by (metis surj_pair)
  obtain k where k: "next_power_of_two (unat r) = 2 ^ k" using next_power_of_two_pow by blast
  have q: "unat (quantise (ladder p) r) = 2 ^ k" using quantise_pow2 [OF assms(5)] assms(3) k by simp
  have "unat r \<le> 2 ^ k" "2 ^ k < 2 * unat r" using next_power_of_two_bounds [of "unat r"] assms(4) k by simp_all
  with t q plan_ge [OF t] plan_range [OF t assms(2)] show ?thesis unfolding q by blast
qed

theorem plan_is_bounded_witness:
  "\<exists>t g' k. plan Pacing_default 5 (\<lambda>_. 0) = Some (t, g') \<and> 5 \<le> t \<and>
    unat (quantise (ladder Pacing_default) 5) = 2 ^ k \<and> unat (5 :: u64) \<le> 2 ^ k \<and> 2 ^ k < 2 * unat (5 :: u64) \<and>
    max (2 ^ k) (unat (min_frames Pacing_default)) \<le> unat t \<and>
    unat t \<le> max (2 ^ k) (unat (min_frames Pacing_default)) + unat (jitter_frames Pacing_default)"
proof (rule plan_is_bounded)
  show "nth_draw 0 (\<lambda>_. 0) < zone (jitter_frames Pacing_default + 1)" by code_simp
qed (simp_all add: Pacing_default_def)

text \<open>
  Emissions are never closer than the interval. Whatever delays the sender meets between its
  requests for a slot, consecutive emission times are at least one interval apart: a stall is never
  followed by a burst.
\<close>

theorem emissions_never_burst:
  assumes "interval p = Some i"
  shows "sorted_wrt (\<lambda>a b. a + i \<le> b) (emissions p now ds) \<and> (\<forall>t \<in> set (emissions p now ds). next_slot p \<le> t)"
  using emissions_spaced [OF assms] emissions_from [OF assms] by blast

theorem emissions_never_burst_witness:
  "sorted_wrt (\<lambda>a b. a + 10 \<le> b) (emissions \<lparr>interval = Some 10, next_slot = 0\<rparr> 0 [0, 35, 0, 0])"
  using emissions_never_burst [of "\<lparr>interval = Some 10, next_slot = 0\<rparr>" 10 0 "[0, 35, 0, 0]"] by simp

text \<open>
  A stored record is read back from a blind endpoint whatever the sizes of the reads, and no
  response of a hostile one yields a body past the limit.
\<close>

theorem blind_responses:
  assumes "concat stream = record_head @ body" "length body = SEALED_LEN"
  shows "blind_get (read_response stream) = Inr (Some body) \<and>
    (\<forall>s status b. read_response s = Inr (status, b) \<longrightarrow> length b \<le> MAX_BODY_BYTES)"
  using read_record [OF assms] read_response_bound by (auto simp: blind_get_def)

theorem blind_responses_witness:
  "blind_get (read_response [record_head, replicate 600 1, replicate 80 1]) = Inr (Some (replicate 680 1))"
proof -
  have "concat [record_head, replicate 600 1, replicate 80 1] = record_head @ replicate 680 1"
    by (simp add: replicate_add [symmetric])
  from blind_responses [OF this] show ?thesis
    by (simp add: SEALED_LEN_def NONCE_LEN_def PLAINTEXT_LEN_def AEAD_TAG_LEN_def)
qed

end
