(* ===== verification/LiveTheorems.thy ===== *)
theory LiveTheorems
  imports LiveDemo Blind
begin

text \<open>
  The theorems of discovery, of the identities, tickets and links users exchange, of pairing and of the
  post-quantum proof, each with a witness on the parameters of \<open>LiveDemo\<close>.
\<close>

section \<open>Discovery\<close>

lemma demo_slot_key: "length (slot_key (slot demo_xof k d e)) = 32"
  using demo_xof_ok by (simp add: slot_def Let_def xof_ok_def TAG_LEN_def SLOT_KEY_LEN_def)

lemma demo_publish:
  "\<exists>subs' rep. publish demo_crypto demo_xof [] a b demo_record now g [demo_substrate] = Inr (subs', rep)"
proof -
  have s: "\<exists>x g'. seal_record demo_crypto demo_record (slot demo_xof [] d e) g = Inr (x, g')" for d e g
    using seal_record_total [OF demo_aead_total demo_record_ok demo_slot_key] .
  let ?d = "publishing a b"
  obtain x g1 where 1: "seal_record demo_crypto demo_record (slot demo_xof [] ?d (epoch_at now)) g = Inr (x, g1)" using s by blast
  obtain y g2 where "seal_record demo_crypto demo_record (slot demo_xof [] ?d (epoch_at now + 1)) g1 = Inr (y, g2)" using s by blast
  with 1 show ?thesis by (simp add: publish_def publish_slots_def Let_def del: publish_to.simps)
qed

lemma demo_slot_tag: "hd (slot_tag (slot demo_xof [] d e)) = word_of_nat (unat e mod 256)"
proof -
  have "be_bytes 8 (unat e) = be_bytes (Suc 7) (unat e)" by (rule arg_cong [of _ _ "\<lambda>n. be_bytes n _"]) simp
  then have "SLOT_DOMAIN @ [direction_to_byte d] @ u64_to_be e =
      (SLOT_DOMAIN @ [direction_to_byte d] @ be_bytes 7 (unat e div 256)) @ [word_of_nat (unat e mod 256)]"
    unfolding u64_to_be_def be_bytes.simps(2) by simp
  then show ?thesis by (simp only: slot_def demo_xof_def TAG_LEN_def SLOT_KEY_LEN_def Let_def rev_append) simp
qed

lemma demo_tags:
  "tag_hex (slot demo_xof [] d (epoch_at 0)) \<noteq> tag_hex (slot demo_xof [] d (epoch_at 0 + 1))"
proof
  assume "tag_hex (slot demo_xof [] d (epoch_at 0)) = tag_hex (slot demo_xof [] d (epoch_at 0 + 1))"
  then have "slot_tag (slot demo_xof [] d (epoch_at 0)) = slot_tag (slot demo_xof [] d (epoch_at 0 + 1))"
    unfolding tag_hex_def by (metis hex_pairs_lower option.inject)
  then have "word_of_nat (unat (epoch_at 0) mod 256) = (word_of_nat (unat (epoch_at 0 + 1) mod 256) :: byte)"
    by (metis demo_slot_tag)
  then show False by (simp add: epoch_at_def)
qed

lemma demo_live: "record_live 0 demo_record" "record_live 100 demo_record"
  by (simp_all add: record_live_def record_expired_at_def demo_record_def saturating_add_def MAX_TTL_SECS_def)

text \<open>
  C31. A published address is found. A record published to substrates that store and serve what they are
  given is found by the peer who holds the same pairwise secret, when the clocks of the two are at most
  an epoch apart, the record is live and newer than what the peer has seen: the lookup returns a record
  at least as new.
\<close>

theorem published_address_is_found:
  assumes "aead_ok C" "a \<noteq> b"
    and "publish C x secret a b r tp g subs = Inr (subs', rep)"
    and "\<forall>s \<in> set subs. \<forall>t. put_error s t = None \<and> get_error s t = None"
    and "tag_hex (slot x secret (publishing a b) (epoch_at tp)) \<noteq> tag_hex (slot x secret (publishing a b) (epoch_at tp + 1))"
    and "record_ok r" "record_live tr r" "supersedes r newest"
    and "unat tp \<le> unat tr + 3600" "unat tr \<le> unat tp + 3600"
  shows "\<exists>r'. resolve C x secret b a newest tr g' subs' = Inr r' \<and> seq r \<le> seq r'"
  using assms by (rule publish_then_resolve)

theorem published_address_is_found_witness:
  "\<exists>subs' rep r'. publish demo_crypto demo_xof [] [1] [2] demo_record 0 (\<lambda>_. 0) [demo_substrate] = Inr (subs', rep) \<and>
     resolve demo_crypto demo_xof [] [2] [1] (Some 4) 100 (\<lambda>_. 0) subs' = Inr r' \<and> seq demo_record \<le> seq r'"
proof -
  obtain subs' rep where p: "publish demo_crypto demo_xof [] [1] [2] demo_record 0 (\<lambda>_. 0) [demo_substrate] = Inr (subs', rep)"
    using demo_publish by blast
  have "\<exists>r'. resolve demo_crypto demo_xof [] [2] [1] (Some 4) 100 (\<lambda>_. 0) subs' = Inr r' \<and> seq demo_record \<le> seq r'"
    by (rule published_address_is_found [OF demo_aead_ok _ p _ demo_tags demo_record_ok demo_live(2)])
      (simp_all add: demo_substrate_def supersedes_def demo_record_def)
  with p show ?thesis by blast
qed

text \<open>
  C32. A lookup returns only what the peer published. Whatever the substrates serve, a record that
  \<open>resolve\<close> returns is well formed, live and newer than anything accepted before; it was sealed under
  the key and tag of one of the three slots the peer writes, and it is the newest acceptable record of
  the substrate that served it.
\<close>

theorem resolved_record_is_authentic:
  assumes "aead_ok C" "resolve C x secret a b newest now g subs = Inr r"
  shows "record_ok r \<and> record_live now r \<and> supersedes r newest \<and>
    (\<exists>sub \<in> set subs. \<exists>s \<in> set (lookup_slots x secret (flip (publishing a b)) now).
      (\<exists>nonce p ct. stored sub (tag_hex s) = Some (nonce @ ct) \<and>
         aead_seal C (slot_key s) nonce (aad_for s) p = Some ct \<and> from_plaintext p = Inr r) \<and>
      (\<forall>s' \<in> set (lookup_slots x secret (flip (publishing a b)) now). \<forall>c.
         candidate C sub now newest s' = Some c \<longrightarrow> seq c \<le> seq r))"
proof -
  let ?slots = "lookup_slots x secret (flip (publishing a b)) now"
  from assms(2) have "resolve_in C now newest ?slots (shuffled g subs) = Inr r"
    by (auto simp: resolve_def result_simps)
  from resolve_in_Inr [OF this] obtain sub where sub: "sub \<in> set subs" "search_slots C sub now newest ?slots None = Some r"
    by (auto simp: set_shuffled)
  from search_slots_best [OF sub(2)] obtain s where s: "s \<in> set ?slots" "candidate C sub now newest s = Some r"
    and best: "\<forall>s' \<in> set ?slots. \<forall>c. candidate C sub now newest s' = Some c \<longrightarrow> seq c \<le> seq r" by auto
  from candidate_Some [OF s(2)] obtain blob where "stored sub (tag_hex s) = Some blob" "open_record C blob s now = Inr r"
    "supersedes r newest" by blast
  with open_record_Inr [OF assms(1)] sub(1) s(1) best show ?thesis by blast
qed

theorem resolved_record_is_authentic_witness:
  "\<exists>subs' r. resolve demo_crypto demo_xof [] [2] [1] None 0 (\<lambda>_. 0) subs' = Inr r \<and> record_ok r \<and> record_live 0 r"
proof -
  obtain subs' rep where p: "publish demo_crypto demo_xof [] [1] [2] demo_record 0 (\<lambda>_. 0) [demo_substrate] = Inr (subs', rep)"
    using demo_publish by blast
  have "\<exists>r. resolve demo_crypto demo_xof [] [2] [1] None 0 (\<lambda>_. 0) subs' = Inr r \<and> seq demo_record \<le> seq r"
    by (rule publish_then_resolve [OF demo_aead_ok _ p _ demo_tags demo_record_ok demo_live(1)])
      (simp_all add: demo_substrate_def supersedes_def)
  then obtain r where r: "resolve demo_crypto demo_xof [] [2] [1] None 0 (\<lambda>_. 0) subs' = Inr r" by blast
  from resolved_record_is_authentic [OF demo_aead_ok r] r show ?thesis by blast
qed

text \<open>
  Sealed records all look alike and open to what was sealed. Whatever its addresses, a sealed record
  has the one fixed length; and a well-formed, live record opens, under its slot, to itself.
\<close>

theorem sealed_record_roundtrip:
  assumes "aead_ok C" "aead_total C" "record_ok r" "length (slot_key s) = 32"
  shows "\<exists>sealed g'. seal_record C r s g = Inr (sealed, g') \<and> length sealed = SEALED_LEN \<and>
    (\<forall>now. record_live now r \<longrightarrow> open_record C sealed s now = Inr r)"
  using seal_record_total [OF assms(2-4), of g] seal_record_Inr [OF assms(1)] assms(3) by blast

theorem sealed_record_roundtrip_witness:
  "\<exists>sealed g'. seal_record demo_crypto demo_record (slot demo_xof [] LowToHigh 0) (\<lambda>_. 0) = Inr (sealed, g') \<and>
    length sealed = SEALED_LEN \<and> open_record demo_crypto sealed (slot demo_xof [] LowToHigh 0) 0 = Inr demo_record"
  using sealed_record_roundtrip [OF demo_aead_ok demo_aead_total demo_record_ok demo_slot_key] demo_live(1) by blast

section \<open>What users exchange\<close>

text \<open>
  A ticket survives being pasted. The text form of a well-formed ticket is read back to it, whatever
  case changes and surrounding white space it has picked up.
\<close>

theorem ticket_text_survives_pasting:
  assumes "b32_ok K" "blake3_ok K" "ticket_ok t" "to_lowercase (trim s) = ticket_to_text K t"
  shows "ticket_from_text K s = Inr t"
  unfolding ticket_from_text_def
  by (rule ticket.text_roundtrip [OF assms(1,2,3)]) (use assms(4) in \<open>simp add: ticket_to_text_def\<close>)

theorem ticket_text_survives_pasting_witness:
  "ticket_from_text demo_keys (ticket_to_text demo_keys demo_ticket) = Inr demo_ticket"
  by (rule ticket_text_survives_pasting [OF demo_b32_ok demo_blake3_ok demo_ticket_ok ticket_text_plain [OF demo_b32_ok]])

text \<open>
  C33. Only tickets are accepted. A text that is read as a ticket is, up to case and surrounding white
  space, the checksummed encoding of bytes that decode to it, and the ticket is well formed: a non-empty
  identity with keys of the right lengths, at most eight hints, and valid onion addresses.
\<close>

theorem ticket_text_accepts_only_tickets:
  assumes "b32_ok K" "ticket_from_text K s = Inr t"
  shows "ticket_ok t \<and> (\<exists>bs. ticket_from_bytes bs = Inr t \<and>
    to_lowercase (trim s) = TICKET_PREFIX @ to_lowercase (b32_encode K (bs @ checksum K TICKET_CHECKSUM_DOMAIN bs)))"
  using ticket.text_accepts [OF assms(1)] assms(2) unfolding ticket_from_text_def text_encode_def by blast

theorem ticket_text_accepts_only_tickets_witness:
  "ticket_ok demo_ticket \<and> (\<exists>bs. ticket_from_bytes bs = Inr demo_ticket \<and>
    to_lowercase (trim (ticket_to_text demo_keys demo_ticket)) =
      TICKET_PREFIX @ to_lowercase (b32_encode demo_keys (bs @ checksum demo_keys TICKET_CHECKSUM_DOMAIN bs)))"
proof (rule ticket_text_accepts_only_tickets [OF demo_b32_ok])
  show "ticket_from_text demo_keys (ticket_to_text demo_keys demo_ticket) = Inr demo_ticket"
    unfolding ticket_from_text_def
    by (rule ticket.text_roundtrip [OF demo_b32_ok demo_blake3_ok demo_ticket_ok])
      (use ticket_text_plain [OF demo_b32_ok] in \<open>simp add: ticket_to_text_def\<close>)
qed

text \<open>
  An identity has exactly one encoding. Bytes that decode to an identity bundle are the encoding of
  that bundle, which is well formed and reads back; so two peers who hold the same bundle hold the same
  bytes and compute the same identifier.
\<close>

theorem identity_encoding_is_canonical:
  assumes "bundle_from_bytes bs = Inr b"
  shows "bundle_ok b \<and> bundle_to_bytes b = bs \<and> bundle_from_bytes (bundle_to_bytes b) = Inr b \<and>
    (\<forall>cs. bundle_from_bytes cs = Inr b \<longrightarrow> cs = bs)"
  using bundle_canonical [OF assms] bundle_canonical(2) assms by auto

theorem identity_encoding_is_canonical_witness:
  "bundle_ok (local_bundle (demo_local 1)) \<and>
   bundle_from_bytes (bundle_to_bytes (local_bundle (demo_local 1))) = Inr (local_bundle (demo_local 1))"
  using identity_encoding_is_canonical [OF bundle_roundtrip [OF demo_bundle_ok]] by blast

text \<open>
  A stored identity is restored, and its public half is never trusted. The secret encoding of a
  local identity reads back to it; and whatever the bytes, the public keys of an identity read from them
  are those its private keys determine.
\<close>

theorem stored_identity_roundtrip:
  assumes "local_ok K b"
  shows "from_secret_bytes K (to_secret_bytes b) = Inr b \<and>
    (\<forall>bs c. from_secret_bytes K bs = Inr c \<longrightarrow>
       ed_public K (li_pkcs8 (lb_classical c)) = Some (li_public (lb_classical c)) \<and>
       (case lb_pq_pkcs8 c of None \<Rightarrow> lb_pq_public c = None
        | Some der \<Rightarrow> lb_pq_public c = pq_public_of K der \<and> lb_pq_public c \<noteq> None))"
  using secret_roundtrip [OF assms] from_secret_local_ok by blast

theorem stored_identity_roundtrip_witness:
  "from_secret_bytes demo_keys (to_secret_bytes (demo_local 3)) = Inr (demo_local 3)"
  using stored_identity_roundtrip [OF demo_local_ok, of 3] by blast

text \<open>
  Server links are exchanged safely. The text of a valid link is read back to it however it was
  pasted; and any text that is read as a link is the checksummed encoding of bytes that decode to it,
  and the link is valid: somewhere to connect, at least one and at most eight 32-byte pins.
\<close>

theorem link_text_roundtrip:
  assumes "b32_ok K" "blake3_ok K"
  shows "(\<forall>l s. link_ok name_ok l \<longrightarrow> to_lowercase (trim s) = link_to_text K l \<longrightarrow> link_from_text K name_ok s = Inr l) \<and>
    (\<forall>l s. link_from_text K name_ok s = Inr l \<longrightarrow> link_ok name_ok l \<and>
       (\<exists>bs. link_from_bytes name_ok bs = Inr l \<and>
          to_lowercase (trim s) = LINK_PREFIX @ to_lowercase (b32_encode K (bs @ checksum K LINK_CHECKSUM_DOMAIN bs))))"
  using link.text_roundtrip [OF assms] link.text_accepts [OF assms(1)]
  unfolding link_from_text_def link_to_text_def text_encode_def by blast

definition demo_link :: ServerLink where
  "demo_link = \<lparr>kind = Rendezvous, shost = ''h'', sport = 443, sprefix = [], pins = [replicate 32 7], onion = None\<rparr>"

lemma demo_link_ok: "link_ok (\<lambda>n. n = ''h'') demo_link"
  by (simp add: link_ok_def link_validate_def demo_link_def MAX_HOST_LEN_def MAX_PREFIX_LEN_def MAX_PINS_def
      utf8_valid.simps str_bytes_def)

theorem link_text_roundtrip_witness:
  "link_from_text demo_keys (\<lambda>n. n = ''h'') (link_to_text demo_keys demo_link) = Inr demo_link"
  using link_text_roundtrip [OF demo_b32_ok demo_blake3_ok, of "\<lambda>n. n = ''h''"] demo_link_ok
    link_text_plain [OF demo_b32_ok] by blast

text \<open>
  A link never weakens the connection it describes. An endpoint built from a link is a rendezvous
  server, keeps exactly the pins of the link (never none), goes through the proxy whenever there is one,
  to the onion address if the link has one; and without a proxy it goes to the clear host only if the
  link names one, so an onion-only link is never dialled directly.
\<close>

theorem endpoint_from_link_is_safe:
  assumes "from_link name_ok l proxy = Inr e"
  shows "kind l = Rendezvous \<and> be_pins e = pins l \<and> be_pins e \<noteq> [] \<and>
    (case (onion l, proxy) of
       (Some a, Some p) \<Rightarrow> be_host e = ohost a \<and> be_via e = Some p
     | (None, Some p) \<Rightarrow> be_host e = shost l \<and> be_via e = Some p
     | (_, None) \<Rightarrow> be_host e = shost l \<and> shost l \<noteq> [] \<and> be_via e = None)"
  using assms by (rule from_link_safe)

theorem endpoint_from_link_is_safe_witness:
  "\<exists>e. from_link (\<lambda>n. n = ''h'') demo_link None = Inr e \<and> be_pins e = pins demo_link \<and> be_host e = ''h'' \<and> be_via e = None"
proof -
  obtain e where e: "from_link (\<lambda>n. n = ''h'') demo_link None = Inr e"
    by (simp add: from_link_def link_target_def BlindEndpoint_new_def is_onion_only_def demo_link_def)
  from endpoint_from_link_is_safe [OF e] e show ?thesis by (simp add: demo_link_def)
qed

section \<open>Pairing\<close>

text \<open>
  Pairing works. Two devices that start from the same spoken code and exchange their messages hold
  the same channel, with neither taking a role; and a well-formed ticket sealed by one on it is always
  sealed, and opened by the other to the ticket.
\<close>

theorem pairing_exchanges_tickets:
  assumes "pake_ok P" "hkdf_ok C" "b32_ok K" "aead_ok C" "aead_total C"
    and "pair_start P code g1 = ((s1, m1), h1)" "pair_start P code g2 = ((s2, m2), h2)" "ticket_ok t"
  shows "\<exists>ch1 ch2. pair_finish P C s1 m2 = Inr ch1 \<and> pair_finish P C s2 m1 = Inr ch2 \<and>
    rendezvous_secret ch1 = rendezvous_secret ch2 \<and>
    (\<exists>sealed g'. seal_ticket K C ch1 t g = Inr (sealed, g') \<and> open_ticket K C ch2 sealed = Inr t)"
proof -
  obtain ch where ch: "pair_finish P C s1 m2 = Inr ch" "pair_finish P C s2 m1 = Inr ch" "length (chan_key ch) = 32"
    using pair_agree [OF assms(1,2,6,7)] by blast
  with seal_ticket_total [OF assms(5) ch(3) assms(8)] open_seal_ticket [OF assms(3,4,8)] show ?thesis by metis
qed

lemma demo_pair_start:
  "pair_start demo_pake code g = ((\<lparr>pake_inner = str_bytes code, outbound = [g 0]\<rparr>, [g 0]), g)"
  by (simp add: pair_start_def demo_pake_def)

theorem pairing_exchanges_tickets_witness:
  "\<exists>ch1 ch2. pair_finish demo_pake demo_crypto \<lparr>pake_inner = str_bytes ''abc'', outbound = [1]\<rparr> [2] = Inr ch1 \<and>
    pair_finish demo_pake demo_crypto \<lparr>pake_inner = str_bytes ''abc'', outbound = [2]\<rparr> [1] = Inr ch2 \<and>
    rendezvous_secret ch1 = rendezvous_secret ch2 \<and>
    (\<exists>sealed g'. seal_ticket demo_keys demo_crypto ch1 demo_ticket (\<lambda>_. 0) = Inr (sealed, g') \<and>
       open_ticket demo_keys demo_crypto ch2 sealed = Inr demo_ticket)"
  using pairing_exchanges_tickets [OF demo_pake_ok demo_hkdf_ok demo_b32_ok demo_aead_ok demo_aead_total
      demo_pair_start [of "''abc''" "\<lambda>_. 1"] demo_pair_start [of "''abc''" "\<lambda>_. 2"] demo_ticket_ok] by simp

text \<open>
  A sealed ticket that opens was sealed on the channel: under its key and bound to the transcript
  of the two messages exchanged, so what an attacker in the middle injects is refused; and the ticket is
  well formed.
\<close>

theorem opened_ticket_is_authentic:
  assumes "aead_ok C" "pair_finish P C st m = Inr ch" "open_ticket K C ch s = Inr t"
  shows "ticket_ok t \<and> (\<exists>lo hi nonce p ct. {lo, hi} = {outbound st, m} \<and>
    b32_decode K (to_uppercase (trim s)) = Some (nonce @ ct) \<and>
    aead_seal C (chan_key ch) nonce (PAIR_AAD_DOMAIN @ lo @ hi) p = Some ct \<and> ticket_from_bytes p = Inr t)"
proof -
  obtain lo hi where lohi: "sort2 (outbound st) m = (lo, hi)" by fastforce
  then have "{lo, hi} = {outbound st, m}" by (auto simp: sort2_def split: if_splits)
  moreover from assms(2) lohi have "chan_aad ch = PAIR_AAD_DOMAIN @ lo @ hi"
    by (auto simp: pair_finish_def result_simps)
  ultimately show ?thesis using open_ticket_Inr [OF assms(1,3)] by metis
qed

theorem opened_ticket_is_authentic_witness:
  "\<exists>ch s t. pair_finish demo_pake demo_crypto \<lparr>pake_inner = str_bytes ''abc'', outbound = [1]\<rparr> [2] = Inr ch \<and>
    open_ticket demo_keys demo_crypto ch s = Inr t \<and> ticket_ok t"
proof -
  obtain ch where ch: "pair_finish demo_pake demo_crypto \<lparr>pake_inner = str_bytes ''abc'', outbound = [1]\<rparr> [2] = Inr ch"
    "length (chan_key ch) = 32"
    using pair_agree [OF demo_pake_ok demo_hkdf_ok demo_pair_start [of "''abc''" "\<lambda>_. 1"] demo_pair_start [of "''abc''" "\<lambda>_. 2"]] by auto
  obtain s g' where "seal_ticket demo_keys demo_crypto ch demo_ticket (\<lambda>_. 0) = Inr (s, g')"
    using seal_ticket_total [OF demo_aead_total ch(2) demo_ticket_ok] by blast
  then have o: "open_ticket demo_keys demo_crypto ch s = Inr demo_ticket"
    by (rule open_seal_ticket [OF demo_b32_ok demo_aead_ok demo_ticket_ok])
  from opened_ticket_is_authentic [OF demo_aead_ok ch(1) o] o ch(1) show ?thesis by blast
qed

text \<open>
  A pairing code can be read out and typed back. A generated code is recovered from the groups it is
  displayed in, and from whatever the other user types, as long as the characters other than white space
  and hyphens are those of the code in either case.
\<close>

theorem pairing_code_survives_typing:
  assumes "b32_ok K" "code_generate K g = (code, g')" "code \<noteq> []"
    and "to_lowercase (filter (\<lambda>c. \<not> is_whitespace c \<and> c \<noteq> CHR ''-'') typed) = code"
  shows "code_parse (code_display code) = Inr code \<and> code_parse typed = Inr code"
  using code_parse_display [OF code_generate_ok [OF assms(1,2,3)]] code_parse_typed [OF code_generate_ok [OF assms(1,2,3)] assms(4)]
  by blast

theorem pairing_code_survives_typing_witness:
  "code_parse (code_display (fst (code_generate demo_keys (\<lambda>_. 0)))) = Inr (fst (code_generate demo_keys (\<lambda>_. 0))) \<and>
   code_parse ''AAAA aaaa-aaa'' = Inr (fst (code_generate demo_keys (\<lambda>_. 0)))"
proof -
  have c: "fst (code_generate demo_keys (\<lambda>_. 0)) = replicate 11 (CHR ''a'')" by code_simp
  show ?thesis
  proof (rule pairing_code_survives_typing [OF demo_b32_ok surjective_pairing])
    show "fst (code_generate demo_keys (\<lambda>_. 0)) \<noteq> []" unfolding c by simp
    show "to_lowercase (filter (\<lambda>c. \<not> is_whitespace c \<and> c \<noteq> CHR ''-'') ''AAAA aaaa-aaa'') = fst (code_generate demo_keys (\<lambda>_. 0))"
      unfolding c by code_simp
  qed
qed

section \<open>The post-quantum proof\<close>

text \<open>
  Honest peers accept each other. On one channel (both ends export the same keying material and what
  one sends the other receives) two peers with consistent identities both finish the exchange, and each
  reports the session as post-quantum authenticated exactly if the other has a post-quantum key.
\<close>

theorem honest_peers_authenticate:
  assumes "pq_sig_ok K" "local_ok K a" "local_ok K b"
    and "keying_material sa = Inr e" "keying_material sb = Inr e"
    and "\<And>m. on_send sa m = Inr ()" "\<And>m. on_send sb m = Inr ()"
    and "on_recv sa = first_sent (authenticate K sb b (local_bundle a) (side_peer side))"
    and "on_recv sb = first_sent (authenticate K sa a (local_bundle b) side)"
  shows "snd (authenticate K sa a (local_bundle b) side) = Inr (is_hybrid (local_bundle b)) \<and>
    snd (authenticate K sb b (local_bundle a) (side_peer side)) = Inr (is_hybrid (local_bundle a))"
proof -
  have sent: "\<exists>p. own_proof K e x (local_bundle y) sd = Inr p \<and> first_sent (authenticate K s x (local_bundle y) sd) = Inr p"
    if "local_ok K x" "is_hybrid (local_bundle x)" "keying_material s = Inr e" for x y s sd
    using own_proof_ok [OF assms(1) that(1,2), of e "local_bundle y" sd] that(2,3)
    by (auto simp: authenticate_def first_sent_def)
  have "side_peer (side_peer side) = side" by (cases side) simp_all
  with authenticate_honest [OF assms(1,2,3,4,6), of side] authenticate_honest [OF assms(1,3,2,5,7), of "side_peer side"]
    sent [OF assms(3) _ assms(5), of a "side_peer side"] sent [OF assms(2) _ assms(4), of b side] assms(8,9)
  show ?thesis by simp
qed

definition demo_end :: "LocalBundle \<Rightarrow> LocalBundle \<Rightarrow> Side \<Rightarrow> Session" where
  "demo_end me peer side = \<lparr>keying_material = Inr [9], on_send = (\<lambda>_. Inr ()),
     on_recv = own_proof demo_keys [9] peer (local_bundle me) (side_peer side), spent = 0\<rparr>"

lemma demo_hybrid: "is_hybrid (local_bundle (demo_local b))"
  by (simp add: is_hybrid_def local_bundle_def demo_local_def)

lemma demo_first_sent:
  "first_sent (authenticate demo_keys (demo_end (demo_local a) (demo_local b) side) (demo_local a) (local_bundle (demo_local b)) side) =
   own_proof demo_keys [9] (demo_local a) (local_bundle (demo_local b)) side"
  using own_proof_ok [OF demo_pq_sig_ok demo_local_ok demo_hybrid [of a], of "[9]" "local_bundle (demo_local b)" side]
  by (auto simp: authenticate_def first_sent_def demo_end_def demo_hybrid)

theorem honest_peers_authenticate_witness:
  "snd (authenticate demo_keys (demo_end (demo_local 1) (demo_local 2) Initiator) (demo_local 1) (local_bundle (demo_local 2)) Initiator) =
     Inr (is_hybrid (local_bundle (demo_local 2))) \<and>
   snd (authenticate demo_keys (demo_end (demo_local 2) (demo_local 1) (side_peer Initiator)) (demo_local 2) (local_bundle (demo_local 1)) (side_peer Initiator)) =
     Inr (is_hybrid (local_bundle (demo_local 1)))"
  by (rule honest_peers_authenticate [OF demo_pq_sig_ok demo_local_ok demo_local_ok, where e = "[9]"], unfold demo_first_sent)
    (simp_all add: demo_end_def)

text \<open>
  C34. There is no downgrade and no reflection. If the exchange succeeds with a peer whose pinned identity
  has a post-quantum key, then the message received verifies under that key, over the transcript of this
  very channel, the peer's side and the two identifiers in order; the result never reports anything else;
  and what this side signs is never the input the peer's proof is checked against.
\<close>

theorem pq_proof_is_sound:
  assumes "snd (authenticate K s loc peer side) = Inr b"
  shows "b = is_hybrid peer \<and>
    (is_hybrid peer \<longrightarrow> (\<exists>exporter proof key. keying_material s = Inr exporter \<and> on_recv s = Inr proof \<and> pq peer = Some key \<and>
       pq_verify K key (transcript K exporter (side_peer side) (bundle_id K peer) (bundle_id K (local_bundle loc))) proof)) \<and>
    (\<forall>e e' i j i' j'. transcript_input e side i j \<noteq> transcript_input e' (side_peer side) i' j')"
  using authenticate_Inr [OF assms] transcript_input_sides by blast

theorem pq_proof_is_sound_witness:
  "\<exists>exporter proof key. keying_material (demo_end (demo_local 1) (demo_local 2) Initiator) = Inr exporter \<and>
     on_recv (demo_end (demo_local 1) (demo_local 2) Initiator) = Inr proof \<and> pq (local_bundle (demo_local 2)) = Some key \<and>
     pq_verify demo_keys key (transcript demo_keys exporter (side_peer Initiator) (bundle_id demo_keys (local_bundle (demo_local 2)))
       (bundle_id demo_keys (local_bundle (demo_local 1)))) proof"
proof -
  let ?s = "demo_end (demo_local 1) (demo_local 2) Initiator"
  have "snd (authenticate demo_keys ?s (demo_local 1) (local_bundle (demo_local 2)) Initiator) = Inr (is_hybrid (local_bundle (demo_local 2)))"
    by (rule authenticate_honest [OF demo_pq_sig_ok demo_local_ok demo_local_ok])
      (use own_proof_ok [OF demo_pq_sig_ok demo_local_ok demo_hybrid [of 2], of "[9]" "local_bundle (demo_local 1)" Responder]
        in \<open>auto simp: demo_end_def\<close>)
  from pq_proof_is_sound [OF this] demo_hybrid show ?thesis by blast
qed

end
