(* ===== verification/ChunkSync.thy ===== *)
theory ChunkSync
  imports Prelude "HOL-Library.Multiset"
begin

text \<open>
  Synchronisation of chunks between two vault replicas (\<open>p2p-sync/src/sync.rs\<close>): the messages and
  their framing, the listener's handling of a message, the choice of the chunks to request, and the
  concurrent tasks that fetch them, at most fifty at a time. A task stores what it fetched under a
  lock, so its effect on the replica is one step; the order in which tasks finish, what the peer
  answers and which disk operations fail are the events of a run. \<open>bincode\<close> is the parameter
  \<open>codec\<close>.
\<close>

section \<open>Data\<close>

record SyncChunkEntry =
  sc_len :: nat
  sc_offset :: nat
  sc_nonce :: bytes

record SyncFileIndex =
  sf_name :: string
  sf_modified :: u64
  sf_chunks :: "SyncChunkEntry list"

record SyncVaultMetadata =
  sync_table :: "SyncFileIndex list"
  sync_salt :: bytes

datatype SyncMessage =
    MetadataExchange SyncVaultMetadata
  | ChunkRequest bytes
  | ChunkTransfer bytes bytes

text \<open>A replica: the metadata in memory and the bytes of the vault file.\<close>

record Replica =
  local_metadata :: SyncVaultMetadata
  vault_bytes :: bytes

section \<open>Messages on a stream\<close>

record codec =
  ser :: "SyncMessage \<Rightarrow> bytes"
  de :: "bytes \<Rightarrow> SyncMessage option"

text \<open>\<open>bincode\<close> reads back what it wrote.\<close>

definition codec_ok :: "codec \<Rightarrow> bool" where
  "codec_ok B \<longleftrightarrow> (\<forall>m. de B (ser B m) = Some m)"

definition MAX_PAYLOAD_SIZE :: nat where "MAX_PAYLOAD_SIZE = 64 * 1024 * 1024"

definition send_msg :: "codec \<Rightarrow> SyncMessage \<Rightarrow> bytes" where
  "send_msg B m = (let bs = ser B m in u32_to_le (word_of_nat (length bs)) @ bs)"

definition recv_msg :: "codec \<Rightarrow> bytes \<Rightarrow> string + SyncMessage \<times> bytes" where
  "recv_msg B s =
     bindE (guardE (4 \<le> length s) ''early eof'') (\<lambda>_.
     let len = unat (u32_from_le (take 4 s)); s1 = drop 4 s in
     bindE (guardE (len \<le> MAX_PAYLOAD_SIZE) ''Payload exceeds safe memory limits'') (\<lambda>_.
     bindE (guardE (len \<le> length s1) ''early eof'') (\<lambda>_.
     bindE (ok_or ''deserialize'' (de B (take len s1))) (\<lambda>m. Inr (m, drop len s1)))))"

section \<open>Which chunks to request\<close>

type_synonym task = "bytes \<times> string \<times> u64"

definition local_file :: "string \<Rightarrow> SyncVaultMetadata \<Rightarrow> SyncFileIndex option" where
  "local_file name md = List.find (\<lambda>f. sf_name f = name) (sync_table md)"

definition is_newer :: "SyncFileIndex \<Rightarrow> SyncFileIndex option \<Rightarrow> bool" where
  "is_newer remote loc = (case loc of None \<Rightarrow> True | Some f \<Rightarrow> sf_modified f < sf_modified remote)"

definition chunk_exists :: "SyncChunkEntry \<Rightarrow> SyncFileIndex option \<Rightarrow> bool" where
  "chunk_exists c loc = (case loc of None \<Rightarrow> False | Some f \<Rightarrow> list_ex (\<lambda>x. sc_nonce x = sc_nonce c) (sf_chunks f))"

definition missing_of :: "SyncVaultMetadata \<Rightarrow> SyncFileIndex \<Rightarrow> task list" where
  "missing_of md remote =
     (let loc = local_file (sf_name remote) md in
      if is_newer remote loc
      then map (\<lambda>c. (sc_nonce c, sf_name remote, sf_modified remote)) (filter (\<lambda>c. \<not> chunk_exists c loc) (sf_chunks remote))
      else [])"

definition missing_chunks :: "SyncVaultMetadata \<Rightarrow> SyncVaultMetadata \<Rightarrow> task list" where
  "missing_chunks remote md = concat (map (missing_of md) (sync_table remote))"

section \<open>Serving a chunk\<close>

definition chunk_info :: "bytes \<Rightarrow> SyncVaultMetadata \<Rightarrow> SyncChunkEntry option" where
  "chunk_info nonce md = List.find (\<lambda>c. sc_nonce c = nonce) (concat (map sf_chunks (sync_table md)))"

definition serve_chunk :: "Replica \<Rightarrow> bytes \<Rightarrow> SyncMessage option" where
  "serve_chunk r nonce =
     (case chunk_info nonce (local_metadata r) of
        None \<Rightarrow> None
      | Some c \<Rightarrow>
          if sc_offset c + sc_len c \<le> length (vault_bytes r)
          then Some (ChunkTransfer nonce (slice (sc_offset c) (sc_len c) (vault_bytes r)))
          else None)"

text \<open>What the listener answers on the stream a message came on, and the tasks it spawns.\<close>

definition handle_inbound :: "Replica \<Rightarrow> SyncMessage \<Rightarrow> SyncMessage option \<times> task list" where
  "handle_inbound r msg =
     (case msg of
        MetadataExchange remote \<Rightarrow> (Some (MetadataExchange (local_metadata r)), missing_chunks remote (local_metadata r))
      | ChunkRequest nonce \<Rightarrow> (serve_chunk r nonce, [])
      | ChunkTransfer _ _ \<Rightarrow> (None, []))"

section \<open>Storing a fetched chunk\<close>

definition record_chunk :: "string \<Rightarrow> u64 \<Rightarrow> SyncChunkEntry \<Rightarrow> SyncVaultMetadata \<Rightarrow> SyncVaultMetadata" where
  "record_chunk name last_mod c md =
     md\<lparr>sync_table :=
       (case update_first (\<lambda>f. sf_name f = name) (\<lambda>f. f\<lparr>sf_modified := last_mod, sf_chunks := sf_chunks f @ [c]\<rparr>) (sync_table md) of
          Some t \<Rightarrow> t
        | None \<Rightarrow> sync_table md @ [\<lparr>sf_name = name, sf_modified = last_mod, sf_chunks = [c]\<rparr>])\<rparr>"

datatype DiskOutcome = OpenFails | SeekFails | WriteFails nat | SyncFails | DiskOk

definition store_chunk :: "task \<Rightarrow> bytes \<Rightarrow> DiskOutcome \<Rightarrow> Replica \<Rightarrow> Replica" where
  "store_chunk t ciphertext out r =
     (case t of (nonce, name, last_mod) \<Rightarrow>
       let offset = length (vault_bytes r) in
       (case out of
          OpenFails \<Rightarrow> r
        | SeekFails \<Rightarrow> r
        | WriteFails k \<Rightarrow> r\<lparr>vault_bytes := vault_bytes r @ take k ciphertext\<rparr>
        | SyncFails \<Rightarrow> r\<lparr>vault_bytes := vault_bytes r @ ciphertext\<rparr>
        | DiskOk \<Rightarrow> r\<lparr>vault_bytes := vault_bytes r @ ciphertext,
            local_metadata := record_chunk name last_mod
              \<lparr>sc_len = length ciphertext, sc_offset = offset, sc_nonce = nonce\<rparr> (local_metadata r)\<rparr>))"

text \<open>
  What a task takes from the answer: the dialling side asserts that the nonce is the one it asked for
  (the task panics otherwise, with no effect), the listening side does not look at it.
\<close>

datatype SyncSide = SyncDialer | SyncListener

definition accepted :: "SyncSide \<Rightarrow> bytes \<Rightarrow> SyncMessage option \<Rightarrow> bytes option" where
  "accepted side nonce reply =
     (case reply of
        Some (ChunkTransfer returned ciphertext) \<Rightarrow>
          if side = SyncDialer \<and> nonce \<noteq> returned then None else Some ciphertext
      | _ \<Rightarrow> None)"

section \<open>Running the tasks\<close>

record SyncRun =
  replica :: Replica
  waiting :: "task list"
  running :: "task list"

definition MAX_TASKS :: nat where "MAX_TASKS = 50"

text \<open>
  \<open>Spawn\<close> gives the next task a permit; \<open>Finish i reply out\<close> ends the \<open>i\<close>-th running task, with the
  answer it got (\<open>None\<close> when the stream could not be opened, the answer did not come within a minute
  or could not be read) and the outcome of its disk operations. That a task ends at all is not part of the model: only
  the wait for the answer has a timeout, opening the stream, sending the request and the locks have none.
\<close>

datatype SyncEvent = Spawn | Finish nat "SyncMessage option" DiskOutcome

definition sync_step :: "SyncSide \<Rightarrow> SyncEvent \<Rightarrow> SyncRun \<Rightarrow> SyncRun option" where
  "sync_step side e s =
     (case e of
        Spawn \<Rightarrow>
          (case waiting s of
             t # ts \<Rightarrow> if length (running s) < MAX_TASKS then Some (s\<lparr>waiting := ts, running := running s @ [t]\<rparr>) else None
           | [] \<Rightarrow> None)
      | Finish i reply out \<Rightarrow>
          if i < length (running s) then
            let t = running s ! i; s' = s\<lparr>running := take i (running s) @ drop (Suc i) (running s)\<rparr>
            in Some (case accepted side (fst t) reply of
                 None \<Rightarrow> s'
               | Some ct \<Rightarrow> s'\<lparr>replica := store_chunk t ct out (replica s)\<rparr>)
          else None)"

fun sync_events :: "SyncSide \<Rightarrow> SyncEvent list \<Rightarrow> SyncRun \<Rightarrow> SyncRun option" where
  "sync_events side [] s = Some s"
| "sync_events side (e # es) s = Option.bind (sync_step side e s) (sync_events side es)"

definition start_run :: "Replica \<Rightarrow> task list \<Rightarrow> SyncRun" where
  "start_run r ts = \<lparr>replica = r, waiting = ts, running = []\<rparr>"

definition finished :: "SyncRun \<Rightarrow> bool" where
  "finished s \<longleftrightarrow> waiting s = [] \<and> running s = []"

text \<open>
  The dialling side: opening the stream and sending the local metadata may fail with an error; an
  answer that does not come or is not metadata ends the call without one. It waits for its tasks.
\<close>

definition synchronize ::
    "bool \<Rightarrow> bool \<Rightarrow> SyncMessage option \<Rightarrow> SyncEvent list \<Rightarrow> Replica \<Rightarrow> string + SyncRun option" where
  "synchronize opened sent reply events r =
     bindE (guardE opened ''open_stream'') (\<lambda>_.
     bindE (guardE sent ''send_msg'') (\<lambda>_.
       Inr (case reply of
              Some (MetadataExchange remote) \<Rightarrow>
                sync_events SyncDialer events (start_run r (missing_chunks remote (local_metadata r)))
            | _ \<Rightarrow> Some (start_run r []))))"

section \<open>Framing\<close>

lemma recv_send_msg:
  assumes "codec_ok B" "length (ser B m) \<le> MAX_PAYLOAD_SIZE"
  shows "recv_msg B (send_msg B m @ rest) = Inr (m, rest)"
proof -
  have "unat (word_of_nat (length (ser B m)) :: u32) = length (ser B m)"
    using assms(2) by (intro unat_u32_of_nat) (simp add: MAX_PAYLOAD_SIZE_def)
  with assms show ?thesis by (simp add: recv_msg_def send_msg_def Let_def codec_ok_def)
qed

lemma recv_msg_bound:
  assumes "recv_msg B s = Inr (m, rest)"
  shows "\<exists>bs. length bs \<le> MAX_PAYLOAD_SIZE \<and> s = u32_to_le (word_of_nat (length bs)) @ bs @ rest \<and> de B bs = Some m"
proof -
  define w where "w = u32_from_le (take 4 s)"
  from assms have h: "4 \<le> length s" "unat w \<le> MAX_PAYLOAD_SIZE" "unat w \<le> length (drop 4 s)"
    "de B (take (unat w) (drop 4 s)) = Some m" "rest = drop (unat w) (drop 4 s)"
    by (auto simp: recv_msg_def Let_def result_simps w_def)
  have l: "length (take (unat w) (drop 4 s)) = unat w" using h(3) by simp
  have "u32_to_le w = take 4 s" unfolding w_def by (rule u32_to_le_from_le) (simp add: h(1))
  then have "s = u32_to_le w @ take (unat w) (drop 4 s) @ rest" unfolding h(5) by (simp only: append_take_drop_id)
  then show ?thesis using h(2,4) l by (intro exI [of _ "take (unat w) (drop 4 s)"]) (simp only: l of_nat_unat ucast_id)
qed

section \<open>The metadata after storing\<close>

definition add_chunk :: "string \<Rightarrow> u64 \<Rightarrow> SyncChunkEntry \<Rightarrow> SyncFileIndex option \<Rightarrow> SyncFileIndex" where
  "add_chunk name m c old =
     (case old of None \<Rightarrow> \<lparr>sf_name = name, sf_modified = m, sf_chunks = [c]\<rparr>
      | Some f \<Rightarrow> f\<lparr>sf_modified := m, sf_chunks := sf_chunks f @ [c]\<rparr>)"

lemma local_file_record:
  "local_file n (record_chunk name m c md) =
     (if n = name then Some (add_chunk name m c (local_file name md)) else local_file n md)"
proof -
  let ?P = "\<lambda>f. sf_name f = name" and ?Q = "\<lambda>f. sf_name f = n"
  let ?u = "\<lambda>f. f\<lparr>sf_modified := m, sf_chunks := sf_chunks f @ [c]\<rparr>"
  let ?new = "\<lparr>sf_name = name, sf_modified = m, sf_chunks = [c]\<rparr>"
  let ?t = "sync_table md"
  have lhs: "local_file n (record_chunk name m c md) =
      List.find ?Q (case update_first ?P ?u ?t of Some t \<Rightarrow> t | None \<Rightarrow> ?t @ [?new])"
    by (simp add: local_file_def record_chunk_def)
  show ?thesis
  proof (cases "update_first ?P ?u ?t")
    case None
    then have "List.find ?P ?t = None" by (simp only: update_first_None)
    then show ?thesis unfolding lhs None
      by (cases "n = name"; cases "List.find ?Q ?t") (simp_all add: find_append add_chunk_def local_file_def)
  next
    case (Some t)
    have "List.find ?P ?t \<noteq> None" using Some update_first_None [of ?P ?u ?t] by simp
    then obtain f where f: "List.find ?P ?t = Some f" by blast
    have a: "List.find ?P t = Some (?u f)" using find_update_first [OF Some] f by simp
    show ?thesis
    proof (cases "n = name")
      case True
      with a f show ?thesis unfolding lhs Some by (simp add: add_chunk_def local_file_def)
    next
      case False
      have "List.find ?Q t = List.find ?Q ?t" by (rule find_update_other [OF Some]) (use False in simp)
      with False show ?thesis unfolding lhs Some by (simp add: local_file_def)
    qed
  qed
qed

text \<open>The nonces of a file, in order, and its time of modification.\<close>

definition nonces_of :: "string \<Rightarrow> SyncVaultMetadata \<Rightarrow> bytes list" where
  "nonces_of name md = (case local_file name md of None \<Rightarrow> [] | Some f \<Rightarrow> map sc_nonce (sf_chunks f))"

definition modified_of :: "string \<Rightarrow> SyncVaultMetadata \<Rightarrow> u64 option" where
  "modified_of name md = map_option sf_modified (local_file name md)"

lemma nonces_of_record:
  "nonces_of n (record_chunk name m c md) = (if n = name then nonces_of n md @ [sc_nonce c] else nonces_of n md)"
  by (auto simp: nonces_of_def local_file_record add_chunk_def split: option.splits)

lemma modified_of_record:
  "modified_of n (record_chunk name m c md) = (if n = name then Some m else modified_of n md)"
  by (auto simp: modified_of_def local_file_record add_chunk_def split: option.splits)

lemma missing_of_nonces:
  "missing_of md f =
     (if case modified_of (sf_name f) md of None \<Rightarrow> True | Some m \<Rightarrow> m < sf_modified f
      then map (\<lambda>c. (sc_nonce c, sf_name f, sf_modified f)) (filter (\<lambda>c. sc_nonce c \<notin> set (nonces_of (sf_name f) md)) (sf_chunks f))
      else [])"
  by (auto simp: missing_of_def Let_def is_newer_def chunk_exists_def modified_of_def nonces_of_def list_ex_iff
      image_iff split: option.splits intro!: filter_cong arg_cong [of _ _ "map _"])

text \<open>A replica holds bytes for a nonce of a file; stored bytes stay held.\<close>

definition holds :: "Replica \<Rightarrow> string \<Rightarrow> bytes \<Rightarrow> bytes \<Rightarrow> bool" where
  "holds r name nonce ct \<longleftrightarrow>
     (\<exists>f c. local_file name (local_metadata r) = Some f \<and> c \<in> set (sf_chunks f) \<and> sc_nonce c = nonce \<and>
        sc_offset c + sc_len c \<le> length (vault_bytes r) \<and> slice (sc_offset c) (sc_len c) (vault_bytes r) = ct)"

lemma holds_append:
  assumes "holds r name nonce ct"
  shows "holds (r\<lparr>vault_bytes := vault_bytes r @ bs\<rparr>) name nonce ct"
proof -
  from assms obtain f c where f: "local_file name (local_metadata r) = Some f" "c \<in> set (sf_chunks f)" "sc_nonce c = nonce"
    "sc_offset c + sc_len c \<le> length (vault_bytes r)" "slice (sc_offset c) (sc_len c) (vault_bytes r) = ct"
    unfolding holds_def by blast
  then show ?thesis unfolding holds_def by (intro exI [of _ f] exI [of _ c]) (simp add: slice_append1)
qed

lemma holds_record:
  assumes "holds r name nonce ct"
  shows "holds (r\<lparr>local_metadata := record_chunk n m c (local_metadata r)\<rparr>) name nonce ct"
proof -
  from assms obtain f x where f: "local_file name (local_metadata r) = Some f" "x \<in> set (sf_chunks f)" "sc_nonce x = nonce"
    "sc_offset x + sc_len x \<le> length (vault_bytes r)" "slice (sc_offset x) (sc_len x) (vault_bytes r) = ct"
    unfolding holds_def by blast
  then obtain f' where "local_file name (record_chunk n m c (local_metadata r)) = Some f'" "x \<in> set (sf_chunks f')"
    by (cases "name = n") (auto simp: local_file_record add_chunk_def)
  with f show ?thesis unfolding holds_def by auto
qed

section \<open>The effect of a task\<close>

type_synonym attempt = "task \<times> SyncMessage option \<times> DiskOutcome"

definition attempt_task :: "attempt \<Rightarrow> task" where "attempt_task a = fst a"
definition attempt_nonce :: "attempt \<Rightarrow> bytes" where "attempt_nonce a = fst (fst a)"
definition attempt_name :: "attempt \<Rightarrow> string" where "attempt_name a = fst (snd (fst a))"
definition attempt_mod :: "attempt \<Rightarrow> u64" where "attempt_mod a = snd (snd (fst a))"

lemma attempt_task_eq: "attempt_task a = (attempt_nonce a, attempt_name a, attempt_mod a)"
  by (simp add: attempt_task_def attempt_nonce_def attempt_name_def attempt_mod_def)

lemmas attempt_defs = attempt_task_def attempt_nonce_def attempt_name_def attempt_mod_def

definition apply_attempt :: "SyncSide \<Rightarrow> attempt \<Rightarrow> Replica \<Rightarrow> Replica" where
  "apply_attempt side a r =
     (case a of (t, reply, out) \<Rightarrow>
       (case accepted side (fst t) reply of None \<Rightarrow> r | Some ct \<Rightarrow> store_chunk t ct out r))"

definition recorded :: "SyncSide \<Rightarrow> attempt \<Rightarrow> bool" where
  "recorded side a \<longleftrightarrow> accepted side (attempt_nonce a) (fst (snd a)) \<noteq> None \<and> snd (snd a) = DiskOk"

lemma apply_attempt_metadata:
  "nonces_of n (local_metadata (apply_attempt side a r)) =
     nonces_of n (local_metadata r) @ (if recorded side a \<and> attempt_name a = n then [attempt_nonce a] else [])"
  "modified_of n (local_metadata (apply_attempt side a r)) =
     (if recorded side a \<and> attempt_name a = n then Some (attempt_mod a) else modified_of n (local_metadata r))"
  by (cases a; auto simp: apply_attempt_def recorded_def attempt_defs store_chunk_def Let_def nonces_of_record modified_of_record
      split: option.splits DiskOutcome.splits prod.splits)+

lemma apply_attempt_appends: "\<exists>bs. vault_bytes (apply_attempt side a r) = vault_bytes r @ bs"
  by (cases a) (auto simp: apply_attempt_def store_chunk_def Let_def split: option.splits DiskOutcome.splits prod.splits)

lemma fold_attempts_append: "\<exists>bs. vault_bytes (fold (apply_attempt side) xs r) = vault_bytes r @ bs"
proof (induction xs arbitrary: r)
  case (Cons a xs)
  obtain bs where "vault_bytes (apply_attempt side a r) = vault_bytes r @ bs" using apply_attempt_appends by blast
  with Cons [of "apply_attempt side a r"] show ?case by auto
qed simp

lemma apply_attempt_holds:
  assumes "holds r name nonce ct"
  shows "holds (apply_attempt side a r) name nonce ct"
proof -
  have h: "holds (r\<lparr>vault_bytes := vault_bytes r @ bs, local_metadata := record_chunk n m c (local_metadata r)\<rparr>) name nonce ct" for bs n m c
    using holds_record [OF holds_append [OF assms]] by simp
  show ?thesis using assms h holds_append [OF assms]
    by (cases a) (auto simp: apply_attempt_def store_chunk_def Let_def split: option.splits DiskOutcome.splits prod.splits)
qed

lemma apply_attempt_stores:
  assumes "recorded side a" "accepted side (attempt_nonce a) (fst (snd a)) = Some ct"
  shows "holds (apply_attempt side a r) (attempt_name a) (attempt_nonce a) ct"
proof -
  obtain nonce name m where a: "a = ((nonce, name, m), fst (snd a), DiskOk)"
    using assms(1) by (cases a) (auto simp: recorded_def)
  let ?c = "\<lparr>sc_len = length ct, sc_offset = length (vault_bytes r), sc_nonce = nonce\<rparr>"
  have "apply_attempt side a r = r\<lparr>vault_bytes := vault_bytes r @ ct, local_metadata := record_chunk name m ?c (local_metadata r)\<rparr>"
    by (subst a) (use assms(2) a in \<open>auto simp: apply_attempt_def store_chunk_def attempt_nonce_def split: prod.splits\<close>)
  moreover have "?c \<in> set (sf_chunks (add_chunk name m ?c old))" for old by (auto simp: add_chunk_def split: option.splits)
  ultimately show ?thesis
    by (subst a, subst (3) a) (simp add: holds_def local_file_record attempt_name_def attempt_nonce_def slice_append2 slice_0
        exI [of _ ?c])
qed

section \<open>Runs\<close>

text \<open>The tasks that end in a run, in the order in which they end, with what they met.\<close>

fun attempts :: "SyncSide \<Rightarrow> SyncEvent list \<Rightarrow> SyncRun \<Rightarrow> attempt list" where
  "attempts side [] s = []"
| "attempts side (e # es) s =
     (case sync_step side e s of
        None \<Rightarrow> []
      | Some s' \<Rightarrow>
          (case e of Spawn \<Rightarrow> [] | Finish i reply out \<Rightarrow> [(running s ! i, reply, out)]) @ attempts side es s')"

lemma sync_step_Spawn:
  "sync_step side Spawn s = Some s' \<longleftrightarrow>
     (\<exists>t ts. waiting s = t # ts \<and> length (running s) < MAX_TASKS \<and> s' = s\<lparr>waiting := ts, running := running s @ [t]\<rparr>)"
  by (auto simp: sync_step_def split: list.splits)

lemma sync_step_Finish_eq:
  "sync_step side (Finish i reply out) s =
     (if i < length (running s)
      then Some (s\<lparr>running := take i (running s) @ drop (Suc i) (running s),
                   replica := apply_attempt side (running s ! i, reply, out) (replica s)\<rparr>)
      else None)"
  by (auto simp: sync_step_def Let_def apply_attempt_def split: option.splits)

lemma sync_step_Finish:
  "sync_step side (Finish i reply out) s = Some s' \<longleftrightarrow>
     i < length (running s) \<and>
     s' = s\<lparr>running := take i (running s) @ drop (Suc i) (running s),
            replica := apply_attempt side (running s ! i, reply, out) (replica s)\<rparr>"
  by (auto simp: sync_step_Finish_eq)

lemma mset_remove_nth: "i < length xs \<Longrightarrow> add_mset (xs ! i) (mset (take i xs @ drop (Suc i) xs)) = mset xs"
  by (metis id_take_nth_drop mset.simps(2) mset_append union_mset_add_mset_right)

text \<open>A run is the fold of its attempts over the replica, and each task is tried exactly once.\<close>

lemma run_effect:
  "sync_events side es s = Some s' \<Longrightarrow> replica s' = fold (apply_attempt side) (attempts side es s) (replica s)"
proof (induction es arbitrary: s)
  case (Cons e es)
  from Cons.prems obtain s1 where s1: "sync_step side e s = Some s1" "sync_events side es s1 = Some s'"
    by (auto simp: bind_eq_Some_conv)
  have "replica s1 = (case e of Spawn \<Rightarrow> replica s | Finish i reply out \<Rightarrow> apply_attempt side (running s ! i, reply, out) (replica s))"
    using s1(1) by (cases e) (auto simp: sync_step_Spawn sync_step_Finish)
  with Cons.IH [OF s1(2)] s1(1) show ?case by (cases e) simp_all
qed simp

lemma run_tasks:
  "sync_events side es s = Some s' \<Longrightarrow>
     mset (waiting s) + mset (running s) =
     mset (waiting s') + mset (running s') + mset (map attempt_task (attempts side es s))"
proof (induction es arbitrary: s)
  case (Cons e es)
  from Cons.prems obtain s1 where s1: "sync_step side e s = Some s1" "sync_events side es s1 = Some s'"
    by (auto simp: bind_eq_Some_conv)
  have "mset (waiting s) + mset (running s) =
      mset (waiting s1) + mset (running s1) + (case e of Spawn \<Rightarrow> {#} | Finish i reply out \<Rightarrow> {#running s ! i#})"
    using s1(1) mset_remove_nth [of _ "running s"] by (cases e) (auto simp: sync_step_Spawn sync_step_Finish)
  with Cons.IH [OF s1(2)] s1(1) show ?case by (cases e) (simp_all add: attempt_task_def)
qed simp

section \<open>What a run leaves\<close>

lemma fold_attempts_metadata:
  fixes side xs n
  defines "mine \<equiv> filter (\<lambda>a. recorded side a \<and> attempt_name a = n) xs"
  shows "nonces_of n (local_metadata (fold (apply_attempt side) xs r)) = nonces_of n (local_metadata r) @ map attempt_nonce mine"
    and "modified_of n (local_metadata (fold (apply_attempt side) xs r)) =
      (if mine = [] then modified_of n (local_metadata r) else Some (attempt_mod (last mine)))"
  unfolding mine_def
proof (induction xs arbitrary: r)
  case (Cons a xs)
  {
    case 1
    show ?case using Cons.IH(1) [of "apply_attempt side a r"] by (simp add: apply_attempt_metadata)
  next
    case 2
    show ?case using Cons.IH(2) [of "apply_attempt side a r"] by (simp add: apply_attempt_metadata)
  }
qed simp_all

lemma fold_attempts_keep:
  "holds r name nonce ct \<Longrightarrow> holds (fold (apply_attempt side) xs r) name nonce ct"
  by (induction xs arbitrary: r) (auto intro: apply_attempt_holds)

lemma fold_attempts_store:
  assumes "a \<in> set xs" "recorded side a" "accepted side (attempt_nonce a) (fst (snd a)) = Some ct"
  shows "holds (fold (apply_attempt side) xs r) (attempt_name a) (attempt_nonce a) ct"
  using assms(1)
proof (induction xs arbitrary: r)
  case (Cons x xs)
  then show ?case using apply_attempt_stores [OF assms(2,3), of r] fold_attempts_keep by (cases "x = a") auto
qed simp

text \<open>The invariant: what the metadata lists is inside the file.\<close>

definition replica_ok :: "Replica \<Rightarrow> bool" where
  "replica_ok r \<longleftrightarrow>
     (\<forall>f \<in> set (sync_table (local_metadata r)). \<forall>c \<in> set (sf_chunks f). sc_offset c + sc_len c \<le> length (vault_bytes r))"

lemma record_chunk_files:
  assumes "f \<in> set (sync_table (record_chunk name m c md))" "x \<in> set (sf_chunks f)"
  shows "x = c \<or> (\<exists>f \<in> set (sync_table md). x \<in> set (sf_chunks f))"
  using assms by (auto simp: record_chunk_def split: option.splits dest!: set_update_first)

lemma apply_attempt_ok:
  assumes "replica_ok r"
  shows "replica_ok (apply_attempt side a r)"
proof -
  have app: "replica_ok (r\<lparr>vault_bytes := vault_bytes r @ bs\<rparr>)" for bs
    using assms by (auto simp: replica_ok_def intro: trans_le_add1)
  have rec: "replica_ok (r\<lparr>vault_bytes := vault_bytes r @ bs, local_metadata := record_chunk n m c (local_metadata r)\<rparr>)"
    if "sc_offset c + sc_len c \<le> length (vault_bytes r @ bs)" for bs n m c
    using app [of bs] that unfolding replica_ok_def by (auto dest: record_chunk_files)
  show ?thesis using assms app rec
    by (cases a) (auto simp: apply_attempt_def store_chunk_def Let_def split: option.splits DiskOutcome.splits prod.splits)
qed

lemma fold_attempts_ok: "replica_ok r \<Longrightarrow> replica_ok (fold (apply_attempt side) xs r)"
  by (induction xs arbitrary: r) (auto intro: apply_attempt_ok)

section \<open>An honest peer\<close>

text \<open>A well-formed replica serves every chunk it lists.\<close>

lemma serve_chunk_listed:
  assumes "replica_ok R" "f \<in> set (sync_table (local_metadata R))" "c \<in> set (sf_chunks f)"
  shows "\<exists>ct. serve_chunk R (sc_nonce c) = Some (ChunkTransfer (sc_nonce c) ct)"
proof -
  let ?all = "concat (map sf_chunks (sync_table (local_metadata R)))"
  have "\<exists>x. chunk_info (sc_nonce c) (local_metadata R) = Some x"
    unfolding chunk_info_def using assms(2,3) find_None_iff [of "\<lambda>x. sc_nonce x = sc_nonce c" ?all] by auto
  then obtain x where x: "chunk_info (sc_nonce c) (local_metadata R) = Some x" by blast
  then have "x \<in> set ?all" unfolding chunk_info_def by (metis find_Some_iff nth_mem)
  with assms(1) x show ?thesis by (auto simp: serve_chunk_def replica_ok_def)
qed

definition honest :: "Replica \<Rightarrow> attempt \<Rightarrow> bool" where
  "honest R a \<longleftrightarrow> fst (snd a) = serve_chunk R (attempt_nonce a) \<and> snd (snd a) = DiskOk"

lemma missing_task:
  assumes "t \<in> set (missing_chunks remote md)"
  shows "\<exists>f \<in> set (sync_table remote). \<exists>c \<in> set (sf_chunks f). t = (sc_nonce c, sf_name f, sf_modified f)"
  using assms by (auto simp: missing_chunks_def missing_of_def Let_def split: if_splits)

lemma honest_recorded:
  assumes "replica_ok R" "honest R a" "attempt_task a \<in> set (missing_chunks (local_metadata R) md)"
  shows "\<exists>ct. serve_chunk R (attempt_nonce a) = Some (ChunkTransfer (attempt_nonce a) ct) \<and>
    accepted side (attempt_nonce a) (fst (snd a)) = Some ct \<and> recorded side a"
proof -
  from missing_task [OF assms(3)] obtain f c where "f \<in> set (sync_table (local_metadata R))" "c \<in> set (sf_chunks f)"
    "attempt_nonce a = sc_nonce c" by (auto simp: attempt_defs)
  with serve_chunk_listed [OF assms(1)] obtain ct where "serve_chunk R (attempt_nonce a) = Some (ChunkTransfer (attempt_nonce a) ct)"
    by metis
  with assms(2) show ?thesis by (auto simp: honest_def recorded_def accepted_def)
qed

section \<open>What is requested next\<close>

text \<open>
  After a run, a file of the peer is asked for again in full if no chunk of it was recorded, and not at
  all as soon as one was.
\<close>

lemma run_attempts_missing:
  assumes "sync_events side es (start_run r ts) = Some s'" "a \<in> set (attempts side es (start_run r ts))"
  shows "attempt_task a \<in> set ts"
proof -
  have "mset ts = mset (waiting s') + mset (running s') + mset (map attempt_task (attempts side es (start_run r ts)))"
    using run_tasks [OF assms(1)] by (simp add: start_run_def)
  then have "set ts = set (waiting s') \<union> set (running s') \<union> attempt_task ` set (attempts side es (start_run r ts))"
    by (metis mset_append set_append set_map set_mset_mset)
  with assms(2) show ?thesis by blast
qed

lemma missing_mod:
  assumes "(nonce, name, m) \<in> set (missing_chunks remote md)" "distinct (map sf_name (sync_table remote))"
    and "f \<in> set (sync_table remote)" "sf_name f = name"
  shows "m = sf_modified f \<and> (nonce, name, m) \<in> set (missing_of md f)"
proof -
  from assms(1) obtain g where g: "g \<in> set (sync_table remote)" "(nonce, name, m) \<in> set (missing_of md g)"
    by (auto simp: missing_chunks_def)
  then have "sf_name g = name" "sf_modified g = m" by (auto simp: missing_of_def Let_def split: if_splits)
  moreover have "g = f" using assms(2-4) g(1) calculation(1) by (metis distinct_map inj_on_def)
  ultimately show ?thesis using g by simp
qed

lemma missing_after:
  assumes run: "sync_events side es (start_run r (missing_chunks remote (local_metadata r))) = Some s'"
    and d: "distinct (map sf_name (sync_table remote))" and f: "f \<in> set (sync_table remote)"
  defines "xs \<equiv> attempts side es (start_run r (missing_chunks remote (local_metadata r)))"
  shows "missing_of (local_metadata (replica s')) f =
    (if \<exists>a \<in> set xs. recorded side a \<and> attempt_name a = sf_name f then [] else missing_of (local_metadata r) f)"
proof -
  let ?mine = "filter (\<lambda>a. recorded side a \<and> attempt_name a = sf_name f) xs"
  have rep: "replica s' = fold (apply_attempt side) xs r" using run_effect [OF run] by (simp add: xs_def start_run_def)
  have md: "attempt_mod a = sf_modified f" if "a \<in> set ?mine" for a
  proof -
    have "attempt_task a \<in> set (missing_chunks remote (local_metadata r))"
      using that run_attempts_missing [OF run] by (simp add: xs_def)
    moreover note attempt_task_eq [of a]
    ultimately show ?thesis using missing_mod [OF _ d f] that by simp
  qed
  have e: "?mine = [] \<longleftrightarrow> \<not> (\<exists>a \<in> set xs. recorded side a \<and> attempt_name a = sf_name f)" by (auto simp: filter_empty_conv)
  show ?thesis
  proof (cases "?mine = []")
    case True
    with e have "\<not> (\<exists>a \<in> set xs. recorded side a \<and> attempt_name a = sf_name f)" by blast
    with True show ?thesis unfolding rep by (simp only: missing_of_nonces fold_attempts_metadata) simp
  next
    case False
    then have "attempt_mod (last ?mine) = sf_modified f" by (intro md last_in_set)
    with False e show ?thesis unfolding rep by (simp add: missing_of_nonces fold_attempts_metadata)
  qed
qed

section \<open>An honest run\<close>

text \<open>All tasks of a finished run against an honest peer are recorded, with the bytes the peer has.\<close>

definition honest_run :: "Replica \<Rightarrow> SyncEvent list \<Rightarrow> Replica \<Rightarrow> SyncRun \<Rightarrow> bool" where
  "honest_run R es r s \<longleftrightarrow>
     replica_ok R \<and> distinct (map sf_name (sync_table (local_metadata R))) \<and>
     sync_events SyncDialer es (start_run r (missing_chunks (local_metadata R) (local_metadata r))) = Some s \<and> finished s \<and>
     (\<forall>a \<in> set (attempts SyncDialer es (start_run r (missing_chunks (local_metadata R) (local_metadata r)))). honest R a)"

lemma honest_run_attempt:
  assumes "honest_run R es r s" "(nonce, name, m) \<in> set (missing_chunks (local_metadata R) (local_metadata r))"
  shows "\<exists>a ct. a \<in> set (attempts SyncDialer es (start_run r (missing_chunks (local_metadata R) (local_metadata r)))) \<and>
    attempt_nonce a = nonce \<and> attempt_name a = name \<and> recorded SyncDialer a \<and>
    serve_chunk R nonce = Some (ChunkTransfer nonce ct) \<and> accepted SyncDialer nonce (fst (snd a)) = Some ct"
proof -
  let ?missing = "missing_chunks (local_metadata R) (local_metadata r)"
  let ?xs = "attempts SyncDialer es (start_run r ?missing)"
  have run: "sync_events SyncDialer es (start_run r ?missing) = Some s" and fin: "finished s"
    using assms(1) by (simp_all add: honest_run_def)
  have "mset ?missing = mset (map attempt_task ?xs)" using run_tasks [OF run] fin by (simp add: start_run_def finished_def)
  then have "(nonce, name, m) \<in> attempt_task ` set ?xs" using assms(2) by (metis set_map set_mset_mset)
  then obtain a where a: "a \<in> set ?xs" "attempt_task a = (nonce, name, m)" by auto
  then have "attempt_nonce a = nonce" "attempt_name a = name" by (simp_all add: attempt_defs)
  moreover have "\<exists>ct. serve_chunk R (attempt_nonce a) = Some (ChunkTransfer (attempt_nonce a) ct) \<and>
      accepted SyncDialer (attempt_nonce a) (fst (snd a)) = Some ct \<and> recorded SyncDialer a"
    by (rule honest_recorded) (use assms a in \<open>simp_all add: honest_run_def\<close>)
  ultimately show ?thesis using a(1) by metis
qed

lemma honest_run_complete:
  assumes "honest_run R es r s"
  shows "missing_chunks (local_metadata R) (local_metadata (replica s)) = []"
proof -
  have run: "sync_events SyncDialer es (start_run r (missing_chunks (local_metadata R) (local_metadata r))) = Some s"
    and d: "distinct (map sf_name (sync_table (local_metadata R)))" using assms by (simp_all add: honest_run_def)
  have "missing_of (local_metadata (replica s)) f = []" if f: "f \<in> set (sync_table (local_metadata R))" for f
  proof (cases "missing_of (local_metadata r) f")
    case Nil
    then show ?thesis using missing_after [OF run d f] by simp
  next
    case (Cons t ts)
    then have t: "t \<in> set (missing_of (local_metadata r) f)" by simp
    obtain nonce name m where [simp]: "t = (nonce, name, m)" by (cases t)
    from t have "name = sf_name f" by (auto simp: missing_of_def Let_def split: if_splits)
    moreover have "(nonce, name, m) \<in> set (missing_chunks (local_metadata R) (local_metadata r))"
      using t f by (auto simp: missing_chunks_def)
    ultimately show ?thesis using honest_run_attempt [OF assms, of nonce name m] missing_after [OF run d f] by auto
  qed
  then show ?thesis by (simp add: missing_chunks_def)
qed

lemma honest_run_stores:
  assumes "honest_run R es r s" and t: "(nonce, name, m) \<in> set (missing_chunks (local_metadata R) (local_metadata r))"
  shows "modified_of name (local_metadata (replica s)) = Some m \<and>
    (\<exists>ct. serve_chunk R nonce = Some (ChunkTransfer nonce ct) \<and> holds (replica s) name nonce ct)"
proof -
  let ?xs = "attempts SyncDialer es (start_run r (missing_chunks (local_metadata R) (local_metadata r)))"
  have run: "sync_events SyncDialer es (start_run r (missing_chunks (local_metadata R) (local_metadata r))) = Some s"
    and d: "distinct (map sf_name (sync_table (local_metadata R)))" using assms(1) by (simp_all add: honest_run_def)
  have rep: "replica s = fold (apply_attempt SyncDialer) ?xs r" using run_effect [OF run] by (simp add: start_run_def)
  from honest_run_attempt [OF assms] obtain a ct where a: "a \<in> set ?xs" "attempt_nonce a = nonce" "attempt_name a = name"
    "recorded SyncDialer a" and ct: "serve_chunk R nonce = Some (ChunkTransfer nonce ct)" "accepted SyncDialer nonce (fst (snd a)) = Some ct"
    by blast
  let ?mine = "filter (\<lambda>a. recorded SyncDialer a \<and> attempt_name a = name) ?xs"
  have ne: "?mine \<noteq> []" using a by (auto simp: filter_empty_conv)
  then have l: "last ?mine \<in> set ?xs" "attempt_name (last ?mine) = name" using last_in_set [OF ne] by auto
  obtain f where f: "f \<in> set (sync_table (local_metadata R))" "sf_name f = name" using missing_task [OF t] by auto
  have "(attempt_nonce (last ?mine), name, attempt_mod (last ?mine)) \<in> set (missing_chunks (local_metadata R) (local_metadata r))"
    using run_attempts_missing [OF run l(1)] unfolding attempt_task_eq l(2) .
  then have "attempt_mod (last ?mine) = sf_modified f" using missing_mod [OF _ d f] by blast
  moreover have "m = sf_modified f" using missing_mod [OF t d f] by blast
  ultimately have "attempt_mod (last ?mine) = m" by simp
  with ne have "modified_of name (local_metadata (replica s)) = Some m" unfolding rep fold_attempts_metadata by simp
  moreover have "holds (replica s) name nonce ct" unfolding rep using fold_attempts_store [OF a(1,4)] ct(2) a(2,3) by simp
  ultimately show ?thesis using ct(1) by blast
qed

end
