(* ===== verification/Config.thy ===== *)
theory Config
  imports Crypto
begin

text \<open>
  Encrypted configuration files (\<open>atom/src/config_crypto.rs\<close>): the key kept in the desktop's keyring,
  the encryption of a file and the reading of both encrypted and older plain files. The keyring service
  is an explicit state whose calls may fail.
\<close>

definition MAGIC :: bytes where "MAGIC = str_bytes ''ATOM'' @ [1]"

section \<open>The key\<close>

record Keyring =
  reachable :: bool
  items :: "bytes list"
  readable :: bool
  storable :: bool

definition fetch_or_create_key :: "rng \<Rightarrow> Keyring \<Rightarrow> string + bytes \<times> Keyring" where
  "fetch_or_create_key g k =
     bindE (guardE (reachable k) ''Secret Service'') (\<lambda>_.
     bindE (guardE (items k = [] \<or> readable k) ''Get secret'') (\<lambda>_.
       if items k \<noteq> [] \<and> length (hd (items k)) = 32 then Inr (hd (items k), k)
       else
         let key = fst (draw 32 g) in
         bindE (guardE (storable k) ''Create keyring item'') (\<lambda>_.
           Inr (key, k\<lparr>items := key # tl (items k)\<rparr>))))"

section \<open>Files\<close>

text \<open>A call before the key is initialised panics.\<close>

definition encrypt_config :: "crypto_lib \<Rightarrow> bytes option \<Rightarrow> bytes \<Rightarrow> rng \<Rightarrow> string + bytes \<times> rng" where
  "encrypt_config C config_key plaintext g =
     bindE (ok_or ''panicked: encrypt_config called before init_config_key'' config_key) (\<lambda>key.
     let (nonce, g') = draw 24 g in
     bindE (guardE (length key = 32) ''panicked: config key is always 32 bytes'') (\<lambda>_.
     bindE (ok_or ''panicked: encryption must not fail'' (aead_seal C key nonce [] plaintext)) (\<lambda>ct.
       Inr (MAGIC @ nonce @ ct, g'))))"

definition decrypt_config :: "crypto_lib \<Rightarrow> bytes option \<Rightarrow> bytes \<Rightarrow> string + bytes" where
  "decrypt_config C config_key data =
     (case strip_prefix MAGIC data of
        None \<Rightarrow> Inr data
      | Some payload \<Rightarrow>
          bindE (ok_or ''panicked: decrypt_config called before init_config_key'' config_key) (\<lambda>key.
          bindE (guardE (24 \<le> length payload) ''Encrypted config file is truncated'') (\<lambda>_.
          bindE (guardE (length key = 32) ''panicked: config key is always 32 bytes'') (\<lambda>_.
            ok_or ''Config decryption failed'' (aead_open C key (take 24 payload) [] (drop 24 payload))))))"

text \<open>Writing a file: opening it may fail, and then nothing changes; a write may stop half-way.\<close>

record WriteIO =
  open_ok :: bool
  write_cut :: "nat option"

definition write_file :: "WriteIO \<Rightarrow> bytes \<Rightarrow> bytes option \<Rightarrow> bytes option" where
  "write_file io data old =
     (if open_ok io then Some (case write_cut io of None \<Rightarrow> data | Some k \<Rightarrow> take k data) else old)"

text \<open>
  What both the list of friends and the list of vaults do: a file that cannot be decrypted ends the
  process, one that is not the expected JSON counts as absent.
\<close>

definition load_json :: "crypto_lib \<Rightarrow> bytes option \<Rightarrow> (string \<Rightarrow> 'a option) \<Rightarrow> bytes option \<Rightarrow> string + 'a option" where
  "load_json C key from_json content =
     (case content of
        None \<Rightarrow> Inr None
      | Some raw \<Rightarrow>
          bindE (map_err (\<lambda>e. ''exit: '' @ e) (decrypt_config C key raw)) (\<lambda>d.
            Inr (Option.bind (from_utf8 d) from_json)))"

definition save_json ::
    "crypto_lib \<Rightarrow> bytes option \<Rightarrow> ('a \<Rightarrow> string) \<Rightarrow> 'a \<Rightarrow> rng \<Rightarrow> WriteIO \<Rightarrow> bytes option \<Rightarrow> string + bytes option \<times> rng" where
  "save_json C key to_json x g io old =
     bindE (encrypt_config C key (str_bytes (to_json x)) g) (\<lambda>(data, g').
       Inr (write_file io data old, g'))"

section \<open>What is read was written\<close>

lemma decrypt_encrypt_config:
  assumes "aead_ok C" "encrypt_config C key p g = Inr (data, g')"
  shows "decrypt_config C key data = Inr p"
proof -
  obtain nonce g1 where n: "draw 24 g = (nonce, g1)" by fastforce
  from assms(2) n obtain k ct where h: "key = Some k" "length k = 32" "aead_seal C k nonce [] p = Some ct" "data = MAGIC @ nonce @ ct"
    by (auto simp: encrypt_config_def Let_def result_simps)
  moreover have "aead_open C k nonce [] ct = Some p" by (rule aead_okD(1) [OF assms(1) h(3)])
  ultimately show ?thesis using draw_length [OF n] by (simp add: decrypt_config_def)
qed

lemma encrypt_config_total:
  assumes "aead_total C" "length k = 32" "length p < 2 ^ 38 - 64"
  shows "\<exists>data g'. encrypt_config C (Some k) p g = Inr (data, g')"
proof -
  obtain nonce g1 where n: "draw 24 g = (nonce, g1)" by fastforce
  have "aead_seal C k nonce [] p \<noteq> None" using assms draw_length [OF n] by (simp add: aead_total_def)
  with n assms(2) show ?thesis by (auto simp: encrypt_config_def)
qed

text \<open>An encrypted file that reads was sealed under the key; anything else is a plain file.\<close>

lemma decrypt_config_Inr:
  assumes "aead_ok C" "decrypt_config C key data = Inr p"
  shows "(strip_prefix MAGIC data = None \<and> p = data) \<or>
    (\<exists>k nonce ct. key = Some k \<and> length nonce = 24 \<and> data = MAGIC @ nonce @ ct \<and> aead_seal C k nonce [] p = Some ct)"
proof (cases "strip_prefix MAGIC data")
  case None
  with assms(2) show ?thesis by (simp add: decrypt_config_def)
next
  case (Some payload)
  with assms(2) obtain k where k: "key = Some k" "24 \<le> length payload"
    "aead_open C k (take 24 payload) [] (drop 24 payload) = Some p"
    by (auto simp: decrypt_config_def result_simps)
  then have "aead_seal C k (take 24 payload) [] p = Some (drop 24 payload)" by (intro aead_okD(3) [OF assms(1)])
  moreover have "data = MAGIC @ take 24 payload @ drop 24 payload" using Some by (simp add: strip_prefix_Some)
  ultimately show ?thesis using k by (metis length_take min_absorb2)
qed

lemma load_save_json:
  assumes "aead_ok C" "save_json C key to_json x g io old = Inr (new, g')" "open_ok io" "write_cut io = None"
    and "from_json (to_json x) = Some x" "utf8_valid (str_bytes (to_json x))"
  shows "load_json C key from_json new = Inr (Some x)"
proof -
  from assms(2) obtain data where d: "encrypt_config C key (str_bytes (to_json x)) g = Inr (data, g')" "new = Some data"
    using assms(3,4) by (auto simp: save_json_def result_simps write_file_def)
  with decrypt_encrypt_config [OF assms(1) d(1)] assms(5,6) show ?thesis
    by (simp add: load_json_def from_utf8_def)
qed

text \<open>The key is created once: the next start finds it.\<close>

lemma fetch_key_again:
  assumes "fetch_or_create_key g k = Inr (key, k')" "readable k"
  shows "length key = 32 \<and> fetch_or_create_key g' k' = Inr (key, k')"
proof -
  have "length (fst (draw 32 g)) = 32" by simp
  with assms show ?thesis
    by (auto simp: fetch_or_create_key_def Let_def result_simps split: if_splits)
qed

end
