(* ===== verification/DailyAddress.thy ===== *)
theory DailyAddress
  imports Records
begin

text \<open>
  The daily onion address two peers derive from their shared secret (\<open>p2p-sync/src/address.rs\<close>).
  The clock is the argument \<open>now\<close>; HKDF is the one of \<open>Crypto\<close>, SHA3-256 an argument, and a
  signing key is represented by its 32 seed bytes.
\<close>

definition EPOCH_DAY :: u64 where "EPOCH_DAY = 86400"

definition role_prefix :: "bytes \<Rightarrow> bytes \<Rightarrow> bool \<Rightarrow> bytes" where
  "role_prefix local_key remote_key is_local_host =
     (let is_peer_a = bytes_less local_key remote_key in
      str_bytes (case (is_peer_a, is_local_host) of
          (True, True) \<Rightarrow> ''host-A''
        | (False, True) \<Rightarrow> ''host-B''
        | (True, False) \<Rightarrow> ''host-B''
        | (False, False) \<Rightarrow> ''host-A''))"

definition daily_info :: "bytes \<Rightarrow> u64 \<Rightarrow> bytes" where
  "daily_info role epoch = str_bytes ''atom-vault-hs-v1|'' @ role @ str_bytes ''|epoch|'' @ u64_to_le epoch"

definition derive_daily_key :: "crypto_lib \<Rightarrow> u64 \<Rightarrow> bytes \<Rightarrow> bytes \<Rightarrow> bytes \<Rightarrow> bool \<Rightarrow> string + bytes" where
  "derive_daily_key C now secret local_key remote_key is_local_host =
     (let epoch = now div EPOCH_DAY;
          info = daily_info (role_prefix local_key remote_key is_local_host) epoch
      in ok_or ''panicked: Valid length for SHA256'' (hkdf_sha256 C None secret info 32))"

definition format_onion_address :: "key_lib \<Rightarrow> (bytes \<Rightarrow> bytes) \<Rightarrow> bytes \<Rightarrow> string" where
  "format_onion_address K sha3 pubkey =
     (let version = 3;
          chk = sha3 (str_bytes ''.onion checksum'' @ pubkey @ [version]);
          raw = pubkey @ take 2 chk @ [version]
      in to_lowercase (b32_encode K raw) @ ''.onion'')"

text \<open>Who is peer A is settled by the order of the two keys.\<close>

interpretation peer_a: role_split bytes_less Not
proof
  fix a b :: bytes
  assume "a \<noteq> b"
  then show "bytes_less a b = (\<not> bytes_less b a)" using bytes_less_asym bytes_less_total by blast
qed simp_all

lemma role_prefix_swap: "a \<noteq> b \<Longrightarrow> role_prefix a b h = role_prefix b a (\<not> h)"
  using peer_a.pick_swap [of a b] by (cases h) (auto simp: role_prefix_def Let_def split: bool.splits)

lemma role_prefix_neq: "role_prefix a b True \<noteq> role_prefix a b False"
  by (auto simp: role_prefix_def Let_def str_bytes_def split: bool.splits)

lemma role_prefix_length: "length (role_prefix a b h) = 6"
  by (auto simp: role_prefix_def Let_def str_bytes_def split: bool.splits)

lemma daily_info_inj:
  assumes "daily_info r e = daily_info r' e'" "length r = length r'"
  shows "r = r' \<and> e = e'"
proof -
  have "u64_to_le e = u64_to_le e'" "r = r'" using assms by (simp_all add: daily_info_def)
  then show ?thesis using u64_le_roundtrip by metis
qed

lemma derive_daily_key_swap:
  "a \<noteq> b \<Longrightarrow> derive_daily_key C now secret a b h = derive_daily_key C now secret b a (\<not> h)"
  by (simp add: derive_daily_key_def role_prefix_swap [of a b])

text \<open>The address determines the key: its label is a base32 text that starts with the key.\<close>

lemma format_onion_inj:
  assumes "b32_ok K" "format_onion_address K sha3 p = format_onion_address K sha3 q" "length p = length q"
  shows "p = q"
proof -
  let ?raw = "\<lambda>k. k @ take 2 (sha3 (str_bytes ''.onion checksum'' @ k @ [3])) @ [3]"
  have b: "list_all b32_char (b32_encode K x)" "b32_decode K (b32_encode K x) = Some x" for x
    using assms(1) by (simp_all add: b32_ok_def)
  have "to_lowercase (b32_encode K (?raw p)) = to_lowercase (b32_encode K (?raw q))"
    using assms(2) by (simp add: format_onion_address_def Let_def)
  then have "b32_encode K (?raw p) = b32_encode K (?raw q)" using b32_upper_lower [OF b(1)] by metis
  then have "?raw p = ?raw q" using b(2) by (metis option.inject)
  with assms(3) show ?thesis by simp
qed

end
