(* ===== verification/NoiseTunnel.thy ===== *)
theory NoiseTunnel
  imports Prelude "HOL-Library.Sublist"
begin

text \<open>
  The encrypted tunnel of \<open>p2p-sync\<close>: the Noise handshake with its signed authentication
  (\<open>handshake.rs\<close>), the two pumps between the tunnel and the multiplexer and the multiplexer's
  bookkeeping (\<open>transport.rs\<close>), and dialling a friend (\<open>lib.rs\<close>). The \<open>snow\<close> library is the
  parameter \<open>noise_lib\<close>: handshake states are opaque bytes, and a transport state is the pair of
  the cipher states it sends and receives with. Ed25519 is the parameter \<open>ed_lib\<close>.
\<close>

record noise_lib =
  n_init :: "bool \<Rightarrow> rng \<Rightarrow> bytes"
  n_write :: "bytes \<Rightarrow> bytes \<Rightarrow> (bytes \<times> bytes) option"
  n_read :: "bytes \<Rightarrow> bytes \<Rightarrow> (bytes \<times> bytes) option"
  n_hash :: "bytes \<Rightarrow> bytes"
  n_split :: "bytes \<Rightarrow> (bytes \<times> bytes) option"
  c_write :: "bytes \<Rightarrow> bytes \<Rightarrow> (bytes \<times> bytes) option"
  c_read :: "bytes \<Rightarrow> bytes \<Rightarrow> (bytes \<times> bytes) option"

record ed_lib =
  ed_pub :: "bytes \<Rightarrow> bytes"
  ed_sign :: "bytes \<Rightarrow> bytes \<Rightarrow> bytes"
  ed_valid :: "bytes \<Rightarrow> bool"
  ed_verify_strict :: "bytes \<Rightarrow> bytes \<Rightarrow> bytes \<Rightarrow> bool"

text \<open>
  The cipher of the transport: a message is read, in the state it was written in, to its payload, and a
  ciphertext that is read is the one written for its payload; sixteen bytes are added, and a message
  never exceeds 65535 bytes.
\<close>

definition cipher_ok :: "noise_lib \<Rightarrow> bool" where
  "cipher_ok N \<longleftrightarrow>
     (\<forall>s p c s'. c_write N s p = Some (c, s') \<longleftrightarrow> c_read N s c = Some (p, s')) \<and>
     (\<forall>s p c s'. c_write N s p = Some (c, s') \<longrightarrow> length c = length p + 16 \<and> length c \<le> 65535)"

text \<open>Two ends that exchange the three messages of the pattern agree on the hash and hold mirrored states.\<close>

definition noise_ok :: "noise_lib \<Rightarrow> bool" where
  "noise_ok N \<longleftrightarrow>
     (\<forall>g1 g2. \<exists>m1 i1 r1 m2 r2 i2 m3 i3 r3 a b.
        n_write N (n_init N True g1) [] = Some (m1, i1) \<and> n_read N (n_init N False g2) m1 = Some ([], r1) \<and>
        n_write N r1 [] = Some (m2, r2) \<and> n_read N i1 m2 = Some ([], i2) \<and>
        n_write N i2 [] = Some (m3, i3) \<and> n_read N r2 m3 = Some ([], r3) \<and>
        length m1 \<le> 65535 \<and> length m2 \<le> 65535 \<and> length m3 \<le> 65535 \<and>
        n_hash N i3 = n_hash N r3 \<and> n_split N i3 = Some (a, b) \<and> n_split N r3 = Some (b, a) \<and>
        (\<forall>p. length p = 96 \<longrightarrow> c_write N a p \<noteq> None \<and> c_write N b p \<noteq> None))"

definition ed_ok :: "ed_lib \<Rightarrow> bool" where
  "ed_ok E \<longleftrightarrow>
     (\<forall>sk m. length (ed_pub E sk) = 32 \<and> length (ed_sign E sk m) = 64 \<and> ed_valid E (ed_pub E sk) \<and>
        ed_verify_strict E (ed_pub E sk) m (ed_sign E sk m))"

section \<open>The byte stream\<close>

text \<open>What is still to be read, what has been written, and how many bytes can still be written.\<close>

record Pipe =
  incoming :: bytes
  written :: bytes
  room :: nat

definition write_frame16 :: "bytes \<Rightarrow> Pipe \<Rightarrow> string + Pipe" where
  "write_frame16 bs w =
     (let out = u16_to_be (word_of_nat (length bs)) @ bs in
      if length out \<le> room w then Inr (w\<lparr>written := written w @ out, room := room w - length out\<rparr>)
      else Inl ''write error'')"

definition read_frame16 :: "Pipe \<Rightarrow> string + bytes \<times> Pipe" where
  "read_frame16 w =
     bindE (guardE (2 \<le> length (incoming w)) ''early eof'') (\<lambda>_.
     let len = unat (u16_from_be (take 2 (incoming w))); rest = drop 2 (incoming w) in
     bindE (guardE (len \<le> length rest) ''early eof'') (\<lambda>_.
       Inr (take len rest, w\<lparr>incoming := drop len rest\<rparr>)))"

section \<open>The handshake\<close>

definition send_message :: "noise_lib \<Rightarrow> bytes \<Rightarrow> Pipe \<Rightarrow> string + bytes \<times> Pipe" where
  "send_message N st w =
     bindE (ok_or ''noise write'' (n_write N st [])) (\<lambda>(m, st').
     bindE (write_frame16 m w) (\<lambda>w'. Inr (st', w')))"

definition recv_message :: "noise_lib \<Rightarrow> bytes \<Rightarrow> Pipe \<Rightarrow> string + bytes \<times> Pipe" where
  "recv_message N st w =
     bindE (read_frame16 w) (\<lambda>(m, w').
     bindE (ok_or ''noise read'' (n_read N st m)) (\<lambda>(_, st'). Inr (st', w')))"

definition exchange :: "noise_lib \<Rightarrow> bool \<Rightarrow> rng \<Rightarrow> Pipe \<Rightarrow> string + bytes \<times> Pipe" where
  "exchange N is_initiator g w =
     (let st = n_init N is_initiator g in
      if is_initiator then
        bindE (send_message N st w) (\<lambda>(st1, w1).
        bindE (recv_message N st1 w1) (\<lambda>(st2, w2). send_message N st2 w2))
      else
        bindE (recv_message N st w) (\<lambda>(st1, w1).
        bindE (send_message N st1 w1) (\<lambda>(st2, w2). recv_message N st2 w2)))"

record VaultSession =
  transport_out :: bytes
  transport_in :: bytes
  master_secret :: bytes
  remote_static_key :: bytes

text \<open>The check of the peer's authentication payload.\<close>

definition check_auth :: "ed_lib \<Rightarrow> bytes list \<Rightarrow> bytes \<Rightarrow> bytes \<Rightarrow> string + bytes" where
  "check_auth E authorized_peers master payload =
     bindE (guardE (length payload = 96) ''Invalid authentication payload length'') (\<lambda>_.
     let remote_pubkey = take 32 payload; remote_sig = drop 32 payload in
     bindE (guardE (ed_valid E remote_pubkey) ''not a public key'') (\<lambda>_.
     bindE (guardE (remote_pubkey \<in> set authorized_peers) ''Peer identity mismatch'') (\<lambda>_.
     bindE (guardE (ed_verify_strict E remote_pubkey master remote_sig) ''Invalid signature'') (\<lambda>_.
       Inr remote_pubkey))))"

definition execute_handshake ::
    "noise_lib \<Rightarrow> ed_lib \<Rightarrow> bool \<Rightarrow> bytes \<Rightarrow> bytes list \<Rightarrow> rng \<Rightarrow> Pipe \<Rightarrow> string + VaultSession \<times> Pipe" where
  "execute_handshake N E is_initiator identity_key authorized_peers g w =
     bindE (exchange N is_initiator g w) (\<lambda>(st, w1).
     let master = n_hash N st; my_auth = ed_pub E identity_key @ ed_sign E identity_key master in
     bindE (ok_or ''into_transport_mode'' (n_split N st)) (\<lambda>(s_out, s_in).
     bindE (ok_or ''transport write'' (c_write N s_out my_auth)) (\<lambda>(ct, s_out').
     bindE (write_frame16 ct w1) (\<lambda>w2.
     bindE (read_frame16 w2) (\<lambda>(ct', w3).
     bindE (ok_or ''transport read'' (c_read N s_in ct')) (\<lambda>(payload, s_in').
     bindE (check_auth E authorized_peers master payload) (\<lambda>remote.
       Inr (\<lparr>transport_out = s_out', transport_in = s_in', master_secret = master, remote_static_key = remote\<rparr>, w3))))))))"

text \<open>
  Dialling: bootstrapping (within its minute), the address check, connecting (within 45 seconds), and
  the handshake (within 15 seconds). Each step that fails or runs out of time ends the call.
\<close>

definition connect_to_friend ::
    "noise_lib \<Rightarrow> ed_lib \<Rightarrow> bytes \<Rightarrow> bool \<Rightarrow> (string \<Rightarrow> Pipe option) \<Rightarrow> bool \<Rightarrow> string \<Rightarrow> bytes \<Rightarrow> rng \<Rightarrow>
     string + VaultSession \<times> Pipe" where
  "connect_to_friend N E identity_key bootstrapped dial in_time onion_address friend_identity g =
     bindE (guardE bootstrapped ''Tor bootstrap'') (\<lambda>_.
     bindE (guardE (strip_suffix ''.onion'' onion_address \<noteq> None) ''Security Violation'') (\<lambda>_.
     bindE (ok_or ''Circuit'' (dial onion_address)) (\<lambda>w.
     bindE (guardE in_time ''Noise handshake timed out'') (\<lambda>_.
       execute_handshake N E True identity_key [friend_identity] g w))))"

section \<open>The pumps\<close>

text \<open>
  Outbound: each read of the multiplexer's side becomes one message; an empty read (end of stream) or a
  failing cipher ends the pump, and so does a failing write, after which part of the frame may be out.
\<close>

fun outbound_pump :: "noise_lib \<Rightarrow> bytes \<Rightarrow> bytes list \<Rightarrow> Pipe \<Rightarrow> Pipe" where
  "outbound_pump N s [] w = w"
| "outbound_pump N s (r # rs) w =
     (if r = [] then w
      else case c_write N s r of
        None \<Rightarrow> w
      | Some (c, s') \<Rightarrow>
          (case write_frame16 c w of
             Inl _ \<Rightarrow> w\<lparr>written := written w @ take (room w) (u16_to_be (word_of_nat (length c)) @ c), room := 0\<rparr>
           | Inr w' \<Rightarrow> outbound_pump N s' rs w'))"

text \<open>Inbound: the plaintexts handed to the multiplexer.\<close>

function inbound_pump :: "noise_lib \<Rightarrow> bytes \<Rightarrow> Pipe \<Rightarrow> bytes list" where
  "inbound_pump N s w =
     (case read_frame16 w of
        Inl _ \<Rightarrow> []
      | Inr (c, w') \<Rightarrow>
          (case c_read N s c of
             None \<Rightarrow> []
           | Some (p, s') \<Rightarrow> p # inbound_pump N s' w'))"
  by pat_completeness auto
termination
  by (relation "measure (\<lambda>(_, _, w). length (incoming w))")
    (auto simp: read_frame16_def Let_def result_simps)

declare inbound_pump.simps [simp del]

section \<open>The multiplexer's bookkeeping\<close>

text \<open>
  One poll: requests for a stream are queued; while the connection has an answer (a stream or an error)
  the oldest request gets it; inbound streams go to a channel of 32 places and are dropped when it is
  full. \<open>answers\<close> and \<open>inbound\<close> are what the connection has ready.
\<close>

record 'r Mux =
  pending_opens :: "'r list"
  inbound_queue :: "bytes list"

definition INBOUND_CAPACITY :: nat where "INBOUND_CAPACITY = 32"

fun answer_opens :: "'r list \<Rightarrow> (string + bytes) list \<Rightarrow> 'r list \<times> ('r \<times> (string + bytes)) list" where
  "answer_opens [] as = ([], [])"
| "answer_opens (r # rs) [] = (r # rs, [])"
| "answer_opens (r # rs) (a # as) = (let (left, sent) = answer_opens rs as in (left, (r, a) # sent))"

definition try_send :: "bytes \<Rightarrow> bytes list \<Rightarrow> bytes list" where
  "try_send x q = (if length q < INBOUND_CAPACITY then q @ [x] else q)"

definition poll_mux ::
    "'r list \<Rightarrow> (string + bytes) list \<Rightarrow> bytes list \<Rightarrow> 'r Mux \<Rightarrow> 'r Mux \<times> ('r \<times> (string + bytes)) list" where
  "poll_mux requests answers inbound m =
     (let (left, sent) = answer_opens (pending_opens m @ requests) answers
      in (m\<lparr>pending_opens := left, inbound_queue := fold try_send inbound (inbound_queue m)\<rparr>, sent))"

section \<open>Frames\<close>

lemma read_write_frame16:
  assumes "incoming w = u16_to_be (word_of_nat (length bs)) @ bs @ rest" "length bs \<le> 65535"
  shows "read_frame16 w = Inr (bs, w\<lparr>incoming := rest\<rparr>)"
proof -
  have "unat (word_of_nat (length bs) :: u16) = length bs" using assms(2) by (intro unat_u16_of_nat) simp
  then show ?thesis using assms(1) by (simp add: read_frame16_def Let_def)
qed

lemma read_frame16_Inr:
  assumes "read_frame16 w = Inr (c, w')"
  shows "incoming w = u16_to_be (word_of_nat (length c)) @ c @ incoming w' \<and> w' = w\<lparr>incoming := incoming w'\<rparr>"
proof -
  define n where "n = u16_from_be (take 2 (incoming w))"
  from assms have h: "2 \<le> length (incoming w)" "unat n \<le> length (drop 2 (incoming w))"
    "c = take (unat n) (drop 2 (incoming w))" "w' = w\<lparr>incoming := drop (unat n) (drop 2 (incoming w))\<rparr>"
    by (auto simp: read_frame16_def Let_def result_simps n_def)
  have "u16_to_be n = take 2 (incoming w)" unfolding n_def by (rule u16_to_be_from_be) (simp add: h(1))
  moreover have "length c = unat n" using h(2,3) by simp
  moreover have "incoming w' = drop (unat n) (drop 2 (incoming w))" using h(4) by simp
  then have "incoming w = take 2 (incoming w) @ c @ incoming w'" unfolding h(3) by (metis append_take_drop_id)
  moreover have "w' = w\<lparr>incoming := incoming w'\<rparr>" using h(4) by simp
  ultimately show ?thesis by (metis of_nat_unat ucast_id)
qed

section \<open>What the handshake guarantees\<close>

lemma execute_handshake_Inr:
  assumes "execute_handshake N E init sk peers g w = Inr (s, w')"
  shows "remote_static_key s \<in> set peers \<and> ed_valid E (remote_static_key s) \<and>
    (\<exists>sig st w1 ct payload b s_in. exchange N init g w = Inr (st, w1) \<and> master_secret s = n_hash N st \<and>
       n_split N st = Some (b, s_in) \<and> c_read N s_in ct = Some (payload, transport_in s) \<and>
       payload = remote_static_key s @ sig \<and> ed_verify_strict E (remote_static_key s) (master_secret s) sig)"
proof -
  from assms obtain st w1 s_out s_in ct s_out' w2 ct' w3 payload s_in' remote where
    h: "exchange N init g w = Inr (st, w1)" "n_split N st = Some (s_out, s_in)" "c_read N s_in ct' = Some (payload, s_in')"
    "check_auth E peers (n_hash N st) payload = Inr remote"
    and s: "s = \<lparr>transport_out = s_out', transport_in = s_in', master_secret = n_hash N st, remote_static_key = remote\<rparr>"
    by (auto simp: execute_handshake_def Let_def result_simps)
  from h(4) have "remote = take 32 payload" "ed_valid E remote" "remote \<in> set peers"
    "ed_verify_strict E remote (n_hash N st) (drop 32 payload)"
    by (auto simp: check_auth_def Let_def result_simps)
  moreover have "payload = take 32 payload @ drop 32 payload" by simp
  ultimately show ?thesis using h s by (metis VaultSession.select_convs(2-4))
qed

lemma check_auth_own:
  assumes "ed_ok E" "ed_pub E sk \<in> set peers"
  shows "check_auth E peers m (ed_pub E sk @ ed_sign E sk m) = Inr (ed_pub E sk)"
  using assms by (simp add: check_auth_def ed_ok_def)

definition frame16 :: "bytes \<Rightarrow> bytes" where
  "frame16 bs = u16_to_be (word_of_nat (length bs)) @ bs"

lemma write_frame16_room:
  "length bs + 2 \<le> room w \<Longrightarrow> write_frame16 bs w = Inr (w\<lparr>written := written w @ frame16 bs, room := room w - (length bs + 2)\<rparr>)"
  by (simp add: write_frame16_def frame16_def Let_def add.commute)

lemma read_frame16_at:
  "incoming w = frame16 bs @ rest \<Longrightarrow> length bs \<le> 65535 \<Longrightarrow> read_frame16 w = Inr (bs, w\<lparr>incoming := rest\<rparr>)"
  by (rule read_write_frame16) (simp_all add: frame16_def)

lemma send_message_ok:
  assumes "n_write N st [] = Some (m, st')" "length m + 2 \<le> room w"
  shows "send_message N st w = Inr (st', w\<lparr>written := written w @ frame16 m, room := room w - (length m + 2)\<rparr>)"
  using assms by (simp add: send_message_def write_frame16_room)

lemma recv_message_ok:
  assumes "incoming w = frame16 m @ rest" "length m \<le> 65535" "n_read N st m = Some (x, st')"
  shows "recv_message N st w = Inr (st', w\<lparr>incoming := rest\<rparr>)"
  using assms by (simp add: recv_message_def read_frame16_at)

lemma exchange_initiator:
  assumes "n_write N (n_init N True g) [] = Some (m1, i1)" "n_read N i1 m2 = Some (x, i2)" "n_write N i2 [] = Some (m3, i3)"
    and "length m2 \<le> 65535" "length m1 + length m3 + 4 \<le> k"
  shows "exchange N True g \<lparr>incoming = frame16 m2 @ rest, written = [], room = k\<rparr> =
    Inr (i3, \<lparr>incoming = rest, written = frame16 m1 @ frame16 m3, room = k - (length m1 + 2) - (length m3 + 2)\<rparr>)"
  using assms
  by (simp add: exchange_def send_message_ok [OF assms(1)] recv_message_ok [OF _ assms(4,2)] send_message_ok [OF assms(3)])

lemma exchange_responder:
  assumes "n_read N (n_init N False g) m1 = Some (x, r1)" "n_write N r1 [] = Some (m2, r2)" "n_read N r2 m3 = Some (y, r3)"
    and "length m1 \<le> 65535" "length m3 \<le> 65535" "length m2 + 2 \<le> k"
  shows "exchange N False g \<lparr>incoming = frame16 m1 @ frame16 m3 @ rest, written = [], room = k\<rparr> =
    Inr (r3, \<lparr>incoming = rest, written = frame16 m2, room = k - (length m2 + 2)\<rparr>)"
  using assms
  by (simp add: exchange_def recv_message_ok [OF _ assms(4,1)] send_message_ok [OF assms(2)] recv_message_ok [OF _ assms(5,3)])

lemma finish_handshake:
  assumes "exchange N init g w = Inr (st, \<lparr>incoming = frame16 c', written = out, room = k\<rparr>)" "n_split N st = Some (a, b)"
    and "c_write N a (ed_pub E sk @ ed_sign E sk (n_hash N st)) = Some (c, a')" "length c + 2 \<le> k"
    and "c_read N b c' = Some (p, b')" "length c' \<le> 65535" "check_auth E peers (n_hash N st) p = Inr remote"
  shows "execute_handshake N E init sk peers g w =
    Inr (\<lparr>transport_out = a', transport_in = b', master_secret = n_hash N st, remote_static_key = remote\<rparr>,
         \<lparr>incoming = [], written = out @ frame16 c, room = k - (length c + 2)\<rparr>)"
  using assms by (simp add: execute_handshake_def Let_def write_frame16_room read_frame16_at [where rest = "[]"])

text \<open>
  Two honest ends: with the bytes the other writes as input, and room for what they write, both finish,
  with the same secret and each other's key.
\<close>

lemma handshake_honest:
  assumes N: "noise_ok N" "cipher_ok N" and E: "ed_ok E"
    and auth: "ed_pub E skr \<in> set peersi" "ed_pub E ski \<in> set peersr"
  shows "\<exists>ini resp si sr pi pr.
    execute_handshake N E True ski peersi g1 \<lparr>incoming = resp, written = [], room = 300000\<rparr> = Inr (si, pi) \<and> written pi = ini \<and>
    execute_handshake N E False skr peersr g2 \<lparr>incoming = ini, written = [], room = 300000\<rparr> = Inr (sr, pr) \<and> written pr = resp \<and>
    master_secret si = master_secret sr \<and> remote_static_key si = ed_pub E skr \<and> remote_static_key sr = ed_pub E ski \<and>
    transport_out si = transport_in sr \<and> transport_in si = transport_out sr"
proof -
  obtain m1 i1 r1 m2 r2 i2 m3 i3 r3 a b where
    x: "n_write N (n_init N True g1) [] = Some (m1, i1)" "n_read N (n_init N False g2) m1 = Some ([], r1)"
    "n_write N r1 [] = Some (m2, r2)" "n_read N i1 m2 = Some ([], i2)"
    "n_write N i2 [] = Some (m3, i3)" "n_read N r2 m3 = Some ([], r3)"
    and l: "length m1 \<le> 65535" "length m2 \<le> 65535" "length m3 \<le> 65535"
    and hs: "n_hash N i3 = n_hash N r3" "n_split N i3 = Some (a, b)" "n_split N r3 = Some (b, a)"
    and tot: "\<forall>p. length p = 96 \<longrightarrow> c_write N a p \<noteq> None \<and> c_write N b p \<noteq> None"
    using N(1) [unfolded noise_ok_def, THEN spec, THEN spec, of g1 g2] by (elim exE conjE) (rule that)
  let ?h = "n_hash N r3"
  let ?pi = "ed_pub E ski @ ed_sign E ski ?h" and ?pr = "ed_pub E skr @ ed_sign E skr ?h"
  have "length ?pi = 96" "length ?pr = 96" using E by (simp_all add: ed_ok_def)
  then obtain ci a' cr b' where w: "c_write N a ?pi = Some (ci, a')" "c_write N b ?pr = Some (cr, b')"
    using tot by (metis not_None_eq surj_pair)
  then have rd: "c_read N a ci = Some (?pi, a')" "c_read N b cr = Some (?pr, b')"
    and lc: "length ci \<le> 65535" "length cr \<le> 65535"
    using N(2) unfolding cipher_ok_def by blast+
  let ?ini = "frame16 m1 @ frame16 m3 @ frame16 ci" and ?resp = "frame16 m2 @ frame16 cr"
  let ?ki = "300000 - (length m1 + 2) - (length m3 + 2)" and ?kr = "300000 - (length m2 + 2)"
  have xi: "exchange N True g1 \<lparr>incoming = ?resp, written = [], room = 300000\<rparr> =
      Inr (i3, \<lparr>incoming = frame16 cr, written = frame16 m1 @ frame16 m3, room = ?ki\<rparr>)"
    by (rule exchange_initiator [OF x(1,4,5) l(2)]) (use l in simp)
  have xr: "exchange N False g2 \<lparr>incoming = ?ini, written = [], room = 300000\<rparr> =
      Inr (r3, \<lparr>incoming = frame16 ci, written = frame16 m2, room = ?kr\<rparr>)"
    by (rule exchange_responder [OF x(2,3,6) l(1,3)]) (use l in simp)
  have i: "execute_handshake N E True ski peersi g1 \<lparr>incoming = ?resp, written = [], room = 300000\<rparr> =
      Inr (\<lparr>transport_out = a', transport_in = b', master_secret = n_hash N i3, remote_static_key = ed_pub E skr\<rparr>,
           \<lparr>incoming = [], written = (frame16 m1 @ frame16 m3) @ frame16 ci, room = ?ki - (length ci + 2)\<rparr>)"
  proof (rule finish_handshake [OF xi hs(2) _ _ rd(2) lc(2)])
    show "c_write N a (ed_pub E ski @ ed_sign E ski (n_hash N i3)) = Some (ci, a')" unfolding hs(1) by (rule w(1))
    show "length ci + 2 \<le> ?ki" using l lc by linarith
    show "check_auth E peersi (n_hash N i3) ?pr = Inr (ed_pub E skr)" unfolding hs(1) by (rule check_auth_own [OF E auth(1)])
  qed
  have r: "execute_handshake N E False skr peersr g2 \<lparr>incoming = ?ini, written = [], room = 300000\<rparr> =
      Inr (\<lparr>transport_out = b', transport_in = a', master_secret = ?h, remote_static_key = ed_pub E ski\<rparr>,
           \<lparr>incoming = [], written = frame16 m2 @ frame16 cr, room = ?kr - (length cr + 2)\<rparr>)"
  proof (rule finish_handshake [OF xr hs(3) w(2) _ rd(1) lc(1) check_auth_own [OF E auth(2)]])
    show "length cr + 2 \<le> ?kr" using l lc by linarith
  qed
  have "written \<lparr>incoming = [], written = (frame16 m1 @ frame16 m3) @ frame16 ci, room = ?ki - (length ci + 2)\<rparr> = ?ini" by simp
  with i r hs(1) show ?thesis
    by (intro exI [of _ ?ini] exI [of _ ?resp]) simp
qed

section \<open>What the tunnel guarantees\<close>

text \<open>The frames a list of payloads becomes, starting in a cipher state.\<close>

fun tunnel_bytes :: "noise_lib \<Rightarrow> bytes \<Rightarrow> bytes list \<Rightarrow> bytes option" where
  "tunnel_bytes N s [] = Some []"
| "tunnel_bytes N s (p # ps) =
     (case c_write N s p of
        None \<Rightarrow> None
      | Some (c, s') \<Rightarrow> map_option (\<lambda>bs. frame16 c @ bs) (tunnel_bytes N s' ps))"

lemma outbound_pump_writes:
  assumes "tunnel_bytes N s rs = Some bs" "[] \<notin> set rs" "length bs \<le> room w"
  shows "written (outbound_pump N s rs w) = written w @ bs"
  using assms
proof (induction rs arbitrary: s bs w)
  case (Cons r rs)
  from Cons.prems(1) obtain c s' bs' where c: "c_write N s r = Some (c, s')" "tunnel_bytes N s' rs = Some bs'" "bs = frame16 c @ bs'"
    by (auto split: option.splits prod.splits)
  have "length c + 2 \<le> room w" using c(3) Cons.prems(3) by (simp add: frame16_def)
  moreover have "r \<noteq> []" using Cons.prems(2) by auto
  ultimately show ?case using Cons c by (simp add: write_frame16_room frame16_def)
qed simp

lemma inbound_pump_exact:
  assumes "cipher_ok N" "tunnel_bytes N s ps = Some bs" "incoming w = bs"
  shows "inbound_pump N s w = ps"
  using assms(2,3)
proof (induction ps arbitrary: s bs w)
  case Nil
  then show ?case by (simp add: inbound_pump.simps read_frame16_def)
next
  case (Cons p ps)
  from Cons.prems(1) obtain c s' bs' where c: "c_write N s p = Some (c, s')" "tunnel_bytes N s' ps = Some bs'" "bs = frame16 c @ bs'"
    by (auto split: option.splits prod.splits)
  from c(1) assms(1) have r: "c_read N s c = Some (p, s')" "length c \<le> 65535" unfolding cipher_ok_def by blast+
  have rf: "read_frame16 w = Inr (c, w\<lparr>incoming := bs'\<rparr>)"
    using read_frame16_at [of w c bs'] r(2) c(3) Cons.prems(2) by simp
  from Cons.IH [OF c(2), of "w\<lparr>incoming := bs'\<rparr>"] show ?case
    by (subst inbound_pump.simps) (simp add: rf r(1))
qed

text \<open>Whatever arrives, what the pump hands on was written, in this order, by a holder of the key.\<close>

lemma inbound_pump_authentic:
  "cipher_ok N \<Longrightarrow> \<exists>bs. tunnel_bytes N s (inbound_pump N s w) = Some bs \<and> prefix bs (incoming w)"
proof (induction N s w rule: inbound_pump.induct)
  case (1 N s w)
  show ?case
  proof (cases "read_frame16 w")
    case (Inl e)
    then show ?thesis by (simp add: inbound_pump.simps [of N s w])
  next
    case (Inr x)
    obtain c w' where x: "x = (c, w')" by force
    show ?thesis
    proof (cases "c_read N s c")
      case None
      then show ?thesis by (simp add: inbound_pump.simps [of N s w] Inr x)
    next
      case (Some y)
      obtain p s' where y: "y = (p, s')" by force
      from "1.IH" [OF Inr x [symmetric] Some y [symmetric] "1.prems"] obtain bs where bs: "tunnel_bytes N s' (inbound_pump N s' w') = Some bs" "prefix bs (incoming w')"
        by blast
      have w: "incoming w = frame16 c @ incoming w'" using read_frame16_Inr Inr x by (simp add: frame16_def)
      have "inbound_pump N s w = p # inbound_pump N s' w'" by (simp add: inbound_pump.simps [of N s w] Inr x Some y)
      moreover have "c_write N s p = Some (c, s')" using Some y "1.prems" unfolding cipher_ok_def by blast
      ultimately show ?thesis using bs w by (intro exI [of _ "frame16 c @ bs"]) simp
    qed
  qed
qed

section \<open>Requests for streams\<close>

fun polls ::
    "('r list \<times> (string + bytes) list \<times> bytes list) list \<Rightarrow> 'r Mux \<Rightarrow> 'r Mux \<times> ('r \<times> (string + bytes)) list" where
  "polls [] m = (m, [])"
| "polls ((rs, as, ins) # ps) m =
     (let (m1, sent) = poll_mux rs as ins m; (m2, sent') = polls ps m1 in (m2, sent @ sent'))"

lemma answer_opens_fifo:
  "answer_opens rs as = (left, sent) \<Longrightarrow>
     map fst sent @ left = rs \<and> map snd sent = take (length rs) as \<and> (left = [] \<or> length sent = length as)"
  by (induction rs as arbitrary: left sent rule: answer_opens.induct) (auto simp: Let_def split: prod.splits)

lemma try_send_bound: "length q \<le> INBOUND_CAPACITY \<Longrightarrow> length (fold try_send xs q) \<le> INBOUND_CAPACITY"
  by (induction xs arbitrary: q) (auto simp: try_send_def)

lemma try_send_fits: "length q + length xs \<le> INBOUND_CAPACITY \<Longrightarrow> fold try_send xs q = q @ xs"
  by (induction xs arbitrary: q) (auto simp: try_send_def)

text \<open>Requests are answered once each and in order; those not answered yet are still queued.\<close>

lemma polls_fifo:
  assumes "polls ps m = (m', sent)"
  shows "map fst sent @ pending_opens m' = pending_opens m @ concat (map fst ps)"
  using assms
proof (induction ps arbitrary: m m' sent)
  case (Cons p ps)
  obtain rs as ins where p: "p = (rs, as, ins)" by (metis prod_cases3)
  obtain m1 s1 where m1: "poll_mux rs as ins m = (m1, s1)" by force
  obtain m2 s2 where m2: "polls ps m1 = (m2, s2)" by force
  from m1 have "map fst s1 @ pending_opens m1 = pending_opens m @ rs"
    using answer_opens_fifo [of "pending_opens m @ rs" as] by (auto simp: poll_mux_def Let_def split: prod.splits)
  moreover from Cons.IH [OF m2] have "map fst s2 @ pending_opens m2 = pending_opens m1 @ concat (map fst ps)" .
  moreover from Cons.prems have "sent = s1 @ s2" "m' = m2" by (simp_all add: p m1 m2)
  ultimately show ?case using p by (metis append.assoc concat.simps(2) fst_conv list.simps(9) map_append)
qed simp

end
