(* ===== verification/Friends.thy ===== *)
theory Friends
  imports Config DailyAddress NoiseTunnel Paths
begin

text \<open>
  The address book and the sharing of whole vaults between friends: \<open>atom://\<close> links and the book on
  disk (\<open>atom/src/commands/p2p_utils.rs\<close>), adding a friend (\<open>friend.rs\<close>), the identity, the link
  and the inbound side of the daemon (\<open>daemon.rs\<close>), the outbound side (\<open>sync.rs\<close>) and showing the
  link (\<open>id.rs\<close>). \<open>serde_json\<close> is the parameter \<open>json_lib\<close>.
\<close>

section \<open>Links\<close>

datatype AtomUriError =
    InvalidPrefix | InvalidFormat | InvalidOnionLength | InvalidKeyLength
  | Base32DecodeError | InvalidEd25519Key | PanickedKeyCopy

definition split_once :: "char \<Rightarrow> string \<Rightarrow> (string \<times> string) option" where
  "split_once d s =
     (if d \<in> set s then Some (takeWhile (\<lambda>c. c \<noteq> d) s, tl (dropWhile (\<lambda>c. c \<noteq> d) s)) else None)"

definition parse_atom_uri :: "key_lib \<Rightarrow> ed_lib \<Rightarrow> string \<Rightarrow> AtomUriError + string \<times> bytes" where
  "parse_atom_uri K E onion_url =
     bindE (ok_or InvalidPrefix (strip_prefix ''atom://'' onion_url)) (\<lambda>stripped.
     bindE (ok_or InvalidFormat (split_once (CHR ''/'') stripped)) (\<lambda>(onion_address, pubkey_b32).
     bindE (guardE (length onion_address = 62 \<and> strip_suffix ''.onion'' onion_address \<noteq> None) InvalidOnionLength) (\<lambda>_.
     bindE (guardE (length pubkey_b32 = 52) InvalidKeyLength) (\<lambda>_.
     bindE (ok_or Base32DecodeError (b32_decode K (to_uppercase pubkey_b32))) (\<lambda>decoded.
     bindE (guardE (length decoded = 32) PanickedKeyCopy) (\<lambda>_.
     bindE (guardE (ed_valid E decoded) InvalidEd25519Key) (\<lambda>_.
       Inr (onion_address, decoded))))))))"

text \<open>The link the daemon computes from the onion service's key and the identity's public key.\<close>

definition daemon_link :: "key_lib \<Rightarrow> (bytes \<Rightarrow> bytes) \<Rightarrow> bytes \<Rightarrow> bytes \<Rightarrow> string" where
  "daemon_link K sha3 onion_key identity_pub =
     ''atom://'' @ format_onion_address K sha3 onion_key @ ''/'' @ to_lowercase (b32_encode K identity_pub)"

section \<open>The address book\<close>

record SharedVault =
  original_name :: string
  label :: string
  local_path :: string
  last_modified :: u64

record FriendRecord =
  nickname :: string
  url :: string
  shared_vaults :: "SharedVault list"
  last_seen :: "u64 option"

datatype ShareMessage = Proposal string u64 | Accept string | Reject

record json_lib =
  friends_to_json :: "FriendRecord list \<Rightarrow> string"
  friends_from_json :: "string \<Rightarrow> FriendRecord list option"
  msg_to_json :: "ShareMessage \<Rightarrow> string"
  msg_from_json :: "string \<Rightarrow> ShareMessage option"

text \<open>JSON reads back, is UTF-8, and a message is one line that may end in a newline.\<close>

definition json_ok :: "json_lib \<Rightarrow> bool" where
  "json_ok J \<longleftrightarrow>
     (\<forall>fs. friends_from_json J (friends_to_json J fs) = Some fs \<and> utf8_valid (str_bytes (friends_to_json J fs))) \<and>
     (\<forall>m. msg_from_json J (msg_to_json J m @ [CHR 0x0A]) = Some m \<and> CHR 0x0A \<notin> set (msg_to_json J m) \<and>
          utf8_valid (str_bytes (msg_to_json J m @ [CHR 0x0A])))"

record Home =
  has_home :: bool
  cfg_key :: "bytes option"
  friends_json :: "bytes option"
  onion_txt :: "bytes option"
  identity_key :: "bytes option"
  home_io :: WriteIO

definition load_friends :: "crypto_lib \<Rightarrow> json_lib \<Rightarrow> Home \<Rightarrow> string + FriendRecord list" where
  "load_friends C J h =
     bindE (guardE (has_home h) ''panicked: Could not find home directory'') (\<lambda>_.
     bindE (load_json C (cfg_key h) (friends_from_json J) (friends_json h)) (\<lambda>r.
       Inr (case r of None \<Rightarrow> [] | Some fs \<Rightarrow> fs)))"

definition save_friends :: "crypto_lib \<Rightarrow> json_lib \<Rightarrow> FriendRecord list \<Rightarrow> rng \<Rightarrow> Home \<Rightarrow> string + Home" where
  "save_friends C J fs g h =
     bindE (guardE (has_home h) ''panicked: Could not find home directory'') (\<lambda>_.
     bindE (save_json C (cfg_key h) (friends_to_json J) fs g (home_io h) (friends_json h)) (\<lambda>(new, _).
       Inr (h\<lparr>friends_json := new\<rparr>)))"

definition update_friend_last_seen :: "crypto_lib \<Rightarrow> json_lib \<Rightarrow> string \<Rightarrow> u64 \<Rightarrow> rng \<Rightarrow> Home \<Rightarrow> string + Home" where
  "update_friend_last_seen C J nick now g h =
     bindE (load_friends C J h) (\<lambda>fs.
       case update_first (\<lambda>f. nickname f = nick) (\<lambda>f. f\<lparr>last_seen := Some now\<rparr>) fs of
         None \<Rightarrow> Inr h
       | Some fs' \<Rightarrow> save_friends C J fs' g h)"

section \<open>Adding a friend\<close>

text \<open>\<open>onion.txt\<close> is read as it is, without decryption.\<close>

definition own_key_in_file :: "key_lib \<Rightarrow> ed_lib \<Rightarrow> Home \<Rightarrow> bytes option" where
  "own_key_in_file K E h =
     Option.bind (Option.bind (onion_txt h) from_utf8) (\<lambda>s.
       case parse_atom_uri K E (trim s) of Inl _ \<Rightarrow> None | Inr (_, k) \<Rightarrow> Some k)"

definition has_key :: "key_lib \<Rightarrow> ed_lib \<Rightarrow> bytes \<Rightarrow> FriendRecord \<Rightarrow> bool" where
  "has_key K E k f = (case parse_atom_uri K E (url f) of Inl _ \<Rightarrow> False | Inr (_, k') \<Rightarrow> k' = k)"

definition new_friend :: "string \<Rightarrow> string \<Rightarrow> FriendRecord" where
  "new_friend u nick = \<lparr>nickname = nick, url = u, shared_vaults = [], last_seen = None\<rparr>"

text \<open>The decision on the loaded book: the new book, or the error.\<close>

definition add_friend_book ::
    "key_lib \<Rightarrow> ed_lib \<Rightarrow> string \<Rightarrow> string \<Rightarrow> bytes \<Rightarrow> FriendRecord list \<Rightarrow> string + FriendRecord list" where
  "add_friend_book K E u nick new_pubkey fs =
     bindE (case List.find (has_key K E new_pubkey) fs of
              Some f \<Rightarrow> guardE (nickname f = nick) ''This identity is already saved under another nickname''
            | None \<Rightarrow> Inr ()) (\<lambda>_.
     case List.find (\<lambda>f. nickname f = nick) fs of
       Some f \<Rightarrow>
         bindE (map_err (\<lambda>_. ''invalid stored link'') (parse_atom_uri K E (url f))) (\<lambda>(_, existing_pubkey).
         bindE (guardE (existing_pubkey = new_pubkey) ''SECURITY ALERT: DIFFERENT identity key'') (\<lambda>_.
           Inr (case update_first (\<lambda>f. nickname f = nick) (\<lambda>f. f\<lparr>url := u\<rparr>) fs of Some fs' \<Rightarrow> fs' | None \<Rightarrow> fs)))
     | None \<Rightarrow> Inr (fs @ [new_friend u nick]))"

definition add_friend_core ::
    "crypto_lib \<Rightarrow> key_lib \<Rightarrow> ed_lib \<Rightarrow> json_lib \<Rightarrow> string \<Rightarrow> string \<Rightarrow> rng \<Rightarrow> Home \<Rightarrow> string + Home" where
  "add_friend_core C K E J u nick g h =
     bindE (map_err (\<lambda>_. ''Invalid atom:// link'') (parse_atom_uri K E u)) (\<lambda>(_, new_pubkey).
     bindE (guardE (has_home h) ''System error: Could not determine user home directory.'') (\<lambda>_.
     bindE (guardE (own_key_in_file K E h \<noteq> Some new_pubkey) ''You cannot add your own identity as a friend.'') (\<lambda>_.
     bindE (load_friends C J h) (\<lambda>fs.
     bindE (add_friend_book K E u nick new_pubkey fs) (\<lambda>fs'.
       save_friends C J fs' g h)))))"

section \<open>The identity\<close>

definition get_or_create_identity :: "crypto_lib \<Rightarrow> rng \<Rightarrow> Home \<Rightarrow> string + bytes \<times> Home" where
  "get_or_create_identity C g h =
     bindE (guardE (has_home h) ''Could not find home directory'') (\<lambda>_.
     bindE (case identity_key h of
              None \<Rightarrow> Inr None
            | Some raw \<Rightarrow> bindE (decrypt_config C (cfg_key h) raw) (\<lambda>bs. Inr (if length bs = 32 then Some bs else None))) (\<lambda>stored.
     case stored of
       Some k \<Rightarrow> Inr (k, h)
     | None \<Rightarrow>
         let (new_key, g') = draw 32 g in
         bindE (encrypt_config C (cfg_key h) new_key g') (\<lambda>(encrypted, _).
         bindE (guardE (open_ok (home_io h) \<and> write_cut (home_io h) = None) ''could not write identity.key'') (\<lambda>_.
           Inr (new_key, h\<lparr>identity_key := Some encrypted\<rparr>)))))"

text \<open>The daemon publishes its link in \<open>onion.txt\<close>, encrypted; a write that fails is ignored.\<close>

definition publish_link :: "crypto_lib \<Rightarrow> string \<Rightarrow> rng \<Rightarrow> Home \<Rightarrow> string + Home" where
  "publish_link C link g h =
     (if open_ok (home_io h) then
        bindE (encrypt_config C (cfg_key h) (str_bytes link) g) (\<lambda>(encrypted, _).
          Inr (h\<lparr>onion_txt := write_file (home_io h) encrypted (onion_txt h)\<rparr>))
      else Inr h)"

definition get_id_string :: "crypto_lib \<Rightarrow> Home \<Rightarrow> string + string" where
  "get_id_string C h =
     bindE (guardE (has_home h) ''Could not find home directory'') (\<lambda>_.
     bindE (ok_or ''Identity not generated yet'' (onion_txt h)) (\<lambda>raw.
     bindE (decrypt_config C (cfg_key h) raw) (\<lambda>d.
     bindE (ok_or ''not UTF-8'' (from_utf8 d)) (\<lambda>s. Inr (trim s)))))"

text \<open>The line \<open>handle_id\<close> shows.\<close>

definition shown_link :: "string \<Rightarrow> string" where
  "shown_link onion = ''atom://'' @ onion"

section \<open>Inbound: the daemon\<close>

definition key_of :: "key_lib \<Rightarrow> ed_lib \<Rightarrow> FriendRecord \<Rightarrow> bytes option" where
  "key_of K E f = (case parse_atom_uri K E (url f) of Inl _ \<Rightarrow> None | Inr (_, k) \<Rightarrow> Some k)"

definition authorized_keys :: "key_lib \<Rightarrow> ed_lib \<Rightarrow> FriendRecord list \<Rightarrow> bytes list" where
  "authorized_keys K E fs = List.map_filter (key_of K E) fs"

definition connected_nick :: "key_lib \<Rightarrow> ed_lib \<Rightarrow> bytes \<Rightarrow> FriendRecord list \<Rightarrow> string" where
  "connected_nick K E key fs = (case List.find (has_key K E key) fs of Some f \<Rightarrow> nickname f | None \<Rightarrow> ''Unknown'')"

definition admit_peer ::
    "crypto_lib \<Rightarrow> key_lib \<Rightarrow> noise_lib \<Rightarrow> ed_lib \<Rightarrow> json_lib \<Rightarrow> bytes \<Rightarrow> rng \<Rightarrow> Home \<Rightarrow> Pipe \<Rightarrow>
     string + string \<times> VaultSession \<times> Pipe" where
  "admit_peer C K N E J my_identity g h w =
     bindE (load_friends C J h) (\<lambda>fs.
     bindE (execute_handshake N E False my_identity (authorized_keys K E fs) g w) (\<lambda>(session, w').
       Inr (connected_nick K E (remote_static_key session) fs, session, w')))"

record SyncResponse =
  resp_accepted :: bool
  resp_label :: "string option"
  resp_path :: "string option"

text \<open>
  Without a window the user is asked on the terminal: three answers, each a line. The suggested path ends
  in the name the sender proposed, as it was sent.
\<close>

definition ask_user_cli :: "string \<Rightarrow> string \<Rightarrow> string \<Rightarrow> string \<Rightarrow> string \<Rightarrow> string \<Rightarrow> SyncResponse" where
  "ask_user_cli home_path sender_nick filename ans label_ans path_ans =
     (if to_lowercase (trim ans) = ''y'' \<or> trim ans = [] then
        let default_path = home_path @ ''/Downloads/'' @ sender_nick @ ''/'' @ filename
        in \<lparr>resp_accepted = True, resp_label = Some (trim label_ans),
            resp_path = Some (if trim path_ans = [] then default_path else trim path_ans)\<rparr>
      else \<lparr>resp_accepted = False, resp_label = None, resp_path = None\<rparr>)"

definition known_vault :: "string \<Rightarrow> string \<Rightarrow> FriendRecord list \<Rightarrow> SharedVault option" where
  "known_vault nick filename fs =
     Option.bind (List.find (\<lambda>f. nickname f = nick) fs) (\<lambda>f.
       List.find (\<lambda>v. original_name v = filename) (shared_vaults f))"

text \<open>
  A proposal: whether it is accepted and where the file goes, with the book to save, if any. The user is
  asked about a vault that is not in the book.
\<close>

definition decide_proposal ::
    "string \<Rightarrow> string \<Rightarrow> u64 \<Rightarrow> SyncResponse \<Rightarrow> FriendRecord list \<Rightarrow> (bool \<times> string) \<times> FriendRecord list option" where
  "decide_proposal nick filename modified user fs =
     (case known_vault nick filename fs of
        Some v \<Rightarrow> ((True, local_path v), None)
      | None \<Rightarrow>
          if resp_accepted user then
            let path = (case resp_path user of None \<Rightarrow> [] | Some p \<Rightarrow> p);
                v = \<lparr>original_name = filename, label = (case resp_label user of None \<Rightarrow> ''Synced Vault'' | Some l \<Rightarrow> l),
                     local_path = path, last_modified = modified\<rparr>
            in ((True, path),
                Some (case update_first (\<lambda>f. nickname f = nick) (\<lambda>f. f\<lparr>shared_vaults := shared_vaults f @ [v]\<rparr>) fs of
                        Some fs' \<Rightarrow> fs' | None \<Rightarrow> fs))
          else ((False, []), None))"

text \<open>
  What the connection and the disk do while a vault is received: the reply is sent or not, the
  destination can be created or not, and the copy may stop after some bytes.
\<close>

record ReceiveIO =
  reply_ok :: bool
  create_ok :: bool
  copy_cut :: "nat option"

text \<open>\<open>read_line\<close>: up to and including a newline, or to the end; not UTF-8 is an error.\<close>

definition read_line :: "bytes \<Rightarrow> (string \<times> bytes) option" where
  "read_line bs =
     (let n = length (takeWhile (\<lambda>b. b \<noteq> 0x0A) bs)
      in map_option (\<lambda>s. (s, drop (Suc n) bs)) (from_utf8 (take (Suc n) bs)))"

text \<open>
  \<open>d\<close> holds the received files by the path they are saved under. The directories above a path are made first
  (\<open>create_dir_all\<close>, whose failure is ignored and shows as a file that cannot be created), which \<open>create_ok\<close>
  stands for. It is a store of its own: a save path that names a file of \<open>~/.atom_vault\<close> has no effect on the
  address book here.
\<close>

definition receive_vault ::
    "ReceiveIO \<Rightarrow> bool \<Rightarrow> string \<Rightarrow> bytes \<Rightarrow> (string \<rightharpoonup> bytes) \<Rightarrow> (string \<rightharpoonup> bytes) \<times> ShareMessage option" where
  "receive_vault rio acc path payload d =
     (if acc \<and> path \<noteq> [] then
        if \<not> reply_ok rio then (d, None)
        else (if create_ok rio then d(path \<mapsto> (case copy_cut rio of None \<Rightarrow> payload | Some k \<Rightarrow> take k payload)) else d,
              Some (Accept ''pull_from_you''))
      else (d, if reply_ok rio then Some Reject else None))"

definition daemon_stream ::
    "crypto_lib \<Rightarrow> json_lib \<Rightarrow> string \<Rightarrow> SyncResponse \<Rightarrow> ReceiveIO \<Rightarrow> rng \<Rightarrow> bytes \<Rightarrow>
     Home \<Rightarrow> (string \<rightharpoonup> bytes) \<Rightarrow> string + Home \<times> (string \<rightharpoonup> bytes) \<times> ShareMessage option" where
  "daemon_stream C J nick user rio g input h d =
     (case Option.bind (read_line input) (\<lambda>(l, rest). map_option (\<lambda>m. (m, rest)) (msg_from_json J l)) of
        Some (Proposal filename modified, payload) \<Rightarrow>
          bindE (load_friends C J h) (\<lambda>fs.
          let ((acc, path), book) = decide_proposal nick filename modified user fs in
          bindE (case book of None \<Rightarrow> Inr h | Some fs' \<Rightarrow> save_friends C J fs' g h) (\<lambda>h'.
            Inr (h', receive_vault rio acc path payload d)))
      | _ \<Rightarrow> Inr (h, d, None))"

section \<open>Outbound: sharing a vault\<close>

text \<open>
  \<open>connect\<close> dials a friend's address with our identity and the friend's key; \<open>vault\<close> is the file at
  the path with its time of modification; \<open>reply\<close> is the line the friend answers. The result is what
  goes out on the stream.
\<close>

definition share_stream :: "json_lib \<Rightarrow> string \<Rightarrow> u64 \<Rightarrow> bytes \<Rightarrow> string \<Rightarrow> bytes" where
  "share_stream J filename modified vault reply =
     str_bytes (msg_to_json J (Proposal filename modified) @ [CHR 0x0A]) @
     (case msg_from_json J reply of Some (Accept _) \<Rightarrow> vault | _ \<Rightarrow> [])"

definition sync_core ::
    "crypto_lib \<Rightarrow> key_lib \<Rightarrow> ed_lib \<Rightarrow> json_lib \<Rightarrow> (bytes \<Rightarrow> string \<Rightarrow> bytes \<Rightarrow> bool) \<Rightarrow> string \<Rightarrow> (bytes \<times> u64) option \<Rightarrow>
     string \<Rightarrow> string option \<Rightarrow> rng \<Rightarrow> Home \<Rightarrow> string + bytes \<times> Home" where
  "sync_core C K E J connect vault_path vault friend_nickname reply g h =
     bindE (load_friends C J h) (\<lambda>fs.
     bindE (ok_or ''Friend not found in address book.'' (List.find (\<lambda>f. nickname f = friend_nickname) fs)) (\<lambda>friend.
     bindE (map_err (\<lambda>_. ''invalid link'') (parse_atom_uri K E (url friend))) (\<lambda>(onion_address, friend_pubkey).
     bindE (get_or_create_identity C g h) (\<lambda>(my_identity, h').
     bindE (ok_or ''vault file'' vault) (\<lambda>(bytes, modified).
     bindE (ok_or ''panicked: no file name'' (file_name vault_path)) (\<lambda>filename.
     bindE (guardE (connect my_identity onion_address friend_pubkey) ''Network connection failed'') (\<lambda>_.
     bindE (ok_or ''stream'' reply) (\<lambda>line.
       Inr (share_stream J filename modified bytes line, h')))))))))"

section \<open>Links are read back\<close>

text \<open>Unpadded base32 spends a character on every started group of five bits.\<close>

definition b32_len :: "key_lib \<Rightarrow> bool" where
  "b32_len K \<longleftrightarrow> (\<forall>bs. length (b32_encode K bs) = (8 * length bs + 4) div 5)"

lemma b32_lower_noslash: "b32_char c \<Longrightarrow> to_lower c \<noteq> CHR ''/''"
proof
  assume "b32_char c" "to_lower c = CHR ''/''"
  then have "of_char (to_lower c) = (47 :: nat)" by simp
  with \<open>b32_char c\<close> show False by (auto simp: b32_char_def to_lower_def Let_def split: if_splits)
qed

lemma b32_text_noslash: "b32_ok K \<Longrightarrow> CHR ''/'' \<notin> set (to_lowercase (b32_encode K bs))"
proof
  assume "b32_ok K" "CHR ''/'' \<in> set (to_lowercase (b32_encode K bs))"
  then obtain c where "c \<in> set (b32_encode K bs)" "to_lower c = CHR ''/''" by (auto simp: to_lowercase_def)
  moreover have "list_all b32_char (b32_encode K bs)" using \<open>b32_ok K\<close> by (simp add: b32_ok_def)
  ultimately show False using b32_lower_noslash by (auto simp: list_all_iff)
qed

lemma split_once_at: "d \<notin> set a \<Longrightarrow> split_once d (a @ d # b) = Some (a, b)"
proof -
  assume "d \<notin> set a"
  then have "takeWhile (\<lambda>c. c \<noteq> d) (a @ d # b) = a" "dropWhile (\<lambda>c. c \<noteq> d) (a @ d # b) = d # b" by (induction a) auto
  then show ?thesis by (simp add: split_once_def)
qed

lemma strip_suffix_append [simp]: "strip_suffix p (s @ p) = Some s"
  by (simp add: strip_suffix_Some)

lemma parse_daemon_link:
  assumes "b32_ok K" "b32_len K" "length onion_key = 32" "length pub = 32" "ed_valid E pub"
    and "2 \<le> length (sha3 (str_bytes ''.onion checksum'' @ onion_key @ [3]))"
  shows "parse_atom_uri K E (daemon_link K sha3 onion_key pub) = Inr (format_onion_address K sha3 onion_key, pub)"
proof -
  let ?o = "format_onion_address K sha3 onion_key" and ?k = "to_lowercase (b32_encode K pub)"
  have noslash: "CHR ''/'' \<notin> set ?o" using b32_text_noslash [OF assms(1)] by (simp add: format_onion_address_def Let_def)
  have "length ?o = 62" "length ?k = 52" "strip_suffix ''.onion'' ?o \<noteq> None"
    using assms by (simp_all add: format_onion_address_def Let_def b32_len_def)
  moreover have "b32_decode K (to_uppercase ?k) = Some pub"
    using assms(1) b32_upper_lower by (simp add: b32_ok_def)
  moreover have "strip_prefix ''atom://'' (daemon_link K sha3 onion_key pub) = Some (?o @ CHR ''/'' # ?k)"
    unfolding daemon_link_def by (subst strip_prefix_append) simp
  ultimately show ?thesis
    using split_once_at [OF noslash, of ?k] assms(4,5) by (simp add: parse_atom_uri_def)
qed

text \<open>
  Where upper-casing keeps the length, as it does for ASCII text, a key text of 52 characters decodes to 32
  bytes, so the copy does not panic.
\<close>

lemma parse_atom_uri_no_panic:
  assumes "b32_ok K" "b32_len K"
  shows "parse_atom_uri K E u \<noteq> Inl PanickedKeyCopy"
proof
  assume "parse_atom_uri K E u = Inl PanickedKeyCopy"
  then obtain b decoded where d: "length b = 52" "b32_decode K (to_uppercase b) = Some decoded" "length decoded \<noteq> 32"
    by (auto simp: parse_atom_uri_def bindE_eq_Inl guardE_def ok_or_eq_Inr split: if_splits elim!: ok_or.elims)
  then have "b32_encode K decoded = to_uppercase b" using assms(1) by (simp add: b32_ok_def)
  moreover have "length (to_uppercase b) = 52" using d(1) by (simp add: to_uppercase_def)
  ultimately have "(8 * length decoded + 4) div 5 = 52" using assms(2) unfolding b32_len_def by metis
  with d(3) show False by presburger
qed

text \<open>What \<open>id\<close> prints is not a link: the scheme is there twice.\<close>

lemma shown_link_refused: "parse_atom_uri K E (shown_link (daemon_link K sha3 onion_key pub)) = Inl InvalidOnionLength"
proof -
  have "split_once (CHR ''/'') (''atom:'' @ CHR ''/'' # x) = Some (''atom:'', x)" for x by (rule split_once_at) simp
  then show ?thesis
    by (simp add: shown_link_def daemon_link_def parse_atom_uri_def strip_prefix_def)
qed

section \<open>The book stays a book\<close>

definition book_ok :: "key_lib \<Rightarrow> ed_lib \<Rightarrow> FriendRecord list \<Rightarrow> bool" where
  "book_ok K E fs \<longleftrightarrow>
     distinct (map nickname fs) \<and> distinct (map (key_of K E) fs) \<and> (\<forall>f \<in> set fs. key_of K E f \<noteq> None)"

definition friend_key :: "key_lib \<Rightarrow> ed_lib \<Rightarrow> string \<Rightarrow> FriendRecord list \<Rightarrow> bytes option" where
  "friend_key K E nick fs = Option.bind (List.find (\<lambda>f. nickname f = nick) fs) (key_of K E)"

lemma has_key_iff: "has_key K E k f \<longleftrightarrow> key_of K E f = Some k"
  by (auto simp: has_key_def key_of_def split: sum.splits)

lemma find_nick_mem:
  assumes "List.find (\<lambda>f. nickname f = nick) fs = Some f"
  shows "f \<in> set fs" "nickname f = nick"
  using assms by (auto simp: find_Some_iff)

lemma add_friend_book_ok:
  assumes ok: "book_ok K E fs" and u: "parse_atom_uri K E u = Inr (o', k)"
    and add: "add_friend_book K E u nick k fs = Inr fs'"
  shows "book_ok K E fs' \<and> friend_key K E nick fs' = Some k \<and>
    (\<forall>n. n \<noteq> nick \<longrightarrow> List.find (\<lambda>f. nickname f = n) fs' = List.find (\<lambda>f. nickname f = n) fs) \<and>
    (friend_key K E nick fs = None \<or> friend_key K E nick fs = Some k)"
proof (cases "List.find (\<lambda>f. nickname f = nick) fs")
  case None
  with add have fs': "fs' = fs @ [new_friend u nick]"
    and nokey: "List.find (has_key K E k) fs = None \<or> (\<exists>f. List.find (has_key K E k) fs = Some f \<and> nickname f = nick)"
    by (auto simp: add_friend_book_def result_simps split: option.splits)
  have nonick: "nick \<notin> nickname ` set fs" using None by (auto simp: find_None_iff)
  then have "List.find (has_key K E k) fs = None" using nokey by (auto simp: find_Some_iff)
  then have "Some k \<notin> key_of K E ` set fs" by (auto simp: find_None_iff has_key_iff)
  moreover have "key_of K E (new_friend u nick) = Some k" using u by (simp add: key_of_def new_friend_def)
  ultimately show ?thesis using ok nonick None
    by (simp add: fs' book_ok_def friend_key_def find_append new_friend_def split: option.split)
next
  case (Some f)
  let ?P = "\<lambda>f. nickname f = nick" and ?up = "\<lambda>f. f\<lparr>url := u\<rparr>"
  obtain fs1 where up: "update_first ?P ?up fs = Some fs1"
    using Some update_first_None [of ?P ?up fs] by fastforce
  from add Some have fs': "fs' = fs1" and same: "key_of K E f = Some k"
    by (auto simp: add_friend_book_def result_simps key_of_def up)
  have kf: "key_of K E (?up f) = Some k" for f using u by (simp add: key_of_def)
  have keys: "map (key_of K E) fs1 = map (key_of K E) fs"
  proof -
    have "map (key_of K E) ys = map (key_of K E) xs"
      if "update_first ?P ?up xs = Some ys" "List.find ?P xs = Some f" for xs ys
      using that by (induction xs arbitrary: ys) (auto simp: kf same split: if_splits)
    with up Some show ?thesis by blast
  qed
  have nicks: "map nickname fs1 = map nickname fs" by (rule map_update_first [OF up]) simp
  have "List.find ?P fs1 = Some (?up f)" using find_update_first [OF up] Some by simp
  moreover have "List.find (\<lambda>f. nickname f = n) fs1 = List.find (\<lambda>f. nickname f = n) fs" if "n \<noteq> nick" for n
    by (rule find_update_other [OF up]) (use that in simp)
  moreover have "book_ok K E fs1"
    using ok keys nicks unfolding book_ok_def by (metis (no_types, lifting) image_set imageE imageI)
  ultimately show ?thesis using fs' Some same kf by (simp add: friend_key_def)
qed

lemma load_saved_friends:
  assumes "aead_ok C" "json_ok J" "save_friends C J fs g h = Inr h'" "open_ok (home_io h)" "write_cut (home_io h) = None"
  shows "load_friends C J h' = Inr fs"
proof -
  from assms(3) obtain new g' where n: "has_home h" "save_json C (cfg_key h) (friends_to_json J) fs g (home_io h) (friends_json h) = Inr (new, g')"
    "h' = h\<lparr>friends_json := new\<rparr>"
    by (auto simp: save_friends_def result_simps)
  have "load_json C (cfg_key h) (friends_from_json J) new = Inr (Some fs)"
    by (rule load_save_json [OF assms(1) n(2) assms(4,5)]) (use assms(2) in \<open>simp_all add: json_ok_def\<close>)
  with n show ?thesis by (simp add: load_friends_def)
qed

text \<open>The published link is encrypted, so the check against one's own key finds no key to compare.\<close>

lemma trim_first: "\<not> is_whitespace c \<Longrightarrow> \<exists>r. trim (c # s) = c # r"
proof -
  assume c: "\<not> is_whitespace c"
  have "\<exists>r. dropWhile is_whitespace (xs @ [c]) = r @ [c]" for xs
    using c by (induction xs) auto
  then obtain r where "dropWhile is_whitespace (rev s @ [c]) = r @ [c]" by blast
  with c show ?thesis by (simp add: trim_def)
qed

lemma own_key_check_is_dead:
  assumes "publish_link C link g h = Inr h'" "open_ok (home_io h)" "write_cut (home_io h) = None"
  shows "own_key_in_file K E h' = None"
proof -
  from assms obtain data g' where d: "encrypt_config C (cfg_key h) (str_bytes link) g = Inr (data, g')" "onion_txt h' = Some data"
    by (auto simp: publish_link_def result_simps write_file_def)
  obtain nonce g1 where "draw 24 g = (nonce, g1)" by fastforce
  with d(1) obtain rest where "data = MAGIC @ rest" by (auto simp: encrypt_config_def result_simps)
  then obtain r where r: "data = 0x41 # r" by (simp add: MAGIC_def str_bytes_def)
  have "strip_prefix ''atom://'' (trim (CHR ''A'' # s)) = None" for s
    using trim_first [of "CHR ''A''" s] by (auto simp: strip_prefix_def is_whitespace_def)
  moreover have "bytes_str (0x41 # r) = CHR ''A'' # bytes_str r" by (simp add: bytes_str_def char_of_def bit_Suc_0_iff)
  ultimately show ?thesis using d(2) r
    by (auto simp: own_key_in_file_def from_utf8_def parse_atom_uri_def)
qed

section \<open>Only friends are admitted\<close>

lemma authorized_keys_iff: "k \<in> set (authorized_keys K E fs) \<longleftrightarrow> (\<exists>f \<in> set fs. key_of K E f = Some k)"
  by (force simp: authorized_keys_def List.map_filter_def image_iff)

lemma connected_nick_friend:
  assumes "k \<in> set (authorized_keys K E fs)"
  shows "\<exists>f \<in> set fs. nickname f = connected_nick K E k fs \<and> key_of K E f = Some k"
proof -
  from assms obtain f where "f \<in> set fs" "has_key K E k f" by (auto simp: authorized_keys_iff has_key_iff)
  then obtain f' where "List.find (has_key K E k) fs = Some f'" by (metis find_None_iff not_None_eq)
  moreover from this have "f' \<in> set fs" "has_key K E k f'" by (auto simp: find_Some_iff)
  ultimately show ?thesis by (auto simp: connected_nick_def has_key_iff)
qed

section \<open>A shared vault arrives\<close>

lemma read_line_first:
  assumes "CHR 0x0A \<notin> set l" "utf8_valid (str_bytes (l @ [CHR 0x0A]))"
  shows "read_line (str_bytes (l @ [CHR 0x0A]) @ rest) = Some (l @ [CHR 0x0A], rest)"
proof -
  have "b \<noteq> 0x0A" if "b \<in> set (str_bytes l)" for b
  proof
    assume "b = 0x0A"
    with that obtain c where c: "c \<in> set l" "of_char c = (0x0A :: byte)" by (auto simp: str_bytes_def)
    then have "str_bytes [c] = str_bytes [CHR 0x0A]" by (simp add: str_bytes_def)
    then have "c = CHR 0x0A" using str_bytes_inj by blast
    with c(1) assms(1) show False by simp
  qed
  then have "takeWhile (\<lambda>b. b \<noteq> 0x0A) (str_bytes l @ 0x0A # rest) = str_bytes l" by (simp add: takeWhile_append2)
  moreover have "str_bytes (l @ [CHR 0x0A]) = str_bytes l @ [0x0A]" by (simp add: str_bytes_def)
  ultimately show ?thesis using assms(2) bytes_str_str_bytes [of "l @ [CHR 0x0A]"]
    by (simp add: read_line_def Let_def from_utf8_def)
qed

lemma daemon_receives:
  assumes "json_ok J" "load_friends C J h = Inr fs" "decide_proposal nick filename modified user fs = ((True, path), book)" "path \<noteq> []"
    and "(case book of None \<Rightarrow> Inr h | Some fs' \<Rightarrow> save_friends C J fs' g h) = Inr h'"
    and "reply_ok rio" "create_ok rio" "copy_cut rio = None"
    and "msg_from_json J reply = Some (Accept a)"
  shows "daemon_stream C J nick user rio g (share_stream J filename modified vault reply) h d =
    Inr (h', d(path \<mapsto> vault), Some (Accept ''pull_from_you''))"
proof -
  let ?m = "Proposal filename modified"
  have "read_line (str_bytes (msg_to_json J ?m @ [CHR 0x0A]) @ vault) = Some (msg_to_json J ?m @ [CHR 0x0A], vault)"
    using assms(1) by (intro read_line_first) (simp_all add: json_ok_def)
  moreover have "msg_from_json J (msg_to_json J ?m @ [CHR 0x0A]) = Some ?m" using assms(1) by (simp add: json_ok_def)
  moreover have "receive_vault rio True path vault d = (d(path \<mapsto> vault), Some (Accept ''pull_from_you''))"
    using assms(4,6-8) by (simp add: receive_vault_def)
  ultimately show ?thesis using assms(2,3,5,9) by (simp add: daemon_stream_def share_stream_def)
qed

text \<open>Nothing is written that was not agreed to: only the path of the decision can change.\<close>

lemma receive_vault_writes:
  assumes "receive_vault rio acc path payload d = (d', r)" "d' p \<noteq> d p"
  shows "acc \<and> p = path \<and> r = Some (Accept ''pull_from_you'')"
  using assms by (auto simp: receive_vault_def split: if_splits)

lemma daemon_stream_writes:
  assumes "daemon_stream C J nick user rio g input h d = Inr (h', d', r)" "d' p \<noteq> d p"
  shows "\<exists>l rest filename modified fs book. read_line input = Some (l, rest) \<and> msg_from_json J l = Some (Proposal filename modified) \<and>
    load_friends C J h = Inr fs \<and>
    decide_proposal nick filename modified user fs = ((True, p), book) \<and> r = Some (Accept ''pull_from_you'')"
proof (cases "Option.bind (read_line input) (\<lambda>(l, rest). map_option (\<lambda>m. (m, rest)) (msg_from_json J l))")
  case None
  with assms show ?thesis by (simp add: daemon_stream_def)
next
  case (Some x)
  obtain m payload where x: "x = (m, payload)" by force
  show ?thesis
  proof (cases m)
    case (Proposal filename modified)
    obtain fs where fs: "load_friends C J h = Inr fs"
      using assms(1) by (auto simp: daemon_stream_def Some x Proposal result_simps)
    obtain acc path book where dec: "decide_proposal nick filename modified user fs = ((acc, path), book)" by (metis prod.collapse)
    have "receive_vault rio acc path payload d = (d', r)"
      using assms(1) by (auto simp: daemon_stream_def Some x Proposal fs dec result_simps)
    note rw = receive_vault_writes [OF this assms(2)]
    from Some x Proposal obtain l rest where "read_line input = Some (l, rest)" "msg_from_json J l = Some (Proposal filename modified)"
      by (auto simp: bind_eq_Some_conv)
    with rw fs dec show ?thesis by auto
  qed (use assms Some x in \<open>simp_all add: daemon_stream_def\<close>)
qed

end
