(* ===== verification/Registry.thy ===== *)
theory Registry
  imports Config Paths "HOL-Library.Multiset"
begin

text \<open>
  The list of vaults this user has opened (\<open>atom/src/commands/vault_registry.rs\<close>), most recent first.
  \<open>serde_json\<close> is a pair of parameters, and which paths exist is an argument of the reading.
\<close>

record VaultEntry =
  ve_name :: string
  ve_path :: string
  last_opened :: u64

record registry_lib =
  vaults_to_json :: "VaultEntry list \<Rightarrow> string"
  vaults_from_json :: "string \<Rightarrow> VaultEntry list option"

definition vaults_json_ok :: "registry_lib \<Rightarrow> bool" where
  "vaults_json_ok J \<longleftrightarrow>
     (\<forall>es. vaults_from_json J (vaults_to_json J es) = Some es \<and> utf8_valid (str_bytes (vaults_to_json J es)))"

record RegistryHome =
  reg_key :: "bytes option"
  vaults_json :: "bytes option"
  reg_io :: WriteIO

definition load_vault_registry ::
    "crypto_lib \<Rightarrow> registry_lib \<Rightarrow> (string \<Rightarrow> bool) \<Rightarrow> RegistryHome \<Rightarrow> string + VaultEntry list" where
  "load_vault_registry C J path_exists h =
     bindE (load_json C (reg_key h) (vaults_from_json J) (vaults_json h)) (\<lambda>r.
       Inr (case r of None \<Rightarrow> [] | Some es \<Rightarrow> filter (\<lambda>e. path_exists (ve_path e)) es))"

definition save_vault_registry ::
    "crypto_lib \<Rightarrow> registry_lib \<Rightarrow> VaultEntry list \<Rightarrow> rng \<Rightarrow> RegistryHome \<Rightarrow> string + RegistryHome" where
  "save_vault_registry C J es g h =
     bindE (save_json C (reg_key h) (vaults_to_json J) es g (reg_io h) (vaults_json h)) (\<lambda>(new, _).
       Inr (h\<lparr>vaults_json := new\<rparr>))"

text \<open>\<open>sort_by(|a, b| b.last_opened.cmp(&a.last_opened))\<close>: a stable sort, latest first.\<close>

definition latest_first :: "VaultEntry list \<Rightarrow> VaultEntry list" where
  "latest_first es = sort_key (\<lambda>e. - uint (last_opened e)) es"

definition registry_name :: "string \<Rightarrow> string" where
  "registry_name path = (case file_stem path of Some s \<Rightarrow> s | None \<Rightarrow> path)"

definition touch_entry :: "string \<Rightarrow> u64 \<Rightarrow> VaultEntry list \<Rightarrow> VaultEntry list" where
  "touch_entry path now es =
     (case update_first (\<lambda>e. ve_path e = path) (\<lambda>e. e\<lparr>last_opened := now, ve_name := registry_name path\<rparr>) es of
        Some es' \<Rightarrow> es'
      | None \<Rightarrow> es @ [\<lparr>ve_name = registry_name path, ve_path = path, last_opened = now\<rparr>])"

definition register_vault ::
    "crypto_lib \<Rightarrow> registry_lib \<Rightarrow> (string \<Rightarrow> bool) \<Rightarrow> string \<Rightarrow> u64 \<Rightarrow> rng \<Rightarrow> RegistryHome \<Rightarrow> string + RegistryHome" where
  "register_vault C J path_exists path now g h =
     bindE (load_vault_registry C J path_exists h) (\<lambda>es.
       save_vault_registry C J (latest_first (touch_entry path now es)) g h)"

definition remove_vault_from_registry ::
    "crypto_lib \<Rightarrow> registry_lib \<Rightarrow> (string \<Rightarrow> bool) \<Rightarrow> string \<Rightarrow> rng \<Rightarrow> RegistryHome \<Rightarrow> string + RegistryHome" where
  "remove_vault_from_registry C J path_exists path g h =
     bindE (load_vault_registry C J path_exists h) (\<lambda>es.
       save_vault_registry C J (filter (\<lambda>e. ve_path e \<noteq> path) es) g h)"

section \<open>The invariant\<close>

definition registry_ok :: "VaultEntry list \<Rightarrow> bool" where
  "registry_ok es \<longleftrightarrow> distinct (map ve_path es) \<and> sorted_wrt (\<lambda>a b. last_opened b \<le> last_opened a) es"

lemma sorted_latest_first: "sorted_wrt (\<lambda>a b. last_opened b \<le> last_opened a) (latest_first es)"
proof -
  have "sorted (map (\<lambda>e. - uint (last_opened e)) (latest_first es))" unfolding latest_first_def by (rule sorted_sort_key)
  then show ?thesis by (simp add: sorted_wrt_map word_le_def)
qed

lemma set_latest_first [simp]: "set (latest_first es) = set es"
  by (simp add: latest_first_def)

lemma distinct_latest_first: "distinct (map ve_path (latest_first es)) \<longleftrightarrow> distinct (map ve_path es)"
proof -
  have "mset (map ve_path (latest_first es)) = mset (map ve_path es)" by (simp add: latest_first_def)
  then show ?thesis by (metis mset_eq_imp_distinct_iff)
qed

lemma touch_entry_paths:
  "distinct (map ve_path es) \<Longrightarrow> distinct (map ve_path (touch_entry path now es))"
proof (cases "update_first (\<lambda>e. ve_path e = path) (\<lambda>e. e\<lparr>last_opened := now, ve_name := registry_name path\<rparr>) es")
  case None
  moreover from this have "path \<notin> ve_path ` set es" by (auto simp: update_first_None find_None_iff)
  ultimately show "distinct (map ve_path es) \<Longrightarrow> ?thesis" by (simp add: touch_entry_def)
next
  case (Some es')
  have "map ve_path es' = map ve_path es" by (rule map_update_first [OF Some]) simp
  with Some show "distinct (map ve_path es) \<Longrightarrow> ?thesis" by (simp add: touch_entry_def)
qed

lemma update_first_set:
  assumes "update_first P f xs = Some ys" "distinct (map g xs)" "\<And>x. P x \<longleftrightarrow> g x = k"
  shows "\<exists>x \<in> set xs. P x \<and> set ys = set (filter (\<lambda>x. \<not> P x) xs) \<union> {f x}"
  using assms(1,2)
proof (induction xs arbitrary: ys)
  case (Cons x xs)
  show ?case
  proof (cases "P x")
    case True
    with Cons.prems(2) have "filter (\<lambda>x. \<not> P x) xs = xs" by (auto simp: filter_id_conv assms(3) image_iff)
    with True Cons.prems(1) show ?thesis by auto
  next
    case False
    with Cons.prems(1) obtain zs where zs: "update_first P f xs = Some zs" "ys = x # zs" by auto
    with Cons.IH [OF zs(1)] Cons.prems(2) False show ?thesis by auto
  qed
qed simp

lemma touch_entry_set:
  assumes "distinct (map ve_path es)"
  shows "set (touch_entry path now es) =
    set (filter (\<lambda>e. ve_path e \<noteq> path) es) \<union> {\<lparr>ve_name = registry_name path, ve_path = path, last_opened = now\<rparr>}"
proof (cases "update_first (\<lambda>e. ve_path e = path) (\<lambda>e. e\<lparr>last_opened := now, ve_name := registry_name path\<rparr>) es")
  case None
  then have "filter (\<lambda>e. ve_path e \<noteq> path) es = es" by (auto simp: update_first_None find_None_iff filter_id_conv)
  with None show ?thesis by (simp add: touch_entry_def)
next
  case (Some es')
  from update_first_set [OF this assms] obtain e where "ve_path e = path"
    "set es' = set (filter (\<lambda>x. ve_path x \<noteq> path) es) \<union> {e\<lparr>last_opened := now, ve_name := registry_name path\<rparr>}" by auto
  moreover from this have "e\<lparr>last_opened := now, ve_name := registry_name path\<rparr> = \<lparr>ve_name = registry_name path, ve_path = path, last_opened = now\<rparr>"
    by simp
  ultimately show ?thesis using Some by (simp add: touch_entry_def)
qed

lemma load_saved_registry:
  assumes "aead_ok C" "vaults_json_ok J" "save_vault_registry C J es g h = Inr h'" "open_ok (reg_io h)" "write_cut (reg_io h) = None"
  shows "load_vault_registry C J path_exists h' = Inr (filter (\<lambda>e. path_exists (ve_path e)) es)"
proof -
  from assms(3) obtain new g' where n: "save_json C (reg_key h) (vaults_to_json J) es g (reg_io h) (vaults_json h) = Inr (new, g')"
    "h' = h\<lparr>vaults_json := new\<rparr>"
    by (auto simp: save_vault_registry_def result_simps)
  have "load_json C (reg_key h) (vaults_from_json J) new = Inr (Some es)"
    by (rule load_save_json [OF assms(1) n(1) assms(4,5)]) (use assms(2) in \<open>simp_all add: vaults_json_ok_def\<close>)
  with n(2) show ?thesis by (simp add: load_vault_registry_def)
qed

end
