(* ===== verification/SyncDemo.thy ===== *)
theory SyncDemo
  imports ChunkSync Friends Registry LiveDemo
begin

text \<open>
  Concrete, executable instances of the third-party parameters of \<open>p2p-sync\<close> and of the address
  book: a self-delimiting serialisation for the message and record types, a base32 with the lengths of
  the real one, a handshake with fixed messages and a cipher that appends a fixed tag.
\<close>

section \<open>Serialisation\<close>

text \<open>A value as a list of numbers, each of which says how to read on.\<close>

fun read_n :: "nat \<Rightarrow> (nat list \<Rightarrow> ('a \<times> nat list) option) \<Rightarrow> nat list \<Rightarrow> ('a list \<times> nat list) option" where
  "read_n 0 d ns = Some ([], ns)"
| "read_n (Suc n) d ns =
     Option.bind (d ns) (\<lambda>(x, r). Option.bind (read_n n d r) (\<lambda>(xs, r'). Some (x # xs, r')))"

definition put_list :: "('a \<Rightarrow> nat list) \<Rightarrow> 'a list \<Rightarrow> nat list" where
  "put_list e xs = length xs # concat (map e xs)"

definition get_list :: "(nat list \<Rightarrow> ('a \<times> nat list) option) \<Rightarrow> nat list \<Rightarrow> ('a list \<times> nat list) option" where
  "get_list d ns = (case ns of [] \<Rightarrow> None | n # r \<Rightarrow> read_n n d r)"

fun get_nat :: "nat list \<Rightarrow> (nat \<times> nat list) option" where
  "get_nat [] = None"
| "get_nat (n # r) = Some (n, r)"

lemma get_put_list:
  assumes "\<And>x r. d (e x @ r) = Some (x, r)"
  shows "get_list d (put_list e xs @ r) = Some (xs, r)"
proof -
  have "read_n (length xs) d (concat (map e xs) @ r) = Some (xs, r)"
    by (induction xs) (simp_all add: assms)
  then show ?thesis by (simp add: get_list_def put_list_def)
qed

definition put_string :: "string \<Rightarrow> nat list" where
  "put_string = put_list (\<lambda>c. [of_char c])"

definition get_string :: "nat list \<Rightarrow> (string \<times> nat list) option" where
  "get_string = get_list (\<lambda>ns. map_option (\<lambda>(n, r). (char_of n, r)) (get_nat ns))"

definition put_bytes :: "bytes \<Rightarrow> nat list" where
  "put_bytes = put_list (\<lambda>b. [unat b])"

definition get_bytes :: "nat list \<Rightarrow> (bytes \<times> nat list) option" where
  "get_bytes = get_list (\<lambda>ns. map_option (\<lambda>(n, r). (word_of_nat n, r)) (get_nat ns))"

lemma get_put_string [simp]: "get_string (put_string s @ r) = Some (s, r)"
  unfolding get_string_def put_string_def by (rule get_put_list) simp

lemma get_put_bytes [simp]: "get_bytes (put_bytes s @ r) = Some (s, r)"
  unfolding get_bytes_def put_bytes_def by (rule get_put_list) simp

text \<open>A list of numbers as text: each in unary, closed by another letter.\<close>

definition nats_text :: "nat list \<Rightarrow> string" where
  "nats_text ns = concat (map (\<lambda>n. replicate n (CHR ''b'') @ ''a'') ns)"

fun text_nats :: "nat \<Rightarrow> string \<Rightarrow> nat list" where
  "text_nats n [] = []"
| "text_nats n (c # s) = (if c = CHR ''b'' then text_nats (Suc n) s else if c = CHR ''a'' then n # text_nats 0 s else [])"

lemma text_nats_unary: "text_nats k (replicate n (CHR ''b'') @ CHR ''a'' # s) = (k + n) # text_nats 0 s"
  by (induction n arbitrary: k) simp_all

lemma text_nats_text [simp]: "text_nats 0 (nats_text ns) = ns"
  by (induction ns) (simp_all add: nats_text_def text_nats_unary)

lemma text_nats_line [simp]: "text_nats 0 (nats_text ns @ [CHR 0x0A]) = ns"
  by (induction ns) (simp_all add: nats_text_def text_nats_unary)

lemma nats_text_chars: "c \<in> set (nats_text ns) \<Longrightarrow> c = CHR ''a'' \<or> c = CHR ''b''"
  by (induction ns) (auto simp: nats_text_def split: if_splits)

lemma nats_text_utf8: "utf8_valid (str_bytes (nats_text ns))" "utf8_valid (str_bytes (nats_text ns @ [CHR 0x0A]))"
  by (rule utf8_valid_ascii, auto simp: str_bytes_def dest: nats_text_chars)+

text \<open>One value, and nothing after it.\<close>

definition whole :: "('a \<times> nat list) option \<Rightarrow> 'a option" where
  "whole r = (case r of Some (x, []) \<Rightarrow> Some x | _ \<Rightarrow> None)"

section \<open>The messages and records\<close>

definition put_chunk :: "SyncChunkEntry \<Rightarrow> nat list" where
  "put_chunk c = sc_len c # sc_offset c # put_bytes (sc_nonce c)"

definition get_chunk :: "nat list \<Rightarrow> (SyncChunkEntry \<times> nat list) option" where
  "get_chunk ns = Option.bind (get_nat ns) (\<lambda>(l, r1). Option.bind (get_nat r1) (\<lambda>(ofs, r2).
     Option.bind (get_bytes r2) (\<lambda>(n, r3). Some (\<lparr>sc_len = l, sc_offset = ofs, sc_nonce = n\<rparr>, r3))))"

lemma get_put_chunk [simp]: "get_chunk (put_chunk c @ r) = Some (c, r)"
  by (simp add: get_chunk_def put_chunk_def)

definition put_findex :: "SyncFileIndex \<Rightarrow> nat list" where
  "put_findex f = unat (sf_modified f) # put_string (sf_name f) @ put_list put_chunk (sf_chunks f)"

definition get_findex :: "nat list \<Rightarrow> (SyncFileIndex \<times> nat list) option" where
  "get_findex ns = Option.bind (get_nat ns) (\<lambda>(m, r1). Option.bind (get_string r1) (\<lambda>(n, r2).
     Option.bind (get_list get_chunk r2) (\<lambda>(cs, r3). Some (\<lparr>sf_name = n, sf_modified = word_of_nat m, sf_chunks = cs\<rparr>, r3))))"

lemma get_put_findex [simp]: "get_findex (put_findex f @ r) = Some (f, r)"
  by (simp add: get_findex_def put_findex_def get_put_list)

fun put_sync :: "SyncMessage \<Rightarrow> nat list" where
  "put_sync (MetadataExchange md) = 0 # put_bytes (sync_salt md) @ put_list put_findex (sync_table md)"
| "put_sync (ChunkRequest n) = 1 # put_bytes n"
| "put_sync (ChunkTransfer n c) = 2 # put_bytes n @ put_bytes c"

definition get_sync :: "nat list \<Rightarrow> (SyncMessage \<times> nat list) option" where
  "get_sync ns = Option.bind (get_nat ns) (\<lambda>(t, r). Option.bind (get_bytes r) (\<lambda>(b, r1).
     if t = 0 then map_option (\<lambda>(fs, r2). (MetadataExchange \<lparr>sync_table = fs, sync_salt = b\<rparr>, r2)) (get_list get_findex r1)
     else if t = 1 then Some (ChunkRequest b, r1)
     else map_option (\<lambda>(c, r2). (ChunkTransfer b c, r2)) (get_bytes r1)))"

lemma get_put_sync: "get_sync (put_sync m @ r) = Some (m, r)"
  by (cases m) (simp_all add: get_sync_def get_put_list)

definition demo_codec :: codec where
  "demo_codec = \<lparr>ser = (\<lambda>m. str_bytes (nats_text (put_sync m))), de = (\<lambda>bs. whole (get_sync (text_nats 0 (bytes_str bs))))\<rparr>"

lemma demo_codec_ok: "codec_ok demo_codec"
  using get_put_sync [of _ "[]"] by (simp add: codec_ok_def demo_codec_def whole_def)

definition put_shared :: "SharedVault \<Rightarrow> nat list" where
  "put_shared v = unat (last_modified v) # put_string (original_name v) @ put_string (label v) @ put_string (local_path v)"

definition get_shared :: "nat list \<Rightarrow> (SharedVault \<times> nat list) option" where
  "get_shared ns = Option.bind (get_nat ns) (\<lambda>(m, r1). Option.bind (get_string r1) (\<lambda>(a, r2).
     Option.bind (get_string r2) (\<lambda>(b, r3). Option.bind (get_string r3) (\<lambda>(c, r4).
       Some (\<lparr>original_name = a, label = b, local_path = c, last_modified = word_of_nat m\<rparr>, r4)))))"

lemma get_put_shared [simp]: "get_shared (put_shared v @ r) = Some (v, r)"
  by (simp add: get_shared_def put_shared_def)

definition put_friend :: "FriendRecord \<Rightarrow> nat list" where
  "put_friend f = (case last_seen f of None \<Rightarrow> [0, 0] | Some w \<Rightarrow> [1, unat w]) @
     put_string (nickname f) @ put_string (url f) @ put_list put_shared (shared_vaults f)"

definition get_friend :: "nat list \<Rightarrow> (FriendRecord \<times> nat list) option" where
  "get_friend ns = Option.bind (get_nat ns) (\<lambda>(t, r1). Option.bind (get_nat r1) (\<lambda>(w, r2).
     Option.bind (get_string r2) (\<lambda>(a, r3). Option.bind (get_string r3) (\<lambda>(b, r4).
     Option.bind (get_list get_shared r4) (\<lambda>(vs, r5).
       Some (\<lparr>nickname = a, url = b, shared_vaults = vs, last_seen = (if t = 0 then None else Some (word_of_nat w))\<rparr>, r5))))))"

lemma get_put_friend: "get_friend (put_friend f @ r) = Some (f, r)"
  by (cases "last_seen f") (simp_all add: get_friend_def put_friend_def get_put_list)

fun put_share :: "ShareMessage \<Rightarrow> nat list" where
  "put_share (Proposal f m) = 0 # unat m # put_string f"
| "put_share (Accept a) = 1 # 0 # put_string a"
| "put_share Reject = 2 # 0 # put_string []"

definition get_share :: "nat list \<Rightarrow> (ShareMessage \<times> nat list) option" where
  "get_share ns = Option.bind (get_nat ns) (\<lambda>(t, r1). Option.bind (get_nat r1) (\<lambda>(m, r2). Option.bind (get_string r2) (\<lambda>(s, r3).
     Some (if t = 0 then Proposal s (word_of_nat m) else if t = 1 then Accept s else Reject, r3))))"

lemma get_put_share: "get_share (put_share m @ r) = Some (m, r)"
  by (cases m) (simp_all add: get_share_def)

definition demo_json :: json_lib where
  "demo_json = \<lparr>friends_to_json = (\<lambda>fs. nats_text (put_list put_friend fs)),
     friends_from_json = (\<lambda>s. whole (get_list get_friend (text_nats 0 s))),
     msg_to_json = (\<lambda>m. nats_text (put_share m)), msg_from_json = (\<lambda>s. whole (get_share (text_nats 0 s)))\<rparr>"

lemma demo_json_ok: "json_ok demo_json"
proof -
  have "CHR 0x0A \<notin> set (nats_text ns)" for ns using nats_text_chars by fastforce
  moreover have "get_list get_friend (put_list put_friend fs) = Some (fs, [])" for fs
    using get_put_list [of get_friend put_friend fs "[]"] get_put_friend by simp
  moreover have "get_share (put_share m) = Some (m, [])" for m using get_put_share [of m "[]"] by simp
  ultimately show ?thesis by (simp add: json_ok_def demo_json_def whole_def nats_text_utf8)
qed

definition put_vault :: "VaultEntry \<Rightarrow> nat list" where
  "put_vault v = unat (last_opened v) # put_string (ve_name v) @ put_string (ve_path v)"

definition get_vault :: "nat list \<Rightarrow> (VaultEntry \<times> nat list) option" where
  "get_vault ns = Option.bind (get_nat ns) (\<lambda>(m, r1). Option.bind (get_string r1) (\<lambda>(a, r2).
     Option.bind (get_string r2) (\<lambda>(b, r3). Some (\<lparr>ve_name = a, ve_path = b, last_opened = word_of_nat m\<rparr>, r3))))"

lemma get_put_vault: "get_vault (put_vault v @ r) = Some (v, r)"
  by (simp add: get_vault_def put_vault_def)

definition demo_registry :: registry_lib where
  "demo_registry = \<lparr>vaults_to_json = (\<lambda>es. nats_text (put_list put_vault es)),
     vaults_from_json = (\<lambda>s. whole (get_list get_vault (text_nats 0 s)))\<rparr>"

lemma demo_registry_ok: "vaults_json_ok demo_registry"
proof -
  have "get_list get_vault (put_list put_vault es) = Some (es, [])" for es
    using get_put_list [of get_vault put_vault es "[]"] get_put_vault by simp
  then show ?thesis by (simp add: vaults_json_ok_def demo_registry_def whole_def nats_text_utf8)
qed

section \<open>The tunnel\<close>

definition demo_noise :: noise_lib where
  "demo_noise = \<lparr>n_init = (\<lambda>i g. [g 0]), n_write = (\<lambda>st p. Some ([7], st)),
     n_read = (\<lambda>st m. if m = [7] then Some ([], st) else None), n_hash = (\<lambda>st. replicate 32 5),
     n_split = (\<lambda>st. Some ([0], [0])),
     c_write = (\<lambda>s p. if length p \<le> 65519 then Some (p @ replicate 16 0, s) else None),
     c_read = (\<lambda>s c. if 16 \<le> length c \<and> length c \<le> 65535 \<and> drop (length c - 16) c = replicate 16 0
                     then Some (take (length c - 16) c, s) else None)\<rparr>"

lemma demo_noise_ok: "noise_ok demo_noise"
  by (simp add: noise_ok_def demo_noise_def)

lemma demo_cipher_ok: "cipher_ok demo_noise"
proof -
  have "c_write demo_noise s p = Some (c, s') \<longleftrightarrow> c_read demo_noise s c = Some (p, s')" for s p c s'
    by (auto simp: demo_noise_def split: if_splits) (metis append_take_drop_id)
  then show ?thesis unfolding cipher_ok_def by (auto simp: demo_noise_def split: if_splits)
qed

definition pad32 :: "bytes \<Rightarrow> bytes" where
  "pad32 bs = take 32 (bs @ replicate 32 0)"

lemma length_pad32 [simp]: "length (pad32 bs) = 32"
  by (simp add: pad32_def min_def)

definition demo_ed :: ed_lib where
  "demo_ed = \<lparr>ed_pub = pad32, ed_sign = (\<lambda>sk m. pad32 sk @ pad32 m),
     ed_valid = (\<lambda>pk. True), ed_verify_strict = (\<lambda>pk m s. s = pk @ pad32 m)\<rparr>"

lemma demo_ed_ok: "ed_ok demo_ed"
  by (simp add: ed_ok_def demo_ed_def)

section \<open>Base32 with the real lengths\<close>

definition digit32 :: "nat \<Rightarrow> char" where
  "digit32 n = (if n < 26 then char_of (65 + n) else char_of (24 + n))"

definition undigit32 :: "char \<Rightarrow> nat option" where
  "undigit32 c = (let n = of_char c in
     if 65 \<le> n \<and> n < 91 then Some (n - 65) else if 50 \<le> n \<and> n < 56 then Some (n - 24) else None)"

lemma undigit_digit: "n < 32 \<Longrightarrow> undigit32 (digit32 n) = Some n"
  by (simp add: undigit32_def digit32_def Let_def)

lemma undigit32_Some: "undigit32 c = Some n \<Longrightarrow> n < 32 \<and> digit32 n = c"
  by (auto simp: undigit32_def digit32_def Let_def split: if_splits)

fun digits32 :: "nat \<Rightarrow> nat \<Rightarrow> string" where
  "digits32 0 v = []"
| "digits32 (Suc m) v = digits32 m (v div 32) @ [digit32 (v mod 32)]"

fun value32 :: "nat \<Rightarrow> string \<Rightarrow> nat option" where
  "value32 a [] = Some a"
| "value32 a (c # s) = Option.bind (undigit32 c) (\<lambda>d. value32 (a * 32 + d) s)"

lemma length_digits32 [simp]: "length (digits32 m v) = m"
  by (induction m arbitrary: v) simp_all

lemma value32_append: "value32 a (s @ t) = Option.bind (value32 a s) (\<lambda>b. value32 b t)"
  by (induction s arbitrary: a) (auto simp: bind_assoc split: option.splits)

lemma value_digits32: "v < 32 ^ m \<Longrightarrow> value32 0 (digits32 m v) = Some v"
proof (induction m arbitrary: v)
  case (Suc m)
  then have "v div 32 < 32 ^ m" by (simp add: div_less_iff_less_mult mult.commute)
  with Suc.IH show ?case by (simp add: value32_append undigit_digit)
qed simp

lemma digits_value32:
  "value32 0 s = Some v \<Longrightarrow> digits32 (length s) v = s \<and> v < 32 ^ length s"
proof (induction s arbitrary: v rule: rev_induct)
  case (snoc c s)
  from snoc.prems obtain b d where b: "value32 0 s = Some b" "undigit32 c = Some d" "v = b * 32 + d"
    by (auto simp: value32_append bind_eq_Some_conv)
  with snoc.IH [OF b(1)] undigit32_Some [OF b(2)] show ?case by simp
qed simp

definition chars32 :: "nat \<Rightarrow> nat" where
  "chars32 n = (8 * n + 4) div 5"

definition b32r_encode :: "bytes \<Rightarrow> string" where
  "b32r_encode bs = digits32 (chars32 (length bs)) (be_val bs)"

definition b32r_decode :: "string \<Rightarrow> bytes option" where
  "b32r_decode s =
     (let n = length s * 5 div 8 in
      Option.bind (value32 0 s) (\<lambda>v. if length s = chars32 n \<and> v < 256 ^ n then Some (be_bytes n v) else None))"

lemma chars32_bytes: "chars32 n * 5 div 8 = n"
  unfolding chars32_def by presburger

lemma bytes_fit: "(256 :: nat) ^ n \<le> 32 ^ chars32 n"
proof -
  have "8 * n \<le> 5 * chars32 n" unfolding chars32_def by presburger
  then have "(2 :: nat) ^ (8 * n) \<le> 2 ^ (5 * chars32 n)" by (intro power_increasing) simp_all
  then show ?thesis by (simp add: power_mult)
qed

lemma digit32_char: "n < 32 \<Longrightarrow> b32_char (digit32 n)"
  by (auto simp: b32_char_def digit32_def)

lemma digits32_chars: "list_all b32_char (digits32 m v)"
  by (induction m arbitrary: v) (simp_all add: digit32_char)

definition demo_keys32 :: key_lib where
  "demo_keys32 = demo_keys\<lparr>b32_encode := b32r_encode, b32_decode := b32r_decode\<rparr>"

lemma b32r_roundtrip: "b32r_decode (b32r_encode bs) = Some bs"
proof -
  have "be_val bs < 32 ^ chars32 (length bs)" using be_val_bound [of bs] bytes_fit [of "length bs"] by linarith
  then show ?thesis using be_val_bound [of bs] by (simp add: b32r_decode_def b32r_encode_def value_digits32 chars32_bytes)
qed

lemma b32r_exact: "b32r_decode s = Some bs \<Longrightarrow> b32r_encode bs = s"
proof -
  let ?n = "length s * 5 div 8"
  assume "b32r_decode s = Some bs"
  then obtain v where v: "value32 0 s = Some v" "length s = chars32 ?n" "v < 256 ^ ?n" "bs = be_bytes ?n v"
    by (auto simp: b32r_decode_def Let_def bind_eq_Some_conv split: if_splits)
  have "length bs = ?n" "be_val bs = v" using v(3,4) by simp_all
  with v(2) digits_value32 [OF v(1)] show ?thesis by (simp add: b32r_encode_def)
qed

lemma demo_b32r_ok: "b32_ok demo_keys32" "b32_len demo_keys32"
  using b32r_exact
  by (simp_all add: b32_ok_def b32_len_def demo_keys32_def b32r_roundtrip, simp_all add: b32r_encode_def digits32_chars chars32_def)

section \<open>Two friends\<close>

definition demo_home :: Home where
  "demo_home = \<lparr>has_home = True, cfg_key = Some (replicate 32 0), friends_json = None, onion_txt = None,
     identity_key = None, home_io = \<lparr>open_ok = True, write_cut = None\<rparr>\<rparr>"

definition demo_uri :: "bytes \<Rightarrow> string" where
  "demo_uri sk = daemon_link demo_keys32 pad32 (pad32 [8]) (ed_pub demo_ed sk)"

lemma demo_parse: "parse_atom_uri demo_keys32 demo_ed (demo_uri sk) = Inr (format_onion_address demo_keys32 pad32 (pad32 [8]), ed_pub demo_ed sk)"
  unfolding demo_uri_def by (rule parse_daemon_link [OF demo_b32r_ok]) (simp_all add: demo_ed_def)

lemma sync_demo_encrypt: "length k = 32 \<Longrightarrow> \<exists>data g'. encrypt_config demo_crypto (Some k) p g = Inr (data, g')"
  by (simp add: encrypt_config_def demo_crypto_def demo_seal_def Let_def split: prod.split)

lemma demo_add:
  "\<exists>data. add_friend_core demo_crypto demo_keys32 demo_ed demo_json (demo_uri sk) ''bob'' g demo_home = Inr (demo_home\<lparr>friends_json := Some data\<rparr>) \<and>
     load_friends demo_crypto demo_json (demo_home\<lparr>friends_json := Some data\<rparr>) = Inr [new_friend (demo_uri sk) ''bob'']"
proof -
  obtain data g' where d: "encrypt_config demo_crypto (Some (replicate 32 0))
      (str_bytes (friends_to_json demo_json [new_friend (demo_uri sk) ''bob''])) g = Inr (data, g')"
    using sync_demo_encrypt by fastforce
  let ?h = "demo_home\<lparr>friends_json := Some data\<rparr>"
  have s: "save_friends demo_crypto demo_json [new_friend (demo_uri sk) ''bob''] g demo_home = Inr ?h"
    using d by (simp add: save_friends_def save_json_def demo_home_def write_file_def)
  have "add_friend_core demo_crypto demo_keys32 demo_ed demo_json (demo_uri sk) ''bob'' g demo_home = Inr ?h"
    using s by (simp add: add_friend_core_def demo_parse own_key_in_file_def load_friends_def load_json_def add_friend_book_def)
      (simp add: demo_home_def)
  moreover have "load_friends demo_crypto demo_json ?h = Inr [new_friend (demo_uri sk) ''bob'']"
    by (rule load_saved_friends [OF demo_aead_ok demo_json_ok s]) (simp_all add: demo_home_def)
  ultimately show ?thesis by blast
qed

end
