(* ===== verification/SyncTheorems.thy ===== *)
theory SyncTheorems
  imports SyncDemo
begin

text \<open>
  The theorems of chunk synchronisation, of the encrypted tunnel, and of the address book and vault
  sharing, each with a witness on the parameters of \<open>SyncDemo\<close>.
\<close>

section \<open>Chunk synchronisation\<close>

text \<open>
  C35. Synchronisation converges. When the peer serves what it lists and the disk works, then however
  the fetching tasks interleave, a finished run leaves nothing to request from the peer: every chunk
  that was missing is now held with the bytes the peer has for it, under the peer's time of
  modification, and everything held before is still held.
\<close>

theorem sync_converges:
  assumes "replica_ok R" "distinct (map sf_name (sync_table (local_metadata R)))"
    and "synchronize True True (Some (MetadataExchange (local_metadata R))) es r = Inr (Some s)" "finished s"
    and "\<forall>a \<in> set (attempts SyncDialer es (start_run r (missing_chunks (local_metadata R) (local_metadata r)))). honest R a"
  shows "missing_chunks (local_metadata R) (local_metadata (replica s)) = [] \<and>
    (\<forall>(nonce, name, m) \<in> set (missing_chunks (local_metadata R) (local_metadata r)).
       modified_of name (local_metadata (replica s)) = Some m \<and>
       (\<exists>ct. serve_chunk R nonce = Some (ChunkTransfer nonce ct) \<and> holds (replica s) name nonce ct)) \<and>
    (\<forall>name nonce ct. holds r name nonce ct \<longrightarrow> holds (replica s) name nonce ct)"
proof -
  have h: "honest_run R es r s" using assms by (simp add: honest_run_def synchronize_def)
  have "replica s = fold (apply_attempt SyncDialer)
      (attempts SyncDialer es (start_run r (missing_chunks (local_metadata R) (local_metadata r)))) r"
    using run_effect [of SyncDialer es "start_run r (missing_chunks (local_metadata R) (local_metadata r))" s] h
    by (simp add: honest_run_def start_run_def)
  then have "\<forall>name nonce ct. holds r name nonce ct \<longrightarrow> holds (replica s) name nonce ct"
    using fold_attempts_keep by simp
  with honest_run_complete [OF h] honest_run_stores [OF h] show ?thesis by blast
qed

definition demo_remote :: Replica where
  "demo_remote = \<lparr>local_metadata = \<lparr>sync_table = [\<lparr>sf_name = ''a'', sf_modified = 9,
       sf_chunks = [\<lparr>sc_len = 2, sc_offset = 0, sc_nonce = [1]\<rparr>, \<lparr>sc_len = 1, sc_offset = 2, sc_nonce = [2]\<rparr>]\<rparr>], sync_salt = []\<rparr>,
     vault_bytes = [10, 11, 12]\<rparr>"

definition demo_empty :: Replica where
  "demo_empty = \<lparr>local_metadata = \<lparr>sync_table = [], sync_salt = []\<rparr>, vault_bytes = []\<rparr>"

lemma demo_missing:
  "missing_chunks (local_metadata demo_remote) (local_metadata demo_empty) = [([1], ''a'', 9), ([2], ''a'', 9)]"
  by (simp add: missing_chunks_def missing_of_def demo_remote_def demo_empty_def local_file_def is_newer_def chunk_exists_def)

lemma demo_remote_ok: "replica_ok demo_remote" "distinct (map sf_name (sync_table (local_metadata demo_remote)))"
  by (auto simp: replica_ok_def demo_remote_def)

theorem sync_converges_witness:
  "\<exists>s. synchronize True True (Some (MetadataExchange (local_metadata demo_remote)))
       [Spawn, Spawn, Finish 1 (serve_chunk demo_remote [2]) DiskOk, Finish 0 (serve_chunk demo_remote [1]) DiskOk] demo_empty = Inr (Some s) \<and>
     missing_chunks (local_metadata demo_remote) (local_metadata (replica s)) = []"
proof -
  let ?es = "[Spawn, Spawn, Finish 1 (serve_chunk demo_remote [2]) DiskOk, Finish 0 (serve_chunk demo_remote [1]) DiskOk]"
  obtain s where s: "synchronize True True (Some (MetadataExchange (local_metadata demo_remote))) ?es demo_empty = Inr (Some s)" "finished s"
    by (simp add: synchronize_def demo_missing start_run_def sync_step_Finish_eq sync_step_def [of _ Spawn] MAX_TASKS_def finished_def)
  have "\<forall>a \<in> set (attempts SyncDialer ?es (start_run demo_empty (missing_chunks (local_metadata demo_remote) (local_metadata demo_empty)))). honest demo_remote a"
    by (simp add: demo_missing start_run_def sync_step_Finish_eq sync_step_def [of _ Spawn] MAX_TASKS_def honest_def attempt_nonce_def)
  from sync_converges [OF demo_remote_ok s this] s show ?thesis by blast
qed

text \<open>
  C37. A hostile peer cannot damage what is there. Whatever it answers, on either side, and whatever
  disk operations fail: the vault file only grows at its end, every chunk in the metadata stays inside
  it, what was held stays held, and the chunks of each file are the old ones followed by those recorded,
  in the order in which their tasks ended.
\<close>

theorem sync_keeps_replica:
  assumes "sync_events side es (start_run r ts) = Some s" "replica_ok r"
  shows "replica_ok (replica s) \<and> prefix (vault_bytes r) (vault_bytes (replica s)) \<and>
    (\<forall>name nonce ct. holds r name nonce ct \<longrightarrow> holds (replica s) name nonce ct) \<and>
    (\<forall>name. nonces_of name (local_metadata (replica s)) = nonces_of name (local_metadata r) @
       map attempt_nonce (filter (\<lambda>a. recorded side a \<and> attempt_name a = name) (attempts side es (start_run r ts))))"
proof -
  have rep: "replica s = fold (apply_attempt side) (attempts side es (start_run r ts)) r"
    using run_effect [OF assms(1)] by (simp add: start_run_def)
  have "prefix (vault_bytes r) (vault_bytes (replica s))"
    unfolding rep prefix_def by (rule fold_attempts_append)
  with fold_attempts_ok [OF assms(2)] fold_attempts_keep show ?thesis
    unfolding rep by (simp add: fold_attempts_metadata)
qed

lemma demo_listener_run:
  "\<exists>s. sync_events SyncListener [Spawn, Finish 0 (Some (ChunkTransfer [9] [66])) DiskOk] (start_run demo_remote [([3], ''a'', 9)]) = Some s"
  by (simp add: start_run_def sync_step_Finish_eq sync_step_def [of _ Spawn] MAX_TASKS_def)

theorem sync_keeps_replica_witness:
  "\<exists>s. sync_events SyncListener [Spawn, Finish 0 (Some (ChunkTransfer [9] [66])) DiskOk] (start_run demo_remote [([3], ''a'', 9)]) = Some s \<and>
     replica_ok (replica s) \<and> prefix [10, 11, 12] (vault_bytes (replica s))"
proof -
  obtain s where s: "sync_events SyncListener [Spawn, Finish 0 (Some (ChunkTransfer [9] [66])) DiskOk] (start_run demo_remote [([3], ''a'', 9)]) = Some s"
    using demo_listener_run by blast
  from sync_keeps_replica [OF s demo_remote_ok(1)] s show ?thesis by (auto simp: demo_remote_def)
qed

text \<open>
  A chunk that fails is forgotten. Once one chunk of a file has been recorded, the file has the
  peer's time of modification, so a chunk of it whose fetch failed is neither held nor requested by the
  next synchronisation with the same metadata.
\<close>

theorem failed_chunk_is_forgotten:
  assumes "sync_events side es (start_run r (missing_chunks remote (local_metadata r))) = Some s"
    and "distinct (map sf_name (sync_table remote))" "f \<in> set (sync_table remote)"
    and "a \<in> set (attempts side es (start_run r (missing_chunks remote (local_metadata r))))" "recorded side a" "attempt_name a = sf_name f"
    and "b \<in> set (attempts side es (start_run r (missing_chunks remote (local_metadata r))))" "attempt_name b = sf_name f"
    and "\<forall>x \<in> set (attempts side es (start_run r (missing_chunks remote (local_metadata r)))).
           recorded side x \<and> attempt_name x = sf_name f \<longrightarrow> attempt_nonce x \<noteq> attempt_nonce b"
  shows "attempt_nonce b \<notin> set (nonces_of (sf_name f) (local_metadata (replica s))) \<and>
    missing_of (local_metadata (replica s)) f = []"
proof -
  let ?missing = "missing_chunks remote (local_metadata r)"
  have rep: "replica s = fold (apply_attempt side) (attempts side es (start_run r ?missing)) r"
    using run_effect [OF assms(1)] by (simp add: start_run_def)
  have "(attempt_nonce b, sf_name f, attempt_mod b) \<in> set ?missing"
    using run_attempts_missing [OF assms(1,7)] assms(8) by (simp add: attempt_task_eq)
  from missing_mod [OF this assms(2,3) refl] have "attempt_nonce b \<notin> set (nonces_of (sf_name f) (local_metadata r))"
    by (auto simp: missing_of_nonces split: if_splits)
  then have "attempt_nonce b \<notin> set (nonces_of (sf_name f) (local_metadata (replica s)))"
    using assms(9) unfolding rep fold_attempts_metadata by auto
  moreover have "missing_of (local_metadata (replica s)) f = []"
    using missing_after [OF assms(1-3)] assms(4-6) by auto
  ultimately show ?thesis by blast
qed

theorem failed_chunk_is_forgotten_witness:
  "\<exists>s. synchronize True True (Some (MetadataExchange (local_metadata demo_remote)))
       [Spawn, Spawn, Finish 0 (serve_chunk demo_remote [1]) DiskOk, Finish 0 None DiskOk] demo_empty = Inr (Some s) \<and>
     [2] \<notin> set (nonces_of ''a'' (local_metadata (replica s)))"
proof -
  let ?es = "[Spawn, Spawn, Finish 0 (serve_chunk demo_remote [1]) DiskOk, Finish 0 None DiskOk]"
  let ?f = "hd (sync_table (local_metadata demo_remote))"
  let ?s0 = "start_run demo_empty (missing_chunks (local_metadata demo_remote) (local_metadata demo_empty))"
  let ?a = "(([1], ''a'', 9), serve_chunk demo_remote [1], DiskOk) :: attempt" and ?b = "(([2], ''a'', 9), None, DiskOk) :: attempt"
  obtain s where s: "sync_events SyncDialer ?es ?s0 = Some s"
    by (simp add: demo_missing start_run_def sync_step_Finish_eq sync_step_def [of _ Spawn] MAX_TASKS_def)
  have at: "attempts SyncDialer ?es ?s0 = [?a, ?b]"
    by (simp add: demo_missing start_run_def sync_step_Finish_eq sync_step_def [of _ Spawn] MAX_TASKS_def)
  have served: "serve_chunk demo_remote [1] = Some (ChunkTransfer [1] [10, 11])"
    by (simp add: serve_chunk_def chunk_info_def demo_remote_def slice_def)
  have "attempt_nonce ?b \<notin> set (nonces_of (sf_name ?f) (local_metadata (replica s))) \<and> missing_of (local_metadata (replica s)) ?f = []"
  proof (rule failed_chunk_is_forgotten [OF s demo_remote_ok(2), of ?f ?a ?b], unfold at)
    show "?f \<in> set (sync_table (local_metadata demo_remote))" by (simp add: demo_remote_def)
    show "recorded SyncDialer ?a" by (simp add: recorded_def attempt_nonce_def accepted_def served)
    show "attempt_name ?a = sf_name ?f" "attempt_name ?b = sf_name ?f" by (simp_all add: attempt_name_def demo_remote_def)
  qed (auto simp: recorded_def accepted_def attempt_nonce_def)
  with s show ?thesis by (simp add: synchronize_def attempt_nonce_def demo_remote_def)
qed

section \<open>The tunnel\<close>

text \<open>
  C38. Only friends get in. If the daemon admits a connection, the name it shows is that of a friend in
  the address book whose link carries the key the peer authenticated with, and that key signed the hash
  of this very handshake.
\<close>

theorem daemon_admits_only_friends:
  assumes "admit_peer C K N E J my_identity g h w = Inr (nick, session, w')"
  shows "\<exists>fs f. load_friends C J h = Inr fs \<and> f \<in> set fs \<and> nickname f = nick \<and> key_of K E f = Some (remote_static_key session) \<and>
    (\<exists>st w1 sig. exchange N False g w = Inr (st, w1) \<and> master_secret session = n_hash N st \<and>
       ed_verify_strict E (remote_static_key session) (n_hash N st) sig)"
proof -
  from assms obtain fs where fs: "load_friends C J h = Inr fs"
    "execute_handshake N E False my_identity (authorized_keys K E fs) g w = Inr (session, w')"
    "nick = connected_nick K E (remote_static_key session) fs"
    by (auto simp: admit_peer_def result_simps)
  from execute_handshake_Inr [OF fs(2)] have "remote_static_key session \<in> set (authorized_keys K E fs)"
    and "\<exists>st w1 sig. exchange N False g w = Inr (st, w1) \<and> master_secret session = n_hash N st \<and>
       ed_verify_strict E (remote_static_key session) (n_hash N st) sig"
    by auto
  with connected_nick_friend fs show ?thesis by metis
qed

theorem daemon_admits_only_friends_witness:
  "\<exists>h w session w'. admit_peer demo_crypto demo_keys32 demo_noise demo_ed demo_json [3] (\<lambda>_. 0) h w = Inr (''bob'', session, w') \<and>
     remote_static_key session = ed_pub demo_ed [4] \<and> (\<exists>fs f. load_friends demo_crypto demo_json h = Inr fs \<and> f \<in> set fs)"
proof -
  obtain h where h: "load_friends demo_crypto demo_json h = Inr [new_friend (demo_uri [4]) ''bob'']" using demo_add by blast
  have k: "key_of demo_keys32 demo_ed (new_friend (demo_uri [4]) ''bob'') = Some (ed_pub demo_ed [4])"
    by (simp add: key_of_def new_friend_def demo_parse)
  then have keys: "authorized_keys demo_keys32 demo_ed [new_friend (demo_uri [4]) ''bob''] = [ed_pub demo_ed [4]]"
    by (simp add: authorized_keys_def List.map_filter_simps)
  have nick: "connected_nick demo_keys32 demo_ed (ed_pub demo_ed [4]) [new_friend (demo_uri [4]) ''bob''] = ''bob''"
    using k by (simp add: connected_nick_def has_key_iff new_friend_def)
  obtain ini sr pr where hs: "execute_handshake demo_noise demo_ed False [3] [ed_pub demo_ed [4]] (\<lambda>_. 0)
      \<lparr>incoming = ini, written = [], room = 300000\<rparr> = Inr (sr, pr)" "remote_static_key sr = ed_pub demo_ed [4]"
    using handshake_honest [OF demo_noise_ok demo_cipher_ok demo_ed_ok, of "[3]" "[ed_pub demo_ed [3]]" "[4]" "[ed_pub demo_ed [4]]" "\<lambda>_. 0" "\<lambda>_. 0"]
    by auto
  have a: "admit_peer demo_crypto demo_keys32 demo_noise demo_ed demo_json [3] (\<lambda>_. 0) h \<lparr>incoming = ini, written = [], room = 300000\<rparr> =
      Inr (''bob'', sr, pr)"
    by (simp add: admit_peer_def h keys hs nick)
  from daemon_admits_only_friends [OF a] a hs(2) show ?thesis by blast
qed

text \<open>
  Two friends connect. Ends that have each other's key in their books, joined by a connection that
  delivers what is written, both complete the handshake: they hold the same secret, each has
  authenticated the other, and what one sends with is what the other receives with.
\<close>

theorem friends_connect:
  assumes "noise_ok N" "cipher_ok N" "ed_ok E" "ed_pub E skr \<in> set peersi" "ed_pub E ski \<in> set peersr"
  shows "\<exists>ini resp si sr pi pr.
    execute_handshake N E True ski peersi g1 \<lparr>incoming = resp, written = [], room = 300000\<rparr> = Inr (si, pi) \<and> written pi = ini \<and>
    execute_handshake N E False skr peersr g2 \<lparr>incoming = ini, written = [], room = 300000\<rparr> = Inr (sr, pr) \<and> written pr = resp \<and>
    master_secret si = master_secret sr \<and> remote_static_key si = ed_pub E skr \<and> remote_static_key sr = ed_pub E ski \<and>
    transport_out si = transport_in sr \<and> transport_in si = transport_out sr"
  using assms by (rule handshake_honest)

theorem friends_connect_witness:
  "\<exists>ini resp si sr pi pr.
    execute_handshake demo_noise demo_ed True [3] [ed_pub demo_ed [4]] (\<lambda>_. 0) \<lparr>incoming = resp, written = [], room = 300000\<rparr> = Inr (si, pi) \<and>
    written pi = ini \<and>
    execute_handshake demo_noise demo_ed False [4] [ed_pub demo_ed [3]] (\<lambda>_. 1) \<lparr>incoming = ini, written = [], room = 300000\<rparr> = Inr (sr, pr) \<and>
    written pr = resp \<and> master_secret si = master_secret sr \<and>
    remote_static_key si = ed_pub demo_ed [4] \<and> remote_static_key sr = ed_pub demo_ed [3] \<and>
    transport_out si = transport_in sr \<and> transport_in si = transport_out sr"
  by (rule friends_connect [OF demo_noise_ok demo_cipher_ok demo_ed_ok]) simp_all

text \<open>
  The tunnel carries a byte stream, and nothing else. What the outbound pump reads arrives in full
  and in order at the other end, however it was cut into reads; and whatever arrives, the plaintexts the
  inbound pump hands on are ones a holder of the key wrote, in that order and from the first message on:
  nothing can be dropped from the middle, reordered, repeated or inserted.
\<close>

theorem tunnel_is_a_stream:
  assumes "cipher_ok N"
  shows "(\<forall>s reads bs w w'. tunnel_bytes N s reads = Some bs \<longrightarrow> [] \<notin> set reads \<longrightarrow> length bs \<le> room w \<longrightarrow> written w = [] \<longrightarrow>
       incoming w' = written (outbound_pump N s reads w) \<longrightarrow> inbound_pump N s w' = reads) \<and>
    (\<forall>s w. \<exists>bs. tunnel_bytes N s (inbound_pump N s w) = Some bs \<and> prefix bs (incoming w))"
proof -
  have "inbound_pump N s w' = reads" if "tunnel_bytes N s reads = Some bs" "[] \<notin> set reads" "length bs \<le> room w" "written w = []"
    "incoming w' = written (outbound_pump N s reads w)" for s reads bs w w'
  proof -
    have "incoming w' = bs" using outbound_pump_writes [OF that(1-3)] that(4,5) by simp
    then show ?thesis using inbound_pump_exact [OF assms that(1)] by simp
  qed
  with inbound_pump_authentic [OF assms] show ?thesis by blast
qed

theorem tunnel_is_a_stream_witness:
  "inbound_pump demo_noise [0]
     \<lparr>incoming = written (outbound_pump demo_noise [0] [[1, 2], [3]] \<lparr>incoming = [], written = [], room = 100\<rparr>), written = [], room = 0\<rparr> = [[1, 2], [3]]"
proof -
  obtain bs where "tunnel_bytes demo_noise [0] [[1, 2], [3]] = Some bs" "length bs \<le> 100"
    by (simp add: demo_noise_def frame16_def)
  with tunnel_is_a_stream [OF demo_cipher_ok, THEN conjunct1, rule_format, of "[0]" "[[1, 2], [3]]" bs
      "\<lparr>incoming = [], written = [], room = 100\<rparr>"] show ?thesis by simp
qed

text \<open>
  Both peers compute the same daily address for each of them. The key one derives as host is the one
  the other derives to dial it, on the same day; the two roles, and two days, never share the bytes the
  key is derived from; and an onion address determines the key it was made from.
\<close>

theorem daily_addresses_agree:
  assumes "b32_ok K" "a \<noteq> b"
  shows "derive_daily_key C now secret a b True = derive_daily_key C now secret b a False \<and>
    (\<forall>e e'. daily_info (role_prefix a b True) e \<noteq> daily_info (role_prefix a b False) e') \<and>
    (\<forall>h e e'. daily_info (role_prefix a b h) e = daily_info (role_prefix a b h) e' \<longrightarrow> e = e') \<and>
    (\<forall>p q. length p = length q \<longrightarrow> format_onion_address K sha3 p = format_onion_address K sha3 q \<longrightarrow> p = q)"
proof -
  have "daily_info (role_prefix a b True) e \<noteq> daily_info (role_prefix a b False) e'" for e e'
    using daily_info_inj [of "role_prefix a b True" e "role_prefix a b False" e'] role_prefix_neq [of a b]
    unfolding role_prefix_length by blast
  moreover have "daily_info r e = daily_info r e' \<Longrightarrow> e = e'" for r e e' using daily_info_inj [of r e r e'] by blast
  ultimately show ?thesis
    using derive_daily_key_swap [OF assms(2), of C now secret True] format_onion_inj [OF assms(1)] by simp
qed

theorem daily_addresses_agree_witness:
  "derive_daily_key demo_crypto 100000 [1] [2] [3] True = derive_daily_key demo_crypto 100000 [1] [3] [2] False"
  using daily_addresses_agree [OF demo_b32_ok, of "[2]" "[3]"] by auto

section \<open>The address book\<close>

text \<open>
  C40. A nickname never changes hands. Adding a friend to a book whose names and keys are distinct keeps
  it so, as it is read from disk afterwards; the name then has the key of the link, every other entry is
  as before, and a name that was already there had this very key.
\<close>

theorem address_book_is_safe:
  assumes "aead_ok C" "json_ok J" "open_ok (home_io h)" "write_cut (home_io h) = None"
    and "load_friends C J h = Inr fs" "book_ok K E fs" "add_friend_core C K E J u nick g h = Inr h'"
  shows "\<exists>fs' onion_address k. parse_atom_uri K E u = Inr (onion_address, k) \<and> load_friends C J h' = Inr fs' \<and> book_ok K E fs' \<and>
    friend_key K E nick fs' = Some k \<and> (friend_key K E nick fs = None \<or> friend_key K E nick fs = Some k) \<and>
    (\<forall>n. n \<noteq> nick \<longrightarrow> List.find (\<lambda>f. nickname f = n) fs' = List.find (\<lambda>f. nickname f = n) fs)"
proof -
  from assms(5,7) obtain o' k fs' where u: "parse_atom_uri K E u = Inr (o', k)"
    and b: "add_friend_book K E u nick k fs = Inr fs'" "save_friends C J fs' g h = Inr h'"
    by (auto simp: add_friend_core_def result_simps)
  from add_friend_book_ok [OF assms(6) u b(1)] load_saved_friends [OF assms(1,2) b(2) assms(3,4)] u show ?thesis by auto
qed

theorem address_book_is_safe_witness:
  "\<exists>h' fs'. add_friend_core demo_crypto demo_keys32 demo_ed demo_json (demo_uri [4]) ''bob'' (\<lambda>_. 0) demo_home = Inr h' \<and>
     load_friends demo_crypto demo_json h' = Inr fs' \<and> friend_key demo_keys32 demo_ed ''bob'' fs' = Some (ed_pub demo_ed [4])"
proof -
  obtain h' where a: "add_friend_core demo_crypto demo_keys32 demo_ed demo_json (demo_uri [4]) ''bob'' (\<lambda>_. 0) demo_home = Inr h'"
    using demo_add by blast
  have l: "load_friends demo_crypto demo_json demo_home = Inr []" by (simp add: load_friends_def load_json_def demo_home_def)
  have "book_ok demo_keys32 demo_ed []" by (simp add: book_ok_def)
  from address_book_is_safe [OF demo_aead_ok demo_json_ok _ _ l this a] a show ?thesis by (auto simp: demo_home_def demo_parse)
qed

text \<open>
  A shared vault arrives as it was sent, where the user said. If the friend is in the book, the
  connection is made and the receiving user accepts with a path (or accepted this vault before), then
  what the sender puts on the stream after the receiver's answer makes the receiver write exactly the
  vault to that path; and the receiver never writes anywhere else, whatever arrives.
\<close>

theorem shared_vault_arrives:
  assumes "json_ok J" "sync_core C K E J dial vault_path (Some (vault, modified)) peer (Some line) g h = Inr (out, h1)"
    and "file_name vault_path = Some filename" "line = msg_to_json J (Accept ''pull_from_you'') @ [CHR 0x0A]"
    and "load_friends C J h2 = Inr fs" "decide_proposal nick filename modified user fs = ((True, path), book)" "path \<noteq> []"
    and "(case book of None \<Rightarrow> Inr h2 | Some fs' \<Rightarrow> save_friends C J fs' g2 h2) = Inr h3"
    and "reply_ok rio" "create_ok rio" "copy_cut rio = None"
  shows "daemon_stream C J nick user rio g2 out h2 d = Inr (h3, d(path \<mapsto> vault), Some (Accept ''pull_from_you'')) \<and>
    (\<forall>input h' d' r p. daemon_stream C J nick user rio g2 input h2 d = Inr (h', d', r) \<longrightarrow> d' p \<noteq> d p \<longrightarrow>
       (\<exists>fn m book. decide_proposal nick fn m user fs = ((True, p), book)))"
proof -
  have out: "out = share_stream J filename modified vault line"
    using assms(2,3) by (auto simp: sync_core_def result_simps)
  have "msg_from_json J line = Some (Accept ''pull_from_you'')" using assms(1,4) by (simp add: json_ok_def)
  from daemon_receives [OF assms(1,5,6,7,8,9,10,11) this] out
  have "daemon_stream C J nick user rio g2 out h2 d = Inr (h3, d(path \<mapsto> vault), Some (Accept ''pull_from_you''))" by simp
  with daemon_stream_writes [where h = h2 and d = d] assms(5) show ?thesis by fastforce
qed

lemma demo_share:
  assumes "load_friends demo_crypto demo_json (demo_home\<lparr>friends_json := x\<rparr>) = Inr [new_friend (demo_uri [4]) ''bob'']"
  shows "\<exists>out h1. sync_core demo_crypto demo_keys32 demo_ed demo_json (\<lambda>_ _ _. True) ''/v/my.vault'' (Some ([1, 2, 3], 7)) ''bob''
     (Some (msg_to_json demo_json (Accept ''pull_from_you'') @ [CHR 0x0A])) (\<lambda>_. 0) (demo_home\<lparr>friends_json := x\<rparr>) = Inr (out, h1)"
proof -
  have "\<exists>k h1. get_or_create_identity demo_crypto (\<lambda>_. 0) (demo_home\<lparr>friends_json := x\<rparr>) = Inr (k, h1)"
    using sync_demo_encrypt [of "replicate 32 0"] by (force simp: get_or_create_identity_def demo_home_def Let_def result_simps split: prod.split)
  then obtain k h1 where "get_or_create_identity demo_crypto (\<lambda>_. 0) (demo_home\<lparr>friends_json := x\<rparr>) = Inr (k, h1)" by blast
  with assms demo_parse [of "[4]"] show ?thesis by (simp add: sync_core_def new_friend_def file_name_def)
qed

theorem shared_vault_arrives_witness:
  "\<exists>out h2 h3. daemon_stream demo_crypto demo_json ''bob'' \<lparr>resp_accepted = True, resp_label = None, resp_path = Some ''/w/v''\<rparr>
     \<lparr>reply_ok = True, create_ok = True, copy_cut = None\<rparr> (\<lambda>_. 0) out h2 Map.empty =
     Inr (h3, [''/w/v'' \<mapsto> [1, 2, 3]], Some (Accept ''pull_from_you''))"
proof -
  obtain x where x: "load_friends demo_crypto demo_json (demo_home\<lparr>friends_json := Some x\<rparr>) = Inr [new_friend (demo_uri [4]) ''bob'']"
    using demo_add by blast
  let ?h = "demo_home\<lparr>friends_json := Some x\<rparr>"
  let ?user = "\<lparr>resp_accepted = True, resp_label = None, resp_path = Some ''/w/v''\<rparr>"
  obtain out h1 where o: "sync_core demo_crypto demo_keys32 demo_ed demo_json (\<lambda>_ _ _. True) ''/v/my.vault'' (Some ([1, 2, 3], 7)) ''bob''
     (Some (msg_to_json demo_json (Accept ''pull_from_you'') @ [CHR 0x0A])) (\<lambda>_. 0) ?h = Inr (out, h1)"
    using demo_share [OF x] by blast
  obtain fs' where d: "decide_proposal ''bob'' ''my.vault'' 7 ?user [new_friend (demo_uri [4]) ''bob''] = ((True, ''/w/v''), Some fs')"
    by (simp add: decide_proposal_def known_vault_def new_friend_def Let_def)
  obtain data g' where "encrypt_config demo_crypto (Some (replicate 32 0)) (str_bytes (friends_to_json demo_json fs')) (\<lambda>_. 0) = Inr (data, g')"
    using sync_demo_encrypt by fastforce
  then have sv: "\<exists>h3. save_friends demo_crypto demo_json fs' (\<lambda>_. 0) ?h = Inr h3"
    by (simp add: save_friends_def save_json_def demo_home_def)
  then obtain h3 where h3: "save_friends demo_crypto demo_json fs' (\<lambda>_. 0) ?h = Inr h3" by blast
  have fn: "file_name ''/v/my.vault'' = Some ''my.vault''" by (simp add: file_name_def)
  have "daemon_stream demo_crypto demo_json ''bob'' ?user \<lparr>reply_ok = True, create_ok = True, copy_cut = None\<rparr> (\<lambda>_. 0) out ?h Map.empty =
      Inr (h3, [''/w/v'' \<mapsto> [1, 2, 3]], Some (Accept ''pull_from_you''))"
    using shared_vault_arrives [OF demo_json_ok o fn refl x d, of "\<lambda>_. 0" h3 "\<lparr>reply_ok = True, create_ok = True, copy_cut = None\<rparr>" Map.empty] h3
    by simp
  then show ?thesis by blast
qed

text \<open>
  The published link works for others, but not for its owner's protection. The link the daemon makes
  is parsed to the identity's key, and no ASCII link makes the parser panic; yet \<open>id\<close> shows it with the scheme
  repeated, which is refused as a link, and since it is stored encrypted the check that should keep users
  from adding themselves never sees a key.
\<close>

theorem published_link:
  assumes "b32_ok K" "b32_len K" "length onion_key = 32" "length pub = 32" "ed_valid E pub"
    and "2 \<le> length (sha3 (str_bytes ''.onion checksum'' @ onion_key @ [3]))"
    and "publish_link C (daemon_link K sha3 onion_key pub) g h = Inr h'" "open_ok (home_io h)" "write_cut (home_io h) = None"
    and "is_ascii u"
  shows "parse_atom_uri K E (daemon_link K sha3 onion_key pub) = Inr (format_onion_address K sha3 onion_key, pub) \<and>
    parse_atom_uri K E u \<noteq> Inl PanickedKeyCopy \<and>
    parse_atom_uri K E (shown_link (daemon_link K sha3 onion_key pub)) = Inl InvalidOnionLength \<and>
    own_key_in_file K E h' = None"
  using parse_daemon_link [of K onion_key pub E sha3] assms parse_atom_uri_no_panic [OF assms(1,2)] shown_link_refused own_key_check_is_dead [OF assms(7-9)]
  by blast

theorem published_link_witness:
  "\<exists>h'. publish_link demo_crypto (demo_uri [4]) (\<lambda>_. 0) demo_home = Inr h' \<and>
     parse_atom_uri demo_keys32 demo_ed (shown_link (demo_uri [4])) = Inl InvalidOnionLength \<and> own_key_in_file demo_keys32 demo_ed h' = None"
proof -
  obtain data g' where "encrypt_config demo_crypto (Some (replicate 32 0)) (str_bytes (demo_uri [4])) (\<lambda>_. 0) = Inr (data, g')"
    using sync_demo_encrypt by fastforce
  then have "\<exists>h'. publish_link demo_crypto (demo_uri [4]) (\<lambda>_. 0) demo_home = Inr h'" by (simp add: publish_link_def demo_home_def)
  then obtain h' where p: "publish_link demo_crypto (demo_uri [4]) (\<lambda>_. 0) demo_home = Inr h'" by blast
  have "length (pad32 x) = 32" for x by simp
  from published_link [OF demo_b32r_ok, of "pad32 [8]" "ed_pub demo_ed [4]" demo_ed pad32 demo_crypto "\<lambda>_. 0" demo_home h' "''atom://x''"] p
  show ?thesis by (simp add: demo_uri_def demo_ed_def demo_home_def is_ascii_def)
qed

section \<open>Configuration files\<close>

text \<open>
  Configuration survives and is authentic. What is encrypted decrypts to itself under the key the
  keyring returns again on the next start; whatever is in the file, a file with the magic is read only if
  it was sealed under the key, and one without it is read as it is.
\<close>

theorem config_roundtrip:
  assumes "aead_ok C" "aead_total C" "fetch_or_create_key g0 kr = Inr (key, kr')" "readable kr" "length p < 2 ^ 38 - 64"
  shows "fetch_or_create_key g1 kr' = Inr (key, kr') \<and>
    (\<exists>data g'. encrypt_config C (Some key) p g = Inr (data, g') \<and> decrypt_config C (Some key) data = Inr p) \<and>
    (\<forall>data q. decrypt_config C (Some key) data = Inr q \<longrightarrow>
       strip_prefix MAGIC data = None \<and> q = data \<or>
       (\<exists>nonce ct. length nonce = 24 \<and> data = MAGIC @ nonce @ ct \<and> aead_seal C key nonce [] q = Some ct))"
proof -
  have k: "length key = 32" "fetch_or_create_key g1 kr' = Inr (key, kr')" using fetch_key_again [OF assms(3,4)] by blast+
  obtain data g' where d: "encrypt_config C (Some key) p g = Inr (data, g')" using encrypt_config_total [OF assms(2) k(1) assms(5)] by blast
  with k(2) decrypt_encrypt_config [OF assms(1) d] decrypt_config_Inr [OF assms(1), of "Some key"] show ?thesis by blast
qed

theorem config_roundtrip_witness:
  "\<exists>key kr' data g'. fetch_or_create_key (\<lambda>_. 7) \<lparr>reachable = True, items = [], readable = True, storable = True\<rparr> = Inr (key, kr') \<and>
     fetch_or_create_key (\<lambda>_. 0) kr' = Inr (key, kr') \<and> encrypt_config demo_crypto (Some key) [1, 2] (\<lambda>_. 0) = Inr (data, g') \<and>
     decrypt_config demo_crypto (Some key) data = Inr [1, 2]"
proof -
  let ?kr = "\<lparr>reachable = True, items = [], readable = True, storable = True\<rparr>"
  obtain key kr' where k: "fetch_or_create_key (\<lambda>_. 7) ?kr = Inr (key, kr')" by (simp add: fetch_or_create_key_def Let_def)
  from config_roundtrip [OF demo_aead_ok demo_aead_total k, of "[1, 2]" "\<lambda>_. 0" "\<lambda>_. 0"] k show ?thesis by auto
qed

text \<open>
  The list of vaults is one entry per path, latest first. Registering a vault keeps that: as read
  back, the list has the vault with its new time, and every other existing vault as it was; removing a
  vault takes exactly it away.
\<close>

theorem registry_stays_ordered:
  assumes "aead_ok C" "vaults_json_ok J" "open_ok (reg_io h)" "write_cut (reg_io h) = None"
    and "load_vault_registry C J path_exists h = Inr es" "registry_ok es" "path_exists path"
    and "register_vault C J path_exists path now g h = Inr h1" "remove_vault_from_registry C J path_exists path g h = Inr h2"
  shows "(\<exists>es1. load_vault_registry C J path_exists h1 = Inr es1 \<and> registry_ok es1 \<and>
      set es1 = set (filter (\<lambda>e. ve_path e \<noteq> path) es) \<union> {\<lparr>ve_name = registry_name path, ve_path = path, last_opened = now\<rparr>}) \<and>
    load_vault_registry C J path_exists h2 = Inr (filter (\<lambda>e. ve_path e \<noteq> path) es)"
proof -
  let ?t = "touch_entry path now es"
  have ex: "\<forall>e \<in> set es. path_exists (ve_path e)" using assms(5) by (auto simp: load_vault_registry_def result_simps split: option.splits)
  have s1: "save_vault_registry C J (latest_first ?t) g h = Inr h1"
    and s2: "save_vault_registry C J (filter (\<lambda>e. ve_path e \<noteq> path) es) g h = Inr h2"
    using assms(5,8,9) by (auto simp: register_vault_def remove_vault_from_registry_def)
  have set: "set ?t = set (filter (\<lambda>e. ve_path e \<noteq> path) es) \<union> {\<lparr>ve_name = registry_name path, ve_path = path, last_opened = now\<rparr>}"
    by (rule touch_entry_set) (use assms(6) in \<open>simp add: registry_ok_def\<close>)
  have "filter (\<lambda>e. path_exists (ve_path e)) (latest_first ?t) = latest_first ?t"
    using ex assms(7) set by (auto simp: filter_id_conv)
  moreover have "registry_ok (latest_first ?t)"
    using assms(6) by (simp add: registry_ok_def sorted_latest_first distinct_latest_first touch_entry_paths)
  moreover have "filter (\<lambda>e. path_exists (ve_path e)) (filter (\<lambda>e. ve_path e \<noteq> path) es) = filter (\<lambda>e. ve_path e \<noteq> path) es"
    by (rule filter_True) (use ex in simp)
  ultimately show ?thesis
    using load_saved_registry [OF assms(1,2) s1 assms(3,4)] load_saved_registry [OF assms(1,2) s2 assms(3,4)] set by simp
qed

definition demo_reg :: RegistryHome where
  "demo_reg = \<lparr>reg_key = Some (replicate 32 0), vaults_json = None, reg_io = \<lparr>open_ok = True, write_cut = None\<rparr>\<rparr>"

theorem registry_stays_ordered_witness:
  "\<exists>h1 es1. register_vault demo_crypto demo_registry (\<lambda>_. True) ''/v/my.vault'' 7 (\<lambda>_. 0) demo_reg = Inr h1 \<and>
     load_vault_registry demo_crypto demo_registry (\<lambda>_. True) h1 = Inr es1 \<and>
     set es1 = {\<lparr>ve_name = ''my'', ve_path = ''/v/my.vault'', last_opened = 7\<rparr>}"
proof -
  have sv: "\<exists>h1. save_vault_registry demo_crypto demo_registry es (\<lambda>_. 0) demo_reg = Inr h1" for es
    using sync_demo_encrypt [of "replicate 32 0" "str_bytes (vaults_to_json demo_registry es)" "\<lambda>_. 0"]
    by (auto simp: save_vault_registry_def save_json_def demo_reg_def)
  have l: "load_vault_registry demo_crypto demo_registry (\<lambda>_. True) demo_reg = Inr []"
    by (simp add: load_vault_registry_def load_json_def demo_reg_def)
  obtain h1 where h1: "register_vault demo_crypto demo_registry (\<lambda>_. True) ''/v/my.vault'' 7 (\<lambda>_. 0) demo_reg = Inr h1"
    using sv by (auto simp: register_vault_def l)
  obtain h2 where h2: "remove_vault_from_registry demo_crypto demo_registry (\<lambda>_. True) ''/v/my.vault'' (\<lambda>_. 0) demo_reg = Inr h2"
    using sv by (auto simp: remove_vault_from_registry_def l)
  have n: "registry_name ''/v/my.vault'' = ''my''" by (simp add: registry_name_def file_stem_def file_name_def)
  from registry_stays_ordered [OF demo_aead_ok demo_registry_ok _ _ l _ _ h1 h2] h1 n show ?thesis
    by (auto simp: demo_reg_def registry_ok_def)
qed

end
