(* ===== verification/AddrText.thy ===== *)
theory AddrText
  imports Address
begin

text \<open>
  The text of addresses: what \<open>std::net\<close> reads and prints for a socket address, and the addresses
  users type (\<open>parse_endpoint\<close> of \<open>atom/src/commands/live.rs\<close>). Flow labels and scopes are not
  part of a \<open>SocketAddr\<close> here, and an address text with a scope is not read.
\<close>

section \<open>Numbers\<close>

definition digit_val :: "char \<Rightarrow> nat option" where
  "digit_val c =
     (let n = of_char c in
      if 48 \<le> n \<and> n \<le> 57 then Some (n - 48)
      else if 97 \<le> n \<and> n \<le> 102 then Some (n - 87)
      else if 65 \<le> n \<and> n \<le> 70 then Some (n - 55) else None)"

definition in_radix :: "nat \<Rightarrow> char \<Rightarrow> bool" where
  "in_radix radix c = (case digit_val c of None \<Rightarrow> False | Some d \<Rightarrow> d < radix)"

definition digits_val :: "nat \<Rightarrow> string \<Rightarrow> nat" where
  "digits_val radix s = foldl (\<lambda>a c. a * radix + (case digit_val c of Some d \<Rightarrow> d | None \<Rightarrow> 0)) 0 s"

text \<open>
  \<open>Parser::read_number\<close>: all the digits there are; too many, a value past the type's maximum or a
  forbidden leading zero fail.
\<close>

definition read_number :: "nat \<Rightarrow> nat option \<Rightarrow> bool \<Rightarrow> nat \<Rightarrow> string \<Rightarrow> (nat \<times> string) option" where
  "read_number radix max_digits zero_prefix maxval s =
     (let ds = takeWhile (in_radix radix) s; v = digits_val radix ds in
      if ds = [] \<or> (case max_digits of None \<Rightarrow> False | Some m \<Rightarrow> m < length ds) \<or>
         (\<not> zero_prefix \<and> hd ds = CHR ''0'' \<and> 1 < length ds) \<or> maxval < v
      then None else Some (v, drop (length ds) s))"

fun show_nat :: "nat \<Rightarrow> nat \<Rightarrow> string" where
  "show_nat radix n =
     (let d = n mod radix; c = (if d < 10 then char_of (48 + d) else char_of (87 + d)) in
      if radix < 2 \<or> n < radix then [c] else show_nat radix (n div radix) @ [c])"

declare show_nat.simps [simp del]

definition read_char :: "char \<Rightarrow> string \<Rightarrow> string option" where
  "read_char c s = (case s of [] \<Rightarrow> None | x # r \<Rightarrow> if x = c then Some r else None)"

section \<open>IP addresses\<close>

definition read_octet :: "string \<Rightarrow> (nat \<times> string) option" where
  "read_octet = read_number 10 (Some 3) False 255"

definition read_ipv4 :: "string \<Rightarrow> (u32 \<times> string) option" where
  "read_ipv4 s =
     Option.bind (read_octet s) (\<lambda>(a, s1). Option.bind (read_char (CHR ''.'') s1) (\<lambda>s2.
     Option.bind (read_octet s2) (\<lambda>(b, s3). Option.bind (read_char (CHR ''.'') s3) (\<lambda>s4.
     Option.bind (read_octet s4) (\<lambda>(c, s5). Option.bind (read_char (CHR ''.'') s5) (\<lambda>s6.
     Option.bind (read_octet s6) (\<lambda>(d, s7). Some (word_of_nat (((a * 256 + b) * 256 + c) * 256 + d), s7))))))))"

text \<open>Up to \<open>limit\<close> groups, the last two possibly as an IPv4 address; the flag says that they were.\<close>

fun read_groups :: "nat \<Rightarrow> bool \<Rightarrow> string \<Rightarrow> nat list \<times> bool \<times> string" where
  "read_groups 0 first s = ([], False, s)"
| "read_groups (Suc limit) first s =
     (let sep = (if first then Some s else read_char (CHR '':'') s);
          v4 = (if 0 < limit then Option.bind sep read_ipv4 else None) in
      case v4 of
        Some (w, r) \<Rightarrow> ([unat w div 65536, unat w mod 65536], True, r)
      | None \<Rightarrow>
          (case Option.bind sep (read_number 16 (Some 4) True 65535) of
             None \<Rightarrow> ([], False, s)
           | Some (g, r) \<Rightarrow> let (gs, f, r') = read_groups limit False r in (g # gs, f, r')))"

definition groups_word :: "nat list \<Rightarrow> 128 word" where
  "groups_word gs = word_of_nat (foldl (\<lambda>a g. a * 65536 + g) 0 gs)"

definition read_ipv6 :: "string \<Rightarrow> (128 word \<times> string) option" where
  "read_ipv6 s =
     (let (head, v4, s1) = read_groups 8 True s in
      if length head = 8 then Some (groups_word head, s1)
      else if v4 then None
      else Option.bind (read_char (CHR '':'') s1) (\<lambda>s2. Option.bind (read_char (CHR '':'') s2) (\<lambda>s3.
        let (tail, _, s4) = read_groups (8 - (length head + 1)) True s3
        in Some (groups_word (head @ replicate (8 - length head - length tail) 0 @ tail), s4))))"

definition read_port :: "string \<Rightarrow> (u16 \<times> string) option" where
  "read_port s = map_option (\<lambda>(n, r). (word_of_nat n, r)) (read_number 10 None True 65535 s)"

definition read_socket_v4 :: "string \<Rightarrow> (SocketAddr \<times> string) option" where
  "read_socket_v4 s =
     Option.bind (read_ipv4 s) (\<lambda>(w, s1). Option.bind (read_char (CHR '':'') s1) (\<lambda>s2.
     Option.bind (read_port s2) (\<lambda>(p, s3). Some (\<lparr>ip = V4 w, port = p\<rparr>, s3))))"

definition read_socket_v6 :: "string \<Rightarrow> (SocketAddr \<times> string) option" where
  "read_socket_v6 s =
     Option.bind (read_char (CHR ''['') s) (\<lambda>s1. Option.bind (read_ipv6 s1) (\<lambda>(w, s2).
     Option.bind (read_char (CHR '']'') s2) (\<lambda>s3. Option.bind (read_char (CHR '':'') s3) (\<lambda>s4.
     Option.bind (read_port s4) (\<lambda>(p, s5). Some (\<lparr>ip = V6 w, port = p\<rparr>, s5))))))"

definition parse_socket_addr :: "string \<Rightarrow> SocketAddr option" where
  "parse_socket_addr s =
     (case (case read_socket_v4 s of None \<Rightarrow> read_socket_v6 s | r \<Rightarrow> r) of Some (a, []) \<Rightarrow> Some a | _ \<Rightarrow> None)"

section \<open>Printing\<close>

fun join_str :: "string \<Rightarrow> string list \<Rightarrow> string" where
  "join_str sep [] = []"
| "join_str sep [x] = x"
| "join_str sep (x # y # ys) = x @ sep @ join_str sep (y # ys)"

definition show_ipv4 :: "u32 \<Rightarrow> string" where
  "show_ipv4 w = join_str ''.'' (map (\<lambda>b. show_nat 10 (unat b)) (u32_to_be w))"

fun word_groups :: "nat \<Rightarrow> nat \<Rightarrow> nat list" where
  "word_groups 0 v = []"
| "word_groups (Suc n) v = word_groups n (v div 65536) @ [v mod 65536]"

text \<open>The first longest run of zero groups: where it starts and how long it is.\<close>

fun zero_run :: "nat list \<Rightarrow> nat \<Rightarrow> nat \<times> nat \<Rightarrow> nat \<times> nat \<Rightarrow> nat \<times> nat" where
  "zero_run [] i cur best = best"
| "zero_run (g # gs) i cur best =
     (if g = 0 then
        let cur' = (if snd cur = 0 then (i, 1) else (fst cur, snd cur + 1))
        in zero_run gs (i + 1) cur' (if snd best < snd cur' then cur' else best)
      else zero_run gs (i + 1) (0, 0) best)"

definition show_groups :: "nat list \<Rightarrow> string" where
  "show_groups gs = join_str '':'' (map (show_nat 16) gs)"

definition show_ipv6 :: "128 word \<Rightarrow> string" where
  "show_ipv6 w =
     (let gs = word_groups 8 (unat w); (start, len) = zero_run gs 0 (0, 0) (0, 0) in
      if unat w div 2 ^ 32 = 65535 then ''::ffff:'' @ show_ipv4 (word_of_nat (unat w mod 2 ^ 32))
      else if 1 < len then show_groups (take start gs) @ ''::'' @ show_groups (drop (start + len) gs)
      else show_groups gs)"

definition show_socket_addr :: "SocketAddr \<Rightarrow> string" where
  "show_socket_addr a =
     (case ip a of V4 w \<Rightarrow> show_ipv4 w | V6 w \<Rightarrow> ''['' @ show_ipv6 w @ '']'') @ '':'' @ show_nat 10 (unat (port a))"

definition show_endpoint :: "Endpoint \<Rightarrow> string" where
  "show_endpoint e =
     (case e of Direct a \<Rightarrow> show_socket_addr a | Onion a \<Rightarrow> ohost a @ '':'' @ show_nat 10 (unat (oport a)))"

section \<open>What users type\<close>

definition rsplit_once :: "char \<Rightarrow> string \<Rightarrow> (string \<times> string) option" where
  "rsplit_once d s =
     (if d \<in> set s
      then Some (rev (tl (dropWhile (\<lambda>c. c \<noteq> d) (rev s))), rev (takeWhile (\<lambda>c. c \<noteq> d) (rev s)))
      else None)"

text \<open>\<open>str::parse::<u16>\<close>: an optional plus sign and digits.\<close>

definition parse_u16 :: "string \<Rightarrow> u16 option" where
  "parse_u16 s =
     (let ds = (case s of c # r \<Rightarrow> if c = CHR ''+'' then r else s | [] \<Rightarrow> s) in
      if ds \<noteq> [] \<and> list_all (in_radix 10) ds \<and> digits_val 10 ds \<le> 65535
      then Some (word_of_nat (digits_val 10 ds)) else None)"

datatype live_error = Live Error | Msg string

definition parse_endpoint :: "string \<Rightarrow> live_error + Endpoint" where
  "parse_endpoint input =
     (let s = trim input in
      case parse_socket_addr s of
        Some a \<Rightarrow> Inr (Direct a)
      | None \<Rightarrow>
          bindE (ok_or (Msg ''An address needs a port'') (rsplit_once (CHR '':'') s)) (\<lambda>(host, p).
          bindE (ok_or (Msg ''is not a port number'') (parse_u16 p)) (\<lambda>port.
            if strip_suffix ''.onion'' host \<noteq> None
            then bindE (map_err Live (OnionAddress_new host port)) (\<lambda>a. Inr (Onion a))
            else Inl (Msg ''is neither an ip:port nor an onion address''))))"

section \<open>Printed numbers are read back\<close>

lemma digit_val_show: "d < 16 \<Longrightarrow> digit_val (if d < 10 then char_of (48 + d) else char_of (87 + d)) = Some d"
  by (simp add: digit_val_def Let_def)

lemma show_nat_digits:
  assumes "1 < radix" "radix \<le> 16"
  shows "list_all (in_radix radix) (show_nat radix n) \<and> show_nat radix n \<noteq> [] \<and> digits_val radix (show_nat radix n) = n"
proof (induction n rule: less_induct)
  case (less n)
  let ?d = "n mod radix"
  let ?c = "if ?d < 10 then char_of (48 + ?d) else char_of (87 + ?d)"
  have d: "?d < radix" "?d < 16" using assms by (auto intro: less_le_trans [OF mod_less_divisor])
  have c: "digit_val ?c = Some ?d" by (rule digit_val_show) (use d in simp)
  show ?case
  proof (cases "n < radix")
    case True
    with c d assms show ?thesis by (subst (1 2 3) show_nat.simps) (auto simp: Let_def in_radix_def digits_val_def)
  next
    case False
    then have "n div radix < n" using assms by (intro div_less_dividend) auto
    note IH = less.IH [OF this]
    have "show_nat radix n = show_nat radix (n div radix) @ [?c]"
      using False assms by (subst show_nat.simps) (simp add: Let_def)
    with IH c d show ?thesis by (simp add: in_radix_def digits_val_def)
  qed
qed

lemma show_nat_hd:
  assumes "1 < length (show_nat 10 n)"
  shows "hd (show_nat 10 n) \<noteq> CHR ''0''"
  using assms
proof (induction n rule: less_induct)
  case (less n)
  have "\<not> n < 10" using less.prems by (auto simp: show_nat.simps [of 10 n] Let_def)
  then have e: "show_nat 10 n = show_nat 10 (n div 10) @ [if n mod 10 < 10 then char_of (48 + n mod 10) else char_of (87 + n mod 10)]"
    by (subst show_nat.simps) (simp add: Let_def)
  have ne: "show_nat 10 (n div 10) \<noteq> []" using show_nat_digits [of 10 "n div 10"] by simp
  show ?case
  proof (cases "1 < length (show_nat 10 (n div 10))")
    case True
    with less.IH [of "n div 10"] \<open>\<not> n < 10\<close> e ne show ?thesis by simp
  next
    case False
    then have "n div 10 < 10" using show_nat_digits [of 10 "n div 10 div 10"]
      by (cases "n div 10 < 10") (auto simp: show_nat.simps [of 10 "n div 10"] Let_def)
    then have "show_nat 10 (n div 10) = [char_of (48 + n div 10)]" by (subst show_nat.simps) (simp add: Let_def)
    moreover have "char_of (48 + n div 10) \<noteq> CHR ''0''"
    proof
      assume "char_of (48 + n div 10) = CHR ''0''"
      then have "(of_char (char_of (48 + n div 10)) :: nat) = 48" by simp
      with \<open>n div 10 < 10\<close> \<open>\<not> n < 10\<close> show False by simp
    qed
    ultimately show ?thesis using e by simp
  qed
qed

lemma length_show_nat: "n < 10 ^ Suc k \<Longrightarrow> length (show_nat 10 n) \<le> Suc k"
proof (induction k arbitrary: n)
  case 0
  then show ?case by (subst show_nat.simps) (simp add: Let_def)
next
  case (Suc k)
  show ?case
  proof (cases "n < 10")
    case True
    then show ?thesis by (subst show_nat.simps) (simp add: Let_def)
  next
    case False
    have "n div 10 < 10 ^ Suc k" using Suc.prems by (simp add: div_less_iff_less_mult)
    from Suc.IH [OF this] False show ?thesis by (subst show_nat.simps) (simp add: Let_def)
  qed
qed

definition no_digit :: "string \<Rightarrow> bool" where
  "no_digit rest \<longleftrightarrow> rest = [] \<or> \<not> in_radix 10 (hd rest)"

lemma read_number_show:
  assumes "n \<le> maxval" "no_digit rest" "case md of None \<Rightarrow> True | Some m \<Rightarrow> length (show_nat 10 n) \<le> m"
  shows "read_number 10 md zp maxval (show_nat 10 n @ rest) = Some (n, rest)"
proof -
  have d: "list_all (in_radix 10) (show_nat 10 n)" "show_nat 10 n \<noteq> []" "digits_val 10 (show_nat 10 n) = n"
    using show_nat_digits [of 10 n] by simp_all
  have "takeWhile (in_radix 10) (show_nat 10 n @ rest) = show_nat 10 n"
    using d(1) assms(2) by (cases rest) (auto simp: list_all_iff takeWhile_append no_digit_def)
  with d show_nat_hd [of n] assms(1,3) show ?thesis by (auto simp: read_number_def Let_def split: option.splits)
qed

lemma read_octet_show: "n < 256 \<Longrightarrow> no_digit rest \<Longrightarrow> read_octet (show_nat 10 n @ rest) = Some (n, rest)"
  unfolding read_octet_def using length_show_nat [of n 2] by (intro read_number_show) (auto simp: numeral_2_eq_2 numeral_3_eq_3)

lemma read_port_show: "read_port (show_nat 10 (unat p)) = Some (p, [])"
proof -
  have "unat p \<le> 65535" using unat_bound [of p] by simp
  then show ?thesis using read_number_show [of "unat p" 65535 "[]" None True] by (simp add: read_port_def no_digit_def)
qed

lemma no_digit_sep: "no_digit (CHR ''.'' # r)" "no_digit (CHR '':'' # r)"
  by (simp_all add: no_digit_def in_radix_def digit_val_def)

lemma list4: "length xs = 4 \<Longrightarrow> \<exists>a b c d. xs = [a, b, c, d]"
  by (cases xs rule: remdups_adj.cases; cases "drop 2 xs" rule: remdups_adj.cases) auto

lemma be_val_u32 [simp]: "be_val (u32_to_be w) = unat w"
  using unat_bound [of w] by (simp add: u32_to_be_def)

lemma read_show_ipv4: "no_digit rest \<Longrightarrow> read_ipv4 (show_ipv4 w @ rest) = Some (w, rest)"
proof -
  assume r: "no_digit rest"
  obtain a b c d where o: "u32_to_be w = [a, b, c, d]"
    using list4 [OF int_codec_lengths(2) [of w]] by blast
  then have v: "((unat a * 256 + unat b) * 256 + unat c) * 256 + unat d = unat w"
    using be_val_u32 [of w] by (simp add: be_val_def)
  have l: "unat x < 256" for x :: byte using unat_bound [of x] by simp
  have "(word_of_nat (((unat a * 256 + unat b) * 256 + unat c) * 256 + unat d) :: u32) = w"
    unfolding v by (simp add: of_nat_unat)
  then show ?thesis
    by (simp add: read_ipv4_def show_ipv4_def o read_octet_show [OF l] no_digit_sep r read_char_def)
qed

section \<open>Printed IPv6 addresses are read back\<close>

definition no_hex :: "string \<Rightarrow> bool" where
  "no_hex rest \<longleftrightarrow> rest = [] \<or> \<not> in_radix 16 (hd rest)"

lemma length_show_hex: "n < 16 ^ Suc k \<Longrightarrow> length (show_nat 16 n) \<le> Suc k"
proof (induction k arbitrary: n)
  case 0
  then show ?case by (subst show_nat.simps) (simp add: Let_def)
next
  case (Suc k)
  show ?case
  proof (cases "n < 16")
    case True
    then show ?thesis by (subst show_nat.simps) (simp add: Let_def)
  next
    case False
    have "n div 16 < 16 ^ Suc k" using Suc.prems by (simp add: div_less_iff_less_mult)
    from Suc.IH [OF this] False show ?thesis by (subst show_nat.simps) (simp add: Let_def)
  qed
qed

lemma read_group_show:
  assumes "n < 65536" "no_hex rest"
  shows "read_number 16 (Some 4) True 65535 (show_nat 16 n @ rest) = Some (n, rest)"
proof -
  have d: "list_all (in_radix 16) (show_nat 16 n)" "show_nat 16 n \<noteq> []" "digits_val 16 (show_nat 16 n) = n"
    using show_nat_digits [of 16 n] by simp_all
  have "(16 :: nat) ^ Suc 3 = 65536" "Suc 3 = 4" by simp_all
  then have l: "length (show_nat 16 n) \<le> 4" using length_show_hex [of n 3] assms(1) by (simp only:)
  have "takeWhile (in_radix 16) (show_nat 16 n @ rest) = show_nat 16 n"
    using d(1) assms(2) by (cases rest) (auto simp: list_all_iff takeWhile_append no_hex_def)
  with d l assms(1) show ?thesis by (simp add: read_number_def Let_def)
qed

text \<open>A group of hexadecimal digits is not the start of a dotted address.\<close>

definition no_dot :: "string \<Rightarrow> bool" where
  "no_dot rest \<longleftrightarrow> no_hex rest \<and> (rest = [] \<or> hd rest \<noteq> CHR ''.'')"

lemma read_ipv4_no_dot:
  assumes "case drop (length (takeWhile (in_radix 10) s)) s of [] \<Rightarrow> True | c # _ \<Rightarrow> c \<noteq> CHR ''.''"
  shows "read_ipv4 s = None"
proof -
  have "\<forall>a s1. read_octet s = Some (a, s1) \<longrightarrow> read_char (CHR ''.'') s1 = None"
    using assms by (auto simp: read_octet_def read_number_def Let_def read_char_def split: list.splits if_splits)
  then show ?thesis by (cases "read_octet s") (auto simp: read_ipv4_def)
qed

lemma radix_sep: "\<not> in_radix 16 (CHR ''.'')" "\<not> in_radix 16 (CHR '':'')" "\<not> in_radix 16 (CHR '']'')"
  by (simp_all add: in_radix_def digit_val_def)

lemma drop_takeWhile: "drop (length (takeWhile P xs)) xs = dropWhile P xs"
  by (simp add: dropWhile_eq_drop)

lemma read_ipv4_hex: 
  assumes "list_all (in_radix 16) ds" "no_dot rest"
  shows "read_ipv4 (ds @ rest) = None"
proof (rule read_ipv4_no_dot, unfold drop_takeWhile)
  show "case dropWhile (in_radix 10) (ds @ rest) of [] \<Rightarrow> True | c # _ \<Rightarrow> c \<noteq> CHR ''.''"
    using assms
  proof (induction ds)
    case Nil
    then have "\<not> in_radix 10 (hd rest)" if "rest \<noteq> []"
      using that by (auto simp: no_dot_def no_hex_def in_radix_def split: option.splits)
    with Nil show ?case by (cases rest) (auto simp: no_dot_def)
  next
    case (Cons c ds)
    then show ?case by (auto simp: radix_sep)
  qed
qed

text \<open>What may follow a run of groups: no digit, no dot, and no colon that starts another group.\<close>

definition groups_end :: "string \<Rightarrow> bool" where
  "groups_end rest \<longleftrightarrow> no_dot rest \<and> (case rest of c # r \<Rightarrow> c = CHR '':'' \<longrightarrow> r \<noteq> [] \<and> hd r = CHR '':'' | [] \<Rightarrow> True)"

lemma read_nothing:
  "no_dot rest \<Longrightarrow> read_ipv4 rest = None" "no_hex rest \<Longrightarrow> read_number 16 md zp m rest = None"
  using read_ipv4_hex [of "[]" rest] by (auto simp: read_number_def no_hex_def takeWhile_eq_Nil_iff)

lemma no_dot_colon: "no_dot (CHR '':'' # r)"
  by (simp add: no_dot_def no_hex_def radix_sep)

lemma read_groups_none: 
  assumes "groups_end rest"
  shows "read_groups n first rest = ([], False, rest)"
proof (cases n)
  case (Suc m)
  show ?thesis
  proof (cases first)
    case True
    with assms Suc show ?thesis by (simp add: groups_end_def read_nothing no_dot_def Let_def)
  next
    case False
    then show ?thesis
    proof (cases "\<exists>r. rest = CHR '':'' # CHR '':'' # r")
      case True
      then obtain r where "rest = CHR '':'' # CHR '':'' # r" by blast
      with Suc False show ?thesis
        using read_nothing [of "CHR '':'' # r"] no_dot_colon [of r] by (simp add: read_char_def Let_def no_dot_def)
    next
      case F: False
      with assms have "read_char (CHR '':'') rest = None"
        by (auto simp: groups_end_def read_char_def neq_Nil_conv split: list.splits)
      with Suc False show ?thesis by (simp add: Let_def)
    qed
  qed
qed simp

lemma read_groups_show:
  assumes "list_all (\<lambda>g. g < 65536) gs" "length gs \<le> n" "groups_end rest"
  shows "read_groups n True (show_groups gs @ rest) = (gs, False, rest)"
    "gs \<noteq> [] \<Longrightarrow> read_groups n False (CHR '':'' # show_groups gs @ rest) = (gs, False, rest)"
proof -
  have main: "read_groups n first ((if first \<or> gs = [] then [] else '':'') @ show_groups gs @ rest) = (gs, False, rest)" for first
    using assms
  proof (induction gs arbitrary: n first)
    case Nil
    then show ?case using read_groups_none by (simp add: show_groups_def)
  next
    case (Cons g gs)
    then obtain m where n: "n = Suc m" by (cases n) auto
    let ?r = "(if gs = [] then [] else '':'') @ show_groups gs @ rest"
    have s: "show_groups (g # gs) @ rest = show_nat 16 g @ ?r" by (cases gs) (simp_all add: show_groups_def)
    have nd: "no_dot ?r" using Cons.prems(3) no_dot_colon by (auto simp: show_groups_def groups_end_def)
    have h: "read_ipv4 (show_nat 16 g @ ?r) = None"
      using show_nat_digits [of 16 g] nd by (intro read_ipv4_hex) simp_all
    have g: "read_number 16 (Some 4) True 65535 (show_nat 16 g @ ?r) = Some (g, ?r)"
      using Cons.prems(1) nd by (intro read_group_show) (simp_all add: no_dot_def)
    have "read_groups m False ?r = (gs, False, rest)" using Cons.IH [of m False] Cons.prems n by simp
    moreover have "gs \<noteq> [] \<Longrightarrow> 0 < m" using Cons.prems(2) n by (cases gs) auto
    ultimately show ?case using n h g s by (auto simp: read_char_def Let_def show_groups_def)
  qed
  from main [of True] show "read_groups n True (show_groups gs @ rest) = (gs, False, rest)" by simp
  from main [of False] show "gs \<noteq> [] \<Longrightarrow> read_groups n False (CHR '':'' # show_groups gs @ rest) = (gs, False, rest)" by simp
qed

lemma zero_run_spec:
  assumes "zero_run gs i cur best = (start, len)" "i = length pre" "all = pre @ gs"
    "snd cur \<le> i" "drop (i - snd cur) pre = replicate (snd cur) 0" "0 < snd cur \<Longrightarrow> fst cur = i - snd cur"
    "fst best + snd best \<le> i" "take (snd best) (drop (fst best) pre) = replicate (snd best) 0"
  shows "start + len \<le> length all \<and> take len (drop start all) = replicate len 0"
  using assms
proof (induction gs i cur best arbitrary: pre rule: zero_run.induct)
  case (1 i cur best)
  then show ?case by simp
next
  case (2 g gs i cur best)
  show ?case
  proof (cases "g = 0")
    case False
    then have "zero_run gs (i + 1) (0, 0) best = (start, len)" using 2(3) by simp
    from 2(2) [OF False this, of "pre @ [g]"] 2(4-) show ?thesis by simp
  next
    case True
    define k where "k = (if snd cur = 0 then (i, 1) else (fst cur, snd cur + 1))"
    have k: "snd k = snd cur + 1" "fst k = i - snd cur" using 2(8) by (auto simp: k_def)
    have d: "drop (i + 1 - snd k) (pre @ [g]) = replicate (snd k) 0"
      using 2(4,6,7) True k by (simp add: replicate_append_same)
    define b where "b = (if snd best < snd k then k else best)"
    have r: "zero_run gs (i + 1) k b = (start, len)" using 2(3) True by (simp add: k_def b_def Let_def split: if_splits)
    have "fst b + snd b \<le> i + 1" "take (snd b) (drop (fst b) (pre @ [g])) = replicate (snd b) 0"
      using 2(4,6,9,10) k d by (auto simp: b_def)
    with 2(1) [OF True refl, folded k_def, folded b_def, OF r, of "pre @ [g]"] 2(4,5,6) d k show ?thesis
      by simp
  qed
qed

lemma zero_run_split:
  assumes "zero_run gs 0 (0, 0) (0, 0) = (start, len)"
  shows "gs = take start gs @ replicate len 0 @ drop (start + len) gs" "start + len \<le> length gs"
proof -
  have z: "start + len \<le> length gs" "take len (drop start gs) = replicate len 0"
    using zero_run_spec [OF assms, of "[]" gs] by simp_all
  show "start + len \<le> length gs" by (rule z)
  have "gs = take start gs @ take len (drop start gs) @ drop len (drop start gs)"
    by (simp only: append_take_drop_id)
  with z(2) show "gs = take start gs @ replicate len 0 @ drop (start + len) gs" by (simp add: add.commute)
qed

lemma word_groups:
  "length (word_groups n v) = n" "list_all (\<lambda>g. g < 65536) (word_groups n v)"
  "foldl (\<lambda>a g. a * 65536 + g) 0 (word_groups n v) = v mod 65536 ^ n"
proof -
  show "length (word_groups n v) = n" by (induction n arbitrary: v) simp_all
  show "list_all (\<lambda>g. g < 65536) (word_groups n v)" by (induction n arbitrary: v) simp_all
  show "foldl (\<lambda>a g. a * 65536 + g) 0 (word_groups n v) = v mod 65536 ^ n"
  proof (induction n arbitrary: v)
    case (Suc n)
    have "v mod (65536 * 65536 ^ n) = 65536 * (v div 65536 mod 65536 ^ n) + v mod 65536" by (rule mod_mult2_eq)
    with Suc show ?case by simp
  qed simp
qed

lemma groups_word_groups: "groups_word (word_groups 8 (unat w)) = w"
proof -
  have "unat w < 65536 ^ 8" using unat_bound [of w] by simp
  then show ?thesis by (simp only: groups_word_def word_groups mod_less) (simp add: of_nat_unat)
qed

text \<open>The compressed form and an IPv4-mapped address, read back group by group.\<close>

lemma read_ipv6_short:
  assumes "list_all (\<lambda>g. g < 65536) (hs @ ts)" "length hs + length ts < 8" "rest \<noteq> []" "hd rest = CHR '']''"
  shows "read_ipv6 (show_groups hs @ ''::'' @ show_groups ts @ rest) =
    Some (groups_word (hs @ replicate (8 - length hs - length ts) 0 @ ts), rest)"
proof -
  have e: "groups_end rest" using assms(3,4) by (cases rest) (simp_all add: groups_end_def no_dot_def no_hex_def radix_sep)
  have "groups_end (''::'' @ show_groups ts @ rest)" by (simp add: groups_end_def no_dot_colon)
  then have h: "read_groups 8 True (show_groups hs @ ''::'' @ show_groups ts @ rest) = (hs, False, ''::'' @ show_groups ts @ rest)"
    using assms(1,2) by (intro read_groups_show) simp_all
  have t: "read_groups (8 - (length hs + 1)) True (show_groups ts @ rest) = (ts, False, rest)"
    using assms(1,2) e by (intro read_groups_show) simp_all
  from assms(2) show ?thesis unfolding read_ipv6_def h by (simp add: read_char_def t [simplified])
qed

lemma groups_word_zeros: "groups_word (replicate n 0 @ ts) = groups_word ts"
proof -
  have "foldl (\<lambda>a g. a * 65536 + g) (0 :: nat) (replicate n 0) = 0" by (induction n) simp_all
  then show ?thesis by (simp add: groups_word_def)
qed

lemma read_ipv6_tail:
  assumes "read_groups 7 True u = (ts, f, r)"
  shows "read_ipv6 (''::'' @ u) = Some (groups_word ts, r)"
proof -
  have "read_groups 8 True (''::'' @ u) = ([], False, ''::'' @ u)"
    by (rule read_groups_none) (simp add: groups_end_def no_dot_colon)
  with assms show ?thesis by (simp add: read_ipv6_def read_char_def groups_word_zeros)
qed

lemma read_groups_mapped:
  assumes "no_digit rest" "0 < m"
  shows "read_groups (Suc (Suc m)) True (''ffff:'' @ show_ipv4 x @ rest) =
    ([65535, unat x div 65536, unat x mod 65536], True, rest)"
proof -
  let ?t = "CHR '':'' # show_ipv4 x @ rest"
  have "char_of (102 :: nat) = CHR ''f''" by (rule char_of_eq_iff [THEN iffD2]) simp
  then have f: "''ffff'' = show_nat 16 65535" by (simp add: show_nat.simps Let_def)
  have g: "read_number 16 (Some 4) True 65535 (''ffff'' @ ?t) = Some (65535, ?t)"
    unfolding f using no_dot_colon by (intro read_group_show) (simp_all add: no_dot_def)
  have v: "read_ipv4 (''ffff'' @ ?t) = None"
    using no_dot_colon by (intro read_ipv4_hex) (simp_all add: in_radix_def digit_val_def)
  have "read_groups (Suc m) False ?t = ([unat x div 65536, unat x mod 65536], True, rest)"
    using assms by (simp add: read_char_def Let_def read_show_ipv4)
  moreover have "read_groups (Suc (Suc m)) True (''ffff'' @ ?t) =
      (let (gs, f, r') = read_groups (Suc m) False ?t in (65535 # gs, f, r'))"
    by (subst read_groups.simps) (simp add: g [simplified] v [simplified] del: read_groups.simps)
  ultimately show ?thesis by (simp del: read_groups.simps)
qed

lemma read_ipv6_mapped:
  assumes "unat (w :: 128 word) div 2 ^ 32 = 65535" "no_digit rest"
  shows "read_ipv6 (''::ffff:'' @ show_ipv4 (word_of_nat (unat w mod 2 ^ 32)) @ rest) = Some (w, rest)"
proof -
  let ?x = "word_of_nat (unat w mod 2 ^ 32) :: u32"
  have x: "unat ?x = unat w mod 2 ^ 32" by (simp add: unat_of_nat)
  have "(65535 * 65536 + unat ?x div 65536) * 65536 + unat ?x mod 65536 = 65535 * 2 ^ 32 + unat ?x" by simp
  also have "\<dots> = unat w div 2 ^ 32 * 2 ^ 32 + unat w mod 2 ^ 32" by (simp only: x assms(1))
  also have "\<dots> = unat w" by (rule div_mult_mod_eq)
  finally have w: "groups_word [65535, unat ?x div 65536, unat ?x mod 65536] = w"
    by (simp only: groups_word_def foldl_Cons foldl_Nil mult_0 add_0) (simp add: of_nat_unat)
  have "7 = Suc (Suc 5)" by simp
  then have "read_groups 7 True (''ffff:'' @ show_ipv4 ?x @ rest) = ([65535, unat ?x div 65536, unat ?x mod 65536], True, rest)"
    using read_groups_mapped [OF assms(2), of 5 ?x] by (simp only:)
  from read_ipv6_tail [OF this] w show ?thesis by simp
qed

lemma read_show_ipv6: "read_ipv6 (show_ipv6 w @ CHR '']'' # r) = Some (w, CHR '']'' # r)"
proof -
  let ?gs = "word_groups 8 (unat w)"
  have n: "no_digit (CHR '']'' # r)" by (simp add: no_digit_def in_radix_def digit_val_def)
  obtain start len where z: "zero_run ?gs 0 (0, 0) (0, 0) = (start, len)" by fastforce
  note s = zero_run_split [OF z]
  have ok: "list_all (\<lambda>g. g < 65536) ?gs" by (rule word_groups)
  consider "unat w div 2 ^ 32 = 65535" | "unat w div 2 ^ 32 \<noteq> 65535" "1 < len" | "unat w div 2 ^ 32 \<noteq> 65535" "\<not> 1 < len"
    by blast
  then show ?thesis
  proof cases
    case 1
    with read_ipv6_mapped [OF 1 n] show ?thesis by (simp add: show_ipv6_def z Let_def)
  next
    case 2
    let ?h = "take start ?gs" and ?t = "drop (start + len) ?gs"
    have l: "length ?h = start" "length ?t = 8 - (start + len)" using s(2) by (simp_all add: word_groups)
    have "list_all (\<lambda>g. g < 65536) (?h @ ?t)" using ok by (auto simp: list_all_iff dest: in_set_takeD in_set_dropD)
    moreover have "length ?h + length ?t < 8" "8 - length ?h - length ?t = len" using 2(2) s(2) l by (simp_all add: word_groups)
    ultimately have "read_ipv6 (show_groups ?h @ ''::'' @ show_groups ?t @ CHR '']'' # r) =
        Some (groups_word (?h @ replicate len 0 @ ?t), CHR '']'' # r)"
      using read_ipv6_short [of ?h ?t "CHR '']'' # r"] by simp
    moreover have "?h @ replicate len 0 @ ?t = ?gs" by (rule s(1) [symmetric])
    ultimately show ?thesis using 2 by (simp add: show_ipv6_def z groups_word_groups Let_def)
  next
    case 3
    have "groups_end (CHR '']'' # r)" by (simp add: groups_end_def no_dot_def no_hex_def radix_sep)
    then have "read_groups 8 True (show_groups ?gs @ CHR '']'' # r) = (?gs, False, CHR '']'' # r)"
      using ok by (intro read_groups_show) (simp_all add: word_groups)
    with 3 show ?thesis by (simp add: show_ipv6_def z read_ipv6_def word_groups groups_word_groups Let_def)
  qed
qed

section \<open>Printed endpoints are read back\<close>

lemma show_nat_ne: "show_nat 10 n \<noteq> []" "in_radix 10 (hd (show_nat 10 n))" "in_radix 10 (List.last (show_nat 10 n))"
  using show_nat_digits [of 10 n] by (auto simp: list_all_iff)

lemma digit_plain: "in_radix 10 c \<Longrightarrow> \<not> is_whitespace c \<and> c \<noteq> CHR ''['' \<and> c \<noteq> CHR '':'' \<and> c \<noteq> CHR ''+''"
  by (auto simp: in_radix_def digit_val_def is_whitespace_def Let_def split: if_splits)

lemma show_ipv4_hd: "show_ipv4 w \<noteq> []" "in_radix 10 (hd (show_ipv4 w))"
proof -
  obtain a b c d where "u32_to_be w = [a, b, c, d]"
    using list4 [OF int_codec_lengths(2) [of w]] by blast
  then show "show_ipv4 w \<noteq> []" "in_radix 10 (hd (show_ipv4 w))"
    using show_nat_ne [of "unat a"] by (simp_all add: show_ipv4_def)
qed

lemma parse_socket_addr_show: "parse_socket_addr (show_socket_addr a) = Some a"
proof (cases "ip a")
  case (V4 w)
  have "read_socket_v4 (show_socket_addr a) = Some (a, [])"
    using V4 by (simp add: read_socket_v4_def show_socket_addr_def read_show_ipv4 no_digit_sep read_char_def read_port_show)
  then show ?thesis by (simp add: parse_socket_addr_def)
next
  case (V6 w)
  have "read_ipv4 (CHR ''['' # s) = None" for s
    by (rule read_ipv4_no_dot) (simp add: in_radix_def digit_val_def)
  then have "read_socket_v4 (show_socket_addr a) = None" using V6 by (simp add: read_socket_v4_def show_socket_addr_def)
  moreover have "read_socket_v6 (show_socket_addr a) = Some (a, [])"
    using V6 by (simp add: read_socket_v6_def show_socket_addr_def read_show_ipv6 read_char_def read_port_show)
  ultimately show ?thesis by (simp add: parse_socket_addr_def)
qed

lemma trim_show_socket: "trim (show_socket_addr a) = show_socket_addr a"
proof (rule trim_id)
  show "show_socket_addr a \<noteq> []" by (simp add: show_socket_addr_def)
  show "\<not> is_whitespace (hd (show_socket_addr a))"
    using show_ipv4_hd digit_plain by (auto simp: show_socket_addr_def is_whitespace_def split: IpAddr.split)
  show "\<not> is_whitespace (List.last (show_socket_addr a))"
    using show_nat_ne [of "unat (port a)"] digit_plain by (simp add: show_socket_addr_def)
qed

lemma rsplit_once_append:
  assumes "d \<notin> set b"
  shows "rsplit_once d (a @ d # b) = Some (a, b)"
proof -
  have "takeWhile (\<lambda>c. c \<noteq> d) (rev b @ d # rev a) = rev b" "dropWhile (\<lambda>c. c \<noteq> d) (rev b @ d # rev a) = d # rev a"
    using assms by (auto simp: takeWhile_append dropWhile_append)
  then show ?thesis by (simp add: rsplit_once_def)
qed

lemma parse_u16_show: "parse_u16 (show_nat 10 (unat p)) = Some p"
proof -
  let ?ds = "show_nat 10 (unat p)"
  have d: "list_all (in_radix 10) ?ds" "?ds \<noteq> []" "digits_val 10 ?ds = unat p"
    using show_nat_digits [of 10 "unat p"] by simp_all
  then have "(case ?ds of c # r \<Rightarrow> if c = CHR ''+'' then r else ?ds | [] \<Rightarrow> ?ds) = ?ds"
    using digit_plain [of "CHR ''+''"] by (auto split: list.split)
  moreover have "unat p \<le> 65535" using unat_bound [of p] by simp
  ultimately show ?thesis using d by (simp add: parse_u16_def of_nat_unat)
qed

lemma onion_not_socket:
  assumes "length label = 56" "list_all is_base32_lower label"
  shows "parse_socket_addr (label @ CHR ''.'' # r) = None"
proof -
  let ?s = "label @ CHR ''.'' # r"
  have "read_ipv4 ?s = None"
  proof (cases "list_all (in_radix 10) label")
    case True
    then have "3 < length (takeWhile (in_radix 10) ?s)" using assms(1) by (simp add: list_all_iff)
    then have "read_octet ?s = None" by (auto simp: read_octet_def read_number_def Let_def)
    then show ?thesis by (simp add: read_ipv4_def)
  next
    case False
    then have e: "dropWhile (in_radix 10) ?s = dropWhile (in_radix 10) label @ CHR ''.'' # r"
      "dropWhile (in_radix 10) label \<noteq> []" by (auto simp: dropWhile_append list_all_iff)
    have "hd (dropWhile (in_radix 10) label) \<in> set label" using e(2) by (metis hd_in_set set_dropWhileD)
    then have "is_base32_lower (hd (dropWhile (in_radix 10) label))" using assms(2) by (simp add: list_all_iff)
    moreover have "\<not> is_base32_lower (CHR ''.'')" by (simp add: is_base32_lower_def)
    ultimately show ?thesis using e
      by (intro read_ipv4_no_dot, unfold drop_takeWhile e(1), cases "dropWhile (in_radix 10) label") auto
  qed
  moreover have "read_socket_v6 ?s = None"
    using assms by (cases label) (auto simp: read_socket_v6_def read_char_def is_base32_lower_def)
  ultimately show ?thesis by (simp add: parse_socket_addr_def read_socket_v4_def)
qed

lemma parse_endpoint_show:
  assumes "hint_ok e"
  shows "parse_endpoint (show_endpoint e) = Inr e"
proof (cases e)
  case (Direct a)
  then show ?thesis by (simp add: parse_endpoint_def show_endpoint_def trim_show_socket parse_socket_addr_show)
next
  case (Onion a)
  with assms have ok: "onion_ok a" by (simp add: hint_ok_def)
  then obtain label where l: "ohost a = label @ ''.onion''" "length label = 56" "list_all is_base32_lower label"
    by (rule onion_split)
  let ?ds = "show_nat 10 (unat (oport a))"
  have "list_all (in_radix 10) ?ds" using show_nat_digits [of 10 "unat (oport a)"] by simp
  then have "CHR '':'' \<notin> set ?ds" using digit_plain by (auto simp: list_all_iff)
  then have sp: "rsplit_once (CHR '':'') (ohost a @ CHR '':'' # ?ds) = Some (ohost a, ?ds)" by (rule rsplit_once_append)
  have "is_base32_lower (hd label)" "label \<noteq> []" using l(2,3) by (cases label; simp)+
  then have t: "trim (ohost a @ CHR '':'' # ?ds) = ohost a @ CHR '':'' # ?ds"
    using l(1) base32_char(2) show_nat_ne [of "unat (oport a)"] digit_plain by (intro trim_id) simp_all
  have n: "parse_socket_addr (ohost a @ CHR '':'' # ?ds) = None"
    using onion_not_socket [OF l(2,3), of "''onion:'' @ ?ds"] l(1) by simp
  have s: "strip_suffix ''.onion'' (ohost a) \<noteq> None" using l(1) by (simp add: strip_suffix_Some)
  show ?thesis using Onion ok s
    by (simp add: parse_endpoint_def show_endpoint_def t n sp parse_u16_show OnionAddress_new_id)
qed

lemma parse_endpoint_ok: "parse_endpoint s = Inr e \<Longrightarrow> hint_ok e"
  by (auto simp: parse_endpoint_def Let_def hint_ok_def result_simps split: option.splits if_splits
      dest: OnionAddress_new_ok)

end
