(* ===== verification/LiveCommands.thy ===== *)
theory LiveCommands
  imports AddrText Config Pairing Blind Ladder LiveTransfer Stun
begin

text \<open>
  The \<open>atom live\<close> commands (\<open>atom/src/commands/live.rs\<close>): the private identity and the state on disk,
  the advertised addresses, pairing, the configured rendezvous endpoints, announcing and the transfer
  of a vault to or from a paired peer. A command is a function on \<open>LiveHome\<close>, what the command finds
  on disk, that also says how it failed. \<open>serde_json\<close> and key generation are fields of \<open>live_lib\<close>.
\<close>

section \<open>What is stored\<close>

record LivePeer =
  lp_nickname :: string
  lp_ticket :: string
  lp_secret :: "string option"
  lp_last_known :: "string list"
  lp_newest_seen :: "u64 option"

record RendezvousEndpoint =
  re_name :: string
  re_link :: string
  via_socks :: "string option"

record LiveState =
  my_endpoints :: "string list"
  peers :: "LivePeer list"
  rendezvous :: "RendezvousEndpoint list"

definition LiveState_default :: LiveState where
  "LiveState_default = \<lparr>my_endpoints = [], peers = [], rendezvous = []\<rparr>"

record live_lib =
  ll_crypto :: crypto_lib
  ll_keys :: key_lib
  ll_pake :: pake_lib
  ll_xof :: xof
  ll_name_ok :: "string \<Rightarrow> bool"
  state_to_json :: "LiveState \<Rightarrow> bytes"
  state_from_json :: "bytes \<Rightarrow> LiveState option"
  ed_generate :: "rng \<Rightarrow> (bytes \<times> bytes) option \<times> rng"
  pq_generate :: "rng \<Rightarrow> (bytes \<times> bytes option) option \<times> rng"

record LiveHome =
  lh_home :: bool
  lh_key :: "bytes option"
  lh_identity :: "bytes option"
  lh_peers :: "bytes option"
  lh_identity_io :: WriteIO
  lh_peers_io :: WriteIO
  lh_readable :: bool
  lh_clock :: u64
  lh_rng :: rng
  lh_vaults :: "string \<Rightarrow> disk"
  lh_paths :: "Path list"
  lh_servers :: "Substrate list"

type_synonym 'a live = "LiveHome \<Rightarrow> LiveHome \<times> (live_error + 'a)"

definition retL :: "'a \<Rightarrow> 'a live" where
  "retL x h = (h, Inr x)"

definition liftL :: "live_error + 'a \<Rightarrow> 'a live" where
  "liftL r h = (h, r)"

definition bindL :: "'a live \<Rightarrow> ('a \<Rightarrow> 'b live) \<Rightarrow> 'b live" where
  "bindL m f h = (case m h of (h', Inl e) \<Rightarrow> (h', Inl e) | (h', Inr x) \<Rightarrow> f x h')"

text \<open>
  \<open>write_private\<close> on one of the two files: encrypting draws a nonce; a file that cannot be opened is
  left alone, a write that stops leaves the part that was written.
\<close>

definition write_private ::
    "live_lib \<Rightarrow> (LiveHome \<Rightarrow> WriteIO) \<Rightarrow> (bytes \<Rightarrow> LiveHome \<Rightarrow> LiveHome) \<Rightarrow> bytes \<Rightarrow> unit live" where
  "write_private L io store data h =
     (case encrypt_config (ll_crypto L) (lh_key h) data (lh_rng h) of
        Inl e \<Rightarrow> (h, Inl (Msg e))
      | Inr (sealed, g) \<Rightarrow>
          let h1 = h\<lparr>lh_rng := g\<rparr> in
          if \<not> open_ok (io h) then (h1, Inl (Msg ''open''))
          else case write_cut (io h) of
            None \<Rightarrow> (store sealed h1, Inr ())
          | Some k \<Rightarrow> (store (take k sealed) h1, Inl (Msg ''write'')))"

definition set_identity :: "bytes \<Rightarrow> LiveHome \<Rightarrow> LiveHome" where
  "set_identity b h = h\<lparr>lh_identity := Some b\<rparr>"

definition set_peers :: "bytes \<Rightarrow> LiveHome \<Rightarrow> LiveHome" where
  "set_peers b h = h\<lparr>lh_peers := Some b\<rparr>"

definition LivePeer_new :: "live_lib \<Rightarrow> string \<Rightarrow> Ticket \<Rightarrow> string \<Rightarrow> LivePeer" where
  "LivePeer_new L nick t secret_text =
     \<lparr>lp_nickname = nick, lp_ticket = ticket_to_text (ll_keys L) t, lp_secret = Some secret_text,
      lp_last_known = [], lp_newest_seen = None\<rparr>"

definition is_reachable_by_id :: "LivePeer \<Rightarrow> bool" where
  "is_reachable_by_id p \<longleftrightarrow> lp_secret p \<noteq> None"

definition re_parsed :: "live_lib \<Rightarrow> RendezvousEndpoint \<Rightarrow> live_error + ServerLink" where
  "re_parsed L e = map_err Live (link_from_text (ll_keys L) (ll_name_ok L) (re_link e))"

definition re_proxy :: "RendezvousEndpoint \<Rightarrow> live_error + SocketAddr option" where
  "re_proxy e =
     (case via_socks e of
        None \<Rightarrow> Inr None
      | Some s \<Rightarrow> bindE (ok_or (Msg ''is not a host:port for a SOCKS proxy'') (parse_socket_addr s)) (\<lambda>a. Inr (Some a)))"

definition re_build :: "live_lib \<Rightarrow> RendezvousEndpoint \<Rightarrow> live_error + BlindEndpoint" where
  "re_build L e =
     bindE (re_parsed L e) (\<lambda>link.
     bindE (re_proxy e) (\<lambda>proxy.
       map_err Live (from_link (ll_name_ok L) link proxy)))"

definition state_peer :: "string \<Rightarrow> LiveState \<Rightarrow> LivePeer option" where
  "state_peer nick st = List.find (\<lambda>p. lp_nickname p = nick) (peers st)"

definition encode_secret :: "live_lib \<Rightarrow> bytes \<Rightarrow> string" where
  "encode_secret L secret = to_lowercase (b32_encode (ll_keys L) secret)"

definition decode_secret :: "live_lib \<Rightarrow> string \<Rightarrow> live_error + bytes" where
  "decode_secret L s =
     bindE (ok_or (Msg ''stored rendezvous secret is not valid base32'')
              (b32_decode (ll_keys L) (to_uppercase (trim s)))) (\<lambda>raw.
     bindE (guardE (length raw = 32) (Msg ''stored rendezvous secret is not 32 bytes'')) (\<lambda>_. Inr raw))"

definition read_private :: "live_lib \<Rightarrow> (LiveHome \<Rightarrow> bytes option) \<Rightarrow> bytes option live" where
  "read_private L get =
     (\<lambda>h. if \<not> lh_home h then (h, Inl (Msg ''Could not find home directory''))
          else case get h of
            None \<Rightarrow> (h, Inr None)
          | Some raw \<Rightarrow>
              (h, bindE (guardE (lh_readable h) (Msg ''read'')) (\<lambda>_.
                  bindE (map_err Msg (decrypt_config (ll_crypto L) (lh_key h) raw)) (\<lambda>p. Inr (Some p)))))"

definition load_state :: "live_lib \<Rightarrow> LiveState live" where
  "load_state L =
     bindL (read_private L lh_peers) (\<lambda>r.
       case r of
         None \<Rightarrow> retL LiveState_default
       | Some plain \<Rightarrow> liftL (ok_or (Msg ''json'') (state_from_json L plain)))"

definition save_state :: "live_lib \<Rightarrow> LiveState \<Rightarrow> unit live" where
  "save_state L st h =
     (if \<not> lh_home h then (h, Inl (Msg ''Could not find home directory''))
      else write_private L lh_peers_io set_peers (state_to_json L st) h)"

text \<open>\<open>LocalIdentity::generate\<close> and \<open>LocalBundle::generate\<close>.\<close>

definition LocalIdentity_generate :: "live_lib \<Rightarrow> rng \<Rightarrow> (Error + LocalIdentity) \<times> rng" where
  "LocalIdentity_generate L g =
     (case ed_generate L g of
        (None, g') \<Rightarrow> (Inl (EIdentity ''key generation failed''), g')
      | (Some (p, der), g') \<Rightarrow> (Inr \<lparr>li_public = p, li_pkcs8 = der\<rparr>, g'))"

definition LocalBundle_generate :: "live_lib \<Rightarrow> rng \<Rightarrow> (Error + LocalBundle) \<times> rng" where
  "LocalBundle_generate L g =
     (case LocalIdentity_generate L g of
        (Inl e, g1) \<Rightarrow> (Inl e, g1)
      | (Inr cl, g1) \<Rightarrow>
          (case pq_generate L g1 of
             (None, g2) \<Rightarrow> (Inl (EIdentity ''ML-DSA-65 key generation failed''), g2)
           | (Some (p, pkcs8), g2) \<Rightarrow>
               (bindE (ok_or (EIdentity ''could not serialise the ML-DSA key'') pkcs8) (\<lambda>der.
                bindE (PqPublicKey_from_bytes p) (\<lambda>p.
                  Inr \<lparr>lb_classical = cl, lb_pq_pkcs8 = Some der, lb_pq_public = Some p\<rparr>)), g2)))"

definition generate_bundle :: "live_lib \<Rightarrow> LocalBundle live" where
  "generate_bundle L h = (let (r, g) = LocalBundle_generate L (lh_rng h) in (h\<lparr>lh_rng := g\<rparr>, map_err Live r))"

definition load_or_create_identity :: "live_lib \<Rightarrow> LocalBundle live" where
  "load_or_create_identity L =
     bindL (read_private L lh_identity) (\<lambda>r.
       case r of
         Some plain \<Rightarrow> liftL (map_err Live (from_secret_bytes (ll_keys L) plain))
       | None \<Rightarrow>
           bindL (generate_bundle L) (\<lambda>bundle.
           bindL (write_private L lh_identity_io set_identity (to_secret_bytes bundle)) (\<lambda>_.
             retL bundle)))"

section \<open>Identity and addresses\<close>

record IdentitySummary =
  is_id :: string
  is_fingerprint :: string
  is_hybrid_id :: bool
  is_endpoints :: "string list"

definition identity_summary :: "live_lib \<Rightarrow> IdentitySummary live" where
  "identity_summary L =
     bindL (load_or_create_identity L) (\<lambda>bundle.
     bindL (load_state L) (\<lambda>st.
     let b = local_bundle bundle; i = bundle_id (ll_keys L) b in
       retL \<lparr>is_id = id_to_base32 (ll_keys L) i, is_fingerprint = id_fingerprint i, is_hybrid_id = is_hybrid b,
         is_endpoints = my_endpoints st\<rparr>))"

text \<open>A loop that parses every element and stops at the first that fails.\<close>

fun parse_all :: "('a \<Rightarrow> 'e + 'b) \<Rightarrow> 'a list \<Rightarrow> 'e + 'b list" where
  "parse_all f [] = Inr []"
| "parse_all f (x # xs) = bindE (f x) (\<lambda>y. bindE (parse_all f xs) (\<lambda>ys. Inr (y # ys)))"

definition set_endpoints :: "live_lib \<Rightarrow> string list \<Rightarrow> unit live" where
  "set_endpoints L addresses =
     bindL (liftL (parse_all parse_endpoint addresses)) (\<lambda>parsed.
     bindL (load_state L) (\<lambda>st.
       save_state L (st\<lparr>my_endpoints := map show_endpoint parsed\<rparr>)))"

text \<open>What the STUN socket does: whether it binds and sends, the time and what arrives.\<close>

record stun_run =
  st_bind :: bool
  st_send :: bool
  st_now :: nat
  st_arrivals :: "arrival list"

definition discover_address :: "live_lib \<Rightarrow> stun_run \<Rightarrow> string \<Rightarrow> string live" where
  "discover_address L s server_text =
     bindL (liftL (ok_or (Msg ''is not a host:port'') (parse_socket_addr server_text))) (\<lambda>server.
     bindL (\<lambda>h. (h, bindE (guardE (st_bind s) (Msg ''bind'')) (\<lambda>_.
        map_err Live (discover (st_send s) server (st_now s) 5000000000 (st_arrivals s) (lh_rng h))))) (\<lambda>found.
     bindL (set_endpoints L [show_socket_addr found]) (\<lambda>_.
       retL (show_socket_addr found))))"

definition my_ticket :: "live_lib \<Rightarrow> Ticket live" where
  "my_ticket L =
     bindL (load_or_create_identity L) (\<lambda>bundle.
     bindL (load_state L) (\<lambda>st.
     bindL (liftL (guardE (my_endpoints st \<noteq> []) (Msg ''No address set''))) (\<lambda>_.
     bindL (liftL (parse_all parse_endpoint (my_endpoints st))) (\<lambda>hs.
       (\<lambda>h. (h, Inr (Ticket_new (lh_clock h) (local_bundle bundle) hs)))))))"

section \<open>Pairing\<close>

definition pair_begin :: "live_lib \<Rightarrow> string \<Rightarrow> (PairingState \<times> string) live" where
  "pair_begin L code h =
     (let ((st, msg), g) = pair_start (ll_pake L) code (lh_rng h)
      in (h\<lparr>lh_rng := g\<rparr>, Inr (st, encode_message (ll_keys L) msg)))"

definition pair_exchange :: "live_lib \<Rightarrow> PairingState \<Rightarrow> string \<Rightarrow> (PairedChannel \<times> string) live" where
  "pair_exchange L st peer_message =
     bindL (liftL (map_err Live (decode_message (ll_keys L) peer_message))) (\<lambda>peer.
     bindL (liftL (map_err Live (pair_finish (ll_pake L) (ll_crypto L) st peer))) (\<lambda>channel.
     bindL (my_ticket L) (\<lambda>t.
       (\<lambda>h. case seal_ticket (ll_keys L) (ll_crypto L) channel t (lh_rng h) of
              Inl e \<Rightarrow> (h, Inl (Live e))
            | Inr (sealed, g) \<Rightarrow> (h\<lparr>lh_rng := g\<rparr>, Inr (channel, sealed))))))"

text \<open>The decision on the loaded state: an entry of that name keeps its identity.\<close>

definition save_paired :: "live_lib \<Rightarrow> string \<Rightarrow> Ticket \<Rightarrow> bytes \<Rightarrow> LiveState \<Rightarrow> live_error + LiveState" where
  "save_paired L nick t secret st =
     (let K = ll_keys L in
      case state_peer nick st of
        Some existing \<Rightarrow>
          bindE (map_err Live (ticket_from_text K (lp_ticket existing))) (\<lambda>old.
          bindE (guardE (bundle_id K (identity old) = bundle_id K (identity t))
                   (Msg ''SECURITY ALERT: already paired with a DIFFERENT identity'')) (\<lambda>_.
          case update_first (\<lambda>p. lp_nickname p = nick)
                 (\<lambda>p. p\<lparr>lp_ticket := ticket_to_text K t, lp_secret := Some (encode_secret L secret)\<rparr>) (peers st) of
            Some ps \<Rightarrow> Inr (st\<lparr>peers := ps\<rparr>) | None \<Rightarrow> Inr st))
      | None \<Rightarrow> Inr (st\<lparr>peers := peers st @ [LivePeer_new L nick t (encode_secret L secret)]\<rparr>))"

definition pair_complete :: "live_lib \<Rightarrow> PairedChannel \<Rightarrow> string \<Rightarrow> string \<Rightarrow> Ticket live" where
  "pair_complete L channel sealed nick =
     bindL (liftL (map_err Live (open_ticket (ll_keys L) (ll_crypto L) channel sealed))) (\<lambda>t.
     bindL (load_or_create_identity L) (\<lambda>me.
     bindL (liftL (guardE (bundle_id (ll_keys L) (identity t) \<noteq> bundle_id (ll_keys L) (local_bundle me))
              (Msg ''That ticket is your own identity''))) (\<lambda>_.
     bindL (load_state L) (\<lambda>st.
     bindL (liftL (save_paired L nick t (rendezvous_secret channel) st)) (\<lambda>st'.
     bindL (save_state L st') (\<lambda>_.
       retL t))))))"

text \<open>
  \<open>handle_pair\<close> without its output: the peer's two messages are what the user pastes after each of
  ours is shown.
\<close>

definition handle_pair ::
    "live_lib \<Rightarrow> string \<Rightarrow> string option \<Rightarrow> (string \<Rightarrow> string) \<Rightarrow> (string \<Rightarrow> string) \<Rightarrow> Ticket live" where
  "handle_pair L nick code paste1 paste2 =
     bindL (my_ticket L) (\<lambda>_.
     bindL (case code of
              Some c \<Rightarrow> liftL (map_err Live (code_parse c))
            | None \<Rightarrow> (\<lambda>h. let (c, g) = code_generate (ll_keys L) (lh_rng h) in (h\<lparr>lh_rng := g\<rparr>, Inr c))) (\<lambda>c.
     bindL (pair_begin L c) (\<lambda>(st, our_msg).
     bindL (pair_exchange L st (trim (paste1 our_msg))) (\<lambda>(channel, sealed).
       pair_complete L channel (trim (paste2 sealed)) nick))))"

section \<open>Discovery\<close>

definition discovery_from :: "live_lib \<Rightarrow> LiveState \<Rightarrow> live_error + BlindEndpoint list" where
  "discovery_from L st = parse_all (re_build L) (rendezvous st)"

definition peer_state :: "live_lib \<Rightarrow> LivePeer \<Rightarrow> live_error + PeerState" where
  "peer_state L peer =
     bindE (map_err Live (ticket_from_text (ll_keys L) (lp_ticket peer))) (\<lambda>t.
     bindE (ok_or (Msg ''was paired before rendezvous existed'') (lp_secret peer)) (\<lambda>secret_text.
     bindE (parse_all parse_endpoint (lp_last_known peer)) (\<lambda>known.
     bindE (decode_secret L secret_text) (\<lambda>r.
       Inr \<lparr>ps_identity = identity t, ps_rendezvous = r, last_known = (if known = [] then hints t else known),
            newest_seen = lp_newest_seen peer\<rparr>))))"

definition remember :: "live_lib \<Rightarrow> string \<Rightarrow> PeerState \<Rightarrow> unit live" where
  "remember L nick learned =
     bindL (load_state L) (\<lambda>st.
       case update_first (\<lambda>p. lp_nickname p = nick)
              (\<lambda>p. p\<lparr>lp_last_known := map show_endpoint (last_known learned), lp_newest_seen := newest_seen learned\<rparr>)
              (peers st) of
         Some ps \<Rightarrow> save_state L (st\<lparr>peers := ps\<rparr>)
       | None \<Rightarrow> retL ())"

text \<open>The world a command meets: the network, the servers behind the endpoints, clocks and randomness.\<close>

record live_world =
  w_net :: "SocketAddr \<Rightarrow> net"
  w_server :: "BlindEndpoint \<Rightarrow> Substrate"
  w_wakes1 :: "wakeup list"
  w_wakes2 :: "wakeup list"
  w_now :: nat
  w_millis :: "nat \<Rightarrow> u64"
  w_secs :: "nat \<Rightarrow> u64"
  w_rng :: "nat \<Rightarrow> rng"
  w_tx :: tx_env
  w_open :: bool
  w_mkdir :: bool
  w_first :: "(Error + bytes) \<times> bool"
  w_second :: "(Error + bytes) \<times> bool"
  w_frames :: "rx_event list"

record AnnounceOutcome =
  ao_peer :: string
  ao_reached :: "string list"
  ao_failed :: "(string \<times> Error) list"

definition disc_of :: "live_lib \<Rightarrow> rng \<Rightarrow> Substrate list \<Rightarrow> disc" where
  "disc_of L g subs = \<lparr>d_crypto = ll_crypto L, d_xof = ll_xof L, d_rng = g, d_subs = subs\<rparr>"

fun announce_all ::
    "live_lib \<Rightarrow> live_world \<Rightarrow> LocalBundle \<Rightarrow> Endpoint list \<Rightarrow> string option \<Rightarrow> nat \<Rightarrow> LivePeer list \<Rightarrow> Substrate list \<Rightarrow>
     Substrate list \<times> (live_error + AnnounceOutcome list)" where
  "announce_all L w me hs only i [] subs = (subs, Inr [])"
| "announce_all L w me hs only i (p # ps) subs =
     (if (case only of None \<Rightarrow> False | Some n \<Rightarrow> n \<noteq> lp_nickname p) \<or> \<not> is_reachable_by_id p
      then announce_all L w me hs only (Suc i) ps subs
      else case bindE (peer_state L p) (\<lambda>s.
             map_err Live (announce (ll_keys L) (disc_of L (w_rng w i) subs) me s (w_millis w i) (w_secs w i) hs)) of
        Inl e \<Rightarrow> (subs, Inl e)
      | Inr (subs', rep) \<Rightarrow>
          let (subs'', r) = announce_all L w me hs only (Suc i) ps subs'
          in (subs'', bindE r (\<lambda>os.
                Inr (\<lparr>ao_peer = lp_nickname p, ao_reached = succeeded rep, ao_failed = failed rep\<rparr> # os))))"

text \<open>The servers are left as the announcement leaves them, also when it fails for a later peer.\<close>

definition announce_core :: "live_lib \<Rightarrow> live_world \<Rightarrow> string option \<Rightarrow> AnnounceOutcome list live" where
  "announce_core L w only =
     bindL (load_state L) (\<lambda>st.
     bindL (load_or_create_identity L) (\<lambda>me.
     bindL (liftL (discovery_from L st)) (\<lambda>eps.
     bindL (liftL (guardE (eps \<noteq> []) (Msg ''No rendezvous endpoint configured''))) (\<lambda>_.
     bindL (liftL (parse_all parse_endpoint (my_endpoints st))) (\<lambda>hs.
     bindL (liftL (guardE (hs \<noteq> []) (Msg ''No address set''))) (\<lambda>_.
     bindL (\<lambda>h. let (subs, r) = announce_all L w me hs only 0 (peers st) (map (w_server w) eps)
                in (h\<lparr>lh_servers := subs\<rparr>, r)) (\<lambda>outcomes.
     bindL (liftL (guardE (outcomes \<noteq> []) (Msg ''No peers to announce to''))) (\<lambda>_.
       retL outcomes))))))))"

section \<open>Transfers\<close>

definition RENDEZVOUS_TIMEOUT :: nat where "RENDEZVOUS_TIMEOUT = 120000000000"

definition stored_peer :: "live_lib \<Rightarrow> string \<Rightarrow> LivePeer live" where
  "stored_peer L nick =
     bindL (load_state L) (\<lambda>st. liftL (ok_or (Msg ''No peer of that name'') (state_peer nick st)))"

fun first_direct :: "string list \<Rightarrow> SocketAddr option" where
  "first_direct [] = None"
| "first_direct (e # es) =
     (case parse_endpoint e of Inr (Direct a) \<Rightarrow> Some \<lparr>ip = V4 0, port = port a\<rparr> | _ \<Rightarrow> first_direct es)"

definition bind_address :: "live_lib \<Rightarrow> SocketAddr live" where
  "bind_address L =
     bindL (load_state L) (\<lambda>st. liftL (ok_or (Msg ''No direct address set'') (first_direct (my_endpoints st))))"

datatype TransferDirection = Send string | Receive string

text \<open>The vault's file moves over the session: read when sending, its partial and final file when receiving.\<close>

definition move_vault :: "live_lib \<Rightarrow> live_world \<Rightarrow> TransferDirection \<Rightarrow> Summary live" where
  "move_vault L w direction h =
     (let t = set_pacing Pacing_default Transfer_new; K = ll_keys L in
      case direction of
        Send path \<Rightarrow>
          (case (if w_open w then dest (lh_vaults h path) else None) of
             None \<Rightarrow> (h, Inl (Live (ETransfer ''open'')))
           | Some payload \<Rightarrow>
               (case send_transfer K t (w_tx w) (lh_rng h) payload (fst (w_first w)) (fst (w_second w)) of
                  None \<Rightarrow> (h, Inl (Msg ''panicked''))
                | Some (sent, r) \<Rightarrow> (h, map_err Live r)))
      | Receive path \<Rightarrow>
          let (d, r, sent) = recv_transfer K t (lh_vaults h path) (w_first w) (w_second w) (w_frames w)
          in (h\<lparr>lh_vaults := (lh_vaults h)(path := d)\<rparr>, map_err Live r))"

definition transfer_options :: "BlindEndpoint list \<Rightarrow> Options" where
  "transfer_options eps = \<lparr>opt_timeout = RENDEZVOUS_TIMEOUT, socks = None, use_discovery = (eps \<noteq> [])\<rparr>"

definition run_transfer :: "live_lib \<Rightarrow> live_world \<Rightarrow> string \<Rightarrow> TransferDirection \<Rightarrow> Summary live" where
  "run_transfer L w nick direction =
     bindL (load_state L) (\<lambda>st.
     bindL (stored_peer L nick) (\<lambda>peer.
     bindL (load_or_create_identity L) (\<lambda>me.
     bindL (bind_address L) (\<lambda>bind.
     bindL (liftL (discovery_from L st)) (\<lambda>eps.
     bindL (liftL (peer_state L peer)) (\<lambda>ps.
     let (learned, rungs, r) = connect (w_net w bind) (ll_keys L) (disc_of L (w_rng w 0) (map (w_server w) eps))
           (w_wakes1 w) (w_wakes2 w) me (transfer_options eps) (w_now w) ps in
     case r of
       Inl e \<Rightarrow> liftL (Inl (Live e))
     | Inr (session, path) \<Rightarrow>
         bindL (\<lambda>h. (h\<lparr>lh_paths := lh_paths h @ [path]\<rparr>, Inr ())) (\<lambda>_.
         bindL (move_vault L w direction) (\<lambda>summary.
         bindL (remember L nick learned) (\<lambda>_.
           retL summary)))))))))"

definition send_core :: "live_lib \<Rightarrow> live_world \<Rightarrow> string \<Rightarrow> string \<Rightarrow> Summary live" where
  "send_core L w vault_path nick =
     bindL (\<lambda>h. (h, guardE (dest (lh_vaults h vault_path) \<noteq> None) (Msg ''No such vault''))) (\<lambda>_.
       run_transfer L w nick (Send vault_path))"

definition receive_core :: "live_lib \<Rightarrow> live_world \<Rightarrow> string \<Rightarrow> string \<Rightarrow> Summary live" where
  "receive_core L w save_path nick =
     bindL (liftL (guardE (w_mkdir w) (Msg ''create_dir_all''))) (\<lambda>_.
       run_transfer L w nick (Receive save_path))"

text \<open>The percentage shown while a transfer runs.\<close>

definition progress_pct :: "nat \<Rightarrow> nat \<Rightarrow> nat" where
  "progress_pct transferred total_len =
     (if 2 ^ 64 \<le> transferred * 100 \<or> total_len = 0 then 100 else transferred * 100 div total_len)"

section \<open>Rendezvous endpoints\<close>

definition handle_rendezvous_add :: "live_lib \<Rightarrow> string \<Rightarrow> string option \<Rightarrow> string option \<Rightarrow> unit live" where
  "handle_rendezvous_add L link_text nm proxy =
     bindL (liftL (map_err Live (link_from_text (ll_keys L) (ll_name_ok L) link_text))) (\<lambda>parsed.
     let name = (case nm of Some n \<Rightarrow> n | None \<Rightarrow> link_label parsed);
         cfg = \<lparr>re_name = name, re_link = link_to_text (ll_keys L) parsed, via_socks = proxy\<rparr> in
     bindL (liftL (re_build L cfg)) (\<lambda>_.
     bindL (load_state L) (\<lambda>st.
       save_state L (st\<lparr>rendezvous :=
         (case update_first (\<lambda>e. re_name e = name) (\<lambda>_. cfg) (rendezvous st) of
            Some es \<Rightarrow> es | None \<Rightarrow> rendezvous st @ [cfg])\<rparr>))))"

definition handle_rendezvous_link ::
    "live_lib \<Rightarrow> string \<Rightarrow> u16 \<Rightarrow> string \<Rightarrow> string list \<Rightarrow> string option \<Rightarrow> live_error + ServerLink" where
  "handle_rendezvous_link L h p pre pin_texts onion_text =
     bindE (parse_all (\<lambda>s. map_err Live (parse_pin s)) pin_texts) (\<lambda>parsed_pins.
     bindE (case onion_text of
              None \<Rightarrow> Inr None
            | Some s \<Rightarrow> bindE (parse_endpoint s) (\<lambda>e.
                (case e of Onion a \<Rightarrow> Inr (Some a) | Direct _ \<Rightarrow> Inl (Msg ''--onion needs an .onion address with a port'')))) (\<lambda>o'.
       map_err Live (ServerLink_new (ll_name_ok L) Rendezvous h p pre parsed_pins o')))"

definition handle_rendezvous_remove :: "live_lib \<Rightarrow> string \<Rightarrow> unit live" where
  "handle_rendezvous_remove L name =
     bindL (load_state L) (\<lambda>st.
     let kept = filter (\<lambda>e. re_name e \<noteq> name) (rendezvous st) in
     bindL (liftL (guardE (length kept \<noteq> length (rendezvous st)) (Msg ''No rendezvous endpoint of that name''))) (\<lambda>_.
       save_state L (st\<lparr>rendezvous := kept\<rparr>)))"

end
