(* ===== verification/LiveCmdProofs.thy ===== *)
theory LiveCmdProofs
  imports LiveCommands
begin

text \<open>
  What the \<open>atom live\<close> commands keep: a small weakest-precondition calculus over the command type, the
  well-formedness of the stored state, and the relation \<open>state_grows\<close> between what is stored before
  and after a command.
\<close>

section \<open>Running a command\<close>

definition wpL :: "'a live \<Rightarrow> (LiveHome \<Rightarrow> live_error + 'a \<Rightarrow> bool) \<Rightarrow> LiveHome \<Rightarrow> bool" where
  "wpL m Q h = (case m h of (h', r) \<Rightarrow> Q h' r)"

lemma bindL_Inr: "bindL m f h = (h', Inr y) \<longleftrightarrow> (\<exists>h1 x. m h = (h1, Inr x) \<and> f x h1 = (h', Inr y))"
  by (auto simp: bindL_def split: prod.splits sum.splits)

lemma bindL_step: "m h = (h1, Inr x) \<Longrightarrow> bindL m f h = f x h1"
  by (simp add: bindL_def)

lemma retL_step [simp]: "retL x h = (h, Inr x)" "liftL r h = (h, r)"
  by (simp_all add: retL_def liftL_def)

text \<open>What a command needs of the disk to read its state, and leaves alone.\<close>

definition same_store :: "LiveHome \<Rightarrow> LiveHome \<Rightarrow> bool" where
  "same_store h h' \<longleftrightarrow> lh_home h' = lh_home h \<and> lh_key h' = lh_key h \<and> lh_peers h' = lh_peers h \<and>
     lh_readable h' = lh_readable h \<and> lh_peers_io h' = lh_peers_io h"

definition quietL :: "'a live \<Rightarrow> bool" where
  "quietL m \<longleftrightarrow> (\<forall>h. same_store h (fst (m h)))"

lemma quiet_base:
  "quietL (retL x)" "quietL (liftL r)" "(\<And>h. same_store h (fst (m h))) \<Longrightarrow> quietL m"
  by (simp_all add: quietL_def same_store_def)

lemma quiet_bind:
  assumes "quietL m" "\<And>x. quietL (f x)"
  shows "quietL (bindL m f)"
  unfolding quietL_def
proof
  fix h
  obtain h1 r where m: "m h = (h1, r)" by fastforce
  then have s: "same_store h h1" using assms(1) by (metis fst_conv quietL_def)
  show "same_store h (fst (bindL m f h))"
  proof (cases r)
    case (Inr x)
    then have "same_store h1 (fst (f x h1))" using assms(2) by (simp add: quietL_def)
    with s m Inr show ?thesis by (simp add: bindL_def same_store_def)
  qed (use s m in \<open>simp add: bindL_def\<close>)
qed

lemma quiet_read: "quietL (read_private L get)"
  by (simp add: quietL_def read_private_def same_store_def split: option.splits)

lemma quiet_load: "quietL (load_state L)"
  unfolding load_state_def by (intro quiet_bind quiet_read) (auto simp: quiet_base split: option.splits)

lemma quiet_write_identity: "quietL (write_private L lh_identity_io set_identity b)"
  by (simp add: quietL_def write_private_def same_store_def set_identity_def Let_def split: sum.splits option.splits)

lemma quiet_generate: "quietL (generate_bundle L)"
  by (simp add: quietL_def generate_bundle_def same_store_def split: prod.splits)

lemma quiet_identity: "quietL (load_or_create_identity L)"
  unfolding load_or_create_identity_def
proof (intro quiet_bind quiet_read)
  fix r :: "bytes option"
  show "quietL (case r of
         Some plain \<Rightarrow> liftL (map_err Live (from_secret_bytes (ll_keys L) plain))
       | None \<Rightarrow> bindL (generate_bundle L) (\<lambda>bundle.
           bindL (write_private L lh_identity_io set_identity (to_secret_bytes bundle)) (\<lambda>_. retL bundle)))"
    by (cases r) (simp_all add: quiet_base quiet_bind quiet_generate quiet_write_identity)
qed

lemma quiet_ticket: "quietL (my_ticket L)"
  unfolding my_ticket_def
  by (intro quiet_bind quiet_identity quiet_load quiet_base) (simp_all add: same_store_def)

lemma quiet_stored_peer: "quietL (stored_peer L n)"
  unfolding stored_peer_def by (intro quiet_bind quiet_load quiet_base)

lemma quiet_bind_address: "quietL (bind_address L)"
  unfolding bind_address_def by (intro quiet_bind quiet_load quiet_base)

lemma quiet_pair_begin: "quietL (pair_begin L c)"
  by (simp add: quietL_def pair_begin_def same_store_def split: prod.splits)

lemma quiet_pair_exchange: "quietL (pair_exchange L st s)"
  unfolding pair_exchange_def
  by (intro quiet_bind quiet_ticket quiet_base) (simp add: same_store_def split: sum.splits prod.splits)

lemma quiet_move: "quietL (move_vault L w d)"
  by (simp add: quietL_def move_vault_def same_store_def Let_def split: TransferDirection.splits option.splits prod.splits)

lemmas quiet_rules = quiet_bind quiet_load quiet_identity quiet_ticket quiet_stored_peer quiet_bind_address
  quiet_pair_begin quiet_pair_exchange quiet_move

section \<open>Reading and saving the state\<close>

definition live_lib_ok :: "live_lib \<Rightarrow> bool" where
  "live_lib_ok L \<longleftrightarrow> aead_ok (ll_crypto L) \<and> hkdf_ok (ll_crypto L) \<and> b32_ok (ll_keys L) \<and> blake3_ok (ll_keys L) \<and>
     (\<forall>st. state_from_json L (state_to_json L st) = Some st)"

lemma live_lib_okD:
  assumes "live_lib_ok L"
  shows "aead_ok (ll_crypto L)" "hkdf_ok (ll_crypto L)" "b32_ok (ll_keys L)" "blake3_ok (ll_keys L)"
    "state_from_json L (state_to_json L st) = Some st"
  using assms by (simp_all add: live_lib_ok_def)

definition kept :: "live_lib \<Rightarrow> LiveState \<Rightarrow> LiveHome \<Rightarrow> bool" where
  "kept L st h \<longleftrightarrow> load_state L h = (h, Inr st) \<and> lh_readable h \<and> write_cut (lh_peers_io h) = None"

lemma load_state_pure: "fst (load_state L h) = h"
  by (auto simp: load_state_def bindL_def read_private_def split: option.splits sum.splits if_splits prod.splits)

lemma load_state_cong:
  assumes "same_store h h'"
  shows "snd (load_state L h') = snd (load_state L h)"
  using assms
  by (cases "lh_peers h"; cases "map_err Msg (decrypt_config (ll_crypto L) (lh_key h) (the (lh_peers h)))")
    (auto simp: load_state_def bindL_def read_private_def same_store_def guardE_def)

lemma kept_same:
  assumes "kept L st h" "same_store h h'"
  shows "kept L st h'"
proof -
  have "load_state L h' = (h', Inr st)"
    using assms load_state_cong [OF assms(2), of L] load_state_pure [of L h'] by (metis kept_def prod.collapse snd_conv)
  with assms show ?thesis by (simp add: kept_def same_store_def)
qed

lemma kept_quiet: "quietL m \<Longrightarrow> m h = (h', r) \<Longrightarrow> kept L st h \<Longrightarrow> kept L st h'"
  by (metis fst_conv kept_same quietL_def)

lemma save_state_cases:
  assumes "live_lib_ok L" "kept L st h" "save_state L st' h = (h', r)"
  shows "(kept L st' h' \<and> r = Inr () \<and> lh_identity h' = lh_identity h) \<or> (kept L st h' \<and> r \<noteq> Inr () \<and> same_store h h')"
proof (cases "encrypt_config (ll_crypto L) (lh_key h) (state_to_json L st') (lh_rng h)")
  case (Inl e)
  with assms show ?thesis
    by (auto simp: save_state_def write_private_def kept_def same_store_def split: if_splits)
next
  case (Inr sg)
  obtain sealed g where sg: "sg = (sealed, g)" by fastforce
  have hm: "lh_home h" using assms(2) by (auto simp: kept_def load_state_def bindL_def read_private_def split: if_splits)
  have c: "write_cut (lh_peers_io h) = None" "lh_readable h" using assms(2) by (simp_all add: kept_def)
  show ?thesis
  proof (cases "open_ok (lh_peers_io h)")
    case False
    then have "same_store h h'" "r \<noteq> Inr ()"
      using assms(3) Inr sg hm by (auto simp: save_state_def write_private_def same_store_def)
    with kept_same [OF assms(2)] show ?thesis by blast
  next
    case True
    then have h': "h' = set_peers sealed (h\<lparr>lh_rng := g\<rparr>)" "r = Inr ()"
      using assms(3) Inr sg hm c by (simp_all add: save_state_def write_private_def)
    have "decrypt_config (ll_crypto L) (lh_key h) sealed = Inr (state_to_json L st')"
      using decrypt_encrypt_config [OF live_lib_okD(1) [OF assms(1)]] Inr sg by simp
    then have "kept L st' h'"
      using h' c hm live_lib_okD(5) [OF assms(1)]
      by (simp add: kept_def load_state_def bindL_def read_private_def set_peers_def)
    with h' show ?thesis by (simp add: set_peers_def)
  qed
qed

section \<open>Well-formed states and how they grow\<close>

text \<open>Everything a stored peer consists of reads back; one paired before rendezvous has no secret.\<close>

definition peer_ok :: "live_lib \<Rightarrow> LivePeer \<Rightarrow> bool" where
  "peer_ok L p \<longleftrightarrow> is_ok (ticket_from_text (ll_keys L) (lp_ticket p)) \<and>
     list_all (\<lambda>s. is_ok (parse_endpoint s)) (lp_last_known p) \<and>
     (case lp_secret p of None \<Rightarrow> True | Some s \<Rightarrow> is_ok (decode_secret L s))"

definition state_ok :: "live_lib \<Rightarrow> LiveState \<Rightarrow> bool" where
  "state_ok L st \<longleftrightarrow> distinct (map lp_nickname (peers st)) \<and> list_all (peer_ok L) (peers st) \<and>
     distinct (map re_name (rendezvous st)) \<and> list_all (\<lambda>e. is_ok (re_build L e)) (rendezvous st) \<and>
     list_all (\<lambda>s. is_ok (parse_endpoint s)) (my_endpoints st)"

definition peer_id :: "live_lib \<Rightarrow> LivePeer \<Rightarrow> bytes option" where
  "peer_id L p = (case ticket_from_text (ll_keys L) (lp_ticket p) of Inl _ \<Rightarrow> None | Inr t \<Rightarrow> Some (bundle_id (ll_keys L) (identity t)))"

definition peer_grows :: "live_lib \<Rightarrow> LivePeer \<Rightarrow> LivePeer \<Rightarrow> bool" where
  "peer_grows L p q \<longleftrightarrow> lp_nickname q = lp_nickname p \<and> peer_id L q = peer_id L p \<and> seq_le (lp_newest_seen p) (lp_newest_seen q)"

definition state_grows :: "live_lib \<Rightarrow> LiveState \<Rightarrow> LiveState \<Rightarrow> bool" where
  "state_grows L st st' \<longleftrightarrow> (\<exists>ps new. peers st' = ps @ new \<and> list_all2 (peer_grows L) (peers st) ps)"

lemma peer_grows_refl [simp]: "peer_grows L p p"
  by (simp add: peer_grows_def)

lemma grows_same_peers [intro]: "peers st' = peers st \<Longrightarrow> state_grows L st st'"
  by (metis append_Nil2 list_all2_refl peer_grows_refl state_grows_def)

lemma grows_append: "peers st' = peers st @ new \<Longrightarrow> state_grows L st st'"
  by (metis list_all2_refl peer_grows_refl state_grows_def)

lemma update_first_grows:
  assumes "update_first P f xs = Some ys" "\<And>x. x \<in> set xs \<Longrightarrow> P x \<Longrightarrow> R x (f x)" "\<And>x. R x x"
  shows "list_all2 R xs ys"
  using assms
proof (induction xs arbitrary: ys)
  case (Cons x xs)
  then show ?case by (auto split: if_splits intro: list_all2_refl)
qed simp

lemma grows_update:
  assumes "update_first P f (peers st) = Some ps" "peers st' = ps"
    and "\<And>p. p \<in> set (peers st) \<Longrightarrow> P p \<Longrightarrow> peer_grows L p (f p)"
  shows "state_grows L st st'"
proof -
  have "list_all2 (peer_grows L) (peers st) ps" by (rule update_first_grows [OF assms(1)]) (simp_all add: assms(3))
  then show ?thesis using assms(2) unfolding state_grows_def by (intro exI [of _ ps] exI [of _ "[]"]) simp
qed

definition saved_ok :: "live_lib \<Rightarrow> LiveState \<Rightarrow> LiveHome \<Rightarrow> bool" where
  "saved_ok L st h \<longleftrightarrow> (\<exists>st'. kept L st' h \<and> state_ok L st' \<and> state_grows L st st')"

definition keepsL :: "live_lib \<Rightarrow> LiveState \<Rightarrow> 'a live \<Rightarrow> LiveHome \<Rightarrow> bool" where
  "keepsL L st m h = wpL m (\<lambda>h' r. saved_ok L st h') h"

lemma keeps_quiet:
  assumes "quietL m" "kept L st h" "state_ok L st"
  shows "keepsL L st m h"
proof -
  obtain h' r where m: "m h = (h', r)" by fastforce
  from kept_quiet [OF assms(1) m assms(2)] assms(3) m show ?thesis
    by (auto simp: keepsL_def wpL_def saved_ok_def)
qed

lemma keeps_bind:
  assumes "quietL m" "kept L st h" "state_ok L st"
    and "\<And>h1 x. m h = (h1, Inr x) \<Longrightarrow> kept L st h1 \<Longrightarrow> keepsL L st (f x) h1"
  shows "keepsL L st (bindL m f) h"
proof -
  obtain h1 r where m: "m h = (h1, r)" by fastforce
  note k = kept_quiet [OF assms(1) m assms(2)]
  show ?thesis
  proof (cases r)
    case (Inl e)
    with m k assms(3) show ?thesis by (auto simp: keepsL_def wpL_def bindL_def saved_ok_def)
  next
    case (Inr x)
    with assms(4) [of h1 x] m k show ?thesis by (simp add: keepsL_def wpL_def bindL_def)
  qed
qed

lemma keeps_load:
  assumes "kept L st h" "keepsL L st (f st) h"
  shows "keepsL L st (bindL (load_state L) f) h"
  using assms by (simp add: keepsL_def wpL_def bindL_def kept_def)

lemma keeps_lift:
  assumes "kept L st h" "state_ok L st" "\<And>x. r = Inr x \<Longrightarrow> keepsL L st (f x) h"
  shows "keepsL L st (bindL (liftL r) f) h"
  using assms by (intro keeps_bind quiet_base) auto

lemma keeps_save:
  assumes "live_lib_ok L" "kept L st h" "state_ok L st" "state_ok L st'" "state_grows L st st'"
  shows "keepsL L st (save_state L st') h"
proof -
  obtain h' r where s: "save_state L st' h = (h', r)" by fastforce
  from save_state_cases [OF assms(1,2) s] assms(3-5) s show ?thesis
    by (auto simp: keepsL_def wpL_def saved_ok_def)
qed

lemma keeps_save_ret:
  assumes "keepsL L st (save_state L st') h"
  shows "keepsL L st (bindL (save_state L st') (\<lambda>_. retL y)) h"
  using assms by (auto simp: keepsL_def wpL_def bindL_def split: prod.splits sum.splits)

section \<open>Every command keeps the state well-formed\<close>

lemma parse_all_ok: "parse_all f xs = Inr ys \<Longrightarrow> list_all (\<lambda>x. is_ok (f x)) xs \<and> map f xs = map Inr ys"
  by (induction xs arbitrary: ys) (auto simp: result_simps)

lemma parse_all_total: "list_all (\<lambda>x. is_ok (f x)) xs \<Longrightarrow> \<exists>ys. parse_all f xs = Inr ys"
  by (induction xs) (auto simp: is_ok_iff)

lemma parsed_hints: "parse_all parse_endpoint xs = Inr hs \<Longrightarrow> list_all hint_ok hs"
  using parse_endpoint_ok by (induction xs arbitrary: hs) (auto simp: result_simps)

lemma shown_parse: "list_all hint_ok hs \<Longrightarrow> list_all (\<lambda>s. is_ok (parse_endpoint s)) (map show_endpoint hs)"
  by (induction hs) (simp_all add: parse_endpoint_show)

lemma state_okD:
  assumes "state_ok L st"
  shows "distinct (map lp_nickname (peers st))" "list_all (peer_ok L) (peers st)" "distinct (map re_name (rendezvous st))"
    "list_all (\<lambda>e. is_ok (re_build L e)) (rendezvous st)" "list_all (\<lambda>s. is_ok (parse_endpoint s)) (my_endpoints st)"
  using assms by (simp_all add: state_ok_def)

lemma keeps_set_endpoints:
  assumes "live_lib_ok L" "kept L st h" "state_ok L st"
  shows "keepsL L st (set_endpoints L addrs) h"
  unfolding set_endpoints_def
proof (rule keeps_lift [OF assms(2,3)])
  fix es
  assume "parse_all parse_endpoint addrs = Inr es"
  then have "state_ok L (st\<lparr>my_endpoints := map show_endpoint es\<rparr>)"
    using assms(3) shown_parse [OF parsed_hints] by (simp add: state_ok_def)
  then show "keepsL L st (bindL (load_state L) (\<lambda>st. save_state L (st\<lparr>my_endpoints := map show_endpoint es\<rparr>))) h"
    by (intro keeps_load [OF assms(2)] keeps_save [OF assms]) auto
qed

lemma keepsL_bind_any:
  assumes "keepsL L st m h"
  shows "keepsL L st (bindL m (\<lambda>_. retL y)) h"
  using assms by (auto simp: keepsL_def wpL_def bindL_def split: prod.splits sum.splits)

lemma keeps_discover_address:
  assumes "live_lib_ok L" "kept L st h" "state_ok L st"
  shows "keepsL L st (discover_address L s server) h"
  unfolding discover_address_def
  by (rule keeps_lift [OF assms(2,3)], rule keeps_bind [OF _ assms(2,3)])
    (auto simp: quietL_def same_store_def intro!: keepsL_bind_any keeps_set_endpoints [OF assms(1)] assms(3))

lemma ticket_text_ok: 
  assumes "live_lib_ok L" "ticket_ok t"
  shows "ticket_from_text (ll_keys L) (ticket_to_text (ll_keys L) t) = Inr t"
proof -
  note b = live_lib_okD(3,4) [OF assms(1)]
  show ?thesis unfolding ticket_from_text_def
    by (rule ticket.text_roundtrip [OF b assms(2)]) (use ticket_text_plain [OF b(1)] in \<open>simp add: ticket_to_text_def\<close>)
qed

lemma decode_encode_secret:
  assumes "live_lib_ok L" "length s = 32"
  shows "decode_secret L (encode_secret L s) = Inr s"
proof -
  note b = live_lib_okD(3) [OF assms(1)]
  have c: "list_all b32_char (b32_encode (ll_keys L) s)" "b32_decode (ll_keys L) (b32_encode (ll_keys L) s) = Some s"
    using b by (simp_all add: b32_ok_def)
  have "trim (encode_secret L s) = encode_secret L s"
    unfolding encode_secret_def by (rule trim_nonspace) (rule b32_lower_nonspace [OF c(1)])
  with c assms(2) show ?thesis by (simp add: decode_secret_def encode_secret_def b32_upper_lower)
qed

lemma pair_finish_secret:
  assumes "hkdf_ok C" "pair_finish P C st m = Inr ch"
  shows "length (rendezvous_secret ch) = 32 \<and> length (chan_key ch) = 32"
proof -
  obtain lo hi where s: "sort2 (outbound st) m = (lo, hi)" by fastforce
  from assms(2) obtain k where k: "derive C k SEAL_LABEL = Inr (chan_key ch)"
    "derive C k RENDEZVOUS_SECRET_LABEL = Inr (rendezvous_secret ch)"
    by (auto simp: pair_finish_def Let_def result_simps s)
  with derive_total [OF assms(1)] show ?thesis by (metis sum.inject(2))
qed

lemma save_paired_cases:
  assumes "live_lib_ok L" "ticket_ok t" "length secret = 32" "state_ok L st" "save_paired L nick t secret st = Inr st'"
  shows "state_ok L st' \<and> state_grows L st st' \<and>
    (\<exists>p. state_peer nick st' = Some p \<and> lp_ticket p = ticket_to_text (ll_keys L) t \<and>
       lp_secret p = Some (encode_secret L secret) \<and> (state_peer nick st = None \<longrightarrow> lp_last_known p = []))"
proof (cases "state_peer nick st")
  case None
  let ?p = "LivePeer_new L nick t (encode_secret L secret)"
  from None assms(5) have st': "st' = st\<lparr>peers := peers st @ [?p]\<rparr>" by (simp add: save_paired_def)
  have "nick \<notin> lp_nickname ` set (peers st)" using None by (auto simp: state_peer_def find_None_iff)
  moreover have "peer_ok L ?p"
    using ticket_text_ok [OF assms(1,2)] decode_encode_secret [OF assms(1,3)] by (simp add: peer_ok_def LivePeer_new_def)
  ultimately have "state_ok L st'" using assms(4) by (simp add: state_ok_def st' LivePeer_new_def)
  moreover have "state_grows L st st'" by (rule grows_append) (simp add: st')
  moreover have "state_peer nick st' = Some ?p" using None by (simp add: state_peer_def st' find_append LivePeer_new_def)
  ultimately show ?thesis by (simp add: LivePeer_new_def)
next
  case (Some old)
  let ?f = "\<lambda>p. p\<lparr>lp_ticket := ticket_to_text (ll_keys L) t, lp_secret := Some (encode_secret L secret)\<rparr>"
  let ?P = "\<lambda>p. lp_nickname p = nick"
  from Some assms(5) obtain ot ps where o: "ticket_from_text (ll_keys L) (lp_ticket old) = Inr ot"
    "bundle_id (ll_keys L) (identity ot) = bundle_id (ll_keys L) (identity t)"
    and u: "update_first ?P ?f (peers st) = Some ps" "st' = st\<lparr>peers := ps\<rparr>"
    using update_first_None [of ?P ?f "peers st"]
    by (auto simp: save_paired_def Let_def result_simps state_peer_def split: option.splits)
  have "map lp_nickname ps = map lp_nickname (peers st)" by (rule map_update_first [OF u(1)]) simp
  moreover have "list_all (peer_ok L) ps"
    using state_okD(2) [OF assms(4)] set_update_first [OF u(1)] ticket_text_ok [OF assms(1,2)] decode_encode_secret [OF assms(1,3)]
    by (force simp: list_all_iff peer_ok_def)
  ultimately have ok: "state_ok L st'" using assms(4) by (simp add: state_ok_def u(2))
  have "p = old" if "p \<in> set (peers st)" "?P p" for p
  proof -
    have "old \<in> set (peers st)" "lp_nickname old = nick" using Some by (auto simp: state_peer_def find_Some_iff)
    with that state_okD(1) [OF assms(4)] show ?thesis by (auto simp: distinct_map inj_on_def)
  qed
  then have "state_grows L st st'"
    using o ticket_text_ok [OF assms(1,2)] by (intro grows_update [OF u(1)]) (auto simp: u(2) peer_grows_def peer_id_def)
  moreover have "state_peer nick st' = map_option ?f (state_peer nick st)"
    unfolding state_peer_def u(2) using find_update_first [OF u(1)] by simp
  ultimately show ?thesis using ok Some by simp
qed

lemma keeps_pair_complete:
  assumes "live_lib_ok L" "kept L st h" "state_ok L st" "length (rendezvous_secret ch) = 32"
  shows "keepsL L st (pair_complete L ch sealed nick) h"
  unfolding pair_complete_def
proof (rule keeps_lift [OF assms(2,3)], rule keeps_bind [OF quiet_identity assms(2,3)], rule keeps_lift [OF _ assms(3)])
  fix t h1 me u
  assume t: "map_err Live (open_ticket (ll_keys L) (ll_crypto L) ch sealed) = Inr t" and k: "kept L st h1"
  then have ok: "ticket_ok t" using open_ticket_Inr [OF live_lib_okD(1) [OF assms(1)]] by (simp add: result_simps)
  show "keepsL L st (bindL (load_state L) (\<lambda>st.
       bindL (liftL (save_paired L nick t (rendezvous_secret ch) st)) (\<lambda>st'. bindL (save_state L st') (\<lambda>_. retL t)))) h1"
    using save_paired_cases [OF assms(1) ok assms(4,3)]
    by (intro keeps_load [OF k] keeps_lift [OF k assms(3)] keeps_save_ret keeps_save [OF assms(1) k assms(3)]) auto
qed

lemma pair_exchange_Inr:
  assumes "pair_exchange L st s h = (h', Inr (ch, sealed))"
  shows "\<exists>m h1 t g. decode_message (ll_keys L) s = Inr m \<and> pair_finish (ll_pake L) (ll_crypto L) st m = Inr ch \<and>
    my_ticket L h = (h1, Inr t) \<and> seal_ticket (ll_keys L) (ll_crypto L) ch t (lh_rng h1) = Inr (sealed, g) \<and>
    h' = h1\<lparr>lh_rng := g\<rparr>"
proof -
  from assms obtain m ch' h1 t where m: "decode_message (ll_keys L) s = Inr m"
    "pair_finish (ll_pake L) (ll_crypto L) st m = Inr ch'" "my_ticket L h = (h1, Inr t)"
    and s: "(case seal_ticket (ll_keys L) (ll_crypto L) ch' t (lh_rng h1) of
              Inl e \<Rightarrow> (h1, Inl (Live e))
            | Inr (sealed, g) \<Rightarrow> (h1\<lparr>lh_rng := g\<rparr>, Inr (ch', sealed))) = (h', Inr (ch, sealed))"
    by (auto simp: pair_exchange_def bindL_Inr result_simps)
  from s obtain g where "seal_ticket (ll_keys L) (ll_crypto L) ch' t (lh_rng h1) = Inr (sealed, g)" "ch' = ch"
    "h' = h1\<lparr>lh_rng := g\<rparr>" by (cases "seal_ticket (ll_keys L) (ll_crypto L) ch' t (lh_rng h1)") auto
  with m show ?thesis by blast
qed

lemma keeps_handle_pair:
  assumes "live_lib_ok L" "kept L st h" "state_ok L st"
  shows "keepsL L st (handle_pair L nick code paste1 paste2) h"
  unfolding handle_pair_def
proof (rule keeps_bind [OF quiet_ticket assms(2,3)])
  fix h1 and t :: Ticket
  assume k1: "kept L st h1"
  let ?code = "case code of Some c \<Rightarrow> liftL (map_err Live (code_parse c))
     | None \<Rightarrow> (\<lambda>h. let (c, g) = code_generate (ll_keys L) (lh_rng h) in (h\<lparr>lh_rng := g\<rparr>, Inr c))"
  have "quietL ?code" by (cases code) (simp_all add: quietL_def same_store_def split: prod.splits)
  then show "keepsL L st (bindL ?code (\<lambda>c. bindL (pair_begin L c) (\<lambda>(st, our_msg).
     bindL (pair_exchange L st (trim (paste1 our_msg))) (\<lambda>(channel, sealed).
       pair_complete L channel (trim (paste2 sealed)) nick)))) h1"
  proof (rule keeps_bind [OF _ k1 assms(3)], goal_cases)
    case (1 h2 c)
    show ?case
    proof (rule keeps_bind [OF quiet_pair_begin 1(2) assms(3)], goal_cases)
      case (1 h3 sm)
      obtain s m where sm: "sm = (s, m)" by fastforce
      show ?case unfolding sm prod.case
      proof (rule keeps_bind [OF quiet_pair_exchange 1(2) assms(3)], goal_cases)
        case (1 h4 cs)
        obtain ch sealed where cs: "cs = (ch, sealed)" by fastforce
        from 1(1) cs obtain m' where "pair_finish (ll_pake L) (ll_crypto L) s m' = Inr ch"
          using pair_exchange_Inr by blast
        with pair_finish_secret [OF live_lib_okD(2) [OF assms(1)]] have "length (rendezvous_secret ch) = 32" by blast
        with keeps_pair_complete [OF assms(1) 1(2) assms(3)] show ?case by (simp add: cs)
      qed
    qed
  qed
qed

lemma keeps_announce:
  assumes "kept L st h" "state_ok L st"
  shows "keepsL L st (announce_core L w only) h"
proof (rule keeps_quiet [OF _ assms])
  show "quietL (announce_core L w only)"
    unfolding announce_core_def
    by (intro quiet_rules quiet_base) (auto simp: same_store_def quietL_def split: prod.splits)
qed

section \<open>Transfers\<close>

lemma resolve_record_ok:
  assumes "aead_ok C" "resolve C x sec a b newest now g subs = Inr r"
  shows "record_ok r"
proof -
  from assms(2) obtain sub where "search_slots C sub now newest (lookup_slots x sec (flip (publishing a b)) now) None = Some r"
    by (auto simp: resolve_def result_simps dest: resolve_in_Inr)
  from search_slots_best [OF this] obtain s where "candidate C sub now newest s = Some r" by auto
  then show ?thesis using open_record_Inr [OF assms(1)] by (auto dest: candidate_Some)
qed

text \<open>What a connection attempt learns: every address it keeps is one that can be written down.\<close>

lemma rung_discovered_hints:
  assumes "aead_ok (d_crypto D)" "list_all hint_ok (last_known (l_peer l))"
  shows "list_all hint_ok (last_known (l_peer (fst (rung_discovered N K D ws loc opts deadline l))))"
proof -
  let ?p = "l_peer l"
  let ?res = "resolve (d_crypto D) (d_xof D) (ps_rendezvous ?p) (bundle_id K (local_bundle loc))
     (bundle_id K (ps_identity ?p)) (newest_seen ?p) (n_wall N (l_now l)) (d_rng D) (d_subs D)"
  show ?thesis
  proof (cases ?res)
    case (Inl e)
    with assms(2) show ?thesis by (simp add: rung_discovered_def Let_def tried_def)
  next
    case (Inr r)
    then have "list_all hint_ok (rhints r)"
      using resolve_record_ok [OF assms(1) Inr] by (simp add: record_ok_def hints_ok_def)
    with assms(2) Inr show ?thesis
      by (auto simp: rung_discovered_def Let_def tried_def absorb_def try_direct_facts)
  qed
qed

lemma connect_learns:
  assumes "connect N K D ws1 ws2 loc opts now p = (q, rungs, r)" "aead_ok (d_crypto D)" "list_all hint_ok (last_known p)"
  shows "list_all hint_ok (last_known q) \<and> peer_le p q"
proof (cases "bundle_id K (local_bundle loc) = bundle_id K (ps_identity p) \<or> (\<exists>e. n_bind N = Inl e)")
  case True
  with assms show ?thesis by (auto simp: connect_def split: sum.splits if_splits)
next
  case False
  then obtain u where n: "bundle_id K (local_bundle loc) \<noteq> bundle_id K (ps_identity p)" "n_bind N = Inr u"
    by (cases "n_bind N") auto
  let ?l0 = "\<lparr>l_now = now, l_peer = p, l_tried = [], l_attempts = []\<rparr>"
  let ?d = "now + opt_timeout opts"
  let ?a = "rung_cached N K ws1 loc ?d ?l0"
  let ?b = "or_else ?a (rung_discovered N K D ws2 loc opts ?d)"
  let ?c = "or_else ?b (rung_onion N K loc opts)"
  have q: "q = l_peer (fst ?c)" using assms(1) n by (auto simp: connect_def Let_def split: prod.splits)
  have a: "l_peer (fst ?a) = p"
    by (rule rung_cached_cases [of N K ws1 loc ?d ?l0]) (simp_all add: try_direct_facts tried_def)
  have b: "list_all hint_ok (last_known (l_peer (fst ?b)))"
    using a assms(3) rung_discovered_hints [OF assms(2), of "fst ?a"] by (simp add: or_else_def split: option.splits)
  have "l_peer (fst (rung_onion N K loc opts (fst ?b))) = l_peer (fst ?b)"
    by (rule rung_onion_cases [of N K loc opts "fst ?b"]) simp_all
  with b have "list_all hint_ok (last_known q)" unfolding q or_else_def [of ?b] by (simp split: option.splits)
  moreover have "peer_le p q" using all_rungs.keeps_peer [of ?l0 N K ws1 loc ?d D ws2 opts] q by simp
  ultimately show ?thesis by simp
qed

lemma peer_state_facts:
  assumes "peer_state L p = Inr ps"
  shows "newest_seen ps = lp_newest_seen p" "list_all hint_ok (last_known ps)"
    "\<exists>t. ticket_from_text (ll_keys L) (lp_ticket p) = Inr t \<and> ps_identity ps = identity t"
proof -
  from assms obtain t known where t: "ticket_from_text (ll_keys L) (lp_ticket p) = Inr t"
    "parse_all parse_endpoint (lp_last_known p) = Inr known"
    "newest_seen ps = lp_newest_seen p" "ps_identity ps = identity t" "last_known ps = (if known = [] then hints t else known)"
    by (auto simp: peer_state_def result_simps)
  then have "ticket_ok t" using ticket_from_bytes_ok by (auto simp: ticket_from_text_def result_simps)
  with t parsed_hints [OF t(2)] show "list_all hint_ok (last_known ps)" by (simp add: ticket_ok_def hints_ok_def)
  from t show "newest_seen ps = lp_newest_seen p"
    "\<exists>t. ticket_from_text (ll_keys L) (lp_ticket p) = Inr t \<and> ps_identity ps = identity t" by auto
qed

lemma state_peer_unique:
  assumes "state_ok L st" "state_peer nick st = Some p" "q \<in> set (peers st)" "lp_nickname q = nick"
  shows "q = p"
proof -
  have "p \<in> set (peers st)" "lp_nickname p = nick" using assms(2) by (auto simp: state_peer_def find_Some_iff)
  with assms state_okD(1) [OF assms(1)] show ?thesis by (auto simp: distinct_map inj_on_def)
qed

lemma keeps_remember:
  assumes "live_lib_ok L" "kept L st h" "state_ok L st" "list_all hint_ok (last_known q)"
    and "\<And>p. state_peer nick st = Some p \<Longrightarrow> seq_le (lp_newest_seen p) (newest_seen q)"
  shows "keepsL L st (remember L nick q) h"
  unfolding remember_def
proof (rule keeps_load [OF assms(2)])
  let ?P = "\<lambda>p. lp_nickname p = nick"
  let ?f = "\<lambda>p. p\<lparr>lp_last_known := map show_endpoint (last_known q), lp_newest_seen := newest_seen q\<rparr>"
  show "keepsL L st (case update_first ?P ?f (peers st) of Some ps \<Rightarrow> save_state L (st\<lparr>peers := ps\<rparr>) | None \<Rightarrow> retL ()) h"
  proof (cases "update_first ?P ?f (peers st)")
    case None
    then show ?thesis using keeps_quiet [OF quiet_base(1) assms(2,3)] by simp
  next
    case (Some ps)
    have "map lp_nickname ps = map lp_nickname (peers st)" by (rule map_update_first [OF Some]) simp
    moreover have "peer_ok L (?f p)" if "peer_ok L p" for p
      using that shown_parse [OF assms(4)] by (simp add: peer_ok_def)
    then have "list_all (peer_ok L) ps"
      using state_okD(2) [OF assms(3)] set_update_first [OF Some] unfolding list_all_iff by blast
    ultimately have ok: "state_ok L (st\<lparr>peers := ps\<rparr>)" using assms(3) by (simp add: state_ok_def)
    obtain p where p: "state_peer nick st = Some p"
      using Some update_first_None [of ?P ?f "peers st"] by (auto simp: state_peer_def)
    have "state_grows L st (st\<lparr>peers := ps\<rparr>)"
      using assms(5) [OF p] state_peer_unique [OF assms(3) p]
      by (intro grows_update [OF Some]) (auto simp: peer_grows_def peer_id_def)
    with ok Some show ?thesis by (simp add: keeps_save [OF assms(1-3)])
  qed
qed

text \<open>The record of the rung that was reached: only the log changes.\<close>

lemma quiet_log: "quietL (\<lambda>h. (h\<lparr>lh_paths := lh_paths h @ [p]\<rparr>, Inr ()))"
  by (simp add: quietL_def same_store_def)

definition on_failure :: "live_lib \<Rightarrow> LiveState \<Rightarrow> (LiveHome \<Rightarrow> live_error + 'a \<Rightarrow> bool) \<Rightarrow> bool" where
  "on_failure L st Q \<longleftrightarrow> (\<forall>h e. kept L st h \<longrightarrow> Q h (Inl e))"

lemma wp_bind:
  assumes "quietL m" "kept L st h" "on_failure L st Q"
    and "\<And>h1 x. m h = (h1, Inr x) \<Longrightarrow> kept L st h1 \<Longrightarrow> wpL (f x) Q h1"
  shows "wpL (bindL m f) Q h"
proof -
  obtain h1 r where m: "m h = (h1, r)" by fastforce
  note k = kept_quiet [OF assms(1) m assms(2)]
  show ?thesis using m k assms(3,4) by (cases r) (auto simp: wpL_def bindL_def on_failure_def)
qed

text \<open>
  A transfer up to the moment it remembers what it learned: until then nothing it does touches the
  stored state, so what holds of the stored state on failure is what held before.
\<close>

lemma run_transfer_wp:
  assumes "live_lib_ok L" "kept L st h"
    and fail: "on_failure L st Q"
    and rem: "\<And>h1 p ps q s. kept L st h1 \<Longrightarrow> state_peer nick st = Some p \<Longrightarrow> peer_state L p = Inr ps \<Longrightarrow>
      list_all hint_ok (last_known q) \<Longrightarrow> peer_le ps q \<Longrightarrow> wpL (bindL (remember L nick q) (\<lambda>_. retL s)) Q h1"
  shows "wpL (run_transfer L w nick d) Q h"
  unfolding run_transfer_def
proof (rule wp_bind [OF quiet_load assms(2) fail], rule wp_bind [OF quiet_stored_peer _ fail], assumption,
    rule wp_bind [OF quiet_identity _ fail], assumption, rule wp_bind [OF quiet_bind_address _ fail], assumption,
    rule wp_bind [OF quiet_base(2) _ fail], assumption, rule wp_bind [OF quiet_base(2) _ fail], assumption)
  fix h0 st0 h1 peer h2 me h3 bind h4 eps h5 ps
  assume "load_state L h = (h0, Inr st0)" "kept L st h0" "stored_peer L nick h0 = (h1, Inr peer)"
    and p5: "liftL (peer_state L peer) h4 = (h5, Inr ps)" and k: "kept L st h5"
  then have peer: "state_peer nick st = Some peer" and ps: "peer_state L peer = Inr ps"
    by (auto simp: stored_peer_def bindL_Inr kept_def result_simps)
  obtain q rungs r where c: "connect (w_net w bind) (ll_keys L) (disc_of L (w_rng w 0) (map (w_server w) eps))
         (w_wakes1 w) (w_wakes2 w) me (transfer_options eps) (w_now w) ps = (q, rungs, r)" by (metis prod_cases3)
  have q: "list_all hint_ok (last_known q)" "peer_le ps q"
    using connect_learns [OF c] live_lib_okD(1) [OF assms(1)] peer_state_facts(2) [OF ps] by (simp_all add: disc_of_def)
  have move: "wpL (bindL (move_vault L w d) (\<lambda>s. bindL (remember L nick q) (\<lambda>_. retL s))) Q h" if "kept L st h" for h
    by (rule wp_bind [OF quiet_move that fail]) (auto intro: rem [OF _ peer ps q])
  show "wpL (let (learned, rungs, r) = connect (w_net w bind) (ll_keys L) (disc_of L (w_rng w 0) (map (w_server w) eps))
         (w_wakes1 w) (w_wakes2 w) me (transfer_options eps) (w_now w) ps in
     case r of Inl e \<Rightarrow> liftL (Inl (Live e))
     | Inr (session, path) \<Rightarrow> bindL (\<lambda>h. (h\<lparr>lh_paths := lh_paths h @ [path]\<rparr>, Inr ())) (\<lambda>_.
         bindL (move_vault L w d) (\<lambda>summary. bindL (remember L nick learned) (\<lambda>_. retL summary)))) Q h5"
    unfolding c
  proof (cases r)
    case (Inl e)
    with fail k show "wpL (let (learned, rungs, r) = (q, rungs, r) in case r of Inl e \<Rightarrow> liftL (Inl (Live e))
      | Inr (session, path) \<Rightarrow> bindL (\<lambda>h. (h\<lparr>lh_paths := lh_paths h @ [path]\<rparr>, Inr ())) (\<lambda>_.
         bindL (move_vault L w d) (\<lambda>summary. bindL (remember L nick learned) (\<lambda>_. retL summary)))) Q h5"
      by (simp add: wpL_def on_failure_def)
  next
    case (Inr sp)
    then show "wpL (let (learned, rungs, r) = (q, rungs, r) in case r of Inl e \<Rightarrow> liftL (Inl (Live e))
      | Inr (session, path) \<Rightarrow> bindL (\<lambda>h. (h\<lparr>lh_paths := lh_paths h @ [path]\<rparr>, Inr ())) (\<lambda>_.
         bindL (move_vault L w d) (\<lambda>summary. bindL (remember L nick learned) (\<lambda>_. retL summary)))) Q h5"
      using wp_bind [OF quiet_log k fail] move by (cases sp) simp
  qed
qed

lemma keeps_run_transfer:
  assumes "live_lib_ok L" "kept L st h" "state_ok L st"
  shows "keepsL L st (run_transfer L w nick d) h"
  unfolding keepsL_def
proof (rule run_transfer_wp [OF assms(1,2)])
  fix h1 p ps q s
  assume k: "kept L st h1" and p: "state_peer nick st = Some p" "peer_state L p = Inr ps"
    and q: "list_all hint_ok (last_known q)" "peer_le ps q"
  have "seq_le (lp_newest_seen p) (newest_seen q)" using q(2) peer_state_facts(1) [OF p(2)] by (simp add: peer_le_def)
  then have "keepsL L st (remember L nick q) h1" using keeps_remember [OF assms(1) k assms(3) q(1), of nick] p(1) by simp
  then show "wpL (bindL (remember L nick q) (\<lambda>_. retL s)) (\<lambda>h' r. saved_ok L st h') h1"
    using keepsL_bind_any by (simp add: keepsL_def)
qed (use assms(3) in \<open>auto simp: saved_ok_def on_failure_def\<close>)

lemma filter_update_first:
  assumes "update_first P f xs = Some ys" "\<And>x. P x \<Longrightarrow> P (f x)"
  shows "filter (\<lambda>x. \<not> P x) ys = filter (\<lambda>x. \<not> P x) xs"
  using assms by (induction xs arbitrary: ys) (auto split: if_splits)

text \<open>What remembering writes: one entry's addresses and floor, or nothing when the file cannot be opened.\<close>

lemma remember_outcome:
  assumes "live_lib_ok L" "kept L st h" "state_peer nick st = Some p" "remember L nick q h = (h', r)"
  shows "case r of Inl e \<Rightarrow> kept L st h' | Inr _ \<Rightarrow> (\<exists>st'. kept L st' h' \<and>
      state_peer nick st' = Some (p\<lparr>lp_last_known := map show_endpoint (last_known q), lp_newest_seen := newest_seen q\<rparr>) \<and>
      filter (\<lambda>x. lp_nickname x \<noteq> nick) (peers st') = filter (\<lambda>x. lp_nickname x \<noteq> nick) (peers st) \<and>
      my_endpoints st' = my_endpoints st \<and> rendezvous st' = rendezvous st)"
proof -
  let ?P = "\<lambda>p. lp_nickname p = nick"
  let ?f = "\<lambda>p. p\<lparr>lp_last_known := map show_endpoint (last_known q), lp_newest_seen := newest_seen q\<rparr>"
  obtain ps where u: "update_first ?P ?f (peers st) = Some ps"
    using assms(3) update_first_None [of ?P ?f "peers st"] by (auto simp: state_peer_def)
  have s: "save_state L (st\<lparr>peers := ps\<rparr>) h = (h', r)"
    using assms(2,4) u by (simp add: remember_def bindL_def kept_def)
  have f: "filter (\<lambda>x. lp_nickname x \<noteq> nick) ps = filter (\<lambda>x. lp_nickname x \<noteq> nick) (peers st)"
    by (rule filter_update_first [OF u]) simp
  have "state_peer nick (st\<lparr>peers := ps\<rparr>) = Some (?f p)"
    using find_update_first [OF u] assms(3) by (simp add: state_peer_def)
  with save_state_cases [OF assms(1,2) s] f show ?thesis by (cases r) (auto intro!: exI [of _ "st\<lparr>peers := ps\<rparr>"])
qed

lemma keeps_send_receive:
  assumes "live_lib_ok L" "kept L st h" "state_ok L st"
  shows "keepsL L st (send_core L w path nick) h" "keepsL L st (receive_core L w path nick) h"
proof -
  have q: "quietL (\<lambda>h. (h, guardE (dest (lh_vaults h path) \<noteq> None) (Msg ''No such vault'')))"
    by (simp add: quietL_def same_store_def)
  show "keepsL L st (send_core L w path nick) h"
    unfolding send_core_def by (rule keeps_bind [OF q assms(2,3)]) (rule keeps_run_transfer [OF assms(1) _ assms(3)])
  show "keepsL L st (receive_core L w path nick) h"
    unfolding receive_core_def by (rule keeps_lift [OF assms(2,3)]) (rule keeps_run_transfer [OF assms])
qed

section \<open>Rendezvous endpoints\<close>

lemma distinct_update_first:
  assumes "update_first P f xs = Some ys" "\<And>x. P x \<Longrightarrow> g (f x) = g x" "distinct (map g xs)"
  shows "distinct (map g ys)"
proof -
  have "map g ys = map g xs" by (rule map_update_first [OF assms(1)]) (rule assms(2))
  with assms(3) show ?thesis by simp
qed

lemma keeps_rendezvous_add:
  assumes "live_lib_ok L" "kept L st h" "state_ok L st"
  shows "keepsL L st (handle_rendezvous_add L link_text nm proxy) h"
  unfolding handle_rendezvous_add_def
proof (rule keeps_lift [OF assms(2,3)])
  fix parsed
  define name where "name = (case nm of Some n \<Rightarrow> n | None \<Rightarrow> link_label parsed)"
  define cfg where "cfg = \<lparr>re_name = name, re_link = link_to_text (ll_keys L) parsed, via_socks = proxy\<rparr>"
  have "keepsL L st (bindL (liftL (re_build L cfg)) (\<lambda>_. bindL (load_state L) (\<lambda>st. save_state L (st\<lparr>rendezvous :=
         (case update_first (\<lambda>e. re_name e = name) (\<lambda>_. cfg) (rendezvous st) of
            Some es \<Rightarrow> es | None \<Rightarrow> rendezvous st @ [cfg])\<rparr>)))) h"
  proof (rule keeps_lift [OF assms(2,3)], rule keeps_load [OF assms(2)])
    fix e
    assume "re_build L cfg = Inr e"
    then have b: "is_ok (re_build L cfg)" by simp
    let ?u = "update_first (\<lambda>e. re_name e = name) (\<lambda>_. cfg) (rendezvous st)"
    let ?es = "case ?u of Some es \<Rightarrow> es | None \<Rightarrow> rendezvous st @ [cfg]"
    note ok = state_okD(3,4) [OF assms(3)]
    have n: "re_name cfg = name" by (simp add: cfg_def)
    have "distinct (map re_name ?es) \<and> list_all (\<lambda>e. is_ok (re_build L e)) ?es"
    proof (cases ?u)
      case None
      then have "name \<notin> re_name ` set (rendezvous st)" by (auto simp: update_first_None find_None_iff)
      with None ok b n show ?thesis by simp
    next
      case (Some es)
      have "distinct (map re_name es)" by (rule distinct_update_first [OF Some _ ok(1)]) (simp add: n)
      with Some ok(2) b show ?thesis using set_update_first [OF Some] by (auto simp: list_all_iff)
    qed
    with assms(3) have "state_ok L (st\<lparr>rendezvous := ?es\<rparr>)" by (simp add: state_ok_def)
    then show "keepsL L st (save_state L (st\<lparr>rendezvous := ?es\<rparr>)) h" by (intro keeps_save [OF assms]) auto
  qed
  then show "keepsL L st (let name = (case nm of Some n \<Rightarrow> n | None \<Rightarrow> link_label parsed);
         cfg = \<lparr>re_name = name, re_link = link_to_text (ll_keys L) parsed, via_socks = proxy\<rparr> in
     bindL (liftL (re_build L cfg)) (\<lambda>_. bindL (load_state L) (\<lambda>st. save_state L (st\<lparr>rendezvous :=
         (case update_first (\<lambda>e. re_name e = name) (\<lambda>_. cfg) (rendezvous st) of
            Some es \<Rightarrow> es | None \<Rightarrow> rendezvous st @ [cfg])\<rparr>)))) h"
    unfolding Let_def name_def cfg_def .
qed

lemma keeps_rendezvous_remove:
  assumes "live_lib_ok L" "kept L st h" "state_ok L st"
  shows "keepsL L st (handle_rendezvous_remove L name) h"
  unfolding handle_rendezvous_remove_def Let_def
proof (rule keeps_load [OF assms(2)], rule keeps_lift [OF assms(2,3)])
  let ?kept = "filter (\<lambda>e. re_name e \<noteq> name) (rendezvous st)"
  have "state_ok L (st\<lparr>rendezvous := ?kept\<rparr>)"
    using assms(3) by (simp add: state_ok_def list_all_iff distinct_map_filter)
  then show "keepsL L st (save_state L (st\<lparr>rendezvous := ?kept\<rparr>)) h"
    by (intro keeps_save [OF assms]) auto
qed

section \<open>The commands together\<close>

datatype LiveCommand =
    Address string
  | StunAddress stun_run string
  | Pair string "string option" "string \<Rightarrow> string" "string \<Rightarrow> string"
  | Announce live_world "string option"
  | SendVault live_world string string
  | ReceiveVault live_world string string
  | RendezvousAdd string "string option" "string option"
  | RendezvousRemove string

fun exec_live :: "live_lib \<Rightarrow> LiveCommand \<Rightarrow> LiveHome \<Rightarrow> LiveHome" where
  "exec_live L (Address a) h = fst (set_endpoints L [a] h)"
| "exec_live L (StunAddress s server) h = fst (discover_address L s server h)"
| "exec_live L (Pair nick code p1 p2) h = fst (handle_pair L nick code p1 p2 h)"
| "exec_live L (Announce w only) h = fst (announce_core L w only h)"
| "exec_live L (SendVault w path nick) h = fst (send_core L w path nick h)"
| "exec_live L (ReceiveVault w path nick) h = fst (receive_core L w path nick h)"
| "exec_live L (RendezvousAdd link nm proxy) h = fst (handle_rendezvous_add L link nm proxy h)"
| "exec_live L (RendezvousRemove name) h = fst (handle_rendezvous_remove L name h)"

lemma keepsL_fst: "keepsL L st m h \<Longrightarrow> saved_ok L st (fst (m h))"
  by (auto simp: keepsL_def wpL_def split: prod.splits)

lemma exec_live_keeps:
  assumes "live_lib_ok L" "kept L st h" "state_ok L st"
  shows "saved_ok L st (exec_live L c h)"
  by (cases c)
    (auto intro!: keepsL_fst keeps_set_endpoints [OF assms] keeps_discover_address [OF assms] keeps_handle_pair [OF assms]
      keeps_announce [OF assms(2,3)] keeps_send_receive [OF assms] keeps_rendezvous_add [OF assms] keeps_rendezvous_remove [OF assms])

lemma list_all2_peer_trans:
  "list_all2 (peer_grows L) xs ys \<Longrightarrow> list_all2 (peer_grows L) ys zs \<Longrightarrow> list_all2 (peer_grows L) xs zs"
  by (rule list_all2_trans) (auto simp: peer_grows_def intro: seq_le_trans)

lemma state_grows_trans:
  assumes "state_grows L a b" "state_grows L b c"
  shows "state_grows L a c"
proof -
  from assms obtain ps new qs new' where a: "peers b = ps @ new" "list_all2 (peer_grows L) (peers a) ps"
    and b: "peers c = qs @ new'" "list_all2 (peer_grows L) (ps @ new) qs" by (auto simp: state_grows_def)
  then obtain q1 q2 where q: "qs = q1 @ q2" "list_all2 (peer_grows L) ps q1" by (auto simp: list_all2_append1)
  have "list_all2 (peer_grows L) (peers a) q1" by (rule list_all2_peer_trans [OF a(2) q(2)])
  with b(1) q(1) show ?thesis unfolding state_grows_def by (intro exI [of _ q1] exI [of _ "q2 @ new'"]) simp
qed

lemma exec_live_run:
  assumes "live_lib_ok L" "kept L st h" "state_ok L st"
  shows "saved_ok L st (fold (exec_live L) cs h)"
  using assms(2,3)
proof (induction cs arbitrary: st h)
  case Nil
  then show ?case by (auto simp: saved_ok_def)
next
  case (Cons c cs)
  obtain st' where s: "kept L st' (exec_live L c h)" "state_ok L st'" "state_grows L st st'"
    using exec_live_keeps [OF assms(1) Cons.prems] by (auto simp: saved_ok_def)
  from Cons.IH [OF s(1,2)] s(3) show ?case by (auto simp: saved_ok_def intro: state_grows_trans)
qed

section \<open>The identity is created once\<close>

definition same_identity :: "LiveHome \<Rightarrow> LiveHome \<Rightarrow> bool" where
  "same_identity h h' \<longleftrightarrow> lh_home h' = lh_home h \<and> lh_key h' = lh_key h \<and> lh_readable h' = lh_readable h \<and>
     (lh_identity h \<noteq> None \<longrightarrow> lh_identity h' = lh_identity h)"

definition keeps_id :: "'a live \<Rightarrow> bool" where
  "keeps_id m \<longleftrightarrow> (\<forall>h. same_identity h (fst (m h)))"

lemma keeps_id_base:
  "keeps_id (retL x)" "keeps_id (liftL r)" "(\<And>h. same_identity h (fst (m h))) \<Longrightarrow> keeps_id m"
  by (simp_all add: keeps_id_def same_identity_def)

lemma keeps_id_bind:
  assumes "keeps_id m" "\<And>x. keeps_id (f x)"
  shows "keeps_id (bindL m f)"
  unfolding keeps_id_def
proof
  fix h
  obtain h1 r where m: "m h = (h1, r)" by fastforce
  then have s: "same_identity h h1" using assms(1) by (metis fst_conv keeps_id_def)
  show "same_identity h (fst (bindL m f h))"
  proof (cases r)
    case (Inr x)
    then have "same_identity h1 (fst (f x h1))" using assms(2) by (simp add: keeps_id_def)
    with s m Inr show ?thesis by (auto simp: bindL_def same_identity_def)
  qed (use s m in \<open>simp add: bindL_def\<close>)
qed

lemma keeps_id_load: "keeps_id (load_state L)"
  by (simp add: keeps_id_def load_state_pure same_identity_def)

lemma keeps_id_save: "keeps_id (save_state L st)"
  by (simp add: keeps_id_def save_state_def write_private_def set_peers_def same_identity_def Let_def split: sum.splits option.splits)

lemma write_identity_facts:
  assumes "write_private L lh_identity_io set_identity b h = (h', r)"
  shows "lh_home h' = lh_home h \<and> lh_key h' = lh_key h \<and> lh_readable h' = lh_readable h"
  using assms by (auto simp: write_private_def set_identity_def Let_def split: sum.splits option.splits if_splits)

lemma keeps_id_identity: "keeps_id (load_or_create_identity L)"
  unfolding keeps_id_def
proof
  fix h
  show "same_identity h (fst (load_or_create_identity L h))"
  proof (cases "lh_home h \<and> lh_identity h = None")
    case False
    then show ?thesis
      by (auto simp: load_or_create_identity_def bindL_def read_private_def same_identity_def result_simps
          split: option.splits sum.splits)
  next
    case True
    obtain h1 r where g: "generate_bundle L h = (h1, r)" by fastforce
    then have h1: "lh_home h1 = lh_home h \<and> lh_key h1 = lh_key h \<and> lh_readable h1 = lh_readable h"
      by (auto simp: generate_bundle_def split: prod.splits)
    show ?thesis
    proof (cases r)
      case (Inl e)
      with True g h1 show ?thesis
        by (simp add: load_or_create_identity_def bindL_def read_private_def same_identity_def)
    next
      case (Inr b)
      obtain h2 r2 where w: "write_private L lh_identity_io set_identity (to_secret_bytes b) h1 = (h2, r2)" by fastforce
      from write_identity_facts [OF w] Inr True g h1 w show ?thesis
        by (cases r2) (simp_all add: load_or_create_identity_def bindL_def read_private_def same_identity_def)
    qed
  qed
qed

lemma keeps_id_ticket: "keeps_id (my_ticket L)"
  unfolding my_ticket_def
  by (intro keeps_id_bind keeps_id_identity keeps_id_load keeps_id_base) (simp_all add: same_identity_def)

lemma keeps_id_remember: "keeps_id (remember L nick q)"
  unfolding remember_def
  by (intro keeps_id_bind keeps_id_load) (auto simp: keeps_id_save keeps_id_base split: option.splits)

lemma keeps_id_set_endpoints: "keeps_id (set_endpoints L as)"
  unfolding set_endpoints_def by (intro keeps_id_bind keeps_id_load keeps_id_save keeps_id_base)

lemma keeps_id_pair_steps:
  "keeps_id (pair_begin L c)" "keeps_id (pair_exchange L st s)" "keeps_id (pair_complete L ch sealed nick)"
proof -
  show "keeps_id (pair_begin L c)" by (simp add: keeps_id_def pair_begin_def same_identity_def split: prod.splits)
  show "keeps_id (pair_exchange L st s)" unfolding pair_exchange_def
    by (intro keeps_id_bind keeps_id_ticket keeps_id_base) (simp add: same_identity_def split: sum.splits prod.splits)
  show "keeps_id (pair_complete L ch sealed nick)" unfolding pair_complete_def
    by (intro keeps_id_bind keeps_id_identity keeps_id_load keeps_id_save keeps_id_base)
qed

lemma keeps_id_pair: "keeps_id (handle_pair L nick code p1 p2)"
proof -
  have c: "keeps_id (case code of Some c \<Rightarrow> liftL (map_err Live (code_parse c))
     | None \<Rightarrow> (\<lambda>h. let (c, g) = code_generate (ll_keys L) (lh_rng h) in (h\<lparr>lh_rng := g\<rparr>, Inr c)))"
    by (cases code) (simp_all add: keeps_id_def same_identity_def split: prod.splits)
  show ?thesis unfolding handle_pair_def
    by (intro keeps_id_bind keeps_id_ticket c) (auto split: prod.splits intro!: keeps_id_bind keeps_id_pair_steps)
qed

lemma keeps_id_run: "keeps_id (run_transfer L w nick d)"
proof -
  have m: "keeps_id (move_vault L w d)"
    by (simp add: keeps_id_def move_vault_def same_identity_def Let_def split: TransferDirection.splits option.splits prod.splits)
  have p: "keeps_id (\<lambda>h. (h\<lparr>lh_paths := lh_paths h @ [q]\<rparr>, Inr ()))" for q by (simp add: keeps_id_def same_identity_def)
  have s: "keeps_id (stored_peer L nick)" "keeps_id (bind_address L)"
    unfolding stored_peer_def bind_address_def by (intro keeps_id_bind keeps_id_load keeps_id_base)+
  show ?thesis unfolding run_transfer_def Let_def
    by (intro keeps_id_bind keeps_id_load keeps_id_identity s)
      (auto split: prod.splits sum.splits intro!: keeps_id_bind keeps_id_base(1,2) m p keeps_id_remember)
qed

lemma exec_live_id: "same_identity h (exec_live L c h)"
proof -
  have d: "keeps_id (discover_address L s server)" for s server unfolding discover_address_def
    by (intro keeps_id_bind keeps_id_set_endpoints keeps_id_base) (simp add: same_identity_def)
  have a: "keeps_id (announce_core L w only)" for w only unfolding announce_core_def
    by (intro keeps_id_bind keeps_id_load keeps_id_identity keeps_id_base) (simp add: same_identity_def split: prod.splits)
  have s: "keeps_id (send_core L w path nick)" for w path nick unfolding send_core_def
    by (intro keeps_id_bind keeps_id_run keeps_id_base) (simp add: same_identity_def)
  have v: "keeps_id (receive_core L w path nick)" for w path nick unfolding receive_core_def
    by (intro keeps_id_bind keeps_id_run keeps_id_base)
  have ra: "keeps_id (handle_rendezvous_add L link nm proxy)" for link nm proxy unfolding handle_rendezvous_add_def Let_def
    by (intro keeps_id_bind keeps_id_load keeps_id_save keeps_id_base)
  have rr: "keeps_id (handle_rendezvous_remove L name)" for name unfolding handle_rendezvous_remove_def Let_def
    by (intro keeps_id_bind keeps_id_load keeps_id_save keeps_id_base)
  show ?thesis
    by (cases c) (simp_all add:
        d [unfolded keeps_id_def] a [unfolded keeps_id_def] s [unfolded keeps_id_def] v [unfolded keeps_id_def]
        ra [unfolded keeps_id_def] rr [unfolded keeps_id_def] keeps_id_set_endpoints [unfolded keeps_id_def]
        keeps_id_pair [unfolded keeps_id_def])
qed

text \<open>Key generation: what the libraries return fits together.\<close>

definition gen_ok :: "live_lib \<Rightarrow> bool" where
  "gen_ok L \<longleftrightarrow>
     (\<forall>g p d g'. ed_generate L g = (Some (p, d), g') \<longrightarrow> ed_public (ll_keys L) d = Some p \<and> length d < 2 ^ 32) \<and>
     (\<forall>g p d g'. pq_generate L g = (Some (p, Some d), g') \<longrightarrow> pq_public_of (ll_keys L) d = Some p \<and> 0 < length d \<and> length d < 2 ^ 32)"

lemma generate_ok:
  assumes "gen_ok L" "LocalBundle_generate L g = (Inr b, g')"
  shows "local_ok (ll_keys L) b"
proof -
  from assms(2) obtain cl g1 where c: "LocalIdentity_generate L g = (Inr cl, g1)"
    by (auto simp: LocalBundle_generate_def split: prod.splits sum.splits)
  then have "ed_generate L g = (Some (li_public cl, li_pkcs8 cl), g1)"
    by (auto simp: LocalIdentity_generate_def split: prod.splits option.splits)
  then have cl: "ed_public (ll_keys L) (li_pkcs8 cl) = Some (li_public cl)" "length (li_pkcs8 cl) < 2 ^ 32"
    using assms(1) unfolding gen_ok_def by blast+
  from assms(2) c obtain p d g2 where q: "pq_generate L g1 = (Some (p, Some d), g2)"
    by (auto simp: LocalBundle_generate_def result_simps split: prod.splits option.splits)
  with assms(2) c have "length p = ML_DSA_65_PUBLIC_KEY_LEN" "b = \<lparr>lb_classical = cl, lb_pq_pkcs8 = Some d, lb_pq_public = Some p\<rparr>"
    by (auto simp: LocalBundle_generate_def result_simps PqPublicKey_from_bytes_def split: if_splits)
  moreover have "pq_public_of (ll_keys L) d = Some p" "0 < length d" "length d < 2 ^ 32"
    using assms(1) q unfolding gen_ok_def by blast+
  ultimately show ?thesis using cl by (simp add: local_ok_def)
qed

lemma load_identity_again:
  assumes "live_lib_ok L" "gen_ok L" "lh_readable h" "write_cut (lh_identity_io h) = None"
    and "load_or_create_identity L h = (h', Inr b)" "same_identity h' h2"
  shows "load_or_create_identity L h2 = (h2, Inr b) \<and> lh_identity h' \<noteq> None"
proof -
  have hm: "lh_home h" using assms(5) by (auto simp: load_or_create_identity_def bindL_def read_private_def split: if_splits)
  show ?thesis
  proof (cases "lh_identity h")
    case (Some raw)
    with assms(5) hm have "h' = h" and d: "bindE (map_err Msg (decrypt_config (ll_crypto L) (lh_key h) raw)) (\<lambda>p.
        map_err Live (from_secret_bytes (ll_keys L) p)) = Inr b"
      using assms(3) by (auto simp: load_or_create_identity_def bindL_def read_private_def result_simps guardE_def
          split: sum.splits)
    with assms(3,6) Some hm show ?thesis
      by (auto simp: load_or_create_identity_def bindL_def read_private_def same_identity_def result_simps)
  next
    case None
    with assms(5) hm obtain h1 where g: "generate_bundle L h = (h1, Inr b)"
      and w: "write_private L lh_identity_io set_identity (to_secret_bytes b) h1 = (h', Inr ())"
      by (auto simp: load_or_create_identity_def bindL_Inr read_private_def)
    from g obtain g' where lb: "LocalBundle_generate L (lh_rng h) = (Inr b, g')" and h1: "h1 = h\<lparr>lh_rng := g'\<rparr>"
      by (auto simp: generate_bundle_def map_err_eq_Inr split: prod.splits)
    from w h1 obtain sealed g2 where e: "encrypt_config (ll_crypto L) (lh_key h) (to_secret_bytes b) g' = Inr (sealed, g2)"
      and h': "h' = h\<lparr>lh_rng := g2, lh_identity := Some sealed\<rparr>"
      using assms(4) by (auto simp: write_private_def set_identity_def Let_def split: sum.splits prod.splits if_splits)
    have "decrypt_config (ll_crypto L) (lh_key h) sealed = Inr (to_secret_bytes b)"
      using decrypt_encrypt_config [OF live_lib_okD(1) [OF assms(1)] e] .
    moreover have "from_secret_bytes (ll_keys L) (to_secret_bytes b) = Inr b"
      by (rule secret_roundtrip [OF generate_ok [OF assms(2) lb]])
    ultimately show ?thesis using assms(3,6) hm h'
      by (simp add: load_or_create_identity_def bindL_def read_private_def same_identity_def)
  qed
qed

section \<open>Pairing end to end\<close>

lemma decode_own_message:
  assumes "b32_ok K"
  shows "decode_message K (encode_message K m) = Inr m"
proof (rule decode_encode_message [OF assms])
  have b: "list_all b32_char (b32_encode K m)" using assms by (simp add: b32_ok_def)
  have "trim (encode_message K m) = encode_message K m" unfolding encode_message_def
    by (rule trim_nonspace) (use b32_lower_nonspace [OF b] in \<open>auto simp: MESSAGE_PREFIX_def is_whitespace_def\<close>)
  moreover have "to_lowercase (encode_message K m) = encode_message K m"
    unfolding encode_message_def using to_lowercase_idem [of "b32_encode K m"]
    by (simp add: to_lowercase_def MESSAGE_PREFIX_def to_lower_def)
  ultimately show "to_lowercase (trim (encode_message K m)) = encode_message K m" by simp
qed

lemma pair_channels:
  assumes "live_lib_ok L" "pake_ok (ll_pake L)"
    and "pair_begin L code a = (a1, Inr (sa, ma))" "pair_begin L code b = (b1, Inr (sb, mb))"
  shows "\<exists>ch m1 m2. decode_message (ll_keys L) ma = Inr m1 \<and> decode_message (ll_keys L) mb = Inr m2 \<and>
    pair_finish (ll_pake L) (ll_crypto L) sa m2 = Inr ch \<and> pair_finish (ll_pake L) (ll_crypto L) sb m1 = Inr ch"
proof -
  obtain m1 g1 m2 g2 where p: "pair_start (ll_pake L) code (lh_rng a) = ((sa, m1), g1)" "ma = encode_message (ll_keys L) m1"
    "pair_start (ll_pake L) code (lh_rng b) = ((sb, m2), g2)" "mb = encode_message (ll_keys L) m2"
    using assms(3,4) by (auto simp: pair_begin_def Let_def split: prod.splits)
  from pair_agree [OF assms(2) live_lib_okD(2) [OF assms(1)] p(1,3)] show ?thesis
    using decode_own_message [OF live_lib_okD(3) [OF assms(1)]] p(2,4) by blast
qed

text \<open>What completing a pairing stores.\<close>

lemma pair_complete_stores:
  assumes "live_lib_ok L" "kept L st h" "state_ok L st" "length (rendezvous_secret ch) = 32"
    and "pair_complete L ch sealed nick h = (h', Inr t)"
  shows "open_ticket (ll_keys L) (ll_crypto L) ch sealed = Inr t \<and>
    (\<exists>st' p. kept L st' h' \<and> state_peer nick st' = Some p \<and> ticket_from_text (ll_keys L) (lp_ticket p) = Inr t \<and>
       map_option (decode_secret L) (lp_secret p) = Some (Inr (rendezvous_secret ch)))"
proof -
  from assms(5) obtain me h1 h2 st2 st' where o: "open_ticket (ll_keys L) (ll_crypto L) ch sealed = Inr t"
    and i: "load_or_create_identity L h = (h1, Inr me)" and l: "load_state L h1 = (h2, Inr st2)"
    and s: "save_paired L nick t (rendezvous_secret ch) st2 = Inr st'" and v: "save_state L st' h2 = (h', Inr ())"
    by (auto simp: pair_complete_def bindL_Inr result_simps)
  have k: "kept L st h1" by (rule kept_quiet [OF quiet_identity i assms(2)])
  with l have e: "st2 = st" "h2 = h1" by (simp_all add: kept_def)
  have ok: "ticket_ok t" using open_ticket_Inr [OF live_lib_okD(1) [OF assms(1)] o] by simp
  from save_paired_cases [OF assms(1) ok assms(4,3)] s e obtain p where
    "state_peer nick st' = Some p" "lp_ticket p = ticket_to_text (ll_keys L) t" "lp_secret p = Some (encode_secret L (rendezvous_secret ch))"
    by auto
  moreover have "kept L st' h'" using save_state_cases [OF assms(1) k, of st' h' "Inr ()"] v e by simp
  ultimately show ?thesis
    using o ticket_text_ok [OF assms(1) ok] decode_encode_secret [OF assms(1,4)] by auto
qed

lemma quiet_exchange_kept:
  assumes "pair_begin L code a = (a1, r1)" "pair_exchange L s m a1 = (a2, r2)" "kept L st a"
  shows "kept L st a2"
  by (rule kept_quiet [OF quiet_pair_exchange assms(2) kept_quiet [OF quiet_pair_begin assms(1,3)]])

lemma exchange_opens:
  assumes "live_lib_ok L" "pake_ok (ll_pake L)"
    and "pair_begin L code a = (a1, Inr (sa, ma))" "pair_begin L code b = (b1, Inr (sb, mb))"
    and "pair_exchange L sa mb a1 = (a2, Inr (cha, xa))" "pair_exchange L sb ma b1 = (b2, Inr (chb, xb))"
    and "my_ticket L b1 = (b1', Inr tb)" "ticket_ok tb"
  shows "chb = cha \<and> length (rendezvous_secret cha) = 32 \<and> open_ticket (ll_keys L) (ll_crypto L) cha xb = Inr tb"
proof -
  obtain ch m1 m2 where c: "decode_message (ll_keys L) ma = Inr m1" "decode_message (ll_keys L) mb = Inr m2"
    "pair_finish (ll_pake L) (ll_crypto L) sa m2 = Inr ch" "pair_finish (ll_pake L) (ll_crypto L) sb m1 = Inr ch"
    using pair_channels [OF assms(1-4)] by blast
  have ch: "cha = ch" using pair_exchange_Inr [OF assms(5)] c by auto
  from pair_exchange_Inr [OF assms(6)] obtain m h1 t' g where x: "decode_message (ll_keys L) ma = Inr m"
    "pair_finish (ll_pake L) (ll_crypto L) sb m = Inr chb" "my_ticket L b1 = (h1, Inr t')"
    "seal_ticket (ll_keys L) (ll_crypto L) chb t' (lh_rng h1) = Inr (xb, g)" by blast
  then have s: "chb = ch" "seal_ticket (ll_keys L) (ll_crypto L) ch tb (lh_rng h1) = Inr (xb, g)"
    using c assms(7) by simp_all
  have "open_ticket (ll_keys L) (ll_crypto L) ch xb = Inr tb"
    by (rule open_seal_ticket [OF live_lib_okD(3,1) [OF assms(1)] assms(8) s(2)])
  then show ?thesis using ch s(1) pair_finish_secret [OF live_lib_okD(2) [OF assms(1)] c(3)] by simp
qed

lemma pairing_run:
  assumes "live_lib_ok L" "pake_ok (ll_pake L)"
    and "pair_begin L code a = (a1, Inr (sa, ma))" "pair_begin L code b = (b1, Inr (sb, mb))"
    and "pair_exchange L sa mb a1 = (a2, Inr (cha, xa))" "pair_exchange L sb ma b1 = (b2, Inr (chb, xb))"
    and "kept L st a" "state_ok L st" "pair_complete L cha xb nick a2 = (a3, Inr t)"
    and "my_ticket L b1 = (b1', Inr tb)" "ticket_ok tb"
  shows "chb = cha \<and> t = tb \<and> (\<exists>st' p. kept L st' a3 \<and> state_peer nick st' = Some p \<and>
    ticket_from_text (ll_keys L) (lp_ticket p) = Inr tb \<and> map_option (decode_secret L) (lp_secret p) = Some (Inr (rendezvous_secret cha)))"
proof -
  note o = exchange_opens [OF assms(1-6,10,11)]
  from pair_complete_stores [OF assms(1) quiet_exchange_kept [OF assms(3,5,7)] assms(8) _ assms(9)] o
  show ?thesis by auto
qed

section \<open>Rendezvous links\<close>

lemma link_validate_prefix: "ServerLink_new ok k h p pre ps o' = Inr l \<Longrightarrow>
  l = \<lparr>kind = k, shost = h, sport = p, sprefix = trim_slashes pre, pins = ps, onion = o'\<rparr> \<and> link_validate ok l = Inr ()"
  by (auto simp: ServerLink_new_def Let_def result_simps)

lemma ascii_utf8: "is_ascii s \<Longrightarrow> utf8_valid (str_bytes s)"
  using from_utf8_str_bytes [of s] by (simp add: from_utf8_def split: if_splits)

lemma set_trim_slashes: "set (trim_slashes s) \<subseteq> set s"
  by (auto simp: trim_slashes_def dest!: set_dropWhileD)

lemma hex_pairs_length: "hex_pairs s = Some bs \<Longrightarrow> length bs = length s div 2"
  by (induction s arbitrary: bs rule: hex_pairs.induct) (auto simp: bind_eq_Some_conv)

lemma parse_pin_length: "parse_pin s = Inr b \<Longrightarrow> length b = 32"
  by (auto simp: parse_pin_def Let_def result_simps dest!: hex_pairs_length)

lemma rendezvous_link_ok:
  assumes "handle_rendezvous_link L host p pre pin_texts onion_text = Inr l" "is_ascii host" "is_ascii pre"
  shows "link_ok (ll_name_ok L) l \<and> kind l = Rendezvous \<and> shost l = host"
proof -
  from assms(1) obtain ps o' where ps: "parse_all (\<lambda>s. map_err Live (parse_pin s)) pin_texts = Inr ps"
    and o: "(case onion_text of None \<Rightarrow> Inr None
            | Some s \<Rightarrow> bindE (parse_endpoint s) (\<lambda>e.
                (case e of Onion a \<Rightarrow> Inr (Some a) | Direct _ \<Rightarrow> Inl (Msg ''--onion needs an .onion address with a port'')))) = Inr o'"
    and l: "ServerLink_new (ll_name_ok L) Rendezvous host p pre ps o' = Inr l"
    by (auto simp: handle_rendezvous_link_def result_simps)
  have "list_all (\<lambda>p. length p = 32) ps"
    using ps by (induction pin_texts arbitrary: ps) (auto simp: result_simps dest: parse_pin_length)
  moreover have "case o' of None \<Rightarrow> True | Some a \<Rightarrow> onion_ok a"
  proof (cases onion_text)
    case (Some s)
    with o obtain e where e: "parse_endpoint s = Inr e" "(case e of Onion a \<Rightarrow> Inr (Some a) | Direct _ \<Rightarrow>
        Inl (Msg ''--onion needs an .onion address with a port'')) = Inr o'" by (auto simp: result_simps)
    from parse_endpoint_ok [OF e(1)] e(2) show ?thesis by (cases e) (auto simp: hint_ok_def)
  qed (use o in simp)
  moreover have "is_ascii (trim_slashes pre)" using assms(3) set_trim_slashes [of pre] by (auto simp: is_ascii_def list_all_iff)
  ultimately show ?thesis using link_validate_prefix [OF l] assms(2) by (auto simp: link_ok_def ascii_utf8)
qed

lemma link_text_ok:
  assumes "live_lib_ok L" "link_ok (ll_name_ok L) l" "to_lowercase (trim s) = link_to_text (ll_keys L) l"
  shows "link_from_text (ll_keys L) (ll_name_ok L) s = Inr l"
  unfolding link_from_text_def
  by (rule link.text_roundtrip [OF live_lib_okD(3,4) [OF assms(1)] assms(2)]) (use assms(3) in \<open>simp add: link_to_text_def\<close>)

text \<open>An added endpoint is stored under its name, with the pins of the link it was made from.\<close>

lemma rendezvous_add_stores:
  assumes "live_lib_ok L" "kept L st h" "link_ok (ll_name_ok L) l" "to_lowercase (trim s) = link_to_text (ll_keys L) l"
    and "handle_rendezvous_add L s (Some name) proxy h = (h', Inr ())"
  shows "\<exists>st' e b. kept L st' h' \<and> List.find (\<lambda>e. re_name e = name) (rendezvous st') = Some e \<and>
    via_socks e = proxy \<and> re_build L e = Inr b \<and> be_pins b = pins l \<and> be_pins b \<noteq> []"
proof -
  let ?cfg = "\<lparr>re_name = name, re_link = link_to_text (ll_keys L) l, via_socks = proxy\<rparr>"
  let ?u = "update_first (\<lambda>e. re_name e = name) (\<lambda>_. ?cfg) (rendezvous st)"
  let ?st = "st\<lparr>rendezvous := (case ?u of Some es \<Rightarrow> es | None \<Rightarrow> rendezvous st @ [?cfg])\<rparr>"
  have p: "link_from_text (ll_keys L) (ll_name_ok L) s = Inr l"
    "link_from_text (ll_keys L) (ll_name_ok L) (link_to_text (ll_keys L) l) = Inr l"
    using link_text_ok [OF assms(1,3)] assms(4) link_text_plain [OF live_lib_okD(3) [OF assms(1)]] by simp_all
  from assms(5) p(1) obtain b where b: "re_build L ?cfg = Inr b" and s: "save_state L ?st h = (h', Inr ())"
    using assms(2) by (auto simp: handle_rendezvous_add_def bindL_Inr kept_def Let_def)
  from b p(2) obtain proxy' where "from_link (ll_name_ok L) l proxy' = Inr b"
    by (auto simp: re_build_def re_parsed_def result_simps)
  then have "be_pins b = pins l \<and> be_pins b \<noteq> []" using from_link_safe by blast
  moreover have "List.find (\<lambda>e. re_name e = name) (rendezvous ?st) = Some ?cfg"
  proof (cases ?u)
    case None
    then have "List.find (\<lambda>e. re_name e = name) (rendezvous st) = None" by (simp add: update_first_None)
    with None show ?thesis by (simp add: find_append)
  next
    case (Some es)
    with update_first_None [of "\<lambda>e. re_name e = name" "\<lambda>_. ?cfg" "rendezvous st"] obtain x where
      "List.find (\<lambda>e. re_name e = name) (rendezvous st) = Some x" by auto
    with find_update_first [OF Some] Some show ?thesis by simp
  qed
  moreover have "kept L ?st h'" using save_state_cases [OF assms(1,2) s] by simp
  ultimately show ?thesis using b by (intro exI [of _ ?st] exI [of _ ?cfg] exI [of _ b]) auto
qed

end
