(* ===== verification/LiveCmdTheorems.thy ===== *)
theory LiveCmdTheorems
  imports LiveCmdProofs SyncDemo
begin

text \<open>
  The properties of the \<open>atom live\<close> commands, with their witnesses on a concrete library and home
  directory.
\<close>

section \<open>A concrete library\<close>

definition put_opt :: "('a \<Rightarrow> nat list) \<Rightarrow> 'a option \<Rightarrow> nat list" where
  "put_opt e x = put_list e (case x of None \<Rightarrow> [] | Some y \<Rightarrow> [y])"

definition get_opt :: "(nat list \<Rightarrow> ('a \<times> nat list) option) \<Rightarrow> nat list \<Rightarrow> ('a option \<times> nat list) option" where
  "get_opt d ns = map_option (\<lambda>(xs, r). ((case xs of [] \<Rightarrow> None | x # _ \<Rightarrow> Some x), r)) (get_list d ns)"

lemma get_put_opt:
  assumes "\<And>x r. d (e x @ r) = Some (x, r)"
  shows "get_opt d (put_opt e x @ r) = Some (x, r)"
  using get_put_list [OF assms] by (simp add: get_opt_def put_opt_def split: option.splits)

definition put_u64 :: "u64 \<Rightarrow> nat list" where
  "put_u64 w = [unat w]"

definition get_u64 :: "nat list \<Rightarrow> (u64 \<times> nat list) option" where
  "get_u64 ns = map_option (\<lambda>(n, r). (word_of_nat n, r)) (get_nat ns)"

lemma get_put_u64: "get_u64 (put_u64 w @ r) = Some (w, r)"
  by (simp add: get_u64_def put_u64_def)

definition put_peer :: "LivePeer \<Rightarrow> nat list" where
  "put_peer p = put_string (lp_nickname p) @ put_string (lp_ticket p) @ put_opt put_string (lp_secret p) @
     put_list put_string (lp_last_known p) @ put_opt put_u64 (lp_newest_seen p)"

definition get_peer :: "nat list \<Rightarrow> (LivePeer \<times> nat list) option" where
  "get_peer ns = Option.bind (get_string ns) (\<lambda>(a, r1). Option.bind (get_string r1) (\<lambda>(b, r2).
     Option.bind (get_opt get_string r2) (\<lambda>(c, r3). Option.bind (get_list get_string r3) (\<lambda>(d, r4).
     Option.bind (get_opt get_u64 r4) (\<lambda>(e, r5).
       Some (\<lparr>lp_nickname = a, lp_ticket = b, lp_secret = c, lp_last_known = d, lp_newest_seen = e\<rparr>, r5))))))"

lemma get_put_peer: "get_peer (put_peer p @ r) = Some (p, r)"
  by (simp add: get_peer_def put_peer_def get_put_opt get_put_list get_put_u64)

definition put_endpoint :: "RendezvousEndpoint \<Rightarrow> nat list" where
  "put_endpoint e = put_string (re_name e) @ put_string (re_link e) @ put_opt put_string (via_socks e)"

definition get_endpoint :: "nat list \<Rightarrow> (RendezvousEndpoint \<times> nat list) option" where
  "get_endpoint ns = Option.bind (get_string ns) (\<lambda>(a, r1). Option.bind (get_string r1) (\<lambda>(b, r2).
     Option.bind (get_opt get_string r2) (\<lambda>(c, r3). Some (\<lparr>re_name = a, re_link = b, via_socks = c\<rparr>, r3))))"

lemma get_put_endpoint: "get_endpoint (put_endpoint e @ r) = Some (e, r)"
  by (simp add: get_endpoint_def put_endpoint_def get_put_opt)

definition put_state :: "LiveState \<Rightarrow> nat list" where
  "put_state s = put_list put_string (my_endpoints s) @ put_list put_peer (peers s) @ put_list put_endpoint (rendezvous s)"

definition get_state :: "nat list \<Rightarrow> (LiveState \<times> nat list) option" where
  "get_state ns = Option.bind (get_list get_string ns) (\<lambda>(a, r1). Option.bind (get_list get_peer r1) (\<lambda>(b, r2).
     Option.bind (get_list get_endpoint r2) (\<lambda>(c, r3). Some (\<lparr>my_endpoints = a, peers = b, rendezvous = c\<rparr>, r3))))"

lemma get_put_state: "get_state (put_state s @ r) = Some (s, r)"
  by (simp add: get_state_def put_state_def get_put_list get_put_peer get_put_endpoint)

definition demo_live :: live_lib where
  "demo_live = \<lparr>ll_crypto = demo_crypto, ll_keys = demo_keys, ll_pake = demo_pake, ll_xof = demo_xof, ll_name_ok = (\<lambda>_. True),
     state_to_json = (\<lambda>s. str_bytes (nats_text (put_state s))),
     state_from_json = (\<lambda>bs. whole (get_state (text_nats 0 (bytes_str bs)))),
     ed_generate = (\<lambda>g. (Some (li_public (lb_classical (demo_local (g 0))), li_pkcs8 (lb_classical (demo_local (g 0)))), \<lambda>i. g (Suc i))),
     pq_generate = (\<lambda>g. (Some (replicate ML_DSA_65_PUBLIC_KEY_LEN (g 0), Some [g 0]), \<lambda>i. g (Suc i)))\<rparr>"

lemma demo_live_ok: "live_lib_ok demo_live"
  using demo_aead_ok demo_hkdf_ok demo_b32_ok demo_blake3_ok get_put_state [of _ "[]"]
  by (simp add: live_lib_ok_def demo_live_def whole_def)

definition demo_live_home :: "byte \<Rightarrow> LiveHome" where
  "demo_live_home b = \<lparr>lh_home = True, lh_key = Some (replicate 32 7), lh_identity = Some (to_secret_bytes (demo_local b)),
     lh_peers = None, lh_identity_io = \<lparr>open_ok = True, write_cut = None\<rparr>, lh_peers_io = \<lparr>open_ok = True, write_cut = None\<rparr>,
     lh_readable = True, lh_clock = 10, lh_rng = (\<lambda>i. b), lh_vaults = (\<lambda>_. \<lparr>part = None, dest = Some [1]\<rparr>),
     lh_paths = [], lh_servers = []\<rparr>"

lemma demo_live_home_facts:
  "load_state demo_live (demo_live_home b) = (demo_live_home b, Inr LiveState_default)"
  "lh_readable (demo_live_home b)" "write_cut (lh_peers_io (demo_live_home b)) = None"
  by (simp_all add: load_state_def bindL_def read_private_def demo_live_home_def)

lemma default_ok: "state_ok L LiveState_default"
  by (simp add: state_ok_def LiveState_default_def)

section \<open>The stored state\<close>

text \<open>
  C29. From a readable, well-formed state, and as long as no write of the peer store is cut short, whatever sequence
  of \<open>atom live\<close> commands runs, failing or not, the stored state stays readable and
  well-formed: nicknames and endpoint names are unique, every stored ticket, secret and address reads back,
  and every configured rendezvous endpoint still builds. No peer is dropped, no nickname is rebound to
  another identity, and the replay floor of a peer never goes down.
\<close>

theorem live_state_is_safe:
  assumes "live_lib_ok L" "load_state L h = (h, Inr st)" "state_ok L st"
    and "lh_readable h" "write_cut (lh_peers_io h) = None"
  shows "\<exists>st'. snd (load_state L (fold (exec_live L) cs h)) = Inr st' \<and> state_ok L st' \<and> state_grows L st st'"
proof -
  have "kept L st h" using assms(2,4,5) by (simp add: kept_def)
  from exec_live_run [OF assms(1) this assms(3), of cs] show ?thesis by (auto simp: saved_ok_def kept_def)
qed

theorem live_state_is_safe_witness:
  "\<exists>st'. snd (load_state demo_live (fold (exec_live demo_live)
      [Address ''192.0.2.7:4433'', RendezvousRemove ''x'', Address ''nonsense''] (demo_live_home 1))) = Inr st' \<and>
    state_ok demo_live st' \<and> state_grows demo_live LiveState_default st'"
  by (rule live_state_is_safe [OF demo_live_ok demo_live_home_facts(1) default_ok demo_live_home_facts(2,3)])

text \<open>One entry is replaced, by one of the same identity whose addresses read back.\<close>

definition only_peer_changed :: "live_lib \<Rightarrow> string \<Rightarrow> LiveState \<Rightarrow> LiveState \<Rightarrow> bool" where
  "only_peer_changed L nick st st' \<longleftrightarrow>
     (case (state_peer nick st, state_peer nick st') of
        (Some p, Some p') \<Rightarrow> peer_grows L p p' \<and> lp_ticket p' = lp_ticket p \<and> lp_secret p' = lp_secret p \<and>
          list_all (\<lambda>a. is_ok (parse_endpoint a)) (lp_last_known p')
      | _ \<Rightarrow> False) \<and>
     filter (\<lambda>x. lp_nickname x \<noteq> nick) (peers st') = filter (\<lambda>x. lp_nickname x \<noteq> nick) (peers st) \<and>
     my_endpoints st' = my_endpoints st \<and> rendezvous st' = rendezvous st"

lemma remember_changes:
  assumes "live_lib_ok L" "kept L st h1" "state_peer nick st = Some p" "peer_state L p = Inr ps"
    and "list_all hint_ok (last_known q)" "peer_le ps q" "remember L nick q h1 = (h2, Inr u)"
  shows "\<exists>st'. kept L st' h2 \<and> only_peer_changed L nick st st'"
proof -
  let ?p' = "p\<lparr>lp_last_known := map show_endpoint (last_known q), lp_newest_seen := newest_seen q\<rparr>"
  have "peer_grows L p ?p'"
    using assms(6) peer_state_facts(1) [OF assms(4)] by (simp add: peer_grows_def peer_id_def peer_le_def)
  moreover from remember_outcome [OF assms(1-3,7)] obtain st' where "kept L st' h2" "state_peer nick st' = Some ?p'"
    "filter (\<lambda>x. lp_nickname x \<noteq> nick) (peers st') = filter (\<lambda>x. lp_nickname x \<noteq> nick) (peers st)"
    "my_endpoints st' = my_endpoints st" "rendezvous st' = rendezvous st" by auto
  ultimately show ?thesis
    using assms(3) shown_parse [OF assms(5)] by (intro exI [of _ st']) (simp add: only_peer_changed_def)
qed

text \<open>
  A transfer that fails, at whatever point, leaves the stored state as it was; one that succeeds changes
  only the entry of its peer, whose ticket, secret and identity stay and whose replay floor does not go down.
  The addresses it stores all read back.
\<close>

theorem transfer_updates_only_its_peer:
  assumes "live_lib_ok L" "kept L st h" "run_transfer L w nick d h = (h', r)"
  shows "case r of Inl e \<Rightarrow> kept L st h' | Inr s \<Rightarrow> (\<exists>st'. kept L st' h' \<and> only_peer_changed L nick st st')"
proof -
  let ?Q = "\<lambda>h' r. case r of Inl e \<Rightarrow> kept L st h' | Inr s \<Rightarrow> (\<exists>st'. kept L st' h' \<and> only_peer_changed L nick st st')"
  have "wpL (run_transfer L w nick d) ?Q h"
  proof (rule run_transfer_wp [OF assms(1,2)])
    show "on_failure L st ?Q" by (simp add: on_failure_def)
  next
    fix h1 p ps q and s :: Summary
    assume k: "kept L st h1" and p: "state_peer nick st = Some p" "peer_state L p = Inr ps"
      and q: "list_all hint_ok (last_known q)" "peer_le ps q"
    obtain h2 r2 where m: "remember L nick q h1 = (h2, r2)" by fastforce
    show "wpL (bindL (remember L nick q) (\<lambda>_. retL s)) ?Q h1"
    proof (cases r2)
      case (Inl e)
      with remember_outcome [OF assms(1) k p(1) m] m show ?thesis by (simp add: wpL_def bindL_def)
    next
      case (Inr u)
      with remember_changes [OF assms(1) k p q] m show ?thesis by (simp add: wpL_def bindL_def)
    qed
  qed
  then show ?thesis unfolding wpL_def assms(3) prod.case .
qed

definition demo_net :: net where
  "demo_net = \<lparr>n_bind = Inr (), n_wall = (\<lambda>_. 0), n_connect = (\<lambda>_ _. Inl ''down''), n_client = (\<lambda>_ _. Inl ECancelled),
     n_server = (\<lambda>_ _. Inl ECancelled), n_client_time = (\<lambda>_. 0), n_server_time = (\<lambda>_. 0), n_socks = (\<lambda>_ _. Inl ECancelled), n_tls = (\<lambda>_ _. Inl ECancelled),
     n_lookup_time = 1\<rparr>"

definition demo_world :: live_world where
  "demo_world = \<lparr>w_net = (\<lambda>_. demo_net), w_server = (\<lambda>_. demo_substrate), w_wakes1 = [], w_wakes2 = [], w_now = 0,
     w_millis = (\<lambda>_. 0), w_secs = (\<lambda>_. 0), w_rng = (\<lambda>_ _. 0), w_tx = \<lparr>cancelled_at = (\<lambda>_. False), send_err = (\<lambda>_. None)\<rparr>,
     w_open = True, w_mkdir = True, w_first = (Inl ECancelled, True), w_second = (Inl ECancelled, True), w_frames = []\<rparr>"

lemma demo_kept: "kept demo_live LiveState_default (demo_live_home b)"
  using demo_live_home_facts by (simp add: kept_def)

theorem transfer_updates_only_its_peer_witness:
  "case snd (run_transfer demo_live demo_world ''bob'' (Send ''v'') (demo_live_home 1)) of
     Inl e \<Rightarrow> kept demo_live LiveState_default (fst (run_transfer demo_live demo_world ''bob'' (Send ''v'') (demo_live_home 1)))
   | Inr s \<Rightarrow> (\<exists>st'. kept demo_live st' (fst (run_transfer demo_live demo_world ''bob'' (Send ''v'') (demo_live_home 1))) \<and>
       only_peer_changed demo_live ''bob'' LiveState_default st')"
  by (rule transfer_updates_only_its_peer [OF demo_live_ok demo_kept surjective_pairing])

definition onion_text :: "string \<Rightarrow> bool" where
  "onion_text s = (case parse_endpoint s of Inr (Onion a) \<Rightarrow> True | _ \<Rightarrow> False)"

lemma first_direct_onion: "list_all onion_text es \<Longrightarrow> first_direct es = None"
  by (induction es) (auto simp: onion_text_def split: sum.splits Endpoint.splits)

lemma generate_vaults: "lh_vaults (fst (generate_bundle L h)) = lh_vaults h"
  by (simp add: generate_bundle_def split: prod.splits)

lemma write_vaults: "lh_vaults (fst (write_private L lh_identity_io set_identity x h)) = lh_vaults h"
  by (simp add: write_private_def set_identity_def Let_def split: sum.splits option.splits)

lemma bind_vaults:
  assumes "\<And>h. lh_vaults (fst (m h)) = lh_vaults h" "\<And>x h. lh_vaults (fst (f x h)) = lh_vaults h"
  shows "lh_vaults (fst (bindL m f h)) = lh_vaults h"
  using assms(1) [of h] assms(2) by (auto simp: bindL_def split: prod.splits sum.splits)

lemma identity_vaults: "lh_vaults (fst (load_or_create_identity L h)) = lh_vaults h"
  unfolding load_or_create_identity_def
  by (rule bind_vaults) (auto simp: read_private_def bind_vaults generate_vaults write_vaults split: option.splits)

text \<open>
  A user all of whose advertised addresses are onion addresses cannot transfer: the command fails and
  moves nothing, whatever the network does.
\<close>

theorem onion_only_users_cannot_transfer:
  assumes "kept L st h" "list_all onion_text (my_endpoints st)"
  shows "(\<exists>e. snd (run_transfer L w nick d h) = Inl e) \<and> lh_vaults (fst (run_transfer L w nick d h)) = lh_vaults h"
proof -
  have l: "load_state L h = (h, Inr st)" using assms(1) by (simp add: kept_def)
  obtain h2 r2 where i: "load_or_create_identity L h = (h2, r2)" by fastforce
  have k: "kept L st h2" by (rule kept_quiet [OF quiet_identity i assms(1)])
  then have b: "bind_address L h2 = (h2, Inl (Msg ''No direct address set''))"
    using first_direct_onion [OF assms(2)] by (simp add: bind_address_def bindL_def kept_def)
  have v: "lh_vaults h2 = lh_vaults h" using identity_vaults [of L h] i by simp
  show ?thesis
    by (cases "state_peer nick st"; cases r2) (simp_all add: run_transfer_def stored_peer_def bindL_def l i b v)
qed

definition demo_onion :: OnionAddress where
  "demo_onion = \<lparr>ohost = replicate 56 (CHR ''a'') @ ''.onion'', oport = 80\<rparr>"

lemma demo_onion_ok: "onion_ok demo_onion"
  by (simp add: onion_ok_def demo_onion_def is_base32_lower_def list_all_iff)

definition demo_onion_state :: LiveState where
  "demo_onion_state = LiveState_default\<lparr>my_endpoints := [show_endpoint (Onion demo_onion)]\<rparr>"

text \<open>A home directory whose state file is an older, plain one.\<close>

definition demo_home_with :: "LiveState \<Rightarrow> byte \<Rightarrow> LiveHome" where
  "demo_home_with st b = (demo_live_home b)\<lparr>lh_peers := Some (state_to_json demo_live st)\<rparr>"

lemma nats_text_plain:
  assumes "strip_prefix MAGIC (str_bytes (nats_text ns)) = Some p"
  shows False
proof -
  have "hd (str_bytes (nats_text ns)) = 65" "nats_text ns \<noteq> []"
    using assms by (auto simp: strip_prefix_Some MAGIC_def str_bytes_def)
  moreover have "hd (nats_text ns) = CHR ''a'' \<or> hd (nats_text ns) = CHR ''b''"
    using nats_text_chars [OF hd_in_set] calculation(2) by blast
  ultimately show False by (auto simp: str_bytes_def hd_map)
qed

lemma demo_home_kept: "kept demo_live st (demo_home_with st b)"
proof -
  have "strip_prefix MAGIC (state_to_json demo_live st) = None"
    using nats_text_plain [of "put_state st"] by (cases "strip_prefix MAGIC (state_to_json demo_live st)") (auto simp: demo_live_def)
  then show ?thesis using live_lib_okD(5) [OF demo_live_ok, of st]
    by (simp add: kept_def load_state_def bindL_def read_private_def demo_home_with_def demo_live_home_def decrypt_config_def)
qed

theorem onion_only_users_cannot_transfer_witness:
  "(\<exists>e. snd (run_transfer demo_live demo_world ''bob'' (Send ''v'') (demo_home_with demo_onion_state 1)) = Inl e) \<and>
   lh_vaults (fst (run_transfer demo_live demo_world ''bob'' (Send ''v'') (demo_home_with demo_onion_state 1))) =
     lh_vaults (demo_home_with demo_onion_state 1)"
  by (rule onion_only_users_cannot_transfer [OF demo_home_kept])
    (simp add: demo_onion_state_def onion_text_def parse_endpoint_show hint_ok_def demo_onion_ok)

section \<open>The identity\<close>

text \<open>
  The private identity is generated once. Whatever commands run afterwards, loading it gives the same
  bundle and writes nothing.
\<close>

theorem identity_is_created_once:
  assumes "live_lib_ok L" "gen_ok L" "lh_readable h" "write_cut (lh_identity_io h) = None"
    and "load_or_create_identity L h = (h', Inr b)"
  shows "load_or_create_identity L (fold (exec_live L) cs h') = (fold (exec_live L) cs h', Inr b)"
proof -
  have "lh_identity h' \<noteq> None"
    using load_identity_again [OF assms, of h'] by (simp add: same_identity_def)
  then have "same_identity h' (fold (exec_live L) cs h')"
  proof (induction cs rule: rev_induct)
    case (snoc c cs)
    then show ?case using exec_live_id [of "fold (exec_live L) cs h'" L c] by (auto simp: same_identity_def)
  qed (simp add: same_identity_def)
  from load_identity_again [OF assms this] show ?thesis by blast
qed

lemma demo_gen_ok: "gen_ok demo_live"
  by (simp add: gen_ok_def demo_live_def demo_local_def demo_keys_def)

lemma demo_fresh_identity:
  "load_or_create_identity demo_live (demo_live_home 3\<lparr>lh_identity := None\<rparr>) =
    (fst (load_or_create_identity demo_live (demo_live_home 3\<lparr>lh_identity := None\<rparr>)), Inr (demo_local 3))"
  by (simp add: load_or_create_identity_def bindL_def read_private_def demo_live_home_def generate_bundle_def
      LocalBundle_generate_def LocalIdentity_generate_def demo_live_def PqPublicKey_from_bytes_def write_private_def
      encrypt_config_def demo_crypto_def demo_seal_def demo_local_def Let_def draw_def)

theorem identity_is_created_once_witness:
  "let h = fold (exec_live demo_live) [Address ''192.0.2.7:4433'', RendezvousRemove ''x'']
         (fst (load_or_create_identity demo_live (demo_live_home 3\<lparr>lh_identity := None\<rparr>)))
   in load_or_create_identity demo_live h = (h, Inr (demo_local 3))"
  unfolding Let_def
  by (rule identity_is_created_once [OF demo_live_ok demo_gen_ok _ _ demo_fresh_identity]) (simp_all add: demo_live_home_def)

section \<open>Pairing\<close>

text \<open>
  C30. Two users who begin from the same code, exchange the messages the program shows and both complete end
  up with each other: each one's entry for the other holds exactly the ticket the other made, and both hold
  the same rendezvous secret, so they look in the same slots from then on.
\<close>

theorem pairing_connects_both:
  assumes "live_lib_ok L" "pake_ok (ll_pake L)"
    and "pair_begin L code a = (a1, Inr (sa, ma))" "pair_begin L code b = (b1, Inr (sb, mb))"
    and "pair_exchange L sa mb a1 = (a2, Inr (cha, xa))" "pair_exchange L sb ma b1 = (b2, Inr (chb, xb))"
    and "pair_complete L cha xb bob a2 = (a3, Inr t1)" "pair_complete L chb xa alice b2 = (b3, Inr t2)"
    and "kept L sta a" "state_ok L sta" "kept L stb b" "state_ok L stb"
    and "my_ticket L a1 = (a1', Inr ta)" "ticket_ok ta" "my_ticket L b1 = (b1', Inr tb)" "ticket_ok tb"
  shows "t1 = tb \<and> t2 = ta \<and> (\<exists>sta' pa stb' pb secret. kept L sta' a3 \<and> kept L stb' b3 \<and>
    state_peer bob sta' = Some pa \<and> ticket_from_text (ll_keys L) (lp_ticket pa) = Inr tb \<and>
    state_peer alice stb' = Some pb \<and> ticket_from_text (ll_keys L) (lp_ticket pb) = Inr ta \<and>
    map_option (decode_secret L) (lp_secret pa) = Some (Inr secret) \<and>
    map_option (decode_secret L) (lp_secret pb) = Some (Inr secret))"
  using pairing_run [OF assms(1-6) assms(9,10,7) assms(15,16)]
    pairing_run [OF assms(1,2,4,3,6,5) assms(11,12,8) assms(13,14)]
  by blast

definition demo_pair_state :: LiveState where
  "demo_pair_state = LiveState_default\<lparr>my_endpoints := [show_endpoint (Direct demo_addr)]\<rparr>"

definition demo_pair_ticket :: "byte \<Rightarrow> Ticket" where
  "demo_pair_ticket b = Ticket_new 10 (local_bundle (demo_local b)) [Direct demo_addr]"

lemma demo_pair_ticket_ok: "ticket_ok (demo_pair_ticket b)"
  by (simp add: ticket_ok_def demo_pair_ticket_def Ticket_new_def bundle_ok_def hints_ok_def hint_ok_def MAX_HINTS_def
      bundle_to_bytes_def local_bundle_def demo_local_def Let_def ML_DSA_65_PUBLIC_KEY_LEN_def)

lemma demo_pair_state_ok: "state_ok demo_live demo_pair_state"
  by (simp add: state_ok_def demo_pair_state_def LiveState_default_def parse_endpoint_show hint_ok_def)

text \<open>A demo home, wherever its randomness stands.\<close>

definition demo_at :: "byte \<Rightarrow> rng \<Rightarrow> LiveHome" where
  "demo_at b g = (demo_home_with demo_pair_state b)\<lparr>lh_rng := g\<rparr>"

lemma demo_at_kept: "kept demo_live demo_pair_state (demo_at b g)"
  by (rule kept_same [OF demo_home_kept, of _ b]) (simp add: same_store_def demo_at_def)

lemma demo_at_identity: "load_or_create_identity demo_live (demo_at b g) = (demo_at b g, Inr (demo_local b))"
proof -
  have "strip_prefix MAGIC (to_secret_bytes (demo_local b)) = None"
    by (simp add: strip_prefix_def MAGIC_def to_secret_bytes_def Let_def SECRET_VERSION_def str_bytes_def)
  then show ?thesis using secret_roundtrip [OF demo_local_ok, of b]
    by (simp add: load_or_create_identity_def bindL_def read_private_def demo_at_def demo_home_with_def demo_live_home_def
        decrypt_config_def demo_live_def)
qed

lemma demo_at_ticket: "my_ticket demo_live (demo_at b g) = (demo_at b g, Inr (demo_pair_ticket b))"
proof -
  have "load_state demo_live (demo_at b g) = (demo_at b g, Inr demo_pair_state)" using demo_at_kept by (simp add: kept_def)
  then show ?thesis
    by (simp add: my_ticket_def bindL_def demo_at_identity demo_pair_state_def parse_endpoint_show hint_ok_def demo_pair_ticket_def)
      (simp add: demo_at_def demo_home_with_def demo_live_home_def)
qed

lemma demo_begin:
  "pair_begin demo_live code (demo_at b g) =
    (demo_at b g, Inr (\<lparr>pake_inner = str_bytes code, outbound = [g 0]\<rparr>, encode_message demo_keys [g 0]))"
  by (simp add: pair_begin_def pair_start_def demo_live_def demo_pake_def demo_at_def)

lemma demo_exchange:
  assumes "m = encode_message demo_keys y"
  shows "\<exists>ch x g'. pair_exchange demo_live \<lparr>pake_inner = c, outbound = o'\<rparr> m (demo_at b g) = (demo_at b g', Inr (ch, x))"
proof -
  obtain lo hi where s: "sort2 o' y = (lo, hi)" by fastforce
  have "\<exists>ch. pair_finish demo_pake demo_crypto \<lparr>pake_inner = c, outbound = o'\<rparr> y = Inr ch \<and> length (chan_key ch) = 32"
    using derive_total [OF demo_hkdf_ok] by (auto simp: pair_finish_def demo_pake_def s) (metis bindE.simps(2) PairedChannel.select_convs(1))
  then obtain ch where ch: "pair_finish demo_pake demo_crypto \<lparr>pake_inner = c, outbound = o'\<rparr> y = Inr ch"
    "length (chan_key ch) = 32" by blast
  obtain x g' where "seal_ticket demo_keys demo_crypto ch (demo_pair_ticket b) (lh_rng (demo_at b g)) = Inr (x, g')"
    using seal_ticket_total [OF demo_aead_total ch(2) demo_pair_ticket_ok] by blast
  moreover have "ll_keys demo_live = demo_keys" "ll_pake demo_live = demo_pake" "ll_crypto demo_live = demo_crypto"
    by (simp_all add: demo_live_def)
  ultimately show ?thesis using ch(1) decode_own_message [OF demo_b32_ok, of y] demo_at_ticket [of b g] assms
    by (intro exI [of _ ch] exI [of _ x] exI [of _ g']) (simp add: pair_exchange_def bindL_def, simp add: demo_at_def)
qed

lemma demo_complete:
  assumes "open_ticket demo_keys demo_crypto ch x = Inr t"
    and "bundle_id demo_keys (identity t) \<noteq> bundle_id demo_keys (local_bundle (demo_local b))"
  shows "\<exists>h'. pair_complete demo_live ch x nick (demo_at b g) = (h', Inr t)"
proof -
  have l: "load_state demo_live (demo_at b g) = (demo_at b g, Inr demo_pair_state)" using demo_at_kept by (simp add: kept_def)
  have "state_peer nick demo_pair_state = None" by (simp add: state_peer_def demo_pair_state_def LiveState_default_def)
  then obtain st' where s: "save_paired demo_live nick t (rendezvous_secret ch) demo_pair_state = Inr st'"
    by (simp add: save_paired_def)
  have "\<exists>h'. save_state demo_live st' (demo_at b g) = (h', Inr ())"
    by (simp add: save_state_def write_private_def demo_at_def demo_home_with_def demo_live_home_def encrypt_config_def
        demo_live_def demo_crypto_def demo_seal_def draw_def Let_def)
  then obtain h' where v: "save_state demo_live st' (demo_at b g) = (h', Inr ())" by blast
  have "ll_keys demo_live = demo_keys" "ll_crypto demo_live = demo_crypto" by (simp_all add: demo_live_def)
  then show ?thesis using assms l s v by (intro exI [of _ h']) (simp add: pair_complete_def bindL_def demo_at_identity)
qed

theorem pairing_connects_both_witness:
  "\<exists>a3 b3 sta' pa stb' pb secret. kept demo_live sta' a3 \<and> kept demo_live stb' b3 \<and>
    state_peer ''bob'' sta' = Some pa \<and> ticket_from_text (ll_keys demo_live) (lp_ticket pa) = Inr (demo_pair_ticket 2) \<and>
    state_peer ''alice'' stb' = Some pb \<and> ticket_from_text (ll_keys demo_live) (lp_ticket pb) = Inr (demo_pair_ticket 1) \<and>
    map_option (decode_secret demo_live) (lp_secret pa) = Some (Inr secret) \<and>
    map_option (decode_secret demo_live) (lp_secret pb) = Some (Inr secret)"
proof -
  let ?g = "\<lambda>_. 5 :: byte" and ?c = "''abcde''"
  note bg = demo_begin [of ?c 1 ?g] demo_begin [of ?c 2 ?g]
  have p: "pake_ok (ll_pake demo_live)" using demo_pake_ok by (simp add: demo_live_def)
  have k: "ll_keys demo_live = demo_keys" "ll_crypto demo_live = demo_crypto" by (simp_all add: demo_live_def)
  obtain cha xa ga where a: "pair_exchange demo_live \<lparr>pake_inner = str_bytes ?c, outbound = [5]\<rparr> (encode_message demo_keys [5])
      (demo_at 1 ?g) = (demo_at 1 ga, Inr (cha, xa))" using demo_exchange [OF refl] by blast
  obtain chb xb gb where b: "pair_exchange demo_live \<lparr>pake_inner = str_bytes ?c, outbound = [5]\<rparr> (encode_message demo_keys [5])
      (demo_at 2 ?g) = (demo_at 2 gb, Inr (chb, xb))" using demo_exchange [OF refl] by blast
  note ob = exchange_opens [OF demo_live_ok p bg a b demo_at_ticket demo_pair_ticket_ok, unfolded k]
  note oa = exchange_opens [OF demo_live_ok p bg(2,1) b a demo_at_ticket demo_pair_ticket_ok, unfolded k]
  have i: "identity (demo_pair_ticket x) = local_bundle (demo_local x)" for x by (simp add: demo_pair_ticket_def Ticket_new_def)
  obtain a3 where a3: "pair_complete demo_live cha xb ''bob'' (demo_at 1 ga) = (a3, Inr (demo_pair_ticket 2))"
    using demo_complete [of cha xb "demo_pair_ticket 2" 1 "''bob''" ga] ob demo_ids i by auto
  obtain b3 where b3: "pair_complete demo_live chb xa ''alice'' (demo_at 2 gb) = (b3, Inr (demo_pair_ticket 1))"
    using demo_complete [of chb xa "demo_pair_ticket 1" 2 "''alice''" gb] oa demo_ids i by auto
  from pairing_connects_both [OF demo_live_ok p bg a b a3 b3 demo_at_kept demo_pair_state_ok demo_at_kept demo_pair_state_ok
      demo_at_ticket demo_pair_ticket_ok demo_at_ticket demo_pair_ticket_ok]
  show ?thesis by blast
qed

section \<open>Rendezvous endpoints and addresses\<close>

text \<open>
  The link an operator publishes works for whoever pastes it, in any case and with surrounding white space:
  once it has been added, the stored endpoint builds, with exactly the pins of the link, and never without one.
\<close>

theorem published_rendezvous_link_works:
  assumes "live_lib_ok L" "kept L st h"
    and "handle_rendezvous_link L host p pre pin_texts onion_arg = Inr l" "is_ascii host" "is_ascii pre"
    and "to_lowercase (trim s) = link_to_text (ll_keys L) l"
    and "handle_rendezvous_add L s (Some name) proxy h = (h', Inr ())"
  shows "\<exists>st' e b. kept L st' h' \<and> List.find (\<lambda>e. re_name e = name) (rendezvous st') = Some e \<and>
    via_socks e = proxy \<and> re_build L e = Inr b \<and> be_pins b = pins l \<and> be_pins b \<noteq> []"
  using rendezvous_link_ok [OF assms(3-5)] by (intro rendezvous_add_stores [OF assms(1,2) _ assms(6,7)]) simp

lemma demo_pin: "parse_pin (replicate 64 (CHR ''0'')) = Inr (replicate 32 0)"
proof -
  have "hex_byte (CHR ''0'') (CHR ''0'') = Some 0" by (simp add: hex_byte_def hex_val_def)
  then have "hex_pairs (replicate (2 * n) (CHR ''0'')) = Some (replicate n 0)" for n by (induction n) simp_all
  from this [of 32] show ?thesis by (simp add: parse_pin_def is_whitespace_def)
qed

definition demo_rdv :: ServerLink where
  "demo_rdv = \<lparr>kind = Rendezvous, shost = ''h'', sport = 443, sprefix = ''r'', pins = [replicate 32 0], onion = None\<rparr>"

lemma demo_rdv_made: "handle_rendezvous_link demo_live ''h'' 443 ''/r/'' [replicate 64 (CHR ''0'')] None = Inr demo_rdv"
  by (simp add: handle_rendezvous_link_def demo_pin ServerLink_new_def link_validate_def demo_live_def demo_rdv_def trim_slashes_def
      MAX_HOST_LEN_def MAX_PREFIX_LEN_def MAX_PINS_def)

theorem published_rendezvous_link_works_witness:
  "\<exists>h' st' e b. kept demo_live st' h' \<and> List.find (\<lambda>e. re_name e = ''mine'') (rendezvous st') = Some e \<and>
    via_socks e = None \<and> re_build demo_live e = Inr b \<and> be_pins b = pins demo_rdv \<and> be_pins b \<noteq> []"
proof -
  let ?s = "link_to_text (ll_keys demo_live) demo_rdv"
  have k: "b32_ok (ll_keys demo_live)" by (rule live_lib_okD(3) [OF demo_live_ok])
  have ok: "link_ok (ll_name_ok demo_live) demo_rdv" using rendezvous_link_ok [OF demo_rdv_made] by (simp add: is_ascii_def)
  have f: "link_from_text (ll_keys demo_live) (ll_name_ok demo_live) ?s = Inr demo_rdv"
    by (rule link_text_ok [OF demo_live_ok ok link_text_plain [OF k]])
  then have "is_ok (re_build demo_live \<lparr>re_name = ''mine'', re_link = ?s, via_socks = None\<rparr>)"
    by (simp add: re_build_def re_parsed_def re_proxy_def from_link_def link_target_def demo_rdv_def is_onion_only_def BlindEndpoint_new_def)
      (simp add: demo_live_def)
  then obtain b where b: "re_build demo_live \<lparr>re_name = ''mine'', re_link = ?s, via_socks = None\<rparr> = Inr b" by (auto simp: is_ok_iff)
  have l: "load_state demo_live (demo_at 1 g) = (demo_at 1 g, Inr demo_pair_state)" for g using demo_at_kept by (simp add: kept_def)
  have sv: "\<exists>h'. save_state demo_live st' (demo_at 1 g) = (h', Inr ())" for st' g
    by (simp add: save_state_def write_private_def demo_at_def demo_home_with_def demo_live_home_def encrypt_config_def
        demo_live_def demo_crypto_def demo_seal_def draw_def Let_def)
  have "\<exists>h'. handle_rendezvous_add demo_live ?s (Some ''mine'') None (demo_at 1 (\<lambda>_. 5)) = (h', Inr ())"
    using f b l sv by (simp add: handle_rendezvous_add_def bindL_def Let_def)
  then obtain h' where h': "handle_rendezvous_add demo_live ?s (Some ''mine'') None (demo_at 1 (\<lambda>_. 5)) = (h', Inr ())" by blast
  from published_rendezvous_link_works [OF demo_live_ok demo_at_kept demo_rdv_made _ _ link_text_plain [OF k] h']
  show ?thesis by (simp add: is_ascii_def) blast
qed

text \<open>
  An address the program prints, IPv4, IPv6 in any of its forms or onion, is read back as the same address;
  so what \<open>atom live address\<close> stores is what later commands read.
\<close>

theorem addresses_read_back:
  assumes "hint_ok e"
  shows "parse_endpoint (show_endpoint e) = Inr e"
  by (rule parse_endpoint_show [OF assms])

theorem addresses_read_back_witness:
  "parse_endpoint (show_endpoint (Direct \<lparr>ip = V6 (1 + 2 ^ 100), port = 4433\<rparr>)) = Inr (Direct \<lparr>ip = V6 (1 + 2 ^ 100), port = 4433\<rparr>) \<and>
   parse_endpoint (show_endpoint (Onion demo_onion)) = Inr (Onion demo_onion)"
  using addresses_read_back [of "Onion demo_onion"] addresses_read_back [of "Direct \<lparr>ip = V6 (1 + 2 ^ 100), port = 4433\<rparr>"]
  by (simp add: hint_ok_def demo_onion_ok)

end
