(* ===== verification/Sandbox.thy ===== *)
theory Sandbox
  imports Staging
begin

text \<open>
  The confinement of the process (\<open>atom/src/sandbox.rs\<close>): the Landlock ruleset built by
  \<open>apply_process_sandbox\<close>, its use for the graphical interface, and the argument lists given to
  bubblewrap for the program itself and for the viewer. The Landlock crate with the kernel behind
  it is the record \<open>landlock\<close>; what the program observes of its surroundings is the record \<open>os\<close>;
  bubblewrap's reading of its command line is the argument of \<open>bwrap_ok\<close>.
\<close>

section \<open>Paths\<close>

text \<open>
  \<open>Path::parent\<close>: empty components and inner dots at the end of a path do not count; a leading dot
  of a relative path does.
\<close>

fun drop_back :: "bool \<Rightarrow> string list \<Rightarrow> string list" where
  "drop_back root [] = []"
| "drop_back root (c # cs) =
     (if c = [] \<or> c = ''.'' \<and> (root \<or> cs \<noteq> []) then drop_back root cs else c # cs)"

definition path_parent :: "string \<Rightarrow> string option" where
  "path_parent p =
     (let root = (p \<noteq> [] \<and> hd p = CHR ''/'');
          body = (if root then tl (split_on (CHR ''/'') p) else split_on (CHR ''/'') p)
      in case drop_back root (rev body) of
           [] \<Rightarrow> None
         | _ # cs \<Rightarrow> Some ((if root then ''/'' else []) @ join ''/'' (rev (drop_back root cs))))"

section \<open>The Landlock ruleset\<close>

datatype AccessFs =
    Execute | WriteFile | ReadFile | ReadDir | RemoveDir | RemoveFile | MakeChar | MakeDir
  | MakeReg | MakeSock | MakeFifo | MakeBlock | MakeSym | Refer | Truncate | IoctlDev

datatype RulesetStatus = FullyEnforced | PartiallyEnforced | NotEnforced

datatype file_kind = IsDir | IsOther

type_synonym rule = "path \<times> AccessFs list"

record landlock =
  from_all :: "AccessFs list"
  from_file :: "AccessFs list"
  handle_access :: "AccessFs list \<Rightarrow> bool"
  log_new_exec :: bool
  accepts_rule :: "rule \<Rightarrow> bool"
  restrict_self :: "rule list \<Rightarrow> RulesetStatus option"
  kernel_allows :: "rule list \<Rightarrow> path \<Rightarrow> AccessFs \<Rightarrow> bool"

record os =
  os_var :: "string \<Rightarrow> string option"
  os_home_dir :: "string option"
  os_metadata :: "string \<Rightarrow> file_kind option"
  os_path_fd :: "string \<Rightarrow> path option"
  os_is_symlink :: "string \<Rightarrow> bool option"

definition os_exists :: "os \<Rightarrow> string \<Rightarrow> bool" where
  "os_exists os p \<longleftrightarrow> os_metadata os p \<noteq> None"

text \<open>
  What the kernel documents: a right is granted exactly beneath the paths whose rules carry it; and
  what the crate documents of \<open>AccessFs::from_file\<close>: rights that apply to files.
\<close>

definition file_rights :: "AccessFs set" where
  "file_rights = {Execute, WriteFile, ReadFile, Truncate, IoctlDev}"

definition landlock_ok :: "landlock \<Rightarrow> bool" where
  "landlock_ok K \<longleftrightarrow>
     (\<forall>rules p a. kernel_allows K rules p a \<longleftrightarrow>
        (\<exists>q rs. (q, rs) \<in> set rules \<and> path_starts_with p q \<and> a \<in> set rs)) \<and>
     set (from_file K) \<subseteq> file_rights"

fun add_rules ::
    "landlock \<Rightarrow> os \<Rightarrow> AccessFs list \<Rightarrow> AccessFs list \<Rightarrow> string list \<Rightarrow> rule list \<Rightarrow> string + rule list" where
  "add_rules K os dir_rights file_rts [] ruleset = Inr ruleset"
| "add_rules K os dir_rights file_rts (p # ps) ruleset =
     (case os_metadata os p of
        None \<Rightarrow> add_rules K os dir_rights file_rts ps ruleset
      | Some kind \<Rightarrow>
          let rights = (if kind = IsDir then dir_rights else file_rts) in
          (case os_path_fd os p of
             None \<Rightarrow> add_rules K os dir_rights file_rts ps ruleset
           | Some fd \<Rightarrow>
               if accepts_rule K (fd, rights)
               then add_rules K os dir_rights file_rts ps (ruleset @ [(fd, rights)])
               else Inl ''add_rule''))"

definition apply_process_sandbox ::
    "landlock \<Rightarrow> os \<Rightarrow> string list \<Rightarrow> string list \<Rightarrow> string + rule list" where
  "apply_process_sandbox K os read_only_paths read_write_paths =
     (let dir_rw = from_all K; file_rw = from_file K;
          dir_ro = [ReadFile, ReadDir, Execute]; file_ro = [ReadFile, Execute] in
      bindE (guardE (handle_access K dir_rw) ''handle_access'') (\<lambda>_.
      bindE (guardE (os_var os ''ATOM_LANDLOCK_AUDIT'' = None \<or> log_new_exec K) ''log_new_exec'') (\<lambda>_.
      bindE (add_rules K os dir_ro file_ro read_only_paths []) (\<lambda>ruleset1.
      bindE (add_rules K os dir_rw file_rw read_write_paths ruleset1) (\<lambda>ruleset2.
      bindE (ok_or ''restrict_self'' (restrict_self K ruleset2)) (\<lambda>status.
      case status of
        FullyEnforced \<Rightarrow> Inr ruleset2
      | _ \<Rightarrow> Inl ''Landlock could not be fully enforced''))))))"

text \<open>
  The graphical interface: the directories it asks to be created, and the ruleset, or the exit
  code of the process.
\<close>

definition unwrap_or :: "'a \<Rightarrow> 'a option \<Rightarrow> 'a" where
  "unwrap_or d m = (case m of None \<Rightarrow> d | Some x \<Rightarrow> x)"

definition path_join :: "string \<Rightarrow> string \<Rightarrow> string" where
  "path_join base p =
     (if p \<noteq> [] \<and> hd p = CHR ''/'' then p
      else if base = [] \<or> last base = CHR ''/'' then base @ p else base @ ''/'' @ p)"

definition effective_path :: "os \<Rightarrow> string \<Rightarrow> string" where
  "effective_path os p = (if os_exists os p then p else unwrap_or p (path_parent p))"

definition gui_data_dir :: "os \<Rightarrow> string" where
  "gui_data_dir os =
     (case os_home_dir os of Some h \<Rightarrow> path_join h ''.atom_vault'' | None \<Rightarrow> ''/tmp/.atom_vault_fallback'')"

definition apply_gui_vault_sandbox :: "landlock \<Rightarrow> os \<Rightarrow> string \<Rightarrow> string list \<times> (nat + rule list)" where
  "apply_gui_vault_sandbox K os vault_path =
     (let xdg_runtime = unwrap_or ''/run/user/1000'' (os_var os ''XDG_RUNTIME_DIR'');
          staging = xdg_runtime @ ''/atom_staging'';
          ro = [''/usr'', ''/etc'', ''/sys'', ''/proc''];
          rw = [''/dev/dri'', xdg_runtime, effective_path os vault_path, staging, gui_data_dir os]
      in ([gui_data_dir os], map_err (\<lambda>_. 1) (apply_process_sandbox K os ro rw)))"

section \<open>What a ruleset allows\<close>

definition rule_from :: "os \<Rightarrow> AccessFs list \<Rightarrow> AccessFs list \<Rightarrow> string \<Rightarrow> rule \<Rightarrow> bool" where
  "rule_from os d f p r \<longleftrightarrow>
     (\<exists>k. os_metadata os p = Some k \<and> os_path_fd os p = Some (fst r) \<and> snd r = (if k = IsDir then d else f))"

lemma add_rules_set:
  "add_rules K os d f ps rs = Inr rs' \<Longrightarrow>
   set rs' = set rs \<union> {r. \<exists>p \<in> set ps. rule_from os d f p r}"
proof (induction K os d f ps rs rule: add_rules.induct)
  case (2 K os d f p ps rs)
  show ?case
  proof (cases "\<exists>k q. os_metadata os p = Some k \<and> os_path_fd os p = Some q")
    case True
    then obtain k q where kq: "os_metadata os p = Some k" "os_path_fd os p = Some q" by blast
    let ?r = "(q, if k = IsDir then d else f)"
    from kq 2(4) have "add_rules K os d f ps (rs @ [?r]) = Inr rs'"
      and "accepts_rule K ?r" by (auto simp: Let_def split: if_splits)
    with 2 kq have "set rs' = set (rs @ [?r]) \<union> {r. \<exists>p \<in> set ps. rule_from os d f p r}" by auto
    moreover have "rule_from os d f p r \<longleftrightarrow> r = ?r" for r
      using kq by (cases r) (auto simp: rule_from_def)
    ultimately show ?thesis by auto
  next
    case False
    then have "add_rules K os d f ps rs = Inr rs'" "\<And>r. \<not> rule_from os d f p r"
      using 2(4) by (auto simp: rule_from_def split: option.splits)
    moreover have "set rs' = set rs \<union> {r. \<exists>p \<in> set ps. rule_from os d f p r}"
    proof (cases "os_metadata os p")
      case None
      with 2 calculation show ?thesis by auto
    next
      case (Some k)
      with False have "os_path_fd os p = None" by auto
      with Some 2 calculation show ?thesis by auto
    qed
    ultimately show ?thesis by auto
  qed
qed auto

lemma enforced_Inr:
  "(case status of FullyEnforced \<Rightarrow> Inr x | PartiallyEnforced \<Rightarrow> Inl m | NotEnforced \<Rightarrow> Inl m') = Inr y \<longleftrightarrow>
   status = FullyEnforced \<and> x = y"
  by (cases status) auto

lemma apply_sandbox_Inr:
  assumes "apply_process_sandbox K os ro rw = Inr rules"
  shows "restrict_self K rules = Some FullyEnforced"
    and "set rules = {r. \<exists>p \<in> set ro. rule_from os [ReadFile, ReadDir, Execute] [ReadFile, Execute] p r} \<union>
                     {r. \<exists>p \<in> set rw. rule_from os (from_all K) (from_file K) p r}"
  using assms
  by (auto simp: apply_process_sandbox_def result_simps Let_def enforced_Inr dest!: add_rules_set)

text \<open>The paths an allowed access lies beneath, for any ruleset that was put in force.\<close>

definition confined_to :: "os \<Rightarrow> string list \<Rightarrow> string list \<Rightarrow> path \<Rightarrow> AccessFs \<Rightarrow> bool" where
  "confined_to os ro rw p a \<longleftrightarrow>
     (\<exists>s \<in> set ro. \<exists>q. os_path_fd os s = Some q \<and> path_starts_with p q \<and> a \<in> {ReadFile, ReadDir, Execute}) \<or>
     (\<exists>s \<in> set rw. \<exists>q. os_path_fd os s = Some q \<and> path_starts_with p q \<and>
        (os_metadata os s = Some IsDir \<or> a \<in> file_rights))"

lemma sandbox_confines:
  assumes "landlock_ok K" "apply_process_sandbox K os ro rw = Inr rules" "kernel_allows K rules p a"
  shows "confined_to os ro rw p a"
proof -
  from assms(1,3) obtain q rs where q: "(q, rs) \<in> set rules" "path_starts_with p q" "a \<in> set rs"
    and f: "set (from_file K) \<subseteq> file_rights"
    unfolding landlock_ok_def by blast
  from q(1) consider
      s where "s \<in> set ro" "rule_from os [ReadFile, ReadDir, Execute] [ReadFile, Execute] s (q, rs)"
    | s where "s \<in> set rw" "rule_from os (from_all K) (from_file K) s (q, rs)"
    unfolding apply_sandbox_Inr(2) [OF assms(2)] by blast
  then show ?thesis
  proof cases
    case (1 s)
    then have "os_path_fd os s = Some q" "a \<in> {ReadFile, ReadDir, Execute}"
      using q(3) by (auto simp: rule_from_def split: if_splits)
    with 1 q show ?thesis unfolding confined_to_def by blast
  next
    case (2 s)
    then have "os_path_fd os s = Some q"
      "os_metadata os s = Some IsDir \<or> a \<in> file_rights"
      using q(3) f by (auto simp: rule_from_def split: if_splits)
    with 2 q show ?thesis unfolding confined_to_def by blast
  qed
qed

lemma sandbox_grants:
  assumes "landlock_ok K" "apply_process_sandbox K os ro rw = Inr rules"
    "s \<in> set rw" "os_metadata os s = Some k" "os_path_fd os s = Some q" "path_starts_with p q"
    "a \<in> set (if k = IsDir then from_all K else from_file K)"
  shows "kernel_allows K rules p a"
proof -
  have "(q, if k = IsDir then from_all K else from_file K) \<in> set rules"
    unfolding apply_sandbox_Inr(2) [OF assms(2)] using assms(3-5) by (auto simp: rule_from_def)
  with assms(1,6,7) show ?thesis unfolding landlock_ok_def by metis
qed

end
