(* ===== verification/Bwrap.thy ===== *)
theory Bwrap
  imports Sandbox Display
begin

text \<open>
  The argument lists of \<open>atom/src/sandbox.rs\<close> for bubblewrap: the cage the program re-executes
  itself in, and the one the viewer of the command line runs in. They are compared with the mount
  and namespace operations bubblewrap documents for its options.
\<close>

section \<open>The session bus\<close>

fun first_path_kv :: "string list \<Rightarrow> string option" where
  "first_path_kv [] = None"
| "first_path_kv (kv # kvs) =
     (case strip_prefix ''path='' kv of Some p \<Rightarrow> Some p | None \<Rightarrow> first_path_kv kvs)"

fun first_unix_path :: "string list \<Rightarrow> string option" where
  "first_unix_path [] = None"
| "first_unix_path (entry # es) =
     (case strip_prefix ''unix:'' (trim entry) of
        None \<Rightarrow> first_unix_path es
      | Some rest \<Rightarrow>
          (case first_path_kv (split_on (CHR '';'') rest) of Some p \<Rightarrow> Some p | None \<Rightarrow> first_unix_path es))"

definition extract_dbus_socket_path :: "string \<Rightarrow> string option" where
  "extract_dbus_socket_path addr = first_unix_path (split_on (CHR '','') addr)"

section \<open>The argument lists\<close>

definition only_if :: "bool \<Rightarrow> 'a list \<Rightarrow> 'a list" where
  "only_if b xs = (if b then xs else [])"

definition real_dir :: "os \<Rightarrow> string \<Rightarrow> bool" where
  "real_dir os p \<longleftrightarrow> os_exists os p \<and> os_is_symlink os p = Some False"

definition lib_args :: "os \<Rightarrow> string list" where
  "lib_args os = concat (map (\<lambda>p. only_if (real_dir os p) [''--ro-bind'', p, p]) [''/lib'', ''/lib64''])"

definition build_self_bwrap_args ::
    "os \<Rightarrow> string \<Rightarrow> string \<Rightarrow> string \<Rightarrow> string \<Rightarrow> string \<Rightarrow> string list \<Rightarrow> string list" where
  "build_self_bwrap_args os exe xdg_runtime wayland_display hm dbus_addr extra_args =
     (let user_flatpak = hm @ ''/.local/share/flatpak'' in
      concat (map (\<lambda>p. [''--ro-bind-try'', p, p]) [''/usr'', ''/etc'', ''/sys'', ''/opt'']) @
      lib_args os @
      [''--proc'', ''/proc'', ''--dev'', ''/dev''] @
      only_if (os_exists os ''/dev/dri'') [''--dev-bind'', ''/dev/dri'', ''/dev/dri''] @
      [''--tmpfs'', ''/tmp''] @
      [''--ro-bind-try'', ''/run'', ''/run''] @
      [''--bind'', xdg_runtime, xdg_runtime] @
      only_if (os_exists os ''/var/lib/flatpak'') [''--ro-bind'', ''/var/lib/flatpak'', ''/var/lib/flatpak''] @
      only_if (os_exists os user_flatpak) [''--ro-bind-try'', user_flatpak, user_flatpak] @
      [''--bind-try'', hm, hm] @
      only_if (os_exists os ''/var/home'') [''--bind-try'', ''/var/home'', ''/var/home''] @
      only_if (os_exists os ''/home'') [''--bind-try'', ''/home'', ''/home''] @
      [''--unshare-ipc'', ''--unshare-uts'', ''--new-session'', ''--die-with-parent''] @
      concat (map (\<lambda>(k, v). [''--setenv'', k, v])
        [(''ATOM_BWRAP_SANDBOX'', ''1''), (''WAYLAND_DISPLAY'', wayland_display),
         (''XDG_RUNTIME_DIR'', xdg_runtime), (''HOME'', hm)]) @
      (case extract_dbus_socket_path dbus_addr of
         None \<Rightarrow> []
       | Some sock \<Rightarrow>
           [''--setenv'', ''DBUS_SESSION_BUS_ADDRESS'', dbus_addr] @
           only_if (os_exists os sock) [''--bind-try'', sock, sock]) @
      [''--'', exe] @ extra_args)"

definition build_bwrap_args ::
    "os \<Rightarrow> nat \<Rightarrow> string \<Rightarrow> string \<Rightarrow> string \<Rightarrow> string \<Rightarrow> string list" where
  "build_bwrap_args os inherited_fd xdg_runtime wayland_display hm dbus_addr =
     (let user_flatpak = hm @ ''/.local/share/flatpak'' in
      [''bwrap''] @
      [''--unshare-user'', ''--unshare-ipc'', ''--unshare-net'', ''--unshare-uts''] @
      [''--die-with-parent'', ''--new-session''] @
      [''--clearenv''] @
      [''--setenv'', ''WAYLAND_DISPLAY'', wayland_display] @
      [''--setenv'', ''XDG_RUNTIME_DIR'', xdg_runtime] @
      [''--setenv'', ''HOME'', hm] @
      only_if (dbus_addr \<noteq> []) [''--setenv'', ''DBUS_SESSION_BUS_ADDRESS'', dbus_addr] @
      [''--proc'', ''/proc'', ''--dev'', ''/dev''] @
      only_if (os_exists os ''/dev/fuse'') [''--dev-bind'', ''/dev/fuse'', ''/dev/fuse''] @
      [''--tmpfs'', ''/tmp''] @
      [''--file'', nat_digits inherited_fd, ''/tmp/document.pdf''] @
      concat (map (\<lambda>p. only_if (os_exists os p) [''--ro-bind'', p, p]) [''/usr'', ''/etc'', ''/sys'']) @
      lib_args os @
      only_if (os_exists os ''/var/lib/flatpak'') [''--ro-bind'', ''/var/lib/flatpak'', ''/var/lib/flatpak''] @
      only_if (os_exists os user_flatpak) [''--ro-bind'', user_flatpak, user_flatpak] @
      only_if (os_exists os xdg_runtime) [''--bind'', xdg_runtime, xdg_runtime] @
      (case extract_dbus_socket_path dbus_addr of
         None \<Rightarrow> []
       | Some sock \<Rightarrow> only_if (os_exists os sock) [''--bind'', sock, sock]) @
      [''--'', ''flatpak'', ''run'', ''--no-network'', ''--filesystem=/tmp:ro'', ''org.gnome.Papers'',
       ''/tmp/document.pdf''])"

section \<open>Running them\<close>

text \<open>
  \<open>try_bwrap_self_sandbox\<close> returns to the caller or replaces the process image: \<open>Caged args\<close>. The
  probe \<open>bwrap_namespace_available\<close>, the path of the executable and the result of \<open>exec\<close> are
  arguments. The directories it asks to be created come first.
\<close>

datatype cage = Skipped string | Caged "string list" | ExecFailed

definition try_bwrap_self_sandbox ::
    "os \<Rightarrow> bool \<Rightarrow> string option \<Rightarrow> bool \<Rightarrow> string list \<Rightarrow> string list \<times> cage" where
  "try_bwrap_self_sandbox os bwrap_available current_exe exec_ok argv =
     (if os_var os ''ATOM_BWRAP_SANDBOX'' \<noteq> None then ([], Skipped ''already inside'')
      else if os_exists os ''/.flatpak-info'' \<or> os_var os ''FLATPAK_ID'' \<noteq> None
        then ([], Skipped ''Flatpak platform sandbox active'')
      else if \<not> bwrap_available then ([], Skipped ''namespace creation unavailable'')
      else case current_exe of None \<Rightarrow> ([], Skipped ''cannot resolve own path'') | Some exe \<Rightarrow>
      (case os_var os ''XDG_RUNTIME_DIR'' of None \<Rightarrow> ([], Skipped ''XDG_RUNTIME_DIR unset'') | Some xdg_runtime \<Rightarrow>
      (case os_home_dir os of None \<Rightarrow> ([], Skipped ''cannot determine HOME'') | Some hm \<Rightarrow>
         let wayland_display = unwrap_or ''wayland-0'' (os_var os ''WAYLAND_DISPLAY'');
             dbus_addr = unwrap_or [] (os_var os ''DBUS_SESSION_BUS_ADDRESS'');
             args = build_self_bwrap_args os exe xdg_runtime wayland_display hm dbus_addr (drop 1 argv)
         in ([xdg_runtime @ ''/atom_staging''], if exec_ok then Caged args else ExecFailed))))"

text \<open>
  \<open>spawn_in_bwrap_sandbox\<close>: the process identifier of bubblewrap with the argument list it is
  executed with. An argument with a null byte panics.
\<close>

definition spawn_in_bwrap_sandbox ::
    "os \<Rightarrow> nat option \<Rightarrow> nat option \<Rightarrow> string + nat \<times> string list" where
  "spawn_in_bwrap_sandbox os dup_fd fork_pid =
     (let xdg_runtime = unwrap_or ''/run/user/1000'' (os_var os ''XDG_RUNTIME_DIR'');
          wayland_display = unwrap_or ''wayland-0'' (os_var os ''WAYLAND_DISPLAY'');
          hm = unwrap_or ''/root'' (os_var os ''HOME'');
          dbus_addr = unwrap_or [] (os_var os ''DBUS_SESSION_BUS_ADDRESS'') in
      bindE (ok_or ''dup() failed: cannot inherit memfd into bwrap'' dup_fd) (\<lambda>inherited_fd.
      let args = build_bwrap_args os inherited_fd xdg_runtime wayland_display hm dbus_addr in
      bindE (guardE (\<forall>a \<in> set args. CHR 0x00 \<notin> set a) ''panicked: bwrap arg contains null byte'') (\<lambda>_.
      bindE (ok_or ''fork() failed while spawning bwrap'' fork_pid) (\<lambda>pid. Inr (pid, args)))))"

section \<open>What bubblewrap makes of them\<close>

datatype bwrap_op =
    RoBind string string | RoBindTry string string | Bind string string | BindTry string string
  | DevBind string string | ProcFs string | DevFs string | Tmpfs string | FileFrom string string
  | SetEnv string string | ClearEnv | UnshareUser | UnshareIpc | UnshareNet | UnshareUts
  | NewSession | DieWithParent

fun render_op :: "bwrap_op \<Rightarrow> string list" where
  "render_op (RoBind s d) = [''--ro-bind'', s, d]"
| "render_op (RoBindTry s d) = [''--ro-bind-try'', s, d]"
| "render_op (Bind s d) = [''--bind'', s, d]"
| "render_op (BindTry s d) = [''--bind-try'', s, d]"
| "render_op (DevBind s d) = [''--dev-bind'', s, d]"
| "render_op (ProcFs d) = [''--proc'', d]"
| "render_op (DevFs d) = [''--dev'', d]"
| "render_op (Tmpfs d) = [''--tmpfs'', d]"
| "render_op (FileFrom fd d) = [''--file'', fd, d]"
| "render_op (SetEnv k v) = [''--setenv'', k, v]"
| "render_op ClearEnv = [''--clearenv'']"
| "render_op UnshareUser = [''--unshare-user'']"
| "render_op UnshareIpc = [''--unshare-ipc'']"
| "render_op UnshareNet = [''--unshare-net'']"
| "render_op UnshareUts = [''--unshare-uts'']"
| "render_op NewSession = [''--new-session'']"
| "render_op DieWithParent = [''--die-with-parent'']"

text \<open>
  The documented reading of a command line: options are taken from the left, each with its own
  arguments, and everything behind \<open>--\<close> is the command.
\<close>

definition bwrap_ok :: "(string list \<Rightarrow> (bwrap_op list \<times> string list) option) \<Rightarrow> bool" where
  "bwrap_ok parse \<longleftrightarrow>
     (\<forall>c. parse (''--'' # c) = Some ([], c)) \<and>
     (\<forall>x rest. parse (render_op x @ rest) = map_option (\<lambda>(ops, c). (x # ops, c)) (parse rest))"

lemma bwrap_reads:
  assumes "bwrap_ok parse"
  shows "parse (concat (map render_op ops) @ ''--'' # c) = Some (ops, c)"
  using assms by (induction ops) (simp_all add: bwrap_ok_def)

definition when_op :: "bool \<Rightarrow> bwrap_op \<Rightarrow> bwrap_op list" where
  "when_op b x = (if b then [x] else [])"

lemma render_when_op [simp]: "concat (map render_op (when_op b x)) = only_if b (render_op x)"
  by (simp add: when_op_def only_if_def)

text \<open>The mounts, variables and namespaces of the viewer's cage.\<close>

definition lib_ops :: "os \<Rightarrow> bwrap_op list" where
  "lib_ops os = when_op (real_dir os ''/lib'') (RoBind ''/lib'' ''/lib'') @
                when_op (real_dir os ''/lib64'') (RoBind ''/lib64'' ''/lib64'')"

lemma render_lib_ops [simp]: "concat (map render_op (lib_ops os)) = lib_args os"
  by (simp add: lib_ops_def lib_args_def)

definition sock_ops :: "os \<Rightarrow> (string \<Rightarrow> string \<Rightarrow> bwrap_op) \<Rightarrow> string \<Rightarrow> bwrap_op list" where
  "sock_ops os f dbus_addr =
     (case extract_dbus_socket_path dbus_addr of
        None \<Rightarrow> [] | Some sock \<Rightarrow> when_op (os_exists os sock) (f sock sock))"

definition viewer_ops :: "os \<Rightarrow> nat \<Rightarrow> string \<Rightarrow> string \<Rightarrow> string \<Rightarrow> string \<Rightarrow> bwrap_op list" where
  "viewer_ops os fd xdg_runtime wayland_display hm dbus_addr =
     (let user_flatpak = hm @ ''/.local/share/flatpak'' in
      [UnshareUser, UnshareIpc, UnshareNet, UnshareUts, DieWithParent, NewSession, ClearEnv,
       SetEnv ''WAYLAND_DISPLAY'' wayland_display, SetEnv ''XDG_RUNTIME_DIR'' xdg_runtime, SetEnv ''HOME'' hm] @
      when_op (dbus_addr \<noteq> []) (SetEnv ''DBUS_SESSION_BUS_ADDRESS'' dbus_addr) @
      [ProcFs ''/proc'', DevFs ''/dev''] @
      when_op (os_exists os ''/dev/fuse'') (DevBind ''/dev/fuse'' ''/dev/fuse'') @
      [Tmpfs ''/tmp'', FileFrom (nat_digits fd) ''/tmp/document.pdf''] @
      when_op (os_exists os ''/usr'') (RoBind ''/usr'' ''/usr'') @
      when_op (os_exists os ''/etc'') (RoBind ''/etc'' ''/etc'') @
      when_op (os_exists os ''/sys'') (RoBind ''/sys'' ''/sys'') @
      lib_ops os @
      when_op (os_exists os ''/var/lib/flatpak'') (RoBind ''/var/lib/flatpak'' ''/var/lib/flatpak'') @
      when_op (os_exists os user_flatpak) (RoBind user_flatpak user_flatpak) @
      when_op (os_exists os xdg_runtime) (Bind xdg_runtime xdg_runtime) @
      sock_ops os Bind dbus_addr)"

lemma build_bwrap_args_render:
  "build_bwrap_args os fd xdg_runtime wayland_display hm dbus_addr =
   ''bwrap'' # concat (map render_op (viewer_ops os fd xdg_runtime wayland_display hm dbus_addr)) @
   ''--'' # [''flatpak'', ''run'', ''--no-network'', ''--filesystem=/tmp:ro'', ''org.gnome.Papers'', ''/tmp/document.pdf'']"
  by (simp add: build_bwrap_args_def viewer_ops_def sock_ops_def Let_def split: option.splits)

text \<open>Those of the program's own cage.\<close>

definition self_ops :: "os \<Rightarrow> string \<Rightarrow> string \<Rightarrow> string \<Rightarrow> string \<Rightarrow> bwrap_op list" where
  "self_ops os xdg_runtime wayland_display hm dbus_addr =
     (let user_flatpak = hm @ ''/.local/share/flatpak'' in
      [RoBindTry ''/usr'' ''/usr'', RoBindTry ''/etc'' ''/etc'', RoBindTry ''/sys'' ''/sys'', RoBindTry ''/opt'' ''/opt''] @
      lib_ops os @
      [ProcFs ''/proc'', DevFs ''/dev''] @
      when_op (os_exists os ''/dev/dri'') (DevBind ''/dev/dri'' ''/dev/dri'') @
      [Tmpfs ''/tmp'', RoBindTry ''/run'' ''/run'', Bind xdg_runtime xdg_runtime] @
      when_op (os_exists os ''/var/lib/flatpak'') (RoBind ''/var/lib/flatpak'' ''/var/lib/flatpak'') @
      when_op (os_exists os user_flatpak) (RoBindTry user_flatpak user_flatpak) @
      [BindTry hm hm] @
      when_op (os_exists os ''/var/home'') (BindTry ''/var/home'' ''/var/home'') @
      when_op (os_exists os ''/home'') (BindTry ''/home'' ''/home'') @
      [UnshareIpc, UnshareUts, NewSession, DieWithParent, SetEnv ''ATOM_BWRAP_SANDBOX'' ''1'',
       SetEnv ''WAYLAND_DISPLAY'' wayland_display, SetEnv ''XDG_RUNTIME_DIR'' xdg_runtime, SetEnv ''HOME'' hm] @
      when_op (extract_dbus_socket_path dbus_addr \<noteq> None) (SetEnv ''DBUS_SESSION_BUS_ADDRESS'' dbus_addr) @
      sock_ops os BindTry dbus_addr)"

lemma build_self_bwrap_args_render:
  "build_self_bwrap_args os exe xdg_runtime wayland_display hm dbus_addr extra =
   concat (map render_op (self_ops os xdg_runtime wayland_display hm dbus_addr)) @ ''--'' # exe # extra"
  by (simp add: build_self_bwrap_args_def self_ops_def sock_ops_def Let_def when_op_def only_if_def split: option.splits)

text \<open>The operations that make part of the host writable, and the variables set for the command.\<close>

fun op_writable :: "bwrap_op \<Rightarrow> string option" where
  "op_writable (Bind s d) = Some s"
| "op_writable (BindTry s d) = Some s"
| "op_writable (DevBind s d) = Some s"
| "op_writable _ = None"

fun is_mount :: "bwrap_op \<Rightarrow> bool" where
  "is_mount (SetEnv k v) = False"
| "is_mount ClearEnv = False" | "is_mount UnshareUser = False" | "is_mount UnshareIpc = False"
| "is_mount UnshareNet = False" | "is_mount UnshareUts = False" | "is_mount NewSession = False"
| "is_mount DieWithParent = False"
| "is_mount _ = True"

primrec op_env :: "bwrap_op \<Rightarrow> (string \<Rightarrow> string option) \<Rightarrow> string \<Rightarrow> string option" where
  "op_env (SetEnv k v) e = e(k \<mapsto> v)"
| "op_env ClearEnv e = (\<lambda>_. None)"
| "op_env (RoBind s d) e = e" | "op_env (RoBindTry s d) e = e" | "op_env (Bind s d) e = e"
| "op_env (BindTry s d) e = e" | "op_env (DevBind s d) e = e" | "op_env (ProcFs d) e = e"
| "op_env (DevFs d) e = e" | "op_env (Tmpfs d) e = e" | "op_env (FileFrom fd d) e = e"
| "op_env UnshareUser e = e" | "op_env UnshareIpc e = e" | "op_env UnshareNet e = e"
| "op_env UnshareUts e = e" | "op_env NewSession e = e" | "op_env DieWithParent e = e"

definition cage_env :: "bwrap_op list \<Rightarrow> (string \<Rightarrow> string option) \<Rightarrow> string \<Rightarrow> string option" where
  "cage_env ops e = fold op_env ops e"

lemma set_when_op [simp]: "set (when_op b x) = (if b then {x} else {})"
  unfolding when_op_def by (cases b) auto

end
