(* ===== verification/Enter.thy ===== *)
theory Enter
  imports Bwrap Shell
begin

text \<open>
  Entering a vault on the command line: the password prompt on the terminal
  (\<open>atom/src/secure_input.rs\<close>) and \<open>handle_enter\<close> (\<open>atom/src/commands/enter.rs\<close>), which opens the
  vault, confines the process and runs the shell.
\<close>

section \<open>The password prompt\<close>

text \<open>
  What the terminal does: whether each call succeeds, and the bytes that are read before a read
  fails. The state is the echo flag and the buffer with its lock.
\<close>

record tty =
  tty_open_ok :: bool
  tcgetattr_ok :: bool
  noecho_ok :: bool
  tty_mlock_ok :: bool
  prompt_ok :: bool
  typed :: bytes
  newline_ok :: bool
  restore_ok :: bool

record pin =
  echo :: bool
  buffer :: bytes
  ram_locked :: bool

definition ends_line :: "byte \<Rightarrow> bool" where
  "ends_line b \<longleftrightarrow> b = 10 \<or> b = 13"

fun read_chars :: "bytes \<Rightarrow> bytes \<Rightarrow> nat \<Rightarrow> bytes \<times> nat \<times> bool" where
  "read_chars [] buf idx = (buf, idx, False)"
| "read_chars (b # bs) buf idx =
     (if ends_line b then (buf, idx, True)
      else if idx < length buf then read_chars bs (buf[idx := b]) (Suc idx)
      else read_chars bs buf idx)"

definition read_password_pinentry :: "tty \<Rightarrow> pin \<times> (string + string)" where
  "read_password_pinentry t =
     (let p0 = \<lparr>echo = True, buffer = [], ram_locked = False\<rparr> in
      if \<not> tty_open_ok t then (p0, Inl ''Security Error: Could not bind to secure TTY'')
      else if \<not> tcgetattr_ok t then (p0, Inl ''tcgetattr'')
      else if \<not> noecho_ok t then (p0, Inl ''tcsetattr'')
      else let p1 = p0\<lparr>echo := False, buffer := replicate 128 0\<rparr> in
      if \<not> tty_mlock_ok t then (p1\<lparr>echo := restore_ok t\<rparr>, Inl ''Fatal: Failed to lock memory page via mlock'')
      else let p2 = p1\<lparr>ram_locked := True\<rparr> in
      if \<not> prompt_ok t then (p2, Inl ''write'')
      else let (buf, idx, complete) = read_chars (typed t) (buffer p2) 0; p3 = p2\<lparr>buffer := buf\<rparr> in
      if \<not> complete then (p3, Inl ''read'')
      else if \<not> newline_ok t then (p3, Inl ''write'')
      else if \<not> restore_ok t then (p3, Inl ''tcsetattr'')
      else let p4 = p3\<lparr>echo := True\<rparr> in
      case from_utf8 (take idx buf) of
        None \<Rightarrow> (p4, Inl ''Invalid UTF-8 sequence in password'')
      | Some password \<Rightarrow> (p4\<lparr>buffer := replicate 128 0, ram_locked := False\<rparr>, Inr password))"

text \<open>The line that was typed, as the prompt keeps it: the bytes behind the 128th are dropped.\<close>

lemma read_chars_line:
  assumes "\<forall>b \<in> set line. \<not> ends_line b" "ends_line e" "idx \<le> length buf"
  shows "read_chars (line @ e # rest) buf idx =
    (take idx buf @ take (length buf - idx) line @ drop (idx + length line) buf,
     min (length buf) (idx + length line), True)"
  using assms
proof (induction line arbitrary: buf idx)
  case Nil
  then show ?case by (simp add: min_def)
next
  case (Cons b line)
  show ?case
  proof (cases "idx < length buf")
    case True
    have "read_chars (line @ e # rest) (buf[idx := b]) (Suc idx) =
      (take (Suc idx) (buf[idx := b]) @ take (length buf - Suc idx) line @ drop (Suc idx + length line) (buf[idx := b]),
       min (length buf) (Suc idx + length line), True)"
      using Cons True by simp
    moreover have "take (Suc idx) (buf[idx := b]) = take idx buf @ [b]"
      using True by (simp add: take_Suc_conv_app_nth)
    moreover have "take (length buf - idx) (b # line) = b # take (length buf - Suc idx) line"
      using True by (metis Suc_diff_Suc take_Suc_Cons)
    ultimately show ?thesis using Cons(2) True by simp
  next
    case False
    with Cons have "idx = length buf" by simp
    with Cons(1) [of idx buf] Cons(2-) show ?thesis by simp
  qed
qed

lemma read_chars_open: "\<forall>b \<in> set line. \<not> ends_line b \<Longrightarrow> snd (snd (read_chars line buf idx)) = False"
  by (induction line buf idx rule: read_chars.induct) auto

lemma typed_line: "(\<forall>b \<in> set bs. \<not> ends_line b) \<or> (\<exists>line e rest. bs = line @ e # rest \<and> ends_line e \<and> (\<forall>b \<in> set line. \<not> ends_line b))"
  using split_list_first_prop [of bs ends_line] by auto

text \<open>
  A prompt that returns a password has put the terminal back and wiped its buffer, and the password
  is the typed line, cut at 128 bytes.
\<close>

lemma pinentry_Inr:
  assumes "read_password_pinentry t = (p, Inr pw)"
  obtains line e rest where "typed t = line @ e # rest" "ends_line e" "\<forall>b \<in> set line. \<not> ends_line b"
    "str_bytes pw = take 128 line" "p = \<lparr>echo = True, buffer = replicate 128 0, ram_locked = False\<rparr>"
proof -
  let ?r = "read_chars (typed t) (replicate 128 0) 0"
  from assms have r: "snd (snd ?r)" "from_utf8 (take (fst (snd ?r)) (fst ?r)) = Some pw"
    and p: "p = \<lparr>echo = True, buffer = replicate 128 0, ram_locked = False\<rparr>"
    by (auto simp: read_password_pinentry_def Let_def split: if_splits prod.splits option.splits)
  with read_chars_open [of "typed t" "replicate 128 0" 0] typed_line [of "typed t"]
  obtain line e rest where l: "typed t = line @ e # rest" "ends_line e" "\<forall>b \<in> set line. \<not> ends_line b"
    by auto
  have "?r = (take 128 line @ drop (length line) (replicate 128 0), min 128 (length line), True)"
    unfolding l(1) using read_chars_line [OF l(3,2), of 0 "replicate 128 0" rest] by simp
  with r(2) have "from_utf8 (take 128 line) = Some pw" by (simp add: min_def split: if_splits)
  then have "str_bytes pw = take 128 line" by (auto simp: from_utf8_def split: if_splits)
  with l p that show ?thesis by blast
qed

lemma pinentry_reads:
  assumes "tty_open_ok t" "tcgetattr_ok t" "noecho_ok t" "tty_mlock_ok t" "prompt_ok t" "newline_ok t" "restore_ok t"
    "typed t = line @ e # rest" "ends_line e" "\<forall>b \<in> set line. \<not> ends_line b" "utf8_valid (take 128 line)"
  shows "snd (read_password_pinentry t) = Inr (bytes_str (take 128 line))"
proof -
  have "read_chars (typed t) (replicate 128 0) 0 =
      (take 128 line @ drop (length line) (replicate 128 0), min 128 (length line), True)"
    unfolding assms(8) using read_chars_line [OF assms(10,9), of 0 "replicate 128 0" rest] by simp
  moreover have "take (min 128 (length line)) (take 128 line @ drop (length line) (replicate 128 0)) = take 128 line"
    by (simp add: min_def)
  ultimately show ?thesis
    using assms by (simp add: read_password_pinentry_def Let_def from_utf8_def)
qed

section \<open>Entering\<close>

datatype enter_error =
    OpenFailed | FlushFailed | Prompt string | BlankPassword | Vault vault_error
  | SandboxFailed string | SyncFailed

record entry =
  en_vault :: "File option"
  en_flush_ok :: bool
  en_tty :: tty
  en_rand :: rng
  en_host :: host
  en_env :: shell_env
  en_lines :: "string list"
  en_tmp :: path
  en_sync_ok :: bool

record entered =
  in_rules :: "rule list"
  in_vault :: UnlockedVault
  in_start :: shell
  in_end :: shell_end
  in_shell :: shell
  in_events :: "event list"

definition enter_staging :: "os \<Rightarrow> string" where
  "enter_staging os =
     (case os_var os ''XDG_RUNTIME_DIR'' of
        Some r \<Rightarrow> r @ ''/atom_staging''
      | None \<Rightarrow> (case os_var os ''HOME'' of Some h \<Rightarrow> h @ ''/.atom_vault/staging'' | None \<Rightarrow> ''/tmp/atom_staging''))"

text \<open>
  The host as the confined process finds it: a file can be written or removed only where the
  ruleset in force allows it. The temporary file of \<open>vacuum\<close> is created beside the vault, which
  needs the right to make a file in that directory; the shell reports a refusal like a file that is
  in the way.
\<close>

definition confine :: "landlock \<Rightarrow> rule list \<Rightarrow> host \<Rightarrow> host" where
  "confine K rules h =
     h\<lparr>creatable := (\<lambda>p. creatable h p \<and> kernel_allows K rules p WriteFile),
       removable := (\<lambda>p. removable h p \<and> kernel_allows K rules (butlast p) RemoveFile)\<rparr>"

definition confine_env :: "landlock \<Rightarrow> rule list \<Rightarrow> path \<Rightarrow> shell_env \<Rightarrow> shell_env" where
  "confine_env K rules tmp env =
     env\<lparr>env_tmp_exists := env_tmp_exists env \<or> \<not> kernel_allows K rules (butlast tmp) MakeReg\<rparr>"

definition enter_shell ::
    "vault_lib \<Rightarrow> landlock \<Rightarrow> os \<Rightarrow> entry \<Rightarrow> rule list \<Rightarrow> VaultMetadata \<Rightarrow> UnlockedVault \<Rightarrow> nat \<Rightarrow> File \<Rightarrow> entered" where
  "enter_shell L K os E rules metadata uv off file =
     (let h = (en_host E)\<lparr>xdg_runtime_dir := os_var os ''XDG_RUNTIME_DIR'', home := os_var os ''HOME''\<rparr>;
          st = \<lparr>sess = \<lparr>phys = file, meta = metadata, payload_offset = off, rand = en_rand E\<rparr>,
                hst = confine K rules h\<rparr>;
          (en, st', evs) = shell_loop L uv (confine_env K rules (en_tmp E) (en_env E)) (en_lines E) st
      in \<lparr>in_rules = rules, in_vault = uv, in_start = st, in_end = en, in_shell = st', in_events = evs\<rparr>)"

definition handle_enter ::
    "vault_lib \<Rightarrow> landlock \<Rightarrow> os \<Rightarrow> string \<Rightarrow> entry \<Rightarrow> enter_error + entered" where
  "handle_enter L K os vault_path E =
     bindE (ok_or OpenFailed (en_vault E)) (\<lambda>file0.
     bindE (guardE (en_flush_ok E) FlushFailed) (\<lambda>_.
     bindE (map_err Prompt (snd (read_password_pinentry (en_tty E)))) (\<lambda>password.
     bindE (guardE (trim password \<noteq> []) BlankPassword) (\<lambda>_.
     bindE (map_err Vault (load_vault_metadata L (str_bytes password) file0)) (\<lambda>((metadata, uv, off), file1).
     bindE (map_err SandboxFailed
              (apply_process_sandbox K os [''/usr'', ''/etc''] [vault_path, enter_staging os])) (\<lambda>rules.
     let r = enter_shell L K os E rules metadata uv off file1 in
     bindE (guardE (in_end r = Spinning \<or> en_sync_ok E) SyncFailed) (\<lambda>_. Inr r)))))))"

lemma enter_shell_run:
  assumes "r = enter_shell L K os E rules metadata uv off file"
  shows "in_rules r = rules" "in_vault r = uv" "phys (sess (in_start r)) = file"
    "meta (sess (in_start r)) = metadata" "payload_offset (sess (in_start r)) = off"
    "shell_loop L uv (confine_env K rules (en_tmp E) (en_env E)) (en_lines E) (in_start r) =
       (in_end r, in_shell r, in_events r)"
  using assms by (auto simp: enter_shell_def Let_def split: prod.splits)

lemma handle_enter_Inr:
  assumes "handle_enter L K os vault_path E = Inr r"
  obtains file0 password file1 where "en_vault E = Some file0"
    "snd (read_password_pinentry (en_tty E)) = Inr password" "trim password \<noteq> []"
    "load_vault_metadata L (str_bytes password) file0 =
       Inr ((meta (sess (in_start r)), in_vault r, payload_offset (sess (in_start r))), file1)"
    "phys (sess (in_start r)) = file1"
    "apply_process_sandbox K os [''/usr'', ''/etc''] [vault_path, enter_staging os] = Inr (in_rules r)"
    "shell_loop L (in_vault r) (confine_env K (in_rules r) (en_tmp E) (en_env E)) (en_lines E) (in_start r) =
       (in_end r, in_shell r, in_events r)"
proof -
  from assms obtain file0 password metadata uv off file1 rules where
    r: "en_vault E = Some file0" "snd (read_password_pinentry (en_tty E)) = Inr password" "trim password \<noteq> []"
    "load_vault_metadata L (str_bytes password) file0 = Inr ((metadata, uv, off), file1)"
    "apply_process_sandbox K os [''/usr'', ''/etc''] [vault_path, enter_staging os] = Inr rules"
    and sh: "r = enter_shell L K os E rules metadata uv off file1"
    unfolding handle_enter_def by (auto simp: result_simps Let_def split: prod.splits)
  from that [OF r(1-3), of file1] r(4,5) enter_shell_run [OF sh] show ?thesis by simp
qed

text \<open>The shell of a confined process cannot make the temporary file of \<open>vacuum\<close> beside the vault.\<close>

lemma vacuum_denied:
  assumes ok: "landlock_ok K"
    and rules: "apply_process_sandbox K os [''/usr'', ''/etc''] [vault_path, enter_staging os] = Inr rules"
    and vault: "os_metadata os vault_path = Some IsOther"
    and outside: "\<And>q. os_path_fd os (enter_staging os) = Some q \<Longrightarrow> \<not> path_starts_with (butlast tmp) q"
  shows "env_tmp_exists (confine_env K rules tmp env)"
proof -
  have "\<not> kernel_allows K rules (butlast tmp) MakeReg"
  proof
    assume "kernel_allows K rules (butlast tmp) MakeReg"
    from sandbox_confines [OF ok rules this] vault outside show False
      by (auto simp: confined_to_def file_rights_def)
  qed
  then show ?thesis by (simp add: confine_env_def)
qed

end
