(* ===== verification/Desktop.thy ===== *)
theory Desktop
  imports Sandbox
begin

text \<open>
  How the graphical interface finds the program that opens a file (\<open>atom/src/gui/broker.rs\<close>): the
  file type, the desktop entry, its \<open>Exec\<close> line, and the rewriting of a flatpak invocation. The
  programs it runs and the files it reads are arguments.
\<close>

record desktop_env =
  de_os :: os
  de_run :: "string \<Rightarrow> string list \<Rightarrow> string option"
  de_is_file :: "string \<Rightarrow> bool"
  de_read :: "string \<Rightarrow> string option"

section \<open>Tokens of an Exec line\<close>

text \<open>The loop of \<open>tokenize_exec\<close>: the output so far, the token being read, and the two flags.\<close>

abbreviation dquote :: char where "dquote \<equiv> CHR 0x22"
abbreviation backslash :: char where "backslash \<equiv> CHR 0x5C"
abbreviation tab :: char where "tab \<equiv> CHR 0x09"

fun tokenize_loop :: "string \<Rightarrow> string list \<Rightarrow> string \<Rightarrow> bool \<Rightarrow> bool \<Rightarrow> string list" where
  "tokenize_loop [] out cur in_quote started = (if started \<or> cur \<noteq> [] then out @ [cur] else out)"
| "tokenize_loop (c # cs) out cur in_quote started =
     (if c = dquote then tokenize_loop cs out cur (\<not> in_quote) True
      else if c = backslash \<and> in_quote then
        (case cs of
           [] \<Rightarrow> tokenize_loop [] out cur in_quote started
         | n # cs' \<Rightarrow> tokenize_loop cs' out (cur @ [n]) in_quote started)
      else if (c = CHR '' '' \<or> c = tab) \<and> \<not> in_quote then
        tokenize_loop cs (if started \<or> cur \<noteq> [] then out @ [cur] else out)
          (if started \<or> cur \<noteq> [] then [] else cur) in_quote False
      else tokenize_loop cs out (cur @ [c]) in_quote True)"

definition tokenize_exec :: "string \<Rightarrow> string list" where
  "tokenize_exec s = tokenize_loop s [] [] False False"

text \<open>\<open>str::replace("%%", "%")\<close>.\<close>

fun unescape_percent :: "string \<Rightarrow> string" where
  "unescape_percent (a # b # cs) =
     (if a = CHR ''%'' \<and> b = CHR ''%'' then CHR ''%'' # unescape_percent cs
      else a # unescape_percent (b # cs))"
| "unescape_percent cs = cs"

definition file_codes :: "string list" where
  "file_codes = [''%f'', ''%F'', ''%u'', ''%U'']"

definition dropped_codes :: "string list" where
  "dropped_codes = [''%i'', ''%c'', ''%k'', ''%d'', ''%D'', ''%n'', ''%N'', ''%v'', ''%m'']"

definition build_argv :: "string \<Rightarrow> string \<Rightarrow> string list" where
  "build_argv exec path =
     (let toks = tokenize_exec exec;
          argv = concat (map (\<lambda>tok. if tok \<in> set file_codes then [path]
                                     else if tok \<in> set dropped_codes then []
                                     else [unescape_percent tok]) toks)
      in if \<exists>tok \<in> set toks. tok \<in> set file_codes then argv else argv @ [path])"

section \<open>The desktop entry\<close>

fun exec_line :: "bool \<Rightarrow> string list \<Rightarrow> string option" where
  "exec_line in_entry [] = None"
| "exec_line in_entry (l # ls) =
     (let line = trim l in
      if take 1 line = ''['' then exec_line (line = ''[Desktop Entry]'') ls
      else if in_entry then
        (case strip_prefix ''Exec='' line of Some rest \<Rightarrow> Some rest | None \<Rightarrow> exec_line in_entry ls)
      else exec_line in_entry ls)"

definition parse_exec :: "desktop_env \<Rightarrow> string \<Rightarrow> string option" where
  "parse_exec E desktop =
     (case de_read E desktop of
        None \<Rightarrow> None
      | Some content \<Rightarrow> exec_line False (split_on (CHR 0x0A) content))"

definition run_trim :: "desktop_env \<Rightarrow> string \<Rightarrow> string list \<Rightarrow> string option" where
  "run_trim E cmd args = map_option trim (de_run E cmd args)"

definition data_bases :: "os \<Rightarrow> string list" where
  "data_bases os =
     (case os_var os ''XDG_DATA_HOME'' of
        Some h \<Rightarrow> if h \<noteq> [] then [h]
                   else (case os_home_dir os of Some hm \<Rightarrow> [path_join hm ''.local/share''] | None \<Rightarrow> [])
      | None \<Rightarrow> (case os_home_dir os of Some hm \<Rightarrow> [path_join hm ''.local/share''] | None \<Rightarrow> [])) @
     filter (\<lambda>d. d \<noteq> [])
       (split_on (CHR '':'') (unwrap_or ''/usr/local/share:/usr/share'' (os_var os ''XDG_DATA_DIRS'')))"

fun find_in_bases :: "desktop_env \<Rightarrow> string \<Rightarrow> string list \<Rightarrow> string option" where
  "find_in_bases E desktop_id [] = None"
| "find_in_bases E desktop_id (base # bs) =
     (let apps = path_join base ''applications'';
          direct = path_join apps desktop_id;
          nested = path_join apps (map (\<lambda>c. if c = CHR ''-'' then CHR ''/'' else c) desktop_id)
      in if de_is_file E direct then Some direct
         else if de_is_file E nested then Some nested
         else find_in_bases E desktop_id bs)"

definition find_desktop_file :: "desktop_env \<Rightarrow> string \<Rightarrow> string option" where
  "find_desktop_file E desktop_id = find_in_bases E desktop_id (data_bases (de_os E))"

section \<open>The file type\<close>

text \<open>\<open>Path::extension\<close>.\<close>

definition extension :: "string \<Rightarrow> string option" where
  "extension p =
     (case file_name p of
        None \<Rightarrow> None
      | Some n \<Rightarrow>
          let r = dropWhile (\<lambda>c. c \<noteq> CHR ''.'') (rev n)
          in if r = [] \<or> tl r = [] then None else Some (rev (takeWhile (\<lambda>c. c \<noteq> CHR ''.'') (rev n))))"

definition extension_mime :: "string option \<Rightarrow> string + string" where
  "extension_mime ext =
     (if ext = Some ''pdf'' then Inr ''application/pdf''
      else if ext = Some ''png'' then Inr ''image/png''
      else if ext = Some ''jpg'' \<or> ext = Some ''jpeg'' then Inr ''image/jpeg''
      else if ext = Some ''gif'' then Inr ''image/gif''
      else if ext = Some ''webp'' then Inr ''image/webp''
      else if ext = Some ''svg'' then Inr ''image/svg+xml''
      else if ext = Some ''txt'' \<or> ext = Some ''md'' \<or> ext = Some ''log'' then Inr ''text/plain''
      else Inl ''Cannot determine file MIME type (is xdg-mime installed?)'')"

definition query_mime :: "desktop_env \<Rightarrow> string \<Rightarrow> string + string" where
  "query_mime E path =
     (case run_trim E ''xdg-mime'' [''query'', ''filetype'', path] of
        Some m \<Rightarrow> if m \<noteq> [] then Inr m else extension_mime (map_option to_lowercase (extension path))
      | None \<Rightarrow> extension_mime (map_option to_lowercase (extension path)))"

section \<open>Flatpak\<close>

text \<open>
  \<open>Path::strip_prefix\<close> on the components of a path, and \<open>flatpak_filesystem_spec\<close>.
\<close>

definition components :: "string \<Rightarrow> string list" where
  "components p =
     (let root = (p \<noteq> [] \<and> hd p = CHR ''/''); parts = split_on (CHR ''/'') p
      in (if root then [''/''] else []) @
         (case parts of
            [] \<Rightarrow> []
          | c # cs \<Rightarrow> (if c = [] then [] else [c]) @ filter (\<lambda>x. x \<noteq> [] \<and> x \<noteq> ''.'') cs))"

definition flatpak_filesystem_spec :: "os \<Rightarrow> string \<Rightarrow> string" where
  "flatpak_filesystem_spec os path =
     (case os_var os ''XDG_RUNTIME_DIR'' of
        None \<Rightarrow> path @ '':ro''
      | Some runtime \<Rightarrow>
          if runtime = [] then path @ '':ro''
          else (case strip_prefix (components runtime) (components path) of
                  Some rel \<Rightarrow> ''xdg-run/'' @ join ''/'' rel @ '':ro''
                | None \<Rightarrow> path @ '':ro''))"

definition forwarding_marks :: "string list" where
  "forwarding_marks = [''--file-forwarding'', ''@@'', ''@@u'']"

definition rewrite_flatpak_argv :: "os \<Rightarrow> string list \<Rightarrow> string \<Rightarrow> string + string list" where
  "rewrite_flatpak_argv os argv staged_file =
     (if os_exists os ''/.flatpak-info'' then Inl ''atom is running inside a flatpak sandbox''
      else case List.find (\<lambda>i. argv ! i = ''run'') [0..<length argv] of
        None \<Rightarrow> Inl ''Unrecognised flatpak invocation (no run subcommand)''
      | Some run_idx \<Rightarrow>
          Inr ([argv ! 0, ''run'', ''--unshare=network'', ''--die-with-parent'',
                ''--filesystem='' @ flatpak_filesystem_spec os staged_file] @
               filter (\<lambda>tok. tok \<notin> set forwarding_marks) (drop (Suc run_idx) argv)))"

definition is_flatpak :: "string \<Rightarrow> bool" where
  "is_flatpak prog \<longleftrightarrow> prog = ''flatpak'' \<or> strip_suffix ''/flatpak'' prog \<noteq> None"

definition resolve_viewer_command :: "desktop_env \<Rightarrow> string \<Rightarrow> string + string list" where
  "resolve_viewer_command E path =
     bindE (query_mime E path) (\<lambda>mime.
     bindE (ok_or (''No default application registered for '' @ mime)
              (case run_trim E ''xdg-mime'' [''query'', ''default'', mime] of
                 Some s \<Rightarrow> if s \<noteq> [] then Some s else None | None \<Rightarrow> None)) (\<lambda>desktop_id.
     bindE (ok_or (''Cannot locate desktop file '' @ desktop_id) (find_desktop_file E desktop_id)) (\<lambda>desktop.
     bindE (ok_or (''No Exec line in '' @ desktop) (parse_exec E desktop)) (\<lambda>exec.
     let argv = build_argv exec path in
     bindE (guardE (argv \<noteq> []) (''Empty Exec command in '' @ desktop)) (\<lambda>_.
     if is_flatpak (argv ! 0) then rewrite_flatpak_argv (de_os E) argv path else Inr argv)))))"

section \<open>Quoting and tokens\<close>

text \<open>A token written between quotes, with every quote and backslash behind a backslash.\<close>

fun quote_body :: "string \<Rightarrow> string" where
  "quote_body [] = []"
| "quote_body (c # cs) = (if c = dquote \<or> c = backslash then [backslash, c] else [c]) @ quote_body cs"

definition quote_token :: "string \<Rightarrow> string" where
  "quote_token t = [dquote] @ quote_body t @ [dquote]"

lemma tokenize_quoted:
  "tokenize_loop (quote_body t @ dquote # rest) out cur True True = tokenize_loop rest out (cur @ t) False True"
  by (induction t arbitrary: cur) auto

lemma tokenize_quoted_list:
  "ts \<noteq> [] \<Longrightarrow> tokenize_loop (join '' '' (map quote_token ts)) out [] False False = out @ ts"
proof (induction ts arbitrary: out)
  case (Cons t ts)
  have q: "tokenize_loop (quote_token t @ rest) out [] False False = tokenize_loop rest out t False True" for rest
    using tokenize_quoted [of t rest out "[]"] by (simp add: quote_token_def)
  show ?case
  proof (cases ts)
    case Nil
    with q [of "[]"] show ?thesis by simp
  next
    case (Cons t' ts')
    have "tokenize_loop (join '' '' (map quote_token (t # ts))) out [] False False =
        tokenize_loop ('' '' @ join '' '' (map quote_token ts)) out t False True"
      unfolding Cons by (simp add: q)
    also have "\<dots> = tokenize_loop (join '' '' (map quote_token ts)) (out @ [t]) [] False False"
      by simp
    also have "\<dots> = (out @ [t]) @ ts" using Cons.IH Cons by blast
    finally show ?thesis by simp
  qed
qed simp

lemma tokenize_quote: "tokenize_exec (join '' '' (map quote_token ts)) = ts"
  using tokenize_quoted_list [of ts "[]"] by (cases ts) (simp_all add: tokenize_exec_def)

section \<open>Where the path goes\<close>

lemma build_argv_has_path: "path \<in> set (build_argv exec path)"
  by (auto simp: build_argv_def Let_def)

lemma build_argv_quoted:
  assumes "\<forall>t \<in> set ts. CHR ''%'' \<notin> set t"
  shows "build_argv (join '' '' (map quote_token (ts @ [''%f'']))) path = ts @ [path]"
proof -
  have u: "unescape_percent t = t" if "CHR ''%'' \<notin> set t" for t
    using that by (induction t rule: unescape_percent.induct) auto
  have n: "t \<notin> set file_codes \<and> t \<notin> set dropped_codes" if "CHR ''%'' \<notin> set t" for t
    using that by (auto simp: file_codes_def dropped_codes_def)
  have "concat (map (\<lambda>tok. if tok \<in> set file_codes then [path]
          else if tok \<in> set dropped_codes then [] else [unescape_percent tok]) ts) = ts"
    using assms by (induction ts) (simp_all add: u n)
  then show ?thesis unfolding build_argv_def tokenize_quote by (simp add: file_codes_def)
qed

lemma rewrite_flatpak_Inr:
  assumes "rewrite_flatpak_argv os argv staged = Inr out"
  obtains i where "i < length argv" "argv ! i = ''run''" "\<forall>j < i. argv ! j \<noteq> ''run''"
    "out = [argv ! 0, ''run'', ''--unshare=network'', ''--die-with-parent'',
            ''--filesystem='' @ flatpak_filesystem_spec os staged] @
           filter (\<lambda>tok. tok \<notin> set forwarding_marks) (drop (Suc i) argv)"
  using assms by (auto simp: rewrite_flatpak_argv_def find_Some_iff split: if_splits option.splits)

lemma not_marks:
  "''run'' \<notin> set forwarding_marks" "''--unshare=network'' \<notin> set forwarding_marks"
  "''--die-with-parent'' \<notin> set forwarding_marks" "''--filesystem='' @ s \<notin> set forwarding_marks"
  "is_flatpak p \<Longrightarrow> p \<notin> set forwarding_marks"
  by (auto simp: forwarding_marks_def is_flatpak_def strip_suffix_Some)

end
