(* ===== verification/Viewer.thy ===== *)
theory Viewer
  imports Display Bwrap Desktop "HOL-Library.Multiset"
begin

text \<open>
  Showing a file in an external viewer: the memory file of the command line
  (\<open>atom/src/commands/view.rs\<close>), the staged file of the graphical interface
  (\<open>atom/src/gui/broker.rs\<close>), the registry of teardowns both use, and the interrupt handler. The
  memory of the process is a set of inodes with their contents, the names and the open handles that
  keep them alive, and a log of what was done.
\<close>

section \<open>Inodes, names and handles\<close>

datatype effect =
    Killed nat
  | Zeroed nat
  | Unpinned nat
  | Unlinked string
  | Notified nat

record world =
  held :: "nat \<Rightarrow> bytes"
  names :: "string \<rightharpoonup> nat"
  handles :: "nat list"
  effects :: "effect list"

definition log_effect :: "effect \<Rightarrow> world \<Rightarrow> world" where
  "log_effect e w = w\<lparr>effects := effects w @ [e]\<rparr>"

definition put_inode :: "nat \<Rightarrow> bytes \<Rightarrow> world \<Rightarrow> world" where
  "put_inode n d w = w\<lparr>held := (held w)(n := d)\<rparr>"

text \<open>An inode without a name and without a handle is gone.\<close>

definition release :: "nat \<Rightarrow> world \<Rightarrow> world" where
  "release n w = (if n \<in> set (handles w) \<or> n \<in> ran (names w) then w else put_inode n [] w)"

definition close_handle :: "nat \<Rightarrow> world \<Rightarrow> world" where
  "close_handle n w = release n (w\<lparr>handles := remove1 n (handles w)\<rparr>)"

definition unlink :: "string \<Rightarrow> world \<Rightarrow> world" where
  "unlink p w =
     (case names w p of
        None \<Rightarrow> w
      | Some n \<Rightarrow> release n (log_effect (Unlinked p) (w\<lparr>names := (names w)(p := None)\<rparr>)))"

text \<open>\<open>OpenOptions::create(true).truncate(true)\<close>: the inode behind the name, or a new one.\<close>

definition open_truncate :: "nat \<Rightarrow> string \<Rightarrow> world \<Rightarrow> nat \<times> world" where
  "open_truncate fresh p w =
     (let n = (case names w p of Some n \<Rightarrow> n | None \<Rightarrow> fresh)
      in (n, put_inode n [] (w\<lparr>names := (names w)(p \<mapsto> n), handles := n # handles w\<rparr>)))"

section \<open>Wiping\<close>

text \<open>
  The overwrite in pages of \<open>zero_fill\<close> and \<open>shred_tmpfs_job\<close>. The calls that can fail are
  arguments; a page that cannot be written ends the loop.
\<close>

record shred_io =
  len_ok :: bool
  seek_ok :: bool
  page_ok :: "nat \<Rightarrow> bool"
  remove_ok :: bool

definition shred_io_ok :: "shred_io \<Rightarrow> bool" where
  "shred_io_ok io \<longleftrightarrow> len_ok io \<and> seek_ok io \<and> (\<forall>i. page_ok io i) \<and> remove_ok io"

function zero_loop :: "(nat \<Rightarrow> bool) \<Rightarrow> nat \<Rightarrow> nat \<Rightarrow> File \<Rightarrow> File" where
  "zero_loop ok len written f =
     (if written < len
      then let n = min (len - written) 4096
           in if ok written then zero_loop ok len (written + n) (write_all (replicate n 0) f) else f
      else f)"
  by pat_completeness auto
termination by (relation "measure (\<lambda>(ok, len, written, f). len - written)") auto

declare zero_loop.simps [simp del]

definition wipe :: "shred_io \<Rightarrow> bytes \<Rightarrow> bytes" where
  "wipe io data =
     (let len = (if len_ok io then length data else 0)
      in if len = 0 \<or> \<not> seek_ok io then data
         else fbytes (zero_loop (page_ok io) len 0 (seek_start 0 \<lparr>fbytes = data, fpos = 0\<rparr>)))"

lemma zero_loop_pages:
  assumes "\<forall>i. ok i"
  shows "zero_loop ok len written f = zero_pages len written f"
  using assms
  by (induction ok len written f rule: zero_loop.induct)
    (subst zero_loop.simps, subst zero_pages.simps, simp add: Let_def min.commute)

lemma wipe_zero:
  assumes "shred_io_ok io"
  shows "wipe io data = replicate (length data) 0"
proof (cases "data = []")
  case True
  then show ?thesis by (simp add: wipe_def)
next
  case False
  have "fbytes (zero_fill \<lparr>fbytes = data, fpos = 0\<rparr>) = replicate (length data) 0"
    by (simp add: fbytes_zero_fill)
  with False assms show ?thesis
    by (simp add: wipe_def zero_fill_def shred_io_ok_def Let_def zero_loop_pages)
qed

section \<open>Teardown jobs\<close>

text \<open>
  A \<open>MemfdShredJob\<close> has no path, a \<open>TmpfsShredJob\<close> has one. \<open>on_close\<close> is whether a callback is
  to be fired.
\<close>

record shred_job =
  inode :: nat
  job_path :: "string option"
  viewer_pid :: nat
  locked_map :: nat
  on_close :: bool

definition complete_shred_job :: "shred_io \<Rightarrow> shred_job \<Rightarrow> world \<Rightarrow> world" where
  "complete_shred_job io j w =
     (let n = inode j;
          w1 = log_effect (Zeroed n) (put_inode n (wipe io (held w n)) w);
          w2 = log_effect (Unpinned n) w1;
          w3 = close_handle n (put_inode n [] w2)
      in if on_close j then log_effect (Notified n) w3 else w3)"

definition shred_tmpfs_job :: "shred_io \<Rightarrow> string \<Rightarrow> shred_job \<Rightarrow> world \<Rightarrow> world" where
  "shred_tmpfs_job io p j w =
     (let n = inode j;
          w1 = log_effect (Zeroed n) (put_inode n (wipe io (held w n)) w);
          w2 = close_handle n (log_effect (Unpinned n) w1);
          w3 = (if remove_ok io then unlink p w2 else w2)
      in log_effect (Notified n) w3)"

definition shred_on_close :: "shred_io \<Rightarrow> shred_job \<Rightarrow> world \<Rightarrow> world" where
  "shred_on_close io j w =
     (case job_path j of None \<Rightarrow> complete_shred_job io j w | Some p \<Rightarrow> shred_tmpfs_job io p j w)"

definition shred_on_signal :: "shred_io \<Rightarrow> shred_job \<Rightarrow> world \<Rightarrow> world" where
  "shred_on_signal io j w =
     (let w1 = log_effect (Killed (viewer_pid j)) w in
      case job_path j of
        None \<Rightarrow> complete_shred_job io (j\<lparr>on_close := False\<rparr>) w1
      | Some p \<Rightarrow> shred_tmpfs_job io p j w1)"

section \<open>Opening a viewer\<close>

text \<open>
  What the calls of \<open>open_in_viewer\<close> and \<open>execute\<close> meet: \<open>la_written\<close> is the number of bytes
  written before a failing write.
\<close>

record launch =
  la_create_ok :: bool
  la_fresh :: nat
  la_open_ok :: bool
  la_written :: "nat option"
  la_sync_ok :: bool
  la_mmap_ok :: bool
  la_locked :: mlock_result
  la_disk_reachable :: bool
  la_remove_ok :: bool
  la_dup :: "nat option"
  la_spawn :: "nat option"
  la_metadata_ok :: bool
  la_io :: shred_io

definition view_staging :: "os \<Rightarrow> string" where
  "view_staging os =
     path_join (case os_var os ''XDG_RUNTIME_DIR'' of
                  Some x \<Rightarrow> x
                | None \<Rightarrow> path_join (unwrap_or ''/tmp'' (os_home_dir os)) ''.atom_vault'') ''atom_staging''"

definition view_tmp_path :: "string \<Rightarrow> string \<Rightarrow> string" where
  "view_tmp_path staging filename =
     path_join staging
       (unwrap_or filename (file_stem filename) @ ''_view_tmp'' @
        (case extension filename of Some e \<Rightarrow> ''.'' @ e | None \<Rightarrow> []))"

definition open_in_viewer ::
    "desktop_env \<Rightarrow> launch \<Rightarrow> bytes \<Rightarrow> string \<Rightarrow> world \<Rightarrow> world \<times> (string + shred_job \<times> string list)" where
  "open_in_viewer D la data filename w =
     (if \<not> la_create_ok la then (w, Inl ''Cannot create staging dir'')
      else let tmp_path = view_tmp_path (view_staging (de_os D)) filename in
      case resolve_viewer_command D tmp_path of
        Inl e \<Rightarrow> (w, Inl e)
      | Inr viewer_cmd \<Rightarrow>
      if \<not> la_open_ok la then (w, Inl ''Failed to write to tmpfs'')
      else let (n, w1) = open_truncate (la_fresh la) tmp_path w in
      case la_written la of
        Some k \<Rightarrow> (close_handle n (put_inode n (take k data) w1), Inl ''tmpfs write failed'')
      | None \<Rightarrow>
      let w2 = put_inode n data w1 in
      if \<not> la_sync_ok la then (close_handle n w2, Inl ''tmpfs sync failed'')
      else case MlockedMap_new (la_mmap_ok la) (la_locked la) (la_disk_reachable la) (length data) of
        Inl e \<Rightarrow>
          (close_handle n (if la_remove_ok la then unlink tmp_path w2 else w2),
           Inl ''Failed to lock viewer plaintext into RAM'')
      | Inr len \<Rightarrow>
      (case la_spawn la of
         None \<Rightarrow>
           (shred_tmpfs_job (la_io la) tmp_path
              \<lparr>inode = n, job_path = Some tmp_path, viewer_pid = 0, locked_map = len, on_close = True\<rparr> w2,
            Inl ''Failed to launch viewer'')
       | Some pid \<Rightarrow>
           (w2, Inr (\<lparr>inode = n, job_path = Some tmp_path, viewer_pid = pid, locked_map = len, on_close = True\<rparr>,
                     viewer_cmd))))"

text \<open>
  \<open>execute\<close>, from the decrypted memory file on: \<open>memfd\<close> is its contents, \<open>la_open_ok\<close> whether the
  read-only handle opens, and the pid comes from \<open>spawn_in_bwrap_sandbox\<close>. On a failure the memory
  file goes with its last handle.
\<close>

definition execute_viewer ::
    "launch \<Rightarrow> os \<Rightarrow> bytes \<Rightarrow> world \<Rightarrow> world \<times> (string + shred_job \<times> string list)" where
  "execute_viewer la os memfd w =
     (let n = la_fresh la;
          w1 = put_inode n memfd (w\<lparr>handles := n # handles w\<rparr>) in
      if \<not> la_metadata_ok la then (close_handle n w1, Inl ''metadata'')
      else case MlockedMap_new (la_mmap_ok la) (la_locked la) (la_disk_reachable la) (length memfd) of
        Inl e \<Rightarrow> (close_handle n w1, Inl ''Failed to lock decrypted memfd into RAM'')
      | Inr len \<Rightarrow>
      if \<not> la_open_ok la then (close_handle n w1, Inl ''Failed to open read-only memfd handle'')
      else case spawn_in_bwrap_sandbox os (la_dup la) (la_spawn la) of
        Inl e \<Rightarrow> (close_handle n w1, Inl e)
      | Inr (pid, args) \<Rightarrow>
          (w1, Inr (\<lparr>inode = n, job_path = None, viewer_pid = pid, locked_map = len, on_close = True\<rparr>, args)))"

text \<open>
  \<open>raise_memlock_limit\<close> on the soft and the hard limit: what \<open>getrlimit\<close> reports, if it does, and
  whether \<open>setrlimit\<close> succeeds.
\<close>

definition raise_memlock_limit :: "bool \<Rightarrow> bool \<Rightarrow> nat \<times> nat \<Rightarrow> nat \<times> nat" where
  "raise_memlock_limit get_ok set_ok lim =
     (if get_ok \<and> fst lim < snd lim \<and> set_ok then (snd lim, snd lim) else lim)"

section \<open>The teardown registry\<close>

text \<open>
  The slots that exist, by number; the registry lists the numbers of the slots it holds. A viewer
  that was opened but is not yet registered is in \<open>launching\<close>. \<open>draining\<close> is the list the interrupt
  handler has taken; \<open>shreds\<close> records the slots whose job was claimed.
\<close>

record viewing =
  vw :: world
  slots :: "shred_job option list"
  registry :: "nat list"
  launching :: "shred_job list"
  draining :: "nat list option"
  exited :: bool
  shreds :: "nat list"

definition slot_full :: "viewing \<Rightarrow> nat \<Rightarrow> bool" where
  "slot_full s i \<longleftrightarrow> i < length (slots s) \<and> slots s ! i \<noteq> None"

definition register_teardown :: "shred_job \<Rightarrow> viewing \<Rightarrow> viewing" where
  "register_teardown j s =
     s\<lparr>slots := slots s @ [Some j],
       registry := filter (slot_full s) (registry s) @ [length (slots s)],
       launching := remove1 j (launching s)\<rparr>"

text \<open>\<open>slot.lock().unwrap().take()\<close> and what the claimant does with the job.\<close>

definition claim :: "(shred_job \<Rightarrow> world \<Rightarrow> world) \<Rightarrow> nat \<Rightarrow> viewing \<Rightarrow> viewing" where
  "claim shred i s =
     (if slot_full s i
      then s\<lparr>vw := shred (the (slots s ! i)) (vw s), slots := (slots s)[i := None], shreds := i # shreds s\<rparr>
      else s)"

definition drain_registry :: "viewing \<Rightarrow> viewing" where
  "drain_registry s = s\<lparr>draining := Some (registry s), registry := []\<rparr>"

text \<open>
  The steps of the threads of the process, in any order. Opening a viewer, up to the launched or failed program, is
  one step, so the handler does not run inside it; opening that fails in writing or syncing the staged file is described
  by \<open>open_in_viewer\<close> alone.
\<close>

inductive vstep :: "(shred_job \<Rightarrow> shred_io) \<Rightarrow> viewing \<Rightarrow> viewing \<Rightarrow> bool" for io where
  open_gui: "\<lbrakk>\<not> exited s; la_fresh la \<notin> set (handles (vw s)) \<union> ran (names (vw s));
      open_in_viewer D la data filename (vw s) = (w, Inr (j, cmd))\<rbrakk> \<Longrightarrow>
    vstep io s (s\<lparr>vw := w, launching := j # launching s\<rparr>)"
| open_gui_fails: "\<lbrakk>\<not> exited s; la_fresh la \<notin> set (handles (vw s)) \<union> ran (names (vw s));
      la_written la = None; la_sync_ok la; la_remove_ok la; shred_io_ok (la_io la);
      open_in_viewer D la data filename (vw s) = (w, Inl e)\<rbrakk> \<Longrightarrow>
    vstep io s (s\<lparr>vw := w\<rparr>)"
| open_cli: "\<lbrakk>\<not> exited s; la_fresh la \<notin> set (handles (vw s)) \<union> ran (names (vw s));
      execute_viewer la os memfd (vw s) = (w, Inr (j, args))\<rbrakk> \<Longrightarrow>
    vstep io s (s\<lparr>vw := w, launching := j # launching s\<rparr>)"
| open_cli_fails: "\<lbrakk>\<not> exited s; la_fresh la \<notin> set (handles (vw s)) \<union> ran (names (vw s));
      execute_viewer la os memfd (vw s) = (w, Inl e)\<rbrakk> \<Longrightarrow>
    vstep io s (s\<lparr>vw := w\<rparr>)"
| register: "\<lbrakk>\<not> exited s; j \<in> set (launching s)\<rbrakk> \<Longrightarrow> vstep io s (register_teardown j s)"
| viewer_closed: "\<not> exited s \<Longrightarrow> vstep io s (claim (\<lambda>j. shred_on_close (io j) j) i s)"
| interrupt: "\<lbrakk>\<not> exited s; draining s = None\<rbrakk> \<Longrightarrow> vstep io s (drain_registry s)"
| interrupt_claims: "\<lbrakk>\<not> exited s; draining s = Some (i # is)\<rbrakk> \<Longrightarrow>
    vstep io s ((claim (\<lambda>j. shred_on_signal (io j) j) i s)\<lparr>draining := Some is\<rparr>)"
| exit_130: "\<lbrakk>\<not> exited s; draining s = Some []\<rbrakk> \<Longrightarrow> vstep io s (s\<lparr>exited := True\<rparr>)"

definition viewing_start :: viewing where
  "viewing_start =
     \<lparr>vw = \<lparr>held = \<lambda>_. [], names = Map.empty, handles = [], effects = []\<rparr>, slots = [], registry = [],
      launching = [], draining = None, exited = False, shreds = []\<rparr>"

section \<open>What the registry keeps\<close>

definition all_zero :: "bytes \<Rightarrow> bool" where
  "all_zero d \<longleftrightarrow> (\<forall>b \<in> set d. b = 0)"

definition world_ok :: "world \<Rightarrow> bool" where
  "world_ok w \<longleftrightarrow> inj_on (names w) (dom (names w)) \<and> (\<forall>n. all_zero (held w n) \<or> n \<in> set (handles w))"

definition live_jobs :: "viewing \<Rightarrow> shred_job list" where
  "live_jobs s = launching s @ List.map_filter id (slots s)"

text \<open>
  Every inode with plaintext has a handle, every handle belongs to a job that is still to be
  claimed, and every such job is reachable from the registry, from the list the interrupt handler
  works on, or from the thread that is about to register it.
\<close>

definition viewing_inv :: "viewing \<Rightarrow> bool" where
  "viewing_inv s \<longleftrightarrow>
     world_ok (vw s) \<and>
     mset (handles (vw s)) = mset (map inode (live_jobs s)) \<and>
     (\<forall>i. slot_full s i \<longrightarrow> i \<in> set (registry s) \<or> (\<exists>l. draining s = Some l \<and> i \<in> set l)) \<and>
     distinct (shreds s) \<and>
     (\<forall>i. i \<in> set (shreds s) \<longleftrightarrow> i < length (slots s) \<and> slots s ! i = None) \<and>
     (exited s \<longrightarrow> draining s = Some [])"

subsection \<open>Worlds\<close>

lemma all_zero_Nil [simp]: "all_zero []" and all_zero_replicate [simp]: "all_zero (replicate k 0)"
  by (auto simp: all_zero_def)

lemma world_sel [simp]:
  "held (log_effect e w) = held w" "names (log_effect e w) = names w" "handles (log_effect e w) = handles w"
  "names (put_inode n d w) = names w" "handles (put_inode n d w) = handles w"
  "held (put_inode n d w) = (held w)(n := d)"
  "names (release n w) = names w" "handles (release n w) = handles w"
  "names (close_handle n w) = names w" "handles (close_handle n w) = remove1 n (handles w)"
  "handles (unlink p w) = handles w" "names (unlink p w) = (names w)(p := None)"
  by (auto simp: log_effect_def put_inode_def release_def close_handle_def unlink_def split: option.splits)

lemma held_release: "held (release n w) = (if n \<in> set (handles w) \<or> n \<in> ran (names w) then held w else (held w)(n := []))"
  by (simp add: release_def)

lemma held_close:
  "held (close_handle n w) =
     (if n \<in> set (remove1 n (handles w)) \<or> n \<in> ran (names w) then held w else (held w)(n := []))"
  by (simp add: close_handle_def held_release)

lemma held_unlink:
  "held (unlink p w) m =
     (if names w p = Some m \<and> m \<notin> set (handles w) \<and> m \<notin> ran ((names w)(p := None)) then [] else held w m)"
  by (auto simp: unlink_def held_release split: option.splits)

lemma shrinks:
  "all_zero (held w m) \<Longrightarrow> all_zero (held (close_handle n w) m)"
  "all_zero (held w m) \<Longrightarrow> all_zero (held (unlink p w) m)"
  by (auto simp: held_close held_unlink)

lemma inj_on_drop: "inj_on f (dom f) \<Longrightarrow> inj_on (f(p := None)) (dom (f(p := None)))"
  unfolding inj_on_def by (auto split: if_splits)

lemma world_ok_log [simp]: "world_ok (log_effect e w) = world_ok w"
  by (simp add: world_ok_def)

lemma world_ok_unlink: "world_ok w \<Longrightarrow> world_ok (unlink p w)"
  using shrinks(2) [of w _ p] inj_on_drop [of "names w" p] unfolding world_ok_def
  by (simp only: world_sel) blast

lemma world_ok_close:
  assumes "world_ok w" "all_zero (held w n)"
  shows "world_ok (close_handle n w)"
proof -
  have "all_zero (held (close_handle n w) m) \<or> m \<in> set (remove1 n (handles w))" for m
  proof (cases "m = n")
    case True
    with assms(2) shrinks(1) show ?thesis by blast
  next
    case False
    with assms(1) have "all_zero (held w m) \<or> m \<in> set (remove1 n (handles w))" by (auto simp: world_ok_def)
    with shrinks(1) show ?thesis by blast
  qed
  with assms(1) show ?thesis by (simp add: world_ok_def)
qed

lemma shred_tmpfs_ok:
  assumes "shred_io_ok io" "world_ok w"
  shows "world_ok (shred_tmpfs_job io p j w)" "handles (shred_tmpfs_job io p j w) = remove1 (inode j) (handles w)"
proof -
  let ?w = "log_effect (Unpinned (inode j)) (log_effect (Zeroed (inode j)) (put_inode (inode j) (wipe io (held w (inode j))) w))"
  have "world_ok ?w" "all_zero (held ?w (inode j))" using assms by (auto simp: world_ok_def wipe_zero)
  then have "world_ok (close_handle (inode j) ?w)" by (rule world_ok_close)
  with assms(1) show "world_ok (shred_tmpfs_job io p j w)"
    by (simp add: shred_tmpfs_job_def Let_def shred_io_ok_def world_ok_unlink)
qed (simp add: shred_tmpfs_job_def Let_def)

lemma complete_shred_ok:
  assumes "world_ok w"
  shows "world_ok (complete_shred_job io j w)" "handles (complete_shred_job io j w) = remove1 (inode j) (handles w)"
proof -
  let ?w = "put_inode (inode j) [] (log_effect (Unpinned (inode j))
     (log_effect (Zeroed (inode j)) (put_inode (inode j) (wipe io (held w (inode j))) w)))"
  have "world_ok ?w" "all_zero (held ?w (inode j))" using assms by (auto simp: world_ok_def)
  then have "world_ok (close_handle (inode j) ?w)" by (rule world_ok_close)
  then show "world_ok (complete_shred_job io j w)" by (simp add: complete_shred_job_def Let_def)
qed (simp add: complete_shred_job_def Let_def)

lemma shred_on_ok:
  assumes "shred_io_ok io" "world_ok w"
  shows "world_ok (shred_on_close io j w)" "handles (shred_on_close io j w) = remove1 (inode j) (handles w)"
    "world_ok (shred_on_signal io j w)" "handles (shred_on_signal io j w) = remove1 (inode j) (handles w)"
  using assms shred_tmpfs_ok complete_shred_ok
  by (auto simp: shred_on_close_def shred_on_signal_def Let_def split: option.splits)

subsection \<open>Opening\<close>

lemma open_truncate_ok:
  assumes "world_ok w" "fresh \<notin> set (handles w) \<union> ran (names w)" "open_truncate fresh p w = (n, w1)"
  shows "world_ok (put_inode n d w1)" "handles w1 = n # handles w" "names w1 p = Some n"
    "n \<notin> ran ((names w1)(p := None))"
proof -
  from assms(3) have n: "n = (case names w p of Some n \<Rightarrow> n | None \<Rightarrow> fresh)"
    and w1: "handles w1 = n # handles w" "names w1 = (names w)(p \<mapsto> n)" "held w1 = (held w)(n := [])"
    by (auto simp: open_truncate_def Let_def)
  show "handles w1 = n # handles w" "names w1 p = Some n" using w1 by simp_all
  have other: "names w q \<noteq> Some n" if "q \<noteq> p" for q
  proof (cases "names w p")
    case None
    with n assms(2) show ?thesis by (auto simp: ran_def)
  next
    case (Some m)
    with n assms(1) that show ?thesis unfolding world_ok_def inj_on_def by (auto simp: dom_def)
  qed
  then show "n \<notin> ran ((names w1)(p := None))" using w1 by (auto simp: ran_def)
  have "inj_on (names w1) (dom (names w1))"
    unfolding w1 using assms(1) other unfolding world_ok_def inj_on_def
    by (auto split: if_splits)
  with assms(1) w1 show "world_ok (put_inode n d w1)" by (auto simp: world_ok_def)
qed

lemma undo_open:
  assumes "world_ok w" "fresh \<notin> set (handles w) \<union> ran (names w)" "open_truncate fresh p w = (n, w1)"
  shows "world_ok (close_handle n (unlink p (put_inode n d w1)))"
    "handles (close_handle n (unlink p (put_inode n d w1))) = handles w"
proof -
  let ?w = "unlink p (put_inode n d w1)"
  note o = open_truncate_ok [OF assms]
  show "handles (close_handle n ?w) = handles w" using o(2) by simp
  have ok: "world_ok ?w" using o(1) by (rule world_ok_unlink)
  have "all_zero (held (close_handle n ?w) m) \<or> m \<in> set (handles w)" for m
  proof (cases "m = n")
    case True
    then show ?thesis using o(2,4) by (auto simp: held_close)
  next
    case False
    with ok have "all_zero (held ?w m) \<or> m \<in> set (handles w)" using o(2) by (auto simp: world_ok_def)
    with shrinks(1) show ?thesis by blast
  qed
  with ok o(2) show "world_ok (close_handle n ?w)" by (simp add: world_ok_def)
qed

lemma undo_memfd:
  assumes "world_ok w" "n \<notin> set (handles w) \<union> ran (names w)"
  shows "world_ok (close_handle n (put_inode n d (w\<lparr>handles := n # handles w\<rparr>)))"
    "handles (close_handle n (put_inode n d (w\<lparr>handles := n # handles w\<rparr>))) = handles w"
  using assms by (auto simp: world_ok_def held_close)

lemma open_in_viewer_ok:
  assumes "world_ok w" "la_fresh la \<notin> set (handles w) \<union> ran (names w)"
    "open_in_viewer D la data filename w = (w', Inr (j, cmd))"
  shows "world_ok w'" "handles w' = inode j # handles w"
proof -
  let ?p = "view_tmp_path (view_staging (de_os D)) filename"
  obtain n w1 where o: "open_truncate (la_fresh la) ?p w = (n, w1)" by (cases "open_truncate (la_fresh la) ?p w")
  from assms(3) o have "w' = put_inode n data w1" "inode j = n"
    by (auto simp: open_in_viewer_def Let_def split: if_splits sum.splits option.splits)
  with open_truncate_ok(1,2) [OF assms(1,2) o] show "world_ok w'" "handles w' = inode j # handles w" by simp_all
qed

lemma open_in_viewer_failed:
  assumes "world_ok w" "la_fresh la \<notin> set (handles w) \<union> ran (names w)"
    and clean: "la_written la = None" "la_sync_ok la" "la_remove_ok la" "shred_io_ok (la_io la)"
    and f: "open_in_viewer D la data filename w = (w', Inl e)"
  shows "world_ok w'" "handles w' = handles w"
proof -
  let ?p = "view_tmp_path (view_staging (de_os D)) filename"
  obtain n w1 where o: "open_truncate (la_fresh la) ?p w = (n, w1)" by (cases "open_truncate (la_fresh la) ?p w")
  let ?w = "put_inode n data w1"
  note ok = open_truncate_ok [OF assms(1,2) o] and undo = undo_open [OF assms(1,2) o, of data]
  from f o clean consider "w' = w" | "w' = close_handle n (unlink ?p ?w)"
    | j where "w' = shred_tmpfs_job (la_io la) ?p j ?w" "inode j = n"
    by (auto simp: open_in_viewer_def Let_def split: if_splits sum.splits option.splits)
  then have "world_ok w' \<and> handles w' = handles w"
  proof cases
    case 3
    with shred_tmpfs_ok [OF clean(4) ok(1)] ok(2) show ?thesis by simp
  qed (use assms(1) undo in auto)
  then show "world_ok w'" "handles w' = handles w" by simp_all
qed

lemma execute_viewer_ok:
  assumes "world_ok w" "la_fresh la \<notin> set (handles w) \<union> ran (names w)"
    "execute_viewer la os memfd w = (w', Inr (j, args))"
  shows "world_ok w'" "handles w' = inode j # handles w"
  using assms by (auto simp: execute_viewer_def world_ok_def Let_def split: if_splits sum.splits)

lemma execute_viewer_failed:
  assumes "world_ok w" "la_fresh la \<notin> set (handles w) \<union> ran (names w)"
    "execute_viewer la os memfd w = (w', Inl e)"
  shows "world_ok w'" "handles w' = handles w"
  using assms undo_memfd [OF assms(1,2), of memfd]
  by (auto simp: execute_viewer_def Let_def split: if_splits sum.splits)

subsection \<open>Claiming\<close>

lemma occupied_update:
  assumes "i < length ss" "ss ! i = Some j"
  shows "mset (List.map_filter id ss) = add_mset j (mset (List.map_filter id (ss[i := None])))"
proof -
  have "List.map_filter id (take i ss @ Some j # drop (Suc i) ss) =
      List.map_filter id (take i ss) @ j # List.map_filter id (drop (Suc i) ss)"
    by (simp add: map_filter_def)
  moreover have "List.map_filter id (ss[i := None]) =
      List.map_filter id (take i ss) @ List.map_filter id (drop (Suc i) ss)"
    using assms(1) by (simp add: map_filter_def upd_conv_take_nth_drop)
  moreover have "take i ss @ Some j # drop (Suc i) ss = ss" using assms by (metis id_take_nth_drop)
  ultimately show ?thesis by simp
qed

lemma claim_inv:
  assumes "viewing_inv s" "\<not> exited s"
    and shred: "\<And>j w. world_ok w \<Longrightarrow> world_ok (shred j w) \<and> handles (shred j w) = remove1 (inode j) (handles w)"
  shows "viewing_inv (claim shred i s)" "\<not> slot_full (claim shred i s) i" "draining (claim shred i s) = draining s"
    "\<not> exited (claim shred i s)"
proof -
  show "\<not> slot_full (claim shred i s) i" by (auto simp: claim_def slot_full_def)
  show "draining (claim shred i s) = draining s" "\<not> exited (claim shred i s)" using assms(2) by (auto simp: claim_def)
  show "viewing_inv (claim shred i s)"
  proof (cases "slot_full s i")
    case False
    with assms(1) show ?thesis by (simp add: claim_def)
  next
    case True
    then obtain j where i: "i < length (slots s)" "slots s ! i = Some j" by (auto simp: slot_full_def)
    let ?s = "s\<lparr>vw := shred j (vw s), slots := (slots s)[i := None], shreds := i # shreds s\<rparr>"
    from assms(1) have ok: "world_ok (vw s)" and ms: "mset (handles (vw s)) = mset (map inode (live_jobs s))"
      and reg: "\<And>k. slot_full s k \<Longrightarrow> k \<in> set (registry s) \<or> (\<exists>l. draining s = Some l \<and> k \<in> set l)"
      and sh: "distinct (shreds s)" "\<And>k. k \<in> set (shreds s) \<longleftrightarrow> k < length (slots s) \<and> slots s ! k = None"
      by (auto simp: viewing_inv_def)
    have "mset (handles (vw ?s)) = mset (map inode (live_jobs ?s))"
      using shred [OF ok, of j] ms occupied_update [OF i] by (simp add: live_jobs_def)
    moreover have "k \<in> set (registry s) \<or> (\<exists>l. draining s = Some l \<and> k \<in> set l)" if "slot_full ?s k" for k
      using that i by (intro reg) (cases "k = i", auto simp: slot_full_def)
    moreover have "k \<in> set (i # shreds s) \<longleftrightarrow> k < length (slots ?s) \<and> slots ?s ! k = None" for k
      using sh(2) [of k] i by (auto simp: nth_list_update)
    moreover have "i \<notin> set (shreds s)" using sh(2) [of i] i by simp
    ultimately have "viewing_inv ?s" using shred [OF ok, of j] sh(1) assms(2) by (simp add: viewing_inv_def)
    with True i show ?thesis by (simp add: claim_def)
  qed
qed

lemma register_inv:
  assumes "viewing_inv s" "\<not> exited s" "j \<in> set (launching s)"
  shows "viewing_inv (register_teardown j s)"
proof -
  let ?s = "register_teardown j s"
  from assms(1) have ok: "world_ok (vw s)" and ms: "mset (handles (vw s)) = mset (map inode (live_jobs s))"
    and reg: "\<And>k. slot_full s k \<Longrightarrow> k \<in> set (registry s) \<or> (\<exists>l. draining s = Some l \<and> k \<in> set l)"
    and sh: "distinct (shreds s)" "\<And>k. k \<in> set (shreds s) \<longleftrightarrow> k < length (slots s) \<and> slots s ! k = None"
    by (auto simp: viewing_inv_def)
  have "mset (launching s) = add_mset j (mset (remove1 j (launching s)))" using assms(3) by simp
  then have "mset (live_jobs ?s) = mset (live_jobs s)"
    by (simp add: live_jobs_def register_teardown_def map_filter_def)
  then have "mset (handles (vw ?s)) = mset (map inode (live_jobs ?s))"
    using ms by (simp add: register_teardown_def)
  moreover have "k \<in> set (registry ?s) \<or> (\<exists>l. draining ?s = Some l \<and> k \<in> set l)" if "slot_full ?s k" for k
    using that reg [of k] by (auto simp: slot_full_def register_teardown_def nth_append split: if_splits)
  moreover have "k \<in> set (shreds ?s) \<longleftrightarrow> k < length (slots ?s) \<and> slots ?s ! k = None" for k
    using sh(2) [of k] by (auto simp: register_teardown_def nth_append)
  ultimately show ?thesis
    using ok sh(1) assms(2) by (simp add: viewing_inv_def) (simp add: register_teardown_def)
qed

lemma launch_inv:
  assumes "viewing_inv s" "\<not> exited s" "world_ok w" "handles w = inode j # handles (vw s)"
  shows "viewing_inv (s\<lparr>vw := w, launching := j # launching s\<rparr>)"
  using assms by (simp add: viewing_inv_def live_jobs_def slot_full_def)

lemma launch_failed_inv:
  assumes "viewing_inv s" "\<not> exited s" "world_ok w" "handles w = handles (vw s)"
  shows "viewing_inv (s\<lparr>vw := w\<rparr>)"
  using assms by (simp add: viewing_inv_def live_jobs_def slot_full_def)

lemma vstep_inv:
  assumes "vstep io s s'" "viewing_inv s" "\<And>j. shred_io_ok (io j)"
  shows "viewing_inv s'"
proof -
  from assms(2) have ok: "world_ok (vw s)" by (simp add: viewing_inv_def)
  from assms(1) show ?thesis
  proof cases
    case (open_gui la D data filename w j cmd)
    with launch_inv [OF assms(2)] open_in_viewer_ok [OF ok] show ?thesis by metis
  next
    case (open_gui_fails la D data filename w e)
    with launch_failed_inv [OF assms(2)] open_in_viewer_failed [OF ok] show ?thesis by metis
  next
    case (open_cli la os memfd w j args)
    with launch_inv [OF assms(2)] execute_viewer_ok [OF ok] show ?thesis by metis
  next
    case (open_cli_fails la os memfd w e)
    with launch_failed_inv [OF assms(2)] execute_viewer_failed [OF ok] show ?thesis by metis
  next
    case (register j)
    with register_inv [OF assms(2)] show ?thesis by simp
  next
    case (viewer_closed i)
    with claim_inv(1) [OF assms(2)] shred_on_ok(1,2) [OF assms(3)] show ?thesis by simp
  next
    case interrupt
    with assms(2) show ?thesis by (auto simp: viewing_inv_def drain_registry_def slot_full_def live_jobs_def)
  next
    case (interrupt_claims i "is")
    let ?t = "claim (\<lambda>j. shred_on_signal (io j) j) i s"
    have c: "viewing_inv ?t" "\<not> slot_full ?t i" "draining ?t = draining s" "\<not> exited ?t"
      using claim_inv [OF assms(2) interrupt_claims(2)] shred_on_ok(3,4) [OF assms(3)] by simp_all
    with interrupt_claims show ?thesis
      by (auto simp: viewing_inv_def live_jobs_def slot_full_def)
  next
    case exit_130
    with assms(2) show ?thesis by (auto simp: viewing_inv_def slot_full_def live_jobs_def)
  qed
qed

lemma viewing_inv_start: "viewing_inv viewing_start"
  by (simp add: viewing_inv_def viewing_start_def world_ok_def live_jobs_def slot_full_def map_filter_def)

lemma reachable_inv:
  assumes "(vstep io)\<^sup>*\<^sup>* viewing_start s" "\<And>j. shred_io_ok (io j)"
  shows "viewing_inv s"
  using assms(1) by (induction rule: rtranclp_induct) (auto intro: vstep_inv [OF _ _ assms(2)] viewing_inv_start)

subsection \<open>Staged names\<close>

text \<open>A staged file that still has its name belongs to a viewer that is still to be claimed.\<close>

definition names_owned :: "viewing \<Rightarrow> bool" where
  "names_owned s \<longleftrightarrow> (\<forall>p. names (vw s) p \<noteq> None \<longrightarrow> (\<exists>j \<in> set (live_jobs s). job_path j = Some p))"

lemma names_shred:
  assumes "shred_io_ok io"
  shows "names (shred_on_close io j w) = (case job_path j of None \<Rightarrow> names w | Some p \<Rightarrow> (names w)(p := None))"
    "names (shred_on_signal io j w) = (case job_path j of None \<Rightarrow> names w | Some p \<Rightarrow> (names w)(p := None))"
  using assms
  by (auto simp: shred_on_close_def shred_on_signal_def shred_tmpfs_job_def complete_shred_job_def shred_io_ok_def Let_def
      split: option.splits)

lemma names_open:
  assumes "open_in_viewer D la data filename w = (w', Inr (j, cmd))"
  shows "\<exists>p n. job_path j = Some p \<and> names w' = (names w)(p \<mapsto> n)"
  using assms
  by (auto simp: open_in_viewer_def open_truncate_def Let_def split: if_splits sum.splits option.splits)

lemma names_open_failed:
  assumes "open_in_viewer D la data filename w = (w', Inl e)"
    "la_written la = None" "la_sync_ok la" "la_remove_ok la" "shred_io_ok (la_io la)"
  shows "names w' q = names w q \<or> names w' q = None"
  using assms
  by (auto simp: open_in_viewer_def open_truncate_def shred_tmpfs_job_def shred_io_ok_def Let_def
      split: if_splits sum.splits option.splits)

lemma names_execute: "execute_viewer la os memfd w = (w', r) \<Longrightarrow> names w' = names w"
  by (auto simp: execute_viewer_def Let_def split: if_splits sum.splits)

lemma claim_names:
  assumes "names_owned s"
    and "\<And>j w. names (shred j w) = (case job_path j of None \<Rightarrow> names w | Some p \<Rightarrow> (names w)(p := None))"
  shows "names_owned (claim shred i s)"
proof (cases "slot_full s i")
  case True
  then obtain j where i: "i < length (slots s)" "slots s ! i = Some j" by (auto simp: slot_full_def)
  let ?s = "claim shred i s"
  have s: "vw ?s = shred j (vw s)" "slots ?s = (slots s)[i := None]" "launching ?s = launching s"
    using True i by (simp_all add: claim_def)
  have "set (List.map_filter id (slots s)) = insert j (set (List.map_filter id ((slots s)[i := None])))"
    using occupied_update [OF i] by (metis set_mset_add_mset_insert set_mset_mset)
  then have l: "set (live_jobs s) = insert j (set (live_jobs ?s))" unfolding live_jobs_def s by auto
  show ?thesis unfolding names_owned_def
  proof (intro allI impI)
    fix p assume p: "names (vw ?s) p \<noteq> None"
    then have "names (vw s) p \<noteq> None" "job_path j \<noteq> Some p"
      unfolding s assms(2) by (auto split: option.splits if_splits)
    with assms(1) l show "\<exists>j \<in> set (live_jobs ?s). job_path j = Some p" unfolding names_owned_def by auto
  qed
qed (use assms(1) in \<open>simp add: claim_def\<close>)

lemma vstep_names:
  assumes "vstep io s s'" "names_owned s" "\<And>j. shred_io_ok (io j)"
  shows "names_owned s'"
  using assms(1)
proof cases
  case (open_gui la D data filename w j cmd)
  obtain p n where p: "job_path j = Some p" "names w = (names (vw s))(p \<mapsto> n)" using names_open [OF open_gui(4)] by blast
  show ?thesis unfolding names_owned_def
  proof (intro allI impI)
    fix q assume "names (vw s') q \<noteq> None"
    with open_gui(1) p have "q = p \<or> names (vw s) q \<noteq> None" by (auto split: if_splits)
    with open_gui(1) p(1) assms(2) show "\<exists>j \<in> set (live_jobs s'). job_path j = Some q"
      unfolding names_owned_def live_jobs_def by auto
  qed
next
  case (open_gui_fails la D data filename w e)
  have "names w q \<noteq> None \<Longrightarrow> names (vw s) q \<noteq> None" for q
    using names_open_failed [OF open_gui_fails(8,4-7), of q] by auto
  with open_gui_fails(1) assms(2) show ?thesis by (auto simp: names_owned_def live_jobs_def)
next
  case (register j)
  have "set (launching s) = insert j (set (remove1 j (launching s)))"
    using register(3) by (metis insert_absorb mset_remove1 set_mset_mset insert_DiffM set_mset_add_mset_insert in_multiset_in_set)
  then have "set (live_jobs s') = set (live_jobs s)"
    unfolding register(1) by (auto simp: live_jobs_def register_teardown_def map_filter_def)
  with assms(2) register(1) show ?thesis by (simp add: names_owned_def register_teardown_def)
next
  case (viewer_closed i)
  with claim_names [OF assms(2)] names_shred(1) [OF assms(3)] show ?thesis by simp
next
  case (interrupt_claims i "is")
  have "names_owned (claim (\<lambda>j. shred_on_signal (io j) j) i s)"
    using claim_names [OF assms(2)] names_shred(2) [OF assms(3)] by simp
  with interrupt_claims(1) show ?thesis by (simp add: names_owned_def live_jobs_def)
qed (use assms(2) names_execute in \<open>auto simp: names_owned_def live_jobs_def drain_registry_def dest!: names_execute\<close>)

lemma reachable_names:
  assumes "(vstep io)\<^sup>*\<^sup>* viewing_start s" "\<And>j. shred_io_ok (io j)"
  shows "names_owned s"
  using assms(1)
proof (induction rule: rtranclp_induct)
  case base
  then show ?case by (simp add: names_owned_def viewing_start_def)
qed (use vstep_names assms(2) in blast)

end
