(* ===== verification/Broker.thy ===== *)
theory Broker
  imports Viewer
begin

text \<open>
  The file broker of the graphical interface (\<open>atom/src/gui/broker.rs\<close>): reading and writing one
  file in a thread that confines itself first, the queue of requests, and the wait for a viewer to
  let go of its file.
\<close>

section \<open>Reading and writing one file\<close>

definition read_with_sandbox :: "landlock \<Rightarrow> os \<Rightarrow> string \<Rightarrow> host \<Rightarrow> string + bytes" where
  "read_with_sandbox K os path h =
     bindE (map_err (\<lambda>e. ''[Broker] Sandbox error: '' @ e) (apply_process_sandbox K os [path] [])) (\<lambda>rules.
     ok_or ''[Broker] Read failed''
       (case canonicalize h path of
          None \<Rightarrow> None
        | Some p \<Rightarrow> if kernel_allows K rules p ReadFile then disk h p else None))"

record write_io =
  wr_written :: "nat option"
  wr_sync_ok :: bool

definition write_with_sandbox ::
    "landlock \<Rightarrow> os \<Rightarrow> write_io \<Rightarrow> string \<Rightarrow> bytes \<Rightarrow> host \<Rightarrow> host \<times> (string + unit)" where
  "write_with_sandbox K os io path data h =
     (case apply_process_sandbox K os [] [effective_path os path] of
        Inl e \<Rightarrow> (h, Inl (''[Broker] Sandbox error: '' @ e))
      | Inr rules \<Rightarrow>
          let p = resolve_target h path in
          if \<not> (creatable h p \<and> kernel_allows K rules p WriteFile \<and> kernel_allows K rules p Truncate \<and>
                 (disk h p \<noteq> None \<or> kernel_allows K rules (butlast p) MakeReg))
          then (h, Inl ''[Broker] Create failed'')
          else (case wr_written io of
                  Some k \<Rightarrow> (h\<lparr>disk := (disk h)(p \<mapsto> take k data)\<rparr>, Inl ''[Broker] Write failed'')
                | None \<Rightarrow>
                    (h\<lparr>disk := (disk h)(p \<mapsto> data)\<rparr>,
                     if wr_sync_ok io then Inr () else Inl ''[Broker] Sync failed'')))"

lemma read_with_sandbox_Inr:
  assumes "read_with_sandbox K os path h = Inr d"
  obtains rules p where "apply_process_sandbox K os [path] [] = Inr rules" "canonicalize h path = Some p"
    "disk h p = Some d" "kernel_allows K rules p ReadFile"
  using assms by (auto simp: read_with_sandbox_def result_simps split: option.splits if_splits)

lemma read_with_sandbox_reads:
  assumes "landlock_ok K" "apply_process_sandbox K os [path] [] = Inr rules"
    "os_metadata os path = Some k" "os_path_fd os path = Some p" "canonicalize h path = Some p" "disk h p = Some d"
  shows "read_with_sandbox K os path h = Inr d"
proof -
  have "(p, if k = IsDir then [ReadFile, ReadDir, Execute] else [ReadFile, Execute]) \<in> set rules"
    unfolding apply_sandbox_Inr(2) [OF assms(2)] using assms(3,4) by (auto simp: rule_from_def)
  then have "\<exists>q rs. (q, rs) \<in> set rules \<and> path_starts_with p q \<and> ReadFile \<in> set rs"
    by (intro exI [of _ p] exI [of _ "if k = IsDir then [ReadFile, ReadDir, Execute] else [ReadFile, Execute]"])
      (simp add: path_starts_with_def)
  with assms(1) have "kernel_allows K rules p ReadFile" unfolding landlock_ok_def by blast
  with assms(2,5,6) show ?thesis by (simp add: read_with_sandbox_def)
qed

lemma write_with_sandbox_effect:
  assumes "write_with_sandbox K os io path data h = (h', r)"
  shows "(\<forall>q. q \<noteq> resolve_target h path \<longrightarrow> disk h' q = disk h q) \<and>
         (r = Inr () \<longrightarrow> disk h' (resolve_target h path) = Some data)"
  using assms by (auto simp: write_with_sandbox_def Let_def split: sum.splits if_splits option.splits)

lemma write_with_sandbox_confined:
  assumes "landlock_ok K" "write_with_sandbox K os io path data h = (h', r)" "disk h' \<noteq> disk h"
  shows "\<exists>q. os_path_fd os (effective_path os path) = Some q \<and> path_starts_with (resolve_target h path) q"
proof -
  from assms(2,3) obtain rules where r: "apply_process_sandbox K os [] [effective_path os path] = Inr rules"
    "kernel_allows K rules (resolve_target h path) WriteFile"
    by (auto simp: write_with_sandbox_def Let_def split: sum.splits if_splits option.splits)
  from sandbox_confines [OF assms(1) r] show ?thesis by (auto simp: confined_to_def)
qed

section \<open>The queue of requests\<close>

text \<open>
  A request carries the cell its answer goes to. The broker thread takes requests in order and gives
  each to a thread of its own, which ends by filling its cell.
\<close>

datatype BrokerRequest =
    ReadRequest string nat
  | WriteRequest string bytes nat
  | OpenViewerRequest bytes string nat

datatype answer =
    ReadAnswer "string + bytes"
  | WriteAnswer "string + unit"
  | OpenAnswer "string + unit"

fun request_cell :: "BrokerRequest \<Rightarrow> nat" where
  "request_cell (ReadRequest p c) = c"
| "request_cell (WriteRequest p d c) = c"
| "request_cell (OpenViewerRequest d f c) = c"

record broker =
  br_queue :: "BrokerRequest list"
  br_running :: "BrokerRequest list"
  br_cells :: "nat \<rightharpoonup> answer"
  br_host :: host
  br_viewing :: viewing

text \<open>\<open>FileBroker::read_file\<close> and its siblings: a fresh, empty cell, and the request at the end of the queue.\<close>

definition send_request :: "BrokerRequest \<Rightarrow> broker \<Rightarrow> broker" where
  "send_request req b = b\<lparr>br_queue := br_queue b @ [req], br_cells := (br_cells b)(request_cell req := None)\<rparr>"

record broker_env =
  be_landlock :: landlock
  be_os :: os
  be_io :: write_io
  be_desktop :: desktop_env
  be_launch :: launch

definition handle_request :: "broker_env \<Rightarrow> BrokerRequest \<Rightarrow> broker \<Rightarrow> broker" where
  "handle_request E req b =
     (case req of
        ReadRequest path c \<Rightarrow>
          b\<lparr>br_cells := (br_cells b)(c \<mapsto> ReadAnswer (read_with_sandbox (be_landlock E) (be_os E) path (br_host b)))\<rparr>
      | WriteRequest path data c \<Rightarrow>
          let (h, out) = write_with_sandbox (be_landlock E) (be_os E) (be_io E) path data (br_host b)
          in b\<lparr>br_host := h, br_cells := (br_cells b)(c \<mapsto> WriteAnswer out)\<rparr>
      | OpenViewerRequest data filename c \<Rightarrow>
          let v = br_viewing b in
          (case open_in_viewer (be_desktop E) (be_launch E) data filename (vw v) of
             (w, Inl e) \<Rightarrow> b\<lparr>br_viewing := v\<lparr>vw := w\<rparr>, br_cells := (br_cells b)(c \<mapsto> OpenAnswer (Inl e))\<rparr>
           | (w, Inr (j, cmd)) \<Rightarrow>
               b\<lparr>br_viewing := register_teardown j (v\<lparr>vw := w, launching := j # launching v\<rparr>),
                 br_cells := (br_cells b)(c \<mapsto> OpenAnswer (Inr ()))\<rparr>))"

text \<open>
  Sending, taking from the queue and finishing. Every thread finishes its request: one that panics, which would leave its
  cell empty, is not modelled.
\<close>

inductive broker_step :: "broker \<Rightarrow> broker \<Rightarrow> bool" where
  send: "request_cell req \<notin> dom (br_cells b) \<union> request_cell ` set (br_queue b @ br_running b) \<Longrightarrow>
    broker_step b (send_request req b)"
| dispatch: "br_queue b = req # rest \<Longrightarrow>
    broker_step b (b\<lparr>br_queue := rest, br_running := br_running b @ [req]\<rparr>)"
| finish: "req \<in> set (br_running b) \<Longrightarrow>
    broker_step b ((handle_request E req b)\<lparr>br_running := remove1 req (br_running b)\<rparr>)"

definition broker_start :: "host \<Rightarrow> broker" where
  "broker_start h =
     \<lparr>br_queue = [], br_running = [], br_cells = Map.empty, br_host = h, br_viewing = viewing_start\<rparr>"

text \<open>No cell is filled while its request is waiting, and no two requests share a cell.\<close>

definition broker_inv :: "broker \<Rightarrow> bool" where
  "broker_inv b \<longleftrightarrow>
     distinct (map request_cell (br_queue b @ br_running b)) \<and>
     (\<forall>req \<in> set (br_queue b @ br_running b). br_cells b (request_cell req) = None)"

lemma handle_request_cells:
  "br_queue (handle_request E req b) = br_queue b" "br_running (handle_request E req b) = br_running b"
  "\<exists>a. br_cells (handle_request E req b) = (br_cells b)(request_cell req \<mapsto> a)"
  by (auto simp: handle_request_def Let_def split: BrokerRequest.splits prod.splits sum.splits)

lemma broker_step_inv:
  assumes "broker_step b b'" "broker_inv b"
  shows "broker_inv b'"
  using assms(1)
proof cases
  case (send req)
  with assms(2) show ?thesis by (auto simp: broker_inv_def send_request_def)
next
  case (dispatch req rest)
  with assms(2) show ?thesis by (auto simp: broker_inv_def)
next
  case (finish req E)
  obtain a where a: "br_cells (handle_request E req b) = (br_cells b)(request_cell req \<mapsto> a)"
    using handle_request_cells(3) by blast
  from assms(2) have d: "distinct (map request_cell (br_queue b @ br_running b))"
    and n: "\<And>r. r \<in> set (br_queue b @ br_running b) \<Longrightarrow> br_cells b (request_cell r) = None"
    by (auto simp: broker_inv_def)
  have rem: "set (remove1 req (br_running b)) = set (br_running b) - {req}"
    using d by (intro set_remove1_eq) (auto simp: distinct_map)
  have d': "distinct (map request_cell (br_queue b @ remove1 req (br_running b)))"
    using d rem by (auto simp: distinct_map inj_on_def)
  have "request_cell r \<noteq> request_cell req" if "r \<in> set (br_queue b @ remove1 req (br_running b))" for r
    using that d finish(2) rem by (auto simp: distinct_map inj_on_def)
  with d' n a rem finish(1) show ?thesis by (auto simp: broker_inv_def handle_request_cells)
qed

section \<open>Waiting for the viewer\<close>

text \<open>
  What \<open>is_file_open\<close> sees: for every process the targets of its descriptors, if they can be listed
  and read.
\<close>

type_synonym proc_snapshot = "string option list option list option"

definition is_file_open :: "proc_snapshot \<Rightarrow> string \<Rightarrow> bool" where
  "is_file_open procs path \<longleftrightarrow>
     (case procs of None \<Rightarrow> False | Some ps \<Rightarrow> \<exists>fds. Some fds \<in> set ps \<and> Some path \<in> set fds)"

definition HANDOFF_SETTLE :: nat where "HANDOFF_SETTLE = 3000"

text \<open>
  The two loops of \<open>wait_for_viewer_exit\<close> after the child has ended: \<open>clock i\<close> is the time in
  milliseconds at iteration \<open>i\<close> and \<open>look i\<close> what is seen then. The fuel bounds the iterations; no
  result means that the loop is still running.
\<close>

fun settle :: "nat \<Rightarrow> (nat \<Rightarrow> nat) \<Rightarrow> (nat \<Rightarrow> proc_snapshot) \<Rightarrow> string \<Rightarrow> nat \<Rightarrow> (bool \<times> nat) option" where
  "settle 0 clock look path i = None"
| "settle (Suc fuel) clock look path i =
     (if clock i < HANDOFF_SETTLE then
        (if is_file_open (look i) path then Some (True, Suc i) else settle fuel clock look path (Suc i))
      else Some (False, i))"

fun await_release :: "nat \<Rightarrow> (nat \<Rightarrow> proc_snapshot) \<Rightarrow> string \<Rightarrow> nat \<Rightarrow> nat option" where
  "await_release 0 look path i = None"
| "await_release (Suc fuel) look path i =
     (if \<not> is_file_open (look i) path then Some i else await_release fuel look path (Suc i))"

definition wait_for_viewer_exit ::
    "nat \<Rightarrow> (nat \<Rightarrow> nat) \<Rightarrow> (nat \<Rightarrow> proc_snapshot) \<Rightarrow> string \<Rightarrow> nat option" where
  "wait_for_viewer_exit fuel clock look path =
     (case settle fuel clock look path 0 of
        None \<Rightarrow> None
      | Some (False, i) \<Rightarrow> Some i
      | Some (True, i) \<Rightarrow> await_release fuel look path i)"

lemma settle_ends:
  assumes "clock (i + k) \<ge> HANDOFF_SETTLE"
  shows "\<exists>b j. settle (Suc k) clock look path i = Some (b, j) \<and> (b \<longrightarrow> j \<le> i + k)"
  using assms
proof (induction k arbitrary: i)
  case (Suc k)
  then have "clock (Suc i + k) \<ge> HANDOFF_SETTLE" by simp
  from Suc.IH [OF this] show ?case by auto
qed (auto intro: exI [of _ False])

lemma settle_more: "settle f clock look path i = Some r \<Longrightarrow> f \<le> f' \<Longrightarrow> settle f' clock look path i = Some r"
proof (induction f arbitrary: f' i)
  case (Suc f)
  then obtain g where "f' = Suc g" "f \<le> g" by (cases f') auto
  with Suc show ?case by (auto split: if_splits)
qed simp

lemma await_release_ends:
  assumes "\<not> is_file_open (look (i + k)) path" "k < fuel"
  shows "\<exists>j. await_release fuel look path i = Some j"
  using assms
proof (induction fuel arbitrary: i k)
  case (Suc fuel)
  show ?case
  proof (cases "is_file_open (look i) path")
    case True
    with Suc.prems obtain k' where "k = Suc k'" by (cases k) auto
    with Suc.prems Suc.IH [of "Suc i" k'] True show ?thesis by simp
  qed simp
qed simp

lemma wait_ends:
  assumes "clock m \<ge> HANDOFF_SETTLE" "\<And>i. m \<le> i \<Longrightarrow> \<not> is_file_open (look i) path"
  shows "\<exists>i. wait_for_viewer_exit (Suc m) clock look path = Some i"
proof -
  obtain b j where s: "settle (Suc m) clock look path 0 = Some (b, j)" "b \<Longrightarrow> j \<le> m"
    using settle_ends [of clock 0 m look path] assms(1) by auto
  show ?thesis
  proof (cases b)
    case True
    with s(2) have "\<not> is_file_open (look (j + (m - j))) path" using assms(2) [of m] by simp
    with await_release_ends [of look j "m - j" path "Suc m"] s True show ?thesis by (auto simp: wait_for_viewer_exit_def)
  qed (use s in \<open>simp add: wait_for_viewer_exit_def\<close>)
qed

lemma await_release_held: "(\<And>i. is_file_open (look i) path) \<Longrightarrow> await_release fuel look path i = None"
  by (induction fuel arbitrary: i) auto

lemma wait_held:
  assumes "clock 0 < HANDOFF_SETTLE" "\<And>i. is_file_open (look i) path"
  shows "wait_for_viewer_exit fuel clock look path = None"
  using assms await_release_held [of look path]
  by (cases fuel) (simp_all add: wait_for_viewer_exit_def)

end
