(* ===== verification/ProcessTheorems.thy ===== *)
theory ProcessTheorems
  imports VaultTheorems Enter Broker
begin

text \<open>
  The properties of the confined process: the shell of an entered vault, the cages of bubblewrap,
  the viewers and the file broker.
\<close>

section \<open>A concrete kernel and host\<close>

definition demo_landlock :: landlock where
  "demo_landlock =
     \<lparr>from_all = [Execute, WriteFile, ReadFile, ReadDir, RemoveDir, RemoveFile, MakeDir, MakeReg, Truncate],
      from_file = [Execute, WriteFile, ReadFile, Truncate],
      handle_access = (\<lambda>_. True), log_new_exec = True, accepts_rule = (\<lambda>_. True),
      restrict_self = (\<lambda>_. Some FullyEnforced),
      kernel_allows = (\<lambda>rules p a. \<exists>(q, rs) \<in> set rules. path_starts_with p q \<and> a \<in> set rs)\<rparr>"

lemma demo_landlock_ok: "landlock_ok demo_landlock"
  by (auto simp: landlock_ok_def demo_landlock_def file_rights_def)

text \<open>A host with \<open>/usr\<close>, a vault in the home directory and the staging directory.\<close>

definition demo_os :: os where
  "demo_os =
     \<lparr>os_var = [''XDG_RUNTIME_DIR'' \<mapsto> ''/run'', ''HOME'' \<mapsto> ''/home/u''], os_home_dir = Some ''/home/u'',
      os_metadata = [''/usr'' \<mapsto> IsDir, ''/home/u/v'' \<mapsto> IsOther, ''/run/atom_staging'' \<mapsto> IsDir],
      os_path_fd = [''/usr'' \<mapsto> [''usr''], ''/home/u/v'' \<mapsto> [''home'', ''u'', ''v''],
                    ''/run/atom_staging'' \<mapsto> [''run'', ''atom_staging'']],
      os_is_symlink = (\<lambda>_. Some False)\<rparr>"

definition demo_rules :: "rule list" where
  "demo_rules =
     [([''usr''], [ReadFile, ReadDir, Execute]),
      ([''home'', ''u'', ''v''], from_file demo_landlock),
      ([''run'', ''atom_staging''], from_all demo_landlock)]"

lemma demo_staging: "enter_staging demo_os = ''/run/atom_staging''"
  by (simp add: enter_staging_def demo_os_def)

lemma demo_sandboxed:
  "apply_process_sandbox demo_landlock demo_os [''/usr'', ''/etc''] [''/home/u/v'', enter_staging demo_os] = Inr demo_rules"
  by (simp add: apply_process_sandbox_def demo_staging demo_rules_def) (simp add: demo_landlock_def demo_os_def)

definition demo_tty :: tty where
  "demo_tty = \<lparr>tty_open_ok = True, tcgetattr_ok = True, noecho_ok = True, tty_mlock_ok = True, prompt_ok = True,
     typed = str_bytes ''pw'' @ [10], newline_ok = True, restore_ok = True\<rparr>"

lemma demo_password: "snd (read_password_pinentry demo_tty) = Inr ''pw''"
proof -
  have "utf8_valid (take 128 (str_bytes ''pw''))" by (rule utf8_valid_ascii) (simp add: str_bytes_def)
  then have "snd (read_password_pinentry demo_tty) = Inr (bytes_str (take 128 (str_bytes ''pw'')))"
    by (intro pinentry_reads [where e = 10 and rest = "[]"])
      (simp_all add: demo_tty_def ends_line_def str_bytes_def)
  also have "take 128 (str_bytes ''pw'') = str_bytes ''pw''" by simp
  finally show ?thesis by simp
qed

definition demo_entry :: "File \<Rightarrow> string list \<Rightarrow> entry" where
  "demo_entry f ls = \<lparr>en_vault = Some f, en_flush_ok = True, en_tty = demo_tty, en_rand = (\<lambda>_. 0), en_host = demo_host,
     en_env = demo_env, en_lines = ls, en_tmp = [''home'', ''u'', ''v.tmp''], en_sync_ok = True\<rparr>"

section \<open>Entering a vault\<close>



text \<open>Inside that confinement the \<open>vacuum\<close> command never runs: its temporary file beside the
  vault cannot be made, the command reports so, and the session is as before.\<close>

theorem vacuum_fails_when_confined:
  assumes "landlock_ok K" "apply_process_sandbox K os [''/usr'', ''/etc''] [vault_path, enter_staging os] = Inr rules"
    and "os_metadata os vault_path = Some IsOther"
    and "\<And>q. os_path_fd os (enter_staging os) = Some q \<Longrightarrow> \<not> path_starts_with (butlast tmp) q"
  shows "shell_dispatch L uv (confine_env K rules tmp env) [''vacuum''] rest st = Some (0, st, [Failure TempFile])"
  using vacuum_denied [OF assms]
  by (simp add: shell_dispatch_def shell_vacuum_def handle_vacuum_def with_outcome_def Let_def)

theorem vacuum_fails_when_confined_witness:
  "shell_dispatch demo_lib demo_uv (confine_env demo_landlock demo_rules [''home'', ''u'', ''v.tmp''] demo_env) [''vacuum''] []
     \<lparr>sess = demo_session, hst = demo_host\<rparr> =
   Some (0, \<lparr>sess = demo_session, hst = demo_host\<rparr>, [Failure TempFile])"
  by (rule vacuum_fails_when_confined [OF demo_landlock_ok demo_sandboxed])
    (simp_all add: demo_staging, simp_all add: demo_os_def path_starts_with_def)

section \<open>The cages\<close>

lemma mem_ops:
  "x \<in> set (when_op b y) \<longleftrightarrow> b \<and> x = y"
  "x \<in> set (sock_ops os f dbus_addr) \<longleftrightarrow> (\<exists>p. extract_dbus_socket_path dbus_addr = Some p \<and> os_exists os p \<and> x = f p p)"
  by (simp, cases "extract_dbus_socket_path dbus_addr") (auto simp: sock_ops_def)

lemma mem_binds:
  "RoBind s d \<in> {RoBind p p | p. Q p} \<longleftrightarrow> d = s \<and> Q s" "Bind s d \<in> {Bind p p | p. Q p} \<longleftrightarrow> d = s \<and> Q s"
  "DevBind s d \<in> {DevBind p p | p. Q p} \<longleftrightarrow> d = s \<and> Q s"
  by auto

lemmas viewer_mem = viewer_ops_def lib_ops_def Let_def set_append Un_iff mem_Collect_eq mem_ops set_simps insert_iff

lemma same_places:
  "(E u \<and> s = u \<and> d = u \<or> E e \<and> s = e \<and> d = e \<or> E y \<and> s = y \<and> d = y \<or> (R l \<and> s = l \<and> d = l \<or> R m \<and> s = m \<and> d = m) \<or>
    E v \<and> s = v \<and> d = v \<or> E w \<and> s = w \<and> d = w) \<longleftrightarrow>
   (s \<in> {u, e, y, v, w} \<and> E s \<or> s \<in> {l, m} \<and> R s) \<and> d = s"
  by blast

lemma viewer_binds:
  "RoBind s d \<in> {x \<in> set (viewer_ops os fd xdg_runtime wayland_display hm dbus_addr). is_mount x} \<longleftrightarrow>
     (s \<in> {''/usr'', ''/etc'', ''/sys'', ''/var/lib/flatpak'', hm @ ''/.local/share/flatpak''} \<and> os_exists os s \<or>
      s \<in> {''/lib'', ''/lib64''} \<and> real_dir os s) \<and> d = s"
  "Bind s d \<in> {x \<in> set (viewer_ops os fd xdg_runtime wayland_display hm dbus_addr). is_mount x} \<longleftrightarrow>
     d = s \<and> (s = xdg_runtime \<or> extract_dbus_socket_path dbus_addr = Some s) \<and> os_exists os s"
  "DevBind s d \<in> {x \<in> set (viewer_ops os fd xdg_runtime wayland_display hm dbus_addr). is_mount x} \<longleftrightarrow>
     d = s \<and> s = ''/dev/fuse'' \<and> os_exists os s"
    unfolding viewer_mem
    by (simp_all only: bwrap_op.simps simp_thms is_mount.simps empty_iff)
      (rule same_places [unfolded insert_iff empty_iff simp_thms], blast+)

lemma viewer_mounts:
  "{x \<in> set (viewer_ops os fd xdg_runtime wayland_display hm dbus_addr). is_mount x} =
      {ProcFs ''/proc'', DevFs ''/dev'', Tmpfs ''/tmp'', FileFrom (nat_digits fd) ''/tmp/document.pdf''} \<union>
      {RoBind p p | p. p \<in> {''/usr'', ''/etc'', ''/sys'', ''/var/lib/flatpak'', hm @ ''/.local/share/flatpak''} \<and> os_exists os p} \<union>
      {RoBind p p | p. p \<in> {''/lib'', ''/lib64''} \<and> real_dir os p} \<union>
      {DevBind p p | p. p = ''/dev/fuse'' \<and> os_exists os p} \<union>
      {Bind p p | p. (p = xdg_runtime \<or> extract_dbus_socket_path dbus_addr = Some p) \<and> os_exists os p}" (is "?L = ?R")
proof (rule set_eqI)
  fix x
  show "x \<in> ?L \<longleftrightarrow> x \<in> ?R"
  proof (cases x)
    case (RoBind s d)
    have "x \<in> ?R \<longleftrightarrow> RoBind s d \<in> {RoBind p p | p. p \<in> {''/usr'', ''/etc'', ''/sys'', ''/var/lib/flatpak'', hm @ ''/.local/share/flatpak''} \<and>
        os_exists os p} \<or> RoBind s d \<in> {RoBind p p | p. p \<in> {''/lib'', ''/lib64''} \<and> real_dir os p}"
      unfolding RoBind by simp
    then show ?thesis unfolding RoBind viewer_binds mem_binds by argo
  next
    case (Bind s d)
    have "x \<in> ?R \<longleftrightarrow> Bind s d \<in> {Bind p p | p. (p = xdg_runtime \<or> extract_dbus_socket_path dbus_addr = Some p) \<and> os_exists os p}"
      unfolding Bind by simp
    then show ?thesis unfolding Bind viewer_binds mem_binds by argo
  next
    case (DevBind s d)
    have "x \<in> ?R \<longleftrightarrow> DevBind s d \<in> {DevBind p p | p. p = ''/dev/fuse'' \<and> os_exists os p}"
      unfolding DevBind by simp
    then show ?thesis unfolding DevBind viewer_binds mem_binds by argo
  qed (simp_all only: viewer_mem bwrap_op.simps simp_thms is_mount.simps empty_iff)
qed

lemma viewer_document:
  "\<exists>before after. viewer_ops os fd xdg_runtime wayland_display hm dbus_addr =
     before @ Tmpfs ''/tmp'' # FileFrom (nat_digits fd) ''/tmp/document.pdf'' # after"
  by (rule exI [of _ "[UnshareUser, UnshareIpc, UnshareNet, UnshareUts, DieWithParent, NewSession, ClearEnv,
         SetEnv ''WAYLAND_DISPLAY'' wayland_display, SetEnv ''XDG_RUNTIME_DIR'' xdg_runtime, SetEnv ''HOME'' hm] @
       when_op (dbus_addr \<noteq> []) (SetEnv ''DBUS_SESSION_BUS_ADDRESS'' dbus_addr) @ [ProcFs ''/proc'', DevFs ''/dev''] @
       when_op (os_exists os ''/dev/fuse'') (DevBind ''/dev/fuse'' ''/dev/fuse'')"])
    (simp add: viewer_ops_def Let_def)


text \<open>A reading of the options that are used, as bubblewrap documents them.\<close>

definition one_arg :: "string \<Rightarrow> (string \<Rightarrow> bwrap_op) option" where
  "one_arg x = (if x = ''--proc'' then Some ProcFs else if x = ''--dev'' then Some DevFs
     else if x = ''--tmpfs'' then Some Tmpfs else None)"

definition two_args :: "string \<Rightarrow> (string \<Rightarrow> string \<Rightarrow> bwrap_op) option" where
  "two_args x = (if x = ''--ro-bind'' then Some RoBind else if x = ''--ro-bind-try'' then Some RoBindTry
     else if x = ''--bind'' then Some Bind else if x = ''--bind-try'' then Some BindTry
     else if x = ''--dev-bind'' then Some DevBind else if x = ''--file'' then Some FileFrom
     else if x = ''--setenv'' then Some SetEnv else None)"

definition no_arg :: "string \<Rightarrow> bwrap_op option" where
  "no_arg x = (if x = ''--clearenv'' then Some ClearEnv else if x = ''--unshare-user'' then Some UnshareUser
     else if x = ''--unshare-ipc'' then Some UnshareIpc else if x = ''--unshare-net'' then Some UnshareNet
     else if x = ''--unshare-uts'' then Some UnshareUts else if x = ''--new-session'' then Some NewSession
     else if x = ''--die-with-parent'' then Some DieWithParent else None)"

fun demo_bwrap :: "string list \<Rightarrow> (bwrap_op list \<times> string list) option" where
  "demo_bwrap [] = None"
| "demo_bwrap (x # xs) =
     (if x = ''--'' then Some ([], xs)
      else case no_arg x of Some f \<Rightarrow> map_option (\<lambda>(ops, c). (f # ops, c)) (demo_bwrap xs)
      | None \<Rightarrow> (case xs of [] \<Rightarrow> None
        | y # ys \<Rightarrow> (case one_arg x of Some f \<Rightarrow> map_option (\<lambda>(ops, c). (f y # ops, c)) (demo_bwrap ys)
          | None \<Rightarrow> (case ys of [] \<Rightarrow> None
            | z # zs \<Rightarrow> (case two_args x of Some f \<Rightarrow> map_option (\<lambda>(ops, c). (f y z # ops, c)) (demo_bwrap zs)
              | None \<Rightarrow> None)))))"

lemma demo_bwrap_ok: "bwrap_ok demo_bwrap"
proof -
  have "demo_bwrap (render_op x @ rest) = map_option (\<lambda>(ops, c). (x # ops, c)) (demo_bwrap rest)" for x rest
    by (cases x) (simp_all add: no_arg_def one_arg_def two_args_def)
  then show ?thesis by (simp add: bwrap_ok_def)
qed


text \<open>The program re-executes itself at most once: the command bubblewrap runs is the same
  executable with the same arguments, and in the environment it is given
  \<open>try_bwrap_self_sandbox\<close> returns at once. The system directories are bound read-only.\<close>

theorem self_cage_is_entered_once:
  assumes "bwrap_ok parse" "try_bwrap_self_sandbox os avail exe ok argv = (dirs, Caged args)"
  shows "\<exists>ops x. exe = Some x \<and> parse args = Some (ops, x # drop 1 argv) \<and>
    {RoBindTry ''/usr'' ''/usr'', RoBindTry ''/etc'' ''/etc'', Tmpfs ''/tmp''} \<subseteq> set ops \<and>
    try_bwrap_self_sandbox (os\<lparr>os_var := cage_env ops (os_var os)\<rparr>) avail' exe' ok' argv' = ([], Skipped ''already inside'')"
proof -
  from assms(2) obtain x xdg hm where x: "exe = Some x"
    and args: "args = build_self_bwrap_args os x xdg (unwrap_or ''wayland-0'' (os_var os ''WAYLAND_DISPLAY'')) hm
       (unwrap_or [] (os_var os ''DBUS_SESSION_BUS_ADDRESS'')) (drop 1 argv)"
    by (auto simp: try_bwrap_self_sandbox_def Let_def split: if_splits option.splits)
  let ?ops = "self_ops os xdg (unwrap_or ''wayland-0'' (os_var os ''WAYLAND_DISPLAY'')) hm
       (unwrap_or [] (os_var os ''DBUS_SESSION_BUS_ADDRESS''))"
  have "parse args = Some (?ops, x # drop 1 argv)"
    unfolding args build_self_bwrap_args_render using bwrap_reads [OF assms(1), of ?ops "x # drop 1 argv"] by simp
  moreover have "{RoBindTry ''/usr'' ''/usr'', RoBindTry ''/etc'' ''/etc'', Tmpfs ''/tmp''} \<subseteq> set ?ops"
    by (simp add: self_ops_def Let_def)
  moreover have "cage_env ?ops (os_var os) ''ATOM_BWRAP_SANDBOX'' = Some ''1''"
    by (auto simp: cage_env_def self_ops_def lib_ops_def sock_ops_def Let_def when_op_def split: option.splits if_splits)
  ultimately show ?thesis using x by (auto simp: try_bwrap_self_sandbox_def)
qed

theorem self_cage_is_entered_once_witness:
  "\<exists>dirs args ops. try_bwrap_self_sandbox demo_os True (Some ''/usr/bin/atom'') True [''atom'', ''--'', ''id''] = (dirs, Caged args) \<and>
     demo_bwrap args = Some (ops, [''/usr/bin/atom'', ''--'', ''id''])"
proof -
  obtain dirs args where t: "try_bwrap_self_sandbox demo_os True (Some ''/usr/bin/atom'') True [''atom'', ''--'', ''id''] = (dirs, Caged args)"
    by (auto simp: try_bwrap_self_sandbox_def demo_os_def os_exists_def Let_def)
  from self_cage_is_entered_once [OF demo_bwrap_ok this, of True None True "[]"] t show ?thesis by auto
qed

section \<open>Viewers\<close>

text \<open>C18. However the threads that open, register and close viewers and the interrupt handler
  interleave, as long as the overwrites themselves succeed: an inode whose contents are not all zero
  belongs to a viewer whose teardown is still to come, and so does every staged file that has a
  name; no teardown is run twice; and when the handler ends the process with no viewer registered or
  being opened since it took the registry, nothing but zeros is left and no staged file remains.\<close>

theorem viewers_leave_no_plaintext:
  assumes "\<And>j. shred_io_ok (io j)" "(vstep io)\<^sup>*\<^sup>* viewing_start s"
  shows "(\<forall>n. all_zero (held (vw s) n) \<or> (\<exists>j \<in> set (live_jobs s). inode j = n)) \<and>
    (\<forall>p. names (vw s) p = None \<or> (\<exists>j \<in> set (live_jobs s). job_path j = Some p)) \<and>
    distinct (shreds s) \<and>
    (exited s \<and> registry s = [] \<and> launching s = [] \<longrightarrow>
       (\<forall>n. all_zero (held (vw s) n)) \<and> names (vw s) = Map.empty \<and> set (shreds s) = {..<length (slots s)})"
proof -
  have inv: "viewing_inv s" and nm: "names_owned s" by (rule reachable_inv reachable_names, rule assms, rule assms)+
  from inv have w: "\<And>n. all_zero (held (vw s) n) \<or> n \<in> set (handles (vw s))"
    and m: "mset (handles (vw s)) = mset (map inode (live_jobs s))" and d: "distinct (shreds s)"
    and sh: "\<And>i. i \<in> set (shreds s) \<longleftrightarrow> i < length (slots s) \<and> slots s ! i = None"
    and reg: "\<And>i. slot_full s i \<Longrightarrow> i \<in> set (registry s) \<or> (\<exists>l. draining s = Some l \<and> i \<in> set l)"
    and ex: "exited s \<Longrightarrow> draining s = Some []"
    by (auto simp: viewing_inv_def world_ok_def)
  have "set (handles (vw s)) = inode ` set (live_jobs s)" using m by (metis list.set_map set_mset_mset)
  with w have a: "\<forall>n. all_zero (held (vw s) n) \<or> (\<exists>j \<in> set (live_jobs s). inode j = n)" by (metis imageE)
  have e: "live_jobs s = [] \<and> set (shreds s) = {..<length (slots s)}"
    if "exited s" "registry s = []" "launching s = []"
  proof -
    have "\<not> slot_full s i" for i using reg [of i] ex that by auto
    then have n: "x = None" if "x \<in> set (slots s)" for x using that unfolding slot_full_def by (metis in_set_conv_nth)
    then have "List.map_filter id (slots s) = []" by (auto simp: map_filter_def filter_empty_conv)
    moreover have "set (shreds s) = {..<length (slots s)}" using sh n nth_mem by blast
    ultimately show ?thesis using that by (simp add: live_jobs_def)
  qed
  have p: "\<forall>p. names (vw s) p = None \<or> (\<exists>j \<in> set (live_jobs s). job_path j = Some p)"
    using nm by (auto simp: names_owned_def)
  have "(\<forall>n. all_zero (held (vw s) n)) \<and> names (vw s) = Map.empty" if "live_jobs s = []"
    using a p that by auto
  with a p d e show ?thesis by blast
qed

text \<open>A run: a viewer is opened, registered, and torn down by the interrupt handler.\<close>

definition demo_desktop :: desktop_env where
  "demo_desktop = \<lparr>de_os = demo_os,
     de_run = (\<lambda>c args. if args = [''query'', ''default'', ''text/plain''] then Some ''e.desktop'' else None),
     de_is_file = (\<lambda>p. p = ''/usr/share/applications/e.desktop''),
     de_read = (\<lambda>p. Some (''[Desktop Entry]'' @ [CHR 0x0A] @ ''Exec=/usr/bin/e %f''))\<rparr>"

definition demo_io :: shred_io where
  "demo_io = \<lparr>len_ok = True, seek_ok = True, page_ok = (\<lambda>_. True), remove_ok = True\<rparr>"

definition demo_launch :: launch where
  "demo_launch = \<lparr>la_create_ok = True, la_fresh = 7, la_open_ok = True, la_written = None, la_sync_ok = True,
     la_mmap_ok = True, la_locked = MlockOk, la_disk_reachable = True, la_remove_ok = True, la_dup = Some 3,
     la_spawn = Some 42, la_metadata_ok = True, la_io = demo_io\<rparr>"

lemma demo_tmp: "view_tmp_path (view_staging demo_os) ''a.txt'' = ''/run/atom_staging/a_view_tmp.txt''"
  by (simp add: view_tmp_path_def view_staging_def demo_os_def path_join_def unwrap_or_def file_stem_def extension_def
      file_name_def Let_def)

lemma demo_resolved:
  "resolve_viewer_command demo_desktop ''/run/atom_staging/a_view_tmp.txt'' =
   Inr [''/usr/bin/e'', ''/run/atom_staging/a_view_tmp.txt'']"
proof -
  have m: "query_mime demo_desktop ''/run/atom_staging/a_view_tmp.txt'' = Inr ''text/plain''"
    by (simp add: query_mime_def run_trim_def demo_desktop_def extension_def file_name_def extension_mime_def
        to_lowercase_def to_lower_def Let_def)
  have r: "run_trim demo_desktop ''xdg-mime'' [''query'', ''default'', ''text/plain''] = Some ''e.desktop''"
    by (simp add: run_trim_def demo_desktop_def trim_def is_whitespace_def)
  have f: "find_desktop_file demo_desktop ''e.desktop'' = Some ''/usr/share/applications/e.desktop''"
    by (simp add: find_desktop_file_def data_bases_def demo_desktop_def demo_os_def path_join_def unwrap_or_def)
  have x: "parse_exec demo_desktop ''/usr/share/applications/e.desktop'' = Some ''/usr/bin/e %f''"
    by (simp add: parse_exec_def demo_desktop_def trim_def is_whitespace_def strip_prefix_def Let_def)
  have b: "build_argv ''/usr/bin/e %f'' p = [''/usr/bin/e'', p]" for p
    by (simp add: build_argv_def tokenize_exec_def file_codes_def dropped_codes_def Let_def)
  show ?thesis
    by (simp add: resolve_viewer_command_def m r f x b is_flatpak_def strip_suffix_def strip_prefix_def Let_def)
qed

definition demo_job :: shred_job where
  "demo_job = \<lparr>inode = 7, job_path = Some ''/run/atom_staging/a_view_tmp.txt'', viewer_pid = 42, locked_map = 2, on_close = True\<rparr>"

lemma demo_open:
  "\<exists>w. open_in_viewer demo_desktop demo_launch [104, 105] ''a.txt'' (vw viewing_start) = (w, Inr (demo_job, [''/usr/bin/e'', ''/run/atom_staging/a_view_tmp.txt'']))"
proof -
  have "de_os demo_desktop = demo_os" by (simp add: demo_desktop_def)
  then show ?thesis
    by (simp add: open_in_viewer_def demo_tmp demo_resolved Let_def)
      (simp add: demo_launch_def open_truncate_def viewing_start_def MlockedMap_new_def demo_job_def Let_def)
qed

lemma demo_viewing:
  "\<exists>s. (vstep (\<lambda>_. demo_io))\<^sup>*\<^sup>* viewing_start s \<and> exited s \<and> registry s = [] \<and> launching s = []"
proof -
  obtain w where o: "open_in_viewer demo_desktop demo_launch [104, 105] ''a.txt'' (vw viewing_start) =
     (w, Inr (demo_job, [''/usr/bin/e'', ''/run/atom_staging/a_view_tmp.txt'']))" using demo_open by blast
  let ?s1 = "viewing_start\<lparr>vw := w, launching := demo_job # launching viewing_start\<rparr>"
  let ?s2 = "register_teardown demo_job ?s1"
  let ?s3 = "drain_registry ?s2"
  let ?s4 = "(claim (\<lambda>j. shred_on_signal demo_io j) 0 ?s3)\<lparr>draining := Some []\<rparr>"
  let ?s5 = "?s4\<lparr>exited := True\<rparr>"
  have "vstep (\<lambda>_. demo_io) viewing_start ?s1"
    by (rule vstep.open_gui [OF _ _ o]) (simp_all add: viewing_start_def)
  moreover have "vstep (\<lambda>_. demo_io) ?s1 ?s2"
    by (rule vstep.register) (simp_all add: viewing_start_def)
  moreover have "vstep (\<lambda>_. demo_io) ?s2 ?s3"
    by (rule vstep.interrupt) (simp_all add: viewing_start_def register_teardown_def)
  moreover have "vstep (\<lambda>_. demo_io) ?s3 ?s4"
    by (rule vstep.interrupt_claims) (simp_all add: viewing_start_def register_teardown_def drain_registry_def)
  moreover have "vstep (\<lambda>_. demo_io) ?s4 ?s5"
    by (rule vstep.exit_130) (simp_all add: claim_def viewing_start_def register_teardown_def drain_registry_def)
  ultimately have "(vstep (\<lambda>_. demo_io))\<^sup>*\<^sup>* viewing_start ?s5"
    by (meson converse_rtranclp_into_rtranclp rtranclp.rtrancl_refl)
  moreover have "exited ?s5" "registry ?s5 = []" "launching ?s5 = []"
    by (simp_all add: claim_def viewing_start_def register_teardown_def drain_registry_def)
  ultimately show ?thesis by blast
qed

theorem viewers_leave_no_plaintext_witness:
  "\<exists>s. (vstep (\<lambda>_. demo_io))\<^sup>*\<^sup>* viewing_start s \<and> exited s \<and> names (vw s) = Map.empty \<and> all_zero (held (vw s) 7)"
proof -
  obtain s where s: "(vstep (\<lambda>_. demo_io))\<^sup>*\<^sup>* viewing_start s" "exited s" "registry s = []" "launching s = []"
    using demo_viewing by blast
  have "shred_io_ok demo_io" by (simp add: shred_io_ok_def demo_io_def)
  from viewers_leave_no_plaintext [where io = "\<lambda>_. demo_io", OF this s(1)] s show ?thesis by blast
qed

text \<open>C19. Opening a viewer that fails: when no program is found, nothing was staged; when the
  memory cannot be locked or the program cannot be started, the staged file is gone and the data
  with it. But when writing or syncing fails, what was written stays under its name.\<close>

theorem failed_viewer_leaves_no_plaintext:
  assumes "open_in_viewer D la data filename w = (w', Inl e)" "world_ok w"
    "la_fresh la \<notin> set (handles w) \<union> ran (names w)" "p = view_tmp_path (view_staging (de_os D)) filename"
  shows "(\<not> is_ok (resolve_viewer_command D p) \<longrightarrow> w' = w) \<and>
    (la_written la = None \<and> la_sync_ok la \<and> la_remove_ok la \<and> shred_io_ok (la_io la) \<longrightarrow>
       world_ok w' \<and> handles w' = handles w \<and> (w' = w \<or> names w' p = None)) \<and>
    (la_create_ok la \<and> is_ok (resolve_viewer_command D p) \<and> la_open_ok la \<and> la_written la = None \<and> \<not> la_sync_ok la \<longrightarrow>
       (\<exists>n. names w' p = Some n \<and> held w' n = data))"
proof (intro conjI impI)
  assume "\<not> is_ok (resolve_viewer_command D p)"
  then show "w' = w" using assms(1,4)
    by (cases "resolve_viewer_command D p") (auto simp: open_in_viewer_def Let_def split: if_splits)
next
  assume c: "la_written la = None \<and> la_sync_ok la \<and> la_remove_ok la \<and> shred_io_ok (la_io la)"
  with open_in_viewer_failed [OF assms(2,3)] assms(1) show "world_ok w'" "handles w' = handles w" by blast+
  from c assms(1,4) show "w' = w \<or> names w' p = None"
    by (auto simp: open_in_viewer_def open_truncate_def shred_tmpfs_job_def shred_io_ok_def Let_def
        split: if_splits sum.splits option.splits)
next
  assume c: "la_create_ok la \<and> is_ok (resolve_viewer_command D p) \<and> la_open_ok la \<and> la_written la = None \<and> \<not> la_sync_ok la"
  then obtain cmd where "resolve_viewer_command D p = Inr cmd" by (auto simp: is_ok_iff)
  with c assms(1,4) show "\<exists>n. names w' p = Some n \<and> held w' n = data"
    by (auto simp: open_in_viewer_def open_truncate_def held_close ran_def Let_def)
qed

theorem failed_viewer_leaves_no_plaintext_witness:
  "\<exists>w'. open_in_viewer demo_desktop (demo_launch\<lparr>la_spawn := None\<rparr>) [104, 105] ''a.txt'' (vw viewing_start) =
     (w', Inl ''Failed to launch viewer'') \<and> names w' ''/run/atom_staging/a_view_tmp.txt'' = None"
proof -
  have d: "de_os demo_desktop = demo_os" by (simp add: demo_desktop_def)
  have "\<exists>w'. open_in_viewer demo_desktop (demo_launch\<lparr>la_spawn := None\<rparr>) [104, 105] ''a.txt'' (vw viewing_start) =
     (w', Inl ''Failed to launch viewer'')"
    by (simp add: open_in_viewer_def d demo_tmp demo_resolved Let_def)
      (simp add: demo_launch_def open_truncate_def viewing_start_def MlockedMap_new_def Let_def)
  then obtain w' where o: "open_in_viewer demo_desktop (demo_launch\<lparr>la_spawn := None\<rparr>) [104, 105] ''a.txt'' (vw viewing_start) =
     (w', Inl ''Failed to launch viewer'')" by blast
  have ok: "world_ok (vw viewing_start)" and fr: "la_fresh (demo_launch\<lparr>la_spawn := None\<rparr>) \<notin>
      set (handles (vw viewing_start)) \<union> ran (names (vw viewing_start))"
    by (simp_all add: world_ok_def viewing_start_def)
  have la: "la_written (demo_launch\<lparr>la_spawn := None\<rparr>) = None" "la_sync_ok (demo_launch\<lparr>la_spawn := None\<rparr>)"
    "la_remove_ok (demo_launch\<lparr>la_spawn := None\<rparr>)" "shred_io_ok (la_io (demo_launch\<lparr>la_spawn := None\<rparr>))"
    by (simp_all add: demo_launch_def shred_io_ok_def demo_io_def)
  have n: "names (vw viewing_start) ''/run/atom_staging/a_view_tmp.txt'' = None" by (simp add: viewing_start_def)
  from failed_viewer_leaves_no_plaintext [OF o ok fr refl] la n o show ?thesis
    unfolding d demo_tmp by metis
qed

text \<open>The staged copy of a file whose name in the vault has a last component lies directly in
  the staging directory; a name that ends in \<open>..\<close> is used as it is, and an absolute one leads out
  of the staging directory.\<close>

theorem staged_view_path:
  assumes "file_name filename = Some n" "staging \<noteq> []" "last staging \<noteq> CHR ''/''"
  shows "(\<exists>m. view_tmp_path staging filename = staging @ ''/'' @ m \<and> m \<noteq> [] \<and> CHR ''/'' \<notin> set m) \<and>
    view_tmp_path staging ''/home/u/..'' = ''/home/u/.._view_tmp''"
proof
  have n: "CHR ''/'' \<notin> set n" "n \<noteq> []" using file_name_plain [OF assms(1)] by auto
  obtain st where st: "file_stem filename = Some st" "set st \<subseteq> set n" "st \<noteq> []"
  proof -
    let ?r = "dropWhile (\<lambda>c. c \<noteq> CHR ''.'') (rev n)"
    have f: "file_stem filename = Some (if ?r = [] \<or> tl ?r = [] then n else rev (tl ?r))"
      using assms(1) by (simp add: file_stem_def Let_def)
    have "set (tl ?r) \<subseteq> set n" by (metis list.set_sel(2) set_dropWhileD set_rev subsetI tl_Nil)
    with f n(2) that show ?thesis by (cases "?r = [] \<or> tl ?r = []") auto
  qed
  have ext: "CHR ''/'' \<notin> set e" if "extension filename = Some e" for e
    using that assms(1) n(1) by (auto simp: extension_def Let_def split: if_splits dest!: set_takeWhileD)
  let ?m = "st @ ''_view_tmp'' @ (case extension filename of Some e \<Rightarrow> ''.'' @ e | None \<Rightarrow> [])"
  have m: "CHR ''/'' \<notin> set ?m" using st(2) n(1) ext by (auto split: option.splits)
  then have "hd ?m \<noteq> CHR ''/''" using st(3) by (metis hd_in_set append_is_Nil_conv)
  then have "view_tmp_path staging filename = staging @ ''/'' @ ?m"
    using assms(2,3) st(1,3) by (simp add: view_tmp_path_def unwrap_or_def path_join_def)
  with m st(3) show "\<exists>m. view_tmp_path staging filename = staging @ ''/'' @ m \<and> m \<noteq> [] \<and> CHR ''/'' \<notin> set m" by blast
  show "view_tmp_path staging ''/home/u/..'' = ''/home/u/.._view_tmp''"
    by (simp add: view_tmp_path_def unwrap_or_def path_join_def file_stem_def extension_def file_name_def)
qed

theorem staged_view_path_witness:
  "\<exists>m. view_tmp_path ''/run/atom_staging'' ''docs/a.txt'' = ''/run/atom_staging/'' @ m \<and> CHR ''/'' \<notin> set m"
proof -
  have "file_name ''docs/a.txt'' = Some ''a.txt''" by (simp add: file_name_def)
  from staged_view_path [OF this, of "''/run/atom_staging''"] show ?thesis by auto
qed

text \<open>The command for a staged file is never empty, and when it runs flatpak it has no mark
  of the document portal, cuts the network, dies with the program and grants the staged file only
  for reading; and the tokens of an \<open>Exec\<close> line in quotes come back as they were, with the staged
  path in place of the file code.\<close>

theorem viewer_command_avoids_the_portal:
  assumes "resolve_viewer_command D p = Inr argv" "\<forall>t \<in> set ts. CHR ''%'' \<notin> set t"
  shows "argv \<noteq> [] \<and>
    (is_flatpak (argv ! 0) \<longrightarrow> set argv \<inter> set forwarding_marks = {} \<and>
       take 4 (drop 1 argv) = [''run'', ''--unshare=network'', ''--die-with-parent'',
         ''--filesystem='' @ flatpak_filesystem_spec (de_os D) p]) \<and>
    (\<not> is_flatpak (argv ! 0) \<longrightarrow> p \<in> set argv) \<and>
    tokenize_exec (join '' '' (map quote_token ts)) = ts \<and>
    build_argv (join '' '' (map quote_token (ts @ [''%f'']))) p = ts @ [p]"
proof -
  from assms(1) obtain exec where n: "build_argv exec p \<noteq> []"
    and r: "if is_flatpak (build_argv exec p ! 0) then rewrite_flatpak_argv (de_os D) (build_argv exec p) p = Inr argv
            else argv = build_argv exec p"
    by (auto simp: resolve_viewer_command_def result_simps Let_def split: if_splits)
  have "argv \<noteq> [] \<and> (is_flatpak (argv ! 0) \<longrightarrow> set argv \<inter> set forwarding_marks = {} \<and>
       take 4 (drop 1 argv) = [''run'', ''--unshare=network'', ''--die-with-parent'',
         ''--filesystem='' @ flatpak_filesystem_spec (de_os D) p]) \<and> (\<not> is_flatpak (argv ! 0) \<longrightarrow> p \<in> set argv)"
  proof (cases "is_flatpak (build_argv exec p ! 0)")
    case True
    with r have "rewrite_flatpak_argv (de_os D) (build_argv exec p) p = Inr argv" by simp
    then obtain i where "argv = [build_argv exec p ! 0, ''run'', ''--unshare=network'', ''--die-with-parent'',
        ''--filesystem='' @ flatpak_filesystem_spec (de_os D) p] @
        filter (\<lambda>tok. tok \<notin> set forwarding_marks) (drop (Suc i) (build_argv exec p))"
      by (rule rewrite_flatpak_Inr)
    with True not_marks show ?thesis by auto
  next
    case False
    with r n build_argv_has_path [of p exec] show ?thesis by auto
  qed
  with tokenize_quote build_argv_quoted [OF assms(2)] show ?thesis by blast
qed

theorem viewer_command_avoids_the_portal_witness:
  "\<exists>argv. resolve_viewer_command demo_desktop ''/run/atom_staging/a_view_tmp.txt'' = Inr argv \<and> argv \<noteq> [] \<and>
     build_argv (join '' '' (map quote_token [''a b'', ''%f''])) ''/run/atom_staging/a_view_tmp.txt'' =
       [''a b'', ''/run/atom_staging/a_view_tmp.txt'']"
  using viewer_command_avoids_the_portal [OF demo_resolved, of "[''a b'']"] demo_resolved by simp

section \<open>The broker\<close>

text \<open>While the descriptors of the program itself can be listed, the wait for a viewer never
  ends: the teardown job keeps its writing handle on the staged file open, so every poll finds the
  file in use and only an interrupt wipes it.\<close>

theorem viewer_exit_goes_unnoticed:
  assumes "clock 0 < HANDOFF_SETTLE" "\<And>i. \<exists>ps own. look i = Some (ps @ [Some own]) \<and> Some path \<in> set own"
  shows "wait_for_viewer_exit fuel clock look path = None"
proof -
  have "is_file_open (look i) path" for i
  proof -
    from assms(2) [of i] obtain ps own where "look i = Some (ps @ [Some own])" "Some path \<in> set own" by blast
    then show ?thesis by (auto simp: is_file_open_def)
  qed
  with assms(1) show ?thesis by (rule wait_held)
qed

theorem viewer_exit_goes_unnoticed_witness:
  "wait_for_viewer_exit 1000 (\<lambda>i. 250 * i) (\<lambda>i. Some [None, Some [Some ''/run/atom_staging/a_view_tmp.txt'']])
     ''/run/atom_staging/a_view_tmp.txt'' = None"
  by (rule viewer_exit_goes_unnoticed) (auto simp: HANDOFF_SETTLE_def intro!: exI [of _ "[None]"])

text \<open>The wait ends, with enough iterations, once the settle window is over and no process
  holds the file.\<close>

theorem viewer_wait_ends:
  assumes "clock m \<ge> HANDOFF_SETTLE" "\<And>i. m \<le> i \<Longrightarrow> \<not> is_file_open (look i) path"
  shows "\<exists>i. wait_for_viewer_exit (Suc m) clock look path = Some i"
  using assms by (rule wait_ends)

theorem viewer_wait_ends_witness:
  "\<exists>i. wait_for_viewer_exit 13 (\<lambda>i. 250 * i) (\<lambda>i. if i < 5 then Some [Some [Some ''/f'']] else Some []) ''/f'' = Some i"
  using viewer_wait_ends [of "\<lambda>i. 250 * i" 12 "\<lambda>i. if i < 5 then Some [Some [Some ''/f'']] else Some []" "''/f''"]
  by (simp add: HANDOFF_SETTLE_def is_file_open_def)

text \<open>C21. The broker answers every request once: in any interleaving, two waiting requests never
  share a cell, an answer is never replaced, and a request stops waiting only with an answer in its
  cell.\<close>

theorem broker_answers_once:
  assumes "broker_step\<^sup>*\<^sup>* (broker_start h) b" "broker_step b b'"
  shows "distinct (map request_cell (br_queue b' @ br_running b')) \<and>
    (\<forall>c a. br_cells b c = Some a \<longrightarrow> br_cells b' c = Some a) \<and>
    (\<forall>req \<in> set (br_queue b @ br_running b) - set (br_queue b' @ br_running b'). br_cells b' (request_cell req) \<noteq> None)"
proof -
  have inv: "broker_inv b" using assms(1)
  proof (induction rule: rtranclp_induct)
    case base
    then show ?case by (simp add: broker_inv_def broker_start_def)
  qed (rule broker_step_inv)
  have "broker_inv b'" using broker_step_inv [OF assms(2) inv] .
  then have d: "distinct (map request_cell (br_queue b' @ br_running b'))" by (simp add: broker_inv_def)
  from assms(2) show ?thesis
  proof cases
    case (send req)
    with d show ?thesis by (auto simp: send_request_def)
  next
    case (dispatch req rest)
    with d show ?thesis by auto
  next
    case (finish req E)
    obtain a where "br_cells (handle_request E req b) = (br_cells b)(request_cell req \<mapsto> a)"
      using handle_request_cells(3) by blast
    then have c: "br_cells b' = (br_cells b)(request_cell req \<mapsto> a)"
      and q: "br_queue b' = br_queue b" "br_running b' = remove1 req (br_running b)"
      unfolding finish(1) using handle_request_cells(1) [of E req b] by simp_all
    have n: "br_cells b (request_cell req) = None" using inv finish(2) by (simp add: broker_inv_def)
    have "r = req" if "r \<in> set (br_queue b @ br_running b) - set (br_queue b' @ br_running b')" for r
      using that in_set_remove1 [of r req "br_running b"] unfolding q by auto
    then show ?thesis using d n unfolding c by (metis (no_types, lifting) fun_upd_apply option.distinct(1))
  qed
qed

definition demo_broker_env :: broker_env where
  "demo_broker_env = \<lparr>be_landlock = demo_landlock, be_os = demo_os, be_io = \<lparr>wr_written = None, wr_sync_ok = True\<rparr>,
     be_desktop = demo_desktop, be_launch = demo_launch\<rparr>"

theorem broker_answers_once_witness:
  "\<exists>b b'. broker_step\<^sup>*\<^sup>* (broker_start demo_host) b \<and> broker_step b b' \<and> br_cells b' 0 \<noteq> None"
proof -
  let ?r = "ReadRequest ''f'' 0"
  let ?b0 = "broker_start demo_host"
  let ?b1 = "send_request ?r ?b0"
  let ?b2 = "?b1\<lparr>br_queue := [], br_running := [?r]\<rparr>"
  let ?b3 = "(handle_request demo_broker_env ?r ?b2)\<lparr>br_running := remove1 ?r (br_running ?b2)\<rparr>"
  have "broker_step ?b0 ?b1" by (rule broker_step.send) (simp add: broker_start_def)
  moreover have "broker_step ?b1 ?b2"
    using broker_step.dispatch [of ?b1 ?r "[]"] by (simp add: send_request_def broker_start_def)
  ultimately have r: "broker_step\<^sup>*\<^sup>* ?b0 ?b2" by (meson converse_rtranclp_into_rtranclp rtranclp.rtrancl_refl)
  have f: "broker_step ?b2 ?b3" by (rule broker_step.finish) simp
  have "?r \<in> set (br_queue ?b2 @ br_running ?b2) - set (br_queue ?b3 @ br_running ?b3)"
    by (simp add: handle_request_cells)
  with broker_answers_once [OF r f] have "br_cells ?b3 (request_cell ?r) \<noteq> None" by blast
  with r f show ?thesis by (metis request_cell.simps(1))
qed

text \<open>The broker's threads touch one file: a read returns the contents of the file at the given
  path, a write replaces the contents of that file and of no other, and where it changes anything the
  file lies at or beneath the one path the thread allowed itself, the file or, for a new file, its
  directory.\<close>

theorem broker_touches_one_file:
  assumes "landlock_ok K" "write_with_sandbox K os io path data h = (h', r)"
  shows "(\<forall>q. q \<noteq> resolve_target h path \<longrightarrow> disk h' q = disk h q) \<and>
    (r = Inr () \<longrightarrow> disk h' (resolve_target h path) = Some data) \<and>
    (disk h' \<noteq> disk h \<longrightarrow>
       (\<exists>q. os_path_fd os (effective_path os path) = Some q \<and> path_starts_with (resolve_target h path) q)) \<and>
    (\<forall>d. read_with_sandbox K os path h = Inr d \<longrightarrow> (\<exists>p. canonicalize h path = Some p \<and> disk h p = Some d))"
  using write_with_sandbox_effect [OF assms(2)] write_with_sandbox_confined [OF assms]
  by (auto elim: read_with_sandbox_Inr)

theorem broker_touches_one_file_witness:
  "\<exists>h'. write_with_sandbox demo_landlock demo_os \<lparr>wr_written = None, wr_sync_ok = True\<rparr> ''/run/atom_staging/n'' [9] demo_host = (h', Inr ()) \<and>
     disk h' [''run'', ''atom_staging'', ''n''] = Some [9] \<and> disk h' [''etc'', ''passwd''] = Some [1]"
proof -
  have "effective_path demo_os ''/run/atom_staging/n'' = ''/run/atom_staging''"
    by (simp add: effective_path_def os_exists_def demo_os_def path_parent_def unwrap_or_def Let_def)
  moreover have "apply_process_sandbox demo_landlock demo_os [] [''/run/atom_staging''] =
      Inr [([''run'', ''atom_staging''], from_all demo_landlock)]"
    by (simp add: apply_process_sandbox_def) (simp add: demo_landlock_def demo_os_def)
  moreover have "resolve_target demo_host ''/run/atom_staging/n'' = [''run'', ''atom_staging'', ''n'']"
    by (simp add: demo_host_def)
  ultimately have "\<exists>h'. write_with_sandbox demo_landlock demo_os \<lparr>wr_written = None, wr_sync_ok = True\<rparr> ''/run/atom_staging/n'' [9] demo_host = (h', Inr ())"
    by (simp add: write_with_sandbox_def) (simp add: demo_landlock_def demo_host_def path_starts_with_def)
  then obtain h' where w: "write_with_sandbox demo_landlock demo_os \<lparr>wr_written = None, wr_sync_ok = True\<rparr> ''/run/atom_staging/n'' [9] demo_host = (h', Inr ())"
    by blast
  have t: "resolve_target demo_host ''/run/atom_staging/n'' = [''run'', ''atom_staging'', ''n'']" by (simp add: demo_host_def)
  have "disk demo_host [''etc'', ''passwd''] = Some [1]" by (simp add: demo_host_def)
  with broker_touches_one_file [OF demo_landlock_ok w] w show ?thesis unfolding t by auto
qed

end
