(* ===== verification/SecureChannel.thy ===== *)
theory SecureChannel
  imports Identity Framing
begin

text \<open>
  The secure channel of \<open>p2p-live\<close>: the configuration of TLS (\<open>lib.rs\<close>), the verifiers that pin
  the peer's key (\<open>pinned.rs\<close>), and the sessions over QUIC (\<open>session.rs\<close>) and over a byte stream
  (\<open>tls.rs\<close>). The TLS library is the record \<open>tls_lib\<close>; the two byte streams of a session are what
  this side has written and what it is still to read.
\<close>

section \<open>Configuration\<close>

definition ALPN :: bytes where "ALPN = str_bytes ''atom-vault/live/1''"

datatype NamedGroup = X25519MLKEM768 | ClassicalGroup nat

datatype ProtocolVersion = TLSv1_2 | TLSv1_3

record TlsConfig =
  kx_groups :: "NamedGroup list"
  protocol_versions :: "ProtocolVersion list"
  alpn_protocols :: "bytes list"
  presents :: bytes
  pinned_key :: bytes
  resumption :: bool
  early_data :: bool
  client_auth_mandatory :: bool

record Negotiated =
  ng_group :: "NamedGroup option"
  ng_version :: "ProtocolVersion option"
  ng_alpn :: "bytes option"
  ng_presented :: bytes

text \<open>The two verifiers share the comparison with the pin and refuse every TLS 1.2 signature.\<close>

definition matches_pin :: "bytes \<Rightarrow> bytes \<Rightarrow> bool" where
  "matches_pin presented pinned \<longleftrightarrow> presented = pinned"

definition pinned_server_cert :: "bytes \<Rightarrow> bytes \<Rightarrow> string + unit" where
  "pinned_server_cert pinned end_entity =
     (if matches_pin end_entity pinned then Inr () else Inl ''peer identity does not match the pinned key'')"

definition pinned_client_cert :: "bytes \<Rightarrow> bytes \<Rightarrow> string + unit" where
  "pinned_client_cert pinned end_entity =
     (if matches_pin end_entity pinned then Inr () else Inl ''peer identity does not match the pinned key'')"

definition pinned_tls12_signature :: "bytes \<Rightarrow> bytes \<Rightarrow> string + unit" where
  "pinned_tls12_signature message cert = Inl ''TLS 1.2 is not supported: this transport is TLS 1.3 only''"

text \<open>
  The library: whether a private key loads, and the result of a handshake for the configuration of
  this side and the verifier it calls, as client or as server.
\<close>

record tls_lib =
  load_private_key :: "bytes \<Rightarrow> bool"
  handshake :: "TlsConfig \<Rightarrow> (bytes \<Rightarrow> string + unit) \<Rightarrow> Negotiated option"

text \<open>
  What the library documents: a completed handshake used a group and a version of the configuration,
  and the verifier accepted the key the peer presented and proved to hold.
\<close>

definition tls_ok :: "tls_lib \<Rightarrow> bool" where
  "tls_ok T \<longleftrightarrow>
     (\<forall>cfg verify ng. handshake T cfg verify = Some ng \<longrightarrow>
        (\<exists>g v. ng_group ng = Some g \<and> g \<in> set (kx_groups cfg) \<and>
               ng_version ng = Some v \<and> v \<in> set (protocol_versions cfg)) \<and>
        verify (ng_presented ng) = Inr ())"

definition certified_key :: "tls_lib \<Rightarrow> LocalIdentity \<Rightarrow> Error + bytes" where
  "certified_key T i =
     bindE (guardE (load_private_key T (li_pkcs8 i)) (EIdentity ''load private key'')) (\<lambda>_. Inr (li_public i))"

definition hybrid_pq_groups :: "NamedGroup list" where "hybrid_pq_groups = [X25519MLKEM768]"

definition client_tls_config :: "tls_lib \<Rightarrow> LocalIdentity \<Rightarrow> bytes \<Rightarrow> Error + TlsConfig" where
  "client_tls_config T loc expected_peer =
     bindE (certified_key T loc) (\<lambda>certified.
       Inr \<lparr>kx_groups = hybrid_pq_groups, protocol_versions = [TLSv1_3], alpn_protocols = [ALPN],
            presents = certified, pinned_key = expected_peer, resumption = False, early_data = False,
            client_auth_mandatory = False\<rparr>)"

definition server_tls_config :: "tls_lib \<Rightarrow> LocalIdentity \<Rightarrow> bytes \<Rightarrow> Error + TlsConfig" where
  "server_tls_config T loc expected_peer =
     bindE (certified_key T loc) (\<lambda>certified.
       Inr \<lparr>kx_groups = hybrid_pq_groups, protocol_versions = [TLSv1_3], alpn_protocols = [ALPN],
            presents = certified, pinned_key = expected_peer, resumption = False, early_data = False,
            client_auth_mandatory = True\<rparr>)"

section \<open>Channels\<close>

record channel =
  ch_peer :: bytes
  ch_out :: bytes
  ch_in :: bytes
  key_update_bytes :: u64
  bytes_since_update :: u64
  key_updates :: nat

definition DEFAULT_KEY_UPDATE_BYTES :: u64 where "DEFAULT_KEY_UPDATE_BYTES = 256 * 1024 * 1024"

definition new_channel :: "bytes \<Rightarrow> bytes \<Rightarrow> channel" where
  "new_channel peer incoming =
     \<lparr>ch_peer = peer, ch_out = [], ch_in = incoming, key_update_bytes = DEFAULT_KEY_UPDATE_BYTES,
      bytes_since_update = 0, key_updates = 0\<rparr>"

definition set_key_update_interval :: "u64 \<Rightarrow> channel \<Rightarrow> channel" where
  "set_key_update_interval n c = c\<lparr>key_update_bytes := max n 1\<rparr>"

text \<open>
  \<open>account_sent\<close>: over QUIC an update is requested and never refused, over TLS the library may
  refuse it; \<open>refresh\<close> is its answer, by the number of updates made so far.
\<close>

definition account_sent :: "u64 \<Rightarrow> channel \<Rightarrow> channel" where
  "account_sent n c =
     (let b = saturating_add (bytes_since_update c) n in
      if key_update_bytes c \<le> b then c\<lparr>bytes_since_update := 0, key_updates := Suc (key_updates c)\<rparr>
      else c\<lparr>bytes_since_update := b\<rparr>)"

definition account_sent_tls :: "(nat \<Rightarrow> bool) \<Rightarrow> u64 \<Rightarrow> channel \<Rightarrow> channel \<times> (Error + unit)" where
  "account_sent_tls refresh n c =
     (let b = saturating_add (bytes_since_update c) n; c1 = c\<lparr>bytes_since_update := b\<rparr> in
      if b < key_update_bytes c then (c1, Inr ())
      else if \<not> refresh (key_updates c) then (c1, Inl (ESession ''key update refused''))
      else (c\<lparr>bytes_since_update := 0, key_updates := Suc (key_updates c)\<rparr>, Inr ()))"

definition send_frame :: "bytes \<Rightarrow> channel \<Rightarrow> Error + channel" where
  "send_frame msg c =
     bindE (write_frame (ch_out c) msg) (\<lambda>(out, n). Inr (account_sent (word_of_nat n) (c\<lparr>ch_out := out\<rparr>)))"

definition send_frame_tls :: "(nat \<Rightarrow> bool) \<Rightarrow> bool \<Rightarrow> bytes \<Rightarrow> channel \<Rightarrow> Error + channel" where
  "send_frame_tls refresh flush_ok msg c =
     bindE (write_frame (ch_out c) msg) (\<lambda>(out, n).
     bindE (guardE flush_ok (ESession ''flush'')) (\<lambda>_.
     case account_sent_tls refresh (word_of_nat n) (c\<lparr>ch_out := out\<rparr>) of
       (c1, Inl e) \<Rightarrow> Inl e | (c1, Inr _) \<Rightarrow> Inr c1))"

definition recv_frame_opt :: "channel \<Rightarrow> Error + bytes option \<times> channel" where
  "recv_frame_opt c = bindE (read_frame_opt (ch_in c)) (\<lambda>(m, rest). Inr (m, c\<lparr>ch_in := rest\<rparr>))"

definition recv :: "channel \<Rightarrow> Error + bytes \<times> channel" where
  "recv c = bindE (recv_frame_opt c) (\<lambda>(m, c1).
     bindE (ok_or (ESession ''channel closed by peer'') m) (\<lambda>msg. Inr (msg, c1)))"

definition expect_hello :: "channel \<Rightarrow> Error + channel" where
  "expect_hello c =
     bindE (recv_frame_opt c) (\<lambda>(m, c1).
     bindE (ok_or (ESession ''peer closed before sending a hello'') m) (\<lambda>hello.
     bindE (guardE (hello = ALPN) (ESession ''peer sent an unexpected application hello'')) (\<lambda>_. Inr c1)))"

section \<open>Establishing a session\<close>

text \<open>\<open>incoming\<close> is what the peer sends on the stream, or the error of opening it.\<close>

definition client_session :: "Error + bytes \<Rightarrow> bytes \<Rightarrow> Error + channel" where
  "client_session incoming peer =
     bindE incoming (\<lambda>inp. bindE (send_frame ALPN (new_channel peer inp)) expect_hello)"

definition server_session :: "Error + bytes \<Rightarrow> bytes \<Rightarrow> Error + channel" where
  "server_session incoming peer =
     bindE incoming (\<lambda>inp. bindE (expect_hello (new_channel peer inp)) (send_frame ALPN))"

definition dial :: "tls_lib \<Rightarrow> bool \<Rightarrow> LocalIdentity \<Rightarrow> bytes \<Rightarrow> Error + bytes \<Rightarrow> Error + channel" where
  "dial T bind_ok loc expected_peer incoming =
     bindE (client_tls_config T loc expected_peer) (\<lambda>cfg.
     bindE (guardE bind_ok (EIo ''bind'')) (\<lambda>_.
     bindE (ok_or (EConnect ''connection'') (handshake T cfg (pinned_server_cert expected_peer))) (\<lambda>_.
       client_session incoming expected_peer)))"

definition Listener_accept :: "tls_lib \<Rightarrow> bool \<Rightarrow> LocalIdentity \<Rightarrow> bytes \<Rightarrow> Error + bytes \<Rightarrow> Error + channel" where
  "Listener_accept T bind_ok loc expected_peer incoming =
     bindE (server_tls_config T loc expected_peer) (\<lambda>cfg.
     bindE (guardE bind_ok (EIo ''bind'')) (\<lambda>_.
     bindE (ok_or (EConnect ''connection'') (handshake T cfg (pinned_client_cert expected_peer))) (\<lambda>_.
       server_session incoming expected_peer)))"

text \<open>
  The endpoint of a rendezvous (\<open>rendezvous.rs\<close>): one socket with the configurations of both directions, each pinned to
  the peer it was bound for, and the sessions that are finished on its connections.
\<close>

definition bind_endpoint :: "tls_lib \<Rightarrow> bool \<Rightarrow> LocalIdentity \<Rightarrow> bytes \<Rightarrow> Error + TlsConfig \<times> TlsConfig" where
  "bind_endpoint T bind_ok loc peer =
     bindE (client_tls_config T loc peer) (\<lambda>client_cfg.
     bindE (server_tls_config T loc peer) (\<lambda>server_cfg.
     bindE (guardE bind_ok (EIo ''bind'')) (\<lambda>_. Inr (client_cfg, server_cfg))))"

definition endpoint_dials :: "tls_lib \<Rightarrow> TlsConfig \<times> TlsConfig \<Rightarrow> bytes \<Rightarrow> Error + bytes \<Rightarrow> Error + channel" where
  "endpoint_dials T ep peer incoming =
     bindE (ok_or (EConnect ''connection'') (handshake T (fst ep) (pinned_server_cert (pinned_key (fst ep))))) (\<lambda>_.
       client_session incoming peer)"

definition endpoint_accepts :: "tls_lib \<Rightarrow> TlsConfig \<times> TlsConfig \<Rightarrow> bytes \<Rightarrow> Error + bytes \<Rightarrow> Error + channel" where
  "endpoint_accepts T ep peer incoming =
     bindE (ok_or (EConnect ''connection'') (handshake T (snd ep) (pinned_client_cert (pinned_key (snd ep))))) (\<lambda>_.
       server_session incoming peer)"

definition wrap :: "Negotiated \<Rightarrow> bytes \<Rightarrow> bytes \<Rightarrow> Error + channel" where
  "wrap ng peer incoming =
     bindE (guardE (ng_group ng = Some X25519MLKEM768) (EConnect ''not the hybrid post-quantum group'')) (\<lambda>_.
     bindE (guardE (ng_version ng = Some TLSv1_3) (EConnect ''not TLS 1.3'')) (\<lambda>_.
     bindE (guardE (ng_alpn ng = Some ALPN) (EConnect ''peer negotiated another ALPN'')) (\<lambda>_.
       Inr (new_channel peer incoming))))"

definition tls_connect ::
    "tls_lib \<Rightarrow> (nat \<Rightarrow> bool) \<Rightarrow> bool \<Rightarrow> LocalIdentity \<Rightarrow> bytes \<Rightarrow> bytes \<Rightarrow> Error + channel" where
  "tls_connect T refresh flush_ok loc expected_peer incoming =
     bindE (client_tls_config T loc expected_peer) (\<lambda>cfg.
     bindE (ok_or (EConnect ''TLS handshake failed'') (handshake T cfg (pinned_server_cert expected_peer))) (\<lambda>ng.
     bindE (wrap ng expected_peer incoming) (\<lambda>c.
     bindE (send_frame_tls refresh flush_ok ALPN c) expect_hello)))"

definition tls_accept ::
    "tls_lib \<Rightarrow> (nat \<Rightarrow> bool) \<Rightarrow> bool \<Rightarrow> LocalIdentity \<Rightarrow> bytes \<Rightarrow> bytes \<Rightarrow> Error + channel" where
  "tls_accept T refresh flush_ok loc expected_peer incoming =
     bindE (server_tls_config T loc expected_peer) (\<lambda>cfg.
     bindE (ok_or (EConnect ''TLS handshake failed'') (handshake T cfg (pinned_client_cert expected_peer))) (\<lambda>ng.
     bindE (wrap ng expected_peer incoming) (\<lambda>c.
     bindE (expect_hello c) (send_frame_tls refresh flush_ok ALPN))))"

text \<open>
  Closing over QUIC discards the frames that still arrive until the peer's stream ends or fails;
  over TLS a peer that is already gone is not an error.
\<close>

definition close_drains :: "channel \<Rightarrow> bytes list" where
  "close_drains c = fst (read_frames (ch_in c))"

datatype io_kind = BrokenPipe | NotConnected | ConnectionReset | ConnectionAborted | OtherKind

definition tls_close :: "io_kind option \<Rightarrow> Error + unit" where
  "tls_close shutdown =
     (case shutdown of
        None \<Rightarrow> Inr ()
      | Some k \<Rightarrow> if k = OtherKind then Inl (ESession ''shutdown'') else Inr ())"

section \<open>Facts\<close>

lemma expect_hello_Inr:
  "expect_hello c = Inr c' \<longleftrightarrow> (\<exists>rest. read_frame_opt (ch_in c) = Inr (Some ALPN, rest) \<and> c' = c\<lparr>ch_in := rest\<rparr>)"
  by (auto simp: expect_hello_def recv_frame_opt_def result_simps)

lemma ALPN_small: "length ALPN \<le> MAX_FRAME_LEN"
  by (simp add: ALPN_def MAX_FRAME_LEN_def)

lemma write_frame_small: "length m \<le> MAX_FRAME_LEN \<Longrightarrow> write_frame w m = Inr (w @ frame_bytes m, 4 + length m)"
  by (simp add: write_frame_def frame_bytes_def)

lemma account_sent_sel [simp]:
  "ch_peer (account_sent n c) = ch_peer c" "ch_out (account_sent n c) = ch_out c" "ch_in (account_sent n c) = ch_in c"
  "key_update_bytes (account_sent n c) = key_update_bytes c"
  by (simp_all add: account_sent_def Let_def)

lemma account_sent_tls_sel:
  "account_sent_tls r n c = (c', x) \<Longrightarrow> ch_peer c' = ch_peer c \<and> ch_out c' = ch_out c \<and> ch_in c' = ch_in c"
  by (auto simp: account_sent_tls_def Let_def split: if_splits)

lemma hybrid_configs:
  "client_tls_config T loc p = Inr cfg \<Longrightarrow> set (kx_groups cfg) = {X25519MLKEM768} \<and> set (protocol_versions cfg) = {TLSv1_3}"
  "server_tls_config T loc p = Inr cfg \<Longrightarrow> set (kx_groups cfg) = {X25519MLKEM768} \<and> set (protocol_versions cfg) = {TLSv1_3}"
  by (auto simp: client_tls_config_def server_tls_config_def hybrid_pq_groups_def result_simps)

lemma bind_endpoint_Inr:
  "bind_endpoint T b loc p = Inr (c, s) \<Longrightarrow>
     client_tls_config T loc p = Inr c \<and> server_tls_config T loc p = Inr s \<and> pinned_key c = p \<and> pinned_key s = p"
  by (auto simp: bind_endpoint_def client_tls_config_def server_tls_config_def result_simps)

lemma handshake_pins:
  assumes "tls_ok T" "handshake T cfg verify = Some ng" "set (kx_groups cfg) = {X25519MLKEM768}"
    "set (protocol_versions cfg) = {TLSv1_3}" "verify = pinned_server_cert p \<or> verify = pinned_client_cert p"
  shows "ng_group ng = Some X25519MLKEM768" "ng_version ng = Some TLSv1_3" "ng_presented ng = p"
proof -
  from assms(1,2) obtain g v where g: "ng_group ng = Some g" "g \<in> set (kx_groups cfg)" "ng_version ng = Some v"
    "v \<in> set (protocol_versions cfg)" "verify (ng_presented ng) = Inr ()"
    unfolding tls_ok_def by blast
  with assms(3,4) show "ng_group ng = Some X25519MLKEM768" "ng_version ng = Some TLSv1_3" by auto
  from g(5) assms(5) show "ng_presented ng = p"
    by (auto simp: pinned_server_cert_def pinned_client_cert_def matches_pin_def split: if_splits)
qed

subsection \<open>The ratchet\<close>

lemma account_sent_bound:
  assumes "0 < key_update_bytes c"
  shows "bytes_since_update (account_sent n c) < key_update_bytes c"
  using assms by (auto simp: account_sent_def Let_def)

lemma account_sent_counts:
  assumes "key_updates (account_sent n c) = key_updates c"
  shows "unat (bytes_since_update (account_sent n c)) = unat (bytes_since_update c) + unat n"
    "unat (bytes_since_update c) + unat n < unat (key_update_bytes c)"
proof -
  let ?b = "saturating_add (bytes_since_update c) n"
  from assms have b: "?b < key_update_bytes c" "bytes_since_update (account_sent n c) = ?b"
    by (auto simp: account_sent_def Let_def split: if_splits)
  have k: "unat (key_update_bytes c) < 2 ^ 64" using unat_bound [of "key_update_bytes c"] by simp
  from b(1) have "unat ?b < unat (key_update_bytes c)" by (simp add: word_less_nat_alt)
  with k have "unat ?b = unat (bytes_since_update c) + unat n"
    unfolding unat_saturating_add by (simp add: min_def split: if_splits)
  with b \<open>unat ?b < _\<close> show "unat (bytes_since_update (account_sent n c)) = unat (bytes_since_update c) + unat n"
    "unat (bytes_since_update c) + unat n < unat (key_update_bytes c)" by simp_all
qed

lemma key_updates_mono: "key_updates c \<le> key_updates (fold account_sent ns c)"
proof (induction ns arbitrary: c)
  case (Cons n ns)
  have "key_updates c \<le> key_updates (account_sent n c)" by (simp add: account_sent_def Let_def)
  with Cons [of "account_sent n c"] show ?case by simp
qed simp

lemma one_key_bound:
  assumes "key_updates (fold account_sent ns c) = key_updates c" "bytes_since_update c < key_update_bytes c"
  shows "unat (bytes_since_update c) + sum_list (map unat ns) < unat (key_update_bytes c)"
  using assms
proof (induction ns arbitrary: c)
  case Nil
  then show ?case by (simp add: word_less_nat_alt)
next
  case (Cons n ns)
  let ?c = "account_sent n c"
  have e: "key_updates ?c = key_updates c"
  proof -
    have "key_updates ?c = key_updates c \<or> key_updates ?c = Suc (key_updates c)" by (simp add: account_sent_def Let_def)
    with Cons.prems(1) key_updates_mono [of ?c ns] show ?thesis by auto
  qed
  have "0 < key_update_bytes c" using Cons.prems(2) by (simp add: word_less_nat_alt)
  then have "bytes_since_update ?c < key_update_bytes ?c" using account_sent_bound by simp
  from Cons.IH [OF _ this] Cons.prems(1) e account_sent_counts(1) [OF e] show ?case by simp
qed

end
