(* ===== verification/ChannelTheorems.thy ===== *)
theory ChannelTheorems
  imports SecureChannel LiveDemo
begin

text \<open>
  The properties of the secure channel: who is at the other end of an established session, that two
  honest ends establish one, and how much is sent under one key.
\<close>

section \<open>The hello\<close>

lemma read_frame_inv:
  assumes "read_frame_opt inp = Inr (Some m, rest)"
  shows "inp = frame_bytes m @ rest"
proof -
  from assms have l: "4 \<le> length inp" and len: "unat (u32_from_be (take 4 inp)) \<le> length (drop 4 inp)"
    and m: "m = take (unat (u32_from_be (take 4 inp))) (drop 4 inp)" and r: "rest = drop (unat (u32_from_be (take 4 inp))) (drop 4 inp)"
    by (auto simp: read_frame_opt_def Let_def split: if_splits)
  have "length m = unat (u32_from_be (take 4 inp))" using len m by simp
  then have "u32_to_be (word_of_nat (length m)) = take 4 inp" using l by (simp add: u32_to_be_from_be)
  moreover have "inp = take 4 inp @ m @ rest" unfolding m r append_take_drop_id by simp
  ultimately show ?thesis by (simp add: frame_bytes_def)
qed

lemma expect_hello_ready: "ch_in c = frame_bytes ALPN @ rest \<Longrightarrow> expect_hello c = Inr (c\<lparr>ch_in := rest\<rparr>)"
  by (simp add: expect_hello_Inr read_frame [OF ALPN_small])

lemma send_hello:
  "\<exists>c'. send_frame ALPN c = Inr c' \<and> ch_out c' = ch_out c @ frame_bytes ALPN \<and> ch_in c' = ch_in c \<and> ch_peer c' = ch_peer c"
  by (simp add: send_frame_def write_frame_small [OF ALPN_small])

lemma send_hello_tls:
  assumes "send_frame_tls r fl ALPN c = Inr c'"
  shows "ch_in c' = ch_in c \<and> ch_peer c' = ch_peer c \<and> ch_out c' = ch_out c @ frame_bytes ALPN"
proof -
  let ?c = "c\<lparr>ch_out := ch_out c @ frame_bytes ALPN\<rparr>"
  from assms obtain x where "account_sent_tls r (word_of_nat (4 + length ALPN)) ?c = (c', Inr x)"
    unfolding send_frame_tls_def write_frame_small [OF ALPN_small]
    by (cases fl) (auto split: prod.splits sum.splits)
  from account_sent_tls_sel [OF this] show ?thesis by simp
qed

section \<open>Properties\<close>

text \<open>C25. Whichever way a session was established, over QUIC, over a byte stream or on the endpoint of a
  rendezvous that was bound for this peer, dialling or accepting, the peer of the session is the expected one, and there was a handshake in which it
  presented exactly the pinned key, over the hybrid post-quantum group and TLS 1.3; and what the peer
  sent begins with the hello of this protocol, behind which the session reads.\<close>

theorem sessions_are_pinned_and_hybrid:
  assumes "tls_ok T"
    and "tls_connect T r fl loc p inp = Inr c \<or> tls_accept T r fl loc p inp = Inr c \<or>
         dial T b loc p (Inr inp) = Inr c \<or> Listener_accept T b loc p (Inr inp) = Inr c \<or>
         (\<exists>ep. bind_endpoint T b loc p = Inr ep \<and> (endpoint_dials T ep p (Inr inp) = Inr c \<or> endpoint_accepts T ep p (Inr inp) = Inr c))"
  shows "ch_peer c = p \<and> inp = frame_bytes ALPN @ ch_in c \<and>
    (\<exists>cfg verify ng. handshake T cfg verify = Some ng \<and> presents cfg = li_public loc \<and> \<not> resumption cfg \<and> \<not> early_data cfg \<and>
       ng_presented ng = p \<and> ng_group ng = Some X25519MLKEM768 \<and> ng_version ng = Some TLSv1_3)"
proof -
  have cfgs: "presents cfg = li_public loc \<and> \<not> resumption cfg \<and> \<not> early_data cfg"
    if "client_tls_config T loc p = Inr cfg \<or> server_tls_config T loc p = Inr cfg" for cfg
    using that by (auto simp: client_tls_config_def server_tls_config_def certified_key_def result_simps)
  have shook: "\<exists>cfg verify ng. handshake T cfg verify = Some ng \<and> presents cfg = li_public loc \<and> \<not> resumption cfg \<and> \<not> early_data cfg \<and>
       ng_presented ng = p \<and> ng_group ng = Some X25519MLKEM768 \<and> ng_version ng = Some TLSv1_3"
    if "handshake T cfg v = Some ng" "client_tls_config T loc p = Inr cfg \<or> server_tls_config T loc p = Inr cfg"
       "v = pinned_server_cert p \<or> v = pinned_client_cert p" for cfg v ng
    using that cfgs [OF that(2)] handshake_pins [OF assms(1) that(1) _ _ that(3)] hybrid_configs [of T loc p cfg] by blast
  have n: "ch_peer (new_channel q i) = q" "ch_in (new_channel q i) = i" for q i by (simp_all add: new_channel_def)
  have w: "d = new_channel p inp" if "wrap ng p inp = Inr d" for ng d
    using that by (auto simp: wrap_def result_simps)
  have hello: "ch_peer c = p \<and> inp = frame_bytes ALPN @ ch_in c"
    if "ch_peer c1 = p" "ch_in c1 = inp" "expect_hello c1 = Inr c2" "ch_in c = ch_in c2" "ch_peer c = ch_peer c2" for c1 c2
    using that read_frame_inv [of inp ALPN] by (auto simp: expect_hello_Inr)
  have client: ?thesis if "client_tls_config T loc p = Inr cfg" "handshake T cfg (pinned_server_cert p) = Some ng"
    "client_session (Inr inp) p = Inr c" for cfg ng
  proof -
    from that(3) obtain c1 where 1: "send_frame ALPN (new_channel p inp) = Inr c1" "expect_hello c1 = Inr c"
      by (auto simp: client_session_def result_simps)
    from send_hello [of "new_channel p inp"] 1(1) n have "ch_in c1 = inp" "ch_peer c1 = p" by auto
    from hello [OF this(2,1) 1(2)] shook [OF that(2)] that(1) show ?thesis by simp
  qed
  have server: ?thesis if "server_tls_config T loc p = Inr cfg" "handshake T cfg (pinned_client_cert p) = Some ng"
    "server_session (Inr inp) p = Inr c" for cfg ng
  proof -
    from that(3) obtain c1 where 1: "expect_hello (new_channel p inp) = Inr c1" "send_frame ALPN c1 = Inr c"
      by (auto simp: server_session_def result_simps)
    from send_hello [of c1] 1(2) have "ch_in c = ch_in c1" "ch_peer c = ch_peer c1" by auto
    from hello [OF n 1(1) this] shook [OF that(2)] that(1) show ?thesis by simp
  qed
  from assms(2) show ?thesis
  proof (elim disjE exE conjE)
    assume "tls_connect T r fl loc p inp = Inr c"
    then obtain cfg ng c0 c1 where 1: "client_tls_config T loc p = Inr cfg" "handshake T cfg (pinned_server_cert p) = Some ng"
      "wrap ng p inp = Inr c0" "send_frame_tls r fl ALPN c0 = Inr c1" "expect_hello c1 = Inr c"
      by (auto simp: tls_connect_def result_simps)
    from send_hello_tls [OF 1(4)] w [OF 1(3)] n hello [OF _ _ 1(5)] shook [OF 1(2)] 1(1) show ?thesis by simp
  next
    assume "tls_accept T r fl loc p inp = Inr c"
    then obtain cfg ng c0 c1 where 1: "server_tls_config T loc p = Inr cfg" "handshake T cfg (pinned_client_cert p) = Some ng"
      "wrap ng p inp = Inr c0" "expect_hello c0 = Inr c1" "send_frame_tls r fl ALPN c1 = Inr c"
      by (auto simp: tls_accept_def result_simps)
    from send_hello_tls [OF 1(5)] w [OF 1(3)] n hello [OF _ _ 1(4)] shook [OF 1(2)] 1(1) show ?thesis by simp
  next
    assume "dial T b loc p (Inr inp) = Inr c"
    with client show ?thesis by (auto simp: dial_def result_simps)
  next
    assume "Listener_accept T b loc p (Inr inp) = Inr c"
    with server show ?thesis by (auto simp: Listener_accept_def result_simps)
  next
    fix ep
    assume ep: "bind_endpoint T b loc p = Inr ep" and "endpoint_dials T ep p (Inr inp) = Inr c"
    with bind_endpoint_Inr [of T b loc p "fst ep" "snd ep"] client [of "fst ep"] show ?thesis
      by (auto simp: endpoint_dials_def result_simps)
  next
    fix ep
    assume ep: "bind_endpoint T b loc p = Inr ep" and "endpoint_accepts T ep p (Inr inp) = Inr c"
    with bind_endpoint_Inr [of T b loc p "fst ep" "snd ep"] server [of "snd ep"] show ?thesis
      by (auto simp: endpoint_accepts_def result_simps)
  qed
qed

text \<open>A library whose handshakes succeed with the peer the verifier accepts among two keys.\<close>

definition demo_tls :: tls_lib where
  "demo_tls = \<lparr>load_private_key = (\<lambda>k. True),
     handshake = (\<lambda>cfg verify.
       if X25519MLKEM768 \<in> set (kx_groups cfg) \<and> TLSv1_3 \<in> set (protocol_versions cfg) \<and> is_ok (verify [1]) then
         Some \<lparr>ng_group = Some X25519MLKEM768, ng_version = Some TLSv1_3, ng_alpn = Some ALPN, ng_presented = [1]\<rparr>
       else None)\<rparr>"

lemma demo_tls_ok: "tls_ok demo_tls"
  by (auto simp: tls_ok_def demo_tls_def is_ok_iff)

lemma demo_accepts:
  "Listener_accept demo_tls True \<lparr>li_public = [2], li_pkcs8 = []\<rparr> [1] (Inr (frame_bytes ALPN @ rest)) =
   send_frame ALPN ((new_channel [1] (frame_bytes ALPN @ rest))\<lparr>ch_in := rest\<rparr>)"
proof -
  have "expect_hello (new_channel [1] (frame_bytes ALPN @ rest)) =
      Inr ((new_channel [1] (frame_bytes ALPN @ rest))\<lparr>ch_in := rest\<rparr>)"
    by (rule expect_hello_ready) (simp add: new_channel_def)
  then show ?thesis
    by (simp add: Listener_accept_def server_session_def server_tls_config_def certified_key_def demo_tls_def
        hybrid_pq_groups_def pinned_client_cert_def matches_pin_def)
qed

theorem sessions_are_pinned_and_hybrid_witness:
  "\<exists>c. Listener_accept demo_tls True \<lparr>li_public = [2], li_pkcs8 = []\<rparr> [1] (Inr (frame_bytes ALPN @ [7])) = Inr c \<and>
     ch_peer c = [1] \<and> ch_in c = [7]"
proof -
  obtain c where c: "Listener_accept demo_tls True \<lparr>li_public = [2], li_pkcs8 = []\<rparr> [1] (Inr (frame_bytes ALPN @ [7])) = Inr c"
    using send_hello unfolding demo_accepts by blast
  from sessions_are_pinned_and_hybrid [OF demo_tls_ok disjI2 [OF disjI2 [OF disjI2 [OF disjI1 [OF this]]]]] c show ?thesis by simp
qed

text \<open>Two honest ends over QUIC whose handshakes both complete establish a session: the accepting
  side reads the hello the dialling side wrote and answers it, the dialling side reads that answer,
  and everything either side sends afterwards reaches the other in order.\<close>

theorem honest_ends_establish_a_session:
  assumes "is_ok (client_tls_config T A pB)" "is_ok (server_tls_config T B pA)"
    and "\<And>cfg. client_tls_config T A pB = Inr cfg \<Longrightarrow> handshake T cfg (pinned_server_cert pB) \<noteq> None"
    and "\<And>cfg. server_tls_config T B pA = Inr cfg \<Longrightarrow> handshake T cfg (pinned_client_cert pA) \<noteq> None"
    and "\<forall>m \<in> set ms. length m \<le> MAX_FRAME_LEN" "\<forall>m \<in> set ms'. length m \<le> MAX_FRAME_LEN"
  shows "\<exists>a b. dial T True A pB (Inr (frame_bytes ALPN @ concat (map frame_bytes ms'))) = Inr a \<and> ch_out a = frame_bytes ALPN \<and>
    Listener_accept T True B pA (Inr (ch_out a @ concat (map frame_bytes ms))) = Inr b \<and> ch_out b = frame_bytes ALPN \<and>
    read_frames (ch_in a) = (ms', Inr ()) \<and> read_frames (ch_in b) = (ms, Inr ())"
proof -
  let ?in = "concat (map frame_bytes ms)" and ?in' = "concat (map frame_bytes ms')"
  obtain ca where ca: "client_tls_config T A pB = Inr ca" using assms(1) by (auto simp: is_ok_iff)
  obtain cb where cb: "server_tls_config T B pA = Inr cb" using assms(2) by (auto simp: is_ok_iff)
  obtain a1 where a1: "send_frame ALPN (new_channel pB (frame_bytes ALPN @ ?in')) = Inr a1"
    "ch_out a1 = frame_bytes ALPN" "ch_in a1 = frame_bytes ALPN @ ?in'"
    using send_hello [of "new_channel pB (frame_bytes ALPN @ ?in')"] by (auto simp: new_channel_def)
  have "dial T True A pB (Inr (frame_bytes ALPN @ ?in')) = Inr (a1\<lparr>ch_in := ?in'\<rparr>)"
    using ca assms(3) [OF ca] a1(1) expect_hello_ready [OF a1(3)] by (auto simp: dial_def client_session_def)
  moreover
  let ?b0 = "(new_channel pA (frame_bytes ALPN @ ?in))\<lparr>ch_in := ?in\<rparr>"
  have "expect_hello (new_channel pA (frame_bytes ALPN @ ?in)) = Inr ?b0"
    by (rule expect_hello_ready) (simp add: new_channel_def)
  moreover obtain b where b: "send_frame ALPN ?b0 = Inr b" "ch_out b = frame_bytes ALPN" "ch_in b = ?in"
    using send_hello [of ?b0] by (auto simp: new_channel_def)
  ultimately have "dial T True A pB (Inr (frame_bytes ALPN @ ?in')) = Inr (a1\<lparr>ch_in := ?in'\<rparr>)"
    "Listener_accept T True B pA (Inr (frame_bytes ALPN @ ?in)) = Inr b"
    using cb assms(4) [OF cb] by (auto simp: Listener_accept_def server_session_def)
  moreover have "read_frames ?in' = (ms', Inr ())" "read_frames ?in = (ms, Inr ())"
    using read_frames_append [OF assms(5), of "[]"] read_frames_append [OF assms(6), of "[]"] by simp_all
  ultimately show ?thesis using a1(2) b(2,3) by (intro exI [of _ "a1\<lparr>ch_in := ?in'\<rparr>"] exI [of _ b]) simp
qed

theorem honest_ends_establish_a_session_witness:
  "\<exists>a b. dial demo_tls True \<lparr>li_public = [1], li_pkcs8 = []\<rparr> [1] (Inr (frame_bytes ALPN @ concat (map frame_bytes [[5]]))) = Inr a \<and>
     Listener_accept demo_tls True \<lparr>li_public = [1], li_pkcs8 = []\<rparr> [1] (Inr (ch_out a @ concat (map frame_bytes [[6]]))) = Inr b \<and>
     read_frames (ch_in a) = ([[5]], Inr ()) \<and> read_frames (ch_in b) = ([[6]], Inr ())"
proof -
  let ?i = "\<lparr>li_public = [1], li_pkcs8 = []\<rparr> :: LocalIdentity"
  have "is_ok (client_tls_config demo_tls ?i [1])" "is_ok (server_tls_config demo_tls ?i [1])"
    by (simp_all add: client_tls_config_def server_tls_config_def certified_key_def demo_tls_def)
  moreover have "handshake demo_tls cfg (pinned_server_cert [1]) \<noteq> None" if "client_tls_config demo_tls ?i [1] = Inr cfg" for cfg
    using that hybrid_configs(1) [OF that] by (auto simp: demo_tls_def pinned_server_cert_def matches_pin_def)
  moreover have "handshake demo_tls cfg (pinned_client_cert [1]) \<noteq> None" if "server_tls_config demo_tls ?i [1] = Inr cfg" for cfg
    using that hybrid_configs(2) [OF that] by (auto simp: demo_tls_def pinned_client_cert_def matches_pin_def)
  ultimately show ?thesis
    using honest_ends_establish_a_session [of demo_tls ?i "[1]" ?i "[1]" "[[6]]" "[[5]]"] by (auto simp: MAX_FRAME_LEN_def)
qed

text \<open>C26. The intra-session ratchet: with an interval of at least one byte, fewer bytes than the
  interval are ever pending, and any run of messages sent without a key update amounts to fewer bytes
  than the interval, whatever the sizes of the messages.\<close>

theorem one_key_carries_less_than_the_interval:
  assumes "bytes_since_update c < key_update_bytes c"
  shows "bytes_since_update (fold account_sent ns c) < key_update_bytes c \<and>
    (key_updates (fold account_sent ns c) = key_updates c \<longrightarrow>
       sum_list (map unat ns) < unat (key_update_bytes c)) \<and>
    bytes_since_update (set_key_update_interval k (new_channel p i)) < key_update_bytes (set_key_update_interval k (new_channel p i))"
proof -
  have p: "0 < key_update_bytes c" using assms by (simp add: word_less_nat_alt)
  have "bytes_since_update (fold account_sent ns c) < key_update_bytes c \<and> key_update_bytes (fold account_sent ns c) = key_update_bytes c"
    using assms p
  proof (induction ns arbitrary: c)
    case (Cons n ns)
    have "bytes_since_update (account_sent n c) < key_update_bytes (account_sent n c)"
      using account_sent_bound [OF Cons.prems(2)] by simp
    from Cons.IH [OF this] Cons.prems(2) show ?case by simp
  qed simp
  moreover have "sum_list (map unat ns) < unat (key_update_bytes c)"
    if "key_updates (fold account_sent ns c) = key_updates c"
    using one_key_bound [OF that assms] by simp
  moreover have "(0 :: u64) < max k 1" by (simp add: max_def word_less_nat_alt word_le_nat_alt)
  ultimately show ?thesis by (simp add: set_key_update_interval_def new_channel_def)
qed

theorem one_key_carries_less_than_the_interval_witness:
  "bytes_since_update (fold account_sent [3, 4, 5] (set_key_update_interval 8 (new_channel [] []))) < 8"
  using one_key_carries_less_than_the_interval [of "set_key_update_interval 8 (new_channel [] [])" "[3, 4, 5]" 8 "[]" "[]"]
  by (simp add: set_key_update_interval_def new_channel_def)

end
