(* ===== verification/Explorer.thy ===== *)
theory Explorer
  imports Shell
begin

text \<open>
  The file operations of the graphical explorer on an open vault (\<open>atom/src/gui/explorer.rs\<close>). They
  are those of the shell, without \<open>vacuum\<close> and with renaming, which only the explorer has.
\<close>

section \<open>Names\<close>

definition is_valid_vfs_filename :: "string \<Rightarrow> bool" where
  "is_valid_vfs_filename name \<longleftrightarrow>
     name \<noteq> [] \<and> CHR ''/'' \<notin> set name \<and> CHR 0x5C \<notin> set name \<and> CHR 0x00 \<notin> set name"

section \<open>Renaming\<close>

text \<open>
  The confirmed rename dialog on the session: how it ends, and the session it leaves behind. A name
  that is not in the table any more leaves the dialog silently; when the metadata cannot be saved the
  table in memory keeps the new name.
\<close>

datatype rename_end = InvalidName | NameInUse | NoSuchEntry | SaveFailed vault_error | RenamedTo string

definition rename_entry ::
    "vault_lib \<Rightarrow> UnlockedVault \<Rightarrow> string \<Rightarrow> string \<Rightarrow> session \<Rightarrow> session \<times> rename_end" where
  "rename_entry L uv old_name new_name s =
     (if \<not> is_valid_vfs_filename new_name then (s, InvalidName)
      else if name_taken new_name s then (s, NameInUse)
      else case update_first (\<lambda>f. vfs_name f = old_name) (\<lambda>f. f\<lparr>vfs_name := new_name\<rparr>) (file_table (meta s)) of
        None \<Rightarrow> (s, NoSuchEntry)
      | Some ft \<Rightarrow>
          let s1 = s\<lparr>meta := (meta s)\<lparr>file_table := ft\<rparr>\<rparr> in
          (case save_vault_metadata L (meta s1) uv (payload_offset s) (phys s) (rand s) of
             Inl e \<Rightarrow> (s1, SaveFailed e)
           | Inr (f, g) \<Rightarrow> (s1\<lparr>phys := f, rand := g\<rparr>, RenamedTo new_name)))"

fun rename_result :: "rename_end \<Rightarrow> vault_error + unit" where
  "rename_result (RenamedTo n) = Inr ()"
| "rename_result (SaveFailed e) = Inl e"
| "rename_result NameInUse = Inl (NameExists [])"
| "rename_result _ = Inl (NameNotFound [])"

lemma update_first_split:
  assumes "update_first P f xs = Some ys"
  obtains as x bs where "xs = as @ x # bs" "ys = as @ f x # bs" "P x" "\<forall>a \<in> set as. \<not> P a"
  using assms
proof (induction xs arbitrary: ys thesis)
  case (Cons x xs)
  show ?case
  proof (cases "P x")
    case True
    with Cons.prems(2) show ?thesis by (intro Cons.prems(1) [of "[]" x xs]) auto
  next
    case False
    with Cons.prems(2) obtain zs where zs: "update_first P f xs = Some zs" "ys = x # zs" by auto
    obtain as y bs where "xs = as @ y # bs" "zs = as @ f y # bs" "P y" "\<forall>a \<in> set as. \<not> P a"
      by (rule Cons.IH [OF _ zs(1)])
    with False zs(2) show ?thesis by (intro Cons.prems(1) [of "x # as" y bs]) simp_all
  qed
qed simp

lemma rename_cases:
  assumes "rename_entry L uv old_name new_name s = (s', RenamedTo n)"
  obtains xs e zs where "n = new_name" "is_valid_vfs_filename new_name" "\<not> name_taken new_name s"
    "file_table (meta s) = xs @ e # zs" "vfs_name e = old_name" "old_name \<notin> vfs_name ` set xs"
    "meta s' = (meta s)\<lparr>file_table := xs @ e\<lparr>vfs_name := new_name\<rparr> # zs\<rparr>" "payload_offset s' = payload_offset s"
    "save_vault_metadata L (meta s') uv (payload_offset s) (phys s) (rand s) = Inr (phys s', rand s')"
proof -
  let ?u = "update_first (\<lambda>f. vfs_name f = old_name) (\<lambda>f. f\<lparr>vfs_name := new_name\<rparr>) (file_table (meta s))"
  from assms obtain ft where u: "?u = Some ft"
    and r: "n = new_name" "is_valid_vfs_filename new_name" "\<not> name_taken new_name s"
      "meta s' = (meta s)\<lparr>file_table := ft\<rparr>" "payload_offset s' = payload_offset s"
      "save_vault_metadata L (meta s') uv (payload_offset s) (phys s) (rand s) = Inr (phys s', rand s')"
    by (auto simp: rename_entry_def Let_def split: if_splits option.splits sum.splits prod.splits)
  from u obtain xs e zs where "file_table (meta s) = xs @ e # zs" "ft = xs @ e\<lparr>vfs_name := new_name\<rparr> # zs"
    "vfs_name e = old_name" "\<forall>a \<in> set xs. vfs_name a \<noteq> old_name" by (rule update_first_split)
  with r show ?thesis by (intro that [of xs e zs]) auto
qed

lemma find_file_renamed:
  assumes "file_table md = xs @ e # zs" "vfs_name e = old_name" "distinct (map vfs_name (file_table md))"
    "new_name \<notin> vfs_name ` set (file_table md)" "file_table md' = xs @ e\<lparr>vfs_name := new_name\<rparr> # zs"
  shows "map_option chunks (find_file n md') =
    (if n = new_name then Some (chunks e) else if n = old_name then None else map_option chunks (find_file n md))"
proof -
  have out: "new_name \<notin> vfs_name ` set xs" "old_name \<notin> vfs_name ` set xs" "old_name \<notin> vfs_name ` set zs"
    "new_name \<notin> vfs_name ` set zs" "new_name \<noteq> old_name"
    using assms by auto
  have nf: "m \<notin> vfs_name ` set ys \<Longrightarrow> find (\<lambda>f. vfs_name f = m) ys = None" for m ys
    by (auto simp: find_None_iff)
  show ?thesis
    using assms(1,2,5) nf [OF out(1)] nf [OF out(2)] nf [OF out(3)] out(5)
    by (auto simp: find_file_def find_append split: option.splits)
qed

lemma find_file_split:
  assumes "file_table md = xs @ e # zs" "vfs_name e = n" "n \<notin> vfs_name ` set xs"
  shows "find_file n md = Some e"
proof -
  from assms(3) have "find (\<lambda>f. vfs_name f = n) xs = None" by (auto simp: find_None_iff)
  with assms(1,2) show ?thesis by (simp add: find_file_def find_append)
qed

text \<open>
  A rename moves the contents from one name to the other and leaves every other file alone, and the
  file on disk opens again to the renamed table.
\<close>

lemma rename_inv:
  assumes "vault_inv s" "rename_entry L uv old_name new_name s = (s', RenamedTo n)"
  shows "vault_inv s'"
    and "vault_view L uv s' = (vault_view L uv s)(new_name := vault_view L uv s old_name, old_name := None)"
    and "header_unlocks L (fbytes (phys s)) pw uv \<Longrightarrow> aead_ok (crypto L) \<Longrightarrow> bincode_ok L \<Longrightarrow>
         payload_offset s < 2 ^ 64 \<Longrightarrow>
         length (fbytes (phys s')) \<le> payload_offset s + METADATA_LIMIT \<Longrightarrow> synced L pw uv s'"
proof -
  from assms(2) obtain xs e zs where r: "\<not> name_taken new_name s"
    "file_table (meta s) = xs @ e # zs" "vfs_name e = old_name"
    "meta s' = (meta s)\<lparr>file_table := xs @ e\<lparr>vfs_name := new_name\<rparr> # zs\<rparr>" "payload_offset s' = payload_offset s"
    "save_vault_metadata L (meta s') uv (payload_offset s) (phys s) (rand s) = Inr (phys s', rand s')"
    by (rule rename_cases)
  have inv: "125 \<le> payload_offset s" "payload_offset s \<le> length (fbytes (phys s))"
    "distinct (map vfs_name (file_table (meta s)))"
    "\<forall>c \<in> set (all_chunks (meta s)). within 125 (payload_offset s) c" "disjoint_chunks (all_chunks (meta s))"
    using assms(1) by (simp_all add: vault_inv_def)
  from r(1) have fresh: "new_name \<notin> vfs_name ` set (file_table (meta s))" by (simp add: name_taken_iff)
  have ac: "all_chunks (meta s') = all_chunks (meta s)" using r(2,4) by (simp add: all_chunks_def)
  have len: "payload_offset s \<le> length (fbytes (phys s'))"
    using save_length [OF r(6)] inv(1,2) by simp
  have dist: "distinct (map vfs_name (file_table (meta s')))" using inv(3) fresh r(2,3,4) by auto
  show "vault_inv s'" using inv ac len dist r(5) by (simp add: vault_inv_def)
  have sl: "slice i m (fbytes (phys s')) = slice i m (fbytes (phys s))" if "125 \<le> i" "i + m \<le> payload_offset s" for i m
    using save_slice [OF r(6)] inv(1,2) that by simp
  have pl: "plains L uv (fbytes (phys s')) (chunks d) = plains L uv (fbytes (phys s)) (chunks d)"
    if "find_file m (meta s) = Some d" for m d
    by (rule plains_region [OF _ inv(2) len sl]) (use find_file_chunks [OF that] inv(4) in auto)
  have vw: "vault_view L uv t m = map_option (plains L uv (fbytes (phys t))) (map_option chunks (find_file m (meta t)))" for t m
    by (simp add: vault_view_def option.map_comp comp_def)
  have ft': "file_table (meta s') = xs @ e\<lparr>vfs_name := new_name\<rparr> # zs" using r(4) by simp
  have old: "find_file old_name (meta s) = Some e"
    by (rule find_file_split [OF r(2,3)]) (use r(2,3) inv(3) in auto)
  have "old_name \<noteq> new_name" using fresh r(2,3) by auto
  moreover have "vault_view L uv s' m = vault_view L uv s m" if "m \<noteq> new_name" "m \<noteq> old_name" for m
    using that pl [of m] unfolding vw find_file_renamed [OF r(2,3) inv(3) fresh ft']
    by (cases "find_file m (meta s)") simp_all
  ultimately
  show "vault_view L uv s' = (vault_view L uv s)(new_name := vault_view L uv s old_name, old_name := None)"
    using pl [OF old] old unfolding fun_eq_iff vw find_file_renamed [OF r(2,3) inv(3) fresh ft'] by simp
  assume h: "header_unlocks L (fbytes (phys s)) pw uv" "aead_ok (crypto L)" "bincode_ok L"
    "payload_offset s < 2 ^ 64" "length (fbytes (phys s')) \<le> payload_offset s + METADATA_LIMIT"
  show "synced L pw uv s'"
    by (rule synced_after_save [OF h(2,3,1) inv(1,2) h(4) r(6) h(5)]) (simp_all add: r(5))
qed

lemma rename_fails:
  assumes "save_total L uv" "rename_entry L uv old_name new_name s = (s', r)" "\<And>n. r \<noteq> RenamedTo n"
  shows "s' = s"
  using assms save_total_not_Inl [OF assms(1)]
  by (auto simp: rename_entry_def Let_def split: if_splits option.splits sum.splits prod.splits)

section \<open>The explorer as a machine over the contents of a vault\<close>

datatype explorer_cmd = EImport bytes string | EDelete string | ERename string string

definition exec_explorer ::
    "vault_lib \<times> UnlockedVault \<times> u64 \<Rightarrow> explorer_cmd \<Rightarrow> session \<Rightarrow> unit outcome" where
  "exec_explorer p c s =
     (case p of (L, uv, now) \<Rightarrow>
      (case c of
         EImport data name \<Rightarrow> handle_import_from_bytes L uv data name now s
       | EDelete name \<Rightarrow> handle_rm L uv name s
       | ERename old new \<Rightarrow> map_prod id rename_result (rename_entry L uv old new s)))"

fun spec_explorer :: "explorer_cmd \<Rightarrow> (string \<rightharpoonup> 'e + bytes) \<Rightarrow> (string \<rightharpoonup> 'e + bytes)" where
  "spec_explorer (EImport data name) m = m(name \<mapsto> Inr data)"
| "spec_explorer (EDelete name) m = m(name := None)"
| "spec_explorer (ERename old new) m = m(new := m old, old := None)"

definition explorer_ok :: "vault_lib \<times> UnlockedVault \<times> u64 \<Rightarrow> bool" where
  "explorer_ok p \<longleftrightarrow> (case p of (L, uv, now) \<Rightarrow> aead_ok (crypto L) \<and> fastcdc_ok L \<and> save_total L uv)"

definition explorer_view :: "vault_lib \<times> UnlockedVault \<times> u64 \<Rightarrow> session \<Rightarrow> (string \<rightharpoonup> vault_error + bytes)" where
  "explorer_view p s = (case p of (L, uv, now) \<Rightarrow> vault_view L uv s)"

lemma rename_result_Inr: "rename_result r = Inr u \<longleftrightarrow> (\<exists>n. r = RenamedTo n)"
  by (cases r) auto

lemma exec_explorer_ok:
  assumes "explorer_ok p" "vault_inv s" "exec_explorer p c s = (s', Inr ())"
  shows "vault_inv s' \<and> explorer_view p s' = spec_explorer c (explorer_view p s)"
proof -
  obtain L uv now where p: "p = (L, uv, now)" by (cases p) auto
  from assms(1) have l: "aead_ok (crypto L)" "fastcdc_ok L" by (simp_all add: p explorer_ok_def)
  show ?thesis
  proof (cases c)
    case (EImport d name)
    with assms(3) have "handle_import_from_bytes L uv d name now s = (s', Inr ())"
      by (simp add: p exec_explorer_def)
    from import_inv(1,2) [OF l assms(2) this] EImport show ?thesis by (simp add: p explorer_view_def)
  next
    case (EDelete name)
    with assms(3) have "handle_rm L uv name s = (s', Inr ())" by (simp add: p exec_explorer_def)
    from rm_inv(1,2) [OF assms(2) this] EDelete show ?thesis by (simp add: p explorer_view_def)
  next
    case (ERename old new)
    obtain t r where t: "rename_entry L uv old new s = (t, r)" by fastforce
    with assms(3) ERename obtain n where "t = s'" "r = RenamedTo n"
      by (auto simp: p exec_explorer_def rename_result_Inr)
    with t rename_inv(1,2) [OF assms(2)] ERename show ?thesis by (simp add: p explorer_view_def)
  qed
qed

lemma exec_explorer_err:
  assumes "explorer_ok p" "vault_inv s" "exec_explorer p c s = (s', Inl e)"
  shows "vault_inv s' \<and> explorer_view p s' = explorer_view p s"
proof -
  obtain L uv now where p: "p = (L, uv, now)" by (cases p) auto
  from assms(1) have l: "save_total L uv" by (simp add: p explorer_ok_def)
  show ?thesis
  proof (cases c)
    case (EImport d name)
    with assms(3) have "handle_import_from_bytes L uv d name now s = (s', Inl e)"
      by (simp add: p exec_explorer_def)
    from import_fails [OF assms(2) l this] show ?thesis by (simp add: p explorer_view_def)
  next
    case (EDelete name)
    with assms(3) have "handle_rm L uv name s = (s', Inl e)" by (simp add: p exec_explorer_def)
    from rm_fails [OF l this] assms(2) show ?thesis by simp
  next
    case (ERename old new)
    obtain t r where t: "rename_entry L uv old new s = (t, r)" by fastforce
    with assms(3) ERename have "t = s'" "\<And>n. r \<noteq> RenamedTo n" by (auto simp: p exec_explorer_def)
    with rename_fails [OF l t] assms(2) show ?thesis by simp
  qed
qed

interpretation explorer_machine: command_machine explorer_ok vault_inv explorer_view exec_explorer spec_explorer
  by unfold_locales (fact exec_explorer_ok, fact exec_explorer_err)

end
