(* ===== verification/GuiApp.thy ===== *)
theory GuiApp
  imports Broker Explorer Registry Friends Blind
begin

text \<open>
  The graphical interface over one vault (\<open>atom/src/gui/mod.rs\<close>, \<open>home.rs\<close>, \<open>login.rs\<close>,
  \<open>explorer.rs\<close>): the state of the application, what each control does, and what is polled in every
  frame. Drawing is left out; a control acts only on the screen that shows it. The record \<open>gui\<close> adds
  to the application what it acts on: the broker with the files of the host, the ruleset in force, the
  registry of vaults, the address book, and the exit code once the process has ended.
\<close>

section \<open>State\<close>

datatype Screen = Home | Login | VaultExplorer | CreateVault | P2PDialog

text \<open>
  An open vault: the resolved path its handle was opened on, the key, and the session. What the handle
  reads is what the file holds at that moment.
\<close>

record OpenVault =
  ov_path :: path
  ov_key :: UnlockedVault
  ov_session :: session

record RenameState =
  old_name :: string
  new_name :: string

record create_form =
  create_name :: string
  create_pass :: string
  create_confirm :: string
  create_show_password :: bool
  create_kdf_argon :: bool
  create_dec_time :: string
  create_memory :: string
  create_rounds :: string
  create_threads :: string
  create_status :: string

record AtomVaultApp =
  screen :: Screen
  vault_registry :: "VaultEntry list"
  friends_full :: "FriendRecord list"
  friends_cache :: "string list"
  home_status :: string
  selected_vault_path :: "string option"
  password :: string
  login_status :: string
  sandbox_applied :: bool
  pending_vault_path :: "string option"
  pending_import_path :: "string option"
  pending_create_path :: "string option"
  pending_export_path :: "string option"
  pending_import_bytes :: "nat option"
  pending_import_vfs_name :: string
  pending_export_vfs_name :: "string option"
  pending_export_write_result :: "nat option"
  vault_session :: "OpenVault option"
  current_vault_path :: string
  explorer_status :: string
  viewer_done :: "(nat \<times> string) option"
  pending_viewer_spawn :: "nat option"
  create_vault_form :: create_form
  rename_dialog :: "RenameState option"

record gui = AtomVaultApp +
  file_broker :: broker
  landlock_rules :: "rule list option"
  registry_home :: RegistryHome
  friends_home :: Friends.Home
  done_flags :: "nat list"
  next_cell :: nat
  gui_rand :: rng
  exit_code :: "nat option"

text \<open>The system around one event: the libraries, the clock, and what the operating system answers.\<close>

record gui_env =
  ge_vault :: vault_lib
  ge_landlock :: landlock
  ge_os :: os
  ge_config :: crypto_lib
  ge_registry :: registry_lib
  ge_json :: json_lib
  ge_exists :: "string \<Rightarrow> bool"
  ge_openable :: "path \<Rightarrow> bool"
  ge_now :: u64
  ge_threads :: u32
  ge_measured :: nat
  ge_mkdir_ok :: bool
  ge_left_behind :: bytes
  ge_io_error :: string
  ge_show :: "vault_error \<Rightarrow> string"
  ge_words :: "string list"
  ge_broker :: broker_env

definition exit_with :: "nat \<Rightarrow> gui \<Rightarrow> gui" where
  "exit_with code g = g\<lparr>exit_code := Some code\<rparr>"

definition gui_host :: "gui \<Rightarrow> host" where
  "gui_host g = br_host (file_broker g)"

definition write_disk :: "path \<Rightarrow> bytes \<Rightarrow> gui \<Rightarrow> gui" where
  "write_disk p b g =
     g\<lparr>file_broker := (file_broker g)\<lparr>br_host := (gui_host g)\<lparr>disk := (disk (gui_host g))(p \<mapsto> b)\<rparr>\<rparr>\<rparr>"

definition process_allows :: "gui_env \<Rightarrow> gui \<Rightarrow> path \<Rightarrow> AccessFs \<Rightarrow> bool" where
  "process_allows E g p a \<longleftrightarrow>
     (case landlock_rules g of None \<Rightarrow> True | Some rs \<Rightarrow> kernel_allows (ge_landlock E) rs p a)"

text \<open>The open vault as its handle sees it, and what a command on it leaves behind.\<close>

definition attached :: "gui \<Rightarrow> OpenVault \<Rightarrow> session" where
  "attached g v =
     (let s = ov_session v in
      case disk (gui_host g) (ov_path v) of
        None \<Rightarrow> s
      | Some b \<Rightarrow> s\<lparr>phys := (phys s)\<lparr>fbytes := b\<rparr>\<rparr>)"

definition keep_session :: "OpenVault \<Rightarrow> session \<Rightarrow> gui \<Rightarrow> gui" where
  "keep_session v s g =
     (let g1 = g\<lparr>vault_session := Some (v\<lparr>ov_session := s\<rparr>)\<rparr> in
      if disk (gui_host g) (ov_path v) = None then g1 else write_disk (ov_path v) (fbytes (phys s)) g1)"

section \<open>The registry and the address book\<close>

text \<open>A registry that cannot be decrypted ends the process.\<close>

definition reload_registry :: "gui_env \<Rightarrow> gui \<Rightarrow> gui" where
  "reload_registry E g =
     (case load_vault_registry (ge_config E) (ge_registry E) (ge_exists E) (registry_home g) of
        Inl _ \<Rightarrow> exit_with 1 g
      | Inr es \<Rightarrow> g\<lparr>vault_registry := es\<rparr>)"

definition register_path :: "gui_env \<Rightarrow> string \<Rightarrow> gui \<Rightarrow> gui" where
  "register_path E path g =
     (case register_vault (ge_config E) (ge_registry E) (ge_exists E) path (ge_now E) (gui_rand g) (registry_home g) of
        Inl _ \<Rightarrow> exit_with 1 g
      | Inr h \<Rightarrow> reload_registry E (g\<lparr>registry_home := h\<rparr>))"

definition reload_friends :: "gui_env \<Rightarrow> gui \<Rightarrow> gui" where
  "reload_friends E g =
     (case load_friends (ge_config E) (ge_json E) (friends_home g) of
        Inl _ \<Rightarrow> exit_with 1 g
      | Inr fs \<Rightarrow> g\<lparr>friends_full := fs\<rparr>)"

text \<open>The handlers stop where the process ends.\<close>

definition if_running :: "(gui \<Rightarrow> gui) \<Rightarrow> gui \<Rightarrow> gui" where
  "if_running f g = (if exit_code g = None then f g else g)"

section \<open>Unlocking\<close>

text \<open>
  \<open>landlock_rules\<close> is the ruleset of the thread that runs the interface, which is the one that opens vaults and
  creates them. Landlock binds that thread and the threads it starts later; the broker's thread runs already
  and is not bound by it, which is why it takes the request's own rules in \<open>handle_request\<close>.
\<close>

definition lock_process :: "gui_env \<Rightarrow> string \<Rightarrow> gui \<Rightarrow> gui" where
  "lock_process E path g =
     (if sandbox_applied g then g
      else case snd (apply_gui_vault_sandbox (ge_landlock E) (ge_os E) path) of
        Inl code \<Rightarrow> exit_with code g
      | Inr rules \<Rightarrow> g\<lparr>landlock_rules := Some rules, sandbox_applied := True\<rparr>)"

definition open_read_write :: "gui_env \<Rightarrow> string \<Rightarrow> gui \<Rightarrow> (path \<times> bytes) option" where
  "open_read_write E path g =
     (case canonicalize (gui_host g) path of
        None \<Rightarrow> None
      | Some p \<Rightarrow>
          (case disk (gui_host g) p of
             None \<Rightarrow> None
           | Some b \<Rightarrow>
               if ge_openable E p \<and> process_allows E g p ReadFile \<and> process_allows E g p WriteFile
               then Some (p, b) else None))"

definition unlock_file :: "gui_env \<Rightarrow> string \<Rightarrow> gui \<Rightarrow> gui" where
  "unlock_file E path g0 =
     (let secure_password = password g0;
          g = g0\<lparr>password := [], login_status := ''Decrypting...''\<rparr>
      in case open_read_write E path g of
           None \<Rightarrow> g\<lparr>login_status := ''Error: Could not open file: '' @ ge_io_error E\<rparr>
         | Some (p, b) \<Rightarrow>
             (case load_vault_metadata (ge_vault E) (str_bytes secure_password) \<lparr>fbytes = b, fpos = 0\<rparr> of
                Inl _ \<Rightarrow> g\<lparr>login_status := ''Error: Invalid password or corrupted vault.''\<rparr>
              | Inr ((metadata, uv, off), f) \<Rightarrow>
                  g\<lparr>current_vault_path := path,
                    vault_session := Some \<lparr>ov_path = p, ov_key = uv,
                      ov_session = \<lparr>phys = f, meta = metadata, payload_offset = off, rand = gui_rand g\<rparr>\<rparr>,
                    screen := VaultExplorer, login_status := [], home_status := []\<rparr>))"

definition try_unlock :: "gui_env \<Rightarrow> gui \<Rightarrow> gui" where
  "try_unlock E g =
     (case selected_vault_path g of
        None \<Rightarrow> g\<lparr>login_status := ''Error: Please select a vault first!''\<rparr>
      | Some path \<Rightarrow>
          if password g = [] then g\<lparr>login_status := ''Error: Password cannot be empty!''\<rparr>
          else if_running (unlock_file E path) (if_running (lock_process E path) (register_path E path g)))"

section \<open>Creating a vault\<close>

definition is_valid_vault_name :: "string \<Rightarrow> bool" where
  "is_valid_vault_name name \<longleftrightarrow>
     name \<noteq> [] \<and> CHR ''/'' \<notin> set name \<and> CHR 0x5C \<notin> set name \<and> CHR 0x00 \<notin> set name"

definition parse_u32 :: "string \<Rightarrow> u32 option" where
  "parse_u32 s = map_option word_of_nat (parse_uint 4294967295 s)"

text \<open>
  \<open>handle_create\<close> on the host: the directory is created, then the file, which must not exist yet and
  must be allowed; a failure after that leaves the header behind.
\<close>

definition may_create :: "gui_env \<Rightarrow> gui \<Rightarrow> path \<Rightarrow> bool" where
  "may_create E g p \<longleftrightarrow>
     disk (gui_host g) p = None \<and> creatable (gui_host g) p \<and>
     process_allows E g p ReadFile \<and> process_allows E g p WriteFile \<and> process_allows E g (butlast p) MakeReg"

definition run_create ::
    "gui_env \<Rightarrow> string \<Rightarrow> string \<Rightarrow> string \<Rightarrow> u32 option \<Rightarrow> u32 option \<Rightarrow> u32 option \<Rightarrow> u32 \<Rightarrow> string \<Rightarrow> gui \<Rightarrow>
     gui \<times> (string + unit)" where
  "run_create E folder name kdf mem_arg rounds_arg threads_arg dec_time secure_pass g =
     (if \<not> ge_mkdir_ok E then (g, Inl ''create_dir_all'')
      else let p = resolve_target (gui_host g) (path_join folder (name @ ''.aegis'')) in
      case handle_create (ge_vault E) kdf mem_arg rounds_arg threads_arg (ge_threads E) (ge_measured E) dec_time
             (FromGui secure_pass) (\<not> may_create E g p) (gui_rand g) of
        Inl e \<Rightarrow>
          (case e of Bincode \<Rightarrow> write_disk p (ge_left_behind E) g | MetadataEncrypt _ \<Rightarrow> write_disk p (ge_left_behind E) g | _ \<Rightarrow> g,
           Inl (ge_show E e))
      | Inr (f, r) \<Rightarrow> ((write_disk p (fbytes f) g)\<lparr>gui_rand := r\<rparr>, Inr ()))"

definition set_create_status :: "string \<Rightarrow> gui \<Rightarrow> gui" where
  "set_create_status m g = g\<lparr>create_vault_form := (create_vault_form g)\<lparr>create_status := m\<rparr>\<rparr>"

definition do_create :: "gui_env \<Rightarrow> string \<Rightarrow> string \<Rightarrow> string \<Rightarrow> gui \<Rightarrow> gui" where
  "do_create E full_path folder name g =
     (let f = create_vault_form g;
          g1 = g\<lparr>create_vault_form := f\<lparr>create_pass := [], create_confirm := [],
                   create_status := ''Deriving keys, please wait...''\<rparr>\<rparr>
      in case run_create E folder name (if create_kdf_argon f then ''argon2id'' else ''scrypt'')
                (parse_u32 (create_memory f)) (parse_u32 (create_rounds f)) (parse_u32 (create_threads f))
                (unwrap_or 1000 (parse_u32 (create_dec_time f))) (create_pass f) g1 of
           (g2, Inl e) \<Rightarrow> set_create_status (''Error: '' @ e) g2
         | (g2, Inr _) \<Rightarrow>
             if_running (\<lambda>g3. g3\<lparr>home_status := ''Vault '' @ CHR 0x27 # name @ CHR 0x27 # '' created. Select it to unlock.'',
                 create_vault_form := (create_vault_form g3)\<lparr>create_name := [], create_status := []\<rparr>,
                 screen := Home\<rparr>)
               (register_path E full_path g2))"

definition do_create_vault_at_path :: "gui_env \<Rightarrow> string \<Rightarrow> gui \<Rightarrow> gui" where
  "do_create_vault_at_path E full_path g =
     (let name = unwrap_or (create_name (create_vault_form g)) (file_stem full_path) in
      case path_parent full_path of
        None \<Rightarrow> set_create_status ''Error: Invalid save path.'' g
      | Some folder \<Rightarrow> if_running (do_create E full_path folder name) (lock_process E full_path g))"

definition click_create :: "gui_env \<Rightarrow> gui \<Rightarrow> gui" where
  "click_create E g =
     (let f = create_vault_form g; name = create_name f in
      if \<not> is_valid_vault_name name then set_create_status ''Invalid or empty vault name.'' g
      else if create_pass f = [] then set_create_status ''Password cannot be empty.'' g
      else if create_pass f \<noteq> create_confirm f then set_create_status ''Passwords do not match.'' g
      else case os_home_dir (ge_os E) of
        Some home_dir \<Rightarrow> do_create_vault_at_path E (path_join (path_join home_dir ''.atom_vault'') (name @ ''.aegis'')) g
      | None \<Rightarrow> set_create_status ''Error: Cannot determine home directory.'' g)"

definition click_generate :: "gui_env \<Rightarrow> gui \<Rightarrow> gui" where
  "click_generate E g =
     (let pass = join '' '' (take 10 (ge_words E)) in
      g\<lparr>create_vault_form := (create_vault_form g)\<lparr>create_pass := pass, create_confirm := pass,
          create_show_password := True,
          create_status := ''Passphrase generated! Toggle Show to view and copy.''\<rparr>\<rparr>)"

section \<open>The files of the open vault\<close>

definition do_import_bytes :: "gui_env \<Rightarrow> bytes \<Rightarrow> gui \<Rightarrow> gui" where
  "do_import_bytes E data g0 =
     (let vfs = pending_import_vfs_name g0; g = g0\<lparr>pending_import_vfs_name := []\<rparr> in
      case vault_session g of
        None \<Rightarrow> g
      | Some v \<Rightarrow>
          (case handle_import_from_bytes (ge_vault E) (ov_key v) data vfs (ge_now E) (attached g v) of
             (s, Inr _) \<Rightarrow> (keep_session v s g)\<lparr>explorer_status := ''Success: '' @ vfs @ '' imported.''\<rparr>
           | (s, Inl e) \<Rightarrow> (keep_session v s g)\<lparr>explorer_status := ''Import Error: '' @ ge_show E e\<rparr>))"

definition send_to_broker :: "(nat \<Rightarrow> BrokerRequest) \<Rightarrow> gui \<Rightarrow> nat \<times> gui" where
  "send_to_broker req g =
     (next_cell g, g\<lparr>file_broker := send_request (req (next_cell g)) (file_broker g), next_cell := Suc (next_cell g)\<rparr>)"

definition do_open :: "gui_env \<Rightarrow> string \<Rightarrow> gui \<Rightarrow> gui" where
  "do_open E vfs g0 =
     (case vault_session g0 of
        None \<Rightarrow> g0
      | Some v \<Rightarrow>
          let g = g0\<lparr>explorer_status := ''Opening '' @ vfs @ '' securely...''\<rparr> in
          case decrypt_to_bytes (ge_vault E) (ov_key v) vfs (attached g v) of
            Inl e \<Rightarrow> g\<lparr>explorer_status := ''Open failed: '' @ ge_show E e\<rparr>
          | Inr (data, f) \<Rightarrow>
              let (c, g1) = send_to_broker (OpenViewerRequest data vfs)
                              (keep_session v ((attached g v)\<lparr>phys := f\<rparr>) g)
              in g1\<lparr>pending_viewer_spawn := Some c, viewer_done := Some (c, vfs)\<rparr>)"

definition do_export_file :: "string \<Rightarrow> gui \<Rightarrow> gui" where
  "do_export_file vfs g =
     g\<lparr>pending_export_vfs_name := Some vfs, explorer_status := ''Choose where to save the decrypted file...''\<rparr>"

definition do_export_via_broker :: "gui_env \<Rightarrow> string \<Rightarrow> string \<Rightarrow> gui \<Rightarrow> gui" where
  "do_export_via_broker E path vfs g =
     (case vault_session g of
        None \<Rightarrow> g
      | Some v \<Rightarrow>
          (case decrypt_to_bytes (ge_vault E) (ov_key v) vfs (attached g v) of
             Inl e \<Rightarrow> g\<lparr>explorer_status := ''Export Error: '' @ ge_show E e\<rparr>
           | Inr (data, f) \<Rightarrow>
               let (c, g1) = send_to_broker (WriteRequest path data)
                               ((keep_session v ((attached g v)\<lparr>phys := f\<rparr>) g)\<lparr>explorer_status := ''Writing file...''\<rparr>)
               in g1\<lparr>pending_export_write_result := Some c\<rparr>))"

definition do_delete :: "gui_env \<Rightarrow> string \<Rightarrow> gui \<Rightarrow> gui" where
  "do_delete E vfs g =
     (case vault_session g of
        None \<Rightarrow> g
      | Some v \<Rightarrow>
          (case handle_rm (ge_vault E) (ov_key v) vfs (attached g v) of
             (s, Inr _) \<Rightarrow> (keep_session v s g)\<lparr>explorer_status := ''Permanently Shredded: '' @ vfs\<rparr>
           | (s, Inl e) \<Rightarrow> (keep_session v s g)\<lparr>explorer_status := ''Delete failed: '' @ ge_show E e\<rparr>))"

fun rename_status :: "gui_env \<Rightarrow> rename_end \<Rightarrow> string \<Rightarrow> string" where
  "rename_status E InvalidName old = ''Rename Error: Invalid characters.''"
| "rename_status E NameInUse old = ''Rename Error: A file with that name already exists.''"
| "rename_status E NoSuchEntry old = old"
| "rename_status E (SaveFailed e) old = ''Rename Error: Failed to save: '' @ ge_show E e"
| "rename_status E (RenamedTo n) old = ''Renamed to: '' @ n"

definition do_rename :: "gui_env \<Rightarrow> gui \<Rightarrow> gui" where
  "do_rename E g0 =
     (case rename_dialog g0 of
        None \<Rightarrow> g0
      | Some state \<Rightarrow>
          let g = g0\<lparr>rename_dialog := None\<rparr> in
          (case vault_session g of
             None \<Rightarrow>
               if is_valid_vfs_filename (new_name state) then g
               else g\<lparr>explorer_status := rename_status E InvalidName []\<rparr>
           | Some v \<Rightarrow>
               let (s, r) = rename_entry (ge_vault E) (ov_key v) (old_name state) (new_name state) (attached g v)
               in (keep_session v s g)\<lparr>explorer_status := rename_status E r (explorer_status g)\<rparr>))"

section \<open>Polling\<close>

definition poll_vault_path :: "gui \<Rightarrow> gui" where
  "poll_vault_path g =
     (case pending_vault_path g of
        None \<Rightarrow> g
      | Some path \<Rightarrow>
          g\<lparr>pending_vault_path := None, selected_vault_path := Some path,
            login_status := ''Vault selected. Enter master password.'',
            screen := (if screen g = Home then Login else screen g)\<rparr>)"

definition poll_create_path :: "gui_env \<Rightarrow> gui \<Rightarrow> gui" where
  "poll_create_path E g =
     (case pending_create_path g of
        None \<Rightarrow> g
      | Some path \<Rightarrow> do_create_vault_at_path E path (g\<lparr>pending_create_path := None\<rparr>))"

definition poll_import_path :: "gui \<Rightarrow> gui" where
  "poll_import_path g =
     (case pending_import_path g of
        None \<Rightarrow> g
      | Some path \<Rightarrow>
          let (c, g1) = send_to_broker (ReadRequest path)
                (g\<lparr>pending_import_path := None, pending_import_vfs_name := unwrap_or [] (file_name path)\<rparr>)
          in g1\<lparr>pending_import_bytes := Some c, explorer_status := ''Reading file...''\<rparr>)"

definition poll_export_path :: "gui_env \<Rightarrow> gui \<Rightarrow> gui" where
  "poll_export_path E g =
     (case pending_export_path g of
        None \<Rightarrow> g
      | Some path \<Rightarrow>
          let g1 = g\<lparr>pending_export_path := None\<rparr> in
          (case pending_export_vfs_name g1 of
             None \<Rightarrow> g1
           | Some vfs \<Rightarrow> do_export_via_broker E path vfs (g1\<lparr>pending_export_vfs_name := None\<rparr>)))"

definition poll_file_dialog_results :: "gui_env \<Rightarrow> gui \<Rightarrow> gui" where
  "poll_file_dialog_results E g =
     if_running (poll_export_path E) (if_running poll_import_path (poll_create_path E (poll_vault_path g)))"

text \<open>\<open>g.take()\<close> on an answer cell.\<close>

definition take_cell :: "nat \<Rightarrow> gui \<Rightarrow> gui" where
  "take_cell c g = g\<lparr>file_broker := (file_broker g)\<lparr>br_cells := (br_cells (file_broker g))(c := None)\<rparr>\<rparr>"

definition answer_in :: "nat option \<Rightarrow> gui \<Rightarrow> (nat \<times> answer) option" where
  "answer_in m g = Option.bind m (\<lambda>c. map_option (Pair c) (br_cells (file_broker g) c))"

definition poll_import_answer :: "gui_env \<Rightarrow> gui \<Rightarrow> gui" where
  "poll_import_answer E g =
     (case answer_in (pending_import_bytes g) g of
        Some (c, ReadAnswer (Inr data)) \<Rightarrow> do_import_bytes E data ((take_cell c g)\<lparr>pending_import_bytes := None\<rparr>)
      | Some (c, ReadAnswer (Inl e)) \<Rightarrow>
          (take_cell c g)\<lparr>pending_import_bytes := None, explorer_status := ''Import Error: '' @ e\<rparr>
      | _ \<Rightarrow> g)"

definition poll_export_answer :: "gui \<Rightarrow> gui" where
  "poll_export_answer g =
     (case answer_in (pending_export_write_result g) g of
        Some (c, WriteAnswer (Inr _)) \<Rightarrow>
          (take_cell c g)\<lparr>pending_export_write_result := None, explorer_status := ''Success: File exported.''\<rparr>
      | Some (c, WriteAnswer (Inl e)) \<Rightarrow>
          (take_cell c g)\<lparr>pending_export_write_result := None, explorer_status := ''Export Error: '' @ e\<rparr>
      | _ \<Rightarrow> g)"

definition poll_spawn_answer :: "gui \<Rightarrow> gui" where
  "poll_spawn_answer g =
     (case answer_in (pending_viewer_spawn g) g of
        Some (c, OpenAnswer (Inr _)) \<Rightarrow> (take_cell c g)\<lparr>pending_viewer_spawn := None\<rparr>
      | Some (c, OpenAnswer (Inl e)) \<Rightarrow>
          (take_cell c g)\<lparr>pending_viewer_spawn := None, explorer_status := ''Open failed: '' @ e, viewer_done := None\<rparr>
      | _ \<Rightarrow> g)"

definition poll_broker_results :: "gui_env \<Rightarrow> gui \<Rightarrow> gui" where
  "poll_broker_results E g = poll_spawn_answer (poll_export_answer (poll_import_answer E g))"

definition poll_viewer_done :: "gui \<Rightarrow> gui" where
  "poll_viewer_done g =
     (case viewer_done g of
        Some (flag, name) \<Rightarrow>
          if flag \<in> set (done_flags g)
          then g\<lparr>viewer_done := None, explorer_status := ''Closed securely: '' @ name\<rparr> else g
      | None \<Rightarrow> g)"

definition poll_frame :: "gui_env \<Rightarrow> gui \<Rightarrow> gui" where
  "poll_frame E g =
     if_running (\<lambda>g'. poll_broker_results E (poll_viewer_done g')) (poll_file_dialog_results E g)"

end
