(* ===== verification/GuiRun.thy ===== *)
theory GuiRun
  imports GuiApp
begin

text \<open>
  The graphical interface as a machine: the events that reach it (controls, edits, results of file
  dialogs, progress of the broker, frames) and the step each of them is. A control does nothing on a
  screen that does not show it, and nothing happens after the process has ended.
\<close>

section \<open>Events\<close>

datatype FileAction = Open string | Export string | Rename string | Delete string

datatype gui_event =
    Frame
  | PickedVault string | PickedImport string | PickedExport string
  | BrokerDispatch | BrokerFinish nat | ViewerReleased nat
  | EditPassword string | EditCreate create_form | EditRename string
  | ClickOpenEntry string | ClickRemoveEntry string | ClickNew
  | ClickUnlock | ClickBack
  | ClickCreate | ClickGenerate | ClickCancel
  | ClickHome | ClickP2P | ClickFile FileAction | ClickSaveRename | ClickCancelRename
  | ClickBackToVault

fun file_action :: "gui_env \<Rightarrow> FileAction \<Rightarrow> gui \<Rightarrow> gui" where
  "file_action E (Open name) g = do_open E name g"
| "file_action E (Export name) g = do_export_file name g"
| "file_action E (Rename name) g = g\<lparr>rename_dialog := Some \<lparr>old_name = name, new_name = name\<rparr>\<rparr>"
| "file_action E (Delete name) g = do_delete E name g"

definition click_open_entry :: "string \<Rightarrow> gui \<Rightarrow> gui" where
  "click_open_entry path g =
     g\<lparr>selected_vault_path := Some path, login_status := ''Vault selected. Enter master password.'',
       home_status := [], screen := Login\<rparr>"

definition click_remove_entry :: "gui_env \<Rightarrow> string \<Rightarrow> gui \<Rightarrow> gui" where
  "click_remove_entry E path g =
     (case remove_vault_from_registry (ge_config E) (ge_registry E) (ge_exists E) path (gui_rand g) (registry_home g) of
        Inl _ \<Rightarrow> exit_with 1 g
      | Inr h \<Rightarrow> reload_registry E (g\<lparr>registry_home := h\<rparr>))"

definition click_home :: "gui_env \<Rightarrow> gui \<Rightarrow> gui" where
  "click_home E g =
     if_running (\<lambda>g'. g'\<lparr>home_status := [], screen := Home\<rparr>)
       (if_running (reload_friends E) (reload_registry E (g\<lparr>vault_session := None\<rparr>)))"

definition click_p2p :: "gui_env \<Rightarrow> gui \<Rightarrow> gui" where
  "click_p2p E g =
     (case load_friends (ge_config E) (ge_json E) (friends_home g) of
        Inl _ \<Rightarrow> exit_with 1 g
      | Inr fs \<Rightarrow> g\<lparr>friends_cache := map nickname fs, screen := P2PDialog\<rparr>)"

definition edit_rename :: "string \<Rightarrow> gui \<Rightarrow> gui" where
  "edit_rename name g = g\<lparr>rename_dialog := map_option (\<lambda>st. st\<lparr>new_name := name\<rparr>) (rename_dialog g)\<rparr>"

definition edit_create :: "create_form \<Rightarrow> gui \<Rightarrow> gui" where
  "edit_create f g = g\<lparr>create_vault_form := f\<lparr>create_status := create_status (create_vault_form g)\<rparr>\<rparr>"

text \<open>The broker's side: a request is taken from the queue, and a running one is completed.\<close>

definition broker_dispatch :: "broker \<Rightarrow> broker" where
  "broker_dispatch b =
     (case br_queue b of [] \<Rightarrow> b | req # rest \<Rightarrow> b\<lparr>br_queue := rest, br_running := br_running b @ [req]\<rparr>)"

definition broker_finish :: "broker_env \<Rightarrow> nat \<Rightarrow> broker \<Rightarrow> broker" where
  "broker_finish BE i b =
     (if i < length (br_running b)
      then (handle_request BE (br_running b ! i) b)\<lparr>br_running := remove1 (br_running b ! i) (br_running b)\<rparr>
      else b)"

definition listed :: "string \<Rightarrow> gui \<Rightarrow> bool" where
  "listed name g \<longleftrightarrow>
     (case vault_session g of
        None \<Rightarrow> False
      | Some v \<Rightarrow> list_ex (\<lambda>f. vfs_name f = name) (file_table (meta (ov_session v))))"

fun action_name :: "FileAction \<Rightarrow> string" where
  "action_name (Open n) = n"
| "action_name (Export n) = n"
| "action_name (Rename n) = n"
| "action_name (Delete n) = n"

definition on :: "bool \<Rightarrow> (gui \<Rightarrow> gui) \<Rightarrow> gui \<Rightarrow> gui" where
  "on shown f g = (if shown then f g else g)"

definition handle_event :: "gui_env \<Rightarrow> gui_event \<Rightarrow> gui \<Rightarrow> gui" where
  "handle_event E ev g =
     (case ev of
        Frame \<Rightarrow> poll_frame E g
      | PickedVault path \<Rightarrow> g\<lparr>pending_vault_path := Some path\<rparr>
      | PickedImport path \<Rightarrow> g\<lparr>pending_import_path := Some path\<rparr>
      | PickedExport path \<Rightarrow> g\<lparr>pending_export_path := Some path\<rparr>
      | BrokerDispatch \<Rightarrow> g\<lparr>file_broker := broker_dispatch (file_broker g)\<rparr>
      | BrokerFinish i \<Rightarrow> g\<lparr>file_broker := broker_finish (ge_broker E) i (file_broker g)\<rparr>
      | ViewerReleased flag \<Rightarrow> g\<lparr>done_flags := flag # done_flags g\<rparr>
      | EditPassword pw \<Rightarrow> on (screen g = Login) (\<lambda>g. g\<lparr>password := pw\<rparr>) g
      | EditCreate f \<Rightarrow> on (screen g = CreateVault) (edit_create f) g
      | EditRename name \<Rightarrow> on (screen g = VaultExplorer) (edit_rename name) g
      | ClickOpenEntry path \<Rightarrow>
          on (screen g = Home \<and> list_ex (\<lambda>e. ve_path e = path) (vault_registry g) \<and> ge_exists E path)
            (click_open_entry path) g
      | ClickRemoveEntry path \<Rightarrow>
          on (screen g = Home \<and> list_ex (\<lambda>e. ve_path e = path) (vault_registry g)) (click_remove_entry E path) g
      | ClickNew \<Rightarrow> on (screen g = Home) (\<lambda>g. g\<lparr>home_status := [], screen := CreateVault\<rparr>) g
      | ClickUnlock \<Rightarrow> on (screen g = Login) (try_unlock E) g
      | ClickBack \<Rightarrow> on (screen g = Login) (\<lambda>g. g\<lparr>password := [], login_status := [], screen := Home\<rparr>) g
      | ClickCreate \<Rightarrow> on (screen g = CreateVault) (click_create E) g
      | ClickGenerate \<Rightarrow> on (screen g = CreateVault) (click_generate E) g
      | ClickCancel \<Rightarrow> on (screen g = CreateVault) (\<lambda>g. g\<lparr>screen := Home\<rparr>) g
      | ClickHome \<Rightarrow> on (screen g = VaultExplorer) (click_home E) g
      | ClickP2P \<Rightarrow> on (screen g = VaultExplorer) (click_p2p E) g
      | ClickFile a \<Rightarrow> on (screen g = VaultExplorer \<and> listed (action_name a) g) (file_action E a) g
      | ClickSaveRename \<Rightarrow> on (screen g = VaultExplorer) (do_rename E) g
      | ClickCancelRename \<Rightarrow> on (screen g = VaultExplorer) (\<lambda>g. g\<lparr>rename_dialog := None\<rparr>) g
      | ClickBackToVault \<Rightarrow> on (screen g = P2PDialog) (\<lambda>g. g\<lparr>screen := VaultExplorer\<rparr>) g)"

definition gui_step :: "gui_env \<times> gui_event \<Rightarrow> gui \<Rightarrow> gui" where
  "gui_step x g = (if exit_code g = None then handle_event (fst x) (snd x) g else g)"

definition run_gui :: "(gui_env \<times> gui_event) list \<Rightarrow> gui \<Rightarrow> gui" where
  "run_gui evs g = fold gui_step evs g"

text \<open>\<open>AtomVaultApp::new\<close>.\<close>

definition empty_form :: create_form where
  "empty_form =
     \<lparr>create_name = [], create_pass = [], create_confirm = [], create_show_password = False, create_kdf_argon = True,
      create_dec_time = ''1000'', create_memory = [], create_rounds = [], create_threads = [], create_status = []\<rparr>"

definition app_new :: "host \<Rightarrow> RegistryHome \<Rightarrow> Friends.Home \<Rightarrow> rng \<Rightarrow> gui" where
  "app_new h rh fh r =
     \<lparr>screen = Home, vault_registry = [], friends_full = [], friends_cache = [], home_status = [],
      selected_vault_path = None, password = [], login_status = [], sandbox_applied = False,
      pending_vault_path = None, pending_import_path = None, pending_create_path = None, pending_export_path = None,
      pending_import_bytes = None, pending_import_vfs_name = [], pending_export_vfs_name = None,
      pending_export_write_result = None, vault_session = None, current_vault_path = [], explorer_status = [],
      viewer_done = None, pending_viewer_spawn = None, create_vault_form = empty_form, rename_dialog = None,
      file_broker = broker_start h, landlock_rules = None, registry_home = rh, friends_home = fh,
      done_flags = [], next_cell = 0, gui_rand = r, exit_code = None\<rparr>"

definition gui_start :: "gui_env \<Rightarrow> host \<Rightarrow> RegistryHome \<Rightarrow> Friends.Home \<Rightarrow> rng \<Rightarrow> gui" where
  "gui_start E h rh fh r = if_running (reload_friends E) (reload_registry E (app_new h rh fh r))"

lemma run_gui_Nil [simp]: "run_gui [] g = g"
  and run_gui_Cons [simp]: "run_gui (x # evs) g = run_gui evs (gui_step x g)"
  and run_gui_append: "run_gui (evs @ evs') g = run_gui evs' (run_gui evs g)"
  by (simp_all add: run_gui_def)

section \<open>What the handlers leave alone\<close>

text \<open>
  \<open>same_lock g g'\<close>: the screen, the open vault, the sandbox and the dead slot for a path to create at
  are as before, unless the process has ended.
\<close>

definition same_lock :: "gui \<Rightarrow> gui \<Rightarrow> bool" where
  "same_lock g g' \<longleftrightarrow>
     screen g' = screen g \<and> (vault_session g' = None \<longleftrightarrow> vault_session g = None) \<and>
     map_option ov_path (vault_session g') = map_option ov_path (vault_session g) \<and>
     sandbox_applied g' = sandbox_applied g \<and> landlock_rules g' = landlock_rules g \<and>
     pending_create_path g' = pending_create_path g \<and>
     selected_vault_path g' = selected_vault_path g \<and> pending_vault_path g' = pending_vault_path g \<and>
     create_name (create_vault_form g') = create_name (create_vault_form g)"

lemma same_lock_refl [simp]: "same_lock g g"
  by (simp add: same_lock_def)

lemma same_lock_trans: "same_lock a b \<Longrightarrow> same_lock b c \<Longrightarrow> same_lock a c"
  by (simp add: same_lock_def)

lemma write_disk_fields [simp]:
  "screen (write_disk p b g) = screen g" "vault_session (write_disk p b g) = vault_session g"
  "sandbox_applied (write_disk p b g) = sandbox_applied g" "landlock_rules (write_disk p b g) = landlock_rules g"
  "pending_create_path (write_disk p b g) = pending_create_path g" "exit_code (write_disk p b g) = exit_code g"
  "selected_vault_path (write_disk p b g) = selected_vault_path g" "pending_vault_path (write_disk p b g) = pending_vault_path g"
  "create_vault_form (write_disk p b g) = create_vault_form g"
  by (simp_all add: write_disk_def)

lemma keep_session_lock:
  "vault_session g = Some v \<Longrightarrow> same_lock g (keep_session v s g)"
  by (simp add: same_lock_def keep_session_def Let_def)

lemma keep_session_fields [simp]:
  "screen (keep_session v s g) = screen g" "sandbox_applied (keep_session v s g) = sandbox_applied g"
  "landlock_rules (keep_session v s g) = landlock_rules g"
  "pending_create_path (keep_session v s g) = pending_create_path g" "exit_code (keep_session v s g) = exit_code g"
  "vault_session (keep_session v s g) = Some (v\<lparr>ov_session := s\<rparr>)"
  "selected_vault_path (keep_session v s g) = selected_vault_path g"
  "pending_vault_path (keep_session v s g) = pending_vault_path g"
  "create_vault_form (keep_session v s g) = create_vault_form g"
  by (simp_all add: keep_session_def Let_def)

lemmas lock_simps = same_lock_def send_to_broker_def take_cell_def

lemma file_ops_lock:
  "same_lock g (do_import_bytes E data g)" "same_lock g (do_open E name g)" "same_lock g (do_delete E name g)"
  "same_lock g (do_export_via_broker E path name g)" "same_lock g (do_rename E g)"
  by (auto simp: do_import_bytes_def do_open_def do_delete_def do_export_via_broker_def do_rename_def Let_def
      lock_simps split: option.splits sum.splits prod.splits)

lemma answers_lock: "same_lock g (poll_broker_results E g)"
proof -
  have a: "same_lock g (poll_import_answer E g)"
    using file_ops_lock(1) [of "(take_cell c g)\<lparr>pending_import_bytes := None\<rparr>" E data for c data]
    by (auto simp: poll_import_answer_def lock_simps split: option.splits prod.splits answer.splits sum.splits)
  have b: "same_lock g (poll_export_answer g)" for g
    by (auto simp: poll_export_answer_def lock_simps split: option.splits prod.splits answer.splits sum.splits)
  have c: "same_lock g (poll_spawn_answer g)" for g
    by (auto simp: poll_spawn_answer_def lock_simps split: option.splits prod.splits answer.splits sum.splits)
  show ?thesis unfolding poll_broker_results_def using a b c same_lock_trans by blast
qed

section \<open>Locking\<close>

text \<open>
  The paths a run has chosen: a vault picked in the file dialog or in the list, and the path the form gives for a
  name that was typed into it, with the environment in which the choice is acted on.
\<close>

definition picked_paths :: "(gui_env \<times> gui_event) set \<Rightarrow> string set" where
  "picked_paths A = {path. \<exists>E. (E, PickedVault path) \<in> A \<or> (E, ClickOpenEntry path) \<in> A}"

definition typed_names :: "(gui_env \<times> gui_event) set \<Rightarrow> string set" where
  "typed_names A = {name. \<exists>E f. (E, EditCreate f) \<in> A \<and> create_name f = name}"

definition chosen :: "(gui_env \<times> gui_event) set \<Rightarrow> (gui_env \<times> string) set" where
  "chosen A =
     {(E, path). E \<in> fst ` A \<and>
        (path \<in> picked_paths A \<or>
         (\<exists>hm. \<exists>name \<in> typed_names A. os_home_dir (ge_os E) = Some hm \<and>
            path = path_join (path_join hm ''.atom_vault'') (name @ ''.aegis'')))}"

text \<open>
  While the process runs, a vault is open exactly on the screens that show one, never outside a
  sandbox that was made for a chosen path, and the open file is one the sandbox allows. \<open>A\<close> holds the events met
  so far.
\<close>

definition lock_inv :: "(gui_env \<times> gui_event) set \<Rightarrow> landlock \<Rightarrow> gui \<Rightarrow> bool" where
  "lock_inv A K g \<longleftrightarrow>
     (exit_code g = None \<longrightarrow>
        pending_create_path g = None \<and>
        (vault_session g \<noteq> None \<longleftrightarrow> screen g = VaultExplorer \<or> screen g = P2PDialog) \<and>
        (sandbox_applied g \<longleftrightarrow> landlock_rules g \<noteq> None) \<and>
        (\<forall>rules. landlock_rules g = Some rules \<longrightarrow>
           (\<exists>(E, path) \<in> chosen A. snd (apply_gui_vault_sandbox K (ge_os E) path) = Inr rules)) \<and>
        (\<forall>v. vault_session g = Some v \<longrightarrow>
           (\<exists>rules. landlock_rules g = Some rules \<and> kernel_allows K rules (ov_path v) WriteFile)) \<and>
        (\<forall>path. selected_vault_path g = Some path \<longrightarrow> path \<in> picked_paths A) \<and>
        (\<forall>path. pending_vault_path g = Some path \<longrightarrow> path \<in> picked_paths A) \<and>
        (create_name (create_vault_form g) \<noteq> [] \<longrightarrow> create_name (create_vault_form g) \<in> typed_names A))"

lemma lock_inv_same:
  assumes "lock_inv A K g" "same_lock g g'" "exit_code g' = None \<Longrightarrow> exit_code g = None"
  shows "lock_inv A K g'"
  using assms unfolding lock_inv_def same_lock_def
  by (cases "vault_session g"; cases "vault_session g'") auto

lemma chosen_mono:
  assumes "A \<subseteq> B"
  shows "picked_paths A \<subseteq> picked_paths B" "typed_names A \<subseteq> typed_names B" "chosen A \<subseteq> chosen B"
proof -
  show p: "picked_paths A \<subseteq> picked_paths B" and t: "typed_names A \<subseteq> typed_names B"
    using assms by (auto simp: picked_paths_def typed_names_def)
  have "fst ` A \<subseteq> fst ` B" using assms by (rule image_mono)
  with p t show "chosen A \<subseteq> chosen B" unfolding chosen_def by blast
qed

lemma lock_inv_mono: "lock_inv A K g \<Longrightarrow> A \<subseteq> B \<Longrightarrow> lock_inv B K g"
  using chosen_mono [of A B] unfolding lock_inv_def by blast

lemma lock_inv_exited [simp]: "exit_code g = Some c \<Longrightarrow> lock_inv A K g"
  by (simp add: lock_inv_def)

lemma reload_lock:
  "same_lock g (reload_registry E g)" "same_lock g (reload_friends E g)" "same_lock g (register_path E path g)"
  "same_lock g (click_remove_entry E path g)"
  by (auto simp: reload_registry_def reload_friends_def register_path_def click_remove_entry_def exit_with_def
      same_lock_def split: sum.splits)

lemma exits_stay:
  "exit_code (reload_registry E g) = None \<Longrightarrow> exit_code g = None"
  "exit_code (reload_friends E g) = None \<Longrightarrow> exit_code g = None"
  "exit_code (register_path E path g) = None \<Longrightarrow> exit_code g = None"
  "exit_code (click_remove_entry E path g) = None \<Longrightarrow> exit_code g = None"
  by (auto simp: reload_registry_def reload_friends_def register_path_def click_remove_entry_def exit_with_def
      split: sum.splits)

lemma if_running_simps [simp]:
  "exit_code g = None \<Longrightarrow> if_running f g = f g" "exit_code g = Some c \<Longrightarrow> if_running f g = g"
  by (simp_all add: if_running_def)

text \<open>Applying the sandbox, with no vault open.\<close>

lemma lock_process_inv:
  assumes "lock_inv A K g" "(E, path) \<in> chosen A" "ge_landlock E = K" "vault_session g = None"
  shows "lock_inv A K (lock_process E path g)" "vault_session (lock_process E path g) = None"
    "screen (lock_process E path g) = screen g"
    "exit_code (lock_process E path g) = None \<Longrightarrow> exit_code g = None \<and> sandbox_applied (lock_process E path g)"
  using assms by (auto simp: lock_process_def lock_inv_def exit_with_def split: sum.splits if_splits)

lemma unlock_file_inv:
  assumes "lock_inv A K g" "ge_landlock E = K" "vault_session g = None" "sandbox_applied g"
  shows "lock_inv A K (unlock_file E path g)"
proof (cases "exit_code g")
  case (Some c)
  then show ?thesis
    by (intro lock_inv_exited [of _ c]) (auto simp: unlock_file_def Let_def split: option.splits sum.splits prod.splits)
next
  case None
  with assms obtain rules where r: "landlock_rules g = Some rules" by (auto simp: lock_inv_def)
  show ?thesis
    using assms None r
    by (auto simp: unlock_file_def Let_def lock_inv_def open_read_write_def process_allows_def gui_host_def
        split: option.splits sum.splits prod.splits if_splits)
qed

lemma try_unlock_inv:
  assumes "lock_inv A K g" "(E, ev) \<in> A" "ge_landlock E = K" "vault_session g = None" "exit_code g = None"
  shows "lock_inv A K (try_unlock E g)"
proof (cases "selected_vault_path g = None \<or> password g = []")
  case True
  have "lock_inv A K (g\<lparr>login_status := m\<rparr>)" for m
    by (rule lock_inv_same [OF assms(1)]) (simp_all add: same_lock_def)
  with True show ?thesis by (auto simp: try_unlock_def split: option.splits)
next
  case False
  then obtain path where p: "selected_vault_path g = Some path" "password g \<noteq> []" by auto
  let ?g1 = "register_path E path g"
  have i1: "lock_inv A K ?g1" by (rule lock_inv_same [OF assms(1) reload_lock(3)]) (rule exits_stay)
  have n1: "vault_session ?g1 = None" using reload_lock(3) [of g E path] assms(4) by (simp add: same_lock_def)
  show ?thesis
  proof (cases "exit_code ?g1")
    case (Some c)
    with p show ?thesis by (simp add: try_unlock_def)
  next
    case None
    let ?g2 = "lock_process E path ?g1"
    have "path \<in> picked_paths A" using assms(1,5) p(1) by (simp add: lock_inv_def)
    then have "(E, path) \<in> chosen A" using assms(2) by (force simp: chosen_def)
    note l = lock_process_inv [OF i1 this assms(3) n1]
    show ?thesis
      using p None l(1) unlock_file_inv [OF l(1) assms(3) l(2)] l(4)
      by (cases "exit_code ?g2") (simp_all add: try_unlock_def)
  qed
qed

text \<open>Creating leaves the screens as they are or returns home, and opens no vault.\<close>

lemma run_create_fields:
  assumes "run_create E folder name kdf m r t d pw g = (g', q)"
  shows "same_lock g g'" "exit_code g' = exit_code g" "vault_session g' = vault_session g"
  using assms
  by (auto simp: run_create_def Let_def same_lock_def split: if_splits sum.splits prod.splits vault_error.splits)

lemma lock_inv_home:
  assumes "lock_inv A K g" "vault_session g = None" "same_lock g g'"
    "exit_code g' = None \<Longrightarrow> exit_code g = None" "create_name f = []"
  shows "lock_inv A K (g'\<lparr>home_status := m, create_vault_form := f, screen := Home\<rparr>)"
  using assms by (auto simp: lock_inv_def same_lock_def)

lemma do_create_inv:
  assumes "lock_inv A K g" "vault_session g = None"
  shows "lock_inv A K (do_create E full_path folder name g)"
proof -
  let ?f = "create_vault_form g"
  let ?g1 = "g\<lparr>create_vault_form := ?f\<lparr>create_pass := [], create_confirm := [],
       create_status := ''Deriving keys, please wait...''\<rparr>\<rparr>"
  obtain g2 q where r: "run_create E folder name (if create_kdf_argon ?f then ''argon2id'' else ''scrypt'')
      (parse_u32 (create_memory ?f)) (parse_u32 (create_rounds ?f)) (parse_u32 (create_threads ?f))
      (unwrap_or 1000 (parse_u32 (create_dec_time ?f))) (create_pass ?f) ?g1 = (g2, q)" by fastforce
  note f = run_create_fields [OF r]
  have s: "same_lock g g2" using f(1) by (simp add: same_lock_def)
  let ?g3 = "register_path E full_path g2"
  have s3: "same_lock g ?g3" by (rule same_lock_trans [OF s reload_lock(3)])
  have x: "exit_code ?g3 = None \<Longrightarrow> exit_code g = None" using exits_stay(3) f(2) by auto
  show ?thesis
  proof (cases q)
    case (Inl e)
    have "lock_inv A K (set_create_status (''Error: '' @ e) g2)"
      by (rule lock_inv_same [OF assms(1)]) (use s f(2) in \<open>simp_all add: same_lock_def set_create_status_def\<close>)
    with r Inl show ?thesis by (simp add: do_create_def Let_def)
  next
    case (Inr u)
    show ?thesis
    proof (cases "exit_code ?g3")
      case None
      show ?thesis using None r Inr by (simp add: do_create_def Let_def) (rule lock_inv_home [OF assms s3 x]; simp)
    qed (use r Inr in \<open>simp add: do_create_def Let_def\<close>)
  qed
qed

lemma status_lock: "same_lock g (set_create_status m g)" "exit_code (set_create_status m g) = exit_code g"
  by (simp_all add: same_lock_def set_create_status_def)

lemma create_at_path_inv:
  assumes "lock_inv A K g" "(E, full_path) \<in> chosen A" "ge_landlock E = K" "vault_session g = None"
  shows "lock_inv A K (do_create_vault_at_path E full_path g)"
proof (cases "path_parent full_path")
  case None
  then show ?thesis
    using lock_inv_same [OF assms(1) status_lock(1)] status_lock(2) by (simp add: do_create_vault_at_path_def)
next
  case (Some folder)
  note l = lock_process_inv [OF assms]
  show ?thesis
    using Some l(1) do_create_inv [OF l(1,2)]
    by (cases "exit_code (lock_process E full_path g)") (simp_all add: do_create_vault_at_path_def)
qed

lemma click_create_inv:
  assumes "lock_inv A K g" "(E, ev) \<in> A" "ge_landlock E = K" "vault_session g = None" "exit_code g = None"
  shows "lock_inv A K (click_create E g)"
proof -
  have "(E, path_join (path_join hm ''.atom_vault'') (create_name (create_vault_form g) @ ''.aegis'')) \<in> chosen A"
    if "os_home_dir (ge_os E) = Some hm" "is_valid_vault_name (create_name (create_vault_form g))" for hm
  proof -
    have "create_name (create_vault_form g) \<in> typed_names A" "E \<in> fst ` A"
      using that(2) assms(1,2,5) by (simp_all add: lock_inv_def is_valid_vault_name_def image_iff) (metis fst_conv)
    with that(1) show ?thesis unfolding chosen_def by blast
  qed
  then have "lock_inv A K (do_create_vault_at_path E (path_join (path_join hm ''.atom_vault'') (create_name (create_vault_form g) @ ''.aegis'')) g)"
    if "os_home_dir (ge_os E) = Some hm" "is_valid_vault_name (create_name (create_vault_form g))" for hm
    using create_at_path_inv [OF assms(1) _ assms(3,4)] that by blast
  moreover have "lock_inv A K (set_create_status m g)" for m
    using lock_inv_same [OF assms(1) status_lock(1)] status_lock(2) by simp
  ultimately show ?thesis by (simp add: click_create_def Let_def split: option.splits)
qed

lemma poll_frame_lock:
  assumes "exit_code g = None" "pending_create_path g = None"
  shows "same_lock (poll_vault_path g) (poll_frame E g)"
proof -
  let ?g1 = "poll_vault_path g"
  have x1: "exit_code ?g1 = None" and c1: "pending_create_path ?g1 = None"
    using assms by (auto simp: poll_vault_path_def split: option.splits)
  have "same_lock ?g1 (poll_import_path ?g1)" "exit_code (poll_import_path ?g1) = None"
    using x1 by (auto simp: poll_import_path_def lock_simps split: option.splits)
  moreover have "same_lock h (poll_export_path E h)" "exit_code (poll_export_path E h) = exit_code h" for h
    using file_ops_lock(4) [of "h\<lparr>pending_export_path := None, pending_export_vfs_name := None\<rparr>" E]
    by (auto simp: poll_export_path_def do_export_via_broker_def lock_simps Let_def split: option.splits sum.splits prod.splits)
  ultimately have s2: "same_lock ?g1 (poll_file_dialog_results E g)" and x2: "exit_code (poll_file_dialog_results E g) = None"
    using c1 x1 same_lock_trans by (auto simp: poll_file_dialog_results_def poll_create_path_def)
  have "same_lock h (poll_viewer_done h)" for h
    by (auto simp: poll_viewer_done_def same_lock_def split: option.splits)
  then show ?thesis
    using s2 x2 answers_lock same_lock_trans unfolding poll_frame_def by (metis if_running_simps(1))
qed

lemma poll_frame_inv:
  assumes "lock_inv A K g" "exit_code g = None"
  shows "lock_inv A K (poll_frame E g)"
proof -
  have i1: "lock_inv A K (poll_vault_path g)" and x1: "exit_code (poll_vault_path g) = None"
    and c: "pending_create_path g = None"
    using assms by (auto simp: poll_vault_path_def lock_inv_def split: option.splits)
  show ?thesis by (rule lock_inv_same [OF i1 poll_frame_lock [OF assms(2) c]]) (rule x1)
qed

lemma click_home_inv:
  assumes "lock_inv A K g" "exit_code g = None"
  shows "lock_inv A K (click_home E g)"
  using assms
  by (auto simp: click_home_def reload_registry_def reload_friends_def exit_with_def lock_inv_def if_running_def
      split: sum.splits)

lemma gui_step_inv:
  assumes "lock_inv A K g" "(E, ev) \<in> A" "ge_landlock E = K"
  shows "lock_inv A K (gui_step (E, ev) g)"
proof (cases "exit_code g")
  case None
  have scr: "screen g = Login \<or> screen g = CreateVault \<or> screen g = Home \<Longrightarrow> vault_session g = None"
    using assms(1) None by (auto simp: lock_inv_def)
  have same: "lock_inv A K g'" if "same_lock g g'" for g'
    by (rule lock_inv_same [OF assms(1) that]) (rule None)
  note inv = assms(1) [unfolded lock_inv_def, rule_format, OF None]
  note step = gui_step_def handle_event_def on_def
  show ?thesis
  proof (cases ev)
    case Frame
    then show ?thesis using None poll_frame_inv [OF assms(1) None] by (simp add: step)
  next
    case (ClickRemoveEntry path)
    then show ?thesis using None same [OF reload_lock(4)] assms(1) by (simp add: step)
  next
    case ClickUnlock
    then show ?thesis using None try_unlock_inv [OF assms _ None] scr assms(1) by (simp add: step)
  next
    case ClickCreate
    then show ?thesis using None click_create_inv [OF assms _ None] scr assms(1) by (simp add: step)
  next
    case ClickHome
    then show ?thesis using None click_home_inv [OF assms(1) None] assms(1) by (simp add: step)
  next
    case (ClickFile a)
    have "same_lock g (file_action E a g)" by (cases a) (use file_ops_lock in \<open>auto simp: do_export_file_def same_lock_def\<close>)
    with ClickFile None same assms(1) show ?thesis by (simp add: step)
  next
    case ClickSaveRename
    then show ?thesis using None same [OF file_ops_lock(5)] assms(1) by (simp add: step)
  next
    case (PickedVault path)
    then have "path \<in> picked_paths A" using assms(2) by (auto simp: picked_paths_def)
    with inv PickedVault None show ?thesis by (simp add: step lock_inv_def)
  next
    case (ClickOpenEntry path)
    then have "path \<in> picked_paths A" using assms(2) by (auto simp: picked_paths_def)
    with inv ClickOpenEntry None scr show ?thesis by (simp add: step lock_inv_def click_open_entry_def)
  next
    case (EditCreate f)
    then have "create_name f \<in> typed_names A" using assms(2) by (auto simp: typed_names_def)
    with inv EditCreate None show ?thesis by (simp add: step lock_inv_def edit_create_def)
  next
    case ClickP2P
    with inv None show ?thesis by (cases "screen g = VaultExplorer") (auto simp: step lock_inv_def click_p2p_def exit_with_def split: sum.splits)
  next
    case ClickBackToVault
    with inv None show ?thesis by (cases "screen g = P2PDialog") (auto simp: step lock_inv_def)
  next
    case ClickNew
    with inv None scr show ?thesis by (cases "screen g = Home") (simp_all add: step lock_inv_def)
  next
    case ClickBack
    with inv None scr show ?thesis by (cases "screen g = Login") (simp_all add: step lock_inv_def)
  next
    case ClickCancel
    with inv None scr show ?thesis by (cases "screen g = CreateVault") (simp_all add: step lock_inv_def)
  qed (rule same; use None in \<open>auto simp: step edit_rename_def click_generate_def same_lock_def Let_def\<close>)+
qed (use assms in \<open>simp add: gui_step_def\<close>)

lemma run_gui_inv:
  assumes "lock_inv A K g" "set evs \<subseteq> A" "\<forall>x \<in> A. ge_landlock (fst x) = K"
  shows "lock_inv A K (run_gui evs g)"
  using assms(1,2)
proof (induction evs arbitrary: g)
  case (Cons x evs)
  then have "lock_inv A K (gui_step x g)" using gui_step_inv [of A K g "fst x" "snd x"] assms(3) by simp
  with Cons show ?case by simp
qed simp

lemma gui_start_inv: "lock_inv A K (gui_start E h rh fh r)"
  by (auto simp: gui_start_def app_new_def reload_registry_def reload_friends_def exit_with_def lock_inv_def
      if_running_def empty_form_def split: sum.splits)

text \<open>The ruleset of a process is never exchanged.\<close>

lemma create_keeps_rules:
  assumes "sandbox_applied g"
  shows "landlock_rules (do_create_vault_at_path E full_path g) = landlock_rules g"
proof -
  have d: "landlock_rules (do_create E full_path folder name g) = landlock_rules g" for folder name
  proof -
    let ?f = "create_vault_form g"
    let ?g1 = "g\<lparr>create_vault_form := ?f\<lparr>create_pass := [], create_confirm := [],
         create_status := ''Deriving keys, please wait...''\<rparr>\<rparr>"
    obtain g2 q where r: "run_create E folder name (if create_kdf_argon ?f then ''argon2id'' else ''scrypt'')
        (parse_u32 (create_memory ?f)) (parse_u32 (create_rounds ?f)) (parse_u32 (create_threads ?f))
        (unwrap_or 1000 (parse_u32 (create_dec_time ?f))) (create_pass ?f) ?g1 = (g2, q)" by fastforce
    have "landlock_rules g2 = landlock_rules g" using run_create_fields(1) [OF r] by (simp add: same_lock_def)
    moreover have "landlock_rules (register_path E full_path g2) = landlock_rules g2"
      using reload_lock(3) [of g2 E full_path] by (simp add: same_lock_def)
    ultimately show ?thesis
      using r by (cases q) (simp_all add: do_create_def Let_def set_create_status_def if_running_def)
  qed
  with assms show ?thesis
    by (auto simp: do_create_vault_at_path_def lock_process_def set_create_status_def if_running_def split: option.splits)
qed

lemma unlock_keeps_rules:
  assumes "sandbox_applied g"
  shows "landlock_rules (try_unlock E g) = landlock_rules g"
proof -
  have u: "landlock_rules (unlock_file E path h) = landlock_rules h" for path h
    by (auto simp: unlock_file_def Let_def split: option.splits sum.splits prod.splits)
  have "same_lock g (register_path E path g)" for path by (rule reload_lock)
  with assms u show ?thesis
    by (auto simp: try_unlock_def lock_process_def if_running_def same_lock_def split: option.splits)
qed

lemma step_keeps_rules:
  assumes "lock_inv A K g" "landlock_rules g = Some rules"
  shows "landlock_rules (gui_step (E, ev) g) = Some rules"
proof (cases "exit_code g")
  case None
  with assms have sb: "sandbox_applied g" and c: "pending_create_path g = None" by (auto simp: lock_inv_def)
  have pf: "landlock_rules (poll_frame E g) = landlock_rules g"
    using poll_frame_lock [OF None c, of E] by (auto simp: same_lock_def poll_vault_path_def split: option.splits)
  have ch: "landlock_rules (click_home E g) = landlock_rules g"
    by (auto simp: click_home_def reload_registry_def reload_friends_def exit_with_def if_running_def split: sum.splits)
  have cc: "landlock_rules (click_create E g) = landlock_rules g"
    using create_keeps_rules [OF sb] by (auto simp: click_create_def Let_def set_create_status_def split: option.splits)
  have "same_lock g (file_action E a g)" for a
    by (cases a) (use file_ops_lock in \<open>auto simp: do_export_file_def same_lock_def\<close>)
  with pf ch cc unlock_keeps_rules [OF sb, of E] reload_lock(4) [of g E] file_ops_lock(5) [of g E] assms(2) None
  show ?thesis
    by (cases ev) (simp_all add: gui_step_def handle_event_def on_def edit_create_def edit_rename_def click_open_entry_def
        click_generate_def click_p2p_def exit_with_def Let_def same_lock_def split: sum.splits)
qed (use assms in \<open>simp add: gui_step_def\<close>)

lemma run_keeps_rules:
  assumes "lock_inv A K g" "set evs \<subseteq> A" "\<forall>x \<in> A. ge_landlock (fst x) = K" "landlock_rules g = Some rules"
  shows "landlock_rules (run_gui evs g) = Some rules"
  using assms(1,2,4)
proof (induction evs arbitrary: g)
  case (Cons x evs)
  then have "lock_inv A K (gui_step x g)" "landlock_rules (gui_step x g) = Some rules"
    using gui_step_inv [of A K g "fst x" "snd x"] step_keeps_rules [of A K g rules "fst x" "snd x"] assms(3) by simp_all
  with Cons show ?case by simp
qed simp

end
