(* ===== verification/GuiContents.thy ===== *)
theory GuiContents
  imports GuiRun
begin

text \<open>
  What the user of the graphical interface sees of an open vault: between opening and locking it, every
  event changes the contents by at most one import, deletion or renaming.
\<close>

section \<open>The open vault and the disk\<close>

lemma gui_host_write_disk: "disk (gui_host (write_disk p b g)) = (disk (gui_host g))(p \<mapsto> b)"
  by (simp add: write_disk_def gui_host_def)

lemma attached_cong:
  "disk (gui_host g') (ov_path v) = disk (gui_host g) (ov_path v) \<Longrightarrow> attached g' v = attached g v"
  by (simp add: attached_def Let_def)

lemma attached_keep: "attached (keep_session v s g) (v\<lparr>ov_session := s\<rparr>) = s"
proof (cases "disk (gui_host g) (ov_path v)")
  case None
  moreover have "gui_host (g\<lparr>vault_session := w\<rparr>) = gui_host g" for w by (simp add: gui_host_def)
  ultimately show ?thesis by (simp add: attached_def keep_session_def Let_def)
next
  case (Some b)
  then show ?thesis by (simp add: attached_def keep_session_def Let_def gui_host_write_disk)
qed

lemma keep_session_disk:
  "q \<noteq> ov_path v \<Longrightarrow> disk (gui_host (keep_session v s g)) q = disk (gui_host g) q"
  "resolve_target (gui_host (keep_session v s g)) = resolve_target (gui_host g)"
  "br_queue (file_broker (keep_session v s g)) = br_queue (file_broker g)"
  "br_running (file_broker (keep_session v s g)) = br_running (file_broker g)"
  by (simp_all add: keep_session_def Let_def write_disk_def gui_host_def)

type_synonym view = "string \<rightharpoonup> vault_error + bytes"

text \<open>\<open>evolves L F g g'\<close>: the vault open in \<open>g\<close> is still open in \<open>g'\<close>, well formed, on the same file and
  under the same key, and \<open>F\<close> is what happened to its contents.\<close>

definition evolves :: "vault_lib \<Rightarrow> (view \<Rightarrow> view) \<Rightarrow> gui \<Rightarrow> gui \<Rightarrow> bool" where
  "evolves L F g g' \<longleftrightarrow>
     (\<forall>v. vault_session g = Some v \<and> vault_inv (attached g v) \<and> explorer_ok (L, ov_key v, 0) \<longrightarrow>
        (\<exists>v'. vault_session g' = Some v' \<and> ov_path v' = ov_path v \<and> ov_key v' = ov_key v \<and>
           vault_inv (attached g' v') \<and>
           vault_view L (ov_key v) (attached g' v') = F (vault_view L (ov_key v) (attached g v))))"

lemma evolves_frame:
  assumes "vault_session g' = vault_session g"
    "\<And>v. vault_session g = Some v \<Longrightarrow> disk (gui_host g') (ov_path v) = disk (gui_host g) (ov_path v)"
  shows "evolves L id g g'"
  unfolding evolves_def
proof (intro allI impI)
  fix v
  assume v: "vault_session g = Some v \<and> vault_inv (attached g v) \<and> explorer_ok (L, ov_key v, 0)"
  then have "attached g' v = attached g v" by (intro attached_cong assms(2)) simp
  with v assms(1)
  show "\<exists>v'. vault_session g' = Some v' \<and> ov_path v' = ov_path v \<and> ov_key v' = ov_key v \<and>
      vault_inv (attached g' v') \<and> vault_view L (ov_key v) (attached g' v') = id (vault_view L (ov_key v) (attached g v))"
    by (intro exI [of _ v]) simp
qed

lemma evolves_trans:
  assumes "evolves L F a b" "evolves L G b c"
  shows "evolves L (G \<circ> F) a c"
  unfolding evolves_def
proof (intro allI impI)
  fix v
  assume v: "vault_session a = Some v \<and> vault_inv (attached a v) \<and> explorer_ok (L, ov_key v, 0)"
  with assms(1) obtain v1 where 1: "vault_session b = Some v1" "ov_path v1 = ov_path v" "ov_key v1 = ov_key v"
    "vault_inv (attached b v1)" "vault_view L (ov_key v) (attached b v1) = F (vault_view L (ov_key v) (attached a v))"
    unfolding evolves_def by metis
  with v assms(2) obtain v2 where 2: "vault_session c = Some v2" "ov_path v2 = ov_path v1" "ov_key v2 = ov_key v1"
    "vault_inv (attached c v2)" "vault_view L (ov_key v1) (attached c v2) = G (vault_view L (ov_key v1) (attached b v1))"
    unfolding evolves_def by metis
  from 1 2
  show "\<exists>v'. vault_session c = Some v' \<and> ov_path v' = ov_path v \<and> ov_key v' = ov_key v \<and>
      vault_inv (attached c v') \<and> vault_view L (ov_key v) (attached c v') = (G \<circ> F) (vault_view L (ov_key v) (attached a v))"
    by (intro exI [of _ v2]) simp
qed

lemma evolves_quiet:
  "evolves L id a b \<Longrightarrow> evolves L F b c \<Longrightarrow> evolves L F a c" "evolves L F a b \<Longrightarrow> evolves L id b c \<Longrightarrow> evolves L F a c"
  using evolves_trans [of L id a b F c] evolves_trans [of L F a b id c] by simp_all

lemma evolves_refl [simp]: "evolves L id g g"
  by (rule evolves_frame) simp_all

text \<open>A command of the explorer is the command of the specification when it succeeds, and nothing otherwise.\<close>

lemma evolves_exec:
  assumes "vault_session g = Some v" "exec_explorer (L, ov_key v, now) c (attached g v) = (s, r)"
    "vault_session g' = Some (v\<lparr>ov_session := s\<rparr>)" "attached g' (v\<lparr>ov_session := s\<rparr>) = s"
    "\<And>m. vault_inv (attached g v) \<Longrightarrow> explorer_ok (L, ov_key v, now) \<Longrightarrow> m = vault_view L (ov_key v) (attached g v) \<Longrightarrow>
       F m = (if is_ok r then spec_explorer c m else m)"
  shows "evolves L F g g'"
  unfolding evolves_def
proof (intro allI impI)
  fix w
  assume "vault_session g = Some w \<and> vault_inv (attached g w) \<and> explorer_ok (L, ov_key w, 0)"
  with assms(1) have w: "w = v" "vault_inv (attached g v)" "explorer_ok (L, ov_key v, now)"
    by (simp_all add: explorer_ok_def)
  have "vault_inv s \<and> vault_view L (ov_key v) s = F (vault_view L (ov_key v) (attached g v))"
  proof (cases r)
    case (Inl e)
    with exec_explorer_err [OF w(3,2)] assms(2) assms(5) [OF w(2,3) refl] show ?thesis
      by (simp add: explorer_view_def)
  next
    case (Inr u)
    with exec_explorer_ok [OF w(3,2)] assms(2) assms(5) [OF w(2,3) refl] show ?thesis
      by (simp add: explorer_view_def)
  qed
  with w(1) assms(3,4)
  show "\<exists>v'. vault_session g' = Some v' \<and> ov_path v' = ov_path w \<and> ov_key v' = ov_key w \<and>
      vault_inv (attached g' v') \<and> vault_view L (ov_key w) (attached g' v') = F (vault_view L (ov_key w) (attached g w))"
    by (intro exI [of _ "v\<lparr>ov_session := s\<rparr>"]) simp
qed

lemma evolves_read:
  assumes "vault_session g = Some v" "fbytes f = fbytes (phys (attached g v))"
    "s = (attached g v)\<lparr>phys := f\<rparr>"
    "vault_session g' = Some (v\<lparr>ov_session := s\<rparr>)" "attached g' (v\<lparr>ov_session := s\<rparr>) = s"
  shows "evolves L id g g'"
  unfolding evolves_def
proof (intro allI impI)
  fix w
  assume w: "vault_session g = Some w \<and> vault_inv (attached g w) \<and> explorer_ok (L, ov_key w, 0)"
  with assms(1) have i: "w = v" "vault_inv (attached g v)" by simp_all
  from same_bytes [OF i(2) assms(2), of L "ov_key v"] i(1) assms(3-)
  show "\<exists>v'. vault_session g' = Some v' \<and> ov_path v' = ov_path w \<and> ov_key v' = ov_key w \<and>
      vault_inv (attached g' v') \<and> vault_view L (ov_key w) (attached g' v') = id (vault_view L (ov_key w) (attached g w))"
    by (intro exI [of _ "v\<lparr>ov_session := s\<rparr>"]) simp
qed

lemma decrypt_same_bytes:
  assumes "decrypt_to_bytes L uv name s = Inr (d, f)"
  shows "fbytes f = fbytes (phys s)"
proof -
  have "fbytes f' = fbytes f0" if "decrypt_loop L uv cs f0 out = Inr (d, f')" for cs f0 out f'
    using that by (induction cs arbitrary: f0 out) (auto simp: result_simps process_secure_chunk_plain)
  with assms show ?thesis by (auto simp: decrypt_to_bytes_def result_simps)
qed

section \<open>The handlers\<close>

text \<open>A change of the record that leaves the session and the files of the host alone.\<close>

definition same_files :: "gui \<Rightarrow> gui \<Rightarrow> bool" where
  "same_files g g' \<longleftrightarrow> vault_session g' = vault_session g \<and> gui_host g' = gui_host g"

lemma evolves_same: "same_files g g' \<Longrightarrow> evolves L id g g'"
  by (rule evolves_frame) (simp_all add: same_files_def)

lemma attached_same: "gui_host g' = gui_host g \<Longrightarrow> attached g' v = attached g v"
  by (rule attached_cong) simp

text \<open>
  The contents each action is meant to leave: an import counts when the status line reports it, a deleted
  name is gone, a renaming takes place when the new name is valid and free and the old one is there.
\<close>

definition import_effect :: "string \<Rightarrow> bytes \<Rightarrow> string \<Rightarrow> view \<Rightarrow> view" where
  "import_effect message data name m =
     (if message = ''Success: '' @ name @ '' imported.'' then m(name \<mapsto> Inr data) else m)"

definition rename_effect :: "string \<Rightarrow> string \<Rightarrow> view \<Rightarrow> view" where
  "rename_effect old new m =
     (if is_valid_vfs_filename new \<and> m new = None \<and> m old \<noteq> None then m(new := m old, old := None) else m)"

lemma import_evolves:
  assumes "ge_vault E = L"
  shows "evolves L (import_effect (explorer_status (do_import_bytes E data g)) data (pending_import_vfs_name g)) g (do_import_bytes E data g)"
proof (cases "vault_session g")
  case None
  then show ?thesis by (simp add: evolves_def)
next
  case (Some v)
  let ?h = "g\<lparr>pending_import_vfs_name := []\<rparr>"
  obtain s r where r: "handle_import_from_bytes L (ov_key v) data (pending_import_vfs_name g) (ge_now E) (attached g v) = (s, r)"
    by fastforce
  have a: "attached ?h v = attached g v" by (rule attached_same) (simp add: gui_host_def)
  have k: "attached ((keep_session v s ?h)\<lparr>explorer_status := m\<rparr>) (v\<lparr>ov_session := s\<rparr>) = s" for m
    using attached_keep [of v s ?h] by (simp add: attached_def gui_host_def)
  show ?thesis
    by (rule evolves_exec [OF Some, of L "ge_now E" "EImport data (pending_import_vfs_name g)" s r])
      (use r a Some assms k in \<open>auto simp: exec_explorer_def do_import_bytes_def import_effect_def Let_def split: sum.splits\<close>)
qed

lemma delete_evolves:
  assumes "ge_vault E = L"
  shows "evolves L (\<lambda>m. m(name := None)) g (do_delete E name g)"
proof (cases "vault_session g")
  case None
  then show ?thesis by (simp add: evolves_def)
next
  case (Some v)
  obtain s r where r: "handle_rm L (ov_key v) name (attached g v) = (s, r)" by fastforce
  have k: "attached ((keep_session v s g)\<lparr>explorer_status := m\<rparr>) (v\<lparr>ov_session := s\<rparr>) = s" for m
    using attached_keep [of v s g] by (simp add: attached_def gui_host_def)
  show ?thesis
  proof (rule evolves_exec [OF Some, of L 0 "EDelete name" s r])
    show "exec_explorer (L, ov_key v, 0) (EDelete name) (attached g v) = (s, r)" using r by (simp add: exec_explorer_def)
    show "vault_session (do_delete E name g) = Some (v\<lparr>ov_session := s\<rparr>)" "attached (do_delete E name g) (v\<lparr>ov_session := s\<rparr>) = s"
      using r Some assms k by (simp_all add: do_delete_def split: sum.splits)
    fix m
    assume m: "explorer_ok (L, ov_key v, 0)" "m = vault_view L (ov_key v) (attached g v)"
    have "save_total L (ov_key v)" using m(1) by (simp add: explorer_ok_def)
    from rm_missing [OF this, of name "attached g v" s] r m(2)
    show "m(name := None) = (if is_ok r then spec_explorer (EDelete name) m else m)" by (cases r) (simp_all add: fun_upd_idem)
  qed
qed

lemma name_taken_view: "name_taken n s \<longleftrightarrow> vault_view L uv s n \<noteq> None"
  by (simp add: name_taken_iff vault_view_def find_file_None)

lemma rename_exactly_when:
  assumes "explorer_ok (L, uv, 0)" "rename_entry L uv old new s = (s', r)" "m = vault_view L uv s"
  shows "rename_effect old new m = (if is_ok (rename_result r) then spec_explorer (ERename old new) m else m)"
proof (cases "is_valid_vfs_filename new \<and> \<not> name_taken new s \<and> name_taken old s")
  case True
  then have "update_first (\<lambda>f. vfs_name f = old) (\<lambda>f. f\<lparr>vfs_name := new\<rparr>) (file_table (meta s)) \<noteq> None"
    by (auto simp: update_first_None name_taken_def find_None_iff list_ex_iff)
  moreover have "save_total L uv" using assms(1) by (simp add: explorer_ok_def)
  ultimately have "r = RenamedTo new"
    using assms(2) True save_total_not_Inl [of L uv]
    by (auto simp: rename_entry_def Let_def split: option.splits sum.splits prod.splits)
  with True show ?thesis unfolding rename_effect_def assms(3) name_taken_view [of _ s L uv] by simp
next
  case False
  have "\<not> name_taken old s \<Longrightarrow> update_first (\<lambda>f. vfs_name f = old) h (file_table (meta s)) = None" for h
    by (auto simp: update_first_None name_taken_def find_None_iff list_ex_iff)
  with False assms(2) have "\<not> is_ok (rename_result r)"
    by (auto simp: rename_entry_def split: if_splits)
  with False show ?thesis unfolding rename_effect_def assms(3) name_taken_view [of _ s L uv] by auto
qed

lemma rename_evolves:
  assumes "ge_vault E = L" "rename_dialog g = Some st"
  shows "evolves L (rename_effect (old_name st) (new_name st)) g (do_rename E g)"
proof (cases "vault_session g")
  case None
  then show ?thesis by (simp add: evolves_def)
next
  case (Some v)
  let ?h = "g\<lparr>rename_dialog := None\<rparr>"
  obtain s r where r: "rename_entry L (ov_key v) (old_name st) (new_name st) (attached g v) = (s, r)" by fastforce
  have a: "attached ?h v = attached g v" by (rule attached_same) (simp add: gui_host_def)
  have k: "attached ((keep_session v s ?h)\<lparr>explorer_status := m\<rparr>) (v\<lparr>ov_session := s\<rparr>) = s" for m
    using attached_keep [of v s ?h] by (simp add: attached_def gui_host_def)
  show ?thesis
  proof (rule evolves_exec [OF Some, of L 0 "ERename (old_name st) (new_name st)" s "rename_result r"])
    show "exec_explorer (L, ov_key v, 0) (ERename (old_name st) (new_name st)) (attached g v) = (s, rename_result r)"
      using r by (simp add: exec_explorer_def)
    show "vault_session (do_rename E g) = Some (v\<lparr>ov_session := s\<rparr>)" "attached (do_rename E g) (v\<lparr>ov_session := s\<rparr>) = s"
      using r a Some assms k by (simp_all add: do_rename_def Let_def)
  qed (rule rename_exactly_when [OF _ r])
qed

lemma open_evolves:
  assumes "ge_vault E = L"
  shows "evolves L id g (do_open E name g)" "evolves L id g (do_export_via_broker E path name g)"
proof -
  show "evolves L id g (do_open E name g)"
  proof (cases "vault_session g")
    case (Some v)
    let ?h = "g\<lparr>explorer_status := ''Opening '' @ name @ '' securely...''\<rparr>"
    have a: "attached ?h v = attached g v" by (rule attached_same) (simp add: gui_host_def)
    show ?thesis
    proof (cases "decrypt_to_bytes L (ov_key v) name (attached g v)")
      case (Inl e)
      with Some a assms show ?thesis
        by (intro evolves_same) (simp add: do_open_def Let_def same_files_def gui_host_def)
    next
      case (Inr df)
      obtain d f where df: "df = (d, f)" by fastforce
      let ?s = "(attached g v)\<lparr>phys := f\<rparr>"
      show ?thesis
        by (rule evolves_read [OF Some decrypt_same_bytes [OF Inr [unfolded df]] refl])
          (use Inr df Some a assms attached_keep [of v ?s ?h] in
            \<open>simp_all add: do_open_def Let_def send_to_broker_def send_request_def attached_def gui_host_def\<close>)
    qed
  qed (simp add: evolves_def)
  show "evolves L id g (do_export_via_broker E path name g)"
  proof (cases "vault_session g")
    case (Some v)
    show ?thesis
    proof (cases "decrypt_to_bytes L (ov_key v) name (attached g v)")
      case (Inl e)
      with Some assms show ?thesis
        by (intro evolves_same) (simp add: do_export_via_broker_def same_files_def gui_host_def)
    next
      case (Inr df)
      obtain d f where df: "df = (d, f)" by fastforce
      let ?s = "(attached g v)\<lparr>phys := f\<rparr>"
      show ?thesis
        by (rule evolves_read [OF Some decrypt_same_bytes [OF Inr [unfolded df]] refl])
          (use Inr df Some assms attached_keep [of v ?s g] in
            \<open>simp_all add: do_export_via_broker_def Let_def send_to_broker_def send_request_def attached_def gui_host_def\<close>)
    qed
  qed (simp add: evolves_def)
qed

section \<open>Exports do not overwrite the vault\<close>

text \<open>
  An export that was directed at the file of the open vault would overwrite it. \<open>clear_of p g\<close>: no
  export on its way goes to \<open>p\<close>.
\<close>

fun request_clear :: "(string \<Rightarrow> path) \<Rightarrow> path \<Rightarrow> BrokerRequest \<Rightarrow> bool" where
  "request_clear rt p (WriteRequest path data c) = (rt path \<noteq> p)"
| "request_clear rt p _ = True"

definition requests :: "gui \<Rightarrow> BrokerRequest list" where
  "requests g = br_queue (file_broker g) @ br_running (file_broker g)"

definition clear_of :: "path \<Rightarrow> gui \<Rightarrow> bool" where
  "clear_of p g \<longleftrightarrow>
     list_all (request_clear (resolve_target (gui_host g)) p) (requests g) \<and>
     (case pending_export_path g of None \<Rightarrow> True | Some path \<Rightarrow> resolve_target (gui_host g) path \<noteq> p)"

definition tame :: "path \<Rightarrow> gui \<Rightarrow> gui \<Rightarrow> bool" where
  "tame p g g' \<longleftrightarrow>
     resolve_target (gui_host g') = resolve_target (gui_host g) \<and>
     (\<forall>r \<in> set (requests g'). r \<in> set (requests g) \<or> request_clear (resolve_target (gui_host g)) p r) \<and>
     (pending_export_path g' = None \<or> pending_export_path g' = pending_export_path g)"

lemma tame_clear: "tame p g g' \<Longrightarrow> clear_of p g \<Longrightarrow> clear_of p g'"
  by (auto simp: tame_def clear_of_def list_all_iff split: option.splits)

lemma tame_refl [simp]: "tame p g g"
  by (simp add: tame_def)

lemma tame_trans: "tame p a b \<Longrightarrow> tame p b c \<Longrightarrow> tame p a c"
  by (auto simp: tame_def)

lemmas tame_simps = tame_def requests_def gui_host_def send_to_broker_def send_request_def take_cell_def

lemma keep_session_broker [simp]:
  "br_queue (file_broker (keep_session v s g)) = br_queue (file_broker g)"
  "br_running (file_broker (keep_session v s g)) = br_running (file_broker g)"
  "resolve_target (br_host (file_broker (keep_session v s g))) = resolve_target (br_host (file_broker g))"
  "pending_export_path (keep_session v s g) = pending_export_path g"
  by (simp_all add: keep_session_def Let_def write_disk_def gui_host_def)

lemma file_ops_tame:
  "tame p g (do_import_bytes E data g)" "tame p g (do_open E name g)" "tame p g (do_delete E name g)"
  "tame p g (do_rename E g)"
  "resolve_target (gui_host g) path \<noteq> p \<Longrightarrow> tame p g (do_export_via_broker E path name g)"
  by (auto simp: do_import_bytes_def do_open_def do_delete_def do_rename_def do_export_via_broker_def Let_def
      tame_simps split: option.splits sum.splits prod.splits)

lemma finish_effect:
  assumes "clear_of p g"
  shows "disk (br_host (broker_finish BE i (file_broker g))) p = disk (gui_host g) p"
    and "tame p g (g\<lparr>file_broker := broker_finish BE i (file_broker g)\<rparr>)"
proof -
  let ?b = "file_broker g"
  let ?r = "br_running ?b ! i"
  have host: "disk (br_host (handle_request BE ?r ?b)) p = disk (br_host ?b) p \<and>
      resolve_target (br_host (handle_request BE ?r ?b)) = resolve_target (br_host ?b)" if "i < length (br_running ?b)"
  proof (cases ?r)
    case (WriteRequest path data c)
    obtain h q where w: "write_with_sandbox (be_landlock BE) (be_os BE) (be_io BE) path data (br_host ?b) = (h, q)"
      by fastforce
    have "?r \<in> set (requests g)" using that by (simp add: requests_def)
    with assms WriteRequest have "resolve_target (br_host ?b) path \<noteq> p"
      unfolding clear_of_def list_all_iff gui_host_def by (metis request_clear.simps(1))
    moreover have "resolve_target h = resolve_target (br_host ?b)"
      using w by (auto simp: write_with_sandbox_def Let_def split: sum.splits if_splits option.splits)
    ultimately show ?thesis
      using write_with_sandbox_effect [OF w] w WriteRequest by (auto simp: handle_request_def)
  qed (auto simp: handle_request_def Let_def split: prod.splits sum.splits)
  then show "disk (br_host (broker_finish BE i ?b)) p = disk (gui_host g) p"
    by (auto simp: broker_finish_def gui_host_def)
  show "tame p g (g\<lparr>file_broker := broker_finish BE i ?b\<rparr>)"
    using host set_remove1_subset [of ?r "br_running ?b"]
    by (auto simp: broker_finish_def tame_simps handle_request_cells)
qed

section \<open>Frames and events\<close>

definition browsing :: "gui \<Rightarrow> bool" where
  "browsing g \<longleftrightarrow> pending_create_path g = None \<and> (screen g = VaultExplorer \<or> screen g = P2PDialog)"

lemma same_lock_browsing: "same_lock g g' \<Longrightarrow> browsing g' = browsing g"
  by (simp add: same_lock_def browsing_def)

text \<open>
  What an event does to the contents of the open vault. On a frame the bytes the broker has read for a chosen file
  arrive; a click on a control that is not shown does nothing.
\<close>

definition frame_effect :: "gui_env \<Rightarrow> gui \<Rightarrow> view \<Rightarrow> view" where
  "frame_effect E g m =
     (let g' = poll_viewer_done (poll_file_dialog_results E g) in
      case answer_in (pending_import_bytes g') g' of
        Some (c, ReadAnswer (Inr data)) \<Rightarrow>
          import_effect (explorer_status (poll_import_answer E g')) data (pending_import_vfs_name g') m
      | _ \<Rightarrow> m)"

fun event_effect :: "gui_env \<times> gui_event \<Rightarrow> gui \<Rightarrow> view \<Rightarrow> view" where
  "event_effect (E, Frame) g m = (if exit_code g = None then frame_effect E g m else m)"
| "event_effect (E, ClickFile (Delete n)) g m =
     (if exit_code g = None \<and> screen g = VaultExplorer then m(n := None) else m)"
| "event_effect (E, ClickSaveRename) g m =
     (if exit_code g = None \<and> screen g = VaultExplorer
      then (case rename_dialog g of Some st \<Rightarrow> rename_effect (old_name st) (new_name st) m | None \<Rightarrow> m) else m)"
| "event_effect (E, _) g m = m"

fun run_effect :: "(gui_env \<times> gui_event) list \<Rightarrow> gui \<Rightarrow> view \<Rightarrow> view" where
  "run_effect [] g m = m"
| "run_effect (x # evs) g m = run_effect evs (gui_step x g) (event_effect x g m)"

lemma frame_evolves:
  assumes "ge_vault E = L" "pending_create_path g = None" "exit_code g = None" "clear_of p g"
  shows "evolves L (frame_effect E g) g (poll_frame E g)" "tame p g (poll_frame E g)"
proof -
  let ?g1 = "poll_vault_path g" and ?g2 = "poll_import_path (poll_vault_path g)"
  let ?g3 = "poll_export_path E ?g2" and ?g4 = "poll_viewer_done (poll_export_path E ?g2)"
  have 1: "same_files g ?g1" "tame p g ?g1" "exit_code ?g1 = None" "pending_create_path ?g1 = None"
    using assms by (auto simp: poll_vault_path_def same_files_def tame_simps split: option.splits)
  have 2: "same_files ?g1 ?g2" "tame p ?g1 ?g2" "exit_code ?g2 = None"
    using 1(3) by (auto simp: poll_import_path_def same_files_def tame_simps split: option.splits)
  have c2: "clear_of p ?g2" using tame_clear 1(2) 2(2) assms(4) by blast
  have 3: "evolves L id ?g2 ?g3" "tame p ?g2 ?g3" "exit_code ?g3 = None"
  proof -
    let ?h = "?g2\<lparr>pending_export_path := None\<rparr>" and ?k = "?g2\<lparr>pending_export_path := None, pending_export_vfs_name := None\<rparr>"
    have t: "tame p ?g2 ?h" "tame p ?g2 ?k" "same_files ?g2 ?h" "same_files ?g2 ?k"
      by (simp_all add: tame_simps same_files_def)
    have c: "resolve_target (gui_host ?k) path \<noteq> p" if "pending_export_path ?g2 = Some path" for path
      using c2 that by (simp add: clear_of_def gui_host_def)
    have x: "exit_code (do_export_via_broker E path name ?k) = exit_code ?g2" for path name
      by (auto simp: do_export_via_broker_def send_to_broker_def Let_def split: option.splits sum.splits prod.splits)
    show "evolves L id ?g2 ?g3"
      using evolves_same [OF t(3), of L] evolves_quiet(1) [OF evolves_same [OF t(4), of L] open_evolves(2) [OF assms(1)]]
      by (auto simp: poll_export_path_def Let_def split: option.splits)
    show "tame p ?g2 ?g3"
      using t(1) tame_trans [OF t(2) file_ops_tame(5) [OF c]]
      by (auto simp: poll_export_path_def Let_def split: option.splits)
    show "exit_code ?g3 = None"
      using x 2(3) by (auto simp: poll_export_path_def Let_def split: option.splits)
  qed
  have 4: "same_files ?g3 ?g4" "tame p ?g3 ?g4"
    by (auto simp: poll_viewer_done_def same_files_def tame_simps split: option.splits)
  let ?F = "case answer_in (pending_import_bytes ?g4) ?g4 of
      Some (c, ReadAnswer (Inr data)) \<Rightarrow> import_effect (explorer_status (poll_import_answer E ?g4)) data (pending_import_vfs_name ?g4)
    | _ \<Rightarrow> id"
  have 5: "evolves L ?F ?g4 (poll_import_answer E ?g4)" "tame p ?g4 (poll_import_answer E ?g4)"
  proof -
    have h: "same_files ?g4 ((take_cell c ?g4)\<lparr>pending_import_bytes := None\<rparr>)"
      "tame p ?g4 ((take_cell c ?g4)\<lparr>pending_import_bytes := None\<rparr>)"
      "pending_import_vfs_name ((take_cell c ?g4)\<lparr>pending_import_bytes := None\<rparr>) = pending_import_vfs_name ?g4" for c
      by (simp_all add: same_files_def tame_simps)
    show "evolves L ?F ?g4 (poll_import_answer E ?g4)"
    proof (cases "\<exists>c data. answer_in (pending_import_bytes ?g4) ?g4 = Some (c, ReadAnswer (Inr data))")
      case True
      then obtain c data where "answer_in (pending_import_bytes ?g4) ?g4 = Some (c, ReadAnswer (Inr data))" by blast
      moreover note evolves_quiet(1) [OF evolves_same [OF h(1), of L c] import_evolves [OF assms(1), of data]]
      ultimately show ?thesis using h(3) [of c] by (simp add: poll_import_answer_def)
    next
      case False
      have "same_files ?g4 (poll_import_answer E ?g4)"
        using False by (auto simp: poll_import_answer_def same_files_def gui_host_def take_cell_def
            split: option.splits prod.splits answer.splits sum.splits)
      moreover have "?F = id" using False by (auto split: option.splits prod.splits answer.splits sum.splits)
      ultimately show ?thesis using evolves_same by simp
    qed
    show "tame p ?g4 (poll_import_answer E ?g4)"
      using tame_trans [OF h(2) file_ops_tame(1)]
      by (auto simp: poll_import_answer_def tame_simps split: option.splits prod.splits answer.splits sum.splits)
  qed
  have 6: "same_files h (poll_export_answer h)" "same_files h (poll_spawn_answer h)"
    "tame p h (poll_export_answer h)" "tame p h (poll_spawn_answer h)" for h
    by (auto simp: poll_export_answer_def poll_spawn_answer_def same_files_def tame_simps
        split: option.splits prod.splits answer.splits sum.splits)
  have d: "poll_file_dialog_results E g = ?g3"
    using 1(3,4) 2(3) by (simp add: poll_file_dialog_results_def poll_create_path_def)
  have F: "frame_effect E g = ?F"
    unfolding frame_effect_def d Let_def by (auto simp: fun_eq_iff split: option.splits prod.splits answer.splits sum.splits)
  have f: "poll_frame E g = poll_spawn_answer (poll_export_answer (poll_import_answer E ?g4))"
    using 1(3,4) 2(3) 3(3) by (simp add: poll_frame_def poll_file_dialog_results_def poll_create_path_def poll_broker_results_def)
  have "evolves L id g ?g4"
    by (rule evolves_quiet [OF evolves_same [OF 1(1)] evolves_quiet(1) [OF evolves_same [OF 2(1)]
        evolves_quiet(1) [OF 3(1) evolves_same [OF 4(1)]]]])
  from evolves_quiet(1) [OF this evolves_quiet(2) [OF evolves_quiet(2) [OF 5(1) evolves_same [OF 6(1)]] evolves_same [OF 6(2)]]]
  show "evolves L (frame_effect E g) g (poll_frame E g)" unfolding f F .
  show "tame p g (poll_frame E g)"
    unfolding f using 1(2) 2(2) 3(2) 4(2) 5(2) 6(3,4) tame_trans by meson
qed

text \<open>What an event must not be: locking the vault, or an export chosen to overwrite it.\<close>

definition event_keeps_open :: "vault_lib \<Rightarrow> (string \<Rightarrow> path) \<Rightarrow> path \<Rightarrow> gui_env \<times> gui_event \<Rightarrow> bool" where
  "event_keeps_open L rt p x \<longleftrightarrow>
     ge_vault (fst x) = L \<and>
     (case snd x of ClickHome \<Rightarrow> False | PickedExport path \<Rightarrow> rt path \<noteq> p | _ \<Rightarrow> True)"

lemma effect_exited: "exit_code g = Some c \<Longrightarrow> event_effect (E, ev) g = id"
proof (rule ext)
  fix m assume "exit_code g = Some c"
  then show "event_effect (E, ev) g m = id m" by (cases "((E, ev), g, m)" rule: event_effect.cases) simp_all
qed

lemma unlisted_evolves:
  assumes "\<not> listed n g"
  shows "evolves L (\<lambda>m. m(n := None)) g g"
proof -
  have "vault_view L (ov_key v) (attached g v) n = None" if "vault_session g = Some v" for v
    using assms that
    by (simp add: listed_def vault_view_def find_file_None attached_def Let_def list_ex_iff image_iff split: option.splits) blast
  then show ?thesis unfolding evolves_def by (auto simp: fun_upd_idem)
qed

lemma event_evolves:
  assumes "event_keeps_open L (resolve_target (gui_host g)) p (E, ev)" "browsing g" "clear_of p g"
    "\<And>v. vault_session g = Some v \<Longrightarrow> ov_path v = p"
  shows "evolves L (event_effect (E, ev) g) g (gui_step (E, ev) g)" "browsing (gui_step (E, ev) g)" "clear_of p (gui_step (E, ev) g)"
    "resolve_target (gui_host (gui_step (E, ev) g)) = resolve_target (gui_host g)"
proof -
  have all: "evolves L (event_effect (E, ev) g) g (gui_step (E, ev) g) \<and> browsing (gui_step (E, ev) g) \<and> clear_of p (gui_step (E, ev) g) \<and>
    resolve_target (gui_host (gui_step (E, ev) g)) = resolve_target (gui_host g)"
  proof (cases "exit_code g")
    case (Some c)
    with effect_exited have "event_effect (E, ev) g = id" by blast
    with Some assms show ?thesis by (simp add: gui_step_def)
  next
    case None
    have L: "ge_vault E = L" using assms(1) by (simp add: event_keeps_open_def)
    have b: "pending_create_path g = None" "screen g \<noteq> Login" "screen g \<noteq> CreateVault" "screen g \<noteq> Home"
      using assms(2) by (auto simp: browsing_def)
    note step = gui_step_def handle_event_def on_def
    have ok: ?thesis if "gui_step (E, ev) g = g'" "evolves L (event_effect (E, ev) g) g g'" "browsing g'" "tame p g g'" for g'
      using that tame_clear [OF that(4) assms(3)] by (simp add: tame_def)
    have quiet: ?thesis if "gui_step (E, ev) g = g'" "event_effect (E, ev) g = id" "same_files g g'" "browsing g'" "tame p g g'" for g'
      by (rule ok [OF that(1) _ that(4,5)]) (use evolves_same [OF that(3)] that(2) in simp)
    show ?thesis
    proof (cases ev)
      case Frame
      have s: "gui_step (E, ev) g = poll_frame E g" using Frame None by (simp add: step)
      have F: "event_effect (E, ev) g = frame_effect E g" using Frame None by (simp add: fun_eq_iff)
      have v: "browsing (poll_vault_path g)" using assms(2) b by (auto simp: poll_vault_path_def browsing_def split: option.splits)
      show ?thesis
        by (rule ok [OF s _ _ frame_evolves(2) [OF L b(1) None assms(3)]])
          (use F frame_evolves(1) [OF L b(1) None assms(3)] same_lock_browsing [OF poll_frame_lock [OF None b(1)]] v in simp_all)
    next
      case (PickedExport path)
      then have "event_effect (E, ev) g = id" by (simp add: fun_eq_iff)
      with PickedExport assms None show ?thesis
        by (auto simp: step event_keeps_open_def clear_of_def requests_def gui_host_def browsing_def same_files_def
            intro!: evolves_same)
    next
      case (BrokerFinish i)
      let ?g' = "g\<lparr>file_broker := broker_finish (ge_broker E) i (file_broker g)\<rparr>"
      have "evolves L id g ?g'"
        by (rule evolves_frame) (use finish_effect(1) [OF assms(3)] assms(4) in \<open>auto simp: gui_host_def\<close>)
      moreover have "event_effect (E, ev) g = id" using BrokerFinish by (simp add: fun_eq_iff)
      ultimately have e: "evolves L (event_effect (E, ev) g) g ?g'" by simp
      show ?thesis
        by (rule ok [of ?g', OF _ e _ finish_effect(2) [OF assms(3)]])
          (use BrokerFinish None assms(2) in \<open>simp_all add: step browsing_def\<close>)
    next
      case (ClickFile a)
      show ?thesis
      proof (cases "\<exists>n. a = Delete n")
        case True
        then obtain n where a: "a = Delete n" by blast
        have f: "event_effect (E, ev) g = (if screen g = VaultExplorer then (\<lambda>m. m(n := None)) else id)"
          using ClickFile a None by (simp add: fun_eq_iff)
        let ?g' = "if screen g = VaultExplorer \<and> listed n g then do_delete E n g else g"
        have e: "evolves L (event_effect (E, ev) g) g ?g'"
          using delete_evolves [OF L, of n g] unlisted_evolves [of n g L] by (simp add: f)
        show ?thesis
          by (rule ok [of ?g', OF _ e]) (use ClickFile a None file_ops_tame(3) [of p g E n]
              same_lock_browsing [OF file_ops_lock(3) [of g E n]] assms(2) in \<open>simp_all add: step\<close>)
      next
        case False
        then have f: "event_effect (E, ev) g = id" using ClickFile by (cases a) (auto simp: fun_eq_iff)
        have "evolves L id g (file_action E a g) \<and> browsing (file_action E a g) \<and> tame p g (file_action E a g)"
        proof (cases a)
          case (Open n)
          then show ?thesis
            using open_evolves(1) [OF L, of g n] file_ops_tame(2) [of p g E n]
              same_lock_browsing [OF file_ops_lock(2) [of g E n]] assms(2) by simp
        qed (use False assms(2) in \<open>auto simp: do_export_file_def same_files_def gui_host_def tame_simps browsing_def
            intro!: evolves_same\<close>)
        with ok [of "file_action E a g"] quiet [of g] ClickFile None assms(2) f show ?thesis
          by (cases "screen g = VaultExplorer \<and> listed (action_name a) g") (auto simp: step same_files_def)
      qed
    next
      case ClickSaveRename
      show ?thesis
      proof (cases "screen g = VaultExplorer \<and> rename_dialog g \<noteq> None")
        case True
        then obtain st where st: "screen g = VaultExplorer" "rename_dialog g = Some st" by auto
        have "event_effect (E, ev) g = rename_effect (old_name st) (new_name st)"
          using ClickSaveRename None st by (simp add: fun_eq_iff)
        then have e: "evolves L (event_effect (E, ev) g) g (do_rename E g)" using rename_evolves [OF L st(2)] by simp
        show ?thesis
          by (rule ok [OF _ e _ file_ops_tame(4)]) (use ClickSaveRename None st same_lock_browsing [OF file_ops_lock(5)] assms(2) in
              \<open>simp_all add: step\<close>)
      next
        case False
        then show ?thesis
          by (intro quiet [of g]) (use ClickSaveRename None assms(2) in
              \<open>auto simp: step same_files_def fun_eq_iff do_rename_def split: option.splits\<close>)
      qed
    next
      case ClickHome
      with assms(1) show ?thesis by (simp add: event_keeps_open_def)
    qed (rule quiet [OF refl]; use None b assms(2) in \<open>auto simp: step fun_eq_iff same_files_def gui_host_def tame_simps browsing_def
        edit_rename_def broker_dispatch_def click_p2p_def exit_with_def split: list.splits sum.splits\<close>)+
  qed
  then show "evolves L (event_effect (E, ev) g) g (gui_step (E, ev) g)" "browsing (gui_step (E, ev) g)" "clear_of p (gui_step (E, ev) g)"
    "resolve_target (gui_host (gui_step (E, ev) g)) = resolve_target (gui_host g)" by simp_all
qed

lemma run_effect_Nil: "run_effect [] g = id"
  by (rule ext) simp

lemma run_evolves:
  assumes "list_all (event_keeps_open L (resolve_target (gui_host g)) (ov_path v)) evs" "browsing g"
    "clear_of (ov_path v) g" "vault_session g = Some v" "vault_inv (attached g v)" "explorer_ok (L, ov_key v, 0)"
  shows "evolves L (run_effect evs g) g (run_gui evs g)"
  using assms
proof (induction evs arbitrary: g v)
  case (Cons x evs)
  obtain E ev where x: "x = (E, ev)" by fastforce
  have "event_keeps_open L (resolve_target (gui_host g)) (ov_path v) (E, ev)" using Cons.prems(1) x by simp
  note e = event_evolves [OF this Cons.prems(2,3)]
  have e1: "evolves L (event_effect x g) g (gui_step x g)" "browsing (gui_step x g)" "clear_of (ov_path v) (gui_step x g)"
    "resolve_target (gui_host (gui_step x g)) = resolve_target (gui_host g)"
    using e Cons.prems(4) x by simp_all
  then obtain v' where v': "vault_session (gui_step x g) = Some v'" "ov_path v' = ov_path v" "ov_key v' = ov_key v"
    "vault_inv (attached (gui_step x g) v')"
    using Cons.prems(4-6) unfolding evolves_def by metis
  have "evolves L (run_effect evs (gui_step x g)) (gui_step x g) (run_gui evs (gui_step x g))"
    by (rule Cons.IH [of _ v']) (use Cons.prems e1 v' in simp_all)
  from evolves_trans [OF e1(1) this] show ?case by (simp add: comp_def)
qed (simp add: run_effect_Nil)

end
