(* ===== verification/GuiTheorems.thy ===== *)
theory GuiTheorems
  imports ProcessTheorems SyncTheorems GuiContents
begin

text \<open>
  The properties of the graphical interface over one vault: when a vault is open and what the process
  may touch, creating and unlocking, importing and renaming, and the contents of a session.
\<close>

section \<open>Locking and confinement\<close>

text \<open>The paths of the ruleset the interface applies.\<close>

definition gui_ro_paths :: "string list" where
  "gui_ro_paths = [''/usr'', ''/etc'', ''/sys'', ''/proc'']"

definition gui_rw_paths :: "os \<Rightarrow> string \<Rightarrow> string list" where
  "gui_rw_paths os vault_path =
     (let run = unwrap_or ''/run/user/1000'' (os_var os ''XDG_RUNTIME_DIR'')
      in [''/dev/dri'', run, effective_path os vault_path, run @ ''/atom_staging'', gui_data_dir os])"

lemma gui_sandbox_Inr:
  "snd (apply_gui_vault_sandbox K os path) = Inr rules \<longleftrightarrow>
   apply_process_sandbox K os gui_ro_paths (gui_rw_paths os path) = Inr rules"
  by (simp add: apply_gui_vault_sandbox_def gui_ro_paths_def gui_rw_paths_def Let_def map_err_eq_Inr)


section \<open>Creating and unlocking\<close>

lemma register_path_disk: "gui_host (register_path E path g) = gui_host g"
  "create_vault_form (register_path E path g) = create_vault_form g"
  by (auto simp: register_path_def reload_registry_def exit_with_def gui_host_def split: sum.splits)

lemma lock_process_fields:
  "gui_host (lock_process E path g) = gui_host g" "create_vault_form (lock_process E path g) = create_vault_form g"
  "screen (lock_process E path g) = screen g"
  by (auto simp: lock_process_def exit_with_def gui_host_def split: sum.splits)

text \<open>The file a successful press of the button has written.\<close>

lemma click_create_ok:
  assumes "screen g = CreateVault" "click_create E g = g1" "exit_code g1 = None" "screen g1 = Home"
    "os_home_dir (ge_os E) = Some hm"
  obtains folder f kdf m ro t ms d r r' where
    "path_parent (path_join (path_join hm ''.atom_vault'') (create_name (create_vault_form g) @ ''.aegis'')) = Some folder"
    "handle_create (ge_vault E) kdf m ro t (ge_threads E) ms d (FromGui (create_pass (create_vault_form g))) False r = Inr (f, r')"
    "disk (gui_host g1) = (disk (gui_host g))(resolve_target (gui_host g) (path_join folder
       (unwrap_or (create_name (create_vault_form g)) (file_stem (path_join (path_join hm ''.atom_vault'')
         (create_name (create_vault_form g) @ ''.aegis''))) @ ''.aegis'')) \<mapsto> fbytes f)"
    "resolve_target (gui_host g1) = resolve_target (gui_host g)" "canonicalize (gui_host g1) = canonicalize (gui_host g)"
    "create_pass (create_vault_form g1) = []" "create_confirm (create_vault_form g1) = []"
proof -
  let ?f = "create_vault_form g"
  let ?full = "path_join (path_join hm ''.atom_vault'') (create_name ?f @ ''.aegis'')"
  have s: "screen (set_create_status m g) = screen g" for m by (simp add: set_create_status_def)
  from assms s have g1: "g1 = do_create_vault_at_path E ?full g"
    by (auto simp: click_create_def Let_def split: if_splits)
  then obtain folder where p: "path_parent ?full = Some folder"
    using assms(1,4) s by (auto simp: do_create_vault_at_path_def split: option.splits)
  let ?name = "unwrap_or (create_name ?f) (file_stem ?full)"
  let ?l = "lock_process E ?full g"
  have x: "exit_code ?l = None" using g1 p assms(3) by (cases "exit_code ?l") (simp_all add: do_create_vault_at_path_def)
  have d: "g1 = do_create E ?full folder ?name ?l" using g1 p x by (simp add: do_create_vault_at_path_def)
  let ?l1 = "?l\<lparr>create_vault_form := ?f\<lparr>create_pass := [], create_confirm := [],
       create_status := ''Deriving keys, please wait...''\<rparr>\<rparr>"
  obtain g2 q where r: "run_create E folder ?name (if create_kdf_argon ?f then ''argon2id'' else ''scrypt'')
      (parse_u32 (create_memory ?f)) (parse_u32 (create_rounds ?f)) (parse_u32 (create_threads ?f))
      (unwrap_or 1000 (parse_u32 (create_dec_time ?f))) (create_pass ?f) ?l1 = (g2, q)" by fastforce
  have scr: "screen g2 = CreateVault" using run_create_fields(1) [OF r] assms(1) lock_process_fields(3) by (simp add: same_lock_def)
  have g1': "g1 = (case q of Inl e \<Rightarrow> set_create_status (''Error: '' @ e) g2
      | Inr _ \<Rightarrow> if_running (\<lambda>g3. g3\<lparr>home_status := ''Vault '' @ CHR 0x27 # ?name @ CHR 0x27 # '' created. Select it to unlock.'',
             create_vault_form := (create_vault_form g3)\<lparr>create_name := [], create_status := []\<rparr>, screen := Home\<rparr>)
           (register_path E ?full g2))"
    unfolding d do_create_def Let_def lock_process_fields(2) r by (cases q) simp_all
  obtain u where q: "q = Inr u"
    using g1' scr assms(4) by (cases q) (simp_all add: set_create_status_def)
  have hl: "gui_host ?l1 = gui_host g" using lock_process_fields(1) [of E ?full g] by (simp add: gui_host_def)
  let ?p = "resolve_target (gui_host g) (path_join folder (?name @ ''.aegis''))"
  from r q obtain f r' where hc: "handle_create (ge_vault E) (if create_kdf_argon ?f then ''argon2id'' else ''scrypt'')
      (parse_u32 (create_memory ?f)) (parse_u32 (create_rounds ?f)) (parse_u32 (create_threads ?f))
      (ge_threads E) (ge_measured E) (unwrap_or 1000 (parse_u32 (create_dec_time ?f))) (FromGui (create_pass ?f))
      (\<not> may_create E ?l1 ?p) (gui_rand ?l1) = Inr (f, r')" "g2 = (write_disk ?p (fbytes f) ?l1)\<lparr>gui_rand := r'\<rparr>"
    by (auto simp: run_create_def Let_def hl split: if_splits sum.splits prod.splits)
  then have mc: "may_create E ?l1 ?p" by (auto simp: handle_create_def create_vault_def result_simps Let_def case_prod_beta)
  have x2: "exit_code (register_path E ?full g2) = None"
    using g1' q assms(3) by (cases "exit_code (register_path E ?full g2)") simp_all
  note w = register_path_disk [of E ?full g2]
  have h2: "gui_host g2 = (gui_host g)\<lparr>disk := (disk (gui_host g))(?p \<mapsto> fbytes f)\<rparr>" "create_vault_form g2 = create_vault_form ?l1"
    using hc(2) hl by (simp_all add: write_disk_def gui_host_def)
  have g1f: "gui_host g1 = gui_host g2" "create_pass (create_vault_form g1) = []" "create_confirm (create_vault_form g1) = []"
    using g1' q x2 w h2(2) by (simp_all add: gui_host_def)
  have hc': "handle_create (ge_vault E) (if create_kdf_argon ?f then ''argon2id'' else ''scrypt'')
      (parse_u32 (create_memory ?f)) (parse_u32 (create_rounds ?f)) (parse_u32 (create_threads ?f))
      (ge_threads E) (ge_measured E) (unwrap_or 1000 (parse_u32 (create_dec_time ?f))) (FromGui (create_pass ?f))
      False (gui_rand ?l1) = Inr (f, r')" using hc(1) mc by simp
  show thesis by (rule that [OF p hc']) (use g1f h2 in simp_all)
qed

text \<open>Loading starts at the beginning of the file.\<close>

lemma load_from_start:
  fixes f f' :: File
  assumes "fbytes f' = fbytes f"
  shows "load_vault_metadata L pw f' = load_vault_metadata L pw f"
proof -
  have "seek_start 0 f' = seek_start 0 f" using assms by (cases f; cases f') (simp add: seek_start_def)
  then show ?thesis unfolding load_vault_metadata_def by simp
qed

text \<open>The file that was created, on its way through the login screen.\<close>

lemma created_opens:
  assumes "aead_ok (crypto L)" "bincode_ok L" "ge_vault E = L" "ge_vault E' = L"
    and "screen g = CreateVault" "click_create E g = g1" "exit_code g1 = None" "screen g1 = Home"
    and "os_home_dir (ge_os E) = Some hm"
      "full = path_join (path_join hm ''.atom_vault'') (create_name (create_vault_form g) @ ''.aegis'')"
      "path_parent full = Some folder"
      "p = resolve_target (gui_host g) (path_join folder (unwrap_or (create_name (create_vault_form g)) (file_stem full) @ ''.aegis''))"
    and "canonicalize (gui_host g) full = Some p" "list_ex (\<lambda>e. ve_path e = full) (vault_registry g1)" "ge_exists E' full"
    and "ge_openable E' p" "\<And>b. disk (gui_host g1) p = Some b \<Longrightarrow> length b \<le> 125 + METADATA_LIMIT"
    and "g2 = run_gui [(E', ClickOpenEntry full), (E', EditPassword (create_pass (create_vault_form g))), (E', ClickUnlock)] g1"
    and "exit_code g2 = None" "process_allows E' g2 p ReadFile" "process_allows E' g2 p WriteFile"
  shows "\<exists>v. vault_session g2 = Some v \<and> screen g2 = VaultExplorer \<and> ov_path v = p \<and>
    vault_inv (attached g2 v) \<and> vault_view L (ov_key v) (attached g2 v) = Map.empty \<and>
    password g2 = [] \<and> create_pass (create_vault_form g2) = [] \<and> create_confirm (create_vault_form g2) = []"
proof -
  let ?pw = "create_pass (create_vault_form g)"
  obtain folder' f kdf m ro t ms d r r' where c: "path_parent full = Some folder'"
    "handle_create L kdf m ro t (ge_threads E) ms d (FromGui ?pw) False r = Inr (f, r')"
    "disk (gui_host g1) = (disk (gui_host g))(resolve_target (gui_host g) (path_join folder'
       (unwrap_or (create_name (create_vault_form g)) (file_stem full) @ ''.aegis'')) \<mapsto> fbytes f)"
    "canonicalize (gui_host g1) = canonicalize (gui_host g)"
    "create_pass (create_vault_form g1) = []" "create_confirm (create_vault_form g1) = []"
    using click_create_ok [OF assms(5-9)] unfolding assms(3) assms(10) by metis
  have dk: "disk (gui_host g1) p = Some (fbytes f)" using c(1,3) assms(11,12) by simp
  have len: "length (fbytes f) \<le> 125 + METADATA_LIMIT" using assms(17) [OF dk] .
  from c(2) obtain st where cr: "create_vault L ?pw st False r = Inr (f, r')" by (auto simp: handle_create_def)
  have pw: "?pw \<noteq> []"
    using cr by (auto simp: create_vault_def result_simps Let_def case_prod_beta trim_def)
  from create_ok [OF assms(1,2) cr len] obtain uv cdc where
    u: "\<And>s. s = \<lparr>phys = f, meta = \<lparr>file_table = [], cdc_salt = cdc\<rparr>, payload_offset = 125, rand = r'\<rparr> \<Longrightarrow>
      vault_inv s \<and> vault_view L uv s = Map.empty \<and> synced L (str_bytes ?pw) uv s" by blast
  let ?s = "\<lparr>phys = f, meta = \<lparr>file_table = [], cdc_salt = cdc\<rparr>, payload_offset = 125, rand = r'\<rparr>"
  from u [OF refl] obtain f1 where ld: "load_vault_metadata L (str_bytes ?pw) \<lparr>fbytes = fbytes f, fpos = 0\<rparr> =
      Inr ((\<lparr>file_table = [], cdc_salt = cdc\<rparr>, uv, 125), f1)" "fbytes f1 = fbytes f"
    using load_from_start [of "\<lparr>fbytes = fbytes f, fpos = 0\<rparr>" f L "str_bytes ?pw"] by (auto simp: synced_def split: sum.splits)
  let ?ga = "(click_open_entry full g1)\<lparr>password := ?pw\<rparr>"
  have g2: "g2 = try_unlock E' ?ga"
    using assms(7,8,14,15,18) by (simp add: gui_step_def handle_event_def on_def click_open_entry_def)
  let ?gb = "register_path E' full ?ga"
  let ?gc = "if_running (lock_process E' full) ?gb"
  have g2': "g2 = if_running (unlock_file E' full) ?gc" using g2 pw by (simp add: try_unlock_def click_open_entry_def)
  have xc: "exit_code ?gc = None" using g2' assms(19) by (cases "exit_code ?gc") simp_all
  have g2u: "g2 = unlock_file E' full ?gc" using g2' xc by simp
  have keep: "gui_host ?gc = gui_host g1" "create_vault_form ?gc = create_vault_form g1" "password ?gc = ?pw"
  proof -
    have "password (register_path E' full h) = password h" "password (lock_process E' full h) = password h" for h
      by (auto simp: register_path_def reload_registry_def lock_process_def exit_with_def split: sum.splits)
    then show "gui_host ?gc = gui_host g1" "create_vault_form ?gc = create_vault_form g1" "password ?gc = ?pw"
      using register_path_disk [of E' full ?ga] lock_process_fields [of E' full ?gb]
      by (simp_all add: if_running_def click_open_entry_def gui_host_def)
  qed
  have rules: "landlock_rules g2 = landlock_rules ?gc"
    unfolding g2u by (auto simp: unlock_file_def Let_def split: option.splits sum.splits prod.splits)
  let ?gd = "?gc\<lparr>password := [], login_status := ''Decrypting...''\<rparr>"
  have op: "open_read_write E' full ?gd = Some (p, fbytes f)"
    using keep(1) dk c(4) assms(13,16,20,21) rules by (simp add: open_read_write_def process_allows_def gui_host_def)
  let ?v = "\<lparr>ov_path = p, ov_key = uv,
     ov_session = \<lparr>phys = f1, meta = \<lparr>file_table = [], cdc_salt = cdc\<rparr>, payload_offset = 125, rand = gui_rand ?gd\<rparr>\<rparr>"
  have fin: "g2 = ?gd\<lparr>current_vault_path := full, vault_session := Some ?v, screen := VaultExplorer, login_status := [], home_status := []\<rparr>"
    using op ld(1) keep(3) unfolding g2u unlock_file_def Let_def assms(4) by simp
  have at: "attached g2 ?v = ov_session ?v"
    using fin dk keep(1) ld(2) by (simp add: attached_def gui_host_def)
  have "vault_inv (ov_session ?v)" "vault_view L uv (ov_session ?v) = vault_view L uv ?s"
    using u [OF refl] ld(2) by (simp_all add: vault_inv_def vault_view_def fun_eq_iff)
  with at fin u [OF refl] keep(2) c(5,6) show ?thesis by (intro exI [of _ ?v]) simp
qed

text \<open>C14. A vault made in the window opens in the window: after the button has created it, choosing it
  on the home screen and typing the same password opens an empty, well-formed vault, provided the rules in force allow its file to be
  read and written. Neither the password
  typed to create it nor the one typed to unlock it is kept.\<close>

theorem created_vault_unlocks:
  assumes "aead_ok (crypto L)" "bincode_ok L" "ge_vault E = L" "ge_vault E' = L"
    and "screen g = CreateVault" "click_create E g = g1" "exit_code g1 = None" "screen g1 = Home"
    and "os_home_dir (ge_os E) = Some hm"
      "full = path_join (path_join hm ''.atom_vault'') (create_name (create_vault_form g) @ ''.aegis'')"
      "path_parent full = Some folder"
      "p = resolve_target (gui_host g) (path_join folder (unwrap_or (create_name (create_vault_form g)) (file_stem full) @ ''.aegis''))"
    and "canonicalize (gui_host g) full = Some p" "list_ex (\<lambda>e. ve_path e = full) (vault_registry g1)" "ge_exists E' full"
    and "ge_openable E' p" "\<And>b. disk (gui_host g1) p = Some b \<Longrightarrow> length b \<le> 125 + METADATA_LIMIT"
    and "g2 = run_gui [(E', ClickOpenEntry full), (E', EditPassword (create_pass (create_vault_form g))), (E', ClickUnlock)] g1"
    and "exit_code g2 = None" "process_allows E' g2 p ReadFile" "process_allows E' g2 p WriteFile"
  shows "\<exists>v. vault_session g2 = Some v \<and> screen g2 = VaultExplorer \<and> ov_path v = p \<and>
    vault_inv (attached g2 v) \<and> vault_view L (ov_key v) (attached g2 v) = Map.empty \<and>
    password g2 = [] \<and> create_pass (create_vault_form g2) = [] \<and> create_confirm (create_vault_form g2) = []"
  using created_opens [OF assms] .

section \<open>A concrete session\<close>

definition demo_gui_os :: os where
  "demo_gui_os =
     \<lparr>os_var = [''XDG_RUNTIME_DIR'' \<mapsto> ''/run''], os_home_dir = Some ''/home/u'',
      os_metadata = [''/home/u/.atom_vault'' \<mapsto> IsDir],
      os_path_fd = [''/home/u/.atom_vault'' \<mapsto> [''home'', ''u'', ''.atom_vault'']],
      os_is_symlink = (\<lambda>_. Some False)\<rparr>"

definition demo_gui_env :: gui_env where
  "demo_gui_env =
     \<lparr>ge_vault = demo_lib, ge_landlock = demo_landlock, ge_os = demo_gui_os, ge_config = demo_crypto,
      ge_registry = demo_registry, ge_json = demo_json, ge_exists = (\<lambda>_. True), ge_openable = (\<lambda>_. True), ge_now = 7,
      ge_threads = 8, ge_measured = 0, ge_mkdir_ok = True, ge_left_behind = [], ge_io_error = [], ge_show = (\<lambda>_. []), ge_words = [],
      ge_broker = demo_broker_env\<rparr>"

definition demo_gui_host :: host where
  "demo_gui_host = demo_host\<lparr>canonicalize := (\<lambda>s. Some (filter (\<lambda>c. c \<noteq> []) (split_on (CHR ''/'') s)))\<rparr>"

definition demo_form :: create_form where
  "demo_form = empty_form\<lparr>create_name := ''v'', create_pass := ''pw'', create_confirm := ''pw'', create_rounds := ''3'',
     create_threads := ''4''\<rparr>"

definition demo_gui :: gui where
  "demo_gui = (app_new demo_gui_host demo_reg demo_home (\<lambda>_. 0))\<lparr>screen := CreateVault, create_vault_form := demo_form\<rparr>"

definition demo_vault_text :: string where "demo_vault_text = ''/home/u/.atom_vault/v.aegis''"

definition demo_gui_rules :: "rule list" where
  "demo_gui_rules = [([''home'', ''u'', ''.atom_vault''], from_all demo_landlock), ([''home'', ''u'', ''.atom_vault''], from_all demo_landlock)]"

lemma demo_gui_paths:
  "path_join (path_join ''/home/u'' ''.atom_vault'') (''v'' @ ''.aegis'') = demo_vault_text"
  "path_parent demo_vault_text = Some ''/home/u/.atom_vault''" "file_stem demo_vault_text = Some ''v''"
  "path_join ''/home/u/.atom_vault'' (''v'' @ ''.aegis'') = demo_vault_text"
  by (simp_all add: path_join_def demo_vault_text_def path_parent_def file_stem_def file_name_def)

lemma demo_gui_sandboxed: "snd (apply_gui_vault_sandbox demo_landlock demo_gui_os demo_vault_text) = Inr demo_gui_rules"
proof -
  have "effective_path demo_gui_os demo_vault_text = ''/home/u/.atom_vault''"
    by (simp add: effective_path_def os_exists_def demo_gui_paths(2) unwrap_or_def) (simp add: demo_gui_os_def demo_vault_text_def)
  moreover have "gui_data_dir demo_gui_os = ''/home/u/.atom_vault''" by (simp add: gui_data_dir_def demo_gui_os_def path_join_def)
  ultimately show ?thesis
    by (simp add: apply_gui_vault_sandbox_def Let_def unwrap_or_def)
      (simp add: apply_process_sandbox_def demo_gui_rules_def demo_gui_os_def demo_landlock_def Let_def)
qed

text \<open>The registry of the demo accepts every path.\<close>

definition reg_good :: "RegistryHome \<Rightarrow> bool" where
  "reg_good h \<longleftrightarrow> reg_key h = Some (replicate 32 0) \<and> reg_io h = \<lparr>open_ok = True, write_cut = None\<rparr> \<and>
     is_ok (load_vault_registry demo_crypto demo_registry (\<lambda>_. True) h)"

lemma demo_register_path:
  assumes "reg_good (registry_home g)" "exit_code g = None"
  shows "\<exists>h es. register_path demo_gui_env path g = g\<lparr>registry_home := h, vault_registry := es\<rparr> \<and> reg_good h \<and>
    list_ex (\<lambda>e. ve_path e = path) es"
proof -
  let ?h = "registry_home g"
  from assms obtain es where es: "load_vault_registry demo_crypto demo_registry (\<lambda>_. True) ?h = Inr es"
    by (auto simp: reg_good_def is_ok_iff)
  let ?es = "latest_first (touch_entry path 7 es)"
  have "\<exists>data g'. encrypt_config demo_crypto (Some (replicate 32 0)) (str_bytes (vaults_to_json demo_registry ?es)) (gui_rand g) = Inr (data, g')"
    by (rule sync_demo_encrypt) simp
  then have "\<exists>h'. save_vault_registry demo_crypto demo_registry ?es (gui_rand g) ?h = Inr h' \<and> reg_key h' = reg_key ?h \<and> reg_io h' = reg_io ?h"
    using assms(1) by (auto simp: save_vault_registry_def save_json_def reg_good_def)
  then obtain h' where s: "save_vault_registry demo_crypto demo_registry ?es (gui_rand g) ?h = Inr h'" "reg_key h' = reg_key ?h" "reg_io h' = reg_io ?h"
    by blast
  have l: "load_vault_registry demo_crypto demo_registry (\<lambda>_. True) h' = Inr ?es"
    using load_saved_registry [OF demo_aead_ok demo_registry_ok s(1), of "\<lambda>_. True"] assms(1) by (simp add: reg_good_def)
  have "list_ex (\<lambda>e. ve_path e = path) ?es"
  proof (cases "update_first (\<lambda>e. ve_path e = path) (\<lambda>e. e\<lparr>last_opened := 7, ve_name := registry_name path\<rparr>) es")
    case None
    then show ?thesis by (simp add: list_ex_iff touch_entry_def)
  next
    case (Some xs)
    from update_first_split [OF Some] have "\<exists>e \<in> set xs. ve_path e = path"
      by (metis VaultEntry.select_convs(2) VaultEntry.surjective VaultEntry.update_convs(1) VaultEntry.update_convs(3) in_set_conv_decomp)
    with Some show ?thesis by (simp add: list_ex_iff touch_entry_def)
  qed
  with es s l assms show ?thesis
    by (intro exI [of _ h'] exI [of _ ?es]) (simp add: register_path_def reload_registry_def register_vault_def demo_gui_env_def reg_good_def)
qed

lemma demo_reg_good: "reg_good demo_reg"
  by (simp add: reg_good_def demo_reg_def load_vault_registry_def load_json_def)

definition demo_vault_path :: path where "demo_vault_path = [''home'', ''u'', ''.atom_vault'', ''v.aegis'']"

lemma demo_gui_fields:
  "gui_host demo_gui = demo_gui_host" "exit_code demo_gui = None" "screen demo_gui = CreateVault"
  "create_vault_form demo_gui = demo_form" "sandbox_applied demo_gui = False" "registry_home demo_gui = demo_reg"
  "gui_rand demo_gui = (\<lambda>_. 0)"
  by (simp_all add: demo_gui_def app_new_def gui_host_def broker_start_def)

lemma demo_resolve:
  "resolve_target demo_gui_host demo_vault_text = demo_vault_path"
  "canonicalize demo_gui_host demo_vault_text = Some demo_vault_path"
  "disk demo_gui_host demo_vault_path = None" "creatable demo_gui_host demo_vault_path"
  by (simp_all add: demo_gui_host_def demo_host_def demo_vault_text_def demo_vault_path_def)

lemma demo_rules_allow:
  "kernel_allows demo_landlock demo_gui_rules demo_vault_path ReadFile"
  "kernel_allows demo_landlock demo_gui_rules demo_vault_path WriteFile"
  "kernel_allows demo_landlock demo_gui_rules (butlast demo_vault_path) MakeReg"
  by (simp_all add: demo_landlock_def demo_gui_rules_def demo_vault_path_def path_starts_with_def)

lemma demo_settings: "create_settings False None (Some 3) (Some 4) 8 0 1000 = KdfSettings_default"
  by (simp add: create_settings_def KdfSettings_default_def)

lemma demo_form_fields:
  "create_name demo_form = ''v''" "create_pass demo_form = ''pw''" "create_confirm demo_form = ''pw''"
  "create_kdf_argon demo_form" "parse_u32 (create_memory demo_form) = None" "parse_u32 (create_rounds demo_form) = Some 3"
  "parse_u32 (create_threads demo_form) = Some 4" "parse_u32 (create_dec_time demo_form) = Some 1000"
  by (simp_all add: demo_form_def empty_form_def parse_u32_def parse_uint_def is_digit_def Let_def)

text \<open>The window after the vault has been created.\<close>

lemma demo_gui_created:
  obtains f r h es where
    "create_vault demo_lib ''pw'' KdfSettings_default False (\<lambda>_. 0) = Inr (f, r)" "length (fbytes f) \<le> 125 + METADATA_LIMIT"
    "reg_good h" "list_ex (\<lambda>e. ve_path e = demo_vault_text) es"
    "click_create demo_gui_env demo_gui =
      (write_disk demo_vault_path (fbytes f) demo_gui)\<lparr>gui_rand := r, landlock_rules := Some demo_gui_rules, sandbox_applied := True,
        registry_home := h, vault_registry := es, screen := Home, home_status := ''Vault '' @ CHR 0x27 # ''v'' @ CHR 0x27 # '' created. Select it to unlock.'',
        create_vault_form := demo_form\<lparr>create_name := [], create_pass := [], create_confirm := [], create_status := []\<rparr>\<rparr>"
proof -
  obtain f r where c: "create_vault demo_lib ''pw'' KdfSettings_default False (\<lambda>_. 0) = Inr (f, r)"
    "length (fbytes f) \<le> 125 + METADATA_LIMIT" by (rule demo_created)
  let ?l = "demo_gui\<lparr>landlock_rules := Some demo_gui_rules, sandbox_applied := True\<rparr>"
  have l: "lock_process demo_gui_env demo_vault_text demo_gui = ?l"
    by (simp add: lock_process_def demo_gui_fields demo_gui_sandboxed demo_gui_env_def)
  let ?l1 = "?l\<lparr>create_vault_form := demo_form\<lparr>create_pass := [], create_confirm := [],
       create_status := ''Deriving keys, please wait...''\<rparr>\<rparr>"
  have host: "gui_host ?l1 = demo_gui_host" using demo_gui_fields(1) by (simp add: gui_host_def)
  have mc: "may_create demo_gui_env ?l1 demo_vault_path"
    by (simp add: may_create_def host demo_resolve process_allows_def demo_rules_allow demo_gui_env_def)
  have "to_lowercase ''argon2id'' \<noteq> ''scrypt''" by (simp add: to_lowercase_def to_lower_def)
  then have hc: "handle_create demo_lib ''argon2id'' None (Some 3) (Some 4) 8 0 1000 (FromGui ''pw'') False (\<lambda>_. 0) = Inr (f, r)"
    using c(1) by (simp add: handle_create_def demo_settings)
  let ?g2 = "(write_disk demo_vault_path (fbytes f) ?l1)\<lparr>gui_rand := r\<rparr>"
  have rc: "run_create demo_gui_env ''/home/u/.atom_vault'' ''v'' ''argon2id'' None (Some 3) (Some 4) 1000 ''pw'' ?l1 = (?g2, Inr ())"
    using mc hc demo_gui_fields(7)
    by (simp add: run_create_def demo_gui_env_def Let_def host demo_gui_paths(4) [simplified] demo_resolve(1))
  have g2: "reg_good (registry_home ?g2)" "exit_code ?g2 = None"
    using demo_reg_good demo_gui_fields by (simp_all add: write_disk_def)
  obtain h es where rp: "register_path demo_gui_env demo_vault_text ?g2 = ?g2\<lparr>registry_home := h, vault_registry := es\<rparr>"
    "reg_good h" "list_ex (\<lambda>e. ve_path e = demo_vault_text) es" using demo_register_path [OF g2] by blast
  have f: "create_vault_form ?l = demo_form" using demo_gui_fields by simp
  have "do_create demo_gui_env demo_vault_text ''/home/u/.atom_vault'' ''v'' ?l =
      ?g2\<lparr>registry_home := h, vault_registry := es, screen := Home, home_status := ''Vault '' @ CHR 0x27 # ''v'' @ CHR 0x27 # '' created. Select it to unlock.'',
        create_vault_form := demo_form\<lparr>create_name := [], create_pass := [], create_confirm := [], create_status := []\<rparr>\<rparr>"
    unfolding do_create_def Let_def f demo_form_fields if_P [OF demo_form_fields(4)]
    using rc rp(1) g2(2) by (simp add: unwrap_or_def write_disk_def demo_form_fields)
  then have "do_create_vault_at_path demo_gui_env demo_vault_text demo_gui =
      ?g2\<lparr>registry_home := h, vault_registry := es, screen := Home, home_status := ''Vault '' @ CHR 0x27 # ''v'' @ CHR 0x27 # '' created. Select it to unlock.'',
        create_vault_form := demo_form\<lparr>create_name := [], create_pass := [], create_confirm := [], create_status := []\<rparr>\<rparr>"
    by (simp add: do_create_vault_at_path_def demo_gui_paths unwrap_or_def l demo_gui_fields)
  moreover have "click_create demo_gui_env demo_gui = do_create_vault_at_path demo_gui_env demo_vault_text demo_gui"
    using demo_gui_paths(1) by (simp add: click_create_def demo_gui_fields demo_form_fields is_valid_vault_name_def)
      (simp add: demo_gui_env_def demo_gui_os_def)
  ultimately show thesis using that [OF c rp(2,3)] by (simp add: write_disk_def gui_host_def)
qed

abbreviation demo_unlocking :: "(gui_env \<times> gui_event) list" where
  "demo_unlocking \<equiv> [(demo_gui_env, ClickOpenEntry demo_vault_text), (demo_gui_env, EditPassword ''pw''), (demo_gui_env, ClickUnlock)]"

lemma unlock_file_frame:
  "exit_code (unlock_file E path g) = exit_code g" "landlock_rules (unlock_file E path g) = landlock_rules g"
  by (auto simp: unlock_file_def Let_def split: option.splits sum.splits prod.splits)

lemma demo_unlock_runs:
  assumes "exit_code g = None" "screen g = Home" "list_ex (\<lambda>e. ve_path e = demo_vault_text) (vault_registry g)"
    "reg_good (registry_home g)" "sandbox_applied g"
  shows "exit_code (run_gui demo_unlocking g) = None" "landlock_rules (run_gui demo_unlocking g) = landlock_rules g"
proof -
  let ?ga = "(click_open_entry demo_vault_text g)\<lparr>password := ''pw''\<rparr>"
  have a: "reg_good (registry_home ?ga)" "exit_code ?ga = None" using assms by (simp_all add: click_open_entry_def)
  obtain h es where r: "register_path demo_gui_env demo_vault_text ?ga = ?ga\<lparr>registry_home := h, vault_registry := es\<rparr>"
    using demo_register_path [OF a] by blast
  have "run_gui demo_unlocking g = try_unlock demo_gui_env ?ga"
    using assms(1,2,3) by (simp add: gui_step_def handle_event_def on_def click_open_entry_def) (simp add: demo_gui_env_def)
  also have "\<dots> = unlock_file demo_gui_env demo_vault_text (?ga\<lparr>registry_home := h, vault_registry := es\<rparr>)"
    using r a(2) assms(5) by (simp add: try_unlock_def lock_process_def click_open_entry_def)
  finally show "exit_code (run_gui demo_unlocking g) = None" "landlock_rules (run_gui demo_unlocking g) = landlock_rules g"
    using a(2) by (simp_all add: unlock_file_frame click_open_entry_def)
qed

lemma demo_g1:
  "exit_code (click_create demo_gui_env demo_gui) = None" "screen (click_create demo_gui_env demo_gui) = Home"
  "list_ex (\<lambda>e. ve_path e = demo_vault_text) (vault_registry (click_create demo_gui_env demo_gui))"
  "reg_good (registry_home (click_create demo_gui_env demo_gui))" "sandbox_applied (click_create demo_gui_env demo_gui)"
  "landlock_rules (click_create demo_gui_env demo_gui) = Some demo_gui_rules"
  "\<exists>f :: File. disk (gui_host (click_create demo_gui_env demo_gui)) demo_vault_path = Some (fbytes f) \<and> length (fbytes f) \<le> 125 + METADATA_LIMIT"
proof -
  let ?g1 = "click_create demo_gui_env demo_gui"
  have "exit_code ?g1 = None \<and> screen ?g1 = Home \<and> list_ex (\<lambda>e. ve_path e = demo_vault_text) (vault_registry ?g1) \<and>
    reg_good (registry_home ?g1) \<and> sandbox_applied ?g1 \<and> landlock_rules ?g1 = Some demo_gui_rules \<and>
    (\<exists>f :: File. disk (gui_host ?g1) demo_vault_path = Some (fbytes f) \<and> length (fbytes f) \<le> 125 + METADATA_LIMIT)"
  proof (rule demo_gui_created)
    fix f :: File and r h es
    assume c: "length (fbytes f) \<le> 125 + METADATA_LIMIT" "reg_good h" "list_ex (\<lambda>e. ve_path e = demo_vault_text) es"
      "click_create demo_gui_env demo_gui =
        (write_disk demo_vault_path (fbytes f) demo_gui)\<lparr>gui_rand := r, landlock_rules := Some demo_gui_rules, sandbox_applied := True,
          registry_home := h, vault_registry := es, screen := Home, home_status := ''Vault '' @ CHR 0x27 # ''v'' @ CHR 0x27 # '' created. Select it to unlock.'',
          create_vault_form := demo_form\<lparr>create_name := [], create_pass := [], create_confirm := [], create_status := []\<rparr>\<rparr>"
    have "disk (gui_host ?g1) demo_vault_path = Some (fbytes f)" unfolding c(4) by (simp add: write_disk_def gui_host_def)
    then have "\<exists>f :: File. disk (gui_host ?g1) demo_vault_path = Some (fbytes f) \<and> length (fbytes f) \<le> 125 + METADATA_LIMIT"
      using c(1) by blast
    moreover have "exit_code ?g1 = None \<and> screen ?g1 = Home \<and> list_ex (\<lambda>e. ve_path e = demo_vault_text) (vault_registry ?g1) \<and>
        reg_good (registry_home ?g1) \<and> sandbox_applied ?g1 \<and> landlock_rules ?g1 = Some demo_gui_rules"
      using c(2,3) demo_gui_fields unfolding c(4) by (simp add: write_disk_def)
    ultimately show ?thesis by blast
  qed
  then show "exit_code ?g1 = None" "screen ?g1 = Home" "list_ex (\<lambda>e. ve_path e = demo_vault_text) (vault_registry ?g1)"
    "reg_good (registry_home ?g1)" "sandbox_applied ?g1" "landlock_rules ?g1 = Some demo_gui_rules"
    "\<exists>f :: File. disk (gui_host ?g1) demo_vault_path = Some (fbytes f) \<and> length (fbytes f) \<le> 125 + METADATA_LIMIT" by blast+
qed

abbreviation demo_created_gui :: gui where
  "demo_created_gui \<equiv> click_create demo_gui_env demo_gui"

lemma demo_unlock_premises:
  "aead_ok (crypto demo_lib)" "ge_vault demo_gui_env = demo_lib" "os_home_dir (ge_os demo_gui_env) = Some ''/home/u''"
  "demo_vault_text = path_join (path_join ''/home/u'' ''.atom_vault'') (create_name (create_vault_form demo_gui) @ ''.aegis'')"
  "demo_vault_path = resolve_target (gui_host demo_gui) (path_join ''/home/u/.atom_vault''
      (unwrap_or (create_name (create_vault_form demo_gui)) (file_stem demo_vault_text) @ ''.aegis''))"
  "canonicalize (gui_host demo_gui) demo_vault_text = Some demo_vault_path"
  "ge_exists demo_gui_env demo_vault_text" "ge_openable demo_gui_env demo_vault_path"
  "\<And>b. disk (gui_host demo_created_gui) demo_vault_path = Some b \<Longrightarrow> length b \<le> 125 + METADATA_LIMIT"
  "run_gui demo_unlocking demo_created_gui = run_gui [(demo_gui_env, ClickOpenEntry demo_vault_text),
      (demo_gui_env, EditPassword (create_pass (create_vault_form demo_gui))), (demo_gui_env, ClickUnlock)] demo_created_gui"
  "process_allows demo_gui_env (run_gui demo_unlocking demo_created_gui) demo_vault_path ReadFile"
  "process_allows demo_gui_env (run_gui demo_unlocking demo_created_gui) demo_vault_path WriteFile"
proof -
  note run = demo_unlock_runs [OF demo_g1(1-5)]
  have K: "ge_landlock demo_gui_env = demo_landlock" by (simp add: demo_gui_env_def)
  show "process_allows demo_gui_env (run_gui demo_unlocking demo_created_gui) demo_vault_path ReadFile"
    "process_allows demo_gui_env (run_gui demo_unlocking demo_created_gui) demo_vault_path WriteFile"
    using run(2) demo_g1(6) demo_rules_allow by (simp_all add: process_allows_def K)
  show "aead_ok (crypto demo_lib)" using demo_aead_ok by simp
  show "demo_vault_text = path_join (path_join ''/home/u'' ''.atom_vault'') (create_name (create_vault_form demo_gui) @ ''.aegis'')"
    using demo_gui_paths(1) by (simp add: demo_gui_fields demo_form_fields)
  show "demo_vault_path = resolve_target (gui_host demo_gui) (path_join ''/home/u/.atom_vault''
      (unwrap_or (create_name (create_vault_form demo_gui)) (file_stem demo_vault_text) @ ''.aegis''))"
    using demo_gui_paths(4) by (simp add: demo_gui_fields demo_gui_paths unwrap_or_def demo_resolve(1))
  show "canonicalize (gui_host demo_gui) demo_vault_text = Some demo_vault_path" by (simp add: demo_gui_fields demo_resolve)
  show "\<And>b. disk (gui_host demo_created_gui) demo_vault_path = Some b \<Longrightarrow> length b \<le> 125 + METADATA_LIMIT" using demo_g1(7) by auto
  show "run_gui demo_unlocking demo_created_gui = run_gui [(demo_gui_env, ClickOpenEntry demo_vault_text),
      (demo_gui_env, EditPassword (create_pass (create_vault_form demo_gui))), (demo_gui_env, ClickUnlock)] demo_created_gui"
    by (simp add: demo_gui_fields demo_form_fields)
qed (simp_all add: demo_gui_env_def demo_gui_os_def)

lemma demo_opened: "vault_session (run_gui demo_unlocking demo_created_gui) \<noteq> None"
proof -
  note d = demo_unlock_premises
  from created_opens [OF d(1) demo_bincode_ok d(2,2) demo_gui_fields(3) refl demo_g1(1,2) d(3,4) demo_gui_paths(2) d(5,6) demo_g1(3) d(7,8)
      d(9,10) demo_unlock_runs(1) [OF demo_g1(1-5)] d(11,12)]
  show ?thesis by blast
qed

theorem created_vault_unlocks_witness:
  "\<exists>v. let g2 = run_gui demo_unlocking (click_create demo_gui_env demo_gui) in
     vault_session g2 = Some v \<and> screen g2 = VaultExplorer \<and> vault_inv (attached g2 v) \<and>
     vault_view demo_lib (ov_key v) (attached g2 v) = Map.empty \<and> password g2 = []"
proof -
  note d = demo_unlock_premises
  from created_vault_unlocks [OF d(1) demo_bincode_ok d(2,2) demo_gui_fields(3) refl demo_g1(1,2) d(3,4) demo_gui_paths(2) d(5,6) demo_g1(3)
      d(7,8) d(9,10) demo_unlock_runs(1) [OF demo_g1(1-5)] d(11,12)]
  show ?thesis unfolding Let_def by blast
qed

text \<open>The same use of the window, from its start.\<close>

abbreviation demo_session_events :: "(gui_env \<times> gui_event) list" where
  "demo_session_events \<equiv> [(demo_gui_env, ClickNew), (demo_gui_env, EditCreate demo_form), (demo_gui_env, ClickCreate)] @ demo_unlocking"

lemma demo_start: "gui_start demo_gui_env demo_gui_host demo_reg demo_home (\<lambda>_. 0) = app_new demo_gui_host demo_reg demo_home (\<lambda>_. 0)"
  by (simp add: gui_start_def reload_registry_def reload_friends_def load_vault_registry_def load_friends_def load_json_def demo_reg_def
      demo_home_def app_new_def)

lemma demo_session_run:
  "run_gui demo_session_events (gui_start demo_gui_env demo_gui_host demo_reg demo_home (\<lambda>_. 0)) =
   run_gui demo_unlocking (click_create demo_gui_env demo_gui)"
proof -
  let ?s = "app_new demo_gui_host demo_reg demo_home (\<lambda>_. 0)"
  have s1: "gui_step (demo_gui_env, ClickNew) ?s = ?s\<lparr>home_status := [], screen := CreateVault\<rparr>"
    by (simp add: gui_step_def handle_event_def on_def app_new_def)
  have s2: "gui_step (demo_gui_env, EditCreate demo_form) (?s\<lparr>home_status := [], screen := CreateVault\<rparr>) = demo_gui"
    by (simp add: gui_step_def handle_event_def on_def edit_create_def demo_gui_def app_new_def demo_form_def empty_form_def)
  have s3: "gui_step (demo_gui_env, ClickCreate) demo_gui = click_create demo_gui_env demo_gui"
    by (simp add: gui_step_def handle_event_def on_def demo_gui_fields)
  show ?thesis unfolding demo_start run_gui_append by (simp only: run_gui_Cons run_gui_Nil s1 s2 s3)
qed


section \<open>The contents of a session\<close>

text \<open>C13. From opening a vault to locking it, whatever the user presses and in whatever order the
  dialogs, the broker and the viewer answer, the vault stays well formed, under the same key and on the same
  file, and its contents are what the events say: a confirmed deletion in the explorer takes the named file away, a confirmed
  renaming moves the contents when the new name is valid and free and the old one is there, a frame on which the
  bytes of a chosen file arrive stores exactly them under the pending name if and only if the status line then
  reports it, and no other event changes anything, opening and exporting included. Left out are exports that the user directs
  at the file of the vault itself, and saves of the metadata that fail.\<close>

theorem explorer_session_refines:
  assumes "list_all (event_keeps_open L (resolve_target (gui_host g)) (ov_path v)) evs" "browsing g"
    and "clear_of (ov_path v) g" "vault_session g = Some v" "vault_inv (attached g v)" "explorer_ok (L, ov_key v, 0)"
  shows "\<exists>v'. vault_session (run_gui evs g) = Some v' \<and> ov_path v' = ov_path v \<and> ov_key v' = ov_key v \<and>
    vault_inv (attached (run_gui evs g) v') \<and>
    vault_view L (ov_key v) (attached (run_gui evs g) v') = run_effect evs g (vault_view L (ov_key v) (attached g v))"
  using run_evolves [OF assms] assms(4-6) unfolding evolves_def by blast

text \<open>A window with a vault open.\<close>

definition demo_window :: "bytes \<Rightarrow> UnlockedVault \<Rightarrow> session \<Rightarrow> gui" where
  "demo_window b uv s =
     (app_new (demo_gui_host\<lparr>disk := [demo_vault_path \<mapsto> b, [''home'', ''u'', ''v''] \<mapsto> [104, 105]]\<rparr>) demo_reg demo_home (\<lambda>_. 0))
       \<lparr>screen := VaultExplorer, vault_session := Some \<lparr>ov_path = demo_vault_path, ov_key = uv, ov_session = s\<rparr>\<rparr>"

lemma demo_window_fields:
  "vault_session (demo_window b uv s) = Some \<lparr>ov_path = demo_vault_path, ov_key = uv, ov_session = s\<rparr>"
  "gui_host (demo_window b uv s) = demo_gui_host\<lparr>disk := [demo_vault_path \<mapsto> b, [''home'', ''u'', ''v''] \<mapsto> [104, 105]]\<rparr>"
  "screen (demo_window b uv s) = VaultExplorer" "exit_code (demo_window b uv s) = None"
  "pending_create_path (demo_window b uv s) = None" "pending_vault_path (demo_window b uv s) = None"
  "pending_export_path (demo_window b uv s) = None" "pending_import_path (demo_window b uv s) = None"
  "pending_import_bytes (demo_window b uv s) = None" "pending_export_write_result (demo_window b uv s) = None"
  "pending_viewer_spawn (demo_window b uv s) = None" "viewer_done (demo_window b uv s) = None"
  "br_queue (file_broker (demo_window b uv s)) = []" "br_running (file_broker (demo_window b uv s)) = []"
  "rename_dialog (demo_window b uv s) = None"
  by (simp_all add: demo_window_def app_new_def gui_host_def broker_start_def)

lemma demo_window_attached:
  assumes "b = fbytes (phys s)" "v = \<lparr>ov_path = demo_vault_path, ov_key = uv, ov_session = s\<rparr>"
  shows "attached (demo_window b uv s) v = s"
  using assms by (simp add: attached_def demo_window_fields demo_vault_path_def)

lemma demo_explorer_ok: "explorer_ok (demo_lib, uv, now)"
  by (simp add: explorer_ok_def demo_ok demo_save)

theorem explorer_session_refines_witness:
  "\<exists>v'. let g = demo_window (replicate 125 0) demo_uv demo_session;
       evs = map (Pair demo_gui_env) [PickedImport ''/home/u/v'', Frame, BrokerDispatch, BrokerFinish 0, Frame,
               ClickFile (Rename ''v''), EditRename ''q'', ClickSaveRename, ClickP2P, ClickBackToVault]
     in vault_session (run_gui evs g) = Some v' \<and> vault_inv (attached (run_gui evs g) v') \<and>
        vault_view demo_lib demo_uv (attached (run_gui evs g) v') = run_effect evs g Map.empty"
proof -
  let ?v = "\<lparr>ov_path = demo_vault_path, ov_key = demo_uv, ov_session = demo_session\<rparr>"
  define g where "g = demo_window (replicate 125 0) demo_uv demo_session"
  define evs where "evs = map (Pair demo_gui_env) [PickedImport ''/home/u/v'', Frame, BrokerDispatch, BrokerFinish 0, Frame,
               ClickFile (Rename ''v''), EditRename ''q'', ClickSaveRename, ClickP2P, ClickBackToVault]"
  have a: "attached g ?v = demo_session" unfolding g_def by (rule demo_window_attached) (simp_all add: demo_session_def)
  have e: "list_all (event_keeps_open demo_lib (resolve_target (gui_host g)) (ov_path ?v)) evs"
    by (simp add: evs_def event_keeps_open_def demo_gui_env_def)
  have b: "browsing g" "clear_of (ov_path ?v) g" "vault_session g = Some ?v"
    by (simp_all add: g_def browsing_def clear_of_def requests_def demo_window_fields)
  have i: "vault_inv (attached g ?v)" "explorer_ok (demo_lib, ov_key ?v, 0)" using a demo_inv demo_explorer_ok by simp_all
  from explorer_session_refines [OF e b i] a
  have "\<exists>v'. vault_session (run_gui evs g) = Some v' \<and> vault_inv (attached (run_gui evs g) v') \<and>
      vault_view demo_lib demo_uv (attached (run_gui evs g) v') = run_effect evs g Map.empty"
    by (auto simp: demo_view)
  then show ?thesis unfolding Let_def g_def evs_def by blast
qed



text \<open>C15. A renamed file survives locking, as long as the sealed metadata stays within the 10 MiB that
  the loader accepts and the offset of the metadata fits its 64 bits: when the dialog reports the new name, the file
  on disk, opened again with the password, has the old contents under the new name, nothing under the old one, and every
  other file as before.\<close>

theorem renamed_file_survives:
  assumes "aead_ok (crypto L)" "bincode_ok L" "ge_vault E = L"
    and "vault_session g = Some v" "vault_inv (attached g v)" "disk (gui_host g) (ov_path v) \<noteq> None"
    and "header_unlocks L (fbytes (phys (attached g v))) pw (ov_key v)"
    and "rename_dialog g = Some st" "rename_entry L (ov_key v) (old_name st) (new_name st) (attached g v) = (s, RenamedTo n)"
    and "payload_offset s < 2 ^ 64" "length (fbytes (phys s)) \<le> payload_offset s + METADATA_LIMIT"
  shows "rename_dialog (do_rename E g) = None \<and> explorer_status (do_rename E g) = ''Renamed to: '' @ new_name st \<and>
    (\<exists>b md f t. disk (gui_host (do_rename E g)) (ov_path v) = Some b \<and>
       load_vault_metadata L pw \<lparr>fbytes = b, fpos = 0\<rparr> = Inr ((md, ov_key v, payload_offset s), f) \<and>
       t = \<lparr>phys = f, meta = md, payload_offset = payload_offset s, rand = rand s\<rparr> \<and> vault_inv t \<and>
       vault_view L (ov_key v) t =
         (vault_view L (ov_key v) (attached g v))
           (new_name st := vault_view L (ov_key v) (attached g v) (old_name st), old_name st := None))"
proof -
  let ?h = "g\<lparr>rename_dialog := None\<rparr>"
  have at: "attached ?h v = attached g v" by (rule attached_same) (simp add: gui_host_def)
  have n: "n = new_name st" "payload_offset s = payload_offset (attached g v)"
    using assms(9) by (auto elim!: rename_cases)
  have r: "do_rename E g = (keep_session v s ?h)\<lparr>explorer_status := ''Renamed to: '' @ new_name st\<rparr>"
    using assms(3,4,8,9) at n by (simp add: do_rename_def Let_def)
  have dk: "disk (gui_host (do_rename E g)) (ov_path v) = Some (fbytes (phys s))"
    using assms(6) unfolding r by (simp add: keep_session_def Let_def write_disk_def gui_host_def)
  note i = rename_inv [OF assms(5,9)]
  have "synced L pw (ov_key v) s" using i(3) [OF assms(7,1,2)] assms(10,11) n(2) by simp
  then obtain f where l: "load_vault_metadata L pw (phys s) = Inr ((meta s, ov_key v, payload_offset s), f)" "fbytes f = fbytes (phys s)"
    by (auto simp: synced_def split: sum.splits)
  have "load_vault_metadata L pw \<lparr>fbytes = fbytes (phys s), fpos = 0\<rparr> = load_vault_metadata L pw (phys s)"
    by (rule load_from_start) simp
  moreover have "vault_inv \<lparr>phys = f, meta = meta s, payload_offset = payload_offset s, rand = rand s\<rparr>"
    "vault_view L (ov_key v) \<lparr>phys = f, meta = meta s, payload_offset = payload_offset s, rand = rand s\<rparr> = vault_view L (ov_key v) s"
    using i(1) l(2) by (simp_all add: vault_inv_def vault_view_def fun_eq_iff)
  moreover have "rename_dialog (do_rename E g) = None" "explorer_status (do_rename E g) = ''Renamed to: '' @ new_name st"
    unfolding r by (simp_all add: keep_session_def Let_def write_disk_def)
  ultimately show ?thesis using dk l(1) i(2)
    by (intro conjI exI [of _ "fbytes (phys s)"] exI [of _ "meta s"] exI [of _ f]
        exI [of _ "\<lparr>phys = f, meta = meta s, payload_offset = payload_offset s, rand = rand s\<rparr>"]) simp_all
qed

theorem renamed_file_survives_witness:
  "\<exists>g b md f uv. rename_dialog g = Some \<lparr>old_name = ''a'', new_name = ''b''\<rparr> \<and>
     disk (gui_host (do_rename demo_gui_env g)) demo_vault_path = Some b \<and>
     load_vault_metadata demo_lib (str_bytes ''pw'') \<lparr>fbytes = b, fpos = 0\<rparr> = Inr ((md, uv, 125), f) \<and>
     explorer_status (do_rename demo_gui_env g) = ''Renamed to: b''"
proof -
  obtain f0 r0 where c: "create_vault demo_lib ''pw'' KdfSettings_default False (\<lambda>_. 0) = Inr (f0, r0)"
    "length (fbytes f0) \<le> 125 + METADATA_LIMIT" by (rule demo_created)
  have ae: "aead_ok (crypto demo_lib)" using demo_aead_ok by simp
  obtain uv cdc where u: "length cdc = 32" "header_unlocks demo_lib (fbytes f0) (str_bytes ''pw'') uv"
    "vault_inv \<lparr>phys = f0, meta = \<lparr>file_table = [], cdc_salt = cdc\<rparr>, payload_offset = 125, rand = r0\<rparr>"
    using create_ok [OF ae demo_bincode_ok c] by metis
  let ?s = "\<lparr>phys = f0, meta = \<lparr>file_table = [\<lparr>vfs_name = ''a'', chunks = [], last_modified_unix = 7\<rparr>], cdc_salt = cdc\<rparr>,
     payload_offset = 125, rand = r0\<rparr>"
  let ?md = "\<lparr>file_table = [\<lparr>vfs_name = ''b'', chunks = [], last_modified_unix = 7\<rparr>], cdc_salt = cdc\<rparr>"
  let ?v = "\<lparr>ov_path = demo_vault_path, ov_key = uv, ov_session = ?s\<rparr>"
  let ?st = "\<lparr>old_name = ''a'', new_name = ''b''\<rparr>"
  let ?g = "(demo_window (fbytes f0) uv ?s)\<lparr>rename_dialog := Some ?st\<rparr>"
  have a: "attached ?g ?v = ?s"
    using demo_window_attached [of "fbytes f0" ?s ?v uv] by (simp add: attached_def gui_host_def)
  have inv: "vault_inv (attached ?g ?v)" unfolding a using u(3) by (simp add: vault_inv_def all_chunks_def)
  have len: "125 \<le> length (fbytes f0)" using u(3) by (simp add: vault_inv_def)
  obtain f g where sv: "save_vault_metadata demo_lib ?md uv 125 f0 r0 = Inr (f, g)"
    using demo_save [of uv] unfolding save_total_def is_ok_iff by (metis surj_pair)
  let ?s' = "\<lparr>phys = f, meta = ?md, payload_offset = 125, rand = g\<rparr>"
  have rn: "rename_entry demo_lib (ov_key ?v) (old_name ?st) (new_name ?st) (attached ?g ?v) = (?s', RenamedTo ''b'')"
    unfolding a using sv by (simp add: rename_entry_def is_valid_vfs_filename_def name_taken_def)
  obtain ser blob where b: "demo_serialize ?md = Some ser" "encrypt_chunk demo_crypto uv ser METADATA_FILE_ID r0 = Inr (blob, g)"
    "length (fbytes f) = 125 + length blob"
    using sv len by (auto elim!: save_bytes)
  have "length ser = 38" using b(1) u(1) by (auto simp: demo_serialize_def enc_seq_def enc_bytes_def enc_file_def length_enc_nat_small)
  then have small: "length (fbytes (phys ?s')) \<le> payload_offset ?s' + METADATA_LIMIT"
    using b(2,3) length_encrypt_chunk [OF demo_aead_ok] by (simp add: METADATA_LIMIT_def)
  have g: "vault_session ?g = Some ?v" "disk (gui_host ?g) (ov_path ?v) \<noteq> None" "rename_dialog ?g = Some ?st"
    using demo_window_fields(1,2) [of "fbytes f0" uv ?s] by (simp_all add: gui_host_def demo_vault_path_def)
  have h: "header_unlocks demo_lib (fbytes (phys (attached ?g ?v))) (str_bytes ''pw'') (ov_key ?v)" unfolding a using u(2) by simp
  have E: "ge_vault demo_gui_env = demo_lib" by (simp add: demo_gui_env_def)
  have "payload_offset ?s' < 2 ^ 64" by simp
  from renamed_file_survives [OF ae demo_bincode_ok E g(1) inv g(2) h g(3) rn this small]
  obtain b md f' where "disk (gui_host (do_rename demo_gui_env ?g)) demo_vault_path = Some b"
    "load_vault_metadata demo_lib (str_bytes ''pw'') \<lparr>fbytes = b, fpos = 0\<rparr> = Inr ((md, uv, 125), f')"
    "explorer_status (do_rename demo_gui_env ?g) = ''Renamed to: b''" by auto
  with g(3) show ?thesis by blast
qed

end
