(* ===== verification/GuiLive.thy ===== *)
theory GuiLive
  imports LiveCommands
begin

text \<open>
  The live-transfer panel of the graphical interface (\<open>atom/src/gui/live.rs\<close>, and \<open>LiveState\<close> of
  \<open>gui/mod.rs\<close>): pairing with a peer in stages, the saved address, and the transfer on a thread of its
  own. A control acts only where the panel enables it. The thread of a transfer runs its command in one
  step when it finishes; its reports in between are separate events.
\<close>

section \<open>State\<close>

datatype LiveRole = SendRole | ReceiveRole

datatype LiveStage = Code | Exchange | Paired

record LivePanel =
  lv_role :: LiveRole
  lv_stage :: LiveStage
  lv_code :: string
  lv_our_code :: string
  lv_nickname :: string
  lv_our_blob :: string
  lv_peer_blob :: string
  lv_pairing :: "PairingState option"
  lv_channel :: "PairedChannel option"
  lv_our_fingerprint :: string
  lv_peer_fingerprint :: string
  lv_selected_peer :: string
  lv_vault_path :: string
  lv_save_path :: string
  lv_status :: string

text \<open>A transfer thread holds the role, path and peer it was started with, and its cancel token.\<close>

record live_worker =
  wk_role :: LiveRole
  wk_path :: string
  wk_peer :: string
  wk_cancel :: nat

record live_gui = LivePanel +
  live_status_shared :: string
  live_done :: bool
  live_progress :: "nat \<times> nat"
  live_cancel :: nat
  cancelled_tokens :: "nat list"
  live_workers :: "live_worker list"
  live_home :: LiveHome

text \<open>The library, the world the transfer meets, the text of an error, and of a number of bytes.\<close>

record live_env =
  le_lib :: live_lib
  le_world :: live_world
  le_text :: "live_error \<Rightarrow> string"
  le_human_bytes :: "nat \<Rightarrow> string"

definition failed :: "live_env \<Rightarrow> live_error \<Rightarrow> live_gui \<Rightarrow> live_gui" where
  "failed E e g = g\<lparr>lv_status := ''Failed: '' @ le_text E e\<rparr>"

definition live_gui_start :: "string \<Rightarrow> LiveHome \<Rightarrow> live_gui" where
  "live_gui_start save_path h =
     \<lparr>lv_role = SendRole, lv_stage = Code, lv_code = [], lv_our_code = [], lv_nickname = [], lv_our_blob = [],
      lv_peer_blob = [], lv_pairing = None, lv_channel = None, lv_our_fingerprint = [], lv_peer_fingerprint = [],
      lv_selected_peer = [], lv_vault_path = [], lv_save_path = save_path, lv_status = [],
      live_status_shared = [], live_done = True, live_progress = (0, 0), live_cancel = 0, cancelled_tokens = [],
      live_workers = [], live_home = h\<rparr>"

definition reset_pairing :: "live_gui \<Rightarrow> live_gui" where
  "reset_pairing g =
     g\<lparr>lv_stage := Code, lv_our_blob := [], lv_peer_blob := [], lv_pairing := None, lv_channel := None,
       lv_our_fingerprint := [], lv_peer_fingerprint := [], lv_status := []\<rparr>"

section \<open>The identity card\<close>

text \<open>
  One frame of the card. The text field is filled from the stored state in every frame, so what it
  holds when the button is pressed is the stored address unless the text changes in the same frame.
\<close>

fun contains :: "string \<Rightarrow> string \<Rightarrow> bool" where
  "contains pat [] = (pat = [])"
| "contains pat (c # cs) = (take (length pat) (c # cs) = pat \<or> contains pat cs)"

definition first_endpoint :: "string list \<Rightarrow> string" where
  "first_endpoint eps = (case eps of [] \<Rightarrow> [] | e # _ \<Rightarrow> e)"

definition live_identity_card :: "live_env \<Rightarrow> string option \<Rightarrow> bool \<Rightarrow> live_gui \<Rightarrow> live_gui" where
  "live_identity_card E edited save_clicked g =
     (case identity_summary (le_lib E) (live_home g) of
        (h, Inl _) \<Rightarrow> g\<lparr>live_home := h\<rparr>
      | (h, Inr s) \<Rightarrow>
          let addr = (case edited of None \<Rightarrow> first_endpoint (is_endpoints s) | Some t \<Rightarrow> t);
              g1 = g\<lparr>live_home := h, lv_status := (if edited = None then lv_status g else [])\<rparr>
          in if \<not> save_clicked then g1
             else case set_endpoints (le_lib E) [addr] h of
               (h', Inl e) \<Rightarrow> failed E e (g1\<lparr>live_home := h'\<rparr>)
             | (h', Inr _) \<Rightarrow>
                 g1\<lparr>live_home := h',
                    lv_status := (if contains ''.onion'' addr then ''Address saved. Transfers to you will run over Tor.''
                      else ''Address saved. Note: both ISPs will see that you and your peer exchanged packets.'')\<rparr>)"

section \<open>Pairing\<close>

definition edit_code :: "string \<Rightarrow> live_gui \<Rightarrow> live_gui" where
  "edit_code c g = reset_pairing (g\<lparr>lv_code := c\<rparr>)"

definition generate_code :: "live_env \<Rightarrow> live_gui \<Rightarrow> live_gui" where
  "generate_code E g =
     (let h = live_home g; (c, r) = code_generate (ll_keys (le_lib E)) (lh_rng h)
      in g\<lparr>live_home := h\<lparr>lh_rng := r\<rparr>, lv_our_code := code_display c, lv_code := code_display c,
           lv_status := ''Read this code aloud to your peer, then start round 1.''\<rparr>)"

definition start_round_1 :: "live_env \<Rightarrow> live_gui \<Rightarrow> live_gui" where
  "start_round_1 E g =
     (case bindL (liftL (map_err Live (code_parse (lv_code g)))) (\<lambda>c.
           bindL (my_ticket (le_lib E)) (\<lambda>_. pair_begin (le_lib E) c)) (live_home g) of
        (h, Inr (state, blob)) \<Rightarrow>
          g\<lparr>live_home := h, lv_pairing := Some state, lv_our_blob := blob, lv_stage := Exchange,
            lv_status := ''Send your round-1 blob, paste theirs below.''\<rparr>
      | (h, Inl e) \<Rightarrow> failed E e (g\<lparr>live_home := h\<rparr>))"

definition fingerprint_of :: "live_lib \<Rightarrow> Ticket \<Rightarrow> string" where
  "fingerprint_of L t = id_fingerprint (bundle_id (ll_keys L) (identity t))"

definition continue_pairing :: "live_env \<Rightarrow> live_gui \<Rightarrow> live_gui" where
  "continue_pairing E g0 =
     (let L = le_lib E; peer_blob = trim (lv_peer_blob g0); g = g0\<lparr>lv_pairing := None\<rparr> in
      case lv_pairing g0 of
        Some state \<Rightarrow>
          (case pair_exchange L state peer_blob (live_home g0) of
             (h, Inr (channel, sealed)) \<Rightarrow>
               g\<lparr>live_home := h, lv_channel := Some channel, lv_our_blob := sealed, lv_peer_blob := [],
                 lv_status := ''Now exchange round 2: send yours, paste theirs.''\<rparr>
           | (h, Inl e) \<Rightarrow> failed E e (g\<lparr>live_home := h\<rparr>))
      | None \<Rightarrow>
          (case lv_channel g0 of
             None \<Rightarrow> g0
           | Some channel \<Rightarrow>
               let nickname = trim (lv_nickname g0) in
               (case pair_complete L channel peer_blob nickname (live_home g0) of
                  (h, Inl e) \<Rightarrow> failed E e (g\<lparr>live_home := h\<rparr>)
                | (h, Inr peer) \<Rightarrow>
                    (case my_ticket L h of
                       (h', mine) \<Rightarrow>
                         g\<lparr>live_home := h', lv_peer_fingerprint := fingerprint_of L peer,
                           lv_our_fingerprint := (case mine of Inl _ \<Rightarrow> [] | Inr t \<Rightarrow> fingerprint_of L t),
                           lv_stage := Paired, lv_selected_peer := nickname,
                           lv_status := ''Paired with '' @ nickname @ ''.''\<rparr>))))"

definition pair_another :: "live_gui \<Rightarrow> live_gui" where
  "pair_another g =
     (let keep = lv_selected_peer g
      in (reset_pairing g)\<lparr>lv_code := [], lv_our_code := [], lv_nickname := [], lv_selected_peer := keep\<rparr>)"

section \<open>Transfer\<close>

definition stored_peers :: "live_env \<Rightarrow> live_gui \<Rightarrow> LivePeer list" where
  "stored_peers E g = (case snd (load_state (le_lib E) (live_home g)) of Inl _ \<Rightarrow> [] | Inr st \<Rightarrow> peers st)"

definition start_live_transfer :: "live_gui \<Rightarrow> live_gui" where
  "start_live_transfer g =
     (let path = (case lv_role g of SendRole \<Rightarrow> lv_vault_path g | ReceiveRole \<Rightarrow> lv_save_path g);
          token = Suc (live_cancel g);
          worker = \<lparr>wk_role = lv_role g, wk_path = path, wk_peer = lv_selected_peer g, wk_cancel = token\<rparr>
      in g\<lparr>live_cancel := token, live_done := False,
           live_status_shared := ''Waiting to meet '' @ lv_selected_peer g @ '' - they must run their side now.'',
           live_progress := (0, 0), live_workers := worker # live_workers g\<rparr>)"

definition stop_transfer :: "live_gui \<Rightarrow> live_gui" where
  "stop_transfer g = g\<lparr>cancelled_tokens := live_cancel g # cancelled_tokens g, lv_status := ''Stopping...''\<rparr>"

definition run_worker :: "live_env \<Rightarrow> live_worker \<Rightarrow> LiveHome \<Rightarrow> LiveHome \<times> (live_error + Summary)" where
  "run_worker E w h =
     (case wk_role w of
        SendRole \<Rightarrow> send_core (le_lib E) (le_world E) (wk_path w) (wk_peer w) h
      | ReceiveRole \<Rightarrow> receive_core (le_lib E) (le_world E) (wk_path w) (wk_peer w) h)"

text \<open>Whether a cancelled worker stops is decided by the transfer, which the world describes.\<close>

definition worker_finish :: "live_env \<Rightarrow> live_worker \<Rightarrow> live_gui \<Rightarrow> live_gui" where
  "worker_finish E w g =
     (case run_worker E w (live_home g) of
        (h, result) \<Rightarrow>
          g\<lparr>live_home := h, live_workers := remove1 w (live_workers g), live_done := True,
            live_status_shared := (case result of
               Inr s \<Rightarrow> ''Done - '' @ le_human_bytes E (sum_total s) @ '' verified, '' @
                 show_nat 10 (cover_frames s) @ '' cover frames.''
             | Inl e \<Rightarrow> ''Failed: '' @ le_text E e)\<rparr>)"

definition live_status_line :: "live_gui \<Rightarrow> live_gui" where
  "live_status_line g = (if live_status_shared g \<noteq> [] then g\<lparr>lv_status := live_status_shared g\<rparr> else g)"

section \<open>Events\<close>

datatype live_event =
    IdentityCard "string option" bool
  | EditNickname string | EditCode string | GenerateCode | StartRound1
  | EditPeerBlob string | ClickContinue | ClickPairAnother
  | SelectPeer string | SelectRole LiveRole | EditVaultPath string | EditSavePath string
  | ClickTransfer | ClickStop | StatusLine
  | WorkerConnected string | WorkerProgress "nat \<times> nat" | WorkerFinished live_worker

definition live_step :: "live_env \<Rightarrow> live_event \<Rightarrow> live_gui \<Rightarrow> live_gui" where
  "live_step E ev g =
     (case ev of
        IdentityCard edited save \<Rightarrow> live_identity_card E edited save g
      | EditNickname s \<Rightarrow> if lv_stage g = Code then g\<lparr>lv_nickname := s\<rparr> else g
      | EditCode s \<Rightarrow> if lv_stage g = Code then edit_code s g else g
      | GenerateCode \<Rightarrow> if lv_stage g = Code then generate_code E g else g
      | StartRound1 \<Rightarrow>
          if lv_stage g = Code \<and> trim (lv_code g) \<noteq> [] \<and> trim (lv_nickname g) \<noteq> [] then start_round_1 E g else g
      | EditPeerBlob s \<Rightarrow> if lv_stage g = Exchange then g\<lparr>lv_peer_blob := s\<rparr> else g
      | ClickContinue \<Rightarrow>
          if lv_stage g = Exchange \<and> trim (lv_peer_blob g) \<noteq> [] \<and> live_done g then continue_pairing E g else g
      | ClickPairAnother \<Rightarrow> if lv_stage g = Paired then pair_another g else g
      | SelectPeer s \<Rightarrow>
          if list_ex (\<lambda>p. lp_nickname p = s) (stored_peers E g) then g\<lparr>lv_selected_peer := s\<rparr> else g
      | SelectRole r \<Rightarrow> if stored_peers E g \<noteq> [] then g\<lparr>lv_role := r\<rparr> else g
      | EditVaultPath s \<Rightarrow> if stored_peers E g \<noteq> [] \<and> lv_role g = SendRole then g\<lparr>lv_vault_path := s\<rparr> else g
      | EditSavePath s \<Rightarrow> if stored_peers E g \<noteq> [] \<and> lv_role g = ReceiveRole then g\<lparr>lv_save_path := s\<rparr> else g
      | ClickTransfer \<Rightarrow>
          if stored_peers E g \<noteq> [] \<and> live_done g \<and> lv_selected_peer g \<noteq> [] then start_live_transfer g else g
      | ClickStop \<Rightarrow> if stored_peers E g \<noteq> [] \<and> \<not> live_done g then stop_transfer g else g
      | StatusLine \<Rightarrow> live_status_line g
      | WorkerConnected path \<Rightarrow>
          if live_workers g \<noteq> [] then g\<lparr>live_status_shared := ''Connected via '' @ path @ '' - transferring...''\<rparr> else g
      | WorkerProgress pr \<Rightarrow> if live_workers g \<noteq> [] then g\<lparr>live_progress := pr\<rparr> else g
      | WorkerFinished w \<Rightarrow> if w \<in> set (live_workers g) then worker_finish E w g else g)"

definition run_panel :: "(live_env \<times> live_event) list \<Rightarrow> live_gui \<Rightarrow> live_gui" where
  "run_panel evs g = fold (\<lambda>(E, ev). live_step E ev) evs g"

lemma run_panel_simps [simp]:
  "run_panel [] g = g" "run_panel ((E, ev) # evs) g = run_panel evs (live_step E ev g)"
  by (simp_all add: run_panel_def)

lemma run_panel_inv:
  assumes "P g" "\<And>E ev g. P g \<Longrightarrow> P (live_step E ev g)"
  shows "P (run_panel evs g)"
  using assms(1)
proof (induction evs arbitrary: g)
  case (Cons x evs)
  then show ?case using assms(2) by (cases x) simp
qed simp

section \<open>Invariants of the panel\<close>

text \<open>
  A SPAKE2 state is held only before it is used, a channel only after, and none of either before round 1.
\<close>

definition panel_inv :: "live_gui \<Rightarrow> bool" where
  "panel_inv g \<longleftrightarrow>
     (case lv_stage g of
        Code \<Rightarrow> lv_pairing g = None \<and> lv_channel g = None \<and> lv_our_blob g = [] \<and> lv_peer_fingerprint g = []
      | Exchange \<Rightarrow> \<not> (lv_pairing g \<noteq> None \<and> lv_channel g \<noteq> None) \<and> lv_peer_fingerprint g = []
      | Paired \<Rightarrow> lv_pairing g = None \<and> lv_channel g \<noteq> None)"

definition same_panel :: "live_gui \<Rightarrow> live_gui \<Rightarrow> bool" where
  "same_panel g g' \<longleftrightarrow>
     lv_stage g' = lv_stage g \<and> lv_pairing g' = lv_pairing g \<and> lv_channel g' = lv_channel g \<and>
     lv_our_blob g' = lv_our_blob g \<and> lv_peer_fingerprint g' = lv_peer_fingerprint g"

lemma same_panel_refl [simp]: "same_panel g g"
  by (simp add: same_panel_def)

lemma identity_card_panel: "same_panel g (live_identity_card E edited save g)"
  by (auto simp: live_identity_card_def same_panel_def failed_def Let_def split: prod.splits sum.splits)

lemma live_step_panel:
  assumes "ev \<noteq> StartRound1" "ev \<noteq> ClickContinue" "ev \<noteq> ClickPairAnother"
  shows "same_panel g (live_step E ev g) \<or> lv_stage g = Code \<and> (\<exists>s. ev = EditCode s \<and> live_step E ev g = edit_code s g)"
  using assms identity_card_panel [of g E]
  by (cases ev) (auto simp: live_step_def same_panel_def generate_code_def start_live_transfer_def stop_transfer_def
      worker_finish_def live_status_line_def Let_def split: prod.splits)

lemma start_round_1_inv:
  assumes "panel_inv g" "lv_stage g = Code"
  shows "panel_inv (start_round_1 E g)"
proof -
  obtain h q where r: "bindL (liftL (map_err Live (code_parse (lv_code g)))) (\<lambda>c.
      bindL (my_ticket (le_lib E)) (\<lambda>_. pair_begin (le_lib E) c)) (live_home g) = (h, q)" by fastforce
  show ?thesis
    using assms r by (cases q) (auto simp: start_round_1_def panel_inv_def failed_def)
qed

lemma continue_pairing_inv:
  assumes "panel_inv g" "lv_stage g = Exchange"
  shows "panel_inv (continue_pairing E g)"
proof (cases "lv_pairing g")
  case (Some st)
  obtain h q where "pair_exchange (le_lib E) st (trim (lv_peer_blob g)) (live_home g) = (h, q)" by fastforce
  with Some assms show ?thesis by (cases q) (auto simp: continue_pairing_def panel_inv_def failed_def Let_def)
next
  case None
  show ?thesis
  proof (cases "lv_channel g")
    case (Some ch)
    obtain h q where c: "pair_complete (le_lib E) ch (trim (lv_peer_blob g)) (trim (lv_nickname g)) (live_home g) = (h, q)"
      by fastforce
    obtain h' m where m: "my_ticket (le_lib E) h = (h', m)" by fastforce
    from None Some assms c m show ?thesis by (cases q) (auto simp: continue_pairing_def panel_inv_def failed_def Let_def)
  qed (use None assms in \<open>simp add: continue_pairing_def Let_def\<close>)
qed

lemma live_step_inv:
  assumes "panel_inv g"
  shows "panel_inv (live_step E ev g)"
proof (cases "ev = StartRound1 \<or> ev = ClickContinue \<or> ev = ClickPairAnother")
  case True
  moreover have "panel_inv (pair_another g)" by (simp add: pair_another_def reset_pairing_def panel_inv_def Let_def)
  ultimately show ?thesis
    using assms start_round_1_inv [OF assms, of E] continue_pairing_inv [OF assms, of E] by (auto simp: live_step_def)
next
  case False
  with live_step_panel [of ev g E] consider "same_panel g (live_step E ev g)"
    | s where "live_step E ev g = edit_code s g" by auto
  then show ?thesis
  proof cases
    case 1
    with assms show ?thesis by (auto simp: panel_inv_def same_panel_def split: LiveStage.splits)
  qed (simp add: panel_inv_def edit_code_def reset_pairing_def)
qed

text \<open>A panel whose exchange has failed: no state, no channel, and no control leads out.\<close>

definition dead_end :: "live_gui \<Rightarrow> bool" where
  "dead_end g \<longleftrightarrow> lv_stage g = Exchange \<and> lv_pairing g = None \<and> lv_channel g = None"

lemma dead_end_step:
  assumes "dead_end g"
  shows "dead_end (live_step E ev g)"
proof (cases "ev = StartRound1 \<or> ev = ClickContinue \<or> ev = ClickPairAnother")
  case True
  with assms show ?thesis by (auto simp: live_step_def continue_pairing_def dead_end_def Let_def)
next
  case False
  with live_step_panel [of ev g E] assms show ?thesis by (auto simp: dead_end_def same_panel_def)
qed

lemma failed_exchange_dead_end:
  assumes "lv_stage g = Exchange" "lv_pairing g = Some st" "panel_inv g"
    "pair_exchange (le_lib E) st (trim (lv_peer_blob g)) (live_home g) = (h, Inl e)"
  shows "dead_end (continue_pairing E g)"
  using assms by (auto simp: continue_pairing_def dead_end_def failed_def panel_inv_def)

text \<open>
  One thread at a time, with the token the Stop button reaches; a token is cancelled only by Stop, and
  never ahead of the transfer it belongs to.
\<close>

definition workers_inv :: "live_gui \<Rightarrow> bool" where
  "workers_inv g \<longleftrightarrow>
     (if live_done g then live_workers g = [] else \<exists>w. live_workers g = [w] \<and> wk_cancel w = live_cancel g) \<and>
     (\<forall>t \<in> set (cancelled_tokens g). t \<le> live_cancel g)"

lemma identity_card_workers:
  "live_workers (live_identity_card E edited save g) = live_workers g \<and>
   live_done (live_identity_card E edited save g) = live_done g \<and>
   live_cancel (live_identity_card E edited save g) = live_cancel g \<and>
   cancelled_tokens (live_identity_card E edited save g) = cancelled_tokens g"
  by (auto simp: live_identity_card_def failed_def Let_def split: prod.splits sum.splits)

lemma pairing_workers:
  "live_workers (start_round_1 E g) = live_workers g" "live_done (start_round_1 E g) = live_done g"
  "live_cancel (start_round_1 E g) = live_cancel g" "cancelled_tokens (start_round_1 E g) = cancelled_tokens g"
  "live_workers (continue_pairing E g) = live_workers g" "live_done (continue_pairing E g) = live_done g"
  "live_cancel (continue_pairing E g) = live_cancel g" "cancelled_tokens (continue_pairing E g) = cancelled_tokens g"
  by (auto simp: start_round_1_def continue_pairing_def failed_def Let_def split: prod.splits sum.splits option.splits)

lemma live_step_workers:
  assumes "workers_inv g"
  shows "workers_inv (live_step E ev g)"
proof -
  have "le_Suc": "\<forall>t \<in> set (cancelled_tokens g). t \<le> Suc (live_cancel g)"
    using assms by (auto simp: workers_inv_def intro: le_SucI)
  show ?thesis
    using assms le_Suc identity_card_workers [of E _ _ g] pairing_workers [of E g]
    by (cases ev) (auto simp: live_step_def workers_inv_def generate_code_def start_live_transfer_def stop_transfer_def
        edit_code_def reset_pairing_def pair_another_def worker_finish_def live_status_line_def Let_def split: prod.splits if_splits)
qed

end
