(* ===== verification/GuiSync.thy ===== *)
theory GuiSync
  imports Friends Sandbox AddrText
begin

text \<open>
  Sharing vaults in the graphical interface (\<open>atom/src/gui/p2p.rs\<close>, the daemon events of \<open>gui/mod.rs\<close>,
  the friends panel of \<open>gui/home.rs\<close>): the dialog that asks about an incoming vault, the answers the
  daemon gets, adding a friend, and the thread that shares the current vault.
\<close>

section \<open>State\<close>

datatype DaemonEvent = SyncRequest string string nat | LogLine string

record IncomingSyncState =
  sender_nick :: string
  in_filename :: string
  vault_label :: string
  in_save_path :: string
  response_channel :: nat

text \<open>What became of the sending half of a request's channel. A dropped one reads as a refusal.\<close>

datatype channel_end = Answered SyncResponse | Dropped

definition refused :: SyncResponse where
  "refused = \<lparr>resp_accepted = False, resp_label = None, resp_path = None\<rparr>"

fun awaited_response :: "channel_end \<Rightarrow> SyncResponse" where
  "awaited_response (Answered r) = r"
| "awaited_response Dropped = refused"

text \<open>The sharing thread: the messages its forwarder has not shown yet, and whether it is still at work.\<close>

record sync_thread =
  th_vault :: string
  th_friend :: string
  th_queue :: "string list"
  th_running :: bool

record p2p_gui =
  friend_nick :: string
  friend_url :: string
  add_friend_status :: string
  selected_friend_idx :: nat
  p2p_friends_cache :: "string list"
  p2p_friends_full :: "FriendRecord list"
  sync_status_shared :: string
  sync_done :: bool
  prev_sync_done :: bool
  incoming_sync :: "IncomingSyncState option"
  incoming_events :: "DaemonEvent list"
  channel_ends :: "nat \<rightharpoonup> channel_end"
  sync_threads :: "sync_thread list"
  p2p_home :: Friends.Home
  p2p_exit :: bool

record p2p_env =
  pe_config :: crypto_lib
  pe_keys :: key_lib
  pe_ed :: ed_lib
  pe_json :: json_lib
  pe_home_dir :: "string option"
  pe_now :: u64
  pe_rand :: rng
  pe_vault_path :: string

section \<open>Paths\<close>

definition home_join :: "string option \<Rightarrow> string \<Rightarrow> string" where
  "home_join home_dir rest = path_join (unwrap_or [] home_dir) rest"

definition resolve_save_path :: "string option \<Rightarrow> string \<Rightarrow> string \<Rightarrow> string \<Rightarrow> string" where
  "resolve_save_path home_dir save_path nick filename =
     (if save_path = [] then home_join home_dir (''Downloads/'' @ nick @ ''/'' @ filename) else save_path)"

definition default_save_path :: "string option \<Rightarrow> string \<Rightarrow> string \<Rightarrow> string" where
  "default_save_path home_dir nick filename =
     home_join home_dir (''.atom_vault/received/'' @ nick @ ''/'' @ filename)"

section \<open>Incoming requests\<close>

definition drop_channel :: "IncomingSyncState option \<Rightarrow> (nat \<rightharpoonup> channel_end) \<Rightarrow> (nat \<rightharpoonup> channel_end)" where
  "drop_channel m ends = (case m of None \<Rightarrow> ends | Some st \<Rightarrow> ends(response_channel st \<mapsto> Dropped))"

text \<open>A new request replaces the dialog on screen, whose channel is dropped with it.\<close>

fun poll_event :: "p2p_env \<Rightarrow> DaemonEvent \<Rightarrow> p2p_gui \<Rightarrow> p2p_gui" where
  "poll_event E (SyncRequest nick filename c) g =
     g\<lparr>channel_ends := drop_channel (incoming_sync g) (channel_ends g),
       incoming_sync := Some \<lparr>sender_nick = nick, in_filename = filename, vault_label = [],
         in_save_path = default_save_path (pe_home_dir E) nick filename, response_channel = c\<rparr>\<rparr>"
| "poll_event E (LogLine m) g = g"

definition poll_daemon_events :: "p2p_env \<Rightarrow> p2p_gui \<Rightarrow> p2p_gui" where
  "poll_daemon_events E g = fold (poll_event E) (incoming_events g) (g\<lparr>incoming_events := []\<rparr>)"

definition answer_dialog :: "(IncomingSyncState \<Rightarrow> SyncResponse) \<Rightarrow> p2p_gui \<Rightarrow> p2p_gui" where
  "answer_dialog resp g =
     (case incoming_sync g of
        None \<Rightarrow> g
      | Some st \<Rightarrow>
          g\<lparr>incoming_sync := None, channel_ends := (channel_ends g)(response_channel st \<mapsto> Answered (resp st))\<rparr>)"

definition accept_response :: "p2p_env \<Rightarrow> IncomingSyncState \<Rightarrow> SyncResponse" where
  "accept_response E st =
     \<lparr>resp_accepted = True,
      resp_label = Some (if vault_label st = [] then ''Synced Vault'' else vault_label st),
      resp_path = Some (resolve_save_path (pe_home_dir E) (in_save_path st) (sender_nick st) (in_filename st))\<rparr>"

definition accept_dialog :: "p2p_env \<Rightarrow> p2p_gui \<Rightarrow> p2p_gui" where
  "accept_dialog E g = answer_dialog (accept_response E) g"

definition reject_dialog :: "p2p_gui \<Rightarrow> p2p_gui" where
  "reject_dialog g = answer_dialog (\<lambda>_. refused) g"

definition edit_dialog :: "string \<Rightarrow> string \<Rightarrow> p2p_gui \<Rightarrow> p2p_gui" where
  "edit_dialog lbl path g =
     g\<lparr>incoming_sync := map_option (\<lambda>st. st\<lparr>vault_label := lbl, in_save_path := path\<rparr>) (incoming_sync g)\<rparr>"

section \<open>Friends\<close>

definition fatal :: "string \<Rightarrow> bool" where
  "fatal e \<longleftrightarrow> strip_prefix ''exit: '' e \<noteq> None \<or> strip_prefix ''panicked: '' e \<noteq> None"

definition friend_message :: "crypto_lib \<Rightarrow> json_lib \<Rightarrow> Friends.Home \<Rightarrow> string \<Rightarrow> string" where
  "friend_message C J h nick =
     (case load_friends C J h of
        Inl _ \<Rightarrow> []
      | Inr fs \<Rightarrow>
          if list_ex (\<lambda>f. nickname f = nick) fs
          then ''Friend '' @ CHR 0x27 # nick @ CHR 0x27 # '' routing address successfully updated!''
          else ''Friend '' @ CHR 0x27 # nick @ CHR 0x27 # '' securely added! Make sure they add your atom link too.'')"

definition click_add_friend :: "p2p_env \<Rightarrow> p2p_gui \<Rightarrow> p2p_gui" where
  "click_add_friend E g =
     (if friend_nick g = [] \<or> friend_url g = []
      then g\<lparr>add_friend_status := ''Error: Nickname and URL are required.''\<rparr>
      else case add_friend_core (pe_config E) (pe_keys E) (pe_ed E) (pe_json E) (friend_url g) (friend_nick g)
             (pe_rand E) (p2p_home g) of
        Inl e \<Rightarrow> if fatal e then g\<lparr>p2p_exit := True\<rparr> else g\<lparr>add_friend_status := ''Error: '' @ e\<rparr>
      | Inr h \<Rightarrow>
          (case load_friends (pe_config E) (pe_json E) h of
             Inl _ \<Rightarrow> g\<lparr>p2p_home := h, p2p_exit := True\<rparr>
           | Inr fs \<Rightarrow>
               g\<lparr>p2p_home := h, add_friend_status := friend_message (pe_config E) (pe_json E) (p2p_home g) (friend_nick g), friend_nick := [], friend_url := [],
                 p2p_friends_cache := map nickname fs, p2p_friends_full := fs\<rparr>))"

text \<open>\<open>trim_start_matches\<close> takes the scheme off as often as it stands there.\<close>

function trim_scheme :: "string \<Rightarrow> string" where
  "trim_scheme s = (case strip_prefix ''atom://'' s of None \<Rightarrow> s | Some r \<Rightarrow> trim_scheme r)"
  by pat_completeness auto
termination by (relation "measure length") (auto simp: strip_prefix_Some)

declare trim_scheme.simps [simp del]

definition identity_display :: "crypto_lib \<Rightarrow> Friends.Home \<Rightarrow> string" where
  "identity_display C h =
     (case get_id_string C h of
        Inr s \<Rightarrow> ''atom://'' @ trim_scheme s
      | Inl _ \<Rightarrow> ''Identity not generated yet. Run daemon.'')"

definition saturating_sub :: "u64 \<Rightarrow> u64 \<Rightarrow> u64" where
  "saturating_sub a b = (if a < b then 0 else a - b)"

definition is_online :: "u64 \<Rightarrow> FriendRecord \<Rightarrow> bool" where
  "is_online now f = (case last_seen f of None \<Rightarrow> False | Some t \<Rightarrow> saturating_sub now t < 300)"

definition online_count :: "u64 \<Rightarrow> FriendRecord list \<Rightarrow> nat \<times> nat" where
  "online_count now fs = (let n = length (filter (is_online now) fs) in (n, length fs - n))"

definition relative_time :: "u64 \<Rightarrow> u64 \<Rightarrow> string" where
  "relative_time now ts =
     (let diff = saturating_sub now ts in
      if diff < 60 then ''just now''
      else if diff < 3600 then show_nat 10 (unat (diff div 60)) @ ''m ago''
      else if diff < 86400 then show_nat 10 (unat (diff div 3600)) @ ''h ago''
      else show_nat 10 (unat (diff div 86400)) @ ''d ago'')"

section \<open>Sharing the current vault\<close>

definition start_sync :: "p2p_env \<Rightarrow> string \<Rightarrow> p2p_gui \<Rightarrow> p2p_gui" where
  "start_sync E friend g =
     g\<lparr>sync_done := False, sync_status_shared := ''Initiating background sync...'',
       sync_threads := \<lparr>th_vault = pe_vault_path E, th_friend = friend, th_queue = [], th_running = True\<rparr> # sync_threads g\<rparr>"

definition click_start_sync :: "p2p_env \<Rightarrow> p2p_gui \<Rightarrow> p2p_gui" where
  "click_start_sync E g =
     (if \<not> sync_done g \<or> p2p_friends_cache g = [] then g
      else if selected_friend_idx g < length (p2p_friends_cache g)
      then start_sync E (p2p_friends_cache g ! selected_friend_idx g) g else g)"

definition update_thread :: "nat \<Rightarrow> (sync_thread \<Rightarrow> sync_thread) \<Rightarrow> p2p_gui \<Rightarrow> p2p_gui" where
  "update_thread i f g = g\<lparr>sync_threads := (sync_threads g)[i := f (sync_threads g ! i)]\<rparr>"

text \<open>The command reports a message, the forwarder shows one, the command ends.\<close>

definition thread_reports :: "nat \<Rightarrow> string \<Rightarrow> p2p_gui \<Rightarrow> p2p_gui" where
  "thread_reports i m g =
     (if i < length (sync_threads g) \<and> th_running (sync_threads g ! i)
      then update_thread i (\<lambda>t. t\<lparr>th_queue := th_queue t @ [m]\<rparr>) g else g)"

definition forwarder_shows :: "nat \<Rightarrow> p2p_gui \<Rightarrow> p2p_gui" where
  "forwarder_shows i g =
     (if i < length (sync_threads g) then
        case th_queue (sync_threads g ! i) of
          [] \<Rightarrow> g
        | m # ms \<Rightarrow> update_thread i (\<lambda>t. t\<lparr>th_queue := ms\<rparr>) (g\<lparr>sync_status_shared := m\<rparr>)
      else g)"

definition thread_ends :: "p2p_env \<Rightarrow> nat \<Rightarrow> (string + Friends.Home) \<Rightarrow> p2p_gui \<Rightarrow> p2p_gui" where
  "thread_ends E i result g =
     (if i < length (sync_threads g) \<and> th_running (sync_threads g ! i) then
        let friend = th_friend (sync_threads g ! i);
            g1 = update_thread i (\<lambda>t. t\<lparr>th_running := False\<rparr>) g
        in case result of
          Inl e \<Rightarrow> g1\<lparr>sync_status_shared := ''Sync Failed: '' @ e, sync_done := True\<rparr>
        | Inr h \<Rightarrow>
            (case update_friend_last_seen (pe_config E) (pe_json E) friend (pe_now E) (pe_rand E) h of
               Inl _ \<Rightarrow> g1\<lparr>p2p_home := h, p2p_exit := True\<rparr>
             | Inr h' \<Rightarrow>
                 g1\<lparr>p2p_home := h', sync_status_shared := ''Sync Complete with '' @ friend, sync_done := True\<rparr>)
      else g)"

text \<open>The end of the polling in \<open>update\<close>: the friends are read again once after a sync.\<close>

definition refresh_friends :: "p2p_env \<Rightarrow> p2p_gui \<Rightarrow> p2p_gui" where
  "refresh_friends E g =
     (if \<not> prev_sync_done g \<and> sync_done g then
        case load_friends (pe_config E) (pe_json E) (p2p_home g) of
          Inl _ \<Rightarrow> g\<lparr>p2p_exit := True\<rparr>
        | Inr fs \<Rightarrow> g\<lparr>p2p_friends_full := fs, prev_sync_done := sync_done g\<rparr>
      else g\<lparr>prev_sync_done := sync_done g\<rparr>)"

section \<open>Events\<close>

datatype p2p_event =
    DaemonAsks string string nat | DaemonLogs string
  | P2PFrame | EditDialog string string | ClickAccept | ClickReject
  | EditFriend string string | ClickAddFriend
  | SelectFriend nat | ClickStartSync | ThreadReports nat string | ForwarderShows nat | ThreadEnds nat "string + Friends.Home"

definition p2p_step :: "p2p_env \<Rightarrow> p2p_event \<Rightarrow> p2p_gui \<Rightarrow> p2p_gui" where
  "p2p_step E ev g =
     (if p2p_exit g then g else
      case ev of
        DaemonAsks nick filename c \<Rightarrow> g\<lparr>incoming_events := incoming_events g @ [SyncRequest nick filename c]\<rparr>
      | DaemonLogs m \<Rightarrow> g\<lparr>incoming_events := incoming_events g @ [LogLine m]\<rparr>
      | P2PFrame \<Rightarrow> refresh_friends E (poll_daemon_events E g)
      | EditDialog lbl path \<Rightarrow> edit_dialog lbl path g
      | ClickAccept \<Rightarrow> accept_dialog E g
      | ClickReject \<Rightarrow> reject_dialog g
      | EditFriend nick u \<Rightarrow> g\<lparr>friend_nick := nick, friend_url := u\<rparr>
      | ClickAddFriend \<Rightarrow> click_add_friend E g
      | SelectFriend i \<Rightarrow> if i < length (p2p_friends_cache g) then g\<lparr>selected_friend_idx := i\<rparr> else g
      | ClickStartSync \<Rightarrow> click_start_sync E g
      | ThreadReports i m \<Rightarrow> thread_reports i m g
      | ForwarderShows i \<Rightarrow> forwarder_shows i g
      | ThreadEnds i r \<Rightarrow> thread_ends E i r g)"

definition run_p2p :: "(p2p_env \<times> p2p_event) list \<Rightarrow> p2p_gui \<Rightarrow> p2p_gui" where
  "run_p2p evs g = fold (\<lambda>(E, ev). p2p_step E ev) evs g"

definition p2p_start :: "Friends.Home \<Rightarrow> FriendRecord list \<Rightarrow> p2p_gui" where
  "p2p_start h fs =
     \<lparr>friend_nick = [], friend_url = [], add_friend_status = [], selected_friend_idx = 0, p2p_friends_cache = [],
      p2p_friends_full = fs, sync_status_shared = [], sync_done = True, prev_sync_done = True, incoming_sync = None,
      incoming_events = [], channel_ends = Map.empty, sync_threads = [], p2p_home = h, p2p_exit = False\<rparr>"

lemma run_p2p_snoc: "run_p2p (evs @ [(E, ev)]) g = p2p_step E ev (run_p2p evs g)"
  by (simp add: run_p2p_def)

section \<open>Every request is answered once\<close>

text \<open>
  \<open>chan_inv A q m ends\<close>: every request of \<open>A\<close> is in exactly one place: waiting in the queue \<open>q\<close>, on
  screen in \<open>m\<close>, or at an end.
\<close>

fun event_channel :: "DaemonEvent \<Rightarrow> nat list" where
  "event_channel (SyncRequest nick filename c) = [c]"
| "event_channel (LogLine m) = []"

definition pending_channels :: "DaemonEvent list \<Rightarrow> IncomingSyncState option \<Rightarrow> nat list" where
  "pending_channels q m =
     concat (map event_channel q) @ (case m of None \<Rightarrow> [] | Some st \<Rightarrow> [response_channel st])"

definition chan_inv ::
    "(string \<times> string \<times> nat) list \<Rightarrow> DaemonEvent list \<Rightarrow> IncomingSyncState option \<Rightarrow> (nat \<rightharpoonup> channel_end) \<Rightarrow> bool" where
  "chan_inv A q m ends \<longleftrightarrow>
     distinct (pending_channels q m) \<and> set (pending_channels q m) \<inter> dom ends = {} \<and>
     set (pending_channels q m) \<union> dom ends = (snd \<circ> snd) ` set A \<and>
     (\<forall>nick filename c. SyncRequest nick filename c \<in> set q \<longrightarrow> (nick, filename, c) \<in> set A) \<and>
     (\<forall>st. m = Some st \<longrightarrow> (sender_nick st, in_filename st, response_channel st) \<in> set A)"

definition p2p_inv :: "(string \<times> string \<times> nat) list \<Rightarrow> p2p_gui \<Rightarrow> bool" where
  "p2p_inv A g \<longleftrightarrow> chan_inv A (incoming_events g) (incoming_sync g) (channel_ends g)"

text \<open>
  How a request may end. It is answered by a press of a button while its own dialog is on screen: accepted as the
  dialog stood, or refused. Or it is dropped unanswered, on a frame that finds another request behind it, whose dialog
  takes its place.
\<close>

definition shown_channels :: "IncomingSyncState option \<Rightarrow> nat list" where
  "shown_channels m = (case m of None \<Rightarrow> [] | Some st \<Rightarrow> [response_channel st])"

definition superseded :: "nat \<Rightarrow> IncomingSyncState option \<Rightarrow> DaemonEvent list \<Rightarrow> bool" where
  "superseded c m q \<longleftrightarrow> (\<exists>xs c' ys. shown_channels m @ concat (map event_channel q) = xs @ c # c' # ys)"

fun ended_by :: "p2p_env \<Rightarrow> p2p_event \<Rightarrow> p2p_gui \<Rightarrow> nat \<Rightarrow> channel_end \<Rightarrow> bool" where
  "ended_by E ev g c (Answered r) \<longleftrightarrow>
     (\<exists>st. incoming_sync g = Some st \<and> response_channel st = c \<and>
        (ev = ClickAccept \<and> r = accept_response E st \<or> ev = ClickReject \<and> r = refused))"
| "ended_by E ev g c Dropped \<longleftrightarrow> ev = P2PFrame \<and> superseded c (incoming_sync g) (incoming_events g)"

fun asks :: "(p2p_env \<times> p2p_event) list \<Rightarrow> (string \<times> string \<times> nat) list" where
  "asks [] = []"
| "asks ((E, ev) # evs) = (case ev of DaemonAsks nick filename c \<Rightarrow> (nick, filename, c) # asks evs | _ \<Rightarrow> asks evs)"

lemma asks_append: "asks (evs @ evs') = asks evs @ asks evs'"
  by (induction evs rule: asks.induct) (auto split: p2p_event.splits)

lemma chan_inv_poll:
  assumes "chan_inv A (e # q) (incoming_sync g) (channel_ends g)"
  shows "chan_inv A q (incoming_sync (poll_event E e g)) (channel_ends (poll_event E e g))"
  using assms by (cases e; cases "incoming_sync g") (auto simp: chan_inv_def pending_channels_def drop_channel_def)

lemma poll_fold:
  assumes "chan_inv A q (incoming_sync g) (channel_ends g)"
  shows "chan_inv A [] (incoming_sync (fold (poll_event E) q g)) (channel_ends (fold (poll_event E) q g)) \<and>
    incoming_events (fold (poll_event E) q g) = incoming_events g \<and>
    (\<forall>c r. channel_ends (fold (poll_event E) q g) c = Some (Answered r) \<longleftrightarrow> channel_ends g c = Some (Answered r)) \<and>
    (\<forall>c r. channel_ends g c = Some r \<longrightarrow> channel_ends (fold (poll_event E) q g) c = Some r)"
  using assms
proof (induction q arbitrary: g)
  case (Cons e q)
  note p = chan_inv_poll [OF Cons.prems, of E]
  have ev: "incoming_events (poll_event E e g) = incoming_events g" by (cases e) simp_all
  have out: "response_channel st \<notin> dom (channel_ends g)" if "incoming_sync g = Some st" for st
    using Cons.prems that by (auto simp: chan_inv_def pending_channels_def)
  have an: "channel_ends (poll_event E e g) c = Some (Answered r) \<longleftrightarrow> channel_ends g c = Some (Answered r)" for c r
    using out by (cases e; cases "incoming_sync g") (auto simp: drop_channel_def)
  have st: "channel_ends (poll_event E e g) c = Some r" if "channel_ends g c = Some r" for c r
    using out that by (cases e; cases "incoming_sync g") (auto simp: drop_channel_def)
  show ?case using Cons.IH [OF p] ev an st by simp
qed simp

lemma superseded_later:
  "superseded c (incoming_sync (poll_event E e g)) q \<Longrightarrow> superseded c (incoming_sync g) (e # q)"
  unfolding superseded_def shown_channels_def
  by (cases e; cases "incoming_sync g") (auto, metis append_Cons)

lemma poll_drops:
  "channel_ends (fold (poll_event E) q g) c = Some Dropped \<Longrightarrow> channel_ends g c = None \<Longrightarrow> superseded c (incoming_sync g) q"
proof (induction q arbitrary: g)
  case (Cons e q)
  show ?case
  proof (cases "channel_ends (poll_event E e g) c")
    case None
    with Cons.IH [of "poll_event E e g"] Cons.prems(1) show ?thesis by (auto intro: superseded_later)
  next
    case (Some x)
    with Cons.prems(2) obtain st nick filename c' where "incoming_sync g = Some st" "response_channel st = c" "e = SyncRequest nick filename c'"
      by (cases e; cases "incoming_sync g") (auto simp: drop_channel_def split: if_splits)
    then show ?thesis unfolding superseded_def shown_channels_def by (intro exI [of _ "[]"]) simp
  qed
qed simp

definition same_channels :: "p2p_gui \<Rightarrow> p2p_gui \<Rightarrow> bool" where
  "same_channels g g' \<longleftrightarrow>
     incoming_events g' = incoming_events g \<and> incoming_sync g' = incoming_sync g \<and> channel_ends g' = channel_ends g"

lemma quiet_events:
  "same_channels g (refresh_friends E g)" "same_channels g (click_add_friend E g)" "same_channels g (click_start_sync E g)"
  "same_channels g (thread_reports i m g)" "same_channels g (forwarder_shows i g)" "same_channels g (thread_ends E i r g)"
  by (auto simp: same_channels_def refresh_friends_def click_add_friend_def click_start_sync_def start_sync_def
      thread_reports_def forwarder_shows_def thread_ends_def update_thread_def Let_def split: sum.splits list.splits)

lemma answer_dialog_inv:
  assumes "p2p_inv A g"
  shows "p2p_inv A (answer_dialog resp g)"
    "channel_ends g c = Some r \<Longrightarrow> channel_ends (answer_dialog resp g) c = Some r"
  using assms
  by (auto simp: answer_dialog_def p2p_inv_def chan_inv_def pending_channels_def split: option.splits)

text \<open>One step: where the requests are, and that an end stays as it is.\<close>

lemma p2p_step_inv:
  assumes "p2p_inv A g" "\<not> p2p_exit g"
    and "\<And>nick filename c. ev = DaemonAsks nick filename c \<Longrightarrow> c \<notin> (snd \<circ> snd) ` set A"
  shows "p2p_inv (A @ asks [(E, ev)]) (p2p_step E ev g)"
    and "channel_ends g c = Some q \<Longrightarrow> channel_ends (p2p_step E ev g) c = Some q"
    and "channel_ends (p2p_step E ev g) c = Some q \<Longrightarrow> channel_ends g c = None \<Longrightarrow> ended_by E ev g c q"
proof -
  have same: "p2p_inv A g'" if "same_channels g g'" for g' using assms(1) that by (simp add: p2p_inv_def same_channels_def)
  let ?p = "poll_daemon_events E g"
  have ci: "chan_inv A (incoming_events g) (incoming_sync (g\<lparr>incoming_events := []\<rparr>)) (channel_ends (g\<lparr>incoming_events := []\<rparr>))"
    using assms(1) by (simp add: p2p_inv_def)
  note pf = poll_fold [OF ci, of E, folded poll_daemon_events_def]
  have pi: "p2p_inv A ?p" using pf by (simp add: p2p_inv_def)
  have rf: "same_channels ?p (refresh_friends E ?p)" by (rule quiet_events)
  have e: "p2p_inv (A @ asks [(E, ev)]) (p2p_step E ev g) \<and>
    (\<forall>c q. channel_ends g c = Some q \<longrightarrow> channel_ends (p2p_step E ev g) c = Some q) \<and>
    (\<forall>c q. channel_ends (p2p_step E ev g) c = Some q \<longrightarrow> channel_ends g c = None \<longrightarrow> ended_by E ev g c q)"
  proof (cases ev)
    case (DaemonAsks nick filename c)
    with assms show ?thesis
      by (auto simp: p2p_step_def p2p_inv_def chan_inv_def pending_channels_def image_iff split: option.splits)
  next
    case P2PFrame
    have "ended_by E ev g c q" if "channel_ends ?p c = Some q" "channel_ends g c = None" for c q
      using that pf poll_drops [of E "incoming_events g" "g\<lparr>incoming_events := []\<rparr>" c] P2PFrame
      by (cases q) (auto simp: poll_daemon_events_def)
    with P2PFrame rf pi pf assms(2) show ?thesis
      by (simp add: p2p_step_def same_channels_def p2p_inv_def)
  next
    case ClickAccept
    with answer_dialog_inv [OF assms(1), where resp = "accept_response E"] assms(2) show ?thesis
      by (auto simp: p2p_step_def accept_dialog_def) (auto simp: answer_dialog_def split: option.splits if_splits)
  next
    case ClickReject
    with answer_dialog_inv [OF assms(1), where resp = "\<lambda>_. refused"] assms(2) show ?thesis
      by (auto simp: p2p_step_def reject_dialog_def) (auto simp: answer_dialog_def split: option.splits if_splits)
  next
    case (EditDialog lbl path)
    with assms show ?thesis
      by (cases "incoming_sync g") (auto simp: p2p_step_def edit_dialog_def p2p_inv_def chan_inv_def pending_channels_def)
  next
    case (DaemonLogs m)
    with assms show ?thesis
      by (auto simp: p2p_step_def p2p_inv_def chan_inv_def pending_channels_def)
  qed (use assms(2) same quiet_events [of g] in \<open>auto simp: p2p_step_def same_channels_def\<close>)
  then show "p2p_inv (A @ asks [(E, ev)]) (p2p_step E ev g)" by simp
  from e show "channel_ends g c = Some q \<Longrightarrow> channel_ends (p2p_step E ev g) c = Some q" by blast
  from e show "channel_ends (p2p_step E ev g) c = Some q \<Longrightarrow> channel_ends g c = None \<Longrightarrow> ended_by E ev g c q" by blast
qed

lemma p2p_exit_stays: "p2p_exit g \<Longrightarrow> p2p_step E ev g = g"
  by (simp add: p2p_step_def)

lemma run_p2p_inv:
  assumes "distinct (map (snd \<circ> snd) (asks evs))" "\<not> p2p_exit (run_p2p evs (p2p_start h fs))"
  shows "p2p_inv (asks evs) (run_p2p evs (p2p_start h fs))"
  using assms
proof (induction evs rule: rev_induct)
  case Nil
  then show ?case by (simp add: run_p2p_def p2p_start_def p2p_inv_def chan_inv_def pending_channels_def)
next
  case (snoc x evs)
  obtain E ev where x: "x = (E, ev)" by fastforce
  let ?g = "run_p2p evs (p2p_start h fs)"
  have run: "\<not> p2p_exit ?g" using snoc.prems(2) p2p_exit_stays [of ?g E ev] by (auto simp: x run_p2p_snoc)
  have inv: "p2p_inv (asks evs) ?g" by (rule snoc.IH) (use snoc.prems(1) run in \<open>simp_all add: asks_append comp_def\<close>)
  show ?case unfolding x run_p2p_snoc asks_append
    by (rule p2p_step_inv(1) [OF inv run]) (use snoc.prems(1) x in \<open>auto simp: asks_append image_iff\<close>)
qed

text \<open>Every end has the event that made it.\<close>

lemma run_p2p_ends:
  assumes "distinct (map (snd \<circ> snd) (asks evs))" "\<not> p2p_exit (run_p2p evs (p2p_start h fs))"
    "channel_ends (run_p2p evs (p2p_start h fs)) c = Some q"
  shows "\<exists>before E ev after. evs = before @ (E, ev) # after \<and> p2p_inv (asks before) (run_p2p before (p2p_start h fs)) \<and>
    ended_by E ev (run_p2p before (p2p_start h fs)) c q"
  using assms
proof (induction evs rule: rev_induct)
  case Nil
  then show ?case by (simp add: run_p2p_def p2p_start_def)
next
  case (snoc x evs)
  obtain E ev where x: "x = (E, ev)" by fastforce
  let ?g = "run_p2p evs (p2p_start h fs)"
  have run: "\<not> p2p_exit ?g" using snoc.prems(2) p2p_exit_stays [of ?g E ev] by (auto simp: x run_p2p_snoc)
  have d: "distinct (map (snd \<circ> snd) (asks evs))" using snoc.prems(1) by (simp add: asks_append comp_def)
  have inv: "p2p_inv (asks evs) ?g" by (rule run_p2p_inv [OF d run])
  have fresh: "c \<notin> (snd \<circ> snd) ` set (asks evs)" if "ev = DaemonAsks nick filename c" for nick filename c
    using snoc.prems(1) x that by (auto simp: asks_append image_iff)
  have fin: "channel_ends (p2p_step E ev ?g) c = Some q" using snoc.prems(3) by (simp add: x run_p2p_snoc)
  show ?case
  proof (cases "channel_ends ?g c")
    case None
    have "ended_by E ev ?g c q" by (rule p2p_step_inv(3) [OF inv run _ fin None]) (use fresh in blast)
    with inv show ?thesis unfolding x by (intro exI [of _ evs] exI [of _ E] exI [of _ ev] exI [of _ "[]"]) simp
  next
    case (Some q')
    have "channel_ends (p2p_step E ev ?g) c = Some q'"
      by (rule p2p_step_inv(2) [OF inv run _ Some]) (use fresh in blast)
    with fin Some have "channel_ends ?g c = Some q" by simp
    from snoc.IH [OF d run this] obtain before E' ev' after where
      "evs = before @ (E', ev') # after" "p2p_inv (asks before) (run_p2p before (p2p_start h fs))"
      "ended_by E' ev' (run_p2p before (p2p_start h fs)) c q" by blast
    then show ?thesis by (intro exI [of _ before] exI [of _ E'] exI [of _ ev'] exI [of _ "after @ [x]"]) simp
  qed
qed

end
