(* ===== verification/GuiP2PTheorems.thy ===== *)
theory GuiP2PTheorems
  imports LiveCmdTheorems SyncTheorems GuiLive GuiSync
begin

text \<open>
  The properties of the panels that talk to peers: pairing in the live panel, its transfers, and the
  requests of friends.
\<close>

section \<open>Pairing in the panel\<close>

text \<open>What a panel needs to pair: a code and a name, an identity, an address, and a disk that takes the state.\<close>

definition ready_to_pair :: "live_lib \<Rightarrow> string \<Rightarrow> LocalBundle \<Rightarrow> LiveState \<Rightarrow> Ticket \<Rightarrow> live_gui \<Rightarrow> bool" where
  "ready_to_pair L c me st t g \<longleftrightarrow>
     lv_stage g = Code \<and> live_done g \<and> trim (lv_code g) \<noteq> [] \<and> code_parse (lv_code g) = Inr c \<and>
     trim (lv_nickname g) \<noteq> [] \<and> kept L st (live_home g) \<and> state_ok L st \<and> lh_identity (live_home g) \<noteq> None \<and>
     load_or_create_identity L (live_home g) = (live_home g, Inr me) \<and>
     my_ticket L (live_home g) = (live_home g, Inr t) \<and> ticket_ok t \<and>
     state_peer (trim (lv_nickname g)) st = None \<and>
     (\<forall>st' r. \<exists>h. save_state L st' ((live_home g)\<lparr>lh_rng := r\<rparr>) = (h, Inr ()))"

lemma identity_stays:
  assumes "load_or_create_identity L h = (h, Inr me)" "lh_identity h \<noteq> None" "same_identity h h'"
  shows "load_or_create_identity L h' = (h', Inr me)"
  using assms
  by (auto simp: load_or_create_identity_def bindL_def read_private_def same_identity_def result_simps guardE_def
      split: if_splits sum.splits)

lemma ticket_stays:
  assumes "load_or_create_identity L h = (h, Inr me)" "kept L st h" "my_ticket L h = (h, Inr t)"
    and "load_or_create_identity L h' = (h', Inr me)" "kept L st' h'" "my_endpoints st' = my_endpoints st" "lh_clock h' = lh_clock h"
  shows "my_ticket L h' = (h', Inr t)" "identity t = local_bundle me"
  using assms by (auto simp: my_ticket_def bindL_def kept_def Ticket_new_def result_simps guardE_def split: sum.splits)

lemma at_rng:
  assumes "ready_to_pair L c me st t g"
  shows "kept L st ((live_home g)\<lparr>lh_rng := r\<rparr>)"
    "load_or_create_identity L ((live_home g)\<lparr>lh_rng := r\<rparr>) = ((live_home g)\<lparr>lh_rng := r\<rparr>, Inr me)"
    "my_ticket L ((live_home g)\<lparr>lh_rng := r\<rparr>) = ((live_home g)\<lparr>lh_rng := r\<rparr>, Inr t)"
proof -
  let ?h = "(live_home g)\<lparr>lh_rng := r\<rparr>"
  note d = assms [unfolded ready_to_pair_def]
  show k: "kept L st ?h" by (rule kept_same [of L st "live_home g"]) (use d in \<open>auto simp: same_store_def\<close>)
  show i: "load_or_create_identity L ?h = (?h, Inr me)"
    by (rule identity_stays [of L "live_home g"]) (use d in \<open>auto simp: same_identity_def\<close>)
  show "my_ticket L ?h = (?h, Inr t)"
    by (rule ticket_stays(1) [of L "live_home g" me st t ?h st]) (use d k i in auto)
qed

lemma trim_trim: "trim (trim s) = trim s"
proof (cases "trim s = []")
  case False
  let ?u = "dropWhile is_whitespace s" and ?w = "dropWhile is_whitespace (rev (dropWhile is_whitespace s))"
  have t: "trim s = rev ?w" by (simp add: trim_def)
  with False have w: "?w \<noteq> []" by simp
  from w have "?u \<noteq> []" by (metis dropWhile.simps(1) rev.simps(1))
  then have "\<not> is_whitespace (hd ?u)" by (metis hd_dropWhile)
  moreover have "?u = rev ?w @ rev (takeWhile is_whitespace (rev ?u))"
    by (metis rev_append rev_rev_ident takeWhile_dropWhile_id)
  then have "hd ?u = hd (rev ?w)" using w by (metis hd_append2 rev_is_Nil_conv)
  ultimately have "\<not> is_whitespace (hd (trim s))" using t by simp
  moreover have "\<not> is_whitespace (last (trim s))" using t w by (metis hd_dropWhile last_rev)
  ultimately show ?thesis using False by (intro trim_id)
next
  case True
  then show ?thesis by (simp only: True) (simp add: trim_def)
qed

text \<open>Round 1.\<close>

lemma quiet_begin: "\<exists>r s blob. pair_begin L c h = (h\<lparr>lh_rng := r\<rparr>, Inr (s, blob))"
proof -
  obtain s m r where "pair_start (ll_pake L) c (lh_rng h) = ((s, m), r)" by (metis surj_pair)
  then show ?thesis by (simp add: pair_begin_def) blast
qed

lemma round_1:
  assumes "ready_to_pair L c me st t g" "le_lib E = L"
  obtains r s blob where "pair_begin L c (live_home g) = ((live_home g)\<lparr>lh_rng := r\<rparr>, Inr (s, blob))"
    "live_step E StartRound1 g = g\<lparr>live_home := (live_home g)\<lparr>lh_rng := r\<rparr>, lv_pairing := Some s, lv_our_blob := blob,
       lv_stage := Exchange, lv_status := ''Send your round-1 blob, paste theirs below.''\<rparr>"
proof -
  note d = assms(1) [unfolded ready_to_pair_def]
  obtain r s blob where p: "pair_begin L c (live_home g) = ((live_home g)\<lparr>lh_rng := r\<rparr>, Inr (s, blob))"
    using quiet_begin [of L c "live_home g"] by blast
  show ?thesis
    by (rule that [OF p]) (use d p assms(2) in \<open>simp add: live_step_def start_round_1_def bindL_def\<close>)
qed

text \<open>Round 2: an exchange that succeeds leaves the home as it was, up to the random source.\<close>

lemma exchange_at:
  assumes "live_lib_ok L" "pake_ok (ll_pake L)" "aead_total (ll_crypto L)"
    and "ready_to_pair L c me st t g" "pair_begin L c (live_home g) = ((live_home g)\<lparr>lh_rng := r\<rparr>, Inr (s, blob))"
    and "pair_begin L c b = (b1, Inr (sb, mb))"
  obtains r' ch x where
    "pair_exchange L s (trim mb) ((live_home g)\<lparr>lh_rng := r\<rparr>) = ((live_home g)\<lparr>lh_rng := r'\<rparr>, Inr (ch, x))"
    "pair_exchange L s mb ((live_home g)\<lparr>lh_rng := r\<rparr>) = ((live_home g)\<lparr>lh_rng := r'\<rparr>, Inr (ch, x))" "trim mb \<noteq> []"
proof -
  obtain ch m2 where c: "decode_message (ll_keys L) mb = Inr m2" "pair_finish (ll_pake L) (ll_crypto L) s m2 = Inr ch"
    using pair_channels [OF assms(1,2,5,6)] by blast
  have l: "length (chan_key ch) = 32" using pair_finish_secret [OF live_lib_okD(2) [OF assms(1)] c(2)] by simp
  have tk: "ticket_ok t" using assms(4) by (simp add: ready_to_pair_def)
  obtain x r' where x: "seal_ticket (ll_keys L) (ll_crypto L) ch t r = Inr (x, r')"
    using seal_ticket_total [OF assms(3) l tk] by blast
  have e: "pair_exchange L s m ((live_home g)\<lparr>lh_rng := r\<rparr>) = ((live_home g)\<lparr>lh_rng := r'\<rparr>, Inr (ch, x))"
    if "decode_message (ll_keys L) m = Inr m2" for m
    using that c(2) x at_rng(3) [OF assms(4), of r] by (simp add: pair_exchange_def bindL_def)
  have tr: "decode_message (ll_keys L) (trim mb) = Inr m2" using c(1) by (simp add: decode_message_def trim_trim)
  have "trim mb \<noteq> []"
    using c(1) by (auto simp: decode_message_def MESSAGE_PREFIX_def strip_prefix_def to_lowercase_def)
  then show ?thesis by (rule that [OF e [OF tr] e [OF c(1)]])
qed

text \<open>Completion: the ticket in the peer's second message is stored, and both fingerprints are shown.\<close>

lemma complete_at:
  assumes "live_lib_ok L" "ready_to_pair L c me st t g" "open_ticket (ll_keys L) (ll_crypto L) ch x = Inr tb"
    and "bundle_id (ll_keys L) (identity tb) \<noteq> bundle_id (ll_keys L) (local_bundle me)" "length (rendezvous_secret ch) = 32"
  obtains h where "pair_complete L ch x (trim (lv_nickname g)) ((live_home g)\<lparr>lh_rng := r\<rparr>) = (h, Inr tb)"
    "my_ticket L h = (h, Inr t)" "identity t = local_bundle me"
proof -
  let ?h = "(live_home g)\<lparr>lh_rng := r\<rparr>" and ?nick = "trim (lv_nickname g)"
  note d = assms(2) [unfolded ready_to_pair_def]
  note k = at_rng [OF assms(2), of r]
  obtain st' where s: "save_paired L ?nick tb (rendezvous_secret ch) st = Inr st'" and ep: "my_endpoints st' = my_endpoints st"
    using d by (simp add: save_paired_def)
  obtain h where v: "save_state L st' ?h = (h, Inr ())" using d by blast
  have c: "pair_complete L ch x ?nick ?h = (h, Inr tb)"
    using assms(3,4) k(1,2) s v by (simp add: pair_complete_def bindL_def kept_def)
  have "kept L st' h" using save_state_cases [OF assms(1) k(1) v] by auto
  moreover have i: "same_identity ?h h" using keeps_id_save [of L st'] v by (metis fst_conv keeps_id_def)
  then have "load_or_create_identity L h = (h, Inr me)" using d by (intro identity_stays [OF k(2)]) simp_all
  moreover have "lh_clock h = lh_clock ?h"
    using v by (auto simp: save_state_def write_private_def set_peers_def Let_def split: if_splits sum.splits option.splits)
  ultimately have "my_ticket L h = (h, Inr t)" "identity t = local_bundle me"
    using ticket_stays [OF k(2,1,3)] ep by blast+
  with c show ?thesis by (rule that)
qed

text \<open>The peer's message is pasted and the button pressed.\<close>

definition paste :: "live_env \<Rightarrow> string \<Rightarrow> live_gui \<Rightarrow> live_gui" where
  "paste E m g = run_panel [(E, EditPeerBlob m), (E, ClickContinue)] g"

lemma paste_round_1:
  assumes "live_lib_ok L" "pake_ok (ll_pake L)" "aead_total (ll_crypto L)" "le_lib E = L" "ready_to_pair L c me st t g"
    and "pair_begin L c (live_home g) = ((live_home g)\<lparr>lh_rng := r\<rparr>, Inr (s, blob))" "pair_begin L c b = (b1, Inr (sb, mb))"
    and "live_step E StartRound1 g = g\<lparr>live_home := (live_home g)\<lparr>lh_rng := r\<rparr>, lv_pairing := Some s, lv_our_blob := blob,
       lv_stage := Exchange, lv_status := m\<rparr>"
  obtains r' ch x where
    "pair_exchange L s mb ((live_home g)\<lparr>lh_rng := r\<rparr>) = ((live_home g)\<lparr>lh_rng := r'\<rparr>, Inr (ch, x))"
    "lv_our_blob (paste E mb (live_step E StartRound1 g)) = x"
    "lv_pairing (paste E mb (live_step E StartRound1 g)) = None" "lv_channel (paste E mb (live_step E StartRound1 g)) = Some ch"
    "lv_stage (paste E mb (live_step E StartRound1 g)) = Exchange"
    "live_home (paste E mb (live_step E StartRound1 g)) = (live_home g)\<lparr>lh_rng := r'\<rparr>"
    "lv_nickname (paste E mb (live_step E StartRound1 g)) = lv_nickname g" "live_done (paste E mb (live_step E StartRound1 g))"
proof -
  obtain r' ch x where x:
    "pair_exchange L s (trim mb) ((live_home g)\<lparr>lh_rng := r\<rparr>) = ((live_home g)\<lparr>lh_rng := r'\<rparr>, Inr (ch, x))"
    "pair_exchange L s mb ((live_home g)\<lparr>lh_rng := r\<rparr>) = ((live_home g)\<lparr>lh_rng := r'\<rparr>, Inr (ch, x))" "trim mb \<noteq> []"
    by (rule exchange_at [OF assms(1-3,5-7)])
  have "live_done g" using assms(5) by (simp add: ready_to_pair_def)
  with x(1,3) assms(4) show ?thesis
    by (intro that [OF x(2)])
      (simp_all add: paste_def assms(8) live_step_def [of _ "EditPeerBlob mb"] live_step_def [of _ ClickContinue] continue_pairing_def)
qed

lemma paste_round_2:
  assumes "live_lib_ok L" "b32_encode (ll_keys L) [] = []"
    and "le_lib E = L" "ready_to_pair L c me st t g" "open_ticket (ll_keys L) (ll_crypto L) ch x = Inr tb"
    and "bundle_id (ll_keys L) (identity tb) \<noteq> bundle_id (ll_keys L) (identity t)" "length (rendezvous_secret ch) = 32"
    and "lv_pairing g' = None" "lv_channel g' = Some ch" "lv_stage g' = Exchange"
    "live_home g' = (live_home g)\<lparr>lh_rng := r\<rparr>" "lv_nickname g' = lv_nickname g" "live_done g'"
  shows "lv_stage (paste E x g') = Paired \<and> lv_peer_fingerprint (paste E x g') = fingerprint_of L tb \<and>
    lv_our_fingerprint (paste E x g') = fingerprint_of L t \<and> lv_selected_peer (paste E x g') = trim (lv_nickname g) \<and>
    (\<exists>st' p. kept L st' (live_home (paste E x g')) \<and> state_peer (trim (lv_nickname g)) st' = Some p \<and>
       ticket_from_text (ll_keys L) (lp_ticket p) = Inr tb)"
proof -
  have i: "identity t = local_bundle me"
    using assms(4) ticket_stays(2) [of L "live_home g" me st t "live_home g" st] by (simp add: ready_to_pair_def)
  have o: "open_ticket (ll_keys L) (ll_crypto L) ch (trim x) = Inr tb" using assms(5) by (simp add: open_ticket_def trim_trim)
  have "b32_decode (ll_keys L) [] = Some []" using live_lib_okD(3) [OF assms(1)] assms(2) by (metis b32_ok_def)
  then have ne: "trim x \<noteq> []"
    using assms(5) by (auto simp: open_ticket_def to_uppercase_def)
  obtain h where h: "pair_complete L ch (trim x) (trim (lv_nickname g)) ((live_home g)\<lparr>lh_rng := r\<rparr>) = (h, Inr tb)"
    "my_ticket L h = (h, Inr t)"
    using complete_at [OF assms(1,4) o _ assms(7)] assms(6) i by metis
  have s: "paste E x g' = (g'\<lparr>lv_peer_blob := x, live_home := h, lv_pairing := None, lv_peer_fingerprint := fingerprint_of L tb,
      lv_our_fingerprint := fingerprint_of L t, lv_stage := Paired, lv_selected_peer := trim (lv_nickname g),
      lv_status := ''Paired with '' @ trim (lv_nickname g) @ ''.''\<rparr>)"
    using assms(3,8-13) h ne by (simp add: paste_def live_step_def continue_pairing_def Let_def)
  have "kept L st ((live_home g)\<lparr>lh_rng := r\<rparr>)" "state_ok L st"
    using at_rng(1) [OF assms(4)] assms(4) by (simp_all add: ready_to_pair_def)
  from pair_complete_stores [OF assms(1) this assms(7) h(1)] show ?thesis unfolding s by auto
qed

text \<open>
  Two users whose panels are ready to pair (the same code typed in any form, an identity, an address, no
  peer of that name yet) and who paste each other's two messages both end up paired: each one's screen shows as
  theirs exactly the fingerprint the other screen shows as its own, and each state holds the other's ticket under
  the chosen name.
\<close>

theorem panels_show_each_other:
  assumes "live_lib_ok L" "b32_encode (ll_keys L) [] = []" "pake_ok (ll_pake L)" "aead_total (ll_crypto L)"
    and "le_lib E = L" "le_lib E' = L" "ready_to_pair L c me st t a" "ready_to_pair L c me' st' t' b"
    and "bundle_id (ll_keys L) (identity t) \<noteq> bundle_id (ll_keys L) (identity t')"
    and "a1 = live_step E StartRound1 a" "b1 = live_step E' StartRound1 b"
    and "a2 = paste E (lv_our_blob b1) a1" "b2 = paste E' (lv_our_blob a1) b1"
    and "a3 = paste E (lv_our_blob b2) a2" "b3 = paste E' (lv_our_blob a2) b2"
  shows "lv_stage a3 = Paired \<and> lv_stage b3 = Paired \<and>
    lv_peer_fingerprint a3 = lv_our_fingerprint b3 \<and> lv_peer_fingerprint b3 = lv_our_fingerprint a3 \<and>
    (\<exists>sta pa stb pb. kept L sta (live_home a3) \<and> kept L stb (live_home b3) \<and>
       state_peer (lv_selected_peer a3) sta = Some pa \<and> ticket_from_text (ll_keys L) (lp_ticket pa) = Inr t' \<and>
       state_peer (lv_selected_peer b3) stb = Some pb \<and> ticket_from_text (ll_keys L) (lp_ticket pb) = Inr t)"
proof -
  note r1 = assms(7) and r2 = assms(8)
  obtain ra sa ma where A: "pair_begin L c (live_home a) = ((live_home a)\<lparr>lh_rng := ra\<rparr>, Inr (sa, ma))"
    "a1 = a\<lparr>live_home := (live_home a)\<lparr>lh_rng := ra\<rparr>, lv_pairing := Some sa, lv_our_blob := ma,
       lv_stage := Exchange, lv_status := ''Send your round-1 blob, paste theirs below.''\<rparr>"
    unfolding assms(10) by (rule round_1 [OF r1 assms(5)])
  obtain rb sb mb where B: "pair_begin L c (live_home b) = ((live_home b)\<lparr>lh_rng := rb\<rparr>, Inr (sb, mb))"
    "b1 = b\<lparr>live_home := (live_home b)\<lparr>lh_rng := rb\<rparr>, lv_pairing := Some sb, lv_our_blob := mb,
       lv_stage := Exchange, lv_status := ''Send your round-1 blob, paste theirs below.''\<rparr>"
    unfolding assms(11) by (rule round_1 [OF r2 assms(6)])
  have m: "lv_our_blob a1 = ma" "lv_our_blob b1 = mb" using A(2) B(2) by simp_all
  obtain r' cha xa where A2: "pair_exchange L sa mb ((live_home a)\<lparr>lh_rng := ra\<rparr>) = ((live_home a)\<lparr>lh_rng := r'\<rparr>, Inr (cha, xa))"
    "lv_our_blob a2 = xa" "lv_pairing a2 = None" "lv_channel a2 = Some cha" "lv_stage a2 = Exchange"
    "live_home a2 = (live_home a)\<lparr>lh_rng := r'\<rparr>" "lv_nickname a2 = lv_nickname a" "live_done a2"
    unfolding assms(12) m assms(10)
    by (rule paste_round_1 [OF assms(1,3,4,5) r1 A(1) B(1) A(2) [unfolded assms(10)]])
  obtain q' chb xb where B2: "pair_exchange L sb ma ((live_home b)\<lparr>lh_rng := rb\<rparr>) = ((live_home b)\<lparr>lh_rng := q'\<rparr>, Inr (chb, xb))"
    "lv_our_blob b2 = xb" "lv_pairing b2 = None" "lv_channel b2 = Some chb" "lv_stage b2 = Exchange"
    "live_home b2 = (live_home b)\<lparr>lh_rng := q'\<rparr>" "lv_nickname b2 = lv_nickname b" "live_done b2"
    unfolding assms(13) m assms(11)
    by (rule paste_round_1 [OF assms(1,3,4,6) r2 B(1) A(1) B(2) [unfolded assms(11)]])
  have tk: "ticket_ok t" "ticket_ok t'" using r1 r2 by (simp_all add: ready_to_pair_def)
  note oa = exchange_opens [OF assms(1,3) A(1) B(1) A2(1) B2(1) at_rng(3) [OF r2] tk(2)]
  note ob = exchange_opens [OF assms(1,3) B(1) A(1) B2(1) A2(1) at_rng(3) [OF r1] tk(1)]
  have sa: "length (rendezvous_secret cha) = 32" and sb: "length (rendezvous_secret chb) = 32" using oa ob by simp_all
  have "open_ticket (ll_keys L) (ll_crypto L) cha (lv_our_blob b2) = Inr t'" using oa B2(2) by simp
  from paste_round_2 [OF assms(1,2,5) r1 this assms(9) [symmetric] sa A2(3-8), folded assms(14)]
  have pa: "lv_stage a3 = Paired \<and> lv_peer_fingerprint a3 = fingerprint_of L t' \<and> lv_our_fingerprint a3 = fingerprint_of L t \<and>
    lv_selected_peer a3 = trim (lv_nickname a) \<and> (\<exists>st' p. kept L st' (live_home a3) \<and>
      state_peer (trim (lv_nickname a)) st' = Some p \<and> ticket_from_text (ll_keys L) (lp_ticket p) = Inr t')" .
  have "open_ticket (ll_keys L) (ll_crypto L) chb (lv_our_blob a2) = Inr t" using ob A2(2) by simp
  from paste_round_2 [OF assms(1,2,6) r2 this assms(9) sb B2(3-8), folded assms(15)]
  have pb: "lv_stage b3 = Paired \<and> lv_peer_fingerprint b3 = fingerprint_of L t \<and> lv_our_fingerprint b3 = fingerprint_of L t' \<and>
    lv_selected_peer b3 = trim (lv_nickname b) \<and> (\<exists>st' p. kept L st' (live_home b3) \<and>
      state_peer (trim (lv_nickname b)) st' = Some p \<and> ticket_from_text (ll_keys L) (lp_ticket p) = Inr t)" .
  from pa pb show ?thesis by auto
qed

definition demo_panel :: "byte \<Rightarrow> string \<Rightarrow> string \<Rightarrow> live_gui" where
  "demo_panel b code nick = (live_gui_start ''/s'' (demo_at b (\<lambda>_. 5)))\<lparr>lv_code := code, lv_nickname := nick\<rparr>"

definition demo_live_env :: live_env where
  "demo_live_env = \<lparr>le_lib = demo_live, le_world = demo_world, le_text = (\<lambda>_. []), le_human_bytes = (\<lambda>_. [])\<rparr>"

lemma demo_saves: "\<exists>h. save_state demo_live st ((demo_at b g)\<lparr>lh_rng := r\<rparr>) = (h, Inr ())"
  by (simp add: save_state_def write_private_def demo_at_def demo_home_with_def demo_live_home_def encrypt_config_def
      demo_live_def demo_crypto_def demo_seal_def draw_def Let_def)

lemma demo_ready:
  assumes "trim code \<noteq> []" "code_parse code = Inr c" "trim nick \<noteq> []"
  shows "ready_to_pair demo_live c (demo_local b) demo_pair_state (demo_pair_ticket b) (demo_panel b code nick)"
proof -
  have "lh_identity (demo_at b g) \<noteq> None" for g by (simp add: demo_at_def demo_home_with_def demo_live_home_def)
  moreover have "state_peer n demo_pair_state = None" for n
    by (simp add: state_peer_def demo_pair_state_def LiveState_default_def)
  ultimately show ?thesis using assms demo_at_kept demo_pair_state_ok demo_at_identity demo_at_ticket demo_pair_ticket_ok demo_saves
    by (simp add: ready_to_pair_def demo_panel_def live_gui_start_def)
qed

theorem panels_show_each_other_witness:
  "let a1 = live_step demo_live_env StartRound1 (demo_panel 1 ''AB-cd'' ''bob'');
       b1 = live_step demo_live_env StartRound1 (demo_panel 2 ''ab cd'' ''alice'');
       a2 = paste demo_live_env (lv_our_blob b1) a1; b2 = paste demo_live_env (lv_our_blob a1) b1;
       a3 = paste demo_live_env (lv_our_blob b2) a2; b3 = paste demo_live_env (lv_our_blob a2) b2
   in lv_stage a3 = Paired \<and> lv_stage b3 = Paired \<and> lv_peer_fingerprint a3 = lv_our_fingerprint b3"
proof -
  have c: "code_parse ''AB-cd'' = Inr ''abcd''" "code_parse ''ab cd'' = Inr ''abcd''" "trim ''AB-cd'' \<noteq> []" "trim ''ab cd'' \<noteq> []"
    "trim ''bob'' \<noteq> []" "trim ''alice'' \<noteq> []" by code_simp+
  have k: "ll_keys demo_live = demo_keys" "ll_pake demo_live = demo_pake" "ll_crypto demo_live = demo_crypto"
    by (simp_all add: demo_live_def)
  have l: "le_lib demo_live_env = demo_live" by (simp add: demo_live_env_def)
  have e: "b32_encode (ll_keys demo_live) [] = []" by (simp add: k demo_keys_def demo_b32_encode_def)
  have p: "pake_ok (ll_pake demo_live)" "aead_total (ll_crypto demo_live)" using demo_pake_ok demo_aead_total by (simp_all add: k)
  have i: "bundle_id (ll_keys demo_live) (identity (demo_pair_ticket 1)) \<noteq> bundle_id (ll_keys demo_live) (identity (demo_pair_ticket 2))"
    using demo_ids by (simp add: k demo_pair_ticket_def Ticket_new_def)
  show ?thesis unfolding Let_def
    using panels_show_each_other [OF demo_live_ok e p l l demo_ready [OF c(3,1,5)] demo_ready [OF c(4,2,6)] i refl refl refl refl refl refl]
    by simp
qed

text \<open>
  A pairing code is single use, and the panel holds the user to it without offering a way on: once the
  peer's first message is refused, whatever is clicked and typed from then on, the panel stays in the exchange
  stage with neither a pairing nor a channel, so no control of it can start over with a new code.
\<close>

theorem failed_exchange_ends_pairing:
  assumes "panel_inv g" "lv_stage g = Exchange" "lv_pairing g = Some s" "trim (lv_peer_blob g) \<noteq> []" "live_done g"
    and "pair_exchange (le_lib E) s (trim (lv_peer_blob g)) (live_home g) = (h, Inl e)"
  shows "lv_stage (run_panel ((E, ClickContinue) # evs) g) = Exchange \<and>
    lv_pairing (run_panel ((E, ClickContinue) # evs) g) = None \<and> lv_channel (run_panel ((E, ClickContinue) # evs) g) = None"
proof -
  have "dead_end (live_step E ClickContinue g)"
    using failed_exchange_dead_end [OF assms(2,3,1,6)] assms(2,4,5) by (simp add: live_step_def)
  then have "dead_end (run_panel evs (live_step E ClickContinue g))" by (rule run_panel_inv) (rule dead_end_step)
  then show ?thesis by (simp add: dead_end_def)
qed

theorem failed_exchange_ends_pairing_witness:
  "let g = run_panel [(demo_live_env, StartRound1), (demo_live_env, EditPeerBlob ''x''), (demo_live_env, ClickContinue),
       (demo_live_env, EditCode ''ef''), (demo_live_env, StartRound1)] (demo_panel 1 ''AB-cd'' ''bob'')
   in lv_stage g = Exchange \<and> lv_pairing g = None \<and> lv_channel g = None"
proof -
  have c: "code_parse ''AB-cd'' = Inr ''abcd''" "trim ''AB-cd'' \<noteq> []" "trim ''bob'' \<noteq> []" "trim ''x'' \<noteq> []" by code_simp+
  have l: "le_lib demo_live_env = demo_live" by (simp add: demo_live_env_def)
  let ?g = "demo_panel 1 ''AB-cd'' ''bob''"
  obtain r s blob where s1: "live_step demo_live_env StartRound1 ?g = ?g\<lparr>live_home := (live_home ?g)\<lparr>lh_rng := r\<rparr>,
      lv_pairing := Some s, lv_our_blob := blob, lv_stage := Exchange,
      lv_status := ''Send your round-1 blob, paste theirs below.''\<rparr>"
    by (rule round_1 [OF demo_ready [OF c(2,1,3), of 1] l])
  define g where "g = live_step demo_live_env (EditPeerBlob ''x'') (live_step demo_live_env StartRound1 ?g)"
  have g: "lv_stage g = Exchange" "lv_pairing g = Some s" "lv_peer_blob g = ''x''" "live_done g" "panel_inv g"
    unfolding g_def s1
    by (simp_all add: live_step_def [of _ "EditPeerBlob ''x''"] panel_inv_def) (simp_all add: demo_panel_def live_gui_start_def)
  have "decode_message K ''x'' = Inl (EPairing ''a pairing message must start with the prefix'')" for K
    by (simp add: decode_message_def trim_def is_whitespace_def to_lowercase_def strip_prefix_def MESSAGE_PREFIX_def to_lower_def)
  moreover have "trim ''x'' = ''x''" by code_simp
  ultimately obtain e where e: "pair_exchange (le_lib demo_live_env) s (trim (lv_peer_blob g)) (live_home g) = (live_home g, Inl e)"
    using g(3) by (simp add: pair_exchange_def bindL_def)
  have b: "trim (lv_peer_blob g) \<noteq> []" using c(4) g(3) by simp
  have "run_panel [(demo_live_env, StartRound1), (demo_live_env, EditPeerBlob ''x''), (demo_live_env, ClickContinue),
       (demo_live_env, EditCode ''ef''), (demo_live_env, StartRound1)] ?g =
     run_panel ((demo_live_env, ClickContinue) # [(demo_live_env, EditCode ''ef''), (demo_live_env, StartRound1)]) g"
    by (simp add: g_def)
  with failed_exchange_ends_pairing [OF g(5,1,2) b g(4) e, of "[(demo_live_env, EditCode ''ef''), (demo_live_env, StartRound1)]"]
  show ?thesis by simp
qed

section \<open>The address field\<close>

text \<open>A panel of a user with no address and no peers, whose text field is never edited in the frame of a click.\<close>

fun saves_only :: "live_event \<Rightarrow> bool" where
  "saves_only (IdentityCard edited save) = (edited = None \<or> \<not> save)"
| "saves_only _ = True"

definition no_address :: "live_lib \<Rightarrow> LiveState \<Rightarrow> live_gui \<Rightarrow> bool" where
  "no_address L st g \<longleftrightarrow> kept L st (live_home g) \<and> lv_stage g = Code \<and> live_workers g = []"

lemma summary_empty:
  assumes "kept L st h" "identity_summary L h = (h', r)"
  shows "kept L st h' \<and> (\<forall>s. r = Inr s \<longrightarrow> is_endpoints s = my_endpoints st)"
proof -
  obtain h1 q where i: "load_or_create_identity L h = (h1, q)" by fastforce
  have k: "kept L st h1" by (rule kept_quiet [OF quiet_identity i assms(1)])
  then have "load_state L h1 = (h1, Inr st)" by (simp add: kept_def)
  with assms(2) i k show ?thesis by (cases q) (auto simp: identity_summary_def bindL_def retL_def Let_def)
qed

lemma parse_endpoint_empty: "parse_endpoint [] = Inl (Msg ''An address needs a port'')"
  by code_simp

lemma save_empty: "\<exists>e. set_endpoints L [[]] h = (h, Inl e)"
  by (simp add: set_endpoints_def bindL_def parse_endpoint_empty)

lemma no_address_step:
  assumes "no_address L st g" "my_endpoints st = []" "peers st = []" "le_lib E = L" "saves_only ev"
  shows "no_address L st (live_step E ev g)"
proof -
  note k = assms(1) [unfolded no_address_def]
  have sp: "stored_peers E g = []" using k assms(3,4) by (simp add: stored_peers_def kept_def)
  show ?thesis
  proof (cases ev)
    case (IdentityCard edited save)
    obtain h r where i: "identity_summary L (live_home g) = (h, r)" by fastforce
    have h: "kept L st h" "r = Inr s \<Longrightarrow> is_endpoints s = []" for s
      using summary_empty [OF _ i] k assms(2) by auto
    obtain e where "set_endpoints L [[]] h = (h, Inl e)" using save_empty by blast
    with IdentityCard i h k assms(4,5) show ?thesis
      by (cases r) (auto simp: no_address_def live_step_def live_identity_card_def first_endpoint_def failed_def Let_def)
  next
    case StartRound1
    obtain h r where i: "load_or_create_identity L (live_home g) = (h, r)" by fastforce
    have h: "kept L st h" using kept_quiet [OF quiet_identity i] k by blast
    then have l: "load_state L h = (h, Inr st)" by (simp add: kept_def)
    have "\<exists>e. my_ticket L (live_home g) = (h, Inl e)"
      using i l assms(2) by (cases r) (simp_all add: my_ticket_def bindL_def)
    then obtain e where "my_ticket L (live_home g) = (h, Inl e)" by blast
    with StartRound1 h k assms(4) show ?thesis
      by (cases "code_parse (lv_code g)") (auto simp: no_address_def live_step_def start_round_1_def bindL_def failed_def)
  next
    case GenerateCode
    have "kept L st ((live_home g)\<lparr>lh_rng := r\<rparr>)" for r
      by (rule kept_same [of L st "live_home g"]) (use k in \<open>simp_all add: same_store_def\<close>)
    with GenerateCode k show ?thesis by (simp add: no_address_def live_step_def generate_code_def Let_def split: prod.splits)
  qed (use k sp in \<open>auto simp: no_address_def live_step_def edit_code_def reset_pairing_def live_status_line_def\<close>)
qed

text \<open>
  The address field is filled from the stored state in every frame, so what was typed is gone when the
  button is pressed in a later frame. A user who has no address yet can therefore not get one in the panel, and
  without an address cannot pair there: whatever is typed and clicked, as long as no keystroke and click on Save
  fall into one frame, the panel stays at the code stage and the stored state stays as it is.
\<close>

theorem typed_address_is_lost:
  assumes "kept L st h" "my_endpoints st = []" "peers st = []"
    and "list_all (\<lambda>(E, ev). le_lib E = L \<and> saves_only ev) evs"
  shows "lv_stage (run_panel evs (live_gui_start save_path h)) = Code \<and>
    kept L st (live_home (run_panel evs (live_gui_start save_path h)))"
proof -
  have "no_address L st (run_panel evs g)" if "no_address L st g" for g
    using that assms(4)
  proof (induction evs arbitrary: g)
    case (Cons x evs)
    obtain E ev where "x = (E, ev)" by fastforce
    with Cons no_address_step [OF Cons.prems(1) assms(2,3), of E ev] show ?case by simp
  qed simp
  moreover have "no_address L st (live_gui_start save_path h)" using assms(1) by (simp add: no_address_def live_gui_start_def)
  ultimately show ?thesis by (simp add: no_address_def)
qed

theorem typed_address_is_lost_witness:
  "let g = run_panel [(demo_live_env, IdentityCard (Some ''192.0.2.7:4433'') False), (demo_live_env, IdentityCard None True),
       (demo_live_env, EditCode ''abcd''), (demo_live_env, EditNickname ''bob''), (demo_live_env, StartRound1)]
       (live_gui_start ''/s'' (demo_live_home 1))
   in lv_stage g = Code \<and> kept demo_live LiveState_default (live_home g)"
proof -
  have "my_endpoints LiveState_default = []" "peers LiveState_default = []" by (simp_all add: LiveState_default_def)
  moreover have "list_all (\<lambda>(E, ev). le_lib E = demo_live \<and> saves_only ev) [(demo_live_env, IdentityCard (Some ''192.0.2.7:4433'') False),
      (demo_live_env, IdentityCard None True), (demo_live_env, EditCode ''abcd''), (demo_live_env, EditNickname ''bob''),
      (demo_live_env, StartRound1)]" by (simp add: demo_live_env_def)
  ultimately show ?thesis unfolding Let_def by (rule typed_address_is_lost [OF demo_kept])
qed

section \<open>Transfers of the panel\<close>

text \<open>
  C16. At most one transfer runs, whatever is clicked: a transfer is running exactly while the panel is busy,
  it holds the token the Stop button cancels, and a transfer just started has a token that was never cancelled.
\<close>

theorem one_transfer_at_a_time:
  assumes "g = run_panel evs (live_gui_start save_path h)"
  shows "length (live_workers g) = (if live_done g then 0 else 1) \<and>
    (\<forall>w \<in> set (live_workers g). wk_cancel w = live_cancel g) \<and>
    (live_done g \<longrightarrow> stored_peers E g \<noteq> [] \<longrightarrow> lv_selected_peer g \<noteq> [] \<longrightarrow>
      (\<exists>w. live_workers (live_step E ClickTransfer g) = [w] \<and> wk_peer w = lv_selected_peer g \<and> wk_role w = lv_role g \<and>
        wk_cancel w \<notin> set (cancelled_tokens (live_step E ClickTransfer g))))"
proof -
  have "workers_inv (live_gui_start save_path h)" by (simp add: workers_inv_def live_gui_start_def)
  then have i: "workers_inv g" unfolding assms by (rule run_panel_inv) (rule live_step_workers)
  then have "Suc (live_cancel g) \<notin> set (cancelled_tokens g)" by (auto simp: workers_inv_def)
  with i show ?thesis
    by (auto simp: workers_inv_def live_step_def start_live_transfer_def split: if_splits)
qed

definition demo_peer_state :: LiveState where
  "demo_peer_state = LiveState_default\<lparr>peers := [LivePeer_new demo_live ''bob'' (demo_pair_ticket 2) []]\<rparr>"

theorem one_transfer_at_a_time_witness:
  "let g = run_panel [(demo_live_env, SelectPeer ''bob''), (demo_live_env, ClickTransfer)]
       (live_gui_start ''/s'' (demo_home_with demo_peer_state 1))
   in length (live_workers g) = 1"
proof -
  let ?g = "live_gui_start ''/s'' (demo_home_with demo_peer_state 1)"
  have p: "stored_peers demo_live_env g = peers demo_peer_state" if "live_home g = demo_home_with demo_peer_state 1" for g
    using demo_home_kept [of demo_peer_state 1] that by (simp add: stored_peers_def kept_def demo_live_env_def)
  have b: "list_ex (\<lambda>p. lp_nickname p = ''bob'') (peers demo_peer_state)" "peers demo_peer_state \<noteq> []"
    by (simp_all add: demo_peer_state_def LivePeer_new_def)
  have h: "live_home ?g = demo_home_with demo_peer_state 1" by (simp add: live_gui_start_def)
  have "run_panel [(demo_live_env, SelectPeer ''bob''), (demo_live_env, ClickTransfer)] ?g =
      start_live_transfer (?g\<lparr>lv_selected_peer := ''bob''\<rparr>)"
    using b p [OF h] p [of "?g\<lparr>lv_selected_peer := ''bob''\<rparr>"] h by (simp add: live_step_def) (simp add: live_gui_start_def)
  moreover have "\<not> live_done (start_live_transfer (?g\<lparr>lv_selected_peer := ''bob''\<rparr>))" by (simp add: start_live_transfer_def Let_def)
  ultimately show ?thesis
    using one_transfer_at_a_time [OF refl, of "[(demo_live_env, SelectPeer ''bob''), (demo_live_env, ClickTransfer)]" "''/s''"
        "demo_home_with demo_peer_state 1"]
    by (simp del: run_panel_simps)
qed

section \<open>Requests of friends\<close>

text \<open>
  C17. Every request of a friend to send a vault gets exactly one end. In any run of the window in which no two
  requests share a channel, each request that was made is either waiting, on screen, or ended, and never two of
  these. An end is explained by the event that made it: an acceptance by a press of Accept, and a refusal by a press of
  Reject, while the dialog for that very request was on screen, with the label and path it then held; a request that
  was dropped, which its sender sees as a refusal, by a frame that found another request behind it, whose dialog
  replaced it without asking. What is written follows: when the stream of a request changes a file, a vault that the
  address book has for this friend goes to its known path, without a question, and any other only to the path of the
  dialog in which the user accepted this request.
\<close>

theorem each_request_has_one_end:
  assumes "g = run_p2p evs (p2p_start h0 fs0)" "\<not> p2p_exit g" "distinct (map (snd \<circ> snd) (asks evs))"
  shows "distinct (pending_channels (incoming_events g) (incoming_sync g)) \<and>
    set (pending_channels (incoming_events g) (incoming_sync g)) \<inter> dom (channel_ends g) = {} \<and>
    set (pending_channels (incoming_events g) (incoming_sync g)) \<union> dom (channel_ends g) = (snd \<circ> snd) ` set (asks evs) \<and>
    (\<forall>c q. channel_ends g c = Some q \<longrightarrow>
       (\<exists>before E ev after. evs = before @ (E, ev) # after \<and> ended_by E ev (run_p2p before (p2p_start h0 fs0)) c q)) \<and>
    (\<forall>c q C J nick rio r input h d h' d' m p fs.
       channel_ends g c = Some q \<longrightarrow> load_friends C J h = Inr fs \<longrightarrow>
       daemon_stream C J nick (awaited_response q) rio r input h d = Inr (h', d', m) \<longrightarrow> d' p \<noteq> d p \<longrightarrow>
       (\<exists>l rest fn md. read_line input = Some (l, rest) \<and> msg_from_json J l = Some (Proposal fn md) \<and>
          (case known_vault nick fn fs of
             Some v \<Rightarrow> p = local_path v
           | None \<Rightarrow>
               \<exists>before E after st. evs = before @ (E, ClickAccept) # after \<and>
                 incoming_sync (run_p2p before (p2p_start h0 fs0)) = Some st \<and> response_channel st = c \<and>
                 ((nick, fn, c) \<in> set (asks evs) \<longrightarrow> sender_nick st = nick \<and> in_filename st = fn) \<and>
                 p = resolve_save_path (pe_home_dir E) (in_save_path st) (sender_nick st) (in_filename st))))"
proof -
  have i: "p2p_inv (asks evs) g" unfolding assms(1) by (rule run_p2p_inv) (use assms in simp_all)
  note ends = run_p2p_ends [OF assms(3) assms(2) [unfolded assms(1)], folded assms(1)]
  have w: "\<exists>l rest fn md. read_line input = Some (l, rest) \<and> msg_from_json J l = Some (Proposal fn md) \<and>
      (case known_vault nick fn fs of
         Some v \<Rightarrow> p = local_path v
       | None \<Rightarrow>
           \<exists>before E after st. evs = before @ (E, ClickAccept) # after \<and>
             incoming_sync (run_p2p before (p2p_start h0 fs0)) = Some st \<and> response_channel st = c \<and>
             ((nick, fn, c) \<in> set (asks evs) \<longrightarrow> sender_nick st = nick \<and> in_filename st = fn) \<and>
             p = resolve_save_path (pe_home_dir E) (in_save_path st) (sender_nick st) (in_filename st))"
    if q: "channel_ends g c = Some q" and f: "load_friends C J h = Inr fs"
      and s: "daemon_stream C J nick (awaited_response q) rio r input h d = Inr (h', d', m)" "d' p \<noteq> d p"
    for c q C J nick rio r input h d h' d' m p fs
  proof -
    from daemon_stream_writes [OF s] f obtain l rest fn md book where
      dp: "read_line input = Some (l, rest)" "msg_from_json J l = Some (Proposal fn md)"
        "decide_proposal nick fn md (awaited_response q) fs = ((True, p), book)" by auto
    show ?thesis
    proof (cases "known_vault nick fn fs")
      case (Some v)
      with dp show ?thesis by (intro exI [of _ l] exI [of _ rest] exI [of _ fn] exI [of _ md]) (simp add: decide_proposal_def)
    next
      case None
      with dp(3) have a: "resp_accepted (awaited_response q)" "p = (case resp_path (awaited_response q) of None \<Rightarrow> [] | Some path \<Rightarrow> path)"
        by (auto simp: decide_proposal_def Let_def split: if_splits)
      then obtain resp where resp: "q = Answered resp" "resp_accepted resp" by (cases q) (simp_all add: refused_def)
      from ends [OF q] obtain before E ev after where e: "evs = before @ (E, ev) # after"
        "p2p_inv (asks before) (run_p2p before (p2p_start h0 fs0))" "ended_by E ev (run_p2p before (p2p_start h0 fs0)) c q" by blast
      from e(3) resp obtain st where st: "incoming_sync (run_p2p before (p2p_start h0 fs0)) = Some st" "response_channel st = c"
        "ev = ClickAccept" "resp = accept_response E st" by (auto simp: refused_def)
      have p: "p = resolve_save_path (pe_home_dir E) (in_save_path st) (sender_nick st) (in_filename st)"
        using a(2) resp(1) st(4) by (simp add: accept_response_def)
      have "(sender_nick st, in_filename st, c) \<in> set (asks evs)"
        using e(1,2) st(1,2) by (auto simp: p2p_inv_def chan_inv_def asks_append)
      then have "(nick, fn, c) \<in> set (asks evs) \<Longrightarrow> sender_nick st = nick \<and> in_filename st = fn"
        using assms(3) inj_onD [of "snd \<circ> snd" "set (asks evs)" "(sender_nick st, in_filename st, c)" "(nick, fn, c)"]
        by (auto simp: distinct_map)
      with e(1) st p dp(1,2) None show ?thesis
        by (intro exI [of _ l] exI [of _ rest] exI [of _ fn] exI [of _ md]) auto
    qed
  qed
  have e: "\<exists>before E ev after. evs = before @ (E, ev) # after \<and> ended_by E ev (run_p2p before (p2p_start h0 fs0)) c q"
    if "channel_ends g c = Some q" for c q using ends [OF that] by blast
  have a: "distinct (pending_channels (incoming_events g) (incoming_sync g))"
    "set (pending_channels (incoming_events g) (incoming_sync g)) \<inter> dom (channel_ends g) = {}"
    "set (pending_channels (incoming_events g) (incoming_sync g)) \<union> dom (channel_ends g) = (snd \<circ> snd) ` set (asks evs)"
    using i by (simp_all add: p2p_inv_def chan_inv_def)
  show ?thesis by (intro conjI allI impI) (rule a e w; assumption)+
qed

definition demo_p2p_env :: p2p_env where
  "demo_p2p_env = \<lparr>pe_config = demo_crypto, pe_keys = demo_keys, pe_ed = demo_ed, pe_json = demo_json, pe_home_dir = Some ''/u'',
     pe_now = 0, pe_rand = (\<lambda>_. 0), pe_vault_path = ''/v''\<rparr>"

theorem each_request_has_one_end_witness:
  "let evs = [(demo_p2p_env, DaemonAsks ''alice'' ''a'' 0), (demo_p2p_env, DaemonAsks ''bob'' ''b'' 1), (demo_p2p_env, P2PFrame),
         (demo_p2p_env, EditDialog ''mine'' ''/w/b''), (demo_p2p_env, ClickAccept)];
       g = run_p2p evs (p2p_start demo_home [])
   in channel_ends g 0 = Some Dropped \<and>
      channel_ends g 1 = Some (Answered \<lparr>resp_accepted = True, resp_label = Some ''mine'', resp_path = Some ''/w/b''\<rparr>) \<and>
      set (pending_channels (incoming_events g) (incoming_sync g)) \<union> dom (channel_ends g) = {0, 1} \<and>
      (\<exists>before E ev after. evs = before @ (E, ev) # after \<and> ended_by E ev (run_p2p before (p2p_start demo_home [])) 0 Dropped)"
proof -
  let ?evs = "[(demo_p2p_env, DaemonAsks ''alice'' ''a'' 0), (demo_p2p_env, DaemonAsks ''bob'' ''b'' 1), (demo_p2p_env, P2PFrame),
         (demo_p2p_env, EditDialog ''mine'' ''/w/b''), (demo_p2p_env, ClickAccept)]"
  define g where "g = run_p2p ?evs (p2p_start demo_home [])"
  have e: "channel_ends g = [0 \<mapsto> Dropped, 1 \<mapsto> Answered \<lparr>resp_accepted = True, resp_label = Some ''mine'', resp_path = Some ''/w/b''\<rparr>]"
    "\<not> p2p_exit g"
    by (simp_all add: g_def run_p2p_def p2p_step_def p2p_start_def poll_daemon_events_def drop_channel_def refresh_friends_def
        edit_dialog_def accept_dialog_def answer_dialog_def accept_response_def resolve_save_path_def)
  have d: "distinct (map (snd \<circ> snd) (asks ?evs))" by simp
  have "set (pending_channels (incoming_events g) (incoming_sync g)) \<union> dom (channel_ends g) = (snd \<circ> snd) ` set (asks ?evs)"
    using each_request_has_one_end [OF g_def e(2) d] by blast
  moreover have "\<exists>before E ev after. ?evs = before @ (E, ev) # after \<and> ended_by E ev (run_p2p before (p2p_start demo_home [])) 0 Dropped"
  proof -
    have "channel_ends g 0 = Some Dropped" using e(1) by simp
    then show ?thesis using each_request_has_one_end [OF g_def e(2) d] by blast
  qed
  moreover have "(snd \<circ> snd) ` set (asks ?evs) = {0, 1}" by auto
  ultimately show ?thesis using e(1) unfolding Let_def g_def [symmetric] by simp
qed

end
