(* ===== verification/DaemonRun.thy ===== *)
theory DaemonRun
  imports GuiSync
begin

text \<open>
  The daemon as it runs (\<open>handle_daemon\<close> in \<open>atom/src/commands/daemon.rs\<close>): the accept loop admits
  connections one after the other, and each admitted connection is served by a task of its own. A task
  stops to ask the user between reading the address book and saving it, so other tasks and other
  commands run in between; the events are the points where one of them runs.
\<close>

section \<open>State\<close>

text \<open>A task that waits for the user holds the proposal and the book it read.\<close>

record asking =
  ask_nick :: string
  ask_file :: string
  ask_modified :: u64
  ask_book :: "FriendRecord list"
  ask_payload :: bytes

record daemon =
  dm_home :: Friends.Home
  dm_disk :: "string \<rightharpoonup> bytes"
  dm_admitted :: "string list"
  dm_asking :: "asking list"
  dm_stopped :: bool

record daemon_env =
  da_config :: crypto_lib
  da_keys :: key_lib
  da_noise :: noise_lib
  da_ed :: ed_lib
  da_json :: json_lib
  da_identity :: bytes

definition exits :: "string \<Rightarrow> bool" where
  "exits e \<longleftrightarrow> strip_prefix ''exit: '' e \<noteq> None"

definition remove_nth :: "nat \<Rightarrow> 'a list \<Rightarrow> 'a list" where
  "remove_nth i xs = take i xs @ drop (Suc i) xs"

section \<open>Steps\<close>

text \<open>A panic ends the accept loop, but only the task it happens in elsewhere; an exit ends everything.\<close>

definition admit_step :: "daemon_env \<Rightarrow> Pipe \<Rightarrow> rng \<Rightarrow> daemon \<Rightarrow> daemon" where
  "admit_step D w g d =
     (case admit_peer (da_config D) (da_keys D) (da_noise D) (da_ed D) (da_json D) (da_identity D) g (dm_home d) w of
        Inl e \<Rightarrow> if fatal e then d\<lparr>dm_stopped := True\<rparr> else d
      | Inr (nick, _, _) \<Rightarrow> d\<lparr>dm_admitted := dm_admitted d @ [nick]\<rparr>)"

definition first_line :: "json_lib \<Rightarrow> bytes \<Rightarrow> (ShareMessage \<times> bytes) option" where
  "first_line J input = Option.bind (read_line input) (\<lambda>(l, rest). map_option (\<lambda>m. (m, rest)) (msg_from_json J l))"

definition stream_step :: "daemon_env \<Rightarrow> nat \<Rightarrow> bytes \<Rightarrow> ReceiveIO \<Rightarrow> daemon \<Rightarrow> daemon" where
  "stream_step D i input rio d0 =
     (if length (dm_admitted d0) \<le> i then d0
      else let nick = dm_admitted d0 ! i; d = d0\<lparr>dm_admitted := remove_nth i (dm_admitted d0)\<rparr> in
      case first_line (da_json D) input of
        Some (Proposal filename modified, payload) \<Rightarrow>
          (case load_friends (da_config D) (da_json D) (dm_home d) of
             Inl e \<Rightarrow> if exits e then d\<lparr>dm_stopped := True\<rparr> else d
           | Inr fs \<Rightarrow>
               (case known_vault nick filename fs of
                  Some v \<Rightarrow> d\<lparr>dm_disk := fst (receive_vault rio True (local_path v) payload (dm_disk d))\<rparr>
                | None \<Rightarrow>
                    d\<lparr>dm_asking := dm_asking d @ [\<lparr>ask_nick = nick, ask_file = filename, ask_modified = modified,
                        ask_book = fs, ask_payload = payload\<rparr>]\<rparr>))
      | _ \<Rightarrow> d)"

definition answer_step :: "daemon_env \<Rightarrow> nat \<Rightarrow> SyncResponse \<Rightarrow> ReceiveIO \<Rightarrow> rng \<Rightarrow> daemon \<Rightarrow> daemon" where
  "answer_step D i user rio g d0 =
     (if length (dm_asking d0) \<le> i then d0
      else let a = dm_asking d0 ! i; d = d0\<lparr>dm_asking := remove_nth i (dm_asking d0)\<rparr>;
               ((acc, path), book) = decide_proposal (ask_nick a) (ask_file a) (ask_modified a) user (ask_book a) in
      case (case book of None \<Rightarrow> Inr (dm_home d) | Some fs' \<Rightarrow> save_friends (da_config D) (da_json D) fs' g (dm_home d)) of
        Inl e \<Rightarrow> if exits e then d\<lparr>dm_stopped := True\<rparr> else d
      | Inr h \<Rightarrow> d\<lparr>dm_home := h, dm_disk := fst (receive_vault rio acc path (ask_payload a) (dm_disk d))\<rparr>)"

text \<open>Another command of the same user changes the book meanwhile.\<close>

definition friend_step :: "daemon_env \<Rightarrow> string \<Rightarrow> string \<Rightarrow> rng \<Rightarrow> daemon \<Rightarrow> daemon" where
  "friend_step D u nick g d =
     (case add_friend_core (da_config D) (da_keys D) (da_ed D) (da_json D) u nick g (dm_home d) of
        Inl _ \<Rightarrow> d
      | Inr h \<Rightarrow> d\<lparr>dm_home := h\<rparr>)"

datatype daemon_event =
    Dials Pipe rng
  | Streams nat bytes ReceiveIO
  | UserAnswers nat SyncResponse ReceiveIO rng
  | AddsFriend string string rng

definition daemon_step :: "daemon_env \<Rightarrow> daemon_event \<Rightarrow> daemon \<Rightarrow> daemon" where
  "daemon_step D ev d =
     (if dm_stopped d then d else
      case ev of
        Dials w g \<Rightarrow> admit_step D w g d
      | Streams i input rio \<Rightarrow> stream_step D i input rio d
      | UserAnswers i user rio g \<Rightarrow> answer_step D i user rio g d
      | AddsFriend u nick g \<Rightarrow> friend_step D u nick g d)"

definition run_daemon :: "daemon_env \<Rightarrow> daemon_event list \<Rightarrow> daemon \<Rightarrow> daemon" where
  "run_daemon D evs d = fold (daemon_step D) evs d"

text \<open>
  \<open>handle_daemon\<close> up to its loop: the identity, the onion service, and the published link. The Tor
  client with its directories either fails, or does not come up, which is only logged, or runs.
\<close>

definition daemon_start ::
    "daemon_env \<Rightarrow> (bytes \<Rightarrow> bytes) \<Rightarrow> bytes \<Rightarrow> string + bool \<Rightarrow> rng \<Rightarrow> (string \<rightharpoonup> bytes) \<Rightarrow> Friends.Home \<Rightarrow> string + (daemon_env \<times> daemon)" where
  "daemon_start D sha3 onion_key tor g files h0 =
     bindE (get_or_create_identity (da_config D) g h0) (\<lambda>(my_identity, h1).
     let D' = D\<lparr>da_identity := my_identity\<rparr>;
         idle = \<lparr>dm_home = h1, dm_disk = files, dm_admitted = [], dm_asking = [], dm_stopped = True\<rparr> in
     bindE tor (\<lambda>tor_ok. if \<not> tor_ok then Inr (D', idle)
     else bindE (publish_link (da_config D) (daemon_link (da_keys D) sha3 onion_key (ed_pub (da_ed D) my_identity)) g h1) (\<lambda>h2.
       Inr (D', idle\<lparr>dm_home := h2, dm_stopped := False\<rparr>))))"

lemma run_daemon_simps [simp]:
  "run_daemon D [] d = d" "run_daemon D (ev # evs) d = run_daemon D evs (daemon_step D ev d)"
  by (simp_all add: run_daemon_def)

lemma run_daemon_snoc: "run_daemon D (evs @ [ev]) d = daemon_step D ev (run_daemon D evs d)"
  by (simp add: run_daemon_def)

section \<open>What is written\<close>

text \<open>
  \<open>writes D d ev nick filename payload p\<close>: at \<open>d\<close> the event lets the vault \<open>filename\<close> that \<open>nick\<close> proposed be
  written at \<open>p\<close>. Either the connection of \<open>nick\<close> proposes it and the book has it under this friend with this path, or
  the user accepts the question about it with this path, which was asked because the book did not have it.
\<close>

fun writes :: "daemon_env \<Rightarrow> daemon \<Rightarrow> daemon_event \<Rightarrow> string \<Rightarrow> string \<Rightarrow> bytes \<Rightarrow> string \<Rightarrow> bool" where
  "writes D d (Streams i input rio) nick filename payload p \<longleftrightarrow>
     i < length (dm_admitted d) \<and> dm_admitted d ! i = nick \<and>
     (\<exists>m fs v. first_line (da_json D) input = Some (Proposal filename m, payload) \<and>
        load_friends (da_config D) (da_json D) (dm_home d) = Inr fs \<and> known_vault nick filename fs = Some v \<and> local_path v = p)"
| "writes D d (UserAnswers i user rio g) nick filename payload p \<longleftrightarrow>
     i < length (dm_asking d) \<and> resp_accepted user \<and> unwrap_or [] (resp_path user) = p \<and>
     (\<exists>a. dm_asking d ! i = a \<and> ask_nick a = nick \<and> ask_file a = filename \<and> ask_payload a = payload \<and>
        known_vault nick filename (ask_book a) = None)"
| "writes D d _ nick filename payload p \<longleftrightarrow> False"

text \<open>A connection of \<open>nick\<close> proposed the vault during \<open>evs\<close>.\<close>

definition proposed :: "daemon_env \<Rightarrow> daemon_event list \<Rightarrow> daemon \<Rightarrow> string \<Rightarrow> string \<Rightarrow> bytes \<Rightarrow> bool" where
  "proposed D evs d nick filename payload \<longleftrightarrow>
     (\<exists>xs i input rio ys m. evs = xs @ Streams i input rio # ys \<and> i < length (dm_admitted (run_daemon D xs d)) \<and>
        dm_admitted (run_daemon D xs d) ! i = nick \<and> first_line (da_json D) input = Some (Proposal filename m, payload))"

lemma proposed_later: "proposed D evs d nick filename payload \<Longrightarrow> proposed D (evs @ [ev]) d nick filename payload"
  unfolding proposed_def by (metis append_Cons append_assoc)

text \<open>The tasks that wait ask about proposals that were made, of vaults that were not in the book when they read it.\<close>

definition asks_new :: "daemon_env \<Rightarrow> daemon_event list \<Rightarrow> daemon \<Rightarrow> asking \<Rightarrow> bool" where
  "asks_new D evs d a \<longleftrightarrow>
     known_vault (ask_nick a) (ask_file a) (ask_book a) = None \<and> proposed D evs d (ask_nick a) (ask_file a) (ask_payload a)"

lemma set_remove_nth: "set (remove_nth i xs) \<subseteq> set xs"
  by (auto simp: remove_nth_def dest: in_set_takeD in_set_dropD)

lemma receive_changes:
  assumes "fst (receive_vault rio acc path payload d) p \<noteq> d p"
  shows "acc" "p = path" "\<exists>n. fst (receive_vault rio acc path payload d) p = Some (take n payload)"
proof -
  show "acc" "p = path" using assms receive_vault_writes [of rio acc path payload d] by (metis prod.collapse)+
  with assms show "\<exists>n. fst (receive_vault rio acc path payload d) p = Some (take n payload)"
    by (auto simp: receive_vault_def split: if_splits option.splits intro: exI [of _ "length payload"])
qed

lemma stream_step_asks:
  assumes "a \<in> set (dm_asking (stream_step D i input rio d))" "a \<notin> set (dm_asking d)"
  shows "i < length (dm_admitted d) \<and> dm_admitted d ! i = ask_nick a \<and>
    first_line (da_json D) input = Some (Proposal (ask_file a) (ask_modified a), ask_payload a) \<and>
    known_vault (ask_nick a) (ask_file a) (ask_book a) = None"
  using assms
  by (auto simp: stream_step_def Let_def split: if_splits option.splits ShareMessage.splits sum.splits)

lemma answer_step_asks: "set (dm_asking (answer_step D i user rio g d)) \<subseteq> set (dm_asking d)"
  using set_remove_nth [of i "dm_asking d"]
  by (auto simp: answer_step_def Let_def split: prod.splits option.splits sum.splits)

lemma run_asks_new:
  assumes "dm_asking d = []"
  shows "a \<in> set (dm_asking (run_daemon D evs d)) \<Longrightarrow> asks_new D evs d a"
proof (induction evs arbitrary: a rule: rev_induct)
  case (snoc ev evs)
  let ?d = "run_daemon D evs d"
  show ?case
  proof (cases "a \<in> set (dm_asking ?d)")
    case True
    with snoc.IH show ?thesis unfolding asks_new_def by (blast intro: proposed_later)
  next
    case False
    have a: "a \<in> set (dm_asking (daemon_step D ev ?d))" using snoc.prems by (simp add: run_daemon_snoc)
    obtain i input rio where ev: "ev = Streams i input rio" "a \<in> set (dm_asking (stream_step D i input rio ?d))"
    proof (cases ev)
      case (Streams i input rio)
      with a False that show ?thesis by (auto simp: daemon_step_def split: if_splits)
    next
      case (UserAnswers i user rio g)
      with a False answer_step_asks [of D i user rio g ?d] show ?thesis by (auto simp: daemon_step_def split: if_splits)
    qed (use a False in \<open>auto simp: daemon_step_def admit_step_def friend_step_def split: if_splits sum.splits prod.splits\<close>)
    from stream_step_asks [OF ev(2) False] ev(1) show ?thesis
      unfolding asks_new_def proposed_def by (metis append_Nil2 append.assoc append_Cons append_Nil)
  qed
qed (use assms in simp)

lemma daemon_step_writes:
  assumes "\<And>a. a \<in> set (dm_asking d) \<Longrightarrow> known_vault (ask_nick a) (ask_file a) (ask_book a) = None"
    "dm_disk (daemon_step D ev d) p \<noteq> dm_disk d p"
  shows "\<exists>nick filename payload n. writes D d ev nick filename payload p \<and> dm_disk (daemon_step D ev d) p = Some (take n payload)"
proof (cases ev)
  case (Streams i input rio)
  with assms(2) have s: "dm_disk (stream_step D i input rio d) p \<noteq> dm_disk d p"
    "daemon_step D ev d = stream_step D i input rio d" by (auto simp: daemon_step_def split: if_splits)
  then obtain filename m payload fs v where st: "i < length (dm_admitted d)"
    "first_line (da_json D) input = Some (Proposal filename m, payload)" "load_friends (da_config D) (da_json D) (dm_home d) = Inr fs"
    "known_vault (dm_admitted d ! i) filename fs = Some v"
    "dm_disk (stream_step D i input rio d) = fst (receive_vault rio True (local_path v) payload (dm_disk d))"
    by (auto simp: stream_step_def Let_def split: if_splits option.splits ShareMessage.splits sum.splits)
  with receive_changes(2,3) [of rio True "local_path v" payload "dm_disk d" p] s show ?thesis
    by (intro exI [of _ "dm_admitted d ! i"] exI [of _ filename] exI [of _ payload]) (auto simp: Streams)
next
  case (UserAnswers i user rio g)
  with assms(2) have s: "dm_disk (answer_step D i user rio g d) p \<noteq> dm_disk d p"
    "daemon_step D ev d = answer_step D i user rio g d" by (auto simp: daemon_step_def split: if_splits)
  then have i: "i < length (dm_asking d)" by (auto simp: answer_step_def split: if_splits)
  let ?a = "dm_asking d ! i"
  obtain acc path book where dp: "decide_proposal (ask_nick ?a) (ask_file ?a) (ask_modified ?a) user (ask_book ?a) = ((acc, path), book)"
    by (metis prod.collapse)
  have r: "dm_disk (answer_step D i user rio g d) = fst (receive_vault rio acc path (ask_payload ?a) (dm_disk d))"
    using s(1) i by (auto simp: answer_step_def dp Let_def split: if_splits sum.splits)
  note c = receive_changes [of rio acc path "ask_payload ?a" "dm_disk d" p, folded r, OF s(1)]
  have new: "known_vault (ask_nick ?a) (ask_file ?a) (ask_book ?a) = None" using assms(1) i by simp
  then have "resp_accepted user \<and> unwrap_or [] (resp_path user) = p"
    using dp c(1,2) by (auto simp: decide_proposal_def unwrap_or_def Let_def split: if_splits option.splits)
  with UserAnswers i new c(3) s(2) show ?thesis
    by (intro exI [of _ "ask_nick ?a"] exI [of _ "ask_file ?a"] exI [of _ "ask_payload ?a"]) auto
qed (use assms(2) in \<open>auto simp: daemon_step_def admit_step_def friend_step_def split: if_splits sum.splits prod.splits\<close>)

lemma writes_proposed:
  assumes "dm_asking d = []" "writes D (run_daemon D before d) ev nick filename payload p"
  shows "proposed D (before @ [ev]) d nick filename payload"
proof (cases ev)
  case (Streams i input rio)
  with assms(2) show ?thesis unfolding proposed_def by (intro exI [of _ before] exI [of _ i]) auto
next
  case (UserAnswers i user rio g)
  with assms(2) run_asks_new [OF assms(1), of "dm_asking (run_daemon D before d) ! i" D before] show ?thesis
    by (auto simp: asks_new_def intro: proposed_later)
qed (use assms(2) in simp_all)

lemma run_daemon_writes:
  assumes "dm_asking d = []" "dm_disk (run_daemon D evs d) p \<noteq> dm_disk d p"
  shows "\<exists>before ev after nick filename payload n. evs = before @ ev # after \<and>
    writes D (run_daemon D before d) ev nick filename payload p \<and> dm_disk (run_daemon D evs d) p = Some (take n payload)"
  using assms(2)
proof (induction evs rule: rev_induct)
  case (snoc ev evs)
  let ?d = "run_daemon D evs d"
  show ?case
  proof (cases "dm_disk (daemon_step D ev ?d) p = dm_disk ?d p")
    case True
    with snoc.prems have "dm_disk ?d p \<noteq> dm_disk d p" by (simp add: run_daemon_snoc)
    from snoc.IH [OF this] obtain before e after nick filename payload n where
      w: "evs = before @ e # after" "writes D (run_daemon D before d) e nick filename payload p" "dm_disk ?d p = Some (take n payload)"
      by blast
    have "dm_disk (run_daemon D (evs @ [ev]) d) p = Some (take n payload)" using True w(3) by (simp only: run_daemon_snoc)
    moreover have "evs @ [ev] = before @ e # (after @ [ev])" using w(1) by simp
    ultimately show ?thesis using w(2) by blast
  next
    case False
    have "known_vault (ask_nick a) (ask_file a) (ask_book a) = None" if "a \<in> set (dm_asking ?d)" for a
      using run_asks_new [OF assms(1) that] by (simp add: asks_new_def)
    from daemon_step_writes [OF this False] obtain nick filename payload n where
      w: "writes D ?d ev nick filename payload p" "dm_disk (daemon_step D ev ?d) p = Some (take n payload)" by blast
    have "evs @ [ev] = evs @ ev # []" by simp
    with w show ?thesis unfolding run_daemon_snoc by blast
  qed
qed simp

end
