(* ===== verification/DaemonTheorems.thy ===== *)
theory DaemonTheorems
  imports DaemonRun SyncTheorems
begin

text \<open>
  The properties of the running daemon: what it writes in any interleaving of its tasks, that a task
  left undisturbed does what the description of one stream says, and what a slow answer does to the
  address book.
\<close>

section \<open>A daemon with one connection\<close>

definition demo_daemon_env :: daemon_env where
  "demo_daemon_env = \<lparr>da_config = demo_crypto, da_keys = demo_keys32, da_noise = demo_noise, da_ed = demo_ed, da_json = demo_json,
     da_identity = [3]\<rparr>"

definition demo_daemon :: daemon where
  "demo_daemon = \<lparr>dm_home = demo_home, dm_disk = Map.empty, dm_admitted = [''alice''], dm_asking = [], dm_stopped = False\<rparr>"

definition demo_proposal :: bytes where
  "demo_proposal = share_stream demo_json ''my.vault'' 7 [1, 2, 3] (msg_to_json demo_json (Accept ''pull_from_you'') @ [CHR 0x0A])"

definition demo_user :: SyncResponse where
  "demo_user = \<lparr>resp_accepted = True, resp_label = None, resp_path = Some ''/w/v''\<rparr>"

definition demo_rio :: ReceiveIO where
  "demo_rio = \<lparr>reply_ok = True, create_ok = True, copy_cut = None\<rparr>"

lemma demo_first: "first_line demo_json demo_proposal = Some (Proposal ''my.vault'' 7, [1, 2, 3])"
proof -
  let ?m = "Proposal ''my.vault'' 7"
  have "read_line (str_bytes (msg_to_json demo_json ?m @ [CHR 0x0A]) @ [1, 2, 3]) = Some (msg_to_json demo_json ?m @ [CHR 0x0A], [1, 2, 3])"
    using demo_json_ok by (intro read_line_first) (simp_all add: json_ok_def)
  moreover have "msg_from_json demo_json (msg_to_json demo_json m @ [CHR 0x0A]) = Some m" for m
    using demo_json_ok by (simp add: json_ok_def)
  ultimately show ?thesis by (simp add: first_line_def demo_proposal_def share_stream_def)
qed

lemma demo_book: "load_friends demo_crypto demo_json demo_home = Inr []"
  by (simp add: load_friends_def load_json_def demo_home_def)

lemma demo_decides: "decide_proposal nick ''my.vault'' 7 demo_user [] = ((True, ''/w/v''), Some [])"
  by (simp add: decide_proposal_def known_vault_def demo_user_def Let_def)

lemma demo_saves_book: "\<exists>h. save_friends demo_crypto demo_json fs g (demo_home\<lparr>friends_json := x\<rparr>) = Inr h"
proof -
  obtain data g' where "encrypt_config demo_crypto (Some (replicate 32 0)) (str_bytes (friends_to_json demo_json fs)) g = Inr (data, g')"
    using sync_demo_encrypt by fastforce
  then show ?thesis by (simp add: save_friends_def save_json_def demo_home_def)
qed

lemma demo_share_run:
  "\<exists>h. daemon_stream demo_crypto demo_json ''alice'' demo_user demo_rio (\<lambda>_. 0) demo_proposal demo_home Map.empty =
     Inr (h, [''/w/v'' \<mapsto> [1, 2, 3]], Some (Accept ''pull_from_you''))"
proof -
  obtain h where "save_friends demo_crypto demo_json [] (\<lambda>_. 0) demo_home = Inr h"
    using demo_saves_book [of "[]" _ None] by (auto simp: demo_home_def)
  moreover have "msg_from_json demo_json (msg_to_json demo_json (Accept ''pull_from_you'') @ [CHR 0x0A]) = Some (Accept ''pull_from_you'')"
    using demo_json_ok by (simp add: json_ok_def)
  ultimately show ?thesis unfolding demo_proposal_def
    by (intro exI [of _ h] daemon_receives [OF demo_json_ok demo_book demo_decides]) (simp_all add: demo_rio_def)
qed

section \<open>Interleaved tasks\<close>

text \<open>
  C39. In any interleaving of connections, proposals, answers and changes of the address book, the daemon
  writes a file only by agreement with the friend it comes from. Whenever a file differs from what it was at the
  start, it holds the beginning of the payload of a proposal that an admitted connection made, and the event that wrote it
  is one of two: that connection's own stream, when the address book of that moment keeps the proposed vault of
  this very friend at this path; or the user's answer to the question about this very proposal, a vault that the book
  the task had read did not list under this friend, accepting it with this path.
\<close>

theorem daemon_writes_by_agreement:
  assumes "dm_asking d = []" "dm_disk (run_daemon D evs d) p \<noteq> dm_disk d p"
  shows "\<exists>before ev after nick filename payload n. evs = before @ ev # after \<and>
    dm_disk (run_daemon D evs d) p = Some (take n payload) \<and> proposed D (before @ [ev]) d nick filename payload \<and>
    ((\<exists>i input rio m fs v. ev = Streams i input rio \<and>
        i < length (dm_admitted (run_daemon D before d)) \<and> dm_admitted (run_daemon D before d) ! i = nick \<and>
        first_line (da_json D) input = Some (Proposal filename m, payload) \<and>
        load_friends (da_config D) (da_json D) (dm_home (run_daemon D before d)) = Inr fs \<and>
        known_vault nick filename fs = Some v \<and> local_path v = p) \<or>
     (\<exists>i user rio g a. ev = UserAnswers i user rio g \<and>
        i < length (dm_asking (run_daemon D before d)) \<and> dm_asking (run_daemon D before d) ! i = a \<and>
        ask_nick a = nick \<and> ask_file a = filename \<and> ask_payload a = payload \<and> known_vault nick filename (ask_book a) = None \<and>
        resp_accepted user \<and> unwrap_or [] (resp_path user) = p))"
proof -
  from run_daemon_writes [OF assms] obtain before ev after nick filename payload n where
    w: "evs = before @ ev # after" "writes D (run_daemon D before d) ev nick filename payload p"
      "dm_disk (run_daemon D evs d) p = Some (take n payload)" by blast
  from w(2) have e: "(\<exists>i input rio m fs v. ev = Streams i input rio \<and>
        i < length (dm_admitted (run_daemon D before d)) \<and> dm_admitted (run_daemon D before d) ! i = nick \<and>
        first_line (da_json D) input = Some (Proposal filename m, payload) \<and>
        load_friends (da_config D) (da_json D) (dm_home (run_daemon D before d)) = Inr fs \<and>
        known_vault nick filename fs = Some v \<and> local_path v = p) \<or>
     (\<exists>i user rio g a. ev = UserAnswers i user rio g \<and>
        i < length (dm_asking (run_daemon D before d)) \<and> dm_asking (run_daemon D before d) ! i = a \<and>
        ask_nick a = nick \<and> ask_file a = filename \<and> ask_payload a = payload \<and> known_vault nick filename (ask_book a) = None \<and>
        resp_accepted user \<and> unwrap_or [] (resp_path user) = p)"
    by (cases ev) auto
  from w(1,3) writes_proposed [OF assms(1) w(2)] e show ?thesis
    by (intro exI [of _ before] exI [of _ ev] exI [of _ after] exI [of _ nick] exI [of _ filename] exI [of _ payload] exI [of _ n]) simp
qed

lemma demo_writes:
  "dm_disk (run_daemon demo_daemon_env [Streams 0 demo_proposal demo_rio, UserAnswers 0 demo_user demo_rio (\<lambda>_. 0)] demo_daemon) ''/w/v'' =
     Some [1, 2, 3]"
proof -
  obtain h where h: "save_friends demo_crypto demo_json [] (\<lambda>_. 0) demo_home = Inr h"
    using demo_saves_book [of "[]" _ None] by (auto simp: demo_home_def)
  have "daemon_step demo_daemon_env (Streams 0 demo_proposal demo_rio) demo_daemon = demo_daemon\<lparr>dm_admitted := [],
      dm_asking := [\<lparr>ask_nick = ''alice'', ask_file = ''my.vault'', ask_modified = 7, ask_book = [], ask_payload = [1, 2, 3]\<rparr>]\<rparr>"
    using demo_first demo_book
    by (simp add: daemon_step_def stream_step_def demo_daemon_def demo_daemon_env_def remove_nth_def known_vault_def)
  with h demo_decides show ?thesis
    by (simp add: daemon_step_def [of _ "UserAnswers _ _ _ _"] answer_step_def demo_daemon_def demo_daemon_env_def Let_def
        receive_vault_def demo_rio_def)
qed

theorem daemon_writes_by_agreement_witness:
  "\<exists>before ev after nick filename payload. [Streams 0 demo_proposal demo_rio, UserAnswers 0 demo_user demo_rio (\<lambda>_. 0)] = before @ ev # after \<and>
    proposed demo_daemon_env (before @ [ev]) demo_daemon nick filename payload \<and>
    (\<exists>n. take n payload = [1, 2, 3])"
proof -
  let ?evs = "[Streams 0 demo_proposal demo_rio, UserAnswers 0 demo_user demo_rio (\<lambda>_. 0)]"
  have "dm_asking demo_daemon = []" "dm_disk (run_daemon demo_daemon_env ?evs demo_daemon) ''/w/v'' \<noteq> dm_disk demo_daemon ''/w/v''"
    unfolding demo_writes by (simp_all add: demo_daemon_def)
  from daemon_writes_by_agreement [OF this] show ?thesis unfolding demo_writes by (metis option.inject)
qed

text \<open>
  A task nobody disturbs does what a single stream is described to do: reading the proposal of an admitted
  connection and answering it with nothing in between leaves the address book and the files exactly as
  \<open>daemon_stream\<close> leaves them.
\<close>

theorem undisturbed_task_is_one_stream:
  assumes "i < length (dm_admitted d)" "dm_asking d = []" "\<not> dm_stopped d"
    and "daemon_stream (da_config D) (da_json D) (dm_admitted d ! i) user rio g input (dm_home d) (dm_disk d) = Inr (h', d', r)"
  shows "dm_home (run_daemon D [Streams i input rio, UserAnswers 0 user rio g] d) = h' \<and>
    dm_disk (run_daemon D [Streams i input rio, UserAnswers 0 user rio g] d) = d'"
proof (cases "first_line (da_json D) input")
  case None
  with assms show ?thesis
    by (simp add: daemon_stream_def first_line_def [symmetric] daemon_step_def stream_step_def answer_step_def)
next
  case (Some x)
  obtain m payload where x: "x = (m, payload)" by fastforce
  show ?thesis
  proof (cases m)
    case (Proposal filename modified)
    let ?nick = "dm_admitted d ! i"
    note st = daemon_stream_def first_line_def [symmetric] Some x Proposal
    from assms(4) obtain fs where fs: "load_friends (da_config D) (da_json D) (dm_home d) = Inr fs"
      by (auto simp: st result_simps)
    show ?thesis
    proof (cases "known_vault ?nick filename fs")
      case None
      obtain acc path book where dp: "decide_proposal ?nick filename modified user fs = ((acc, path), book)" by (metis prod.collapse)
      from assms(4) obtain h where h: "(case book of None \<Rightarrow> Inr (dm_home d)
          | Some fs' \<Rightarrow> save_friends (da_config D) (da_json D) fs' g (dm_home d)) = Inr h"
        and r: "h' = h" "d' = fst (receive_vault rio acc path payload (dm_disk d))"
        by (auto simp: st fs dp result_simps)
      have d1: "daemon_step D (Streams i input rio) d = d\<lparr>dm_admitted := remove_nth i (dm_admitted d), dm_asking := [\<lparr>ask_nick = ?nick,
          ask_file = filename, ask_modified = modified, ask_book = fs, ask_payload = payload\<rparr>]\<rparr>"
        using assms(1-3) None fs by (simp add: daemon_step_def stream_step_def Some x Proposal Let_def)
      show ?thesis unfolding run_daemon_simps d1 using assms(3) h r
        by (cases book) (simp_all add: dp daemon_step_def answer_step_def Let_def)
    next
      case (Some v)
      then have "decide_proposal ?nick filename modified user fs = ((True, local_path v), None)" by (simp add: decide_proposal_def)
      with assms fs Some show ?thesis
        by (auto simp: st daemon_step_def stream_step_def answer_step_def)
    qed
  qed (use assms Some x in \<open>simp_all add: daemon_stream_def first_line_def [symmetric] daemon_step_def stream_step_def answer_step_def\<close>)
qed

theorem undisturbed_task_is_one_stream_witness:
  "dm_disk (run_daemon demo_daemon_env [Streams 0 demo_proposal demo_rio, UserAnswers 0 demo_user demo_rio (\<lambda>_. 0)] demo_daemon) =
     [''/w/v'' \<mapsto> [1, 2, 3]]"
proof -
  obtain h where "daemon_stream (da_config demo_daemon_env) (da_json demo_daemon_env) (dm_admitted demo_daemon ! 0) demo_user demo_rio
      (\<lambda>_. 0) demo_proposal (dm_home demo_daemon) (dm_disk demo_daemon) = Inr (h, [''/w/v'' \<mapsto> [1, 2, 3]], Some (Accept ''pull_from_you''))"
    using demo_share_run by (auto simp: demo_daemon_env_def demo_daemon_def)
  from undisturbed_task_is_one_stream [OF _ _ _ this] show ?thesis by (simp add: demo_daemon_def)
qed

section \<open>A slow answer\<close>

lemma update_first_map:
  assumes "update_first P f xs = Some ys" "\<And>x. k (f x) = k x"
  shows "map k ys = map k xs"
  using assms(1) by (induction xs arbitrary: ys) (auto simp: assms(2) split: if_splits)

lemma proposal_keeps_names:
  assumes "decide_proposal nick filename modified user fs = (r, Some fs')"
  shows "map nickname fs' = map nickname fs"
  using assms
  by (auto simp: decide_proposal_def Let_def split: option.splits if_splits dest!: update_first_map [where k = nickname])

lemma add_friend_adds:
  assumes "add_friend_core C K E J u nick g h = Inr h'" "load_friends C J h = Inr fs"
  shows "\<exists>fs'. save_friends C J fs' g h = Inr h' \<and> nick \<in> nickname ` set fs' \<and> home_io h' = home_io h"
proof -
  from assms obtain k fs' where b: "add_friend_book K E u nick k fs = Inr fs'" and s: "save_friends C J fs' g h = Inr h'"
    by (auto simp: add_friend_core_def result_simps)
  have "nick \<in> nickname ` set fs'"
  proof (cases "List.find (\<lambda>f. nickname f = nick) fs")
    case None
    with b show ?thesis by (auto simp: add_friend_book_def result_simps new_friend_def split: option.splits)
  next
    case (Some f)
    then have m: "nick \<in> set (map nickname fs)" by (auto simp: find_Some_iff)
    from b Some have "fs' = (case update_first (\<lambda>f. nickname f = nick) (\<lambda>f. f\<lparr>url := u\<rparr>) fs of Some x \<Rightarrow> x | None \<Rightarrow> fs)"
      by (auto simp: add_friend_book_def result_simps split: option.splits)
    then have "map nickname fs' = map nickname fs"
      using update_first_map [of "\<lambda>f. nickname f = nick" "\<lambda>f. f\<lparr>url := u\<rparr>" fs _ nickname] by (auto split: option.splits)
    with m show ?thesis by (metis image_set)
  qed
  moreover have "home_io h' = home_io h" using s by (auto simp: save_friends_def result_simps)
  ultimately show ?thesis using s by blast
qed

text \<open>
  A task reads the address book before it asks the user and saves that copy afterwards. Whatever else
  changed the book while the question was open is undone when the user accepts: after the answer the book is the
  old one with the shared vault added, and a friend added meanwhile is gone.
\<close>

theorem slow_answer_loses_new_friends:
  assumes "aead_ok (da_config D)" "json_ok (da_json D)" "\<not> dm_stopped d" "dm_admitted d = [nick]" "dm_asking d = []"
    and "open_ok (home_io (dm_home d))" "write_cut (home_io (dm_home d)) = None"
    and "first_line (da_json D) input = Some (Proposal filename modified, payload)"
    and "load_friends (da_config D) (da_json D) (dm_home d) = Inr fs" "known_vault nick filename fs = None"
    and "add_friend_core (da_config D) (da_keys D) (da_ed D) (da_json D) u new_nick g1 (dm_home d) = Inr h1"
    and "resp_accepted user" "decide_proposal nick filename modified user fs = ((True, path), Some fs')"
    and "save_friends (da_config D) (da_json D) fs' g2 h1 = Inr h2"
    and "new_nick \<notin> nickname ` set fs"
  shows "(\<exists>g. load_friends (da_config D) (da_json D) (dm_home (run_daemon D [Streams 0 input rio, AddsFriend u new_nick g1] d)) = Inr g \<and>
      new_nick \<in> nickname ` set g) \<and>
    load_friends (da_config D) (da_json D)
      (dm_home (run_daemon D [Streams 0 input rio, AddsFriend u new_nick g1, UserAnswers 0 user rio g2] d)) = Inr fs' \<and>
    new_nick \<notin> nickname ` set fs'"
proof -
  obtain fs1 where a: "save_friends (da_config D) (da_json D) fs1 g1 (dm_home d) = Inr h1" "new_nick \<in> nickname ` set fs1"
    "home_io h1 = home_io (dm_home d)" using add_friend_adds [OF assms(11,9)] by blast
  have l1: "load_friends (da_config D) (da_json D) h1 = Inr fs1" by (rule load_saved_friends [OF assms(1,2) a(1) assms(6,7)])
  have l2: "load_friends (da_config D) (da_json D) h2 = Inr fs'"
    by (rule load_saved_friends [OF assms(1,2,14)]) (use a(3) assms(6,7) in simp_all)
  have n: "new_nick \<notin> nickname ` set fs'" using proposal_keeps_names [OF assms(13)] assms(15) by (metis image_set)
  let ?d1 = "daemon_step D (Streams 0 input rio) d" and ?ask = "\<lparr>ask_nick = nick, ask_file = filename,
      ask_modified = modified, ask_book = fs, ask_payload = payload\<rparr>"
  have d1: "?d1 = d\<lparr>dm_admitted := [], dm_asking := [?ask]\<rparr>"
    using assms(3,4,5,8,9,10) by (simp add: daemon_step_def stream_step_def remove_nth_def)
  have d2: "daemon_step D (AddsFriend u new_nick g1) ?d1 = ?d1\<lparr>dm_home := h1\<rparr>"
    unfolding d1 using assms(3,11) by (simp add: daemon_step_def friend_step_def)
  have "dm_home (daemon_step D (UserAnswers 0 user rio g2) (?d1\<lparr>dm_home := h1\<rparr>)) = h2"
    unfolding d1 using assms(3,13,14) by (simp add: daemon_step_def answer_step_def Let_def)
  with d2 l1 l2 a(2) n show ?thesis by simp
qed

theorem slow_answer_loses_new_friends_witness:
  "let evs = [Streams 0 demo_proposal demo_rio, AddsFriend (demo_uri [4]) ''bob'' (\<lambda>_. 0), UserAnswers 0 demo_user demo_rio (\<lambda>_. 0)]
   in load_friends demo_crypto demo_json (dm_home (run_daemon demo_daemon_env evs demo_daemon)) = Inr []"
proof -
  obtain data where a: "add_friend_core demo_crypto demo_keys32 demo_ed demo_json (demo_uri [4]) ''bob'' (\<lambda>_. 0) demo_home =
      Inr (demo_home\<lparr>friends_json := Some data\<rparr>)" using demo_add by blast
  obtain h2 where h2: "save_friends demo_crypto demo_json [] (\<lambda>_. 0) (demo_home\<lparr>friends_json := Some data\<rparr>) = Inr h2"
    using demo_saves_book by blast
  let ?D = demo_daemon_env and ?d = demo_daemon
  have e: "da_config ?D = demo_crypto" "da_keys ?D = demo_keys32" "da_ed ?D = demo_ed" "da_json ?D = demo_json"
    "dm_home ?d = demo_home" "dm_admitted ?d = [''alice'']" "dm_asking ?d = []" "\<not> dm_stopped ?d"
    by (simp_all add: demo_daemon_env_def demo_daemon_def)
  have io: "open_ok (home_io demo_home)" "write_cut (home_io demo_home) = None" by (simp_all add: demo_home_def)
  have k: "known_vault ''alice'' ''my.vault'' [] = None" "resp_accepted demo_user" "''bob'' \<notin> nickname ` set []"
    by (simp_all add: known_vault_def demo_user_def)
  show ?thesis
    using slow_answer_loses_new_friends [of ?D ?d, unfolded e(1-5), OF demo_aead_ok demo_json_ok e(8,6,7) io demo_first demo_book
        k(1) a k(2) demo_decides h2 k(3), of demo_rio]
    by (simp add: Let_def)
qed

end
