(* ===== verification/Cli.thy ===== *)
theory Cli
  imports Enter Viewer DaemonRun LiveCmdProofs GuiRun
begin

text \<open>
  The command line (\<open>atom/src/cli.rs\<close>, \<open>atom/src/main.rs\<close>): the commands and their validators, what the
  program does before any command, and the dispatch to the commands modelled elsewhere. Parsing the
  arguments is the work of the library \<open>clap\<close> and a parameter; the values it hands over have passed
  the validators.
\<close>

section \<open>Commands\<close>

datatype FriendCommands = FriendAdd string string | FriendList

datatype RendezvousCommands =
    RdvAdd string "string option" "string option"
  | RdvLink string u16 string "string list" "string option"
  | RdvList
  | RdvRemove string

datatype LiveCommands =
    LiveId | LiveAddress string | LivePair string "string option" | LivePeers
  | LiveSend string string | LiveReceive string string | LiveStun string u16
  | LiveAnnounce "string option" | LiveRendezvous RendezvousCommands

record CreateArgs =
  ca_vault_path :: string
  ca_vault_name :: string
  ca_kdf :: string
  ca_memory :: "u32 option"
  ca_transform_rounds :: "u32 option"
  ca_decryption_time :: u32
  ca_parallelism :: "u32 option"
  ca_generate_passphrase :: bool

datatype Commands =
    CmdCreate CreateArgs | CmdEnter string | CmdId | CmdDaemon | CmdFriend FriendCommands
  | CmdSync string string | CmdLive LiveCommands

section \<open>Validators\<close>

definition is_alphanumeric :: "char \<Rightarrow> bool" where
  "is_alphanumeric c \<longleftrightarrow>
     (let n = (of_char c :: nat) in 48 \<le> n \<and> n \<le> 57 \<or> 65 \<le> n \<and> n \<le> 90 \<or> 97 \<le> n \<and> n \<le> 122)"

definition parse_vault_name :: "string \<Rightarrow> string + string" where
  "parse_vault_name s =
     bindE (guardE (trim s \<noteq> []) ''Vault name cannot be empty or whitespace only'') (\<lambda>_.
     bindE (guardE (length s \<le> 32) ''Vault name cannot exceed 32 characters'') (\<lambda>_.
     bindE (guardE (is_ascii s) ''Vault name must contain only ASCII'') (\<lambda>_.
     bindE (guardE (\<not> list_ex (\<lambda>c. \<not> is_alphanumeric c \<and> c \<noteq> CHR ''_'' \<and> c \<noteq> CHR ''-'') s)
              ''Vault name can only contain alphanumeric characters, _, or -'') (\<lambda>_. Inr s))))"

definition parse_vault_path :: "string \<Rightarrow> string + string" where
  "parse_vault_path s =
     bindE (guardE (s \<noteq> []) ''Vault path cannot be empty'') (\<lambda>_.
     bindE (guardE (length s \<le> 4096) ''Vault path is too long'') (\<lambda>_. Inr s))"

definition parse_atom_url :: "string \<Rightarrow> string + string" where
  "parse_atom_url s =
     bindE (guardE (strip_prefix ''atom://'' s \<noteq> None) (''Invalid format: Friend links must start with '' @ CHR 0x27 # ''atom://'' @ [CHR 0x27])) (\<lambda>_. Inr s)"

text \<open>\<open>clap\<close>: an exit code of its own for bad arguments and help, or the parsed command.\<close>

type_synonym clap = "string list \<Rightarrow> nat + Commands option"

fun validated :: "Commands option \<Rightarrow> bool" where
  "validated (Some (CmdCreate c)) =
     (parse_vault_path (ca_vault_path c) = Inr (ca_vault_path c) \<and> parse_vault_name (ca_vault_name c) = Inr (ca_vault_name c))"
| "validated (Some (CmdEnter p)) = (parse_vault_path p = Inr p)"
| "validated (Some (CmdSync p nick)) = (parse_vault_path p = Inr p)"
| "validated (Some (CmdFriend (FriendAdd u nick))) = (parse_atom_url u = Inr u)"
| "validated (Some (CmdLive (LiveSend p peer))) = (parse_vault_path p = Inr p)"
| "validated (Some (CmdLive (LiveReceive p peer))) = (parse_vault_path p = Inr p)"
| "validated _ = True"

definition clap_ok :: "clap \<Rightarrow> bool" where
  "clap_ok parse \<longleftrightarrow> (\<forall>argv c. parse argv = Inr c \<longrightarrow> validated c)"

section \<open>The machine\<close>

text \<open>
  What the program keeps between two invocations. The daemon and the live transfers name the vault files
  they read and write by their text.
\<close>

record atom =
  at_host :: host
  at_memlock :: "nat \<times> nat"
  at_keyring :: Keyring
  at_registry :: RegistryHome
  at_friends :: Friends.Home
  at_live :: LiveHome
  at_received :: "string \<rightharpoonup> bytes"

text \<open>The libraries, and what one invocation meets: the terminal, the network, the user.\<close>

record atom_env =
  ae_clap :: clap
  ae_os :: os
  ae_landlock :: landlock
  ae_vault :: vault_lib
  ae_live :: live_lib
  ae_daemon :: daemon_env
  ae_rlimit :: "bool \<times> bool"
  ae_bwrap :: bool
  ae_exe :: "string option"
  ae_exec_ok :: bool
  ae_rand :: rng
  ae_openable :: "path \<Rightarrow> bool"
  ae_mkdir_ok :: bool
  ae_left_behind :: bytes
  ae_threads :: u32
  ae_measured :: nat
  ae_words :: "string list"
  ae_ttys :: "tty \<times> tty"
  ae_entry :: entry
  ae_sha3 :: "bytes \<Rightarrow> bytes"
  ae_onion_key :: bytes
  ae_tor :: "string + bool"
  ae_inbound :: "daemon_event list"
  ae_dial :: "bytes \<Rightarrow> string \<Rightarrow> bytes \<Rightarrow> bool"
  ae_modified :: u64
  ae_reply :: "string option"
  ae_world :: live_world
  ae_stun :: stun_run
  ae_pastes :: "(string \<Rightarrow> string) \<times> (string \<Rightarrow> string)"
  ae_gui :: gui_env
  ae_events :: "(gui_env \<times> gui_event) list"

text \<open>How a command ends. An endless one does not return.\<close>

datatype command_end = Done | Failed | ExitNow nat | Endless

definition ended :: "('e + 'a) \<Rightarrow> command_end" where
  "ended r = (case r of Inl _ \<Rightarrow> Failed | Inr _ \<Rightarrow> Done)"

section \<open>The commands on the machine\<close>

definition cli_password :: "atom_env \<Rightarrow> bool \<Rightarrow> string + password_source" where
  "cli_password E generate =
     (if generate then Inr (Generated (take 10 (ae_words E)))
      else bindE (snd (read_password_pinentry (fst (ae_ttys E)))) (\<lambda>pass.
        if trim pass = [] then Inr (Typed pass pass)
        else bindE (snd (read_password_pinentry (snd (ae_ttys E)))) (\<lambda>confirm_pass. Inr (Typed pass confirm_pass))))"

definition set_file :: "path \<Rightarrow> bytes \<Rightarrow> atom \<Rightarrow> atom" where
  "set_file p b a = a\<lparr>at_host := (at_host a)\<lparr>disk := (disk (at_host a))(p \<mapsto> b)\<rparr>\<rparr>"

definition cli_create :: "atom_env \<Rightarrow> CreateArgs \<Rightarrow> atom \<Rightarrow> atom \<times> command_end" where
  "cli_create E c a =
     (let p = resolve_target (at_host a) (path_join (ca_vault_path c) (ca_vault_name c @ ''.aegis''));
          taken = (disk (at_host a) p \<noteq> None \<or> \<not> creatable (at_host a) p) in
      if \<not> ae_mkdir_ok E then (a, Failed)
      else case cli_password E (ca_generate_passphrase c) of
        Inl _ \<Rightarrow> (a, Failed)
      | Inr src \<Rightarrow>
          (case handle_create (ae_vault E) (ca_kdf c) (ca_memory c) (ca_transform_rounds c) (ca_parallelism c) (ae_threads E)
                  (ae_measured E) (ca_decryption_time c) src taken (ae_rand E) of
             Inr (f, _) \<Rightarrow> (set_file p (fbytes f) a, Done)
           | Inl e \<Rightarrow>
               (case e of Bincode \<Rightarrow> set_file p (ae_left_behind E) a | MetadataEncrypt _ \<Rightarrow> set_file p (ae_left_behind E) a | _ \<Rightarrow> a,
                Failed)))"

definition opened :: "atom_env \<Rightarrow> string \<Rightarrow> host \<Rightarrow> (path \<times> File) option" where
  "opened E path h =
     Option.bind (canonicalize h path) (\<lambda>p. if ae_openable E p then map_option (\<lambda>b. (p, \<lparr>fbytes = b, fpos = 0\<rparr>)) (disk h p) else None)"

text \<open>Whatever the shell did to the vault and the staging directory is on disk even if the last sync fails.\<close>

definition entering :: "atom_env \<Rightarrow> string \<Rightarrow> atom \<Rightarrow> entry" where
  "entering E path a =
     (ae_entry E)\<lparr>en_vault := map_option snd (opened E path (at_host a)), en_host := at_host a, en_rand := ae_rand E\<rparr>"

definition cli_enter :: "atom_env \<Rightarrow> string \<Rightarrow> atom \<Rightarrow> atom \<times> command_end" where
  "cli_enter E path a =
     (let en = entering E path a in
      case handle_enter (ae_vault E) (ae_landlock E) (ae_os E) path (en\<lparr>en_sync_ok := True\<rparr>) of
        Inl _ \<Rightarrow> (a, Failed)
      | Inr r \<Rightarrow>
          let files = disk (hst (in_shell r)); b = fbytes (phys (sess (in_shell r)));
              files' = (case opened E path (at_host a) of None \<Rightarrow> files | Some (p, _) \<Rightarrow> files(p \<mapsto> b))
          in (a\<lparr>at_host := (at_host a)\<lparr>disk := files'\<rparr>\<rparr>,
              if in_end r = Spinning then Endless else if en_sync_ok en then Done else Failed))"

definition cli_daemon :: "atom_env \<Rightarrow> atom \<Rightarrow> atom \<times> command_end" where
  "cli_daemon E a =
     (case daemon_start (ae_daemon E) (ae_sha3 E) (ae_onion_key E) (ae_tor E) (ae_rand E) (at_received a) (at_friends a) of
        Inl _ \<Rightarrow> (a, Failed)
      | Inr (D, d0) \<Rightarrow>
          let d = run_daemon D (ae_inbound E) d0
          in (a\<lparr>at_friends := dm_home d, at_received := dm_disk d\<rparr>, Done))"

definition cli_friend :: "atom_env \<Rightarrow> FriendCommands \<Rightarrow> atom \<Rightarrow> atom \<times> command_end" where
  "cli_friend E c a =
     (let D = ae_daemon E in
      case c of
        FriendAdd u nick \<Rightarrow>
          (case add_friend_core (da_config D) (da_keys D) (da_ed D) (da_json D) u nick (ae_rand E) (at_friends a) of
             Inl _ \<Rightarrow> (a, Failed)
           | Inr h \<Rightarrow> (a\<lparr>at_friends := h\<rparr>, Done))
      | FriendList \<Rightarrow> (a, ended (load_friends (da_config D) (da_json D) (at_friends a))))"

definition cli_sync :: "atom_env \<Rightarrow> string \<Rightarrow> string \<Rightarrow> atom \<Rightarrow> atom \<times> command_end" where
  "cli_sync E path nick a =
     (let D = ae_daemon E in
      case sync_core (da_config D) (da_keys D) (da_ed D) (da_json D) (ae_dial E) path
             (map_option (\<lambda>(_, f). (fbytes f, ae_modified E)) (opened E path (at_host a))) nick (ae_reply E) (ae_rand E) (at_friends a) of
        Inl _ \<Rightarrow> (a, Failed)
      | Inr (_, h) \<Rightarrow> (a\<lparr>at_friends := h\<rparr>, Done))"

definition live_command :: "atom_env \<Rightarrow> LiveCommands \<Rightarrow> unit live" where
  "live_command E c =
     (let L = ae_live E; w = ae_world E in
      case c of
        LiveId \<Rightarrow> bindL (identity_summary L) (\<lambda>_. bindL (load_state L) (\<lambda>_. retL ()))
      | LiveAddress address \<Rightarrow> set_endpoints L [address]
      | LivePair nick code \<Rightarrow> bindL (handle_pair L nick code (fst (ae_pastes E)) (snd (ae_pastes E))) (\<lambda>_. retL ())
      | LivePeers \<Rightarrow> bindL (load_state L) (\<lambda>_. retL ())
      | LiveSend path peer \<Rightarrow> bindL (send_core L w path peer) (\<lambda>_. retL ())
      | LiveReceive path peer \<Rightarrow> bindL (receive_core L w path peer) (\<lambda>_. retL ())
      | LiveStun server _ \<Rightarrow> bindL (discover_address L (ae_stun E) server) (\<lambda>_. retL ())
      | LiveAnnounce peer \<Rightarrow> bindL (announce_core L w peer) (\<lambda>_. retL ())
      | LiveRendezvous r \<Rightarrow>
          (case r of
             RdvAdd link name proxy \<Rightarrow> handle_rendezvous_add L link name proxy
           | RdvLink host_name port_number path_prefix pin_texts onion_arg \<Rightarrow>
               bindL (liftL (handle_rendezvous_link L host_name port_number path_prefix pin_texts onion_arg)) (\<lambda>_. retL ())
           | RdvList \<Rightarrow> bindL (load_state L) (\<lambda>_. retL ())
           | RdvRemove name \<Rightarrow> handle_rendezvous_remove L name))"

definition cli_live :: "atom_env \<Rightarrow> LiveCommands \<Rightarrow> atom \<Rightarrow> atom \<times> command_end" where
  "cli_live E c a = (let (h, r) = live_command E c (at_live a) in (a\<lparr>at_live := h\<rparr>, ended r))"

definition cli_gui :: "atom_env \<Rightarrow> atom \<Rightarrow> atom \<times> command_end" where
  "cli_gui E a =
     (let g = run_gui (ae_events E) (gui_start (ae_gui E) (at_host a) (at_registry a) (at_friends a) (ae_rand E))
      in (a\<lparr>at_host := gui_host g, at_registry := registry_home g, at_friends := friends_home g\<rparr>,
          case exit_code g of Some c \<Rightarrow> ExitNow c | None \<Rightarrow> Done))"

definition dispatch :: "atom_env \<Rightarrow> Commands option \<Rightarrow> atom \<Rightarrow> atom \<times> command_end" where
  "dispatch E command a =
     (case command of
        Some (CmdCreate c) \<Rightarrow> cli_create E c a
      | Some (CmdEnter path) \<Rightarrow> cli_enter E path a
      | Some CmdDaemon \<Rightarrow> cli_daemon E a
      | Some CmdId \<Rightarrow> (a, Done)
      | Some (CmdFriend c) \<Rightarrow> cli_friend E c a
      | Some (CmdSync path nick) \<Rightarrow> cli_sync E path nick a
      | Some (CmdLive c) \<Rightarrow> cli_live E c a
      | None \<Rightarrow> cli_gui E a)"

section \<open>The main function\<close>

definition main_staging :: "os \<Rightarrow> string option" where
  "main_staging os =
     (case os_var os ''XDG_RUNTIME_DIR'' of
        Some r \<Rightarrow> Some (r @ ''/atom_staging'')
      | None \<Rightarrow> map_option (\<lambda>h. h @ ''/.atom_vault/staging'') (os_var os ''HOME''))"

text \<open>The key of the configuration files, once it is known, is in reach of every command.\<close>

definition with_key :: "bytes \<Rightarrow> atom \<Rightarrow> atom" where
  "with_key key a =
     a\<lparr>at_friends := (at_friends a)\<lparr>cfg_key := Some key\<rparr>, at_live := (at_live a)\<lparr>lh_key := Some key\<rparr>,
       at_registry := (at_registry a)\<lparr>reg_key := Some key\<rparr>\<rparr>"

datatype main_end = ExitCode nat | Replaced "string list" | Never

fun main_result :: "command_end \<Rightarrow> main_end" where
  "main_result Done = ExitCode 0"
| "main_result Failed = ExitCode 1"
| "main_result (ExitNow c) = ExitCode c"
| "main_result Endless = Never"

definition main :: "atom_env \<Rightarrow> string list \<Rightarrow> atom \<Rightarrow> atom \<times> main_end" where
  "main E argv a0 =
     (let a1 = a0\<lparr>at_memlock := raise_memlock_limit (fst (ae_rlimit E)) (snd (ae_rlimit E)) (at_memlock a0)\<rparr> in
      case fetch_or_create_key (ae_rand E) (at_keyring a1) of
        Inl _ \<Rightarrow> (a1, ExitCode 1)
      | Inr (key, k) \<Rightarrow>
          let a2 = with_key key (a1\<lparr>at_keyring := k\<rparr>) in
          (case snd (try_bwrap_self_sandbox (ae_os E) (ae_bwrap E) (ae_exe E) (ae_exec_ok E) argv) of
             Caged args \<Rightarrow> (a2, Replaced args)
           | _ \<Rightarrow>
               (case ae_clap E argv of
                  Inl code \<Rightarrow> (a2, ExitCode code)
                | Inr command \<Rightarrow>
                    (case main_staging (ae_os E) of
                       None \<Rightarrow> (a2, ExitCode 1)
                     | Some _ \<Rightarrow> let (a3, r) = dispatch E command a2 in (a3, main_result r)))))"

text \<open>
  One invocation: where the program replaces itself by its cage, bubblewrap starts it again, with the
  same arguments and the environment the cage was given.
\<close>

definition invoke :: "atom_env \<Rightarrow> atom_env \<Rightarrow> string list \<Rightarrow> atom \<Rightarrow> atom \<times> main_end" where
  "invoke E inside argv a =
     (case main E argv a of
        (a', Replaced _) \<Rightarrow> main inside argv a'
      | r \<Rightarrow> r)"

text \<open>A command that ends well has run after the key was in place.\<close>

definition prepared :: "atom_env \<Rightarrow> bytes \<Rightarrow> Keyring \<Rightarrow> atom \<Rightarrow> atom" where
  "prepared E key k a =
     with_key key (a\<lparr>at_memlock := raise_memlock_limit (fst (ae_rlimit E)) (snd (ae_rlimit E)) (at_memlock a), at_keyring := k\<rparr>)"

lemma prepared_fields [simp]:
  "at_host (prepared E key k a) = at_host a" "at_keyring (prepared E key k a) = k"
  "cfg_key (at_friends (prepared E key k a)) = Some key" "lh_key (at_live (prepared E key k a)) = Some key"
  "reg_key (at_registry (prepared E key k a)) = Some key" "at_received (prepared E key k a) = at_received a"
  by (simp_all add: prepared_def with_key_def)

text \<open>The run of the main function, by what the keyring and bubblewrap do.\<close>

lemma main_cases:
  obtains (no_key) e where "fetch_or_create_key (ae_rand E) (at_keyring a) = Inl e"
      "main E argv a = (a\<lparr>at_memlock := raise_memlock_limit (fst (ae_rlimit E)) (snd (ae_rlimit E)) (at_memlock a)\<rparr>, ExitCode 1)"
  | (replaced) key k args where "fetch_or_create_key (ae_rand E) (at_keyring a) = Inr (key, k)"
      "snd (try_bwrap_self_sandbox (ae_os E) (ae_bwrap E) (ae_exe E) (ae_exec_ok E) argv) = Caged args"
      "main E argv a = (prepared E key k a, Replaced args)"
  | (refused) key k c where "fetch_or_create_key (ae_rand E) (at_keyring a) = Inr (key, k)"
      "ae_clap E argv = Inl c \<or> main_staging (ae_os E) = None \<and> c = 1"
      "main E argv a = (prepared E key k a, ExitCode c)"
  | (run) key k command a' r where "fetch_or_create_key (ae_rand E) (at_keyring a) = Inr (key, k)"
      "ae_clap E argv = Inr command" "dispatch E command (prepared E key k a) = (a', r)"
      "main E argv a = (a', main_result r)"
proof -
  show thesis
  proof (cases "fetch_or_create_key (ae_rand E) (at_keyring a)")
    case (Inl e)
    then show ?thesis by (intro no_key) (simp_all add: main_def)
  next
    case (Inr kk)
    obtain key k where kk: "kk = (key, k)" by fastforce
    note f = Inr [unfolded kk]
    note m = main_def Let_def prepared_def f
    show ?thesis
    proof (cases "\<exists>args. snd (try_bwrap_self_sandbox (ae_os E) (ae_bwrap E) (ae_exe E) (ae_exec_ok E) argv) = Caged args")
      case True
      then obtain args where c: "snd (try_bwrap_self_sandbox (ae_os E) (ae_bwrap E) (ae_exe E) (ae_exec_ok E) argv) = Caged args" ..
      show ?thesis by (rule replaced [OF f c]) (simp add: m c)
    next
      case False
      then have go: "main E argv a = (case ae_clap E argv of
          Inl code \<Rightarrow> (prepared E key k a, ExitCode code)
        | Inr command \<Rightarrow> (case main_staging (ae_os E) of None \<Rightarrow> (prepared E key k a, ExitCode 1)
            | Some _ \<Rightarrow> let (a3, r) = dispatch E command (prepared E key k a) in (a3, main_result r)))"
        unfolding prepared_def main_def Let_def using f
        by (cases "snd (try_bwrap_self_sandbox (ae_os E) (ae_bwrap E) (ae_exe E) (ae_exec_ok E) argv)") simp_all
      show ?thesis
        by (cases "ae_clap E argv"; cases "main_staging (ae_os E)"; cases "dispatch E (projr (ae_clap E argv)) (prepared E key k a)")
          (use go in \<open>auto intro: refused [OF f] run [OF f]\<close>)
    qed
  qed
qed

end
