(* ===== verification/CliTheorems.thy ===== *)
theory CliTheorems
  imports Cli ProcessTheorems GuiTheorems DaemonTheorems LiveCmdTheorems
begin

text \<open>
  The properties of the program as it is started from the command line: a vault created by one
  invocation opens in the next, the configuration key is in place before any command and is the same in
  the process and in its cage, and a vault's name stays in its directory.
\<close>

section \<open>Creating and entering\<close>

text \<open>What a successful creation has left in the file.\<close>

lemma created_loads:
  assumes "aead_ok (crypto L)" "bincode_ok L" "handle_create L kdf m ro t th ms d (Typed pw pw') ex g = Inr (f, g')"
    and small: "length (fbytes f) \<le> 125 + METADATA_LIMIT"
  obtains uv cdc f1 where "trim pw \<noteq> []"
    "load_vault_metadata L (str_bytes pw) \<lparr>fbytes = fbytes f, fpos = 0\<rparr> = Inr ((\<lparr>file_table = [], cdc_salt = cdc\<rparr>, uv, 125), f1)"
    "\<forall>g. vault_inv \<lparr>phys = f1, meta = \<lparr>file_table = [], cdc_salt = cdc\<rparr>, payload_offset = 125, rand = g\<rparr> \<and>
      vault_view L uv \<lparr>phys = f1, meta = \<lparr>file_table = [], cdc_salt = cdc\<rparr>, payload_offset = 125, rand = g\<rparr> = Map.empty"
proof -
  from assms(3) obtain st where pw: "trim pw \<noteq> []" and cr: "create_vault L pw st ex g = Inr (f, g')"
    by (auto simp: handle_create_def result_simps)
  from create_ok [OF assms(1,2) cr small] obtain uv cdc where
    u: "\<And>s. s = \<lparr>phys = f, meta = \<lparr>file_table = [], cdc_salt = cdc\<rparr>, payload_offset = 125, rand = g'\<rparr> \<Longrightarrow>
      vault_inv s \<and> vault_view L uv s = Map.empty \<and> synced L (str_bytes pw) uv s" by blast
  let ?s = "\<lparr>phys = f, meta = \<lparr>file_table = [], cdc_salt = cdc\<rparr>, payload_offset = 125, rand = g'\<rparr>"
  from u [OF refl] obtain f1 where ld: "load_vault_metadata L (str_bytes pw) \<lparr>fbytes = fbytes f, fpos = 0\<rparr> =
      Inr ((\<lparr>file_table = [], cdc_salt = cdc\<rparr>, uv, 125), f1)" "fbytes f1 = fbytes f"
    using load_from_start [of "\<lparr>fbytes = fbytes f, fpos = 0\<rparr>" f L "str_bytes pw"] by (auto simp: synced_def split: sum.splits)
  have "vault_inv \<lparr>phys = f1, meta = meta ?s, payload_offset = 125, rand = h\<rparr>"
    "vault_view L uv \<lparr>phys = f1, meta = meta ?s, payload_offset = 125, rand = h\<rparr> = Map.empty" for h
    using u [OF refl] ld(2) by (auto simp: vault_inv_def vault_view_def fun_eq_iff find_file_def all_chunks_def)
  with pw ld(1) that show thesis by simp
qed

text \<open>A \<open>create\<close> that ends well has written the file.\<close>

lemma cli_create_Done:
  assumes "cli_create E c a = (a', Done)" "\<not> ca_generate_passphrase c"
  obtains f g' pw pw' where "snd (read_password_pinentry (fst (ae_ttys E))) = Inr pw"
    "handle_create (ae_vault E) (ca_kdf c) (ca_memory c) (ca_transform_rounds c) (ca_parallelism c) (ae_threads E)
       (ae_measured E) (ca_decryption_time c) (Typed pw pw') False (ae_rand E) = Inr (f, g')"
    "a' = set_file (resolve_target (at_host a) (path_join (ca_vault_path c) (ca_vault_name c @ ''.aegis''))) (fbytes f) a"
proof -
  let ?p = "resolve_target (at_host a) (path_join (ca_vault_path c) (ca_vault_name c @ ''.aegis''))"
  let ?taken = "disk (at_host a) ?p \<noteq> None \<or> \<not> creatable (at_host a) ?p"
  from assms obtain src f g' where r: "cli_password E False = Inr src" "a' = set_file ?p (fbytes f) a"
    "handle_create (ae_vault E) (ca_kdf c) (ca_memory c) (ca_transform_rounds c) (ca_parallelism c) (ae_threads E)
       (ae_measured E) (ca_decryption_time c) src ?taken (ae_rand E) = Inr (f, g')"
    by (auto simp: cli_create_def Let_def split: if_splits sum.splits prod.splits)
  from r(1) obtain pw pw' where pw: "snd (read_password_pinentry (fst (ae_ttys E))) = Inr pw" "src = Typed pw pw'"
    by (auto simp: cli_password_def result_simps split: if_splits)
  from r(3) have "\<not> ?taken" by (auto simp: handle_create_def create_vault_def result_simps Let_def case_prod_beta)
  with r(3) have "handle_create (ae_vault E) (ca_kdf c) (ca_memory c) (ca_transform_rounds c) (ca_parallelism c) (ae_threads E)
       (ae_measured E) (ca_decryption_time c) (Typed pw pw') False (ae_rand E) = Inr (f, g')" using pw(2) by simp
  from that [OF pw(1) this r(2)] show thesis .
qed

lemma dispatch_create_enter [simp]:
  "dispatch E (Some (CmdCreate c)) a = cli_create E c a" "dispatch E (Some (CmdEnter path)) a = cli_enter E path a"
  by (simp_all add: dispatch_def)

lemma cli_create_not_now: "snd (cli_create E c a) = Done \<or> snd (cli_create E c a) = Failed"
  by (auto simp: cli_create_def Let_def split: sum.splits)

lemma main_created:
  assumes "ae_clap E argv = Inr (Some (CmdCreate c))" "main E argv a = (a1, ExitCode 0)"
  shows "\<exists>key k. fetch_or_create_key (ae_rand E) (at_keyring a) = Inr (key, k) \<and> cli_create E c (prepared E key k a) = (a1, Done)"
proof (cases rule: main_cases [where E = E and a = a and argv = argv])
  case (run key k command a' r)
  with assms have "cli_create E c (prepared E key k a) = (a1, r)" "main_result r = ExitCode 0" by simp_all
  with cli_create_not_now [of E c "prepared E key k a"] have "cli_create E c (prepared E key k a) = (a1, Done)" by auto
  with run(1) show ?thesis by blast
qed (use assms in simp_all)

text \<open>A process that is not replaced and has a staging directory runs its command.\<close>

lemma main_runs:
  assumes "fetch_or_create_key (ae_rand E) (at_keyring a) = Inr (key, k)" "ae_clap E argv = Inr command"
    "\<And>args. snd (try_bwrap_self_sandbox (ae_os E) (ae_bwrap E) (ae_exe E) (ae_exec_ok E) argv) \<noteq> Caged args"
    "main_staging (ae_os E) \<noteq> None" "dispatch E command (prepared E key k a) = (a', r)"
  shows "main E argv a = (a', main_result r)"
  using assms by (cases rule: main_cases [where E = E and a = a and argv = argv]) auto

text \<open>C10. A vault that one invocation of \<open>atom create\<close> has made opens in the next \<open>atom enter\<close>: if the
  first ends with exit code 0, and the second is given the file and the same typed password, and the sandbox
  can be applied, then it reaches the interactive shell on an empty, well-formed vault under that sandbox,
  and what the shell leaves in the vault is what is on disk afterwards; it exits with 0 unless the last sync
  fails.\<close>

theorem created_on_the_command_line_enters:
  assumes "aead_ok (crypto L)" "bincode_ok L" "ae_vault E = L" "ae_vault E' = L" "readable (at_keyring a)"
    and "ae_clap E argv = Inr (Some (CmdCreate c))" "\<not> ca_generate_passphrase c" "main E argv a = (a1, ExitCode 0)"
    and "p = resolve_target (at_host a) (path_join (ca_vault_path c) (ca_vault_name c @ ''.aegis''))"
      "canonicalize (at_host a) path = Some p" "\<And>b. disk (at_host a1) p = Some b \<Longrightarrow> length b \<le> 125 + METADATA_LIMIT"
    and "ae_clap E' argv' = Inr (Some (CmdEnter path))" "ae_openable E' p" "en_flush_ok (ae_entry E')"
      "snd (read_password_pinentry (en_tty (ae_entry E'))) = snd (read_password_pinentry (fst (ae_ttys E)))"
      "apply_process_sandbox (ae_landlock E') (ae_os E') [''/usr'', ''/etc''] [path, enter_staging (ae_os E')] = Inr rules"
      "\<And>args. snd (try_bwrap_self_sandbox (ae_os E') (ae_bwrap E') (ae_exe E') (ae_exec_ok E') argv') \<noteq> Caged args"
      "main_staging (ae_os E') \<noteq> None"
  shows "\<exists>r a2. handle_enter L (ae_landlock E') (ae_os E') path ((entering E' path a1)\<lparr>en_sync_ok := True\<rparr>) = Inr r \<and>
    in_rules r = rules \<and> vault_inv (sess (in_start r)) \<and> vault_view L (in_vault r) (sess (in_start r)) = Map.empty \<and>
    main E' argv' a1 = (a2, if in_end r = Spinning then Never else ExitCode (if en_sync_ok (ae_entry E') then 0 else 1)) \<and>
    disk (at_host a2) p = Some (fbytes (phys (sess (in_shell r))))"
proof -
  obtain key k where k: "fetch_or_create_key (ae_rand E) (at_keyring a) = Inr (key, k)"
    "cli_create E c (prepared E key k a) = (a1, Done)" using main_created [OF assms(6,8)] by blast
  obtain f g' pw pw' where pw: "snd (read_password_pinentry (fst (ae_ttys E))) = Inr pw"
    and hc: "handle_create L (ca_kdf c) (ca_memory c) (ca_transform_rounds c) (ca_parallelism c) (ae_threads E)
       (ae_measured E) (ca_decryption_time c) (Typed pw pw') False (ae_rand E) = Inr (f, g')"
    and a1: "a1 = set_file p (fbytes f) (prepared E key k a)"
    by (rule cli_create_Done [OF k(2) assms(7), unfolded prepared_fields(1) assms(3), folded assms(9)])
  have dk: "disk (at_host a1) p = Some (fbytes f)" "canonicalize (at_host a1) path = Some p" "at_keyring a1 = k"
    using a1 assms(10) by (simp_all add: set_file_def)
  obtain uv cdc f1 where v: "trim pw \<noteq> []"
    "load_vault_metadata L (str_bytes pw) \<lparr>fbytes = fbytes f, fpos = 0\<rparr> = Inr ((\<lparr>file_table = [], cdc_salt = cdc\<rparr>, uv, 125), f1)"
    "\<forall>g. vault_inv \<lparr>phys = f1, meta = \<lparr>file_table = [], cdc_salt = cdc\<rparr>, payload_offset = 125, rand = g\<rparr> \<and>
      vault_view L uv \<lparr>phys = f1, meta = \<lparr>file_table = [], cdc_salt = cdc\<rparr>, payload_offset = 125, rand = g\<rparr> = Map.empty"
    by (rule created_loads [OF assms(1,2) hc assms(11) [OF dk(1)]])
  let ?en = "(entering E' path a1)\<lparr>en_sync_ok := True\<rparr>"
  let ?r = "enter_shell L (ae_landlock E') (ae_os E') ?en rules \<lparr>file_table = [], cdc_salt = cdc\<rparr> uv 125 f1"
  have op: "opened E' path (at_host a1) = Some (p, \<lparr>fbytes = fbytes f, fpos = 0\<rparr>)" using dk assms(13) by (simp add: opened_def)
  have he: "handle_enter L (ae_landlock E') (ae_os E') path ?en = Inr ?r"
    using op pw v(1,2) assms(14,15,16) by (simp add: handle_enter_def entering_def Let_def)
  have start: "sess (in_start ?r) = \<lparr>phys = f1, meta = \<lparr>file_table = [], cdc_salt = cdc\<rparr>, payload_offset = 125, rand = ae_rand E'\<rparr>"
    by (simp add: enter_shell_def entering_def Let_def case_prod_beta)
  have sh: "in_rules ?r = rules" "in_vault ?r = uv" by (rule enter_shell_run [OF refl])+
  let ?b = "prepared E' key k a1"
  have en: "entering E' path ?b = entering E' path a1" "opened E' path (at_host ?b) = Some (p, \<lparr>fbytes = fbytes f, fpos = 0\<rparr>)"
    using op by (simp_all add: entering_def)
  let ?a2 = "?b\<lparr>at_host := (at_host ?b)\<lparr>disk := (disk (hst (in_shell ?r)))(p \<mapsto> fbytes (phys (sess (in_shell ?r))))\<rparr>\<rparr>"
  have ce: "dispatch E' (Some (CmdEnter path)) ?b = (?a2, if in_end ?r = Spinning then Endless else if en_sync_ok (ae_entry E') then Done else Failed)"
    unfolding dispatch_create_enter cli_enter_def Let_def en assms(4) he by (simp add: en entering_def)
  have k': "fetch_or_create_key (ae_rand E') (at_keyring a1) = Inr (key, k)"
    using fetch_key_again [OF k(1) assms(5)] dk(3) by simp
  note m = main_runs [OF k' assms(12,17,18) ce]
  have "main E' argv' a1 = (?a2, if in_end ?r = Spinning then Never else ExitCode (if en_sync_ok (ae_entry E') then 0 else 1))"
    unfolding m by simp
  with he sh start spec [OF v(3), of "ae_rand E'"] show ?thesis by (intro exI [of _ ?r] exI [of _ ?a2]) simp
qed

section \<open>The key before the command\<close>

text \<open>No command touches the keyring.\<close>

lemma dispatch_keyring: "at_keyring (fst (dispatch E command a)) = at_keyring a"
proof -
  have "at_keyring (fst (cli_create E c a)) = at_keyring a" for c
    by (auto simp: cli_create_def set_file_def Let_def split: sum.splits prod.splits vault_error.splits)
  moreover have "at_keyring (fst (cli_enter E p a)) = at_keyring a" for p
    by (auto simp: cli_enter_def Let_def split: sum.splits)
  moreover have "at_keyring (fst (cli_daemon E a)) = at_keyring a"
    by (auto simp: cli_daemon_def Let_def split: sum.splits)
  moreover have "at_keyring (fst (cli_friend E c a)) = at_keyring a" for c
    by (auto simp: cli_friend_def Let_def split: FriendCommands.splits sum.splits)
  moreover have "at_keyring (fst (cli_sync E p n a)) = at_keyring a" for p n
    by (auto simp: cli_sync_def Let_def split: sum.splits)
  moreover have "at_keyring (fst (cli_live E c a)) = at_keyring a" for c
    by (simp add: cli_live_def case_prod_beta Let_def)
  moreover have "at_keyring (fst (cli_gui E a)) = at_keyring a" by (simp add: cli_gui_def Let_def)
  ultimately show ?thesis by (auto simp: dispatch_def split: option.splits Commands.splits)
qed

text \<open>What one run of the main function leaves: nothing done, or one command done with the key in place.\<close>

definition keyed :: "bytes \<Rightarrow> atom \<Rightarrow> bool" where
  "keyed key b \<longleftrightarrow> cfg_key (at_friends b) = Some key \<and> lh_key (at_live b) = Some key \<and> reg_key (at_registry b) = Some key"

lemma main_keyed:
  assumes "fetch_or_create_key (ae_rand E) (at_keyring a) = Inr (key, k)" "main E argv a = (a', out)"
  shows "at_keyring a' = k \<and>
    (at_host a' = at_host a \<and> at_received a' = at_received a \<and> ((\<exists>c. out = ExitCode c) \<or> (\<exists>args. out = Replaced args)) \<or>
     (\<exists>command b r. ae_clap E argv = Inr command \<and> keyed key b \<and> at_host b = at_host a \<and> at_received b = at_received a \<and>
        dispatch E command b = (a', r) \<and> out = main_result r))"
proof (cases rule: main_cases [where E = E and a = a and argv = argv])
  case (run key' k' command a'' r)
  then have e: "key' = key" "k' = k" "a'' = a'" "out = main_result r" using assms by simp_all
  have "at_keyring a' = k" using dispatch_keyring [of E command "prepared E key k a"] run(3) e by simp
  moreover have "keyed key (prepared E key k a)" by (simp add: keyed_def)
  ultimately show ?thesis using run(2,3) e by (metis prepared_fields(1,6))
qed (use assms in auto)

lemma main_result_not_replaced [simp]: "main_result r \<noteq> Replaced args" "Replaced args \<noteq> main_result r"
  by (cases r; simp)+

text \<open>C11. One start of the program does the work of at most one command, and only with the key that the
  keyring holds: where the keyring gives a key, it is one of 32 bytes and every later start finds the same;
  the process that runs in the cage uses the key the outer process stored; and either no vault file was
  touched, the program having been replaced or refused its arguments, or exactly one dispatch, in one of the
  two processes, has run from the untouched files with that key in place for the friends, the live identity
  and the registry. The process in the cage is not replaced again.\<close>

theorem one_command_with_one_key:
  assumes "readable (at_keyring a)" "fetch_or_create_key (ae_rand E) (at_keyring a) = Inr (key, k)"
    and "os_var (ae_os inside) ''ATOM_BWRAP_SANDBOX'' \<noteq> None" "invoke E inside argv a = (a', out)"
  shows "length key = 32 \<and> fetch_or_create_key g (at_keyring a') = Inr (key, at_keyring a') \<and>
    ((\<exists>P command b r. (P = E \<or> P = inside) \<and> ae_clap P argv = Inr command \<and> keyed key b \<and>
        at_host b = at_host a \<and> at_received b = at_received a \<and> dispatch P command b = (a', r) \<and> out = main_result r) \<or>
     at_host a' = at_host a \<and> at_received a' = at_received a \<and> (\<exists>c. out = ExitCode c))"
proof -
  have key: "length key = 32" "fetch_or_create_key h k = Inr (key, k)" for h using fetch_key_again [OF assms(2,1)] by blast+
  obtain a1 o1 where m: "main E argv a = (a1, o1)" by fastforce
  note m1 = main_keyed [OF assms(2) m]
  let ?idle = "at_host a' = at_host a \<and> at_received a' = at_received a \<and> (\<exists>c. out = ExitCode c)"
  let ?ran = "\<lambda>P. \<exists>command b r. ae_clap P argv = Inr command \<and> keyed key b \<and> at_host b = at_host a \<and>
    at_received b = at_received a \<and> dispatch P command b = (a', r) \<and> out = main_result r"
  show ?thesis
  proof (cases "\<exists>args. o1 = Replaced args")
    case False
    then have "a' = a1" "out = o1" using assms(4) m by (auto simp: invoke_def split: main_end.splits)
    then have "at_keyring a' = k" and d: "?idle \<or> ?ran E" using m1 False by simp_all
    with key have "length key = 32 \<and> fetch_or_create_key g (at_keyring a') = Inr (key, at_keyring a')" by simp
    with d show ?thesis by blast
  next
    case True
    then have inner: "main inside argv a1 = (a', out)" using assms(4) m by (auto simp: invoke_def)
    from m1 True have a1: "at_keyring a1 = k" "at_host a1 = at_host a" "at_received a1 = at_received a"
      by auto
    have "fetch_or_create_key (ae_rand inside) (at_keyring a1) = Inr (key, k)" using key(2) a1(1) by simp
    note m2 = main_keyed [OF this inner]
    have "out \<noteq> Replaced args" for args
      using inner assms(3) by (cases rule: main_cases [where E = inside and a = a1 and argv = argv])
        (auto simp: try_bwrap_self_sandbox_def)
    with m2 a1 have k': "at_keyring a' = k" and d: "?idle \<or> ?ran inside" by simp_all
    from key k' have "length key = 32 \<and> fetch_or_create_key g (at_keyring a') = Inr (key, at_keyring a')" by simp
    with d show ?thesis by blast
  qed
qed

section \<open>The name of a vault\<close>

lemma split_on_plain: "d \<notin> set x \<Longrightarrow> split_on d x = [x]"
  by (induction x) auto

lemma split_on_nonempty: "split_on d s \<noteq> []"
  by (induction s) (auto split: list.splits)

lemma split_on_last: "d \<notin> set x \<Longrightarrow> split_on d (b @ d # x) = split_on d b @ [x]"
  by (induction b) (auto simp: split_on_plain split_on_nonempty split: list.splits)

lemma path_join_slash:
  assumes "base \<noteq> []" "p \<noteq> []" "CHR ''/'' \<notin> set p"
  obtains b where "path_join base p = b @ CHR ''/'' # p" "path_join base p = base @ p \<or> path_join base p = base @ ''/'' @ p"
proof (cases "last base = CHR ''/''")
  case True
  with assms have "base @ p = butlast base @ CHR ''/'' # p" using append_butlast_last_id [of base] by (metis append_Cons append_Nil append_assoc)
  moreover have "path_join base p = base @ p" using True assms by (cases p) (auto simp: path_join_def)
  ultimately show ?thesis using that by metis
next
  case False
  with assms that [of base] show ?thesis by (cases p) (auto simp: path_join_def)
qed

lemma file_name_join:
  assumes "base \<noteq> []" "p \<noteq> []" "CHR ''/'' \<notin> set p" "p \<noteq> ''.''" "p \<noteq> ''..''"
  shows "file_name (path_join base p) = Some p"
proof -
  obtain b where "path_join base p = b @ CHR ''/'' # p" using path_join_slash [OF assms(1-3)] .
  with split_on_last [OF assms(3), of b] assms show ?thesis by (simp add: file_name_def)
qed

lemma file_stem_join:
  assumes "base \<noteq> []" "n \<noteq> []" "CHR ''/'' \<notin> set n"
  shows "file_stem (path_join base (n @ ''.aegis'')) = Some n"
proof -
  have "n @ ''.aegis'' \<noteq> ''.''" "n @ ''.aegis'' \<noteq> ''..''" using assms(2) by (cases n; simp)+
  then have "file_name (path_join base (n @ ''.aegis'')) = Some (n @ ''.aegis'')"
    using assms by (intro file_name_join) simp_all
  with assms(2) show ?thesis by (simp add: file_stem_def)
qed

lemma parse_vault_name_Inr:
  assumes "parse_vault_name s = Inr n"
  shows "n = s" "s \<noteq> []" "length s \<le> 32" "list_all (\<lambda>c. is_alphanumeric c \<or> c = CHR ''_'' \<or> c = CHR ''-'') s"
    "is_valid_vault_name s"
proof -
  from assms show r: "n = s" "length s \<le> 32" "list_all (\<lambda>c. is_alphanumeric c \<or> c = CHR ''_'' \<or> c = CHR ''-'') s"
    by (auto simp: parse_vault_name_def result_simps list_all_iff list_ex_iff)
  from assms show n: "s \<noteq> []" by (auto simp: parse_vault_name_def result_simps trim_def)
  have "CHR ''/'' \<notin> set s" "CHR 0x5C \<notin> set s" "CHR 0x00 \<notin> set s"
    using r(3) by (auto simp: list_all_iff is_alphanumeric_def Let_def)
  with n show "is_valid_vault_name s" by (simp add: is_valid_vault_name_def)
qed

text \<open>The vault's name given on the command line stays a name: it has between 1 and 32 characters, all of
  them ASCII letters, digits, underscore or hyphen, and the window would accept it too; the file that is
  created lies directly in the given directory under that name, whatever the directory, and the name can be
  read back from it; the whole path has at most 4135 characters.\<close>

theorem vault_name_stays_a_name:
  assumes "clap_ok parse" "parse argv = Inr (Some (CmdCreate c))"
    "full = path_join (ca_vault_path c) (ca_vault_name c @ ''.aegis'')"
  shows "0 < length (ca_vault_name c) \<and> length (ca_vault_name c) \<le> 32 \<and> is_valid_vault_name (ca_vault_name c) \<and>
    list_all (\<lambda>ch. is_alphanumeric ch \<or> ch = CHR ''_'' \<or> ch = CHR ''-'') (ca_vault_name c) \<and>
    file_name full = Some (ca_vault_name c @ ''.aegis'') \<and> file_stem full = Some (ca_vault_name c) \<and>
    (full = ca_vault_path c @ ca_vault_name c @ ''.aegis'' \<or> full = ca_vault_path c @ ''/'' @ ca_vault_name c @ ''.aegis'') \<and>
    length full \<le> 4135"
proof -
  let ?n = "ca_vault_name c" and ?p = "ca_vault_path c"
  have v: "parse_vault_path ?p = Inr ?p" "parse_vault_name ?n = Inr ?n" using assms(1,2) unfolding clap_ok_def by (metis validated.simps(1))+
  from v(1) have p: "?p \<noteq> []" "length ?p \<le> 4096" by (auto simp: parse_vault_path_def result_simps)
  note n = parse_vault_name_Inr [OF v(2)]
  have s: "CHR ''/'' \<notin> set (?n @ ''.aegis'')" "?n @ ''.aegis'' \<noteq> []" "?n @ ''.aegis'' \<noteq> ''.''" "?n @ ''.aegis'' \<noteq> ''..''"
    using n(2,5) by (cases ?n; simp add: is_valid_vault_name_def)+
  have f: "file_name full = Some (?n @ ''.aegis'')" unfolding assms(3) by (rule file_name_join [OF p(1) s(2,1,3,4)])
  have st: "file_stem full = Some ?n" unfolding assms(3) using n(5) by (intro file_stem_join p n(2)) (simp add: is_valid_vault_name_def)
  have j: "full = ?p @ ?n @ ''.aegis'' \<or> full = ?p @ ''/'' @ ?n @ ''.aegis''"
    unfolding assms(3) by (rule path_join_slash [OF p(1) s(2,1)])
  then have "length full \<le> 4135" using p(2) n(3) by auto
  with n f st j show ?thesis by simp
qed

section \<open>A concrete machine\<close>

definition demo_create_args :: CreateArgs where
  "demo_create_args = \<lparr>ca_vault_path = ''/home/u'', ca_vault_name = ''v'', ca_kdf = ''argon2id'', ca_memory = None,
     ca_transform_rounds = Some 3, ca_decryption_time = 1000, ca_parallelism = Some 4, ca_generate_passphrase = False\<rparr>"

definition demo_cli_text :: string where "demo_cli_text = ''/home/u/v.aegis''"

definition demo_cli_path :: path where "demo_cli_path = [''home'', ''u'', ''v.aegis'']"

definition demo_clap :: clap where
  "demo_clap argv =
     (if argv = [''atom'', ''create''] then Inr (Some (CmdCreate demo_create_args))
      else if argv = [''atom'', ''enter''] then Inr (Some (CmdEnter demo_cli_text)) else Inl 2)"

lemma demo_clap_ok: "clap_ok demo_clap"
proof -
  have "validated (Some (CmdCreate demo_create_args))" "validated (Some (CmdEnter demo_cli_text))"
    by (simp_all add: demo_create_args_def demo_cli_text_def) code_simp+
  then show ?thesis by (auto simp: clap_ok_def demo_clap_def simp del: validated.simps)
qed

theorem vault_name_stays_a_name_witness:
  "clap_ok demo_clap \<and> demo_clap [''atom'', ''create''] = Inr (Some (CmdCreate demo_create_args)) \<and>
   file_name ''/home/u/v.aegis'' = Some ''v.aegis'' \<and> file_stem ''/home/u/v.aegis'' = Some ''v'' \<and> is_valid_vault_name ''v''"
proof -
  have d: "demo_clap [''atom'', ''create''] = Inr (Some (CmdCreate demo_create_args))" by (simp add: demo_clap_def)
  have "''/home/u/v.aegis'' = path_join (ca_vault_path demo_create_args) (ca_vault_name demo_create_args @ ''.aegis'')"
    by (simp add: demo_create_args_def path_join_def)
  from vault_name_stays_a_name [OF demo_clap_ok d this] demo_clap_ok d show ?thesis by (simp add: demo_create_args_def)
qed

definition demo_cli_os :: os where
  "demo_cli_os = demo_os\<lparr>os_metadata := [''/usr'' \<mapsto> IsDir, demo_cli_text \<mapsto> IsOther, ''/run/atom_staging'' \<mapsto> IsDir],
     os_path_fd := [''/usr'' \<mapsto> [''usr''], demo_cli_text \<mapsto> demo_cli_path, ''/run/atom_staging'' \<mapsto> [''run'', ''atom_staging'']]\<rparr>"

definition demo_cli_host :: host where
  "demo_cli_host = demo_host\<lparr>canonicalize := (\<lambda>s. Some (filter (\<lambda>c. c \<noteq> []) (split_on (CHR ''/'') s)))\<rparr>"

definition demo_atom_env :: atom_env where
  "demo_atom_env = \<lparr>ae_clap = demo_clap, ae_os = demo_cli_os, ae_landlock = demo_landlock, ae_vault = demo_lib, ae_live = demo_live,
     ae_daemon = demo_daemon_env, ae_rlimit = (True, True), ae_bwrap = False, ae_exe = None, ae_exec_ok = True, ae_rand = (\<lambda>_. 0),
     ae_openable = (\<lambda>_. True), ae_mkdir_ok = True, ae_left_behind = [], ae_threads = 8, ae_measured = 0, ae_words = [],
     ae_ttys = (demo_tty, demo_tty), ae_entry = demo_entry \<lparr>fbytes = [], fpos = 0\<rparr> [''exit''], ae_sha3 = (\<lambda>_. []), ae_onion_key = [],
     ae_tor = Inr False, ae_inbound = [], ae_dial = (\<lambda>_ _ _. False), ae_modified = 0, ae_reply = None, ae_world = demo_world,
     ae_stun = \<lparr>st_bind = False, st_send = False, st_now = 0, st_arrivals = []\<rparr>, ae_pastes = (id, id), ae_gui = demo_gui_env,
     ae_events = []\<rparr>"

definition demo_atom :: atom where
  "demo_atom = \<lparr>at_host = demo_cli_host, at_memlock = (64, 128), at_keyring = \<lparr>reachable = True, items = [], readable = True, storable = True\<rparr>,
     at_registry = demo_reg, at_friends = demo_home, at_live = demo_live_home 1, at_received = Map.empty\<rparr>"

lemma demo_key: "fetch_or_create_key (ae_rand demo_atom_env) (at_keyring demo_atom) =
    Inr (replicate 32 0, \<lparr>reachable = True, items = [replicate 32 0], readable = True, storable = True\<rparr>)"
  by (simp add: fetch_or_create_key_def demo_atom_def demo_atom_env_def Let_def) code_simp

lemma demo_cli_paths:
  "path_join (ca_vault_path demo_create_args) (ca_vault_name demo_create_args @ ''.aegis'') = demo_cli_text"
  "resolve_target demo_cli_host demo_cli_text = demo_cli_path" "canonicalize demo_cli_host demo_cli_text = Some demo_cli_path"
  "disk demo_cli_host demo_cli_path = None" "creatable demo_cli_host demo_cli_path"
  by (simp_all add: demo_create_args_def path_join_def demo_cli_host_def demo_host_def demo_cli_text_def demo_cli_path_def)

lemma demo_not_caged: "snd (try_bwrap_self_sandbox (ae_os demo_atom_env) (ae_bwrap demo_atom_env) (ae_exe demo_atom_env) (ae_exec_ok demo_atom_env) argv) \<noteq> Caged args"
  by (simp add: try_bwrap_self_sandbox_def demo_atom_env_def)

lemma demo_main_staging: "main_staging (ae_os demo_atom_env) \<noteq> None"
  by (simp add: main_staging_def demo_atom_env_def demo_cli_os_def demo_os_def)

text \<open>The first invocation creates the vault.\<close>

lemma demo_cli_created:
  obtains f a1 where "main demo_atom_env [''atom'', ''create''] demo_atom = (a1, ExitCode 0)"
    "disk (at_host a1) demo_cli_path = Some (fbytes f)" "length (fbytes (f :: File)) \<le> 125 + METADATA_LIMIT"
proof -
  obtain f r where c: "create_vault demo_lib ''pw'' KdfSettings_default False (\<lambda>_. 0) = Inr (f, r)"
    "length (fbytes f) \<le> 125 + METADATA_LIMIT" by (rule demo_created)
  have "to_lowercase ''argon2id'' \<noteq> ''scrypt''" by (simp add: to_lowercase_def to_lower_def)
  moreover have "trim ''pw'' \<noteq> []" by code_simp
  ultimately have hc: "handle_create demo_lib ''argon2id'' None (Some 3) (Some 4) 8 0 1000 (Typed ''pw'' ''pw'') False (\<lambda>_. 0) = Inr (f, r)"
    using c(1) by (simp add: handle_create_def demo_settings)
  let ?b = "prepared demo_atom_env (replicate 32 0) \<lparr>reachable = True, items = [replicate 32 0], readable = True, storable = True\<rparr> demo_atom"
  have h: "at_host ?b = demo_cli_host" by (simp add: demo_atom_def)
  have pw: "cli_password demo_atom_env False = Inr (Typed ''pw'' ''pw'')"
    by (simp add: cli_password_def demo_atom_env_def demo_password)
  have args: "ca_kdf demo_create_args = ''argon2id''" "ca_memory demo_create_args = None" "ca_transform_rounds demo_create_args = Some 3"
    "ca_parallelism demo_create_args = Some 4" "ca_decryption_time demo_create_args = 1000" "\<not> ca_generate_passphrase demo_create_args"
    by (simp_all add: demo_create_args_def)
  have env: "ae_vault demo_atom_env = demo_lib" "ae_threads demo_atom_env = 8" "ae_measured demo_atom_env = 0" "ae_rand demo_atom_env = (\<lambda>_. 0)"
    "ae_mkdir_ok demo_atom_env" by (simp_all add: demo_atom_env_def)
  have d: "dispatch demo_atom_env (Some (CmdCreate demo_create_args)) ?b = (set_file demo_cli_path (fbytes f) ?b, Done)"
    unfolding dispatch_create_enter cli_create_def Let_def h demo_cli_paths using hc args env pw demo_cli_paths(5) by simp
  have cl: "ae_clap demo_atom_env [''atom'', ''create''] = Inr (Some (CmdCreate demo_create_args))" by (simp add: demo_atom_env_def demo_clap_def)
  have "main demo_atom_env [''atom'', ''create''] demo_atom = (set_file demo_cli_path (fbytes f) ?b, ExitCode 0)"
    using main_runs [OF demo_key cl demo_not_caged demo_main_staging d] by simp
  moreover have "disk (at_host (set_file demo_cli_path (fbytes f) ?b)) demo_cli_path = Some (fbytes f)" by (simp add: set_file_def)
  ultimately show thesis using that c(2) by blast
qed

text \<open>Any shell that is told to exit ends.\<close>

lemma exit_shell: "fst (shell_loop L uv env [''exit''] st) = Exited"
proof -
  have "split_whitespace (trim ''exit'') = [''exit'']" by code_simp
  then show ?thesis by (simp add: shell_dispatch_def)
qed

theorem created_on_the_command_line_enters_witness:
  "\<exists>a1 a2 r. main demo_atom_env [''atom'', ''create''] demo_atom = (a1, ExitCode 0) \<and>
     main demo_atom_env [''atom'', ''enter''] a1 = (a2, ExitCode 0) \<and>
     handle_enter demo_lib demo_landlock demo_cli_os demo_cli_text ((entering demo_atom_env demo_cli_text a1)\<lparr>en_sync_ok := True\<rparr>) = Inr r \<and>
     vault_inv (sess (in_start r)) \<and> vault_view demo_lib (in_vault r) (sess (in_start r)) = Map.empty"
proof -
  let ?E = demo_atom_env
  obtain f a1 where m: "main ?E [''atom'', ''create''] demo_atom = (a1, ExitCode 0)"
    and dk: "disk (at_host a1) demo_cli_path = Some (fbytes f)" and len: "length (fbytes (f :: File)) \<le> 125 + METADATA_LIMIT"
    by (rule demo_cli_created)
  have small: "length b \<le> 125 + METADATA_LIMIT" if "disk (at_host a1) demo_cli_path = Some b" for b using that dk len by simp
  have env: "ae_vault ?E = demo_lib" "ae_clap ?E = demo_clap" "ae_landlock ?E = demo_landlock" "ae_os ?E = demo_cli_os"
    "ae_entry ?E = demo_entry \<lparr>fbytes = [], fpos = 0\<rparr> [''exit'']" "ae_ttys ?E = (demo_tty, demo_tty)" "ae_openable ?E demo_cli_path"
    by (simp_all add: demo_atom_env_def)
  have cl: "ae_clap ?E [''atom'', ''create''] = Inr (Some (CmdCreate demo_create_args))" "ae_clap ?E [''atom'', ''enter''] = Inr (Some (CmdEnter demo_cli_text))"
    by (simp_all add: env demo_clap_def)
  have host: "at_host demo_atom = demo_cli_host" "readable (at_keyring demo_atom)" by (simp_all add: demo_atom_def)
  have gen: "\<not> ca_generate_passphrase demo_create_args" by (simp add: demo_create_args_def)
  have p: "demo_cli_path = resolve_target (at_host demo_atom) (path_join (ca_vault_path demo_create_args) (ca_vault_name demo_create_args @ ''.aegis''))"
    "canonicalize (at_host demo_atom) demo_cli_text = Some demo_cli_path" unfolding host demo_cli_paths by simp_all
  have en: "en_flush_ok (ae_entry ?E)" "en_sync_ok (ae_entry ?E)"
    "snd (read_password_pinentry (en_tty (ae_entry ?E))) = snd (read_password_pinentry (fst (ae_ttys ?E)))"
    by (simp_all add: env demo_entry_def)
  obtain rules where sb: "apply_process_sandbox (ae_landlock ?E) (ae_os ?E) [''/usr'', ''/etc''] [demo_cli_text, enter_staging (ae_os ?E)] = Inr rules"
    unfolding env by (simp add: apply_process_sandbox_def enter_staging_def demo_cli_os_def demo_os_def demo_cli_text_def) (simp add: demo_landlock_def)
  from created_on_the_command_line_enters [OF _ _ env(1) env(1) host(2) cl(1) gen m p small cl(2) env(7) en(1,3) sb demo_not_caged demo_main_staging]
  obtain r a2 where r: "handle_enter demo_lib demo_landlock demo_cli_os demo_cli_text ((entering ?E demo_cli_text a1)\<lparr>en_sync_ok := True\<rparr>) = Inr r"
    "vault_inv (sess (in_start r)) \<and> vault_view demo_lib (in_vault r) (sess (in_start r)) = Map.empty"
    "main ?E [''atom'', ''enter''] a1 = (a2, if in_end r = Spinning then Never else ExitCode (if en_sync_ok (ae_entry ?E) then 0 else 1))"
    using demo_ok demo_aead_ok unfolding env by auto
  have "in_end r = Exited"
  proof (rule handle_enter_Inr [OF r(1)])
    assume "shell_loop demo_lib (in_vault r) (confine_env demo_landlock (in_rules r) (en_tmp ((entering ?E demo_cli_text a1)\<lparr>en_sync_ok := True\<rparr>))
        (en_env ((entering ?E demo_cli_text a1)\<lparr>en_sync_ok := True\<rparr>))) (en_lines ((entering ?E demo_cli_text a1)\<lparr>en_sync_ok := True\<rparr>)) (in_start r) =
      (in_end r, in_shell r, in_events r)"
    moreover have "en_lines ((entering ?E demo_cli_text a1)\<lparr>en_sync_ok := True\<rparr>) = [''exit'']" by (simp add: entering_def env demo_entry_def)
    ultimately show ?thesis using exit_shell by (metis fst_conv)
  qed
  with m r en(2) show ?thesis by auto
qed

text \<open>Outside, bubblewrap is there; inside, the variable of the cage is set.\<close>

definition demo_outer :: atom_env where
  "demo_outer = demo_atom_env\<lparr>ae_bwrap := True, ae_exe := Some ''/usr/bin/atom''\<rparr>"

definition demo_inner :: atom_env where
  "demo_inner = demo_atom_env\<lparr>ae_os := demo_cli_os\<lparr>os_var := (os_var demo_cli_os)(''ATOM_BWRAP_SANDBOX'' \<mapsto> ''1'')\<rparr>\<rparr>"

theorem one_command_with_one_key_witness:
  "\<exists>key a' out. (\<exists>args. snd (main demo_outer [''atom'', ''create''] demo_atom) = Replaced args) \<and>
     invoke demo_outer demo_inner [''atom'', ''create''] demo_atom = (a', out) \<and> length key = 32 \<and>
     fetch_or_create_key (\<lambda>_. 3) (at_keyring a') = Inr (key, at_keyring a')"
proof -
  have k: "fetch_or_create_key (ae_rand demo_outer) (at_keyring demo_atom) =
      Inr (replicate 32 0, \<lparr>reachable = True, items = [replicate 32 0], readable = True, storable = True\<rparr>)"
    using demo_key by (simp add: demo_outer_def demo_atom_env_def)
  have "\<exists>args. snd (try_bwrap_self_sandbox (ae_os demo_outer) (ae_bwrap demo_outer) (ae_exe demo_outer) (ae_exec_ok demo_outer) [''atom'', ''create'']) = Caged args"
    by (simp add: try_bwrap_self_sandbox_def demo_outer_def demo_atom_env_def demo_cli_os_def demo_os_def demo_cli_text_def os_exists_def Let_def)
  with k have "\<exists>args. snd (main demo_outer [''atom'', ''create''] demo_atom) = Replaced args" by (auto simp: main_def Let_def)
  moreover obtain a' out where "invoke demo_outer demo_inner [''atom'', ''create''] demo_atom = (a', out)" by fastforce
  moreover note k
  moreover have "readable (at_keyring demo_atom)" "os_var (ae_os demo_inner) ''ATOM_BWRAP_SANDBOX'' \<noteq> None"
    by (simp_all add: demo_atom_def demo_inner_def)
  ultimately show ?thesis using one_command_with_one_key [where g = "\<lambda>_. 3" and a = demo_atom and E = demo_outer and inside = demo_inner] by blast
qed

end
