(* ===== verification/Spec2Isabelle.thy ===== *)
theory Spec2Isabelle
  imports VaultTheorems NetTheorems LiveTheorems SyncTheorems LiveCmdTheorems ProcessTheorems ChannelTheorems
    GuiTheorems GuiP2PTheorems DaemonTheorems CliTheorems
begin

text \<open>
  \<^bold>\<open>Atom Vault.\<close> The program keeps files in one encrypted container file (a vault), lets its user work on
  it in a shell or in a window, and moves whole vaults between two users, either chunk by chunk over a
  Tor tunnel (\<open>p2p-sync\<close>) or by a live transfer (\<open>p2p-live\<close>). This development models the Rust code of
  the three crates \<open>atom\<close>, \<open>p2p-live\<close> and \<open>p2p-sync\<close> and proves what makes it correct. A definition has
  the name of the function it translates; where one Rust function is split, the parts are definitions
  of their own, composed as the function composes them.

  \<^bold>\<open>How the parts work together.\<close> A vault file is a header with the wrapped key, encrypted chunks, and an
  encrypted index whose position the header names. The commands \<open>create\<close>, \<open>import\<close>, \<open>rm\<close>, \<open>vacuum\<close>,
  \<open>export\<close>, \<open>cat\<close> and \<open>ls\<close> act on an open vault; the shell and the graphical explorer are two front ends
  over the same commands. Before a password is used the process confines itself with Landlock, and
  files outside the vault are read, written and shown by a broker thread that was started before. A
  friend is a key and an onion address in an encrypted book; the daemon admits friends only, and asks
  the user before it writes a shared vault. A live peer is paired by a spoken code, found again through
  sealed records in blind stores, reached by a ladder of paths, authenticated by a pinned hybrid
  session and a post-quantum proof, and sent a payload whose length the traffic does not show.

  \<^bold>\<open>Vault.\<close>
  \<^item> \<open>Prelude\<close>: bytes, endian encodings, results with errors, random bytes, ASCII text, list lemmas.
  \<^item> \<open>FileIO\<close>: \<open>std::fs::File\<close> as bytes and a position. \<open>Crypto\<close>: \<open>crypto/mod.rs\<close>.
    \<open>VaultStore\<close>: \<open>vfs/mod.rs\<close>, \<open>chunker.rs\<close>, \<open>storage.rs\<close>. \<open>VaultOps\<close>: the commands of
    \<open>commands/create.rs\<close>, \<open>import.rs\<close>, \<open>export.rs\<close>, \<open>rm.rs\<close>, \<open>vacuum.rs\<close>. The state is the record
    \<open>session\<close>: the file, the index, the write position and the random source.
  \<^item> \<open>VaultInv\<close>, \<open>VaultVacuum\<close>: the invariant of an open vault (chunks lie apart inside the file and each
    decrypts), the contents it denotes, a partial map from names to bytes, and the effect of every
    command on both.
  \<^item> \<open>Paths\<close>, \<open>Staging\<close>, \<open>Display\<close>: importing from and exporting to the staging directory, shredding,
    and \<open>cat\<close> on the terminal. \<open>Shell\<close>: the loop of \<open>commands/shell.rs\<close>; its locale \<open>command_machine\<close>
    lifts the refinement of single commands to sessions and is interpreted on the shell and, in
    \<open>Explorer\<close>, on the graphical explorer.
  \<^item> \<open>VaultTheorems\<close>: every command does to the map what its name says and nothing else, keeps the
    invariant and is durable as long as the index stays below the limit of the loader; a session of the shell is the
    lines typed, each with its effect on the map (\<open>line_effect\<close>); \<open>cat\<close> prints the bytes of the file with
    every ASCII control replaced.

  \<^bold>\<open>Processes.\<close>
  \<^item> \<open>Sandbox\<close>, \<open>Bwrap\<close>: \<open>sandbox.rs\<close>, the Landlock ruleset and the argument lists for bubblewrap.
    \<open>Enter\<close>: \<open>secure_input.rs\<close> and \<open>commands/enter.rs\<close>. \<open>Desktop\<close>, \<open>Viewer\<close>, \<open>Broker\<close>:
    \<open>commands/view.rs\<close> and \<open>gui/broker.rs\<close>; viewers, closing and the interrupt handler interleave in the
    step function \<open>vstep\<close>, requests in \<open>broker_step\<close>.
  \<^item> \<open>ProcessTheorems\<close>: an entered shell and a viewer can reach only what is meant, no interleaving leaves
    plaintext behind, every request gets one answer.

  \<^bold>\<open>Graphical interface.\<close>
  \<^item> \<open>GuiApp\<close>, \<open>GuiRun\<close>: \<open>gui/mod.rs\<close>, \<open>login.rs\<close>, \<open>explorer.rs\<close>, \<open>home.rs\<close> over one vault; the record
    \<open>AtomVaultApp\<close> is the application, \<open>gui\<close> adds the world it acts on, \<open>run_gui\<close> runs a list of events
    (controls, edits, dialog results, broker progress, frames). A control acts only on the screen that
    shows it. \<open>GuiContents\<close>: what each event does to the contents of the open vault (\<open>event_effect\<close>), and that a run
    does what its events say.
  \<^item> \<open>GuiLive\<close>: the panel of \<open>gui/live.rs\<close>. \<open>GuiSync\<close>: \<open>gui/p2p.rs\<close> and the daemon's requests.
  \<^item> \<open>GuiTheorems\<close>: a vault is open only while the rules for a chosen vault are in force, created vaults unlock,
    imports and renames arrive, a session does to the map what its events say. \<open>GuiP2PTheorems\<close>: two panels that
    pair show each other, at most one transfer runs, every request gets one end that an event explains, and two ways
    in which the panel loses what the user did.

  \<^bold>\<open>Command line.\<close>
  \<^item> \<open>Cli\<close>: \<open>cli.rs\<close> and \<open>main.rs\<close>. The record \<open>atom\<close> is what the program keeps between two starts, \<open>main\<close> is
    one start and \<open>invoke\<close> one start with the cage it may replace itself by; \<open>dispatch\<close> runs the commands
    of the other theories on that record.
  \<^item> \<open>CliTheorems\<close>: a vault created by one start opens in the next, one start runs at most one command and
    only with the key of the keyring, a vault's name stays in its directory.

  \<^bold>\<open>Live transfer.\<close>
  \<^item> \<open>Wire\<close>, \<open>Address\<close>, \<open>Identity\<close>, \<open>Tickets\<close>, \<open>Links\<close>: the encodings. The locales \<open>wire_codec\<close>,
    \<open>canonical_codec\<close> and \<open>text_form\<close> state round trips and canonicity once; they are interpreted on
    integers, hints, tickets and links.
  \<^item> \<open>Records\<close>, \<open>Discovery\<close>, \<open>Blind\<close>: slots, sealed records, publishing and resolving over stores that
    may do anything. The locale \<open>role_split\<close> states that two peers get complementary roles; it is
    interpreted on directions, dialling roles and daily keys.
  \<^item> \<open>Framing\<close>, \<open>Pacing\<close>, \<open>Stun\<close>, \<open>PqAuth\<close>, \<open>Pairing\<close>, \<open>SecureChannel\<close>: one protocol layer each.
  \<^item> \<open>Reach\<close>, \<open>Ladder\<close>: dialling, accepting and the ladder of paths; the locale \<open>ladder_rung\<close> is what each
    rung keeps, and holds of their composition. \<open>LiveTransfer\<close>, \<open>TransferRun\<close>: the resumable transfer.
  \<^item> \<open>AddrText\<close>, \<open>LiveCommands\<close>, \<open>LiveCmdProofs\<close>: \<open>commands/live.rs\<close> on the user's home directory.
  \<^item> \<open>NetTheorems\<close>, \<open>LiveTheorems\<close>, \<open>ChannelTheorems\<close>, \<open>LiveCmdTheorems\<close>: transfers arrive and install
    only verified payloads, published addresses are found and are authentic, sessions are pinned,
    stored state is never corrupted or rolled back, pairing connects exactly the two users.

  \<^bold>\<open>Sharing between friends.\<close>
  \<^item> \<open>ChunkSync\<close>, \<open>NoiseTunnel\<close>, \<open>DailyAddress\<close>: \<open>p2p-sync\<close>, the fetch tasks of a synchronisation as
    interleaved events. \<open>Config\<close>, \<open>Friends\<close>, \<open>Registry\<close>: \<open>config_crypto.rs\<close>, the address book, the
    daemon and vault sharing, the list of vaults. \<open>SyncTheorems\<close>: synchronisation converges and damages nothing,
    the daemon admits only friends, the book stays consistent, shared vaults arrive.
  \<^item> \<open>DaemonRun\<close>: the accept loop of \<open>commands/daemon.rs\<close> and its tasks as interleaved events; a task is
    cut in two where it asks the user. \<open>DaemonTheorems\<close>: what an interleaving writes was proposed
    by an admitted friend and agreed to for this friend by the book or the user, an undisturbed task is the single stream of \<open>Friends\<close>, and a slow answer
    overwrites a book changed meanwhile.

  \<^bold>\<open>Parameters.\<close> Code of other crates and of the operating system is an argument, a record such as
  \<open>crypto_lib\<close>, \<open>vault_lib\<close>, \<open>key_lib\<close>, \<open>tls_lib\<close>, \<open>noise_lib\<close>, \<open>landlock\<close> or \<open>os\<close>. What is assumed of it
  is named: \<open>aead_ok\<close> (opening undoes sealing and accepts nothing else), \<open>hkdf_ok\<close> (output lengths),
  \<open>bincode_ok\<close>, \<open>json_ok\<close> (what was written is read), \<open>fastcdc_ok\<close> (cut points split the data),
  \<open>b32_ok\<close>, \<open>blake3_ok\<close>, \<open>pake_ok\<close>, \<open>ed_ok\<close>, \<open>pq_sig_ok\<close>, \<open>noise_ok\<close>, \<open>tls_ok\<close>, \<open>landlock_ok\<close>, \<open>bwrap_ok\<close>. The
  theories \<open>CryptoDemo\<close>, \<open>VaultDemo\<close>, \<open>LiveDemo\<close>, \<open>SyncDemo\<close> hold executable instances that satisfy
  them, and every theorem with a hypothesis has a witness on them.

  \<^bold>\<open>Errors, widths, loops.\<close> A fallible function returns a sum with the error on the left, so every early
  return is a branch; exiting the process is a value of its own. Widths are kept where the code depends
  on them (\<open>u8\<close> to \<open>u64\<close> as words, lengths cast as the code casts them). Loops are recursive functions
  that are total; only \<open>wait_for_viewer_exit\<close> polls without a bound in the code and has fuel, with
  a lemma that any fuel beyond the moment of release gives the result and a theorem that none does while
  the file is held. Concurrency is a list of events, and theorems quantify over every list. Times are
  natural numbers of nanoseconds given by the environment of each event.

  \<^bold>\<open>Not modelled.\<close> Drawing, layout and colours of the window (\<open>egui\<close>) and the formatting of byte counts,
  which has no effect on state; the parser \<open>clap\<close>, a parameter that has applied the validators of the
  command line; the panic hook, which only prints; the Tor client, the sockets below
  a session and their timeouts, which appear as what the network parameter answers; zeroing of memory
  inside the process; the text of log lines. The worker thread of the live panel runs its command in one
  step, so two commands of one user that write the state at the same moment are not interleaved. Writing, truncating
  and syncing an open vault file succeeds, as does overwriting a staged file before it is removed; failing saves of
  the index are failures of encryption or serialisation, and the renaming of the rewritten file in \<open>vacuum\<close> may fail.
  A ruleset belongs to the thread of the interface; the threads that run already when it is put in force, the
  broker's and the daemon's, are not bound by it. No thread panics in the broker. Received vaults are a store of
  their own beside the files of \<open>~/.atom_vault\<close>. Waits the code does not limit (the hellos of a rendezvous, the
  tasks of a synchronisation) take a time that the network gives, or are events that may not come: that they end is
  not shown. Text is ASCII: characters beyond it appear only in findings.
\<close>

end
